(* ===== verification/Prelude.thy ===== *)
theory Prelude
  imports Complex_Main "HOL-Library.AList"
begin

text \<open>
  Shared vocabulary of the development: the exceptions of \<^verbatim>\<open>fuzzhelm/core/errors.py\<close> and the
  built-in ones the code raises, the result type of a fallible call and its sequencing, Python
  dictionaries as insertion-ordered association lists, the generic run-invariant locale and a
  few facts on lists and options used by several components.
\<close>

section \<open>Exceptions and results\<close>

text \<open>
  One constructor per class of \<^verbatim>\<open>core/errors.py\<close> (with the payload that code reads back) and one
  per built-in exception that the modelled code raises or lets escape. \<open>InvalidOperation\<close> and
  \<open>DivisionByZero\<close> are the traps of the \<^verbatim>\<open>decimal\<close> context.
\<close>

datatype exn =
    FuzzHelmError
  | NormalizationError
  | LookaheadError
  | MainnetHostRejected
  | JournalIntegrityError int
  | ConfigValidationError
  | RiskHaltedError
  | PermissionDeniedError
  | OrderRejectedError
  | ValueError
  | KeyError
  | IndexError
  | TypeError
  | AssertionError
  | InvalidOperation
  | DivisionByZero
  | ZeroDivisionError
  | OverflowError

type_synonym 'a result = "exn + 'a"

definition rbind :: "'e + 'a \<Rightarrow> ('a \<Rightarrow> 'e + 'b) \<Rightarrow> 'e + 'b" where
  "rbind r f = (case r of Inl e \<Rightarrow> Inl e | Inr x \<Rightarrow> f x)"

lemma rbind_simps [simp]:
  "rbind (Inl e) f = Inl e"
  "rbind (Inr x) f = f x"
  by (simp_all add: rbind_def)

lemma rbind_Inr_iff: "rbind r f = Inr y \<longleftrightarrow> (\<exists>x. r = Inr x \<and> f x = Inr y)"
  by (cases r) auto

lemma rbind_InrE:
  assumes "rbind r f = Inr y"
  obtains x where "r = Inr x" and "f x = Inr y"
  using assms by (auto simp: rbind_Inr_iff)

lemma rbind_split:
  "P (rbind r f) \<longleftrightarrow> (\<forall>e. r = Inl e \<longrightarrow> P (Inl e)) \<and> (\<forall>x. r = Inr x \<longrightarrow> P (f x))"
  by (cases r) auto

lemma rbind_cong [fundef_cong]:
  "r = r' \<Longrightarrow> (\<And>x. r' = Inr x \<Longrightarrow> f x = g x) \<Longrightarrow> rbind r f = rbind r' g"
  by (cases r') auto

text \<open>Evaluation looks at the first computation only; the continuation is entered once its argument is known.\<close>

lemma rbind_weak_cong: "r = r' \<Longrightarrow> rbind r f = rbind r' f"
  by simp

text \<open>A comprehension whose element may raise stops at the first one that does.\<close>

fun mapres :: "('a \<Rightarrow> 'b result) \<Rightarrow> 'a list \<Rightarrow> 'b list result" where
  "mapres f [] = Inr []"
| "mapres f (x # xs) = rbind (f x) (\<lambda>y. rbind (mapres f xs) (\<lambda>ys. Inr (y # ys)))"

lemma mapres_ok: "mapres f xs = Inr ys \<Longrightarrow> length ys = length xs \<and> (\<forall>i < length xs. f (xs ! i) = Inr (ys ! i))"
proof (induction xs arbitrary: ys)
  case (Cons x xs)
  from Cons.prems obtain y ys' where y: "f x = Inr y" "mapres f xs = Inr ys'" "ys = y # ys'" by (auto simp: rbind_Inr_iff)
  from Cons.IH [OF y(2)] y show ?case by (auto simp: nth_Cons split: nat.splits)
qed simp

section \<open>Dictionaries\<close>

text \<open>
  A Python \<^verbatim>\<open>dict\<close> is an association list with distinct keys in insertion order: \<open>AList.update\<close>
  overwrites a present key in place and appends a new one, as \<^verbatim>\<open>d[k] = v\<close> does; \<open>map_of\<close> is
  \<^verbatim>\<open>d.get(k)\<close>. The order matters where the code iterates over the dictionary.
\<close>

type_synonym ('k, 'v) dict = "('k \<times> 'v) list"

abbreviation dget :: "('k, 'v) dict \<Rightarrow> 'k \<Rightarrow> 'v option" where
  "dget d k \<equiv> map_of d k"

abbreviation dset :: "('k, 'v) dict \<Rightarrow> 'k \<Rightarrow> 'v \<Rightarrow> ('k, 'v) dict" where
  "dset d k v \<equiv> AList.update k v d"

abbreviation ddel :: "('k, 'v) dict \<Rightarrow> 'k \<Rightarrow> ('k, 'v) dict" where
  "ddel d k \<equiv> AList.delete k d"

definition dict_ok :: "('k, 'v) dict \<Rightarrow> bool" where
  "dict_ok d \<longleftrightarrow> distinct (map fst d)"

lemma dget_dset [simp]: "dget (dset d k v) k' = (if k' = k then Some v else dget d k')"
  by (simp add: update_conv')

lemma dget_ddel [simp]: "dget (ddel d k) k' = (if k' = k then None else dget d k')"
  by (simp add: delete_conv')

lemma dict_ok_Nil [simp, intro]: "dict_ok []"
  by (simp add: dict_ok_def)

lemma dict_ok_dset [intro]: "dict_ok d \<Longrightarrow> dict_ok (dset d k v)"
  by (simp add: dict_ok_def distinct_update)

lemma dict_ok_ddel [intro]: "dict_ok d \<Longrightarrow> dict_ok (ddel d k)"
  by (simp add: dict_ok_def distinct_delete)

lemma dset_fresh: "dget d k = None \<Longrightarrow> dset d k v = d @ [(k, v)]"
  by (induction d) (auto split: if_splits)

lemma dget_in_set: "dget d k = Some v \<Longrightarrow> (k, v) \<in> set d"
  by (rule map_of_SomeD)

lemma dict_ok_dget: "dict_ok d \<Longrightarrow> (k, v) \<in> set d \<Longrightarrow> dget d k = Some v"
  by (simp add: dict_ok_def)

section \<open>Runs of a fallible operation\<close>

text \<open>
  A component with a fallible step is run over a list of inputs; an exception stops the run, as
  it would leave the caller's loop. Components interpret the locale with their own step and
  invariant, and get the invariant of every run from the one-step lemma.
\<close>

fun run_steps :: "('s \<Rightarrow> 'e \<Rightarrow> 's result) \<Rightarrow> 's \<Rightarrow> 'e list \<Rightarrow> 's result" where
  "run_steps step s [] = Inr s"
| "run_steps step s (e # es) = rbind (step s e) (\<lambda>s'. run_steps step s' es)"

locale step_invariant =
  fixes step :: "'s \<Rightarrow> 'e \<Rightarrow> 's result"
    and inv :: "'s \<Rightarrow> bool"
  assumes step_inv: "inv s \<Longrightarrow> step s e = Inr s' \<Longrightarrow> inv s'"
begin

lemma run_inv: "inv s \<Longrightarrow> run_steps step s es = Inr s' \<Longrightarrow> inv s'"
proof (induction es arbitrary: s)
  case Nil
  then show ?case by simp
next
  case (Cons e es)
  from Cons.prems(2) obtain t where t: "step s e = Inr t" "run_steps step t es = Inr s'"
    by (auto elim: rbind_InrE)
  from step_inv [OF Cons.prems(1) t(1)] t(2) show ?case by (rule Cons.IH)
qed

lemma run_prefix_inv:
  assumes "inv s" and "run_steps step s (es @ es') = Inr s'"
  obtains t where "run_steps step s es = Inr t" and "inv t" and "run_steps step t es' = Inr s'"
  using assms
proof (induction es arbitrary: s thesis)
  case Nil
  then show ?case by simp
next
  case (Cons e es)
  from Cons.prems(3) obtain t where t: "step s e = Inr t" "run_steps step t (es @ es') = Inr s'"
    by (auto elim: rbind_InrE)
  show ?case
  proof (rule Cons.IH [OF _ step_inv [OF Cons.prems(2) t(1)] t(2)])
    fix u
    assume "run_steps step t es = Inr u" "inv u" "run_steps step u es' = Inr s'"
    with t(1) show thesis by (intro Cons.prems(1)) auto
  qed
qed

end

section \<open>Signs\<close>

text \<open>\<^verbatim>\<open>(x > 0) - (x < 0)\<close>, repeated in several modules of the code as \<^verbatim>\<open>_sign\<close>.\<close>

definition sign_of :: "rat \<Rightarrow> int" where
  "sign_of x = (if 0 < x then 1 else 0) - (if x < 0 then 1 else 0)"

lemma sign_of_cases:
  "0 < x \<Longrightarrow> sign_of x = 1" "x < 0 \<Longrightarrow> sign_of x = - 1" "sign_of 0 = 0"
  by (simp_all add: sign_of_def)

lemma sign_of_eq_0 [simp]: "sign_of x = 0 \<longleftrightarrow> x = 0"
  by (auto simp: sign_of_def)

lemma sign_of_eq_1 [simp]: "sign_of x = 1 \<longleftrightarrow> 0 < x"
  by (auto simp: sign_of_def)

lemma sign_of_eq_m1 [simp]: "sign_of x = - 1 \<longleftrightarrow> x < 0"
  by (auto simp: sign_of_def)

lemma sign_of_times_abs: "of_int (sign_of x) * \<bar>x\<bar> = x"
  by (auto simp: sign_of_def)

lemma sign_of_mult_neg: "sign_of x * sign_of y < 0 \<longleftrightarrow> (0 < x \<and> y < 0) \<or> (x < 0 \<and> 0 < y)"
  by (auto simp: sign_of_def)

section \<open>Running the model\<close>

text \<open>
  The collection \<open>evals\<close> holds the equations with which the simplifier runs the model on literals;
  every theory adds its own. A \<open>let\<close> is entered once its value is a literal.
\<close>

named_theorems evals \<open>equations that evaluate the model on literals\<close>

lemma Let_eval [evals]: "x = y \<Longrightarrow> Let x f = f y"
  by simp

lemma Let_frac [evals]: "Let (x / y :: rat) f = f (x / y)"
  by simp

lemmas sign_eval [evals] = sign_of_def

lemma floor_eval [evals]:
  "\<lfloor>numeral a / numeral b :: rat\<rfloor> = numeral a div numeral b" "\<lfloor>1 / numeral b :: rat\<rfloor> = 1 div numeral b"
  using floor_divide_of_int_eq [of "numeral a" "numeral b", where ?'a = rat]
    floor_divide_of_int_eq [of 1 "numeral b", where ?'a = rat] by simp_all

end
