(* ===== verification/Rounding.thy ===== *)
theory Rounding
  imports Prelude "HOL-Library.Log_Nat"
begin

text \<open>
  Arithmetic with a bounded number of significant digits. \<open>sig_round b p t\<close> rounds a rational to
  the nearest number with \<open>p\<close> significant digits in base \<open>b\<close> and least exponent \<open>t\<close>, ties to
  even. Base 10 gives the operations of a \<^verbatim>\<open>decimal\<close> context (\<^verbatim>\<open>core/money.py\<close>), base 2 with 53
  digits the binary64 floats of the language. The laws the components use (monotone, odd,
  identity on representable numbers) are the locale \<open>rounding\<close>, interpreted on both.
  Overflow of the exponent range (above 1E+999999 and 1.8e308) is not modelled.
\<close>

section \<open>Rounding to an integer\<close>

definition round_half_even :: "rat \<Rightarrow> int" where
  "round_half_even x = (let f = \<lfloor>x\<rfloor>; d = x - of_int f in
     if d < 1/2 then f else if 1/2 < d then f + 1 else if even f then f else f + 1)"

lemma rhe_of_int [simp]: "round_half_even (of_int n) = n"
  by (simp add: round_half_even_def)

lemma rhe_bounds: "of_int (round_half_even x) \<le> x + 1/2" "x - 1/2 \<le> of_int (round_half_even x)"
proof -
  have fl: "of_int \<lfloor>x\<rfloor> \<le> x" "x < of_int \<lfloor>x\<rfloor> + 1" by linarith+
  show "of_int (round_half_even x) \<le> x + 1/2" "x - 1/2 \<le> of_int (round_half_even x)"
    unfolding round_half_even_def Let_def using fl by (simp_all split: if_split) linarith+
qed

lemma rhe_floor_or_ceiling:
  "\<lfloor>x\<rfloor> \<le> round_half_even x" "round_half_even x \<le> \<lfloor>x\<rfloor> + 1"
  by (auto simp: round_half_even_def Let_def)

lemma rhe_mono: "x \<le> y \<Longrightarrow> round_half_even x \<le> round_half_even y"
proof (cases "\<lfloor>x\<rfloor> = \<lfloor>y\<rfloor>")
  case True
  assume "x \<le> y"
  with True show ?thesis by (auto simp: round_half_even_def Let_def)
next
  case False
  assume "x \<le> y"
  with False have "\<lfloor>x\<rfloor> + 1 \<le> \<lfloor>y\<rfloor>" using floor_mono [OF \<open>x \<le> y\<close>] by simp
  with rhe_floor_or_ceiling [of x] rhe_floor_or_ceiling [of y] show ?thesis by linarith
qed

lemma rhe_minus: "round_half_even (- x) = - round_half_even x"
proof (cases "x = of_int \<lfloor>x\<rfloor>")
  case True
  then show ?thesis by (metis of_int_minus rhe_of_int)
next
  case False
  then have "\<lfloor>- x\<rfloor> = - \<lfloor>x\<rfloor> - 1"
    by linarith
  then show ?thesis by (auto simp: round_half_even_def Let_def)
qed

lemma rhe_nonneg: "0 \<le> x \<Longrightarrow> 0 \<le> round_half_even x"
  using rhe_mono [of 0 x] rhe_of_int [of 0] by simp

section \<open>The position of the leading digit\<close>

definition bpow :: "nat \<Rightarrow> int \<Rightarrow> rat" where
  "bpow b k = (of_nat b) powi k"

lemma bpow_pos: "0 < b \<Longrightarrow> 0 < bpow b k"
  by (simp add: bpow_def)

lemma bpow_add: "0 < b \<Longrightarrow> bpow b (i + j) = bpow b i * bpow b j"
  by (simp add: bpow_def power_int_add)

lemma bpow_diff: "0 < b \<Longrightarrow> bpow b (i - j) = bpow b i / bpow b j"
  by (simp add: bpow_def power_int_diff)

lemma bpow_of_nat: "bpow b (int n) = of_nat (b ^ n)"
  by (simp add: bpow_def)

lemma bpow_nonneg_int: "0 \<le> k \<Longrightarrow> bpow b k = of_int (int b ^ nat k)"
  using bpow_of_nat [of b "nat k"] by simp

lemma bpow_mono: "1 < b \<Longrightarrow> i \<le> j \<Longrightarrow> bpow b i \<le> bpow b j"
  by (simp add: bpow_def power_int_increasing)

lemma bpow_less_imp: "1 < b \<Longrightarrow> bpow b i < bpow b j \<Longrightarrow> i < j"
  using bpow_mono [of b j i] by (meson leI not_less)

definition ilog :: "nat \<Rightarrow> rat \<Rightarrow> int" where
  "ilog b x = (let (n, d) = quotient_of x;
                   k = int (floorlog b (nat n)) - int (floorlog b (nat d))
               in if bpow b k \<le> x then k else k - 1)"

lemma floorlog_nat_bounds:
  assumes "1 < b" and "0 < n"
  shows "bpow b (int (floorlog b n) - 1) \<le> of_nat n" and "of_nat n < bpow b (int (floorlog b n))"
proof -
  have fl: "1 \<le> floorlog b n" using assms by (simp add: floorlog_def)
  have "b ^ (floorlog b n - 1) \<le> n" "n < b ^ floorlog b n"
    using floorlog_bounds [OF assms(2,1)] by auto
  moreover have "bpow b (int (floorlog b n) - 1) = of_nat (b ^ (floorlog b n - 1))"
    using fl bpow_of_nat [of b "floorlog b n - 1"] by (simp add: of_nat_diff)
  moreover have "bpow b (int (floorlog b n)) = of_nat (b ^ floorlog b n)"
    by (rule bpow_of_nat)
  ultimately show "bpow b (int (floorlog b n) - 1) \<le> of_nat n" "of_nat n < bpow b (int (floorlog b n))"
    by (metis of_nat_le_iff, metis of_nat_less_iff)
qed

lemma ilog_bounds:
  assumes b: "1 < b" and x: "0 < x"
  shows "bpow b (ilog b x) \<le> x" and "x < bpow b (ilog b x + 1)"
proof -
  obtain n d where q: "quotient_of x = (n, d)" by (cases "quotient_of x")
  have d: "0 < d" using q by (rule quotient_of_denom_pos)
  have xe: "x = of_int n / of_int d" using q by (rule quotient_of_div)
  with x d have n: "0 < n" by (simp add: zero_less_divide_iff)
  define k where "k = int (floorlog b (nat n)) - int (floorlog b (nat d))"
  let ?N = "int (floorlog b (nat n))" and ?D = "int (floorlog b (nat d))"
  have N: "bpow b (?N - 1) \<le> of_int n" "of_int n < bpow b ?N"
    using floorlog_nat_bounds [OF b, of "nat n"] n by simp_all
  have D: "bpow b (?D - 1) \<le> of_int d" "of_int d < bpow b ?D"
    using floorlog_nat_bounds [OF b, of "nat d"] d by simp_all
  have pos: "0 < bpow b j" for j using b by (simp add: bpow_pos)
  have "of_int n / of_int d < bpow b ?N / bpow b (?D - 1)"
    using N(2) D(1) pos d n by (intro frac_less) auto
  then have up: "x < bpow b (k + 1)"
    using b bpow_diff [of b ?N "?D - 1"] by (simp add: xe k_def algebra_simps)
  have "bpow b (?N - 1) / bpow b ?D < of_int n / of_int d"
    using N(1) D(2) pos d n by (intro frac_less2) auto
  then have low: "bpow b (k - 1) \<le> x"
    using b bpow_diff [of b "?N - 1" ?D] by (simp add: xe k_def algebra_simps)
  have "ilog b x = (if bpow b k \<le> x then k else k - 1)"
    by (simp add: ilog_def q k_def)
  with low up show "bpow b (ilog b x) \<le> x" "x < bpow b (ilog b x + 1)" by auto
qed

lemma ilog_mono:
  assumes "1 < b" and "0 < x" and "x \<le> y"
  shows "ilog b x \<le> ilog b y"
proof -
  have "bpow b (ilog b x) < bpow b (ilog b y + 1)"
    using ilog_bounds [of b x] ilog_bounds [of b y] assms by linarith
  with assms(1) have "ilog b x < ilog b y + 1" by (rule bpow_less_imp)
  then show ?thesis by simp
qed

lemma ilog_eqI:
  assumes b: "1 < b" and x: "bpow b k \<le> x" "x < bpow b (k + 1)"
  shows "ilog b x = k"
proof -
  have "0 < bpow b k" using b by (intro bpow_pos) simp
  with x(1) have pos: "0 < x" by linarith
  have "bpow b (ilog b x) < bpow b (k + 1)" "bpow b k < bpow b (ilog b x + 1)"
    using ilog_bounds [OF b pos] x by linarith+
  then have "ilog b x < k + 1" "k < ilog b x + 1" using b by (blast intro: bpow_less_imp)+
  then show ?thesis by simp
qed

section \<open>Rounding to significant digits\<close>

definition sig_exp :: "nat \<Rightarrow> nat \<Rightarrow> int \<Rightarrow> rat \<Rightarrow> int" where
  "sig_exp b p t x = max (ilog b \<bar>x\<bar> - (int p - 1)) t"

definition sig_round :: "nat \<Rightarrow> nat \<Rightarrow> int \<Rightarrow> rat \<Rightarrow> rat" where
  "sig_round b p t x = (if x = 0 then 0 else
     let e = sig_exp b p t x in of_int (round_half_even (x / bpow b e)) * bpow b e)"

lemma sig_round_0 [simp]: "sig_round b p t 0 = 0"
  by (simp add: sig_round_def)

lemma sig_round_minus: "sig_round b p t (- x) = - sig_round b p t x"
  by (simp add: sig_round_def sig_exp_def Let_def rhe_minus)

text \<open>Below a power of the base that the grid of \<open>x\<close> contains, and from it on.\<close>

lemma rhe_scaled_le:
  assumes b: "1 < b" and e: "e \<le> k" and x: "x \<le> bpow b k"
  shows "of_int (round_half_even (x / bpow b e)) * bpow b e \<le> bpow b k"
proof -
  have pos: "0 < bpow b e" using b by (simp add: bpow_pos)
  have "x / bpow b e \<le> bpow b (k - e)"
    using x pos b by (simp add: bpow_diff divide_right_mono)
  also have "\<dots> = of_int (int b ^ nat (k - e))" using e by (intro bpow_nonneg_int) simp
  finally have "round_half_even (x / bpow b e) \<le> int b ^ nat (k - e)"
    using rhe_mono rhe_of_int by metis
  then have "of_int (round_half_even (x / bpow b e)) \<le> bpow b (k - e)"
    using e by (simp add: bpow_nonneg_int of_int_le_iff del: of_int_power)
  then show ?thesis using pos b by (simp add: bpow_diff pos_le_divide_eq)
qed

lemma rhe_scaled_ge:
  assumes b: "1 < b" and e: "e \<le> k" and x: "bpow b k \<le> x"
  shows "bpow b k \<le> of_int (round_half_even (x / bpow b e)) * bpow b e"
proof -
  have pos: "0 < bpow b e" using b by (simp add: bpow_pos)
  have "of_int (int b ^ nat (k - e)) = bpow b (k - e)" using e by (intro bpow_nonneg_int [symmetric]) simp
  also have "\<dots> \<le> x / bpow b e"
    using x pos b by (simp add: bpow_diff divide_right_mono)
  finally have "int b ^ nat (k - e) \<le> round_half_even (x / bpow b e)"
    using rhe_mono rhe_of_int by metis
  then have "bpow b (k - e) \<le> of_int (round_half_even (x / bpow b e))"
    using e by (simp add: bpow_nonneg_int of_int_le_iff del: of_int_power)
  then show ?thesis using pos b by (simp add: bpow_diff pos_divide_le_eq)
qed

lemma sig_round_mono_pos:
  assumes b: "1 < b" and p: "0 < p" and x: "0 < x" and xy: "x \<le> y"
  shows "sig_round b p t x \<le> sig_round b p t y"
proof -
  have y: "0 < y" using x xy by simp
  define ex where "ex = sig_exp b p t x"
  define ey where "ey = sig_exp b p t y"
  have sx: "sig_round b p t x = of_int (round_half_even (x / bpow b ex)) * bpow b ex"
    using x by (simp add: sig_round_def ex_def Let_def)
  have sy: "sig_round b p t y = of_int (round_half_even (y / bpow b ey)) * bpow b ey"
    using y by (simp add: sig_round_def ey_def Let_def)
  have lg: "ilog b x \<le> ilog b y" using b x xy by (rule ilog_mono)
  have exy: "ex \<le> ey" using lg x y by (auto simp: ex_def ey_def sig_exp_def)
  show ?thesis
  proof (cases "ex = ey")
    case True
    have pos: "0 < bpow b ey" using b by (simp add: bpow_pos)
    have "x / bpow b ey \<le> y / bpow b ey" using xy pos by (simp add: divide_right_mono)
    then have "round_half_even (x / bpow b ey) \<le> round_half_even (y / bpow b ey)" by (rule rhe_mono)
    then show ?thesis using pos by (simp add: sx sy True mult_right_mono)
  next
    case False
    with exy have lt: "ex < ey" by simp
    then have ey: "ey = ilog b y - (int p - 1)" and less: "ilog b x < ilog b y"
      using x y by (auto simp: ex_def ey_def sig_exp_def)
    have "x < bpow b (ilog b x + 1)" using b x by (rule ilog_bounds)
    also have "\<dots> \<le> bpow b (ilog b y)" using b less by (intro bpow_mono) auto
    finally have "x \<le> bpow b (ilog b y)" by simp
    moreover have "ex \<le> ilog b y" using lt ey p by simp
    ultimately have "sig_round b p t x \<le> bpow b (ilog b y)" using b by (simp add: sx rhe_scaled_le)
    also have "\<dots> \<le> sig_round b p t y"
      using b p ilog_bounds(1) [OF b y] by (simp add: sy rhe_scaled_ge ey)
    finally show ?thesis .
  qed
qed

lemma sig_round_nonneg: "1 < b \<Longrightarrow> 0 \<le> x \<Longrightarrow> 0 \<le> sig_round b p t x"
  by (simp add: sig_round_def Let_def rhe_nonneg bpow_pos less_imp_le)

lemma sig_round_mono:
  assumes b: "1 < b" and p: "0 < p" and xy: "x \<le> y"
  shows "sig_round b p t x \<le> sig_round b p t y"
proof (cases "0 < x")
  case True
  then show ?thesis using b p xy by (intro sig_round_mono_pos)
next
  case False
  show ?thesis
  proof (cases "0 \<le> y")
    case True
    then show ?thesis
      using False b sig_round_nonneg [of b y p t] sig_round_nonneg [of b "- x" p t]
      by (simp add: sig_round_minus)
  next
    case ny: False
    then have "sig_round b p t (- y) \<le> sig_round b p t (- x)"
      using b p xy by (intro sig_round_mono_pos) auto
    then show ?thesis by (simp add: sig_round_minus)
  qed
qed

text \<open>
  A number of at most \<open>p\<close> digits on the grid is unchanged: \<open>m\<close> times a power of the base not
  below the least exponent, with \<open>\<bar>m\<bar> < b ^ p\<close>.
\<close>

lemma sig_round_exact:
  assumes b: "1 < b" and m: "\<bar>m\<bar> < int b ^ p" and k: "t \<le> k"
  shows "sig_round b p t (of_int m * bpow b k) = of_int m * bpow b k"
proof (cases "m = 0")
  case False
  let ?x = "of_int m * bpow b k"
  have pk: "0 < bpow b j" for j using b by (simp add: bpow_pos)
  have ax: "\<bar>?x\<bar> = of_int \<bar>m\<bar> * bpow b k" using pk [of k] by (simp add: abs_mult)
  have x: "0 < \<bar>?x\<bar>" unfolding ax using False pk [of k] by simp
  define e where "e = sig_exp b p t ?x"
  have "bpow b (ilog b \<bar>?x\<bar>) \<le> of_int \<bar>m\<bar> * bpow b k" using ilog_bounds(1) [OF b x] ax by simp
  also have "\<dots> < of_int (int b ^ p) * bpow b k"
    using m pk [of k] by (intro mult_strict_right_mono) (simp_all only: of_int_less_iff)
  also have "\<dots> = bpow b (int p + k)" using b by (simp add: bpow_add bpow_of_nat)
  finally have "ilog b \<bar>?x\<bar> < int p + k" by (rule bpow_less_imp [OF b])
  with k have e: "e \<le> k" by (simp add: e_def sig_exp_def)
  then have "?x / bpow b e = of_int (m * int b ^ nat (k - e))"
    using b bpow_diff [of b k e] bpow_nonneg_int [of "k - e" b] by simp
  then have "of_int (round_half_even (?x / bpow b e)) = ?x / bpow b e" by (metis rhe_of_int)
  then show ?thesis using x pk [of e] by (simp add: sig_round_def Let_def e_def [symmetric])
qed simp

lemma sig_round_of_int: "1 < b \<Longrightarrow> \<bar>m\<bar> < int b ^ p \<Longrightarrow> t \<le> 0 \<Longrightarrow> sig_round b p t (of_int m) = of_int m"
  using sig_round_exact [of b m p t 0] by (simp add: bpow_def)

text \<open>Every result is such a number, so rounding twice is rounding once.\<close>

lemma rhe_scaled_bound:
  assumes b: "1 < b" and x: "x \<noteq> 0"
  shows "\<bar>round_half_even (x / bpow b (sig_exp b p t x))\<bar> \<le> int b ^ p"
proof -
  define e where "e = sig_exp b p t x"
  have pos: "0 < bpow b e" using b by (simp add: bpow_pos)
  have "\<bar>x\<bar> < bpow b (ilog b \<bar>x\<bar> + 1)" using b x by (intro ilog_bounds) auto
  also have "\<dots> \<le> bpow b (int p + e)" using b by (intro bpow_mono) (auto simp: e_def sig_exp_def)
  finally have "\<bar>x\<bar> / bpow b e \<le> of_int (int b ^ p)"
    using pos b by (simp add: bpow_add bpow_of_nat pos_divide_le_eq less_imp_le)
  then have le: "round_half_even \<bar>x / bpow b e\<bar> \<le> int b ^ p"
    using rhe_mono rhe_of_int pos by (metis abs_divide abs_of_pos)
  have "\<bar>round_half_even (x / bpow b e)\<bar> = round_half_even \<bar>x / bpow b e\<bar>"
    using rhe_nonneg [of "x / bpow b e"] rhe_nonneg [of "- (x / bpow b e)"]
    by (cases "0 \<le> x / bpow b e") (simp_all only: abs_of_nonneg abs_of_neg rhe_minus, linarith+)
  with le show ?thesis by (simp add: e_def)
qed

lemma sig_round_idem:
  assumes b: "1 < b" and p: "0 < p"
  shows "sig_round b p t (sig_round b p t x) = sig_round b p t x"
proof (cases "x = 0")
  case False
  define e where "e = sig_exp b p t x"
  define r where "r = round_half_even (x / bpow b e)"
  have sx: "sig_round b p t x = of_int r * bpow b e" using False by (simp add: sig_round_def Let_def e_def r_def)
  have te: "t \<le> e" by (simp add: e_def sig_exp_def)
  have rb: "\<bar>r\<bar> \<le> int b ^ p" using rhe_scaled_bound [OF b False] by (simp add: r_def e_def)
  show ?thesis
  proof (cases "\<bar>r\<bar> = int b ^ p")
    case True
    have "of_int \<bar>r\<bar> * bpow b e = bpow b (int p + e)"
      using b by (simp add: True bpow_add bpow_of_nat)
    moreover have "of_int r * bpow b e = of_int (sgn r) * (of_int \<bar>r\<bar> * bpow b e)"
      by (auto simp: sgn_if abs_if)
    ultimately have "of_int r * bpow b e = of_int (sgn r) * bpow b (int p + e)"
      by simp
    moreover have "\<bar>sgn r\<bar> < int b ^ p"
      using b p by (simp add: abs_sgn_eq one_less_power)
    ultimately show ?thesis using sig_round_exact [OF b, of "sgn r" p t "int p + e"] te
      by (simp add: sx)
  next
    case False
    with rb te show ?thesis unfolding sx by (intro sig_round_exact [OF b]) auto
  qed
qed simp

section \<open>The laws of rounding\<close>

text \<open>
  What the accounting and the risk rules rely on. \<open>rnd y = y\<close> says that \<open>y\<close> is representable;
  bounds by representable numbers survive rounding.
\<close>

locale rounding =
  fixes rnd :: "rat \<Rightarrow> rat"
  assumes rnd_mono: "x \<le> y \<Longrightarrow> rnd x \<le> rnd y"
    and rnd_minus: "rnd (- x) = - rnd x"
    and rnd_idem: "rnd (rnd x) = rnd x"
    and rnd_1: "rnd 1 = 1"
begin

lemma rnd_0 [simp]: "rnd 0 = 0"
  using rnd_minus [of 0] by simp

lemma rnd_nonneg: "0 \<le> x \<Longrightarrow> 0 \<le> rnd x"
  using rnd_mono [of 0 x] by simp

lemma rnd_nonpos: "x \<le> 0 \<Longrightarrow> rnd x \<le> 0"
  using rnd_mono [of x 0] by simp

lemma rnd_le: "rnd y = y \<Longrightarrow> x \<le> y \<Longrightarrow> rnd x \<le> y"
  using rnd_mono [of x y] by simp

lemma rnd_ge: "rnd y = y \<Longrightarrow> y \<le> x \<Longrightarrow> y \<le> rnd x"
  using rnd_mono [of y x] by simp

lemma rnd_le_1: "x \<le> 1 \<Longrightarrow> rnd x \<le> 1"
  using rnd_1 by (rule rnd_le)

lemma rnd_pos_imp: "0 < rnd x \<Longrightarrow> 0 < x"
  using rnd_nonpos [of x] by linarith

lemma rnd_neg_imp: "rnd x < 0 \<Longrightarrow> x < 0"
  using rnd_nonneg [of x] by linarith

lemma rnd_abs: "\<bar>rnd x\<bar> = rnd \<bar>x\<bar>"
  using rnd_nonneg [of x] rnd_nonpos [of x] rnd_minus [of x] by (auto simp: abs_if)

lemma rnd_less_imp: "rnd x < rnd y \<Longrightarrow> x < y"
  using rnd_mono [of y x] by linarith

end

lemma sig_round_rounding: "1 < b \<Longrightarrow> 0 < p \<Longrightarrow> t \<le> 0 \<Longrightarrow> rounding (sig_round b p t)"
  using sig_round_of_int [of b 1 p t]
  by unfold_locales (simp_all add: sig_round_mono sig_round_minus sig_round_idem one_less_power)

section \<open>The binary64 floats\<close>

text \<open>
  Round to nearest, ties to even, 53 significant bits, least exponent \<open>-1074\<close>: the result of an
  operation on finite floats whose exact value is \<open>x\<close>. NaN and the infinities are cases of the
  components that test for them.
\<close>

definition f64 :: "rat \<Rightarrow> rat" where
  "f64 x = sig_round 2 53 (- 1074) x"

interpretation f64: rounding f64
  unfolding f64_def by (rule sig_round_rounding) simp_all

lemma f64_dyadic: "\<bar>m\<bar> < 2 ^ 53 \<Longrightarrow> k \<le> 1074 \<Longrightarrow> f64 (of_int m / 2 ^ k) = of_int m / 2 ^ k"
  using sig_round_exact [of 2 m 53 "- 1074" "- int k"]
  by (simp add: f64_def bpow_def power_int_minus divide_inverse)

lemmas f64_int = f64_dyadic [where k = 0, simplified]

text \<open>
  A float as the code can meet it. Comparisons with a NaN are false; \<open>Fin\<close> carries the exact value.
\<close>

datatype pyfloat = Fin rat | NaN | PInf | NInf

fun f_isfinite :: "pyfloat \<Rightarrow> bool" where
  "f_isfinite (Fin x) = True"
| "f_isfinite f = False"

fun f_less :: "pyfloat \<Rightarrow> pyfloat \<Rightarrow> bool" where
  "f_less NaN g = False"
| "f_less f NaN = False"
| "f_less (Fin x) (Fin y) = (x < y)"
| "f_less NInf g = (g \<noteq> NInf)"
| "f_less f PInf = (f \<noteq> PInf)"
| "f_less f g = False"

fun f_le :: "pyfloat \<Rightarrow> pyfloat \<Rightarrow> bool" where
  "f_le NaN g = False"
| "f_le f NaN = False"
| "f_le (Fin x) (Fin y) = (x \<le> y)"
| "f_le NInf g = True"
| "f_le f PInf = True"
| "f_le f g = False"

fun f_val :: "pyfloat \<Rightarrow> rat" where
  "f_val (Fin x) = x"
| "f_val f = 0"

type_synonym dec = rat

text \<open>
  \<^verbatim>\<open>Decimal(repr(x))\<close> of a finite float: among the decimals that read back as \<open>x\<close> those with the fewest
  significant digits, and of these the nearest to \<open>x\<close>. Seventeen digits always suffice.
\<close>

definition repr_candidates :: "rat \<Rightarrow> nat \<Rightarrow> rat list" where
  "repr_candidates x d =
     (let e = ilog 10 x - (int d - 1); m = \<lfloor>x / bpow 10 e\<rfloor>
      in filter (\<lambda>y. f64 y = x) [of_int m * bpow 10 e, of_int (m + 1) * bpow 10 e])"

fun nearest :: "rat \<Rightarrow> rat list \<Rightarrow> rat" where
  "nearest x [] = x"
| "nearest x [y] = y"
| "nearest x (y # z # ys) = (if \<bar>y - x\<bar> \<le> \<bar>z - x\<bar> then y else z)"

definition float_repr_pos :: "rat \<Rightarrow> rat" where
  "float_repr_pos x = nearest x (hd (filter (\<lambda>c. c \<noteq> []) (map (repr_candidates x) [1..<18]) @ [[]]))"

definition float_repr :: "rat \<Rightarrow> dec" where
  "float_repr x = (if x = 0 then 0 else if x < 0 then - float_repr_pos (- x) else float_repr_pos x)"

text \<open>It reads back as the float it was taken from.\<close>

lemma nearest_in: "nearest x ys \<in> insert x (set ys)"
  by (cases "(x, ys)" rule: nearest.cases) auto

lemma repr_candidates_read_back: "y \<in> set (repr_candidates x d) \<Longrightarrow> f64 y = x"
  unfolding repr_candidates_def Let_def set_filter by blast

lemma float_repr_pos_reads_back:
  assumes "f64 x = x"
  shows "f64 (float_repr_pos x) = x"
proof -
  let ?cs = "filter (\<lambda>c. c \<noteq> []) (map (repr_candidates x) [1..<18])"
  have c: "\<forall>c \<in> set (?cs @ [[]]). \<forall>y \<in> set c. f64 y = x"
    by (auto dest: repr_candidates_read_back)
  have "hd (?cs @ [[]]) \<in> set (?cs @ [[]])" by (rule hd_in_set) simp
  with c have "\<forall>y \<in> set (hd (?cs @ [[]])). f64 y = x" by blast
  then have "\<forall>y \<in> insert x (set (hd (?cs @ [[]]))). f64 y = x" using assms by blast
  from bspec [OF this nearest_in] show ?thesis unfolding float_repr_pos_def .
qed

lemma float_repr_reads_back: "f64 x = x \<Longrightarrow> f64 (float_repr x) = x"
  using float_repr_pos_reads_back [of x] float_repr_pos_reads_back [of "- x"]
  by (auto simp: float_repr_def f64.rnd_minus)

section \<open>Decimal contexts\<close>

text \<open>
  The two contexts a process of the program can be in: Python's default one (28 digits) and the
  one \<^verbatim>\<open>core/money.py\<close> builds (\<^verbatim>\<open>DECIMAL_CONTEXT\<close>, 38 digits), which \<^verbatim>\<open>setup_decimal_context\<close>
  installs. Both round half to even and have the default exponent range. A finite \<^verbatim>\<open>Decimal\<close> is its
  value; the number of trailing zeros it carries is not modelled.
\<close>

datatype dctx = Default_ctx | Fuzzhelm_ctx

fun ctx_prec :: "dctx \<Rightarrow> nat" where
  "ctx_prec Default_ctx = 28"
| "ctx_prec Fuzzhelm_ctx = 38"

definition ctx_etiny :: "dctx \<Rightarrow> int" where
  "ctx_etiny cx = - 999999 - (int (ctx_prec cx) - 1)"

definition ctx_round :: "dctx \<Rightarrow> rat \<Rightarrow> dec" where
  "ctx_round cx x = sig_round 10 (ctx_prec cx) (ctx_etiny cx) x"

lemma ctx_prec_pos [simp]: "0 < ctx_prec cx"
  by (cases cx) simp_all

interpretation dr: rounding "ctx_round cx" for cx
  unfolding ctx_round_def by (rule sig_round_rounding) (simp_all add: ctx_etiny_def)

lemma ctx_round_of_int: "\<bar>m\<bar> < 10 ^ 28 \<Longrightarrow> ctx_round cx (of_int m) = of_int m"
  unfolding ctx_round_def
  by (rule sig_round_of_int) (cases cx; simp add: ctx_etiny_def)+

lemma ctx_round_scaled:
  assumes "\<bar>m\<bar> < 10 ^ 28" and "k \<le> 999999"
  shows "ctx_round cx (of_int m / 10 ^ k) = of_int m / 10 ^ k"
proof -
  have "of_int m * bpow 10 (- int k) = of_int m / 10 ^ k"
    by (simp add: bpow_def power_int_minus divide_inverse)
  moreover have "\<bar>m\<bar> < int 10 ^ ctx_prec cx" using assms(1) by (cases cx) simp_all
  moreover have "ctx_etiny cx \<le> - int k" using assms(2) by (cases cx) (simp_all add: ctx_etiny_def)
  ultimately show ?thesis
    using sig_round_exact [of 10 m "ctx_prec cx" "ctx_etiny cx" "- int k"]
    by (simp add: ctx_round_def)
qed

section \<open>Square root\<close>

text \<open>\<^verbatim>\<open>Decimal.sqrt\<close> is correctly rounded, half to even, in the digits of the context.\<close>

function isqrt :: "nat \<Rightarrow> nat" where
  "isqrt n = (if n = 0 then 0 else let r = 2 * isqrt (n div 4) in if (r + 1) * (r + 1) \<le> n then r + 1 else r)"
  by pat_completeness auto
termination by (relation "measure id") auto

declare isqrt.simps [simp del]

lemma isqrt_bounds: "isqrt n * isqrt n \<le> n \<and> n < (isqrt n + 1) * (isqrt n + 1)"
proof (induction n rule: isqrt.induct)
  case (1 n)
  show ?case
  proof (cases "n = 0")
    case True
    then show ?thesis by (simp add: isqrt.simps)
  next
    case False
    define r where "r = isqrt (n div 4)"
    have "r * r \<le> n div 4" "n div 4 < (r + 1) * (r + 1)" using 1 [OF False] by (simp_all add: r_def)
    then have b: "2 * r * (2 * r) \<le> n" "n < (2 * r + 2) * (2 * r + 2)"
      by (auto simp: algebra_simps)
    have "isqrt n = (if (2 * r + 1) * (2 * r + 1) \<le> n then 2 * r + 1 else 2 * r)"
      using False by (subst isqrt.simps) (simp add: r_def Let_def)
    with b show ?thesis by (simp add: algebra_simps split: if_split)
  qed
qed

lemma isqrt_mono: "m \<le> n \<Longrightarrow> isqrt m \<le> isqrt n"
proof (rule ccontr)
  assume "m \<le> n" "\<not> isqrt m \<le> isqrt n"
  then have "(isqrt n + 1) * (isqrt n + 1) \<le> isqrt m * isqrt m" by (intro mult_mono) auto
  with isqrt_bounds [of m] isqrt_bounds [of n] \<open>m \<le> n\<close> show False by linarith
qed

lemma isqrt_square: "0 \<le> n \<Longrightarrow> isqrt (nat (n * n)) = nat n"
proof -
  assume "0 \<le> n"
  then have m: "nat (n * n) = nat n * nat n" by (simp add: nat_mult_distrib)
  note b = isqrt_bounds [of "nat n * nat n"]
  have "\<not> nat n + 1 \<le> isqrt (nat n * nat n)"
  proof
    assume "nat n + 1 \<le> isqrt (nat n * nat n)"
    then have "(nat n + 1) * (nat n + 1) \<le> isqrt (nat n * nat n) * isqrt (nat n * nat n)" by (intro mult_le_mono)
    with b show False by simp
  qed
  moreover have "\<not> isqrt (nat n * nat n) + 1 \<le> nat n"
  proof
    assume "isqrt (nat n * nat n) + 1 \<le> nat n"
    then have "(isqrt (nat n * nat n) + 1) * (isqrt (nat n * nat n) + 1) \<le> nat n * nat n" by (intro mult_le_mono)
    with b show False by simp
  qed
  ultimately show ?thesis unfolding m by simp
qed

text \<open>\<open>sqrt_int y\<close> is the integer nearest to the square root of a rational \<open>y\<close>.\<close>

definition sqrt_int :: "rat \<Rightarrow> int" where
  "sqrt_int y = (let r = int (isqrt (nat \<lfloor>y\<rfloor>)); h = (of_int r + 1/2) * (of_int r + 1/2)
     in if y < h then r else if h < y then r + 1 else if even r then r else r + 1)"

definition dsqrt :: "dctx \<Rightarrow> dec \<Rightarrow> dec" where
  "dsqrt cx x = (if x \<le> 0 then 0 else
     let e = ilog 10 x div 2 - (int (ctx_prec cx) - 1) in of_int (sqrt_int (x / bpow 10 (2 * e))) * bpow 10 e)"

lemma sqrt_int_nonneg: "0 \<le> sqrt_int y"
  by (auto simp: sqrt_int_def Let_def)

lemma sqrt_int_mono:
  assumes "0 \<le> x" and "x \<le> y"
  shows "sqrt_int x \<le> sqrt_int y"
proof -
  let ?r = "int (isqrt (nat \<lfloor>x\<rfloor>))" and ?s = "int (isqrt (nat \<lfloor>y\<rfloor>))"
  have le: "?r \<le> ?s" using isqrt_mono [of "nat \<lfloor>x\<rfloor>" "nat \<lfloor>y\<rfloor>"] assms floor_mono [OF assms(2)] by simp
  have b: "?r \<le> sqrt_int x" "sqrt_int x \<le> ?r + 1" "?s \<le> sqrt_int y" by (auto simp: sqrt_int_def Let_def)
  show ?thesis
  proof (cases "?r = ?s")
    case True
    then show ?thesis using assms by (auto simp: sqrt_int_def Let_def)
  next
    case False
    with le b show ?thesis by linarith
  qed
qed

lemma sqrt_int_le: "0 \<le> n \<Longrightarrow> y \<le> of_int (n * n) \<Longrightarrow> sqrt_int y \<le> n"
proof (cases "0 \<le> y")
  case False
  assume "0 \<le> n"
  have "\<lfloor>y\<rfloor> \<le> 0" using False by linarith
  then have "sqrt_int y = 0" using False by (simp add: sqrt_int_def isqrt.simps [of 0])
  with \<open>0 \<le> n\<close> show ?thesis by simp
next
  case True
  assume n: "0 \<le> n" and y: "y \<le> of_int (n * n)"
  have "sqrt_int y \<le> sqrt_int (of_int (n * n))" using True y by (rule sqrt_int_mono)
  also have "isqrt (nat (n * n)) = nat n" using n by (rule isqrt_square)
  then have "sqrt_int (of_int (n * n)) = n"
  proof -
    have "(of_int n * of_int n :: rat) < (of_int n + 1/2) * (of_int n + 1/2)"
      using n by (simp add: algebra_simps)
    with \<open>isqrt (nat (n * n)) = nat n\<close> n show ?thesis
      unfolding sqrt_int_def Let_def floor_of_int by simp
  qed
  finally show ?thesis .
qed

text \<open>\<^verbatim>\<open>math.sqrt\<close> is correctly rounded too; the root of a float is never halfway between two floats and never subnormal.\<close>

definition f64_sqrt :: "rat \<Rightarrow> rat" where
  "f64_sqrt x = (if x \<le> 0 then 0 else let e = ilog 2 x div 2 - 52 in of_int (sqrt_int (x / bpow 2 (2 * e))) * bpow 2 e)"

lemma f64_sqrt_nonneg: "0 \<le> f64_sqrt x"
  using sqrt_int_nonneg by (auto simp: f64_sqrt_def Let_def bpow_def)

lemma dsqrt_nonneg: "0 \<le> dsqrt cx x"
  using sqrt_int_nonneg by (auto simp: dsqrt_def Let_def bpow_def)

text \<open>The root is monotone: within a range of exponents by \<open>sqrt_int_mono\<close>, across ranges by the digit bounds.\<close>

lemma sqrt_int_ge: "0 \<le> n \<Longrightarrow> of_int (n * n) \<le> y \<Longrightarrow> n \<le> sqrt_int y"
proof -
  assume n: "0 \<le> n" and y: "of_int (n * n) \<le> y"
  have "int (isqrt (nat (n * n))) \<le> int (isqrt (nat \<lfloor>y\<rfloor>))"
    using y by (intro of_nat_mono isqrt_mono nat_mono) (simp only: le_floor_iff)
  then have "n \<le> int (isqrt (nat \<lfloor>y\<rfloor>))" using isqrt_square [OF n] n by simp
  also have "\<dots> \<le> sqrt_int y" by (auto simp: sqrt_int_def Let_def)
  finally show ?thesis .
qed

lemma dsqrt_digits:
  assumes x: "0 < x" and k: "k = ilog 10 x div 2"
  shows "bpow 10 k \<le> dsqrt cx x" and "dsqrt cx x \<le> bpow 10 (k + 1)"
proof -
  define e where "e = k - (int (ctx_prec cx) - 1)"
  define p where "p = int (ctx_prec cx)"
  have p: "1 \<le> p" unfolding p_def using ctx_prec_pos [of cx] by linarith
  have pos: "0 < bpow 10 j" for j by (simp add: bpow_def)
  have d: "dsqrt cx x = of_int (sqrt_int (x / bpow 10 (2 * e))) * bpow 10 e"
    using x by (simp add: dsqrt_def e_def k Let_def)
  have l: "2 * k \<le> ilog 10 x" "ilog 10 x + 1 \<le> 2 * (k + 1)" using k by presburger+
  have xb: "bpow 10 (2 * k) \<le> x" "x \<le> bpow 10 (2 * (k + 1))"
    using ilog_bounds [of 10 x] x bpow_mono [OF _ l(1), of 10] bpow_mono [OF _ l(2), of 10] by auto
  have sq: "bpow 10 (2 * j) = of_int (10 ^ nat j * 10 ^ nat j)" if "0 \<le> j" for j
  proof -
    have "nat (2 * j) = nat j + nat j" using that by (simp add: nat_mult_distrib)
    with bpow_nonneg_int [of "2 * j" 10] that show ?thesis by (simp only: power_add of_int_eq_iff) simp
  qed
  have "bpow 10 (2 * k) / bpow 10 (2 * e) = bpow 10 (2 * (p - 1))"
    by (simp add: bpow_diff [symmetric] e_def p_def algebra_simps)
  then have "of_int (10 ^ nat (p - 1) * 10 ^ nat (p - 1)) \<le> x / bpow 10 (2 * e)"
    using divide_right_mono [OF xb(1), of "bpow 10 (2 * e)"] pos sq [of "p - 1"] p by (simp add: less_imp_le)
  then have "10 ^ nat (p - 1) \<le> sqrt_int (x / bpow 10 (2 * e))" by (intro sqrt_int_ge) simp_all
  then have "of_int (10 ^ nat (p - 1)) * bpow 10 e \<le> dsqrt cx x"
    unfolding d using pos [of e] by (intro mult_right_mono) (simp_all only: of_int_le_iff less_imp_le)
  moreover have "of_int (10 ^ nat (p - 1)) * bpow 10 e = bpow 10 k"
    using bpow_nonneg_int [of "p - 1" 10] p bpow_add [of 10 "p - 1" e] by (simp add: e_def p_def)
  ultimately show "bpow 10 k \<le> dsqrt cx x" by simp
  have "bpow 10 (2 * (k + 1)) / bpow 10 (2 * e) = bpow 10 (2 * p)"
    by (simp add: bpow_diff [symmetric] e_def p_def algebra_simps)
  then have "x / bpow 10 (2 * e) \<le> of_int (10 ^ nat p * 10 ^ nat p)"
    using divide_right_mono [OF xb(2), of "bpow 10 (2 * e)"] pos sq [of p] p by (simp add: less_imp_le)
  then have "sqrt_int (x / bpow 10 (2 * e)) \<le> 10 ^ nat p" by (intro sqrt_int_le) simp_all
  then have "dsqrt cx x \<le> of_int (10 ^ nat p) * bpow 10 e"
    unfolding d using pos [of e] by (intro mult_right_mono) (simp_all only: of_int_le_iff less_imp_le)
  moreover have "of_int (10 ^ nat p) * bpow 10 e = bpow 10 (k + 1)"
    using bpow_nonneg_int [of p 10] p bpow_add [of 10 p e] by (simp add: e_def p_def)
  ultimately show "dsqrt cx x \<le> bpow 10 (k + 1)" by simp
qed

lemma dsqrt_mono:
  assumes "x \<le> y"
  shows "dsqrt cx x \<le> dsqrt cx y"
proof (cases "0 < x")
  case False
  then have "dsqrt cx x = 0" by (simp add: dsqrt_def)
  then show ?thesis using dsqrt_nonneg by simp
next
  case x: True
  with assms have y: "0 < y" by simp
  let ?k = "ilog 10 x div 2" and ?m = "ilog 10 y div 2"
  have le: "?k \<le> ?m" using ilog_mono [of 10 x y] x assms by (simp add: zdiv_mono1)
  show ?thesis
  proof (cases "?k = ?m")
    case True
    have pos: "0 < bpow 10 j" for j by (simp add: bpow_def)
    have "x / bpow 10 j \<le> y / bpow 10 j" "0 \<le> x / bpow 10 j" for j
      using assms x pos [of j] by (simp_all add: divide_right_mono less_imp_le)
    with True x y show ?thesis using pos
      by (simp add: dsqrt_def Let_def mult_right_mono sqrt_int_mono less_imp_le)
  next
    case False
    with le have "?k + 1 \<le> ?m" by simp
    then have "bpow 10 (?k + 1) \<le> bpow 10 ?m" by (intro bpow_mono) simp
    with dsqrt_digits(2) [OF x refl, of cx] dsqrt_digits(1) [OF y refl, of cx] show ?thesis by linarith
  qed
qed

lemma sqrt_int_square: "0 \<le> n \<Longrightarrow> sqrt_int (of_int (n * n)) = n"
  using sqrt_int_le [of n "of_int (n * n)"] sqrt_int_ge [of n "of_int (n * n)"] by simp

text \<open>The root of the square of a number of the context is that number.\<close>

lemma dsqrt_square:
  assumes s: "0 < s" "ctx_round cx s = s"
  shows "dsqrt cx (s * s) = s"
proof -
  define e where "e = ilog 10 s - (int (ctx_prec cx) - 1)"
  define t where "t = sig_exp 10 (ctx_prec cx) (ctx_etiny cx) s"
  have et: "e \<le> t" using s(1) by (simp add: e_def t_def sig_exp_def)
  have pos: "0 < bpow 10 j" for j by (simp add: bpow_def)
  have st: "s = of_int (round_half_even (s / bpow 10 t)) * bpow 10 t"
    using s by (simp add: ctx_round_def sig_round_def t_def Let_def)
  define n where "n = round_half_even (s / bpow 10 t) * 10 ^ nat (t - e)"
  have "bpow 10 t = of_int (10 ^ nat (t - e)) * bpow 10 e"
    using et bpow_nonneg_int [of "t - e" 10] bpow_add [of 10 "t - e" e] by simp
  with st have n: "s = of_int n * bpow 10 e" by (simp add: n_def)
  have n0: "0 \<le> n" using s(1) pos [of e] unfolding n by (simp add: zero_less_mult_iff)
  have b: "bpow 10 (ilog 10 s) \<le> s" "s < bpow 10 (ilog 10 s + 1)" using ilog_bounds [of 10 s] s(1) by simp_all
  have "bpow 10 (2 * ilog 10 s) \<le> s * s"
    using mult_mono [OF b(1) b(1)] s(1) pos [of "ilog 10 s"] bpow_add [of 10 "ilog 10 s" "ilog 10 s"] by (simp add: less_imp_le)
  moreover have "s * s < bpow 10 (2 * ilog 10 s + 1 + 1)"
    using mult_strict_mono [OF b(2) b(2)] s(1) pos [of "ilog 10 s + 1"] bpow_add [of 10 "ilog 10 s + 1" "ilog 10 s + 1"]
    by (simp add: less_imp_le algebra_simps)
  ultimately have "bpow 10 (2 * ilog 10 s) < bpow 10 (ilog 10 (s * s) + 1)" "bpow 10 (ilog 10 (s * s)) < bpow 10 (2 * ilog 10 s + 1 + 1)"
    using ilog_bounds [of 10 "s * s"] s(1) by (simp_all add: mult_pos_pos)
  note l = this
  have "2 * ilog 10 s < ilog 10 (s * s) + 1" by (rule bpow_less_imp [OF _ l(1)]) simp
  moreover have "ilog 10 (s * s) < 2 * ilog 10 s + 1 + 1" by (rule bpow_less_imp [OF _ l(2)]) simp
  ultimately have k: "ilog 10 (s * s) div 2 = ilog 10 s" by presburger
  have "s * s / bpow 10 (2 * e) = of_int (n * n)"
    using bpow_add [of 10 e e] pos [of e] by (simp add: n)
  then have "sqrt_int (s * s / bpow 10 (2 * e)) = n" using sqrt_int_square [OF n0] by simp
  moreover have "\<not> s * s \<le> 0" using s(1) by (simp add: not_le)
  moreover have "dsqrt cx (s * s) = (if s * s \<le> 0 then 0 else of_int (sqrt_int (s * s / bpow 10 (2 * e))) * bpow 10 e)"
    unfolding dsqrt_def k e_def Let_def ..
  ultimately show ?thesis using n by simp
qed

text \<open>Rules that let the simplifier evaluate the rounding of short decimal literals.\<close>

lemma ctx_round_ratio:
  assumes "(10 ^ 12 * m) mod n = 0" and "10 ^ 12 * m < 10 ^ 28 * n" and "0 \<le> m" and "0 < n"
  shows "ctx_round cx (of_int m / of_int n) = of_int m / of_int n"
proof -
  define q where "q = 10 ^ 12 * m div n"
  have q: "q * n = 10 ^ 12 * m" using assms(1) by (simp add: q_def mod_eq_0_iff_dvd)
  have v: "of_int m / of_int n = (of_int q / 10 ^ 12 :: rat)"
  proof -
    have "(of_int q * of_int n :: rat) = 10 ^ 12 * of_int m"
      using arg_cong [OF q, of "of_int :: int \<Rightarrow> rat"] by simp
    then show ?thesis using assms(4) by (simp add: field_simps)
  qed
  have "0 \<le> q" using assms(3,4) by (simp add: q_def pos_imp_zdiv_nonneg_iff)
  moreover have "q < 10 ^ 28"
  proof (rule ccontr)
    assume "\<not> q < 10 ^ 28"
    then have "10 ^ 28 * n \<le> q * n" using assms(4) by (intro mult_right_mono) auto
    with q assms(2) show False by simp
  qed
  ultimately show ?thesis unfolding v by (intro ctx_round_scaled) auto
qed

lemma ctx_round_numeral: "(numeral m :: int) < 10 ^ 28 \<Longrightarrow> ctx_round cx (numeral m) = numeral m"
  using ctx_round_of_int [of "numeral m"] by simp

lemma ctx_round_numeral_div:
  "(10 ^ 12 * numeral m :: int) mod numeral n = 0 \<Longrightarrow> (10 ^ 12 * numeral m :: int) < 10 ^ 28 * numeral n \<Longrightarrow>
     ctx_round cx (numeral m / numeral n) = numeral m / numeral n"
  using ctx_round_ratio [of "numeral m" "numeral n"] by simp

lemma ctx_round_inverse_int: "1 \<le> n \<Longrightarrow> (10 ^ 12 :: int) mod n = 0 \<Longrightarrow> ctx_round cx (1 / of_int n) = 1 / of_int n"
  using ctx_round_ratio [of 1 n cx] by simp

lemma ctx_round_one_div:
  "(10 ^ 12 :: int) mod numeral n = 0 \<Longrightarrow> ctx_round cx (1 / numeral n) = 1 / numeral n"
  using ctx_round_inverse_int [of "numeral n" cx] by (simp only: of_int_numeral one_le_numeral simp_thms)

lemmas ctx_eval = ctx_round_numeral ctx_round_numeral_div ctx_round_one_div dr.rnd_minus dr.rnd_1

end
