(* ===== verification/Money.thy ===== *)
theory Money
  imports Rounding
begin

text \<open>
  \<^verbatim>\<open>core/money.py\<close> and \<^verbatim>\<open>core/clock.py\<close>: decimal arithmetic under the current context, the
  quantisation of prices and quantities to an exchange grid, the manual clock and the start of
  the UTC day. Every operation takes the context the process runs in.
\<close>

section \<open>Arithmetic of a context\<close>

text \<open>
  \<^verbatim>\<open>+ - *\<close>, unary minus and \<^verbatim>\<open>abs\<close> of \<^verbatim>\<open>Decimal\<close> round their exact result. Division traps on a
  zero divisor; \<open>ddiv\<close> is the total form used where the code has excluded it.
\<close>

definition dadd :: "dctx \<Rightarrow> dec \<Rightarrow> dec \<Rightarrow> dec" where
  "dadd cx x y = ctx_round cx (x + y)"

definition dsub :: "dctx \<Rightarrow> dec \<Rightarrow> dec \<Rightarrow> dec" where
  "dsub cx x y = ctx_round cx (x - y)"

definition dmul :: "dctx \<Rightarrow> dec \<Rightarrow> dec \<Rightarrow> dec" where
  "dmul cx x y = ctx_round cx (x * y)"

definition ddiv :: "dctx \<Rightarrow> dec \<Rightarrow> dec \<Rightarrow> dec" where
  "ddiv cx x y = ctx_round cx (x / y)"

definition ddiv_trap :: "dctx \<Rightarrow> dec \<Rightarrow> dec \<Rightarrow> dec result" where
  "ddiv_trap cx x y = (if y = 0 then Inl (if x = 0 then InvalidOperation else DivisionByZero)
     else Inr (ddiv cx x y))"

definition dneg :: "dctx \<Rightarrow> dec \<Rightarrow> dec" where
  "dneg cx x = ctx_round cx (- x)"

definition dabs :: "dctx \<Rightarrow> dec \<Rightarrow> dec" where
  "dabs cx x = ctx_round cx \<bar>x\<bar>"

lemmas dec_ops = dadd_def dsub_def dmul_def ddiv_def dneg_def dabs_def

lemma dabs_nonneg [simp]: "0 \<le> dabs cx x"
  by (simp add: dabs_def dr.rnd_nonneg)

lemma dmul_nonneg: "0 \<le> x \<Longrightarrow> 0 \<le> y \<Longrightarrow> 0 \<le> dmul cx x y"
  by (simp add: dmul_def dr.rnd_nonneg)

lemma ddiv_nonneg: "0 \<le> x \<Longrightarrow> 0 \<le> y \<Longrightarrow> 0 \<le> ddiv cx x y"
  by (simp add: ddiv_def dr.rnd_nonneg)

lemma dadd_0 [simp]: "dadd cx x 0 = ctx_round cx x" "dadd cx 0 x = ctx_round cx x"
  by (simp_all add: dadd_def)

lemma dmul_0 [simp]: "dmul cx x 0 = 0" "dmul cx 0 x = 0"
  by (simp_all add: dmul_def)

lemma ddiv_self: "x \<noteq> 0 \<Longrightarrow> ddiv cx x x = 1"
  by (simp add: ddiv_def dr.rnd_1)

text \<open>A number the context can represent: the result of any operation, or a short literal.\<close>

definition repr :: "dctx \<Rightarrow> dec \<Rightarrow> bool" where
  "repr cx x \<longleftrightarrow> ctx_round cx x = x"

lemma repr_ops [simp]:
  "repr cx (ctx_round cx z)" "repr cx (dadd cx x y)" "repr cx (dsub cx x y)" "repr cx (dmul cx x y)"
  "repr cx (ddiv cx x y)" "repr cx (dneg cx x)" "repr cx (dabs cx x)" "repr cx 0" "repr cx 1"
  by (simp_all add: repr_def dec_ops dr.rnd_idem dr.rnd_1)

lemma repr_minus [simp]: "repr cx (- x) \<longleftrightarrow> repr cx x"
  by (simp add: repr_def dr.rnd_minus)

lemma repr_abs [simp]: "repr cx \<bar>x\<bar> \<longleftrightarrow> repr cx x"
  by (cases "0 \<le> x") simp_all

lemma dneg_repr: "repr cx x \<Longrightarrow> dneg cx x = - x"
  by (simp add: dneg_def repr_def dr.rnd_minus)

lemma dabs_repr: "repr cx x \<Longrightarrow> dabs cx x = \<bar>x\<bar>"
  by (metis dabs_def repr_abs repr_def)

lemma repr_of_int: "\<bar>m\<bar> < 10 ^ 28 \<Longrightarrow> repr cx (of_int m)"
  by (simp add: repr_def ctx_round_of_int)

lemma repr_scaled: "\<bar>m\<bar> < 10 ^ 28 \<Longrightarrow> k \<le> 999999 \<Longrightarrow> repr cx (of_int m / 10 ^ k)"
  by (simp add: repr_def ctx_round_scaled)

lemmas dec_eval [evals] = dec_ops ctx_eval repr_def

section \<open>Quantisation\<close>

text \<open>
  A grid step keeps its exponent, because \<^verbatim>\<open>quantize(step)\<close> rounds to it: \<^verbatim>\<open>Decimal("0.10")\<close> is
  \<open>10\<close> times ten to the \<open>-2\<close>. \<^verbatim>\<open>quantize\<close> traps when the result needs more digits than the
  context has; \<^verbatim>\<open>to_integral_value\<close> does not use the precision.
\<close>

datatype rounding_mode = ROUND_DOWN | ROUND_HALF_EVEN

record quantum =
  q_coef :: int
  q_exp :: int

definition qval :: "quantum \<Rightarrow> dec" where
  "qval s = of_int (q_coef s) * bpow 10 (q_exp s)"

fun to_integral_value :: "rounding_mode \<Rightarrow> dec \<Rightarrow> int" where
  "to_integral_value ROUND_DOWN x = sign_of x * \<lfloor>\<bar>x\<bar>\<rfloor>"
| "to_integral_value ROUND_HALF_EVEN x = round_half_even x"

definition dquantize :: "dctx \<Rightarrow> dec \<Rightarrow> int \<Rightarrow> dec result" where
  "dquantize cx x e = (let r = round_half_even (x / bpow 10 e) in
     if e < ctx_etiny cx \<or> 999999 < e \<or> 10 ^ ctx_prec cx \<le> \<bar>r\<bar> then Inl InvalidOperation
     else Inr (of_int r * bpow 10 e))"

definition quantize_step :: "dctx \<Rightarrow> dec \<Rightarrow> quantum \<Rightarrow> rounding_mode \<Rightarrow> dec result" where
  "quantize_step cx x step mode =
     (if qval step \<le> 0 then Inl ValueError
      else let n = to_integral_value mode (ddiv cx x (qval step))
           in dquantize cx (dmul cx (of_int n) (qval step)) (q_exp step))"

definition quantize_price :: "dctx \<Rightarrow> dec \<Rightarrow> quantum \<Rightarrow> dec result" where
  "quantize_price cx x tick = quantize_step cx x tick ROUND_HALF_EVEN"

definition floor_qty :: "dctx \<Rightarrow> dec \<Rightarrow> quantum \<Rightarrow> dec result" where
  "floor_qty cx x step = quantize_step cx x step ROUND_DOWN"

definition quantize_money :: "dctx \<Rightarrow> dec \<Rightarrow> dec result" where
  "quantize_money cx x = dquantize cx x (- 2)"

definition quantize_internal :: "dctx \<Rightarrow> dec \<Rightarrow> dec result" where
  "quantize_internal cx x = dquantize cx x (- 18)"

lemma bpow10_pos [simp]: "0 < bpow 10 k" "0 \<le> bpow 10 k" "bpow 10 k \<noteq> 0" "\<not> bpow 10 k < 0"
  using bpow_pos [of 10 k] by simp_all

lemma qval_pos_iff: "0 < qval s \<longleftrightarrow> 0 < q_coef s"
  by (simp add: qval_def zero_less_mult_iff)

lemma trunc_bounds:
  "0 \<le> x \<Longrightarrow> 0 \<le> to_integral_value ROUND_DOWN x"
  "0 \<le> x \<Longrightarrow> of_int (to_integral_value ROUND_DOWN x) \<le> x"
  "x \<le> 0 \<Longrightarrow> to_integral_value ROUND_DOWN x \<le> 0"
  "x \<le> 0 \<Longrightarrow> x \<le> of_int (to_integral_value ROUND_DOWN x)"
  by (auto simp: sign_of_def abs_if) linarith

lemma trunc_mono: "0 \<le> x \<Longrightarrow> x \<le> y \<Longrightarrow> to_integral_value ROUND_DOWN x \<le> to_integral_value ROUND_DOWN y"
  by (auto simp: sign_of_def abs_if floor_mono)

lemma trunc_of_int [simp]: "to_integral_value ROUND_DOWN (of_int n) = n"
  by (auto simp: sign_of_def)

lemma trunc_0 [simp]: "to_integral_value ROUND_DOWN 0 = 0"
  by (simp add: sign_of_def)

declare to_integral_value.simps [simp del]

lemma ctx_round_bpow:
  assumes "\<bar>m\<bar> < 10 ^ ctx_prec cx" and "ctx_etiny cx \<le> e"
  shows "ctx_round cx (of_int m * bpow 10 e) = of_int m * bpow 10 e"
  using sig_round_exact [of 10 m "ctx_prec cx" "ctx_etiny cx" e] assms by (simp add: ctx_round_def)

lemma ctx_round_bpow_full:
  assumes "ctx_etiny cx \<le> e"
  shows "ctx_round cx (of_int (10 ^ ctx_prec cx) * bpow 10 e) = of_int (10 ^ ctx_prec cx) * bpow 10 e"
proof -
  have "of_int (10 ^ ctx_prec cx) * bpow 10 e = of_int 1 * bpow 10 (int (ctx_prec cx) + e)"
    by (simp add: bpow_add bpow_of_nat)
  moreover have "ctx_etiny cx \<le> int (ctx_prec cx) + e" using assms by simp
  ultimately show ?thesis using ctx_round_bpow [of 1 cx "int (ctx_prec cx) + e"]
    by (simp add: one_less_power)
qed

text \<open>
  Whenever a quantisation succeeds, the multiplication back and the closing \<^verbatim>\<open>quantize\<close> were
  exact: a product too long for the context traps instead of being rounded.
\<close>

lemma dquantize_dmul_exact:
  assumes "dquantize cx (ctx_round cx (of_int m * bpow 10 e)) e = Inr r"
  shows "r = of_int m * bpow 10 e \<and> \<bar>m\<bar> < 10 ^ ctx_prec cx \<and> ctx_etiny cx \<le> e"
proof -
  let ?M = "10 ^ ctx_prec cx :: int"
  define v where "v = ctx_round cx (of_int m * bpow 10 e)"
  from assms have e: "ctx_etiny cx \<le> e" and small: "\<bar>round_half_even (v / bpow 10 e)\<bar> < ?M"
    and r: "r = of_int (round_half_even (v / bpow 10 e)) * bpow 10 e"
    by (auto simp: dquantize_def Let_def v_def not_le split: if_splits)
  have "\<bar>m\<bar> < ?M"
  proof (rule ccontr)
    assume "\<not> \<bar>m\<bar> < ?M"
    then have big: "?M \<le> \<bar>m\<bar>" by simp
    have full: "ctx_round cx (of_int ?M * bpow 10 e) = of_int ?M * bpow 10 e"
      using e by (rule ctx_round_bpow_full)
    have "of_int ?M * bpow 10 e \<le> of_int \<bar>m\<bar> * bpow 10 e"
      using big by (intro mult_right_mono) (simp_all only: of_int_le_iff bpow10_pos)
    then have "of_int ?M * bpow 10 e \<le> ctx_round cx (of_int \<bar>m\<bar> * bpow 10 e)"
      by (rule dr.rnd_ge [OF full])
    also have "\<dots> = \<bar>v\<bar>" by (simp add: v_def dr.rnd_abs abs_mult)
    finally have "of_int ?M \<le> \<bar>v\<bar> / bpow 10 e" by (simp only: pos_le_divide_eq bpow10_pos)
    then have "?M \<le> round_half_even (\<bar>v\<bar> / bpow 10 e)" using rhe_mono rhe_of_int by metis
    also have "\<dots> \<le> \<bar>round_half_even (v / bpow 10 e)\<bar>"
      by (cases "0 \<le> v") (simp_all add: rhe_minus)
    finally show False using small by simp
  qed
  with e have "v = of_int m * bpow 10 e" by (simp add: v_def ctx_round_bpow)
  with r e \<open>\<bar>m\<bar> < ?M\<close> show ?thesis by simp
qed

text \<open>\<open>on_grid cx s x\<close>: \<open>x\<close> is a multiple of the step with few enough digits for the context.\<close>

definition on_grid :: "dctx \<Rightarrow> quantum \<Rightarrow> dec \<Rightarrow> bool" where
  "on_grid cx s x \<longleftrightarrow> ctx_etiny cx \<le> q_exp s \<and> (\<exists>n. x = of_int n * qval s \<and> \<bar>n * q_coef s\<bar> < 10 ^ ctx_prec cx)"

lemma on_gridI:
  "ctx_etiny cx \<le> q_exp s \<Longrightarrow> \<bar>n * q_coef s\<bar> < 10 ^ ctx_prec cx \<Longrightarrow> on_grid cx s (of_int n * qval s)"
  by (auto simp: on_grid_def)

lemma on_grid_repr: "on_grid cx s x \<Longrightarrow> repr cx x"
  using ctx_round_bpow
  by (fastforce simp: on_grid_def qval_def repr_def mult.assoc [symmetric] simp flip: of_int_mult)

lemma quantize_step_InrD:
  assumes "quantize_step cx x s mode = Inr r"
  shows "0 < qval s" and "r = of_int (to_integral_value mode (ddiv cx x (qval s))) * qval s"
    and "on_grid cx s r"
proof -
  let ?n = "to_integral_value mode (ddiv cx x (qval s))"
  show pos: "0 < qval s" using assms by (auto simp: quantize_step_def split: if_splits)
  have eq: "of_int ?n * qval s = of_int (?n * q_coef s) * bpow 10 (q_exp s)" by (simp add: qval_def)
  have "dquantize cx (ctx_round cx (of_int (?n * q_coef s) * bpow 10 (q_exp s))) (q_exp s) = Inr r"
    unfolding eq [symmetric] using assms pos by (simp add: quantize_step_def dmul_def Let_def)
  from dquantize_dmul_exact [OF this] eq
  show "r = of_int ?n * qval s" "on_grid cx s r" by (auto simp: on_grid_def)
qed

lemma on_grid_step_ratio:
  assumes "on_grid cx s y" and "0 < qval s"
  shows "\<exists>n. y = of_int n * qval s \<and> ddiv cx y (qval s) = of_int n"
proof -
  from assms(1) obtain n where n: "y = of_int n * qval s" "\<bar>n * q_coef s\<bar> < 10 ^ ctx_prec cx"
    by (auto simp: on_grid_def)
  have "0 < q_coef s" using assms(2) by (simp add: qval_pos_iff)
  then have "\<bar>n\<bar> * 1 \<le> \<bar>n\<bar> * \<bar>q_coef s\<bar>" by (intro mult_left_mono) simp_all
  with n(2) have "\<bar>n\<bar> < 10 ^ ctx_prec cx" by (simp add: abs_mult)
  then have "ctx_round cx (of_int n) = of_int n"
    using ctx_round_bpow [of n cx 0] by (cases cx) (simp_all add: ctx_etiny_def bpow_def)
  with n(1) assms(2) show ?thesis by (intro exI [of _ n]) (simp add: ddiv_def)
qed

lemma ddiv_mono: "x \<le> y \<Longrightarrow> 0 < z \<Longrightarrow> ddiv cx x z \<le> ddiv cx y z"
  by (simp add: ddiv_def dr.rnd_mono divide_right_mono)

text \<open>
  The round-down of quantities never passes a grid point: not above one at or over \<open>x\<close>, not below
  one at or under it. So a quantity already on the grid is kept.
\<close>

lemma floor_qty_upper:
  assumes r: "floor_qty cx x s = Inr r" and x: "0 \<le> x" and y: "on_grid cx s y" "x \<le> y"
  shows "r \<le> y"
proof -
  have r': "quantize_step cx x s ROUND_DOWN = Inr r" using r by (simp add: floor_qty_def)
  note q = quantize_step_InrD [OF r']
  obtain n where n: "y = of_int n * qval s" "ddiv cx y (qval s) = of_int n"
    using on_grid_step_ratio [OF y(1) q(1)] by blast
  have "to_integral_value ROUND_DOWN (ddiv cx x (qval s)) \<le> to_integral_value ROUND_DOWN (of_int n)"
    using ddiv_mono [OF y(2) q(1), of cx] x q(1) n(2) by (intro trunc_mono) (simp_all add: ddiv_nonneg)
  then have "to_integral_value ROUND_DOWN (ddiv cx x (qval s)) \<le> n" by (simp only: trunc_of_int)
  then show ?thesis unfolding q(2) n(1) using q(1) by (intro mult_right_mono) simp_all
qed

lemma floor_qty_lower:
  assumes r: "floor_qty cx x s = Inr r" and y: "on_grid cx s y" "0 \<le> y" "y \<le> x"
  shows "y \<le> r"
proof -
  have r': "quantize_step cx x s ROUND_DOWN = Inr r" using r by (simp add: floor_qty_def)
  note q = quantize_step_InrD [OF r']
  obtain n where n: "y = of_int n * qval s" "ddiv cx y (qval s) = of_int n"
    using on_grid_step_ratio [OF y(1) q(1)] by blast
  have "(0::rat) \<le> of_int n" using n(2) y(2) q(1) ddiv_nonneg [of y "qval s" cx] by simp
  then have "to_integral_value ROUND_DOWN (of_int n) \<le> to_integral_value ROUND_DOWN (ddiv cx x (qval s))"
    using ddiv_mono [OF y(3) q(1), of cx] n(2) by (intro trunc_mono) simp_all
  then have "n \<le> to_integral_value ROUND_DOWN (ddiv cx x (qval s))" by (simp only: trunc_of_int)
  then show ?thesis unfolding q(2) n(1) using q(1) by (intro mult_right_mono) simp_all
qed

lemma floor_qty_nonneg: "floor_qty cx x s = Inr r \<Longrightarrow> 0 \<le> x \<Longrightarrow> 0 \<le> r"
  using quantize_step_InrD [of cx x s ROUND_DOWN r] trunc_bounds(1) [of "ddiv cx x (qval s)"]
  by (auto simp: floor_qty_def ddiv_nonneg)

lemma floor_qty_on_grid: "floor_qty cx x s = Inr r \<Longrightarrow> on_grid cx s r"
  using quantize_step_InrD(3) [of cx x s ROUND_DOWN r] by (simp add: floor_qty_def)

lemma floor_qty_zero: "floor_qty cx 0 s = Inr r \<Longrightarrow> r = 0"
  using quantize_step_InrD(2) [of cx 0 s ROUND_DOWN r] by (simp add: floor_qty_def ddiv_def)

lemma to_integral_of_int: "to_integral_value mode (of_int n) = n"
  by (cases mode) (simp_all add: to_integral_value.simps(2))

lemma quantize_step_grid:
  assumes "quantize_step cx y s mode = Inr b" and "on_grid cx s y"
  shows "b = y"
proof -
  note q = quantize_step_InrD [OF assms(1)]
  obtain n where "y = of_int n * qval s" "ddiv cx y (qval s) = of_int n"
    using on_grid_step_ratio [OF assms(2) q(1)] by blast
  with q(2) show ?thesis by (simp add: to_integral_of_int)
qed

text \<open>The rounding of prices is monotone and keeps prices on the grid.\<close>

lemma quantize_price_mono:
  assumes "quantize_price cx x s = Inr a" and "quantize_price cx y s = Inr b" and "x \<le> y"
  shows "a \<le> b"
proof -
  note p = quantize_step_InrD [OF assms(1) [unfolded quantize_price_def]]
  note q = quantize_step_InrD [OF assms(2) [unfolded quantize_price_def]]
  have "round_half_even (ddiv cx x (qval s)) \<le> round_half_even (ddiv cx y (qval s))"
    using assms(3) p(1) by (intro rhe_mono ddiv_mono)
  then show ?thesis unfolding p(2) q(2) to_integral_value.simps using p(1) by (intro mult_right_mono) simp_all
qed

lemma quantize_price_ge_grid:
  assumes a: "quantize_price cx x s = Inr a" and y: "on_grid cx s y"
  shows "y \<le> x \<Longrightarrow> y \<le> a" and "x \<le> y \<Longrightarrow> a \<le> y"
proof -
  note p = quantize_step_InrD [OF a [unfolded quantize_price_def]]
  obtain n where n: "y = of_int n * qval s" "ddiv cx y (qval s) = of_int n"
    using on_grid_step_ratio [OF y p(1)] by blast
  show "y \<le> a" if "y \<le> x"
  proof -
    have "round_half_even (of_int n) \<le> round_half_even (ddiv cx x (qval s))"
      using that p(1) n(2) by (metis ddiv_mono rhe_mono)
    then show ?thesis unfolding p(2) n(1) to_integral_value.simps using p(1) by (intro mult_right_mono) simp_all
  qed
  show "a \<le> y" if "x \<le> y"
  proof -
    have "round_half_even (ddiv cx x (qval s)) \<le> round_half_even (of_int n)"
      using that p(1) n(2) by (metis ddiv_mono rhe_mono)
    then show ?thesis unfolding p(2) n(1) to_integral_value.simps using p(1) by (intro mult_right_mono) simp_all
  qed
qed

text \<open>When the quotient is exact (a power-of-ten step and a short quantity), it rounds down.\<close>

lemma floor_qty_le:
  assumes r: "floor_qty cx x s = Inr r" and x: "0 \<le> x" and ex: "repr cx (x / qval s)"
  shows "r \<le> x"
proof -
  have r': "quantize_step cx x s ROUND_DOWN = Inr r" using r by (simp add: floor_qty_def)
  note q = quantize_step_InrD [OF r']
  have "of_int (to_integral_value ROUND_DOWN (x / qval s)) \<le> x / qval s"
    using x q(1) by (intro trunc_bounds) simp
  moreover have "ddiv cx x (qval s) = x / qval s" using ex by (simp add: ddiv_def repr_def)
  ultimately show ?thesis using q(1) unfolding q(2) by (simp only: pos_le_divide_eq)
qed

section \<open>Time\<close>

text \<open>\<^verbatim>\<open>core/clock.py\<close>: nanoseconds since the epoch are integers; the manual clock refuses to go back.\<close>

definition NS_PER_SEC :: int where "NS_PER_SEC = 1000000000"
definition NS_PER_MIN :: int where "NS_PER_MIN = 60 * NS_PER_SEC"
definition NS_PER_DAY :: int where "NS_PER_DAY = 86400 * NS_PER_SEC"

definition utc_day_start_ns :: "int \<Rightarrow> int" where
  "utc_day_start_ns t = t - t mod NS_PER_DAY"

record manual_clock =
  mc_t :: int

definition manual_clock_set :: "manual_clock \<Rightarrow> int \<Rightarrow> manual_clock result" where
  "manual_clock_set c t = (if t < mc_t c then Inl ValueError else Inr (c\<lparr>mc_t := t\<rparr>))"

definition manual_clock_advance :: "manual_clock \<Rightarrow> int \<Rightarrow> manual_clock result" where
  "manual_clock_advance c dt = manual_clock_set c (mc_t c + dt)"

lemma NS_PER_DAY_pos [simp]: "0 < NS_PER_DAY"
  by (simp add: NS_PER_DAY_def NS_PER_SEC_def)

lemma utc_day_start_bounds: "utc_day_start_ns t \<le> t" "t < utc_day_start_ns t + NS_PER_DAY"
  using pos_mod_bound [of NS_PER_DAY t] pos_mod_sign [of NS_PER_DAY t]
  by (simp_all add: utc_day_start_ns_def)

lemma utc_day_start_dvd: "NS_PER_DAY dvd utc_day_start_ns t"
  by (simp add: utc_day_start_ns_def minus_mod_eq_mult_div)

lemma utc_day_start_idem [simp]: "utc_day_start_ns (utc_day_start_ns t) = utc_day_start_ns t"
  using utc_day_start_dvd [of t] by (simp add: utc_day_start_ns_def)

lemma utc_day_start_mono: "s \<le> t \<Longrightarrow> utc_day_start_ns s \<le> utc_day_start_ns t"
  by (simp add: utc_day_start_ns_def minus_mod_eq_mult_div zdiv_mono1)

interpretation clock_run: step_invariant manual_clock_set "\<lambda>c. t0 \<le> mc_t c" for t0
  by unfold_locales (auto simp: manual_clock_set_def split: if_splits)

lemmas clock_eval [evals] = utc_day_start_ns_def NS_PER_DAY_def NS_PER_MIN_def NS_PER_SEC_def

lemma bpow_eval [evals]:
  "bpow 10 0 = 1" "bpow 10 (- numeral k) = 1 / 10 ^ numeral k" "bpow 10 (numeral k) = 10 ^ numeral k" "bpow 10 (- 1) = 1 / 10"
  by (simp_all add: bpow_def power_int_minus inverse_eq_divide)

lemma etiny_eval [evals]: "ctx_etiny Default_ctx = - 1000026" "ctx_etiny Fuzzhelm_ctx = - 1000036"
  by (simp_all add: ctx_etiny_def)

lemmas money_eval [evals] = qval_def floor_qty_def quantize_price_def quantize_money_def quantize_internal_def quantize_step_def
  dquantize_def to_integral_value.simps round_half_even_def

section \<open>Properties\<close>

text \<open>The round-down of a quantity returns a non-negative multiple of the step; it does not exceed any grid point
  at or above the quantity, nor fall below any grid point at or under it, and it does not exceed the
  quantity when the division by the step is exact.\<close>
theorem floor_qty_is_grid_floor:
  assumes r: "floor_qty cx x s = Inr r" and x: "0 \<le> x"
  shows "0 \<le> r \<and> on_grid cx s r \<and> (\<forall>y. on_grid cx s y \<longrightarrow> (x \<le> y \<longrightarrow> r \<le> y) \<and> (0 \<le> y \<and> y \<le> x \<longrightarrow> y \<le> r))
     \<and> (repr cx (x / qval s) \<longrightarrow> r \<le> x)"
  using floor_qty_nonneg [OF r x] floor_qty_on_grid [OF r] floor_qty_upper [OF r x] floor_qty_lower [OF r] floor_qty_le [OF r x]
  by blast

theorem floor_qty_is_grid_floor_witness:
  "floor_qty Default_ctx (12345/1000) \<lparr>q_coef = 1, q_exp = - 2\<rparr> = Inr (1234/100)
   \<and> (1234/100 :: rat) \<le> 12345/1000 \<and> on_grid Default_ctx \<lparr>q_coef = 1, q_exp = - 2\<rparr> (1234/100)"
proof -
  have r: "floor_qty Default_ctx (12345/1000) \<lparr>q_coef = 1, q_exp = - 2\<rparr> = Inr (1234/100)"
    by (simp add: evals)
  have x: "(0::rat) \<le> 12345/1000" "repr Default_ctx (12345/1000 / qval \<lparr>q_coef = 1, q_exp = - 2\<rparr>)" by (simp_all add: evals)
  from floor_qty_is_grid_floor [OF r x(1)] x(2) r show ?thesis by blast
qed


end
