(* ===== verification/Domain.thy ===== *)
theory Domain
  imports Money
begin

text \<open>
  \<^verbatim>\<open>core/enums.py\<close> and \<^verbatim>\<open>core/dto.py\<close>: the enumerations and the canonical objects that cross the
  normalisation boundary, with the checks their pydantic models run on construction. A
  constructor here is a function from the raw fields to the object or a \<open>ValueError\<close> (pydantic's
  \<^verbatim>\<open>ValidationError\<close> is one). Where two enumerations of the code share a member name, the
  constructors carry a prefix.
\<close>

section \<open>Enumerations\<close>

datatype venue = BINANCE_USDM | BINANCE_TESTNET | KRAKEN | PAPER
datatype contract_type = SPOT | PERP
datatype src = WS | REST | REPLAY
datatype stream = KLINES | TRADES | DEPTH | MARK
datatype side = SHORT | FLAT | LONG
datatype order_type = MARKET | STOP_MARKET
datatype order_status = OS_NEW | OS_PARTIAL | OS_FILLED | OS_REJECTED | OS_CANCELED
datatype liquidity = MAKER | TAKER

datatype reject_code =
    RC_BELOW_MIN_NOTIONAL
  | RC_ZERO_QTY
  | RC_RISK_VETO
  | RC_HALTED
  | RC_REDUCE_ONLY
  | RC_INSUFFICIENT_MARGIN
  | RC_DUPLICATE_CLIENT_ID
  | RC_VENUE_ERROR

datatype risk_state = NORMAL | WARNING | COOLDOWN | HALTED
datatype verdict_kind = VK_ALLOW | VK_SHRINK | VK_VETO
datatype exit_reason = ER_SIGNAL | ER_STOP | ER_TP | ER_RISK_VETO | ER_HALT | ER_LIQUIDATION
datatype role = OPERATOR | ANALYST | AUDITOR | ADMIN
datatype gap_status = GS_OPEN | GS_FILLING | GS_FILLED | GS_PARTIAL | GS_UNFILLABLE
datatype gap_detector_kind = SEQ | BUCKET_COUNT | TIME

text \<open>The integer enumerations: smaller \<^verbatim>\<open>Src\<close> means higher priority; \<^verbatim>\<open>Side\<close> is a sign.\<close>

fun src_int :: "src \<Rightarrow> int" where
  "src_int WS = 1"
| "src_int REST = 2"
| "src_int REPLAY = 3"

fun side_int :: "side \<Rightarrow> int" where
  "side_int SHORT = - 1"
| "side_int FLAT = 0"
| "side_int LONG = 1"

text \<open>\<^verbatim>\<open>Side(n)\<close> for a sign \<open>n\<close>.\<close>

definition side_of_sign :: "int \<Rightarrow> side" where
  "side_of_sign n = (if n < 0 then SHORT else if n = 0 then FLAT else LONG)"

lemma side_int_of_sign: "n \<in> {- 1, 0, 1} \<Longrightarrow> side_int (side_of_sign n) = n"
  by (auto simp: side_of_sign_def)

lemma side_of_sign_int [simp]: "side_of_sign (side_int s) = s"
  by (cases s) (simp_all add: side_of_sign_def)

lemma side_int_eq_0 [simp]: "side_int s = 0 \<longleftrightarrow> s = FLAT"
  by (cases s) simp_all

lemma side_int_eq_1 [simp]: "side_int s = 1 \<longleftrightarrow> s = LONG"
  by (cases s) simp_all

lemma side_int_eq_m1 [simp]: "side_int s = - 1 \<longleftrightarrow> s = SHORT"
  by (cases s) simp_all

lemma side_int_inj: "side_int s = side_int t \<longleftrightarrow> s = t"
  by (cases s; cases t) simp_all

lemma src_int_inj: "src_int s = src_int t \<longleftrightarrow> s = t"
  by (cases s; cases t) simp_all

section \<open>Instruments and market events\<close>

type_synonym uuid = nat

record instrument =
  in_venue :: venue
  in_symbol_venue :: string
  in_symbol_canon :: string
  in_base_asset :: string
  in_quote_asset :: string
  in_contract_type :: contract_type
  in_tick_size :: quantum
  in_step_size :: quantum
  in_min_notional :: dec
  in_mmr :: dec
  in_maint_amount :: dec
  in_max_leverage :: int

definition mk_instrument :: "instrument \<Rightarrow> instrument result" where
  "mk_instrument i = (if 0 < qval (in_tick_size i) \<and> 0 < qval (in_step_size i) \<and> 0 \<le> in_min_notional i
     then Inr i else Inl ValueError)"

record candle =
  cd_instrument :: string
  cd_venue :: venue
  cd_tf :: string
  cd_open_time_ns :: int
  cd_close_time_ns :: int
  cd_o :: dec
  cd_h :: dec
  cd_l :: dec
  cd_c :: dec
  cd_volume :: dec
  cd_quote_volume :: dec
  cd_trades_count :: int
  cd_vwap :: "dec option"
  cd_is_closed :: bool
  cd_is_synthetic :: bool
  cd_src :: src
  cd_ts_event_ns :: int
  cd_ts_ingest_ns :: int
  cd_event_uid :: string

definition candle_fields_ok :: "candle \<Rightarrow> bool" where
  "candle_fields_ok c \<longleftrightarrow> 0 \<le> cd_open_time_ns c \<and> 0 \<le> cd_close_time_ns c
     \<and> 0 < cd_o c \<and> 0 < cd_h c \<and> 0 < cd_l c \<and> 0 < cd_c c
     \<and> 0 \<le> cd_volume c \<and> 0 \<le> cd_quote_volume c \<and> 0 \<le> cd_trades_count c
     \<and> 0 \<le> cd_ts_event_ns c \<and> 0 \<le> cd_ts_ingest_ns c"

definition ohlc_consistent :: "candle \<Rightarrow> candle result" where
  "ohlc_consistent c =
     (if \<not> (cd_l c \<le> cd_h c \<and> max (cd_o c) (cd_c c) \<le> cd_h c \<and> cd_l c \<le> min (cd_o c) (cd_c c))
      then Inl ValueError
      else if (case cd_vwap c of None \<Rightarrow> False | Some v \<Rightarrow> \<not> (cd_l c \<le> v \<and> v \<le> cd_h c))
      then Inl ValueError
      else if cd_close_time_ns c < cd_open_time_ns c then Inl ValueError
      else Inr c)"

definition mk_candle :: "candle \<Rightarrow> candle result" where
  "mk_candle c = (if candle_fields_ok c then ohlc_consistent c else Inl ValueError)"

record trade =
  td_instrument :: string
  td_venue :: venue
  td_agg_id :: int
  td_first_trade_id :: "int option"
  td_last_trade_id :: "int option"
  td_price :: dec
  td_qty :: dec
  td_is_buyer_maker :: bool
  td_ts_event_ns :: int
  td_ts_ingest_ns :: int
  td_event_uid :: string

definition mk_trade :: "trade \<Rightarrow> trade result" where
  "mk_trade t = (if 0 < td_price t \<and> 0 < td_qty t \<and> 0 \<le> td_ts_event_ns t \<and> 0 \<le> td_ts_ingest_ns t
     then Inr t else Inl ValueError)"

record book_level =
  bl_price :: dec
  bl_qty :: dec

record book_snapshot =
  bk_instrument :: string
  bk_venue :: venue
  bk_bids :: "book_level list"
  bk_asks :: "book_level list"
  bk_last_update_id :: int
  bk_ts_event_ns :: int
  bk_ts_ingest_ns :: int
  bk_event_uid :: string

record mark_price =
  mp_instrument :: string
  mp_venue :: venue
  mp_mark_price :: dec
  mp_index_price :: "dec option"
  mp_funding_rate :: dec
  mp_next_funding_time_ns :: int
  mp_ts_event_ns :: int
  mp_ts_ingest_ns :: int
  mp_event_uid :: string

datatype market_event =
    EvCandle candle
  | EvTrade trade
  | EvBook book_snapshot
  | EvMark mark_price

section \<open>Execution objects\<close>

record order_request =
  or_client_order_id :: uuid
  or_instrument :: string
  or_side :: side
  or_otype :: order_type
  or_qty :: dec
  or_stop_price :: "dec option"
  or_reduce_only :: bool
  or_decision_ref :: "string option"
  or_ts_created_ns :: int

definition mk_order_request :: "order_request \<Rightarrow> order_request result" where
  "mk_order_request r =
     (if \<not> (0 < or_qty r \<and> 0 \<le> or_ts_created_ns r) then Inl ValueError
      else if or_side r = FLAT then Inl ValueError
      else if or_otype r = STOP_MARKET \<and> or_stop_price r = None then Inl ValueError
      else Inr r)"

record order_ack =
  oa_client_order_id :: uuid
  oa_venue_order_id :: "nat option"
  oa_status :: order_status
  oa_reject_code :: "reject_code option"
  oa_ts_ns :: int

record fill =
  fl_client_order_id :: uuid
  fl_venue_order_id :: "nat option"
  fl_instrument :: string
  fl_side :: side
  fl_qty :: dec
  fl_price :: dec
  fl_fee :: dec
  fl_liquidity :: liquidity
  fl_slippage_bps :: dec
  fl_ts_fill_ns :: int

definition mk_fill :: "fill \<Rightarrow> fill result" where
  "mk_fill f = (if 0 < fl_qty f \<and> 0 < fl_price f \<and> 0 \<le> fl_fee f \<and> 0 \<le> fl_ts_fill_ns f
     then Inr f else Inl ValueError)"

text \<open>What construction guarantees.\<close>

lemma mk_candle_InrD:
  assumes "mk_candle c = Inr d"
  shows "d = c" and "candle_fields_ok c"
    and "cd_l c \<le> cd_o c" "cd_o c \<le> cd_h c" "cd_l c \<le> cd_c c" "cd_c c \<le> cd_h c"
    and "cd_vwap c = Some v \<Longrightarrow> cd_l c \<le> v \<and> v \<le> cd_h c"
    and "cd_open_time_ns c \<le> cd_close_time_ns c"
  using assms by (auto simp: mk_candle_def ohlc_consistent_def split: if_splits option.splits)

lemma mk_candle_iff:
  "(\<exists>d. mk_candle c = Inr d) \<longleftrightarrow> candle_fields_ok c
     \<and> cd_l c \<le> min (cd_o c) (cd_c c) \<and> max (cd_o c) (cd_c c) \<le> cd_h c
     \<and> (\<forall>v. cd_vwap c = Some v \<longrightarrow> cd_l c \<le> v \<and> v \<le> cd_h c)
     \<and> cd_open_time_ns c \<le> cd_close_time_ns c"
  by (auto simp: mk_candle_def ohlc_consistent_def not_less split: option.splits)

lemma mk_order_request_InrD:
  "mk_order_request r = Inr q \<Longrightarrow> q = r \<and> 0 < or_qty r \<and> or_side r \<noteq> FLAT
     \<and> (or_otype r = STOP_MARKET \<longrightarrow> or_stop_price r \<noteq> None)"
  by (auto simp: mk_order_request_def split: if_splits)

end
