(* ===== verification/Verdict.thy ===== *)
theory Verdict
  imports Domain "HOL-Library.Multiset"
begin

text \<open>
  \<^verbatim>\<open>risk/verdict.py\<close>: the algebra of risk verdicts. A factor is an exact fraction, so a rational
  here is the code's value, with no rounding. The laws a chain of rules relies on are the locale
  \<open>verdict_algebra\<close> (a commutative monoid with an absorbing element whose action never enlarges),
  interpreted on the code's \<open>compose\<close> and \<open>exposure\<close>.
\<close>

section \<open>Verdicts\<close>

text \<open>\<open>floor_fraction x s\<close> is \<open>\<lfloor>x * 10^s\<rfloor> / 10^s\<close>, built from its decimal text, hence exact.\<close>

definition FRACTION_SCALE :: nat where "FRACTION_SCALE = 18"

definition floor_fraction :: "rat \<Rightarrow> nat \<Rightarrow> dec" where
  "floor_fraction x scale =
     (let (num, den) = quotient_of x in
      if den = 1 then of_int num
      else of_int ((num * 10 ^ scale) div den) / 10 ^ scale)"

record verdict =
  v_kind :: verdict_kind
  v_factor :: rat

definition mk_verdict :: "verdict_kind \<Rightarrow> rat \<Rightarrow> verdict result" where
  "mk_verdict k f =
     (if k = VK_ALLOW \<and> f \<noteq> 1 then Inl ValueError
      else if k = VK_VETO \<and> f \<noteq> 0 then Inl ValueError
      else if k = VK_SHRINK \<and> \<not> (0 < f \<and> f < 1) then Inl ValueError
      else Inr \<lparr>v_kind = k, v_factor = f\<rparr>)"

definition factor_dec :: "verdict \<Rightarrow> dec" where
  "factor_dec v = floor_fraction (v_factor v) FRACTION_SCALE"

definition ALLOW :: verdict where "ALLOW = \<lparr>v_kind = VK_ALLOW, v_factor = 1\<rparr>"
definition VETO :: verdict where "VETO = \<lparr>v_kind = VK_VETO, v_factor = 0\<rparr>"

definition shrink :: "rat \<Rightarrow> verdict result" where
  "shrink f = mk_verdict VK_SHRINK f"

text \<open>The loop of \<^verbatim>\<open>compose\<close>: \<open>product\<close> and \<open>shrunk\<close> are its variables.\<close>

fun compose_loop :: "verdict list \<Rightarrow> rat \<Rightarrow> bool \<Rightarrow> verdict" where
  "compose_loop [] product shrunk =
     (if shrunk then \<lparr>v_kind = VK_SHRINK, v_factor = product\<rparr> else ALLOW)"
| "compose_loop (v # vs) product shrunk =
     (if v_kind v = VK_VETO then VETO
      else if v_kind v = VK_SHRINK then compose_loop vs (product * v_factor v) True
      else compose_loop vs product shrunk)"

definition compose :: "verdict list \<Rightarrow> verdict" where
  "compose vs = compose_loop vs 1 False"

definition exposure :: "verdict \<Rightarrow> dec \<Rightarrow> dec result" where
  "exposure v requested =
     (if requested < 0 then Inl ValueError
      else if v_kind v = VK_ALLOW then Inr requested
      else if v_kind v = VK_VETO then Inr 0
      else Inr (floor_fraction (requested * v_factor v) FRACTION_SCALE))"

text \<open>The invariant \<^verbatim>\<open>__post_init__\<close> enforces.\<close>

definition verdict_ok :: "verdict \<Rightarrow> bool" where
  "verdict_ok v \<longleftrightarrow> (v_kind v = VK_ALLOW \<longrightarrow> v_factor v = 1) \<and> (v_kind v = VK_VETO \<longrightarrow> v_factor v = 0)
     \<and> (v_kind v = VK_SHRINK \<longrightarrow> 0 < v_factor v \<and> v_factor v < 1)"

lemma mk_verdict_ok: "mk_verdict k f = Inr v \<Longrightarrow> verdict_ok v"
  by (auto simp: mk_verdict_def verdict_ok_def split: if_splits)

lemma verdict_ok_consts [simp]: "verdict_ok ALLOW" "verdict_ok VETO"
  by (simp_all add: verdict_ok_def ALLOW_def VETO_def)

lemma v_kind_consts [simp]: "v_kind ALLOW = VK_ALLOW" "v_kind VETO = VK_VETO"
  "v_factor ALLOW = 1" "v_factor VETO = 0"
  by (simp_all add: ALLOW_def VETO_def)

lemma shrink_Inr: "0 < f \<Longrightarrow> f < 1 \<Longrightarrow> shrink f = Inr \<lparr>v_kind = VK_SHRINK, v_factor = f\<rparr>"
  by (simp add: shrink_def mk_verdict_def)

lemma verdict_ok_range: "verdict_ok v \<Longrightarrow> 0 \<le> v_factor v \<and> v_factor v \<le> 1"
  by (cases "v_kind v") (auto simp: verdict_ok_def)

lemma verdict_ok_factor:
  "verdict_ok v \<Longrightarrow> v_kind v = VK_ALLOW \<Longrightarrow> v_factor v = 1"
  "verdict_ok v \<Longrightarrow> v_kind v = VK_VETO \<Longrightarrow> v_factor v = 0"
  "verdict_ok v \<Longrightarrow> v_kind v = VK_SHRINK \<Longrightarrow> 0 < v_factor v"
  "verdict_ok v \<Longrightarrow> v_kind v = VK_SHRINK \<Longrightarrow> v_factor v < 1"
  by (auto simp: verdict_ok_def)

lemma verdict_ok_eqI:
  "verdict_ok v \<Longrightarrow> verdict_ok w \<Longrightarrow> v_factor v = v_factor w \<Longrightarrow> v = w"
  by (cases v; cases w; rename_tac k f k' f'; case_tac k; case_tac k') (auto simp: verdict_ok_def)

section \<open>Composition is the product of the factors\<close>

lemma compose_loop_factor:
  "list_all verdict_ok vs \<Longrightarrow> 0 < p \<Longrightarrow> p \<le> 1 \<Longrightarrow> (s \<longleftrightarrow> p < 1) \<Longrightarrow>
     verdict_ok (compose_loop vs p s) \<and> v_factor (compose_loop vs p s) = p * prod_list (map v_factor vs)"
proof (induction vs p s rule: compose_loop.induct)
  case (1 product shrunk)
  then show ?case by (auto simp: verdict_ok_def ALLOW_def)
next
  case (2 v vs product shrunk)
  have ok: "verdict_ok v" "list_all verdict_ok vs" using "2.prems" by auto
  show ?case
  proof (cases "v_kind v")
    case VK_ALLOW
    then have "v_factor v = 1" using ok(1) by (simp add: verdict_ok_factor)
    with VK_ALLOW "2.IH"(2) [OF _ _ ok(2) "2.prems"(2-4)] show ?thesis by simp
  next
    case VK_SHRINK
    then have f: "0 < v_factor v" "v_factor v < 1" using ok(1) by (simp_all add: verdict_ok_factor)
    have "product * v_factor v \<le> 1 * v_factor v" using f "2.prems"(3) by (intro mult_right_mono) simp_all
    then have "product * v_factor v < 1" using f by linarith
    moreover have "0 < product * v_factor v" using f "2.prems"(2) by simp
    ultimately have lt: "0 < product * v_factor v" "product * v_factor v < 1" by simp_all
    have "verdict_ok (compose_loop vs (product * v_factor v) True)
        \<and> v_factor (compose_loop vs (product * v_factor v) True) = product * v_factor v * prod_list (map v_factor vs)"
      using VK_SHRINK lt by (intro "2.IH"(1) ok(2)) simp_all
    with VK_SHRINK show ?thesis by (simp add: mult.assoc)
  next
    case VK_VETO
    with ok(1) show ?thesis by (simp add: verdict_ok_factor)
  qed
qed

lemma compose_ok: "list_all verdict_ok vs \<Longrightarrow> verdict_ok (compose vs)"
  using compose_loop_factor [of vs 1 False] by (simp add: compose_def)

lemma compose_factor: "list_all verdict_ok vs \<Longrightarrow> v_factor (compose vs) = prod_list (map v_factor vs)"
  using compose_loop_factor [of vs 1 False] by (simp add: compose_def)

section \<open>Rounding down\<close>

lemma floor_fraction_eq: "floor_fraction x s = of_int \<lfloor>x * 10 ^ s\<rfloor> / 10 ^ s"
proof -
  obtain n d where q: "quotient_of x = (n, d)" by (cases "quotient_of x")
  have d: "0 < d" and x: "x = of_int n / of_int d" using q by (auto dest: quotient_of_denom_pos quotient_of_div)
  have "\<lfloor>x * 10 ^ s\<rfloor> = (n * 10 ^ s) div d"
    using floor_divide_of_int_eq [of "n * 10 ^ s" d] by (simp add: x)
  moreover have "d = 1 \<Longrightarrow> floor_fraction x s = of_int n" by (simp add: floor_fraction_def q)
  moreover have "d \<noteq> 1 \<Longrightarrow> floor_fraction x s = of_int ((n * 10 ^ s) div d) / 10 ^ s"
    by (simp add: floor_fraction_def q)
  ultimately show ?thesis using x by (cases "d = 1") simp_all
qed

lemma floor_fraction_le: "floor_fraction x s \<le> x"
  by (simp add: floor_fraction_eq divide_le_eq)

lemma floor_fraction_mono: "x \<le> y \<Longrightarrow> floor_fraction x s \<le> floor_fraction y s"
  by (simp add: floor_fraction_eq divide_right_mono floor_mono mult_right_mono)

lemma floor_fraction_nonneg: "0 \<le> x \<Longrightarrow> 0 \<le> floor_fraction x s"
  by (simp add: floor_fraction_eq)

lemma floor_fraction_gap: "x - 1 / 10 ^ s < floor_fraction x s"
proof -
  have "x * 10 ^ s - 1 < of_int \<lfloor>x * 10 ^ s\<rfloor>" by linarith
  then have "(x * 10 ^ s - 1) / 10 ^ s < of_int \<lfloor>x * 10 ^ s\<rfloor> / 10 ^ s"
    by (rule divide_strict_right_mono) simp
  then show ?thesis by (simp add: floor_fraction_eq diff_divide_distrib)
qed

lemma floor_fraction_int: "floor_fraction (of_int n) s = of_int n"
  by (simp add: floor_fraction_eq)

lemma exposure_eq:
  "0 \<le> q \<Longrightarrow> verdict_ok v \<Longrightarrow>
     exposure v q = Inr (if v_kind v = VK_ALLOW then q else floor_fraction (q * v_factor v) FRACTION_SCALE)"
  using floor_fraction_int [of 0] by (auto simp: exposure_def verdict_ok_def)


text \<open>The same as a total function on sizes, which are never negative.\<close>

definition exposure_of :: "verdict \<Rightarrow> dec \<Rightarrow> dec" where
  "exposure_of v q = (if v_kind v = VK_ALLOW then q else floor_fraction (q * v_factor v) FRACTION_SCALE)"

lemma exposure_Inr: "0 \<le> q \<Longrightarrow> verdict_ok v \<Longrightarrow> exposure v q = Inr (exposure_of v q)"
  by (simp add: exposure_eq exposure_of_def)

lemma exposure_of_le_factor: "verdict_ok v \<Longrightarrow> exposure_of v q \<le> q * v_factor v"
  by (simp add: exposure_of_def verdict_ok_factor floor_fraction_le)

lemma exposure_of_le: "verdict_ok v \<Longrightarrow> 0 \<le> q \<Longrightarrow> exposure_of v q \<le> q"
  using exposure_of_le_factor [of v q] verdict_ok_range [of v] mult_left_le [of "v_factor v" q] by simp

lemma exposure_of_nonneg: "verdict_ok v \<Longrightarrow> 0 \<le> q \<Longrightarrow> 0 \<le> exposure_of v q"
  using verdict_ok_range [of v] by (simp add: exposure_of_def floor_fraction_nonneg)

lemma exposure_of_factor_mono:
  assumes "verdict_ok v" "verdict_ok w" "v_factor v \<le> v_factor w" "0 \<le> q"
  shows "exposure_of v q \<le> exposure_of w q"
proof (cases "v_kind w = VK_ALLOW")
  case True
  then show ?thesis using exposure_of_le [of v q] assms by (simp add: exposure_of_def)
next
  case False
  have "v_factor w < 1" using False assms(2) by (cases "v_kind w") (simp_all add: verdict_ok_factor)
  then have "v_kind v \<noteq> VK_ALLOW" using assms(1,3) verdict_ok_factor(1) [of v] by auto
  with False assms show ?thesis
    by (simp add: exposure_of_def floor_fraction_mono mult_left_mono)
qed

section \<open>The algebra as an interface\<close>

text \<open>
  What a chain of risk rules needs of its verdicts: \<open>comp\<close> folds a list of verdicts, \<open>act\<close> applies
  one to a size. The chain's properties are proved here once from these laws.
\<close>

locale verdict_algebra =
  fixes ok :: "'v \<Rightarrow> bool"
    and unit :: "'v"
    and zero :: "'v"
    and comp :: "'v list \<Rightarrow> 'v"
    and act :: "'v \<Rightarrow> rat \<Rightarrow> rat"
  assumes unit_ok: "ok unit"
    and comp_ok: "list_all ok vs \<Longrightarrow> ok (comp vs)"
    and comp_Nil: "comp [] = unit"
    and comp_single: "ok v \<Longrightarrow> comp [v] = v"
    and comp_append: "list_all ok vs \<Longrightarrow> list_all ok ws \<Longrightarrow> comp (vs @ ws) = comp [comp vs, comp ws]"
    and comp_swap: "ok v \<Longrightarrow> ok w \<Longrightarrow> comp [v, w] = comp [w, v]"
    and comp_zero: "ok v \<Longrightarrow> comp [zero, v] = zero"
    and act_unit: "act unit q = q"
    and act_zero: "act zero q = 0"
    and act_nonneg: "ok v \<Longrightarrow> 0 \<le> q \<Longrightarrow> 0 \<le> act v q"
    and act_comp_le: "ok v \<Longrightarrow> ok w \<Longrightarrow> 0 \<le> q \<Longrightarrow> act (comp [v, w]) q \<le> act v q"
begin

lemma comp_Cons: "ok v \<Longrightarrow> list_all ok vs \<Longrightarrow> comp (v # vs) = comp [v, comp vs]"
  using comp_append [of "[v]" vs] by (simp add: comp_single)

lemma act_le: "ok v \<Longrightarrow> 0 \<le> q \<Longrightarrow> act v q \<le> q"
  using act_comp_le [OF unit_ok, of v q] comp_append [of "[]" "[v]"]
  by (simp add: comp_Nil comp_single act_unit)

lemma act_chain_le_member:
  assumes "list_all ok vs" and "v \<in> set vs" and "0 \<le> q"
  shows "act (comp vs) q \<le> act v q"
proof -
  obtain xs ys where vs: "vs = xs @ v # ys" using assms(2) by (meson split_list)
  have ok: "list_all ok xs" "list_all ok ys" "ok v" using assms(1) vs by auto
  have y: "ok (comp ys)" "ok (comp xs)" "ok (comp (v # ys))" using ok by (simp_all add: comp_ok)
  have "comp vs = comp [comp (v # ys), comp xs]"
    using ok y comp_append [of xs "v # ys"] comp_swap [of "comp xs" "comp (v # ys)"] by (simp add: vs)
  then have "act (comp vs) q \<le> act (comp (v # ys)) q" using y assms(3) by (simp add: act_comp_le)
  also have "comp (v # ys) = comp [v, comp ys]" using ok by (intro comp_Cons) simp_all
  also have "act (comp [v, comp ys]) q \<le> act v q" using ok y assms(3) by (intro act_comp_le) simp_all
  finally show ?thesis .
qed

lemma act_chain_le: "list_all ok vs \<Longrightarrow> 0 \<le> q \<Longrightarrow> act (comp vs) q \<le> q"
  by (simp add: act_le comp_ok)

lemma act_chain_extend:
  assumes "list_all ok vs" "list_all ok ws" "0 \<le> q"
  shows "act (comp (vs @ ws)) q \<le> act (comp vs) q"
  using assms by (simp add: comp_append act_comp_le comp_ok)

lemma comp_absorb:
  assumes "list_all ok vs" and "zero \<in> set vs"
  shows "comp vs = zero"
proof -
  obtain xs ys where vs: "vs = xs @ zero # ys" using assms(2) by (meson split_list)
  have ok: "list_all ok xs" "list_all ok ys" "ok zero" using assms(1) vs by auto
  have "comp (zero # ys) = comp [zero, comp ys]" using ok by (intro comp_Cons) simp_all
  also have "\<dots> = zero" using ok by (intro comp_zero comp_ok)
  finally have z: "comp (zero # ys) = zero" .
  have "comp vs = comp [comp xs, comp (zero # ys)]" unfolding vs using ok by (intro comp_append) simp_all
  also have "\<dots> = comp [zero, comp xs]" unfolding z using ok by (intro comp_swap comp_ok)
  also have "\<dots> = zero" using ok by (intro comp_zero comp_ok)
  finally show ?thesis .
qed

end

lemma verdict_factor_prod_le_1:
  "list_all verdict_ok vs \<Longrightarrow> 0 \<le> prod_list (map v_factor vs) \<and> prod_list (map v_factor vs) \<le> 1"
  using compose_ok [of vs] compose_factor [of vs] verdict_ok_range [of "compose vs"] by simp

interpretation va: verdict_algebra verdict_ok ALLOW VETO compose exposure_of
proof unfold_locales
  fix vs ws :: "verdict list" and v w :: verdict and q :: rat
  show "verdict_ok ALLOW" by simp
  show "compose [] = ALLOW" by (simp add: compose_def)
  show "list_all verdict_ok vs \<Longrightarrow> verdict_ok (compose vs)" by (rule compose_ok)
  show "verdict_ok v \<Longrightarrow> compose [v] = v"
    by (rule verdict_ok_eqI) (simp_all add: compose_ok compose_factor)
  show "list_all verdict_ok vs \<Longrightarrow> list_all verdict_ok ws \<Longrightarrow> compose (vs @ ws) = compose [compose vs, compose ws]"
    by (rule verdict_ok_eqI) (simp_all add: compose_ok compose_factor)
  show "verdict_ok v \<Longrightarrow> verdict_ok w \<Longrightarrow> compose [v, w] = compose [w, v]"
    by (rule verdict_ok_eqI) (simp_all add: compose_ok compose_factor mult.commute)
  show "verdict_ok v \<Longrightarrow> compose [VETO, v] = VETO" by (simp add: compose_def)
  show "exposure_of ALLOW q = q" by (simp add: exposure_of_def)
  show "exposure_of VETO q = 0" using floor_fraction_int [of 0] by (simp add: exposure_of_def)
  show "verdict_ok v \<Longrightarrow> 0 \<le> q \<Longrightarrow> 0 \<le> exposure_of v q" by (rule exposure_of_nonneg)
  show "verdict_ok v \<Longrightarrow> verdict_ok w \<Longrightarrow> 0 \<le> q \<Longrightarrow> exposure_of (compose [v, w]) q \<le> exposure_of v q"
    using verdict_ok_range [of v] verdict_ok_range [of w]
    by (intro exposure_of_factor_mono) (simp_all add: compose_ok compose_factor mult_left_le)
qed

lemma compose_perm: "list_all verdict_ok vs \<Longrightarrow> mset ws = mset vs \<Longrightarrow> compose ws = compose vs"
proof (rule verdict_ok_eqI)
  assume ok: "list_all verdict_ok vs" and m: "mset ws = mset vs"
  have okw: "list_all verdict_ok ws" using ok m by (metis list_all_iff mset_eq_setD)
  show "verdict_ok (compose ws)" "verdict_ok (compose vs)" using ok okw by (simp_all add: compose_ok)
  have "prod_mset (mset (map v_factor ws)) = prod_mset (mset (map v_factor vs))" using m by simp
  then show "v_factor (compose ws) = v_factor (compose vs)"
    unfolding prod_mset_prod_list using ok okw by (simp add: compose_factor)
qed

lemmas verdict_eval [evals] = ALLOW_def VETO_def shrink_def mk_verdict_def compose_def exposure_def factor_dec_def
  floor_fraction_eq FRACTION_SCALE_def

section \<open>Properties\<close>

text \<open>The composition of well-formed verdicts is well formed; its factor is the product of the factors, it does not
  depend on the order, one VETO decides it, and applying it never yields more than any single verdict does.\<close>
theorem compose_is_strictest:
  assumes "list_all verdict_ok vs" and "mset ws = mset vs" and "0 \<le> q"
  shows "verdict_ok (compose vs) \<and> v_factor (compose vs) = prod_list (map v_factor vs) \<and> compose ws = compose vs
     \<and> (VETO \<in> set vs \<longrightarrow> compose vs = VETO)
     \<and> (\<exists>x. exposure (compose vs) q = Inr x \<and> 0 \<le> x \<and> x \<le> q \<and> (\<forall>v \<in> set vs. x \<le> exposure_of v q))"
  using compose_ok [OF assms(1)] compose_factor [OF assms(1)] compose_perm [OF assms(1,2)] va.comp_absorb [OF assms(1)]
    va.act_chain_le_member [OF assms(1) _ assms(3)] va.act_chain_le [OF assms(1,3)]
    exposure_Inr [OF assms(3) compose_ok [OF assms(1)]] exposure_of_nonneg [OF compose_ok [OF assms(1)] assms(3)]
  by blast

theorem compose_is_strictest_witness:
  "exposure (compose [\<lparr>v_kind = VK_SHRINK, v_factor = 1/2\<rparr>, ALLOW, \<lparr>v_kind = VK_SHRINK, v_factor = 1/3\<rparr>]) 6 = Inr 1
   \<and> compose [ALLOW, \<lparr>v_kind = VK_SHRINK, v_factor = 1/3\<rparr>, \<lparr>v_kind = VK_SHRINK, v_factor = 1/2\<rparr>]
     = compose [\<lparr>v_kind = VK_SHRINK, v_factor = 1/2\<rparr>, ALLOW, \<lparr>v_kind = VK_SHRINK, v_factor = 1/3\<rparr>]"
proof -
  let ?vs = "[\<lparr>v_kind = VK_SHRINK, v_factor = 1/2\<rparr>, ALLOW, \<lparr>v_kind = VK_SHRINK, v_factor = 1/3\<rparr>]"
  let ?ws = "[ALLOW, \<lparr>v_kind = VK_SHRINK, v_factor = 1/3\<rparr>, \<lparr>v_kind = VK_SHRINK, v_factor = 1/2\<rparr>]"
  have "list_all verdict_ok ?vs" by (simp add: verdict_ok_def mk_verdict_def ALLOW_def)
  moreover have "mset ?ws = mset ?vs" by simp
  ultimately have "compose ?ws = compose ?vs" using compose_is_strictest [of ?vs ?ws 6] by simp
  then show ?thesis by (simp add: evals)
qed

end
