(* ===== verification/RiskContext.thy ===== *)
theory RiskContext
  imports Verdict
begin

text \<open>
  \<^verbatim>\<open>risk/context.py\<close>: the equity tracker (running peak, drawdown, profit of the UTC day), the
  immutable context every rule reads, and the conversion of a cap on the resulting position into
  a verdict on the increase.
\<close>

section \<open>Equity tracker\<close>

record equity_snapshot =
  es_ts_ns :: int
  es_equity :: dec
  es_peak :: dec
  es_drawdown :: dec
  es_day_start_ns :: int
  es_equity_day_open :: dec
  es_pnl_day :: dec

definition day_return :: "dctx \<Rightarrow> equity_snapshot \<Rightarrow> dec" where
  "day_return cx s = (if es_equity_day_open s \<le> 0 then 0 else ddiv cx (es_pnl_day s) (es_equity_day_open s))"

record equity_tracker =
  et_peak :: "dec option"
  et_day :: "int option"
  et_day_open :: dec
  et_last_equity :: "dec option"
  et_last_ts :: "int option"
  et_snap :: "equity_snapshot option"

definition tracker_init :: equity_tracker where
  "tracker_init = \<lparr>et_peak = None, et_day = None, et_day_open = 0, et_last_equity = None,
     et_last_ts = None, et_snap = None\<rparr>"

text \<open>\<^verbatim>\<open>_make\<close>: the snapshot of the current state.\<close>

definition make_snapshot :: "dctx \<Rightarrow> equity_tracker \<Rightarrow> int \<Rightarrow> dec \<Rightarrow> equity_snapshot" where
  "make_snapshot cx tr ts equity =
     (let peak = (case et_peak tr of Some p \<Rightarrow> p | None \<Rightarrow> equity);
          dd = (if 0 < peak then dsub cx 1 (ddiv cx equity peak) else 1);
          day = (case et_day tr of Some d \<Rightarrow> d | None \<Rightarrow> utc_day_start_ns ts)
      in \<lparr>es_ts_ns = ts, es_equity = equity, es_peak = peak, es_drawdown = dd, es_day_start_ns = day,
          es_equity_day_open = et_day_open tr, es_pnl_day = dsub cx equity (et_day_open tr)\<rparr>)"

definition tracker_update :: "dctx \<Rightarrow> equity_tracker \<Rightarrow> int \<Rightarrow> dec \<Rightarrow> (equity_tracker \<times> equity_snapshot) result" where
  "tracker_update cx tr ts equity =
     (if (case et_last_ts tr of None \<Rightarrow> False | Some t \<Rightarrow> ts < t) then Inl ValueError
      else let day = utc_day_start_ns ts;
               day_open = (case et_day tr of
                   None \<Rightarrow> equity
                 | Some d \<Rightarrow> (if day \<noteq> d then (case et_last_equity tr of Some e \<Rightarrow> e | None \<Rightarrow> equity)
                             else et_day_open tr));
               peak = (case et_peak tr of
                   None \<Rightarrow> equity | Some p \<Rightarrow> (if p < equity then equity else p));
               tr1 = tr\<lparr>et_day_open := day_open, et_day := Some day, et_peak := Some peak,
                         et_last_equity := Some equity, et_last_ts := Some ts\<rparr>;
               snap = make_snapshot cx tr1 ts equity
           in Inr (tr1\<lparr>et_snap := Some snap\<rparr>, snap))"

definition tracker_rebase :: "dctx \<Rightarrow> equity_tracker \<Rightarrow> equity_tracker \<times> equity_snapshot option" where
  "tracker_rebase cx tr = (case (et_last_equity tr, et_last_ts tr) of
     (Some e, Some t) \<Rightarrow>
       let tr1 = tr\<lparr>et_peak := Some e, et_day_open := e\<rparr>;
           snap = make_snapshot cx tr1 t e
       in (tr1\<lparr>et_snap := Some snap\<rparr>, Some snap)
   | _ \<Rightarrow> (tr, None))"

subsection \<open>What the tracker keeps\<close>

text \<open>The tracker after a run of observations, and the invariant between its fields.\<close>

definition tracker_step :: "dctx \<Rightarrow> equity_tracker \<Rightarrow> int \<times> dec \<Rightarrow> equity_tracker result" where
  "tracker_step cx tr o1 = rbind (tracker_update cx tr (fst o1) (snd o1)) (\<lambda>r. Inr (fst r))"

definition snapshot_ok :: "dctx \<Rightarrow> equity_snapshot \<Rightarrow> bool" where
  "snapshot_ok cx s \<longleftrightarrow> es_equity s \<le> es_peak s \<and> 0 \<le> es_drawdown s
     \<and> (0 \<le> es_equity s \<longrightarrow> es_drawdown s \<le> 1)
     \<and> (0 < es_equity s \<and> es_equity s = es_peak s \<longrightarrow> es_drawdown s = 0)
     \<and> es_pnl_day s = dsub cx (es_equity s) (es_equity_day_open s)"

definition tracker_ok :: "dctx \<Rightarrow> equity_tracker \<Rightarrow> bool" where
  "tracker_ok cx tr \<longleftrightarrow>
     (case et_last_equity tr of
        None \<Rightarrow> et_peak tr = None \<and> et_day tr = None \<and> et_last_ts tr = None \<and> et_snap tr = None
      | Some e \<Rightarrow> (\<exists>p t s. et_peak tr = Some p \<and> et_last_ts tr = Some t \<and> et_snap tr = Some s
           \<and> e \<le> p \<and> et_day tr = Some (utc_day_start_ns t) \<and> snapshot_ok cx s
           \<and> es_equity s = e \<and> es_peak s = p \<and> es_ts_ns s = t \<and> es_day_start_ns s = utc_day_start_ns t
           \<and> es_equity_day_open s = et_day_open tr))"

lemma tracker_init_ok [simp]: "tracker_ok cx tracker_init"
  by (simp add: tracker_ok_def tracker_init_def)

lemma drawdown_bounds:
  assumes "0 < p" and "e \<le> p"
  shows "0 \<le> dsub cx 1 (ddiv cx e p)" and "0 \<le> e \<Longrightarrow> dsub cx 1 (ddiv cx e p) \<le> 1"
proof -
  have "ddiv cx e p \<le> 1" using assms by (simp add: ddiv_def dr.rnd_le_1)
  then show "0 \<le> dsub cx 1 (ddiv cx e p)" by (simp add: dsub_def dr.rnd_nonneg)
  assume "0 \<le> e"
  then have "0 \<le> ddiv cx e p" using assms by (simp add: ddiv_nonneg)
  then show "dsub cx 1 (ddiv cx e p) \<le> 1" by (simp add: dsub_def dr.rnd_le_1)
qed

lemma make_snapshot_ok:
  assumes "et_peak tr = Some p" and "e \<le> p"
  shows "snapshot_ok cx (make_snapshot cx tr t e)"
  using assms drawdown_bounds [of p e cx] ddiv_self [of p cx]
  by (auto simp: snapshot_ok_def make_snapshot_def Let_def dsub_def)

lemma tracker_update_ok:
  assumes "tracker_ok cx tr" and "tracker_update cx tr ts e = Inr (tr', s)"
  shows "tracker_ok cx tr'" and "et_snap tr' = Some s" and "et_last_equity tr' = Some e"
    and "snapshot_ok cx s" and "es_equity s = e" and "es_ts_ns s = ts"
    and "es_day_start_ns s = utc_day_start_ns ts"
proof -
  from assms(2) obtain p where p: "et_peak tr' = Some p" "e \<le> p"
    and snap: "s = make_snapshot cx (tr'\<lparr>et_snap := et_snap tr\<rparr>) ts e"
    and f: "et_snap tr' = Some s" "et_last_equity tr' = Some e" "et_last_ts tr' = Some ts"
      "et_day tr' = Some (utc_day_start_ns ts)"
    by (auto simp: tracker_update_def Let_def split: if_splits option.splits)
  have ok: "snapshot_ok cx s" unfolding snap using p by (intro make_snapshot_ok) auto
  have "es_equity s = e" "es_peak s = p" "es_ts_ns s = ts" "es_day_start_ns s = utc_day_start_ns ts"
    "es_equity_day_open s = et_day_open tr'"
    using p f by (simp_all add: snap make_snapshot_def Let_def)
  with p f ok show "tracker_ok cx tr'" "et_snap tr' = Some s" "et_last_equity tr' = Some e"
    "snapshot_ok cx s" "es_equity s = e" "es_ts_ns s = ts" "es_day_start_ns s = utc_day_start_ns ts"
    by (auto simp: tracker_ok_def)
qed

interpretation tracker: step_invariant "tracker_step cx" "tracker_ok cx" for cx
  by unfold_locales (auto simp: tracker_step_def rbind_Inr_iff dest: tracker_update_ok)

lemma tracker_rebase_ok:
  assumes "tracker_ok cx tr"
  shows "tracker_ok cx (fst (tracker_rebase cx tr))"
proof (cases "et_last_equity tr")
  case None
  with assms show ?thesis by (simp add: tracker_rebase_def)
next
  case (Some e)
  with assms obtain t where t: "et_last_ts tr = Some t" "et_day tr = Some (utc_day_start_ns t)"
    by (auto simp: tracker_ok_def)
  let ?tr = "tr\<lparr>et_peak := Some e, et_day_open := e\<rparr>"
  have "snapshot_ok cx (make_snapshot cx ?tr t e)" using make_snapshot_ok [of ?tr e e cx t] by simp
  moreover define s where "s = make_snapshot cx ?tr t e"
  moreover have "es_equity s = e \<and> es_peak s = e \<and> es_ts_ns s = t \<and> es_day_start_ns s = utc_day_start_ns t
      \<and> es_equity_day_open s = e"
    using t by (simp add: s_def make_snapshot_def Let_def)
  ultimately show ?thesis using Some t by (simp add: tracker_rebase_def tracker_ok_def Let_def)
qed

text \<open>After a rebase the drawdown is zero and the day's profit is zero (for a positive equity).\<close>

lemma tracker_rebase_snapshot:
  assumes "et_last_equity tr = Some e" and "et_last_ts tr = Some t"
  obtains s where "snd (tracker_rebase cx tr) = Some s" and "es_peak s = e" and "es_equity s = e"
    and "es_pnl_day s = 0" and "0 < e \<Longrightarrow> es_drawdown s = 0"
  using assms by (simp add: tracker_rebase_def Let_def make_snapshot_def dsub_def ddiv_self)

text \<open>The peak is the largest equity seen.\<close>

lemma tracker_update_peak:
  assumes "tracker_update cx tr ts e = Inr (tr', s)"
  shows "et_peak tr' = Some (case et_peak tr of None \<Rightarrow> e | Some p \<Rightarrow> max p e)"
  using assms by (auto simp: tracker_update_def Let_def max_def split: if_splits option.splits)

lemma tracker_run_peak:
  assumes "run_steps (tracker_step cx) tr os = Inr tr'"
  shows "et_peak tr' = (case et_peak tr of
      None \<Rightarrow> (case os of [] \<Rightarrow> None | o1 # os' \<Rightarrow> Some (fold max (map snd os') (snd o1)))
    | Some p \<Rightarrow> Some (fold max (map snd os) p))"
  using assms
proof (induction os arbitrary: tr)
  case Nil
  then show ?case by (simp split: option.split)
next
  case (Cons o1 os)
  from Cons.prems obtain tr1 where st: "tracker_step cx tr o1 = Inr tr1"
    and rest: "run_steps (tracker_step cx) tr1 os = Inr tr'"
    by (auto elim: rbind_InrE)
  from st obtain s where u: "tracker_update cx tr (fst o1) (snd o1) = Inr (tr1, s)"
    by (auto simp: tracker_step_def rbind_Inr_iff)
  from Cons.IH [OF rest] tracker_update_peak [OF u]
  show ?case by (simp split: option.splits add: max.commute)
qed

section \<open>The context of a check\<close>

record risk_context =
  rc_ts_ns :: int
  rc_instrument :: string
  rc_price :: dec
  rc_equity :: dec
  rc_current_qty :: dec
  rc_target_qty :: dec
  rc_atr :: dec
  rc_stop_distance :: dec
  rc_drawdown :: dec
  rc_pnl_day :: dec
  rc_equity_day_open :: "dec option"
  rc_day_start_ns :: "int option"
  rc_gross_notional_other :: dec
  rc_mmr :: dec
  rc_maint_amount :: dec
  rc_leverage_setting :: dec
  rc_last_data_ns :: "int option"
  rc_dq_score :: dec
  rc_risk_state :: risk_state
  rc_step_size :: "quantum option"
  rc_base_qty :: dec
  rc_increase_qty :: dec
  rc_post_qty :: dec

definition target_side :: "risk_context \<Rightarrow> int" where
  "target_side c = sign_of (rc_target_qty c)"

definition is_flip :: "risk_context \<Rightarrow> bool" where
  "is_flip c \<longleftrightarrow> sign_of (rc_current_qty c) * sign_of (rc_target_qty c) < 0"

text \<open>
  \<^verbatim>\<open>__post_init__\<close>: the unchanged part and the increase of the order (\<^verbatim>\<open>base\<close>, \<^verbatim>\<open>inc\<close>), then the
  checks and the derived quantities.
\<close>

definition order_parts :: "dctx \<Rightarrow> risk_context \<Rightarrow> dec \<times> dec" where
  "order_parts cx c =
     (let cur = dabs cx (rc_current_qty c); tgt = dabs cx (rc_target_qty c)
      in if rc_target_qty c = 0 then (0, 0)
         else if is_flip c then (0, tgt)
         else (min cur tgt, max 0 (dsub cx tgt cur)))"

definition mk_risk_context :: "dctx \<Rightarrow> risk_context \<Rightarrow> risk_context result" where
  "mk_risk_context cx c =
     (if rc_price c \<le> 0 then Inl ValueError
      else if rc_atr c < 0 \<or> rc_stop_distance c < 0 then Inl ValueError
      else if rc_leverage_setting c \<le> 0 then Inl ValueError
      else if rc_gross_notional_other c < 0 then Inl ValueError
      else Inr (c\<lparr>rc_base_qty := fst (order_parts cx c), rc_increase_qty := snd (order_parts cx c),
                  rc_post_qty := dabs cx (rc_target_qty c)\<rparr>))"

text \<open>\<^verbatim>\<open>from_snapshot\<close>: the fields the tracker supplies, the rest from the caller.\<close>

definition ctx_from_snapshot :: "dctx \<Rightarrow> equity_snapshot \<Rightarrow> risk_context \<Rightarrow> risk_context result" where
  "ctx_from_snapshot cx s args = mk_risk_context cx (args\<lparr>rc_ts_ns := es_ts_ns s, rc_equity := es_equity s,
     rc_drawdown := es_drawdown s, rc_pnl_day := es_pnl_day s, rc_equity_day_open := Some (es_equity_day_open s),
     rc_day_start_ns := Some (es_day_start_ns s)\<rparr>)"

definition post_notional :: "dctx \<Rightarrow> risk_context \<Rightarrow> dec" where
  "post_notional cx c = dmul cx (rc_post_qty c) (rc_price c)"

definition lag_ns :: "risk_context \<Rightarrow> int" where
  "lag_ns c = (case rc_last_data_ns c of None \<Rightarrow> 0 | Some t \<Rightarrow> rc_ts_ns c - t)"

definition effective_day_open :: "risk_context \<Rightarrow> dec" where
  "effective_day_open c = (case rc_equity_day_open c of None \<Rightarrow> rc_equity c | Some e \<Rightarrow> e)"

definition cap_increase :: "dctx \<Rightarrow> risk_context \<Rightarrow> dec \<Rightarrow> verdict result" where
  "cap_increase cx c q_max_post =
     (let inc = rc_increase_qty c in
      if inc \<le> 0 \<or> rc_post_qty c \<le> q_max_post then Inr ALLOW
      else let room = dsub cx q_max_post (rc_base_qty c) in
        if room \<le> 0 then Inr VETO else shrink (room / inc))"

definition ratio :: "dctx \<Rightarrow> dec \<Rightarrow> dec \<Rightarrow> dec option" where
  "ratio cx num den = (if den \<le> 0 then None else Some (ddiv cx num den))"

definition dec_ns_to_s :: "dctx \<Rightarrow> int \<Rightarrow> dec" where
  "dec_ns_to_s cx ns = ddiv cx (of_int ns) (of_int 1000000000)"

subsection \<open>What construction guarantees\<close>

definition ctx_ok :: "dctx \<Rightarrow> risk_context \<Rightarrow> bool" where
  "ctx_ok cx c \<longleftrightarrow> 0 < rc_price c \<and> 0 \<le> rc_atr c \<and> 0 \<le> rc_stop_distance c \<and> 0 < rc_leverage_setting c
     \<and> 0 \<le> rc_gross_notional_other c \<and> (rc_base_qty c, rc_increase_qty c) = order_parts cx c
     \<and> rc_post_qty c = dabs cx (rc_target_qty c)"

lemma order_parts_cong:
  "rc_current_qty d = rc_current_qty c \<Longrightarrow> rc_target_qty d = rc_target_qty c \<Longrightarrow> order_parts cx d = order_parts cx c"
  by (simp add: order_parts_def is_flip_def Let_def)

lemma mk_risk_context_ok:
  assumes "mk_risk_context cx c = Inr d"
  shows "ctx_ok cx d"
proof -
  from assms have d: "d = c\<lparr>rc_base_qty := fst (order_parts cx c), rc_increase_qty := snd (order_parts cx c),
      rc_post_qty := dabs cx (rc_target_qty c)\<rparr>"
    and g: "0 < rc_price c" "0 \<le> rc_atr c" "0 \<le> rc_stop_distance c" "0 < rc_leverage_setting c"
      "0 \<le> rc_gross_notional_other c"
    by (simp_all add: mk_risk_context_def not_le not_less split: if_splits)
  have "order_parts cx d = order_parts cx c" by (rule order_parts_cong) (simp_all add: d)
  with g show ?thesis by (simp add: ctx_ok_def d)
qed

lemma dsub_dabs_le: "dsub cx (dabs cx x) (dabs cx y) \<le> dabs cx x"
proof -
  have "ctx_round cx (dabs cx x) = dabs cx x" by (simp flip: repr_def)
  then show ?thesis unfolding dsub_def by (rule dr.rnd_le) simp
qed

lemma ctx_ok_qty:
  assumes "ctx_ok cx c"
  shows "0 \<le> rc_base_qty c" and "0 \<le> rc_increase_qty c" and "0 \<le> rc_post_qty c"
    and "rc_base_qty c \<le> rc_post_qty c" and "rc_base_qty c \<le> dabs cx (rc_current_qty c)"
    and "rc_post_qty c = dabs cx (rc_target_qty c)" and "rc_increase_qty c \<le> rc_post_qty c"
  using assms dsub_dabs_le [of cx "rc_target_qty c" "rc_current_qty c"]
  by (auto simp: ctx_ok_def order_parts_def Let_def split: if_splits)

text \<open>A cap is an exact verdict, and it never raises for a position opened from flat or by a flip.\<close>

lemma cap_increase_ok: "cap_increase cx c q = Inr v \<Longrightarrow> verdict_ok v"
  by (auto simp: cap_increase_def Let_def shrink_def split: if_splits dest: mk_verdict_ok)

lemma cap_increase_no_increase: "rc_increase_qty c \<le> 0 \<Longrightarrow> cap_increase cx c q = Inr ALLOW"
  by (simp add: cap_increase_def)

lemma cap_increase_exposure:
  assumes v: "cap_increase cx c q = Inr v" and inc: "0 < rc_increase_qty c" and big: "q < rc_post_qty c"
  shows "exposure_of v (rc_increase_qty c) \<le> max 0 (dsub cx q (rc_base_qty c))"
proof (cases "dsub cx q (rc_base_qty c) \<le> 0")
  case True
  with assms show ?thesis using va.act_zero by (simp add: cap_increase_def Let_def)
next
  case False
  let ?r = "dsub cx q (rc_base_qty c)"
  from v inc big False have m: "mk_verdict VK_SHRINK (?r / rc_increase_qty c) = Inr v"
    by (simp add: cap_increase_def shrink_def Let_def)
  then have "verdict_ok v" "v_factor v = ?r / rc_increase_qty c"
    by (auto intro: mk_verdict_ok simp: mk_verdict_def split: if_splits)
  with exposure_of_le_factor [of v "rc_increase_qty c"] inc False show ?thesis by simp
qed

lemmas tracker_eval [evals] = tracker_update_def tracker_rebase_def make_snapshot_def day_return_def tracker_init_def

lemmas context_eval [evals] = target_side_def is_flip_def order_parts_def ctx_ok_def post_notional_def lag_ns_def
  effective_day_open_def cap_increase_def ratio_def dec_ns_to_s_def

end
