(* ===== verification/Margin.thy ===== *)
theory Margin
  imports Domain
begin

text \<open>
  \<^verbatim>\<open>risk/margin.py\<close>: the liquidation price as the solution of \<open>Equity = MM\<close>, the distance to it in
  units of ATR, leverage caps and the bound on the speed of a drawdown. The functions are those of
  the code, in the arithmetic of a decimal context; the \<open>_exact\<close> functions are the formulas they
  round, and the refinement lemmas say when the two agree.
\<close>

section \<open>The functions of the code\<close>

definition liq_price_long :: "dctx \<Rightarrow> dec \<Rightarrow> dec \<Rightarrow> dec \<Rightarrow> dec \<Rightarrow> dec \<Rightarrow> dec result" where
  "liq_price_long cx q entry wallet mmr ma =
     (if q \<le> 0 then Inl ValueError
      else ddiv_trap cx (dsub cx (dsub cx (dmul cx q entry) wallet) ma) (dmul cx q (dsub cx 1 mmr)))"

definition liq_price_short :: "dctx \<Rightarrow> dec \<Rightarrow> dec \<Rightarrow> dec \<Rightarrow> dec \<Rightarrow> dec \<Rightarrow> dec result" where
  "liq_price_short cx q entry wallet mmr ma =
     (if q \<le> 0 then Inl ValueError
      else ddiv_trap cx (dadd cx (dadd cx wallet (dmul cx q entry)) ma) (dmul cx q (dadd cx 1 mmr)))"

definition liq_price :: "dctx \<Rightarrow> dec \<Rightarrow> dec \<Rightarrow> dec \<Rightarrow> dec \<Rightarrow> dec \<Rightarrow> dec result" where
  "liq_price cx q entry wallet mmr ma =
     (if q = 0 then Inl ValueError
      else ddiv_trap cx (dsub cx (dsub cx (dmul cx q entry) wallet) ma) (dsub cx q (dmul cx (dabs cx q) mmr)))"

definition position_equity :: "dctx \<Rightarrow> dec \<Rightarrow> dec \<Rightarrow> dec \<Rightarrow> dec \<Rightarrow> dec" where
  "position_equity cx q entry price wallet = dadd cx wallet (dmul cx q (dsub cx price entry))"

definition maintenance_margin :: "dctx \<Rightarrow> dec \<Rightarrow> dec \<Rightarrow> dec \<Rightarrow> dec \<Rightarrow> dec" where
  "maintenance_margin cx q price mmr ma = dsub cx (dmul cx (dmul cx (dabs cx q) price) mmr) ma"

definition margin_ratio :: "dctx \<Rightarrow> dec \<Rightarrow> dec \<Rightarrow> dec \<Rightarrow> dec \<Rightarrow> dec \<Rightarrow> dec \<Rightarrow> dec result" where
  "margin_ratio cx q entry price wallet mmr ma =
     (let eq = position_equity cx q entry price wallet in
      if eq \<le> 0 then Inl ValueError else Inr (ddiv cx (maintenance_margin cx q price mmr ma) eq))"

fun side_liq_price :: "dctx \<Rightarrow> side \<Rightarrow> dec \<Rightarrow> dec \<Rightarrow> dec \<Rightarrow> dec \<Rightarrow> dec \<Rightarrow> dec result" where
  "side_liq_price cx LONG q entry wallet mmr ma = liq_price_long cx q entry wallet mmr ma"
| "side_liq_price cx SHORT q entry wallet mmr ma = liq_price_short cx q entry wallet mmr ma"
| "side_liq_price cx FLAT q entry wallet mmr ma = Inl ValueError"

definition dtl_atr :: "dctx \<Rightarrow> dec \<Rightarrow> dec \<Rightarrow> dec \<Rightarrow> dec result" where
  "dtl_atr cx price liq atr =
     (if atr \<le> 0 then Inl ValueError else Inr (ddiv cx (dabs cx (dsub cx price liq)) atr))"

definition signed_dtl_atr :: "dctx \<Rightarrow> side \<Rightarrow> dec \<Rightarrow> dec \<Rightarrow> dec \<Rightarrow> dec result" where
  "signed_dtl_atr cx s price liq atr =
     (if atr \<le> 0 then Inl ValueError
      else case s of LONG \<Rightarrow> Inr (ddiv cx (dsub cx price liq) atr)
         | SHORT \<Rightarrow> Inr (ddiv cx (dsub cx liq price) atr)
         | FLAT \<Rightarrow> Inl ValueError)"

definition reduced_max_leverage :: "dctx \<Rightarrow> dec \<Rightarrow> dec \<Rightarrow> dec \<Rightarrow> dec \<Rightarrow> dec result" where
  "reduced_max_leverage cx stop_distance entry mmr b =
     (if \<not> (0 \<le> b \<and> b < 1) then Inl ValueError
      else if entry \<le> 0 then Inl ValueError
      else rbind (ddiv_trap cx stop_distance (dmul cx entry (dsub cx 1 b))) (\<lambda>x.
        ddiv_trap cx 1 (dadd cx x mmr)))"

definition max_qty_for_dtl :: "dctx \<Rightarrow> side \<Rightarrow> dec \<Rightarrow> dec \<Rightarrow> dec \<Rightarrow> dec \<Rightarrow> dec \<Rightarrow> dec \<Rightarrow> dec result" where
  "max_qty_for_dtl cx s wallet price atr min_dtl mmr ma =
     (if s = FLAT then Inl ValueError
      else if dadd cx wallet ma \<le> 0 then Inr 0
      else let sgn = (if s = LONG then dsub cx 1 mmr else dadd cx 1 mmr)
           in ddiv_trap cx (dadd cx wallet ma)
                (dadd cx (dmul cx price mmr) (dmul cx (dmul cx min_dtl atr) sgn)))"

definition leverage :: "dctx \<Rightarrow> dec \<Rightarrow> dec \<Rightarrow> dec \<Rightarrow> dec result" where
  "leverage cx q_abs price wallet =
     (if wallet \<le> 0 then Inl ValueError else Inr (ddiv cx (dmul cx q_abs price) wallet))"

text \<open>\<open>n_min\<close> is \<open>None\<close> for \<^verbatim>\<open>Decimal("Infinity")\<close>.\<close>

record drawdown_speed_bound =
  ds_dd0 :: dec
  ds_dd_max :: dec
  ds_v_max :: dec
  ds_n_min :: "dec option"

definition per_bar_loss_bound :: "dctx \<Rightarrow> dec \<Rightarrow> dec \<Rightarrow> dec \<Rightarrow> dec result" where
  "per_bar_loss_bound cx kappa_mode rho_base kappa_slip =
     (if kappa_mode < 0 \<or> rho_base < 0 \<or> kappa_slip < 0 then Inl ValueError
      else Inr (dmul cx (dmul cx kappa_mode rho_base) (dadd cx 1 kappa_slip)))"

definition min_bars_to_drawdown :: "dctx \<Rightarrow> dec \<Rightarrow> dec \<Rightarrow> dec \<Rightarrow> drawdown_speed_bound result" where
  "min_bars_to_drawdown cx dd0 dd_max v_max =
     (if dd_max < dd0 then Inl ValueError
      else if v_max < 0 then Inl ValueError
      else Inr \<lparr>ds_dd0 = dd0, ds_dd_max = dd_max, ds_v_max = v_max,
             ds_n_min = (if v_max = 0 then None else Some (ddiv cx (dsub cx dd_max dd0) v_max))\<rparr>)"

lemmas margin_eval [evals] = liq_price_long_def liq_price_short_def liq_price_def position_equity_def
  maintenance_margin_def margin_ratio_def dtl_atr_def signed_dtl_atr_def reduced_max_leverage_def
  max_qty_for_dtl_def leverage_def per_bar_loss_bound_def min_bars_to_drawdown_def ddiv_trap_def

section \<open>The formulas\<close>

definition equity_exact :: "rat \<Rightarrow> rat \<Rightarrow> rat \<Rightarrow> rat \<Rightarrow> rat" where
  "equity_exact q entry price wallet = wallet + q * (price - entry)"

definition mm_exact :: "rat \<Rightarrow> rat \<Rightarrow> rat \<Rightarrow> rat \<Rightarrow> rat" where
  "mm_exact q price mmr ma = \<bar>q\<bar> * price * mmr - ma"

definition liq_exact :: "rat \<Rightarrow> rat \<Rightarrow> rat \<Rightarrow> rat \<Rightarrow> rat \<Rightarrow> rat" where
  "liq_exact q entry wallet mmr ma = (q * entry - wallet - ma) / (q - \<bar>q\<bar> * mmr)"

lemma liq_denominator: "q \<noteq> 0 \<Longrightarrow> 0 \<le> mmr \<Longrightarrow> mmr < 1 \<Longrightarrow> q - \<bar>q\<bar> * mmr \<noteq> (0 :: rat)"
proof (cases "0 < q")
  case True
  assume "mmr < 1"
  then have "0 < q * (1 - mmr)" using True by simp
  then show ?thesis using True by (simp add: algebra_simps)
next
  case False
  assume "q \<noteq> 0" "0 \<le> mmr"
  with False have "q * (1 + mmr) < 0" by (intro mult_neg_pos) auto
  then show ?thesis using False by (simp add: algebra_simps)
qed

text \<open>Equity falls below the maintenance margin exactly on the wrong side of the liquidation price.\<close>

lemma liq_exact_solves:
  assumes "q \<noteq> 0" "0 \<le> mmr" "mmr < 1"
  shows "equity_exact q entry (liq_exact q entry wallet mmr ma) wallet
       = mm_exact q (liq_exact q entry wallet mmr ma) mmr ma"
proof -
  have d: "q - \<bar>q\<bar> * mmr \<noteq> 0" using assms by (rule liq_denominator)
  define p where "p = liq_exact q entry wallet mmr ma"
  have "p * (q - \<bar>q\<bar> * mmr) = q * entry - wallet - ma"
    unfolding p_def liq_exact_def using d by simp
  then show ?thesis unfolding p_def [symmetric] equity_exact_def mm_exact_def
    by (simp add: algebra_simps)
qed

lemma equity_minus_mm:
  assumes "q \<noteq> 0" "0 \<le> mmr" "mmr < 1"
  shows "equity_exact q entry p wallet - mm_exact q p mmr ma
       = (p - liq_exact q entry wallet mmr ma) * (q - \<bar>q\<bar> * mmr)"
proof -
  have d: "q - \<bar>q\<bar> * mmr \<noteq> 0" using assms by (rule liq_denominator)
  have "liq_exact q entry wallet mmr ma * (q - \<bar>q\<bar> * mmr) = q * entry - wallet - ma"
    unfolding liq_exact_def using d by simp
  then show ?thesis unfolding equity_exact_def mm_exact_def by (simp add: algebra_simps)
qed

lemma solvent_iff_long:
  assumes "0 < q" "0 \<le> mmr" "mmr < 1"
  shows "mm_exact q p mmr ma \<le> equity_exact q entry p wallet \<longleftrightarrow> liq_exact q entry wallet mmr ma \<le> p"
proof -
  have "0 < q * (1 - mmr)" using assms by simp
  then have "0 < q - \<bar>q\<bar> * mmr" using assms by (simp add: algebra_simps)
  then have "0 \<le> (p - liq_exact q entry wallet mmr ma) * (q - \<bar>q\<bar> * mmr) \<longleftrightarrow> liq_exact q entry wallet mmr ma \<le> p"
    by (auto simp: zero_le_mult_iff)
  with equity_minus_mm [of q mmr entry p wallet ma] assms show ?thesis
    by (metis diff_ge_0_iff_ge less_irrefl)
qed

lemma solvent_iff_short:
  assumes "q < 0" "0 \<le> mmr" "mmr < 1"
  shows "mm_exact q p mmr ma \<le> equity_exact q entry p wallet \<longleftrightarrow> p \<le> liq_exact q entry wallet mmr ma"
proof -
  have "q * (1 + mmr) < 0" using assms by (intro mult_neg_pos) auto
  then have "q - \<bar>q\<bar> * mmr < 0" using assms by (simp add: algebra_simps)
  then have "0 \<le> (p - liq_exact q entry wallet mmr ma) * (q - \<bar>q\<bar> * mmr) \<longleftrightarrow> p \<le> liq_exact q entry wallet mmr ma"
    by (auto simp: zero_le_mult_iff)
  with equity_minus_mm [of q mmr entry p wallet ma] assms show ?thesis
    by (metis diff_ge_0_iff_ge less_irrefl)
qed

text \<open>The two one-sided functions of the code round the one formula, when their operands fit the context.\<close>

lemma liq_price_long_refines:
  assumes "0 < q" "0 \<le> mmr" "mmr < 1" and fit: "repr cx (q * entry)" "repr cx (q * entry - wallet)"
    "repr cx (q * entry - wallet - ma)" "repr cx (1 - mmr)" "repr cx (q * (1 - mmr))"
  shows "liq_price_long cx q entry wallet mmr ma = Inr (ctx_round cx (liq_exact q entry wallet mmr ma))"
proof -
  have "q * (1 - mmr) \<noteq> 0" using assms by simp
  moreover have "liq_exact q entry wallet mmr ma = (q * entry - wallet - ma) / (q * (1 - mmr))"
    using assms(1) by (simp add: liq_exact_def right_diff_distrib)
  ultimately show ?thesis using assms by (simp add: liq_price_long_def ddiv_trap_def dec_ops repr_def)
qed

lemma liq_price_short_refines:
  assumes "0 < q" "0 \<le> mmr" "mmr < 1" and fit: "repr cx (q * entry)" "repr cx (wallet + q * entry)"
    "repr cx (wallet + q * entry + ma)" "repr cx (1 + mmr)" "repr cx (q * (1 + mmr))"
  shows "liq_price_short cx q entry wallet mmr ma = Inr (ctx_round cx (liq_exact (- q) entry wallet mmr ma))"
proof -
  have n: "q * (1 + mmr) \<noteq> 0" using assms by simp
  have "- q * entry - wallet - ma = - (wallet + q * entry + ma)" "- q - \<bar>- q\<bar> * mmr = - (q * (1 + mmr))"
    using assms(1) by (simp_all add: algebra_simps)
  then have "liq_exact (- q) entry wallet mmr ma = (wallet + q * entry + ma) / (q * (1 + mmr))"
    unfolding liq_exact_def by (simp only: minus_divide_divide)
  then show ?thesis using assms n
    by (simp add: liq_price_short_def ddiv_trap_def dec_ops repr_def)
qed

section \<open>The distance to liquidation of a fresh position\<close>

text \<open>\<open>side_sign\<close> is \<open>1\<close> for LONG, \<open>-1\<close> for SHORT; a fresh position has its entry at the current price.\<close>

fun side_sign :: "side \<Rightarrow> rat" where
  "side_sign LONG = 1"
| "side_sign SHORT = - 1"
| "side_sign FLAT = 0"

definition dtl_exact :: "side \<Rightarrow> rat \<Rightarrow> rat \<Rightarrow> rat \<Rightarrow> rat \<Rightarrow> rat \<Rightarrow> rat \<Rightarrow> rat" where
  "dtl_exact s q price wallet atr mmr ma =
     side_sign s * (price - liq_exact (side_sign s * q) price wallet mmr ma) / atr"

definition max_qty_exact :: "side \<Rightarrow> rat \<Rightarrow> rat \<Rightarrow> rat \<Rightarrow> rat \<Rightarrow> rat \<Rightarrow> rat \<Rightarrow> rat" where
  "max_qty_exact s wallet price atr k mmr ma =
     (wallet + ma) / (price * mmr + k * atr * (1 - side_sign s * mmr))"

lemma side_sign_cases: "s \<noteq> FLAT \<Longrightarrow> side_sign s = 1 \<or> side_sign s = - 1"
  by (cases s) simp_all

lemma fresh_distance:
  assumes s: "s \<noteq> FLAT" and q: "0 < q" and m: "0 \<le> mmr" "mmr < 1"
  shows "side_sign s * (price - liq_exact (side_sign s * q) price wallet mmr ma)
       = (wallet + ma - q * price * mmr) / (q * (1 - side_sign s * mmr))"
proof -
  define L where "L = liq_exact (side_sign s * q) price wallet mmr ma"
  have sq: "side_sign s * q \<noteq> 0" using side_sign_cases [OF s] q by auto
  have d: "0 < q * (1 - side_sign s * mmr)" using side_sign_cases [OF s] q m by auto
  have "L * (side_sign s * q - \<bar>side_sign s * q\<bar> * mmr) = side_sign s * q * price - wallet - ma"
    using liq_denominator [OF sq m] by (simp add: L_def liq_exact_def)
  then have "side_sign s * (price - L) * (q * (1 - side_sign s * mmr)) = wallet + ma - q * price * mmr"
    using side_sign_cases [OF s] q by (elim disjE) (simp_all add: algebra_simps)
  moreover have "q * (1 - side_sign s * mmr) \<noteq> 0" using d by linarith
  ultimately show ?thesis unfolding L_def by (metis nonzero_eq_divide_eq)
qed

lemma dtl_iff_max_qty:
  assumes s: "s \<noteq> FLAT" and q: "0 < q" and m: "0 \<le> mmr" "mmr < 1" and pos: "0 < price" "0 < atr" "0 < k"
  shows "k \<le> dtl_exact s q price wallet atr mmr ma \<longleftrightarrow> q \<le> max_qty_exact s wallet price atr k mmr ma"
proof -
  have u: "0 < 1 - side_sign s * mmr" using side_sign_cases [OF s] m by auto
  have d: "0 < q * (1 - side_sign s * mmr) * atr" using u q pos by simp
  have e: "0 < price * mmr + k * atr * (1 - side_sign s * mmr)" using u pos m by (simp add: add_nonneg_pos)
  have "k \<le> dtl_exact s q price wallet atr mmr ma
      \<longleftrightarrow> k * (q * (1 - side_sign s * mmr) * atr) \<le> wallet + ma - q * price * mmr"
    unfolding dtl_exact_def fresh_distance [OF s q m] divide_divide_eq_left
    using d by (simp add: pos_le_divide_eq)
  also have "\<dots> \<longleftrightarrow> q * (price * mmr + k * atr * (1 - side_sign s * mmr)) \<le> wallet + ma"
    by (simp add: algebra_simps)
  also have "\<dots> \<longleftrightarrow> q \<le> max_qty_exact s wallet price atr k mmr ma"
    unfolding max_qty_exact_def using e by (simp add: pos_le_divide_eq)
  finally show ?thesis .
qed

lemma max_qty_for_dtl_refines:
  assumes s: "s \<noteq> FLAT" and m: "0 \<le> mmr" "mmr < 1" and pos: "0 < price" "0 < atr" "0 < k" "0 < wallet + ma"
    and fit: "repr cx (wallet + ma)" "repr cx (1 - mmr)" "repr cx (1 + mmr)" "repr cx (price * mmr)" "repr cx (k * atr)"
      "repr cx (k * atr * (1 - side_sign s * mmr))" "repr cx (price * mmr + k * atr * (1 - side_sign s * mmr))"
  shows "max_qty_for_dtl cx s wallet price atr k mmr ma = Inr (ctx_round cx (max_qty_exact s wallet price atr k mmr ma))"
proof -
  have u: "0 < 1 - side_sign s * mmr" using side_sign_cases [OF s] m by auto
  have e: "price * mmr + k * atr * (1 - side_sign s * mmr) \<noteq> 0"
    using add_nonneg_pos [of "price * mmr" "k * atr * (1 - side_sign s * mmr)"] u pos m by simp
  show ?thesis
  proof (cases s)
    case LONG
    with e pos fit show ?thesis
      by (simp add: max_qty_for_dtl_def max_qty_exact_def dec_ops ddiv_trap_def repr_def)
  next
    case SHORT
    with e pos fit show ?thesis
      by (simp add: max_qty_for_dtl_def max_qty_exact_def dec_ops ddiv_trap_def repr_def)
  next
    case FLAT
    with s show ?thesis by simp
  qed
qed

text \<open>
  The leverage \<open>reduced_max_leverage\<close> allows is low enough for the stop to be reached, with the
  buffer \<open>b\<close>, before the liquidation price.
\<close>

definition reduced_exact :: "rat \<Rightarrow> rat \<Rightarrow> rat \<Rightarrow> rat \<Rightarrow> rat" where
  "reduced_exact stop entry mmr b = 1 / (stop / (entry * (1 - b)) + mmr)"

lemma stop_before_liquidation:
  assumes s: "s \<noteq> FLAT" and q: "0 < q" and m: "0 \<le> mmr" "mmr < 1" and b: "0 \<le> b" "b < 1"
    and pos: "0 < price" "0 < stop" "0 < wallet"
    and lev: "q * price / wallet \<le> reduced_exact stop price mmr b"
  shows "stop / ((1 - b) * (1 - side_sign s * mmr)) \<le> side_sign s * (price - liq_exact (side_sign s * q) price wallet mmr 0)"
proof -
  have u: "0 < 1 - side_sign s * mmr" using side_sign_cases [OF s] m by auto
  have e: "0 < stop / (price * (1 - b)) + mmr" using pos b m by (intro add_pos_nonneg divide_pos_pos) auto
  have "q * price * (stop / (price * (1 - b)) + mmr) \<le> wallet"
    using lev e pos(3) by (simp add: reduced_exact_def pos_divide_le_eq pos_le_divide_eq)
  moreover have "price * (stop / (price * (1 - b))) = stop / (1 - b)" using pos(1) by simp
  then have "q * price * (stop / (price * (1 - b)) + mmr) = q * (stop / (1 - b)) + q * price * mmr"
    by (simp only: distrib_left mult.assoc)
  ultimately have "q * (stop / (1 - b)) \<le> wallet - q * price * mmr" by simp
  then have "q * (stop / (1 - b)) / (q * (1 - side_sign s * mmr)) \<le> (wallet - q * price * mmr) / (q * (1 - side_sign s * mmr))"
    using u q by (intro divide_right_mono) auto
  moreover have "q * (stop / (1 - b)) / (q * (1 - side_sign s * mmr)) = stop / ((1 - b) * (1 - side_sign s * mmr))"
    using q by simp
  ultimately show ?thesis using fresh_distance [OF s q m, of price wallet 0] by simp
qed

lemma reduced_max_leverage_refines:
  assumes b: "0 \<le> b" "b < 1" and pos: "0 < entry" "0 < stop" and m: "0 \<le> mmr"
    and fit: "repr cx (1 - b)" "repr cx (entry * (1 - b))" "repr cx (stop / (entry * (1 - b)))"
      "repr cx (stop / (entry * (1 - b)) + mmr)"
  shows "reduced_max_leverage cx stop entry mmr b = Inr (ctx_round cx (reduced_exact stop entry mmr b))"
proof -
  have "0 < stop / (entry * (1 - b)) + mmr" using pos b m by (intro add_pos_nonneg divide_pos_pos) auto
  with b pos fit show ?thesis
    by (simp add: reduced_max_leverage_def reduced_exact_def dec_ops ddiv_trap_def repr_def)
qed

section \<open>The bound on the speed of a drawdown\<close>

text \<open>If no bar moves the drawdown by more than \<open>v\<close>, fewer bars than \<open>(dd_max - dd0) / v\<close> cannot breach \<open>dd_max\<close>.\<close>

lemma drawdown_after:
  assumes "\<forall>i < n. dd (Suc i) \<le> dd i + (v :: rat)"
  shows "dd n \<le> dd 0 + of_nat n * v"
  using assms
proof (induction n)
  case (Suc n)
  then have "dd n \<le> dd 0 + of_nat n * v" "dd (Suc n) \<le> dd n + v" by auto
  then show ?case by (simp add: algebra_simps)
qed simp

lemma min_bars_sound:
  assumes "\<forall>i < n. dd (Suc i) \<le> dd i + (v :: rat)" and "0 < v" and "dd_max \<le> dd n"
  shows "(dd_max - dd 0) / v \<le> of_nat n"
  using drawdown_after [OF assms(1)] assms(2,3) by (simp add: pos_divide_le_eq)

section \<open>Properties\<close>

text \<open>C39: The liquidation price of a long (short) position is the rounding of one formula, and that formula is the
  liquidation condition: the equity covers the maintenance margin exactly on the safe side of it. (The
  operands of the formula fit the context.)\<close>
theorem liquidation_price_correct:
  assumes q: "0 < q" and m: "0 \<le> mmr" "mmr < 1"
    and fit_long: "repr cx (q * entry)" "repr cx (q * entry - wallet)" "repr cx (q * entry - wallet - ma)"
      "repr cx (1 - mmr)" "repr cx (q * (1 - mmr))"
    and fit_short: "repr cx (wallet + q * entry)" "repr cx (wallet + q * entry + ma)" "repr cx (1 + mmr)" "repr cx (q * (1 + mmr))"
  shows "side_liq_price cx LONG q entry wallet mmr ma = Inr (ctx_round cx (liq_exact q entry wallet mmr ma))
    \<and> side_liq_price cx SHORT q entry wallet mmr ma = Inr (ctx_round cx (liq_exact (- q) entry wallet mmr ma))
    \<and> (mm_exact q p mmr ma \<le> equity_exact q entry p wallet \<longleftrightarrow> liq_exact q entry wallet mmr ma \<le> p)
    \<and> (mm_exact (- q) p mmr ma \<le> equity_exact (- q) entry p wallet \<longleftrightarrow> p \<le> liq_exact (- q) entry wallet mmr ma)"
  using liq_price_long_refines [OF q m fit_long] liq_price_short_refines [OF q m fit_long(1) fit_short]
    solvent_iff_long [OF q m] solvent_iff_short [of "- q", OF _ m] q by simp

theorem liquidation_price_correct_witness:
  "side_liq_price Default_ctx LONG 40 100 1000 (4/100) 0 = Inr (3000 / (384/10))
   \<and> mm_exact 40 80 (4/100) 0 \<le> equity_exact 40 100 80 1000 \<and> \<not> mm_exact 40 78 (4/100) 0 \<le> equity_exact 40 100 78 1000"
proof -
  have fits: "repr Default_ctx (40 * 100)" "repr Default_ctx (40 * 100 - 1000)" "repr Default_ctx (40 * 100 - 1000 - 0)"
    "repr Default_ctx (1 - 4/100)" "repr Default_ctx (40 * (1 - 4/100))" "repr Default_ctx (1000 + 40 * 100)"
    "repr Default_ctx (1000 + 40 * 100 + 0)" "repr Default_ctx (1 + 4/100)" "repr Default_ctx (40 * (1 + 4/100))"
    by (simp_all add: evals)
  show ?thesis
    using liquidation_price_correct [of 40 "4/100" Default_ctx 100 1000 0 80, OF _ _ _ fits]
      liquidation_price_correct [of 40 "4/100" Default_ctx 100 1000 0 78, OF _ _ _ fits]
    by (simp add: liq_exact_def ctx_eval)
qed

text \<open>The quantity \<open>max_qty_for_dtl\<close> returns is the rounding of the largest fresh position whose signed distance to
  liquidation is at least \<open>k\<close> ATR: a position keeps the distance if and only if it is not larger.\<close>
theorem max_qty_keeps_distance:
  assumes s: "s \<noteq> FLAT" and m: "0 \<le> mmr" "mmr < 1" and pos: "0 < price" "0 < atr" "0 < k" "0 < wallet + ma"
    and fit: "repr cx (wallet + ma)" "repr cx (1 - mmr)" "repr cx (1 + mmr)" "repr cx (price * mmr)" "repr cx (k * atr)"
      "repr cx (k * atr * (1 - side_sign s * mmr))" "repr cx (price * mmr + k * atr * (1 - side_sign s * mmr))"
    and q: "0 < q"
  shows "max_qty_for_dtl cx s wallet price atr k mmr ma = Inr (ctx_round cx (max_qty_exact s wallet price atr k mmr ma))
     \<and> (k \<le> dtl_exact s q price wallet atr mmr ma \<longleftrightarrow> q \<le> max_qty_exact s wallet price atr k mmr ma)"
  using max_qty_for_dtl_refines [OF s m pos fit] dtl_iff_max_qty [OF s q m pos(1,2,3)] by blast

theorem max_qty_keeps_distance_witness:
  "max_qty_for_dtl Default_ctx LONG 1000 100 (5/2) 6 (4/100) 0 = Inr (ctx_round Default_ctx (1000 / (184/10)))
   \<and> 6 \<le> dtl_exact LONG 50 100 1000 (5/2) (4/100) 0 \<and> \<not> 6 \<le> dtl_exact LONG 60 100 1000 (5/2) (4/100) 0"
proof -
  have fits: "LONG \<noteq> FLAT" "(0::rat) \<le> 4/100" "(4/100::rat) < 1" "(0::rat) < 100" "(0::rat) < 5/2" "(0::rat) < 6" "(0::rat) < 1000 + 0"
    "repr Default_ctx (1000 + 0)" "repr Default_ctx (1 - 4/100)" "repr Default_ctx (1 + 4/100)" "repr Default_ctx (100 * (4/100))"
    "repr Default_ctx (6 * (5/2))" "repr Default_ctx (6 * (5/2) * (1 - side_sign LONG * (4/100)))"
    "repr Default_ctx (100 * (4/100) + 6 * (5/2) * (1 - side_sign LONG * (4/100)))"
    by (simp_all add: evals)
  show ?thesis
    using max_qty_keeps_distance [OF fits, of 50] max_qty_keeps_distance [OF fits, of 60]
    by (simp add: max_qty_exact_def)
qed

text \<open>A position whose leverage is within \<open>reduced_max_leverage\<close> meets its stop before its liquidation price, with the
  buffer \<open>b\<close> of the stop distance to spare on a long side.\<close>
theorem stop_fires_before_liquidation:
  assumes s: "s \<noteq> FLAT" and q: "0 < q" and m: "0 \<le> mmr" "mmr < 1" and b: "0 \<le> b" "b < 1"
    and pos: "0 < price" "0 < stop" "0 < wallet"
    and fit: "repr cx (1 - b)" "repr cx (price * (1 - b))" "repr cx (stop / (price * (1 - b)))"
      "repr cx (stop / (price * (1 - b)) + mmr)"
    and lev: "q * price / wallet \<le> reduced_exact stop price mmr b"
  shows "reduced_max_leverage cx stop price mmr b = Inr (ctx_round cx (reduced_exact stop price mmr b))
     \<and> stop / ((1 - b) * (1 - side_sign s * mmr)) \<le> side_sign s * (price - liq_exact (side_sign s * q) price wallet mmr 0)"
  using stop_before_liquidation [OF s q m b pos lev] reduced_max_leverage_refines [OF b pos(1,2) m(1) fit] by blast

theorem stop_fires_before_liquidation_witness:
  "reduced_max_leverage Default_ctx 4 100 (5/100) (2/10) = Inr 10
   \<and> 4 / ((1 - 2/10) * (1 - 5/100)) \<le> 1 * (100 - liq_exact (1 * 50) 100 1000 (5/100) 0)"
proof -
  have fits: "LONG \<noteq> FLAT" "(0::rat) < 50" "(0::rat) \<le> 5/100" "(5/100::rat) < 1" "(0::rat) \<le> 2/10" "(2/10::rat) < 1"
    "(0::rat) < 100" "(0::rat) < 4" "(0::rat) < 1000" "repr Default_ctx (1 - 2/10)" "repr Default_ctx (100 * (1 - 2/10))"
    "repr Default_ctx (4 / (100 * (1 - 2/10)))" "repr Default_ctx (4 / (100 * (1 - 2/10)) + 5/100)"
    "50 * 100 / 1000 \<le> reduced_exact 4 100 (5/100) (2/10)"
    by (simp_all add: evals reduced_exact_def)
  show ?thesis using stop_fires_before_liquidation [OF fits] by (simp add: reduced_exact_def ctx_eval)
qed

end
