(* ===== verification/KillSwitch.thy ===== *)
theory KillSwitch
  imports Domain
begin

text \<open>
  \<^verbatim>\<open>risk/killswitch.py\<close>: the latch that blocks all new exposure until an administrator releases
  it, with the audit record of a release (\<^verbatim>\<open>AuditRecord\<close> of \<^verbatim>\<open>risk/journal.py\<close>). The injected clock
  is an optional reading; the audit sink is the list of records handed to it.
\<close>

record killswitch =
  ks_tripped :: bool
  ks_reason :: "string option"
  ks_tripped_at_ns :: "int option"
  ks_trip_count :: nat

definition killswitch_init :: killswitch where
  "killswitch_init = \<lparr>ks_tripped = False, ks_reason = None, ks_tripped_at_ns = None, ks_trip_count = 0\<rparr>"

text \<open>\<^verbatim>\<open>state()\<close>, the dictionary an audit record shows before and after.\<close>

record ks_view =
  kv_tripped :: bool
  kv_reason :: "string option"
  kv_tripped_at_ns :: "int option"

definition ks_state :: "killswitch \<Rightarrow> ks_view" where
  "ks_state k = \<lparr>kv_tripped = ks_tripped k, kv_reason = ks_reason k, kv_tripped_at_ns = ks_tripped_at_ns k\<rparr>"

record 'st audit_record =
  ar_ts_ns :: int
  ar_action :: string
  ar_target :: string
  ar_actor_role :: role
  ar_actor :: "string option"
  ar_before :: 'st
  ar_after :: 'st

definition ks_now :: "int option \<Rightarrow> killswitch \<Rightarrow> int option \<Rightarrow> int" where
  "ks_now clock k ts = (case ts of Some t \<Rightarrow> t | None \<Rightarrow> (case clock of Some t \<Rightarrow> t
     | None \<Rightarrow> (case ks_tripped_at_ns k of Some t \<Rightarrow> t | None \<Rightarrow> 0)))"

definition ks_trip :: "int option \<Rightarrow> killswitch \<Rightarrow> string \<Rightarrow> int option \<Rightarrow> killswitch \<times> bool" where
  "ks_trip clock k reason ts =
     (if ks_tripped k then (k, False)
      else (k\<lparr>ks_tripped := True, ks_reason := Some reason, ks_tripped_at_ns := Some (ks_now clock k ts),
              ks_trip_count := Suc (ks_trip_count k)\<rparr>, True))"

definition ks_release :: "int option \<Rightarrow> killswitch \<Rightarrow> role \<Rightarrow> string option \<Rightarrow> int option
    \<Rightarrow> (killswitch \<times> ks_view audit_record option) result" where
  "ks_release clock k actor_role actor ts =
     (if actor_role \<noteq> ADMIN then Inl PermissionDeniedError
      else if \<not> ks_tripped k then Inr (k, None)
      else let before = ks_state k;
               t = ks_now clock k ts;
               k' = k\<lparr>ks_tripped := False, ks_reason := None, ks_tripped_at_ns := None\<rparr>
           in Inr (k', Some \<lparr>ar_ts_ns = t, ar_action = ''killswitch.release'', ar_target = ''kill_switch'',
                ar_actor_role = actor_role, ar_actor = actor, ar_before = before, ar_after = ks_state k'\<rparr>))"

text \<open>The commands that can reach the latch.\<close>

datatype ks_cmd = Trip string "int option" | Release role "string option" "int option"

fun ks_step :: "int option \<Rightarrow> killswitch \<Rightarrow> ks_cmd \<Rightarrow> killswitch result" where
  "ks_step clock k (Trip r ts) = Inr (fst (ks_trip clock k r ts))"
| "ks_step clock k (Release ro a ts) = rbind (ks_release clock k ro a ts) (\<lambda>p. Inr (fst p))"

definition ks_ok :: "killswitch \<Rightarrow> bool" where
  "ks_ok k \<longleftrightarrow> (ks_tripped k \<longleftrightarrow> ks_reason k \<noteq> None) \<and> (ks_tripped k \<longleftrightarrow> ks_tripped_at_ns k \<noteq> None)
     \<and> (ks_tripped k \<longrightarrow> 0 < ks_trip_count k)"

lemma ks_init_ok [simp]: "ks_ok killswitch_init"
  by (simp add: ks_ok_def killswitch_init_def)

lemma ks_trip_ok: "ks_ok k \<Longrightarrow> ks_ok (fst (ks_trip clock k r ts))"
  by (auto simp: ks_ok_def ks_trip_def)

lemma ks_trip_tripped [simp]: "ks_tripped (fst (ks_trip clock k r ts))"
  by (simp add: ks_trip_def)

lemma ks_release_Inr:
  assumes "ks_release clock k ro a ts = Inr (k', ar)"
  shows "ro = ADMIN" and "\<not> ks_tripped k'" and "ks_ok k \<Longrightarrow> ks_ok k'"
    and "ks_tripped k \<longleftrightarrow> ar \<noteq> None" and "ks_trip_count k' = ks_trip_count k"
  using assms by (auto simp: ks_release_def ks_ok_def Let_def split: if_splits)

text \<open>A repeated trip keeps the first reason and time.\<close>

lemma ks_trip_idem: "ks_tripped k \<Longrightarrow> ks_trip clock k r ts = (k, False)"
  by (simp add: ks_trip_def)

lemma ks_step_ok: "ks_ok k \<Longrightarrow> ks_step clock k c = Inr k' \<Longrightarrow> ks_ok k'"
  by (cases c) (auto simp: rbind_Inr_iff ks_trip_ok dest: ks_release_Inr)

interpretation ks: step_invariant "ks_step clock" ks_ok for clock
  by unfold_locales (rule ks_step_ok)

text \<open>Once tripped, only an administrator's release opens the latch.\<close>

fun admin_release :: "ks_cmd \<Rightarrow> bool" where
  "admin_release (Trip r ts) = False"
| "admin_release (Release ro a ts) = (ro = ADMIN)"

lemma ks_step_latched:
  "ks_tripped k \<Longrightarrow> \<not> admin_release c \<Longrightarrow> ks_step clock k c = Inr k' \<Longrightarrow> k' = k"
  by (cases c) (auto simp: ks_trip_idem ks_release_def rbind_Inr_iff)

lemma ks_run_latched:
  "ks_tripped k \<Longrightarrow> \<forall>c \<in> set cs. \<not> admin_release c \<Longrightarrow> run_steps (ks_step clock) k cs = Inr k' \<Longrightarrow> k' = k"
proof (induction cs arbitrary: k)
  case (Cons c cs)
  then obtain k1 where "ks_step clock k c = Inr k1" "run_steps (ks_step clock) k1 cs = Inr k'"
    by (auto elim: rbind_InrE)
  with ks_step_latched [of k c clock k1] Cons show ?case by auto
qed simp

lemmas ks_eval [evals] = killswitch_init_def ks_trip_def ks_now_def ks_release_def ks_state_def

end
