(* ===== verification/RiskState.thy ===== *)
theory RiskState
  imports RiskContext KillSwitch
begin

text \<open>
  \<^verbatim>\<open>risk/state.py\<close> and the state-machine section of \<^verbatim>\<open>risk/config.py\<close>: the automaton NORMAL,
  WARNING, COOLDOWN, HALTED with hysteresis and dwell, driven by bar observations and by the
  administrator's release. The kill switch is shared with the risk guard, so it is a field of the
  machine that other components may change between two bars.
\<close>

section \<open>Configuration\<close>

datatype cooldown_policy = SCALED_ENTRIES | REDUCE_ONLY

record sm_cfg =
  sm_warn_enter :: dec
  sm_warn_exit :: dec
  sm_warn_dwell :: int
  sm_warn_vol_ratio :: rat
  sm_cool_enter :: dec
  sm_cool_exit :: dec
  sm_cool_dwell :: int
  sm_cool_daily_loss :: dec
  sm_halt_enter :: dec
  sm_halt_daily_loss :: dec
  sm_kappa_mode :: "(risk_state, dec) dict"
  sm_cooldown_policy :: cooldown_policy

definition default_sm_cfg :: sm_cfg where
  "default_sm_cfg = \<lparr>sm_warn_enter = 4/100, sm_warn_exit = 25/1000, sm_warn_dwell = 15,
     sm_warn_vol_ratio = f64 (16/10), sm_cool_enter = 8/100, sm_cool_exit = 5/100, sm_cool_dwell = 30,
     sm_cool_daily_loss = 2/100, sm_halt_enter = 12/100, sm_halt_daily_loss = 3/100,
     sm_kappa_mode = [(NORMAL, 1), (WARNING, 5/10), (COOLDOWN, 25/100), (HALTED, 0)],
     sm_cooldown_policy = SCALED_ENTRIES\<rparr>"

definition sm_fields_ok :: "sm_cfg \<Rightarrow> bool" where
  "sm_fields_ok c \<longleftrightarrow> 0 < sm_warn_enter c \<and> sm_warn_enter c < 1 \<and> 0 \<le> sm_warn_exit c \<and> sm_warn_exit c < 1
     \<and> 0 \<le> sm_warn_dwell c \<and> 0 < sm_warn_vol_ratio c \<and> 0 < sm_cool_enter c \<and> sm_cool_enter c < 1
     \<and> 0 \<le> sm_cool_exit c \<and> sm_cool_exit c < 1 \<and> 0 \<le> sm_cool_dwell c
     \<and> 0 < sm_cool_daily_loss c \<and> sm_cool_daily_loss c < 1 \<and> 0 < sm_halt_enter c \<and> sm_halt_enter c < 1
     \<and> 0 < sm_halt_daily_loss c \<and> sm_halt_daily_loss c < 1"

definition all_states :: "risk_state list" where
  "all_states = [NORMAL, WARNING, COOLDOWN, HALTED]"

definition kappa_of :: "sm_cfg \<Rightarrow> risk_state \<Rightarrow> dec" where
  "kappa_of c s = (case dget (sm_kappa_mode c) s of Some k \<Rightarrow> k | None \<Rightarrow> 0)"

text \<open>The field constraints, then \<^verbatim>\<open>_ordered\<close> in its order of checks.\<close>

definition mk_sm_cfg :: "sm_cfg \<Rightarrow> sm_cfg result" where
  "mk_sm_cfg c =
     (if \<not> sm_fields_ok c then Inl ValueError
      else if \<not> sm_warn_exit c < sm_warn_enter c then Inl ValueError
      else if \<not> sm_cool_exit c < sm_cool_enter c then Inl ValueError
      else if \<not> sm_warn_enter c \<le> sm_cool_exit c then Inl ValueError
      else if \<not> sm_cool_enter c < sm_halt_enter c then Inl ValueError
      else if \<not> sm_cool_daily_loss c < sm_halt_daily_loss c then Inl ValueError
      else if \<exists>s \<in> set all_states. dget (sm_kappa_mode c) s = None then Inl ValueError
      else if \<exists>kv \<in> set (sm_kappa_mode c). \<not> (0 \<le> snd kv \<and> snd kv \<le> 1) then Inl ValueError
      else if \<not> (kappa_of c WARNING \<le> kappa_of c NORMAL \<and> kappa_of c COOLDOWN \<le> kappa_of c WARNING
                 \<and> kappa_of c HALTED \<le> kappa_of c COOLDOWN) then Inl ValueError
      else if kappa_of c HALTED \<noteq> 0 then Inl ValueError
      else Inr c)"

definition sm_cfg_ok :: "sm_cfg \<Rightarrow> bool" where
  "sm_cfg_ok c \<longleftrightarrow> mk_sm_cfg c = Inr c"

lemma sm_cfg_okD:
  assumes "sm_cfg_ok c"
  shows "sm_fields_ok c" and "sm_warn_exit c < sm_warn_enter c" and "sm_cool_exit c < sm_cool_enter c"
    and "sm_warn_enter c \<le> sm_cool_exit c" and "sm_cool_enter c < sm_halt_enter c"
    and "sm_cool_daily_loss c < sm_halt_daily_loss c"
    and "kappa_of c HALTED = 0" and "kappa_of c WARNING \<le> kappa_of c NORMAL"
    and "kappa_of c COOLDOWN \<le> kappa_of c WARNING" and "kappa_of c HALTED \<le> kappa_of c COOLDOWN"
  using assms by (auto simp: sm_cfg_ok_def mk_sm_cfg_def split: if_splits)

lemma default_sm_cfg_ok: "sm_cfg_ok default_sm_cfg"
  by code_simp

section \<open>Events and the transition table\<close>

datatype risk_event = HALT_BREACH | COOL_BREACH | WARN_BREACH | RECOVERY | STEADY | ADMIN_RELEASE

fun transitions :: "risk_state \<Rightarrow> risk_event \<Rightarrow> risk_state" where
  "transitions NORMAL HALT_BREACH = HALTED"
| "transitions NORMAL COOL_BREACH = COOLDOWN"
| "transitions NORMAL WARN_BREACH = WARNING"
| "transitions NORMAL RECOVERY = NORMAL"
| "transitions NORMAL STEADY = NORMAL"
| "transitions NORMAL ADMIN_RELEASE = NORMAL"
| "transitions WARNING HALT_BREACH = HALTED"
| "transitions WARNING COOL_BREACH = COOLDOWN"
| "transitions WARNING WARN_BREACH = WARNING"
| "transitions WARNING RECOVERY = NORMAL"
| "transitions WARNING STEADY = WARNING"
| "transitions WARNING ADMIN_RELEASE = WARNING"
| "transitions COOLDOWN HALT_BREACH = HALTED"
| "transitions COOLDOWN COOL_BREACH = COOLDOWN"
| "transitions COOLDOWN WARN_BREACH = COOLDOWN"
| "transitions COOLDOWN RECOVERY = WARNING"
| "transitions COOLDOWN STEADY = COOLDOWN"
| "transitions COOLDOWN ADMIN_RELEASE = COOLDOWN"
| "transitions HALTED HALT_BREACH = HALTED"
| "transitions HALTED COOL_BREACH = HALTED"
| "transitions HALTED WARN_BREACH = HALTED"
| "transitions HALTED RECOVERY = HALTED"
| "transitions HALTED STEADY = HALTED"
| "transitions HALTED ADMIN_RELEASE = COOLDOWN"

fun severity :: "risk_state \<Rightarrow> int" where
  "severity NORMAL = 0"
| "severity WARNING = 1"
| "severity COOLDOWN = 2"
| "severity HALTED = 3"

fun risk_event_value :: "risk_event \<Rightarrow> string" where
  "risk_event_value HALT_BREACH = ''HALT_BREACH''"
| "risk_event_value COOL_BREACH = ''COOL_BREACH''"
| "risk_event_value WARN_BREACH = ''WARN_BREACH''"
| "risk_event_value RECOVERY = ''RECOVERY''"
| "risk_event_value STEADY = ''STEADY''"
| "risk_event_value ADMIN_RELEASE = ''ADMIN_RELEASE''"

lemma severity_drop_le_1: "severity s - 1 \<le> severity (transitions s e)"
  by (cases s; cases e) simp_all

lemma kappa_antimono:
  "sm_cfg_ok c \<Longrightarrow> severity s \<le> severity t \<Longrightarrow> kappa_of c t \<le> kappa_of c s"
  using sm_cfg_okD(7-10) [of c] by (cases s; cases t) auto

record risk_observation =
  ob_ts_ns :: int
  ob_equity :: dec
  ob_vol_ratio :: "pyfloat option"

definition mk_risk_observation :: "risk_observation \<Rightarrow> risk_observation result" where
  "mk_risk_observation ob = (case ob_vol_ratio ob of
     None \<Rightarrow> Inr ob
   | Some v \<Rightarrow> (if f_isfinite v \<and> f_le (Fin 0) v then Inr ob else Inl ValueError))"

record transition =
  tr_ts_ns :: int
  tr_state_from :: risk_state
  tr_state_to :: risk_state
  tr_event :: risk_event
  tr_dwell_bars :: int
  tr_drawdown :: dec
  tr_day_return :: dec
  tr_vol_ratio :: "pyfloat option"
  tr_actor :: "string option"

section \<open>The machine\<close>

record fsm_view =
  fv_state :: risk_state
  fv_kappa_mode :: dec
  fv_dwell_bars :: int
  fv_peak :: "dec option"
  fv_drawdown :: "dec option"
  fv_killswitch :: ks_view

datatype audit = AuditKs "ks_view audit_record" | AuditFsm "fsm_view audit_record"

record fsm =
  fs_cfg :: sm_cfg
  fs_killswitch :: killswitch
  fs_tracker :: equity_tracker
  fs_state :: risk_state
  fs_dwell :: int
  fs_last_ts :: int
  fs_last_vol :: "pyfloat option"
  fs_transitions :: "transition list"
  fs_audit :: "audit list"

definition fsm_init :: "sm_cfg \<Rightarrow> fsm" where
  "fsm_init c = \<lparr>fs_cfg = c, fs_killswitch = killswitch_init, fs_tracker = tracker_init, fs_state = NORMAL,
     fs_dwell = 0, fs_last_ts = 0, fs_last_vol = None, fs_transitions = [], fs_audit = []\<rparr>"

definition reduce_only :: "fsm \<Rightarrow> bool" where
  "reduce_only m \<longleftrightarrow> fs_state m \<in> {COOLDOWN, HALTED}"

definition entries_allowed :: "fsm \<Rightarrow> bool" where
  "entries_allowed m =
     (if ks_tripped (fs_killswitch m) \<or> fs_state m = HALTED then False
      else if fs_state m = COOLDOWN then sm_cooldown_policy (fs_cfg m) = SCALED_ENTRIES
      else True)"

definition flatten_all :: "fsm \<Rightarrow> bool" where
  "flatten_all m \<longleftrightarrow> fs_state m = HALTED"

definition classify :: "dctx \<Rightarrow> sm_cfg \<Rightarrow> bool \<Rightarrow> risk_state \<Rightarrow> int \<Rightarrow> equity_snapshot \<Rightarrow> pyfloat option \<Rightarrow> risk_event" where
  "classify cx c tripped st dw snap vol_ratio =
     (let dd = es_drawdown snap; day_ret = day_return cx snap in
      if tripped \<or> sm_halt_enter c \<le> dd \<or> day_ret \<le> dneg cx (sm_halt_daily_loss c) then HALT_BREACH
      else if st = HALTED then STEADY
      else if sm_cool_enter c \<le> dd \<or> day_ret \<le> dneg cx (sm_cool_daily_loss c) then COOL_BREACH
      else if st = COOLDOWN then
        (if dd \<le> sm_cool_exit c \<and> sm_cool_dwell c \<le> dw then RECOVERY else STEADY)
      else if sm_warn_enter c \<le> dd
          \<or> (case vol_ratio of None \<Rightarrow> False | Some v \<Rightarrow> f_less (Fin (sm_warn_vol_ratio c)) v) then WARN_BREACH
      else if st = WARNING \<and> dd \<le> sm_warn_exit c \<and> sm_warn_dwell c \<le> dw then RECOVERY
      else STEADY)"

definition fsm_apply :: "dctx \<Rightarrow> fsm \<Rightarrow> risk_event \<Rightarrow> equity_snapshot \<Rightarrow> pyfloat option \<Rightarrow> string option
    \<Rightarrow> fsm \<times> transition option" where
  "fsm_apply cx m ev snap vol_ratio actor =
     (let target = transitions (fs_state m) ev in
      if target = fs_state m then (m, None)
      else let tr = \<lparr>tr_ts_ns = es_ts_ns snap, tr_state_from = fs_state m, tr_state_to = target, tr_event = ev,
                     tr_dwell_bars = fs_dwell m, tr_drawdown = es_drawdown snap,
                     tr_day_return = day_return cx snap, tr_vol_ratio = vol_ratio, tr_actor = actor\<rparr>;
               ks = (if target = HALTED
                     then fst (ks_trip None (fs_killswitch m) (''risk_state:'' @ risk_event_value ev) (Some (es_ts_ns snap)))
                     else fs_killswitch m)
           in (m\<lparr>fs_state := target, fs_dwell := 0, fs_killswitch := ks,
                 fs_transitions := fs_transitions m @ [tr]\<rparr>, Some tr))"

definition release_transition :: "dctx \<Rightarrow> fsm \<Rightarrow> string option \<Rightarrow> fsm \<times> transition option" where
  "release_transition cx m actor =
     (let (tk, snap_opt) = tracker_rebase cx (fs_tracker m);
          snap = (case snap_opt of Some s \<Rightarrow> s
                  | None \<Rightarrow> \<lparr>es_ts_ns = fs_last_ts m, es_equity = 0, es_peak = 0, es_drawdown = 0,
                              es_day_start_ns = 0, es_equity_day_open = 0, es_pnl_day = 0\<rparr>)
      in fsm_apply cx (m\<lparr>fs_tracker := tk\<rparr>) ADMIN_RELEASE snap (fs_last_vol m) actor)"

definition fsm_update :: "dctx \<Rightarrow> fsm \<Rightarrow> risk_observation \<Rightarrow> (fsm \<times> transition option) result" where
  "fsm_update cx m ob =
     rbind (tracker_update cx (fs_tracker m) (ob_ts_ns ob) (ob_equity ob)) (\<lambda>(tk, snap).
       let m1 = m\<lparr>fs_tracker := tk, fs_last_ts := ob_ts_ns ob, fs_last_vol := ob_vol_ratio ob,
                  fs_dwell := fs_dwell m + 1\<rparr>
       in Inr (if fs_state m1 = HALTED \<and> \<not> ks_tripped (fs_killswitch m1)
               then release_transition cx m1 (Some ''kill_switch'')
               else fsm_apply cx m1 (classify cx (fs_cfg m1) (ks_tripped (fs_killswitch m1)) (fs_state m1)
                      (fs_dwell m1) snap (ob_vol_ratio ob)) snap (ob_vol_ratio ob) None))"

definition fsm_audit_state :: "fsm \<Rightarrow> fsm_view" where
  "fsm_audit_state m = \<lparr>fv_state = fs_state m, fv_kappa_mode = kappa_of (fs_cfg m) (fs_state m),
     fv_dwell_bars = fs_dwell m, fv_peak = map_option es_peak (et_snap (fs_tracker m)),
     fv_drawdown = map_option es_drawdown (et_snap (fs_tracker m)),
     fv_killswitch = ks_state (fs_killswitch m)\<rparr>"

definition role_value :: "role \<Rightarrow> string" where
  "role_value r = (case r of OPERATOR \<Rightarrow> ''operator'' | ANALYST \<Rightarrow> ''analyst'' | AUDITOR \<Rightarrow> ''auditor'' | ADMIN \<Rightarrow> ''admin'')"

definition add_ks_audit :: "fsm \<Rightarrow> ks_view audit_record option \<Rightarrow> fsm" where
  "add_ks_audit m a = (case a of None \<Rightarrow> m | Some r \<Rightarrow> m\<lparr>fs_audit := fs_audit m @ [AuditKs r]\<rparr>)"

definition fsm_release :: "dctx \<Rightarrow> int option \<Rightarrow> fsm \<Rightarrow> role \<Rightarrow> string option \<Rightarrow> (fsm \<times> transition option) result" where
  "fsm_release cx clock m actor_role actor =
     (let ts = (case clock of Some t \<Rightarrow> t | None \<Rightarrow> fs_last_ts m) in
      if actor_role \<noteq> ADMIN then Inl PermissionDeniedError
      else if fs_state m \<noteq> HALTED then
        (if ks_tripped (fs_killswitch m)
         then rbind (ks_release clock (fs_killswitch m) actor_role actor (Some ts)) (\<lambda>(ks, a).
                Inr (add_ks_audit (m\<lparr>fs_killswitch := ks\<rparr>) a, None))
         else Inr (m, None))
      else let before = fsm_audit_state m in
        rbind (ks_release clock (fs_killswitch m) actor_role actor (Some ts)) (\<lambda>(ks, a).
          let (m2, tr) = release_transition cx (add_ks_audit (m\<lparr>fs_killswitch := ks\<rparr>) a)
                (Some (case actor of Some a' \<Rightarrow> (if a' = '''' then role_value actor_role else a') | None \<Rightarrow> role_value actor_role))
          in Inr (m2\<lparr>fs_audit := fs_audit m2 @ [AuditFsm \<lparr>ar_ts_ns = ts, ar_action = ''risk.release'',
                 ar_target = ''risk_state'', ar_actor_role = actor_role, ar_actor = actor,
                 ar_before = before, ar_after = fsm_audit_state m2\<rparr>]\<rparr>, tr)))"

text \<open>What can happen to a machine: a bar, a release command, a trip of the shared latch.\<close>

datatype fsm_cmd = Bar risk_observation | AdminRelease role "string option" | LatchTrip string "int option"
  | LatchRelease role "string option" "int option"

fun fsm_step :: "dctx \<Rightarrow> int option \<Rightarrow> fsm \<Rightarrow> fsm_cmd \<Rightarrow> fsm result" where
  "fsm_step cx clock m (Bar ob) = rbind (mk_risk_observation ob) (\<lambda>ob. rbind (fsm_update cx m ob) (\<lambda>p. Inr (fst p)))"
| "fsm_step cx clock m (AdminRelease ro a) = rbind (fsm_release cx clock m ro a) (\<lambda>p. Inr (fst p))"
| "fsm_step cx clock m (LatchTrip r ts) = Inr (m\<lparr>fs_killswitch := fst (ks_trip clock (fs_killswitch m) r ts)\<rparr>)"
| "fsm_step cx clock m (LatchRelease ro a ts) = rbind (ks_release clock (fs_killswitch m) ro a ts)
     (\<lambda>(ks, au). Inr (add_ks_audit (m\<lparr>fs_killswitch := ks\<rparr>) au))"


section \<open>Single steps\<close>

lemma fsm_apply_simps:
  assumes "fsm_apply cx m ev snap v a = (m', t)"
  shows "fs_state m' = transitions (fs_state m) ev" and "fs_cfg m' = fs_cfg m"
    and "fs_tracker m' = fs_tracker m" and "fs_audit m' = fs_audit m"
    and "fs_state m' = fs_state m \<Longrightarrow> m' = m \<and> t = None"
    and "fs_state m' \<noteq> fs_state m \<Longrightarrow> fs_dwell m' = 0 \<and> (\<exists>tr. t = Some tr \<and> fs_transitions m' = fs_transitions m @ [tr]
           \<and> tr_state_from tr = fs_state m \<and> tr_state_to tr = fs_state m' \<and> tr_event tr = ev
           \<and> tr_dwell_bars tr = fs_dwell m \<and> tr_drawdown tr = es_drawdown snap)"
    and "fs_state m' = HALTED \<Longrightarrow> fs_state m \<noteq> HALTED \<Longrightarrow> ks_tripped (fs_killswitch m')"
    and "ks_ok (fs_killswitch m) \<Longrightarrow> ks_ok (fs_killswitch m')"
    and "fs_state m' \<noteq> HALTED \<Longrightarrow> fs_killswitch m' = fs_killswitch m"
  using assms by (auto simp: fsm_apply_def Let_def ks_trip_ok split: if_splits)

lemma release_transition_simps:
  assumes "release_transition cx m a = (m', t)"
  shows "fs_state m' = transitions (fs_state m) ADMIN_RELEASE" and "fs_cfg m' = fs_cfg m"
    and "fs_tracker m' = fst (tracker_rebase cx (fs_tracker m))" and "fs_killswitch m' = fs_killswitch m"
    and "fs_audit m' = fs_audit m"
    and "fs_state m' = fs_state m \<Longrightarrow> fs_dwell m' = fs_dwell m \<and> fs_transitions m' = fs_transitions m"
    and "fs_state m' \<noteq> fs_state m \<Longrightarrow> fs_dwell m' = 0 \<and> (\<exists>tr. fs_transitions m' = fs_transitions m @ [tr]
           \<and> tr_state_from tr = fs_state m \<and> tr_state_to tr = fs_state m' \<and> tr_event tr = ADMIN_RELEASE)"
  using assms
  by (cases "fs_state m"; auto simp: release_transition_def fsm_apply_def Let_def split: prod.splits option.splits)+

text \<open>A bar is either the release of an open latch under HALTED or one classified event.\<close>

lemma fsm_update_cases:
  assumes "fsm_update cx m ob = Inr (m', t)"
  obtains (released) tk snap m1 where "fs_state m = HALTED" and "\<not> ks_tripped (fs_killswitch m)"
      and "tracker_update cx (fs_tracker m) (ob_ts_ns ob) (ob_equity ob) = Inr (tk, snap)"
      and "m1 = m\<lparr>fs_tracker := tk, fs_last_ts := ob_ts_ns ob, fs_last_vol := ob_vol_ratio ob, fs_dwell := fs_dwell m + 1\<rparr>"
      and "release_transition cx m1 (Some ''kill_switch'') = (m', t)"
  | (classified) tk snap m1 ev where "\<not> (fs_state m = HALTED \<and> \<not> ks_tripped (fs_killswitch m))"
      and "tracker_update cx (fs_tracker m) (ob_ts_ns ob) (ob_equity ob) = Inr (tk, snap)"
      and "m1 = m\<lparr>fs_tracker := tk, fs_last_ts := ob_ts_ns ob, fs_last_vol := ob_vol_ratio ob, fs_dwell := fs_dwell m + 1\<rparr>"
      and "ev = classify cx (fs_cfg m) (ks_tripped (fs_killswitch m)) (fs_state m) (fs_dwell m + 1) snap (ob_vol_ratio ob)"
      and "fsm_apply cx m1 ev snap (ob_vol_ratio ob) None = (m', t)"
proof -
  from assms obtain tk snap where u: "tracker_update cx (fs_tracker m) (ob_ts_ns ob) (ob_equity ob) = Inr (tk, snap)"
    by (auto simp: fsm_update_def rbind_Inr_iff)
  define m1 where "m1 = m\<lparr>fs_tracker := tk, fs_last_ts := ob_ts_ns ob, fs_last_vol := ob_vol_ratio ob, fs_dwell := fs_dwell m + 1\<rparr>"
  have f: "fs_state m1 = fs_state m" "fs_killswitch m1 = fs_killswitch m" "fs_cfg m1 = fs_cfg m" "fs_dwell m1 = fs_dwell m + 1"
    by (simp_all add: m1_def)
  show thesis
  proof (cases "fs_state m = HALTED \<and> \<not> ks_tripped (fs_killswitch m)")
    case True
    with assms u f have "release_transition cx m1 (Some ''kill_switch'') = (m', t)"
      unfolding fsm_update_def m1_def [symmetric] by (simp add: Let_def m1_def [symmetric])
    with True u m1_def show thesis by (intro released) auto
  next
    case False
    with assms u f have "fsm_apply cx m1 (classify cx (fs_cfg m) (ks_tripped (fs_killswitch m)) (fs_state m)
        (fs_dwell m + 1) snap (ob_vol_ratio ob)) snap (ob_vol_ratio ob) None = (m', t)"
      unfolding fsm_update_def m1_def [symmetric] by (simp add: Let_def m1_def [symmetric])
    with False u m1_def show thesis by (intro classified) auto
  qed
qed

section \<open>Invariant of a run\<close>

text \<open>The recorded transitions form one path through the table from NORMAL to the current state.\<close>

fun transition_path :: "risk_state \<Rightarrow> transition list \<Rightarrow> risk_state \<Rightarrow> bool" where
  "transition_path s [] t = (s = t)"
| "transition_path s (tr # trs) t = (tr_state_from tr = s \<and> tr_state_to tr = transitions s (tr_event tr)
     \<and> tr_state_to tr \<noteq> s \<and> transition_path (tr_state_to tr) trs t)"

lemma transition_path_snoc:
  "transition_path s (trs @ [tr]) t \<longleftrightarrow> transition_path s trs (tr_state_from tr)
     \<and> tr_state_to tr = t \<and> t = transitions (tr_state_from tr) (tr_event tr) \<and> t \<noteq> tr_state_from tr"
  by (induction trs arbitrary: s) auto

definition fsm_inv :: "dctx \<Rightarrow> sm_cfg \<Rightarrow> fsm \<Rightarrow> bool" where
  "fsm_inv cx c m \<longleftrightarrow> fs_cfg m = c \<and> tracker_ok cx (fs_tracker m) \<and> ks_ok (fs_killswitch m)
     \<and> 0 \<le> fs_dwell m \<and> transition_path NORMAL (fs_transitions m) (fs_state m)"

lemma fsm_init_inv: "fsm_inv cx c (fsm_init c)"
  by (simp add: fsm_inv_def fsm_init_def)

lemma fsm_apply_inv:
  assumes "fsm_inv cx c m" and "fsm_apply cx m ev snap v a = (m', t)"
  shows "fsm_inv cx c m'"
proof (cases "fs_state m' = fs_state m")
  case True
  with fsm_apply_simps(5) [OF assms(2)] assms(1) show ?thesis by simp
next
  case False
  with fsm_apply_simps(6) [OF assms(2)] obtain tr where
    "fs_dwell m' = 0" "fs_transitions m' = fs_transitions m @ [tr]" "tr_state_from tr = fs_state m"
    "tr_state_to tr = fs_state m'" "tr_event tr = ev" by auto
  with False fsm_apply_simps(1-3,8) [OF assms(2)] assms(1) show ?thesis
    by (simp add: fsm_inv_def transition_path_snoc)
qed

lemma release_transition_inv:
  assumes "fsm_inv cx c m" and "release_transition cx m a = (m', t)"
  shows "fsm_inv cx c m'"
proof -
  have "tracker_ok cx (fs_tracker m')" "fs_cfg m' = c" "ks_ok (fs_killswitch m')"
    using assms(1) release_transition_simps(2-4) [OF assms(2)] tracker_rebase_ok by (auto simp: fsm_inv_def)
  then show ?thesis
    using assms(1) release_transition_simps(1,6,7) [OF assms(2)]
    by (cases "fs_state m' = fs_state m") (auto simp: fsm_inv_def transition_path_snoc)
qed

lemma fsm_update_inv:
  assumes "fsm_inv cx c m" and "fsm_update cx m ob = Inr (m', t)"
  shows "fsm_inv cx c m'"
  using assms(2)
proof (cases rule: fsm_update_cases)
  case (released tk snap m1)
  have "fsm_inv cx c m1" using assms(1) released(3,4) tracker_update_ok(1) by (auto simp: fsm_inv_def)
  then show ?thesis using released(5) by (rule release_transition_inv)
next
  case (classified tk snap m1 ev)
  have "fsm_inv cx c m1" using assms(1) classified(2,3) tracker_update_ok(1) by (auto simp: fsm_inv_def)
  then show ?thesis using classified(5) by (rule fsm_apply_inv)
qed

lemma add_ks_audit_simps [simp]:
  "fs_cfg (add_ks_audit m a) = fs_cfg m" "fs_state (add_ks_audit m a) = fs_state m"
  "fs_tracker (add_ks_audit m a) = fs_tracker m" "fs_killswitch (add_ks_audit m a) = fs_killswitch m"
  "fs_dwell (add_ks_audit m a) = fs_dwell m" "fs_transitions (add_ks_audit m a) = fs_transitions m"
  "fs_last_ts (add_ks_audit m a) = fs_last_ts m"
  by (simp_all add: add_ks_audit_def split: option.splits)

lemma fsm_release_cases:
  assumes "fsm_release cx clock m ro a = Inr (m', t)"
  obtains (idle) "ro = ADMIN" and "fs_state m \<noteq> HALTED" and "m' = m"
  | (open_latch) ks au where "ro = ADMIN" and "fs_state m \<noteq> HALTED" and "ks_tripped (fs_killswitch m)"
      and "\<not> ks_tripped ks" and "ks_ok (fs_killswitch m) \<Longrightarrow> ks_ok ks" and "m' = add_ks_audit (m\<lparr>fs_killswitch := ks\<rparr>) au"
  | (halted) ks au m2 ac v where "ro = ADMIN" and "fs_state m = HALTED" and "\<not> ks_tripped ks"
      and "ks_ok (fs_killswitch m) \<Longrightarrow> ks_ok ks"
      and "release_transition cx (add_ks_audit (m\<lparr>fs_killswitch := ks\<rparr>) au) ac = (m2, t)"
      and "m' = m2\<lparr>fs_audit := fs_audit m2 @ [v]\<rparr>"
proof -
  have admin: "ro = ADMIN" using assms by (auto simp: fsm_release_def Let_def split: if_splits)
  define ts where "ts = (case clock of Some t \<Rightarrow> t | None \<Rightarrow> fs_last_ts m)"
  consider "fs_state m \<noteq> HALTED" "\<not> ks_tripped (fs_killswitch m)"
    | "fs_state m \<noteq> HALTED" "ks_tripped (fs_killswitch m)" | "fs_state m = HALTED" by blast
  then show thesis
  proof cases
    case 1
    with assms admin have "m' = m" by (simp add: fsm_release_def Let_def)
    with 1 admin show thesis by (intro idle)
  next
    case 2
    with assms admin obtain ks au where r: "ks_release clock (fs_killswitch m) ro a (Some ts) = Inr (ks, au)"
      "m' = add_ks_audit (m\<lparr>fs_killswitch := ks\<rparr>) au"
      by (auto simp: fsm_release_def Let_def ts_def rbind_Inr_iff)
    with 2 admin ks_release_Inr(2,3) [OF r(1)] show thesis by (intro open_latch)
  next
    case 3
    from assms admin 3 obtain ks au where r: "ks_release clock (fs_killswitch m) ro a (Some ts) = Inr (ks, au)"
      by (auto simp: fsm_release_def Let_def ts_def rbind_Inr_iff)
    define ac where "ac = Some (case a of Some a' \<Rightarrow> (if a' = '''' then role_value ro else a') | None \<Rightarrow> role_value ro)"
    obtain m2 tr where m2: "release_transition cx (add_ks_audit (m\<lparr>fs_killswitch := ks\<rparr>) au) ac = (m2, tr)"
      by (cases "release_transition cx (add_ks_audit (m\<lparr>fs_killswitch := ks\<rparr>) au) ac")
    from assms admin 3 r m2 have "tr = t" "\<exists>v. m' = m2\<lparr>fs_audit := fs_audit m2 @ [v]\<rparr>"
      by (auto simp: fsm_release_def Let_def ts_def [symmetric] ac_def)
    with 3 admin ks_release_Inr(2,3) [OF r(1)] m2 show thesis by (auto intro: halted)
  qed
qed

lemma fsm_release_inv:
  assumes "fsm_inv cx c m" and "fsm_release cx clock m ro a = Inr (m', t)"
  shows "fsm_inv cx c m'"
  using assms(2)
proof (cases rule: fsm_release_cases)
  case idle
  with assms(1) show ?thesis by simp
next
  case (open_latch ks au)
  with assms(1) show ?thesis by (simp add: fsm_inv_def)
next
  case (halted ks au m2 ac v)
  have "fsm_inv cx c (add_ks_audit (m\<lparr>fs_killswitch := ks\<rparr>) au)" using assms(1) halted(4) by (simp add: fsm_inv_def)
  with halted(5) have "fsm_inv cx c m2" by (rule release_transition_inv [rotated])
  with halted(6) show ?thesis by (simp add: fsm_inv_def)
qed

lemma fsm_inv_killswitch: "fsm_inv cx c m \<Longrightarrow> ks_ok ks \<Longrightarrow> fsm_inv cx c (m\<lparr>fs_killswitch := ks\<rparr>)"
  by (simp add: fsm_inv_def)

lemma fsm_inv_audit: "fsm_inv cx c (add_ks_audit m a) = fsm_inv cx c m"
  by (simp add: fsm_inv_def)

lemma fsm_step_inv: "fsm_inv cx c m \<Longrightarrow> fsm_step cx clock m cmd = Inr m' \<Longrightarrow> fsm_inv cx c m'"
proof (cases cmd)
  case (Bar ob)
  assume "fsm_inv cx c m" "fsm_step cx clock m cmd = Inr m'"
  with Bar show ?thesis by (auto simp: rbind_Inr_iff intro: fsm_update_inv)
next
  case (AdminRelease ro a)
  assume "fsm_inv cx c m" "fsm_step cx clock m cmd = Inr m'"
  with AdminRelease show ?thesis by (auto simp: rbind_Inr_iff intro: fsm_release_inv)
next
  case (LatchTrip r ts)
  assume "fsm_inv cx c m" "fsm_step cx clock m cmd = Inr m'"
  moreover from this(1) have "ks_ok (fs_killswitch m)" by (simp add: fsm_inv_def)
  ultimately show ?thesis using LatchTrip by (auto intro!: fsm_inv_killswitch ks_trip_ok)
next
  case (LatchRelease ro a ts)
  assume m: "fsm_inv cx c m" and st: "fsm_step cx clock m cmd = Inr m'"
  from st LatchRelease obtain ks au where "ks_release clock (fs_killswitch m) ro a ts = Inr (ks, au)"
    and m': "m' = add_ks_audit (m\<lparr>fs_killswitch := ks\<rparr>) au" by (auto simp: rbind_Inr_iff)
  then have "ks_ok ks" using m by (auto simp: fsm_inv_def dest: ks_release_Inr(3))
  with m show ?thesis unfolding m' fsm_inv_audit by (rule fsm_inv_killswitch)
qed

interpretation fsm: step_invariant "fsm_step cx clock" "fsm_inv cx c" for cx clock c
  by unfold_locales (rule fsm_step_inv)


section \<open>Properties of the automaton\<close>

fun is_release :: "fsm_cmd \<Rightarrow> bool" where
  "is_release (AdminRelease ro a) = (ro = ADMIN)"
| "is_release (LatchRelease ro a ts) = (ro = ADMIN)"
| "is_release c = False"

text \<open>A tripped latch classifies every bar as a breach, and nothing leaves HALTED but a release.\<close>

lemma classify_tripped [simp]: "classify cx c True st dw snap v = HALT_BREACH"
  by (simp add: classify_def Let_def)

lemma fsm_step_halted:
  assumes "fs_state m = HALTED" and "ks_tripped (fs_killswitch m)" and "\<not> is_release cmd"
    and "fsm_step cx clock m cmd = Inr m'"
  shows "fs_state m' = HALTED \<and> ks_tripped (fs_killswitch m') \<and> fs_transitions m' = fs_transitions m"
proof (cases cmd)
  case (Bar ob)
  with assms(4) obtain t where u: "fsm_update cx m ob = Inr (m', t)" by (auto simp: rbind_Inr_iff mk_risk_observation_def split: option.splits if_splits)
  show ?thesis using u
  proof (cases rule: fsm_update_cases)
    case released
    with assms(2) show ?thesis by simp
  next
    case (classified tk snap m1 ev)
    have "ev = HALT_BREACH" using classified(4) assms(2) by simp
    with fsm_apply_simps(1,5) [OF classified(5)] classified(3) assms(1,2) show ?thesis by simp
  qed
next
  case (AdminRelease ro a)
  with assms(3,4) show ?thesis by (auto simp: rbind_Inr_iff fsm_release_def Let_def)
next
  case (LatchTrip r ts)
  with assms show ?thesis by auto
next
  case (LatchRelease ro a ts)
  with assms(3,4) show ?thesis by (auto simp: rbind_Inr_iff ks_release_def)
qed

lemma fsm_run_halted:
  "run_steps (fsm_step cx clock) m cmds = Inr m' \<Longrightarrow> fs_state m = HALTED \<Longrightarrow> ks_tripped (fs_killswitch m) \<Longrightarrow>
     \<forall>cmd \<in> set cmds. \<not> is_release cmd \<Longrightarrow>
     fs_state m' = HALTED \<and> ks_tripped (fs_killswitch m') \<and> fs_transitions m' = fs_transitions m"
proof (induction cmds arbitrary: m)
  case (Cons cmd cmds)
  from Cons.prems(1) obtain m1 where s: "fsm_step cx clock m cmd = Inr m1"
    and r: "run_steps (fsm_step cx clock) m1 cmds = Inr m'" by (auto elim: rbind_InrE)
  from fsm_step_halted [OF Cons.prems(2,3) _ s] Cons.prems(4)
  have "fs_state m1 = HALTED" "ks_tripped (fs_killswitch m1)" "fs_transitions m1 = fs_transitions m" by auto
  with Cons.IH [OF r] Cons.prems(4) show ?case by simp
qed simp

text \<open>The snapshot a bar leaves in the tracker is the one it classified.\<close>

lemma fsm_update_snap:
  assumes "fsm_update cx m ob = Inr (m', t)" and "\<not> (fs_state m = HALTED \<and> \<not> ks_tripped (fs_killswitch m))"
  obtains snap m1 where "et_snap (fs_tracker m') = Some snap" and "fs_state m1 = fs_state m" and "fs_dwell m1 = fs_dwell m + 1"
    and "fs_killswitch m1 = fs_killswitch m"
    and "fsm_apply cx m1 (classify cx (fs_cfg m) (ks_tripped (fs_killswitch m)) (fs_state m) (fs_dwell m + 1) snap (ob_vol_ratio ob))
           snap (ob_vol_ratio ob) None = (m', t)"
  using assms(1)
proof (cases rule: fsm_update_cases)
  case released
  with assms(2) show ?thesis by simp
next
  case (classified tk snap m1 ev)
  have "et_snap tk = Some snap" using classified(2) by (auto simp: tracker_update_def Let_def split: if_splits option.splits)
  moreover have "fs_tracker m' = tk" using fsm_apply_simps(3) [OF classified(5)] classified(3) by simp
  ultimately show ?thesis using classified by (intro that [of snap m1]) simp_all
qed

lemma classify_recovery_cases:
  "severity (transitions st (classify cx c tripped st dw snap v)) < severity st \<Longrightarrow>
     (st = COOLDOWN \<and> es_drawdown snap \<le> sm_cool_exit c \<and> sm_cool_dwell c \<le> dw)
     \<or> (st = WARNING \<and> es_drawdown snap \<le> sm_warn_exit c \<and> sm_warn_dwell c \<le> dw)"
  by (cases st) (auto simp: classify_def Let_def split: if_splits)

lemma rebased_update_flat:
  assumes tk: "et_last_equity tk = Some e" "et_last_ts tk = Some t0" and e: "0 < e"
    and u: "tracker_update cx (fst (tracker_rebase cx tk)) ts e = Inr (tk', s)"
  shows "es_drawdown s = 0" and "day_return cx s = 0"
proof -
  obtain sn where r: "fst (tracker_rebase cx tk) = tk\<lparr>et_peak := Some e, et_day_open := e, et_snap := sn\<rparr>"
    by (auto simp: tracker_rebase_def tk Let_def)
  from u tk e show "es_drawdown s = 0" "day_return cx s = 0"
    unfolding r
    by (auto simp: tracker_update_def make_snapshot_def day_return_def Let_def ddiv_self dsub_def ddiv_def
        dr.rnd_1 split: if_splits option.splits)
qed

text \<open>C10: Every machine reached from the start by bars, releases and latch commands keeps its invariant:
  the journal of transitions is a path of the table from NORMAL to the current state, the tracker and the
  latch are consistent, and the dwell counter is not negative.\<close>
theorem fsm_reachable_invariant:
  assumes "run_steps (fsm_step cx clock) (fsm_init c) cmds = Inr m"
  shows "transition_path NORMAL (fs_transitions m) (fs_state m) \<and> tracker_ok cx (fs_tracker m)
    \<and> ks_ok (fs_killswitch m) \<and> 0 \<le> fs_dwell m \<and> fs_cfg m = c"
  using fsm.run_inv [OF fsm_init_inv assms] by (simp add: fsm_inv_def)

lemma default_sm_cfg_sel [evals]:
  "sm_warn_enter default_sm_cfg = 4/100" "sm_warn_exit default_sm_cfg = 25/1000" "sm_warn_dwell default_sm_cfg = 15"
  "sm_cool_enter default_sm_cfg = 8/100" "sm_cool_exit default_sm_cfg = 5/100" "sm_cool_dwell default_sm_cfg = 30"
  "sm_cool_daily_loss default_sm_cfg = 2/100" "sm_halt_enter default_sm_cfg = 12/100"
  "sm_halt_daily_loss default_sm_cfg = 3/100"
  "sm_kappa_mode default_sm_cfg = [(NORMAL, 1), (WARNING, 5/10), (COOLDOWN, 25/100), (HALTED, 0)]"
  "sm_cooldown_policy default_sm_cfg = SCALED_ENTRIES"
  by (simp_all add: default_sm_cfg_def)

lemmas fsm_eval [evals] = fsm_init_def mk_risk_observation_def fsm_update_def classify_def fsm_apply_def
  release_transition_def fsm_release_def fsm_audit_state_def add_ks_audit_def kappa_of_def role_value_def

text \<open>Two bars into a loss of the day: COOLDOWN after the second, HALTED after the third.\<close>

definition ex_bars :: "fsm_cmd list" where
  "ex_bars = [Bar \<lparr>ob_ts_ns = 60, ob_equity = 100, ob_vol_ratio = None\<rparr>,
     Bar \<lparr>ob_ts_ns = 120, ob_equity = 98, ob_vol_ratio = None\<rparr>,
     Bar \<lparr>ob_ts_ns = 180, ob_equity = 80, ob_vol_ratio = None\<rparr>]"

definition ex_halted :: fsm where
  "ex_halted = \<lparr>fs_cfg = default_sm_cfg,
     fs_killswitch = \<lparr>ks_tripped = True, ks_reason = Some ''risk_state:HALT_BREACH'', ks_tripped_at_ns = Some 180,
       ks_trip_count = 1\<rparr>,
     fs_tracker = \<lparr>et_peak = Some 100, et_day = Some 0, et_day_open = 100, et_last_equity = Some 80,
       et_last_ts = Some 180, et_snap = Some \<lparr>es_ts_ns = 180, es_equity = 80, es_peak = 100, es_drawdown = 1/5,
         es_day_start_ns = 0, es_equity_day_open = 100, es_pnl_day = - 20\<rparr>\<rparr>,
     fs_state = HALTED, fs_dwell = 0, fs_last_ts = 180, fs_last_vol = None,
     fs_transitions =
       [\<lparr>tr_ts_ns = 120, tr_state_from = NORMAL, tr_state_to = COOLDOWN, tr_event = COOL_BREACH, tr_dwell_bars = 2,
          tr_drawdown = 1/50, tr_day_return = - (1/50), tr_vol_ratio = None, tr_actor = None\<rparr>,
        \<lparr>tr_ts_ns = 180, tr_state_from = COOLDOWN, tr_state_to = HALTED, tr_event = HALT_BREACH, tr_dwell_bars = 1,
          tr_drawdown = 1/5, tr_day_return = - (1/5), tr_vol_ratio = None, tr_actor = None\<rparr>],
     fs_audit = []\<rparr>"

lemma ex_halted_run: "run_steps (fsm_step Default_ctx None) (fsm_init default_sm_cfg) ex_bars = Inr ex_halted"
  by (simp add: ex_bars_def ex_halted_def evals)

lemma ex_halted_state [simp]: "fs_state ex_halted = HALTED" "ks_tripped (fs_killswitch ex_halted)"
  "fs_cfg ex_halted = default_sm_cfg" "et_last_equity (fs_tracker ex_halted) = Some 80"
  "et_last_ts (fs_tracker ex_halted) = Some 180"
  by (simp_all add: ex_halted_def)

theorem fsm_reachable_invariant_witness:
  "transition_path NORMAL (fs_transitions ex_halted) HALTED \<and> length (fs_transitions ex_halted) = 2"
  using fsm_reachable_invariant [OF ex_halted_run] by (simp add: ex_halted_def)

text \<open>C5: Once HALTED with the latch tripped, no sequence of bars, trips and release attempts by
  other roles leaves HALTED or opens the latch; only an administrator's release can.\<close>
theorem halted_until_admin_release:
  assumes "run_steps (fsm_step cx clock) m cmds = Inr m'" and "fs_state m = HALTED"
    and "ks_tripped (fs_killswitch m)" and "\<forall>cmd \<in> set cmds. \<not> is_release cmd"
  shows "fs_state m' = HALTED \<and> ks_tripped (fs_killswitch m') \<and> fs_transitions m' = fs_transitions m
     \<and> flatten_all m' \<and> \<not> entries_allowed m'"
  using fsm_run_halted [OF assms] by (simp add: flatten_all_def entries_allowed_def)

theorem halted_until_admin_release_witness:
  "\<exists>m'. run_steps (fsm_step Default_ctx None) ex_halted [Bar \<lparr>ob_ts_ns = 240, ob_equity = 100, ob_vol_ratio = None\<rparr>,
      LatchTrip ''manual'' (Some 300), Bar \<lparr>ob_ts_ns = 360, ob_equity = 100, ob_vol_ratio = None\<rparr>] = Inr m'
     \<and> fs_state m' = HALTED \<and> \<not> entries_allowed m'"
proof -
  let ?cmds = "[Bar \<lparr>ob_ts_ns = 240, ob_equity = 100, ob_vol_ratio = None\<rparr>, LatchTrip ''manual'' (Some 300),
    Bar \<lparr>ob_ts_ns = 360, ob_equity = 100, ob_vol_ratio = None\<rparr>]"
  obtain m' where r: "run_steps (fsm_step Default_ctx None) ex_halted ?cmds = Inr m'"
    by (simp add: ex_halted_def evals)
  show ?thesis using halted_until_admin_release [OF r] r by auto
qed



text \<open>A bar lowers the severity by one level at most, and only after the state's dwell has passed with the
  drawdown at or below its exit threshold; the dwell counter then restarts.\<close>
theorem recovery_needs_dwell:
  assumes "fsm_update cx m ob = Inr (m', t)" and "\<not> (fs_state m = HALTED \<and> \<not> ks_tripped (fs_killswitch m))"
    and "et_snap (fs_tracker m') = Some snap" and "severity (fs_state m') < severity (fs_state m)"
  shows "severity (fs_state m') = severity (fs_state m) - 1 \<and> fs_dwell m' = 0
    \<and> ((fs_state m = COOLDOWN \<and> es_drawdown snap \<le> sm_cool_exit (fs_cfg m) \<and> sm_cool_dwell (fs_cfg m) \<le> fs_dwell m + 1)
       \<or> (fs_state m = WARNING \<and> es_drawdown snap \<le> sm_warn_exit (fs_cfg m) \<and> sm_warn_dwell (fs_cfg m) \<le> fs_dwell m + 1))"
proof (intro conjI)
  from fsm_update_snap [OF assms(1,2)] assms(3) obtain m1 where m1: "fs_state m1 = fs_state m"
    and ap: "fsm_apply cx m1 (classify cx (fs_cfg m) (ks_tripped (fs_killswitch m))
       (fs_state m) (fs_dwell m + 1) snap (ob_vol_ratio ob)) snap (ob_vol_ratio ob) None = (m', t)"
    by (metis option.inject)
  note st = fsm_apply_simps(1) [OF ap]
  show "severity (fs_state m') = severity (fs_state m) - 1"
    using severity_drop_le_1 [of "fs_state m"] assms(4) by (simp add: st m1 order_antisym)
  have "fs_state m' \<noteq> fs_state m" using assms(4) by auto
  then show "fs_dwell m' = 0" using fsm_apply_simps(6) [OF ap] m1 by auto
  show "(fs_state m = COOLDOWN \<and> es_drawdown snap \<le> sm_cool_exit (fs_cfg m) \<and> sm_cool_dwell (fs_cfg m) \<le> fs_dwell m + 1)
       \<or> (fs_state m = WARNING \<and> es_drawdown snap \<le> sm_warn_exit (fs_cfg m) \<and> sm_warn_dwell (fs_cfg m) \<le> fs_dwell m + 1)"
    using assms(4) unfolding st m1 by (rule classify_recovery_cases)
qed

text \<open>A machine that has spent fourteen bars in WARNING.\<close>

definition ex_warning :: fsm where
  "ex_warning = (fsm_init default_sm_cfg)\<lparr>fs_state := WARNING, fs_dwell := 14,
     fs_tracker := \<lparr>et_peak = Some 100, et_day = Some 0, et_day_open = 96, et_last_equity = Some 96,
       et_last_ts = Some 120, et_snap = None\<rparr>\<rparr>"

theorem recovery_needs_dwell_witness:
  "\<exists>m' t. fsm_update Default_ctx ex_warning \<lparr>ob_ts_ns = 180, ob_equity = 99, ob_vol_ratio = None\<rparr> = Inr (m', t)
     \<and> fs_state ex_warning = WARNING \<and> fs_state m' = NORMAL \<and> fs_dwell m' = 0"
proof -
  obtain m' t snap where u: "fsm_update Default_ctx ex_warning \<lparr>ob_ts_ns = 180, ob_equity = 99, ob_vol_ratio = None\<rparr> = Inr (m', t)"
    and sn: "et_snap (fs_tracker m') = Some snap" and st: "fs_state m' = NORMAL"
    by (simp add: ex_warning_def evals)
  have w: "fs_state ex_warning = WARNING" by (simp add: ex_warning_def)
  show ?thesis using recovery_needs_dwell [OF u _ sn] u st w by auto
qed

text \<open>After an administrator's release from HALTED the machine is in COOLDOWN with an open latch and a
  rebased tracker, and the next bar with an unchanged positive equity does not halt it again.\<close>
theorem release_does_not_rehalt:
  assumes cfg: "sm_cfg_ok (fs_cfg m)" "repr cx (sm_halt_daily_loss (fs_cfg m))" "fs_state m = HALTED"
    and eq: "et_last_equity (fs_tracker m) = Some e" "et_last_ts (fs_tracker m) = Some t0" "0 < e"
    and rel: "fsm_release cx clock m ADMIN a = Inr (m1, t1)"
    and bar: "fsm_update cx m1 \<lparr>ob_ts_ns = ts, ob_equity = e, ob_vol_ratio = v\<rparr> = Inr (m2, t2)"
  shows "fs_state m1 = COOLDOWN \<and> \<not> ks_tripped (fs_killswitch m1) \<and> fs_state m2 \<noteq> HALTED"
proof (intro conjI)
  from rel cfg(3) obtain ks au m' ac w where ks: "\<not> ks_tripped ks"
    and rt: "release_transition cx (add_ks_audit (m\<lparr>fs_killswitch := ks\<rparr>) au) ac = (m', t1)"
    and m1: "m1 = m'\<lparr>fs_audit := fs_audit m' @ [w]\<rparr>"
    by (cases rule: fsm_release_cases) auto
  note rts = release_transition_simps(1-4) [OF rt]
  show st1: "fs_state m1 = COOLDOWN" using rts(1) cfg(3) by (simp add: m1)
  show op1: "\<not> ks_tripped (fs_killswitch m1)" using rts(4) ks by (simp add: m1)
  have c1: "fs_cfg m1 = fs_cfg m" "fs_tracker m1 = fst (tracker_rebase cx (fs_tracker m))" using rts(2,3) by (simp_all add: m1)
  show "fs_state m2 \<noteq> HALTED" using bar
  proof (cases rule: fsm_update_cases)
    case released
    with st1 show ?thesis by simp
  next
    case (classified tk snap m3 ev)
    have "es_drawdown snap = 0" "day_return cx snap = 0"
      using rebased_update_flat [OF eq] classified(2) by (simp_all add: c1(2))
    moreover have "0 < sm_halt_enter (fs_cfg m)" "0 < sm_cool_enter (fs_cfg m)" "dneg cx (sm_halt_daily_loss (fs_cfg m)) < 0"
      using sm_cfg_okD(1) [OF cfg(1)] cfg(2) by (simp_all add: sm_fields_ok_def dneg_repr)
    ultimately have "ev \<noteq> HALT_BREACH"
      using classified(4) op1 by (auto simp: classify_def Let_def c1(1) split: if_splits)
    then have "transitions COOLDOWN ev \<noteq> HALTED" by (cases ev) simp_all
    with fsm_apply_simps(1) [OF classified(5)] classified(3) st1 show ?thesis by simp
  qed
qed

theorem release_does_not_rehalt_witness:
  "\<exists>m1 t1 m2 t2. fsm_release Default_ctx None ex_halted ADMIN None = Inr (m1, t1)
     \<and> fsm_update Default_ctx m1 \<lparr>ob_ts_ns = 240, ob_equity = 80, ob_vol_ratio = None\<rparr> = Inr (m2, t2)
     \<and> fs_state m1 = COOLDOWN \<and> fs_state m2 \<noteq> HALTED"
proof -
  obtain m1 t1 m2 t2 where r: "fsm_release Default_ctx None ex_halted ADMIN None = Inr (m1, t1)"
    and u: "fsm_update Default_ctx m1 \<lparr>ob_ts_ns = 240, ob_equity = 80, ob_vol_ratio = None\<rparr> = Inr (m2, t2)"
    by (simp add: ex_halted_def evals)
  have c: "sm_cfg_ok (fs_cfg ex_halted)" "repr Default_ctx (sm_halt_daily_loss (fs_cfg ex_halted))"
    using default_sm_cfg_ok by (simp_all add: evals)
  show ?thesis using release_does_not_rehalt [OF c _ _ _ _ r u] r u by auto
qed

end
