(* ===== verification/RiskRules.thy ===== *)
theory RiskRules
  imports RiskContext Margin RiskState
begin

text \<open>
  The rules of \<^verbatim>\<open>risk/rules/\<close> and the mode gate of \<^verbatim>\<open>risk/guard.py\<close>. Every rule maps a context to a
  verdict, what it observed, the limit it compared with, a payload for the journal and the halt
  signal. The contract of a rule (its verdict is well formed, and it never gates an order that does
  not enlarge the position) is the locale \<open>risk_rule_contract\<close>, interpreted on every rule.
\<close>

section \<open>Verdict of a rule\<close>

datatype pval = PDec dec | PInt int | PStr string | PBool bool | PNone

record rule_verdict =
  rv_rule :: string
  rv_verdict :: verdict
  rv_observed :: "dec option"
  rv_limit :: "dec option"
  rv_payload :: "(string, pval) dict"
  rv_halt :: bool

text \<open>\<^verbatim>\<open>RuleVerdict(name, verdict, observed, limit, payload)\<close>, whose \<^verbatim>\<open>halt\<close> is false unless it is passed.\<close>

definition rule_verdict_of :: "string \<Rightarrow> verdict \<Rightarrow> dec option \<Rightarrow> dec option \<Rightarrow> (string, pval) dict \<Rightarrow> rule_verdict" where
  "rule_verdict_of n v ob li p = \<lparr>rv_rule = n, rv_verdict = v, rv_observed = ob, rv_limit = li, rv_payload = p, rv_halt = False\<rparr>"

definition veto_if :: "bool \<Rightarrow> verdict" where
  "veto_if b = (if b then VETO else ALLOW)"

lemma veto_if_ok [simp]: "verdict_ok (veto_if b)"
  by (simp add: veto_if_def)

section \<open>The six limits\<close>

definition stale_data_check :: "dctx \<Rightarrow> dec \<Rightarrow> dec \<Rightarrow> risk_context \<Rightarrow> rule_verdict result" where
  "stale_data_check cx max_lag_s min_dq c =
     (let lag_s = dec_ns_to_s cx (lag_ns c);
          lag_bad = max_lag_s < lag_s;
          dq_bad = rc_dq_score c < min_dq;
          payload = [(''lag_s'', PDec lag_s), (''max_lag_s'', PDec max_lag_s), (''dq_score'', PDec (rc_dq_score c)),
            (''min_dq'', PDec min_dq), (''lag_breached'', PBool lag_bad), (''dq_breached'', PBool dq_bad),
            (''increase_qty'', PDec (rc_increase_qty c))];
          (observed, limit) = (if dq_bad \<and> \<not> lag_bad then (rc_dq_score c, min_dq) else (lag_s, max_lag_s))
      in Inr (rule_verdict_of ''stale_data'' (veto_if ((lag_bad \<or> dq_bad) \<and> 0 < rc_increase_qty c))
           (Some observed) (Some limit) payload))"

definition max_position_notional_check :: "dctx \<Rightarrow> dec \<Rightarrow> risk_context \<Rightarrow> rule_verdict result" where
  "max_position_notional_check cx limit c =
     (let margin_post = ddiv cx (post_notional cx c) (rc_leverage_setting c);
          observed = ratio cx margin_post (rc_equity c);
          payload = [(''interpretation'', PStr ''initial_margin_over_equity''), (''margin_post'', PDec margin_post),
            (''leverage_setting'', PDec (rc_leverage_setting c)), (''increase_qty'', PDec (rc_increase_qty c))]
      in if rc_equity c \<le> 0 then
           Inr (rule_verdict_of ''max_position_notional'' (veto_if (0 < rc_increase_qty c)) observed (Some limit)
             (payload @ [(''reason'', PStr ''non_positive_equity'')]))
         else let q_max = ddiv cx (dmul cx (dmul cx limit (rc_equity c)) (rc_leverage_setting c)) (rc_price c)
           in rbind (cap_increase cx c q_max) (\<lambda>v.
                Inr (rule_verdict_of ''max_position_notional'' v observed (Some limit) (payload @ [(''q_max_post'', PDec q_max)]))))"

definition max_gross_leverage_check :: "dctx \<Rightarrow> dec \<Rightarrow> risk_context \<Rightarrow> rule_verdict result" where
  "max_gross_leverage_check cx limit c =
     (let gross_post = dadd cx (rc_gross_notional_other c) (post_notional cx c);
          observed = ratio cx gross_post (rc_equity c);
          payload = [(''gross_notional_post'', PDec gross_post), (''gross_notional_other'', PDec (rc_gross_notional_other c)),
            (''increase_qty'', PDec (rc_increase_qty c))]
      in if rc_equity c \<le> 0 then
           Inr (rule_verdict_of ''max_gross_leverage'' (veto_if (0 < rc_increase_qty c)) observed (Some limit)
             (payload @ [(''reason'', PStr ''non_positive_equity'')]))
         else let q_max = ddiv cx (dsub cx (dmul cx limit (rc_equity c)) (rc_gross_notional_other c)) (rc_price c)
           in rbind (cap_increase cx c q_max) (\<lambda>v.
                Inr (rule_verdict_of ''max_gross_leverage'' v observed (Some limit) (payload @ [(''q_max_post'', PDec q_max)]))))"

definition max_daily_loss_check :: "dctx \<Rightarrow> dec \<Rightarrow> risk_context \<Rightarrow> rule_verdict result" where
  "max_daily_loss_check cx limit c =
     (let day = utc_day_start_ns (rc_ts_ns c);
          stale_day = (case rc_day_start_ns c of None \<Rightarrow> False | Some d \<Rightarrow> d \<noteq> day);
          pnl_day = (if stale_day then 0 else rc_pnl_day c);
          e_open = (if stale_day then rc_equity c else effective_day_open c);
          observed = ratio cx pnl_day e_open;
          breached = (case observed of None \<Rightarrow> True | Some x \<Rightarrow> x \<le> limit);
          payload = [(''pnl_day'', PDec pnl_day), (''equity_day_open'', PDec e_open), (''day_start_ns'', PInt day),
            (''reset_applied'', PBool stale_day), (''breached'', PBool breached), (''increase_qty'', PDec (rc_increase_qty c))]
      in Inr (rule_verdict_of ''max_daily_loss'' (veto_if (breached \<and> 0 < rc_increase_qty c)) observed (Some limit) payload))"

definition max_drawdown_halt_check :: "dec \<Rightarrow> risk_context \<Rightarrow> rule_verdict result" where
  "max_drawdown_halt_check limit c =
     (let breached = limit \<le> rc_drawdown c;
          payload = [(''breached'', PBool breached), (''increase_qty'', PDec (rc_increase_qty c))]
      in Inr ((rule_verdict_of ''max_drawdown_halt'' (veto_if (breached \<and> 0 < rc_increase_qty c))
           (Some (rc_drawdown c)) (Some limit) payload)\<lparr>rv_halt := breached\<rparr>))"

text \<open>\<^verbatim>\<open>Side.LONG if ctx.target_side > 0 else Side.SHORT\<close>.\<close>

definition context_side :: "risk_context \<Rightarrow> side" where
  "context_side c = (if 0 < target_side c then LONG else SHORT)"

definition liquidation_wallet :: "dctx \<Rightarrow> risk_context \<Rightarrow> dec" where
  "liquidation_wallet cx c = dsub cx (rc_equity c) (dmul cx (rc_gross_notional_other c) (rc_mmr c))"

text \<open>The repair: the position both leverage caps allow, with the payload of the violation.\<close>

definition liquidation_repair :: "dctx \<Rightarrow> dec \<Rightarrow> dec \<Rightarrow> risk_context \<Rightarrow> side \<Rightarrow> dec \<Rightarrow> dec
    \<Rightarrow> (string, pval) dict \<Rightarrow> rule_verdict result" where
  "liquidation_repair cx limit b c s wallet dtl payload =
     (let price = rc_price c in
      rbind (reduced_max_leverage cx (rc_stop_distance c) price (rc_mmr c) b) (\<lambda>l_red.
        let q_red = ddiv cx (dmul cx l_red wallet) price in
        rbind (max_qty_for_dtl cx s wallet price (rc_atr c) limit (rc_mmr c) (rc_maint_amount c)) (\<lambda>q_dtl.
          let q_cap = min q_red q_dtl;
              payload' = payload @ [(''reduced_max_leverage'', PDec l_red),
                (''dtl_max_leverage'', PDec (ddiv cx (dmul cx q_dtl price) wallet)), (''q_cap_post'', PDec q_cap),
                (''leverage_cap'', PDec (ddiv cx (dmul cx q_cap price) wallet)),
                (''cap_binding'', PStr (if q_red \<le> q_dtl then ''reduced_max_leverage'' else ''dtl_limit''))]
          in rbind (cap_increase cx c q_cap) (\<lambda>v.
               Inr (rule_verdict_of ''liquidation_buffer'' v (Some dtl) (Some limit) payload')))))"

definition liquidation_buffer_check :: "dctx \<Rightarrow> dec \<Rightarrow> dec \<Rightarrow> risk_context \<Rightarrow> rule_verdict result" where
  "liquidation_buffer_check cx limit b c =
     (let inc = rc_increase_qty c;
          payload = [(''increase_qty'', PDec inc), (''b'', PDec b)]
      in if rc_post_qty c = 0 then
           Inr (rule_verdict_of ''liquidation_buffer'' ALLOW None (Some limit)
             (payload @ [(''reason'', PStr ''no_position_after_order'')]))
         else let s = context_side c; wallet = liquidation_wallet cx c in
           if wallet \<le> 0 \<or> rc_atr c \<le> 0 then
             Inr (rule_verdict_of ''liquidation_buffer'' (veto_if (0 < inc)) None (Some limit)
               (payload @ [(''reason'', PStr (if wallet \<le> 0 then ''non_positive_wallet'' else ''atr_unavailable''))]))
           else rbind (side_liq_price cx s (rc_post_qty c) (rc_price c) wallet (rc_mmr c) (rc_maint_amount c)) (\<lambda>p_liq.
             let lev_post = ddiv cx (post_notional cx c) wallet;
                 payload1 = payload @ [(''liq_price'', PDec p_liq), (''wallet'', PDec wallet), (''leverage_post'', PDec lev_post)]
             in if s = LONG \<and> p_liq \<le> 0 then
                  Inr (rule_verdict_of ''liquidation_buffer'' ALLOW None (Some limit)
                    (payload1 @ [(''reason'', PStr ''liquidation_unreachable'')]))
                else rbind (signed_dtl_atr cx s (rc_price c) p_liq (rc_atr c)) (\<lambda>dtl.
                  if limit \<le> dtl then Inr (rule_verdict_of ''liquidation_buffer'' ALLOW (Some dtl) (Some limit) payload1)
                  else liquidation_repair cx limit b c s wallet dtl payload1)))"

section \<open>The mode gate\<close>

fun risk_state_value :: "risk_state \<Rightarrow> string" where
  "risk_state_value NORMAL = ''NORMAL''"
| "risk_state_value WARNING = ''WARNING''"
| "risk_state_value COOLDOWN = ''COOLDOWN''"
| "risk_state_value HALTED = ''HALTED''"

definition cooldown_policy_value :: "cooldown_policy \<Rightarrow> string" where
  "cooldown_policy_value p = (case p of SCALED_ENTRIES \<Rightarrow> ''scaled_entries'' | REDUCE_ONLY \<Rightarrow> ''reduce_only'')"

definition ks_is_tripped :: "killswitch option \<Rightarrow> bool" where
  "ks_is_tripped ks = (case ks of None \<Rightarrow> False | Some k \<Rightarrow> ks_tripped k)"

definition gate_level :: "killswitch option \<Rightarrow> risk_context \<Rightarrow> int" where
  "gate_level ks c = severity (if ks_is_tripped ks then HALTED else rc_risk_state c)"

definition gate_limit :: "cooldown_policy \<Rightarrow> risk_context \<Rightarrow> int" where
  "gate_limit p c = (if p = SCALED_ENTRIES \<and> 0 < rc_increase_qty c \<and> rc_base_qty c = 0
     then severity COOLDOWN else severity WARNING)"

definition risk_mode_check :: "killswitch option \<Rightarrow> cooldown_policy \<Rightarrow> risk_context \<Rightarrow> rule_verdict result" where
  "risk_mode_check ks p c =
     (let tripped = ks_is_tripped ks;
          state = (if tripped then HALTED else rc_risk_state c);
          level = severity state;
          new_entry = (0 < rc_increase_qty c \<and> rc_base_qty c = 0);
          limit = gate_limit p c;
          payload = [(''state'', PStr (risk_state_value (rc_risk_state c))), (''kill_switch'', PBool tripped),
            (''cooldown_policy'', PStr (cooldown_policy_value p)), (''new_entry'', PBool new_entry),
            (''reduce_only'', PBool (severity WARNING < level)),
            (''entries_allowed'', PBool (level \<le> (if p = SCALED_ENTRIES then severity COOLDOWN else severity WARNING))),
            (''flatten_all'', PBool (state = HALTED)), (''increase_qty'', PDec (rc_increase_qty c))]
      in Inr (rule_verdict_of ''risk_mode'' (veto_if (0 < rc_increase_qty c \<and> limit < level))
           (Some (of_int level)) (Some (of_int limit)) payload))"

section \<open>A rule of the chain\<close>

datatype risk_rule =
    StaleDataGuard dec dec
  | MaxPositionNotional dec
  | MaxGrossLeverage dec
  | MaxDailyLoss dec
  | MaxDrawdownHalt dec
  | LiquidationBufferGuard dec dec
  | RiskModeGate cooldown_policy

text \<open>The constructors, with the checks of \<^verbatim>\<open>__init__\<close>. \<open>MaxDailyLoss\<close> stores the negated fraction.\<close>

definition mk_stale_data :: "dec \<Rightarrow> dec \<Rightarrow> risk_rule result" where
  "mk_stale_data max_lag_s min_dq =
     (if max_lag_s \<le> 0 \<or> \<not> (0 \<le> min_dq \<and> min_dq \<le> 1) then Inl ValueError else Inr (StaleDataGuard max_lag_s min_dq))"

definition mk_max_position_notional :: "dec \<Rightarrow> risk_rule result" where
  "mk_max_position_notional f = (if \<not> (0 < f \<and> f \<le> 1) then Inl ValueError else Inr (MaxPositionNotional f))"

definition mk_max_gross_leverage :: "dec \<Rightarrow> risk_rule result" where
  "mk_max_gross_leverage l = (if l \<le> 0 then Inl ValueError else Inr (MaxGrossLeverage l))"

definition mk_max_daily_loss :: "dctx \<Rightarrow> dec \<Rightarrow> risk_rule result" where
  "mk_max_daily_loss cx f = (if \<not> (0 < f \<and> f < 1) then Inl ValueError else Inr (MaxDailyLoss (dneg cx f)))"

definition mk_max_drawdown_halt :: "dec \<Rightarrow> risk_rule result" where
  "mk_max_drawdown_halt d = (if \<not> (0 < d \<and> d < 1) then Inl ValueError else Inr (MaxDrawdownHalt d))"

definition mk_liquidation_buffer :: "dec \<Rightarrow> dec \<Rightarrow> risk_rule result" where
  "mk_liquidation_buffer min_dtl b =
     (if min_dtl \<le> 0 \<or> \<not> (0 \<le> b \<and> b < 1) then Inl ValueError else Inr (LiquidationBufferGuard min_dtl b))"

fun rule_name :: "risk_rule \<Rightarrow> string" where
  "rule_name (StaleDataGuard _ _) = ''stale_data''"
| "rule_name (MaxPositionNotional _) = ''max_position_notional''"
| "rule_name (MaxGrossLeverage _) = ''max_gross_leverage''"
| "rule_name (MaxDailyLoss _) = ''max_daily_loss''"
| "rule_name (MaxDrawdownHalt _) = ''max_drawdown_halt''"
| "rule_name (LiquidationBufferGuard _ _) = ''liquidation_buffer''"
| "rule_name (RiskModeGate _) = ''risk_mode''"

fun rule_check :: "dctx \<Rightarrow> killswitch option \<Rightarrow> risk_context \<Rightarrow> risk_rule \<Rightarrow> rule_verdict result" where
  "rule_check cx ks c (StaleDataGuard lag dq) = stale_data_check cx lag dq c"
| "rule_check cx ks c (MaxPositionNotional f) = max_position_notional_check cx f c"
| "rule_check cx ks c (MaxGrossLeverage l) = max_gross_leverage_check cx l c"
| "rule_check cx ks c (MaxDailyLoss f) = max_daily_loss_check cx f c"
| "rule_check cx ks c (MaxDrawdownHalt d) = max_drawdown_halt_check d c"
| "rule_check cx ks c (LiquidationBufferGuard d b) = liquidation_buffer_check cx d b c"
| "rule_check cx ks c (RiskModeGate p) = risk_mode_check ks p c"

lemmas rule_checks = stale_data_check_def max_position_notional_check_def max_gross_leverage_check_def
  max_daily_loss_check_def max_drawdown_halt_check_def liquidation_buffer_check_def liquidation_repair_def
  risk_mode_check_def rule_verdict_of_def

section \<open>The contract of a rule\<close>

locale risk_rule_contract =
  fixes cx :: dctx and check :: "risk_context \<Rightarrow> rule_verdict result"
  assumes verdict_wf: "ctx_ok cx c \<Longrightarrow> check c = Inr rv \<Longrightarrow> verdict_ok (rv_verdict rv)"
    and gates_increase_only: "ctx_ok cx c \<Longrightarrow> check c = Inr rv \<Longrightarrow> rc_increase_qty c \<le> 0 \<Longrightarrow> rv_verdict rv = ALLOW"
begin

lemma allowed_le: "ctx_ok cx c \<Longrightarrow> check c = Inr rv \<Longrightarrow> exposure_of (rv_verdict rv) (rc_increase_qty c) \<le> rc_increase_qty c"
  by (simp add: verdict_wf exposure_of_le ctx_ok_qty(2))

lemma allowed_nonneg: "ctx_ok cx c \<Longrightarrow> check c = Inr rv \<Longrightarrow> 0 \<le> exposure_of (rv_verdict rv) (rc_increase_qty c)"
  by (simp add: verdict_wf exposure_of_nonneg ctx_ok_qty(2))

end

lemma cap_rule_contract:
  assumes "rbind (cap_increase cx c q) (\<lambda>v. Inr (rule_verdict_of n v ob l p)) = Inr rv"
  shows "verdict_ok (rv_verdict rv)" and "rc_increase_qty c \<le> 0 \<Longrightarrow> rv_verdict rv = ALLOW"
  using assms by (auto simp: rbind_Inr_iff rule_verdict_of_def cap_increase_no_increase cap_increase_ok)

interpretation stale_rule: risk_rule_contract cx "stale_data_check cx lag dq" for cx lag dq
  by unfold_locales (auto simp: stale_data_check_def rule_verdict_of_def veto_if_def Let_def split: if_splits)

interpretation notional_rule: risk_rule_contract cx "max_position_notional_check cx f" for cx f
  by unfold_locales (auto simp: max_position_notional_check_def Let_def rule_verdict_of_def veto_if_def rbind_Inr_iff
      cap_increase_no_increase cap_increase_ok split: if_splits)

interpretation gross_rule: risk_rule_contract cx "max_gross_leverage_check cx l" for cx l
  by unfold_locales (auto simp: max_gross_leverage_check_def Let_def rule_verdict_of_def veto_if_def rbind_Inr_iff
      cap_increase_no_increase cap_increase_ok split: if_splits)

interpretation daily_rule: risk_rule_contract cx "max_daily_loss_check cx f" for cx f
  by unfold_locales (auto simp: max_daily_loss_check_def rule_verdict_of_def veto_if_def Let_def)

interpretation drawdown_rule: risk_rule_contract cx "max_drawdown_halt_check d" for cx d
  by unfold_locales (auto simp: max_drawdown_halt_check_def rule_verdict_of_def veto_if_def Let_def)

interpretation liquidation_rule: risk_rule_contract cx "liquidation_buffer_check cx d b" for cx d b
  by unfold_locales (auto simp: liquidation_buffer_check_def liquidation_repair_def Let_def rule_verdict_of_def veto_if_def
      rbind_Inr_iff cap_increase_no_increase cap_increase_ok split: if_splits)

interpretation mode_rule: risk_rule_contract cx "risk_mode_check ks p" for cx ks p
  by unfold_locales (auto simp: risk_mode_check_def rule_verdict_of_def veto_if_def Let_def)

text \<open>The chain's view: any rule keeps the contract.\<close>

lemma rule_check_contract: "risk_rule_contract cx (\<lambda>c. rule_check cx ks c r)"
  by (cases r) (simp_all add: stale_rule.risk_rule_contract_axioms notional_rule.risk_rule_contract_axioms
      gross_rule.risk_rule_contract_axioms daily_rule.risk_rule_contract_axioms drawdown_rule.risk_rule_contract_axioms
      liquidation_rule.risk_rule_contract_axioms mode_rule.risk_rule_contract_axioms)

interpretation any_rule: risk_rule_contract cx "\<lambda>c. rule_check cx ks c r" for cx ks r
  by (rule rule_check_contract)

end
