(* ===== verification/RiskGuard.thy ===== *)
theory RiskGuard
  imports RiskRules
begin

text \<open>
  \<^verbatim>\<open>risk/guard.py\<close>, \<^verbatim>\<open>risk/journal.py\<close> and the limits section of \<^verbatim>\<open>risk/config.py\<close>: the chain of rules.
  \<open>evaluate\<close> checks the rules in order, journals every verdict, composes them, turns the composition
  into an allowed target position and trips the latch on a halt signal.
\<close>

section \<open>Limits\<close>

record limits_cfg =
  lc_max_position_notional :: dec
  lc_max_gross_leverage :: dec
  lc_max_daily_loss :: dec
  lc_max_drawdown_halt :: dec
  lc_min_dtl_atr :: dec
  lc_b :: dec
  lc_max_lag_s :: dec
  lc_min_dq :: dec

definition mk_limits_cfg :: "limits_cfg \<Rightarrow> limits_cfg result" where
  "mk_limits_cfg l =
     (if \<not> (0 < lc_max_position_notional l \<and> lc_max_position_notional l \<le> 1) then Inl ValueError
      else if \<not> 0 < lc_max_gross_leverage l then Inl ValueError
      else if \<not> (0 < lc_max_daily_loss l \<and> lc_max_daily_loss l < 1) then Inl ValueError
      else if \<not> (0 < lc_max_drawdown_halt l \<and> lc_max_drawdown_halt l < 1) then Inl ValueError
      else if \<not> 0 < lc_min_dtl_atr l \<or> \<not> (0 \<le> lc_b l \<and> lc_b l < 1) then Inl ValueError
      else if \<not> 0 < lc_max_lag_s l \<or> \<not> (0 \<le> lc_min_dq l \<and> lc_min_dq l \<le> 1) then Inl ValueError
      else Inr l)"

definition default_rules :: "dctx \<Rightarrow> limits_cfg \<Rightarrow> risk_rule list result" where
  "default_rules cx l =
     rbind (mk_stale_data (lc_max_lag_s l) (lc_min_dq l)) (\<lambda>r1.
     rbind (mk_max_position_notional (lc_max_position_notional l)) (\<lambda>r2.
     rbind (mk_max_gross_leverage (lc_max_gross_leverage l)) (\<lambda>r3.
     rbind (mk_max_daily_loss cx (lc_max_daily_loss l)) (\<lambda>r4.
     rbind (mk_max_drawdown_halt (lc_max_drawdown_halt l)) (\<lambda>r5.
     rbind (mk_liquidation_buffer (lc_min_dtl_atr l) (lc_b l)) (\<lambda>r6.
       Inr [r1, r2, r3, r4, r5, r6]))))))"

lemma default_rules_total:
  "mk_limits_cfg l = Inr l \<Longrightarrow> default_rules cx l = Inr [StaleDataGuard (lc_max_lag_s l) (lc_min_dq l),
     MaxPositionNotional (lc_max_position_notional l), MaxGrossLeverage (lc_max_gross_leverage l),
     MaxDailyLoss (dneg cx (lc_max_daily_loss l)), MaxDrawdownHalt (lc_max_drawdown_halt l),
     LiquidationBufferGuard (lc_min_dtl_atr l) (lc_b l)]"
  by (auto simp: mk_limits_cfg_def default_rules_def mk_stale_data_def mk_max_position_notional_def
      mk_max_gross_leverage_def mk_max_daily_loss_def mk_max_drawdown_halt_def mk_liquidation_buffer_def
      split: if_splits)

section \<open>The journal of risk events\<close>

text \<open>
  A sink and an event journal are outside the journal: \<open>Some rs\<close> in \<open>rj_sink\<close> (\<open>rj_events\<close>) means
  that one is attached and that the records \<open>rs\<close> have been handed to it, in this order.
\<close>

record risk_event_record =
  re_ts_ns :: int
  re_rule :: string
  re_verdict :: "verdict_kind option"
  re_factor :: "dec option"
  re_observed :: "dec option"
  re_limit_value :: "dec option"
  re_instrument :: "string option"
  re_state_from :: "risk_state option"
  re_state_to :: "risk_state option"
  re_dwell_bars :: "int option"
  re_actor :: "string option"
  re_payload :: "(string, pval) dict"
  re_run_id :: "nat option"

record risk_journal =
  rj_run_id :: "nat option"
  rj_sink :: "risk_event_record list option"
  rj_events :: "risk_event_record list option"
  rj_keep :: bool
  rj_count :: nat
  rj_records :: "risk_event_record list"

definition rj_append :: "risk_journal \<Rightarrow> risk_event_record \<Rightarrow> risk_journal" where
  "rj_append j r = j\<lparr>rj_count := rj_count j + 1,
     rj_records := (if rj_keep j then rj_records j @ [r] else rj_records j),
     rj_sink := map_option (\<lambda>rs. rs @ [r]) (rj_sink j),
     rj_events := map_option (\<lambda>rs. rs @ [r]) (rj_events j)\<rparr>"

definition has_consumers :: "risk_journal \<Rightarrow> bool" where
  "has_consumers j \<longleftrightarrow> rj_keep j \<or> rj_sink j \<noteq> None \<or> rj_events j \<noteq> None"

definition rule_record :: "risk_journal \<Rightarrow> int \<Rightarrow> string option \<Rightarrow> rule_verdict \<Rightarrow> risk_event_record" where
  "rule_record j ts inst rv = \<lparr>re_ts_ns = ts, re_rule = rv_rule rv, re_verdict = Some (v_kind (rv_verdict rv)),
     re_factor = Some (factor_dec (rv_verdict rv)), re_observed = rv_observed rv, re_limit_value = rv_limit rv,
     re_instrument = inst, re_state_from = None, re_state_to = None, re_dwell_bars = None, re_actor = None,
     re_payload = dset (rv_payload rv) ''halt'' (PBool (rv_halt rv)), re_run_id = rj_run_id j\<rparr>"

definition record_rule :: "risk_journal \<Rightarrow> int \<Rightarrow> string option \<Rightarrow> rule_verdict \<Rightarrow> risk_journal" where
  "record_rule j ts inst rv =
     (if \<not> has_consumers j then j\<lparr>rj_count := rj_count j + 1\<rparr> else rj_append j (rule_record j ts inst rv))"

text \<open>\<^verbatim>\<open>Transition.payload\<close>; a float of the payload becomes the decimal of its text.\<close>

definition transition_payload :: "transition \<Rightarrow> (string, pval) dict" where
  "transition_payload tr =
     [(''event'', PStr (risk_event_value (tr_event tr))), (''drawdown'', PDec (tr_drawdown tr)),
      (''day_return'', PDec (tr_day_return tr)),
      (''vol_ratio'', (case tr_vol_ratio tr of None \<Rightarrow> PNone | Some v \<Rightarrow> PDec (float_repr (f_val v))))]"

definition record_transition :: "risk_journal \<Rightarrow> transition \<Rightarrow> string option \<Rightarrow> risk_journal" where
  "record_transition j tr inst = rj_append j \<lparr>re_ts_ns = tr_ts_ns tr, re_rule = ''risk_state'', re_verdict = None,
     re_factor = None, re_observed = Some (tr_drawdown tr), re_limit_value = None, re_instrument = inst,
     re_state_from = Some (tr_state_from tr), re_state_to = Some (tr_state_to tr),
     re_dwell_bars = Some (tr_dwell_bars tr), re_actor = tr_actor tr, re_payload = transition_payload tr,
     re_run_id = rj_run_id j\<rparr>"

definition by_rule :: "risk_journal \<Rightarrow> string \<Rightarrow> risk_event_record list" where
  "by_rule j n = filter (\<lambda>r. re_rule r = n) (rj_records j)"

definition vetoes :: "risk_journal \<Rightarrow> risk_event_record list" where
  "vetoes j = filter (\<lambda>r. re_verdict r = Some VK_VETO) (rj_records j)"

section \<open>The guard\<close>

record guard_result =
  gr_verdict :: verdict
  gr_records :: "rule_verdict list"
  gr_approved_qty :: dec
  gr_requested_qty :: dec
  gr_current_qty :: dec
  gr_increase_requested :: dec
  gr_increase_approved :: dec
  gr_flatten_all :: bool
  gr_halt :: bool

definition gr_order_qty :: "dctx \<Rightarrow> guard_result \<Rightarrow> dec" where
  "gr_order_qty cx r = dsub cx (gr_approved_qty r) (gr_current_qty r)"

record risk_guard =
  rg_rules :: "risk_rule list"
  rg_journal :: risk_journal
  rg_killswitch :: "killswitch option"
  rg_cooldown_policy :: cooldown_policy

definition mk_risk_guard :: "risk_rule list \<Rightarrow> risk_journal \<Rightarrow> killswitch option \<Rightarrow> bool \<Rightarrow> cooldown_policy
    \<Rightarrow> risk_guard result" where
  "mk_risk_guard rules j ks mode_gate policy =
     (if \<not> distinct (map rule_name rules) then Inl ValueError
      else Inr \<lparr>rg_rules = (if mode_gate then rules @ [RiskModeGate policy] else rules), rg_journal = j,
             rg_killswitch = ks, rg_cooldown_policy = policy\<rparr>)"

text \<open>The loop of \<^verbatim>\<open>evaluate\<close>: what it has journalled stays journalled when a rule raises.\<close>

fun run_rules :: "dctx \<Rightarrow> killswitch option \<Rightarrow> risk_context \<Rightarrow> risk_rule list \<Rightarrow> risk_journal \<Rightarrow> rule_verdict list
    \<Rightarrow> risk_journal \<times> rule_verdict list result" where
  "run_rules cx ks c [] j records = (j, Inr records)"
| "run_rules cx ks c (r # rs) j records =
     (case rule_check cx ks c r of
        Inl e \<Rightarrow> (j, Inl e)
      | Inr rv \<Rightarrow> run_rules cx ks c rs (record_rule j (rc_ts_ns c) (Some (rc_instrument c)) rv) (records @ [rv]))"

definition approved_increase :: "dctx \<Rightarrow> risk_context \<Rightarrow> verdict \<Rightarrow> dec result" where
  "approved_increase cx c v =
     rbind (exposure v (rc_increase_qty c)) (\<lambda>q.
       case rc_step_size c of None \<Rightarrow> Inr q | Some s \<Rightarrow> floor_qty cx q s)"

definition guard_finish :: "dctx \<Rightarrow> risk_guard \<Rightarrow> risk_context \<Rightarrow> rule_verdict list \<Rightarrow> verdict \<Rightarrow> dec
    \<Rightarrow> risk_guard \<times> guard_result" where
  "guard_finish cx g c records v approved_inc =
     (let halt = (\<exists>r \<in> set records. rv_halt r);
          ks' = (if halt then map_option (\<lambda>k. fst (ks_trip None k ''max_drawdown_halt'' (Some (rc_ts_ns c)))) (rg_killswitch g)
                 else rg_killswitch g);
          tripped = (ks_is_tripped (rg_killswitch g) \<or> (halt \<and> rg_killswitch g \<noteq> None));
          flatten = (halt \<or> tripped \<or> rc_risk_state c = HALTED);
          inc' = (if flatten then 0 else approved_inc);
          approved = (if flatten then 0 else dmul cx (dadd cx (rc_base_qty c) approved_inc) (of_int (target_side c)))
      in (g\<lparr>rg_killswitch := ks'\<rparr>,
          \<lparr>gr_verdict = v, gr_records = records, gr_approved_qty = approved, gr_requested_qty = rc_target_qty c,
           gr_current_qty = rc_current_qty c, gr_increase_requested = rc_increase_qty c,
           gr_increase_approved = inc', gr_flatten_all = flatten, gr_halt = halt\<rparr>))"

definition evaluate :: "dctx \<Rightarrow> risk_guard \<Rightarrow> risk_context \<Rightarrow> risk_guard \<times> guard_result result" where
  "evaluate cx g c =
     (case run_rules cx (rg_killswitch g) c (rg_rules g) (rg_journal g) [] of
        (j, Inl e) \<Rightarrow> (g\<lparr>rg_journal := j\<rparr>, Inl e)
      | (j, Inr records) \<Rightarrow>
          (let g1 = g\<lparr>rg_journal := j\<rparr>; v = compose (map rv_verdict records) in
           case approved_increase cx c v of
             Inl e \<Rightarrow> (g1, Inl e)
           | Inr q \<Rightarrow> (let (g2, r) = guard_finish cx g1 c records v q in (g2, Inr r))))"

lemmas guard_eval [evals] = evaluate_def guard_finish_def approved_increase_def rule_checks veto_if_def record_rule_def
  rj_append_def has_consumers_def rule_record_def ks_is_tripped_def gate_limit_def context_side_def
  liquidation_wallet_def cooldown_policy_value_def

section \<open>What an evaluation consists of\<close>

lemma rule_check_name: "rule_check cx ks c r = Inr rv \<Longrightarrow> rv_rule rv = rule_name r"
  by (cases r) (auto simp: rule_checks Let_def rbind_Inr_iff split: if_splits)

lemma run_rules_Inr:
  "run_rules cx ks c rs j acc = (j', Inr out) \<Longrightarrow>
     \<exists>rvs. out = acc @ rvs \<and> list_all2 (\<lambda>r rv. rule_check cx ks c r = Inr rv) rs rvs
       \<and> j' = foldl (\<lambda>j. record_rule j (rc_ts_ns c) (Some (rc_instrument c))) j rvs"
proof (induction rs arbitrary: j acc)
  case (Cons r rs)
  then obtain rv where rv: "rule_check cx ks c r = Inr rv"
    and run: "run_rules cx ks c rs (record_rule j (rc_ts_ns c) (Some (rc_instrument c)) rv) (acc @ [rv]) = (j', Inr out)"
    by (auto split: sum.splits)
  from Cons.IH [OF run] obtain rvs where "out = (acc @ [rv]) @ rvs" "list_all2 (\<lambda>r rv. rule_check cx ks c r = Inr rv) rs rvs"
    "j' = foldl (\<lambda>j. record_rule j (rc_ts_ns c) (Some (rc_instrument c))) (record_rule j (rc_ts_ns c) (Some (rc_instrument c)) rv) rvs"
    by blast
  with rv show ?case by (intro exI [of _ "rv # rvs"]) simp
qed simp

lemma run_rules_total:
  "\<forall>r \<in> set rs. \<exists>rv. rule_check cx ks c r = Inr rv \<Longrightarrow> \<exists>j' out. run_rules cx ks c rs j acc = (j', Inr out)"
proof (induction rs arbitrary: j acc)
  case (Cons r rs)
  then obtain rv where "rule_check cx ks c r = Inr rv" by auto
  with Cons show ?case by simp
qed simp

lemma evaluate_cases:
  assumes "evaluate cx g c = (g', Inr r)"
  obtains j rvs q where "list_all2 (\<lambda>ru rv. rule_check cx (rg_killswitch g) c ru = Inr rv) (rg_rules g) rvs"
    and "j = foldl (\<lambda>j. record_rule j (rc_ts_ns c) (Some (rc_instrument c))) (rg_journal g) rvs"
    and "approved_increase cx c (compose (map rv_verdict rvs)) = Inr q"
    and "guard_finish cx (g\<lparr>rg_journal := j\<rparr>) c rvs (compose (map rv_verdict rvs)) q = (g', r)"
proof -
  from assms obtain j rvs q where run: "run_rules cx (rg_killswitch g) c (rg_rules g) (rg_journal g) [] = (j, Inr rvs)"
    and q: "approved_increase cx c (compose (map rv_verdict rvs)) = Inr q"
    and fin: "guard_finish cx (g\<lparr>rg_journal := j\<rparr>) c rvs (compose (map rv_verdict rvs)) q = (g', r)"
    by (auto simp: evaluate_def Let_def split: prod.splits sum.splits)
  from run_rules_Inr [OF run] that [OF _ _ q fin] show ?thesis by simp
qed

lemma chain_ok:
  assumes "ctx_ok cx c" and "list_all2 (\<lambda>r rv. rule_check cx ks c r = Inr rv) rs rvs"
  shows "list_all verdict_ok (map rv_verdict rvs)"
  using assms(2) by (induction rule: list_all2_induct) (simp_all add: any_rule.verdict_wf [OF assms(1)])

lemma guard_finish_simps:
  assumes "guard_finish cx g c rvs v q = (g', r)"
  shows "gr_verdict r = v" and "gr_records r = rvs" and "gr_requested_qty r = rc_target_qty c"
    and "gr_current_qty r = rc_current_qty c" and "gr_increase_requested r = rc_increase_qty c"
    and "gr_halt r \<longleftrightarrow> (\<exists>x \<in> set rvs. rv_halt x)"
    and "gr_flatten_all r \<longleftrightarrow> gr_halt r \<or> ks_is_tripped (rg_killswitch g) \<or> rc_risk_state c = HALTED"
    and "gr_flatten_all r \<Longrightarrow> gr_approved_qty r = 0 \<and> gr_increase_approved r = 0"
    and "\<not> gr_flatten_all r \<Longrightarrow> gr_increase_approved r = q
           \<and> gr_approved_qty r = dmul cx (dadd cx (rc_base_qty c) q) (of_int (target_side c))"
    and "rg_rules g' = rg_rules g" and "rg_journal g' = rg_journal g"
    and "rg_killswitch g' = (if gr_halt r
           then map_option (\<lambda>k. fst (ks_trip None k ''max_drawdown_halt'' (Some (rc_ts_ns c)))) (rg_killswitch g)
           else rg_killswitch g)"
  using assms by (auto simp: guard_finish_def Let_def)

section \<open>Bounds on what is allowed\<close>

text \<open>
  The rounding to the step divides in the context: \<open>floor_exact\<close> says that this division is exact
  (a power-of-ten step and a size that fits), \<open>fits_step\<close> that a bound lies on the grid of the step.
\<close>

definition fits_step :: "dctx \<Rightarrow> risk_context \<Rightarrow> dec \<Rightarrow> bool" where
  "fits_step cx c y = (case rc_step_size c of None \<Rightarrow> True | Some s \<Rightarrow> on_grid cx s y)"

definition floor_exact :: "dctx \<Rightarrow> risk_context \<Rightarrow> dec \<Rightarrow> bool" where
  "floor_exact cx c x = (case rc_step_size c of None \<Rightarrow> True | Some s \<Rightarrow> repr cx (x / qval s))"

lemma approved_increase_props:
  assumes q: "approved_increase cx c v = Inr q" and v: "verdict_ok v" and inc: "0 \<le> rc_increase_qty c"
  shows "0 \<le> q"
    and "exposure_of v (rc_increase_qty c) \<le> y \<Longrightarrow> fits_step cx c y \<Longrightarrow> q \<le> y"
    and "floor_exact cx c (exposure_of v (rc_increase_qty c)) \<Longrightarrow> q \<le> exposure_of v (rc_increase_qty c)"
proof -
  let ?x = "exposure_of v (rc_increase_qty c)"
  have x: "0 \<le> ?x" using v inc by (rule exposure_of_nonneg)
  from q v inc have q': "(case rc_step_size c of None \<Rightarrow> Inr ?x | Some s \<Rightarrow> floor_qty cx ?x s) = Inr q"
    by (simp add: approved_increase_def exposure_Inr)
  show "0 \<le> q" using q' x floor_qty_nonneg by (auto split: option.splits)
  show "?x \<le> y \<Longrightarrow> fits_step cx c y \<Longrightarrow> q \<le> y"
    using q' x floor_qty_upper by (auto simp: fits_step_def split: option.splits)
  show "floor_exact cx c ?x \<Longrightarrow> q \<le> ?x"
    using q' x floor_qty_le by (auto simp: floor_exact_def split: option.splits)
qed

lemma ctx_ok_base_inc:
  assumes "ctx_ok cx c" and "repr cx (dabs cx (rc_target_qty c) - dabs cx (rc_current_qty c))"
  shows "rc_base_qty c + rc_increase_qty c = rc_post_qty c"
proof -
  have "dsub cx (dabs cx (rc_target_qty c)) (dabs cx (rc_current_qty c))
      = dabs cx (rc_target_qty c) - dabs cx (rc_current_qty c)"
    using assms(2) by (simp add: dsub_def repr_def)
  moreover have "rc_target_qty c = 0 \<Longrightarrow> dabs cx (rc_target_qty c) = 0" by (simp add: dabs_def)
  ultimately show ?thesis using assms(1)
    by (auto simp: ctx_ok_def order_parts_def Let_def min_def max_def split: if_splits)
qed

lemma target_side_mult_abs: "of_int (target_side c) * \<bar>rc_target_qty c\<bar> = rc_target_qty c"
  by (simp add: target_side_def sign_of_times_abs)

lemma dmul_side: "repr cx x \<Longrightarrow> dmul cx x (of_int (target_side c)) = x * of_int (target_side c)"
  by (auto simp: target_side_def sign_of_def dmul_def repr_def dr.rnd_minus)

text \<open>The contribution of one rule of the chain bounds what the chain allows.\<close>

lemma chain_le_rule:
  assumes ok: "ctx_ok cx c" and all: "list_all2 (\<lambda>r rv. rule_check cx ks c r = Inr rv) rs rvs"
    and r: "r \<in> set rs" "rule_check cx ks c r = Inr rv"
  shows "exposure_of (compose (map rv_verdict rvs)) (rc_increase_qty c) \<le> exposure_of (rv_verdict rv) (rc_increase_qty c)"
proof -
  from all r have "rv \<in> set rvs" by (auto simp: list_all2_conv_all_nth in_set_conv_nth)
  then show ?thesis using chain_ok [OF ok all] ctx_ok_qty(2) [OF ok]
    by (intro va.act_chain_le_member) auto
qed

section \<open>Properties of the guard\<close>

subsection \<open>A chain to run\<close>

definition ex_limits :: limits_cfg where
  "ex_limits = \<lparr>lc_max_position_notional = 3/10, lc_max_gross_leverage = 3, lc_max_daily_loss = 2/100,
     lc_max_drawdown_halt = 12/100, lc_min_dtl_atr = 6, lc_b = 2/10, lc_max_lag_s = 5, lc_min_dq = 9/10\<rparr>"

definition ex_journal :: risk_journal where
  "ex_journal = \<lparr>rj_run_id = None, rj_sink = None, rj_events = None, rj_keep = True, rj_count = 0, rj_records = []\<rparr>"

definition ex_rules :: "risk_rule list" where
  "ex_rules = [StaleDataGuard 5 (9/10), MaxPositionNotional (3/10), MaxGrossLeverage 3, MaxDailyLoss (- 2/100),
     MaxDrawdownHalt (12/100), LiquidationBufferGuard 6 (2/10), RiskModeGate SCALED_ENTRIES]"

definition ex_guard :: risk_guard where
  "ex_guard = \<lparr>rg_rules = ex_rules, rg_journal = ex_journal, rg_killswitch = Some killswitch_init,
     rg_cooldown_policy = SCALED_ENTRIES\<rparr>"

text \<open>An entry of 40 units at price 100 with an equity of 1000: the gross leverage of 4 is over the limit.\<close>

definition ex_ctx :: risk_context where
  "ex_ctx = \<lparr>rc_ts_ns = 1000, rc_instrument = ''BTC'', rc_price = 100, rc_equity = 1000, rc_current_qty = 0,
     rc_target_qty = 40, rc_atr = 1, rc_stop_distance = 2, rc_drawdown = 1/100, rc_pnl_day = 0,
     rc_equity_day_open = None, rc_day_start_ns = None, rc_gross_notional_other = 0, rc_mmr = 4/100,
     rc_maint_amount = 0, rc_leverage_setting = 20, rc_last_data_ns = None, rc_dq_score = 1,
     rc_risk_state = NORMAL, rc_step_size = Some \<lparr>q_coef = 1, q_exp = - 3\<rparr>,
     rc_base_qty = 0, rc_increase_qty = 40, rc_post_qty = 40\<rparr>"

lemma ex_ctx_ok: "ctx_ok Default_ctx ex_ctx"
  by (simp add: ex_ctx_def evals)

text \<open>One run of the chain, shared by the witnesses below.\<close>

lemma ex_guard_run:
  obtains g' r where "evaluate Default_ctx ex_guard ex_ctx = (g', Inr r)" and "gr_approved_qty r = 30"
    and "gr_increase_approved r = 30" and "\<not> gr_flatten_all r" and "length (gr_records r) = 7"
    and "exposure_of (gr_verdict r) 40 = 30"
  by (simp add: ex_guard_def ex_ctx_def ex_rules_def ex_journal_def exposure_of_def evals)

subsection \<open>Safety of the allowed target\<close>

text \<open>C4: The chain never enlarges risk: the allowed increase lies between 0 and the requested one, and the
  allowed target is never larger than the requested target and never on its other side, whatever the rules
  are. (The requested increase is on the grid of the step, and the difference of the two positions fits the
  context.)\<close>
theorem guard_never_enlarges:
  assumes ev: "evaluate cx g c = (g', Inr r)" and ok: "ctx_ok cx c"
    and fit: "fits_step cx c (rc_increase_qty c)" "repr cx (dabs cx (rc_target_qty c) - dabs cx (rc_current_qty c))"
  shows "0 \<le> gr_increase_approved r \<and> gr_increase_approved r \<le> gr_increase_requested r
     \<and> \<bar>gr_approved_qty r\<bar> \<le> dabs cx (rc_target_qty c) \<and> 0 \<le> gr_approved_qty r * rc_target_qty c"
proof -
  from ev obtain j rvs q where chain: "list_all2 (\<lambda>ru rv. rule_check cx (rg_killswitch g) c ru = Inr rv) (rg_rules g) rvs"
    and q: "approved_increase cx c (compose (map rv_verdict rvs)) = Inr q"
    and fin: "guard_finish cx (g\<lparr>rg_journal := j\<rparr>) c rvs (compose (map rv_verdict rvs)) q = (g', r)"
    by (rule evaluate_cases)
  have vok: "verdict_ok (compose (map rv_verdict rvs))" by (rule compose_ok [OF chain_ok [OF ok chain]])
  note inc = ctx_ok_qty [OF ok]
  have q0: "0 \<le> q" using approved_increase_props(1) [OF q vok inc(2)] .
  have qi: "q \<le> rc_increase_qty c"
    using approved_increase_props(2) [OF q vok inc(2) exposure_of_le [OF vok inc(2)] fit(1)] .
  have sum: "rc_base_qty c + rc_increase_qty c = rc_post_qty c" using ok fit(2) by (rule ctx_ok_base_inc)
  have post: "ctx_round cx (rc_post_qty c) = rc_post_qty c" unfolding inc(6) by (simp flip: repr_def)
  have le: "dadd cx (rc_base_qty c) q \<le> rc_post_qty c"
    unfolding dadd_def using qi sum by (intro dr.rnd_le [OF post]) simp
  have ge: "0 \<le> dadd cx (rc_base_qty c) q" unfolding dadd_def using q0 inc(1) by (intro dr.rnd_nonneg) simp
  have sgn: "\<bar>of_int (target_side c) :: rat\<bar> \<le> 1" "0 \<le> of_int (target_side c) * rc_target_qty c"
    by (auto simp: target_side_def sign_of_def)
  note fs = guard_finish_simps [OF fin]
  show ?thesis
  proof (cases "gr_flatten_all r")
    case True
    with fs(5,8) inc show ?thesis by simp
  next
    case False
    then have ap: "gr_increase_approved r = q" "gr_approved_qty r = dadd cx (rc_base_qty c) q * of_int (target_side c)"
      using fs(9) by (simp_all add: dmul_side)
    have "\<bar>gr_approved_qty r\<bar> \<le> dadd cx (rc_base_qty c) q * 1"
      unfolding ap(2) abs_mult using ge sgn(1) by (intro mult_mono) auto
    moreover have "0 \<le> gr_approved_qty r * rc_target_qty c"
      unfolding ap(2) mult.assoc using ge sgn(2) by (rule mult_nonneg_nonneg)
    ultimately show ?thesis using le q0 qi ap(1) fs(5) inc(6) by simp
  qed
qed

theorem guard_never_enlarges_witness:
  "\<exists>g' r. evaluate Default_ctx ex_guard ex_ctx = (g', Inr r) \<and> gr_approved_qty r = 30 \<and> rc_target_qty ex_ctx = 40
     \<and> gr_increase_approved r \<le> gr_increase_requested r"
proof -
  obtain g' r where ev: "evaluate Default_ctx ex_guard ex_ctx = (g', Inr r)" and a: "gr_approved_qty r = 30"
    by (rule ex_guard_run)
  have "on_grid Default_ctx \<lparr>q_coef = 1, q_exp = - 3\<rparr> (of_int 40000 * qval \<lparr>q_coef = 1, q_exp = - 3\<rparr>)"
    by (rule on_gridI) (simp_all add: evals)
  then have f: "fits_step Default_ctx ex_ctx (rc_increase_qty ex_ctx)"
    by (simp add: fits_step_def ex_ctx_def evals)
  have d: "repr Default_ctx (dabs Default_ctx (rc_target_qty ex_ctx) - dabs Default_ctx (rc_current_qty ex_ctx))"
    by (simp add: ex_ctx_def evals)
  from guard_never_enlarges [OF ev ex_ctx_ok f d] ev a show ?thesis by (auto simp: ex_ctx_def)
qed

text \<open>C11: Closing and reducing always pass: an order that does not enlarge the position is allowed in full,
  whatever the verdicts, unless the book is being flattened.\<close>
theorem reductions_pass:
  assumes ev: "evaluate cx g c = (g', Inr r)" and ok: "ctx_ok cx c" and red: "rc_increase_qty c = 0"
    and fit: "repr cx (rc_target_qty c)" "repr cx (dabs cx (rc_target_qty c) - dabs cx (rc_current_qty c))"
    and nf: "\<not> gr_flatten_all r"
  shows "gr_approved_qty r = rc_target_qty c \<and> gr_verdict r = ALLOW"
proof -
  from ev obtain j rvs q where chain: "list_all2 (\<lambda>ru rv. rule_check cx (rg_killswitch g) c ru = Inr rv) (rg_rules g) rvs"
    and q: "approved_increase cx c (compose (map rv_verdict rvs)) = Inr q"
    and fin: "guard_finish cx (g\<lparr>rg_journal := j\<rparr>) c rvs (compose (map rv_verdict rvs)) q = (g', r)"
    by (rule evaluate_cases)
  have "list_all (\<lambda>rv. rv_verdict rv = ALLOW) rvs"
    using chain by (induction rule: list_all2_induct) (simp_all add: any_rule.gates_increase_only [OF ok] red)
  then have "map rv_verdict rvs = replicate (length rvs) ALLOW"
    by (induction rvs) simp_all
  moreover have "compose_loop (replicate n ALLOW) 1 False = ALLOW" for n
    by (induction n) (simp_all add: ALLOW_def)
  ultimately have v: "compose (map rv_verdict rvs) = ALLOW" by (simp add: compose_def)
  have q: "q = 0"
    using q floor_qty_zero by (auto simp: v red approved_increase_def exposure_def ALLOW_def split: option.splits)
  have base: "rc_base_qty c = \<bar>rc_target_qty c\<bar>"
    using ctx_ok_base_inc [OF ok fit(2)] ctx_ok_qty(6) [OF ok] red dabs_repr [OF fit(1)] by simp
  have "repr cx \<bar>rc_target_qty c\<bar>" using fit(1) by simp
  with base have "dadd cx (rc_base_qty c) q = \<bar>rc_target_qty c\<bar>" by (simp add: q repr_def)
  then have "gr_approved_qty r = \<bar>rc_target_qty c\<bar> * of_int (target_side c)"
    using guard_finish_simps(9) [OF fin nf] fit(1) by (simp add: dmul_side)
  then show ?thesis using target_side_mult_abs [of c] guard_finish_simps(1) [OF fin] v by (simp add: mult.commute)
qed

text \<open>From a long position of 30 at a target of 10, on stale data: the order is let through.\<close>

definition ex_reduce :: risk_context where
  "ex_reduce = ex_ctx\<lparr>rc_current_qty := 30, rc_target_qty := 10, rc_dq_score := 1/2, rc_base_qty := 10,
     rc_increase_qty := 0, rc_post_qty := 10\<rparr>"

theorem reductions_pass_witness:
  "\<exists>g' r. evaluate Default_ctx ex_guard ex_reduce = (g', Inr r) \<and> gr_approved_qty r = 10"
proof -
  obtain g' r where ev: "evaluate Default_ctx ex_guard ex_reduce = (g', Inr r)" and nf: "\<not> gr_flatten_all r"
    by (simp add: ex_guard_def ex_reduce_def ex_ctx_def ex_rules_def ex_journal_def evals)
  have c: "ctx_ok Default_ctx ex_reduce" "rc_increase_qty ex_reduce = 0" "repr Default_ctx (rc_target_qty ex_reduce)"
    "repr Default_ctx (dabs Default_ctx (rc_target_qty ex_reduce) - dabs Default_ctx (rc_current_qty ex_reduce))"
    by (simp_all add: ex_reduce_def ex_ctx_def evals)
  from reductions_pass [OF ev c nf] ev show ?thesis by (auto simp: ex_reduce_def)
qed

text \<open>C6: A drawdown at the limit, an open latch found tripped or the state HALTED flatten the book: the allowed
  target is 0 for an order in either direction; the drawdown also trips the latch of the guard.\<close>
theorem drawdown_flattens:
  assumes ev: "evaluate cx g c = (g', Inr r)"
    and br: "(MaxDrawdownHalt d \<in> set (rg_rules g) \<and> d \<le> rc_drawdown c) \<or> ks_is_tripped (rg_killswitch g) \<or> rc_risk_state c = HALTED"
  shows "gr_flatten_all r \<and> gr_approved_qty r = 0 \<and> gr_increase_approved r = 0
     \<and> (MaxDrawdownHalt d \<in> set (rg_rules g) \<and> d \<le> rc_drawdown c \<and> rg_killswitch g \<noteq> None \<longrightarrow> ks_is_tripped (rg_killswitch g'))"
proof -
  from ev obtain j rvs q where chain: "list_all2 (\<lambda>ru rv. rule_check cx (rg_killswitch g) c ru = Inr rv) (rg_rules g) rvs"
    and fin: "guard_finish cx (g\<lparr>rg_journal := j\<rparr>) c rvs (compose (map rv_verdict rvs)) q = (g', r)"
    by (rule evaluate_cases)
  note fs = guard_finish_simps [OF fin]
  have halt: "gr_halt r" if m: "MaxDrawdownHalt d \<in> set (rg_rules g)" "d \<le> rc_drawdown c"
  proof -
    from m(1) obtain i where i: "i < length (rg_rules g)" "rg_rules g ! i = MaxDrawdownHalt d" by (auto simp: in_set_conv_nth)
    with chain have "rule_check cx (rg_killswitch g) c (MaxDrawdownHalt d) = Inr (rvs ! i)" "i < length rvs"
      by (auto simp: list_all2_conv_all_nth)
    moreover from this(1) have "rvs ! i = projr (rule_check cx (rg_killswitch g) c (MaxDrawdownHalt d))" by simp
    then have "rv_halt (rvs ! i)" using m(2) by (simp add: max_drawdown_halt_check_def Let_def)
    ultimately show ?thesis unfolding fs(6) by (intro bexI [of _ "rvs ! i"] nth_mem)
  qed
  have fl: "gr_flatten_all r" using br halt fs(7) by auto
  have "ks_is_tripped (rg_killswitch g')" if "gr_halt r" "rg_killswitch g \<noteq> None"
    using that fs(12) by (auto simp: ks_is_tripped_def ks_trip_def)
  with fl fs(8) halt show ?thesis by blast
qed

theorem drawdown_flattens_witness:
  "\<exists>g' r. evaluate Default_ctx ex_guard (ex_ctx\<lparr>rc_drawdown := 15/100\<rparr>) = (g', Inr r) \<and> gr_approved_qty r = 0
     \<and> ks_is_tripped (rg_killswitch g')"
proof -
  obtain g' r where ev: "evaluate Default_ctx ex_guard (ex_ctx\<lparr>rc_drawdown := 15/100\<rparr>) = (g', Inr r)"
    by (simp add: ex_guard_def ex_ctx_def ex_rules_def ex_journal_def evals)
  have m: "MaxDrawdownHalt (12/100) \<in> set (rg_rules ex_guard)" "12/100 \<le> rc_drawdown (ex_ctx\<lparr>rc_drawdown := 15/100\<rparr>)"
    "rg_killswitch ex_guard \<noteq> None"
    by (simp_all add: ex_guard_def ex_rules_def)
  from drawdown_flattens [OF ev, of "12/100"] m ev show ?thesis by blast
qed

subsection \<open>The order of the rules\<close>

lemma run_rules_perm:
  assumes "list_all2 (\<lambda>r rv. rule_check cx ks c r = Inr rv) rs rvs" and "mset rs' = mset rs"
  shows "list_all2 (\<lambda>r rv. rule_check cx ks c r = Inr rv) rs' (map (\<lambda>r. projr (rule_check cx ks c r)) rs')"
    and "mset (map (\<lambda>r. projr (rule_check cx ks c r)) rs') = mset rvs"
proof -
  have e: "rvs = map (\<lambda>r. projr (rule_check cx ks c r)) rs"
    using assms(1) by (induction rule: list_all2_induct) simp_all
  have "\<forall>r \<in> set rs. \<exists>rv. rule_check cx ks c r = Inr rv"
    using assms(1) by (induction rule: list_all2_induct) auto
  moreover have "set rs' = set rs" using assms(2) by (rule mset_eq_setD)
  ultimately show "list_all2 (\<lambda>r rv. rule_check cx ks c r = Inr rv) rs' (map (\<lambda>r. projr (rule_check cx ks c r)) rs')"
    by (auto simp: list_all2_conv_all_nth) (metis nth_mem sum.sel(2))
  show "mset (map (\<lambda>r. projr (rule_check cx ks c r)) rs') = mset rvs" using assms(2) by (simp add: e)
qed

lemma run_rules_complete:
  "list_all2 (\<lambda>r rv. rule_check cx ks c r = Inr rv) rs rvs \<Longrightarrow>
     \<exists>j'. run_rules cx ks c rs j acc = (j', Inr (acc @ rvs))"
  by (induction arbitrary: j acc rule: list_all2_induct) (simp_all, metis append.assoc append_Cons append_Nil)

text \<open>C8: The order of the rules is irrelevant: a chain with the same rules in another order succeeds on the
  same contexts and returns the same verdict, target, flags and latch; only the order of the records differs.\<close>
theorem rule_order_irrelevant:
  assumes ev: "evaluate cx g c = (g', Inr r)" and ok: "ctx_ok cx c" and perm: "mset rules = mset (rg_rules g)"
  shows "\<exists>g'' r'. evaluate cx (g\<lparr>rg_rules := rules\<rparr>) c = (g'', Inr r') \<and> r' = r\<lparr>gr_records := gr_records r'\<rparr>
     \<and> mset (gr_records r') = mset (gr_records r) \<and> rg_killswitch g'' = rg_killswitch g'"
proof -
  let ?ks = "rg_killswitch g" and ?g = "g\<lparr>rg_rules := rules\<rparr>"
  from ev obtain j rvs q where chain: "list_all2 (\<lambda>ru rv. rule_check cx ?ks c ru = Inr rv) (rg_rules g) rvs"
    and q: "approved_increase cx c (compose (map rv_verdict rvs)) = Inr q"
    and fin: "guard_finish cx (g\<lparr>rg_journal := j\<rparr>) c rvs (compose (map rv_verdict rvs)) q = (g', r)"
    by (rule evaluate_cases)
  define rvs' where "rvs' = map (\<lambda>r. projr (rule_check cx ?ks c r)) rules"
  have chain': "list_all2 (\<lambda>ru rv. rule_check cx ?ks c ru = Inr rv) rules rvs'" and m: "mset rvs' = mset rvs"
    unfolding rvs'_def by (rule run_rules_perm [OF chain perm])+
  obtain j' where run: "run_rules cx ?ks c rules (rg_journal g) [] = (j', Inr rvs')"
    using run_rules_complete [OF chain', of "rg_journal g" "[]"] by auto
  have v: "compose (map rv_verdict rvs') = compose (map rv_verdict rvs)"
    using chain_ok [OF ok chain] m by (intro compose_perm) simp_all
  have s: "set rvs' = set rvs" using m by (rule mset_eq_setD)
  obtain g'' r' where fin': "guard_finish cx (?g\<lparr>rg_journal := j'\<rparr>) c rvs' (compose (map rv_verdict rvs)) q = (g'', r')"
    by (cases "guard_finish cx (?g\<lparr>rg_journal := j'\<rparr>) c rvs' (compose (map rv_verdict rvs)) q")
  have "evaluate cx ?g c = (g'', Inr r')"
    using run q fin' by (simp add: evaluate_def v Let_def)
  moreover have "r' = r\<lparr>gr_records := rvs'\<rparr>" "rg_killswitch g'' = rg_killswitch g'"
    using fin fin' s by (auto simp: guard_finish_def Let_def)
  moreover have "gr_records r = rvs" by (rule guard_finish_simps(2) [OF fin])
  ultimately show ?thesis using m by auto
qed

theorem rule_order_irrelevant_witness:
  "\<exists>g' r g'' r'. evaluate Default_ctx ex_guard ex_ctx = (g', Inr r)
     \<and> evaluate Default_ctx (ex_guard\<lparr>rg_rules := rev ex_rules\<rparr>) ex_ctx = (g'', Inr r')
     \<and> gr_approved_qty r = 30 \<and> gr_approved_qty r' = 30"
proof -
  obtain g' r where ev: "evaluate Default_ctx ex_guard ex_ctx = (g', Inr r)" and a: "gr_approved_qty r = 30"
    by (rule ex_guard_run)
  have "mset (rev ex_rules) = mset (rg_rules ex_guard)" by (simp add: ex_guard_def)
  from rule_order_irrelevant [OF ev ex_ctx_ok this] obtain g'' r' where
    "evaluate Default_ctx (ex_guard\<lparr>rg_rules := rev ex_rules\<rparr>) ex_ctx = (g'', Inr r')" "r' = r\<lparr>gr_records := gr_records r'\<rparr>"
    by blast
  moreover from this(2) a have "gr_approved_qty r' = 30" by (metis guard_result.select_convs(3) guard_result.surjective guard_result.update_convs(2))
  ultimately show ?thesis using ev a by blast
qed

subsection \<open>The caps\<close>

text \<open>What a rule that caps the position at \<open>q_max\<close> promises for the position after the order.\<close>

lemma capped_position:
  assumes ev: "evaluate cx g c = (g', Inr r)" and ok: "ctx_ok cx c" and nf: "\<not> gr_flatten_all r"
    and m: "ru \<in> set (rg_rules g)" "rule_check cx (rg_killswitch g) c ru = Inr rv"
    and cap: "cap_increase cx c q_max = Inr (rv_verdict rv)"
    and fl: "floor_exact cx c (exposure_of (gr_verdict r) (rc_increase_qty c))" and inc: "0 < gr_increase_approved r"
    and fit: "repr cx (q_max - rc_base_qty c)" "repr cx (dabs cx (rc_target_qty c) - dabs cx (rc_current_qty c))"
  shows "rc_base_qty c + gr_increase_approved r \<le> q_max"
proof -
  from ev obtain j rvs q where chain: "list_all2 (\<lambda>ru rv. rule_check cx (rg_killswitch g) c ru = Inr rv) (rg_rules g) rvs"
    and q: "approved_increase cx c (compose (map rv_verdict rvs)) = Inr q"
    and fin: "guard_finish cx (g\<lparr>rg_journal := j\<rparr>) c rvs (compose (map rv_verdict rvs)) q = (g', r)"
    by (rule evaluate_cases)
  note fs = guard_finish_simps [OF fin]
  have vok: "verdict_ok (compose (map rv_verdict rvs))" by (rule compose_ok [OF chain_ok [OF ok chain]])
  note i = ctx_ok_qty [OF ok]
  have qe: "gr_increase_approved r = q" using fs(9) [OF nf] by simp
  have "q \<le> exposure_of (compose (map rv_verdict rvs)) (rc_increase_qty c)"
    using approved_increase_props(3) [OF q vok i(2)] fl fs(1) by simp
  also have "\<dots> \<le> exposure_of (rv_verdict rv) (rc_increase_qty c)" by (rule chain_le_rule [OF ok chain m])
  finally have le: "q \<le> exposure_of (rv_verdict rv) (rc_increase_qty c)" .
  have vr: "verdict_ok (rv_verdict rv)" using cap by (rule cap_increase_ok)
  with le exposure_of_le [OF vr i(2)] have qi: "q \<le> rc_increase_qty c" by simp
  show ?thesis
  proof (cases "rc_post_qty c \<le> q_max")
    case True
    with qi ctx_ok_base_inc [OF ok fit(2)] qe show ?thesis by simp
  next
    case False
    have "0 < rc_increase_qty c" using inc qi qe by simp
    from cap_increase_exposure [OF cap this] False le
    have "q \<le> max 0 (dsub cx q_max (rc_base_qty c))" by simp
    with inc qe fit(1) show ?thesis by (auto simp: dsub_def repr_def)
  qed
qed



subsection \<open>The mode gate in the chain\<close>

text \<open>When the gate rejects: with a latch tripped or in HALTED every increase; in COOLDOWN the increase of a position
  that exists, and under \<open>REDUCE_ONLY\<close> new entries too. Otherwise it allows.\<close>

definition gate_rejects :: "killswitch option \<Rightarrow> cooldown_policy \<Rightarrow> risk_context \<Rightarrow> bool" where
  "gate_rejects ks p c \<longleftrightarrow> 0 < rc_increase_qty c \<and>
     (ks_is_tripped ks \<or> rc_risk_state c = HALTED
      \<or> (rc_risk_state c = COOLDOWN \<and> (p = REDUCE_ONLY \<or> rc_base_qty c \<noteq> 0)))"

lemma risk_mode_verdict:
  "risk_mode_check ks p c = Inr rv \<Longrightarrow> rv_verdict rv = (if gate_rejects ks p c then VETO else ALLOW)"
  by (cases "rc_risk_state c"; cases p)
    (auto simp: risk_mode_check_def Let_def rule_verdict_of_def veto_if_def gate_rejects_def gate_limit_def)

text \<open>In COOLDOWN no chain with the mode gate enlarges an existing position, and under the policy
  \<open>REDUCE_ONLY\<close> none opens a new one; in HALTED or with the latch tripped nothing is enlarged. The order is
  cut down to the part that does not enlarge the position.\<close>
theorem gate_blocks_increase:
  assumes ev: "evaluate cx g c = (g', Inr r)" and ok: "ctx_ok cx c" and m: "RiskModeGate p \<in> set (rg_rules g)"
    and rej: "gate_rejects (rg_killswitch g) p c"
  shows "gr_verdict r = VETO \<and> gr_increase_approved r = 0 \<and> \<bar>gr_approved_qty r\<bar> \<le> rc_base_qty c"
proof -
  from ev obtain j rvs q where chain: "list_all2 (\<lambda>ru rv. rule_check cx (rg_killswitch g) c ru = Inr rv) (rg_rules g) rvs"
    and q: "approved_increase cx c (compose (map rv_verdict rvs)) = Inr q"
    and fin: "guard_finish cx (g\<lparr>rg_journal := j\<rparr>) c rvs (compose (map rv_verdict rvs)) q = (g', r)"
    by (rule evaluate_cases)
  note fs = guard_finish_simps [OF fin]
  from chain m obtain rv where rv: "rv \<in> set rvs" "risk_mode_check (rg_killswitch g) p c = Inr rv"
    by (auto simp: in_set_conv_nth list_all2_conv_all_nth) (metis rule_check.simps(7))
  then have "VETO \<in> set (map rv_verdict rvs)" using risk_mode_verdict [OF rv(2)] rej by (metis image_eqI set_map)
  from va.comp_absorb [OF chain_ok [OF ok chain] this] have v: "compose (map rv_verdict rvs) = VETO" .
  have "0 \<le> rc_increase_qty c" using ctx_ok_qty(2) [OF ok] .
  then have q0: "q = 0"
    using q floor_qty_zero by (auto simp: v approved_increase_def exposure_def VETO_def split: option.splits)
  have base: "0 \<le> rc_base_qty c" "repr cx (rc_base_qty c)"
    using ctx_ok_qty(1) [OF ok] ok by (auto simp: ctx_ok_def order_parts_def Let_def min_def split: if_splits)
  then have "gr_approved_qty r = rc_base_qty c * of_int (target_side c)" if "\<not> gr_flatten_all r"
    using fs(9) [OF that] by (simp add: q0 dmul_side repr_def)
  moreover have "\<bar>of_int (target_side c) :: rat\<bar> \<le> 1" by (simp add: target_side_def sign_of_def)
  ultimately have "\<bar>gr_approved_qty r\<bar> \<le> rc_base_qty c"
    using fs(8) base(1) mult_left_mono [of "\<bar>of_int (target_side c) :: rat\<bar>" 1 "rc_base_qty c"]
    by (cases "gr_flatten_all r") (simp_all add: abs_mult)
  with fs(1,8,9) v q0 show ?thesis by (cases "gr_flatten_all r") simp_all
qed

definition ex_cooldown :: risk_context where
  "ex_cooldown = ex_ctx\<lparr>rc_risk_state := COOLDOWN, rc_current_qty := 10, rc_target_qty := 16, rc_base_qty := 10,
     rc_increase_qty := 6, rc_post_qty := 16\<rparr>"

theorem gate_blocks_increase_witness:
  "\<exists>g' r. evaluate Default_ctx ex_guard ex_cooldown = (g', Inr r) \<and> gr_increase_approved r = 0 \<and> gr_approved_qty r = 10"
proof -
  obtain g' r where ev: "evaluate Default_ctx ex_guard ex_cooldown = (g', Inr r)" and a: "gr_approved_qty r = 10"
    by (simp add: ex_guard_def ex_cooldown_def ex_ctx_def ex_rules_def ex_journal_def evals)
  have c: "ctx_ok Default_ctx ex_cooldown" by (simp add: ex_cooldown_def ex_ctx_def evals)
  have m: "RiskModeGate SCALED_ENTRIES \<in> set (rg_rules ex_guard)" by (simp add: ex_guard_def ex_rules_def)
  have rej: "gate_rejects (rg_killswitch ex_guard) SCALED_ENTRIES ex_cooldown"
    by (simp add: gate_rejects_def ex_cooldown_def ex_ctx_def)
  from gate_blocks_increase [OF ev c m rej] ev a show ?thesis by blast
qed

subsection \<open>The journal\<close>

lemma record_rule_simps:
  "rj_run_id (record_rule j ts i rv) = rj_run_id j" "rj_keep (record_rule j ts i rv) = rj_keep j"
  "rj_count (record_rule j ts i rv) = rj_count j + 1"
  "rj_keep j \<Longrightarrow> rj_records (record_rule j ts i rv) = rj_records j @ [rule_record j ts i rv]"
  by (auto simp: record_rule_def rj_append_def has_consumers_def)

lemma record_rules:
  "rj_count (foldl (\<lambda>j. record_rule j ts i) j rvs) = rj_count j + length rvs
   \<and> rj_keep (foldl (\<lambda>j. record_rule j ts i) j rvs) = rj_keep j
   \<and> (rj_keep j \<longrightarrow> rj_records (foldl (\<lambda>j. record_rule j ts i) j rvs) = rj_records j @ map (rule_record j ts i) rvs)"
proof (induction rvs arbitrary: j)
  case (Cons rv rvs)
  have "rule_record (record_rule j ts i rv) = rule_record j" by (intro ext) (simp add: rule_record_def record_rule_simps)
  with Cons.IH [of "record_rule j ts i rv"] show ?case by (simp add: record_rule_simps)
qed simp

text \<open>Every evaluation leaves one journal record per rule of the chain, in the order of the chain, with the
  verdict, factor, observation and limit of that rule, whether or not the rule rejected anything.\<close>
theorem every_check_journalled:
  assumes ev: "evaluate cx g c = (g', Inr r)"
  shows "map rv_rule (gr_records r) = map rule_name (rg_rules g)
     \<and> rj_count (rg_journal g') = rj_count (rg_journal g) + length (rg_rules g)
     \<and> (rj_keep (rg_journal g) \<longrightarrow> rj_records (rg_journal g') = rj_records (rg_journal g)
          @ map (rule_record (rg_journal g) (rc_ts_ns c) (Some (rc_instrument c))) (gr_records r))"
proof -
  from ev obtain j rvs q where chain: "list_all2 (\<lambda>ru rv. rule_check cx (rg_killswitch g) c ru = Inr rv) (rg_rules g) rvs"
    and j: "j = foldl (\<lambda>j. record_rule j (rc_ts_ns c) (Some (rc_instrument c))) (rg_journal g) rvs"
    and fin: "guard_finish cx (g\<lparr>rg_journal := j\<rparr>) c rvs (compose (map rv_verdict rvs)) q = (g', r)"
    by (rule evaluate_cases)
  have "map rv_rule rvs = map rule_name (rg_rules g)"
    using chain by (induction rule: list_all2_induct) (simp_all add: rule_check_name)
  moreover have "length rvs = length (rg_rules g)" using chain by (simp add: list_all2_lengthD)
  ultimately show ?thesis
    using guard_finish_simps(2,11) [OF fin] record_rules [of "rc_ts_ns c" "Some (rc_instrument c)" "rg_journal g" rvs]
    by (simp add: j)
qed

theorem every_check_journalled_witness:
  "\<exists>g' r. evaluate Default_ctx ex_guard ex_ctx = (g', Inr r) \<and> rj_count (rg_journal g') = 7
     \<and> map re_rule (rj_records (rg_journal g')) = map rule_name ex_rules"
proof -
  obtain g' r where ev: "evaluate Default_ctx ex_guard ex_ctx = (g', Inr r)" by (rule ex_guard_run)
  have k: "rg_rules ex_guard = ex_rules" "rj_keep (rg_journal ex_guard)" "rj_count (rg_journal ex_guard) = 0"
    "rj_records (rg_journal ex_guard) = []" "length ex_rules = 7"
    by (simp_all add: ex_guard_def ex_journal_def ex_rules_def)
  have "re_rule \<circ> rule_record j t i = rv_rule" for j t i by (intro ext) (simp add: rule_record_def)
  with every_check_journalled [OF ev] k ev show ?thesis by (simp add: comp_def)
qed

end
