(* ===== verification/CostModel.thy ===== *)
theory CostModel
  imports Domain
begin

text \<open>
  \<^verbatim>\<open>execution/cost_model.py\<close>: the price of an execution (half spread, square-root impact, noise), its
  fee, the funding payment and the schedule of funding. The standard normal numbers of numpy's
  generator are a parameter, the sequence \<open>zs\<close> of floats; the model keeps the position in it.
\<close>

section \<open>Configuration\<close>

definition NS_PER_HOUR :: int where "NS_PER_HOUR = 3600000000000"
definition BPS :: dec where "BPS = 1/10000"
definition SLIPPAGE_BPS_QUANTUM :: quantum where "SLIPPAGE_BPS_QUANTUM = \<lparr>q_coef = 1, q_exp = - 4\<rparr>"

datatype cost_mode = ZERO | SQRT_IMPACT | FULL

record cost_model =
  cm_mode :: cost_mode
  cm_k_s :: dec
  cm_taker :: dec
  cm_maker :: dec
  cm_spread_ticks :: int
  cm_funding_hours :: "int list"
  cm_noise_bps :: dec
  cm_drawn :: nat

definition hours_valid :: "int list \<Rightarrow> int list result" where
  "hours_valid v = (if v = [] \<or> (\<exists>h \<in> set v. h < 0 \<or> 23 < h) \<or> \<not> distinct v then Inl ValueError else Inr (sort v))"

definition mk_cost_model :: "cost_mode \<Rightarrow> dec \<Rightarrow> dec \<Rightarrow> dec \<Rightarrow> dec \<Rightarrow> int \<Rightarrow> int list \<Rightarrow> cost_model result" where
  "mk_cost_model m k_s taker maker noise_bps spread_ticks hours =
     (if k_s < 0 \<or> taker < 0 \<or> maker < 0 \<or> spread_ticks < 0 \<or> noise_bps < 0 then Inl ValueError
      else rbind (hours_valid hours) (\<lambda>hs.
        Inr \<lparr>cm_mode = m, cm_k_s = k_s, cm_taker = taker, cm_maker = maker, cm_spread_ticks = spread_ticks,
             cm_funding_hours = hs, cm_noise_bps = noise_bps, cm_drawn = 0\<rparr>))"

definition funding_offsets_ns :: "cost_model \<Rightarrow> int list" where
  "funding_offsets_ns m = map (\<lambda>h. h * NS_PER_HOUR) (cm_funding_hours m)"

definition noise_scale :: "dctx \<Rightarrow> cost_model \<Rightarrow> dec" where
  "noise_scale cx m = dmul cx (cm_noise_bps m) BPS"

definition charges_fees :: "cost_model \<Rightarrow> bool" where "charges_fees m \<longleftrightarrow> cm_mode m = FULL"
definition charges_funding :: "cost_model \<Rightarrow> bool" where "charges_funding m \<longleftrightarrow> cm_mode m = FULL"
definition has_price_impact :: "cost_model \<Rightarrow> bool" where "has_price_impact m \<longleftrightarrow> cm_mode m \<noteq> ZERO"

section \<open>The price of an execution\<close>

record fill_quote =
  fq_price :: dec
  fq_raw_price :: dec
  fq_half_spread :: dec
  fq_impact :: dec
  fq_noise :: dec
  fq_slippage_bps :: dec

definition impact :: "dctx \<Rightarrow> cost_model \<Rightarrow> dec \<Rightarrow> dec \<Rightarrow> dec \<Rightarrow> dec \<Rightarrow> dec" where
  "impact cx m p_ref qty sigma v_bar =
     (if \<not> has_price_impact m \<or> qty \<le> 0 \<or> sigma \<le> 0 then 0
      else let participation = (if 0 < v_bar then ddiv cx qty v_bar else 1)
           in dmul cx (dmul cx (dmul cx (cm_k_s m) sigma) p_ref) (dsqrt cx participation))"

definition slippage_bps :: "dctx \<Rightarrow> side \<Rightarrow> dec \<Rightarrow> dec \<Rightarrow> dec result" where
  "slippage_bps cx s price p_ref =
     quantize_step cx (dmul cx (ddiv cx (dmul cx (of_int (side_int s)) (dsub cx price p_ref)) p_ref) 10000)
       SLIPPAGE_BPS_QUANTUM ROUND_HALF_EVEN"

definition half_spread :: "dctx \<Rightarrow> cost_model \<Rightarrow> quantum \<Rightarrow> dec" where
  "half_spread cx m tick = ddiv cx (dmul cx (qval tick) (of_int (cm_spread_ticks m))) 2"

text \<open>The noise of the next number of the sequence, and whether one was consumed.\<close>

definition quote_noise :: "dctx \<Rightarrow> (nat \<Rightarrow> rat) \<Rightarrow> cost_model \<Rightarrow> dec \<Rightarrow> dec \<times> cost_model" where
  "quote_noise cx zs m p_ref =
     (if 0 < noise_scale cx m
      then (dmul cx (dmul cx p_ref (noise_scale cx m)) (float_repr (zs (cm_drawn m))), m\<lparr>cm_drawn := cm_drawn m + 1\<rparr>)
      else (0, m))"

definition raw_price :: "dctx \<Rightarrow> side \<Rightarrow> dec \<Rightarrow> dec \<Rightarrow> dec \<Rightarrow> dec \<Rightarrow> dec" where
  "raw_price cx s p_ref hs imp noise =
     dadd cx (dadd cx p_ref (dmul cx (of_int (side_int s)) (dadd cx hs imp))) noise"

definition quote :: "dctx \<Rightarrow> (nat \<Rightarrow> rat) \<Rightarrow> cost_model \<Rightarrow> side \<Rightarrow> dec \<Rightarrow> dec \<Rightarrow> dec \<Rightarrow> dec \<Rightarrow> quantum
    \<Rightarrow> (fill_quote \<times> cost_model) result" where
  "quote cx zs m s p_ref qty sigma v_bar tick =
     (if s = FLAT then Inl ValueError
      else if p_ref \<le> 0 then Inl ValueError
      else if \<not> has_price_impact m then
        rbind (quantize_price cx p_ref tick) (\<lambda>price.
        rbind (slippage_bps cx s price p_ref) (\<lambda>bps.
          Inr (\<lparr>fq_price = price, fq_raw_price = p_ref, fq_half_spread = 0, fq_impact = 0, fq_noise = 0,
                fq_slippage_bps = bps\<rparr>, m)))
      else
        let hs = half_spread cx m tick;
            imp = impact cx m p_ref qty sigma v_bar;
            (noise, m') = quote_noise cx zs m p_ref;
            raw = raw_price cx s p_ref hs imp noise
        in rbind (quantize_price cx raw tick) (\<lambda>qp.
           let price = max qp (qval tick) in
           rbind (slippage_bps cx s price p_ref) (\<lambda>bps.
             Inr (\<lparr>fq_price = price, fq_raw_price = raw, fq_half_spread = hs, fq_impact = imp, fq_noise = noise,
                   fq_slippage_bps = bps\<rparr>, m'))))"

section \<open>Money\<close>

definition fee_rate :: "cost_model \<Rightarrow> liquidity \<Rightarrow> dec" where
  "fee_rate m lq = (if lq = TAKER then cm_taker m else cm_maker m)"

definition fee :: "dctx \<Rightarrow> cost_model \<Rightarrow> dec \<Rightarrow> liquidity \<Rightarrow> dec" where
  "fee cx m notional lq = (if \<not> charges_fees m then 0 else dmul cx (dabs cx notional) (fee_rate m lq))"

definition funding_payment :: "dctx \<Rightarrow> cost_model \<Rightarrow> dec \<Rightarrow> dec \<Rightarrow> dec \<Rightarrow> dec" where
  "funding_payment cx m position_qty mark_price rate =
     (if \<not> charges_funding m then 0 else dmul cx (dmul cx position_qty mark_price) rate)"

record funding_charge =
  fc_instrument :: string
  fc_ts_ns :: int
  fc_position_qty :: dec
  fc_mark_price :: dec
  fc_rate :: dec
  fc_amount :: dec

section \<open>The schedule of funding\<close>

definition is_funding_time :: "cost_model \<Rightarrow> int \<Rightarrow> bool" where
  "is_funding_time m t \<longleftrightarrow> t mod NS_PER_DAY \<in> set (funding_offsets_ns m)"

fun first_offset :: "int \<Rightarrow> int \<Rightarrow> int list \<Rightarrow> int option" where
  "first_offset day t [] = None"
| "first_offset day t (off # offs) = (if t < day + off then Some (day + off) else first_offset day t offs)"

definition next_funding_time :: "cost_model \<Rightarrow> int \<Rightarrow> int" where
  "next_funding_time m t =
     (let day = t - t mod NS_PER_DAY in
      case first_offset day t (funding_offsets_ns m) of Some u \<Rightarrow> u
      | None \<Rightarrow> day + NS_PER_DAY + hd (funding_offsets_ns m))"

function funding_days :: "int list \<Rightarrow> int \<Rightarrow> int \<Rightarrow> int \<Rightarrow> int list" where
  "funding_days offs t_from t_to day =
     (if day \<le> t_to
      then filter (\<lambda>t. t_from < t \<and> t \<le> t_to) (map (\<lambda>off. day + off) offs)
           @ funding_days offs t_from t_to (day + NS_PER_DAY)
      else [])"
  by pat_completeness auto
termination
  by (relation "measure (\<lambda>(offs, t_from, t_to, day). nat (t_to + 1 - day))") auto

declare funding_days.simps [simp del]

definition funding_times :: "cost_model \<Rightarrow> int \<Rightarrow> int \<Rightarrow> int list" where
  "funding_times m t_from t_to =
     (if t_to \<le> t_from then []
      else funding_days (funding_offsets_ns m) t_from t_to (t_from - t_from mod NS_PER_DAY))"

lemmas cost_eval [evals] = NS_PER_HOUR_def BPS_def SLIPPAGE_BPS_QUANTUM_def funding_offsets_ns_def noise_scale_def
  charges_fees_def charges_funding_def has_price_impact_def impact_def slippage_bps_def half_spread_def quote_noise_def
  raw_price_def quote_def fee_rate_def fee_def funding_payment_def is_funding_time_def next_funding_time_def

section \<open>What construction guarantees\<close>

definition cost_ok :: "cost_model \<Rightarrow> bool" where
  "cost_ok m \<longleftrightarrow> 0 \<le> cm_k_s m \<and> 0 \<le> cm_taker m \<and> 0 \<le> cm_maker m \<and> 0 \<le> cm_spread_ticks m \<and> 0 \<le> cm_noise_bps m
     \<and> cm_funding_hours m \<noteq> [] \<and> sorted_wrt (<) (cm_funding_hours m) \<and> (\<forall>h \<in> set (cm_funding_hours m). 0 \<le> h \<and> h \<le> 23)"

lemma sort_eq_Nil: "sort xs = [] \<longleftrightarrow> xs = []"
  by (metis set_empty set_sort)

lemma mk_cost_model_ok: "mk_cost_model m k t mk n sp hs = Inr c \<Longrightarrow> cost_ok c"
  by (auto simp: sort_eq_Nil mk_cost_model_def hours_valid_def cost_ok_def rbind_Inr_iff not_less strict_sorted_iff
      split: if_splits)

lemma offsets_ok:
  assumes "cost_ok m"
  shows "funding_offsets_ns m \<noteq> []" and "sorted_wrt (<) (funding_offsets_ns m)"
    and "off \<in> set (funding_offsets_ns m) \<Longrightarrow> 0 \<le> off \<and> off < NS_PER_DAY"
proof -
  show "funding_offsets_ns m \<noteq> []" using assms by (simp add: cost_ok_def funding_offsets_ns_def)
  show "sorted_wrt (<) (funding_offsets_ns m)"
    using assms by (simp add: cost_ok_def funding_offsets_ns_def sorted_wrt_map NS_PER_HOUR_def)
  show "off \<in> set (funding_offsets_ns m) \<Longrightarrow> 0 \<le> off \<and> off < NS_PER_DAY"
    using assms by (fastforce simp: cost_ok_def funding_offsets_ns_def NS_PER_HOUR_def NS_PER_DAY_def NS_PER_SEC_def)
qed

section \<open>The schedule is the set of funding times\<close>

lemma is_funding_time_day:
  assumes "cost_ok m" and "NS_PER_DAY dvd day" and "day \<le> t" and "t < day + NS_PER_DAY"
  shows "is_funding_time m t \<longleftrightarrow> t - day \<in> set (funding_offsets_ns m)"
proof -
  have "t mod NS_PER_DAY = (day + (t - day)) mod NS_PER_DAY" by simp
  also have "\<dots> = (t - day) mod NS_PER_DAY" using assms(2) by (metis add.left_neutral dvd_imp_mod_0 mod_add_left_eq)
  also have "\<dots> = t - day" using assms(3,4) by simp
  finally show ?thesis by (simp add: is_funding_time_def)
qed

lemma day_of: "NS_PER_DAY dvd (t - t mod NS_PER_DAY)" "t - t mod NS_PER_DAY \<le> t" "t < t - t mod NS_PER_DAY + NS_PER_DAY"
  using utc_day_start_dvd [of t] utc_day_start_bounds [of t] by (simp_all add: utc_day_start_ns_def)

lemma funding_days_set:
  assumes "cost_ok m" and "NS_PER_DAY dvd day" and "t_from < t_to"
  shows "set (funding_days (funding_offsets_ns m) t_from t_to day)
       = {t. t_from < t \<and> day \<le> t \<and> t \<le> t_to \<and> is_funding_time m t}"
  using assms(2)
proof (induction "funding_offsets_ns m" t_from t_to day rule: funding_days.induct)
  case (1 t_from t_to day)
  show ?case
  proof (cases "day \<le> t_to")
    case False
    then show ?thesis by (subst funding_days.simps) auto
  next
    case True
    have IH: "set (funding_days (funding_offsets_ns m) t_from t_to (day + NS_PER_DAY))
        = {t. t_from < t \<and> day + NS_PER_DAY \<le> t \<and> t \<le> t_to \<and> is_funding_time m t}"
      using 1 True by simp
    have today: "t - day \<in> set (funding_offsets_ns m) \<longleftrightarrow> day \<le> t \<and> t < day + NS_PER_DAY \<and> is_funding_time m t" for t
    proof
      assume "t - day \<in> set (funding_offsets_ns m)"
      moreover from offsets_ok(3) [OF assms(1) this] have "day \<le> t" "t < day + NS_PER_DAY" by auto
      ultimately show "day \<le> t \<and> t < day + NS_PER_DAY \<and> is_funding_time m t"
        using is_funding_time_day [OF assms(1) 1(2)] by blast
    next
      assume "day \<le> t \<and> t < day + NS_PER_DAY \<and> is_funding_time m t"
      with is_funding_time_day [OF assms(1) 1(2)] show "t - day \<in> set (funding_offsets_ns m)" by blast
    qed
    have "t \<in> set (map (\<lambda>off. day + off) (funding_offsets_ns m)) \<longleftrightarrow> t - day \<in> set (funding_offsets_ns m)" for t
      by (auto simp: image_iff) (metis add_diff_cancel_left' diff_add_cancel add.commute)+
    then have now: "set (map (\<lambda>off. day + off) (funding_offsets_ns m)) = {t. day \<le> t \<and> t < day + NS_PER_DAY \<and> is_funding_time m t}"
      using today by blast
    have "day \<le> t" if "day + NS_PER_DAY \<le> t" for t using that NS_PER_DAY_pos by linarith
    then show ?thesis unfolding funding_days.simps [of _ _ _ day] using True
      by (simp only: if_True set_append set_filter now IH) auto
  qed
qed

lemma funding_days_sorted:
  assumes "cost_ok m" and "NS_PER_DAY dvd day"
  shows "sorted_wrt (<) (funding_days (funding_offsets_ns m) t_from t_to day)
     \<and> (\<forall>t \<in> set (funding_days (funding_offsets_ns m) t_from t_to day). day \<le> t)"
  using assms(2)
proof (induction "funding_offsets_ns m" t_from t_to day rule: funding_days.induct)
  case (1 t_from t_to day)
  show ?case
  proof (cases "day \<le> t_to")
    case False
    then have "funding_days (funding_offsets_ns m) t_from t_to day = []" by (simp add: funding_days.simps)
    then show ?thesis by simp
  next
    case True
    let ?rest = "funding_days (funding_offsets_ns m) t_from t_to (day + NS_PER_DAY)"
    let ?now = "filter (\<lambda>t. t_from < t \<and> t \<le> t_to) (map (\<lambda>off. day + off) (funding_offsets_ns m))"
    have IH: "sorted_wrt (<) ?rest" "\<forall>t \<in> set ?rest. day + NS_PER_DAY \<le> t" using 1 True by simp_all
    have "sorted_wrt (<) ?now" using offsets_ok(2) [OF assms(1)] by (simp add: sorted_wrt_filter sorted_wrt_map)
    moreover have "\<forall>t \<in> set ?now. day \<le> t \<and> t < day + NS_PER_DAY" using offsets_ok(3) [OF assms(1)] by auto
    moreover have "day \<le> t" if "day + NS_PER_DAY \<le> t" for t using that NS_PER_DAY_pos by linarith
    moreover have "\<forall>x \<in> set ?now. \<forall>y \<in> set ?rest. x < y" using calculation(2) IH(2) by (meson less_le_trans)
    ultimately have "sorted_wrt (<) (?now @ ?rest)" "\<forall>t \<in> set (?now @ ?rest). day \<le> t"
      using IH unfolding sorted_wrt_append set_append by blast+
    moreover have "funding_days (funding_offsets_ns m) t_from t_to day = ?now @ ?rest"
      using True funding_days.simps [of "funding_offsets_ns m" t_from t_to day] by simp
    ultimately show ?thesis by simp
  qed
qed

lemma first_offset_Some:
  "sorted_wrt (<) offs \<Longrightarrow> first_offset day t offs = Some u \<Longrightarrow>
     t < u \<and> u - day \<in> set offs \<and> (\<forall>off \<in> set offs. t < day + off \<longrightarrow> u \<le> day + off)"
  by (induction offs) (auto split: if_splits)

lemma first_offset_None: "first_offset day t offs = None \<Longrightarrow> off \<in> set offs \<Longrightarrow> day + off \<le> t"
  by (induction offs) (auto split: if_splits)

lemma funding_times_spec:
  assumes "cost_ok m"
  shows "set (funding_times m a b) = {t. a < t \<and> t \<le> b \<and> is_funding_time m t}"
    and "sorted_wrt (<) (funding_times m a b)"
proof -
  have d: "a - a mod NS_PER_DAY \<le> t" if "a < t" for t using day_of(2) [of a] that by linarith
  show "set (funding_times m a b) = {t. a < t \<and> t \<le> b \<and> is_funding_time m t}"
  proof (cases "b \<le> a")
    case False
    then have "set (funding_times m a b) = {t. a < t \<and> a - a mod NS_PER_DAY \<le> t \<and> t \<le> b \<and> is_funding_time m t}"
      unfolding funding_times_def using funding_days_set [OF assms day_of(1), of a b a] by simp
    with d show ?thesis by blast
  qed (auto simp: funding_times_def)
  show "sorted_wrt (<) (funding_times m a b)"
    using funding_days_sorted [OF assms day_of(1)] by (simp add: funding_times_def)
qed

lemma next_funding_time_least:
  assumes ok: "cost_ok m"
  shows "t < next_funding_time m t" and "is_funding_time m (next_funding_time m t)"
    and "t < u \<Longrightarrow> is_funding_time m u \<Longrightarrow> next_funding_time m t \<le> u"
proof -
  define day where "day = t - t mod NS_PER_DAY"
  define offs where "offs = funding_offsets_ns m"
  note d = day_of [of t, folded day_def]
  note o = offsets_ok [OF ok, folded offs_def]
  have today: "is_funding_time m v \<longleftrightarrow> v - day \<in> set offs" if "day \<le> v" "v < day + NS_PER_DAY" for v
    using is_funding_time_day [OF ok d(1) that] by (simp add: offs_def)
  have later: "day + NS_PER_DAY + hd offs \<le> v" if "day + NS_PER_DAY \<le> v" "is_funding_time m v" for v
  proof -
    have "v mod NS_PER_DAY \<in> set offs" using that(2) by (simp add: is_funding_time_def offs_def)
    then have "hd offs \<le> v mod NS_PER_DAY" using o(1,2) by (cases offs) (auto simp: less_imp_le)
    moreover have "day + NS_PER_DAY \<le> v - v mod NS_PER_DAY"
    proof -
      have "NS_PER_DAY dvd (v - v mod NS_PER_DAY) - (day + NS_PER_DAY)"
        by (rule dvd_diff [OF day_of(1) dvd_add [OF d(1) dvd_refl]])
      then obtain k where k: "(v - v mod NS_PER_DAY) - (day + NS_PER_DAY) = NS_PER_DAY * k" ..
      have "- NS_PER_DAY < NS_PER_DAY * k" unfolding k [symmetric] using that(1) day_of(3) [of v] by linarith
      then have "NS_PER_DAY * (- 1) < NS_PER_DAY * k" by simp
      then have "- 1 < k" using NS_PER_DAY_pos by (simp only: mult_less_cancel_left_pos)
      then have "0 \<le> NS_PER_DAY * k" by (intro mult_nonneg_nonneg less_imp_le [OF NS_PER_DAY_pos]) simp
      with k show ?thesis by linarith
    qed
    ultimately show ?thesis by linarith
  qed
  have res: "t < next_funding_time m t \<and> is_funding_time m (next_funding_time m t)
      \<and> (\<forall>u. t < u \<and> is_funding_time m u \<longrightarrow> next_funding_time m t \<le> u)"
  proof (cases "first_offset day t offs")
    case (Some w)
    then have n: "next_funding_time m t = w" by (simp add: next_funding_time_def day_def offs_def)
    note f = first_offset_Some [OF o(2) Some]
    have w: "day \<le> w" "w < day + NS_PER_DAY" using f o(3) [of "w - day"] by auto
    have "w \<le> u" if "t < u" "is_funding_time m u" for u
    proof (cases "u < day + NS_PER_DAY")
      case True
      then have "u - day \<in> set offs" using today [of u] that d(2) by simp
      with f that(1) show ?thesis by (metis add.commute diff_add_cancel)
    next
      case False
      with w show ?thesis by linarith
    qed
    with n f today [OF w] show ?thesis by blast
  next
    case None
    then have n: "next_funding_time m t = day + NS_PER_DAY + hd offs" by (simp add: next_funding_time_def day_def offs_def)
    have h: "0 \<le> hd offs" "hd offs < NS_PER_DAY" "hd offs \<in> set offs" using o(1) o(3) [of "hd offs"] by auto
    have "is_funding_time m (day + NS_PER_DAY + hd offs)"
      using is_funding_time_day [OF ok, of "day + NS_PER_DAY" "day + NS_PER_DAY + hd offs"] h d(1) by (simp add: offs_def)
    moreover have "day + NS_PER_DAY + hd offs \<le> u" if "t < u" "is_funding_time m u" for u
    proof (cases "u < day + NS_PER_DAY")
      case True
      then have "u - day \<in> set offs" using today [of u] that d(2) by simp
      from first_offset_None [OF None this] that(1) show ?thesis by simp
    next
      case False
      with later that(2) show ?thesis by simp
    qed
    moreover have "t < day + NS_PER_DAY + hd offs" using h(1) d(3) by linarith
    ultimately show ?thesis unfolding n by blast
  qed
  show "t < next_funding_time m t" "is_funding_time m (next_funding_time m t)"
    "t < u \<Longrightarrow> is_funding_time m u \<Longrightarrow> next_funding_time m t \<le> u"
    using res by blast+
qed

section \<open>Signs and monotonicity of the costs\<close>

lemma impact_nonneg: "cost_ok m \<Longrightarrow> 0 \<le> p_ref \<Longrightarrow> 0 \<le> impact cx m p_ref qty sigma v"
  by (auto simp: impact_def Let_def cost_ok_def dsqrt_nonneg intro!: dmul_nonneg)

lemma impact_mono:
  assumes "cost_ok m" and "0 \<le> p_ref" and "qty \<le> qty'"
  shows "impact cx m p_ref qty sigma v \<le> impact cx m p_ref qty' sigma v"
proof (cases "\<not> has_price_impact m \<or> qty \<le> 0 \<or> sigma \<le> 0")
  case True
  then have "impact cx m p_ref qty sigma v = 0" by (auto simp: impact_def)
  with impact_nonneg [OF assms(1,2)] show ?thesis by simp
next
  case False
  have part: "(if 0 < v then ddiv cx qty v else 1) \<le> (if 0 < v then ddiv cx qty' v else 1)"
    using assms(3) by (simp add: ddiv_mono)
  have "0 \<le> dmul cx (dmul cx (cm_k_s m) sigma) p_ref"
    using False assms by (auto simp: cost_ok_def intro!: dmul_nonneg)
  with dsqrt_mono [OF part, of cx] False assms(3) show ?thesis
    by (simp add: impact_def Let_def dmul_def dr.rnd_mono mult_left_mono)
qed

lemma half_spread_nonneg: "cost_ok m \<Longrightarrow> 0 \<le> qval tick \<Longrightarrow> 0 \<le> half_spread cx m tick"
  by (simp add: half_spread_def cost_ok_def ddiv_nonneg dmul_nonneg)

lemma fee_nonneg: "cost_ok m \<Longrightarrow> 0 \<le> fee cx m n lq"
  by (auto simp: fee_def fee_rate_def cost_ok_def intro!: dmul_nonneg)

lemma raw_price_adverse:
  assumes "0 \<le> hs" "0 \<le> imp" "repr cx p_ref"
  shows "p_ref \<le> raw_price cx LONG p_ref hs imp 0" and "raw_price cx SHORT p_ref hs imp 0 \<le> p_ref"
proof -
  let ?d = "dadd cx hs imp"
  have d: "0 \<le> ?d" "ctx_round cx ?d = ?d" using assms by (simp_all add: dadd_def dr.rnd_nonneg dr.rnd_idem)
  have r: "ctx_round cx p_ref = p_ref" using assms(3) by (simp add: repr_def)
  have "p_ref \<le> ctx_round cx (p_ref + ?d)" using d by (intro dr.rnd_ge [OF r]) simp
  then show "p_ref \<le> raw_price cx LONG p_ref hs imp 0"
    using d by (simp add: raw_price_def dmul_def dadd_def [of cx p_ref] dr.rnd_idem)
  have "ctx_round cx (p_ref - ?d) \<le> p_ref" using d by (intro dr.rnd_le [OF r]) simp
  then show "raw_price cx SHORT p_ref hs imp 0 \<le> p_ref"
    using d by (simp add: raw_price_def dmul_def dadd_def [of cx p_ref] dr.rnd_idem dr.rnd_minus)
qed

section \<open>Properties\<close>

text \<open>The schedule of funding: \<open>funding_times\<close> lists, strictly increasing, exactly the funding times of the half-open
  interval, and \<open>next_funding_time\<close> is the least one after its argument.\<close>
theorem funding_schedule:
  assumes "cost_ok m"
  shows "set (funding_times m a b) = {t. a < t \<and> t \<le> b \<and> is_funding_time m t} \<and> sorted_wrt (<) (funding_times m a b)
    \<and> a < next_funding_time m a \<and> is_funding_time m (next_funding_time m a)
    \<and> (\<forall>u. a < u \<longrightarrow> is_funding_time m u \<longrightarrow> next_funding_time m a \<le> u)"
  using funding_times_spec [OF assms, of a b] next_funding_time_least [OF assms, of a] by blast

definition ex_cost :: cost_model where
  "ex_cost = \<lparr>cm_mode = FULL, cm_k_s = 5/10, cm_taker = 4/10000, cm_maker = 2/10000, cm_spread_ticks = 1,
     cm_funding_hours = [0, 8, 16], cm_noise_bps = 0, cm_drawn = 0\<rparr>"

lemma ex_cost_ok: "cost_ok ex_cost"
  by (simp add: ex_cost_def cost_ok_def)

theorem funding_schedule_witness:
  "next_funding_time ex_cost 1 = 8 * NS_PER_HOUR \<and> is_funding_time ex_cost (8 * NS_PER_HOUR)"
  using funding_schedule [OF ex_cost_ok, of 1] by (simp add: ex_cost_def evals)

text \<open>Without noise an execution is never better than the reference price: a purchase costs at least the reference
  price, a sale brings at most it, the fee is not negative, and the impact grows with the quantity. No random
  number is consumed.\<close>
theorem execution_costs_adverse:
  assumes q: "quote cx zs m s p_ref qty sigma v tick = Inr (f, m')" and ok: "cost_ok m" and nz: "cm_noise_bps m = 0"
    and grid: "on_grid cx tick p_ref" and more: "qty \<le> qty'"
  shows "(s = LONG \<longrightarrow> p_ref \<le> fq_price f) \<and> (s = SHORT \<longrightarrow> fq_price f \<le> p_ref) \<and> m' = m
     \<and> impact cx m p_ref qty sigma v \<le> impact cx m p_ref qty' sigma v \<and> 0 \<le> fee cx m n lq"
proof -
  from q have pos: "0 < p_ref" and s: "s \<noteq> FLAT" by (auto simp: quote_def split: if_splits)
  have r: "repr cx p_ref" using grid by (rule on_grid_repr)
  have noise: "quote_noise cx zs m p_ref = (0, m)" by (simp add: quote_noise_def noise_scale_def nz)
  have price: "(s = LONG \<longrightarrow> p_ref \<le> fq_price f) \<and> (s = SHORT \<longrightarrow> fq_price f \<le> p_ref) \<and> m' = m"
  proof (cases "has_price_impact m")
    case False
    with q s pos have "quantize_price cx p_ref tick = Inr (fq_price f)" "m' = m"
      by (auto simp: quote_def rbind_Inr_iff)
    moreover from this(1) have "fq_price f = p_ref" unfolding quantize_price_def using grid by (rule quantize_step_grid)
    ultimately show ?thesis by simp
  next
    case True
    define raw where "raw = raw_price cx s p_ref (half_spread cx m tick) (impact cx m p_ref qty sigma v) 0"
    from q s pos True noise obtain qp where qp: "quantize_price cx raw tick = Inr qp"
      and f: "fq_price f = max qp (qval tick)" and m': "m' = m"
      by (auto simp: quote_def rbind_Inr_iff Let_def raw_def)
    have tick: "0 < qval tick" using quantize_step_InrD(1) qp by (auto simp: quantize_price_def)
    have nn: "0 \<le> half_spread cx m tick" "0 \<le> impact cx m p_ref qty sigma v"
      using ok tick pos by (simp_all add: half_spread_nonneg impact_nonneg)
    have ge: "qval tick \<le> p_ref"
    proof -
      obtain k where k: "p_ref = of_int k * qval tick" using grid by (auto simp: on_grid_def)
      with pos tick have "0 < k" by (simp add: zero_less_mult_iff)
      then have "1 * qval tick \<le> of_int k * qval tick" using tick by (intro mult_right_mono) simp_all
      with k show ?thesis by simp
    qed
    have "s = LONG \<longrightarrow> p_ref \<le> qp" "s = SHORT \<longrightarrow> qp \<le> p_ref"
      using raw_price_adverse [OF nn r] quantize_price_ge_grid [OF qp grid] by (auto simp: raw_def)
    with f m' ge show ?thesis by (auto simp: max_def)
  qed
  with impact_mono [OF ok _ more, of p_ref cx sigma v] pos fee_nonneg [OF ok] show ?thesis by simp
qed

theorem execution_costs_adverse_witness:
  "\<exists>f. quote Default_ctx (\<lambda>_. 0) ex_cost LONG 100 4 (1/100) 16 \<lparr>q_coef = 1, q_exp = - 2\<rparr> = Inr (f, ex_cost)
     \<and> 100 \<le> fq_price f \<and> 0 \<le> fee Default_ctx ex_cost 400 TAKER"
proof -
  have "dsqrt Default_ctx (1/2 * (1/2)) = 1/2" by (rule dsqrt_square) (simp_all add: ctx_eval)
  then have sq: "dsqrt Default_ctx (1/4) = 1/2" by simp
  have parts: "half_spread Default_ctx ex_cost \<lparr>q_coef = 1, q_exp = - 2\<rparr> = 1/200"
    "impact Default_ctx ex_cost 100 4 (1/100) 16 = 1/4" "quote_noise Default_ctx (\<lambda>_. 0) ex_cost 100 = (0, ex_cost)"
    "raw_price Default_ctx LONG 100 (1/200) (1/4) 0 = 20051/200"
    "quantize_price Default_ctx (20051/200) \<lparr>q_coef = 1, q_exp = - 2\<rparr> = Inr (5013/50)"
    "slippage_bps Default_ctx LONG (5013/50) 100 = Inr 26" "has_price_impact ex_cost" "qval \<lparr>q_coef = 1, q_exp = - 2\<rparr> = 1/100"
    by (simp_all add: ex_cost_def sq evals)
  have qu: "\<exists>f. quote Default_ctx (\<lambda>_. 0) ex_cost LONG 100 4 (1/100) 16 \<lparr>q_coef = 1, q_exp = - 2\<rparr> = Inr (f, ex_cost)"
    unfolding quote_def Let_def parts by (simp add: parts(4-7))
  then obtain f where q: "quote Default_ctx (\<lambda>_. 0) ex_cost LONG 100 4 (1/100) 16 \<lparr>q_coef = 1, q_exp = - 2\<rparr> = Inr (f, ex_cost)" ..
  have g: "on_grid Default_ctx \<lparr>q_coef = 1, q_exp = - 2\<rparr> (of_int 10000 * qval \<lparr>q_coef = 1, q_exp = - 2\<rparr>)"
    by (rule on_gridI) (simp_all add: evals)
  have g100: "on_grid Default_ctx \<lparr>q_coef = 1, q_exp = - 2\<rparr> 100" using g by (simp add: evals)
  have n: "cm_noise_bps ex_cost = 0" by (simp add: ex_cost_def)
  from execution_costs_adverse [OF q ex_cost_ok n g100 order_refl] q show ?thesis by blast
qed

end
