(* ===== verification/Portfolio.thy ===== *)
theory Portfolio
  imports CostModel
begin

text \<open>
  \<^verbatim>\<open>execution/portfolio.py\<close>: the account of perpetual contracts. Positions are a dictionary in the
  order of their first event; a fill opens, adds to, reduces, closes or flips a position. Every
  decimal operation is that of the code, in its order; the accounting identity is proved for steps
  whose additions fit the context.
\<close>

section \<open>Positions and closedosed trades\<close>

record position =
  ps_instrument :: string
  ps_qty :: dec
  ps_cost_basis :: dec
  ps_realized_pnl :: dec
  ps_funding_paid :: dec
  ps_fees_paid :: dec
  ps_opened_at_ns :: "int option"
  ps_max_adverse_excursion :: dec
  ps_t_side :: side
  ps_t_max_qty :: dec
  ps_t_realized :: dec
  ps_t_fees :: dec
  ps_t_funding :: dec
  ps_t_entry_notional :: dec
  ps_t_entry_qty :: dec
  ps_t_exit_notional :: dec
  ps_t_exit_qty :: dec

definition new_position :: "string \<Rightarrow> position" where
  "new_position i = \<lparr>ps_instrument = i, ps_qty = 0, ps_cost_basis = 0, ps_realized_pnl = 0, ps_funding_paid = 0,
     ps_fees_paid = 0, ps_opened_at_ns = None, ps_max_adverse_excursion = 0, ps_t_side = FLAT, ps_t_max_qty = 0,
     ps_t_realized = 0, ps_t_fees = 0, ps_t_funding = 0, ps_t_entry_notional = 0, ps_t_entry_qty = 0,
     ps_t_exit_notional = 0, ps_t_exit_qty = 0\<rparr>"

definition ps_side :: "position \<Rightarrow> side" where
  "ps_side p = side_of_sign (sign_of (ps_qty p))"

definition avg_entry :: "dctx \<Rightarrow> position \<Rightarrow> dec option" where
  "avg_entry cx p = (if ps_qty p = 0 then None else Some (ddiv cx (ps_cost_basis p) (ps_qty p)))"

definition ps_unrealized :: "dctx \<Rightarrow> position \<Rightarrow> dec \<Rightarrow> dec" where
  "ps_unrealized cx p mark = dsub cx (dmul cx (ps_qty p) mark) (ps_cost_basis p)"

record closed_trade =
  ct_instrument :: string
  ct_side :: side
  ct_qty :: dec
  ct_entry_price :: dec
  ct_exit_price :: dec
  ct_gross_pnl :: dec
  ct_fees :: dec
  ct_funding :: dec
  ct_pnl :: dec
  ct_entry_notional :: dec
  ct_exit_notional :: dec
  ct_opened_at_ns :: int
  ct_closed_at_ns :: int
  ct_exit_reason :: "exit_reason option"
  ct_max_adverse_excursion :: dec

definition start_trade :: "position \<Rightarrow> side \<Rightarrow> int \<Rightarrow> position" where
  "start_trade p s ts = p\<lparr>ps_opened_at_ns := Some ts, ps_max_adverse_excursion := 0, ps_t_side := s, ps_t_max_qty := 0,
     ps_t_realized := 0, ps_t_fees := 0, ps_t_funding := 0, ps_t_entry_notional := 0, ps_t_entry_qty := 0,
     ps_t_exit_notional := 0, ps_t_exit_qty := 0\<rparr>"

definition closed_trade_of :: "dctx \<Rightarrow> position \<Rightarrow> int \<Rightarrow> exit_reason option \<Rightarrow> closed_trade" where
  "closed_trade_of cx p ts reason = \<lparr>ct_instrument = ps_instrument p, ct_side = ps_t_side p, ct_qty = ps_t_max_qty p,
     ct_entry_price = (if 0 < ps_t_entry_qty p then ddiv cx (ps_t_entry_notional p) (ps_t_entry_qty p) else 0),
     ct_exit_price = (if 0 < ps_t_exit_qty p then ddiv cx (ps_t_exit_notional p) (ps_t_exit_qty p) else 0),
     ct_gross_pnl = ps_t_realized p, ct_fees = ps_t_fees p, ct_funding = ps_t_funding p,
     ct_pnl = dsub cx (dsub cx (ps_t_realized p) (ps_t_fees p)) (ps_t_funding p),
     ct_entry_notional = ps_t_entry_notional p, ct_exit_notional = ps_t_exit_notional p,
     ct_opened_at_ns = (case ps_opened_at_ns p of Some t \<Rightarrow> t | None \<Rightarrow> ts), ct_closed_at_ns = ts,
     ct_exit_reason = reason, ct_max_adverse_excursion = ps_max_adverse_excursion p\<rparr>"

text \<open>\<^verbatim>\<open>_finish_trade\<close>: the trade goes to the journal of the portfolio, the position is free again.\<close>

definition finish_trade :: "dctx \<Rightarrow> position \<Rightarrow> int \<Rightarrow> exit_reason option \<Rightarrow> position \<times> closed_trade" where
  "finish_trade cx p ts reason = (p\<lparr>ps_opened_at_ns := None, ps_t_side := FLAT\<rparr>, closed_trade_of cx p ts reason)"

section \<open>The account\<close>

record portfolio =
  pf_initial :: dec
  pf_cash :: dec
  pf_fees_paid :: dec
  pf_funding_paid :: dec
  pf_realized_pnl :: dec
  pf_traded_notional :: dec
  pf_n_fills :: nat
  pf_positions :: "(string, position) dict"
  pf_marks :: "(string, dec) dict"
  pf_closed_trades :: "closed_trade list"

definition portfolio_init :: "dec \<Rightarrow> portfolio result" where
  "portfolio_init cash = (if cash < 0 then Inl ValueError
     else Inr \<lparr>pf_initial = cash, pf_cash = cash, pf_fees_paid = 0, pf_funding_paid = 0, pf_realized_pnl = 0,
       pf_traded_notional = 0, pf_n_fills = 0, pf_positions = [], pf_marks = [], pf_closed_trades = []\<rparr>)"

definition position_of :: "portfolio \<Rightarrow> string \<Rightarrow> position" where
  "position_of p i = (case dget (pf_positions p) i of Some x \<Rightarrow> x | None \<Rightarrow> new_position i)"

text \<open>The part of \<^verbatim>\<open>apply_fill\<close> that opens a position or adds to it; \<open>pos\<close> already carries the fee.\<close>

definition fill_increase :: "dctx \<Rightarrow> position \<Rightarrow> int \<Rightarrow> dec \<Rightarrow> dec \<Rightarrow> dec \<Rightarrow> int \<Rightarrow> position" where
  "fill_increase cx pos sg qty price fe ts =
     (let q = ps_qty pos;
          dq = dmul cx (of_int sg) qty;
          p0 = (if q = 0 then start_trade pos (side_of_sign sg) ts else pos);
          qty' = dadd cx q dq
      in p0\<lparr>ps_cost_basis := dadd cx (ps_cost_basis p0) (dmul cx dq price), ps_qty := qty',
            ps_t_fees := dadd cx (ps_t_fees p0) fe,
            ps_t_entry_notional := dadd cx (ps_t_entry_notional p0) (dmul cx qty price),
            ps_t_entry_qty := dadd cx (ps_t_entry_qty p0) qty,
            ps_t_max_qty := max (ps_t_max_qty p0) (dabs cx qty')\<rparr>)"

text \<open>The quantities of the other branch.\<close>

definition closed_qty :: "dctx \<Rightarrow> position \<Rightarrow> dec \<Rightarrow> dec" where
  "closed_qty cx pos qty = min qty (dabs cx (ps_qty pos))"

definition cost_removed :: "dctx \<Rightarrow> position \<Rightarrow> dec \<Rightarrow> dec" where
  "cost_removed cx pos cl =
     (let abs_q = dabs cx (ps_qty pos) in
      if cl = abs_q then ps_cost_basis pos else ddiv cx (dmul cx (ps_cost_basis pos) cl) abs_q)"

definition fill_pnl :: "dctx \<Rightarrow> position \<Rightarrow> dec \<Rightarrow> dec \<Rightarrow> dec" where
  "fill_pnl cx pos cl price =
     dsub cx (dmul cx (dmul cx (of_int (sign_of (ps_qty pos))) cl) price) (cost_removed cx pos cl)"

definition fee_close :: "dctx \<Rightarrow> dec \<Rightarrow> dec \<Rightarrow> dec \<Rightarrow> dec" where
  "fee_close cx fe cl qty = (if cl = qty then fe else ddiv cx (dmul cx fe cl) qty)"

definition fill_reduce :: "dctx \<Rightarrow> position \<Rightarrow> int \<Rightarrow> dec \<Rightarrow> dec \<Rightarrow> dec \<Rightarrow> int \<Rightarrow> exit_reason option
    \<Rightarrow> position \<times> closed_trade list" where
  "fill_reduce cx pos sg qty price fe ts reason =
     (let cl = closed_qty cx pos qty;
          removed = cost_removed cx pos cl;
          pnl = fill_pnl cx pos cl price;
          fee_c = fee_close cx fe cl qty;
          p1 = pos\<lparr>ps_realized_pnl := dadd cx (ps_realized_pnl pos) pnl,
                   ps_cost_basis := dsub cx (ps_cost_basis pos) removed,
                   ps_qty := dadd cx (ps_qty pos) (dmul cx (of_int sg) cl),
                   ps_t_realized := dadd cx (ps_t_realized pos) pnl,
                   ps_t_fees := dadd cx (ps_t_fees pos) fee_c,
                   ps_t_exit_notional := dadd cx (ps_t_exit_notional pos) (dmul cx cl price),
                   ps_t_exit_qty := dadd cx (ps_t_exit_qty pos) cl\<rparr>;
          (p2, out) = (if ps_qty p1 = 0
                       then let (p, t) = finish_trade cx (p1\<lparr>ps_cost_basis := 0\<rparr>) ts reason in (p, [t])
                       else (p1, []));
          remainder = dsub cx qty cl;
          p3 = (if 0 < remainder
                then let p = start_trade p2 (side_of_sign sg) ts in
                     p\<lparr>ps_cost_basis := dmul cx (dmul cx (of_int sg) remainder) price,
                       ps_qty := dmul cx (of_int sg) remainder,
                       ps_t_fees := dadd cx (ps_t_fees p) (dsub cx fe fee_c),
                       ps_t_entry_notional := dadd cx (ps_t_entry_notional p) (dmul cx remainder price),
                       ps_t_entry_qty := dadd cx (ps_t_entry_qty p) remainder,
                       ps_t_max_qty := remainder\<rparr>
                else p2)
      in (p3, out))"

definition increases :: "position \<Rightarrow> int \<Rightarrow> bool" where
  "increases pos sg \<longleftrightarrow> ps_qty pos = 0 \<or> sign_of (ps_qty pos) = sg"

definition apply_fill :: "dctx \<Rightarrow> portfolio \<Rightarrow> fill \<Rightarrow> exit_reason option \<Rightarrow> (portfolio \<times> closed_trade list) result" where
  "apply_fill cx p f reason =
     (let i = fl_instrument f; price = fl_price f; sg = side_int (fl_side f) in
      if sg = 0 then Inl ValueError
      else let qty = fl_qty f; dq = dmul cx (of_int sg) qty; fe = fl_fee f;
               pos = (position_of p i)\<lparr>ps_fees_paid := dadd cx (ps_fees_paid (position_of p i)) fe\<rparr>;
               p1 = p\<lparr>pf_cash := dsub cx (pf_cash p) (dmul cx dq price), pf_fees_paid := dadd cx (pf_fees_paid p) fe,
                      pf_traded_notional := dadd cx (pf_traded_notional p) (dmul cx qty price),
                      pf_n_fills := pf_n_fills p + 1,
                      pf_marks := (if dget (pf_marks p) i = None then dset (pf_marks p) i price else pf_marks p)\<rparr>
           in if increases pos sg
              then Inr (p1\<lparr>pf_positions := dset (pf_positions p) i (fill_increase cx pos sg qty price fe (fl_ts_fill_ns f))\<rparr>, [])
              else let (pos', out) = fill_reduce cx pos sg qty price fe (fl_ts_fill_ns f) reason
                   in Inr (p1\<lparr>pf_realized_pnl := dadd cx (pf_realized_pnl p) (fill_pnl cx pos (closed_qty cx pos qty) price),
                             pf_positions := dset (pf_positions p) i pos', pf_closed_trades := pf_closed_trades p @ out\<rparr>, out))"

definition apply_funding :: "dctx \<Rightarrow> portfolio \<Rightarrow> funding_charge \<Rightarrow> portfolio" where
  "apply_funding cx p ch =
     (let i = fc_instrument ch; amount = fc_amount ch; pos = position_of p i in
      p\<lparr>pf_cash := dsub cx (pf_cash p) amount, pf_funding_paid := dadd cx (pf_funding_paid p) amount,
        pf_positions := dset (pf_positions p) i
          (pos\<lparr>ps_funding_paid := dadd cx (ps_funding_paid pos) amount, ps_t_funding := dadd cx (ps_t_funding pos) amount\<rparr>)\<rparr>)"

section \<open>Valuation\<close>

definition mark_of :: "portfolio \<Rightarrow> string \<Rightarrow> dec result" where
  "mark_of p i = (case dget (pf_marks p) i of Some m \<Rightarrow> Inr m | None \<Rightarrow> Inl KeyError)"

text \<open>A sum over the open positions, in the order of the dictionary.\<close>

fun sum_open :: "dctx \<Rightarrow> portfolio \<Rightarrow> (position \<Rightarrow> dec \<Rightarrow> dec) \<Rightarrow> (string, position) dict \<Rightarrow> dec \<Rightarrow> dec result" where
  "sum_open cx p g [] tot = Inr tot"
| "sum_open cx p g ((i, pos) # rest) tot =
     (if ps_qty pos \<noteq> 0 then rbind (mark_of p i) (\<lambda>m. sum_open cx p g rest (dadd cx tot (g pos m)))
      else sum_open cx p g rest tot)"

definition wallet_balance :: "dctx \<Rightarrow> portfolio \<Rightarrow> dec" where
  "wallet_balance cx p = dsub cx (dsub cx (dadd cx (pf_initial p) (pf_realized_pnl p)) (pf_fees_paid p)) (pf_funding_paid p)"

definition unrealized_pnl :: "dctx \<Rightarrow> portfolio \<Rightarrow> dec result" where
  "unrealized_pnl cx p = sum_open cx p (ps_unrealized cx) (pf_positions p) 0"

definition equity :: "dctx \<Rightarrow> portfolio \<Rightarrow> dec result" where
  "equity cx p = rbind (unrealized_pnl cx p) (\<lambda>u. Inr (dadd cx (wallet_balance cx p) u))"

definition equity_cash_form :: "dctx \<Rightarrow> portfolio \<Rightarrow> dec result" where
  "equity_cash_form cx p = rbind (sum_open cx p (\<lambda>pos m. dmul cx (ps_qty pos) m) (pf_positions p) 0) (\<lambda>h.
     Inr (dsub cx (dadd cx (pf_cash p) h) (pf_fees_paid p)))"

definition identity_residual :: "dctx \<Rightarrow> portfolio \<Rightarrow> dec result" where
  "identity_residual cx p = rbind (equity_cash_form cx p) (\<lambda>a. rbind (equity cx p) (\<lambda>b. Inr (dsub cx a b)))"

definition gross_exposure :: "dctx \<Rightarrow> portfolio \<Rightarrow> dec result" where
  "gross_exposure cx p = sum_open cx p (\<lambda>pos m. dmul cx (dabs cx (ps_qty pos)) m) (pf_positions p) 0"

definition net_exposure :: "dctx \<Rightarrow> portfolio \<Rightarrow> dec result" where
  "net_exposure cx p = sum_open cx p (\<lambda>pos m. dmul cx (ps_qty pos) m) (pf_positions p) 0"

definition pf_leverage :: "dctx \<Rightarrow> portfolio \<Rightarrow> dec option result" where
  "pf_leverage cx p = rbind (equity cx p) (\<lambda>eq.
     if eq \<le> 0 then Inr None else rbind (gross_exposure cx p) (\<lambda>g. Inr (Some (ddiv cx g eq))))"

definition position_qty :: "portfolio \<Rightarrow> string \<Rightarrow> dec" where
  "position_qty p i = (case dget (pf_positions p) i of None \<Rightarrow> 0 | Some pos \<Rightarrow> ps_qty pos)"

text \<open>\<^verbatim>\<open>mark\<close>: the prices before a bad one stay applied when it raises.\<close>

definition mark_one :: "dctx \<Rightarrow> portfolio \<Rightarrow> string \<Rightarrow> dec \<Rightarrow> portfolio" where
  "mark_one cx p i x =
     (let p1 = p\<lparr>pf_marks := dset (pf_marks p) i x\<rparr> in
      case dget (pf_positions p) i of
        None \<Rightarrow> p1
      | Some pos \<Rightarrow> if ps_qty pos = 0 then p1
          else p1\<lparr>pf_positions := dset (pf_positions p) i (pos\<lparr>ps_max_adverse_excursion :=
                 min (ps_max_adverse_excursion pos) (ps_unrealized cx pos x)\<rparr>)\<rparr>)"

fun mark_loop :: "dctx \<Rightarrow> portfolio \<Rightarrow> (string, dec) dict \<Rightarrow> portfolio \<times> unit result" where
  "mark_loop cx p [] = (p, Inr ())"
| "mark_loop cx p ((i, x) # rest) = (if x \<le> 0 then (p, Inl ValueError) else mark_loop cx (mark_one cx p i x) rest)"

definition pf_mark :: "dctx \<Rightarrow> portfolio \<Rightarrow> (string, dec) dict \<Rightarrow> portfolio \<times> dec result" where
  "pf_mark cx p prices = (case mark_loop cx p prices of
     (p', Inl e) \<Rightarrow> (p', Inl e)
   | (p', Inr _) \<Rightarrow> (p', equity cx p'))"

record portfolio_snapshot =
  sn_ts_ns :: int
  sn_equity :: dec
  sn_cash :: dec
  sn_wallet_balance :: dec
  sn_unrealized :: dec
  sn_gross_exposure :: dec
  sn_net_exposure :: dec
  sn_leverage :: "dec option"
  sn_fees_paid :: dec
  sn_funding_paid :: dec
  sn_realized_pnl :: dec

definition pf_snapshot :: "dctx \<Rightarrow> portfolio \<Rightarrow> int \<Rightarrow> portfolio_snapshot result" where
  "pf_snapshot cx p ts =
     rbind (equity cx p) (\<lambda>eq. rbind (unrealized_pnl cx p) (\<lambda>u. rbind (gross_exposure cx p) (\<lambda>g.
     rbind (net_exposure cx p) (\<lambda>n. rbind (pf_leverage cx p) (\<lambda>l.
       Inr \<lparr>sn_ts_ns = ts, sn_equity = eq, sn_cash = pf_cash p, sn_wallet_balance = wallet_balance cx p,
            sn_unrealized = u, sn_gross_exposure = g, sn_net_exposure = n, sn_leverage = l,
            sn_fees_paid = pf_fees_paid p, sn_funding_paid = pf_funding_paid p, sn_realized_pnl = pf_realized_pnl p\<rparr>)))))"

lemmas portfolio_eval [evals] = new_position_def ps_side_def avg_entry_def ps_unrealized_def start_trade_def
  closed_trade_of_def finish_trade_def portfolio_init_def position_of_def fill_increase_def closed_qty_def
  cost_removed_def fill_pnl_def fee_close_def fill_reduce_def increases_def apply_fill_def apply_funding_def
  mark_of_def wallet_balance_def unrealized_pnl_def equity_def equity_cash_form_def identity_residual_def
  gross_exposure_def net_exposure_def pf_leverage_def position_qty_def mark_one_def pf_mark_def pf_snapshot_def

section \<open>Exact steps and their runs\<close>

text \<open>
  A fill is exact when the sums it forms for cash, cost, realised profit and quantity need no rounding; the
  products and quotients may be rounded, because each enters cash and the cost basis as the same number. A
  flip splits the value of the fill in two, so there the products must be exact as well.
\<close>

definition increase_exact :: "dctx \<Rightarrow> position \<Rightarrow> dec \<Rightarrow> dec \<Rightarrow> bool" where
  "increase_exact cx pos dq price \<longleftrightarrow>
     repr cx (ps_cost_basis pos + dmul cx dq price) \<and> repr cx (ps_qty pos + dq)"

definition reduce_exact :: "dctx \<Rightarrow> portfolio \<Rightarrow> position \<Rightarrow> int \<Rightarrow> dec \<Rightarrow> dec \<Rightarrow> bool" where
  "reduce_exact cx p pos sg qty price \<longleftrightarrow>
     (let cl = closed_qty cx pos qty; removed = cost_removed cx pos cl;
          gain = dmul cx (dmul cx (of_int (sign_of (ps_qty pos))) cl) price in
      repr cx (gain - removed) \<and> repr cx (pf_realized_pnl p + (gain - removed)) \<and>
      repr cx (ps_cost_basis pos - removed) \<and> repr cx (ps_qty pos + of_int sg * cl) \<and>
      (cl < qty \<longrightarrow> repr cx (qty - cl) \<and> repr cx (qty * price) \<and> repr cx (cl * price) \<and> repr cx ((qty - cl) * price)))"

definition fill_exact :: "dctx \<Rightarrow> portfolio \<Rightarrow> fill \<Rightarrow> bool" where
  "fill_exact cx p f \<longleftrightarrow>
     (let pos = position_of p (fl_instrument f); sg = side_int (fl_side f); qty = fl_qty f; price = fl_price f in
      0 < qty \<and> repr cx qty \<and> repr cx (pf_cash p - dmul cx (of_int sg * qty) price) \<and>
      repr cx (pf_fees_paid p + fl_fee f) \<and>
      (if increases pos sg then increase_exact cx pos (of_int sg * qty) price
       else reduce_exact cx p pos sg qty price))"

definition funding_exact :: "dctx \<Rightarrow> portfolio \<Rightarrow> funding_charge \<Rightarrow> bool" where
  "funding_exact cx p ch \<longleftrightarrow> repr cx (pf_cash p - fc_amount ch) \<and> repr cx (pf_funding_paid p + fc_amount ch)"

datatype pf_event = Filled fill "exit_reason option" | Charged funding_charge | Marked "(string, dec) dict"

text \<open>The accounts reached from the initial deposit by exact steps, with the events behind them.\<close>

inductive pf_run :: "dctx \<Rightarrow> dec \<Rightarrow> pf_event list \<Rightarrow> portfolio \<Rightarrow> bool" for cx c0 where
  start: "portfolio_init c0 = Inr p \<Longrightarrow> pf_run cx c0 [] p"
| filled: "pf_run cx c0 es p \<Longrightarrow> fill_exact cx p f \<Longrightarrow> apply_fill cx p f r = Inr (p', out)
    \<Longrightarrow> pf_run cx c0 (es @ [Filled f r]) p'"
| charged: "pf_run cx c0 es p \<Longrightarrow> funding_exact cx p ch \<Longrightarrow> pf_run cx c0 (es @ [Charged ch]) (apply_funding cx p ch)"
| marked: "pf_run cx c0 es p \<Longrightarrow> pf_mark cx p prices = (p', r) \<Longrightarrow> pf_run cx c0 (es @ [Marked prices]) p'"

text \<open>What the events say of the account: the net quantity of an instrument, the cash flow, the fees.\<close>

fun event_qty :: "string \<Rightarrow> pf_event \<Rightarrow> dec" where
  "event_qty i (Filled f r) = (if fl_instrument f = i then of_int (side_int (fl_side f)) * fl_qty f else 0)"
| "event_qty i _ = 0"

fun event_cash :: "dctx \<Rightarrow> pf_event \<Rightarrow> dec" where
  "event_cash cx (Filled f r) = - dmul cx (of_int (side_int (fl_side f)) * fl_qty f) (fl_price f)"
| "event_cash cx (Charged ch) = - fc_amount ch"
| "event_cash cx (Marked prices) = 0"

fun event_fee :: "pf_event \<Rightarrow> dec" where
  "event_fee (Filled f r) = fl_fee f"
| "event_fee _ = 0"

definition total_cost :: "portfolio \<Rightarrow> dec" where
  "total_cost p = sum_list (map (ps_cost_basis \<circ> snd) (pf_positions p))"

definition position_ok :: "dctx \<Rightarrow> position \<Rightarrow> bool" where
  "position_ok cx x \<longleftrightarrow> repr cx (ps_qty x) \<and> repr cx (ps_cost_basis x) \<and> (ps_qty x = 0 \<longrightarrow> ps_cost_basis x = 0)"

definition pf_inv :: "dctx \<Rightarrow> portfolio \<Rightarrow> bool" where
  "pf_inv cx p \<longleftrightarrow> dict_ok (pf_positions p) \<and> (\<forall>x \<in> snd ` set (pf_positions p). position_ok cx x)
     \<and> pf_cash p + total_cost p = pf_initial p + pf_realized_pnl p - pf_funding_paid p"

section \<open>Lemmas\<close>

lemma sum_dset:
  assumes "dict_ok d"
  shows "sum_list (map (g \<circ> snd) (dset d k v)) =
    sum_list (map (g \<circ> snd) d) - (case dget d k of None \<Rightarrow> 0 | Some w \<Rightarrow> g w) + (g v :: rat)"
  using assms by (induction d) (auto simp: dict_ok_def)

lemma total_cost_dset:
  assumes "dict_ok (pf_positions p)"
  shows "sum_list (map (ps_cost_basis \<circ> snd) (dset (pf_positions p) i x))
    = total_cost p - ps_cost_basis (position_of p i) + ps_cost_basis x"
  using sum_dset [OF assms, of ps_cost_basis i x]
  by (simp add: total_cost_def position_of_def new_position_def split: option.splits)

lemma position_ok_new [simp]: "position_ok cx (new_position i)"
  by (simp add: position_ok_def new_position_def)

lemma position_ok_of: "\<forall>x \<in> snd ` set (pf_positions p). position_ok cx x \<Longrightarrow> position_ok cx (position_of p i)"
  by (force simp: position_of_def split: option.splits dest: dget_in_set)

lemma positions_ok_dset:
  assumes "\<forall>x \<in> snd ` set d. position_ok cx x" "position_ok cx v" "dict_ok d"
  shows "\<forall>x \<in> snd ` set (dset d k v). position_ok cx x"
proof
  fix x assume "x \<in> snd ` set (dset d k v)"
  then obtain j where j: "(j, x) \<in> set (dset d k v)" by auto
  have "dict_ok (dset d k v)" using assms(3) by (rule dict_ok_dset)
  from dict_ok_dget [OF this j] have "(if j = k then Some v else dget d j) = Some x" by simp
  then have "x = v \<or> (j, x) \<in> set d" by (auto split: if_splits dest: dget_in_set)
  then show "position_ok cx x" using assms(1,2) by (auto intro: rev_image_eqI)
qed

lemma signed_repr: "sg \<in> {- 1, 1} \<Longrightarrow> repr cx q \<Longrightarrow> dmul cx (of_int sg) q = of_int sg * q"
  by (auto simp: dmul_def) (auto simp: repr_def dr.rnd_minus)

lemma repr_signed: "sg \<in> {- 1, 1} \<Longrightarrow> repr cx (of_int sg * x) \<longleftrightarrow> repr cx x"
  by auto

lemma dadd_repr: "repr cx (x + y) \<Longrightarrow> dadd cx x y = x + y"
  by (simp add: dadd_def repr_def)

lemma dsub_repr: "repr cx (x - y) \<Longrightarrow> dsub cx x y = x - y"
  by (simp add: dsub_def repr_def)

lemma dmul_repr: "repr cx (x * y) \<Longrightarrow> dmul cx x y = x * y"
  by (simp add: dmul_def repr_def)

lemma side_int_cases: "side_int s \<noteq> 0 \<Longrightarrow> side_int s \<in> {- 1, 1}"
  by (cases s) auto

lemma increases_iff: "sg \<in> {- 1, 1} \<Longrightarrow> increases pos sg \<longleftrightarrow> 0 \<le> of_int sg * ps_qty pos"
  by (auto simp: increases_def sign_of_def)

lemma fill_increase_facts:
  assumes sg: "sg \<in> {- 1, 1}" and qty: "0 < qty" "repr cx qty" and inc: "increases pos sg"
    and ex: "increase_exact cx pos (of_int sg * qty) price"
  shows "ps_qty (fill_increase cx pos sg qty price fe ts) = ps_qty pos + of_int sg * qty"
    and "ps_cost_basis (fill_increase cx pos sg qty price fe ts) = ps_cost_basis pos + dmul cx (of_int sg * qty) price"
    and "position_ok cx (fill_increase cx pos sg qty price fe ts)"
proof -
  let ?p = "fill_increase cx pos sg qty price fe ts"
  show q: "ps_qty ?p = ps_qty pos + of_int sg * qty"
    using ex by (simp add: fill_increase_def Let_def signed_repr [OF sg qty(2)] dadd_repr increase_exact_def)
  show c: "ps_cost_basis ?p = ps_cost_basis pos + dmul cx (of_int sg * qty) price"
    using ex by (simp add: fill_increase_def Let_def signed_repr [OF sg qty(2)] dadd_repr increase_exact_def start_trade_def)
  have "ps_qty ?p \<noteq> 0" using sg qty(1) inc by (auto simp: q increases_iff [OF sg])
  then show "position_ok cx ?p" using ex by (simp add: position_ok_def q c increase_exact_def)
qed

text \<open>The three ways to leave the branch that reduces: partly closed, closed, flipped.\<close>

lemma closed_qty_eq: "position_ok cx pos \<Longrightarrow> closed_qty cx pos qty = min qty \<bar>ps_qty pos\<bar>"
  by (simp add: closed_qty_def position_ok_def dabs_repr)

lemma fill_reduce_facts:
  assumes sg: "sg \<in> {- 1, 1}" and qty: "0 < qty" "repr cx qty" and dec: "\<not> increases pos sg" and ok: "position_ok cx pos"
    and ex: "reduce_exact cx p pos sg qty price" and run: "fill_reduce cx pos sg qty price fe ts reason = (pos', out)"
  shows "ps_qty pos' = ps_qty pos + of_int sg * qty"
    and "ps_cost_basis pos' = ps_cost_basis pos + dmul cx (of_int sg * qty) price + fill_pnl cx pos (closed_qty cx pos qty) price"
    and "position_ok cx pos'"
proof -
  let ?q = "ps_qty pos" and ?cl = "closed_qty cx pos qty"
  have opp: "of_int sg * ?q < 0" using dec by (simp add: increases_iff [OF sg] not_le)
  then have sq: "sign_of ?q = - sg" and absq: "\<bar>?q\<bar> = - of_int sg * ?q" and q0: "?q \<noteq> 0"
    using sg by (auto simp: sign_of_def)
  have rq: "repr cx ?q" using ok by (simp add: position_ok_def)
  have cl: "?cl = min qty \<bar>?q\<bar>" by (rule closed_qty_eq [OF ok])
  have rcl: "repr cx ?cl" using qty(2) rq by (simp add: cl min_def)
  have pnl: "fill_pnl cx pos ?cl price = dmul cx (- of_int sg * ?cl) price - cost_removed cx pos ?cl"
  proof -
    have "dmul cx (- of_int sg) ?cl = - of_int sg * ?cl" using signed_repr [of "- sg" cx ?cl] sg rcl by auto
    then show ?thesis using ex by (simp add: fill_pnl_def sq reduce_exact_def Let_def dsub_repr)
  qed
  have neg: "dmul cx (- of_int sg * x) price = - dmul cx (of_int sg * x) price" for x
    by (simp add: dmul_def dr.rnd_minus)
  have q1: "dadd cx ?q (dmul cx (of_int sg) ?cl) = ?q + of_int sg * ?cl"
    using ex by (simp add: signed_repr [OF sg rcl] dadd_repr reduce_exact_def Let_def)
  have c1: "dsub cx (ps_cost_basis pos) (cost_removed cx pos ?cl) = ps_cost_basis pos - cost_removed cx pos ?cl"
    using ex by (simp add: dsub_repr reduce_exact_def Let_def)
  have r1: "repr cx (?q + of_int sg * ?cl)" "repr cx (ps_cost_basis pos - cost_removed cx pos ?cl)"
    using ex by (simp_all add: reduce_exact_def Let_def)
  consider (part) "qty < \<bar>?q\<bar>" | (all) "qty = \<bar>?q\<bar>" | (flip) "\<bar>?q\<bar> < qty" by linarith
  then have "ps_qty pos' = ?q + of_int sg * qty
    \<and> ps_cost_basis pos' = ps_cost_basis pos + dmul cx (of_int sg * qty) price + fill_pnl cx pos ?cl price
    \<and> position_ok cx pos'"
  proof cases
    case part
    then have c: "?cl = qty" by (simp add: cl)
    have nz: "?q + of_int sg * qty \<noteq> 0" using part sg by (auto simp: absq)
    from run have "ps_qty pos' = ?q + of_int sg * qty" "ps_cost_basis pos' = ps_cost_basis pos - cost_removed cx pos qty"
      using q1 c1 nz by (auto simp: fill_reduce_def Let_def c dsub_def split: prod.splits)
    with pnl neg nz r1 show ?thesis by (simp add: c position_ok_def)
  next
    case all
    have c: "?cl = qty" using cl all by simp
    have z: "?q + of_int sg * qty = 0" using all sg by (auto simp: absq)
    have rem: "cost_removed cx pos qty = ps_cost_basis pos" using all rq by (simp add: cost_removed_def Let_def dabs_repr)
    from run have "ps_qty pos' = 0" "ps_cost_basis pos' = 0"
      using q1 z by (auto simp: fill_reduce_def Let_def c dsub_def finish_trade_def split: prod.splits)
    with pnl neg z rem show ?thesis by (simp add: c position_ok_def)
  next
    case flip
    then have c: "?cl = \<bar>?q\<bar>" by (simp add: cl)
    have z: "?q + of_int sg * \<bar>?q\<bar> = 0" using sg by (auto simp: absq)
    have rem: "cost_removed cx pos \<bar>?q\<bar> = ps_cost_basis pos" using rq by (simp add: cost_removed_def Let_def dabs_repr)
    have exs: "repr cx (qty - \<bar>?q\<bar>)" "repr cx (qty * price)" "repr cx (\<bar>?q\<bar> * price)" "repr cx ((qty - \<bar>?q\<bar>) * price)"
      using ex flip by (simp_all add: reduce_exact_def Let_def c)
    have d: "dsub cx qty \<bar>?q\<bar> = qty - \<bar>?q\<bar>" using exs(1) by (rule dsub_repr)
    have m: "dmul cx (of_int sg * x) price = of_int sg * (x * price)" if "repr cx (x * price)" for x
      using sg that by (auto simp: dmul_def repr_def dr.rnd_minus)
    have res: "ps_qty pos' = of_int sg * (qty - \<bar>?q\<bar>)" "ps_cost_basis pos' = of_int sg * ((qty - \<bar>?q\<bar>) * price)"
      using run q1 z flip d signed_repr [OF sg exs(1)] m [OF exs(4)]
      by (auto simp: fill_reduce_def Let_def c finish_trade_def start_trade_def)
    have gain: "fill_pnl cx pos ?cl price = - (of_int sg * (\<bar>?q\<bar> * price)) - ps_cost_basis pos"
      using pnl neg m [OF exs(3)] by (simp add: c rem)
    have "position_ok cx pos'"
      using sg flip by (simp only: position_ok_def res repr_signed [OF sg] exs) auto
    moreover have "?q + of_int sg * qty = of_int sg * (qty - \<bar>?q\<bar>)" using z by (simp add: algebra_simps)
    ultimately show ?thesis using m [OF exs(2)] by (simp add: res gain) (simp add: algebra_simps)
  qed
  then show "ps_qty pos' = ps_qty pos + of_int sg * qty"
    and "ps_cost_basis pos' = ps_cost_basis pos + dmul cx (of_int sg * qty) price + fill_pnl cx pos (closed_qty cx pos qty) price"
    and "position_ok cx pos'" by simp_all
qed

text \<open>The two branches of \<^verbatim>\<open>apply_fill\<close> in one equation each, and what the whole operation does to the account.\<close>

definition fee_added :: "dctx \<Rightarrow> portfolio \<Rightarrow> fill \<Rightarrow> position" where
  "fee_added cx p f = (position_of p (fl_instrument f))
     \<lparr>ps_fees_paid := dadd cx (ps_fees_paid (position_of p (fl_instrument f))) (fl_fee f)\<rparr>"

lemma fee_added_simps [simp]:
  "ps_qty (fee_added cx p f) = ps_qty (position_of p (fl_instrument f))"
  "ps_cost_basis (fee_added cx p f) = ps_cost_basis (position_of p (fl_instrument f))"
  by (simp_all add: fee_added_def)

lemma exact_fee_added [simp]:
  "increases (fee_added cx p f) = increases (position_of p (fl_instrument f))"
  "increase_exact cx (fee_added cx p f) = increase_exact cx (position_of p (fl_instrument f))"
  "reduce_exact cx p (fee_added cx p f) = reduce_exact cx p (position_of p (fl_instrument f))"
  "position_ok cx (fee_added cx p f) = position_ok cx (position_of p (fl_instrument f))"
  by (simp_all add: fun_eq_iff increases_def increase_exact_def reduce_exact_def closed_qty_def cost_removed_def
    position_ok_def Let_def)

lemma apply_fill_facts:
  assumes inv: "pf_inv cx p" and ex: "fill_exact cx p f" and run: "apply_fill cx p f r = Inr (p', out)"
  shows "pf_inv cx p'"
    and "position_qty p' i = position_qty p i + (if fl_instrument f = i then of_int (side_int (fl_side f)) * fl_qty f else 0)"
    and "pf_cash p' = pf_cash p - dmul cx (of_int (side_int (fl_side f)) * fl_qty f) (fl_price f)"
    and "pf_fees_paid p' = pf_fees_paid p + fl_fee f"
    and "pf_funding_paid p' = pf_funding_paid p" and "pf_initial p' = pf_initial p"
proof -
  define sg where "sg = side_int (fl_side f)"
  define pos where "pos = fee_added cx p f"
  have sg0: "sg \<noteq> 0" using run by (auto simp: apply_fill_def Let_def sg_def)
  then have sg: "sg \<in> {- 1, 1}" unfolding sg_def by (rule side_int_cases)
  have qty: "0 < fl_qty f" "repr cx (fl_qty f)"
    and cash: "repr cx (pf_cash p - dmul cx (of_int sg * fl_qty f) (fl_price f))"
    and fees: "repr cx (pf_fees_paid p + fl_fee f)"
    using ex by (simp_all add: fill_exact_def Let_def sg_def)
  note dq = signed_repr [OF sg qty(2)]
  have ok: "position_ok cx pos" using inv by (simp add: pf_inv_def pos_def position_ok_of)
  have dict: "dict_ok (pf_positions p)" and all: "\<forall>x \<in> snd ` set (pf_positions p). position_ok cx x"
    using inv by (simp_all add: pf_inv_def)
  obtain pos' gain where
    pp: "pf_positions p' = dset (pf_positions p) (fl_instrument f) pos'"
    and c: "pf_cash p' = pf_cash p - dmul cx (of_int sg * fl_qty f) (fl_price f)"
    and fe: "pf_fees_paid p' = pf_fees_paid p + fl_fee f" and fu: "pf_funding_paid p' = pf_funding_paid p"
    and ini: "pf_initial p' = pf_initial p" and re: "pf_realized_pnl p' = pf_realized_pnl p + gain"
    and q': "ps_qty pos' = ps_qty pos + of_int sg * fl_qty f"
    and c': "ps_cost_basis pos' = ps_cost_basis pos + dmul cx (of_int sg * fl_qty f) (fl_price f) + gain"
    and ok': "position_ok cx pos'"
  proof (cases "increases pos sg")
    case True
    have "increase_exact cx pos (of_int sg * fl_qty f) (fl_price f)"
      using ex True by (simp add: fill_exact_def Let_def sg_def pos_def)
    note fi = fill_increase_facts [OF sg qty True this]
    show thesis
      by (rule that [OF _ _ _ _ _ _ fi(1) _ fi(3), where gain = 0])
        (use run sg0 True in \<open>auto simp: apply_fill_def Let_def sg_def [symmetric] pos_def fee_added_def dq
          dsub_repr [OF cash] dadd_repr [OF fees] fi(2) [unfolded pos_def fee_added_def]\<close>)
  next
    case False
    have rex: "reduce_exact cx p pos sg (fl_qty f) (fl_price f)"
      using ex False by (simp add: fill_exact_def Let_def sg_def pos_def)
    obtain pos' o' where fr: "fill_reduce cx pos sg (fl_qty f) (fl_price f) (fl_fee f) (fl_ts_fill_ns f) r = (pos', o')"
      by fastforce
    note fi = fill_reduce_facts [OF sg qty False ok rex fr]
    have "repr cx (pf_realized_pnl p + fill_pnl cx pos (closed_qty cx pos (fl_qty f)) (fl_price f))"
      using rex by (simp add: reduce_exact_def fill_pnl_def Let_def dsub_repr)
    then have re: "pf_realized_pnl p' = pf_realized_pnl p + fill_pnl cx pos (closed_qty cx pos (fl_qty f)) (fl_price f)"
      using run sg0 False fr
      by (auto simp: apply_fill_def Let_def sg_def [symmetric] pos_def fee_added_def dadd_repr)
    show thesis
      by (rule that [OF _ _ _ _ _ re fi])
        (use run sg0 False fr in \<open>auto simp: apply_fill_def Let_def sg_def [symmetric] pos_def fee_added_def dq
          dsub_repr [OF cash] dadd_repr [OF fees]\<close>)
  qed
  have "total_cost p' = total_cost p + dmul cx (of_int sg * fl_qty f) (fl_price f) + gain"
    using total_cost_dset [OF dict, of "fl_instrument f" pos'] c'
    by (simp add: total_cost_def [of p'] pp pos_def)
  then show "pf_inv cx p'"
    using inv positions_ok_dset [OF all ok' dict] dict_ok_dset [OF dict]
    by (simp add: pf_inv_def pp c re fu ini)
  show "position_qty p' i = position_qty p i + (if fl_instrument f = i then of_int (side_int (fl_side f)) * fl_qty f else 0)"
    by (auto simp: position_qty_def pp q' pos_def sg_def position_of_def new_position_def split: option.splits)
  show "pf_cash p' = pf_cash p - dmul cx (of_int (side_int (fl_side f)) * fl_qty f) (fl_price f)"
    using c by (simp add: sg_def)
  show "pf_fees_paid p' = pf_fees_paid p + fl_fee f" "pf_funding_paid p' = pf_funding_paid p" "pf_initial p' = pf_initial p"
    by (fact fe, fact fu, fact ini)
qed

text \<open>Funding and valuation keep the account; a valuation changes neither cash nor a quantity.\<close>

lemma apply_funding_facts:
  assumes inv: "pf_inv cx p" and ex: "funding_exact cx p ch"
  shows "pf_inv cx (apply_funding cx p ch)" and "position_qty (apply_funding cx p ch) i = position_qty p i"
    and "pf_cash (apply_funding cx p ch) = pf_cash p - fc_amount ch"
    and "pf_fees_paid (apply_funding cx p ch) = pf_fees_paid p"
    and "pf_initial (apply_funding cx p ch) = pf_initial p"
proof -
  have dict: "dict_ok (pf_positions p)" and all: "\<forall>x \<in> snd ` set (pf_positions p). position_ok cx x"
    using inv by (simp_all add: pf_inv_def)
  let ?i = "fc_instrument ch"
  define x where "x = (position_of p ?i)\<lparr>ps_funding_paid := dadd cx (ps_funding_paid (position_of p ?i)) (fc_amount ch),
    ps_t_funding := dadd cx (ps_t_funding (position_of p ?i)) (fc_amount ch)\<rparr>"
  have ex': "dsub cx (pf_cash p) (fc_amount ch) = pf_cash p - fc_amount ch"
    "dadd cx (pf_funding_paid p) (fc_amount ch) = pf_funding_paid p + fc_amount ch"
    using ex by (simp_all add: funding_exact_def dsub_repr dadd_repr)
  have eq: "apply_funding cx p ch = p\<lparr>pf_cash := pf_cash p - fc_amount ch, pf_funding_paid := pf_funding_paid p + fc_amount ch,
      pf_positions := dset (pf_positions p) ?i x\<rparr>"
    by (simp add: apply_funding_def Let_def x_def ex')
  have "position_ok cx x" using position_ok_of [OF all, of ?i] by (simp add: x_def position_ok_def)
  from positions_ok_dset [OF all this dict] dict_ok_dset [OF dict] total_cost_dset [OF dict, of ?i x] inv
  show "pf_inv cx (apply_funding cx p ch)"
    by (simp add: eq pf_inv_def total_cost_def [of "_\<lparr>pf_positions := _\<rparr>"] x_def)
  show "position_qty (apply_funding cx p ch) i = position_qty p i"
    by (auto simp: eq position_qty_def x_def position_of_def new_position_def split: option.splits)
qed (use ex in \<open>simp_all add: apply_funding_def Let_def funding_exact_def dsub_repr\<close>)

lemma mark_one_facts:
  assumes inv: "pf_inv cx p"
  shows "pf_inv cx (mark_one cx p i x)" and "position_qty (mark_one cx p i x) j = position_qty p j"
    and "pf_cash (mark_one cx p i x) = pf_cash p" and "pf_fees_paid (mark_one cx p i x) = pf_fees_paid p"
    and "pf_initial (mark_one cx p i x) = pf_initial p"
proof -
  have dict: "dict_ok (pf_positions p)" and all: "\<forall>x \<in> snd ` set (pf_positions p). position_ok cx x"
    using inv by (simp_all add: pf_inv_def)
  show "pf_inv cx (mark_one cx p i x)"
  proof (cases "dget (pf_positions p) i")
    case None
    then show ?thesis using inv by (simp add: mark_one_def pf_inv_def total_cost_def)
  next
    case (Some pos)
    define y where "y = pos\<lparr>ps_max_adverse_excursion := min (ps_max_adverse_excursion pos) (ps_unrealized cx pos x)\<rparr>"
    have of: "position_of p i = pos" by (simp add: position_of_def Some)
    have "position_ok cx y" using position_ok_of [OF all, of i] by (simp add: of y_def position_ok_def)
    from positions_ok_dset [OF all this dict] dict_ok_dset [OF dict] total_cost_dset [OF dict, of i y] inv
    show ?thesis by (simp add: mark_one_def Let_def Some pf_inv_def total_cost_def y_def of)
  qed
qed (auto simp: mark_one_def Let_def position_qty_def split: option.splits)

lemma mark_loop_facts:
  "mark_loop cx p prices = (p', r) \<Longrightarrow> pf_inv cx p \<Longrightarrow>
     pf_inv cx p' \<and> position_qty p' j = position_qty p j \<and> pf_cash p' = pf_cash p
     \<and> pf_fees_paid p' = pf_fees_paid p \<and> pf_initial p' = pf_initial p"
proof (induction cx p prices rule: mark_loop.induct)
  case (2 cx p i x rest)
  then show ?case using mark_one_facts [OF 2(3), of i x] by (auto split: if_splits)
qed auto

lemma pf_mark_facts:
  assumes "pf_mark cx p prices = (p', r)" "pf_inv cx p"
  shows "pf_inv cx p' \<and> position_qty p' j = position_qty p j \<and> pf_cash p' = pf_cash p
     \<and> pf_fees_paid p' = pf_fees_paid p \<and> pf_initial p' = pf_initial p"
proof -
  obtain q s where q: "mark_loop cx p prices = (q, s)" by fastforce
  then have "p' = q" using assms(1) by (auto simp: pf_mark_def split: sum.splits)
  with mark_loop_facts [OF q assms(2)] show ?thesis by simp
qed

lemma pf_run_facts:
  "pf_run cx c0 es p \<Longrightarrow> pf_inv cx p \<and> pf_initial p = c0 \<and> position_qty p i = sum_list (map (event_qty i) es)
     \<and> pf_cash p = c0 + sum_list (map (event_cash cx) es) \<and> pf_fees_paid p = sum_list (map event_fee es)"
proof (induction rule: pf_run.induct)
  case (start p)
  then show ?case by (auto simp: portfolio_init_def pf_inv_def total_cost_def position_qty_def split: if_splits)
next
  case (filled es p f r p' out)
  then show ?case using apply_fill_facts [OF _ filled(2,3)] by simp
next
  case (charged es p ch)
  then show ?case using apply_funding_facts [OF _ charged(2)] by simp
next
  case (marked es p prices p' r)
  then show ?case using pf_mark_facts [OF marked(2)] by simp
qed

section \<open>The two forms of equity\<close>

text \<open>
  The sums of a valuation, exact: the value of the holdings and the unrealised profit of the open positions. A
  valuation is exact when the code's running sums are these.
\<close>

fun holdings :: "(string, dec) dict \<Rightarrow> (string, position) dict \<Rightarrow> dec" where
  "holdings ms [] = 0"
| "holdings ms ((i, pos) # rest) = (case dget ms i of Some m \<Rightarrow> ps_qty pos * m | None \<Rightarrow> 0) + holdings ms rest"

fun sums_exact :: "dctx \<Rightarrow> (string, dec) dict \<Rightarrow> (string, position) dict \<Rightarrow> dec \<Rightarrow> dec \<Rightarrow> bool" where
  "sums_exact cx ms [] h u \<longleftrightarrow> True"
| "sums_exact cx ms ((i, pos) # rest) h u \<longleftrightarrow>
     (if ps_qty pos = 0 then sums_exact cx ms rest h u
      else case dget ms i of None \<Rightarrow> False
        | Some m \<Rightarrow> let v = ps_qty pos * m; w = v - ps_cost_basis pos in
            repr cx v \<and> repr cx w \<and> repr cx (h + v) \<and> repr cx (u + w) \<and> sums_exact cx ms rest (h + v) (u + w))"

definition valuation_exact :: "dctx \<Rightarrow> portfolio \<Rightarrow> bool" where
  "valuation_exact cx p \<longleftrightarrow>
     (let h = holdings (pf_marks p) (pf_positions p); w = pf_initial p + pf_realized_pnl p in
      sums_exact cx (pf_marks p) (pf_positions p) 0 0 \<and> repr cx w \<and> repr cx (w - pf_fees_paid p) \<and>
      repr cx (w - pf_fees_paid p - pf_funding_paid p) \<and> repr cx (pf_cash p + h) \<and> repr cx (pf_cash p + h - pf_fees_paid p))"

lemma sum_open_exact:
  assumes "sums_exact cx (pf_marks p) ps h u" "\<forall>x \<in> snd ` set ps. position_ok cx x"
  shows "sum_open cx p (\<lambda>pos m. dmul cx (ps_qty pos) m) ps h = Inr (h + holdings (pf_marks p) ps)
    \<and> sum_open cx p (ps_unrealized cx) ps u = Inr (u + holdings (pf_marks p) ps - sum_list (map (ps_cost_basis \<circ> snd) ps))"
  using assms
proof (induction ps arbitrary: h u)
  case Nil
  then show ?case by simp
next
  case (Cons a ps)
  obtain i pos where a: "a = (i, pos)" by fastforce
  have ok: "position_ok cx pos" "\<forall>x \<in> snd ` set ps. position_ok cx x" using Cons.prems(2) by (simp_all add: a)
  show ?case
  proof (cases "ps_qty pos = 0")
    case True
    then have "ps_cost_basis pos = 0" using ok(1) by (simp add: position_ok_def)
    with Cons.IH [of h u] Cons.prems ok True show ?thesis by (simp add: a split: option.split)
  next
    case False
    with Cons.prems obtain m where m: "dget (pf_marks p) i = Some m"
      and ex: "repr cx (ps_qty pos * m)" "repr cx (ps_qty pos * m - ps_cost_basis pos)" "repr cx (h + ps_qty pos * m)"
        "repr cx (u + (ps_qty pos * m - ps_cost_basis pos))"
      and r: "sums_exact cx (pf_marks p) ps (h + ps_qty pos * m) (u + (ps_qty pos * m - ps_cost_basis pos))"
      by (auto simp: a Let_def split: option.splits)
    from Cons.IH [OF r ok(2)] False show ?thesis
      by (simp add: a m mark_of_def ps_unrealized_def dmul_repr [OF ex(1)] dsub_repr [OF ex(2)] dadd_repr [OF ex(3)]
        dadd_repr [OF ex(4)])
  qed
qed

text \<open>C22: The accounting identity of the account: after any exact run of fills, funding charges and valuations the cash
  and the cost of the open positions are the deposit, the realised profit and the funding; hence the margin form and
  the cash form of the equity are one number whenever the valuation needs no rounding, and
  \<open>identity_residual\<close> is zero.\<close>
theorem accounting_identity:
  assumes run: "pf_run cx c0 es p" and ex: "valuation_exact cx p"
  shows "pf_cash p + total_cost p = c0 + pf_realized_pnl p - pf_funding_paid p
    \<and> equity cx p = equity_cash_form cx p \<and> identity_residual cx p = Inr 0"
proof -
  from pf_run_facts [OF run] have inv: "pf_inv cx p" and ini: "pf_initial p = c0" by auto
  let ?h = "holdings (pf_marks p) (pf_positions p)"
  have id: "pf_cash p + total_cost p = c0 + pf_realized_pnl p - pf_funding_paid p" using inv ini by (simp add: pf_inv_def)
  have "sums_exact cx (pf_marks p) (pf_positions p) 0 0" using ex by (simp add: valuation_exact_def Let_def)
  from sum_open_exact [OF this] inv
  have s: "sum_open cx p (\<lambda>pos m. dmul cx (ps_qty pos) m) (pf_positions p) 0 = Inr ?h"
    "sum_open cx p (ps_unrealized cx) (pf_positions p) 0 = Inr (?h - total_cost p)"
    by (simp_all add: pf_inv_def total_cost_def)
  have w: "wallet_balance cx p = c0 + pf_realized_pnl p - pf_fees_paid p - pf_funding_paid p"
    using ex by (simp add: wallet_balance_def valuation_exact_def Let_def dsub_repr dadd_repr ini)
  have e: "equity_cash_form cx p = Inr (pf_cash p + ?h - pf_fees_paid p)"
    using ex by (simp add: equity_cash_form_def s valuation_exact_def Let_def dsub_repr dadd_repr)
  have r: "repr cx (pf_cash p + ?h - pf_fees_paid p)" using ex by (simp add: valuation_exact_def Let_def)
  have sum: "c0 + pf_realized_pnl p - pf_fees_paid p - pf_funding_paid p + (?h - total_cost p)
    = pf_cash p + ?h - pf_fees_paid p" using id by simp
  have "equity cx p = Inr (pf_cash p + ?h - pf_fees_paid p)"
    by (simp only: equity_def unrealized_pnl_def s rbind_simps w dadd_def sum r [unfolded repr_def])
  with e id show ?thesis by (simp add: identity_residual_def dsub_def)
qed

text \<open>The account refines its history: after any exact run the position of every instrument is the sum of the signed
  quantities of its fills - through increases, partial closings and flips - the cash is the deposit plus the signed
  values of the fills and the funding, and the fees are those of the fills.\<close>
theorem account_refines_events:
  assumes "pf_run cx c0 es p"
  shows "position_qty p i = sum_list (map (event_qty i) es) \<and> pf_cash p = c0 + sum_list (map (event_cash cx) es)
    \<and> pf_fees_paid p = sum_list (map event_fee es)"
  using pf_run_facts [OF assms, of i] by simp

section \<open>A run: a purchase, a sale that flips the position, a valuation\<close>

definition ex_buy :: fill where
  "ex_buy = \<lparr>fl_client_order_id = 1, fl_venue_order_id = None, fl_instrument = ''BTC'', fl_side = LONG, fl_qty = 2,
     fl_price = 100, fl_fee = 1, fl_liquidity = TAKER, fl_slippage_bps = 0, fl_ts_fill_ns = 10\<rparr>"

definition ex_sell :: fill where
  "ex_sell = ex_buy\<lparr>fl_side := SHORT, fl_qty := 3, fl_price := 110, fl_fee := 3, fl_ts_fill_ns := 20\<rparr>"

definition ex_acc0 :: portfolio where
  "ex_acc0 = \<lparr>pf_initial = 1000, pf_cash = 1000, pf_fees_paid = 0, pf_funding_paid = 0, pf_realized_pnl = 0,
     pf_traded_notional = 0, pf_n_fills = 0, pf_positions = [], pf_marks = [], pf_closed_trades = []\<rparr>"

definition ex_long :: position where
  "ex_long = \<lparr>ps_instrument = ''BTC'', ps_qty = 2, ps_cost_basis = 200, ps_realized_pnl = 0, ps_funding_paid = 0,
     ps_fees_paid = 1, ps_opened_at_ns = Some 10, ps_max_adverse_excursion = 0, ps_t_side = LONG, ps_t_max_qty = 2,
     ps_t_realized = 0, ps_t_fees = 1, ps_t_funding = 0, ps_t_entry_notional = 200, ps_t_entry_qty = 2,
     ps_t_exit_notional = 0, ps_t_exit_qty = 0\<rparr>"

definition ex_acc1 :: portfolio where
  "ex_acc1 = \<lparr>pf_initial = 1000, pf_cash = 800, pf_fees_paid = 1, pf_funding_paid = 0, pf_realized_pnl = 0,
     pf_traded_notional = 200, pf_n_fills = 1, pf_positions = [(''BTC'', ex_long)], pf_marks = [(''BTC'', 100)],
     pf_closed_trades = []\<rparr>"

definition ex_short :: position where
  "ex_short = \<lparr>ps_instrument = ''BTC'', ps_qty = - 1, ps_cost_basis = - 110, ps_realized_pnl = 20, ps_funding_paid = 0,
     ps_fees_paid = 4, ps_opened_at_ns = Some 20, ps_max_adverse_excursion = 0, ps_t_side = SHORT, ps_t_max_qty = 1,
     ps_t_realized = 0, ps_t_fees = 1, ps_t_funding = 0, ps_t_entry_notional = 110, ps_t_entry_qty = 1,
     ps_t_exit_notional = 0, ps_t_exit_qty = 0\<rparr>"

definition ex_trade :: closed_trade where
  "ex_trade = \<lparr>ct_instrument = ''BTC'', ct_side = LONG, ct_qty = 2, ct_entry_price = 100, ct_exit_price = 110,
     ct_gross_pnl = 20, ct_fees = 3, ct_funding = 0, ct_pnl = 17, ct_entry_notional = 200, ct_exit_notional = 220,
     ct_opened_at_ns = 10, ct_closed_at_ns = 20, ct_exit_reason = None, ct_max_adverse_excursion = 0\<rparr>"

definition ex_acc2 :: portfolio where
  "ex_acc2 = \<lparr>pf_initial = 1000, pf_cash = 1130, pf_fees_paid = 4, pf_funding_paid = 0, pf_realized_pnl = 20,
     pf_traded_notional = 530, pf_n_fills = 2, pf_positions = [(''BTC'', ex_short)], pf_marks = [(''BTC'', 100)],
     pf_closed_trades = [ex_trade]\<rparr>"

lemmas ex_account = ex_acc0_def ex_acc1_def ex_acc2_def ex_long_def ex_short_def ex_trade_def ex_buy_def ex_sell_def

lemma ex_fills:
  "apply_fill Default_ctx ex_acc0 ex_buy None = Inr (ex_acc1, [])"
  "apply_fill Default_ctx ex_acc1 ex_sell None = Inr (ex_acc2, [ex_trade])"
  by (simp_all add: ex_account evals side_of_sign_def)

lemma ex_fills_exact: "fill_exact Default_ctx ex_acc0 ex_buy" "fill_exact Default_ctx ex_acc1 ex_sell"
  by (simp_all add: ex_account evals fill_exact_def increase_exact_def reduce_exact_def)

lemma ex_run: "pf_run Default_ctx 1000 [Filled ex_buy None, Filled ex_sell None] ex_acc2"
proof -
  have "portfolio_init 1000 = Inr ex_acc0" by (simp add: portfolio_init_def ex_acc0_def)
  from pf_run.start [OF this] have "pf_run Default_ctx 1000 [] ex_acc0" .
  from filled [OF this ex_fills_exact(1) ex_fills(1)] have "pf_run Default_ctx 1000 [Filled ex_buy None] ex_acc1" by simp
  from filled [OF this ex_fills_exact(2) ex_fills(2)] show ?thesis by simp
qed

theorem accounting_identity_witness:
  "equity Default_ctx ex_acc2 = Inr 1026 \<and> identity_residual Default_ctx ex_acc2 = Inr 0"
proof -
  have "valuation_exact Default_ctx ex_acc2" by (simp add: ex_account evals valuation_exact_def)
  from accounting_identity [OF ex_run this] show ?thesis by (simp add: ex_account evals)
qed

theorem account_refines_events_witness:
  "position_qty ex_acc2 ''BTC'' = 2 - 3 \<and> pf_cash ex_acc2 = 1000 - 200 + 330"
  using account_refines_events [OF ex_run, of "''BTC''"] by (simp add: ex_buy_def ex_sell_def evals)

end
