(* ===== verification/PaperBroker.thy ===== *)
theory PaperBroker
  imports Portfolio
begin

text \<open>
  \<^verbatim>\<open>execution/paper_broker.py\<close>: the simulated venue. An order waits in a queue; a bar charges funding, fills
  the market orders at its open, walks the triggers of its range along the pessimistic path, drops the
  orphaned stops and updates the estimates of volatility and volume. The working copy of one instrument's
  state and the table of orders are passed explicitly; the identifiers of synthetic orders and the noise of
  the cost model are sequences of the environment. After an exception of \<^verbatim>\<open>on_bar\<close> the broker is not used
  again, so its state is not part of the result.
\<close>

section \<open>Orders, instruments, triggers\<close>

record bar =
  ba_instrument :: string
  ba_open_time_ns :: int
  ba_o :: dec
  ba_h :: dec
  ba_l :: dec
  ba_c :: dec
  ba_volume :: dec

definition dec_bar_from_candle :: "candle \<Rightarrow> bar" where
  "dec_bar_from_candle c = \<lparr>ba_instrument = cd_instrument c, ba_open_time_ns = cd_open_time_ns c, ba_o = cd_o c,
     ba_h = cd_h c, ba_l = cd_l c, ba_c = cd_c c, ba_volume = cd_volume c\<rparr>"

record paper_order =
  po_req :: order_request
  po_venue_order_id :: "nat option"
  po_status :: order_status
  po_reject_code :: "reject_code option"
  po_ts_ns :: int
  po_filled_qty :: dec
  po_avg_price :: "dec option"
  po_exit_reason :: "exit_reason option"

definition new_order :: "order_request \<Rightarrow> nat option \<Rightarrow> order_status \<Rightarrow> reject_code option \<Rightarrow> int \<Rightarrow> paper_order" where
  "new_order req void status code ts = \<lparr>po_req = req, po_venue_order_id = void, po_status = status, po_reject_code = code,
     po_ts_ns = ts, po_filled_qty = 0, po_avg_price = None, po_exit_reason = None\<rparr>"

record inst_state =
  st_spec :: instrument
  st_funding_rate :: dec
  st_position :: dec
  st_last_open_ns :: "int option"
  st_last_close :: "dec option"
  st_var :: "dec option"
  st_v_bar :: "dec option"
  st_tp_price :: "dec option"
  st_tp_side :: int
  st_liq_price :: "dec option"
  st_market_queue :: "uuid list"
  st_stop_orders :: "uuid list"

definition new_inst_state :: "instrument \<Rightarrow> dec \<Rightarrow> inst_state" where
  "new_inst_state spec rate = \<lparr>st_spec = spec, st_funding_rate = rate, st_position = 0, st_last_open_ns = None,
     st_last_close = None, st_var = None, st_v_bar = None, st_tp_price = None, st_tp_side = 0, st_liq_price = None,
     st_market_queue = [], st_stop_orders = []\<rparr>"

datatype trigger_kind = Stop_trigger | Tp_trigger | Liq_trigger

record trigger =
  tr_kind :: trigger_kind
  tr_level :: dec
  tr_fires_up :: bool
  tr_coid :: "uuid option"
  tr_priority :: int

record broker =
  br_cost :: cost_model
  br_lam :: dec
  br_one_minus_lam :: dec
  br_state :: "(string, inst_state) dict"
  br_orders :: "(uuid, paper_order) dict"
  br_funding :: "funding_charge list"
  br_seq :: nat
  br_drawn_ids :: nat

text \<open>What the broker is given from outside: the decimal context, the numbers of the noise, the identifiers.\<close>

record broker_env =
  en_cx :: dctx
  en_zs :: "nat \<Rightarrow> rat"
  en_ids :: "nat \<Rightarrow> uuid"

definition DEFAULT_VOL_LAMBDA :: dec where "DEFAULT_VOL_LAMBDA = 94 / 100"
definition DEFAULT_FUNDING_RATE :: dec where "DEFAULT_FUNDING_RATE = 1 / 10000"

fun register_specs :: "dec \<Rightarrow> instrument list \<Rightarrow> (string, inst_state) dict \<Rightarrow> (string, inst_state) dict" where
  "register_specs rate [] d = d"
| "register_specs rate (s # ss) d = register_specs rate ss (dset d (in_symbol_canon s) (new_inst_state s rate))"

definition broker_init :: "dctx \<Rightarrow> cost_model \<Rightarrow> instrument list \<Rightarrow> dec \<Rightarrow> dec \<Rightarrow> broker result" where
  "broker_init cx cost specs lam rate =
     (if \<not> (0 < lam \<and> lam < 1) then Inl ValueError
      else Inr \<lparr>br_cost = cost, br_lam = lam, br_one_minus_lam = dsub cx 1 lam, br_state = register_specs rate specs [],
             br_orders = [], br_funding = [], br_seq = 0, br_drawn_ids = 0\<rparr>)"

section \<open>Submitting and cancelling\<close>

definition ack_rejected :: "uuid \<Rightarrow> reject_code \<Rightarrow> int \<Rightarrow> order_ack" where
  "ack_rejected c code now = \<lparr>oa_client_order_id = c, oa_venue_order_id = None, oa_status = OS_REJECTED,
     oa_reject_code = Some code, oa_ts_ns = now\<rparr>"

definition br_reject :: "broker \<Rightarrow> order_request \<Rightarrow> reject_code \<Rightarrow> int \<Rightarrow> broker \<times> order_ack" where
  "br_reject b req code now =
     (b\<lparr>br_orders := dset (br_orders b) (or_client_order_id req) (new_order req None OS_REJECTED (Some code) now)\<rparr>,
      ack_rejected (or_client_order_id req) code now)"

text \<open>The quantised stop price: \<open>Inr None\<close> where the order has none to quantise.\<close>

definition stop_level :: "dctx \<Rightarrow> inst_state \<Rightarrow> order_request \<Rightarrow> dec option result" where
  "stop_level cx st req = (case (or_otype req, or_stop_price req) of
     (STOP_MARKET, Some p) \<Rightarrow> rbind (quantize_price cx p (in_tick_size (st_spec st))) (\<lambda>sp. Inr (Some sp))
   | _ \<Rightarrow> Inr None)"

definition enqueue :: "broker \<Rightarrow> inst_state \<Rightarrow> order_request \<Rightarrow> int \<Rightarrow> broker \<times> order_ack" where
  "enqueue b st req now =
     (let c = or_client_order_id req; n = br_seq b + 1;
          st' = (if or_otype req = MARKET then st\<lparr>st_market_queue := st_market_queue st @ [c]\<rparr>
                 else st\<lparr>st_stop_orders := st_stop_orders st @ [c]\<rparr>)
      in (b\<lparr>br_seq := n, br_orders := dset (br_orders b) c (new_order req (Some n) OS_NEW None now),
            br_state := dset (br_state b) (or_instrument req) st'\<rparr>,
          \<lparr>oa_client_order_id = c, oa_venue_order_id = Some n, oa_status = OS_NEW, oa_reject_code = None, oa_ts_ns = now\<rparr>))"

definition submit :: "dctx \<Rightarrow> broker \<Rightarrow> int \<Rightarrow> order_request \<Rightarrow> (broker \<times> order_ack) result" where
  "submit cx b now req =
     (if dget (br_orders b) (or_client_order_id req) \<noteq> None
      then Inr (b, ack_rejected (or_client_order_id req) RC_DUPLICATE_CLIENT_ID now)
      else case dget (br_state b) (or_instrument req) of
        None \<Rightarrow> Inr (br_reject b req RC_VENUE_ERROR now)
      | Some st \<Rightarrow> rbind (floor_qty cx (or_qty req) (in_step_size (st_spec st))) (\<lambda>qty.
          if qty \<le> 0 then Inr (br_reject b req RC_ZERO_QTY now)
          else if \<not> or_reduce_only req \<and> (case st_last_close st of None \<Rightarrow> False
                 | Some c \<Rightarrow> dmul cx qty c < in_min_notional (st_spec st))
          then Inr (br_reject b req RC_BELOW_MIN_NOTIONAL now)
          else rbind (stop_level cx st req) (\<lambda>sp. case sp of
                 None \<Rightarrow> Inr (enqueue b st (req\<lparr>or_qty := qty\<rparr>) now)
               | Some p \<Rightarrow> if p \<le> 0 then Inr (br_reject b req RC_VENUE_ERROR now)
                   else Inr (enqueue b st (req\<lparr>or_qty := qty, or_stop_price := Some p\<rparr>) now))))"

text \<open>\<^verbatim>\<open>cancel_all\<close>: the orders of both queues, if still new.\<close>

fun cancel_ids :: "(uuid, paper_order) dict \<Rightarrow> uuid list \<Rightarrow> (uuid, paper_order) dict result" where
  "cancel_ids os [] = Inr os"
| "cancel_ids os (c # cs) = (case dget os c of None \<Rightarrow> Inl KeyError
     | Some po \<Rightarrow> cancel_ids (if po_status po = OS_NEW then dset os c (po\<lparr>po_status := OS_CANCELED\<rparr>) else os) cs)"

definition cancel_all :: "broker \<Rightarrow> string \<Rightarrow> broker result" where
  "cancel_all b i = (case dget (br_state b) i of None \<Rightarrow> Inr b
     | Some st \<Rightarrow> rbind (cancel_ids (br_orders b) (st_market_queue st @ st_stop_orders st)) (\<lambda>os.
         Inr (b\<lparr>br_orders := os, br_state := dset (br_state b) i
           (st\<lparr>st_market_queue := [], st_stop_orders := [], st_tp_price := None, st_tp_side := 0\<rparr>)\<rparr>)))"

definition br_require :: "broker \<Rightarrow> string \<Rightarrow> inst_state result" where
  "br_require b i = (case dget (br_state b) i of None \<Rightarrow> Inl KeyError | Some st \<Rightarrow> Inr st)"

definition cancel :: "broker \<Rightarrow> uuid \<Rightarrow> (broker \<times> bool) result" where
  "cancel b c = (case dget (br_orders b) c of None \<Rightarrow> Inr (b, False)
     | Some po \<Rightarrow> if po_status po \<noteq> OS_NEW then Inr (b, False)
         else rbind (br_require b (or_instrument (po_req po))) (\<lambda>st.
           Inr (b\<lparr>br_orders := dset (br_orders b) c (po\<lparr>po_status := OS_CANCELED\<rparr>),
                  br_state := dset (br_state b) (or_instrument (po_req po))
                    (st\<lparr>st_market_queue := remove1 c (st_market_queue st), st_stop_orders := remove1 c (st_stop_orders st)\<rparr>)\<rparr>,
                True)))"

definition set_take_profit :: "dctx \<Rightarrow> broker \<Rightarrow> string \<Rightarrow> dec option \<Rightarrow> side option \<Rightarrow> broker result" where
  "set_take_profit cx b i price s = rbind (br_require b i) (\<lambda>st.
     if s = Some FLAT then Inl ValueError
     else rbind (case price of None \<Rightarrow> Inr None
            | Some p \<Rightarrow> rbind (quantize_price cx p (in_tick_size (st_spec st))) (\<lambda>x. Inr (Some x))) (\<lambda>tp.
       Inr (b\<lparr>br_state := dset (br_state b) i (st\<lparr>st_tp_price := tp,
         st_tp_side := (if price = None then 0 else case s of None \<Rightarrow> 0 | Some x \<Rightarrow> side_int x)\<rparr>)\<rparr>)))"

definition set_liquidation_price :: "broker \<Rightarrow> string \<Rightarrow> dec option \<Rightarrow> broker result" where
  "set_liquidation_price b i price = rbind (br_require b i) (\<lambda>st.
     Inr (b\<lparr>br_state := dset (br_state b) i (st\<lparr>st_liq_price := price\<rparr>)\<rparr>))"

definition set_funding_rate :: "broker \<Rightarrow> string \<Rightarrow> dec \<Rightarrow> broker result" where
  "set_funding_rate b i rate = rbind (br_require b i) (\<lambda>st.
     Inr (b\<lparr>br_state := dset (br_state b) i (st\<lparr>st_funding_rate := rate\<rparr>)\<rparr>))"

section \<open>Queries\<close>

definition st_sigma :: "dctx \<Rightarrow> inst_state \<Rightarrow> dec" where
  "st_sigma cx st = (case st_var st of None \<Rightarrow> 0 | Some v \<Rightarrow> if v \<le> 0 then 0 else dsqrt cx v)"

definition st_vbar :: "inst_state \<Rightarrow> dec" where
  "st_vbar st = (case st_v_bar st of None \<Rightarrow> 0 | Some v \<Rightarrow> v)"

definition br_position :: "broker \<Rightarrow> string \<Rightarrow> dec result" where
  "br_position b i = rbind (br_require b i) (\<lambda>st. Inr (st_position st))"

definition br_sigma :: "dctx \<Rightarrow> broker \<Rightarrow> string \<Rightarrow> dec result" where
  "br_sigma cx b i = rbind (br_require b i) (\<lambda>st. Inr (st_sigma cx st))"

definition br_vbar :: "broker \<Rightarrow> string \<Rightarrow> dec result" where
  "br_vbar b i = rbind (br_require b i) (\<lambda>st. Inr (st_vbar st))"

definition order_ack_of :: "broker \<Rightarrow> uuid \<Rightarrow> order_ack option" where
  "order_ack_of b c = map_option (\<lambda>po. \<lparr>oa_client_order_id = c, oa_venue_order_id = po_venue_order_id po,
     oa_status = po_status po, oa_reject_code = po_reject_code po, oa_ts_ns = po_ts_ns po\<rparr>) (dget (br_orders b) c)"

definition order_request_of :: "broker \<Rightarrow> uuid \<Rightarrow> order_request option" where
  "order_request_of b c = map_option po_req (dget (br_orders b) c)"

definition exit_reason_of :: "broker \<Rightarrow> uuid \<Rightarrow> exit_reason option" where
  "exit_reason_of b c = (case dget (br_orders b) c of None \<Rightarrow> None | Some po \<Rightarrow> po_exit_reason po)"

definition get_order :: "broker \<Rightarrow> uuid \<Rightarrow> paper_order result" where
  "get_order b c = (case dget (br_orders b) c of None \<Rightarrow> Inl KeyError | Some po \<Rightarrow> Inr po)"

fun open_requests :: "broker \<Rightarrow> uuid list \<Rightarrow> order_request list result" where
  "open_requests b [] = Inr []"
| "open_requests b (c # cs) = rbind (get_order b c) (\<lambda>po. rbind (open_requests b cs) (\<lambda>rs.
     Inr (if po_status po = OS_NEW then po_req po # rs else rs)))"

definition open_orders :: "broker \<Rightarrow> string \<Rightarrow> order_request list result" where
  "open_orders b i = rbind (br_require b i) (\<lambda>st. open_requests b (st_market_queue st @ st_stop_orders st))"

definition drain_funding :: "broker \<Rightarrow> broker \<times> funding_charge list" where
  "drain_funding b = (b\<lparr>br_funding := []\<rparr>, br_funding b)"

definition set_order :: "broker \<Rightarrow> uuid \<Rightarrow> paper_order \<Rightarrow> broker" where
  "set_order b c po = b\<lparr>br_orders := dset (br_orders b) c po\<rparr>"

section \<open>Executing an order\<close>

text \<open>The state a bar works on: the broker, the copy of its instrument's state, the fills so far.\<close>

record work =
  wk_broker :: broker
  wk_st :: inst_state
  wk_fills :: "fill list"

definition executable_qty :: "dctx \<Rightarrow> inst_state \<Rightarrow> order_request \<Rightarrow> dec" where
  "executable_qty cx st req =
     (if \<not> or_reduce_only req then or_qty req
      else if st_position st = 0 \<or> sign_of (st_position st) = side_int (or_side req) then 0
      else min (or_qty req) (dabs cx (st_position st)))"

text \<open>The loop of \<^verbatim>\<open>_on_position_closed\<close> over the stop orders: the orders it leaves and the queue it keeps.\<close>

fun close_stops :: "side \<Rightarrow> (uuid, paper_order) dict \<Rightarrow> uuid list \<Rightarrow> ((uuid, paper_order) dict \<times> uuid list) result" where
  "close_stops prot os [] = Inr (os, [])"
| "close_stops prot os (c # cs) = (case dget os c of None \<Rightarrow> Inl KeyError
     | Some po \<Rightarrow>
         if po_status po \<noteq> OS_NEW then close_stops prot os cs
         else if or_reduce_only (po_req po) \<and> or_side (po_req po) = prot
         then close_stops prot (dset os c (po\<lparr>po_status := OS_CANCELED\<rparr>)) cs
         else rbind (close_stops prot os cs) (\<lambda>(os', keep). Inr (os', c # keep)))"

definition on_position_closed :: "work \<Rightarrow> dec \<Rightarrow> work result" where
  "on_position_closed w old =
     (let st = wk_st w; prot = side_of_sign (- sign_of old) in
      rbind (close_stops prot (br_orders (wk_broker w)) (st_stop_orders st)) (\<lambda>(os, keep).
        let drop_tp = (st_tp_side st = 0 \<or> st_tp_side st = sign_of old) in
        Inr (w\<lparr>wk_broker := (wk_broker w)\<lparr>br_orders := os\<rparr>,
               wk_st := st\<lparr>st_stop_orders := keep, st_tp_price := (if drop_tp then None else st_tp_price st),
                           st_tp_side := (if drop_tp then 0 else st_tp_side st), st_liq_price := None\<rparr>\<rparr>)))"

definition stop_reason :: "inst_state \<Rightarrow> order_request \<Rightarrow> exit_reason option \<Rightarrow> exit_reason option" where
  "stop_reason st req reason =
     (if reason = None \<and> or_otype req = STOP_MARKET \<and> st_position st \<noteq> 0
         \<and> sign_of (st_position st) \<noteq> side_int (or_side req)
      then Some ER_STOP else reason)"

definition signed_qty :: "dctx \<Rightarrow> side \<Rightarrow> dec \<Rightarrow> dec" where
  "signed_qty cx s qty = dmul cx (of_int (side_int s)) qty"

definition execute :: "broker_env \<Rightarrow> work \<Rightarrow> uuid \<Rightarrow> dec \<Rightarrow> int \<Rightarrow> exit_reason option \<Rightarrow> work result" where
  "execute E w c p_ref ts reason =
     (let cx = en_cx E; b = wk_broker w; st = wk_st w in
      rbind (get_order b c) (\<lambda>po.
        let req = po_req po; qty = executable_qty cx st req; s = or_side req; old = st_position st in
        if qty \<le> 0
        then Inr (w\<lparr>wk_broker := set_order b c (po\<lparr>po_status := OS_CANCELED, po_reject_code := Some RC_REDUCE_ONLY\<rparr>)\<rparr>)
        else rbind (quote cx (en_zs E) (br_cost b) s p_ref qty (st_sigma cx st) (st_vbar st) (in_tick_size (st_spec st)))
          (\<lambda>(q, cost').
            rbind (mk_fill \<lparr>fl_client_order_id = or_client_order_id req, fl_venue_order_id = po_venue_order_id po,
                fl_instrument = or_instrument req, fl_side = s, fl_qty = qty, fl_price = fq_price q,
                fl_fee = fee cx (br_cost b) (dmul cx qty (fq_price q)) TAKER, fl_liquidity = TAKER,
                fl_slippage_bps = fq_slippage_bps q, fl_ts_fill_ns = ts\<rparr>) (\<lambda>f.
              let po' = po\<lparr>po_status := OS_FILLED, po_filled_qty := qty, po_avg_price := Some (fq_price q),
                           po_exit_reason := stop_reason st req reason\<rparr>;
                  new = dadd cx old (signed_qty cx s qty);
                  w' = \<lparr>wk_broker = set_order (b\<lparr>br_cost := cost'\<rparr>) c po', wk_st = st\<lparr>st_position := new\<rparr>,
                        wk_fills = wk_fills w @ [f]\<rparr>
              in if old \<noteq> 0 \<and> (new = 0 \<or> sign_of new \<noteq> sign_of old) then on_position_closed w' old else Inr w'))))"

text \<open>The market orders: those created after the bar opened stay in the queue.\<close>

fun fill_market :: "broker_env \<Rightarrow> work \<Rightarrow> bar \<Rightarrow> uuid list \<Rightarrow> (work \<times> uuid list) result" where
  "fill_market E w ba [] = Inr (w, [])"
| "fill_market E w ba (c # cs) = rbind (get_order (wk_broker w) c) (\<lambda>po.
     if po_status po \<noteq> OS_NEW then fill_market E w ba cs
     else if ba_open_time_ns ba < or_ts_created_ns (po_req po)
     then rbind (fill_market E w ba cs) (\<lambda>(w', keep). Inr (w', c # keep))
     else rbind (execute E w c (ba_o ba) (ba_open_time_ns ba) None) (\<lambda>w'. fill_market E w' ba cs))"

definition fill_market_orders :: "broker_env \<Rightarrow> work \<Rightarrow> bar \<Rightarrow> work result" where
  "fill_market_orders E w ba = rbind (fill_market E w ba (st_market_queue (wk_st w))) (\<lambda>(w', keep).
     Inr (w'\<lparr>wk_st := (wk_st w')\<lparr>st_market_queue := keep\<rparr>\<rparr>))"

section \<open>The triggers of a bar\<close>

fun stop_triggers :: "broker \<Rightarrow> int \<Rightarrow> uuid list \<Rightarrow> trigger list result" where
  "stop_triggers b t [] = Inr []"
| "stop_triggers b t (c # cs) = rbind (get_order b c) (\<lambda>po. rbind (stop_triggers b t cs) (\<lambda>trs.
     case or_stop_price (po_req po) of
       Some lv \<Rightarrow> if po_status po = OS_NEW \<and> or_ts_created_ns (po_req po) \<le> t
          then Inr (\<lparr>tr_kind = Stop_trigger, tr_level = lv, tr_fires_up = (or_side (po_req po) = LONG), tr_coid = Some c,
                     tr_priority = 1\<rparr> # trs)
          else Inr trs
     | None \<Rightarrow> Inr trs))"

definition level_triggers :: "inst_state \<Rightarrow> trigger list" where
  "level_triggers st =
     (if st_position st = 0 then []
      else (case st_tp_price st of None \<Rightarrow> []
            | Some p \<Rightarrow> if st_tp_side st = 0 \<or> st_tp_side st = sign_of (st_position st)
                then [\<lparr>tr_kind = Tp_trigger, tr_level = p, tr_fires_up = (0 < st_position st), tr_coid = None, tr_priority = 2\<rparr>]
                else [])
         @ (case st_liq_price st of None \<Rightarrow> []
            | Some p \<Rightarrow> [\<lparr>tr_kind = Liq_trigger, tr_level = p, tr_fires_up = (st_position st < 0), tr_coid = None,
                          tr_priority = 0\<rparr>]))"

definition triggers :: "work \<Rightarrow> int \<Rightarrow> trigger list result" where
  "triggers w t = rbind (stop_triggers (wk_broker w) t (st_stop_orders (wk_st w))) (\<lambda>trs.
     Inr (trs @ level_triggers (wk_st w)))"

definition synthetic_reason :: "trigger_kind \<Rightarrow> exit_reason" where
  "synthetic_reason k = (if k = Tp_trigger then ER_TP else ER_LIQUIDATION)"

definition decision_ref_of :: "trigger_kind \<Rightarrow> string" where
  "decision_ref_of k = (if k = Tp_trigger then ''TP'' else ''LIQUIDATION'')"

definition fire :: "broker_env \<Rightarrow> work \<Rightarrow> trigger \<Rightarrow> dec \<Rightarrow> int \<Rightarrow> work result" where
  "fire E w tr p_ref t =
     (let st = wk_st w; b = wk_broker w in
      case (tr_kind tr, tr_coid tr) of
        (Stop_trigger, None) \<Rightarrow> Inl AssertionError
      | (Stop_trigger, Some c) \<Rightarrow>
          if c \<notin> set (st_stop_orders st) then Inl ValueError
          else execute E (w\<lparr>wk_st := st\<lparr>st_stop_orders := remove1 c (st_stop_orders st)\<rparr>\<rparr>) c p_ref t None
      | (k, _) \<Rightarrow>
          let pos = st_position st;
              st' = (if k = Tp_trigger then st\<lparr>st_tp_price := None, st_tp_side := 0\<rparr> else st\<lparr>st_liq_price := None\<rparr>);
              c = en_ids E (br_drawn_ids b)
          in rbind (mk_order_request \<lparr>or_client_order_id = c, or_instrument = in_symbol_canon (st_spec st),
                or_side = side_of_sign (- sign_of pos), or_otype = STOP_MARKET, or_qty = dabs (en_cx E) pos,
                or_stop_price = Some (tr_level tr), or_reduce_only = True, or_decision_ref = Some (decision_ref_of k),
                or_ts_created_ns = t\<rparr>) (\<lambda>req.
             let b' = set_order (b\<lparr>br_drawn_ids := br_drawn_ids b + 1, br_seq := br_seq b + 1\<rparr>) c
                        (new_order req (Some (br_seq b + 1)) OS_NEW None t)
             in execute E (w\<lparr>wk_broker := b', wk_st := st'\<rparr>) c p_ref t (Some (synthetic_reason k))))"

text \<open>Python's \<^verbatim>\<open>min\<close> with a key: the first least element.\<close>

fun first_min :: "('a \<Rightarrow> 'a \<Rightarrow> bool) \<Rightarrow> 'a \<Rightarrow> 'a list \<Rightarrow> 'a" where
  "first_min lt x [] = x"
| "first_min lt x (y # ys) = first_min lt (if lt y x then y else x) ys"

lemma first_min_in: "first_min lt x xs \<in> set (x # xs)"
proof (induction xs arbitrary: x)
  case (Cons y ys)
  then show ?case using Cons.IH [of "if lt y x then y else x"] by (auto split: if_splits)
qed simp

definition prio_less :: "trigger \<Rightarrow> trigger \<Rightarrow> bool" where
  "prio_less x y \<longleftrightarrow> tr_priority x < tr_priority y"

definition down_less :: "trigger \<Rightarrow> trigger \<Rightarrow> bool" where
  "down_less x y \<longleftrightarrow> tr_level y < tr_level x \<or> tr_level x = tr_level y \<and> tr_priority x < tr_priority y"

definition up_less :: "trigger \<Rightarrow> trigger \<Rightarrow> bool" where
  "up_less x y \<longleftrightarrow> tr_level x < tr_level y \<or> tr_level x = tr_level y \<and> tr_priority x < tr_priority y"

definition behind_open :: "dec \<Rightarrow> trigger \<Rightarrow> bool" where
  "behind_open p tr \<longleftrightarrow> (tr_fires_up tr \<and> tr_level tr \<le> p) \<or> (\<not> tr_fires_up tr \<and> p \<le> tr_level tr)"

definition reachable_in :: "bar \<Rightarrow> trigger \<Rightarrow> bool" where
  "reachable_in ba tr \<longleftrightarrow> (if tr_fires_up tr then tr_level tr \<le> ba_h ba else ba_l ba \<le> tr_level tr)"

text \<open>How many orders and levels can still fire: the measure of both loops.\<close>

definition armed :: "work \<Rightarrow> nat" where
  "armed w = length (st_stop_orders (wk_st w)) + (if st_tp_price (wk_st w) = None then 0 else 1)
     + (if st_liq_price (wk_st w) = None then 0 else 1)"

lemma close_stops_length: "close_stops prot os cs = Inr (os', keep) \<Longrightarrow> length keep \<le> length cs"
proof (induction prot os cs arbitrary: os' keep rule: close_stops.induct)
  case (2 prot os c cs)
  then show ?case by (fastforce split: option.splits if_splits elim!: rbind_InrE intro: le_SucI)
qed simp

lemma on_position_closed_armed: "on_position_closed w old = Inr w' \<Longrightarrow> armed w' \<le> armed w"
  by (auto simp: on_position_closed_def Let_def armed_def elim!: rbind_InrE dest!: close_stops_length split: if_splits)

lemma execute_armed: "execute E w c p_ref ts reason = Inr w' \<Longrightarrow> armed w' \<le> armed w"
  unfolding execute_def Let_def
  by (auto elim!: rbind_InrE split: if_splits dest!: on_position_closed_armed) (auto simp: armed_def)

lemma stop_triggers_kind:
  "stop_triggers b t cs = Inr trs \<Longrightarrow> tr \<in> set trs \<Longrightarrow> tr_kind tr = Stop_trigger \<and> (\<exists>c \<in> set cs. tr_coid tr = Some c)"
proof (induction cs arbitrary: trs)
  case (Cons c cs)
  then show ?case by (fastforce elim!: rbind_InrE split: option.splits if_splits)
qed simp

lemma triggers_cases:
  assumes "triggers w t = Inr trs" "tr \<in> set trs"
  shows "(tr_kind tr = Stop_trigger \<and> (\<exists>c \<in> set (st_stop_orders (wk_st w)). tr_coid tr = Some c))
    \<or> (tr_kind tr = Tp_trigger \<and> st_tp_price (wk_st w) = Some (tr_level tr) \<and> st_position (wk_st w) \<noteq> 0)
    \<or> (tr_kind tr = Liq_trigger \<and> st_liq_price (wk_st w) = Some (tr_level tr) \<and> st_position (wk_st w) \<noteq> 0)"
  using assms by (auto simp: triggers_def level_triggers_def elim!: rbind_InrE dest!: stop_triggers_kind
    split: option.splits if_splits)

lemma fire_armed:
  assumes run: "fire E w tr p_ref t = Inr w'" and tr: "triggers w t = Inr trs" "tr \<in> set trs"
  shows "armed w' < armed w"
proof (cases "tr_kind tr")
  case Stop_trigger
  with triggers_cases [OF tr] obtain c where c: "tr_coid tr = Some c" "c \<in> set (st_stop_orders (wk_st w))" by auto
  let ?w = "w\<lparr>wk_st := (wk_st w)\<lparr>st_stop_orders := remove1 c (st_stop_orders (wk_st w))\<rparr>\<rparr>"
  have "execute E ?w c p_ref t None = Inr w'" using run c Stop_trigger by (simp add: fire_def Let_def)
  then have "armed w' \<le> armed ?w" by (rule execute_armed)
  moreover have "armed ?w < armed w" using c(2) length_pos_if_in_set [OF c(2)]
    by (simp add: armed_def length_remove1)
  ultimately show ?thesis by simp
next
  case Tp_trigger
  with triggers_cases [OF tr] have tp: "st_tp_price (wk_st w) \<noteq> None" by auto
  from run Tp_trigger obtain b c where "execute E (w\<lparr>wk_broker := b, wk_st := (wk_st w)\<lparr>st_tp_price := None, st_tp_side := 0\<rparr>\<rparr>)
      c p_ref t (Some (synthetic_reason (tr_kind tr))) = Inr w'"
    by (auto simp: fire_def Let_def elim!: rbind_InrE split: option.splits)
  from execute_armed [OF this] tp show ?thesis by (auto simp: armed_def split: if_splits)
next
  case Liq_trigger
  with triggers_cases [OF tr] have lq: "st_liq_price (wk_st w) \<noteq> None" by auto
  from run Liq_trigger obtain b c where "execute E (w\<lparr>wk_broker := b, wk_st := (wk_st w)\<lparr>st_liq_price := None\<rparr>\<rparr>)
      c p_ref t (Some (synthetic_reason (tr_kind tr))) = Inr w'"
    by (auto simp: fire_def Let_def elim!: rbind_InrE split: option.splits)
  from execute_armed [OF this] lq show ?thesis by (auto simp: armed_def split: if_splits)
qed

section \<open>Walking the range of a bar\<close>

text \<open>Both loops end: every turn fires a trigger, and a fired trigger is gone.\<close>

function open_loop :: "broker_env \<Rightarrow> dec \<Rightarrow> int \<Rightarrow> work \<Rightarrow> work result" where
  "open_loop E p t w = rbind (triggers w t) (\<lambda>trs.
     case filter (behind_open p) trs of
       [] \<Rightarrow> Inr w
     | x # xs \<Rightarrow> rbind (fire E w (first_min prio_less x xs) p t) (\<lambda>w'. open_loop E p t w'))"
  by pat_completeness auto

lemma first_min_filter: "filter P trs = x # xs \<Longrightarrow> first_min lt x xs \<in> set trs \<and> P (first_min lt x xs)"
proof -
  assume eq: "filter P trs = x # xs"
  have "first_min lt x xs \<in> set (filter P trs)" unfolding eq by (rule first_min_in)
  then show ?thesis by simp
qed

termination open_loop
  by (relation "measure (\<lambda>(E, p, t, w). armed w)") (auto dest: first_min_filter intro: fire_armed)

definition falls_in :: "dec \<Rightarrow> dec \<Rightarrow> trigger \<Rightarrow> bool" where
  "falls_in b cur tr \<longleftrightarrow> \<not> tr_fires_up tr \<and> b \<le> tr_level tr \<and> tr_level tr \<le> cur"

definition rises_in :: "dec \<Rightarrow> dec \<Rightarrow> trigger \<Rightarrow> bool" where
  "rises_in b cur tr \<longleftrightarrow> tr_fires_up tr \<and> cur \<le> tr_level tr \<and> tr_level tr \<le> b"

text \<open>The trigger the segment from \<open>cur\<close> to \<open>b\<close> meets first.\<close>

definition segment_first :: "dec \<Rightarrow> dec \<Rightarrow> trigger list \<Rightarrow> trigger option" where
  "segment_first b cur trs =
     (if b < cur then case filter (falls_in b cur) trs of [] \<Rightarrow> None | x # xs \<Rightarrow> Some (first_min down_less x xs)
      else case filter (rises_in b cur) trs of [] \<Rightarrow> None | x # xs \<Rightarrow> Some (first_min up_less x xs))"

lemma segment_first_in: "segment_first b cur trs = Some tr \<Longrightarrow> tr \<in> set trs"
  by (auto simp: segment_first_def dest: first_min_filter split: if_splits list.splits)

function walk_segment :: "broker_env \<Rightarrow> dec \<Rightarrow> int \<Rightarrow> dec \<Rightarrow> work \<Rightarrow> work result" where
  "walk_segment E b t cur w =
     (if b = cur then Inr w
      else rbind (triggers w t) (\<lambda>trs. case segment_first b cur trs of
             None \<Rightarrow> Inr w
           | Some tr \<Rightarrow> rbind (fire E w tr (tr_level tr) t) (\<lambda>w'. walk_segment E b t (tr_level tr) w')))"
  by pat_completeness auto

termination walk_segment
  by (relation "measure (\<lambda>(E, b, t, cur, w). armed w)") (auto dest: segment_first_in intro: fire_armed)

declare open_loop.simps [simp del] walk_segment.simps [simp del]

text \<open>The path is chosen against the position; without one, the nearer extreme comes first.\<close>

definition price_path :: "dctx \<Rightarrow> dec \<Rightarrow> bar \<Rightarrow> dec list" where
  "price_path cx pos ba =
     (if 0 < pos then [ba_l ba, ba_h ba, ba_c ba]
      else if pos < 0 then [ba_h ba, ba_l ba, ba_c ba]
      else if dsub cx (ba_o ba) (ba_l ba) \<le> dsub cx (ba_h ba) (ba_o ba) then [ba_l ba, ba_h ba, ba_c ba]
      else [ba_h ba, ba_l ba, ba_c ba])"

fun walk_path :: "broker_env \<Rightarrow> int \<Rightarrow> dec \<Rightarrow> dec list \<Rightarrow> work \<Rightarrow> work result" where
  "walk_path E t cur [] w = Inr w"
| "walk_path E t cur (b # bs) w = rbind (walk_segment E b t cur w) (\<lambda>w'. walk_path E t b bs w')"

definition walk_triggers :: "broker_env \<Rightarrow> work \<Rightarrow> bar \<Rightarrow> work result" where
  "walk_triggers E w ba =
     (let t = ba_open_time_ns ba in
      rbind (triggers w t) (\<lambda>trs.
        if \<not> list_ex (reachable_in ba) trs then Inr w
        else rbind (open_loop E (ba_o ba) t w) (\<lambda>w'.
               walk_path E t (ba_o ba) (price_path (en_cx E) (st_position (wk_st w')) ba) w')))"

section \<open>The end of a bar\<close>

fun entry_sides :: "broker \<Rightarrow> uuid list \<Rightarrow> side list result" where
  "entry_sides b [] = Inr []"
| "entry_sides b (c # cs) = rbind (get_order b c) (\<lambda>po. rbind (entry_sides b cs) (\<lambda>ss.
     Inr (if po_status po = OS_NEW \<and> \<not> or_reduce_only (po_req po) then or_side (po_req po) # ss else ss)))"

fun drop_orphans :: "int \<Rightarrow> side list \<Rightarrow> (uuid, paper_order) dict \<Rightarrow> uuid list
    \<Rightarrow> ((uuid, paper_order) dict \<times> uuid list) result" where
  "drop_orphans sg entries os [] = Inr (os, [])"
| "drop_orphans sg entries os (c # cs) = (case dget os c of None \<Rightarrow> Inl KeyError
     | Some po \<Rightarrow>
         if po_status po \<noteq> OS_NEW then drop_orphans sg entries os cs
         else let prot = - side_int (or_side (po_req po)) in
           if or_reduce_only (po_req po) \<and> sg \<noteq> prot \<and> side_of_sign prot \<notin> set entries
           then drop_orphans sg entries (dset os c (po\<lparr>po_status := OS_CANCELED, po_reject_code := Some RC_REDUCE_ONLY\<rparr>)) cs
           else rbind (drop_orphans sg entries os cs) (\<lambda>(os', keep). Inr (os', c # keep)))"

definition expire_orphan_stops :: "work \<Rightarrow> work result" where
  "expire_orphan_stops w =
     (let st = wk_st w; b = wk_broker w in
      rbind (entry_sides b (st_market_queue st @ st_stop_orders st)) (\<lambda>entries.
      rbind (drop_orphans (sign_of (st_position st)) entries (br_orders b) (st_stop_orders st)) (\<lambda>(os, keep).
        Inr (w\<lparr>wk_broker := b\<lparr>br_orders := os\<rparr>, wk_st := st\<lparr>st_stop_orders := keep\<rparr>\<rparr>))))"

definition update_stats :: "dctx \<Rightarrow> broker \<Rightarrow> inst_state \<Rightarrow> bar \<Rightarrow> inst_state result" where
  "update_stats cx b st ba =
     (let lam = br_lam b; om = br_one_minus_lam b; vol = ba_volume ba in
      rbind (case st_last_close st of
               None \<Rightarrow> Inr (st_var st)
             | Some lc \<Rightarrow> rbind (ddiv_trap cx (ba_c ba) lc) (\<lambda>x.
                 let r = dsub cx x 1; r2 = dmul cx r r in
                 Inr (Some (case st_var st of None \<Rightarrow> r2 | Some v \<Rightarrow> dadd cx (dmul cx lam v) (dmul cx om r2))))) (\<lambda>var.
        Inr (st\<lparr>st_var := var, st_last_close := Some (ba_c ba),
          st_v_bar := Some (case st_v_bar st of None \<Rightarrow> vol | Some v \<Rightarrow> dadd cx (dmul cx lam v) (dmul cx om vol))\<rparr>)))"

definition funding_mark :: "inst_state \<Rightarrow> int \<Rightarrow> dec \<Rightarrow> int \<Rightarrow> dec" where
  "funding_mark st t_to open_price ts = (case st_last_close st of None \<Rightarrow> open_price
     | Some c \<Rightarrow> if ts = t_to then open_price else c)"

definition charge_funding :: "dctx \<Rightarrow> broker \<Rightarrow> inst_state \<Rightarrow> int \<Rightarrow> int \<Rightarrow> dec \<Rightarrow> broker" where
  "charge_funding cx b st t_from t_to open_price =
     b\<lparr>br_funding := br_funding b @ map (\<lambda>ts.
        \<lparr>fc_instrument = in_symbol_canon (st_spec st), fc_ts_ns = ts, fc_position_qty = st_position st,
         fc_mark_price = funding_mark st t_to open_price ts, fc_rate = st_funding_rate st,
         fc_amount = funding_payment cx (br_cost b) (st_position st) (funding_mark st t_to open_price ts) (st_funding_rate st)\<rparr>)
        (funding_times (br_cost b) t_from t_to)\<rparr>"

definition funding_due :: "broker \<Rightarrow> inst_state \<Rightarrow> int \<Rightarrow> broker_env \<Rightarrow> bar \<Rightarrow> broker" where
  "funding_due b st t E ba = (case st_last_open_ns st of
     Some lo \<Rightarrow> if st_position st \<noteq> 0 \<and> charges_funding (br_cost b) \<and> next_funding_time (br_cost b) lo \<le> t
                then charge_funding (en_cx E) b st lo t (ba_o ba) else b
   | None \<Rightarrow> b)"

definition has_triggers :: "inst_state \<Rightarrow> bool" where
  "has_triggers st \<longleftrightarrow> st_stop_orders st \<noteq> [] \<or> (st_position st \<noteq> 0 \<and> (st_tp_price st \<noteq> None \<or> st_liq_price st \<noteq> None))"

text \<open>The three phases of a bar that touch orders, then the whole bar.\<close>

definition market_phase :: "broker_env \<Rightarrow> bar \<Rightarrow> work \<Rightarrow> work result" where
  "market_phase E ba w = (if st_market_queue (wk_st w) = [] then Inr w else fill_market_orders E w ba)"

definition trigger_phase :: "broker_env \<Rightarrow> bar \<Rightarrow> work \<Rightarrow> work result" where
  "trigger_phase E ba w = (if has_triggers (wk_st w) then walk_triggers E w ba else Inr w)"

definition orphan_phase :: "work \<Rightarrow> work result" where
  "orphan_phase w = (if st_stop_orders (wk_st w) = [] then Inr w else expire_orphan_stops w)"

definition bar_work :: "broker_env \<Rightarrow> bar \<Rightarrow> work \<Rightarrow> work result" where
  "bar_work E ba w = rbind (market_phase E ba w) (\<lambda>w1. rbind (trigger_phase E ba w1) orphan_phase)"

definition on_bar :: "broker_env \<Rightarrow> broker \<Rightarrow> bar \<Rightarrow> (broker \<times> fill list) result" where
  "on_bar E b ba = (case dget (br_state b) (ba_instrument ba) of
     None \<Rightarrow> Inl ValueError
   | Some st \<Rightarrow>
      let t = ba_open_time_ns ba in
      if (case st_last_open_ns st of None \<Rightarrow> False | Some lo \<Rightarrow> t \<le> lo) then Inl ValueError
      else rbind (bar_work E ba \<lparr>wk_broker = funding_due b st t E ba, wk_st = st, wk_fills = []\<rparr>) (\<lambda>w.
        rbind (update_stats (en_cx E) (wk_broker w) (wk_st w) ba) (\<lambda>st'.
          Inr ((wk_broker w)\<lparr>br_state := dset (br_state (wk_broker w)) (ba_instrument ba) (st'\<lparr>st_last_open_ns := Some t\<rparr>)\<rparr>,
               wk_fills w))))"

section \<open>Evaluation\<close>

text \<open>The loops are unfolded one turn at a time, once the trigger to fire is known.\<close>

lemma open_loop_eval [evals]:
  "triggers w t = Inr trs \<Longrightarrow> filter (behind_open p) trs = [] \<Longrightarrow> open_loop E p t w = Inr w"
  "triggers w t = Inr trs \<Longrightarrow> filter (behind_open p) trs = x # xs \<Longrightarrow> fire E w (first_min prio_less x xs) p t = Inr w'
    \<Longrightarrow> open_loop E p t w = open_loop E p t w'"
  by (subst open_loop.simps, simp)+

lemma walk_segment_eval [evals]:
  "b = cur \<Longrightarrow> walk_segment E b t cur w = Inr w"
  "b \<noteq> cur \<Longrightarrow> triggers w t = Inr trs \<Longrightarrow> segment_first b cur trs = None \<Longrightarrow> walk_segment E b t cur w = Inr w"
  "b \<noteq> cur \<Longrightarrow> triggers w t = Inr trs \<Longrightarrow> segment_first b cur trs = Some tr \<Longrightarrow> fire E w tr (tr_level tr) t = Inr w'
    \<Longrightarrow> walk_segment E b t cur w = walk_segment E b t (tr_level tr) w'"
  by (subst walk_segment.simps, simp)+

lemmas broker_eval [evals] = new_order_def new_inst_state_def broker_init_def ack_rejected_def br_reject_def stop_level_def
  enqueue_def submit_def cancel_all_def br_require_def cancel_def set_take_profit_def set_liquidation_price_def
  set_funding_rate_def st_sigma_def st_vbar_def br_position_def exit_reason_of_def get_order_def drain_funding_def
  set_order_def executable_qty_def on_position_closed_def stop_reason_def signed_qty_def execute_def
  fill_market_orders_def level_triggers_def triggers_def synthetic_reason_def fire_def prio_less_def
  down_less_def up_less_def behind_open_def reachable_in_def falls_in_def rises_in_def segment_first_def price_path_def
  walk_triggers_def expire_orphan_stops_def update_stats_def funding_due_def has_triggers_def market_phase_def
  trigger_phase_def orphan_phase_def bar_work_def on_bar_def mk_fill_def mk_order_request_def side_of_sign_def ddiv_trap_def
  st_sigma_def funding_mark_def charge_funding_def

end
