(* ===== verification/BrokerRuns.thy ===== *)
theory BrokerRuns
  imports PaperBroker
begin

text \<open>
  The paper broker over a run of commands: an order is filled at most once, on a bar that opened no earlier than
  the order was created, for no more than it asked; a reduce-only order only brings the position towards zero;
  the position is the sum of the fills, and so the position the portfolio computes from them.
\<close>

section \<open>Legal fills\<close>

definition settled :: "(uuid, paper_order) dict \<Rightarrow> uuid \<Rightarrow> bool" where
  "settled os c \<longleftrightarrow> (\<exists>po. dget os c = Some po \<and> po_status po \<noteq> OS_NEW)"

definition pos_step :: "dctx \<Rightarrow> dec \<Rightarrow> fill \<Rightarrow> dec" where
  "pos_step cx p f = dadd cx p (signed_qty cx (fl_side f) (fl_qty f))"

text \<open>A move towards zero that does not cross it.\<close>

definition retreat :: "dec \<Rightarrow> dec \<Rightarrow> bool" where
  "retreat p p' \<longleftrightarrow> (0 < p \<and> 0 \<le> p' \<and> p' \<le> p) \<or> (p < 0 \<and> p' \<le> 0 \<and> p \<le> p')"

definition legal_fill :: "dctx \<Rightarrow> (uuid, paper_order) dict \<Rightarrow> string \<Rightarrow> int \<Rightarrow> dec \<Rightarrow> fill \<Rightarrow> bool" where
  "legal_fill cx os i t p f \<longleftrightarrow>
     (\<exists>po. dget os (fl_client_order_id f) = Some po \<and> po_status po = OS_FILLED
        \<and> fl_side f = or_side (po_req po) \<and> fl_instrument f = i \<and> fl_ts_fill_ns f = t
        \<and> 0 < fl_qty f \<and> fl_qty f \<le> or_qty (po_req po) \<and> repr cx (fl_qty f)
        \<and> or_ts_created_ns (po_req po) \<le> t
        \<and> (or_reduce_only (po_req po) \<longrightarrow> retreat p (pos_step cx p f)))"

fun legal_fills :: "dctx \<Rightarrow> (uuid, paper_order) dict \<Rightarrow> string \<Rightarrow> int \<Rightarrow> dec \<Rightarrow> fill list \<Rightarrow> bool" where
  "legal_fills cx os i t p [] \<longleftrightarrow> True"
| "legal_fills cx os i t p (f # fs) \<longleftrightarrow> legal_fill cx os i t p f \<and> legal_fills cx os i t (pos_step cx p f) fs"

abbreviation coids :: "fill list \<Rightarrow> uuid list" where
  "coids fs \<equiv> map fl_client_order_id fs"

text \<open>Orders only progress: a settled one keeps its record, none disappears or changes its request.\<close>

definition orders_grow :: "(uuid, paper_order) dict \<Rightarrow> (uuid, paper_order) dict \<Rightarrow> bool" where
  "orders_grow os os' \<longleftrightarrow> (\<forall>c po. dget os c = Some po \<longrightarrow>
     (\<exists>po'. dget os' c = Some po' \<and> po_req po' = po_req po \<and> (po_status po \<noteq> OS_NEW \<longrightarrow> po' = po)))"

definition fresh_fills :: "(uuid, paper_order) dict \<Rightarrow> fill list \<Rightarrow> (uuid, paper_order) dict \<Rightarrow> bool" where
  "fresh_fills os fs os' \<longleftrightarrow> distinct (coids fs) \<and> (\<forall>c \<in> set (coids fs). \<not> settled os c \<and> settled os' c)"

lemma orders_grow_refl [simp]: "orders_grow os os"
  by (simp add: orders_grow_def)

lemma orders_grow_trans: "orders_grow os os' \<Longrightarrow> orders_grow os' os'' \<Longrightarrow> orders_grow os os''"
  by (simp add: orders_grow_def) metis

lemma orders_grow_settled: "orders_grow os os' \<Longrightarrow> settled os c \<Longrightarrow> dget os' c = dget os c"
  by (force simp: orders_grow_def settled_def)

lemma orders_grow_settled': "orders_grow os os' \<Longrightarrow> settled os c \<Longrightarrow> settled os' c"
  using orders_grow_settled [of os os' c] by (auto simp: settled_def)

lemma fresh_fills_Nil [simp]: "fresh_fills os [] os'"
  by (simp add: fresh_fills_def)

lemma fresh_fills_append:
  assumes "fresh_fills os fs os'" "orders_grow os os'" "fresh_fills os' gs os''" "orders_grow os' os''"
  shows "fresh_fills os (fs @ gs) os''"
  using assms orders_grow_settled' by (fastforce simp: fresh_fills_def)

lemma legal_fill_grow:
  assumes "legal_fill cx os i t p f" "orders_grow os os'"
  shows "legal_fill cx os' i t p f"
proof -
  from assms(1) have "settled os (fl_client_order_id f)" by (auto simp: legal_fill_def settled_def)
  from orders_grow_settled [OF assms(2) this] assms(1) show ?thesis by (simp add: legal_fill_def)
qed

lemma legal_fills_append:
  "legal_fills cx os i t p (fs @ gs) \<longleftrightarrow> legal_fills cx os i t p fs \<and> legal_fills cx os i t (foldl (pos_step cx) p fs) gs"
  by (induction fs arbitrary: p) auto

lemma legal_fills_grow: "legal_fills cx os i t p fs \<Longrightarrow> orders_grow os os' \<Longrightarrow> legal_fills cx os' i t p fs"
  by (induction fs arbitrary: p) (auto intro: legal_fill_grow)

section \<open>The relation a bar's work keeps\<close>

text \<open>
  A locale for the facts proved about the walk of a bar: a reflexive and transitive relation between states of
  the work that every fired trigger obeys holds from the start to the end of the walk; if it also holds for the
  market orders, from the start to the end of the bar's executions.
\<close>

locale fire_relation =
  fixes R :: "broker_env \<Rightarrow> int \<Rightarrow> work \<Rightarrow> work \<Rightarrow> bool"
  assumes R_refl: "R E t w w"
    and R_trans: "R E t w w' \<Longrightarrow> R E t w' w'' \<Longrightarrow> R E t w w''"
    and R_fire: "triggers w t = Inr trs \<Longrightarrow> tr \<in> set trs \<Longrightarrow> fire E w tr p_ref t = Inr w' \<Longrightarrow> R E t w w'"
begin

lemma R_open_loop: "open_loop E p t w = Inr w' \<Longrightarrow> R E t w w'"
proof (induction E p t w arbitrary: w' rule: open_loop.induct)
  case (1 E p t w)
  from "1.prems" obtain trs where trs: "triggers w t = Inr trs"
    by (subst (asm) open_loop.simps) (auto elim: rbind_InrE)
  show ?case
  proof (cases "filter (behind_open p) trs")
    case Nil
    with "1.prems" trs show ?thesis by (subst (asm) open_loop.simps) (auto intro: R_refl)
  next
    case (Cons x xs)
    with "1.prems" trs obtain w1 where f: "fire E w (first_min prio_less x xs) p t = Inr w1" and r: "open_loop E p t w1 = Inr w'"
      by (subst (asm) open_loop.simps) (auto elim: rbind_InrE)
    from first_min_filter [OF Cons] have "R E t w w1" using trs f by (blast intro: R_fire)
    moreover have "R E t w1 w'" using "1.IH" [OF trs Cons f r] .
    ultimately show ?thesis by (rule R_trans)
  qed
qed

lemma R_walk_segment: "walk_segment E b t cur w = Inr w' \<Longrightarrow> R E t w w'"
proof (induction E b t cur w arbitrary: w' rule: walk_segment.induct)
  case (1 E b t cur w)
  show ?case
  proof (cases "b = cur")
    case True
    with "1.prems" show ?thesis by (subst (asm) walk_segment.simps) (simp add: R_refl)
  next
    case False
    with "1.prems" obtain trs where trs: "triggers w t = Inr trs"
      by (subst (asm) walk_segment.simps) (auto elim: rbind_InrE)
    show ?thesis
    proof (cases "segment_first b cur trs")
      case None
      with "1.prems" trs False show ?thesis by (subst (asm) walk_segment.simps) (auto intro: R_refl)
    next
      case (Some tr)
      with "1.prems" trs False obtain w1 where f: "fire E w tr (tr_level tr) t = Inr w1"
        and r: "walk_segment E b t (tr_level tr) w1 = Inr w'"
        by (subst (asm) walk_segment.simps) (auto elim: rbind_InrE)
      have "R E t w w1" using R_fire [OF trs segment_first_in [OF Some] f] .
      moreover have "R E t w1 w'" using "1.IH" [OF False trs Some f r] .
      ultimately show ?thesis by (rule R_trans)
    qed
  qed
qed

lemma R_walk_path: "walk_path E t cur bs w = Inr w' \<Longrightarrow> R E t w w'"
proof (induction bs arbitrary: cur w)
  case Nil
  then show ?case by (simp add: R_refl)
next
  case (Cons b bs)
  then obtain w1 where "walk_segment E b t cur w = Inr w1" "walk_path E t b bs w1 = Inr w'" by (auto elim: rbind_InrE)
  with Cons.IH show ?case by (blast intro: R_trans R_walk_segment)
qed

lemma R_walk_triggers: "walk_triggers E w ba = Inr w' \<Longrightarrow> R E (ba_open_time_ns ba) w w'"
  by (auto simp: walk_triggers_def Let_def elim!: rbind_InrE split: if_splits)
    (rule R_refl, rule R_trans [OF R_open_loop R_walk_path])

end

locale bar_relation = fire_relation +
  assumes R_execute: "get_order (wk_broker w) c = Inr po \<Longrightarrow> po_status po = OS_NEW \<Longrightarrow> or_ts_created_ns (po_req po) \<le> t
      \<Longrightarrow> c \<in> set (st_market_queue (wk_st w)) \<Longrightarrow> execute E w c p_ref t None = Inr w' \<Longrightarrow> R E t w w'"
begin

lemma execute_queue: "execute E w c p ts reason = Inr w' \<Longrightarrow> st_market_queue (wk_st w') = st_market_queue (wk_st w)"
  by (auto simp: execute_def on_position_closed_def Let_def elim!: rbind_InrE split: if_splits)

lemma R_fill_market:
  "fill_market E w ba cs = Inr (w', keep) \<Longrightarrow> set cs \<subseteq> set (st_market_queue (wk_st w))
     \<Longrightarrow> R E (ba_open_time_ns ba) w w' \<and> set keep \<subseteq> set cs \<and> st_market_queue (wk_st w') = st_market_queue (wk_st w)"
proof (induction cs arbitrary: w keep)
  case Nil
  then show ?case by (simp add: R_refl)
next
  case (Cons c cs)
  then obtain po where po: "get_order (wk_broker w) c = Inr po" by (auto elim: rbind_InrE)
  consider (old) "po_status po \<noteq> OS_NEW" | (late) "po_status po = OS_NEW" "ba_open_time_ns ba < or_ts_created_ns (po_req po)"
    | (run) "po_status po = OS_NEW" "or_ts_created_ns (po_req po) \<le> ba_open_time_ns ba" by linarith
  then show ?case
  proof cases
    case old
    with Cons po show ?thesis by fastforce
  next
    case late
    with Cons.prems po obtain keep' where "fill_market E w ba cs = Inr (w', keep')" "keep = c # keep'"
      by (auto elim!: rbind_InrE)
    with Cons show ?thesis by fastforce
  next
    case run
    with Cons.prems po obtain w1 where w1: "execute E w c (ba_o ba) (ba_open_time_ns ba) None = Inr w1"
      "fill_market E w1 ba cs = Inr (w', keep)" by (auto elim!: rbind_InrE)
    have R1: "R E (ba_open_time_ns ba) w w1" using Cons.prems(2) by (intro R_execute [OF po run _ w1(1)]) simp
    have "set cs \<subseteq> set (st_market_queue (wk_st w1))" using Cons.prems(2) by (simp add: execute_queue [OF w1(1)])
    from Cons.IH [OF w1(2) this] R1 show ?thesis by (auto simp: execute_queue [OF w1(1)] intro: R_trans)
  qed
qed

end

section \<open>Legality of the executions of a bar\<close>

definition ids_fresh :: "broker_env \<Rightarrow> broker \<Rightarrow> bool" where
  "ids_fresh E b \<longleftrightarrow> inj (en_ids E) \<and> (\<forall>n \<ge> br_drawn_ids b. dget (br_orders b) (en_ids E n) = None)"

definition queue_ok :: "dctx \<Rightarrow> (uuid, paper_order) dict \<Rightarrow> string \<Rightarrow> uuid list \<Rightarrow> bool" where
  "queue_ok cx os i cs \<longleftrightarrow> (\<forall>c \<in> set cs. \<exists>po. dget os c = Some po \<and> or_client_order_id (po_req po) = c
     \<and> or_instrument (po_req po) = i \<and> repr cx (or_qty (po_req po)))"

abbreviation wk_orders :: "work \<Rightarrow> (uuid, paper_order) dict" where
  "wk_orders w \<equiv> br_orders (wk_broker w)"

abbreviation wk_inst :: "work \<Rightarrow> string" where
  "wk_inst w \<equiv> in_symbol_canon (st_spec (wk_st w))"

definition wk_ok :: "broker_env \<Rightarrow> work \<Rightarrow> bool" where
  "wk_ok E w \<longleftrightarrow> ids_fresh E (wk_broker w) \<and> repr (en_cx E) (st_position (wk_st w))
     \<and> queue_ok (en_cx E) (wk_orders w) (wk_inst w) (st_market_queue (wk_st w) @ st_stop_orders (wk_st w))"

definition bar_facts :: "broker_env \<Rightarrow> int \<Rightarrow> work \<Rightarrow> work \<Rightarrow> bool" where
  "bar_facts E t w w' \<longleftrightarrow> wk_ok E w' \<and> orders_grow (wk_orders w) (wk_orders w') \<and> st_spec (wk_st w') = st_spec (wk_st w)
     \<and> br_state (wk_broker w') = br_state (wk_broker w)
     \<and> (\<exists>gs. wk_fills w' = wk_fills w @ gs \<and> fresh_fills (wk_orders w) gs (wk_orders w')
          \<and> legal_fills (en_cx E) (wk_orders w') (wk_inst w) t (st_position (wk_st w)) gs
          \<and> st_position (wk_st w') = foldl (pos_step (en_cx E)) (st_position (wk_st w)) gs)"

definition bar_step :: "broker_env \<Rightarrow> int \<Rightarrow> work \<Rightarrow> work \<Rightarrow> bool" where
  "bar_step E t w w' \<longleftrightarrow> (wk_ok E w \<longrightarrow> bar_facts E t w w')"

lemma bar_facts_ok: "bar_facts E t w w' \<Longrightarrow> wk_ok E w'"
  by (simp add: bar_facts_def)

lemma bar_facts_refl: "wk_ok E w \<Longrightarrow> bar_facts E t w w"
  by (auto simp: bar_facts_def intro: exI [of _ "[]"])

lemma bar_facts_trans:
  assumes "bar_facts E t w w'" "bar_facts E t w' w''"
  shows "bar_facts E t w w''"
proof -
  from assms obtain fs gs where fs: "wk_fills w' = wk_fills w @ fs" "fresh_fills (wk_orders w) fs (wk_orders w')"
      "legal_fills (en_cx E) (wk_orders w') (wk_inst w) t (st_position (wk_st w)) fs"
      "st_position (wk_st w') = foldl (pos_step (en_cx E)) (st_position (wk_st w)) fs"
    and gs: "wk_fills w'' = wk_fills w' @ gs" "fresh_fills (wk_orders w') gs (wk_orders w'')"
      "legal_fills (en_cx E) (wk_orders w'') (wk_inst w') t (st_position (wk_st w')) gs"
      "st_position (wk_st w'') = foldl (pos_step (en_cx E)) (st_position (wk_st w')) gs"
    and grow: "orders_grow (wk_orders w) (wk_orders w')" "orders_grow (wk_orders w') (wk_orders w'')"
    and spec: "st_spec (wk_st w') = st_spec (wk_st w)"
    by (auto simp: bar_facts_def)
  have "fresh_fills (wk_orders w) (fs @ gs) (wk_orders w'')" by (rule fresh_fills_append [OF fs(2) grow(1) gs(2) grow(2)])
  moreover have "legal_fills (en_cx E) (wk_orders w'') (wk_inst w) t (st_position (wk_st w)) (fs @ gs)"
    using legal_fills_grow [OF fs(3) grow(2)] gs(3) by (simp add: legal_fills_append fs(4) spec)
  moreover have "orders_grow (wk_orders w) (wk_orders w'')" using grow by (rule orders_grow_trans)
  ultimately show ?thesis using assms fs gs
    by (auto simp: bar_facts_def spec intro!: exI [of _ "fs @ gs"])
qed

lemma queue_ok_grow: "queue_ok cx os i cs \<Longrightarrow> orders_grow os os' \<Longrightarrow> set cs' \<subseteq> set cs \<Longrightarrow> queue_ok cx os' i cs'"
  unfolding queue_ok_def orders_grow_def by (metis subsetD)

lemma orders_grow_set:
  "dget os c = Some po \<Longrightarrow> po_status po = OS_NEW \<Longrightarrow> po_req po' = po_req po \<Longrightarrow> orders_grow os (dset os c po')"
  by (auto simp: orders_grow_def)

lemma orders_grow_fresh: "dget os c = None \<Longrightarrow> orders_grow os (dset os c po)"
  by (auto simp: orders_grow_def)

lemma close_stops_facts:
  "close_stops prot os cs = Inr (os', keep) \<Longrightarrow>
     orders_grow os os' \<and> set keep \<subseteq> set cs \<and> (\<forall>c. dget os' c = None \<longleftrightarrow> dget os c = None)"
proof (induction prot os cs arbitrary: os' keep rule: close_stops.induct)
  case (1 prot os)
  then show ?case by simp
next
  case (2 prot os c cs)
  then obtain po where po: "dget os c = Some po" by (auto split: option.splits)
  consider (old) "po_status po \<noteq> OS_NEW" | (cancel) "po_status po = OS_NEW" "or_reduce_only (po_req po)" "or_side (po_req po) = prot"
    | (keep) "po_status po = OS_NEW" "\<not> (or_reduce_only (po_req po) \<and> or_side (po_req po) = prot)" by blast
  then show ?case
  proof cases
    case old
    with 2 po show ?thesis by fastforce
  next
    case cancel
    let ?os = "dset os c (po\<lparr>po_status := OS_CANCELED\<rparr>)"
    have "close_stops prot ?os cs = Inr (os', keep)" using 2(4) po cancel by simp
    with 2(2) [OF po] cancel have "orders_grow ?os os' \<and> set keep \<subseteq> set cs \<and> (\<forall>d. dget os' d = None \<longleftrightarrow> dget ?os d = None)"
      by simp
    moreover have "orders_grow os ?os" using po cancel(1) by (rule orders_grow_set) simp
    ultimately show ?thesis using po by (auto intro: orders_grow_trans split: if_splits)
  next
    case keep
    then obtain keep' where "close_stops prot os cs = Inr (os', keep')" "keep = c # keep'"
      using 2(4) po by (auto elim!: rbind_InrE split: if_splits)
    with 2(3) [OF po] keep show ?thesis by auto
  qed
qed

lemma on_position_closed_facts:
  assumes "on_position_closed w old = Inr w'" and ok: "wk_ok E w"
  shows "bar_facts E t w w'"
proof -
  from assms(1) obtain os keep where cs: "close_stops (side_of_sign (- sign_of old)) (wk_orders w) (st_stop_orders (wk_st w)) = Inr (os, keep)"
    and w': "wk_orders w' = os" "wk_fills w' = wk_fills w" "st_spec (wk_st w') = st_spec (wk_st w)"
      "br_state (wk_broker w') = br_state (wk_broker w)" "st_position (wk_st w') = st_position (wk_st w)"
      "st_market_queue (wk_st w') = st_market_queue (wk_st w)" "st_stop_orders (wk_st w') = keep"
      "br_drawn_ids (wk_broker w') = br_drawn_ids (wk_broker w)"
    by (auto simp: on_position_closed_def Let_def elim!: rbind_InrE)
  note f = close_stops_facts [OF cs]
  have "queue_ok (en_cx E) os (wk_inst w) (st_market_queue (wk_st w) @ keep)"
  proof (rule queue_ok_grow)
    show "queue_ok (en_cx E) (wk_orders w) (wk_inst w) (st_market_queue (wk_st w) @ st_stop_orders (wk_st w))"
      using ok by (simp add: wk_ok_def)
  qed (use f in auto)
  then have "wk_ok E w'" using ok f by (simp add: wk_ok_def w' ids_fresh_def)
  then show ?thesis using f by (simp add: bar_facts_def w')
qed

lemma executable_qty_facts:
  assumes "repr cx (or_qty req)" "repr cx (st_position st)"
  shows "repr cx (executable_qty cx st req)" and "0 < executable_qty cx st req \<Longrightarrow> executable_qty cx st req \<le> or_qty req"
    and "or_reduce_only req \<Longrightarrow> 0 < executable_qty cx st req \<Longrightarrow>
      executable_qty cx st req \<le> \<bar>st_position st\<bar> \<and> st_position st \<noteq> 0 \<and> sign_of (st_position st) \<noteq> side_int (or_side req)"
  using assms by (auto simp: executable_qty_def dabs_repr min_def)

lemma reduce_retreats:
  assumes "repr cx p" "repr cx q" "0 < q" "q \<le> \<bar>p\<bar>" "p \<noteq> 0" "sign_of p \<noteq> side_int s" "s \<noteq> FLAT"
  shows "retreat p (dadd cx p (signed_qty cx s q))"
proof -
  have rp: "ctx_round cx p = p" using assms(1) by (simp add: repr_def)
  show ?thesis
  proof (cases "0 < p")
    case True
    then have s: "s = SHORT" using assms(6,7) by (cases s) (simp_all add: sign_of_def)
    have "dadd cx p (signed_qty cx s q) = ctx_round cx (p - q)"
      using assms(2) by (simp add: s signed_qty_def dmul_def dadd_def dr.rnd_minus) (simp add: repr_def)
    moreover have "0 \<le> ctx_round cx (p - q)" using assms(4) True by (simp add: dr.rnd_nonneg)
    moreover have "ctx_round cx (p - q) \<le> p" using assms(3) by (intro dr.rnd_le [OF rp]) simp
    ultimately show ?thesis using True by (simp add: retreat_def)
  next
    case False
    then have s: "s = LONG" and n: "p < 0" using assms(5,6,7) by (cases s; simp add: sign_of_def)+
    have "dadd cx p (signed_qty cx s q) = ctx_round cx (p + q)"
      using assms(2) by (simp add: s signed_qty_def dmul_def dadd_def) (simp add: repr_def)
    moreover have "ctx_round cx (p + q) \<le> 0" using assms(4) n by (intro dr.rnd_le [OF dr.rnd_0]) simp
    moreover have "p \<le> ctx_round cx (p + q)" using assms(3) by (intro dr.rnd_ge [OF rp]) simp
    ultimately show ?thesis using n by (simp add: retreat_def)
  qed
qed

lemma execute_facts:
  assumes ok: "wk_ok E w" and po: "get_order (wk_broker w) c = Inr po" and new: "po_status po = OS_NEW"
    and created: "or_ts_created_ns (po_req po) \<le> t" and id: "or_client_order_id (po_req po) = c"
    and inst: "or_instrument (po_req po) = wk_inst w" and rq: "repr (en_cx E) (or_qty (po_req po))"
    and run: "execute E w c p_ref t reason = Inr w'"
  shows "bar_facts E t w w'"
proof -
  let ?cx = "en_cx E" and ?b = "wk_broker w" and ?st = "wk_st w" and ?req = "po_req po"
  let ?qty = "executable_qty ?cx ?st ?req"
  have get: "dget (wk_orders w) c = Some po" using po by (simp add: get_order_def split: option.splits)
  have rp: "repr ?cx (st_position ?st)" using ok by (simp add: wk_ok_def)
  note eq = executable_qty_facts [OF rq rp]
  have grow: "orders_grow (wk_orders w) (dset (wk_orders w) c po')" if "po_req po' = ?req" for po'
    using get new that by (rule orders_grow_set)
  have okw: "wk_ok E \<lparr>wk_broker = b', wk_st = st', wk_fills = fs\<rparr>"
    if "br_orders b' = dset (wk_orders w) c po'" "po_req po' = ?req" "br_drawn_ids b' = br_drawn_ids ?b"
      "st_spec st' = st_spec ?st" "repr ?cx (st_position st')" "st_market_queue st' = st_market_queue ?st"
      "st_stop_orders st' = st_stop_orders ?st" for b' po' st' fs
  proof -
    have "ids_fresh E b'" using ok get by (auto simp: wk_ok_def ids_fresh_def that)
    then show ?thesis using ok queue_ok_grow [OF _ grow [OF that(2)] order_refl] that by (simp add: wk_ok_def)
  qed
  show ?thesis
  proof (cases "?qty \<le> 0")
    case True
    let ?po = "po\<lparr>po_status := OS_CANCELED, po_reject_code := Some RC_REDUCE_ONLY\<rparr>"
    have w': "w' = w\<lparr>wk_broker := set_order ?b c ?po\<rparr>" using run po True by (simp add: execute_def Let_def)
    have "wk_ok E \<lparr>wk_broker = set_order ?b c ?po, wk_st = ?st, wk_fills = wk_fills w\<rparr>"
      by (rule okw [where po' = ?po]) (use rp in \<open>simp_all add: set_order_def\<close>)
    then have "wk_ok E w'" by (simp add: w' wk_ok_def)
    then show ?thesis using grow [of ?po] by (simp add: bar_facts_def w' set_order_def)
  next
    case False
    then have pos: "0 < ?qty" by simp
    obtain x where x: "quote ?cx (en_zs E) (br_cost ?b) (or_side ?req) p_ref ?qty (st_sigma ?cx ?st) (st_vbar ?st)
        (in_tick_size (st_spec ?st)) = Inr x"
      using run po False by (auto simp: execute_def Let_def elim!: rbind_InrE)
    obtain q cost' where q: "x = (q, cost')" by fastforce
    define f where "f = \<lparr>fl_client_order_id = or_client_order_id ?req, fl_venue_order_id = po_venue_order_id po,
      fl_instrument = or_instrument ?req, fl_side = or_side ?req, fl_qty = ?qty, fl_price = fq_price q,
      fl_fee = fee ?cx (br_cost ?b) (dmul ?cx ?qty (fq_price q)) TAKER, fl_liquidity = TAKER,
      fl_slippage_bps = fq_slippage_bps q, fl_ts_fill_ns = t\<rparr>"
    have f: "fl_client_order_id f = or_client_order_id ?req" "fl_instrument f = or_instrument ?req" "fl_side f = or_side ?req"
        "fl_qty f = ?qty" "fl_ts_fill_ns f = t" by (simp_all add: f_def)
    have s: "or_side ?req \<noteq> FLAT" using x by (auto simp: quote_def)
    define po' where "po' = po\<lparr>po_status := OS_FILLED, po_filled_qty := ?qty, po_avg_price := Some (fq_price q),
      po_exit_reason := stop_reason ?st ?req reason\<rparr>"
    define w1 where "w1 = \<lparr>wk_broker = set_order (?b\<lparr>br_cost := cost'\<rparr>) c po',
      wk_st = ?st\<lparr>st_position := pos_step ?cx (st_position ?st) f\<rparr>, wk_fills = wk_fills w @ [f]\<rparr>"
    have step: "pos_step ?cx (st_position ?st) f = dadd ?cx (st_position ?st) (signed_qty ?cx (or_side ?req) ?qty)"
      by (simp add: pos_step_def f)
    have out: "w' = w1 \<or> on_position_closed w1 (st_position ?st) = Inr w'"
      using run po False unfolding w1_def po'_def step
      by (auto simp: execute_def Let_def x q mk_fill_def f_def [symmetric] elim!: rbind_InrE split: if_splits)
    have ok1: "wk_ok E w1" unfolding w1_def
      by (rule okw [where po' = po']) (simp_all add: set_order_def po'_def pos_step_def)
    have orders: "wk_orders w1 = dset (wk_orders w) c po'" by (simp add: w1_def set_order_def)
    have po': "po_req po' = ?req" "po_status po' = OS_FILLED" by (simp_all add: po'_def)
    have "retreat (st_position ?st) (pos_step ?cx (st_position ?st) f)" if "or_reduce_only ?req"
      using reduce_retreats [OF rp eq(1) pos _ _ _ s] eq(3) [OF that pos] by (simp add: step)
    then have "legal_fill ?cx (wk_orders w1) (wk_inst w) t (st_position ?st) f"
      using eq pos created inst by (simp add: legal_fill_def f id orders po')
    moreover have "fresh_fills (wk_orders w) [f] (wk_orders w1)"
      using get new by (simp add: fresh_fills_def settled_def f id orders po')
    ultimately have b1: "bar_facts E t w w1"
      using ok1 grow [OF po'(1)] by (simp add: bar_facts_def orders) (simp add: w1_def set_order_def)
    with out show ?thesis using on_position_closed_facts [OF _ ok1] bar_facts_trans by blast
  qed
qed

lemma stop_triggers_order:
  "stop_triggers b t cs = Inr trs \<Longrightarrow> tr \<in> set trs \<Longrightarrow> \<exists>c po. tr_coid tr = Some c \<and> c \<in> set cs \<and> get_order b c = Inr po
     \<and> po_status po = OS_NEW \<and> or_ts_created_ns (po_req po) \<le> t"
proof (induction cs arbitrary: trs)
  case (Cons c cs)
  from Cons.prems(1) obtain po trs' where po: "get_order b c = Inr po" "stop_triggers b t cs = Inr trs'"
    by (auto elim!: rbind_InrE)
  show ?case
  proof (cases "tr \<in> set trs'")
    case True
    with Cons.IH [OF po(2)] show ?thesis by force
  next
    case False
    with Cons.prems po show ?thesis by (auto split: option.splits if_splits)
  qed
qed simp

text \<open>Dropping queue entries and clearing levels is a step without executions.\<close>

lemma bar_facts_silent:
  assumes ok: "wk_ok E w" and "wk_broker w' = wk_broker w" "wk_fills w' = wk_fills w"
    and st: "st_spec (wk_st w') = st_spec (wk_st w)" "st_position (wk_st w') = st_position (wk_st w)"
    and sub: "set (st_market_queue (wk_st w') @ st_stop_orders (wk_st w')) \<subseteq> set (st_market_queue (wk_st w) @ st_stop_orders (wk_st w))"
  shows "bar_facts E t w w'"
proof -
  have "wk_ok E w'" using ok queue_ok_grow [OF _ orders_grow_refl sub] by (simp add: wk_ok_def assms(2) st)
  then show ?thesis by (simp add: bar_facts_def assms(2,3) st)
qed

lemma fire_facts:
  assumes ok: "wk_ok E w" and tr: "triggers w t = Inr trs" "tr \<in> set trs" and run: "fire E w tr p_ref t = Inr w'"
  shows "bar_facts E t w w'"
proof (cases "tr_kind tr = Stop_trigger")
  case True
  from tr obtain ss where ss: "stop_triggers (wk_broker w) t (st_stop_orders (wk_st w)) = Inr ss" "trs = ss @ level_triggers (wk_st w)"
    by (auto simp: triggers_def elim!: rbind_InrE)
  have "tr \<in> set ss" using tr(2) True by (auto simp: ss(2) level_triggers_def split: if_splits option.splits)
  with ss(1) obtain c po where c: "tr_coid tr = Some c" "c \<in> set (st_stop_orders (wk_st w))"
    and po: "get_order (wk_broker w) c = Inr po" "po_status po = OS_NEW" "or_ts_created_ns (po_req po) \<le> t"
    by (blast dest: stop_triggers_order)
  define w1 where "w1 = w\<lparr>wk_st := (wk_st w)\<lparr>st_stop_orders := remove1 c (st_stop_orders (wk_st w))\<rparr>\<rparr>"
  have ex: "execute E w1 c p_ref t None = Inr w'" using run c True by (simp add: fire_def Let_def w1_def)
  have "set (st_market_queue (wk_st w1) @ st_stop_orders (wk_st w1)) \<subseteq> set (st_market_queue (wk_st w) @ st_stop_orders (wk_st w))"
    using set_remove1_subset [of c "st_stop_orders (wk_st w)"] by (auto simp: w1_def)
  then have b1: "bar_facts E t w w1" using ok by (intro bar_facts_silent) (simp_all add: w1_def)
  have "queue_ok (en_cx E) (wk_orders w) (wk_inst w) (st_stop_orders (wk_st w))"
    using ok by (simp add: wk_ok_def queue_ok_def)
  then have q: "or_client_order_id (po_req po) = c" "or_instrument (po_req po) = wk_inst w" "repr (en_cx E) (or_qty (po_req po))"
    using c(2) po(1) by (auto simp: queue_ok_def get_order_def split: option.splits)
  have "bar_facts E t w1 w'"
    by (rule execute_facts [OF bar_facts_ok [OF b1] _ po(2,3) _ _ _ ex]) (use po q in \<open>simp_all add: w1_def\<close>)
  with b1 show ?thesis by (rule bar_facts_trans)
next
  case False
  let ?b = "wk_broker w" and ?st = "wk_st w"
  define c where "c = en_ids E (br_drawn_ids ?b)"
  define st1 where "st1 = (if tr_kind tr = Tp_trigger then ?st\<lparr>st_tp_price := None, st_tp_side := 0\<rparr> else ?st\<lparr>st_liq_price := None\<rparr>)"
  define req where "req = \<lparr>or_client_order_id = c, or_instrument = in_symbol_canon (st_spec ?st),
    or_side = side_of_sign (- sign_of (st_position ?st)), or_otype = STOP_MARKET, or_qty = dabs (en_cx E) (st_position ?st),
    or_stop_price = Some (tr_level tr), or_reduce_only = True, or_decision_ref = Some (decision_ref_of (tr_kind tr)),
    or_ts_created_ns = t\<rparr>"
  define po where "po = new_order req (Some (br_seq ?b + 1)) OS_NEW None t"
  define w1 where "w1 = w\<lparr>wk_broker := set_order (?b\<lparr>br_drawn_ids := br_drawn_ids ?b + 1, br_seq := br_seq ?b + 1\<rparr>) c po, wk_st := st1\<rparr>"
  have ex: "execute E w1 c p_ref t (Some (synthetic_reason (tr_kind tr))) = Inr w'"
    using run False by (cases "tr_kind tr")
      (auto simp: fire_def Let_def w1_def po_def req_def c_def st1_def mk_order_request_def split: if_splits option.splits)
  have st1: "st_spec st1 = st_spec ?st" "st_position st1 = st_position ?st" "st_market_queue st1 = st_market_queue ?st"
    "st_stop_orders st1 = st_stop_orders ?st" by (simp_all add: st1_def)
  have fresh: "dget (wk_orders w) c = None" and inj: "inj (en_ids E)" using ok by (simp_all add: wk_ok_def ids_fresh_def c_def)
  have o1: "wk_orders w1 = dset (wk_orders w) c po" by (simp add: w1_def set_order_def)
  have grow: "orders_grow (wk_orders w) (wk_orders w1)" unfolding o1 using fresh by (rule orders_grow_fresh)
  have "ids_fresh E (wk_broker w1)"
    using ok inj by (auto simp: wk_ok_def ids_fresh_def w1_def set_order_def c_def inj_eq)
  moreover have "queue_ok (en_cx E) (wk_orders w1) (wk_inst w1) (st_market_queue (wk_st w1) @ st_stop_orders (wk_st w1))"
    using ok queue_ok_grow [OF _ grow order_refl] by (simp add: wk_ok_def w1_def st1)
  ultimately have ok1: "wk_ok E w1" using ok by (simp add: wk_ok_def w1_def st1)
  have b1: "bar_facts E t w w1" using ok1 grow by (simp add: bar_facts_def) (simp add: w1_def st1 set_order_def)
  have "bar_facts E t w1 w'"
    by (rule execute_facts [OF ok1 _ _ _ _ _ _ ex, where po = po])
      (simp_all add: get_order_def o1 po_def new_order_def req_def, simp_all add: w1_def st1)
  with b1 show ?thesis by (rule bar_facts_trans)
qed

interpretation bs: bar_relation bar_step
proof
  fix E t w w' w'' trs tr p_ref c po
  show "bar_step E t w w" by (simp add: bar_step_def bar_facts_refl)
  show "bar_step E t w w' \<Longrightarrow> bar_step E t w' w'' \<Longrightarrow> bar_step E t w w''"
    unfolding bar_step_def by (blast intro: bar_facts_trans dest: bar_facts_ok)
  show "triggers w t = Inr trs \<Longrightarrow> tr \<in> set trs \<Longrightarrow> fire E w tr p_ref t = Inr w' \<Longrightarrow> bar_step E t w w'"
    unfolding bar_step_def by (blast intro: fire_facts)
  assume po: "get_order (wk_broker w) c = Inr po" "po_status po = OS_NEW" "or_ts_created_ns (po_req po) \<le> t"
    and c: "c \<in> set (st_market_queue (wk_st w))" and ex: "execute E w c p_ref t None = Inr w'"
  show "bar_step E t w w'" unfolding bar_step_def
  proof
    assume ok: "wk_ok E w"
    then have "queue_ok (en_cx E) (wk_orders w) (wk_inst w) (st_market_queue (wk_st w))" by (simp add: wk_ok_def queue_ok_def)
    with c po(1) have "or_client_order_id (po_req po) = c" "or_instrument (po_req po) = wk_inst w" "repr (en_cx E) (or_qty (po_req po))"
      by (auto simp: queue_ok_def get_order_def split: option.splits)
    from execute_facts [OF ok po this ex] show "bar_facts E t w w'" .
  qed
qed

lemma drop_orphans_facts:
  "drop_orphans sg en os cs = Inr (os', keep) \<Longrightarrow>
     orders_grow os os' \<and> set keep \<subseteq> set cs \<and> (\<forall>c. dget os' c = None \<longleftrightarrow> dget os c = None)"
proof (induction cs arbitrary: os os' keep)
  case Nil
  then show ?case by simp
next
  case (Cons c cs)
  then obtain po where po: "dget os c = Some po" by (auto split: option.splits)
  let ?os = "dset os c (po\<lparr>po_status := OS_CANCELED, po_reject_code := Some RC_REDUCE_ONLY\<rparr>)"
  consider (old) "drop_orphans sg en os cs = Inr (os', keep)"
    | (cancel) "po_status po = OS_NEW" "drop_orphans sg en ?os cs = Inr (os', keep)"
    | (keep) keep' where "drop_orphans sg en os cs = Inr (os', keep')" "keep = c # keep'"
    using Cons.prems po by (auto simp: Let_def elim!: rbind_InrE split: if_splits)
  then show ?case
  proof cases
    case cancel
    have "orders_grow os ?os" using po cancel(1) by (rule orders_grow_set) simp
    with Cons.IH [OF cancel(2)] po show ?thesis by (auto intro: orders_grow_trans split: if_splits)
  qed (use Cons.IH in fastforce)+
qed

lemma expire_orphans_facts:
  assumes run: "expire_orphan_stops w = Inr w'" and ok: "wk_ok E w"
  shows "bar_facts E t w w'"
proof -
  from run obtain en os keep where cs: "drop_orphans (sign_of (st_position (wk_st w))) en (wk_orders w) (st_stop_orders (wk_st w)) = Inr (os, keep)"
    and w': "w' = w\<lparr>wk_broker := (wk_broker w)\<lparr>br_orders := os\<rparr>, wk_st := (wk_st w)\<lparr>st_stop_orders := keep\<rparr>\<rparr>"
    by (auto simp: expire_orphan_stops_def Let_def elim!: rbind_InrE)
  note f = drop_orphans_facts [OF cs]
  have "queue_ok (en_cx E) os (wk_inst w) (st_market_queue (wk_st w) @ keep)"
  proof (rule queue_ok_grow)
    show "queue_ok (en_cx E) (wk_orders w) (wk_inst w) (st_market_queue (wk_st w) @ st_stop_orders (wk_st w))"
      using ok by (simp add: wk_ok_def)
  qed (use f in auto)
  then have "wk_ok E w'" using ok f by (simp add: wk_ok_def w' ids_fresh_def)
  then show ?thesis using f by (simp add: bar_facts_def w')
qed

text \<open>The number of executions of a walk is bounded by what was armed: the same locale, another relation.\<close>

definition fills_bounded :: "broker_env \<Rightarrow> int \<Rightarrow> work \<Rightarrow> work \<Rightarrow> bool" where
  "fills_bounded E t w w' \<longleftrightarrow> length (wk_fills w') + armed w' \<le> length (wk_fills w) + armed w"

lemma on_position_closed_fills: "on_position_closed w old = Inr w' \<Longrightarrow> wk_fills w' = wk_fills w"
  by (auto simp: on_position_closed_def Let_def elim!: rbind_InrE)

lemma execute_fills: "execute E w c p_ref ts reason = Inr w' \<Longrightarrow> length (wk_fills w') \<le> length (wk_fills w) + 1"
  unfolding execute_def Let_def
  by (auto elim!: rbind_InrE split: if_splits dest!: on_position_closed_fills)

lemma fire_fills: "fire E w tr p_ref t = Inr w' \<Longrightarrow> length (wk_fills w') \<le> length (wk_fills w) + 1"
  by (cases "tr_kind tr") (auto simp: fire_def Let_def elim!: rbind_InrE split: option.splits if_splits dest!: execute_fills)

interpretation fb: fire_relation fills_bounded
proof
  fix E t w w' w'' trs tr p_ref
  show "fills_bounded E t w w" by (simp add: fills_bounded_def)
  show "fills_bounded E t w w' \<Longrightarrow> fills_bounded E t w' w'' \<Longrightarrow> fills_bounded E t w w''" by (simp add: fills_bounded_def)
  assume "triggers w t = Inr trs" "tr \<in> set trs" "fire E w tr p_ref t = Inr w'"
  from fire_armed [OF this(3,1,2)] fire_fills [OF this(3)] show "fills_bounded E t w w'" by (simp add: fills_bounded_def)
qed

lemma fill_market_bound:
  "fill_market E w ba cs = Inr (w', keep) \<Longrightarrow>
     length (wk_fills w') \<le> length (wk_fills w) + length cs \<and> armed w' \<le> armed w"
proof (induction cs arbitrary: w keep)
  case (Cons c cs)
  then obtain po where po: "get_order (wk_broker w) c = Inr po" by (auto elim: rbind_InrE)
  consider (stay) keep' where "fill_market E w ba cs = Inr (w', keep')"
    | (run) w1 where "execute E w c (ba_o ba) (ba_open_time_ns ba) None = Inr w1" "fill_market E w1 ba cs = Inr (w', keep)"
    using Cons.prems po by (auto elim!: rbind_InrE split: if_splits)
  then show ?case
  proof cases
    case stay
    from Cons.IH [OF this] show ?thesis by simp
  next
    case run
    from Cons.IH [OF run(2)] execute_fills [OF run(1)] execute_armed [OF run(1)] show ?thesis by simp
  qed
qed simp

section \<open>A bar and a run of commands\<close>

definition broker_inv :: "broker_env \<Rightarrow> broker \<Rightarrow> bool" where
  "broker_inv E b \<longleftrightarrow> ids_fresh E b \<and> (\<forall>i st. dget (br_state b) i = Some st \<longrightarrow>
     in_symbol_canon (st_spec st) = i \<and> repr (en_cx E) (st_position st)
     \<and> queue_ok (en_cx E) (br_orders b) i (st_market_queue st @ st_stop_orders st))"

lemma funding_due_simps [simp]:
  "br_orders (funding_due b st t E ba) = br_orders b" "br_state (funding_due b st t E ba) = br_state b"
  "br_drawn_ids (funding_due b st t E ba) = br_drawn_ids b" "br_cost (funding_due b st t E ba) = br_cost b"
  by (simp_all add: funding_due_def charge_funding_def split: option.split)

lemma update_stats_facts:
  "update_stats cx b st ba = Inr st' \<Longrightarrow> st_spec st' = st_spec st \<and> st_position st' = st_position st
     \<and> st_market_queue st' = st_market_queue st \<and> st_stop_orders st' = st_stop_orders st"
  by (auto simp: update_stats_def Let_def elim!: rbind_InrE)

lemma bar_work_facts:
  assumes ok0: "wk_ok E w0" and run: "bar_work E ba w0 = Inr w3"
  shows "bar_facts E (ba_open_time_ns ba) w0 w3
    \<and> length (wk_fills w3) \<le> length (wk_fills w0) + length (st_market_queue (wk_st w0)) + armed w0"
proof -
  let ?t = "ba_open_time_ns ba"
  from run obtain w1 w2 where w1: "market_phase E ba w0 = Inr w1" and w2: "trigger_phase E ba w1 = Inr w2"
    and w3: "orphan_phase w2 = Inr w3" by (auto simp: bar_work_def elim!: rbind_InrE)
  have b1: "bar_facts E ?t w0 w1 \<and> length (wk_fills w1) + armed w1
    \<le> length (wk_fills w0) + length (st_market_queue (wk_st w0)) + armed w0"
  proof (cases "st_market_queue (wk_st w0) = []")
    case True
    with w1 ok0 show ?thesis by (simp add: market_phase_def bar_facts_refl)
  next
    case False
    with w1 obtain w keep where fm: "fill_market E w0 ba (st_market_queue (wk_st w0)) = Inr (w, keep)"
      and w1': "w1 = w\<lparr>wk_st := (wk_st w)\<lparr>st_market_queue := keep\<rparr>\<rparr>"
      by (auto simp: market_phase_def fill_market_orders_def elim!: rbind_InrE)
    from bs.R_fill_market [OF fm order_refl] ok0 have f: "bar_facts E ?t w0 w"
      and k: "set keep \<subseteq> set (st_market_queue (wk_st w))" by (auto simp: bar_step_def)
    have "bar_facts E ?t w w1" using bar_facts_ok [OF f] k by (intro bar_facts_silent) (auto simp: w1')
    with f fill_market_bound [OF fm] show ?thesis by (auto simp: w1' armed_def intro: bar_facts_trans)
  qed
  have b2: "bar_facts E ?t w1 w2 \<and> length (wk_fills w2) \<le> length (wk_fills w1) + armed w1"
  proof (cases "has_triggers (wk_st w1)")
    case False
    with w2 b1 show ?thesis by (auto simp: trigger_phase_def intro: bar_facts_refl bar_facts_ok)
  next
    case True
    with w2 have "walk_triggers E w1 ba = Inr w2" by (simp add: trigger_phase_def)
    from bs.R_walk_triggers [OF this] fb.R_walk_triggers [OF this] b1 show ?thesis
      by (auto simp: bar_step_def fills_bounded_def dest: bar_facts_ok)
  qed
  have b3: "bar_facts E ?t w2 w3 \<and> wk_fills w3 = wk_fills w2"
  proof (cases "st_stop_orders (wk_st w2) = []")
    case True
    with w3 b2 show ?thesis by (auto simp: orphan_phase_def intro: bar_facts_refl bar_facts_ok)
  next
    case False
    with w3 have ex: "expire_orphan_stops w2 = Inr w3" by (simp add: orphan_phase_def)
    then have "wk_fills w3 = wk_fills w2" by (auto simp: expire_orphan_stops_def Let_def elim!: rbind_InrE)
    with expire_orphans_facts [OF ex] b2 show ?thesis by (auto dest: bar_facts_ok)
  qed
  from b1 b2 b3 show ?thesis by (auto intro: bar_facts_trans)
qed

lemma on_bar_facts:
  assumes inv: "broker_inv E b" and run: "on_bar E b ba = Inr (b', fs)"
  shows "broker_inv E b' \<and> orders_grow (br_orders b) (br_orders b') \<and> fresh_fills (br_orders b) fs (br_orders b')
    \<and> (\<exists>st st'. dget (br_state b) (ba_instrument ba) = Some st \<and> br_state b' = dset (br_state b) (ba_instrument ba) st'
        \<and> (\<forall>lo. st_last_open_ns st = Some lo \<longrightarrow> lo < ba_open_time_ns ba) \<and> st_last_open_ns st' = Some (ba_open_time_ns ba)
        \<and> legal_fills (en_cx E) (br_orders b') (ba_instrument ba) (ba_open_time_ns ba) (st_position st) fs
        \<and> st_position st' = foldl (pos_step (en_cx E)) (st_position st) fs
        \<and> length fs \<le> length (st_market_queue st) + length (st_stop_orders st) + 2)"
proof -
  let ?i = "ba_instrument ba" and ?t = "ba_open_time_ns ba" and ?cx = "en_cx E"
  from run obtain st where st: "dget (br_state b) ?i = Some st" and lo: "\<forall>lo. st_last_open_ns st = Some lo \<longrightarrow> lo < ?t"
    by (auto simp: on_bar_def Let_def split: option.splits if_splits)
  define w0 where "w0 = \<lparr>wk_broker = funding_due b st ?t E ba, wk_st = st, wk_fills = []\<rparr>"
  from run st lo obtain w st' where w: "bar_work E ba w0 = Inr w" and us: "update_stats ?cx (wk_broker w) (wk_st w) ba = Inr st'"
    and b': "b' = (wk_broker w)\<lparr>br_state := dset (br_state (wk_broker w)) ?i (st'\<lparr>st_last_open_ns := Some ?t\<rparr>)\<rparr>"
    and fs: "fs = wk_fills w"
    by (auto simp: on_bar_def Let_def w0_def [symmetric] elim!: rbind_InrE split: if_splits option.splits)
  from inv st have i: "in_symbol_canon (st_spec st) = ?i" and ok0: "wk_ok E w0"
    by (auto simp: broker_inv_def wk_ok_def w0_def ids_fresh_def)
  from bar_work_facts [OF ok0 w] have b: "bar_facts E ?t w0 w"
    and n: "length fs \<le> length (st_market_queue st) + length (st_stop_orders st) + 2"
    by (auto simp: w0_def armed_def fs split: if_splits)
  note us' = update_stats_facts [OF us]
  from b have grow: "orders_grow (br_orders b) (br_orders b')" and ok: "wk_ok E w" and spec: "st_spec (wk_st w) = st_spec st"
    and bst: "br_state (wk_broker w) = br_state b"
    by (simp_all add: bar_facts_def w0_def b')
  have "ids_fresh E b'" using ok by (simp add: wk_ok_def ids_fresh_def b')
  moreover have "queue_ok ?cx (br_orders b') j (st_market_queue x @ st_stop_orders x)" if "dget (br_state b) j = Some x" for j x
    using inv that queue_ok_grow [OF _ grow order_refl] by (auto simp: broker_inv_def)
  moreover have "queue_ok ?cx (br_orders b') ?i (st_market_queue st' @ st_stop_orders st')" "repr ?cx (st_position st')"
    using ok us' by (simp_all add: wk_ok_def spec i b')
  ultimately have "broker_inv E b'" using inv us' i by (simp add: broker_inv_def b' bst spec)
  then show ?thesis using b grow us' st lo n i
    by (auto simp: bar_facts_def w0_def b' fs intro!: exI [of _ "st'\<lparr>st_last_open_ns := Some ?t\<rparr>"])
qed

section \<open>Runs of commands\<close>

datatype br_cmd =
    Submit int order_request
  | Bar bar
  | Cancel uuid
  | Cancel_all string
  | Set_tp string "dec option" "side option"
  | Set_liq string "dec option"
  | Set_rate string dec
  | Drain

text \<open>One command of the owner of the broker; the executions of a bar are appended to the log.\<close>

fun br_command :: "broker_env \<Rightarrow> broker \<times> fill list \<Rightarrow> br_cmd \<Rightarrow> (broker \<times> fill list) result" where
  "br_command E (b, lg) (Submit now req) = rbind (submit (en_cx E) b now req) (\<lambda>(b', _). Inr (b', lg))"
| "br_command E (b, lg) (Bar ba) = rbind (on_bar E b ba) (\<lambda>(b', fs). Inr (b', lg @ fs))"
| "br_command E (b, lg) (Cancel c) = rbind (cancel b c) (\<lambda>(b', _). Inr (b', lg))"
| "br_command E (b, lg) (Cancel_all i) = rbind (cancel_all b i) (\<lambda>b'. Inr (b', lg))"
| "br_command E (b, lg) (Set_tp i p s) = rbind (set_take_profit (en_cx E) b i p s) (\<lambda>b'. Inr (b', lg))"
| "br_command E (b, lg) (Set_liq i p) = rbind (set_liquidation_price b i p) (\<lambda>b'. Inr (b', lg))"
| "br_command E (b, lg) (Set_rate i r) = rbind (set_funding_rate b i r) (\<lambda>b'. Inr (b', lg))"
| "br_command E (b, lg) Drain = Inr (fst (drain_funding b), lg)"

definition cmd_ok :: "broker_env \<Rightarrow> br_cmd \<Rightarrow> bool" where
  "cmd_ok E c \<longleftrightarrow> (case c of Submit now req \<Rightarrow> or_client_order_id req \<notin> range (en_ids E) | _ \<Rightarrow> True)"

text \<open>A command that is not a bar: no execution, no position moves, the orders only progress.\<close>

definition quiet :: "broker_env \<Rightarrow> broker \<Rightarrow> broker \<Rightarrow> bool" where
  "quiet E b b' \<longleftrightarrow> broker_inv E b' \<and> orders_grow (br_orders b) (br_orders b')
     \<and> (\<forall>i. map_option st_position (dget (br_state b') i) = map_option st_position (dget (br_state b) i))
     \<and> (\<forall>i. map_option st_last_open_ns (dget (br_state b') i) = map_option st_last_open_ns (dget (br_state b) i))"

lemma quiet_refl: "broker_inv E b \<Longrightarrow> quiet E b b"
  by (simp add: quiet_def)

lemma ids_fresh_mono:
  assumes "ids_fresh E b" "br_drawn_ids b' = br_drawn_ids b"
    and "\<And>n. br_drawn_ids b \<le> n \<Longrightarrow> dget (br_orders b) (en_ids E n) = None \<Longrightarrow> dget (br_orders b') (en_ids E n) = None"
  shows "ids_fresh E b'"
  using assms by (simp add: ids_fresh_def)

lemma inv_fresh: "broker_inv E b \<Longrightarrow> ids_fresh E b"
  by (simp add: broker_inv_def)

lemma inv_queue: "broker_inv E b \<Longrightarrow> dget (br_state b) i = Some st
    \<Longrightarrow> queue_ok (en_cx E) (br_orders b) i (st_market_queue st @ st_stop_orders st)"
  by (simp add: broker_inv_def)

text \<open>Rewriting the state of one instrument and growing the orders is quiet.\<close>

lemma quiet_state:
  assumes inv: "broker_inv E b" and st: "dget (br_state b) i = Some st" and grow: "orders_grow (br_orders b) (br_orders b')"
    and fresh: "ids_fresh E b'"
    and b': "br_state b' = dset (br_state b) i st'" "st_spec st' = st_spec st" "st_position st' = st_position st"
      "st_last_open_ns st' = st_last_open_ns st"
    and q: "queue_ok (en_cx E) (br_orders b') i (st_market_queue st' @ st_stop_orders st')"
  shows "quiet E b b'"
proof -
  have "queue_ok (en_cx E) (br_orders b') j (st_market_queue x @ st_stop_orders x)" if "dget (br_state b) j = Some x" for j x
    using inv that queue_ok_grow [OF _ grow order_refl] by (auto simp: broker_inv_def)
  then have "broker_inv E b'" using inv fresh q st by (simp add: broker_inv_def b')
  then show ?thesis using grow st by (simp add: quiet_def b')
qed

lemma quiet_levels:
  assumes inv: "broker_inv E b" and st: "dget (br_state b) i = Some st"
    and st': "st_spec st' = st_spec st" "st_position st' = st_position st" "st_last_open_ns st' = st_last_open_ns st"
      "st_market_queue st' = st_market_queue st" "st_stop_orders st' = st_stop_orders st"
  shows "quiet E b (b\<lparr>br_state := dset (br_state b) i st'\<rparr>)"
  by (rule quiet_state [OF inv st, where st' = st']) (use inv_fresh [OF inv] inv_queue [OF inv st] st' in \<open>simp_all add: ids_fresh_def\<close>)

lemma quiet_orders:
  assumes inv: "broker_inv E b" and grow: "orders_grow (br_orders b) (br_orders b')" and "br_state b' = br_state b"
    and fresh: "ids_fresh E b'"
  shows "quiet E b b'"
proof -
  have "queue_ok (en_cx E) (br_orders b') j (st_market_queue x @ st_stop_orders x)" if "dget (br_state b) j = Some x" for j x
    using inv that queue_ok_grow [OF _ grow order_refl] by (auto simp: broker_inv_def)
  then show ?thesis using assms by (simp add: quiet_def broker_inv_def)
qed

lemma submit_quiet:
  assumes inv: "broker_inv E b" and id: "or_client_order_id req \<notin> en_ids E ` {br_drawn_ids b..}"
    and run: "submit (en_cx E) b now req = Inr (b', ack)"
  shows "quiet E b b'"
proof (cases "dget (br_orders b) (or_client_order_id req)")
  case (Some po)
  with run inv show ?thesis by (simp add: submit_def quiet_refl)
next
  case None
  let ?c = "or_client_order_id req"
  have id': "en_ids E x \<noteq> ?c" if "br_drawn_ids b \<le> x" for x using id that by (metis atLeast_iff imageI)
  have rej: "quiet E b (fst (br_reject b req code now))" for code
  proof (rule quiet_orders [OF inv])
    show "orders_grow (br_orders b) (br_orders (fst (br_reject b req code now)))"
      using None by (simp add: br_reject_def orders_grow_fresh)
    show "ids_fresh E (fst (br_reject b req code now))"
      by (rule ids_fresh_mono [OF inv_fresh [OF inv]]) (use id' in \<open>auto simp: br_reject_def\<close>)
  qed (simp add: br_reject_def)
  have enq: "quiet E b (fst (enqueue b st r now))"
    if st: "dget (br_state b) (or_instrument req) = Some st" and r: "or_client_order_id r = ?c"
      "or_instrument r = or_instrument req" "repr (en_cx E) (or_qty r)" for st r
  proof -
    let ?po = "new_order r (Some (br_seq b + 1)) OS_NEW None now"
    have grow: "orders_grow (br_orders b) (dset (br_orders b) ?c ?po)" using None by (rule orders_grow_fresh)
    define st' where "st' = (if or_otype r = MARKET then st\<lparr>st_market_queue := st_market_queue st @ [?c]\<rparr>
      else st\<lparr>st_stop_orders := st_stop_orders st @ [?c]\<rparr>)"
    have b': "br_state (fst (enqueue b st r now)) = dset (br_state b) (or_instrument req) st'"
      "br_orders (fst (enqueue b st r now)) = dset (br_orders b) ?c ?po"
      "br_drawn_ids (fst (enqueue b st r now)) = br_drawn_ids b"
      by (simp_all add: enqueue_def Let_def st'_def r)
    from queue_ok_grow [OF inv_queue [OF inv st] grow order_refl]
    have q: "queue_ok (en_cx E) (dset (br_orders b) ?c ?po) (or_instrument req) (st_market_queue st' @ st_stop_orders st')"
      using r by (auto simp: queue_ok_def new_order_def st'_def)
    have fresh: "ids_fresh E (fst (enqueue b st r now))"
      by (rule ids_fresh_mono [OF inv_fresh [OF inv] b'(3)]) (use id' in \<open>auto simp: b'(2)\<close>)
    show ?thesis
      by (rule quiet_state [OF inv st _ fresh b'(1)]) (use grow q in \<open>simp_all add: b'(2)\<close>, simp_all add: st'_def)
  qed
  show ?thesis
  proof (cases "dget (br_state b) (or_instrument req)")
    case None': None
    with run None show ?thesis using rej [of RC_VENUE_ERROR] by (auto simp: submit_def)
  next
    case st: (Some st)
    with run None obtain qty where fq: "floor_qty (en_cx E) (or_qty req) (in_step_size (st_spec st)) = Inr qty"
      by (auto simp: submit_def elim!: rbind_InrE)
    have rq: "repr (en_cx E) qty" using floor_qty_on_grid [OF fq] by (rule on_grid_repr)
    have "(\<exists>code. br_reject b req code now = (b', ack)) \<or> enqueue b st (req\<lparr>or_qty := qty\<rparr>) now = (b', ack)
      \<or> (\<exists>p. enqueue b st (req\<lparr>or_qty := qty, or_stop_price := Some p\<rparr>) now = (b', ack))"
      using run None st fq by (auto simp: submit_def elim!: rbind_InrE split: if_splits option.splits)
    moreover have "quiet E b (fst (enqueue b st (req\<lparr>or_qty := qty\<rparr>) now))"
      "quiet E b (fst (enqueue b st (req\<lparr>or_qty := qty, or_stop_price := Some p\<rparr>) now))" for p
      by (rule enq [OF st], use rq in simp_all)+
    ultimately show ?thesis using rej by (metis fst_conv)
  qed
qed

lemma cancel_ids_grow:
  "cancel_ids os cs = Inr os' \<Longrightarrow> orders_grow os os' \<and> (\<forall>c. dget os' c = None \<longleftrightarrow> dget os c = None)"
proof (induction cs arbitrary: os)
  case (Cons c cs)
  then obtain po where po: "dget os c = Some po" by (auto split: option.splits)
  let ?os = "if po_status po = OS_NEW then dset os c (po\<lparr>po_status := OS_CANCELED\<rparr>) else os"
  have g: "orders_grow os ?os" using orders_grow_set [OF po, of "po\<lparr>po_status := OS_CANCELED\<rparr>"] by simp
  have "cancel_ids ?os cs = Inr os'" using Cons.prems po by simp
  from Cons.IH [OF this] orders_grow_trans [OF g] po show ?case by (auto split: if_splits)
qed simp

lemma cancel_quiet:
  assumes inv: "broker_inv E b" and run: "cancel b c = Inr (b', r)"
  shows "quiet E b b'"
proof -
  show ?thesis
  proof (cases "b' = b")
    case True
    with inv show ?thesis by (simp add: quiet_refl)
  next
    case False
    with run obtain po where 1: "dget (br_orders b) c = Some po" by (auto simp: cancel_def split: option.splits)
    with run False have 2: "po_status po = OS_NEW" by (auto simp: cancel_def split: if_splits)
    let ?i = "or_instrument (po_req po)"
    from run False 1 2 obtain st where 3: "dget (br_state b) ?i = Some st"
      by (auto simp: cancel_def br_require_def split: option.splits)
    from run 1 2 3 have 4: "b' = b\<lparr>br_orders := dset (br_orders b) c (po\<lparr>po_status := OS_CANCELED\<rparr>), br_state := dset (br_state b) ?i
        (st\<lparr>st_market_queue := remove1 c (st_market_queue st), st_stop_orders := remove1 c (st_stop_orders st)\<rparr>)\<rparr>"
      by (simp add: cancel_def br_require_def)
    have g: "orders_grow (br_orders b) (br_orders b')" using orders_grow_set [OF 1 2] by (simp add: 4)
    have q: "queue_ok (en_cx E) (br_orders b') (or_instrument (po_req po)) (remove1 c (st_market_queue st) @ remove1 c (st_stop_orders st))"
    proof (rule queue_ok_grow [OF _ g])
      show "queue_ok (en_cx E) (br_orders b) (or_instrument (po_req po)) (st_market_queue st @ st_stop_orders st)"
        using inv 3 by (simp add: broker_inv_def)
    qed (use set_remove1_subset in fastforce)
    show ?thesis
      by (rule quiet_state [OF inv 3 g, where st' = "st\<lparr>st_market_queue := remove1 c (st_market_queue st), st_stop_orders := remove1 c (st_stop_orders st)\<rparr>"])
        (rule ids_fresh_mono [OF inv_fresh [OF inv]], use 1 q in \<open>auto simp: 4\<close>)
  qed
qed

lemma cancel_all_quiet:
  assumes inv: "broker_inv E b" and run: "cancel_all b i = Inr b'"
  shows "quiet E b b'"
proof (cases "dget (br_state b) i")
  case None
  with run inv show ?thesis by (simp add: cancel_all_def quiet_refl)
next
  case (Some st)
  with run obtain os where os: "cancel_ids (br_orders b) (st_market_queue st @ st_stop_orders st) = Inr os"
    and b': "b' = b\<lparr>br_orders := os, br_state := dset (br_state b) i
      (st\<lparr>st_market_queue := [], st_stop_orders := [], st_tp_price := None, st_tp_side := 0\<rparr>)\<rparr>"
    by (auto simp: cancel_all_def elim!: rbind_InrE)
  note g = cancel_ids_grow [OF os]
  show ?thesis
    by (rule quiet_state [OF inv Some, where st' = "st\<lparr>st_market_queue := [], st_stop_orders := [], st_tp_price := None, st_tp_side := 0\<rparr>"])
      (use g ids_fresh_mono [OF inv_fresh [OF inv], of b'] in \<open>simp_all add: b' queue_ok_def\<close>)
qed

lemma set_quiet:
  assumes inv: "broker_inv E b"
  shows "set_take_profit cx b i p s = Inr b' \<Longrightarrow> quiet E b b'"
    and "set_liquidation_price b i p = Inr b' \<Longrightarrow> quiet E b b'"
    and "set_funding_rate b i r = Inr b' \<Longrightarrow> quiet E b b'"
  by (auto simp: set_take_profit_def set_liquidation_price_def set_funding_rate_def br_require_def
    elim!: rbind_InrE split: option.splits if_splits intro!: quiet_levels [OF inv])

lemma drain_quiet: "broker_inv E b \<Longrightarrow> quiet E b (fst (drain_funding b))"
  by (rule quiet_orders) (simp_all add: drain_funding_def broker_inv_def ids_fresh_def)

lemma br_command_cases:
  assumes run: "br_command E (b, lg) c = Inr (b', lg')" and inv: "broker_inv E b" and ok: "cmd_ok E c"
  shows "(lg' = lg \<and> quiet E b b' \<and> (\<forall>ba. c \<noteq> Bar ba)) \<or> (\<exists>ba fs. c = Bar ba \<and> on_bar E b ba = Inr (b', fs) \<and> lg' = lg @ fs)"
  using assms
  by (cases c) (auto simp: cmd_ok_def elim!: rbind_InrE
    intro: submit_quiet cancel_quiet cancel_all_quiet set_quiet drain_quiet)

end
