(* ===== verification/BrokerProps.thy ===== *)
theory BrokerProps
  imports BrokerRuns
begin

text \<open>
  The properties of the paper broker over runs, and its agreement with the portfolio: the log of the executions,
  the position of the account that books it, the order of bars and of the triggers inside a bar.
\<close>

section \<open>The log of a run\<close>

definition log_ok :: "broker_env \<Rightarrow> broker \<Rightarrow> fill list \<Rightarrow> bool" where
  "log_ok E b lg \<longleftrightarrow> distinct (coids lg)
     \<and> (\<forall>f \<in> set lg. \<exists>p. legal_fill (en_cx E) (br_orders b) (fl_instrument f) (fl_ts_fill_ns f) p f)
     \<and> (\<forall>i st. dget (br_state b) i = Some st \<longrightarrow>
          st_position st = foldl (pos_step (en_cx E)) 0 (filter (\<lambda>f. fl_instrument f = i) lg))"

definition run_inv :: "broker_env \<Rightarrow> broker \<times> fill list \<Rightarrow> bool" where
  "run_inv E s \<longleftrightarrow> broker_inv E (fst s) \<and> log_ok E (fst s) (snd s)"

lemma legal_fills_each: "legal_fills cx os i t p fs \<Longrightarrow> f \<in> set fs \<Longrightarrow> \<exists>q. legal_fill cx os i t q f"
  by (induction fs arbitrary: p) auto

lemma legal_fill_shape: "legal_fill cx os i t p f \<Longrightarrow> fl_instrument f = i \<and> fl_ts_fill_ns f = t \<and> settled os (fl_client_order_id f)"
  by (auto simp: legal_fill_def settled_def)

lemma register_specs_facts:
  "dget (register_specs rate ss d) i = Some st \<Longrightarrow>
     dget d i = Some st \<or> (in_symbol_canon (st_spec st) = i \<and> st_position st = 0 \<and> st_market_queue st = [] \<and> st_stop_orders st = []
       \<and> st_last_open_ns st = None)"
  by (induction rate ss d rule: register_specs.induct) (auto simp: new_inst_state_def split: if_splits)

lemma broker_init_inv:
  assumes "broker_init (en_cx E) cost specs lam rate = Inr b" "inj (en_ids E)"
  shows "run_inv E (b, [])"
proof -
  from assms(1) have "br_orders b = []" "br_state b = register_specs rate specs []"
    by (auto simp: broker_init_def split: if_splits)
  then show ?thesis using assms(2) register_specs_facts [of rate specs "[]"]
    by (fastforce simp: run_inv_def broker_inv_def log_ok_def ids_fresh_def queue_ok_def)
qed

lemma log_ok_grow:
  assumes "log_ok E b lg" "orders_grow (br_orders b) (br_orders b')"
    and "\<And>i. map_option st_position (dget (br_state b') i) = map_option st_position (dget (br_state b) i)"
  shows "log_ok E b' lg"
proof -
  have "st_position st = foldl (pos_step (en_cx E)) 0 (filter (\<lambda>f. fl_instrument f = i) lg)"
    if "dget (br_state b') i = Some st" for i st
    using assms(1) assms(3) [of i] that by (cases "dget (br_state b) i") (auto simp: log_ok_def)
  moreover have "\<forall>f \<in> set lg. \<exists>p. legal_fill (en_cx E) (br_orders b') (fl_instrument f) (fl_ts_fill_ns f) p f"
    using assms(1,2) unfolding log_ok_def by (meson legal_fill_grow)
  ultimately show ?thesis using assms(1) by (simp add: log_ok_def)
qed

lemma run_inv_step:
  assumes inv: "run_inv E s" and ok: "cmd_ok E c" and run: "br_command E s c = Inr s'"
  shows "run_inv E s'"
proof -
  obtain b lg b' lg' where s: "s = (b, lg)" "s' = (b', lg')" by fastforce
  have bi: "broker_inv E b" and lo: "log_ok E b lg" using inv by (simp_all add: run_inv_def s)
  from br_command_cases [OF run [unfolded s] bi ok] show ?thesis
  proof
    assume "lg' = lg \<and> quiet E b b' \<and> (\<forall>ba. c \<noteq> Bar ba)"
    then show ?thesis using log_ok_grow [OF lo] by (auto simp: run_inv_def s quiet_def)
  next
    assume "\<exists>ba fs. c = Bar ba \<and> on_bar E b ba = Inr (b', fs) \<and> lg' = lg @ fs"
    then obtain ba fs where ob: "on_bar E b ba = Inr (b', fs)" and lg': "lg' = lg @ fs" by blast
    let ?i = "ba_instrument ba" and ?t = "ba_open_time_ns ba" and ?cx = "en_cx E"
    from on_bar_facts [OF bi ob] obtain st st' where bi': "broker_inv E b'" and grow: "orders_grow (br_orders b) (br_orders b')"
      and fresh: "fresh_fills (br_orders b) fs (br_orders b')" and st: "dget (br_state b) ?i = Some st"
      and bs: "br_state b' = dset (br_state b) ?i st'"
      and legal: "legal_fills ?cx (br_orders b') ?i ?t (st_position st) fs"
      and pos: "st_position st' = foldl (pos_step ?cx) (st_position st) fs" by blast
    have inst: "fl_instrument f = ?i" "fl_ts_fill_ns f = ?t" if "f \<in> set fs" for f
      using legal_fills_each [OF legal that] legal_fill_shape by blast+
    have "set (coids lg) \<inter> set (coids fs) = {}"
    proof -
      have "settled (br_orders b) c" if "c \<in> set (coids lg)" for c
        using lo that legal_fill_shape by (fastforce simp: log_ok_def)
      moreover have "\<not> settled (br_orders b) c" if "c \<in> set (coids fs)" for c
        using fresh that unfolding fresh_fills_def by blast
      ultimately show ?thesis by blast
    qed
    then have "distinct (coids lg')" using lo fresh by (simp add: lg' log_ok_def fresh_fills_def)
    moreover have "\<exists>p. legal_fill ?cx (br_orders b') (fl_instrument f) (fl_ts_fill_ns f) p f" if "f \<in> set lg'" for f
      using that lo grow legal_fills_each [OF legal] inst by (fastforce simp: lg' log_ok_def intro: legal_fill_grow)
    moreover have "st_position x = foldl (pos_step ?cx) 0 (filter (\<lambda>f. fl_instrument f = i) lg')"
      if "dget (br_state b') i = Some x" for i x
    proof (cases "i = ?i")
      case True
      have "filter (\<lambda>f. fl_instrument f = ?i) fs = fs" using inst by (simp add: filter_id_conv)
      then show ?thesis using that lo st pos by (simp add: True bs lg' log_ok_def)
    next
      case False
      then have "filter (\<lambda>f. fl_instrument f = i) fs = []" using inst by (auto simp: filter_empty_conv)
      then show ?thesis using that lo False by (simp add: bs lg' log_ok_def)
    qed
    ultimately show ?thesis using bi' by (simp add: run_inv_def s log_ok_def)
  qed
qed

text \<open>The checked step, so that the invariant of every run is an instance of the shared locale.\<close>

definition checked_command :: "broker_env \<Rightarrow> broker \<times> fill list \<Rightarrow> br_cmd \<Rightarrow> (broker \<times> fill list) result" where
  "checked_command E s c = (if cmd_ok E c then br_command E s c else Inl ValueError)"

interpretation br: step_invariant "checked_command E" "run_inv E" for E
  by unfold_locales (auto simp: checked_command_def intro: run_inv_step split: if_splits)

lemma checked_run:
  "run_steps (br_command E) s cs = Inr s' \<Longrightarrow> \<forall>c \<in> set cs. cmd_ok E c \<Longrightarrow> run_steps (checked_command E) s cs = Inr s'"
  by (induction cs arbitrary: s) (auto simp: checked_command_def rbind_Inr_iff)

lemma run_inv_run:
  assumes "broker_init (en_cx E) cost specs lam rate = Inr b0" "inj (en_ids E)" "\<forall>c \<in> set cs. cmd_ok E c"
    and "run_steps (br_command E) (b0, []) cs = Inr s"
  shows "run_inv E s"
  using br.run_inv [OF broker_init_inv [OF assms(1,2)] checked_run [OF assms(4,3)]] .

section \<open>The account that books the log\<close>

fun book_fills :: "dctx \<Rightarrow> portfolio \<Rightarrow> (fill \<Rightarrow> exit_reason option) \<Rightarrow> fill list \<Rightarrow> portfolio result" where
  "book_fills cx p r [] = Inr p"
| "book_fills cx p r (f # fs) = rbind (apply_fill cx p f (r f)) (\<lambda>(p', _). book_fills cx p' r fs)"

definition qty_repr :: "dctx \<Rightarrow> portfolio \<Rightarrow> bool" where
  "qty_repr cx p \<longleftrightarrow> (\<forall>i. repr cx (position_qty p i))"

lemma fill_reduce_qty:
  assumes sg: "sg \<in> {- 1, 1}" and qty: "0 < qty" "repr cx qty" and dec: "\<not> increases pos sg" and rq: "repr cx (ps_qty pos)"
    and run: "fill_reduce cx pos sg qty price fe ts reason = (pos', out)"
  shows "ps_qty pos' = dadd cx (ps_qty pos) (dmul cx (of_int sg) qty)"
proof -
  let ?q = "ps_qty pos"
  have opp: "of_int sg * ?q < 0" using dec by (simp add: increases_iff [OF sg] not_le)
  have cl: "closed_qty cx pos qty = min qty \<bar>?q\<bar>" using rq by (simp add: closed_qty_def dabs_repr)
  show ?thesis
  proof (cases "qty \<le> \<bar>?q\<bar>")
    case True
    then have "closed_qty cx pos qty = qty" by (simp add: cl)
    then show ?thesis using run
      by (auto simp: fill_reduce_def Let_def dsub_def finish_trade_def split: prod.splits if_splits)
  next
    case False
    have c: "closed_qty cx pos qty = \<bar>?q\<bar>" using False by (simp add: cl)
    have z: "?q + of_int sg * \<bar>?q\<bar> = 0" using sg opp by auto
    then have q1: "dadd cx ?q (dmul cx (of_int sg) \<bar>?q\<bar>) = 0" using rq sg by (simp add: signed_repr dadd_def)
    have rem: "0 \<le> dsub cx qty \<bar>?q\<bar>" using False by (simp add: dsub_def dr.rnd_nonneg)
    have "?q + of_int sg * qty = of_int sg * (qty - \<bar>?q\<bar>)" using z by (simp add: algebra_simps)
    then have goal: "dadd cx ?q (dmul cx (of_int sg) qty) = of_int sg * dsub cx qty \<bar>?q\<bar>"
      using signed_repr [OF sg qty(2)] sg by (auto simp: dadd_def dsub_def dr.rnd_minus) (metis dr.rnd_minus minus_diff_eq)
    show ?thesis
    proof (cases "0 < dsub cx qty \<bar>?q\<bar>")
      case True
      then show ?thesis using run q1 goal signed_repr [OF sg, of cx "dsub cx qty \<bar>?q\<bar>"]
        by (auto simp: fill_reduce_def Let_def c finish_trade_def start_trade_def)
    next
      case False
      then have "dsub cx qty \<bar>?q\<bar> = 0" using rem by simp
      then show ?thesis using run q1 goal by (auto simp: fill_reduce_def Let_def c finish_trade_def)
    qed
  qed
qed

lemma apply_fill_qty:
  assumes qr: "qty_repr cx p" and qty: "0 < fl_qty f" "repr cx (fl_qty f)" and run: "apply_fill cx p f r = Inr (p', out)"
  shows "position_qty p' i = (if fl_instrument f = i then pos_step cx (position_qty p i) f else position_qty p i)"
    and "qty_repr cx p'"
proof -
  define sg where "sg = side_int (fl_side f)"
  define pos where "pos = fee_added cx p f"
  have sg0: "sg \<noteq> 0" using run by (auto simp: apply_fill_def Let_def sg_def)
  then have sg: "sg \<in> {- 1, 1}" unfolding sg_def by (rule side_int_cases)
  have pq: "ps_qty pos = position_qty p (fl_instrument f)"
    by (simp add: pos_def position_qty_def position_of_def new_position_def split: option.split)
  obtain pos' where pp: "pf_positions p' = dset (pf_positions p) (fl_instrument f) pos'"
    and q': "ps_qty pos' = dadd cx (ps_qty pos) (dmul cx (of_int sg) (fl_qty f))"
  proof (cases "increases pos sg")
    case True
    show thesis
      by (rule that [of "fill_increase cx pos sg (fl_qty f) (fl_price f) (fl_fee f) (fl_ts_fill_ns f)"])
        (use run sg0 True in \<open>auto simp: apply_fill_def Let_def sg_def [symmetric] pos_def fee_added_def fill_increase_def\<close>)
  next
    case False
    obtain pos' o' where fr: "fill_reduce cx pos sg (fl_qty f) (fl_price f) (fl_fee f) (fl_ts_fill_ns f) r = (pos', o')"
      by fastforce
    have "repr cx (ps_qty pos)" using qr by (simp add: pq qty_repr_def)
    from fill_reduce_qty [OF sg qty False this fr] show thesis
      by (rule that [rotated]) (use run sg0 False fr in \<open>auto simp: apply_fill_def Let_def sg_def [symmetric] pos_def fee_added_def\<close>)
  qed
  show eq: "position_qty p' i = (if fl_instrument f = i then pos_step cx (position_qty p i) f else position_qty p i)" for i
    by (auto simp: position_qty_def [of p'] pp q' pos_step_def signed_qty_def sg_def pq) (simp_all add: position_qty_def)
  show "qty_repr cx p'" using qr by (simp add: qty_repr_def eq pos_step_def)
qed

lemma book_fills_qty:
  "book_fills cx p r fs = Inr p' \<Longrightarrow> qty_repr cx p \<Longrightarrow> \<forall>f \<in> set fs. 0 < fl_qty f \<and> repr cx (fl_qty f)
    \<Longrightarrow> position_qty p' i = foldl (pos_step cx) (position_qty p i) (filter (\<lambda>f. fl_instrument f = i) fs)"
proof (induction fs arbitrary: p)
  case (Cons f fs)
  then obtain p1 out where af: "apply_fill cx p f (r f) = Inr (p1, out)" and "book_fills cx p1 r fs = Inr p'"
    by (auto elim!: rbind_InrE)
  with Cons apply_fill_qty [OF Cons.prems(2) _ _ af] show ?case by simp
qed simp

section \<open>Properties\<close>


text \<open>The broker and the account agree: after any run, an account that starts empty and books the broker's executions in
  their order has, in every instrument of the broker, the position the broker keeps - rounding, partial
  closings and flips included.\<close>
theorem broker_and_account_agree:
  assumes init: "broker_init (en_cx E) cost specs lam rate = Inr b0" and ids: "inj (en_ids E)" "\<forall>c \<in> set cs. cmd_ok E c"
    and run: "run_steps (br_command E) (b0, []) cs = Inr (b, lg)"
    and acc: "portfolio_init cash = Inr p0" and book: "book_fills (en_cx E) p0 r lg = Inr p"
    and i: "br_position b i = Inr q"
  shows "position_qty p i = q"
proof -
  from run_inv_run [OF init ids run] have lo: "log_ok E b lg" by (simp add: run_inv_def)
  from i obtain st where st: "dget (br_state b) i = Some st" "q = st_position st"
    by (auto simp: br_position_def br_require_def elim!: rbind_InrE split: option.splits)
  from acc have p0: "position_qty p0 j = 0" for j by (auto simp: portfolio_init_def position_qty_def split: if_splits)
  have "\<forall>f \<in> set lg. 0 < fl_qty f \<and> repr (en_cx E) (fl_qty f)" using lo unfolding log_ok_def legal_fill_def by blast
  from book_fills_qty [OF book _ this] lo st show ?thesis by (simp add: qty_repr_def p0 log_ok_def)
qed

text \<open>The open times of the bars of one instrument, in the order of the run.\<close>

fun bar_times :: "string \<Rightarrow> br_cmd list \<Rightarrow> int list" where
  "bar_times i [] = []"
| "bar_times i (Bar ba # cs) = (if ba_instrument ba = i then ba_open_time_ns ba # bar_times i cs else bar_times i cs)"
| "bar_times i (c # cs) = bar_times i cs"

definition last_open :: "broker \<Rightarrow> string \<Rightarrow> int option" where
  "last_open b i = (case dget (br_state b) i of None \<Rightarrow> None | Some st \<Rightarrow> st_last_open_ns st)"

lemma bar_times_not_bar: "\<forall>ba. c \<noteq> Bar ba \<Longrightarrow> bar_times i (c # cs) = bar_times i cs"
  by (cases c) auto

lemma bar_times_run:
  "run_steps (br_command E) (b, lg) cs = Inr (b', lg') \<Longrightarrow> broker_inv E b \<Longrightarrow> \<forall>c \<in> set cs. cmd_ok E c
    \<Longrightarrow> sorted_wrt (<) (bar_times i cs) \<and> (\<forall>x \<in> set (bar_times i cs). \<forall>lo. last_open b i = Some lo \<longrightarrow> lo < x)
      \<and> (\<forall>x \<in> set (bar_times i cs). \<exists>lo. last_open b' i = Some lo \<and> x \<le> lo) \<and> (\<forall>lo. last_open b i = Some lo \<longrightarrow> (\<exists>u. last_open b' i = Some u \<and> lo \<le> u))"
proof (induction cs arbitrary: b lg)
  case (Cons c cs)
  then obtain b1 l1 where c: "br_command E (b, lg) c = Inr (b1, l1)" and r: "run_steps (br_command E) (b1, l1) cs = Inr (b', lg')"
    by (auto elim!: rbind_InrE)
  have ok: "cmd_ok E c" "\<forall>c \<in> set cs. cmd_ok E c" using Cons.prems(3) by simp_all
  from br_command_cases [OF c Cons.prems(2) ok(1)] show ?case
  proof
    assume q: "l1 = lg \<and> quiet E b b1 \<and> (\<forall>ba. c \<noteq> Bar ba)"
    then have "last_open b1 i = last_open b i"
      by (cases "dget (br_state b) i"; cases "dget (br_state b1) i") (auto simp: quiet_def last_open_def dest: spec [of _ i])
    with Cons.IH [OF r _ ok(2)] q show ?thesis by (simp add: quiet_def bar_times_not_bar)
  next
    assume "\<exists>ba fs. c = Bar ba \<and> on_bar E b ba = Inr (b1, fs) \<and> l1 = lg @ fs"
    then obtain ba fs where c: "c = Bar ba" and ob: "on_bar E b ba = Inr (b1, fs)" by blast
    from on_bar_facts [OF Cons.prems(2) ob] obtain st st' where inv: "broker_inv E b1"
      and st: "dget (br_state b) (ba_instrument ba) = Some st" "br_state b1 = dset (br_state b) (ba_instrument ba) st'"
      "\<forall>lo. st_last_open_ns st = Some lo \<longrightarrow> lo < ba_open_time_ns ba" "st_last_open_ns st' = Some (ba_open_time_ns ba)" by blast
    have lo: "last_open b1 i = (if ba_instrument ba = i then Some (ba_open_time_ns ba) else last_open b i)"
      using st by (simp add: last_open_def)
    show ?thesis
    proof (cases "ba_instrument ba = i")
      case True
      let ?t = "ba_open_time_ns ba"
      have b: "lo < ?t" if "last_open b i = Some lo" for lo using st(1,3) True that by (simp add: last_open_def)
      have b1: "last_open b1 i = Some ?t" using lo True by simp
      from Cons.IH [OF r inv ok(2)] b1 have ts: "sorted_wrt (<) (bar_times i cs)" "\<forall>x \<in> set (bar_times i cs). ?t < x"
        "\<forall>x \<in> set (bar_times i cs). \<exists>lo. last_open b' i = Some lo \<and> x \<le> lo" by simp_all
      from Cons.IH [OF r inv ok(2)] b1 obtain u where u: "last_open b' i = Some u" "?t \<le> u" by blast
      have bt: "bar_times i (c # cs) = ?t # bar_times i cs" by (simp add: c True)
      show ?thesis unfolding bt using ts u b by (auto dest: order.strict_trans b intro: order.strict_implies_order)
    next
      case False
      with Cons.IH [OF r inv ok(2)] lo show ?thesis by (simp add: c)
    qed
  qed
qed auto

text \<open>The bars of an instrument reach the broker in strictly increasing order: in a run without an exception their open times
  increase, and after it every bar that is not later than all of them, or of an unknown instrument, is refused with
  ValueError.\<close>
theorem bars_strictly_increase:
  assumes init: "broker_init (en_cx E) cost specs lam rate = Inr b0" and ids: "inj (en_ids E)" "\<forall>c \<in> set cs. cmd_ok E c"
    and run: "run_steps (br_command E) (b0, []) cs = Inr (b, lg)"
  shows "sorted_wrt (<) (bar_times i cs)
    \<and> (\<forall>ba. ba_instrument ba = i \<longrightarrow> (\<exists>x \<in> set (bar_times i cs). ba_open_time_ns ba \<le> x) \<longrightarrow> on_bar E b ba = Inl ValueError)
    \<and> (\<forall>ba. br_position b (ba_instrument ba) = Inl KeyError \<longrightarrow> on_bar E b ba = Inl ValueError)"
proof -
  have "broker_inv E b0" using broker_init_inv [OF init ids(1)] by (simp add: run_inv_def)
  note t = bar_times_run [OF run this ids(2), of i]
  have "on_bar E b ba = Inl ValueError" if "ba_instrument ba = i" "x \<in> set (bar_times i cs)" "ba_open_time_ns ba \<le> x" for ba x
  proof -
    from t that(2) obtain lo where "last_open b i = Some lo" "x \<le> lo" by blast
    then show ?thesis using that by (auto simp: on_bar_def last_open_def split: option.splits)
  qed
  moreover have "on_bar E b ba = Inl ValueError" if "br_position b (ba_instrument ba) = Inl KeyError" for ba
    using that by (auto simp: on_bar_def br_position_def br_require_def split: option.splits)
  ultimately show ?thesis using t by blast
qed

section \<open>The pessimistic path\<close>

lemma walk_segment_quiet: "triggers w t = Inr [] \<Longrightarrow> walk_segment E b t cur w = Inr w"
  by (subst walk_segment.simps) (simp add: segment_first_def)

lemma walk_path_quiet: "triggers w t = Inr [] \<Longrightarrow> walk_path E t cur bs w = Inr w"
  by (induction bs arbitrary: cur) (simp_all add: walk_segment_quiet)

lemma open_loop_quiet: "triggers w t = Inr trs \<Longrightarrow> filter (behind_open p) trs = [] \<Longrightarrow> open_loop E p t w = Inr w"
  by (subst open_loop.simps) simp

text \<open>Executing a sell stop that covers the whole long position leaves nothing armed.\<close>

lemma execute_stop_closes:
  assumes po: "get_order (wk_broker w) c = Inr po" and side: "or_side (po_req po) = SHORT" and ro: "or_reduce_only (po_req po)"
    and ot: "or_otype (po_req po) = STOP_MARKET" and qty: "st_position (wk_st w) \<le> or_qty (po_req po)"
    and p: "0 < st_position (wk_st w)" "repr (en_cx E) (st_position (wk_st w))" and ss: "st_stop_orders (wk_st w) = []"
    and tp: "st_tp_side (wk_st w) \<in> {0, 1}" and run: "execute E w c p_ref t None = Inr w'"
  shows "\<exists>f. wk_fills w' = wk_fills w @ [f] \<and> fl_client_order_id f = or_client_order_id (po_req po)
      \<and> fl_qty f = st_position (wk_st w) \<and> st_position (wk_st w') = 0 \<and> st_stop_orders (wk_st w') = []
      \<and> st_tp_price (wk_st w') = None \<and> st_liq_price (wk_st w') = None \<and> exit_reason_of (wk_broker w') c = Some ER_STOP"
proof -
  let ?cx = "en_cx E" and ?p = "st_position (wk_st w)" and ?req = "po_req po"
  have sp: "sign_of ?p = 1" using p by simp
  have q: "executable_qty ?cx (wk_st w) ?req = ?p"
    using p qty ro side by (simp add: executable_qty_def dabs_repr sp)
  have z: "dadd ?cx ?p (signed_qty ?cx SHORT ?p) = 0"
    using p(2) by (simp add: signed_qty_def dmul_def dadd_def dr.rnd_minus) (simp add: repr_def)
  have sr: "stop_reason (wk_st w) ?req None = Some ER_STOP" using p ot side by (simp add: stop_reason_def sp)
  show ?thesis
    using run po p z q sr ss tp side sp
    by (auto simp: execute_def Let_def mk_fill_def on_position_closed_def exit_reason_of_def set_order_def get_order_def
      elim!: rbind_InrE split: if_splits)
qed

text \<open>The price path inside a bar is taken against the position: when a bar's range holds both the protective sell stop
  and the take profit of a long position, and it opened between them, the stop is executed - at its own level and
  for the whole position -, the take profit and the liquidation level below the stop never are, and nothing stays
  armed.\<close>
theorem stop_before_take_profit:
  assumes run: "walk_triggers E w ba = Inr w'"
    and p: "0 < st_position (wk_st w)" "repr (en_cx E) (st_position (wk_st w))"
    and so: "st_stop_orders (wk_st w) = [c]" "get_order (wk_broker w) c = Inr po" "po_status po = OS_NEW"
    and req: "or_side (po_req po) = SHORT" "or_reduce_only (po_req po)" "or_otype (po_req po) = STOP_MARKET"
      "or_stop_price (po_req po) = Some s" "st_position (wk_st w) \<le> or_qty (po_req po)" "or_ts_created_ns (po_req po) \<le> ba_open_time_ns ba"
    and tp: "st_tp_price (wk_st w) = Some u" "st_tp_side (wk_st w) \<in> {0, 1}"
    and liq: "\<forall>q. st_liq_price (wk_st w) = Some q \<longrightarrow> q < s"
    and bar: "ba_l ba \<le> s" "s < ba_o ba" "ba_o ba < u" "u \<le> ba_h ba"
  shows "execute E (w\<lparr>wk_st := (wk_st w)\<lparr>st_stop_orders := []\<rparr>\<rparr>) c s (ba_open_time_ns ba) None = Inr w'
    \<and> (\<exists>f. wk_fills w' = wk_fills w @ [f] \<and> fl_client_order_id f = or_client_order_id (po_req po)
         \<and> fl_qty f = st_position (wk_st w)) \<and> exit_reason_of (wk_broker w') c = Some ER_STOP
    \<and> st_position (wk_st w') = 0 \<and> armed w' = 0"
proof -
  let ?t = "ba_open_time_ns ba"
  define stop where "stop = \<lparr>tr_kind = Stop_trigger, tr_level = s, tr_fires_up = False, tr_coid = Some c, tr_priority = 1\<rparr>"
  define tps where "tps = \<lparr>tr_kind = Tp_trigger, tr_level = u, tr_fires_up = True, tr_coid = None, tr_priority = 2\<rparr>"
  define lqs where "lqs = (case st_liq_price (wk_st w) of None \<Rightarrow> [] | Some q \<Rightarrow>
    [\<lparr>tr_kind = Liq_trigger, tr_level = q, tr_fires_up = False, tr_coid = None, tr_priority = 0\<rparr>])"
  have lq: "tr_level x < s \<and> \<not> tr_fires_up x" if "x \<in> set lqs" for x
    using that liq by (auto simp: lqs_def split: option.splits)
  have sp: "sign_of (st_position (wk_st w)) = 1" using p by simp
  have trs: "triggers w ?t = Inr (stop # tps # lqs)"
    using so req tp p by (simp add: triggers_def level_triggers_def stop_def tps_def lqs_def sp split: option.split)
  have none_behind: "filter (behind_open (ba_o ba)) (stop # tps # lqs) = []"
    using bar lq by (force simp: behind_open_def stop_def tps_def filter_empty_conv)
  have falls: "filter (falls_in (ba_l ba) (ba_o ba)) (stop # tps # lqs) = stop # filter (falls_in (ba_l ba) (ba_o ba)) lqs"
    using bar by (simp add: falls_in_def stop_def tps_def)
  have keep: "first_min down_less stop xs = stop" if "set xs \<subseteq> set lqs" for xs
    using that
  proof (induction xs)
    case (Cons x xs)
    then have "\<not> down_less x stop" using lq [of x] by (auto simp: down_less_def stop_def)
    with Cons show ?case by simp
  qed simp
  have first: "segment_first (ba_l ba) (ba_o ba) (stop # tps # lqs) = Some stop"
    using bar falls keep [of "filter (falls_in (ba_l ba) (ba_o ba)) lqs"] by (simp add: segment_first_def)
  have fire: "fire E w stop s ?t = execute E (w\<lparr>wk_st := (wk_st w)\<lparr>st_stop_orders := []\<rparr>\<rparr>) c s ?t None"
    using so by (simp add: fire_def Let_def stop_def)
  have reach: "list_ex (reachable_in ba) (stop # tps # lqs)" using bar by (simp add: reachable_in_def stop_def)
  have path: "price_path (en_cx E) (st_position (wk_st w)) ba = [ba_l ba, ba_h ba, ba_c ba]" using p by (simp add: price_path_def)
  from run obtain w1 where w1: "walk_segment E (ba_l ba) ?t (ba_o ba) w = Inr w1"
    and rest: "walk_path E ?t (ba_l ba) [ba_h ba, ba_c ba] w1 = Inr w'"
    unfolding walk_triggers_def Let_def trs rbind_simps
    by (simp only: reach not_True_eq_False if_False open_loop_quiet [OF trs none_behind] rbind_simps path walk_path.simps)
      (auto elim!: rbind_InrE)
  from w1 bar obtain w2 where w2: "execute E (w\<lparr>wk_st := (wk_st w)\<lparr>st_stop_orders := []\<rparr>\<rparr>) c s ?t None = Inr w2"
    and w21: "walk_segment E (ba_l ba) ?t s w2 = Inr w1"
    by (subst (asm) walk_segment.simps) (auto simp: trs first fire stop_def [THEN arg_cong, of tr_level] elim!: rbind_InrE)
  from execute_stop_closes [OF _ req(1,2,3) _ _ _ _ _ w2] so req p tp obtain f where f: "wk_fills w2 = wk_fills w @ [f]"
      "fl_client_order_id f = or_client_order_id (po_req po)" "fl_qty f = st_position (wk_st w)" "st_position (wk_st w2) = 0"
      "st_stop_orders (wk_st w2) = []" "st_tp_price (wk_st w2) = None" "st_liq_price (wk_st w2) = None"
      "exit_reason_of (wk_broker w2) c = Some ER_STOP" by auto
  have q: "triggers w2 ?t = Inr []" using f by (simp add: triggers_def level_triggers_def)
  have "w1 = w2" using w21 by (simp add: walk_segment_quiet [OF q])
  moreover have "w' = w1" using rest walk_path_quiet [OF q, of E "ba_l ba" "[ba_h ba, ba_c ba]"] calculation by simp
  ultimately show ?thesis using w2 f by (simp add: armed_def)
qed

section \<open>A run: an entry, a protective stop and a take profit, a bar that reaches both\<close>

definition ex_inst :: instrument where
  "ex_inst = \<lparr>in_venue = PAPER, in_symbol_venue = ''BTCUSDT'', in_symbol_canon = ''BTC'', in_base_asset = ''BTC'', in_quote_asset = ''USDT'',
     in_contract_type = PERP,
     in_tick_size = \<lparr>q_coef = 1, q_exp = 0\<rparr>, in_step_size = \<lparr>q_coef = 1, q_exp = 0\<rparr>, in_min_notional = 5, in_mmr = 0,
     in_maint_amount = 0, in_max_leverage = 10\<rparr>"

definition ex_free :: cost_model where
  "ex_free = \<lparr>cm_mode = ZERO, cm_k_s = 0, cm_taker = 0, cm_maker = 0, cm_spread_ticks = 0, cm_funding_hours = [0], cm_noise_bps = 0,
     cm_drawn = 0\<rparr>"

definition ex_env :: broker_env where
  "ex_env = \<lparr>en_cx = Default_ctx, en_zs = (\<lambda>_. 0), en_ids = (\<lambda>n. 1000 + n)\<rparr>"

definition ex_entry :: order_request where
  "ex_entry = \<lparr>or_client_order_id = 1, or_instrument = ''BTC'', or_side = LONG, or_otype = MARKET, or_qty = 2, or_stop_price = None,
     or_reduce_only = False, or_decision_ref = None, or_ts_created_ns = 5\<rparr>"

definition ex_stop :: order_request where
  "ex_stop = \<lparr>or_client_order_id = 2, or_instrument = ''BTC'', or_side = SHORT, or_otype = STOP_MARKET, or_qty = 2, or_stop_price = Some 98,
     or_reduce_only = True, or_decision_ref = None, or_ts_created_ns = 12\<rparr>"

definition ex_bar :: bar where
  "ex_bar = \<lparr>ba_instrument = ''BTC'', ba_open_time_ns = 10, ba_o = 100, ba_h = 105, ba_l = 95, ba_c = 100, ba_volume = 8\<rparr>"

definition ex_bar2 :: bar where
  "ex_bar2 = \<lparr>ba_instrument = ''BTC'', ba_open_time_ns = 20, ba_o = 100, ba_h = 120, ba_l = 97, ba_c = 115, ba_volume = 8\<rparr>"
definition ex_cmds :: "br_cmd list" where
  "ex_cmds = [Submit 5 ex_entry, Bar ex_bar, Submit 12 ex_stop, Set_tp ''BTC'' (Some 110) None, Bar ex_bar2]"

lemmas ex_broker = ex_inst_def ex_free_def ex_env_def ex_entry_def ex_stop_def ex_bar_def ex_bar2_def ex_cmds_def

definition ex_fill1 :: fill where
  "ex_fill1 = \<lparr>fl_client_order_id = 1, fl_venue_order_id = Some 1, fl_instrument = ''BTC'', fl_side = LONG, fl_qty = 2, fl_price = 100,
     fl_fee = 0, fl_liquidity = TAKER, fl_slippage_bps = 0, fl_ts_fill_ns = 10\<rparr>"

definition ex_fill2 :: fill where
  "ex_fill2 = \<lparr>fl_client_order_id = 2, fl_venue_order_id = Some 2, fl_instrument = ''BTC'', fl_side = SHORT, fl_qty = 2, fl_price = 98,
     fl_fee = 0, fl_liquidity = TAKER, fl_slippage_bps = 0, fl_ts_fill_ns = 20\<rparr>"

lemma ex_broker_run:
  "\<exists>b0 b. broker_init (en_cx ex_env) ex_free [ex_inst] (1/2) 0 = Inr b0
     \<and> run_steps (br_command ex_env) (b0, []) ex_cmds = Inr (b, [ex_fill1, ex_fill2]) \<and> br_position b ''BTC'' = Inr 0
     \<and> exit_reason_of b 2 = Some ER_STOP"
  by (simp add: ex_broker ex_fill1_def ex_fill2_def evals cong: rbind_weak_cong)

lemma ex_ids: "inj (en_ids ex_env)" "\<forall>c \<in> set ex_cmds. cmd_ok ex_env c"
  by (auto simp: ex_broker cmd_ok_def inj_def)

lemma ex_booked: "\<exists>p0 p. portfolio_init 1000 = Inr p0 \<and> book_fills (en_cx ex_env) p0 (\<lambda>_. None) [ex_fill1, ex_fill2] = Inr p"
  by (simp add: ex_env_def ex_fill1_def ex_fill2_def evals cong: rbind_weak_cong)


theorem broker_and_account_agree_witness:
  "\<exists>p0 p. portfolio_init 1000 = Inr p0 \<and> book_fills (en_cx ex_env) p0 (\<lambda>_. None) [ex_fill1, ex_fill2] = Inr p
     \<and> position_qty p ''BTC'' = 0"
proof -
  obtain b0 b where r: "broker_init (en_cx ex_env) ex_free [ex_inst] (1/2) 0 = Inr b0"
    "run_steps (br_command ex_env) (b0, []) ex_cmds = Inr (b, [ex_fill1, ex_fill2])" "br_position b ''BTC'' = Inr 0"
    using ex_broker_run by blast
  obtain p0 p where b: "portfolio_init 1000 = Inr p0" "book_fills (en_cx ex_env) p0 (\<lambda>_. None) [ex_fill1, ex_fill2] = Inr p"
    using ex_booked by blast
  from broker_and_account_agree [OF r(1) ex_ids r(2) b r(3)] b show ?thesis by blast
qed

theorem bars_strictly_increase_witness:
  "\<exists>b. on_bar ex_env b ex_bar2 = Inl ValueError \<and> sorted_wrt (<) (bar_times ''BTC'' ex_cmds) \<and> bar_times ''BTC'' ex_cmds = [10, 20]"
proof -
  obtain b0 b where r: "broker_init (en_cx ex_env) ex_free [ex_inst] (1/2) 0 = Inr b0"
    "run_steps (br_command ex_env) (b0, []) ex_cmds = Inr (b, [ex_fill1, ex_fill2])" using ex_broker_run by blast
  have t: "bar_times ''BTC'' ex_cmds = [10, 20]" "ba_instrument ex_bar2 = ''BTC''" "ba_open_time_ns ex_bar2 = 20"
    by (simp_all add: ex_broker)
  from bars_strictly_increase [OF r(1) ex_ids r(2), of "''BTC''"] t have "on_bar ex_env b ex_bar2 = Inl ValueError"
    "sorted_wrt (<) (bar_times ''BTC'' ex_cmds)" by auto
  with t(1) show ?thesis by blast
qed

definition ex_work :: work where
  "ex_work = \<lparr>wk_broker = \<lparr>br_cost = ex_free, br_lam = 1/2, br_one_minus_lam = 1/2, br_state = [],
       br_orders = [(2, new_order ex_stop (Some 2) OS_NEW None 12)], br_funding = [], br_seq = 2, br_drawn_ids = 0\<rparr>,
     wk_st = (new_inst_state ex_inst 0)\<lparr>st_position := 2, st_last_open_ns := Some 10, st_last_close := Some 100,
       st_tp_price := Some 110, st_liq_price := Some 50, st_stop_orders := [2]\<rparr>, wk_fills = []\<rparr>"

theorem stop_before_take_profit_witness:
  "\<exists>w'. walk_triggers ex_env ex_work ex_bar2 = Inr w' \<and> length (wk_fills w') = 1 \<and> exit_reason_of (wk_broker w') 2 = Some ER_STOP"
proof -
  have "\<exists>w'. walk_triggers ex_env ex_work ex_bar2 = Inr w'"
    by (simp add: ex_work_def ex_broker evals cong: rbind_weak_cong)
  then obtain w' where w: "walk_triggers ex_env ex_work ex_bar2 = Inr w'" ..
  have so: "get_order (wk_broker ex_work) 2 = Inr (new_order ex_stop (Some 2) OS_NEW None 12)"
    by (simp add: ex_work_def get_order_def)
  let ?po = "new_order ex_stop (Some 2) OS_NEW None 12" and ?w = ex_work
  have p: "0 < st_position (wk_st ?w)" "repr (en_cx ex_env) (st_position (wk_st ?w))" "st_stop_orders (wk_st ?w) = [2]"
    and o: "po_status ?po = OS_NEW" "or_side (po_req ?po) = SHORT" "or_reduce_only (po_req ?po)" "or_otype (po_req ?po) = STOP_MARKET"
      "or_stop_price (po_req ?po) = Some 98" "st_position (wk_st ?w) \<le> or_qty (po_req ?po)" "or_ts_created_ns (po_req ?po) \<le> ba_open_time_ns ex_bar2"
    and l: "st_tp_price (wk_st ?w) = Some 110" "st_tp_side (wk_st ?w) \<in> {0, 1}" "\<forall>q. st_liq_price (wk_st ?w) = Some q \<longrightarrow> q < 98"
    and b: "ba_l ex_bar2 \<le> 98" "98 < ba_o ex_bar2" "ba_o ex_bar2 < 110" "110 \<le> ba_h ex_bar2"
    by (simp_all add: ex_work_def ex_stop_def ex_bar2_def new_order_def new_inst_state_def ex_env_def dec_eval)
  have "(\<exists>f. wk_fills w' = wk_fills ?w @ [f]) \<and> exit_reason_of (wk_broker w') 2 = Some ER_STOP"
    using stop_before_take_profit [OF w p(1,2,3) so o l b] by blast
  with w show ?thesis by (auto simp: ex_work_def)
qed

end
