(* ===== verification/Strings.thy ===== *)
theory Strings
  imports Money "HOL-Library.Char_ord"
begin

text \<open>
  Text as the code handles it: printing and reading of decimals (\<^verbatim>\<open>dec_str\<close> of \<^verbatim>\<open>core/money.py\<close>, the strict
  decimal pattern of \<^verbatim>\<open>ingest/normalize.py\<close>), splitting and upper case. Characters are those of one byte, on which
  the pattern's digits are \<open>0\<close> to \<open>9\<close>; case is that of ASCII.
\<close>

section \<open>Digits\<close>

definition digit_val :: "char \<Rightarrow> nat" where
  "digit_val c = of_char c - 48"

definition is_digit :: "char \<Rightarrow> bool" where
  "is_digit c \<longleftrightarrow> (48 :: nat) \<le> of_char c \<and> of_char c \<le> (57 :: nat)"

definition digit_char :: "nat \<Rightarrow> char" where
  "digit_char d = char_of (48 + d)"

lemma digit_char_facts [simp]:
  assumes "d < 10"
  shows "is_digit (digit_char d)" and "digit_val (digit_char d) = d"
proof -
  have "of_char (digit_char d) = 48 + d"
    using assms by (simp add: digit_char_def of_char_of)
  then show "is_digit (digit_char d)" "digit_val (digit_char d) = d" using assms by (simp_all add: is_digit_def digit_val_def)
qed

fun nat_str :: "nat \<Rightarrow> string" where
  "nat_str n = (if n < 10 then [digit_char n] else nat_str (n div 10) @ [digit_char (n mod 10)])"

declare nat_str.simps [simp del]

lemma nat_str_eval [evals]:
  "n < 10 \<Longrightarrow> nat_str n = [digit_char n]" "\<not> n < 10 \<Longrightarrow> nat_str n = nat_str (n div 10) @ [digit_char (n mod 10)]"
  by (subst nat_str.simps, simp)+

lemma digit_char_eval [evals]:
  "digit_char 0 = CHR ''0''" "digit_char 1 = CHR ''1''" "digit_char 2 = CHR ''2''" "digit_char 3 = CHR ''3''"
  "digit_char 4 = CHR ''4''" "digit_char 5 = CHR ''5''" "digit_char 6 = CHR ''6''" "digit_char 7 = CHR ''7''"
  "digit_char 8 = CHR ''8''" "digit_char 9 = CHR ''9''"
  by (simp_all add: digit_char_def char_of_def bit_0)

definition digits_val :: "string \<Rightarrow> nat" where
  "digits_val s = foldl (\<lambda>n c. 10 * n + digit_val c) 0 s"

lemma digits_val_simps [simp]:
  "digits_val [] = 0" "digits_val (s @ [c]) = 10 * digits_val s + digit_val c"
  by (simp_all add: digits_val_def)

lemma nat_str_nonempty [simp]: "nat_str n \<noteq> []"
  by (subst nat_str.simps) simp

lemma nat_str_digits: "c \<in> set (nat_str n) \<Longrightarrow> is_digit c"
proof (induction n rule: nat_str.induct)
  case (1 n)
  from 1(2) show ?case by (subst (asm) nat_str.simps) (auto split: if_splits dest: 1(1))
qed

lemma nat_str_val [simp]: "digits_val (nat_str n) = n"
proof (induction n rule: nat_str.induct)
  case (1 n)
  show ?case
  proof (cases "n < 10")
    case True
    then show ?thesis by (subst nat_str.simps) (simp add: digits_val_def)
  next
    case False
    with 1 show ?thesis by (subst nat_str.simps) simp
  qed
qed

lemma digits_val_zeros: "digits_val (replicate k (digit_char 0) @ s) = digits_val s"
proof -
  have "foldl (\<lambda>n c. 10 * n + digit_val c) 0 (replicate k (digit_char 0)) = 0" by (induction k) simp_all
  then show ?thesis by (simp add: digits_val_def)
qed

definition int_str :: "int \<Rightarrow> string" where
  "int_str n = (if n < 0 then ''-'' @ nat_str (nat (- n)) else nat_str (nat n))"

section \<open>Decimals as text\<close>

text \<open>
  A decimal with its scale is a \<^term>\<open>quantum\<close>: \<^verbatim>\<open>Decimal("1.50")\<close> is \<open>150\<close> at exponent \<open>-2\<close>. \<^verbatim>\<open>format(x, "f")\<close> writes no
  exponent; the digits are padded with zeros on the left up to one before the point.
\<close>

definition pad_left :: "nat \<Rightarrow> string \<Rightarrow> string" where
  "pad_left k s = replicate (k - length s) (digit_char 0) @ s"

definition dec_str :: "quantum \<Rightarrow> string" where
  "dec_str q =
     (let body = nat_str (nat \<bar>q_coef q\<bar>);
          sign = (if q_coef q < 0 then ''-'' else [])
      in if 0 \<le> q_exp q then sign @ (if q_coef q = 0 then body else body @ replicate (nat (q_exp q)) (digit_char 0))
         else let k = nat (- q_exp q); p = pad_left (k + 1) body; n = length p - k
              in sign @ take n p @ ''.'' @ drop n p)"

text \<open>The pattern \<^verbatim>\<open>-?\d+(\.\d+)?\<close>, read as \<^verbatim>\<open>Decimal\<close> reads it.\<close>

definition parse_unsigned :: "string \<Rightarrow> (nat \<times> nat) option" where
  "parse_unsigned s =
     (let ip = takeWhile is_digit s; r = dropWhile is_digit s in
      if ip = [] then None
      else if r = [] then Some (digits_val ip, 0)
      else if hd r = CHR ''.'' \<and> tl r \<noteq> [] \<and> list_all is_digit (tl r) then Some (digits_val (ip @ tl r), length (tl r))
      else None)"

definition parse_dec :: "string \<Rightarrow> quantum option" where
  "parse_dec s =
     (let neg = (s \<noteq> [] \<and> hd s = CHR ''-'') in
      map_option (\<lambda>(n, k). \<lparr>q_coef = (if neg then - int n else int n), q_exp = - int k\<rparr>)
        (parse_unsigned (if neg then tl s else s)))"

lemma not_digit_chars [simp]: "\<not> is_digit (CHR ''-'')" "\<not> is_digit (CHR ''.'')"
  by (simp_all add: is_digit_def)

lemma takeWhile_digits: "list_all is_digit a \<Longrightarrow> b = [] \<or> \<not> is_digit (hd b) \<Longrightarrow> takeWhile is_digit (a @ b) = a \<and> dropWhile is_digit (a @ b) = b"
  by (cases b) (auto simp: takeWhile_append dropWhile_append list_all_iff)

lemma parse_unsigned_int: "list_all is_digit a \<Longrightarrow> a \<noteq> [] \<Longrightarrow> parse_unsigned a = Some (digits_val a, 0)"
proof -
  assume d: "list_all is_digit a" and ne: "a \<noteq> []"
  have "takeWhile is_digit a = a" "dropWhile is_digit a = []" using takeWhile_digits [OF d, of "[]"] by simp_all
  then show ?thesis using ne by (simp only: parse_unsigned_def Let_def if_True if_False refl)
qed

lemma parse_unsigned_frac:
  "list_all is_digit a \<Longrightarrow> a \<noteq> [] \<Longrightarrow> list_all is_digit b \<Longrightarrow> b \<noteq> [] \<Longrightarrow>
    parse_unsigned (a @ CHR ''.'' # b) = Some (digits_val (a @ b), length b)"
  using takeWhile_digits [of a "CHR ''.'' # b"] not_digit_chars(2) by (simp add: parse_unsigned_def Let_def)

lemma parse_dec_signed:
  assumes "parse_unsigned s = Some (n, k)"
  shows "parse_dec ((if neg then ''-'' else []) @ s) = Some \<lparr>q_coef = (if neg then - int n else int n), q_exp = - int k\<rparr>"
proof -
  have "s \<noteq> [] \<and> hd s \<noteq> CHR ''-''"
  proof (cases s)
    case (Cons c t)
    with assms have "is_digit c" by (cases "is_digit c") (auto simp: parse_unsigned_def)
    then show ?thesis using Cons by auto
  qed (use assms in \<open>simp add: parse_unsigned_def\<close>)
  then show ?thesis using assms by (simp add: parse_dec_def)
qed

text \<open>C38: The canonical text of a decimal reads back as the same number with the same scale: for every decimal without a positive
  exponent, \<open>parse_dec\<close> of \<open>dec_str\<close> returns its coefficient and exponent, digit padding and sign included.\<close>
theorem dec_str_roundtrip:
  assumes "q_exp q \<le> 0"
  shows "parse_dec (dec_str q) = Some q"
proof -
  let ?body = "nat_str (nat \<bar>q_coef q\<bar>)" and ?neg = "q_coef q < 0"
  have d: "list_all is_digit ?body" by (auto simp: list_all_iff nat_str_digits)
  have sgn: "(if ?neg then - int (nat \<bar>q_coef q\<bar>) else int (nat \<bar>q_coef q\<bar>)) = q_coef q" by simp
  show ?thesis
  proof (cases "q_exp q = 0")
    case True
    then have "dec_str q = (if ?neg then ''-'' else []) @ ?body" by (simp add: dec_str_def Let_def)
    with parse_dec_signed [OF parse_unsigned_int [OF d], of ?neg] True sgn show ?thesis by (cases q) simp
  next
    case False
    define k where "k = nat (- q_exp q)"
    define p where "p = pad_left (k + 1) ?body"
    have k: "0 < k" "q_exp q = - int k" using False assms by (simp_all add: k_def)
    have len: "k < length p" by (simp add: p_def pad_left_def)
    have dp: "list_all is_digit p" using d by (auto simp: p_def pad_left_def list_all_iff)
    let ?n = "length p - k"
    have "parse_unsigned (take ?n p @ CHR ''.'' # drop ?n p) = Some (digits_val (take ?n p @ drop ?n p), length (drop ?n p))"
      using dp len k(1) by (intro parse_unsigned_frac) (auto simp: list_all_iff dest: in_set_takeD in_set_dropD)
    moreover have "digits_val p = nat \<bar>q_coef q\<bar>" by (simp add: p_def pad_left_def digits_val_zeros)
    moreover have "length (drop ?n p) = k" using len by simp
    ultimately have u: "parse_unsigned (take ?n p @ CHR ''.'' # drop ?n p) = Some (nat \<bar>q_coef q\<bar>, k)" by simp
    have "dec_str q = (if ?neg then ''-'' else []) @ take ?n p @ CHR ''.'' # drop ?n p"
    proof -
      from False assms have neg: "\<not> 0 \<le> q_exp q" by simp
      show ?thesis by (simp only: dec_str_def Let_def p_def k_def neg if_False append_assoc append_Cons append_Nil)
    qed
    then have "parse_dec (dec_str q) = Some \<lparr>q_coef = (if ?neg then - int (nat \<bar>q_coef q\<bar>) else int (nat \<bar>q_coef q\<bar>)), q_exp = - int k\<rparr>"
      by (simp only: parse_dec_signed [OF u, of ?neg])
    then show ?thesis by (simp add: sgn flip: k(2))
  qed
qed

theorem dec_str_roundtrip_witness:
  "dec_str \<lparr>q_coef = - 50, q_exp = - 3\<rparr> = ''-0.050'' \<and> parse_dec ''-0.050'' = Some \<lparr>q_coef = - 50, q_exp = - 3\<rparr>"
proof -
  have "dec_str \<lparr>q_coef = - 50, q_exp = - 3\<rparr> = ''-0.050''"
    by (simp add: dec_str_def Let_def nat_str_eval pad_left_def digit_char_eval)
  with dec_str_roundtrip [of "\<lparr>q_coef = - 50, q_exp = - 3\<rparr>"] show ?thesis by simp
qed

section \<open>Case and splitting\<close>

definition upper_char :: "char \<Rightarrow> char" where
  "upper_char c = (if (97 :: nat) \<le> of_char c \<and> of_char c \<le> (122 :: nat) then char_of (of_char c - (32 :: nat)) else c)"

definition upper :: "string \<Rightarrow> string" where
  "upper s = map upper_char s"

lemma upper_eval [evals]:
  "upper_char (CHR ''a'') = CHR ''A''" "upper_char (CHR ''b'') = CHR ''B''" "upper_char (CHR ''c'') = CHR ''C''" "upper_char (CHR ''d'') = CHR ''D''"
  "upper_char (CHR ''e'') = CHR ''E''" "upper_char (CHR ''f'') = CHR ''F''" "upper_char (CHR ''g'') = CHR ''G''" "upper_char (CHR ''h'') = CHR ''H''"
  "upper_char (CHR ''i'') = CHR ''I''" "upper_char (CHR ''j'') = CHR ''J''" "upper_char (CHR ''k'') = CHR ''K''" "upper_char (CHR ''l'') = CHR ''L''"
  "upper_char (CHR ''m'') = CHR ''M''" "upper_char (CHR ''n'') = CHR ''N''" "upper_char (CHR ''o'') = CHR ''O''" "upper_char (CHR ''p'') = CHR ''P''"
  "upper_char (CHR ''q'') = CHR ''Q''" "upper_char (CHR ''r'') = CHR ''R''" "upper_char (CHR ''s'') = CHR ''S''" "upper_char (CHR ''t'') = CHR ''T''"
  "upper_char (CHR ''u'') = CHR ''U''" "upper_char (CHR ''v'') = CHR ''V''" "upper_char (CHR ''w'') = CHR ''W''" "upper_char (CHR ''x'') = CHR ''X''"
  "upper_char (CHR ''y'') = CHR ''Y''" "upper_char (CHR ''z'') = CHR ''Z''"
  "upper_char (CHR ''A'') = CHR ''A''" "upper_char (CHR ''B'') = CHR ''B''" "upper_char (CHR ''C'') = CHR ''C''" "upper_char (CHR ''D'') = CHR ''D''"
  "upper_char (CHR ''E'') = CHR ''E''" "upper_char (CHR ''F'') = CHR ''F''" "upper_char (CHR ''G'') = CHR ''G''" "upper_char (CHR ''H'') = CHR ''H''"
  "upper_char (CHR ''I'') = CHR ''I''" "upper_char (CHR ''J'') = CHR ''J''" "upper_char (CHR ''K'') = CHR ''K''" "upper_char (CHR ''L'') = CHR ''L''"
  "upper_char (CHR ''M'') = CHR ''M''" "upper_char (CHR ''N'') = CHR ''N''" "upper_char (CHR ''O'') = CHR ''O''" "upper_char (CHR ''P'') = CHR ''P''"
  "upper_char (CHR ''Q'') = CHR ''Q''" "upper_char (CHR ''R'') = CHR ''R''" "upper_char (CHR ''S'') = CHR ''S''" "upper_char (CHR ''T'') = CHR ''T''"
  "upper_char (CHR ''U'') = CHR ''U''" "upper_char (CHR ''V'') = CHR ''V''" "upper_char (CHR ''W'') = CHR ''W''" "upper_char (CHR ''X'') = CHR ''X''"
  "upper_char (CHR ''Y'') = CHR ''Y''" "upper_char (CHR ''Z'') = CHR ''Z''" "upper_char (CHR ''0'') = CHR ''0''" "upper_char (CHR ''1'') = CHR ''1''"
  "upper_char (CHR ''2'') = CHR ''2''" "upper_char (CHR ''3'') = CHR ''3''" "upper_char (CHR ''4'') = CHR ''4''" "upper_char (CHR ''5'') = CHR ''5''"
  "upper_char (CHR ''6'') = CHR ''6''" "upper_char (CHR ''7'') = CHR ''7''" "upper_char (CHR ''8'') = CHR ''8''" "upper_char (CHR ''9'') = CHR ''9''"
  by (simp_all add: upper_char_def char_of_def bit_0)

text \<open>\<^verbatim>\<open>s.split(sep)\<close> for a separator of one character: never empty, empty parts kept.\<close>

fun split_on :: "char \<Rightarrow> string \<Rightarrow> string list" where
  "split_on sep [] = [[]]"
| "split_on sep (c # cs) = (if c = sep then [] # split_on sep cs
     else case split_on sep cs of p # ps \<Rightarrow> (c # p) # ps | [] \<Rightarrow> [[c]])"

lemma split_on_none: "sep \<notin> set s \<Longrightarrow> split_on sep s = [s]"
  by (induction s) auto

lemma split_on_append: "sep \<notin> set s \<Longrightarrow> split_on sep (s @ sep # t) = s # split_on sep t"
  by (induction s) auto

end
