(* ===== verification/Symbols.thy ===== *)
theory Symbols
  imports Domain Strings
begin

text \<open>
  \<^verbatim>\<open>ingest/symbols.py\<close>: the identity of an instrument and the canonical symbol that enters every event identifier.
  A \<open>NormalizationError\<close> is its field and venue; \<open>NKeyError\<close> is the escape of a missing dictionary key, which
  the normaliser is shown never to raise.
\<close>

section \<open>Errors of the boundary\<close>

datatype norm_error = NormError "string option" "string option" | NKeyError

type_synonym 'a norm = "norm_error + 'a"

section \<open>References\<close>

fun contract_value :: "contract_type \<Rightarrow> string" where
  "contract_value SPOT = ''SPOT''"
| "contract_value PERP = ''PERP''"

fun venue_value :: "venue \<Rightarrow> string" where
  "venue_value BINANCE_USDM = ''BINANCE_USDM''"
| "venue_value BINANCE_TESTNET = ''BINANCE_TESTNET''"
| "venue_value KRAKEN = ''KRAKEN''"
| "venue_value PAPER = ''PAPER''"

definition contract_of_value :: "string \<Rightarrow> contract_type option" where
  "contract_of_value s = (if s = ''SPOT'' then Some SPOT else if s = ''PERP'' then Some PERP else None)"

lemma contract_of_value_value [simp]: "contract_of_value (contract_value c) = Some c"
  by (cases c) (simp_all add: contract_of_value_def)

record symbol_ref =
  sr_venue :: venue
  sr_symbol_venue :: string
  sr_symbol_canon :: string
  sr_base_asset :: string
  sr_quote_asset :: string
  sr_contract_type :: contract_type

definition ref_of_instrument :: "instrument \<Rightarrow> symbol_ref" where
  "ref_of_instrument i = \<lparr>sr_venue = in_venue i, sr_symbol_venue = in_symbol_venue i, sr_symbol_canon = in_symbol_canon i,
     sr_base_asset = in_base_asset i, sr_quote_asset = in_quote_asset i, sr_contract_type = in_contract_type i\<rparr>"

definition BTC_USDT_PERP :: symbol_ref where
  "BTC_USDT_PERP = \<lparr>sr_venue = BINANCE_USDM, sr_symbol_venue = ''BTCUSDT'', sr_symbol_canon = ''BTC-USDT-PERP'',
     sr_base_asset = ''BTC'', sr_quote_asset = ''USDT'', sr_contract_type = PERP\<rparr>"

definition ETH_USDT_PERP :: symbol_ref where
  "ETH_USDT_PERP = \<lparr>sr_venue = BINANCE_USDM, sr_symbol_venue = ''ETHUSDT'', sr_symbol_canon = ''ETH-USDT-PERP'',
     sr_base_asset = ''ETH'', sr_quote_asset = ''USDT'', sr_contract_type = PERP\<rparr>"

definition REGISTRY :: "symbol_ref list" where
  "REGISTRY = [BTC_USDT_PERP, ETH_USDT_PERP]"

text \<open>The two dictionaries built from the registry: a later entry would win, hence the reversal.\<close>

definition by_venue :: "(venue \<times> string) \<Rightarrow> symbol_ref option" where
  "by_venue = map_of (rev (map (\<lambda>r. ((sr_venue r, sr_symbol_venue r), r)) REGISTRY))"

definition by_canon :: "(venue \<times> string) \<Rightarrow> symbol_ref option" where
  "by_canon = map_of (rev (map (\<lambda>r. ((sr_venue r, sr_symbol_canon r), r)) REGISTRY))"

section \<open>Operations\<close>

definition make_canonical :: "string \<Rightarrow> string \<Rightarrow> contract_type \<Rightarrow> string" where
  "make_canonical base quot ct = upper base @ ''-'' @ upper quot @ ''-'' @ contract_value ct"

definition parse_canonical :: "string \<Rightarrow> (string \<times> string \<times> contract_type) norm" where
  "parse_canonical s =
     (let parts = split_on (CHR ''-'') s;
          bad = Inl (NormError (Some ''symbol_canon'') None) in
      case parts of
        [b, q, t] \<Rightarrow> if b = [] \<or> q = [] \<or> t = [] then bad
          else (case contract_of_value t of None \<Rightarrow> bad | Some ct \<Rightarrow> Inr (b, q, ct))
      | _ \<Rightarrow> bad)"

definition find_symbol_ref :: "venue \<Rightarrow> string \<Rightarrow> symbol_ref norm" where
  "find_symbol_ref v s = (case by_venue (v, upper s) of
     None \<Rightarrow> Inl (NormError (Some ''symbol'') (Some (venue_value v)))
   | Some r \<Rightarrow> Inr r)"

definition canonical_symbol :: "venue \<Rightarrow> string \<Rightarrow> string norm" where
  "canonical_symbol v s = rbind (find_symbol_ref v s) (\<lambda>r. Inr (sr_symbol_canon r))"

definition venue_symbol :: "venue \<Rightarrow> string \<Rightarrow> string norm" where
  "venue_symbol v s = (case by_canon (v, s) of
     None \<Rightarrow> Inl (NormError (Some ''symbol_canon'') (Some (venue_value v)))
   | Some r \<Rightarrow> Inr (sr_symbol_venue r))"

lemmas symbols_eval [evals] = BTC_USDT_PERP_def ETH_USDT_PERP_def REGISTRY_def by_venue_def by_canon_def
  make_canonical_def parse_canonical_def find_symbol_ref_def canonical_symbol_def venue_symbol_def contract_of_value_def

section \<open>Round trips\<close>

lemma upper_no_dash: "CHR ''-'' \<notin> set s \<Longrightarrow> CHR ''-'' \<notin> set (upper s)"
proof -
  have "upper_char c = CHR ''-'' \<Longrightarrow> c = CHR ''-''" for c
  proof (rule ccontr)
    assume u: "upper_char c = CHR ''-''" and "c \<noteq> CHR ''-''"
    then have l: "(97 :: nat) \<le> of_char c" "of_char c \<le> (122 :: nat)" "char_of (of_char c - (32 :: nat)) = CHR ''-''"
      by (auto simp: upper_char_def split: if_splits)
    from l(3) have "(of_char (char_of (of_char c - (32 :: nat))) :: nat) = of_char (CHR ''-'')" by simp
    moreover have "(of_char (char_of (of_char c - (32 :: nat)) :: char) :: nat) = of_char c - 32"
      using l(2) by (simp add: of_char_of)
    ultimately show False using l(1) by simp
  qed
  then show "CHR ''-'' \<notin> set (upper s)" if "CHR ''-'' \<notin> set s" using that by (fastforce simp: upper_def)
qed

text \<open>The text of a contract type holds no dash.\<close>

lemma contract_no_dash: "CHR ''-'' \<notin> set (contract_value c)" "contract_value c \<noteq> []"
  by (cases c; simp)+

text \<open>A canonical symbol built from two assets reads back as them: for non-empty asset names without a dash,
  \<open>parse_canonical\<close> of \<open>make_canonical\<close> returns the upper-cased base and quote and the contract type, and a name with a dash
  in it is refused rather than misread.\<close>
theorem canonical_roundtrip:
  assumes "base \<noteq> []" and "quot \<noteq> []" and "CHR ''-'' \<notin> set base" and "CHR ''-'' \<notin> set quot"
  shows "parse_canonical (make_canonical base quot ct) = Inr (upper base, upper quot, ct)
     \<and> parse_canonical (make_canonical (base @ ''-'') quot ct) = Inl (NormError (Some ''symbol_canon'') None)"
proof -
  have ne: "upper base \<noteq> []" "upper quot \<noteq> []" using assms(1,2) by (simp_all add: upper_def)
  have d: "split_on (CHR ''-'') (make_canonical base quot ct) = [upper base, upper quot, contract_value ct]"
    by (simp add: make_canonical_def split_on_append split_on_none upper_no_dash assms contract_no_dash)
  have m: "make_canonical (base @ ''-'') quot ct = upper base @ CHR ''-'' # [] @ CHR ''-'' # upper quot @ CHR ''-'' # contract_value ct"
    by (simp add: make_canonical_def upper_def upper_char_def)
  have "split_on (CHR ''-'') (make_canonical (base @ ''-'') quot ct) = [upper base, [], upper quot, contract_value ct]"
    unfolding m by (simp add: split_on_append split_on_none upper_no_dash assms contract_no_dash)
  with d ne show ?thesis by (simp add: parse_canonical_def contract_no_dash)
qed

theorem canonical_roundtrip_witness:
  "parse_canonical (make_canonical ''BTC'' ''USDT'' PERP) = Inr (upper ''BTC'', upper ''USDT'', PERP)"
  using canonical_roundtrip [of "''BTC''" "''USDT''" PERP] by simp

text \<open>Every registered reference is found by either of its symbols.\<close>

lemma registry_lookup:
  "r \<in> set REGISTRY \<Longrightarrow> find_symbol_ref (sr_venue r) (sr_symbol_venue r) = Inr r"
  "r \<in> set REGISTRY \<Longrightarrow> venue_symbol (sr_venue r) (sr_symbol_canon r) = Inr (sr_symbol_venue r)"
  by (auto simp: evals upper_def upper_char_def)

end
