(* ===== verification/Normalize.thy ===== *)
theory Normalize
  imports Symbols "HOL-Library.List_Lexorder"
begin

text \<open>
  \<^verbatim>\<open>ingest/normalize.py\<close>: venue JSON becomes canonical objects here or is refused with the name of the field at
  fault. The hash behind \<^verbatim>\<open>event_uid\<close> is a parameter \<open>H\<close> applied to the natural key. Every helper raises in the order in
  which the code evaluates its arguments.
\<close>

section \<open>JSON values as Python holds them\<close>

datatype json =
    JNull
  | JBool bool
  | JInt int
  | JFloat rat
  | JStr string
  | JList "json list"
  | JObj "(string \<times> json) list"

datatype key_part = KStr string | KInt int

definition NS_PER_MS :: int where "NS_PER_MS = 1000000"
definition NS_PER_S :: int where "NS_PER_S = 1000000000"

definition DEFAULT_MMR :: dec where "DEFAULT_MMR = 5 / 1000"

definition TF_MS :: "(string, int) dict" where
  "TF_MS = [(''1m'', 60000), (''3m'', 180000), (''5m'', 300000), (''15m'', 900000), (''30m'', 1800000), (''1h'', 3600000),
     (''2h'', 7200000), (''4h'', 14400000), (''6h'', 21600000), (''8h'', 28800000), (''12h'', 43200000), (''1d'', 86400000)]"

definition WS_KLINE_FIELDS :: "string list" where
  "WS_KLINE_FIELDS = [''e'', ''E'', ''s'', ''k'']"

definition WS_KLINE_K_FIELDS :: "string list" where
  "WS_KLINE_K_FIELDS = [''t'', ''T'', ''s'', ''i'', ''f'', ''L'', ''o'', ''c'', ''h'', ''l'', ''v'', ''n'', ''x'', ''q'', ''V'', ''Q'', ''B'']"

definition WS_AGG_TRADE_FIELDS :: "string list" where
  "WS_AGG_TRADE_FIELDS = [''e'', ''E'', ''a'', ''s'', ''p'', ''q'', ''nq'', ''f'', ''l'', ''T'', ''m'', ''st'']"

definition without :: "string list \<Rightarrow> string list \<Rightarrow> string list" where
  "without xs ys = filter (\<lambda>x. x \<notin> set ys) xs"

definition WS_AGG_TRADE_REQUIRED :: "string list" where
  "WS_AGG_TRADE_REQUIRED = without WS_AGG_TRADE_FIELDS [''nq'', ''st'']"

definition WS_MARK_FIELDS :: "string list" where
  "WS_MARK_FIELDS = [''e'', ''E'', ''s'', ''p'', ''ap'', ''P'', ''i'', ''r'', ''T'', ''st'']"

definition WS_MARK_REQUIRED :: "string list" where
  "WS_MARK_REQUIRED = without WS_MARK_FIELDS [''ap'', ''st'']"

definition WS_DEPTH_FIELDS :: "string list" where
  "WS_DEPTH_FIELDS = [''e'', ''E'', ''T'', ''s'', ''U'', ''u'', ''pu'', ''b'', ''a'', ''ps'', ''st'']"

definition WS_DEPTH_REQUIRED :: "string list" where
  "WS_DEPTH_REQUIRED = without WS_DEPTH_FIELDS [''ps'', ''st'']"

definition PREMIUM_INDEX_FIELDS :: "string list" where
  "PREMIUM_INDEX_FIELDS = [''symbol'', ''markPrice'', ''indexPrice'', ''estimatedSettlePrice'', ''lastFundingRate'',
     ''interestRate'', ''nextFundingTime'', ''time'']"

definition BIN :: string where "BIN = venue_value BINANCE_USDM"

section \<open>Primitives\<close>

definition nfail :: "string \<Rightarrow> string \<Rightarrow> 'a norm" where
  "nfail field ve = Inl (NormError (Some field) (Some ve))"

fun jdec :: "json \<Rightarrow> string \<Rightarrow> string \<Rightarrow> quantum norm" where
  "jdec (JStr s) field ve = (case parse_dec s of None \<Rightarrow> nfail field ve | Some q \<Rightarrow> Inr q)"
| "jdec _ field ve = nfail field ve"

definition jval :: "json \<Rightarrow> string \<Rightarrow> string \<Rightarrow> dec norm" where
  "jval v field ve = rbind (jdec v field ve) (\<lambda>q. Inr (qval q))"

fun jint :: "json \<Rightarrow> string \<Rightarrow> string \<Rightarrow> int norm" where
  "jint (JInt n) field ve = Inr n"
| "jint _ field ve = nfail field ve"

fun jbool :: "json \<Rightarrow> string \<Rightarrow> string \<Rightarrow> bool norm" where
  "jbool (JBool b) field ve = Inr b"
| "jbool _ field ve = nfail field ve"

fun jstr :: "json \<Rightarrow> string \<Rightarrow> string \<Rightarrow> string norm" where
  "jstr (JStr s) field ve = Inr s"
| "jstr _ field ve = nfail field ve"

fun jobj :: "json \<Rightarrow> string \<Rightarrow> string \<Rightarrow> (string, json) dict norm" where
  "jobj (JObj d) field ve = Inr d"
| "jobj _ field ve = nfail field ve"

text \<open>\<^verbatim>\<open>d[k]\<close>.\<close>

definition jat :: "(string, json) dict \<Rightarrow> string \<Rightarrow> json norm" where
  "jat d k = (case dget d k of None \<Rightarrow> Inl NKeyError | Some v \<Rightarrow> Inr v)"

definition check_fields :: "(string, json) dict \<Rightarrow> string list \<Rightarrow> string list \<Rightarrow> string \<Rightarrow> string \<Rightarrow> unit norm" where
  "check_fields d allowed required prefix ve =
     (let unknown = without (map fst d) allowed; missing = without required (map fst d) in
      if unknown \<noteq> [] then nfail (prefix @ hd (sort unknown)) ve
      else if missing \<noteq> [] then nfail (prefix @ hd (sort missing)) ve
      else Inr ())"

text \<open>
  \<^verbatim>\<open>_build\<close>: pydantic checks the fields in the order of the class and reports the first bad one; the model validator
  runs last and reports the whole object.
\<close>

fun first_bad :: "(string \<times> bool) list \<Rightarrow> string option" where
  "first_bad [] = None"
| "first_bad ((f, ok) # rest) = (if ok then first_bad rest else Some f)"

definition build :: "(string \<times> bool) list \<Rightarrow> bool \<Rightarrow> 'a \<Rightarrow> string \<Rightarrow> 'a norm" where
  "build fs valid obj ve = (case first_bad fs of
     Some f \<Rightarrow> nfail f ve
   | None \<Rightarrow> if valid then Inr obj else nfail ''__root__'' ve)"

definition build_candle :: "candle \<Rightarrow> string \<Rightarrow> candle norm" where
  "build_candle c ve = build
     [(''open_time_ns'', 0 \<le> cd_open_time_ns c), (''close_time_ns'', 0 \<le> cd_close_time_ns c), (''o'', 0 < cd_o c), (''h'', 0 < cd_h c),
      (''l'', 0 < cd_l c), (''c'', 0 < cd_c c), (''volume'', 0 \<le> cd_volume c), (''quote_volume'', 0 \<le> cd_quote_volume c),
      (''trades_count'', 0 \<le> cd_trades_count c), (''ts_event_ns'', 0 \<le> cd_ts_event_ns c), (''ts_ingest_ns'', 0 \<le> cd_ts_ingest_ns c)]
     (ohlc_consistent c = Inr c) c ve"

definition build_trade :: "trade \<Rightarrow> string \<Rightarrow> trade norm" where
  "build_trade t ve = build
     [(''price'', 0 < td_price t), (''qty'', 0 < td_qty t), (''ts_event_ns'', 0 \<le> td_ts_event_ns t),
      (''ts_ingest_ns'', 0 \<le> td_ts_ingest_ns t)] True t ve"

definition build_book :: "book_snapshot \<Rightarrow> string \<Rightarrow> book_snapshot norm" where
  "build_book b ve = build [(''ts_event_ns'', 0 \<le> bk_ts_event_ns b), (''ts_ingest_ns'', 0 \<le> bk_ts_ingest_ns b)] True b ve"

definition build_mark :: "mark_price \<Rightarrow> string \<Rightarrow> mark_price norm" where
  "build_mark m ve = build
     [(''mark_price'', 0 < mp_mark_price m), (''next_funding_time_ns'', 0 \<le> mp_next_funding_time_ns m),
      (''ts_event_ns'', 0 \<le> mp_ts_event_ns m), (''ts_ingest_ns'', 0 \<le> mp_ts_ingest_ns m)] True m ve"

definition build_instrument :: "instrument \<Rightarrow> string \<Rightarrow> instrument norm" where
  "build_instrument i ve = build
     [(''tick_size'', 0 < qval (in_tick_size i)), (''step_size'', 0 < qval (in_step_size i)), (''min_notional'', 0 \<le> in_min_notional i)]
     True i ve"

definition ms_to_ns :: "int \<Rightarrow> int" where
  "ms_to_ns ms = ms * NS_PER_MS"

definition s_to_ns :: "int \<Rightarrow> int" where
  "s_to_ns s = s * NS_PER_S"

definition tf_ms :: "string \<Rightarrow> int norm" where
  "tf_ms tf = (case dget TF_MS tf of None \<Rightarrow> Inl (NormError (Some ''tf'') None) | Some n \<Rightarrow> Inr n)"

definition check_ingest :: "int \<Rightarrow> unit norm" where
  "check_ingest ts = (if ts < 0 then Inl (NormError (Some ''ts_ingest_ns'') None) else Inr ())"

fun stream_value :: "stream \<Rightarrow> string" where
  "stream_value KLINES = ''klines''"
| "stream_value TRADES = ''trades''"
| "stream_value DEPTH = ''depth''"
| "stream_value MARK = ''mark''"

definition kline_key :: "venue \<Rightarrow> string \<Rightarrow> string \<Rightarrow> int \<Rightarrow> key_part list" where
  "kline_key v canon tf open_ns = [KStr (venue_value v), KStr (stream_value KLINES), KStr canon, KStr tf, KInt open_ns]"

definition trade_key :: "venue \<Rightarrow> string \<Rightarrow> int \<Rightarrow> key_part list" where
  "trade_key v canon agg_id = [KStr (venue_value v), KStr (stream_value TRADES), KStr canon, KInt agg_id]"

definition depth_key :: "venue \<Rightarrow> string \<Rightarrow> int \<Rightarrow> key_part list" where
  "depth_key v canon u = [KStr (venue_value v), KStr (stream_value DEPTH), KStr canon, KInt u]"

definition mark_key :: "venue \<Rightarrow> string \<Rightarrow> int \<Rightarrow> key_part list" where
  "mark_key v canon ts = [KStr (venue_value v), KStr (stream_value MARK), KStr canon, KInt ts]"

section \<open>Stream names\<close>

datatype stream_kind = SK_kline | SK_aggTrade | SK_markPrice | SK_depth

record stream_name =
  sn_symbol :: string
  sn_kind :: stream_kind
  sn_interval :: "string option"
  sn_levels :: "int option"
  sn_speed :: "string option"

definition is_sym_char :: "char \<Rightarrow> bool" where
  "is_sym_char c \<longleftrightarrow> is_digit c \<or> ((97 :: nat) \<le> of_char c \<and> of_char c \<le> (122 :: nat))"

definition is_interval :: "string \<Rightarrow> bool" where
  "is_interval s \<longleftrightarrow> 2 \<le> length s \<and> list_all is_digit (butlast s) \<and> last s \<in> set ''mhdwM''"

definition depth_levels :: "string \<Rightarrow> int option" where
  "depth_levels s = (if s = ''depth5'' then Some 5 else if s = ''depth10'' then Some 10 else if s = ''depth20'' then Some 20 else None)"

definition parse_kind :: "string \<Rightarrow> string \<Rightarrow> string option \<Rightarrow> stream_name option" where
  "parse_kind sy kind spd =
     (let mk = (\<lambda>k i l s. Some \<lparr>sn_symbol = upper sy, sn_kind = k, sn_interval = i, sn_levels = l, sn_speed = s\<rparr>) in
      if take 6 kind = ''kline_'' \<and> is_interval (drop 6 kind) \<and> spd = None then mk SK_kline (Some (drop 6 kind)) None None
      else if kind = ''aggTrade'' \<and> spd = None then mk SK_aggTrade None None None
      else if kind = ''markPrice'' \<and> (case spd of None \<Rightarrow> True | Some s \<Rightarrow> s \<in> {''1s'', ''3s''})
        then mk SK_markPrice None None (Some (case spd of None \<Rightarrow> ''3s'' | Some s \<Rightarrow> s))
      else if depth_levels kind \<noteq> None \<and> (case spd of None \<Rightarrow> True | Some s \<Rightarrow> s \<in> {''100ms'', ''250ms'', ''500ms''})
        then mk SK_depth None (depth_levels kind) (Some (case spd of None \<Rightarrow> ''250ms'' | Some s \<Rightarrow> s))
      else None)"

definition parse_stream :: "string \<Rightarrow> stream_name norm" where
  "parse_stream s =
     (let bad = nfail ''stream'' BIN;
          ok = (\<lambda>sy r. if sy \<noteq> [] \<and> list_all is_sym_char sy then (case r of None \<Rightarrow> bad | Some n \<Rightarrow> Inr n) else bad) in
      case split_on (CHR ''@'') s of
        [sy, kind] \<Rightarrow> ok sy (parse_kind sy kind None)
      | [sy, kind, spd] \<Rightarrow> ok sy (parse_kind sy kind (Some spd))
      | _ \<Rightarrow> bad)"

section \<open>The WebSocket messages\<close>

definition check_event :: "(string, json) dict \<Rightarrow> string \<Rightarrow> symbol_ref \<Rightarrow> unit norm" where
  "check_event d expected inst =
     rbind (jat d ''e'') (\<lambda>je. rbind (jstr je ''e'' BIN) (\<lambda>e.
     if e \<noteq> expected then nfail ''e'' BIN else
     rbind (jat d ''s'') (\<lambda>js. rbind (jstr js ''s'' BIN) (\<lambda>s.
     if s \<noteq> sr_symbol_venue inst then nfail ''s'' BIN else Inr ()))))"

text \<open>\<^verbatim>\<open>_dec(d[k], prefix + k)\<close> and its like.\<close>

definition dec_at :: "(string, json) dict \<Rightarrow> string \<Rightarrow> string \<Rightarrow> string \<Rightarrow> dec norm" where
  "dec_at d prefix k ve = rbind (jat d k) (\<lambda>v. jval v (prefix @ k) ve)"

definition int_at :: "(string, json) dict \<Rightarrow> string \<Rightarrow> string \<Rightarrow> string \<Rightarrow> int norm" where
  "int_at d prefix k ve = rbind (jat d k) (\<lambda>v. jint v (prefix @ k) ve)"

definition bool_at :: "(string, json) dict \<Rightarrow> string \<Rightarrow> string \<Rightarrow> string \<Rightarrow> bool norm" where
  "bool_at d prefix k ve = rbind (jat d k) (\<lambda>v. jbool v (prefix @ k) ve)"

definition str_at :: "(string, json) dict \<Rightarrow> string \<Rightarrow> string \<Rightarrow> string \<Rightarrow> string norm" where
  "str_at d prefix k ve = rbind (jat d k) (\<lambda>v. jstr v (prefix @ k) ve)"

text \<open>An optional field is checked when it is there.\<close>

definition opt_dec :: "(string, json) dict \<Rightarrow> string \<Rightarrow> string \<Rightarrow> unit norm" where
  "opt_dec d k ve = (if k \<in> fst ` set d then rbind (dec_at d [] k ve) (\<lambda>_. Inr ()) else Inr ())"

definition opt_int :: "(string, json) dict \<Rightarrow> string \<Rightarrow> string \<Rightarrow> unit norm" where
  "opt_int d k ve = (if k \<in> fst ` set d then rbind (int_at d [] k ve) (\<lambda>_. Inr ()) else Inr ())"

definition opt_str :: "(string, json) dict \<Rightarrow> string \<Rightarrow> string \<Rightarrow> unit norm" where
  "opt_str d k ve = (if k \<in> fst ` set d then rbind (str_at d [] k ve) (\<lambda>_. Inr ()) else Inr ())"

definition kline_candle :: "(key_part list \<Rightarrow> string) \<Rightarrow> (string, json) dict \<Rightarrow> (string, json) dict \<Rightarrow> int \<Rightarrow> symbol_ref \<Rightarrow> src
    \<Rightarrow> string \<Rightarrow> int \<Rightarrow> int \<Rightarrow> candle norm" where
  "kline_candle H d k ts inst sc tf open_ms close_ms =
     rbind (dec_at k ''k.'' ''o'' BIN) (\<lambda>co. rbind (dec_at k ''k.'' ''h'' BIN) (\<lambda>ch. rbind (dec_at k ''k.'' ''l'' BIN) (\<lambda>cl.
     rbind (dec_at k ''k.'' ''c'' BIN) (\<lambda>cc. rbind (dec_at k ''k.'' ''v'' BIN) (\<lambda>cv. rbind (dec_at k ''k.'' ''q'' BIN) (\<lambda>cq.
     rbind (int_at k ''k.'' ''n'' BIN) (\<lambda>n. rbind (bool_at k ''k.'' ''x'' BIN) (\<lambda>x. rbind (int_at d [] ''E'' BIN) (\<lambda>e.
     build_candle \<lparr>cd_instrument = sr_symbol_canon inst, cd_venue = sr_venue inst, cd_tf = tf, cd_open_time_ns = ms_to_ns open_ms,
       cd_close_time_ns = ms_to_ns close_ms, cd_o = co, cd_h = ch, cd_l = cl, cd_c = cc, cd_volume = cv, cd_quote_volume = cq,
       cd_trades_count = n, cd_vwap = None, cd_is_closed = x, cd_is_synthetic = False, cd_src = sc,
       cd_ts_event_ns = ms_to_ns e, cd_ts_ingest_ns = ts,
       cd_event_uid = H (kline_key (sr_venue inst) (sr_symbol_canon inst) tf (ms_to_ns open_ms))\<rparr> BIN)))))))))"

definition ws_kline :: "(key_part list \<Rightarrow> string) \<Rightarrow> stream_name \<Rightarrow> (string, json) dict \<Rightarrow> int \<Rightarrow> symbol_ref \<Rightarrow> src \<Rightarrow> candle norm" where
  "ws_kline H sn d ts inst sc =
     rbind (check_fields d WS_KLINE_FIELDS WS_KLINE_FIELDS [] BIN) (\<lambda>_.
     rbind (check_event d ''kline'' inst) (\<lambda>_.
     rbind (jat d ''k'') (\<lambda>jk. rbind (jobj jk ''k'' BIN) (\<lambda>k.
     rbind (check_fields k WS_KLINE_K_FIELDS WS_KLINE_K_FIELDS ''k.'' BIN) (\<lambda>_.
     rbind (str_at k ''k.'' ''s'' BIN) (\<lambda>s. if s \<noteq> sr_symbol_venue inst then nfail ''k.s'' BIN else
     rbind (str_at k ''k.'' ''i'' BIN) (\<lambda>tf. if Some tf \<noteq> sn_interval sn then nfail ''k.i'' BIN else
     (case dget TF_MS tf of None \<Rightarrow> nfail ''k.i'' BIN | Some step_ms \<Rightarrow>
     rbind (int_at k ''k.'' ''t'' BIN) (\<lambda>open_ms.
     rbind (int_at k ''k.'' ''T'' BIN) (\<lambda>close_ms. if close_ms \<noteq> open_ms + step_ms - 1 then nfail ''k.T'' BIN else
     rbind (int_at k ''k.'' ''f'' BIN) (\<lambda>_. rbind (int_at k ''k.'' ''L'' BIN) (\<lambda>_.
     rbind (dec_at k ''k.'' ''V'' BIN) (\<lambda>_. rbind (dec_at k ''k.'' ''Q'' BIN) (\<lambda>_. rbind (dec_at k ''k.'' ''B'' BIN) (\<lambda>_.
     kline_candle H d k ts inst sc tf open_ms close_ms)))))))))))))))"

text \<open>The trade of a message, shared text of the WebSocket and REST forms.\<close>

definition trade_of :: "(key_part list \<Rightarrow> string) \<Rightarrow> (string, json) dict \<Rightarrow> int \<Rightarrow> symbol_ref \<Rightarrow> int \<Rightarrow> string \<Rightarrow> trade norm" where
  "trade_of H d ts inst agg_id ve =
     rbind (int_at d [] ''f'' ve) (\<lambda>f. rbind (int_at d [] ''l'' ve) (\<lambda>l. rbind (dec_at d [] ''p'' ve) (\<lambda>p.
     rbind (dec_at d [] ''q'' ve) (\<lambda>q. rbind (bool_at d [] ''m'' ve) (\<lambda>m. rbind (int_at d [] ''T'' ve) (\<lambda>t.
     build_trade \<lparr>td_instrument = sr_symbol_canon inst, td_venue = sr_venue inst, td_agg_id = agg_id, td_first_trade_id = Some f,
       td_last_trade_id = Some l, td_price = p, td_qty = q, td_is_buyer_maker = m, td_ts_event_ns = ms_to_ns t, td_ts_ingest_ns = ts,
       td_event_uid = H (trade_key (sr_venue inst) (sr_symbol_canon inst) agg_id)\<rparr> ve))))))"

definition ws_agg_trade :: "(key_part list \<Rightarrow> string) \<Rightarrow> (string, json) dict \<Rightarrow> int \<Rightarrow> symbol_ref \<Rightarrow> trade norm" where
  "ws_agg_trade H d ts inst =
     rbind (check_fields d WS_AGG_TRADE_FIELDS WS_AGG_TRADE_REQUIRED [] BIN) (\<lambda>_.
     rbind (check_event d ''aggTrade'' inst) (\<lambda>_.
     rbind (int_at d [] ''E'' BIN) (\<lambda>_. rbind (opt_dec d ''nq'' BIN) (\<lambda>_. rbind (opt_int d ''st'' BIN) (\<lambda>_.
     rbind (int_at d [] ''a'' BIN) (\<lambda>agg_id. trade_of H d ts inst agg_id BIN))))))"

definition ws_mark :: "(key_part list \<Rightarrow> string) \<Rightarrow> (string, json) dict \<Rightarrow> int \<Rightarrow> symbol_ref \<Rightarrow> mark_price norm" where
  "ws_mark H d ts inst =
     rbind (check_fields d WS_MARK_FIELDS WS_MARK_REQUIRED [] BIN) (\<lambda>_.
     rbind (check_event d ''markPriceUpdate'' inst) (\<lambda>_.
     rbind (dec_at d [] ''P'' BIN) (\<lambda>_. rbind (opt_dec d ''ap'' BIN) (\<lambda>_. rbind (opt_int d ''st'' BIN) (\<lambda>_.
     rbind (int_at d [] ''E'' BIN) (\<lambda>e. rbind (dec_at d [] ''p'' BIN) (\<lambda>p. rbind (dec_at d [] ''i'' BIN) (\<lambda>i.
     rbind (dec_at d [] ''r'' BIN) (\<lambda>r. rbind (int_at d [] ''T'' BIN) (\<lambda>t.
     build_mark \<lparr>mp_instrument = sr_symbol_canon inst, mp_venue = sr_venue inst, mp_mark_price = p, mp_index_price = Some i,
       mp_funding_rate = r, mp_next_funding_time_ns = ms_to_ns t, mp_ts_event_ns = ms_to_ns e, mp_ts_ingest_ns = ts,
       mp_event_uid = H (mark_key (sr_venue inst) (sr_symbol_canon inst) (ms_to_ns e))\<rparr> BIN))))))))))"

definition level_name :: "string \<Rightarrow> nat \<Rightarrow> string" where
  "level_name field i = field @ ''['' @ nat_str i @ '']''"

definition out_of_order :: "bool \<Rightarrow> dec option \<Rightarrow> dec \<Rightarrow> bool" where
  "out_of_order desc prev price = (case prev of None \<Rightarrow> False | Some pr \<Rightarrow> if desc then pr \<le> price else price \<le> pr)"

fun levels_from :: "nat \<Rightarrow> dec option \<Rightarrow> json list \<Rightarrow> string \<Rightarrow> bool \<Rightarrow> book_level list norm" where
  "levels_from i prev [] field desc = Inr []"
| "levels_from i prev (lv # rest) field desc =
     (let f = level_name field i in
      case lv of
        JList [jp, jq] \<Rightarrow>
          rbind (jval jp (f @ ''[0]'') BIN) (\<lambda>price. rbind (jval jq (f @ ''[1]'') BIN) (\<lambda>qty.
          if price \<le> 0 \<or> qty < 0 then nfail f BIN
          else if out_of_order desc prev price then nfail f BIN
          else rbind (levels_from (i + 1) (Some price) rest field desc) (\<lambda>ls. Inr (\<lparr>bl_price = price, bl_qty = qty\<rparr> # ls))))
      | _ \<Rightarrow> nfail f BIN)"

definition levels :: "json \<Rightarrow> string \<Rightarrow> int \<Rightarrow> bool \<Rightarrow> book_level list norm" where
  "levels raw field max_levels desc = (case raw of
     JList ls \<Rightarrow> if max_levels < int (length ls) then nfail field BIN else levels_from 0 None ls field desc
   | _ \<Rightarrow> nfail field BIN)"

definition ws_depth :: "(key_part list \<Rightarrow> string) \<Rightarrow> stream_name \<Rightarrow> (string, json) dict \<Rightarrow> int \<Rightarrow> symbol_ref \<Rightarrow> book_snapshot norm" where
  "ws_depth H sn d ts inst =
     rbind (check_fields d WS_DEPTH_FIELDS WS_DEPTH_REQUIRED [] BIN) (\<lambda>_.
     rbind (check_event d ''depthUpdate'' inst) (\<lambda>_.
     rbind (int_at d [] ''E'' BIN) (\<lambda>_. rbind (int_at d [] ''U'' BIN) (\<lambda>_. rbind (int_at d [] ''pu'' BIN) (\<lambda>_.
     rbind (opt_str d ''ps'' BIN) (\<lambda>_. rbind (opt_int d ''st'' BIN) (\<lambda>_.
     let lv = (case sn_levels sn of None \<Rightarrow> 20 | Some n \<Rightarrow> if n = 0 then 20 else n) in
     rbind (int_at d [] ''u'' BIN) (\<lambda>u.
     rbind (jat d ''b'') (\<lambda>jb. rbind (levels jb ''b'' lv True) (\<lambda>bids.
     rbind (jat d ''a'') (\<lambda>ja. rbind (levels ja ''a'' lv False) (\<lambda>asks.
     rbind (int_at d [] ''T'' BIN) (\<lambda>t.
     build_book \<lparr>bk_instrument = sr_symbol_canon inst, bk_venue = sr_venue inst, bk_bids = bids, bk_asks = asks, bk_last_update_id = u,
       bk_ts_event_ns = ms_to_ns t, bk_ts_ingest_ns = ts,
       bk_event_uid = H (depth_key (sr_venue inst) (sr_symbol_canon inst) u)\<rparr> BIN)))))))))))))"

definition normalize_binance :: "(key_part list \<Rightarrow> string) \<Rightarrow> string \<Rightarrow> json \<Rightarrow> int \<Rightarrow> symbol_ref \<Rightarrow> src \<Rightarrow> market_event norm" where
  "normalize_binance H stream data ts inst sc =
     rbind (parse_stream stream) (\<lambda>sn.
     if sn_symbol sn \<noteq> upper (sr_symbol_venue inst) then nfail ''stream'' BIN else
     rbind (check_ingest ts) (\<lambda>_. rbind (jobj data ''$'' BIN) (\<lambda>d.
     case sn_kind sn of
       SK_kline \<Rightarrow> rbind (ws_kline H sn d ts inst sc) (\<lambda>c. Inr (EvCandle c))
     | SK_aggTrade \<Rightarrow> rbind (ws_agg_trade H d ts inst) (\<lambda>t. Inr (EvTrade t))
     | SK_markPrice \<Rightarrow> rbind (ws_mark H d ts inst) (\<lambda>m. Inr (EvMark m))
     | SK_depth \<Rightarrow> rbind (ws_depth H sn d ts inst) (\<lambda>b. Inr (EvBook b)))))"

end
