(* ===== verification/NormalizeRest.thy ===== *)
theory NormalizeRest
  imports Normalize
begin

text \<open>
  The REST half of \<^verbatim>\<open>ingest/normalize.py\<close>: kline rows, the premium index, the exchange information, aggregated trades and
  the history of funding rates. A missing server time is \<open>None\<close>.
\<close>

section \<open>Klines\<close>

definition REST_KLINE_LEN :: nat where "REST_KLINE_LEN = 12"

definition row_name :: "nat \<Rightarrow> string" where
  "row_name i = ''row['' @ nat_str i @ '']''"

definition row_dec :: "json list \<Rightarrow> nat \<Rightarrow> dec norm" where
  "row_dec row i = jval (row ! i) (row_name i) BIN"

definition row_int :: "json list \<Rightarrow> nat \<Rightarrow> int norm" where
  "row_int row i = jint (row ! i) (row_name i) BIN"

text \<open>\<^verbatim>\<open>ts_event\<close> of a row: the close time of a closed bar, the server's time of one still open.\<close>

definition rest_ts_event :: "int \<Rightarrow> int option \<Rightarrow> int \<Rightarrow> int" where
  "rest_ts_event close_ms server_ms ref_ms = (case server_ms of
     None \<Rightarrow> ms_to_ns close_ms
   | Some s \<Rightarrow> if close_ms < ref_ms then ms_to_ns close_ms else ms_to_ns s)"

definition normalize_rest_kline :: "(key_part list \<Rightarrow> string) \<Rightarrow> json \<Rightarrow> symbol_ref \<Rightarrow> int \<Rightarrow> string \<Rightarrow> int option \<Rightarrow> src \<Rightarrow> candle norm" where
  "normalize_rest_kline H jrow inst ts tf server_ms sc =
     rbind (check_ingest ts) (\<lambda>_. case jrow of
       JList row \<Rightarrow>
         if length row \<noteq> REST_KLINE_LEN then nfail (row_name (min (length row) REST_KLINE_LEN)) BIN else
         (case dget TF_MS tf of None \<Rightarrow> nfail ''tf'' BIN | Some step_ms \<Rightarrow>
         rbind (row_int row 0) (\<lambda>open_ms. rbind (row_int row 6) (\<lambda>close_ms.
         if close_ms \<noteq> open_ms + step_ms - 1 then nfail (row_name 6) BIN else
         rbind (row_dec row 9) (\<lambda>_. rbind (row_dec row 10) (\<lambda>_. rbind (row_dec row 11) (\<lambda>_.
         let ref_ms = (case server_ms of None \<Rightarrow> ts div NS_PER_MS | Some s \<Rightarrow> s) in
         rbind (row_dec row 1) (\<lambda>co. rbind (row_dec row 2) (\<lambda>ch. rbind (row_dec row 3) (\<lambda>cl. rbind (row_dec row 4) (\<lambda>cc.
         rbind (row_dec row 5) (\<lambda>cv. rbind (row_dec row 7) (\<lambda>cq. rbind (row_int row 8) (\<lambda>n.
         build_candle \<lparr>cd_instrument = sr_symbol_canon inst, cd_venue = sr_venue inst, cd_tf = tf, cd_open_time_ns = ms_to_ns open_ms,
           cd_close_time_ns = ms_to_ns close_ms, cd_o = co, cd_h = ch, cd_l = cl, cd_c = cc, cd_volume = cv, cd_quote_volume = cq,
           cd_trades_count = n, cd_vwap = None, cd_is_closed = (close_ms < ref_ms), cd_is_synthetic = False, cd_src = sc,
           cd_ts_event_ns = rest_ts_event close_ms server_ms ref_ms, cd_ts_ingest_ns = ts,
           cd_event_uid = H (kline_key (sr_venue inst) (sr_symbol_canon inst) tf (ms_to_ns open_ms))\<rparr> BIN)))))))))))))
     | _ \<Rightarrow> nfail ''row'' BIN)"

text \<open>\<^verbatim>\<open>field=f"[{i}].{e.field}"\<close>: Python writes \<open>None\<close> for an absent field.\<close>

definition in_row :: "nat \<Rightarrow> 'a norm \<Rightarrow> 'a norm" where
  "in_row i r = (case r of
     Inl (NormError f v) \<Rightarrow> Inl (NormError (Some (''['' @ nat_str i @ ''].'' @ (case f of None \<Rightarrow> ''None'' | Some s \<Rightarrow> s))) v)
   | _ \<Rightarrow> r)"

fun rows_from :: "nat \<Rightarrow> (json \<Rightarrow> 'a norm) \<Rightarrow> json list \<Rightarrow> 'a list norm" where
  "rows_from i f [] = Inr []"
| "rows_from i f (r # rs) = rbind (in_row i (f r)) (\<lambda>x. rbind (rows_from (i + 1) f rs) (\<lambda>xs. Inr (x # xs)))"

definition normalize_rest_klines :: "(key_part list \<Rightarrow> string) \<Rightarrow> json \<Rightarrow> symbol_ref \<Rightarrow> int \<Rightarrow> string \<Rightarrow> int option \<Rightarrow> src \<Rightarrow> candle list norm" where
  "normalize_rest_klines H jrows inst ts tf server_ms sc = (case jrows of
     JList rows \<Rightarrow> rows_from 0 (\<lambda>r. normalize_rest_kline H r inst ts tf server_ms sc) rows
   | _ \<Rightarrow> nfail ''$'' BIN)"

section \<open>Premium index\<close>

definition normalize_premium_index :: "(key_part list \<Rightarrow> string) \<Rightarrow> json \<Rightarrow> symbol_ref \<Rightarrow> int \<Rightarrow> mark_price norm" where
  "normalize_premium_index H data inst ts =
     rbind (check_ingest ts) (\<lambda>_. rbind (jobj data ''$'' BIN) (\<lambda>d.
     rbind (check_fields d PREMIUM_INDEX_FIELDS PREMIUM_INDEX_FIELDS [] BIN) (\<lambda>_.
     rbind (str_at d [] ''symbol'' BIN) (\<lambda>s. if s \<noteq> sr_symbol_venue inst then nfail ''symbol'' BIN else
     rbind (dec_at d [] ''estimatedSettlePrice'' BIN) (\<lambda>_. rbind (dec_at d [] ''interestRate'' BIN) (\<lambda>_.
     rbind (int_at d [] ''time'' BIN) (\<lambda>t.
     rbind (dec_at d [] ''markPrice'' BIN) (\<lambda>p. rbind (dec_at d [] ''indexPrice'' BIN) (\<lambda>i.
     rbind (dec_at d [] ''lastFundingRate'' BIN) (\<lambda>r. rbind (int_at d [] ''nextFundingTime'' BIN) (\<lambda>n.
     build_mark \<lparr>mp_instrument = sr_symbol_canon inst, mp_venue = sr_venue inst, mp_mark_price = p, mp_index_price = Some i,
       mp_funding_rate = r, mp_next_funding_time_ns = ms_to_ns n, mp_ts_event_ns = ms_to_ns t, mp_ts_ingest_ns = ts,
       mp_event_uid = H (mark_key (sr_venue inst) (sr_symbol_canon inst) (ms_to_ns t))\<rparr> BIN)))))))))))"

section \<open>Exchange information\<close>

fun find_filter :: "json list \<Rightarrow> string \<Rightarrow> string \<Rightarrow> string \<Rightarrow> quantum norm" where
  "find_filter [] ftype key prefix = nfail (prefix @ ''.filters.'' @ ftype) BIN"
| "find_filter (f # fs) ftype key prefix =
     (case f of
        JObj d \<Rightarrow>
          if dget d ''filterType'' = Some (JStr ftype) then
            (let name = prefix @ ''.filters.'' @ ftype @ ''.'' @ key in
             case dget d key of None \<Rightarrow> nfail name BIN | Some v \<Rightarrow> jdec v name BIN)
          else find_filter fs ftype key prefix
      | _ \<Rightarrow> find_filter fs ftype key prefix)"

fun first_missing :: "(string, json) dict \<Rightarrow> string list \<Rightarrow> string option" where
  "first_missing s [] = None"
| "first_missing s (r # rs) = (case dget s r of None \<Rightarrow> Some r | Some _ \<Rightarrow> first_missing s rs)"

definition info_name :: "nat \<Rightarrow> string" where
  "info_name i = ''symbols['' @ nat_str i @ '']''"

definition info_instrument :: "string \<Rightarrow> (string, json) dict \<Rightarrow> string \<Rightarrow> dec \<Rightarrow> instrument norm" where
  "info_instrument p s sy mmr =
     rbind (jat s ''baseAsset'') (\<lambda>jb. rbind (jstr jb (p @ ''.baseAsset'') BIN) (\<lambda>base.
     rbind (jat s ''quoteAsset'') (\<lambda>jq. rbind (jstr jq (p @ ''.quoteAsset'') BIN) (\<lambda>quot.
     rbind (jat s ''filters'') (\<lambda>jf. case jf of
       JList filters \<Rightarrow>
         let canon = (case find_symbol_ref BINANCE_USDM sy of Inr r \<Rightarrow> sr_symbol_canon r | Inl _ \<Rightarrow> make_canonical base quot PERP) in
         rbind (find_filter filters ''PRICE_FILTER'' ''tickSize'' p) (\<lambda>tick.
         rbind (find_filter filters ''LOT_SIZE'' ''stepSize'' p) (\<lambda>step.
         rbind (find_filter filters ''MIN_NOTIONAL'' ''notional'' p) (\<lambda>mn.
         build_instrument \<lparr>in_venue = BINANCE_USDM, in_symbol_venue = sy, in_symbol_canon = canon, in_base_asset = base,
           in_quote_asset = quot, in_contract_type = PERP, in_tick_size = tick, in_step_size = step, in_min_notional = qval mn,
           in_mmr = mmr, in_maint_amount = 0, in_max_leverage = 3\<rparr> BIN)))
     | _ \<Rightarrow> nfail (p @ ''.filters'') BIN)))))"

fun info_from :: "nat \<Rightarrow> string list option \<Rightarrow> dec \<Rightarrow> json list \<Rightarrow> (string, instrument) dict \<Rightarrow> (string, instrument) dict norm" where
  "info_from i wanted mmr [] out = Inr out"
| "info_from i wanted mmr (raw # rest) out =
     (let p = info_name i; next = info_from (i + 1) wanted mmr rest in
      rbind (jobj raw p BIN) (\<lambda>s.
      case first_missing s [''symbol'', ''baseAsset'', ''quoteAsset'', ''contractType'', ''filters''] of
        Some r \<Rightarrow> nfail (p @ ''.'' @ r) BIN
      | None \<Rightarrow>
          rbind (jat s ''symbol'') (\<lambda>js. rbind (jstr js (p @ ''.symbol'') BIN) (\<lambda>sy.
          if (case wanted of None \<Rightarrow> False | Some ws \<Rightarrow> sy \<notin> set ws) then next out
          else if dget s ''contractType'' \<noteq> Some (JStr ''PERPETUAL'') then
            (if wanted = None then next out else nfail (p @ ''.contractType'') BIN)
          else rbind (info_instrument p s sy mmr) (\<lambda>inst. next (dset out sy inst))))))"

definition normalize_exchange_info :: "json \<Rightarrow> string list option \<Rightarrow> dec \<Rightarrow> (string, instrument) dict norm" where
  "normalize_exchange_info data symbols mmr =
     rbind (jobj data ''$'' BIN) (\<lambda>d. case dget d ''symbols'' of
       Some (JList syms) \<Rightarrow>
         let wanted = map_option (map upper) symbols in
         rbind (info_from 0 wanted mmr syms []) (\<lambda>out.
         let missing = (case wanted of None \<Rightarrow> [] | Some ws \<Rightarrow> without ws (map fst out)) in
         if missing \<noteq> [] then nfail (''symbols['' @ hd (sort missing) @ '']'') BIN else Inr out)
     | _ \<Rightarrow> nfail ''symbols'' BIN)"

section \<open>Aggregated trades\<close>

definition REST_AGG_TRADE_FIELDS :: "string list" where
  "REST_AGG_TRADE_FIELDS = [''a'', ''p'', ''q'', ''f'', ''l'', ''T'', ''m'', ''nq'']"

definition REST_AGG_TRADE_REQUIRED :: "string list" where
  "REST_AGG_TRADE_REQUIRED = without REST_AGG_TRADE_FIELDS [''nq'']"

definition normalize_rest_agg_trade :: "(key_part list \<Rightarrow> string) \<Rightarrow> json \<Rightarrow> symbol_ref \<Rightarrow> int \<Rightarrow> trade norm" where
  "normalize_rest_agg_trade H row inst ts =
     (let ve = venue_value (sr_venue inst) in
      rbind (jobj row ''$'' ve) (\<lambda>d.
      rbind (check_fields d REST_AGG_TRADE_FIELDS REST_AGG_TRADE_REQUIRED [] ve) (\<lambda>_.
      rbind (opt_dec d ''nq'' ve) (\<lambda>_.
      rbind (int_at d [] ''a'' ve) (\<lambda>agg_id. trade_of H d ts inst agg_id ve)))))"

section \<open>Funding rates\<close>

definition FUNDING_RATE_FIELDS :: "string list" where
  "FUNDING_RATE_FIELDS = [''symbol'', ''fundingTime'', ''fundingRate'', ''markPrice'', ''rateType'']"

definition FUNDING_RATE_REQUIRED :: "string list" where
  "FUNDING_RATE_REQUIRED = [''symbol'', ''fundingTime'', ''fundingRate'']"

record funding_rate_rec =
  fr_instrument :: string
  fr_venue :: venue
  fr_time_ns :: int
  fr_rate :: dec
  fr_mark :: "dec option"
  fr_type :: "string option"

definition fr_time_ms :: "funding_rate_rec \<Rightarrow> int" where
  "fr_time_ms r = fr_time_ns r div NS_PER_MS"

definition funding_row_mark :: "(string, json) dict \<Rightarrow> dec option norm" where
  "funding_row_mark d = (case dget d ''markPrice'' of
     None \<Rightarrow> Inr None
   | Some v \<Rightarrow> if v = JStr [] then Inr None
       else rbind (jval v ''markPrice'' BIN) (\<lambda>m. if m \<le> 0 then nfail ''markPrice'' BIN else Inr (Some m)))"

definition funding_row_type :: "(string, json) dict \<Rightarrow> string option norm" where
  "funding_row_type d = (case dget d ''rateType'' of None \<Rightarrow> Inr None | Some v \<Rightarrow> rbind (jstr v ''rateType'' BIN) (\<lambda>s. Inr (Some s)))"

definition normalize_funding_rate :: "json \<Rightarrow> symbol_ref \<Rightarrow> funding_rate_rec norm" where
  "normalize_funding_rate row inst =
     rbind (jobj row ''$'' BIN) (\<lambda>d.
     rbind (check_fields d FUNDING_RATE_FIELDS FUNDING_RATE_REQUIRED [] BIN) (\<lambda>_.
     rbind (str_at d [] ''symbol'' BIN) (\<lambda>s. if s \<noteq> sr_symbol_venue inst then nfail ''symbol'' BIN else
     rbind (funding_row_mark d) (\<lambda>mark.
     rbind (int_at d [] ''fundingTime'' BIN) (\<lambda>t. if t < 0 then nfail ''fundingTime'' BIN else
     rbind (dec_at d [] ''fundingRate'' BIN) (\<lambda>r.
     rbind (funding_row_type d) (\<lambda>ty.
     Inr \<lparr>fr_instrument = sr_symbol_canon inst, fr_venue = sr_venue inst, fr_time_ns = ms_to_ns t, fr_rate = r, fr_mark = mark,
       fr_type = ty\<rparr>)))))))"

fun funding_from :: "nat \<Rightarrow> json list \<Rightarrow> symbol_ref \<Rightarrow> (int, funding_rate_rec) dict \<Rightarrow> (int, funding_rate_rec) dict norm" where
  "funding_from i [] inst out = Inr out"
| "funding_from i (r # rs) inst out =
     rbind (case normalize_funding_rate r inst of
         Inl (NormError f v) \<Rightarrow> Inl (NormError (Some (''['' @ nat_str i @ ''].'' @ (case f of None \<Rightarrow> ''None'' | Some s \<Rightarrow> s))) (Some BIN))
       | x \<Rightarrow> x) (\<lambda>fr.
     if (case dget out (fr_time_ns fr) of None \<Rightarrow> False | Some p \<Rightarrow> p \<noteq> fr)
     then nfail (''['' @ nat_str i @ ''].fundingTime'') BIN
     else funding_from (i + 1) rs inst (dset out (fr_time_ns fr) fr))"

definition normalize_funding_rates :: "json list \<Rightarrow> symbol_ref \<Rightarrow> funding_rate_rec list norm" where
  "normalize_funding_rates rows inst =
     rbind (funding_from 0 rows inst []) (\<lambda>out. Inr (map (\<lambda>k. the (dget out k)) (sort (map fst out))))"

end
