(* ===== verification/NormalizeProps.thy ===== *)
theory NormalizeProps
  imports NormalizeRest
begin

text \<open>
  What the normalisation boundary guarantees: every object it lets through is valid and carries the identity it was asked
  for, no input makes it raise anything but a \<open>NormalizationError\<close>, the reception time never leaks into any other field, and a
  history of funding rates comes out sorted and complete.
\<close>

section \<open>Validity\<close>

lemma build_Inr: "build fs v obj ve = Inr x \<longleftrightarrow> x = obj \<and> v \<and> list_all snd fs"
proof -
  have "first_bad fs = None \<longleftrightarrow> list_all snd fs" by (induction fs) (auto split: if_splits)
  then show ?thesis by (auto simp: build_def nfail_def split: option.splits)
qed

lemma build_candle_Inr: "build_candle c ve = Inr x \<longleftrightarrow> x = c \<and> mk_candle c = Inr c"
  by (auto simp: build_candle_def build_Inr mk_candle_def candle_fields_ok_def)

lemma build_trade_Inr: "build_trade t ve = Inr x \<longleftrightarrow> x = t \<and> mk_trade t = Inr t"
  by (auto simp: build_trade_def build_Inr mk_trade_def)

definition level_ok :: "book_level \<Rightarrow> bool" where
  "level_ok l \<longleftrightarrow> 0 < bl_price l \<and> 0 \<le> bl_qty l"

definition book_ok :: "book_snapshot \<Rightarrow> bool" where
  "book_ok b \<longleftrightarrow> list_all level_ok (bk_bids b @ bk_asks b)
     \<and> sorted_wrt (\<lambda>x y. bl_price y < bl_price x) (bk_bids b) \<and> sorted_wrt (\<lambda>x y. bl_price x < bl_price y) (bk_asks b)
     \<and> 0 \<le> bk_ts_event_ns b \<and> 0 \<le> bk_ts_ingest_ns b"

definition mark_ok :: "mark_price \<Rightarrow> bool" where
  "mark_ok m \<longleftrightarrow> 0 < mp_mark_price m \<and> 0 \<le> mp_next_funding_time_ns m \<and> 0 \<le> mp_ts_event_ns m \<and> 0 \<le> mp_ts_ingest_ns m"

text \<open>The object is valid by its own rules, belongs to the instrument, carries the reception time and the hash of its natural key.\<close>

fun event_ok :: "(key_part list \<Rightarrow> string) \<Rightarrow> symbol_ref \<Rightarrow> int \<Rightarrow> market_event \<Rightarrow> bool" where
  "event_ok H inst ts (EvCandle c) \<longleftrightarrow> mk_candle c = Inr c \<and> cd_instrument c = sr_symbol_canon inst \<and> cd_venue c = sr_venue inst
     \<and> cd_ts_ingest_ns c = ts \<and> cd_event_uid c = H (kline_key (sr_venue inst) (sr_symbol_canon inst) (cd_tf c) (cd_open_time_ns c))
     \<and> (\<exists>step. dget TF_MS (cd_tf c) = Some step \<and> cd_close_time_ns c = cd_open_time_ns c + ms_to_ns (step - 1))"
| "event_ok H inst ts (EvTrade t) \<longleftrightarrow> mk_trade t = Inr t \<and> td_instrument t = sr_symbol_canon inst \<and> td_venue t = sr_venue inst
     \<and> td_ts_ingest_ns t = ts \<and> td_event_uid t = H (trade_key (sr_venue inst) (sr_symbol_canon inst) (td_agg_id t))"
| "event_ok H inst ts (EvBook b) \<longleftrightarrow> book_ok b \<and> bk_instrument b = sr_symbol_canon inst \<and> bk_venue b = sr_venue inst
     \<and> bk_ts_ingest_ns b = ts \<and> bk_event_uid b = H (depth_key (sr_venue inst) (sr_symbol_canon inst) (bk_last_update_id b))"
| "event_ok H inst ts (EvMark m) \<longleftrightarrow> mark_ok m \<and> mp_instrument m = sr_symbol_canon inst \<and> mp_venue m = sr_venue inst
     \<and> mp_ts_ingest_ns m = ts \<and> mp_event_uid m = H (mark_key (sr_venue inst) (sr_symbol_canon inst) (mp_ts_event_ns m))"

lemma nfail_ne [simp]: "nfail f v \<noteq> Inr x" "Inr x \<noteq> nfail f v"
  by (simp_all add: nfail_def)

lemma ms_to_ns_add: "ms_to_ns (a + b - 1) = ms_to_ns a + ms_to_ns (b - 1)"
  by (simp add: ms_to_ns_def algebra_simps)

lemma kline_candle_ok:
  assumes "kline_candle H d k ts inst sc tf o_ms (o_ms + step - 1) = Inr c" and "dget TF_MS tf = Some step"
  shows "event_ok H inst ts (EvCandle c)"
  using assms by (auto simp: kline_candle_def build_candle_Inr ms_to_ns_add elim!: rbind_InrE)

lemma ws_kline_ok:
  assumes "ws_kline H sn d ts inst sc = Inr c"
  shows "event_ok H inst ts (EvCandle c)"
proof -
  from assms obtain k tf o_ms step where "kline_candle H d k ts inst sc tf o_ms (o_ms + step - 1) = Inr c" "dget TF_MS tf = Some step"
    by (auto simp: ws_kline_def elim!: rbind_InrE split: if_splits option.splits)
  then show ?thesis by (rule kline_candle_ok)
qed

lemma trade_of_ok: "trade_of H d ts inst a ve = Inr t \<Longrightarrow> event_ok H inst ts (EvTrade t)"
  by (auto simp: trade_of_def build_trade_Inr elim!: rbind_InrE)

lemma ws_agg_trade_ok: "ws_agg_trade H d ts inst = Inr t \<Longrightarrow> event_ok H inst ts (EvTrade t)"
  unfolding ws_agg_trade_def by (elim rbind_InrE) (rule trade_of_ok)

lemma ws_mark_ok: "ws_mark H d ts inst = Inr m \<Longrightarrow> event_ok H inst ts (EvMark m)"
  by (auto simp: ws_mark_def build_mark_def build_Inr mark_ok_def elim!: rbind_InrE)

lemma levels_from_ok:
  "levels_from i prev ls field desc = Inr bs \<Longrightarrow> list_all level_ok bs
     \<and> sorted_wrt (\<lambda>x y. if desc then bl_price y < bl_price x else bl_price x < bl_price y) bs
     \<and> (\<forall>b \<in> set bs. \<forall>p. prev = Some p \<longrightarrow> (if desc then bl_price b < p else p < bl_price b))"
proof (induction i prev ls field desc arbitrary: bs rule: levels_from.induct)
  case (1 i prev field desc)
  then show ?case by simp
next
  case (2 i prev lv rest field desc)
  from 2(2) obtain jp jq price qty bs' where lv: "lv = JList [jp, jq]"
    and p: "jval jp (level_name field i @ ''[0]'') BIN = Inr price" "jval jq (level_name field i @ ''[1]'') BIN = Inr qty"
    and ok: "\<not> (price \<le> 0 \<or> qty < 0)" "\<not> out_of_order desc prev price"
    and r: "levels_from (i + 1) (Some price) rest field desc = Inr bs'" and bs: "bs = \<lparr>bl_price = price, bl_qty = qty\<rparr> # bs'"
    by (auto simp: Let_def elim!: rbind_InrE split: json.splits list.splits if_splits)
  note ih = 2(1) [OF refl lv refl refl refl p ok r]
  have "\<And>b. b \<in> set bs' \<Longrightarrow> if desc then bl_price b < price else price < bl_price b" using ih by blast
  with ih ok show ?case
    by (cases desc) (fastforce simp: bs level_ok_def out_of_order_def split: option.splits)+
qed

lemma levels_ok:
  "levels j f n True = Inr bs \<Longrightarrow> list_all level_ok bs \<and> sorted_wrt (\<lambda>x y. bl_price y < bl_price x) bs"
  "levels j f n False = Inr bs \<Longrightarrow> list_all level_ok bs \<and> sorted_wrt (\<lambda>x y. bl_price x < bl_price y) bs"
  unfolding levels_def using levels_from_ok [of 0 None _ f True bs] levels_from_ok [of 0 None _ f False bs]
  by (cases j; simp split: if_splits)+

lemma ws_depth_ok: "ws_depth H sn d ts inst = Inr b \<Longrightarrow> event_ok H inst ts (EvBook b)"
  unfolding ws_depth_def Let_def
  by (elim rbind_InrE) (drule levels_ok, drule levels_ok, simp add: build_book_def build_Inr book_ok_def)

text \<open>C30: Everything \<open>normalize_binance\<close> lets through is a valid object of the requested instrument: its own constructor's
  rules hold (prices positive, OHLC consistent, book sides strictly ordered), a candle closes one millisecond before its
  interval ends, the reception time is the argument, and the identifier is the hash of the natural key.\<close>
theorem normalized_event_valid:
  assumes "normalize_binance H stream data ts inst sc = Inr ev"
  shows "event_ok H inst ts ev \<and> 0 \<le> ts"
proof -
  from assms obtain sn d where sn: "parse_stream stream = Inr sn" "check_ingest ts = Inr ()" "jobj data ''$'' BIN = Inr d"
    and r: "(case sn_kind sn of
       SK_kline \<Rightarrow> rbind (ws_kline H sn d ts inst sc) (\<lambda>c. Inr (EvCandle c))
     | SK_aggTrade \<Rightarrow> rbind (ws_agg_trade H d ts inst) (\<lambda>t. Inr (EvTrade t))
     | SK_markPrice \<Rightarrow> rbind (ws_mark H d ts inst) (\<lambda>m. Inr (EvMark m))
     | SK_depth \<Rightarrow> rbind (ws_depth H sn d ts inst) (\<lambda>b. Inr (EvBook b))) = Inr ev"
    unfolding normalize_binance_def by (elim rbind_InrE) (auto split: if_splits elim!: rbind_InrE)
  from sn(2) have "0 \<le> ts" by (simp add: check_ingest_def split: if_splits)
  with r show ?thesis
    by (cases "sn_kind sn") (auto simp del: event_ok.simps elim!: rbind_InrE dest: ws_kline_ok ws_agg_trade_ok ws_mark_ok ws_depth_ok)
qed

section \<open>A sample message\<close>

definition ex_trade_msg :: json where
  "ex_trade_msg = JObj [(''e'', JStr ''aggTrade''), (''E'', JInt 1700000000123), (''a'', JInt 77), (''s'', JStr ''BTCUSDT''),
     (''p'', JStr ''42000.50''), (''q'', JStr ''0.010''), (''f'', JInt 100), (''l'', JInt 101), (''T'', JInt 1700000000120), (''m'', JBool True)]"

definition ex_hash :: "key_part list \<Rightarrow> string" where
  "ex_hash ks = concat (map (\<lambda>k. case k of KStr s \<Rightarrow> s | KInt n \<Rightarrow> nat_str (nat n)) ks)"

lemmas norm_eval [evals] = rbind_simps nfail_def jval_def jat_def check_fields_def without_def dec_at_def int_at_def bool_at_def str_at_def opt_dec_def
  opt_int_def opt_str_def check_event_def check_ingest_def ms_to_ns_def NS_PER_MS_def BIN_def parse_stream_def parse_kind_def
  is_sym_char_def is_interval_def depth_levels_def parse_dec_def parse_unsigned_def is_digit_def digits_val_def digit_val_def
  build_def build_trade_def build_mark_def build_candle_def build_book_def upper_def qval_def
  WS_AGG_TRADE_FIELDS_def WS_AGG_TRADE_REQUIRED_def trade_of_def ws_agg_trade_def trade_key_def normalize_binance_def

lemma ex_trade_normalizes:
  "\<exists>t. normalize_binance ex_hash ''btcusdt@aggTrade'' ex_trade_msg 1700000000130000000 BTC_USDT_PERP WS = Inr (EvTrade t)
     \<and> td_price t = 42000 + 1 / 2"
  by (simp add: ex_trade_msg_def evals cong: rbind_weak_cong)

theorem normalized_event_valid_witness:
  "\<exists>ev. normalize_binance ex_hash ''btcusdt@aggTrade'' ex_trade_msg 1700000000130000000 BTC_USDT_PERP WS = Inr ev
     \<and> event_ok ex_hash BTC_USDT_PERP 1700000000130000000 ev"
  using ex_trade_normalizes normalized_event_valid by blast

section \<open>No other exception escapes\<close>

definition no_key_error :: "'a norm \<Rightarrow> bool" where
  "no_key_error r \<longleftrightarrow> r \<noteq> Inl NKeyError"

named_theorems no_key \<open>where a missing key cannot occur\<close>

lemma no_key_basic [no_key]: "no_key_error (Inr x)" "no_key_error (nfail f v)" "no_key_error (Inl (NormError g w))"
  by (simp_all add: no_key_error_def nfail_def)

lemma no_key_rbind [no_key]: "no_key_error r \<Longrightarrow> (\<And>x. r = Inr x \<Longrightarrow> no_key_error (f x)) \<Longrightarrow> no_key_error (rbind r f)"
  by (cases r) (auto simp: no_key_error_def)

lemma no_key_if [no_key]: "(b \<Longrightarrow> no_key_error x) \<Longrightarrow> (\<not> b \<Longrightarrow> no_key_error y) \<Longrightarrow> no_key_error (if b then x else y)"
  by simp

lemma no_key_option [no_key]:
  "(z = None \<Longrightarrow> no_key_error x) \<Longrightarrow> (\<And>a. z = Some a \<Longrightarrow> no_key_error (y a)) \<Longrightarrow> no_key_error (case z of None \<Rightarrow> x | Some a \<Rightarrow> y a)"
  by (cases z) simp_all

lemma no_key_json [no_key]: "no_key_error (jdec v f ve)" "no_key_error (jint v f ve)" "no_key_error (jbool v f ve)"
  "no_key_error (jstr v f ve)" "no_key_error (jobj v f ve)"
  by (cases v; simp add: no_key_basic no_key_option)+

lemma no_key_jval [no_key]: "no_key_error (jval v f ve)"
  unfolding jval_def by (intro no_key)

lemma no_key_build [no_key]: "no_key_error (build fs b obj ve)"
  unfolding build_def by (intro no_key)

lemma no_key_builds [no_key]: "no_key_error (build_candle c ve)" "no_key_error (build_trade t ve)" "no_key_error (build_book b ve)"
  "no_key_error (build_mark m ve)"
  unfolding build_candle_def build_trade_def build_book_def build_mark_def by (rule no_key_build)+

lemma no_key_check [no_key]: "no_key_error (check_fields d a r p ve)" "no_key_error (check_ingest ts)"
  unfolding check_fields_def check_ingest_def Let_def by (intro no_key)+

lemma check_fields_keys: "check_fields d a r p ve = Inr u \<Longrightarrow> set r \<subseteq> fst ` set d \<and> fst ` set d \<subseteq> set a"
  by (auto simp: check_fields_def without_def Let_def filter_empty_conv split: if_splits)

lemma no_key_at:
  assumes "set r \<subseteq> fst ` set d" and "k \<in> set r"
  shows "no_key_error (jat d k)" and "no_key_error (dec_at d p k ve)" and "no_key_error (int_at d p k ve)" and "no_key_error (bool_at d p k ve)"
    and "no_key_error (str_at d p k ve)"
proof -
  from assms obtain v where "dget d k = Some v" by (metis (no_types) map_of_eq_None_iff not_Some_eq subsetD)
  then show at: "no_key_error (jat d k)" by (simp add: jat_def no_key)
  show "no_key_error (dec_at d p k ve)" "no_key_error (int_at d p k ve)" "no_key_error (bool_at d p k ve)" "no_key_error (str_at d p k ve)"
    unfolding dec_at_def int_at_def bool_at_def str_at_def by (intro no_key at)+
qed

lemma no_key_opt [no_key]: "no_key_error (opt_dec d k ve)" "no_key_error (opt_int d k ve)" "no_key_error (opt_str d k ve)"
proof -
  have "set [k] \<subseteq> fst ` set d" if "k \<in> fst ` set d" using that by simp
  note at = no_key_at [OF this]
  show "no_key_error (opt_dec d k ve)" "no_key_error (opt_int d k ve)" "no_key_error (opt_str d k ve)"
    unfolding opt_dec_def opt_int_def opt_str_def by (auto intro!: no_key at)
qed

lemma no_key_event:
  assumes "set r \<subseteq> fst ` set d" and "''e'' \<in> set r" and "''s'' \<in> set r"
  shows "no_key_error (check_event d x inst)"
  unfolding check_event_def by (intro no_key no_key_at [OF assms(1,2)] no_key_at [OF assms(1,3)])

lemma no_key_levels [no_key]: "no_key_error (levels j f n desc)"
proof -
  have "no_key_error (levels_from i prev ls f desc)" for i prev ls
  proof (induction i prev ls f desc rule: levels_from.induct)
    case (2 i prev lv rest field desc)
    then show ?case by (auto intro!: no_key simp: Let_def split: json.split list.split)
  qed (simp add: no_key)
  then show ?thesis by (cases j) (simp_all add: levels_def no_key)
qed

lemma no_key_parse [no_key]: "no_key_error (parse_stream s)"
  unfolding parse_stream_def Let_def by (auto intro!: no_key split: list.split)

lemmas field_sets = WS_KLINE_FIELDS_def WS_KLINE_K_FIELDS_def WS_AGG_TRADE_REQUIRED_def WS_AGG_TRADE_FIELDS_def WS_MARK_REQUIRED_def
  WS_MARK_FIELDS_def WS_DEPTH_REQUIRED_def WS_DEPTH_FIELDS_def without_def

lemmas key_known = no_key_at [OF check_fields_keys [THEN conjunct1]] no_key_event [OF check_fields_keys [THEN conjunct1]]

lemma no_key_trade_of:
  assumes "set r \<subseteq> fst ` set d" and "{''f'', ''l'', ''p'', ''q'', ''m'', ''T''} \<subseteq> set r"
  shows "no_key_error (trade_of H d ts inst a ve)"
  unfolding trade_of_def by (intro no_key no_key_at [OF assms(1)]) (use assms(2) in simp_all)

lemma no_key_ws [no_key]:
  "no_key_error (ws_kline H sn d ts inst sc)" "no_key_error (ws_agg_trade H d ts inst)" "no_key_error (ws_mark H d ts inst)"
  "no_key_error (ws_depth H sn d ts inst)"
proof -
  show "no_key_error (ws_kline H sn d ts inst sc)" unfolding ws_kline_def kline_candle_def
    by (intro no_key) (rule key_known, assumption, simp add: field_sets | simp add: field_sets)+
  show "no_key_error (ws_mark H d ts inst)" unfolding ws_mark_def
    by (intro no_key) (rule key_known, assumption, simp add: field_sets | simp add: field_sets)+
  show "no_key_error (ws_depth H sn d ts inst)" unfolding ws_depth_def Let_def
    by (intro no_key) (rule key_known, assumption, simp add: field_sets | simp add: field_sets)+
  show "no_key_error (ws_agg_trade H d ts inst)" unfolding ws_agg_trade_def
    by (intro no_key) (rule no_key_trade_of [OF check_fields_keys [THEN conjunct1]] key_known, assumption, simp add: field_sets | simp add: field_sets)+
qed


definition ex_bad_msg :: json where
  "ex_bad_msg = JObj [(''e'', JStr ''aggTrade''), (''zz'', JNull), (''E'', JInt 5), (''fee'', JInt 1)]"


section \<open>Event time and reception time are never mixed\<close>

fun received_at :: "int \<Rightarrow> market_event \<Rightarrow> market_event" where
  "received_at ts (EvCandle c) = EvCandle (c\<lparr>cd_ts_ingest_ns := ts\<rparr>)"
| "received_at ts (EvTrade t) = EvTrade (t\<lparr>td_ts_ingest_ns := ts\<rparr>)"
| "received_at ts (EvBook b) = EvBook (b\<lparr>bk_ts_ingest_ns := ts\<rparr>)"
| "received_at ts (EvMark m) = EvMark (m\<lparr>mp_ts_ingest_ns := ts\<rparr>)"

text \<open>\<open>mapr f\<close> maps the result and leaves the error; it moves into a computation step by step.\<close>

definition mapr :: "('a \<Rightarrow> 'b) \<Rightarrow> 'e + 'a \<Rightarrow> 'e + 'b" where
  "mapr f r = (case r of Inl e \<Rightarrow> Inl e | Inr x \<Rightarrow> Inr (f x))"

lemma mapr_Inr [simp]: "mapr f (Inr x) = Inr (f x)" "mapr f (Inl e) = Inl e"
  by (simp_all add: mapr_def)

lemma mapr_push:
  "mapr f (nfail a b) = nfail a b"
  "mapr f (rbind r g) = rbind r (\<lambda>x. mapr f (g x))"
  "mapr f (if q then x else y) = (if q then mapr f x else mapr f y)"
  "mapr f (case z of None \<Rightarrow> x' | Some a \<Rightarrow> y' a) = (case z of None \<Rightarrow> mapr f x' | Some a \<Rightarrow> mapr f (y' a))"
  by (simp_all add: mapr_def nfail_def rbind_def split: sum.split option.split)

lemma build_literal:
  assumes "0 \<le> t1" and "0 \<le> t2"
  shows "build_candle \<lparr>cd_instrument = x0, cd_venue = x1, cd_tf = x2, cd_open_time_ns = x3, cd_close_time_ns = x4, cd_o = x5, cd_h = x6, cd_l = x7, cd_c = x8, cd_volume = x9, cd_quote_volume = x10, cd_trades_count = x11, cd_vwap = x12, cd_is_closed = x13, cd_is_synthetic = x14, cd_src = x15, cd_ts_event_ns = x16, cd_ts_ingest_ns = t2, cd_event_uid = x18\<rparr> ve
     = mapr (cd_ts_ingest_ns_update (\<lambda>_. t2)) (build_candle \<lparr>cd_instrument = x0, cd_venue = x1, cd_tf = x2, cd_open_time_ns = x3, cd_close_time_ns = x4, cd_o = x5, cd_h = x6, cd_l = x7, cd_c = x8, cd_volume = x9, cd_quote_volume = x10, cd_trades_count = x11, cd_vwap = x12, cd_is_closed = x13, cd_is_synthetic = x14, cd_src = x15, cd_ts_event_ns = x16, cd_ts_ingest_ns = t1, cd_event_uid = x18\<rparr> ve)"
    and "build_trade \<lparr>td_instrument = y0, td_venue = y1, td_agg_id = y2, td_first_trade_id = y3, td_last_trade_id = y4, td_price = y5, td_qty = y6, td_is_buyer_maker = y7, td_ts_event_ns = y8, td_ts_ingest_ns = t2, td_event_uid = y10\<rparr> ve
     = mapr (td_ts_ingest_ns_update (\<lambda>_. t2)) (build_trade \<lparr>td_instrument = y0, td_venue = y1, td_agg_id = y2, td_first_trade_id = y3, td_last_trade_id = y4, td_price = y5, td_qty = y6, td_is_buyer_maker = y7, td_ts_event_ns = y8, td_ts_ingest_ns = t1, td_event_uid = y10\<rparr> ve)"
    and "build_book \<lparr>bk_instrument = z0, bk_venue = z1, bk_bids = z2, bk_asks = z3, bk_last_update_id = z4, bk_ts_event_ns = z5, bk_ts_ingest_ns = t2, bk_event_uid = z7\<rparr> ve
     = mapr (bk_ts_ingest_ns_update (\<lambda>_. t2)) (build_book \<lparr>bk_instrument = z0, bk_venue = z1, bk_bids = z2, bk_asks = z3, bk_last_update_id = z4, bk_ts_event_ns = z5, bk_ts_ingest_ns = t1, bk_event_uid = z7\<rparr> ve)"
    and "build_mark \<lparr>mp_instrument = w0, mp_venue = w1, mp_mark_price = w2, mp_index_price = w3, mp_funding_rate = w4, mp_next_funding_time_ns = w5, mp_ts_event_ns = w6, mp_ts_ingest_ns = t2, mp_event_uid = w8\<rparr> ve
     = mapr (mp_ts_ingest_ns_update (\<lambda>_. t2)) (build_mark \<lparr>mp_instrument = w0, mp_venue = w1, mp_mark_price = w2, mp_index_price = w3, mp_funding_rate = w4, mp_next_funding_time_ns = w5, mp_ts_event_ns = w6, mp_ts_ingest_ns = t1, mp_event_uid = w8\<rparr> ve)"
  using assms by (simp_all add: build_candle_def build_trade_def build_book_def build_mark_def build_def mapr_push ohlc_consistent_def split: option.split)

lemma ws_received:
  assumes "0 \<le> t1" and "0 \<le> t2"
  shows "ws_kline H sn d t2 inst sc = mapr (cd_ts_ingest_ns_update (\<lambda>_. t2)) (ws_kline H sn d t1 inst sc)"
    and "ws_agg_trade H d t2 inst = mapr (td_ts_ingest_ns_update (\<lambda>_. t2)) (ws_agg_trade H d t1 inst)"
    and "ws_depth H sn d t2 inst = mapr (bk_ts_ingest_ns_update (\<lambda>_. t2)) (ws_depth H sn d t1 inst)"
    and "ws_mark H d t2 inst = mapr (mp_ts_ingest_ns_update (\<lambda>_. t2)) (ws_mark H d t1 inst)"
  unfolding ws_kline_def kline_candle_def ws_agg_trade_def trade_of_def ws_depth_def ws_mark_def Let_def mapr_push
  by (simp_all only: build_literal [OF assms])

text \<open>Reception time never enters anything but its own field: normalising one message at two moments gives the same
  event, the same identifier and the same errors, and the two differ in \<open>ts_ingest_ns\<close> alone.\<close>
theorem ingest_time_isolated:
  assumes "0 \<le> t1" and "0 \<le> t2"
  shows "normalize_binance H stream data t2 inst sc = mapr (received_at t2) (normalize_binance H stream data t1 inst sc)"
proof -
  have k: "(case k of SK_kline \<Rightarrow> rbind (ws_kline H sn d t2 inst sc) (\<lambda>c. Inr (EvCandle c)) | SK_aggTrade \<Rightarrow> rbind (ws_agg_trade H d t2 inst) (\<lambda>t. Inr (EvTrade t))
     | SK_markPrice \<Rightarrow> rbind (ws_mark H d t2 inst) (\<lambda>m. Inr (EvMark m)) | SK_depth \<Rightarrow> rbind (ws_depth H sn d t2 inst) (\<lambda>b. Inr (EvBook b)))
   = mapr (received_at t2) (case k of SK_kline \<Rightarrow> rbind (ws_kline H sn d t1 inst sc) (\<lambda>c. Inr (EvCandle c))
     | SK_aggTrade \<Rightarrow> rbind (ws_agg_trade H d t1 inst) (\<lambda>t. Inr (EvTrade t))
     | SK_markPrice \<Rightarrow> rbind (ws_mark H d t1 inst) (\<lambda>m. Inr (EvMark m)) | SK_depth \<Rightarrow> rbind (ws_depth H sn d t1 inst) (\<lambda>b. Inr (EvBook b)))" for k sn d
    unfolding ws_received [OF assms] by (cases k) (simp_all add: mapr_def rbind_def split: sum.split)
  have c: "check_ingest t2 = check_ingest t1" using assms by (simp add: check_ingest_def)
  show ?thesis unfolding normalize_binance_def mapr_push c k ..
qed

theorem ingest_time_isolated_witness:
  "\<exists>t. normalize_binance ex_hash ''btcusdt@aggTrade'' ex_trade_msg 9 BTC_USDT_PERP WS = Inr (EvTrade (t\<lparr>td_ts_ingest_ns := 9\<rparr>))
     \<and> td_price t = 42000 + 1 / 2"
proof -
  from ex_trade_normalizes obtain t where "normalize_binance ex_hash ''btcusdt@aggTrade'' ex_trade_msg 1700000000130000000 BTC_USDT_PERP WS = Inr (EvTrade t)"
    "td_price t = 42000 + 1 / 2" by blast
  with ingest_time_isolated [of 1700000000130000000 9 ex_hash "''btcusdt@aggTrade''" ex_trade_msg BTC_USDT_PERP WS] show ?thesis by auto
qed

section \<open>Funding history\<close>

definition keyed_by_time :: "(int, funding_rate_rec) dict \<Rightarrow> bool" where
  "keyed_by_time d \<longleftrightarrow> dict_ok d \<and> (\<forall>k r. dget d k = Some r \<longrightarrow> fr_time_ns r = k)"

lemma keyed_by_time_dset: "keyed_by_time d \<Longrightarrow> keyed_by_time (dset d (fr_time_ns r) r)"
  by (auto simp: keyed_by_time_def split: if_splits)

lemma funding_from_table:
  assumes "funding_from i rows inst out = Inr d" and "keyed_by_time out"
  shows "keyed_by_time d \<and> ran (dget d) = ran (dget out) \<union> {r. \<exists>row \<in> set rows. normalize_funding_rate row inst = Inr r}
     \<and> (\<forall>row \<in> set rows. \<exists>r. normalize_funding_rate row inst = Inr r)"
  using assms
proof (induction i rows inst out rule: funding_from.induct)
  case (1 i inst out)
  then show ?case by simp
next
  case (2 i row rs inst out)
  from 2(2) obtain r where r: "normalize_funding_rate row inst = Inr r" and c: "dget out (fr_time_ns r) = None \<or> dget out (fr_time_ns r) = Some r"
    and t: "funding_from (i + 1) rs inst (dset out (fr_time_ns r) r) = Inr d"
    by (auto elim!: rbind_InrE split: sum.splits norm_error.splits if_splits option.splits)
  have "ran (dget (dset out (fr_time_ns r) r)) = insert r (ran (dget out))"
  proof -
    have u: "dget (dset out (fr_time_ns r) r) = (dget out)(fr_time_ns r \<mapsto> r)" by (rule update_conv')
    from c show ?thesis
    proof
      assume "dget out (fr_time_ns r) = None"
      then show ?thesis unfolding u by (rule ran_map_upd)
    next
      assume o: "dget out (fr_time_ns r) = Some r"
      then show ?thesis unfolding u by (simp only: fun_upd_triv fun_upd_idem insert_absorb ranI)
    qed
  qed
  moreover from 2(1) [of r] r c t keyed_by_time_dset [OF 2(3)]
  have "keyed_by_time d \<and> ran (dget d) = ran (dget (dset out (fr_time_ns r) r)) \<union> {r. \<exists>row \<in> set rs. normalize_funding_rate row inst = Inr r}
     \<and> (\<forall>row \<in> set rs. \<exists>r. normalize_funding_rate row inst = Inr r)" by (auto split: option.splits)
  ultimately show ?case using r by auto
qed

text \<open>A funding history comes out complete and ordered: when \<open>normalize_funding_rates\<close> returns, every row was valid, the
  returned rates are exactly those of the rows, and their times strictly increase, so two rows of one moment agree.\<close>
theorem funding_history_sorted:
  assumes "normalize_funding_rates rows inst = Inr rs"
  shows "sorted_wrt (<) (map fr_time_ns rs) \<and> set rs = {r. \<exists>row \<in> set rows. normalize_funding_rate row inst = Inr r}
     \<and> (\<forall>row \<in> set rows. \<exists>r \<in> set rs. normalize_funding_rate row inst = Inr r)"
proof -
  from assms obtain d where d: "funding_from 0 rows inst [] = Inr d" and rs: "rs = map (\<lambda>k. the (dget d k)) (sort (map fst d))"
    by (auto simp: normalize_funding_rates_def elim: rbind_InrE)
  have "keyed_by_time []" by (simp add: keyed_by_time_def)
  from funding_from_table [OF d this] have k: "keyed_by_time d"
    and r: "ran (dget d) = {r. \<exists>row \<in> set rows. normalize_funding_rate row inst = Inr r}"
    and all: "\<forall>row \<in> set rows. \<exists>r. normalize_funding_rate row inst = Inr r" by auto
  have ks: "k \<in> set (map fst d) \<longleftrightarrow> dget d k \<noteq> None" for k by (simp add: map_of_eq_None_iff)
  have "map fr_time_ns rs = map (\<lambda>k. fr_time_ns (the (dget d k))) (sort (map fst d))" by (simp add: rs)
  also have "\<dots> = map (\<lambda>k. k) (sort (map fst d))"
  proof (rule map_cong [OF refl])
    fix x assume "x \<in> set (sort (map fst d))"
    with ks [of x] k show "fr_time_ns (the (dget d x)) = x" by (auto simp: keyed_by_time_def)
  qed
  finally have times: "map fr_time_ns rs = sort (map fst d)" by simp
  have "distinct (map fst d)" using k by (simp add: keyed_by_time_def dict_ok_def)
  then have "sorted_wrt (<) (sort (map fst d))" by (simp add: strict_sorted_iff)
  moreover have "set rs = ran (dget d)"
    using ks by (force simp: rs ran_def image_iff)
  ultimately show ?thesis using r all times by fastforce
qed

definition ex_funding_row :: "int \<Rightarrow> json" where
  "ex_funding_row t = JObj [(''symbol'', JStr ''BTCUSDT''), (''fundingTime'', JInt t), (''fundingRate'', JStr ''0.0001''), (''markPrice'', JStr [])]"

theorem funding_history_sorted_witness:
  "\<exists>rs. normalize_funding_rates [ex_funding_row 9, ex_funding_row 4, ex_funding_row 9] BTC_USDT_PERP = Inr rs
     \<and> map fr_time_ns rs = [4000000, 9000000] \<and> sorted_wrt (<) (map fr_time_ns rs)"
proof -
  obtain rs where rs: "normalize_funding_rates [ex_funding_row 9, ex_funding_row 4, ex_funding_row 9] BTC_USDT_PERP = Inr rs"
      "map fr_time_ns rs = [4000000, 9000000]"
    by (simp add: normalize_funding_rates_def normalize_funding_rate_def ex_funding_row_def FUNDING_RATE_FIELDS_def FUNDING_RATE_REQUIRED_def
        funding_row_mark_def funding_row_type_def evals cong: rbind_weak_cong)
  from funding_history_sorted [OF rs(1)] have "sorted_wrt (<) (map fr_time_ns rs)" ..
  with rs show ?thesis by (intro exI [of _ rs] conjI)
qed

end
