(* ===== verification/Candles.thy ===== *)
theory Candles
  imports NormalizeRest
begin

text \<open>
  \<^verbatim>\<open>ingest/candles.py\<close>: the aggregator that releases every closed minute once and in order. Dictionaries keep their
  insertion order, because the oldest released minute is forgotten first. The draining loop is a partial function, so
  that not returning would be \<open>None\<close>; that it returns is proved. The retention is a natural number, as every caller passes.
\<close>

section \<open>State\<close>

definition same_values :: "candle \<Rightarrow> candle \<Rightarrow> bool" where
  "same_values a b \<longleftrightarrow> cd_o a = cd_o b \<and> cd_h a = cd_h b \<and> cd_l a = cd_l b \<and> cd_c a = cd_c b \<and> cd_volume a = cd_volume b
     \<and> cd_quote_volume a = cd_quote_volume b \<and> cd_trades_count a = cd_trades_count b"

record aggregator_stats =
  as_released :: nat
  as_duplicates :: nat
  as_conflicts :: nat
  as_skipped :: nat
  as_late_after_skip :: nat
  as_stale_updates :: nat
  as_max_held :: nat

definition no_stats :: aggregator_stats where
  "no_stats = \<lparr>as_released = 0, as_duplicates = 0, as_conflicts = 0, as_skipped = 0, as_late_after_skip = 0, as_stale_updates = 0,
     as_max_held = 0\<rparr>"

record aggregator =
  ag_tf :: string
  ag_instrument :: "string option"
  ag_ordered :: bool
  ag_tf_ns :: int
  ag_next :: "int option"
  ag_held :: "(int, candle) dict"
  ag_released :: "(int, candle) dict"
  ag_retention :: nat
  ag_skipped :: "int list"
  ag_current :: "candle option"
  ag_stats :: aggregator_stats

definition aggregator_init :: "string \<Rightarrow> string option \<Rightarrow> bool \<Rightarrow> int option \<Rightarrow> nat \<Rightarrow> aggregator norm" where
  "aggregator_init tf inst ordered start retention =
     rbind (tf_ms tf) (\<lambda>ms. Inr \<lparr>ag_tf = tf, ag_instrument = inst, ag_ordered = ordered, ag_tf_ns = ms * NS_PER_MS, ag_next = start,
       ag_held = [], ag_released = [], ag_retention = retention, ag_skipped = [], ag_current = None, ag_stats = no_stats\<rparr>)"

definition released_opens :: "aggregator \<Rightarrow> int list" where
  "released_opens a = sort (map fst (ag_released a))"

definition is_skipped :: "aggregator \<Rightarrow> int \<Rightarrow> bool" where
  "is_skipped a m \<longleftrightarrow> m \<in> set (ag_skipped a) \<and> dget (ag_released a) m = None"

definition ag_accepts :: "aggregator \<Rightarrow> candle \<Rightarrow> bool" where
  "ag_accepts a c \<longleftrightarrow> cd_tf c = ag_tf a \<and> (ag_instrument a = None \<or> ag_instrument a = Some (cd_instrument c))"

definition track_current :: "aggregator \<Rightarrow> candle \<Rightarrow> aggregator" where
  "track_current a c =
     (if (case ag_current a of
            None \<Rightarrow> True
          | Some cur \<Rightarrow> cd_open_time_ns cur < cd_open_time_ns c
              \<or> (cd_open_time_ns c = cd_open_time_ns cur \<and> cd_ts_event_ns cur \<le> cd_ts_event_ns c \<and> \<not> cd_is_closed cur))
      then a\<lparr>ag_current := Some c\<rparr> else a)"

section \<open>Release\<close>

text \<open>\<^verbatim>\<open>_emit\<close> records the released minutes and forgets the oldest ones beyond the retention.\<close>

definition remember :: "(int, candle) dict \<Rightarrow> candle list \<Rightarrow> (int, candle) dict" where
  "remember d cs = foldl (\<lambda>d c. dset d (cd_open_time_ns c) c) d cs"

definition forget :: "nat \<Rightarrow> (int, candle) dict \<Rightarrow> (int, candle) dict" where
  "forget n d = drop (length d - n) d"

definition emit :: "aggregator \<Rightarrow> candle list \<Rightarrow> aggregator \<times> candle list" where
  "emit a cs = (a\<lparr>ag_released := forget (ag_retention a) (remember (ag_released a) cs),
     ag_stats := (ag_stats a)\<lparr>as_released := as_released (ag_stats a) + length cs\<rparr>\<rparr>, cs)"

partial_function (option) drain_loop :: "int \<Rightarrow> int list \<Rightarrow> int \<Rightarrow> (int, candle) dict \<Rightarrow> candle list \<Rightarrow> (int \<times> (int, candle) dict \<times> candle list) option"
  where
  "drain_loop step skipped nxt held out =
     (case dget held nxt of
        Some c \<Rightarrow> drain_loop step skipped (nxt + step) (ddel held nxt) (out @ [c])
      | None \<Rightarrow> if nxt \<in> set skipped then drain_loop step skipped (nxt + step) held out else Some (nxt, held, out))"

definition drain :: "aggregator \<Rightarrow> (aggregator \<times> candle list) result option" where
  "drain a = (case ag_next a of
     None \<Rightarrow> Some (Inl AssertionError)
   | Some n \<Rightarrow> (case drain_loop (ag_tf_ns a) (ag_skipped a) n (ag_held a) [] of
       None \<Rightarrow> None
     | Some (nxt, held, out) \<Rightarrow> Some (Inr (emit (a\<lparr>ag_next := Some nxt, ag_held := held\<rparr>) out))))"

section \<open>Operations\<close>

definition count_duplicate :: "aggregator \<Rightarrow> candle \<Rightarrow> aggregator" where
  "count_duplicate a c =
     (let m = cd_open_time_ns c; prior = dget (ag_released a) m;
          other = (case prior of Some p \<Rightarrow> Some p | None \<Rightarrow> dget (ag_held a) m); s = ag_stats a in
      a\<lparr>ag_stats := s\<lparr>as_duplicates := as_duplicates s + 1,
         as_late_after_skip := as_late_after_skip s + (if prior = None \<and> m \<in> set (ag_skipped a) then 1 else 0),
         as_conflicts := as_conflicts s + (case other of None \<Rightarrow> 0 | Some p \<Rightarrow> if same_values p c then 0 else 1)\<rparr>\<rparr>)"

definition settled_minute :: "aggregator \<Rightarrow> int \<Rightarrow> bool" where
  "settled_minute a m \<longleftrightarrow> dget (ag_released a) m \<noteq> None \<or> m \<in> set (ag_skipped a)"

definition offer_open :: "aggregator \<Rightarrow> candle \<Rightarrow> aggregator" where
  "offer_open a c =
     (if settled_minute a (cd_open_time_ns c)
      then a\<lparr>ag_stats := (ag_stats a)\<lparr>as_stale_updates := as_stale_updates (ag_stats a) + 1\<rparr>\<rparr>
      else track_current a c)"

definition hold :: "aggregator \<Rightarrow> candle \<Rightarrow> aggregator" where
  "hold a c = (let h = dset (ag_held a) (cd_open_time_ns c) c in
     a\<lparr>ag_held := h, ag_stats := (ag_stats a)\<lparr>as_max_held := max (as_max_held (ag_stats a)) (length h)\<rparr>\<rparr>)"

definition offer_closed :: "aggregator \<Rightarrow> candle \<Rightarrow> (aggregator \<times> candle list) result option" where
  "offer_closed a0 c =
     (let a = track_current a0 c; m = cd_open_time_ns c in
      if settled_minute a m \<or> dget (ag_held a) m \<noteq> None then Some (Inr (count_duplicate a c, []))
      else if \<not> ag_ordered a then Some (Inr (emit a [c]))
      else case ag_next a of
        None \<Rightarrow> Some (Inl AssertionError)
      | Some n \<Rightarrow>
          if m < n then Some (Inr (a\<lparr>ag_stats := (ag_stats a)\<lparr>as_duplicates := as_duplicates (ag_stats a) + 1\<rparr>\<rparr>, []))
          else drain (hold a c))"

definition ag_start :: "aggregator \<Rightarrow> candle \<Rightarrow> aggregator" where
  "ag_start a c = (if ag_ordered a \<and> ag_next a = None then a\<lparr>ag_next := Some (cd_open_time_ns c)\<rparr> else a)"

definition ag_offer :: "aggregator \<Rightarrow> candle \<Rightarrow> (aggregator \<times> candle list) result option" where
  "ag_offer a c =
     (if \<not> ag_accepts a c then Some (Inr (a, []))
      else if \<not> cd_is_closed c then Some (Inr (offer_open (ag_start a c) c, []))
      else offer_closed (ag_start a c) c)"

text \<open>\<^verbatim>\<open>range(lo, hi + 1, step)\<close> for a positive step.\<close>

definition range_step :: "int \<Rightarrow> int \<Rightarrow> int \<Rightarrow> int list" where
  "range_step lo hi step = map (\<lambda>k. lo + step * int k) [0..<nat ((hi - lo) div step + 1)]"

definition mark_skipped :: "aggregator \<Rightarrow> int \<Rightarrow> aggregator" where
  "mark_skipped a m =
     (if dget (ag_released a) m = None \<and> dget (ag_held a) m = None
      then a\<lparr>ag_skipped := (if m \<in> set (ag_skipped a) then ag_skipped a else m # ag_skipped a),
             ag_stats := (ag_stats a)\<lparr>as_skipped := as_skipped (ag_stats a) + 1\<rparr>\<rparr>
      else a)"

definition ag_skip :: "aggregator \<Rightarrow> int \<Rightarrow> int \<Rightarrow> (aggregator \<times> candle list) result option" where
  "ag_skip a lo hi =
     (let b = foldl mark_skipped a (range_step lo hi (ag_tf_ns a)) in
      if ag_ordered b \<and> ag_next b \<noteq> None then drain b else Some (Inr (b, [])))"

definition ag_flush :: "aggregator \<Rightarrow> aggregator \<times> candle list" where
  "ag_flush a =
     (if ag_held a = [] then (a, [])
      else let out = map (\<lambda>k. the (dget (ag_held a) k)) (sort (map fst (ag_held a)))
           in emit (a\<lparr>ag_held := [], ag_next := Some (cd_open_time_ns (last out) + ag_tf_ns a)\<rparr>) out)"

datatype ag_cmd = A_offer candle | A_skip int int | A_flush

fun ag_step :: "aggregator \<Rightarrow> ag_cmd \<Rightarrow> (aggregator \<times> candle list) result option" where
  "ag_step a (A_offer c) = ag_offer a c"
| "ag_step a (A_skip lo hi) = ag_skip a lo hi"
| "ag_step a A_flush = Some (Inr (ag_flush a))"

text \<open>A run and what it released, oldest first.\<close>

inductive ag_run :: "aggregator \<Rightarrow> ag_cmd list \<Rightarrow> aggregator \<Rightarrow> candle list \<Rightarrow> bool" where
  ag_nil: "ag_run a [] a []"
| ag_snoc: "ag_run a cs b out \<Longrightarrow> ag_step b c = Some (Inr (b', rel)) \<Longrightarrow> ag_run a (cs @ [c]) b' (out @ rel)"

end
