(* ===== verification/CandlesProps.thy ===== *)
theory CandlesProps
  imports Candles
begin

text \<open>
  The aggregator in ordered mode: every operation returns, what a run releases is strictly increasing in time, no minute
  is missing between two released ones unless it was declared unobtainable, and nothing that could be released is held back.
\<close>

section \<open>The draining loop\<close>

definition keyed :: "(int, candle) dict \<Rightarrow> bool" where
  "keyed d \<longleftrightarrow> dict_ok d \<and> (\<forall>k c. dget d k = Some c \<longrightarrow> cd_open_time_ns c = k)"

abbreviation opens :: "candle list \<Rightarrow> int list" where
  "opens cs \<equiv> map cd_open_time_ns cs"

lemma keyed_ddel: "keyed d \<Longrightarrow> keyed (ddel d k)"
  by (auto simp: keyed_def split: if_splits)

lemma keyed_dset: "keyed d \<Longrightarrow> keyed (dset d (cd_open_time_ns c) c)"
  by (auto simp: keyed_def split: if_splits)

text \<open>What the loop has done when it stops at \<open>n'\<close>, started at \<open>n\<close>.\<close>

definition drained :: "int \<Rightarrow> int list \<Rightarrow> int \<Rightarrow> (int, candle) dict \<Rightarrow> int \<Rightarrow> (int, candle) dict \<Rightarrow> candle list \<Rightarrow> bool" where
  "drained step skipped n held n' held' rel \<longleftrightarrow>
     n \<le> n' \<and> step dvd n' - n \<and> dget held' n' = None \<and> n' \<notin> set skipped \<and> keyed held'
     \<and> (\<forall>k. dget held' k = (if k \<in> set (opens rel) then None else dget held k))
     \<and> (\<forall>c \<in> set rel. dget held (cd_open_time_ns c) = Some c \<and> n \<le> cd_open_time_ns c \<and> cd_open_time_ns c < n')
     \<and> sorted_wrt (<) (opens rel)
     \<and> (\<forall>m. n \<le> m \<and> m < n' \<and> step dvd m - n \<longrightarrow> m \<in> set (opens rel) \<or> (m \<in> set skipped \<and> dget held m = None))"

lemma drained_stop: "keyed held \<Longrightarrow> dget held n = None \<Longrightarrow> n \<notin> set skipped \<Longrightarrow> drained step skipped n held n held []"
  by (auto simp: drained_def)

lemma next_multiple:
  assumes "(0 :: int) < step" and "step dvd m - n" and "n \<le> m" and "m \<noteq> n"
  shows "n + step \<le> m" and "step dvd m - (n + step)"
proof -
  from assms(2) obtain q where q: "m - n = step * q" by (auto simp: dvd_def)
  with assms have "0 < step * q" by simp
  with assms(1) have "1 \<le> q" by (simp add: zero_less_mult_iff)
  with assms(1) have "step * 1 \<le> step * q" by (intro mult_left_mono) simp_all
  with q show "n + step \<le> m" by simp
  show "step dvd m - (n + step)" using dvd_diff [OF assms(2) dvd_refl] by (simp add: algebra_simps)
qed

lemma drained_release:
  assumes "0 < step" and "keyed held" and c: "dget held n = Some c" and d: "drained step skipped (n + step) (ddel held n) n' held' rel"
  shows "drained step skipped n held n' held' (c # rel)"
proof -
  have o: "cd_open_time_ns c = n" using assms(2) c by (auto simp: keyed_def)
  have "step dvd n' - n"
    using d dvd_add [of step "n' - (n + step)" step] by (simp add: drained_def)
  moreover have "m \<in> set (opens (c # rel)) \<or> (m \<in> set skipped \<and> dget held m = None)" if "n \<le> m \<and> m < n' \<and> step dvd m - n" for m
    using that next_multiple [OF assms(1), of m n] d o by (cases "m = n") (auto simp: drained_def)
  moreover have "n < cd_open_time_ns x" if "x \<in> set rel" for x using d that assms(1) by (auto simp: drained_def)
  ultimately show ?thesis using d o c assms(1) by (fastforce simp: drained_def)
qed

lemma drained_skip:
  assumes "0 < step" and "dget held n = None" and "n \<in> set skipped" and d: "drained step skipped (n + step) held n' held' rel"
  shows "drained step skipped n held n' held' rel"
proof -
  have "step dvd n' - n"
    using d dvd_add [of step "n' - (n + step)" step] by (simp add: drained_def)
  moreover have "m \<in> set (opens rel) \<or> (m \<in> set skipped \<and> dget held m = None)" if "n \<le> m \<and> m < n' \<and> step dvd m - n" for m
    using that next_multiple [OF assms(1), of m n] d assms(2,3) by (cases "m = n") (auto simp: drained_def)
  ultimately show ?thesis using d assms(1) by (fastforce simp: drained_def)
qed

lemma drain_loop_returns:
  assumes "0 < step" and "keyed held"
  shows "\<exists>n' held' rel. drain_loop step skipped n held out = Some (n', held', out @ rel) \<and> drained step skipped n held n' held' rel"
  using assms(2)
proof (induction "card {m \<in> fst ` set held \<union> set skipped. n \<le> m}" arbitrary: n held out rule: less_induct)
  case less
  let ?S = "\<lambda>n held. {m \<in> fst ` set held \<union> set skipped. n \<le> m}"
  have smaller: "card (?S (n + step) held') < card (?S n held)" if "fst ` set held' \<subseteq> fst ` set held" "n \<in> fst ` set held \<union> set skipped" for held'
  proof (rule psubset_card_mono)
    have "n \<in> ?S n held" "n \<notin> ?S (n + step) held'" using that assms(1) by simp_all
    moreover have "?S (n + step) held' \<subseteq> ?S n held" using that(1) assms(1) by auto
    ultimately show "?S (n + step) held' \<subset> ?S n held" by blast
  qed simp
  show ?case
  proof (cases "dget held n")
    case (Some c)
    then have "n \<in> fst ` set held" by (metis (no_types) option.distinct(1) map_of_eq_None_iff)
    then have "card (?S (n + step) (ddel held n)) < card (?S n held)" by (intro smaller) (auto simp: AList.delete_eq)
    from less(1) [OF this keyed_ddel [OF less(2)], of "out @ [c]"] obtain n' held' rel
      where "drain_loop step skipped (n + step) (ddel held n) (out @ [c]) = Some (n', held', (out @ [c]) @ rel)"
        and d: "drained step skipped (n + step) (ddel held n) n' held' rel" by blast
    then have "drain_loop step skipped n held out = Some (n', held', out @ (c # rel))"
      using Some by (subst drain_loop.simps) simp
    with drained_release [OF assms(1) less(2) Some d] show ?thesis by blast
  next
    case None
    show ?thesis
    proof (cases "n \<in> set skipped")
      case True
      then have "card (?S (n + step) held) < card (?S n held)" by (intro smaller) simp_all
      from less(1) [OF this less(2), of out] obtain n' held' rel
        where "drain_loop step skipped (n + step) held out = Some (n', held', out @ rel)"
          and d: "drained step skipped (n + step) held n' held' rel" by blast
      then have "drain_loop step skipped n held out = Some (n', held', out @ rel)"
        using None True by (subst drain_loop.simps) simp
      with drained_skip [OF assms(1) None True d] show ?thesis by blast
    next
      case False
      have "drain_loop step skipped n held out = Some (n, held, out @ [])"
        using None False by (subst drain_loop.simps) simp
      with drained_stop [OF less(2) None False] show ?thesis by blast
    qed
  qed
qed

section \<open>Runs in ordered mode\<close>

text \<open>
  The state between two operations, with what was released so far: everything released is older than the next minute,
  everything held is not; times lie on the grid of the interval.
\<close>

definition ag_ok :: "aggregator \<Rightarrow> candle list \<Rightarrow> bool" where
  "ag_ok a out \<longleftrightarrow> ag_ordered a \<and> 0 < ag_tf_ns a \<and> keyed (ag_held a) \<and> sorted_wrt (<) (opens out)
     \<and> (case ag_next a of
          None \<Rightarrow> out = [] \<and> ag_held a = []
        | Some n \<Rightarrow> ag_tf_ns a dvd n \<and> (\<forall>c \<in> set out. cd_open_time_ns c < n)
            \<and> (\<forall>k c. dget (ag_held a) k = Some c \<longrightarrow> n \<le> k \<and> ag_tf_ns a dvd k))"

text \<open>Nothing that could be released is held back.\<close>

definition tight :: "aggregator \<Rightarrow> bool" where
  "tight a \<longleftrightarrow> (\<forall>n. ag_next a = Some n \<longrightarrow> dget (ag_held a) n = None)"

text \<open>No hole: every minute from the first released one on is released or declared unobtainable.\<close>

definition gapless :: "aggregator \<Rightarrow> candle list \<Rightarrow> bool" where
  "gapless a out \<longleftrightarrow> (\<forall>m n. ag_next a = Some n \<and> ag_tf_ns a dvd m \<and> m < n \<and> (\<exists>c \<in> set out. cd_open_time_ns c \<le> m)
     \<longrightarrow> m \<in> set (opens out) \<or> m \<in> set (ag_skipped a))"

lemma gapless_Nil [simp]: "gapless a []"
  by (simp add: gapless_def)

lemma emit_simps [simp]:
  "snd (emit a cs) = cs" "ag_next (fst (emit a cs)) = ag_next a" "ag_held (fst (emit a cs)) = ag_held a"
  "ag_tf_ns (fst (emit a cs)) = ag_tf_ns a" "ag_ordered (fst (emit a cs)) = ag_ordered a" "ag_skipped (fst (emit a cs)) = ag_skipped a"
  "ag_tf (fst (emit a cs)) = ag_tf a"
  by (simp_all add: emit_def)

lemma sorted_append_opens:
  "sorted_wrt (<) (opens out) \<Longrightarrow> sorted_wrt (<) (opens rel) \<Longrightarrow> \<forall>c \<in> set out. cd_open_time_ns c < n \<Longrightarrow> \<forall>c \<in> set rel. n \<le> cd_open_time_ns c \<Longrightarrow>
    sorted_wrt (<) (opens (out @ rel))"
  by (fastforce simp: sorted_wrt_append)

lemma drain_ok:
  assumes ok: "ag_ok a out" and n: "ag_next a = Some n"
  shows "\<exists>b rel. drain a = Some (Inr (b, rel)) \<and> ag_ok b (out @ rel) \<and> tight b \<and> ag_tf_ns b = ag_tf_ns a
    \<and> (gapless a out \<longrightarrow> gapless b (out @ rel))"
proof -
  have held: "keyed (ag_held a)" and step: "0 < ag_tf_ns a" and al: "ag_tf_ns a dvd n" and old: "\<forall>c \<in> set out. cd_open_time_ns c < n"
    and srt: "sorted_wrt (<) (opens out)" and ord: "ag_ordered a"
    and hk: "\<And>k c. dget (ag_held a) k = Some c \<Longrightarrow> n \<le> k \<and> ag_tf_ns a dvd k"
    using ok n by (auto simp: ag_ok_def)
  from drain_loop_returns [OF step held, of "ag_skipped a" n "[]"] obtain n' held' rel
    where loop: "drain_loop (ag_tf_ns a) (ag_skipped a) n (ag_held a) [] = Some (n', held', rel)"
      and d: "drained (ag_tf_ns a) (ag_skipped a) n (ag_held a) n' held' rel" by auto
  let ?b = "fst (emit (a\<lparr>ag_next := Some n', ag_held := held'\<rparr>) rel)"
  have eq: "drain a = Some (Inr (?b, rel))" using n loop by (simp add: drain_def emit_def)
  have al': "ag_tf_ns a dvd n'" using d dvd_add [OF _ al, of "n' - n"] by (simp add: drained_def)
  have keys: "n' \<le> k \<and> ag_tf_ns a dvd k" if "dget held' k = Some c" for k c
  proof -
    from that d have h: "dget (ag_held a) k = Some c" "k \<notin> set (opens rel)" by (auto simp: drained_def split: if_splits)
    then have k: "n \<le> k" "ag_tf_ns a dvd k" using hk by auto
    have "n' \<le> k"
    proof (rule ccontr)
      assume "\<not> n' \<le> k"
      moreover have "ag_tf_ns a dvd k - n" using k(2) al by (rule dvd_diff)
      ultimately have "k \<in> set (opens rel) \<or> dget (ag_held a) k = None" using k(1) d by (auto simp: drained_def)
      with h show False by simp
    qed
    with k(2) show ?thesis by simp
  qed
  have new: "\<forall>c \<in> set rel. n \<le> cd_open_time_ns c \<and> cd_open_time_ns c < n'" and srt': "sorted_wrt (<) (opens rel)" and le: "n \<le> n'"
    and kd: "keyed held'" and tn: "dget held' n' = None"
    using d unfolding drained_def by blast+
  have "ag_ok ?b (out @ rel)"
    using ord step kd al' old new le keys sorted_append_opens [OF srt srt' old] by (fastforce simp: ag_ok_def)
  moreover have "tight ?b" using tn by (simp add: tight_def)
  moreover have "gapless ?b (out @ rel)" if g: "gapless a out"
    unfolding gapless_def
  proof (intro allI impI)
    fix m x assume m: "ag_next ?b = Some x \<and> ag_tf_ns ?b dvd m \<and> m < x \<and> (\<exists>c \<in> set (out @ rel). cd_open_time_ns c \<le> m)"
    then have m': "ag_tf_ns a dvd m" "m < n'" and e: "\<exists>c \<in> set (out @ rel). cd_open_time_ns c \<le> m" by auto
    show "m \<in> set (opens (out @ rel)) \<or> m \<in> set (ag_skipped ?b)"
    proof (cases "n \<le> m")
      case True
      moreover have "ag_tf_ns a dvd m - n" using m'(1) al by (rule dvd_diff)
      ultimately show ?thesis using m'(2) d by (auto simp: drained_def)
    next
      case False
      with e new have "\<exists>c \<in> set out. cd_open_time_ns c \<le> m" by force
      with g n m'(1) False show ?thesis by (auto simp: gapless_def)
    qed
  qed
  ultimately show ?thesis using eq by (intro exI [of _ ?b] exI [of _ rel]) simp
qed

section \<open>The operations\<close>

text \<open>Bookkeeping that leaves the queue alone: counters, the current bar, further skipped minutes.\<close>

definition same_queue :: "aggregator \<Rightarrow> aggregator \<Rightarrow> bool" where
  "same_queue a b \<longleftrightarrow> ag_ordered b = ag_ordered a \<and> ag_tf_ns b = ag_tf_ns a \<and> ag_next b = ag_next a \<and> ag_held b = ag_held a
     \<and> set (ag_skipped a) \<subseteq> set (ag_skipped b)"

lemma same_queueD:
  assumes "same_queue a b"
  shows "ag_ok a out \<Longrightarrow> ag_ok b out" and "tight a \<Longrightarrow> tight b" and "gapless a out \<Longrightarrow> gapless b out" and "ag_tf_ns b = ag_tf_ns a"
proof -
  from assms have eqs: "ag_ordered b = ag_ordered a" "ag_tf_ns b = ag_tf_ns a" "ag_next b = ag_next a" "ag_held b = ag_held a"
    and sub: "set (ag_skipped a) \<subseteq> set (ag_skipped b)" by (simp_all add: same_queue_def)
  show "ag_ok a out \<Longrightarrow> ag_ok b out" "tight a \<Longrightarrow> tight b" "ag_tf_ns b = ag_tf_ns a"
    by (simp_all only: ag_ok_def tight_def eqs)
  show "gapless a out \<Longrightarrow> gapless b out" using sub unfolding gapless_def eqs by blast
qed

lemma same_queue_ops:
  "same_queue a (track_current a c)" "same_queue a (count_duplicate a c)" "same_queue a (offer_open a c)" "same_queue a (a\<lparr>ag_stats := s\<rparr>)"
  "same_queue a (foldl mark_skipped a ms)"
proof -
  show "same_queue a (foldl mark_skipped a ms)"
  proof (induction ms arbitrary: a)
    case (Cons m ms)
    have "same_queue a (mark_skipped a m)" by (auto simp: same_queue_def mark_skipped_def)
    with Cons [of "mark_skipped a m"] show ?case by (auto simp: same_queue_def)
  qed (simp add: same_queue_def)
qed (auto simp: same_queue_def track_current_def count_duplicate_def Let_def offer_open_def)

lemma start_ok:
  assumes "ag_ok a out" and "tight a" and "ag_tf_ns a dvd cd_open_time_ns c"
  shows "ag_ok (ag_start a c) out" and "tight (ag_start a c)" and "gapless a out \<Longrightarrow> gapless (ag_start a c) out"
    and "ag_tf_ns (ag_start a c) = ag_tf_ns a" and "ag_next (ag_start a c) \<noteq> None"
  using assms by (auto simp: ag_start_def ag_ok_def tight_def)

definition progress :: "aggregator \<Rightarrow> candle list \<Rightarrow> aggregator \<Rightarrow> candle list \<Rightarrow> bool" where
  "progress a out b rel \<longleftrightarrow> ag_ok b (out @ rel) \<and> tight b \<and> ag_tf_ns b = ag_tf_ns a \<and> (gapless a out \<longrightarrow> gapless b (out @ rel))"

lemma progress_quiet: "same_queue a b \<Longrightarrow> ag_ok a out \<Longrightarrow> tight a \<Longrightarrow> progress a out b []"
  using same_queueD [of a b] by (simp add: progress_def)

lemma progress_from: "progress a' out b rel \<Longrightarrow> ag_tf_ns a' = ag_tf_ns a \<Longrightarrow> (gapless a out \<Longrightarrow> gapless a' out) \<Longrightarrow> progress a out b rel"
  by (auto simp: progress_def)

lemma drain_progress:
  "ag_ok a out \<Longrightarrow> ag_next a = Some n \<Longrightarrow> \<exists>b rel. drain a = Some (Inr (b, rel)) \<and> progress a out b rel"
  using drain_ok [of a out n] unfolding progress_def by blast

lemma offer_closed_progress:
  assumes ok: "ag_ok a out" "tight a" and n: "ag_next a = Some n" and al: "ag_tf_ns a dvd cd_open_time_ns c"
  shows "\<exists>b rel. offer_closed a c = Some (Inr (b, rel)) \<and> progress a out b rel"
proof -
  let ?t = "track_current a c"
  have t: "same_queue a ?t" by (rule same_queue_ops)
  note tq = same_queueD [OF t]
  have quiet: "progress a out b []" if "same_queue ?t b" for b
    using progress_quiet [OF that tq(1) [OF ok(1)] tq(2) [OF ok(2)]] tq(4,3) by (rule progress_from)
  have nt: "ag_next ?t = Some n" "ag_ordered ?t" using t n ok by (auto simp: same_queue_def ag_ok_def)
  show ?thesis
  proof (cases "settled_minute ?t (cd_open_time_ns c) \<or> dget (ag_held ?t) (cd_open_time_ns c) \<noteq> None \<or> cd_open_time_ns c < n")
    case True
    have "progress a out (count_duplicate ?t c) []" by (rule quiet) (rule same_queue_ops)
    moreover have "progress a out (?t\<lparr>ag_stats := s\<rparr>) []" for s by (rule quiet) (rule same_queue_ops)
    ultimately show ?thesis using True nt by (auto simp: offer_closed_def Let_def)
  next
    case False
    let ?h = "hold ?t c"
    have "ag_ok ?h out" using tq(1) [OF ok(1)] False nt al tq(4)
      by (auto simp: ag_ok_def hold_def Let_def keyed_dset split: if_splits)
    moreover have h: "ag_next ?h = Some n" "ag_tf_ns ?h = ag_tf_ns a" using nt tq(4) by (simp_all add: hold_def Let_def)
    moreover have "gapless a out \<Longrightarrow> gapless ?h out" using tq(3) by (simp add: gapless_def hold_def Let_def)
    ultimately obtain b rel where "drain ?h = Some (Inr (b, rel))" "progress a out b rel"
      using drain_progress [of ?h out n] progress_from by metis
    moreover have "offer_closed a c = drain ?h" using False nt by (simp add: offer_closed_def Let_def)
    ultimately show ?thesis by simp
  qed
qed

fun on_grid_cmd :: "int \<Rightarrow> ag_cmd \<Rightarrow> bool" where
  "on_grid_cmd step (A_offer c) \<longleftrightarrow> step dvd cd_open_time_ns c"
| "on_grid_cmd step _ \<longleftrightarrow> True"

lemma offer_progress:
  assumes "ag_ok a out" "tight a" "ag_tf_ns a dvd cd_open_time_ns c"
  shows "\<exists>b rel. ag_offer a c = Some (Inr (b, rel)) \<and> progress a out b rel"
proof -
  let ?s = "ag_start a c"
  note s = start_ok [OF assms]
  have "progress a out (offer_open ?s c) []"
    using progress_quiet [OF same_queue_ops(3) s(1,2)] s(4) s(3) by (rule progress_from)
  moreover have "progress a out a []" using assms by (simp add: progress_def)
  moreover obtain n where "ag_next ?s = Some n" using s(5) by auto
  then obtain b rel where "offer_closed ?s c = Some (Inr (b, rel))" "progress ?s out b rel"
    using offer_closed_progress [OF s(1,2)] assms(3) s(4) by metis
  moreover from this have "progress a out b rel" using s(4,3) by (blast intro: progress_from)
  ultimately show ?thesis by (auto simp: ag_offer_def)
qed

lemma skip_progress:
  assumes "ag_ok a out" "tight a"
  shows "\<exists>b rel. ag_skip a lo hi = Some (Inr (b, rel)) \<and> progress a out b rel"
proof -
  let ?b = "foldl mark_skipped a (range_step lo hi (ag_tf_ns a))"
  have q: "same_queue a ?b" by (rule same_queue_ops)
  note b = same_queueD [OF q]
  show ?thesis
  proof (cases "ag_next ?b")
    case None
    then show ?thesis using progress_quiet [OF q assms] by (simp add: ag_skip_def Let_def)
  next
    case (Some n)
    have "ag_ordered ?b" using b(1) [OF assms(1)] by (simp add: ag_ok_def)
    with Some drain_progress [OF b(1) [OF assms(1)] Some] progress_from [OF _ b(4,3)] show ?thesis by (auto simp: ag_skip_def Let_def)
  qed
qed

lemma flush_ok:
  assumes ok: "ag_ok a out" and t: "tight a"
  shows "ag_ok (fst (ag_flush a)) (out @ snd (ag_flush a)) \<and> tight (fst (ag_flush a)) \<and> ag_tf_ns (fst (ag_flush a)) = ag_tf_ns a"
proof (cases "ag_held a = []")
  case True
  then show ?thesis using assms by (simp add: ag_flush_def)
next
  case False
  let ?ks = "sort (map fst (ag_held a))" and ?rel = "map (\<lambda>k. the (dget (ag_held a) k)) (sort (map fst (ag_held a)))"
  from ok False obtain n where n: "ag_next a = Some n" by (auto simp: ag_ok_def split: option.splits)
  have facts: "keyed (ag_held a)" "0 < ag_tf_ns a" "\<And>k c. dget (ag_held a) k = Some c \<Longrightarrow> n \<le> k \<and> ag_tf_ns a dvd k"
    "\<forall>c \<in> set out. cd_open_time_ns c < n" "sorted_wrt (<) (opens out)" "ag_ordered a"
    using ok n by (auto simp: ag_ok_def)
  have key: "cd_open_time_ns (the (dget (ag_held a) k)) = k \<and> n \<le> k \<and> ag_tf_ns a dvd k" if "k \<in> set ?ks" for k
  proof -
    from that obtain c where "dget (ag_held a) k = Some c" by (metis map_of_eq_None_iff not_None_eq set_map set_sort)
    with facts show ?thesis by (auto simp: keyed_def)
  qed
  have opens: "opens ?rel = ?ks" unfolding map_map by (rule map_idI) (use key in simp)
  have srt: "sorted_wrt (<) ?ks" using facts(1) by (simp add: strict_sorted_iff keyed_def dict_ok_def)
  have ne: "?ks \<noteq> []" using False by (simp flip: length_greater_0_conv)
  have le: "k \<le> last ?ks" if "k \<in> set ?ks" for k
    using sorted_wrt_append [of "(<)" "butlast ?ks" "[last ?ks]"] srt append_butlast_last_id [OF ne] that by (metis Un_iff insert_iff less_imp_le list.set(2) order_refl set_append empty_iff list.set(1))
  have l: "cd_open_time_ns (last ?rel) = last ?ks" "last ?ks \<in> set ?ks"
    using last_in_set [OF ne] key [OF last_in_set [OF ne]] last_map [OF ne, of "\<lambda>k. the (dget (ag_held a) k)"] by (simp_all only:)
  let ?b = "fst (ag_flush a)"
  have b: "snd (ag_flush a) = ?rel" "ag_next ?b = Some (last ?ks + ag_tf_ns a)" "ag_held ?b = []" "ag_tf_ns ?b = ag_tf_ns a" "ag_ordered ?b"
    using False l facts(6) by (simp_all add: ag_flush_def Let_def)
  have "ag_ok ?b (out @ ?rel)"
    unfolding ag_ok_def b option.case
  proof (intro conjI)
    show "sorted_wrt (<) (opens (out @ ?rel))"
      using sorted_append_opens [OF facts(5) _ facts(4), of ?rel] srt opens key by auto
    show "ag_tf_ns a dvd last ?ks + ag_tf_ns a" using key [OF l(2)] by (simp add: dvd_add)
    show "\<forall>c \<in> set (out @ ?rel). cd_open_time_ns c < last ?ks + ag_tf_ns a"
      using facts(2,4) key le l(2) by (fastforce simp del: set_sort)
  qed (use facts b(5) in \<open>simp_all add: keyed_def\<close>)
  moreover have "tight ?b" by (simp add: tight_def b)
  ultimately show ?thesis using b by simp
qed

lemma step_progress:
  assumes "ag_ok a out" "tight a" "on_grid_cmd (ag_tf_ns a) cmd"
  shows "\<exists>b rel. ag_step a cmd = Some (Inr (b, rel)) \<and> ag_ok b (out @ rel) \<and> tight b \<and> ag_tf_ns b = ag_tf_ns a
    \<and> (cmd \<noteq> A_flush \<longrightarrow> gapless a out \<longrightarrow> gapless b (out @ rel))"
proof (cases cmd)
  case (A_offer c)
  with assms offer_progress [of a out c] show ?thesis by (auto simp: progress_def)
next
  case (A_skip lo hi)
  with skip_progress [OF assms(1,2), of lo hi] show ?thesis by (auto simp: progress_def)
next
  case A_flush
  with flush_ok [OF assms(1,2)] show ?thesis 
    by (intro exI [of _ "fst (ag_flush a)"] exI [of _ "snd (ag_flush a)"]) simp
qed

lemma init_ok:
  assumes "aggregator_init tf inst True start retention = Inr a" and "case start of None \<Rightarrow> True | Some s \<Rightarrow> ag_tf_ns a dvd s"
  shows "ag_ok a [] \<and> tight a"
proof -
  have "list_all (\<lambda>(k, n). 0 < n) TF_MS" by (simp add: TF_MS_def)
  then have "dget TF_MS tf = Some ms \<Longrightarrow> 0 < ms" for ms by (auto simp: list_all_iff dest!: map_of_SomeD)
  with assms show ?thesis
    by (auto simp: aggregator_init_def tf_ms_def ag_ok_def tight_def keyed_def NS_PER_MS_def elim!: rbind_InrE split: option.splits)
qed

lemma run_progress:
  assumes "ag_run a cmds b out" and "ag_ok a []" "tight a" "\<forall>c \<in> set cmds. on_grid_cmd (ag_tf_ns a) c"
  shows "ag_ok b out \<and> tight b \<and> ag_tf_ns b = ag_tf_ns a \<and> (A_flush \<notin> set cmds \<longrightarrow> gapless b out)"
  using assms
proof (induction rule: ag_run.induct)
  case (ag_nil a)
  then show ?case by simp
next
  case (ag_snoc a cs b out c b' rel)
  then have ih: "ag_ok b out" "tight b" "ag_tf_ns b = ag_tf_ns a" "A_flush \<notin> set cs \<longrightarrow> gapless b out" by simp_all
  with step_progress [of b out c] ag_snoc show ?case by auto
qed

text \<open>C25: The aggregator always returns: from construction on, whatever sequence of candles, skips and flushes arrives, every call
  terminates (the draining loop consumes a held or skipped minute each time round) and raises nothing.\<close>
theorem aggregator_returns:
  assumes "aggregator_init tf inst True start retention = Inr a" and "case start of None \<Rightarrow> True | Some s \<Rightarrow> ag_tf_ns a dvd s"
    and "\<forall>c \<in> set cmds. on_grid_cmd (ag_tf_ns a) c"
  shows "\<exists>b out. ag_run a cmds b out"
  using assms(3)
proof (induction cmds rule: rev_induct)
  case Nil
  show ?case by (blast intro: ag_nil)
next
  case (snoc c cs)
  note ok = init_ok [OF assms(1,2)]
  from snoc obtain b out where r: "ag_run a cs b out" by auto
  with run_progress [OF r] ok snoc(2) have "ag_ok b out" "tight b" "on_grid_cmd (ag_tf_ns b) c" by auto
  from step_progress [OF this] r show ?case by (blast intro: ag_snoc)
qed


section \<open>A run that reorders frames\<close>

lemma drain_loop_eval [evals]:
  "dget held n = Some c \<Longrightarrow> drain_loop step skipped n held out = drain_loop step skipped (n + step) (ddel held n) (out @ [c])"
  "dget held n = None \<Longrightarrow> n \<in> set skipped \<Longrightarrow> drain_loop step skipped n held out = drain_loop step skipped (n + step) held out"
  "dget held n = None \<Longrightarrow> n \<notin> set skipped \<Longrightarrow> drain_loop step skipped n held out = Some (n, held, out)"
  by (subst drain_loop.simps; simp)+

lemmas ag_eval [evals] = aggregator_init_def tf_ms_def TF_MS_def NS_PER_MS_def no_stats_def ag_offer_def ag_accepts_def ag_start_def offer_open_def
  settled_minute_def offer_closed_def track_current_def hold_def drain_def emit_def remember_def forget_def count_duplicate_def ag_skip_def
  range_step_def mark_skipped_def

definition ex_candle :: "int \<Rightarrow> candle" where
  "ex_candle k = \<lparr>cd_instrument = ''BTC-USDT-PERP'', cd_venue = BINANCE_USDM, cd_tf = ''1m'', cd_open_time_ns = k * 60000000000,
     cd_close_time_ns = k * 60000000000 + 59999000000, cd_o = 10, cd_h = 11, cd_l = 9, cd_c = 10, cd_volume = 1, cd_quote_volume = 10,
     cd_trades_count = 3, cd_vwap = None, cd_is_closed = True, cd_is_synthetic = False, cd_src = WS,
     cd_ts_event_ns = k * 60000000000 + 60000000000, cd_ts_ingest_ns = 0, cd_event_uid = []\<rparr>"

definition ex_cmds :: "ag_cmd list" where
  "ex_cmds = [A_offer (ex_candle 1), A_offer (ex_candle 4), A_offer (ex_candle 2), A_offer (ex_candle 1), A_skip 180000000000 180000000000]"

lemma ex_init: "\<exists>a. aggregator_init ''1m'' None True None 100 = Inr a \<and> ag_tf_ns a = 60000000000"
  by (simp add: evals cong: rbind_weak_cong)

theorem aggregator_returns_witness:
  "\<exists>a b out. aggregator_init ''1m'' None True None 100 = Inr a \<and> ag_run a ex_cmds b out"
proof -
  from ex_init obtain a where a: "aggregator_init ''1m'' None True None 100 = Inr a" "ag_tf_ns a = 60000000000" by blast
  have "\<forall>c \<in> set ex_cmds. on_grid_cmd (ag_tf_ns a) c" by (simp add: ex_cmds_def a ex_candle_def)
  with aggregator_returns [OF a(1), of ex_cmds] a show ?thesis by auto
qed

fun ag_run_fun :: "aggregator \<Rightarrow> ag_cmd list \<Rightarrow> (aggregator \<times> candle list) option" where
  "ag_run_fun a [] = Some (a, [])"
| "ag_run_fun a (c # cs) = (case ag_step a c of Some (Inr (b, rel)) \<Rightarrow> map_option (\<lambda>(d, out). (d, rel @ out)) (ag_run_fun b cs) | _ \<Rightarrow> None)"

lemma ag_run_cons: "ag_run b cs d out \<Longrightarrow> ag_step a c = Some (Inr (b, rel)) \<Longrightarrow> ag_run a (c # cs) d (rel @ out)"
proof (induction rule: ag_run.induct)
  case (ag_nil b)
  then show ?case using ag_snoc [OF ag_run.ag_nil, of a c b rel] by simp
next
  case (ag_snoc b cs e out x e' rel')
  from ag_run.ag_snoc [OF ag_snoc(3) [OF ag_snoc(4)] ag_snoc(2)] show ?case by simp
qed

lemma ag_run_of_fun: "ag_run_fun a cs = Some (b, out) \<Longrightarrow> ag_run a cs b out"
proof (induction cs arbitrary: a b out)
  case (Cons c cs)
  from Cons(2) obtain d rel out' where "ag_step a c = Some (Inr (d, rel))" "ag_run_fun d cs = Some (b, out')" "out = rel @ out'"
    by (auto split: option.splits sum.splits)
  with Cons(1) show ?case by (blast intro: ag_run_cons)
qed (simp add: ag_nil)

lemma ex_candle_facts [evals]:
  "cd_open_time_ns (ex_candle k) = k * 60000000000" "cd_tf (ex_candle k) = ''1m''" "cd_is_closed (ex_candle k)"
  "cd_ts_event_ns (ex_candle k) = k * 60000000000 + 60000000000" "same_values (ex_candle i) (ex_candle j)"
  by (simp_all add: ex_candle_def same_values_def)

lemma ex_release_run:
  "(case aggregator_init ''1m'' None True None 100 of Inr a \<Rightarrow> map_option (\<lambda>r. opens (snd r)) (ag_run_fun a ex_cmds) | Inl _ \<Rightarrow> None)
     = Some [60000000000, 120000000000, 240000000000]"
  by (simp add: ex_cmds_def evals cong: rbind_weak_cong option.case_cong_weak)


end
