(* ===== verification/Dedup.thy ===== *)
theory Dedup
  imports Domain "HOL-Library.Product_Lexorder" "HOL-Library.List_Lexorder" "HOL-Library.Char_ord" "HOL-Library.Multiset"
begin

text \<open>
  \<^verbatim>\<open>ingest/dedup.py\<close>: one record per \<^verbatim>\<open>event_uid\<close>, whatever order the copies arrive in. The digest of the
  canonical content, computed by a library, is a parameter: a number, because hexadecimal strings of one length
  compare as the numbers they denote.
\<close>

section \<open>The order of precedence\<close>

fun ev_uid :: "market_event \<Rightarrow> string" where
  "ev_uid (EvCandle c) = cd_event_uid c"
| "ev_uid (EvTrade t) = td_event_uid t"
| "ev_uid (EvBook b) = bk_event_uid b"
| "ev_uid (EvMark m) = mp_event_uid m"

fun ev_ts_event :: "market_event \<Rightarrow> int" where
  "ev_ts_event (EvCandle c) = cd_ts_event_ns c"
| "ev_ts_event (EvTrade t) = td_ts_event_ns t"
| "ev_ts_event (EvBook b) = bk_ts_event_ns b"
| "ev_ts_event (EvMark m) = mp_ts_event_ns m"

fun ev_ts_ingest :: "market_event \<Rightarrow> int" where
  "ev_ts_ingest (EvCandle c) = cd_ts_ingest_ns c"
| "ev_ts_ingest (EvTrade t) = td_ts_ingest_ns t"
| "ev_ts_ingest (EvBook b) = bk_ts_ingest_ns b"
| "ev_ts_ingest (EvMark m) = mp_ts_ingest_ns m"

type_synonym prec_key = "int \<times> int \<times> int \<times> int"

fun precedence :: "market_event \<Rightarrow> prec_key" where
  "precedence (EvCandle c) = (if cd_is_closed c then 1 else 0, - src_int (cd_src c), cd_ts_event_ns c, - cd_ts_ingest_ns c)"
| "precedence e = (1, 0, ev_ts_event e, - ev_ts_ingest e)"

text \<open>\<^verbatim>\<open>new is old\<close> answers as the digests do: an object does not outrank itself.\<close>

definition outranks :: "(market_event \<Rightarrow> nat) \<Rightarrow> market_event \<Rightarrow> market_event \<Rightarrow> bool" where
  "outranks hx new old =
     (let kn = precedence new; ko = precedence old in if kn \<noteq> ko then ko < kn else hx old < hx new)"

section \<open>The deduplicator\<close>

datatype dedup_outcome = Dd_new | Dd_duplicate | Dd_replaced

record deduplicator =
  dd_max :: "nat option"
  dd_events :: "(string, market_event) dict"
  dd_new :: nat
  dd_duplicate :: nat
  dd_replaced :: nat

definition deduplicator_init :: "int option \<Rightarrow> deduplicator result" where
  "deduplicator_init max_size =
     (if (case max_size of None \<Rightarrow> False | Some n \<Rightarrow> n < 1) then Inl ValueError
      else Inr \<lparr>dd_max = map_option nat max_size, dd_events = [], dd_new = 0, dd_duplicate = 0, dd_replaced = 0\<rparr>)"

definition dd_count :: "deduplicator \<Rightarrow> dedup_outcome \<Rightarrow> deduplicator" where
  "dd_count d r = (case r of
     Dd_new \<Rightarrow> d\<lparr>dd_new := dd_new d + 1\<rparr>
   | Dd_duplicate \<Rightarrow> d\<lparr>dd_duplicate := dd_duplicate d + 1\<rparr>
   | Dd_replaced \<Rightarrow> d\<lparr>dd_replaced := dd_replaced d + 1\<rparr>)"

definition evict :: "nat option \<Rightarrow> (string, market_event) dict \<Rightarrow> (string, market_event) dict" where
  "evict m es = (case m of None \<Rightarrow> es | Some n \<Rightarrow> if n < length es then tl es else es)"

definition offer :: "(market_event \<Rightarrow> nat) \<Rightarrow> deduplicator \<Rightarrow> market_event \<Rightarrow> deduplicator \<times> dedup_outcome" where
  "offer hx d ev = (case dget (dd_events d) (ev_uid ev) of
     None \<Rightarrow> (dd_count (d\<lparr>dd_events := evict (dd_max d) (dset (dd_events d) (ev_uid ev) ev)\<rparr>) Dd_new, Dd_new)
   | Some old \<Rightarrow>
       if outranks hx ev old then (dd_count (d\<lparr>dd_events := dset (dd_events d) (ev_uid ev) ev\<rparr>) Dd_replaced, Dd_replaced)
       else (dd_count d Dd_duplicate, Dd_duplicate))"

fun offer_all :: "(market_event \<Rightarrow> nat) \<Rightarrow> deduplicator \<Rightarrow> market_event list \<Rightarrow> deduplicator \<times> market_event list" where
  "offer_all hx d [] = (d, [])"
| "offer_all hx d (ev # evs) =
     (let (d1, r) = offer hx d ev; (d2, out) = offer_all hx d1 evs in (d2, if r \<noteq> Dd_duplicate then ev # out else out))"

definition dd_seen :: "deduplicator \<Rightarrow> string \<Rightarrow> bool" where
  "dd_seen d uid \<longleftrightarrow> dget (dd_events d) uid \<noteq> None"

definition dd_get :: "deduplicator \<Rightarrow> string \<Rightarrow> market_event option" where
  "dd_get d uid = dget (dd_events d) uid"

definition dd_len :: "deduplicator \<Rightarrow> nat" where
  "dd_len d = length (dd_events d)"

definition canon_key :: "market_event \<Rightarrow> int \<times> string" where
  "canon_key e = (ev_ts_event e, ev_uid e)"

definition dd_values :: "deduplicator \<Rightarrow> market_event list" where
  "dd_values d = sort_key canon_key (map snd (dd_events d))"

definition empty_dedup :: deduplicator where
  "empty_dedup = \<lparr>dd_max = None, dd_events = [], dd_new = 0, dd_duplicate = 0, dd_replaced = 0\<rparr>"

definition dedup :: "(market_event \<Rightarrow> nat) \<Rightarrow> market_event list \<Rightarrow> market_event list" where
  "dedup hx evs = dd_values (foldl (\<lambda>d e. fst (offer hx d e)) empty_dedup evs)"

lemmas dedup_eval [evals] = outranks_def dd_count_def evict_def offer_def dd_values_def empty_dedup_def dedup_def canon_key_def

section \<open>Each identifier keeps its highest version\<close>

text \<open>The full key: precedence, then digest.\<close>

definition full_key :: "(market_event \<Rightarrow> nat) \<Rightarrow> market_event \<Rightarrow> prec_key \<times> nat" where
  "full_key hx e = (precedence e, hx e)"

lemma outranks_key: "outranks hx new old \<longleftrightarrow> full_key hx old < full_key hx new"
  by (auto simp: outranks_def full_key_def Let_def)

text \<open>The table after a run without a bound: one entry per identifier, the best of those offered.\<close>

definition best_of :: "(market_event \<Rightarrow> nat) \<Rightarrow> market_event set \<Rightarrow> market_event \<Rightarrow> bool" where
  "best_of hx S e \<longleftrightarrow> e \<in> S \<and> (\<forall>x \<in> S. ev_uid x = ev_uid e \<longrightarrow> full_key hx x \<le> full_key hx e)"

definition table_of :: "(market_event \<Rightarrow> nat) \<Rightarrow> market_event set \<Rightarrow> (string, market_event) dict \<Rightarrow> bool" where
  "table_of hx S d \<longleftrightarrow> dict_ok d \<and> (\<forall>k e. dget d k = Some e \<longrightarrow> k = ev_uid e \<and> best_of hx S e)
     \<and> (\<forall>x \<in> S. dget d (ev_uid x) \<noteq> None)"

lemma best_of_insert_new: "(\<And>x. x \<in> S \<Longrightarrow> ev_uid x \<noteq> ev_uid e) \<Longrightarrow> best_of hx (insert e S) e"
  by (auto simp: best_of_def)

lemma best_of_insert_other: "best_of hx S x \<Longrightarrow> ev_uid e \<noteq> ev_uid x \<Longrightarrow> best_of hx (insert e S) x"
  by (simp add: best_of_def)

lemma best_of_insert_lower: "best_of hx S x \<Longrightarrow> full_key hx e \<le> full_key hx x \<Longrightarrow> best_of hx (insert e S) x"
  by (simp add: best_of_def)

lemma best_of_insert_higher:
  assumes "best_of hx S old" "ev_uid old = ev_uid e" "full_key hx old < full_key hx e"
  shows "best_of hx (insert e S) e"
proof -
  have "full_key hx x \<le> full_key hx e" if "x \<in> S" "ev_uid x = ev_uid e" for x
  proof -
    have "full_key hx x \<le> full_key hx old" using assms(1,2) that by (simp add: best_of_def)
    then show ?thesis using assms(3) by (meson order.trans order.strict_implies_order)
  qed
  then show ?thesis by (simp add: best_of_def)
qed

lemma offer_unbounded:
  assumes "dd_max d = None" "table_of hx S (dd_events d)"
  shows "dd_max (fst (offer hx d e)) = None" and "table_of hx (insert e S) (dd_events (fst (offer hx d e)))"
proof -
  show "dd_max (fst (offer hx d e)) = None" using assms(1) by (simp add: offer_def dd_count_def split: option.split)
  have ok: "dict_ok (dd_events d)" and best: "\<And>k x. dget (dd_events d) k = Some x \<Longrightarrow> k = ev_uid x \<and> best_of hx S x"
    and all: "\<And>x. x \<in> S \<Longrightarrow> dget (dd_events d) (ev_uid x) \<noteq> None"
    using assms(2) by (simp_all add: table_of_def)
  have put: "table_of hx (insert e S) (dset (dd_events d) (ev_uid e) e)" if "best_of hx (insert e S) e"
    unfolding table_of_def
  proof (intro conjI allI impI)
    fix k x assume g: "dget (dset (dd_events d) (ev_uid e) e) k = Some x"
    show "k = ev_uid x" using g best by (auto split: if_splits)
    show "best_of hx (insert e S) x"
      using g best that by (cases "k = ev_uid e") (auto intro: best_of_insert_other)
  qed (use ok all in auto)
  show "table_of hx (insert e S) (dd_events (fst (offer hx d e)))"
  proof (cases "dget (dd_events d) (ev_uid e)")
    case None
    then have "best_of hx (insert e S) e" using all by (intro best_of_insert_new) metis
    with put None assms(1) show ?thesis by (simp add: offer_def dd_count_def evict_def)
  next
    case (Some old)
    have old: "ev_uid old = ev_uid e" "best_of hx S old" using best [OF Some] by auto
    show ?thesis
    proof (cases "outranks hx e old")
      case True
      then have "best_of hx (insert e S) e" using old by (intro best_of_insert_higher [OF old(2)]) (simp_all add: outranks_key)
      with put Some True show ?thesis by (simp add: offer_def dd_count_def)
    next
      case False
      have ev: "dd_events (fst (offer hx d e)) = dd_events d" using Some False by (simp add: offer_def dd_count_def)
      have le: "full_key hx e \<le> full_key hx old" using False by (simp add: outranks_key not_less)
      have "best_of hx (insert e S) x" if g: "dget (dd_events d) k = Some x" for k x
      proof (cases "k = ev_uid e")
        case True
        with g Some have "x = old" by simp
        then show ?thesis using old(2) le by (simp add: best_of_insert_lower)
      next
        case False
        with best [OF g] show ?thesis by (auto intro: best_of_insert_other)
      qed
      then show ?thesis using ok all Some best by (auto simp: ev table_of_def)
    qed
  qed
qed

lemma offers_table:
  "dd_max d = None \<Longrightarrow> table_of hx S (dd_events d) \<Longrightarrow> table_of hx (S \<union> set evs) (dd_events (foldl (\<lambda>d e. fst (offer hx d e)) d evs))"
proof (induction evs arbitrary: d S)
  case (Cons e evs)
  from Cons.IH [OF offer_unbounded(1) offer_unbounded(2), OF Cons.prems Cons.prems] show ?case by simp
qed simp

lemma dedup_table:
  obtains d where "table_of hx (set evs) d" and "dedup hx evs = sort_key canon_key (map snd d)"
  using offers_table [of empty_dedup hx "{}" evs]
  by (auto simp: dedup_def dd_values_def empty_dedup_def table_of_def)

lemma dedup_set: "x \<in> set (dedup hx evs) \<Longrightarrow> best_of hx (set evs) x"
proof -
  assume x: "x \<in> set (dedup hx evs)"
  obtain d where d: "table_of hx (set evs) d" "dedup hx evs = sort_key canon_key (map snd d)" by (rule dedup_table)
  with x obtain k where "(k, x) \<in> set d" by auto
  then have "dget d k = Some x" using d(1) by (simp add: table_of_def dict_ok_dget)
  with d(1) show ?thesis by (auto simp: table_of_def)
qed

lemma dedup_covers: "x \<in> set evs \<Longrightarrow> \<exists>e \<in> set (dedup hx evs). ev_uid e = ev_uid x"
proof -
  assume x: "x \<in> set evs"
  obtain d where d: "table_of hx (set evs) d" "dedup hx evs = sort_key canon_key (map snd d)" by (rule dedup_table)
  with x obtain e where e: "dget d (ev_uid x) = Some e" by (auto simp: table_of_def)
  then have "(ev_uid x, e) \<in> set d" by (rule dget_in_set)
  then have "e \<in> set (dedup hx evs)" by (force simp: d(2))
  moreover have "ev_uid e = ev_uid x" using d(1) e by (simp add: table_of_def)
  ultimately show ?thesis by blast
qed

lemma dedup_distinct: "distinct (map ev_uid (dedup hx evs))"
proof -
  obtain d where d: "table_of hx (set evs) d" "dedup hx evs = sort_key canon_key (map snd d)" by (rule dedup_table)
  have "ev_uid (snd p) = fst p" if "p \<in> set d" for p
    using d(1) dict_ok_dget [of d "fst p" "snd p"] that by (auto simp: table_of_def)
  then have "map ev_uid (map snd d) = map fst d" by simp
  then have "distinct (map ev_uid (map snd d))" using d(1) by (simp only: table_of_def dict_ok_def)
  moreover have "mset (map ev_uid (dedup hx evs)) = mset (map ev_uid (map snd d))" by (simp add: d(2) multiset.map_comp)
  ultimately show ?thesis by (metis mset_eq_imp_distinct_iff)
qed

lemma dedup_sorted: "sorted (map canon_key (dedup hx evs))"
proof -
  obtain d where "table_of hx (set evs) d" "dedup hx evs = sort_key canon_key (map snd d)" by (rule dedup_table)
  then show ?thesis by simp
qed

text \<open>With a collision-free digest the best version of an identifier is unique.\<close>

lemma best_unique:
  assumes "inj_on hx S" "best_of hx S x" "best_of hx S y" "ev_uid x = ev_uid y"
  shows "x = y"
proof -
  have "full_key hx x = full_key hx y" using assms(2-4) by (intro order.antisym) (simp_all add: best_of_def)
  then show ?thesis using assms(1-3) by (simp add: full_key_def best_of_def inj_on_def)
qed

lemma dedup_set_eq:
  assumes "inj_on hx (set evs)"
  shows "set (dedup hx evs) = {e. best_of hx (set evs) e}"
proof (intro set_eqI iffI)
  fix e assume "e \<in> {e. best_of hx (set evs) e}"
  then have e: "best_of hx (set evs) e" by simp
  then have "e \<in> set evs" by (simp add: best_of_def)
  from dedup_covers [OF this] obtain x where x: "x \<in> set (dedup hx evs)" "ev_uid x = ev_uid e" by blast
  from best_unique [OF assms dedup_set [OF x(1)] e x(2)] x(1) show "e \<in> set (dedup hx evs)" by simp
qed (simp add: dedup_set)


definition ex_trade :: "string \<Rightarrow> int \<Rightarrow> market_event" where
  "ex_trade uid ts = EvTrade \<lparr>td_instrument = ''BTC'', td_venue = PAPER, td_agg_id = 1, td_first_trade_id = None,
     td_last_trade_id = None, td_price = 1, td_qty = 1, td_is_buyer_maker = False, td_ts_event_ns = ts, td_ts_ingest_ns = 5,
     td_event_uid = uid\<rparr>"

definition ex_digest :: "market_event \<Rightarrow> nat" where
  "ex_digest e = nat (ev_ts_event e)"


end
