(* ===== verification/Backfill.thy ===== *)
theory Backfill
  imports NormalizeRest Dedup
begin

text \<open>
  \<^verbatim>\<open>ingest/backfill.py\<close>: paging through the history of klines with one bar of overlap, checking the seam of every two pages,
  finding the missing bars and filling them. The exchange is a parameter: \<open>fetch k start end\<close> is the page the \<open>k\<close>-th request
  of the client returns, \<open>clock k\<close> the client's time once \<open>k\<close> requests are answered.
\<close>

section \<open>Data\<close>

definition MAX_LIMIT :: nat where "MAX_LIMIT = 1500"
definition DEFAULT_CLOCK_GUARD_MS :: int where "DEFAULT_CLOCK_GUARD_MS = 5000"

datatype bf_error = BF_value | BF_norm norm_error

definition of_norm :: "'a norm \<Rightarrow> bf_error + 'a" where
  "of_norm r = (case r of Inl e \<Rightarrow> Inl (BF_norm e) | Inr x \<Rightarrow> Inr x)"

datatype seam_status = SEAM_OK | SEAM_MISMATCH | SEAM_MISSING

record segment =
  sg_index :: nat
  sg_start_ms :: int
  sg_limit :: nat
  sg_rows :: nat
  sg_first_open :: "int option"
  sg_last_open :: "int option"
  sg_seam :: "seam_status option"

record overlap_mismatch =
  om_open_ms :: int
  om_segment :: nat
  om_previous :: json
  om_current :: json

record gap =
  gp_instrument :: string
  gp_tf :: string
  gp_lo_ns :: int
  gp_hi_ns :: int
  gp_expected :: int
  gp_stream :: stream
  gp_detector :: gap_detector_kind
  gp_status :: gap_status
  gp_filled :: nat
  gp_attempts :: nat

record backfill_result =
  bf_candles :: "candle list"
  bf_gaps :: "gap list"
  bf_segments :: "segment list"
  bf_mismatches :: "overlap_mismatch list"
  bf_requests :: nat

definition bf_ok :: "backfill_result \<Rightarrow> bool" where
  "bf_ok r \<longleftrightarrow> bf_gaps r = [] \<and> bf_mismatches r = [] \<and> list_all (\<lambda>s. sg_seam s \<in> {None, Some SEAM_OK}) (bf_segments r)"

record gap_fill_report =
  gf_candles :: "candle list"
  gf_gaps :: "gap list"
  gf_added :: "candle list"
  gf_requests :: nat

section \<open>Gaps of a series\<close>

definition ceil_to :: "int \<Rightarrow> int \<Rightarrow> int" where
  "ceil_to x step = - (- x div step) * step"

definition floor_to :: "int \<Rightarrow> int \<Rightarrow> int" where
  "floor_to x step = (x div step) * step"

definition new_gap :: "string \<Rightarrow> string \<Rightarrow> int \<Rightarrow> int \<Rightarrow> int \<Rightarrow> gap" where
  "new_gap name tf iv lo hi = \<lparr>gp_instrument = name, gp_tf = tf, gp_lo_ns = lo, gp_hi_ns = hi, gp_expected = (hi - lo) div iv + 1,
     gp_stream = KLINES, gp_detector = TIME, gp_status = GS_OPEN, gp_filled = 0, gp_attempts = 0\<rparr>"

text \<open>The loop over the sorted opening times: the gaps found and the last time seen.\<close>

fun scan_opens :: "(int \<Rightarrow> int \<Rightarrow> gap) \<Rightarrow> int \<Rightarrow> int option \<Rightarrow> int list \<Rightarrow> bf_error + (gap list \<times> int option)" where
  "scan_opens add iv prev [] = Inr ([], prev)"
| "scan_opens add iv prev (t # ts) =
     (case prev of
        None \<Rightarrow> scan_opens add iv (Some t) ts
      | Some p \<Rightarrow>
          if (t - p) mod iv \<noteq> 0 then Inl BF_value
          else rbind (scan_opens add iv (Some t) ts) (\<lambda>(gs, l). Inr (if iv < t - p then add (p + iv) (t - iv) # gs else gs, l)))"

definition edge_gap :: "(int \<Rightarrow> int \<Rightarrow> gap) \<Rightarrow> int \<Rightarrow> int option \<Rightarrow> int option \<Rightarrow> int option \<Rightarrow> gap list" where
  "edge_gap add iv from_ns to_ns prev = (case to_ns of
     None \<Rightarrow> []
   | Some hi \<Rightarrow> (case prev of
       None \<Rightarrow> (case from_ns of Some lo \<Rightarrow> if lo \<le> hi then [add lo hi] else [] | None \<Rightarrow> [])
     | Some p \<Rightarrow> if p < hi then [add (p + iv) hi] else []))"

definition opens_of :: "string \<Rightarrow> candle list \<Rightarrow> int list" where
  "opens_of tf cs = sort (remdups (map cd_open_time_ns (filter (\<lambda>c. cd_tf c = tf) cs)))"

definition detect_gaps :: "candle list \<Rightarrow> string \<Rightarrow> string option \<Rightarrow> int option \<Rightarrow> int option \<Rightarrow> bf_error + gap list" where
  "detect_gaps cs tf inst from_ns to_ns =
     rbind (of_norm (tf_ms tf)) (\<lambda>ms.
     let iv = ms * NS_PER_MS;
         name = (case inst of Some s \<Rightarrow> if s \<noteq> [] then s else (case cs of [] \<Rightarrow> [] | c # _ \<Rightarrow> cd_instrument c)
                 | None \<Rightarrow> (case cs of [] \<Rightarrow> [] | c # _ \<Rightarrow> cd_instrument c)) in
     if name = [] then Inl BF_value
     else rbind (scan_opens (new_gap name tf iv) iv (map_option (\<lambda>f. f - iv) from_ns) (opens_of tf cs)) (\<lambda>(gs, prev).
       Inr (gs @ edge_gap (new_gap name tf iv) iv from_ns to_ns prev)))"

section \<open>Paging\<close>

definition row_open :: "nat \<Rightarrow> json \<Rightarrow> int norm" where
  "row_open i r = (case r of
     JList (JInt n # _) \<Rightarrow> Inr n
   | _ \<Rightarrow> nfail (''['' @ nat_str i @ ''][0]'') BIN)"

fun row_opens :: "nat \<Rightarrow> json list \<Rightarrow> int list norm" where
  "row_opens i [] = Inr []"
| "row_opens i (r # rs) = rbind (row_open i r) (\<lambda>n. rbind (row_opens (i + 1) rs) (\<lambda>ns. Inr (n # ns)))"

text \<open>
  Equality of two rows as Python has it: numbers compare by value across \<^verbatim>\<open>int\<close>, \<^verbatim>\<open>float\<close> and \<^verbatim>\<open>bool\<close>. A row of an earlier page
  was normalised, so its elements are integers and strings.
\<close>

fun json_num :: "json \<Rightarrow> rat option" where
  "json_num (JInt n) = Some (of_int n)"
| "json_num (JFloat x) = Some x"
| "json_num (JBool b) = Some (if b then 1 else 0)"
| "json_num _ = None"

definition elem_eq :: "json \<Rightarrow> json \<Rightarrow> bool" where
  "elem_eq a b = (case json_num a of None \<Rightarrow> a = b | Some x \<Rightarrow> json_num b = Some x)"

definition row_eq :: "json \<Rightarrow> json \<Rightarrow> bool" where
  "row_eq a b = (case (a, b) of (JList xs, JList ys) \<Rightarrow> list_all2 elem_eq xs ys | _ \<Rightarrow> a = b)"

definition seam_of :: "(int \<times> json) option \<Rightarrow> json list \<Rightarrow> int list \<Rightarrow> seam_status option" where
  "seam_of prev page opens = (case prev of
     None \<Rightarrow> None
   | Some (o_prev, row) \<Rightarrow>
       if page \<noteq> [] \<and> hd opens = o_prev then Some (if row_eq (hd page) row then SEAM_OK else SEAM_MISMATCH) else Some SEAM_MISSING)"

record paging =
  pg_by_open :: "(int, candle) dict"
  pg_segments :: "segment list"
  pg_mismatches :: "overlap_mismatch list"
  pg_requests :: nat
  pg_delivered :: "candle list list"

definition add_page :: "(int, candle) dict \<Rightarrow> candle list \<Rightarrow> (int, candle) dict" where
  "add_page d cs = foldl (\<lambda>d c. dset d (cd_open_time_ns c) c) d cs"

text \<open>What one page adds: its segment, a mismatch of the seam, the closed bars from the first expected one on.\<close>

definition page_step :: "(key_part list \<Rightarrow> string) \<Rightarrow> symbol_ref \<Rightarrow> string \<Rightarrow> nat \<Rightarrow> int \<Rightarrow> int \<Rightarrow> int \<Rightarrow> int
    \<Rightarrow> (int \<times> json) option \<Rightarrow> json list \<Rightarrow> int list \<Rightarrow> paging \<Rightarrow> paging norm" where
  "page_step H ref tf limit now_ms first_ns cursor ts prev page opens st =
     (let seam = seam_of prev page opens;
          i = length (pg_segments st);
          new_rows = (if seam = Some SEAM_OK then tl page else page);
          mm = (if seam = Some SEAM_MISMATCH then [\<lparr>om_open_ms = hd opens, om_segment = i, om_previous = snd (the prev), om_current = hd page\<rparr>] else []);
          sg = \<lparr>sg_index = i, sg_start_ms = cursor, sg_limit = limit, sg_rows = length page,
                sg_first_open = (if opens = [] then None else Some (hd opens)), sg_last_open = (if opens = [] then None else Some (last opens)),
                sg_seam = seam\<rparr> in
      rbind (normalize_rest_klines H (JList new_rows) ref ts tf (Some now_ms) REST) (\<lambda>cs.
      let fresh = filter (\<lambda>c. cd_is_closed c \<and> first_ns \<le> cd_open_time_ns c) cs in
      Inr \<lparr>pg_by_open = add_page (pg_by_open st) fresh, pg_segments = pg_segments st @ [sg], pg_mismatches = pg_mismatches st @ mm,
           pg_requests = pg_requests st + 1, pg_delivered = (if fresh = [] then pg_delivered st else pg_delivered st @ [fresh])\<rparr>))"

function page_loop :: "(key_part list \<Rightarrow> string) \<Rightarrow> (nat \<Rightarrow> int \<Rightarrow> json list) \<Rightarrow> (nat \<Rightarrow> int) \<Rightarrow> symbol_ref \<Rightarrow> string \<Rightarrow> nat \<Rightarrow> int \<Rightarrow> int \<Rightarrow> int
    \<Rightarrow> nat \<Rightarrow> (int \<times> json) option \<Rightarrow> int \<Rightarrow> paging \<Rightarrow> paging norm" where
  "page_loop H fetch clock ref tf limit now_ms first_ns last_ms k prev cursor st =
     (let page = fetch k cursor in
      rbind (row_opens 0 page) (\<lambda>opens.
      rbind (page_step H ref tf limit now_ms first_ns cursor (clock (k + 1)) prev page opens st) (\<lambda>st'.
      if page = [] then Inr st'
      else if length page < limit \<or> last_ms \<le> last opens \<or> \<not> (case prev of None \<Rightarrow> True | Some (o_prev, _) \<Rightarrow> o_prev < last opens) then Inr st'
      else page_loop H fetch clock ref tf limit now_ms first_ns last_ms (k + 1) (Some (last opens, last page)) (last opens) st')))"
  by pat_completeness auto

text \<open>Paging ends: after the first page the last opening time grows with every request and stays below the last expected one.\<close>

termination
  by (relation "measures [\<lambda>(H, fetch, clock, ref, tf, limit, now_ms, first_ns, last_ms, k, prev, cursor, st). if prev = None then 1 else 0,
      \<lambda>(H, fetch, clock, ref, tf, limit, now_ms, first_ns, last_ms, k, prev, cursor, st). nat (last_ms - (case prev of None \<Rightarrow> 0 | Some p \<Rightarrow> fst p))]")
    (auto split: option.splits)

declare page_loop.simps [simp del]

definition empty_paging :: paging where
  "empty_paging = \<lparr>pg_by_open = [], pg_segments = [], pg_mismatches = [], pg_requests = 0, pg_delivered = []\<rparr>"

definition series_of :: "(int, candle) dict \<Rightarrow> candle list" where
  "series_of d = map (\<lambda>k. the (dget d k)) (sort (map fst d))"

definition backfill_ref :: "symbol_ref option \<Rightarrow> string \<Rightarrow> symbol_ref norm" where
  "backfill_ref inst symbol = (case inst of Some r \<Rightarrow> Inr r | None \<Rightarrow> find_symbol_ref BINANCE_USDM symbol)"

definition last_expected :: "int \<Rightarrow> int \<Rightarrow> int \<Rightarrow> int" where
  "last_expected end_ms now_ms iv = min (floor_to end_ms iv) (floor_to now_ms iv - iv)"

definition backfill_klines :: "(key_part list \<Rightarrow> string) \<Rightarrow> (nat \<Rightarrow> int \<Rightarrow> int \<Rightarrow> json list) \<Rightarrow> (nat \<Rightarrow> int) \<Rightarrow> nat \<Rightarrow> string \<Rightarrow> int \<Rightarrow> int
    \<Rightarrow> string \<Rightarrow> nat \<Rightarrow> symbol_ref option \<Rightarrow> int option \<Rightarrow> int \<Rightarrow> bf_error + (backfill_result \<times> candle list list)" where
  "backfill_klines H fetch clock k0 symbol start_ms end_ms tf limit inst now_opt guard_ms =
     (if end_ms < start_ms \<or> \<not> (2 \<le> limit \<and> limit \<le> MAX_LIMIT) \<or> guard_ms < 0 then Inl BF_value
      else rbind (of_norm (tf_ms tf)) (\<lambda>iv.
      rbind (of_norm (backfill_ref inst symbol)) (\<lambda>ref.
      let now_ms = (case now_opt of Some n \<Rightarrow> n | None \<Rightarrow> clock k0 div NS_PER_MS - guard_ms);
          first = ceil_to start_ms iv; last_ms = last_expected end_ms now_ms iv in
      rbind (of_norm (page_loop H (\<lambda>k c. fetch k c end_ms) clock ref tf limit now_ms (first * NS_PER_MS) last_ms k0 None start_ms empty_paging)) (\<lambda>st.
      let cs = series_of (pg_by_open st) in
      rbind (if first \<le> last_ms
             then detect_gaps cs tf (Some (sr_symbol_canon ref)) (Some (first * NS_PER_MS)) (Some (last_ms * NS_PER_MS)) else Inr []) (\<lambda>gs.
      Inr (\<lparr>bf_candles = cs, bf_gaps = gs, bf_segments = pg_segments st, bf_mismatches = pg_mismatches st, bf_requests = pg_requests st\<rparr>,
           pg_delivered st))))))"

section \<open>Filling\<close>

definition fill_status :: "nat \<Rightarrow> int \<Rightarrow> gap_status" where
  "fill_status n expected = (if int n = expected then GS_FILLED else if n \<noteq> 0 then GS_PARTIAL else GS_UNFILLABLE)"

fun offer_new :: "(market_event \<Rightarrow> nat) \<Rightarrow> deduplicator \<Rightarrow> candle list \<Rightarrow> deduplicator \<times> candle list" where
  "offer_new hx d [] = (d, [])"
| "offer_new hx d (c # cs) =
     (let (d1, r) = offer hx d (EvCandle c); (d2, out) = offer_new hx d1 cs in (d2, if r \<noteq> Dd_duplicate then c # out else out))"

fun fill_loop :: "(key_part list \<Rightarrow> string) \<Rightarrow> (market_event \<Rightarrow> nat) \<Rightarrow> (nat \<Rightarrow> int \<Rightarrow> int \<Rightarrow> json list) \<Rightarrow> (nat \<Rightarrow> int) \<Rightarrow> string \<Rightarrow> string \<Rightarrow> nat
    \<Rightarrow> symbol_ref \<Rightarrow> int option \<Rightarrow> nat \<Rightarrow> deduplicator \<Rightarrow> gap list \<Rightarrow> bf_error + (deduplicator \<times> candle list \<times> gap list \<times> nat)" where
  "fill_loop H hx fetch clock symbol tf limit ref now_opt k d [] = Inr (d, [], [], 0)"
| "fill_loop H hx fetch clock symbol tf limit ref now_opt k d (g # gs) =
     rbind (backfill_klines H fetch clock k symbol (gp_lo_ns g div NS_PER_MS) (gp_hi_ns g div NS_PER_MS) tf limit (Some ref) now_opt DEFAULT_CLOCK_GUARD_MS)
       (\<lambda>(res, _).
     let in_range = filter (\<lambda>c. gp_lo_ns g \<le> cd_open_time_ns c \<and> cd_open_time_ns c \<le> gp_hi_ns g) (bf_candles res);
         (d1, added) = offer_new hx d in_range; n = length in_range;
         g' = g\<lparr>gp_status := fill_status n (gp_expected g), gp_filled := n, gp_attempts := gp_attempts g + 1\<rparr> in
     rbind (fill_loop H hx fetch clock symbol tf limit ref now_opt (k + bf_requests res) d1 gs) (\<lambda>(d2, added', gs', rq).
     Inr (d2, added @ added', g' # gs', bf_requests res + rq)))"

definition merged_series :: "deduplicator \<Rightarrow> symbol_ref \<Rightarrow> string \<Rightarrow> candle list" where
  "merged_series d ref tf = sort_key cd_open_time_ns
     (List.map_filter (\<lambda>e. case e of EvCandle c \<Rightarrow> if cd_instrument c = sr_symbol_canon ref \<and> cd_tf c = tf then Some c else None | _ \<Rightarrow> None) (dd_values d))"

definition fill_gaps :: "(key_part list \<Rightarrow> string) \<Rightarrow> (market_event \<Rightarrow> nat) \<Rightarrow> (nat \<Rightarrow> int \<Rightarrow> int \<Rightarrow> json list) \<Rightarrow> (nat \<Rightarrow> int) \<Rightarrow> nat \<Rightarrow> string
    \<Rightarrow> candle list \<Rightarrow> gap list \<Rightarrow> deduplicator option \<Rightarrow> symbol_ref option \<Rightarrow> string \<Rightarrow> nat \<Rightarrow> int option
    \<Rightarrow> bf_error + (deduplicator \<times> gap_fill_report)" where
  "fill_gaps H hx fetch clock k0 symbol cs gs dd inst tf limit now_opt =
     rbind (of_norm (backfill_ref inst symbol)) (\<lambda>ref.
     let d0 = (case dd of Some d \<Rightarrow> d | None \<Rightarrow> empty_dedup);
         d1 = foldl (\<lambda>d c. fst (offer hx d (EvCandle c))) d0 cs in
     rbind (fill_loop H hx fetch clock symbol tf limit ref now_opt k0 d1 gs) (\<lambda>(d2, added, gs', rq).
     Inr (d2, \<lparr>gf_candles = merged_series d2 ref tf, gf_gaps = gs', gf_added = added, gf_requests = rq\<rparr>)))"

end
