(* ===== verification/BackfillProps.thy ===== *)
theory BackfillProps
  imports Backfill CandlesProps NormalizeProps
begin

text \<open>
  The gaps reported for a series are exactly its missing bars, counted right and in order; a backfill returns closed bars in
  strictly increasing order and accounts for every expected bar, either delivered or inside exactly one gap.
\<close>

section \<open>Gaps\<close>

lemma sorted_le_last: "sorted_wrt (<) xs \<Longrightarrow> (x :: int) \<in> set xs \<Longrightarrow> x \<le> last xs"
proof (induction xs)
  case (Cons a xs)
  then show ?case using last_in_set [of xs] by (cases "xs = []") (auto intro: less_imp_le)
qed simp

definition gap_minutes :: "int \<Rightarrow> gap \<Rightarrow> int set" where
  "gap_minutes iv g = {m. gp_lo_ns g \<le> m \<and> m \<le> gp_hi_ns g \<and> iv dvd m - gp_lo_ns g}"

lemma dvd_bounds:
  assumes "(0 :: int) < iv" and "iv dvd a - b" and "b < a"
  shows "b + iv \<le> a"
  using next_multiple(1) [OF assms(1,2)] assms(3) by simp

lemma grid_card:
  assumes "0 < iv" and "iv dvd hi - lo" and "lo \<le> hi"
  shows "int (card {m. lo \<le> m \<and> m \<le> hi \<and> iv dvd m - lo}) = (hi - lo) div iv + 1"
proof -
  let ?n = "(hi - lo) div iv"
  have n: "hi - lo = iv * ?n" "0 \<le> ?n" using assms by (simp_all add: pos_imp_zdiv_nonneg_iff)
  have "{m. lo \<le> m \<and> m \<le> hi \<and> iv dvd m - lo} = (\<lambda>q. lo + iv * q) ` {0..?n}"
  proof (rule set_eqI)
    fix m
    show "m \<in> {m. lo \<le> m \<and> m \<le> hi \<and> iv dvd m - lo} \<longleftrightarrow> m \<in> (\<lambda>q. lo + iv * q) ` {0..?n}"
    proof
      assume "m \<in> {m. lo \<le> m \<and> m \<le> hi \<and> iv dvd m - lo}"
      then have m: "lo \<le> m" "m \<le> hi" "iv dvd m - lo" by simp_all
      let ?q = "(m - lo) div iv"
      have "0 \<le> ?q" "?q \<le> ?n" using m(1,2) assms(1) by (simp_all add: pos_imp_zdiv_nonneg_iff zdiv_mono1)
      moreover have "m = lo + iv * ?q" using m(3) by simp
      ultimately show "m \<in> (\<lambda>q. lo + iv * q) ` {0..?n}" by (intro image_eqI [of _ _ ?q]) simp_all
    next
      assume "m \<in> (\<lambda>q. lo + iv * q) ` {0..?n}"
      then obtain q where "q \<in> {0..?n}" and m: "m = lo + iv * q" by blast
      then have q: "m = lo + iv * q" "0 \<le> q" "q \<le> ?n" by simp_all
      then have "0 \<le> iv * q" "iv * q \<le> iv * ?n" using assms(1) by (simp_all add: mult_left_mono)
      with q n show "m \<in> {m. lo \<le> m \<and> m \<le> hi \<and> iv dvd m - lo}" by auto
    qed
  qed
  moreover have "inj_on (\<lambda>q. lo + iv * q) {0..?n}" using assms(1) by (auto simp: inj_on_def)
  ultimately show ?thesis using n(2) by (simp add: card_image)
qed

text \<open>What the scan owes for the minutes after \<open>p\<close> up to \<open>l\<close>.\<close>

definition gaps_between :: "int \<Rightarrow> int \<Rightarrow> int \<Rightarrow> int list \<Rightarrow> gap list \<Rightarrow> bool" where
  "gaps_between iv p l ts gs \<longleftrightarrow>
     {m. p < m \<and> m \<le> l \<and> iv dvd m - p} - set ts = (\<Union>g \<in> set gs. gap_minutes iv g)
     \<and> sorted_wrt (\<lambda>g h. gp_hi_ns g < gp_lo_ns h) gs
     \<and> (\<forall>g \<in> set gs. p < gp_lo_ns g \<and> gp_lo_ns g \<le> gp_hi_ns g \<and> gp_hi_ns g \<le> l \<and> gp_expected g = int (card (gap_minutes iv g)))"

lemma new_gap_minutes:
  assumes "0 < iv" and "iv dvd hi - lo" and "lo \<le> hi"
  shows "gp_expected (new_gap name tf iv lo hi) = int (card (gap_minutes iv (new_gap name tf iv lo hi)))"
    and "gap_minutes iv (new_gap name tf iv lo hi) = {m. lo \<le> m \<and> m \<le> hi \<and> iv dvd m - lo}"
    and "gp_lo_ns (new_gap name tf iv lo hi) = lo" "gp_hi_ns (new_gap name tf iv lo hi) = hi"
  using grid_card [OF assms] by (simp_all add: new_gap_def gap_minutes_def)

lemma hole_minutes:
  assumes "(0 :: int) < iv" and "iv dvd t - p" and "p < t"
  shows "{m. p < m \<and> m < t \<and> iv dvd m - p} = {m. p + iv \<le> m \<and> m \<le> t - iv \<and> iv dvd m - (p + iv)}"
proof (rule set_eqI)
  fix m
  have "iv dvd m - p \<longleftrightarrow> iv dvd m - (p + iv)"
    using dvd_add_right_iff [of iv iv "m - (p + iv)"] by simp
  moreover have "p + iv \<le> m" if "p < m" "iv dvd m - p" for m using dvd_bounds [OF assms(1) that(2,1)] .
  moreover have "m \<le> t - iv" if "m < t" "iv dvd m - p"
  proof -
    have "iv dvd t - m" using dvd_diff [OF assms(2) that(2)] by simp
    from dvd_bounds [OF assms(1) this that(1)] show ?thesis by simp
  qed
  ultimately show "m \<in> {m. p < m \<and> m < t \<and> iv dvd m - p} \<longleftrightarrow> m \<in> {m. p + iv \<le> m \<and> m \<le> t - iv \<and> iv dvd m - (p + iv)}"
    using assms(1) by auto
qed

lemma gaps_between_refl: "gaps_between iv p p [] []"
  by (auto simp: gaps_between_def)

lemma from_before:
  assumes "(0 :: int) < iv"
  shows "{m. lo - iv < m \<and> m \<le> hi \<and> iv dvd m - (lo - iv)} = {m. lo \<le> m \<and> m \<le> hi \<and> iv dvd m - lo}"
proof -
  have "iv dvd m - (lo - iv) \<longleftrightarrow> iv dvd m - lo" for m using dvd_add_right_iff [of iv iv "m - lo"] by (simp add: algebra_simps)
  moreover have "lo \<le> m" if "lo - iv < m" "iv dvd m - (lo - iv)" for m using dvd_bounds [OF assms that(2,1)] by simp
  ultimately show ?thesis using assms by auto
qed

text \<open>One bar further: the minutes strictly between the two bars form one gap, or there are none.\<close>

lemma gaps_between_step:
  assumes iv: "0 < iv" and t: "iv dvd t - p" "p < t" "t \<le> l" and g: "gaps_between iv t l ts gs" and after: "\<forall>x \<in> set ts. t < x"
  shows "gaps_between iv p l (t # ts) (if iv < t - p then new_gap name tf iv (p + iv) (t - iv) # gs else gs)"
proof -
  let ?new = "new_gap name tf iv (p + iv) (t - iv)" and ?hole = "{m. p < m \<and> m < t \<and> iv dvd m - p}"
  have step: "p + iv \<le> t" using dvd_bounds [OF iv t(1,2)] .
  have shift: "iv dvd m - p \<longleftrightarrow> iv dvd m - t" for m
    using dvd_add_right_iff [OF t(1), of "m - t"] by simp
  have "{m. p < m \<and> m \<le> l \<and> iv dvd m - p} - set (t # ts) = ?hole \<union> ({m. t < m \<and> m \<le> l \<and> iv dvd m - t} - set ts)"
    using t(2,3) after unfolding shift by force
  also have "\<dots> = ?hole \<union> (\<Union>g \<in> set gs. gap_minutes iv g)" using g by (simp only: gaps_between_def)
  finally have split: "{m. p < m \<and> m \<le> l \<and> iv dvd m - p} - set (t # ts) = ?hole \<union> (\<Union>g \<in> set gs. gap_minutes iv g)" .
  show ?thesis
  proof (cases "iv < t - p")
    case True
    have n: "iv dvd (t - iv) - (p + iv)" using dvd_diff [OF t(1), of "iv + iv"] by (simp add: algebra_simps)
    have "iv dvd (t - iv) - p" using dvd_diff [OF t(1) dvd_refl] by (simp add: algebra_simps)
    from dvd_bounds [OF iv this] True have le: "p + iv \<le> t - iv" by simp
    note new = new_gap_minutes [OF iv n le, of name tf]
    have "?hole = gap_minutes iv ?new" using new(2) hole_minutes [OF iv t(1,2)] by simp
    with split g new iv True le step t(3) show ?thesis by (fastforce simp: gaps_between_def)
  next
    case False
    then have "t = p + iv" using step by simp
    then have "?hole = {}" using dvd_bounds [OF iv, of _ p] by force
    with split g False t(2) show ?thesis by (fastforce simp: gaps_between_def)
  qed
qed

lemma scan_opens_gaps:
  assumes "scan_opens (new_gap name tf iv) iv (Some p) ts = Inr (gs, l)" and "0 < iv" and "sorted_wrt (<) (p # ts)"
  shows "l = Some (last (p # ts)) \<and> gaps_between iv p (last (p # ts)) ts gs \<and> (\<forall>t \<in> set ts. iv dvd t - p)"
  using assms
proof (induction ts arbitrary: p gs l)
  case Nil
  then show ?case by (simp add: gaps_between_refl)
next
  case (Cons t ts)
  from Cons.prems(1) obtain gs' where al: "iv dvd t - p" and r: "scan_opens (new_gap name tf iv) iv (Some t) ts = Inr (gs', l)"
    and gs: "gs = (if iv < t - p then new_gap name tf iv (p + iv) (t - iv) # gs' else gs')"
    by (auto simp: dvd_eq_mod_eq_0 elim!: rbind_InrE split: if_splits)
  have srt: "sorted_wrt (<) (t # ts)" "p < t" using Cons.prems(3) by simp_all
  note ih = Cons.IH [OF r Cons.prems(2) srt(1)]
  have "t \<le> last (t # ts)" using srt(1) last_in_set [of ts] by (cases "ts = []") (auto intro: less_imp_le)
  from gaps_between_step [OF Cons.prems(2) al srt(2) this] ih srt(1) gs have "gaps_between iv p (last (t # ts)) (t # ts) gs" by simp
  moreover have "iv dvd x - p" if "x \<in> set ts" for x
    using dvd_add [of iv "x - t" "t - p"] ih that al by simp
  ultimately show ?case using ih al by simp
qed

text \<open>The edge after the last bar closes the range.\<close>

lemma gaps_between_edge:
  assumes iv: "0 < iv" and g: "gaps_between iv p q ts gs" and q: "p \<le> q" "iv dvd q - p" and hi: "q \<le> hi" "iv dvd hi - q" and ts: "\<forall>t \<in> set ts. t \<le> q"
  shows "gaps_between iv p hi ts (gs @ (if q < hi then [new_gap name tf iv (q + iv) hi] else []))"
proof (cases "q < hi")
  case False
  then show ?thesis using g hi by simp
next
  case True
  let ?new = "new_gap name tf iv (q + iv) hi"
  have le: "q + iv \<le> hi" using dvd_bounds [OF iv hi(2) True] .
  have n: "iv dvd hi - (q + iv)" using dvd_diff [OF hi(2) dvd_refl] by (simp add: algebra_simps)
  note new = new_gap_minutes [OF iv n le, of name tf]
  have shift: "iv dvd m - p \<longleftrightarrow> iv dvd m - q" for m using dvd_add_right_iff [OF q(2), of "m - q"] by simp
  have "gap_minutes iv ?new = {m. q < m \<and> m \<le> hi \<and> iv dvd m - p}"
  proof -
    have "gap_minutes iv ?new = {m. q < m \<and> m < hi + iv \<and> iv dvd m - q}"
      using hole_minutes [OF iv, of "hi + iv" q] new(2) True iv dvd_add [OF hi(2) dvd_refl] by (simp add: algebra_simps)
    also have "\<dots> = {m. q < m \<and> m \<le> hi \<and> iv dvd m - p}"
    proof -
      have "m \<le> hi" if "m < hi + iv" "iv dvd m - q" for m
      proof (rule ccontr)
        assume "\<not> m \<le> hi"
        moreover have "iv dvd m - hi" using dvd_diff [OF that(2) hi(2)] by simp
        ultimately have "hi + iv \<le> m" using dvd_bounds [OF iv, of m hi] by simp
        with that(1) show False by simp
      qed
      then show ?thesis using iv by (auto simp: shift)
    qed
    finally show ?thesis .
  qed
  moreover have "{m. p < m \<and> m \<le> hi \<and> iv dvd m - p} - set ts
      = ({m. p < m \<and> m \<le> q \<and> iv dvd m - p} - set ts) \<union> {m. q < m \<and> m \<le> hi \<and> iv dvd m - p}"
    using q(1) hi(1) ts by force
  moreover have "\<forall>g \<in> set gs. gp_hi_ns g < q + iv" using g iv by (force simp: gaps_between_def)
  ultimately show ?thesis using g new le iv True q(1) by (fastforce simp: gaps_between_def sorted_wrt_append)
qed

lemma tf_ms_pos: "tf_ms tf = Inr ms \<Longrightarrow> 0 < ms"
proof -
  have "list_all (\<lambda>(k, n). 0 < n) TF_MS" by (simp add: TF_MS_def)
  then show "tf_ms tf = Inr ms \<Longrightarrow> 0 < ms" by (auto simp: tf_ms_def list_all_iff split: option.splits dest!: map_of_SomeD)
qed

lemma of_norm_Inr [simp]: "of_norm r = Inr x \<longleftrightarrow> r = Inr x"
  by (simp add: of_norm_def split: sum.split)

lemma opens_of_sorted: "sorted_wrt (<) (opens_of tf cs)"
  by (simp add: opens_of_def strict_sorted_iff)

text \<open>C27: Gap detection is exact: for a series inside an expected range, the minutes covered by the reported gaps are precisely the
  grid points of the range that carry no bar; the gaps come in order, do not overlap, and each counts its minutes correctly.\<close>
theorem detect_gaps_exact:
  assumes "tf_ms tf = Inr ms" and "detect_gaps cs tf inst (Some lo) (Some hi) = Inr gs"
    and "\<forall>t \<in> set (opens_of tf cs). lo \<le> t \<and> t \<le> hi" and "ms * NS_PER_MS dvd hi - lo" and "lo \<le> hi"
  shows "{m. lo \<le> m \<and> m \<le> hi \<and> ms * NS_PER_MS dvd m - lo} - set (opens_of tf cs) = (\<Union>g \<in> set gs. gap_minutes (ms * NS_PER_MS) g)
     \<and> sorted_wrt (\<lambda>g h. gp_hi_ns g < gp_lo_ns h) gs
     \<and> (\<forall>g \<in> set gs. gp_expected g = int (card (gap_minutes (ms * NS_PER_MS) g)) \<and> gp_lo_ns g \<le> gp_hi_ns g)"
proof -
  let ?iv = "ms * NS_PER_MS" and ?ts = "opens_of tf cs"
  have iv: "0 < ?iv" using tf_ms_pos [OF assms(1)] by (simp add: NS_PER_MS_def)
  from assms(1,2) obtain name gs' l where scan: "scan_opens (new_gap name tf ?iv) ?iv (Some (lo - ?iv)) ?ts = Inr (gs', l)"
    and gs: "gs = gs' @ edge_gap (new_gap name tf ?iv) ?iv (Some lo) (Some hi) l"
    by (auto simp: detect_gaps_def Let_def elim!: rbind_InrE split: if_splits)
  have srt: "sorted_wrt (<) ((lo - ?iv) # ?ts)" using opens_of_sorted assms(3) iv by fastforce
  define q where "q = last ((lo - ?iv) # ?ts)"
  from scan_opens_gaps [OF scan iv srt] have l: "l = Some q" and g: "gaps_between ?iv (lo - ?iv) q ?ts gs'"
    and al: "\<forall>t \<in> set ?ts. ?iv dvd t - (lo - ?iv)" by (simp_all add: q_def)
  have q: "lo - ?iv \<le> q" "?iv dvd q - (lo - ?iv)" "q \<le> hi" "\<forall>t \<in> set ?ts. t \<le> q"
  proof -
    have c: "q = lo - ?iv \<or> q \<in> set ?ts" using last_in_set [of ?ts] by (simp add: q_def)
    from c al show "?iv dvd q - (lo - ?iv)" by auto
    from c assms(3) iv show "lo - ?iv \<le> q" by fastforce
    from c assms(3,5) iv show "q \<le> hi" by fastforce
    show "\<forall>t \<in> set ?ts. t \<le> q"
    proof
      fix t assume "t \<in> set ?ts"
      then have "t \<le> last ?ts" "?ts \<noteq> []" using sorted_le_last [OF opens_of_sorted] by auto
      then show "t \<le> q" by (simp add: q_def)
    qed
  qed
  have "?iv dvd hi - (lo - ?iv)" using dvd_add [OF assms(4) dvd_refl] by (simp add: algebra_simps)
  then have "?iv dvd hi - q" using dvd_diff [OF _ q(2), of "hi - (lo - ?iv)"] by simp
  from gaps_between_edge [OF iv g q(1,2,3) this q(4), of name tf]
  have "gaps_between ?iv (lo - ?iv) hi ?ts gs" by (simp add: gs l edge_gap_def)
  moreover have "{m. lo - ?iv < m \<and> m \<le> hi \<and> ?iv dvd m - (lo - ?iv)} = {m. lo \<le> m \<and> m \<le> hi \<and> ?iv dvd m - lo}"
    by (rule from_before [OF iv])
  ultimately show ?thesis by (simp add: gaps_between_def)
qed

definition ex_series :: "candle list" where
  "ex_series = [ex_candle 3, ex_candle 6, ex_candle 2]"

lemma ex_gaps:
  "detect_gaps ex_series ''1m'' None (Some (60000000000 * 1)) (Some (60000000000 * 8))
     = Inr [new_gap ''BTC-USDT-PERP'' ''1m'' 60000000000 60000000000 60000000000,
            new_gap ''BTC-USDT-PERP'' ''1m'' 60000000000 240000000000 300000000000,
            new_gap ''BTC-USDT-PERP'' ''1m'' 60000000000 420000000000 480000000000]"
  by (simp add: detect_gaps_def opens_of_def ex_series_def of_norm_def edge_gap_def ex_candle_def evals cong: rbind_weak_cong)

theorem detect_gaps_exact_witness:
  "\<exists>gs. detect_gaps ex_series ''1m'' None (Some (60000000000 * 1)) (Some (60000000000 * 8)) = Inr gs \<and> length gs = 3
     \<and> (\<forall>g \<in> set gs. gp_expected g = int (card (gap_minutes (60000 * NS_PER_MS) g)) \<and> gp_lo_ns g \<le> gp_hi_ns g)"
proof -
  have "tf_ms ''1m'' = Inr 60000" by (simp add: tf_ms_def TF_MS_def)
  moreover have "\<forall>t \<in> set (opens_of ''1m'' ex_series). 60000000000 * 1 \<le> t \<and> t \<le> 60000000000 * 8"
    by (simp add: opens_of_def ex_series_def ex_candle_def)
  moreover have "60000 * NS_PER_MS dvd 60000000000 * 8 - 60000000000 * 1" by (simp add: NS_PER_MS_def)
  ultimately have "\<forall>g \<in> set gs. gp_expected g = int (card (gap_minutes (60000 * NS_PER_MS) g)) \<and> gp_lo_ns g \<le> gp_hi_ns g"
    if "detect_gaps ex_series ''1m'' None (Some (60000000000 * 1)) (Some (60000000000 * 8)) = Inr gs" for gs
    using detect_gaps_exact [OF _ that, of 60000] by simp
  moreover have "\<exists>gs. detect_gaps ex_series ''1m'' None (Some (60000000000 * 1)) (Some (60000000000 * 8)) = Inr gs \<and> length gs = 3"
    unfolding ex_gaps by simp
  ultimately show ?thesis by blast
qed

section \<open>Paging\<close>

lemma rest_kline_facts:
  assumes "normalize_rest_kline H r ref ts tf (Some now) sc = Inr c" and "tf_ms tf = Inr ms"
  shows "\<exists>o_ms. row_open i r = Inr o_ms \<and> cd_open_time_ns c = o_ms * NS_PER_MS \<and> cd_tf c = tf \<and> (cd_is_closed c \<longleftrightarrow> o_ms + ms - 1 < now)"
proof -
  from assms obtain row o_ms where r: "r = JList row" "length row = REST_KLINE_LEN" "row_int row 0 = Inr o_ms"
    and c: "cd_open_time_ns c = ms_to_ns o_ms" "cd_tf c = tf" "cd_is_closed c = (o_ms + ms - 1 < now)"
    by (auto simp: normalize_rest_kline_def Let_def tf_ms_def build_candle_Inr elim!: rbind_InrE split: json.splits if_splits option.splits)
  from r(2,3) obtain rest where "row = JInt o_ms # rest"
    by (cases row) (auto simp: REST_KLINE_LEN_def row_int_def elim!: jint.elims)
  with r(1) c show ?thesis by (simp add: row_open_def ms_to_ns_def)
qed

lemma rows_from_Inr: "rows_from i f rs = Inr xs \<Longrightarrow> x \<in> set xs \<Longrightarrow> \<exists>r \<in> set rs. f r = Inr x"
proof (induction rs arbitrary: i xs)
  case (Cons r rs)
  have "in_row i q = Inr y \<Longrightarrow> q = Inr y" for q y by (auto simp: in_row_def split: sum.splits norm_error.splits)
  with Cons show ?case by (fastforce elim!: rbind_InrE)
qed simp

text \<open>What paging has collected: closed bars of the interval, from the first expected one on, not past the requested end.\<close>

definition bar_wanted :: "string \<Rightarrow> int \<Rightarrow> int \<Rightarrow> int \<Rightarrow> int \<Rightarrow> candle \<Rightarrow> bool" where
  "bar_wanted tf ms now end_ms first_ns c \<longleftrightarrow> cd_is_closed c \<and> cd_tf c = tf \<and> first_ns \<le> cd_open_time_ns c
     \<and> (\<exists>o_ms. cd_open_time_ns c = o_ms * NS_PER_MS \<and> o_ms \<le> end_ms \<and> o_ms + ms - 1 < now)"

definition paging_ok :: "(candle \<Rightarrow> bool) \<Rightarrow> paging \<Rightarrow> bool" where
  "paging_ok W st \<longleftrightarrow> keyed (pg_by_open st) \<and> (\<forall>k c. dget (pg_by_open st) k = Some c \<longrightarrow> W c) \<and> length (pg_segments st) = pg_requests st"

lemma add_page_ok:
  assumes "keyed d" and "\<forall>k c. dget d k = Some c \<longrightarrow> W c" and "\<forall>c \<in> set cs. W c"
  shows "keyed (add_page d cs) \<and> (\<forall>k c. dget (add_page d cs) k = Some c \<longrightarrow> W c)"
  using assms
proof (induction cs arbitrary: d)
  case (Cons c cs)
  have "keyed (dset d (cd_open_time_ns c) c)" using Cons.prems(1) by (rule keyed_dset)
  moreover have "\<forall>k x. dget (dset d (cd_open_time_ns c) c) k = Some x \<longrightarrow> W x" using Cons.prems(2,3) by (simp split: if_split)
  moreover have "\<forall>x \<in> set cs. W x" using Cons.prems(3) by simp
  ultimately have ih: "keyed (add_page (dset d (cd_open_time_ns c) c) cs) \<and> (\<forall>k x. dget (add_page (dset d (cd_open_time_ns c) c) cs) k = Some x \<longrightarrow> W x)"
    by (rule Cons.IH)
  have eq: "add_page d (c # cs) = add_page (dset d (cd_open_time_ns c) c) cs" by (simp only: add_page_def foldl.simps)
  from ih show ?case unfolding eq .
qed (simp add: add_page_def)

lemma page_step_ok:
  assumes "page_step H ref tf limit now first_ns cursor ts prev page os st = Inr st'" and "tf_ms tf = Inr ms"
    and "\<forall>r \<in> set page. \<forall>i n. row_open i r = Inr n \<longrightarrow> n \<le> end_ms" and "paging_ok (bar_wanted tf ms now end_ms first_ns) st"
  shows "paging_ok (bar_wanted tf ms now end_ms first_ns) st'"
proof -
  let ?rows = "if seam_of prev page os = Some SEAM_OK then tl page else page"
  from assms(1) obtain cs where n: "normalize_rest_klines H (JList ?rows) ref ts tf (Some now) REST = Inr cs"
    and st': "pg_by_open st' = add_page (pg_by_open st) (filter (\<lambda>c. cd_is_closed c \<and> first_ns \<le> cd_open_time_ns c) cs)"
      "length (pg_segments st') = Suc (length (pg_segments st))" "pg_requests st' = Suc (pg_requests st)"
    unfolding page_step_def Let_def by (elim rbind_InrE) (simp only: sum.inject, hypsubst, simp)
  have rows: "set ?rows \<subseteq> set page" by (cases page) auto
  have "bar_wanted tf ms now end_ms first_ns c" if "c \<in> set cs" "cd_is_closed c" "first_ns \<le> cd_open_time_ns c" for c
  proof -
    from n that(1) obtain r where "r \<in> set ?rows" "normalize_rest_kline H r ref ts tf (Some now) REST = Inr c"
      by (auto simp: normalize_rest_klines_def dest: rows_from_Inr)
    with rest_kline_facts [OF this(2) assms(2), of 0] rows assms(3) that(2,3) show ?thesis by (fastforce simp: bar_wanted_def)
  qed
  then have "\<forall>c \<in> set (filter (\<lambda>c. cd_is_closed c \<and> first_ns \<le> cd_open_time_ns c) cs). bar_wanted tf ms now end_ms first_ns c" by simp
  from add_page_ok [OF _ _ this, of "pg_by_open st"] assms(4) st' show ?thesis by (simp add: paging_ok_def)
qed

lemma page_loop_ok:
  assumes "page_loop H fetch clock ref tf limit now first_ns last_ms k prev cursor st = Inr st'" and "tf_ms tf = Inr ms"
    and "\<forall>k c. \<forall>r \<in> set (fetch k c). \<forall>i n. row_open i r = Inr n \<longrightarrow> n \<le> end_ms" and "paging_ok (bar_wanted tf ms now end_ms first_ns) st"
  shows "paging_ok (bar_wanted tf ms now end_ms first_ns) st'"
  using assms
proof (induction H fetch clock ref tf limit now first_ns last_ms k prev cursor st rule: page_loop.induct)
  case (1 H fetch clock ref tf limit now first_ns last_ms k prev cursor st)
  let ?page = "fetch k cursor"
  from "1.prems"(1) obtain os st1 where os: "row_opens 0 ?page = Inr os"
    and s: "page_step H ref tf limit now first_ns cursor (clock (k + 1)) prev ?page os st = Inr st1"
    and r: "st' = st1 \<or> (?page \<noteq> [] \<and> \<not> (length ?page < limit \<or> last_ms \<le> last os \<or> \<not> (case prev of None \<Rightarrow> True | Some (o_prev, _) \<Rightarrow> o_prev < last os))
      \<and> page_loop H fetch clock ref tf limit now first_ns last_ms (k + 1) (Some (last os, last ?page)) (last os) st1 = Inr st')"
    by (subst (asm) page_loop.simps) (auto simp: Let_def elim!: rbind_InrE split: if_splits)
  from "1.prems"(3) have "\<forall>r \<in> set ?page. \<forall>i n. row_open i r = Inr n \<longrightarrow> n \<le> end_ms" by blast
  from page_step_ok [OF s "1.prems"(2) this "1.prems"(4)] have ok: "paging_ok (bar_wanted tf ms now end_ms first_ns) st1" .
  from r show ?case
  proof
    assume c: "?page \<noteq> [] \<and> \<not> (length ?page < limit \<or> last_ms \<le> last os \<or> \<not> (case prev of None \<Rightarrow> True | Some (o_prev, _) \<Rightarrow> o_prev < last os))
      \<and> page_loop H fetch clock ref tf limit now first_ns last_ms (k + 1) (Some (last os, last ?page)) (last os) st1 = Inr st'"
    show ?thesis
      by (rule "1.IH" [OF refl os s _ _ _ "1.prems"(2,3) ok]) (use c in blast)+
  qed (use ok in simp)
qed

section \<open>The whole backfill\<close>

lemma detect_gaps_aligned:
  assumes "tf_ms tf = Inr ms" and "detect_gaps cs tf inst (Some lo) hi = Inr gs" and "\<forall>t \<in> set (opens_of tf cs). lo \<le> t"
  shows "\<forall>t \<in> set (opens_of tf cs). ms * NS_PER_MS dvd t - lo"
proof -
  let ?iv = "ms * NS_PER_MS" and ?ts = "opens_of tf cs"
  have iv: "0 < ?iv" using tf_ms_pos [OF assms(1)] by (simp add: NS_PER_MS_def)
  from assms(1,2) obtain name gs' l where scan: "scan_opens (new_gap name tf ?iv) ?iv (Some (lo - ?iv)) ?ts = Inr (gs', l)"
    by (auto simp: detect_gaps_def Let_def elim!: rbind_InrE split: if_splits)
  have srt: "sorted_wrt (<) ((lo - ?iv) # ?ts)" using opens_of_sorted assms(3) iv by fastforce
  have "?iv dvd t - lo" if "?iv dvd t - (lo - ?iv)" for t using that dvd_add_right_iff [of ?iv ?iv "t - lo"] by (simp add: algebra_simps)
  with scan_opens_gaps [OF scan iv srt] show ?thesis by blast
qed

lemma series_of_keyed:
  assumes "keyed d"
  shows "opens (series_of d) = sort (map fst d)" and "sorted_wrt (<) (opens (series_of d))" and "c \<in> set (series_of d) \<Longrightarrow> \<exists>k. dget d k = Some c"
proof -
  have k: "\<exists>c. dget d k = Some c \<and> cd_open_time_ns c = k" if k: "k \<in> fst ` set d" for k
  proof -
    from k obtain c where "dget d k = Some c" by (metis map_of_eq_None_iff not_Some_eq)
    with assms show ?thesis by (auto simp: keyed_def)
  qed
  show o: "opens (series_of d) = sort (map fst d)"
    unfolding series_of_def map_map by (rule map_idI) (use k in force)
  show "sorted_wrt (<) (opens (series_of d))"
    unfolding o using assms by (simp add: strict_sorted_iff keyed_def dict_ok_def)
  show "c \<in> set (series_of d) \<Longrightarrow> \<exists>k. dget d k = Some c" using k by (force simp: series_of_def)
qed

lemma dvd_mult_right_cancel_pos: "(a :: int) * n dvd b * n \<Longrightarrow> 0 < n \<Longrightarrow> a dvd b"
  by (simp add: dvd_mult_cancel_right)

lemma floor_to_greatest: "0 < step \<Longrightarrow> step dvd x \<Longrightarrow> x \<le> y \<Longrightarrow> x \<le> floor_to y step"
  using zdiv_mono1 [of x y step] by (auto simp: floor_to_def dvd_def mult.commute)

lemma step_dvd_floor: "step dvd floor_to y step" "step dvd ceil_to y step"
  by (simp_all add: floor_to_def ceil_to_def)

text \<open>C26: A backfill accounts for every expected bar: when \<open>backfill_klines\<close> returns, its candles are closed, of the interval, not
  older than the requested start and strictly increasing; and every opening time of the interval's grid from the first to the last
  expected bar either carries a candle or lies in a reported gap, never both. The exchange is relied on for one thing: it sends no
  bar past the requested end.\<close>
theorem backfill_accounts:
  assumes "backfill_klines H fetch clock k0 symbol start_ms end_ms tf limit inst (Some now) guard = Inr (r, pages)"
    and "tf_ms tf = Inr ms" and "\<forall>k c e. \<forall>row \<in> set (fetch k c e). \<forall>i n. row_open i row = Inr n \<longrightarrow> n \<le> e"
  shows "sorted_wrt (<) (opens (bf_candles r)) \<and> length (bf_segments r) = bf_requests r
     \<and> (\<forall>c \<in> set (bf_candles r). cd_is_closed c \<and> cd_tf c = tf \<and> ceil_to start_ms ms * NS_PER_MS \<le> cd_open_time_ns c)
     \<and> (ceil_to start_ms ms \<le> last_expected end_ms now ms \<longrightarrow>
          {m. ceil_to start_ms ms * NS_PER_MS \<le> m \<and> m \<le> last_expected end_ms now ms * NS_PER_MS \<and> ms * NS_PER_MS dvd m - ceil_to start_ms ms * NS_PER_MS}
            - set (opens (bf_candles r)) = (\<Union>g \<in> set (bf_gaps r). gap_minutes (ms * NS_PER_MS) g))"
proof -
  let ?first = "ceil_to start_ms ms" and ?last = "last_expected end_ms now ms"
  let ?W = "bar_wanted tf ms now end_ms (?first * NS_PER_MS)"
  have ms: "0 < ms" using tf_ms_pos assms(2) by blast
  from assms(1,2) obtain ref st where loop: "page_loop H (\<lambda>k c. fetch k c end_ms) clock ref tf limit now (?first * NS_PER_MS) ?last k0 None start_ms empty_paging = Inr st"
    and gaps: "(if ?first \<le> ?last then detect_gaps (series_of (pg_by_open st)) tf (Some (sr_symbol_canon ref)) (Some (?first * NS_PER_MS)) (Some (?last * NS_PER_MS))
       else Inr []) = Inr (bf_gaps r)"
    and r: "bf_candles r = series_of (pg_by_open st)" "bf_segments r = pg_segments st" "bf_requests r = pg_requests st"
    by (auto simp: backfill_klines_def Let_def elim!: rbind_InrE split: if_split_asm)
  have "paging_ok ?W empty_paging" by (simp add: paging_ok_def empty_paging_def keyed_def)
  with page_loop_ok [OF loop assms(2), of end_ms] assms(3) have ok: "paging_ok ?W st" by blast
  then have key: "keyed (pg_by_open st)" by (simp add: paging_ok_def)
  note ser = series_of_keyed [OF key]
  have W: "?W c" if "c \<in> set (bf_candles r)" for c using ser(3) that ok unfolding r paging_ok_def by blast
  have os: "opens_of tf (bf_candles r) = opens (bf_candles r)"
  proof -
    have "filter (\<lambda>c. cd_tf c = tf) (bf_candles r) = bf_candles r" using W by (simp add: bar_wanted_def)
    with ser(2) show ?thesis by (simp add: opens_of_def strict_sorted_iff r distinct_remdups_id sorted_sort_id)
  qed
  have lower: "\<forall>t \<in> set (opens_of tf (bf_candles r)). ?first * NS_PER_MS \<le> t" using W by (auto simp: os bar_wanted_def)
  have "{m. ?first * NS_PER_MS \<le> m \<and> m \<le> ?last * NS_PER_MS \<and> ms * NS_PER_MS dvd m - ?first * NS_PER_MS} - set (opens (bf_candles r))
      = (\<Union>g \<in> set (bf_gaps r). gap_minutes (ms * NS_PER_MS) g)" if le: "?first \<le> ?last"
  proof -
    from gaps le have d: "detect_gaps (bf_candles r) tf (Some (sr_symbol_canon ref)) (Some (?first * NS_PER_MS)) (Some (?last * NS_PER_MS)) = Inr (bf_gaps r)"
      by (simp add: r)
    have al: "\<forall>t \<in> set (opens_of tf (bf_candles r)). ms * NS_PER_MS dvd t - ?first * NS_PER_MS"
      by (rule detect_gaps_aligned [OF assms(2) d lower])
    have upper: "t \<le> ?last * NS_PER_MS" if t: "t \<in> set (opens_of tf (bf_candles r))" for t
    proof -
      from t W obtain x where x: "t = x * NS_PER_MS" "x \<le> end_ms" "x + ms - 1 < now" by (auto simp: os bar_wanted_def)
      have "ms * NS_PER_MS dvd (x - ?first) * NS_PER_MS" using al t x(1) by (auto simp: algebra_simps)
      then have "ms dvd x - ?first" by (rule dvd_mult_right_cancel_pos) (simp add: NS_PER_MS_def)
      from dvd_add [OF this step_dvd_floor(2) [of ms start_ms]] have d: "ms dvd x" by simp
      then have "x \<le> floor_to end_ms ms" "x + ms \<le> floor_to now ms"
        using x(2,3) floor_to_greatest [OF ms] by simp_all
      then show ?thesis by (simp add: x(1) last_expected_def NS_PER_MS_def)
    qed
    have al2: "ms * NS_PER_MS dvd ?last * NS_PER_MS - ?first * NS_PER_MS"
    proof -
      have "ms dvd ?last - ?first" using step_dvd_floor [of ms] by (simp add: last_expected_def min_def)
      then show ?thesis unfolding left_diff_distrib [symmetric] by (rule mult_dvd_mono) simp
    qed
    have le2: "?first * NS_PER_MS \<le> ?last * NS_PER_MS" using le by (simp add: NS_PER_MS_def)
    have bounds: "\<forall>t \<in> set (opens_of tf (bf_candles r)). ?first * NS_PER_MS \<le> t \<and> t \<le> ?last * NS_PER_MS" using lower upper by blast
    from detect_gaps_exact [OF assms(2) d bounds al2 le2] show ?thesis unfolding os by (rule conjunct1)
  qed
  moreover have "\<forall>c \<in> set (bf_candles r). cd_is_closed c \<and> cd_tf c = tf \<and> ?first * NS_PER_MS \<le> cd_open_time_ns c"
    using W unfolding bar_wanted_def by blast
  moreover have "sorted_wrt (<) (opens (bf_candles r))" using ser(2) unfolding r .
  moreover have "length (bf_segments r) = bf_requests r" using ok unfolding r paging_ok_def by blast
  ultimately show ?thesis by blast
qed

text \<open>An exchange with four bars, one missing between them, answering in pages of two.\<close>

definition ex_row :: "int \<Rightarrow> json" where
  "ex_row t = JList [JInt t, JStr ''10'', JStr ''11'', JStr ''9'', JStr ''10'', JStr ''1'', JInt (t + 59999), JStr ''10'', JInt 3, JStr ''1'', JStr ''1'', JStr ''0'']"

definition ex_fetch :: "nat \<Rightarrow> int \<Rightarrow> int \<Rightarrow> json list" where
  "ex_fetch k c e = map ex_row (take 2 (filter (\<lambda>t. c \<le> t \<and> t \<le> e) [60000, 120000, 240000]))"

lemmas backfill_eval [evals] = normalize_rest_klines_def normalize_rest_kline_def row_dec_def row_int_def row_name_def REST_KLINE_LEN_def rest_ts_event_def
  kline_key_def of_norm_def backfill_ref_def ceil_to_def floor_to_def last_expected_def MAX_LIMIT_def row_open_def seam_of_def row_eq_def elem_eq_def page_step_def
  add_page_def series_of_def empty_paging_def detect_gaps_def edge_gap_def opens_of_def in_row_def ohlc_consistent_def backfill_klines_def

lemma ex_backfill:
  "map_sum (\<lambda>_. ()) (\<lambda>(r, _). (opens (bf_candles r), map gp_lo_ns (bf_gaps r), bf_requests r))
     (backfill_klines (\<lambda>_. []) ex_fetch (\<lambda>_. 0) 0 ''BTCUSDT'' 60000 240000 ''1m'' 2 None (Some 900000) 0)
   = Inr ([60000000000, 120000000000, 240000000000], [180000000000], 2)"
  by (simp add: ex_fetch_def ex_row_def page_loop.simps new_gap_def evals cong: rbind_weak_cong option.case_cong_weak)

theorem backfill_accounts_witness:
  "\<exists>r pages. backfill_klines (\<lambda>_. []) ex_fetch (\<lambda>_. 0) 0 ''BTCUSDT'' 60000 240000 ''1m'' 2 None (Some 900000) 0 = Inr (r, pages)
     \<and> opens (bf_candles r) = [60000000000, 120000000000, 240000000000] \<and> map gp_lo_ns (bf_gaps r) = [180000000000]
     \<and> sorted_wrt (<) (opens (bf_candles r))"
proof -
  from ex_backfill obtain r pages where r: "backfill_klines (\<lambda>_. []) ex_fetch (\<lambda>_. 0) 0 ''BTCUSDT'' 60000 240000 ''1m'' 2 None (Some 900000) 0 = Inr (r, pages)"
    "opens (bf_candles r) = [60000000000, 120000000000, 240000000000]" "map gp_lo_ns (bf_gaps r) = [180000000000]"
    by (cases "backfill_klines (\<lambda>_. []) ex_fetch (\<lambda>_. 0) 0 ''BTCUSDT'' 60000 240000 ''1m'' 2 None (Some 900000) 0") auto
  have "tf_ms ''1m'' = Inr 60000" by (simp add: tf_ms_def TF_MS_def)
  moreover have "\<forall>k c e. \<forall>row \<in> set (ex_fetch k c e). \<forall>i n. row_open i row = Inr n \<longrightarrow> n \<le> e"
    by (auto simp: ex_fetch_def ex_row_def row_open_def dest!: in_set_takeD split: if_splits)
  ultimately have "sorted_wrt (<) (opens (bf_candles r))" using backfill_accounts [OF r(1), of 60000] by blast
  with r show ?thesis by (intro exI conjI)
qed

end
