(* ===== verification/GapDetector.thy ===== *)
theory GapDetector
  imports Backfill
begin

text \<open>
  \<^verbatim>\<open>ingest/gap_detector.py\<close>: holes in the sequence of trade identifiers and minutes without a closed candle become gap
  records with a status of their own. The clock is a parameter \<open>ck\<close>, indexed by the number of readings so far, which the state
  counts. Sets of keys are lists without repetition. The sweep over minutes has fuel for every minute up to the horizon.
\<close>

section \<open>Gap records\<close>

definition DEFAULT_GRACE_MS :: int where "DEFAULT_GRACE_MS = 2000"
definition DEFAULT_MAX_REORDER_IDS :: nat where "DEFAULT_MAX_REORDER_IDS = 50"

fun gap_transitions :: "gap_status \<Rightarrow> gap_status list" where
  "gap_transitions GS_OPEN = [GS_FILLING, GS_FILLED, GS_UNFILLABLE]"
| "gap_transitions GS_FILLING = [GS_FILLED, GS_PARTIAL, GS_UNFILLABLE]"
| "gap_transitions GS_PARTIAL = [GS_FILLING, GS_FILLED, GS_UNFILLABLE]"
| "gap_transitions GS_UNFILLABLE = [GS_FILLING, GS_FILLED]"
| "gap_transitions GS_FILLED = []"

definition gap_terminal :: "gap_status list" where
  "gap_terminal = [GS_FILLED, GS_PARTIAL, GS_UNFILLABLE]"

record gap_record =
  gr_id :: nat
  gr_instrument :: string
  gr_stream :: stream
  gr_detector :: gap_detector_kind
  gr_ts_lo :: int
  gr_ts_hi :: int
  gr_expected :: nat
  gr_status :: gap_status
  gr_filled :: nat
  gr_attempts :: nat
  gr_seq_lo :: "int option"
  gr_seq_hi :: "int option"
  gr_tf :: "string option"
  gr_detected_at :: int
  gr_closed_at :: "int option"
  gr_exchange :: "int option"

definition to_backfill_gap :: "gap_record \<Rightarrow> gap result" where
  "to_backfill_gap g = (case gr_tf g of
     None \<Rightarrow> Inl ValueError
   | Some tf \<Rightarrow> if gr_stream g \<noteq> KLINES then Inl ValueError
       else Inr \<lparr>gp_instrument = gr_instrument g, gp_tf = tf, gp_lo_ns = gr_ts_lo g, gp_hi_ns = gr_ts_hi g, gp_expected = int (gr_expected g),
         gp_stream = KLINES, gp_detector = TIME, gp_status = gr_status g, gp_filled = gr_filled g, gp_attempts = gr_attempts g\<rparr>)"

definition gap_move :: "gap_record \<Rightarrow> gap_status \<Rightarrow> int \<Rightarrow> nat option \<Rightarrow> bool \<Rightarrow> gap_record result" where
  "gap_move g st at_ns filled attempt =
     (if st \<noteq> gr_status g \<and> st \<notin> set (gap_transitions (gr_status g)) then Inl ValueError
      else Inr (g\<lparr>gr_status := st, gr_filled := (case filled of None \<Rightarrow> gr_filled g | Some n \<Rightarrow> n),
                  gr_attempts := gr_attempts g + (if attempt then 1 else 0),
                  gr_closed_at := (if st \<in> set gap_terminal then Some at_ns else None)\<rparr>))"

section \<open>The detector\<close>

record hole =
  hl_missing :: "int list"
  hl_t_before :: int
  hl_t_after :: int
  hl_created :: int

record gap_stats =
  gst_healed :: nat
  gst_late_fills :: nat
  gst_duplicate_trades :: nat
  gst_stale_klines :: nat
  gst_settled :: nat

record gap_detector =
  gd_instrument :: string
  gd_tf :: string
  gd_tf_ns :: int
  gd_grace_ns :: int
  gd_max_reorder :: int
  gd_stats :: gap_stats
  gd_latest :: "int option"
  gd_k_lo :: "int option"
  gd_k_closed :: "int list"
  gd_t_max :: "int option"
  gd_t_max_ts :: int
  gd_pending :: "hole list"
  gd_missing :: "(nat, int list) dict"
  gd_owner :: "(stream \<times> int, nat) dict"
  gd_gaps :: "(nat, gap_record) dict"
  gd_next_id :: nat
  gd_reads :: nat

definition detector_init :: "string \<Rightarrow> string \<Rightarrow> int \<Rightarrow> int \<Rightarrow> gap_detector norm" where
  "detector_init inst tf grace_ms max_reorder =
     rbind (tf_ms tf) (\<lambda>ms. Inr \<lparr>gd_instrument = inst, gd_tf = tf, gd_tf_ns = ms * NS_PER_MS, gd_grace_ns = grace_ms * NS_PER_MS,
       gd_max_reorder = max_reorder,
       gd_stats = \<lparr>gst_healed = 0, gst_late_fills = 0, gst_duplicate_trades = 0, gst_stale_klines = 0, gst_settled = 0\<rparr>,
       gd_latest = None, gd_k_lo = None, gd_k_closed = [], gd_t_max = None, gd_t_max_ts = 0, gd_pending = [], gd_missing = [],
       gd_owner = [], gd_gaps = [], gd_next_id = 1, gd_reads = 0\<rparr>)"

definition advance :: "gap_detector \<Rightarrow> int \<Rightarrow> gap_detector" where
  "advance d ts = (if (case gd_latest d of None \<Rightarrow> True | Some l \<Rightarrow> l < ts) then d\<lparr>gd_latest := Some ts\<rparr> else d)"

definition open_gap :: "(nat \<Rightarrow> int) \<Rightarrow> gap_detector \<Rightarrow> stream \<Rightarrow> gap_detector_kind \<Rightarrow> int list \<Rightarrow> int \<Rightarrow> int \<Rightarrow> int option \<Rightarrow> int option \<Rightarrow> string option
    \<Rightarrow> gap_detector \<times> gap_record" where
  "open_gap ck d st kind keys lo hi seq_lo seq_hi tf =
     (let gid = gd_next_id d;
          g = \<lparr>gr_id = gid, gr_instrument = gd_instrument d, gr_stream = st, gr_detector = kind, gr_ts_lo = lo, gr_ts_hi = hi,
               gr_expected = length keys, gr_status = GS_OPEN, gr_filled = 0, gr_attempts = 0, gr_seq_lo = seq_lo, gr_seq_hi = seq_hi,
               gr_tf = tf, gr_detected_at = ck (gd_reads d), gr_closed_at = None, gr_exchange = gd_latest d\<rparr>
      in (d\<lparr>gd_next_id := gid + 1, gd_reads := gd_reads d + 1, gd_gaps := dset (gd_gaps d) gid g, gd_missing := dset (gd_missing d) gid keys,
            gd_owner := foldl (\<lambda>o' k. dset o' (st, k) gid) (gd_owner d) keys\<rparr>, g))"

text \<open>\<^verbatim>\<open>_fill\<close>: whether the key was missing, and the records that became complete.\<close>

definition fill_key :: "(nat \<Rightarrow> int) \<Rightarrow> gap_detector \<Rightarrow> stream \<Rightarrow> int \<Rightarrow> (gap_detector \<times> bool \<times> gap_record list) result" where
  "fill_key ck d st key = (case dget (gd_owner d) (st, key) of
     None \<Rightarrow> Inr (d, False, [])
   | Some gid \<Rightarrow> (case (dget (gd_missing d) gid, dget (gd_gaps d) gid) of
       (Some miss0, Some g) \<Rightarrow>
         let miss = removeAll key miss0; filled = gr_expected g - length miss;
             d1 = d\<lparr>gd_owner := ddel (gd_owner d) (st, key), gd_missing := dset (gd_missing d) gid miss,
                    gd_stats := (gd_stats d)\<lparr>gst_late_fills := gst_late_fills (gd_stats d) + 1\<rparr>\<rparr> in
         if miss = [] \<and> gr_status g \<noteq> GS_FILLING then
           rbind (gap_move g GS_FILLED (ck (gd_reads d)) (Some filled) False) (\<lambda>g'.
             Inr (d1\<lparr>gd_reads := gd_reads d + 1, gd_gaps := dset (gd_gaps d) gid g'\<rparr>, True, [g']))
         else if gr_status g = GS_FILLING then Inr (d1\<lparr>gd_gaps := dset (gd_gaps d) gid (g\<lparr>gr_filled := filled\<rparr>)\<rparr>, True, [])
         else Inr (d1, True, [])
     | _ \<Rightarrow> Inl KeyError))"

section \<open>Minutes\<close>

definition open_klines :: "(nat \<Rightarrow> int) \<Rightarrow> gap_detector \<Rightarrow> int list \<Rightarrow> gap_detector \<times> gap_record" where
  "open_klines ck d run = open_gap ck d KLINES TIME run (hd run) (last run) None None (Some (gd_tf d))"

definition flush_run :: "(nat \<Rightarrow> int) \<Rightarrow> gap_detector \<Rightarrow> int list \<Rightarrow> gap_detector \<times> gap_record list" where
  "flush_run ck d run = (if run = [] then (d, []) else let (d', g) = open_klines ck d run in (d', [g]))"

definition settle :: "gap_detector \<Rightarrow> int \<Rightarrow> gap_detector" where
  "settle d m = d\<lparr>gd_k_lo := Some (m + gd_tf_ns d), gd_stats := (gd_stats d)\<lparr>gst_settled := gst_settled (gd_stats d) + 1\<rparr>\<rparr>"

fun sweep_loop :: "nat \<Rightarrow> (nat \<Rightarrow> int) \<Rightarrow> int \<Rightarrow> int \<Rightarrow> gap_detector \<Rightarrow> int list \<Rightarrow> gap_record list \<Rightarrow> gap_detector \<times> gap_record list" where
  "sweep_loop 0 ck horizon m d run out = (let (d', gs) = flush_run ck d run in (d', out @ gs))"
| "sweep_loop (Suc n) ck horizon m d run out =
     (if m + gd_tf_ns d \<le> horizon then
        (if m \<in> set (gd_k_closed d) then
           let (d', gs) = flush_run ck (d\<lparr>gd_k_closed := removeAll m (gd_k_closed d)\<rparr>) run
           in sweep_loop n ck horizon (m + gd_tf_ns d) (settle d' m) [] (out @ gs)
         else sweep_loop n ck horizon (m + gd_tf_ns d) (settle d m) (run @ [m]) out)
      else let (d', gs) = flush_run ck d run in (d', out @ gs))"

definition sweep_fuel :: "int \<Rightarrow> int \<Rightarrow> int \<Rightarrow> nat" where
  "sweep_fuel tf_ns horizon m = nat ((horizon - m) div tf_ns) + 1"

definition sweep_klines :: "(nat \<Rightarrow> int) \<Rightarrow> gap_detector \<Rightarrow> gap_detector \<times> gap_record list" where
  "sweep_klines ck d = (case (gd_k_lo d, gd_latest d) of
     (Some m, Some l) \<Rightarrow> let horizon = l - gd_grace_ns d in sweep_loop (sweep_fuel (gd_tf_ns d) horizon m) ck horizon m d [] []
   | _ \<Rightarrow> (d, []))"

section \<open>Trades\<close>

definition confirms :: "gap_detector \<Rightarrow> bool \<Rightarrow> hole \<Rightarrow> bool" where
  "confirms d force h \<longleftrightarrow> force \<or> gd_max_reorder d < int (length (hl_missing h))
     \<or> gd_grace_ns d \<le> (case gd_latest d of None \<Rightarrow> 0 | Some l \<Rightarrow> l) - hl_created h"

fun confirm_loop :: "(nat \<Rightarrow> int) \<Rightarrow> bool \<Rightarrow> hole list \<Rightarrow> gap_detector \<Rightarrow> gap_detector \<times> gap_record list" where
  "confirm_loop ck force [] d = (d, [])"
| "confirm_loop ck force (h # hs) d =
     (if confirms d force h then
        let (d1, g) = open_gap ck d TRADES SEQ (hl_missing h) (hl_t_before h) (hl_t_after h) (Some (Min (set (hl_missing h)))) (Some (Max (set (hl_missing h)))) None;
            (d2, gs) = confirm_loop ck force hs d1 in (d2, g # gs)
      else let (d2, gs) = confirm_loop ck force hs d in (d2\<lparr>gd_pending := h # gd_pending d2\<rparr>, gs))"

definition confirm_holes :: "(nat \<Rightarrow> int) \<Rightarrow> gap_detector \<Rightarrow> bool \<Rightarrow> gap_detector \<times> gap_record list" where
  "confirm_holes ck d force = confirm_loop ck force (gd_pending d) (d\<lparr>gd_pending := []\<rparr>)"

text \<open>A late identifier leaves the first hole that misses it; a hole healed this way disappears.\<close>

fun heal :: "int \<Rightarrow> hole list \<Rightarrow> hole list" where
  "heal a [] = []"
| "heal a (h # hs) =
     (if a \<in> set (hl_missing h) then
        let miss = removeAll a (hl_missing h) in (if miss = [] then hs else h\<lparr>hl_missing := miss\<rparr> # hs)
      else h # heal a hs)"

definition in_holes :: "int \<Rightarrow> hole list \<Rightarrow> bool" where
  "in_holes a hs \<longleftrightarrow> (\<exists>h \<in> set hs. a \<in> set (hl_missing h))"

definition count_healed :: "gap_detector \<Rightarrow> int \<Rightarrow> gap_detector" where
  "count_healed d a = (let hs = heal a (gd_pending d) in
     d\<lparr>gd_pending := hs, gd_stats := (gd_stats d)\<lparr>gst_healed := gst_healed (gd_stats d) + (if length hs < length (gd_pending d) then 1 else 0)\<rparr>\<rparr>)"

definition duplicate_trade :: "gap_detector \<Rightarrow> gap_detector" where
  "duplicate_trade d = d\<lparr>gd_stats := (gd_stats d)\<lparr>gst_duplicate_trades := gst_duplicate_trades (gd_stats d) + 1\<rparr>\<rparr>"

definition new_hole :: "gap_detector \<Rightarrow> int \<Rightarrow> trade \<Rightarrow> hole" where
  "new_hole d tmax t = \<lparr>hl_missing = [tmax + 1..td_agg_id t - 1], hl_t_before = gd_t_max_ts d, hl_t_after = td_ts_event_ns t,
     hl_created = (case gd_latest d of Some l \<Rightarrow> if l = 0 then td_ts_event_ns t else l | None \<Rightarrow> td_ts_event_ns t)\<rparr>"

definition take_trade :: "(nat \<Rightarrow> int) \<Rightarrow> gap_detector \<Rightarrow> trade \<Rightarrow> (gap_detector \<times> gap_record list) result" where
  "take_trade ck d t =
     (let a = td_agg_id t; set_max = (\<lambda>d. d\<lparr>gd_t_max := Some a, gd_t_max_ts := td_ts_event_ns t\<rparr>) in
      case gd_t_max d of
        None \<Rightarrow> Inr (set_max d, [])
      | Some tmax \<Rightarrow>
          if tmax < a then
            Inr (set_max (if tmax + 1 < a then d\<lparr>gd_pending := gd_pending d @ [new_hole d tmax t]\<rparr> else d), [])
          else if a < tmax then
            (if in_holes a (gd_pending d) then Inr (count_healed d a, [])
             else rbind (fill_key ck d TRADES a) (\<lambda>(d', found, changed). Inr (if found then d' else duplicate_trade d', changed)))
          else Inr (duplicate_trade d, []))"

section \<open>Operations\<close>

definition gd_on_time :: "(nat \<Rightarrow> int) \<Rightarrow> gap_detector \<Rightarrow> int \<Rightarrow> gap_detector \<times> gap_record list" where
  "gd_on_time ck d ts = (let (d1, g1) = sweep_klines ck (advance d ts); (d2, g2) = confirm_holes ck d1 False in (d2, g1 @ g2))"

definition take_kline :: "(nat \<Rightarrow> int) \<Rightarrow> gap_detector \<Rightarrow> candle \<Rightarrow> (gap_detector \<times> gap_record list) result" where
  "take_kline ck d0 c =
     (let m = cd_open_time_ns c; lo = (case gd_k_lo d0 of None \<Rightarrow> m | Some k \<Rightarrow> k); d = d0\<lparr>gd_k_lo := Some lo\<rparr>;
          stale = (\<lambda>d. d\<lparr>gd_stats := (gd_stats d)\<lparr>gst_stale_klines := gst_stale_klines (gd_stats d) + 1\<rparr>\<rparr>) in
      if m < lo then
        (if cd_is_closed c then rbind (fill_key ck d KLINES m) (\<lambda>(d', found, changed). Inr (if found then d' else stale d', changed))
         else Inr (stale d, []))
      else if cd_is_closed c then Inr (d\<lparr>gd_k_closed := (if m \<in> set (gd_k_closed d) then gd_k_closed d else m # gd_k_closed d)\<rparr>, [])
      else Inr (d, []))"

definition gd_on_kline :: "(nat \<Rightarrow> int) \<Rightarrow> gap_detector \<Rightarrow> candle \<Rightarrow> (gap_detector \<times> gap_record list) result" where
  "gd_on_kline ck d c =
     (if cd_tf c \<noteq> gd_tf d \<or> cd_instrument c \<noteq> gd_instrument d then Inr (d, [])
      else rbind (take_kline ck (advance d (cd_ts_event_ns c)) c) (\<lambda>(d1, g1).
        let (d2, g2) = sweep_klines ck d1; (d3, g3) = confirm_holes ck d2 False in Inr (d3, g1 @ g2 @ g3)))"

definition gd_on_trade :: "(nat \<Rightarrow> int) \<Rightarrow> gap_detector \<Rightarrow> trade \<Rightarrow> (gap_detector \<times> gap_record list) result" where
  "gd_on_trade ck d t =
     (if td_instrument t \<noteq> gd_instrument d then Inr (d, [])
      else rbind (take_trade ck (advance d (td_ts_event_ns t)) t) (\<lambda>(d1, g1).
        let (d2, g2) = confirm_holes ck d1 False; (d3, g3) = sweep_klines ck d2 in Inr (d3, g1 @ g2 @ g3)))"

definition gd_flush :: "(nat \<Rightarrow> int) \<Rightarrow> gap_detector \<Rightarrow> gap_detector \<times> gap_record list" where
  "gd_flush ck d = confirm_holes ck d True"

definition begin_fill :: "(nat \<Rightarrow> int) \<Rightarrow> gap_detector \<Rightarrow> nat \<Rightarrow> (gap_detector \<times> gap_record) result" where
  "begin_fill ck d gid = (case dget (gd_gaps d) gid of
     None \<Rightarrow> Inl KeyError
   | Some g \<Rightarrow> rbind (gap_move g GS_FILLING (ck (gd_reads d)) None True) (\<lambda>g'.
       Inr (d\<lparr>gd_gaps := dset (gd_gaps d) gid g', gd_reads := gd_reads d + 1\<rparr>, g')))"

definition resolve_status :: "nat \<Rightarrow> nat \<Rightarrow> gap_status" where
  "resolve_status missing filled = (if missing = 0 then GS_FILLED else if filled \<noteq> 0 then GS_PARTIAL else GS_UNFILLABLE)"

definition gd_resolve :: "(nat \<Rightarrow> int) \<Rightarrow> gap_detector \<Rightarrow> nat \<Rightarrow> (gap_detector \<times> gap_record) result" where
  "gd_resolve ck d gid = (case (dget (gd_gaps d) gid, dget (gd_missing d) gid) of
     (Some g, Some miss) \<Rightarrow>
       let filled = gr_expected g - length miss in
       rbind (gap_move g (resolve_status (length miss) filled) (ck (gd_reads d)) (Some filled) False) (\<lambda>g'.
         Inr (d\<lparr>gd_gaps := dset (gd_gaps d) gid g', gd_reads := gd_reads d + 1\<rparr>, g'))
   | _ \<Rightarrow> Inl KeyError)"

definition gd_missing_keys :: "gap_detector \<Rightarrow> nat \<Rightarrow> int list result" where
  "gd_missing_keys d gid = (case dget (gd_missing d) gid of None \<Rightarrow> Inl KeyError | Some ks \<Rightarrow> Inr (sort ks))"

definition open_gaps :: "gap_detector \<Rightarrow> gap_record list" where
  "open_gaps d = filter (\<lambda>g. gr_status g \<noteq> GS_FILLED) (map snd (gd_gaps d))"

definition pending_holes :: "gap_detector \<Rightarrow> nat" where
  "pending_holes d = length (gd_pending d)"

datatype gd_cmd = D_time int | D_kline candle | D_trade trade | D_flush | D_begin nat | D_resolve nat

fun gd_step :: "(nat \<Rightarrow> int) \<Rightarrow> gap_detector \<Rightarrow> gd_cmd \<Rightarrow> gap_detector result" where
  "gd_step ck d (D_time ts) = Inr (fst (gd_on_time ck d ts))"
| "gd_step ck d (D_kline c) = rbind (gd_on_kline ck d c) (\<lambda>r. Inr (fst r))"
| "gd_step ck d (D_trade t) = rbind (gd_on_trade ck d t) (\<lambda>r. Inr (fst r))"
| "gd_step ck d D_flush = Inr (fst (gd_flush ck d))"
| "gd_step ck d (D_begin i) = rbind (begin_fill ck d i) (\<lambda>r. Inr (fst r))"
| "gd_step ck d (D_resolve i) = rbind (gd_resolve ck d i) (\<lambda>r. Inr (fst r))"

end
