(* ===== verification/GapDetectorProps.thy ===== *)
theory GapDetectorProps
  imports GapDetector CandlesProps
begin

text \<open>
  The books of the gap detector: the keys it owns are exactly the missing keys of its gap records, a trade identifier or a
  minute is lost if and only if it was expected and never came, and a record moves only along the allowed transitions.
\<close>

section \<open>The invariant of the books\<close>

definition books_ok :: "gap_detector \<Rightarrow> bool" where
  "books_ok d \<longleftrightarrow> 0 < gd_tf_ns d
     \<and> (\<forall>gid. dget (gd_gaps d) gid = None \<longleftrightarrow> dget (gd_missing d) gid = None)
     \<and> (\<forall>gid \<ge> gd_next_id d. dget (gd_gaps d) gid = None)
     \<and> (\<forall>st k gid. dget (gd_owner d) (st, k) = Some gid \<longleftrightarrow>
          (\<exists>g ms. dget (gd_gaps d) gid = Some g \<and> dget (gd_missing d) gid = Some ms \<and> gr_stream g = st \<and> k \<in> set ms))
     \<and> (\<forall>gid g ms. dget (gd_gaps d) gid = Some g \<longrightarrow> dget (gd_missing d) gid = Some ms \<longrightarrow>
          gr_id g = gid \<and> distinct ms \<and> length ms \<le> gr_expected g \<and> (gr_status g = GS_FILLED \<longrightarrow> ms = [])
          \<and> (ms = [] \<longrightarrow> gr_status g \<in> {GS_FILLED, GS_FILLING}))"

definition holes_ok :: "gap_detector \<Rightarrow> bool" where
  "holes_ok d \<longleftrightarrow> distinct (concat (map hl_missing (gd_pending d))) \<and> (\<forall>h \<in> set (gd_pending d). hl_missing h \<noteq> [])
     \<and> (\<forall>k. in_holes k (gd_pending d) \<longrightarrow> dget (gd_owner d) (TRADES, k) = None)"

definition owned :: "gap_detector \<Rightarrow> stream \<Rightarrow> int set" where
  "owned d st = {k. dget (gd_owner d) (st, k) \<noteq> None}"

definition held_ids :: "gap_detector \<Rightarrow> int set" where
  "held_ids d = {k. in_holes k (gd_pending d)}"

text \<open>A record may change its status along one allowed transition and never what it is about; a step may also add records.\<close>

definition evolves :: "gap_record \<Rightarrow> gap_record \<Rightarrow> bool" where
  "evolves g g' \<longleftrightarrow> (gr_status g' = gr_status g \<or> gr_status g' \<in> set (gap_transitions (gr_status g)))
     \<and> gr_id g' = gr_id g \<and> gr_stream g' = gr_stream g \<and> gr_expected g' = gr_expected g \<and> gr_ts_lo g' = gr_ts_lo g \<and> gr_ts_hi g' = gr_ts_hi g"

definition lifecycle :: "gap_detector \<Rightarrow> gap_detector \<Rightarrow> bool" where
  "lifecycle d d' \<longleftrightarrow> (\<forall>gid g. dget (gd_gaps d) gid = Some g \<longrightarrow> (\<exists>g'. dget (gd_gaps d') gid = Some g' \<and> evolves g g'))"

definition adds :: "gap_detector \<Rightarrow> gap_detector \<Rightarrow> bool" where
  "adds d d' \<longleftrightarrow> (\<forall>gid g. dget (gd_gaps d) gid = Some g \<longrightarrow> dget (gd_gaps d') gid = Some g)"

lemma evolves_refl [simp]: "evolves g g"
  by (simp add: evolves_def)

lemma adds_trans: "adds d d' \<Longrightarrow> adds d' d'' \<Longrightarrow> adds d d''"
  by (simp add: adds_def)

lemma lifecycle_adds: "lifecycle d d' \<Longrightarrow> adds d' d'' \<Longrightarrow> lifecycle d d''"
  unfolding lifecycle_def adds_def by blast

lemma adds_lifecycle: "adds d d' \<Longrightarrow> lifecycle d d'"
  unfolding lifecycle_def adds_def by fastforce

text \<open>The rest of the state, which opening and filling leave alone.\<close>

definition same_flow :: "gap_detector \<Rightarrow> gap_detector \<Rightarrow> bool" where
  "same_flow d d' \<longleftrightarrow> gd_instrument d' = gd_instrument d \<and> gd_tf d' = gd_tf d \<and> gd_tf_ns d' = gd_tf_ns d \<and> gd_grace_ns d' = gd_grace_ns d
     \<and> gd_latest d' = gd_latest d \<and> gd_k_lo d' = gd_k_lo d \<and> gd_k_closed d' = gd_k_closed d \<and> gd_t_max d' = gd_t_max d"

lemma same_flow_refl [simp]: "same_flow d d"
  by (simp add: same_flow_def)

lemma same_flow_trans: "same_flow d d' \<Longrightarrow> same_flow d' d'' \<Longrightarrow> same_flow d d''"
  by (simp add: same_flow_def)

section \<open>Opening a gap\<close>

lemma foldl_owner: "dget (foldl (\<lambda>o' k. dset o' (st, k) gid) ow keys) (s, k) = (if s = st \<and> k \<in> set keys then Some gid else dget ow (s, k))"
  by (induction keys arbitrary: ow) auto

lemma open_gap_ok:
  assumes "books_ok d" and "open_gap ck d st kind keys lo hi sl sh tf = (d', g)"
    and "keys \<noteq> []" "distinct keys" "set keys \<inter> owned d st = {}"
  shows "books_ok d'" and "owned d' st = owned d st \<union> set keys" and "s \<noteq> st \<Longrightarrow> owned d' s = owned d s" and "adds d d'" and "same_flow d d'"
    and "gd_pending d' = gd_pending d"
proof -
  let ?gid = "gd_next_id d"
  from assms(2) have d': "gd_tf_ns d' = gd_tf_ns d" "gd_gaps d' = dset (gd_gaps d) ?gid g" "gd_missing d' = dset (gd_missing d) ?gid keys"
    "gd_owner d' = foldl (\<lambda>o' k. dset o' (st, k) ?gid) (gd_owner d) keys" "gd_next_id d' = ?gid + 1"
    and g: "gr_id g = ?gid" "gr_stream g = st" "gr_expected g = length keys" "gr_status g = GS_OPEN"
    and rest: "same_flow d d'" "gd_pending d' = gd_pending d"
    by (auto simp: open_gap_def Let_def same_flow_def)
  have fresh: "dget (gd_gaps d) ?gid = None" "dget (gd_missing d) ?gid = None" using assms(1) by (auto simp: books_ok_def)
  show o: "owned d' st = owned d st \<union> set keys" and "s \<noteq> st \<Longrightarrow> owned d' s = owned d s"
    by (auto simp: owned_def d'(4) foldl_owner)
  show "adds d d'" using fresh by (auto simp: adds_def d'(2))
  show "same_flow d d'" "gd_pending d' = gd_pending d" by (rule rest)+
  have ow: "dget (gd_owner d') (s, k) = Some gid \<longleftrightarrow>
      (\<exists>g ms. dget (gd_gaps d') gid = Some g \<and> dget (gd_missing d') gid = Some ms \<and> gr_stream g = s \<and> k \<in> set ms)" for s k gid
  proof (cases "gid = ?gid")
    case True
    have "dget (gd_owner d) (s, k) \<noteq> Some ?gid" using assms(1) fresh by (auto simp: books_ok_def)
    then show ?thesis using True g by (auto simp: d'(2,3,4) foldl_owner)
  next
    case False
    have "dget (gd_owner d) (st, k) = None" if "k \<in> set keys" using assms(5) that by (auto simp: owned_def)
    then have "dget (gd_owner d') (s, k) = Some gid \<longleftrightarrow> dget (gd_owner d) (s, k) = Some gid" using False by (auto simp: d'(4) foldl_owner)
    moreover have "dget (gd_gaps d') gid = dget (gd_gaps d) gid" "dget (gd_missing d') gid = dget (gd_missing d) gid" using False by (simp_all add: d'(2,3))
    moreover have "dget (gd_owner d) (s, k) = Some gid \<longleftrightarrow>
      (\<exists>g ms. dget (gd_gaps d) gid = Some g \<and> dget (gd_missing d) gid = Some ms \<and> gr_stream g = s \<and> k \<in> set ms)"
      using assms(1) unfolding books_ok_def by blast
    ultimately show ?thesis by (simp only:)
  qed
  show "books_ok d'"
    unfolding books_ok_def
  proof (intro conjI allI impI)
    show "0 < gd_tf_ns d'" using assms(1) d'(1) by (simp add: books_ok_def)
  next
    fix gid show "dget (gd_gaps d') gid = None \<longleftrightarrow> dget (gd_missing d') gid = None" using assms(1) by (auto simp: d'(2,3) books_ok_def)
  next
    fix gid assume "gd_next_id d' \<le> gid"
    then show "dget (gd_gaps d') gid = None" using assms(1) by (auto simp: d'(2,5) books_ok_def)
  next
    fix s k gid
    show "dget (gd_owner d') (s, k) = Some gid \<longleftrightarrow>
      (\<exists>g ms. dget (gd_gaps d') gid = Some g \<and> dget (gd_missing d') gid = Some ms \<and> gr_stream g = s \<and> k \<in> set ms)" by (rule ow)
  next
    fix gid g0 ms assume a: "dget (gd_gaps d') gid = Some g0" "dget (gd_missing d') gid = Some ms"
    have "gr_id g0 = gid \<and> distinct ms \<and> length ms \<le> gr_expected g0 \<and> (gr_status g0 = GS_FILLED \<longrightarrow> ms = []) \<and> (ms = [] \<longrightarrow> gr_status g0 \<in> {GS_FILLED, GS_FILLING})"
    proof (cases "gid = ?gid")
      case True
      with a g assms(3,4) show ?thesis by (auto simp: d'(2,3))
    next
      case False
      with a assms(1) show ?thesis by (auto simp: d'(2,3) books_ok_def)
    qed
    then show "gr_id g0 = gid" "distinct ms" "length ms \<le> gr_expected g0" "gr_status g0 = GS_FILLED \<Longrightarrow> ms = []"
      "ms = [] \<Longrightarrow> gr_status g0 \<in> {GS_FILLED, GS_FILLING}" by blast+
  qed
qed

section \<open>A late key\<close>

lemma books_okD:
  assumes "books_ok d"
  shows "0 < gd_tf_ns d" and "dget (gd_gaps d) gid = None \<longleftrightarrow> dget (gd_missing d) gid = None"
    and "gd_next_id d \<le> gid \<Longrightarrow> dget (gd_gaps d) gid = None"
    and "dget (gd_owner d) (st, k) = Some gid \<longleftrightarrow>
      (\<exists>g ms. dget (gd_gaps d) gid = Some g \<and> dget (gd_missing d) gid = Some ms \<and> gr_stream g = st \<and> k \<in> set ms)"
    and "dget (gd_gaps d) gid = Some g \<Longrightarrow> dget (gd_missing d) gid = Some ms \<Longrightarrow> gr_id g = gid \<and> distinct ms \<and> length ms \<le> gr_expected g
      \<and> (gr_status g = GS_FILLED \<longrightarrow> ms = []) \<and> (ms = [] \<longrightarrow> gr_status g \<in> {GS_FILLED, GS_FILLING})"
  using assms unfolding books_ok_def by blast+

text \<open>Replacing one record and its missing keys by a legal successor keeps the books.\<close>

lemma books_update:
  assumes ok: "books_ok d" and g: "dget (gd_gaps d) gid = Some g" "dget (gd_missing d) gid = Some ms"
    and new: "gr_id g' = gr_id g" "gr_stream g' = gr_stream g" "gr_expected g' = gr_expected g" "set ms' \<subseteq> set ms" "distinct ms'"
      "gr_status g' = GS_FILLED \<longrightarrow> ms' = []" "ms' = [] \<longrightarrow> gr_status g' \<in> {GS_FILLED, GS_FILLING}"
    and d': "gd_tf_ns d' = gd_tf_ns d" "gd_next_id d' = gd_next_id d" "\<And>i. dget (gd_gaps d') i = (if i = gid then Some g' else dget (gd_gaps d) i)"
      "\<And>i. dget (gd_missing d') i = (if i = gid then Some ms' else dget (gd_missing d) i)"
      "\<And>s k. dget (gd_owner d') (s, k) = (if s = gr_stream g \<and> k \<in> set ms - set ms' then None else dget (gd_owner d) (s, k))"
  shows "books_ok d'"
  unfolding books_ok_def
proof (intro conjI allI impI)
  note b = books_okD [OF ok]
  show "0 < gd_tf_ns d'" using b(1) d'(1) by simp
  fix i
  show "dget (gd_gaps d') i = None \<longleftrightarrow> dget (gd_missing d') i = None" using b(2) by (simp add: d'(3,4))
  have lt: "gid < gd_next_id d" using b(3) [of gid] g(1) by (metis not_le option.distinct(1))
  { assume "gd_next_id d' \<le> i" then show "dget (gd_gaps d') i = None" using b(3) [of i] lt d'(2) by (simp add: d'(3)) }
  have len: "length ms' \<le> length ms" using new(4,5) b(5) [OF g] by (metis card_mono distinct_card List.finite_set)
  { fix g0 ms0 assume a: "dget (gd_gaps d') i = Some g0" "dget (gd_missing d') i = Some ms0"
    have "gr_id g0 = i \<and> distinct ms0 \<and> length ms0 \<le> gr_expected g0 \<and> (gr_status g0 = GS_FILLED \<longrightarrow> ms0 = []) \<and> (ms0 = [] \<longrightarrow> gr_status g0 \<in> {GS_FILLED, GS_FILLING})"
    proof (cases "i = gid")
      case True
      with a have "g0 = g'" "ms0 = ms'" by (simp_all add: d'(3,4))
      with new len b(5) [OF g] True show ?thesis by auto
    next
      case False
      with a have "dget (gd_gaps d) i = Some g0" "dget (gd_missing d) i = Some ms0" by (simp_all add: d'(3,4))
      from b(5) [OF this] show ?thesis .
    qed
    then show "gr_id g0 = i" "distinct ms0" "length ms0 \<le> gr_expected g0" "gr_status g0 = GS_FILLED \<Longrightarrow> ms0 = []"
      "ms0 = [] \<Longrightarrow> gr_status g0 \<in> {GS_FILLED, GS_FILLING}" by blast+ }
  fix s k
  show "dget (gd_owner d') (s, k) = Some i \<longleftrightarrow>
      (\<exists>g ms. dget (gd_gaps d') i = Some g \<and> dget (gd_missing d') i = Some ms \<and> gr_stream g = s \<and> k \<in> set ms)"
  proof (cases "i = gid")
    case True
    have "dget (gd_owner d) (s, k) = Some gid \<longleftrightarrow> gr_stream g = s \<and> k \<in> set ms" using b(4) [of s k gid] g by simp
    then show ?thesis using True new(2,4) by (auto simp: d'(3,4,5))
  next
    case False
    have own: "dget (gd_owner d) (gr_stream g, k) = Some gid" if "k \<in> set ms" using b(4) [of "gr_stream g" k gid] g that by simp
    have "dget (gd_owner d') (s, k) = Some i \<longleftrightarrow> dget (gd_owner d) (s, k) = Some i" using own False by (auto simp: d'(5))
    then show ?thesis using False b(4) [of s k i] by (simp add: d'(3,4))
  qed
qed

lemma gap_move_facts:
  assumes "gap_move g st at_ns filled attempt = Inr g'"
  shows "evolves g g'" and "gr_status g' = st"
  using assms by (auto simp: gap_move_def evolves_def split: if_splits)

lemma fill_key_ok:
  assumes ok: "books_ok d"
  shows "\<exists>d' changed. fill_key ck d st key = Inr (d', key \<in> owned d st, changed) \<and> books_ok d' \<and> owned d' st = owned d st - {key}
    \<and> (\<forall>s. s \<noteq> st \<longrightarrow> owned d' s = owned d s) \<and> lifecycle d d' \<and> same_flow d d' \<and> gd_pending d' = gd_pending d"
proof (cases "dget (gd_owner d) (st, key)")
  case None
  then show ?thesis by (auto simp: fill_key_def owned_def ok lifecycle_def)
next
  case (Some gid)
  with books_okD(4) [OF ok] obtain g ms where g: "dget (gd_gaps d) gid = Some g" "dget (gd_missing d) gid = Some ms"
    and st: "gr_stream g = st" and key: "key \<in> set ms" by blast
  note rec = books_okD(5) [OF ok g]
  let ?ms = "removeAll key ms" and ?filled = "gr_expected g - length (removeAll key ms)"
  have ow: "owned d st = insert key (owned d st)" using Some by (auto simp: owned_def)
  define d1 where "d1 = d\<lparr>gd_owner := ddel (gd_owner d) (st, key), gd_missing := dset (gd_missing d) gid ?ms,
     gd_stats := (gd_stats d)\<lparr>gst_late_fills := gst_late_fills (gd_stats d) + 1\<rparr>\<rparr>"
  have flow: "same_flow d (d1\<lparr>gd_reads := r, gd_gaps := gs\<rparr>)" for r gs by (simp add: d1_def same_flow_def)
  have keep: "\<exists>changed'. books_ok d' \<and> owned d' st = owned d st - {key} \<and> (\<forall>s. s \<noteq> st \<longrightarrow> owned d' s = owned d s) \<and> lifecycle d d' \<and> same_flow d d' \<and> gd_pending d' = gd_pending d"
    if d': "d' = d1\<lparr>gd_reads := r, gd_gaps := gs\<rparr>" and gs: "\<And>i. dget gs i = (if i = gid then Some g' else dget (gd_gaps d) i)"
      and ev: "evolves g g'" and fin: "gr_status g' = GS_FILLED \<longrightarrow> ?ms = []" "?ms = [] \<longrightarrow> gr_status g' \<in> {GS_FILLED, GS_FILLING}" for d' r gs g'
  proof -
    have "books_ok d'"
      by (rule books_update [OF ok g, of g' ?ms])
        (use ev fin rec st key in \<open>auto simp: d' d1_def gs evolves_def distinct_removeAll\<close>)
    moreover have "lifecycle d d'" using ev g by (auto simp: lifecycle_def d' gs)
    moreover have "owned d' st = owned d st - {key}" "\<forall>s. s \<noteq> st \<longrightarrow> owned d' s = owned d s" by (auto simp: owned_def d' d1_def)
    moreover have "same_flow d d'" "gd_pending d' = gd_pending d" using flow by (simp_all add: d' d1_def)
    ultimately show ?thesis by blast
  qed
  have el: "key \<in> owned d st" using ow by blast
  show ?thesis
  proof (cases "?ms = [] \<and> gr_status g \<noteq> GS_FILLING")
    case True
    have "gr_status g \<noteq> GS_FILLED" using rec key by auto
    with True obtain g' where g': "gap_move g GS_FILLED (ck (gd_reads d)) (Some ?filled) False = Inr g'"
      by (cases "gr_status g") (auto simp: gap_move_def)
    have "fill_key ck d st key = Inr (d1\<lparr>gd_reads := gd_reads d + 1, gd_gaps := dset (gd_gaps d) gid g'\<rparr>, True, [g'])"
      using Some g g' True by (simp add: fill_key_def Let_def d1_def)
    with keep [OF refl _ gap_move_facts(1) [OF g'], of "dset (gd_gaps d) gid g'"] gap_move_facts(2) [OF g'] True el show ?thesis by auto
  next
    case False
    show ?thesis
    proof (cases "gr_status g = GS_FILLING")
      case True
      have "fill_key ck d st key = Inr (d1\<lparr>gd_reads := gd_reads d, gd_gaps := dset (gd_gaps d) gid (g\<lparr>gr_filled := ?filled\<rparr>)\<rparr>, True, [])"
        using Some g True by (simp add: fill_key_def Let_def d1_def)
      moreover have "evolves g (g\<lparr>gr_filled := ?filled\<rparr>)" by (simp add: evolves_def)
      ultimately show ?thesis using keep [OF refl, of "dset (gd_gaps d) gid (g\<lparr>gr_filled := ?filled\<rparr>)" "g\<lparr>gr_filled := ?filled\<rparr>"] True el by auto
    next
      case ns: False
      have "fill_key ck d st key = Inr (d1\<lparr>gd_reads := gd_reads d, gd_gaps := gd_gaps d\<rparr>, True, [])"
        using Some g ns False by (simp add: fill_key_def Let_def d1_def)
      moreover have "gr_status g = GS_FILLED \<longrightarrow> ?ms = []" using rec key by auto
      ultimately show ?thesis using keep [OF refl, of "gd_gaps d" g] False ns g el by auto
    qed
  qed
qed

section \<open>The sweep over minutes\<close>

text \<open>What trades and minutes share: the sweep leaves the side of the trades alone and vice versa.\<close>

definition same_setup :: "gap_detector \<Rightarrow> gap_detector \<Rightarrow> bool" where
  "same_setup d d' \<longleftrightarrow> gd_instrument d' = gd_instrument d \<and> gd_tf d' = gd_tf d \<and> gd_tf_ns d' = gd_tf_ns d \<and> gd_grace_ns d' = gd_grace_ns d"

definition same_trades :: "gap_detector \<Rightarrow> gap_detector \<Rightarrow> bool" where
  "same_trades d d' \<longleftrightarrow> gd_t_max d' = gd_t_max d \<and> gd_pending d' = gd_pending d \<and> owned d' TRADES = owned d TRADES"

definition same_minutes :: "gap_detector \<Rightarrow> gap_detector \<Rightarrow> bool" where
  "same_minutes d d' \<longleftrightarrow> gd_k_lo d' = gd_k_lo d \<and> gd_k_closed d' = gd_k_closed d \<and> owned d' KLINES = owned d KLINES"

lemma same_trans:
  "same_setup d d' \<Longrightarrow> same_setup d' d'' \<Longrightarrow> same_setup d d''" "same_trades d d' \<Longrightarrow> same_trades d' d'' \<Longrightarrow> same_trades d d''"
  "same_minutes d d' \<Longrightarrow> same_minutes d' d'' \<Longrightarrow> same_minutes d d''"
  by (simp_all add: same_setup_def same_trades_def same_minutes_def)

text \<open>The minutes of the grid from the first one up to \<open>m\<close> that never closed.\<close>

definition lost_minutes :: "int \<Rightarrow> int \<Rightarrow> int set \<Rightarrow> int \<Rightarrow> int set" where
  "lost_minutes tf f C m = {x. f \<le> x \<and> x < m \<and> tf dvd x - f \<and> x \<notin> C}"

definition minutes_at :: "gap_detector \<Rightarrow> int \<Rightarrow> int set \<Rightarrow> int list \<Rightarrow> int \<Rightarrow> bool" where
  "minutes_at d f C run m \<longleftrightarrow> gd_k_lo d = Some m \<and> f \<le> m \<and> gd_tf_ns d dvd m - f \<and> distinct run \<and> set run \<inter> owned d KLINES = {}
     \<and> owned d KLINES \<union> set run = lost_minutes (gd_tf_ns d) f C m \<and> (\<forall>x \<ge> m. x \<in> set (gd_k_closed d) \<longleftrightarrow> x \<in> C)"

lemma lost_minutes_next:
  assumes "0 < tf" and "f \<le> m" and "tf dvd m - f"
  shows "lost_minutes tf f C (m + tf) = (if m \<in> C then lost_minutes tf f C m else insert m (lost_minutes tf f C m))"
proof -
  have "x = m" if "m \<le> x" "x < m + tf" "tf dvd x - f" for x
  proof (rule ccontr)
    assume "x \<noteq> m"
    moreover have "tf dvd x - m" using dvd_diff [OF that(3) assms(3)] by simp
    ultimately show False using next_multiple(1) [OF assms(1), of x m] that by simp
  qed
  then have "x < m + tf \<and> tf dvd x - f \<longleftrightarrow> x < m \<and> tf dvd x - f \<or> x = m" for x
    using assms(1,3) by (cases "m \<le> x") auto
  then have "lost_minutes tf f C (m + tf) = {x. f \<le> x \<and> (x < m \<and> tf dvd x - f \<or> x = m) \<and> x \<notin> C}"
    unfolding lost_minutes_def by blast
  then show ?thesis using assms(2) by (auto simp: lost_minutes_def)
qed

lemma flush_run_ok:
  assumes "books_ok d" and "flush_run ck d run = (d', gs)" and "distinct run" "set run \<inter> owned d KLINES = {}"
  shows "books_ok d'" and "owned d' KLINES = owned d KLINES \<union> set run" and "same_trades d d'" and "same_setup d d'" and "adds d d'"
    and "gd_k_lo d' = gd_k_lo d" and "gd_k_closed d' = gd_k_closed d" and "gd_latest d' = gd_latest d"
proof -
  have "books_ok d' \<and> owned d' KLINES = owned d KLINES \<union> set run \<and> same_trades d d' \<and> same_setup d d' \<and> adds d d'
      \<and> gd_k_lo d' = gd_k_lo d \<and> gd_k_closed d' = gd_k_closed d \<and> gd_latest d' = gd_latest d"
  proof (cases "run = []")
    case True
    with assms show ?thesis by (auto simp: flush_run_def same_trades_def same_setup_def adds_def)
  next
    case False
    with assms(2) obtain g where o: "open_gap ck d KLINES TIME run (hd run) (last run) None None (Some (gd_tf d)) = (d', g)"
      by (auto simp: flush_run_def open_klines_def split: prod.splits)
    note og = open_gap_ok [OF assms(1) o False assms(3,4)]
    from og(1,2,4) og(3) [of TRADES] og(5,6) show ?thesis by (simp add: same_trades_def same_setup_def same_flow_def)
  qed
  then show "books_ok d'" "owned d' KLINES = owned d KLINES \<union> set run" "same_trades d d'" "same_setup d d'" "adds d d'"
    "gd_k_lo d' = gd_k_lo d" "gd_k_closed d' = gd_k_closed d" "gd_latest d' = gd_latest d" by blast+
qed

lemma books_cong:
  assumes "books_ok d" and eqs: "gd_tf_ns d' = gd_tf_ns d" "gd_gaps d' = gd_gaps d" "gd_missing d' = gd_missing d" "gd_owner d' = gd_owner d"
    "gd_next_id d' = gd_next_id d"
  shows "books_ok d'"
  using assms(1) unfolding books_ok_def owned_def eqs .

definition swept :: "gap_detector \<Rightarrow> gap_detector \<Rightarrow> int \<Rightarrow> int set \<Rightarrow> int \<Rightarrow> bool" where
  "swept d d' f C m \<longleftrightarrow> books_ok d' \<and> same_trades d d' \<and> same_setup d d' \<and> adds d d' \<and> gd_latest d' = gd_latest d
     \<and> (\<exists>m' \<ge> m. minutes_at d' f C [] m')"

lemma swept_trans:
  "same_trades d d1 \<Longrightarrow> same_setup d d1 \<Longrightarrow> adds d d1 \<Longrightarrow> gd_latest d1 = gd_latest d \<Longrightarrow> m \<le> m1 \<Longrightarrow> swept d1 d' f C m1 \<Longrightarrow> swept d d' f C m"
  unfolding swept_def using same_trans adds_trans by (metis order_trans)

lemma sweep_stop:
  assumes "books_ok d" and "minutes_at d f C run m" and "flush_run ck d run = (d', gs)"
  shows "swept d d' f C m"
proof -
  from assms(2) have r: "distinct run" "set run \<inter> owned d KLINES = {}" by (simp_all add: minutes_at_def)
  note fr = flush_run_ok [OF assms(1,3) r]
  have "minutes_at d' f C [] m" using assms(2) fr(2,4,6,7) by (simp add: minutes_at_def same_setup_def)
  with fr show ?thesis by (auto simp: swept_def)
qed

lemma sweep_loop_ok:
  assumes "books_ok d" and "minutes_at d f C run m" and "sweep_loop n ck horizon m d run out = (d', gs)"
  shows "swept d d' f C m"
  using assms
proof (induction n arbitrary: m d run out)
  case 0
  from 0(3) obtain g' where "flush_run ck d run = (d', g')" by (auto split: prod.splits)
  with 0 show ?case by (blast intro: sweep_stop)
next
  case (Suc n)
  have tf: "0 < gd_tf_ns d" using Suc.prems(1) by (simp add: books_ok_def)
  have at: "gd_k_lo d = Some m" "f \<le> m" "gd_tf_ns d dvd m - f" "distinct run" "set run \<inter> owned d KLINES = {}"
    "owned d KLINES \<union> set run = lost_minutes (gd_tf_ns d) f C m" "\<forall>x \<ge> m. x \<in> set (gd_k_closed d) \<longleftrightarrow> x \<in> C"
    using Suc.prems(2) by (auto simp: minutes_at_def)
  have step: "f \<le> m + gd_tf_ns d" "gd_tf_ns d dvd m + gd_tf_ns d - f"
    using at(2,3) tf dvd_add [OF at(3) dvd_refl] by (simp_all add: algebra_simps)
  note lost = lost_minutes_next [OF tf at(2,3), of C]
  consider (stop) "\<not> m + gd_tf_ns d \<le> horizon" | (closed) "m + gd_tf_ns d \<le> horizon" "m \<in> set (gd_k_closed d)"
    | (missing) "m + gd_tf_ns d \<le> horizon" "m \<notin> set (gd_k_closed d)" by blast
  then show ?case
  proof cases
    case stop
    with Suc.prems(3) obtain g' where "flush_run ck d run = (d', g')" by (auto split: prod.splits)
    with Suc.prems show ?thesis by (blast intro: sweep_stop)
  next
    case closed
    let ?d0 = "d\<lparr>gd_k_closed := removeAll m (gd_k_closed d)\<rparr>"
    obtain d1 g1 where fr: "flush_run ck ?d0 run = (d1, g1)" by fastforce
    have b0: "books_ok ?d0" by (rule books_cong [OF Suc.prems(1)]) simp_all
    have o0: "owned ?d0 = owned d" by (simp add: owned_def fun_eq_iff)
    note f = flush_run_ok [OF b0 fr at(4)] at(5)
    let ?d2 = "settle d1 m"
    have o2: "owned ?d2 = owned d1" by (simp add: owned_def fun_eq_iff settle_def)
    have b2: "books_ok ?d2" by (rule books_cong [OF f(1)]) (simp_all add: settle_def o0 at(5))
    have tf1: "gd_tf_ns d1 = gd_tf_ns d" using f(4) at(5) by (simp add: o0 same_setup_def)
    have "m \<in> C" using at(7) closed(2) by blast
    then have "minutes_at ?d2 f C [] (m + gd_tf_ns d)"
      using f(2,7) at(5,6,7) step lost tf unfolding minutes_at_def o2 by (auto simp: o0 settle_def tf1)
    moreover have "sweep_loop n ck horizon (m + gd_tf_ns d) ?d2 [] (out @ g1) = (d', gs)" using Suc.prems(3) closed fr by simp
    ultimately have sw: "swept ?d2 d' f C (m + gd_tf_ns d)" by (intro Suc.IH [OF b2])
    have "same_trades d ?d2" "same_setup d ?d2" "adds d ?d2" "gd_latest ?d2 = gd_latest d"
      using f(3,4,5,8) at(5) unfolding same_trades_def o2 by (simp_all add: o0 settle_def same_setup_def adds_def)
    from swept_trans [OF this _ sw] tf show ?thesis by simp
  next
    case missing
    let ?d2 = "settle d m"
    have o2: "owned ?d2 = owned d" by (simp add: owned_def fun_eq_iff settle_def)
    have b2: "books_ok ?d2" by (rule books_cong [OF Suc.prems(1)]) (simp_all add: settle_def)
    have "m \<notin> C" using at(7) missing(2) by blast
    moreover have "m \<notin> lost_minutes (gd_tf_ns d) f C m" by (simp add: lost_minutes_def)
    ultimately have "minutes_at ?d2 f C (run @ [m]) (m + gd_tf_ns d)"
      using at step lost tf unfolding minutes_at_def o2 by (auto simp: settle_def)
    moreover have "sweep_loop n ck horizon (m + gd_tf_ns d) ?d2 (run @ [m]) out = (d', gs)" using Suc.prems(3) missing by simp
    ultimately have sw: "swept ?d2 d' f C (m + gd_tf_ns d)" by (intro Suc.IH [OF b2])
    have "same_trades d ?d2" "same_setup d ?d2" "adds d ?d2" "gd_latest ?d2 = gd_latest d"
      unfolding same_trades_def o2 by (simp_all add: settle_def same_setup_def adds_def)
    from swept_trans [OF this _ sw] tf show ?thesis by simp
  qed
qed

end
