(* ===== verification/GapRuns.thy ===== *)
theory GapRuns
  imports GapDetectorProps
begin

text \<open>
  Runs of the gap detector: what it reports lost is, after every sequence of events, exactly what was expected and never came.
\<close>

section \<open>Holes in the sequence of trades\<close>

abbreviation hole_keys :: "hole list \<Rightarrow> int list" where
  "hole_keys hs \<equiv> concat (map hl_missing hs)"

lemma in_holes_iff: "in_holes k hs \<longleftrightarrow> k \<in> set (hole_keys hs)"
  by (auto simp: in_holes_def)

lemma distinct_holes_Cons:
  "distinct (hole_keys (h # hs)) \<longleftrightarrow> distinct (hl_missing h) \<and> distinct (hole_keys hs) \<and> set (hl_missing h) \<inter> set (hole_keys hs) = {}"
  by simp

lemma held_ids_eq: "held_ids d = set (hole_keys (gd_pending d))"
  by (auto simp: held_ids_def in_holes_def)

lemma holes_ok_iff:
  "holes_ok d \<longleftrightarrow> distinct (hole_keys (gd_pending d)) \<and> (\<forall>h \<in> set (gd_pending d). hl_missing h \<noteq> []) \<and> held_ids d \<inter> owned d TRADES = {}"
  by (auto simp: holes_ok_def held_ids_def owned_def)

lemma confirm_loop_ok:
  assumes "books_ok d" and "confirm_loop ck force hs d = (d', gs)" and "gd_pending d = []"
    and "distinct (hole_keys hs)" "\<forall>h \<in> set hs. hl_missing h \<noteq> []" "set (hole_keys hs) \<inter> owned d TRADES = {}"
  shows "books_ok d' \<and> distinct (hole_keys (gd_pending d')) \<and> (\<forall>h \<in> set (gd_pending d'). hl_missing h \<noteq> []) \<and> held_ids d' \<inter> owned d' TRADES = {}
    \<and> owned d' TRADES \<union> held_ids d' = owned d TRADES \<union> set (hole_keys hs) \<and> held_ids d' \<subseteq> set (hole_keys hs) \<and> same_minutes d d' \<and> same_flow d d' \<and> adds d d'"
  using assms
proof (induction hs arbitrary: d d' gs)
  case Nil
  then show ?case by (auto simp: held_ids_eq same_minutes_def adds_def)
next
  case (Cons h hs)
  from Cons.prems(4-6) have h: "distinct (hl_missing h)" "distinct (hole_keys hs)" "set (hl_missing h) \<inter> set (hole_keys hs) = {}" "hl_missing h \<noteq> []"
    "\<forall>h \<in> set hs. hl_missing h \<noteq> []" "set (hl_missing h) \<inter> owned d TRADES = {}" "set (hole_keys hs) \<inter> owned d TRADES = {}" by auto
  show ?case
  proof (cases "confirms d force h")
    case True
    with Cons.prems(2) obtain d1 g gs1 where o: "open_gap ck d TRADES SEQ (hl_missing h) (hl_t_before h) (hl_t_after h)
        (Some (Min (set (hl_missing h)))) (Some (Max (set (hl_missing h)))) None = (d1, g)"
      and c: "confirm_loop ck force hs d1 = (d', gs1)" by (auto split: prod.splits)
    note og = open_gap_ok [OF Cons.prems(1) o h(4,1,6)]
    have p1: "gd_pending d1 = []" using og(6) Cons.prems(3) by simp
    have dj: "set (hole_keys hs) \<inter> owned d1 TRADES = {}" unfolding og(2) using h(3,7) by blast
    note ih = Cons.IH [OF og(1) c p1 h(2,5) dj]
    have m1: "same_minutes d d1" using og(5) og(3) [of KLINES] by (simp add: same_minutes_def same_flow_def)
    have "owned d' TRADES \<union> held_ids d' = owned d TRADES \<union> set (hole_keys (h # hs))" using ih unfolding og(2) by auto
    moreover have "held_ids d' \<subseteq> set (hole_keys (h # hs))" using ih by auto
    ultimately show ?thesis using ih same_trans(3) [OF m1] same_flow_trans [OF og(5)] adds_trans [OF og(4)] by blast
  next
    case False
    with Cons.prems(2) obtain d2 where c: "confirm_loop ck force hs d = (d2, gs)" and d': "d' = d2\<lparr>gd_pending := h # gd_pending d2\<rparr>"
      by (auto split: prod.splits)
    note ih = Cons.IH [OF Cons.prems(1) c Cons.prems(3) h(2,5,7)]
    have p': "gd_pending d' = h # gd_pending d2" by (simp add: d')
    have o': "owned d' = owned d2" by (simp add: d' owned_def fun_eq_iff)
    have hd': "held_ids d' = set (hl_missing h) \<union> held_ids d2" by (simp add: d' held_ids_eq)
    have "books_ok d'" by (rule books_cong [of d2]) (use ih in \<open>simp_all add: d'\<close>)
    moreover have "set (hl_missing h) \<inter> set (hole_keys (gd_pending d2)) = {}" using ih h(3) unfolding held_ids_eq by blast
    then have "distinct (hole_keys (gd_pending d'))" using ih h(1) unfolding p' distinct_holes_Cons by blast
    moreover have "\<forall>h \<in> set (gd_pending d'). hl_missing h \<noteq> []" using ih h(4) by (simp add: d')
    moreover have "set (hl_missing h) \<inter> owned d2 TRADES = {}"
      using ih h(3,6) by blast
    then have "held_ids d' \<inter> owned d' TRADES = {}" unfolding o' hd' using ih by blast
    moreover have "owned d' TRADES \<union> held_ids d' = owned d TRADES \<union> set (hole_keys (h # hs))" unfolding o' hd' using ih by auto
    moreover have "held_ids d' \<subseteq> set (hole_keys (h # hs))" unfolding hd' using ih by auto
    moreover have "same_minutes d d' \<and> same_flow d d' \<and> adds d d'" using ih unfolding same_minutes_def o' by (simp add: d' same_flow_def adds_def)
    ultimately show ?thesis by blast
  qed
qed

text \<open>The trades seen so far (\<open>ids\<close>, in the order of arrival) and the books agree.\<close>

definition trades_at :: "gap_detector \<Rightarrow> int list \<Rightarrow> bool" where
  "trades_at d ids \<longleftrightarrow> holes_ok d \<and> gd_t_max d = (if ids = [] then None else Some (Max (set ids)))
     \<and> owned d TRADES \<union> held_ids d = (if ids = [] then {} else {hd ids..Max (set ids)} - set ids)"

lemma confirm_holes_ok:
  assumes "books_ok d" and "trades_at d ids" and "confirm_holes ck d force = (d', gs)"
  shows "books_ok d'" and "trades_at d' ids" and "same_minutes d d'" and "same_flow d d'" and "adds d d'"
proof -
  let ?d0 = "d\<lparr>gd_pending := []\<rparr>"
  have o0: "owned ?d0 = owned d" by (simp add: owned_def fun_eq_iff)
  have b0: "books_ok ?d0" by (rule books_cong [OF assms(1)]) simp_all
  have t: "distinct (hole_keys (gd_pending d))" "\<forall>h \<in> set (gd_pending d). hl_missing h \<noteq> []" "set (hole_keys (gd_pending d)) \<inter> owned ?d0 TRADES = {}"
    using assms(2) by (simp_all add: trades_at_def holes_ok_iff held_ids_eq o0)
  have c: "confirm_loop ck force (gd_pending d) ?d0 = (d', gs)" using assms(3) by (simp add: confirm_holes_def)
  note k = confirm_loop_ok [OF b0 c _ t]
  from k show "books_ok d'" by simp
  show "same_minutes d d'" "same_flow d d'" "adds d d'" using k unfolding same_minutes_def o0 by (simp_all add: same_flow_def adds_def)
  then show "trades_at d' ids" using k assms(2) unfolding trades_at_def holes_ok_iff o0 held_ids_eq [of d] by (simp add: same_flow_def)
qed

lemma heal_ok:
  assumes "a \<in> set (hole_keys hs)" and "distinct (hole_keys hs)" and "\<forall>h \<in> set hs. hl_missing h \<noteq> []"
  shows "set (hole_keys (heal a hs)) = set (hole_keys hs) - {a} \<and> distinct (hole_keys (heal a hs)) \<and> (\<forall>h \<in> set (heal a hs). hl_missing h \<noteq> [])"
  using assms
proof (induction hs)
  case (Cons h hs)
  show ?case
  proof (cases "a \<in> set (hl_missing h)")
    case True
    with Cons.prems(2) have na: "a \<notin> set (hole_keys hs)" by auto
    have e: "set (hole_keys (heal a (h # hs))) = set (hole_keys (h # hs)) - {a}"
    proof (cases "removeAll a (hl_missing h) = []")
      case e: True
      then have "set (hl_missing h) \<subseteq> {a}" by (metis set_removeAll set_empty Diff_eq_empty_iff)
      with True na e show ?thesis by auto
    qed (use True na in \<open>auto simp: Let_def\<close>)
    then show ?thesis using True Cons.prems by (auto simp: Let_def distinct_removeAll)
  qed (use Cons in auto)
qed simp


lemma take_trade_ok:
  assumes ok: "books_ok d" and at: "trades_at d ids"
  shows "\<exists>d' gs. take_trade ck d t = Inr (d', gs) \<and> books_ok d' \<and> trades_at d' (ids @ [td_agg_id t]) \<and> same_minutes d d' \<and> same_setup d d'
    \<and> gd_latest d' = gd_latest d \<and> lifecycle d d'"
proof -
  let ?a = "td_agg_id t"
  have keep: "books_ok d'" "owned d' = owned d" "lifecycle d d'" if "gd_tf_ns d' = gd_tf_ns d" "gd_gaps d' = gd_gaps d" "gd_missing d' = gd_missing d"
    "gd_owner d' = gd_owner d" "gd_next_id d' = gd_next_id d" for d'
    using books_cong [OF ok that] that by (auto simp: owned_def fun_eq_iff lifecycle_def)
  show ?thesis
  proof (cases "ids = []")
    case True
    let ?d' = "d\<lparr>gd_t_max := Some ?a, gd_t_max_ts := td_ts_event_ns t\<rparr>"
    have "take_trade ck d t = Inr (?d', [])" using at True by (simp add: take_trade_def trades_at_def)
    moreover note k = keep [of ?d']
    moreover have "gd_pending d = []" using at True by (cases "gd_pending d") (auto simp: trades_at_def holes_ok_iff held_ids_eq)
    then have "trades_at ?d' (ids @ [?a])" using at True k(2) by (simp add: trades_at_def holes_ok_iff held_ids_eq)
    ultimately show ?thesis by (intro exI conjI) (simp_all add: same_minutes_def same_setup_def)
  next
    case False
    let ?M = "Max (set ids)"
    have M: "gd_t_max d = Some ?M" "holes_ok d" "owned d TRADES \<union> held_ids d = {hd ids..?M} - set ids"
      using at False by (simp_all add: trades_at_def)
    have Ma: "Max (set (ids @ [?a])) = max ?M ?a" using False by (simp add: Max.union max.commute)
    have le: "hd ids \<le> ?M" "\<And>i. i \<in> set ids \<Longrightarrow> i \<le> ?M" using False by simp_all
    consider (up) "?M < ?a" | (held) "?a < ?M" "in_holes ?a (gd_pending d)" | (late) "?a < ?M" "\<not> in_holes ?a (gd_pending d)" | (same) "?a = ?M" by linarith
    then show ?thesis
    proof cases
      case up
      let ?d0 = "if ?M + 1 < ?a then d\<lparr>gd_pending := gd_pending d @ [new_hole d ?M t]\<rparr> else d"
      let ?d' = "?d0\<lparr>gd_t_max := Some ?a, gd_t_max_ts := td_ts_event_ns t\<rparr>"
      have "take_trade ck d t = Inr (?d', [])" using M(1) up by (simp add: take_trade_def Let_def)
      moreover have "books_ok ?d'" "lifecycle d ?d'" "same_minutes d ?d'" by ((rule keep; simp)+, simp add: same_minutes_def owned_def)
      moreover have "trades_at ?d' (ids @ [?a])"
      proof -
      have hd': "held_ids ?d' = held_ids d \<union> {?M + 1..?a - 1}" using up by (auto simp: held_ids_eq new_hole_def)
      have o': "owned ?d' = owned d" by (rule keep(2)) simp_all
      have "holes_ok ?d'"
      proof -
        have held: "held_ids d \<subseteq> {..?M}" "owned d TRADES \<subseteq> {..?M}" using M(3) by auto
        have p': "gd_pending ?d' = gd_pending d @ (if ?M + 1 < ?a then [new_hole d ?M t] else [])" by simp
        have "distinct (hl_missing (new_hole d ?M t))" "set (hl_missing (new_hole d ?M t)) = {?M + 1..?a - 1}" by (simp_all add: new_hole_def)
        moreover have "distinct (hole_keys (gd_pending d))" "set (hole_keys (gd_pending d)) \<inter> {?M + 1..?a - 1} = {}"
          using M(2) held(1) unfolding holes_ok_iff held_ids_eq by (blast, force)
        ultimately have "distinct (hole_keys (gd_pending ?d'))" unfolding p' by (cases "?M + 1 < ?a") (simp_all del: set_concat)
        moreover have "\<forall>h \<in> set (gd_pending ?d'). hl_missing h \<noteq> []" using M(2) by (auto simp: holes_ok_iff new_hole_def)
        moreover have "held_ids ?d' \<inter> owned d TRADES = {}" using M(2) held(2) unfolding hd' holes_ok_iff by force
        ultimately show ?thesis unfolding holes_ok_iff o' by blast
      qed
      moreover have "owned d TRADES \<union> held_ids ?d' = {hd ids..?a} - set (ids @ [?a])"
      proof -
        have "owned d TRADES \<union> held_ids ?d' = ({hd ids..?M} - set ids) \<union> {?M + 1..?a - 1}" unfolding hd' using M(3) by blast
        also have "\<dots> = {hd ids..?a} - set (ids @ [?a])" using le up by (auto dest: le(2))
        finally show ?thesis .
      qed
      ultimately show ?thesis using False up Ma unfolding trades_at_def o' by simp
      qed
      ultimately show ?thesis by (intro exI conjI) (simp_all add: same_minutes_def same_setup_def)
    next
      case held
      let ?d' = "count_healed d ?a"
      have "take_trade ck d t = Inr (?d', [])" using M(1) held by (simp add: take_trade_def Let_def)
      moreover have k: "books_ok ?d'" "owned ?d' = owned d" "lifecycle d ?d'" by (rule keep; simp add: count_healed_def Let_def)+
      moreover have "trades_at ?d' (ids @ [?a])"
      proof -
      have hh: "?a \<in> set (hole_keys (gd_pending d))" "distinct (hole_keys (gd_pending d))" "\<forall>h \<in> set (gd_pending d). hl_missing h \<noteq> []"
        using M(2) held(2) unfolding in_holes_iff holes_ok_iff by blast+
      note hl = heal_ok [OF hh, folded held_ids_eq]
      have p': "gd_pending ?d' = heal ?a (gd_pending d)" by (simp add: count_healed_def Let_def)
      have hd': "held_ids ?d' = held_ids d - {?a}" unfolding held_ids_eq [of ?d'] p' using hl by blast
      have "?a \<notin> owned d TRADES" using M(2) held(2) unfolding holes_ok_iff held_ids_eq in_holes_iff by blast
      then have "owned d TRADES \<union> held_ids ?d' = {hd ids..?M} - set (ids @ [?a])" unfolding hd' using M(3) by auto
      moreover have "holes_ok ?d'" using hl M(2) unfolding holes_ok_iff hd' k(2) by (simp add: count_healed_def Let_def) blast
      ultimately show ?thesis using False held(1) Ma M(1) unfolding trades_at_def k(2)
        by (simp add: count_healed_def Let_def)
      qed
      ultimately show ?thesis by (intro exI conjI) (simp_all add: same_minutes_def same_setup_def count_healed_def Let_def)
    next
      case late
      from fill_key_ok [OF ok, of ck TRADES ?a] obtain d1 ch where f: "fill_key ck d TRADES ?a = Inr (d1, ?a \<in> owned d TRADES, ch)" "books_ok d1"
        "owned d1 TRADES = owned d TRADES - {?a}" "\<forall>s. s \<noteq> TRADES \<longrightarrow> owned d1 s = owned d s" "lifecycle d d1" "same_flow d d1" "gd_pending d1 = gd_pending d"
        by (elim exE conjE)
      let ?d' = "if ?a \<in> owned d TRADES then d1 else duplicate_trade d1"
      have "take_trade ck d t = Inr (?d', ch)" using M(1) late f(1) by (simp add: take_trade_def Let_def)
      moreover have e: "books_ok ?d'" "owned ?d' = owned d1" "gd_gaps ?d' = gd_gaps d1" "gd_pending ?d' = gd_pending d" "same_flow d ?d'"
        using books_cong [OF f(2), of "duplicate_trade d1"] f(2,6,7) by (auto simp: duplicate_trade_def owned_def fun_eq_iff same_flow_def)
      moreover have "trades_at ?d' (ids @ [?a])"
      proof -
      have h': "held_ids ?d' = held_ids d" "?a \<notin> held_ids d" using e(4) late(2) by (simp_all add: held_ids_eq in_holes_iff)
      have "owned d1 TRADES \<union> held_ids ?d' = {hd ids..?M} - set (ids @ [?a])" unfolding h' f(3) using M(3) h'(2) by auto
      moreover have "holes_ok ?d'" using M(2) unfolding holes_ok_iff h' e(2,4) f(3) by blast
      ultimately show ?thesis using False late(1) Ma M(1) e(5) unfolding trades_at_def e(2) by (simp add: same_flow_def)
      qed
      moreover have "lifecycle d ?d'" using f(5) e(3) by (simp add: lifecycle_def)
      moreover have "same_minutes d ?d'" using e(2,5) f(4) by (simp add: same_minutes_def same_flow_def)
      ultimately show ?thesis by (intro exI conjI) (simp_all add: same_flow_def same_setup_def)
    next
      case same
      let ?d' = "duplicate_trade d"
      have "take_trade ck d t = Inr (?d', [])" using M(1) same by (simp add: take_trade_def Let_def)
      moreover have k: "books_ok ?d'" "owned ?d' = owned d" "lifecycle d ?d'" by (rule keep; simp add: duplicate_trade_def)+
      moreover have "?a \<in> set ids" using same False by simp
      then have "trades_at ?d' (ids @ [?a])" using at False same k(2) by (simp add: trades_at_def holes_ok_iff held_ids_eq duplicate_trade_def insert_absorb)
      ultimately show ?thesis by (intro exI conjI) (simp_all add: same_minutes_def same_setup_def duplicate_trade_def)
    qed
  qed
qed


section \<open>Minutes\<close>

text \<open>The minutes seen so far: \<open>f\<close> is the first, \<open>C\<close> are the closed ones; before the first one nothing is expected.\<close>

definition sweeps_at :: "gap_detector \<Rightarrow> int option \<Rightarrow> int set \<Rightarrow> bool" where
  "sweeps_at d first C \<longleftrightarrow> (case first of
     None \<Rightarrow> gd_k_lo d = None \<and> owned d KLINES = {} \<and> gd_k_closed d = [] \<and> C = {}
   | Some f \<Rightarrow> \<exists>m. minutes_at d f C [] m)"

lemma sweeps_at_cong:
  assumes "sweeps_at d first C" and "same_minutes d d'" and "gd_tf_ns d' = gd_tf_ns d"
  shows "sweeps_at d' first C"
  using assms by (auto simp: sweeps_at_def minutes_at_def same_minutes_def split: option.splits)

lemma sweep_klines_ok:
  assumes "books_ok d" and "sweeps_at d first C" and "sweep_klines ck d = (d', gs)"
  shows "books_ok d'" and "sweeps_at d' first C" and "same_trades d d'" and "same_setup d d'" and "adds d d'" and "gd_latest d' = gd_latest d"
proof -
  have "books_ok d' \<and> sweeps_at d' first C \<and> same_trades d d' \<and> same_setup d d' \<and> adds d d' \<and> gd_latest d' = gd_latest d"
  proof (cases "first = None \<or> gd_latest d = None")
    case True
    then have "d' = d" using assms(2,3) by (auto simp: sweep_klines_def sweeps_at_def split: option.splits)
    then show ?thesis using assms(1,2) by (simp add: same_trades_def same_setup_def adds_def)
  next
    case False
    then obtain f l m where fl: "first = Some f" "gd_latest d = Some l" "minutes_at d f C [] m" using assms(2) by (auto simp: sweeps_at_def)
    then have "gd_k_lo d = Some m" by (simp add: minutes_at_def)
    then have "sweep_loop (sweep_fuel (gd_tf_ns d) (l - gd_grace_ns d) m) ck (l - gd_grace_ns d) m d [] [] = (d', gs)"
      using assms(3) fl by (simp add: sweep_klines_def Let_def)
    from sweep_loop_ok [OF assms(1) fl(3) this] show ?thesis using fl(1) by (auto simp: swept_def sweeps_at_def)
  qed
  then show "books_ok d'" "sweeps_at d' first C" "same_trades d d'" "same_setup d d'" "adds d d'" "gd_latest d' = gd_latest d" by blast+
qed

text \<open>The fuel of the sweep is enough: no minute is left that the horizon has passed.\<close>

lemma flush_run_lo: "flush_run ck d run = (d', gs) \<Longrightarrow> gd_k_lo d' = gd_k_lo d \<and> gd_tf_ns d' = gd_tf_ns d"
  by (auto simp: flush_run_def open_klines_def open_gap_def Let_def split: if_splits)

lemma sweep_loop_exhausts:
  assumes "0 < gd_tf_ns d" and "gd_k_lo d = Some m" and "sweep_fuel (gd_tf_ns d) horizon m \<le> n"
    and "sweep_loop n ck horizon m d run out = (d', gs)"
  shows "\<exists>m'. gd_k_lo d' = Some m' \<and> horizon < m' + gd_tf_ns d"
  using assms
proof (induction n arbitrary: m d run out)
  case 0
  then show ?case by (simp add: sweep_fuel_def)
next
  case (Suc n)
  show ?case
  proof (cases "m + gd_tf_ns d \<le> horizon")
    case False
    then show ?thesis using Suc.prems(2,4) flush_run_lo [of ck d run] by (auto split: prod.splits)
  next
    case True
    have "(horizon - (m + gd_tf_ns d)) div gd_tf_ns d = (horizon - m) div gd_tf_ns d - 1" "0 \<le> (horizon - m) div gd_tf_ns d - 1"
      using True Suc.prems(1) div_add_self2 [of "gd_tf_ns d" "horizon - m - gd_tf_ns d"] pos_imp_zdiv_nonneg_iff [of "gd_tf_ns d" "horizon - m - gd_tf_ns d"]
      by (simp_all add: algebra_simps)
    then have fuel: "sweep_fuel (gd_tf_ns d) horizon (m + gd_tf_ns d) \<le> n" using Suc.prems(3) by (simp add: sweep_fuel_def)
    show ?thesis
    proof (cases "m \<in> set (gd_k_closed d)")
      case False
      then have "sweep_loop n ck horizon (m + gd_tf_ns d) (settle d m) (run @ [m]) out = (d', gs)" using True Suc.prems(4) by simp
      from Suc.IH [OF _ _ _ this] show ?thesis using Suc.prems(1) fuel by (simp add: settle_def)
    next
      case c: True
      obtain d1 g1 where fr: "flush_run ck (d\<lparr>gd_k_closed := removeAll m (gd_k_closed d)\<rparr>) run = (d1, g1)" by fastforce
      then have "sweep_loop n ck horizon (m + gd_tf_ns d) (settle d1 m) [] (out @ g1) = (d', gs)" using True c Suc.prems(4) by simp
      from Suc.IH [OF _ _ _ this] show ?thesis using Suc.prems(1) fuel flush_run_lo [OF fr] by (simp add: settle_def)
    qed
  qed
qed

lemma take_kline_ok:
  assumes ok: "books_ok d" and at: "sweeps_at d first C"
  shows "\<exists>d' gs. take_kline ck d c = Inr (d', gs) \<and> books_ok d'
    \<and> sweeps_at d' (Some (case first of None \<Rightarrow> cd_open_time_ns c | Some f \<Rightarrow> f)) (if cd_is_closed c then insert (cd_open_time_ns c) C else C)
    \<and> same_trades d d' \<and> same_setup d d' \<and> gd_latest d' = gd_latest d \<and> lifecycle d d'
    \<and> gd_k_lo d' = Some (case gd_k_lo d of None \<Rightarrow> cd_open_time_ns c | Some k \<Rightarrow> k)"
proof -
  let ?m = "cd_open_time_ns c"
  let ?f = "case first of None \<Rightarrow> ?m | Some f \<Rightarrow> f"
  let ?C = "if cd_is_closed c then insert ?m C else C"
  have tf: "0 < gd_tf_ns d" using ok by (simp add: books_ok_def)
  obtain lo where lo: "lo = (case gd_k_lo d of None \<Rightarrow> ?m | Some k \<Rightarrow> k)" by simp
  let ?d = "d\<lparr>gd_k_lo := Some lo\<rparr>"
  have at': "minutes_at ?d ?f C [] lo"
    using at lo by (auto simp: sweeps_at_def minutes_at_def owned_def lost_minutes_def split: option.splits)
  then have m: "?f \<le> lo" "gd_tf_ns d dvd lo - ?f" "owned d KLINES = lost_minutes (gd_tf_ns d) ?f C lo" "\<forall>x \<ge> lo. x \<in> set (gd_k_closed d) \<longleftrightarrow> x \<in> C"
    by (auto simp: minutes_at_def owned_def)
  have b: "books_ok ?d" by (rule books_cong [OF ok]) simp_all
  have o: "owned ?d = owned d" by (simp add: owned_def fun_eq_iff)
  show ?thesis
  proof (cases "?m < lo \<and> cd_is_closed c")
    case True
    from fill_key_ok [OF b, of ck KLINES ?m] obtain d1 ch where f: "fill_key ck ?d KLINES ?m = Inr (d1, ?m \<in> owned ?d KLINES, ch)" "books_ok d1"
      "owned d1 KLINES = owned ?d KLINES - {?m}" "\<forall>s. s \<noteq> KLINES \<longrightarrow> owned d1 s = owned ?d s" "lifecycle ?d d1" "same_flow ?d d1" "gd_pending d1 = gd_pending ?d"
      by (elim exE conjE)
    obtain d' where d': "d' = (if ?m \<in> owned ?d KLINES then d1 else d1\<lparr>gd_stats := (gd_stats d1)\<lparr>gst_stale_klines := gst_stale_klines (gd_stats d1) + 1\<rparr>\<rparr>)" by simp
    have e: "books_ok d'" "owned d' = owned d1" "gd_gaps d' = gd_gaps d1" "gd_pending d' = gd_pending d" "same_flow ?d d'"
      using books_cong [OF f(2), of d'] f(2,6,7) by (auto simp: d' owned_def fun_eq_iff same_flow_def)
    have "take_kline ck d c = Inr (d', ch)" using True f(1) unfolding d' take_kline_def Let_def lo [symmetric] by simp
    moreover have "minutes_at d' ?f ?C [] lo"
    proof -
      have "owned d1 KLINES = lost_minutes (gd_tf_ns d) ?f ?C lo" unfolding f(3) o m(3) using True by (auto simp: lost_minutes_def)
      then show ?thesis using m(1,2,4) True e(5) unfolding minutes_at_def e(2) by (simp add: same_flow_def)
    qed
    then have "sweeps_at d' (Some ?f) ?C" by (auto simp: sweeps_at_def)
    moreover have "same_trades d d' \<and> same_setup d d' \<and> gd_latest d' = gd_latest d"
      using e(5) f(4) unfolding same_trades_def e(2,4) o by (simp add: same_flow_def same_setup_def)
    moreover have "lifecycle d d'" using f(5) e(3) by (simp add: lifecycle_def)
    moreover have "gd_k_lo d' = Some lo" using e(5) by (simp add: same_flow_def)
    ultimately show ?thesis using e(1) unfolding lo by blast
  next
    case False
    let ?d' = "if ?m < lo then ?d\<lparr>gd_stats := (gd_stats d)\<lparr>gst_stale_klines := gst_stale_klines (gd_stats d) + 1\<rparr>\<rparr>
      else if cd_is_closed c then ?d\<lparr>gd_k_closed := (if ?m \<in> set (gd_k_closed d) then gd_k_closed d else ?m # gd_k_closed d)\<rparr> else ?d"
    have "take_kline ck d c = Inr (?d', [])" using False unfolding take_kline_def Let_def lo [symmetric] by simp
    moreover have e: "books_ok ?d'" "owned ?d' = owned d" "lifecycle d ?d'" "same_setup d ?d'" "gd_latest ?d' = gd_latest d" "gd_pending ?d' = gd_pending d" "gd_t_max ?d' = gd_t_max d"
      using books_cong [OF b, of ?d'] by (auto simp: owned_def fun_eq_iff lifecycle_def same_setup_def)
    moreover have "minutes_at ?d' ?f ?C [] lo"
    proof -
      have "lost_minutes (gd_tf_ns d) ?f ?C lo = lost_minutes (gd_tf_ns d) ?f C lo" using False by (auto simp: lost_minutes_def)
      then show ?thesis using m False unfolding minutes_at_def e(2) by (auto simp: o)
    qed
    then have "sweeps_at ?d' (Some ?f) ?C" by (auto simp: sweeps_at_def)
    moreover have "same_trades d ?d'" using e by (simp add: same_trades_def)
    moreover have "gd_k_lo ?d' = Some lo" by simp
    ultimately show ?thesis unfolding lo by blast
  qed
qed


section \<open>One event\<close>

text \<open>The minutes are settled up to the exchange time less the grace, and never further.\<close>

definition timed :: "gap_detector \<Rightarrow> int option \<Rightarrow> bool" where
  "timed d first \<longleftrightarrow> gd_k_lo d = first \<or> (\<exists>m l. gd_k_lo d = Some m \<and> gd_latest d = Some l \<and> m \<le> l - gd_grace_ns d)"

definition exhausted :: "gap_detector \<Rightarrow> bool" where
  "exhausted d \<longleftrightarrow> (\<forall>m l. gd_k_lo d = Some m \<longrightarrow> gd_latest d = Some l \<longrightarrow> l - gd_grace_ns d < m + gd_tf_ns d)"

definition at_events :: "gap_detector \<Rightarrow> gap_detector \<Rightarrow> int list \<Rightarrow> int option \<Rightarrow> int set \<Rightarrow> int option \<Rightarrow> bool" where
  "at_events d0 d ids first C lat \<longleftrightarrow> same_setup d0 d \<and> gd_latest d = lat \<and> books_ok d \<and> trades_at d ids \<and> sweeps_at d first C \<and> timed d first"

definition later :: "int option \<Rightarrow> int \<Rightarrow> int option" where
  "later lat ts = Some (case lat of None \<Rightarrow> ts | Some l \<Rightarrow> max l ts)"

lemma trades_at_cong:
  "trades_at d ids \<Longrightarrow> gd_t_max d' = gd_t_max d \<Longrightarrow> gd_pending d' = gd_pending d \<Longrightarrow> owned d' TRADES = owned d TRADES \<Longrightarrow> trades_at d' ids"
  by (simp add: trades_at_def holes_ok_iff held_ids_eq)

lemma sweep_klines_to:
  assumes "0 < gd_tf_ns d" and "sweep_klines ck d = (d', gs)" and "gd_k_lo d = Some m" "gd_latest d = Some l"
  shows "\<exists>m'. gd_k_lo d' = Some m' \<and> l - gd_grace_ns d < m' + gd_tf_ns d \<and> (m' = m \<or> m' \<le> l - gd_grace_ns d)"
proof -
  let ?h = "l - gd_grace_ns d"
  have s: "sweep_loop (sweep_fuel (gd_tf_ns d) ?h m) ck ?h m d [] [] = (d', gs)" using assms by (simp add: sweep_klines_def Let_def)
  have "gd_k_lo d' = Some m' \<Longrightarrow> m' = m \<or> m' \<le> h" if "sweep_loop n ck h m d run out = (d', gs)" "gd_k_lo d = Some m" for n h m d run out m'
    using that
  proof (induction n arbitrary: m d run out)
    case 0
    then show ?case by (auto dest: flush_run_lo split: prod.splits)
  next
    case (Suc n)
    obtain d1 g1 where fr: "flush_run ck (d\<lparr>gd_k_closed := removeAll m (gd_k_closed d)\<rparr>) run = (d1, g1)" by fastforce
    note lo = flush_run_lo [OF fr]
    consider "\<not> m + gd_tf_ns d \<le> h" | "m + gd_tf_ns d \<le> h" "m \<in> set (gd_k_closed d)" | "m + gd_tf_ns d \<le> h" "m \<notin> set (gd_k_closed d)" by blast
    then show ?case
    proof cases
      case 1
      then show ?thesis using Suc.prems by (auto dest: flush_run_lo split: prod.splits)
    next
      case 2
      have "gd_k_lo (settle d1 m) = Some (m + gd_tf_ns d)" using lo by (simp add: settle_def)
      moreover have "sweep_loop n ck h (m + gd_tf_ns d) (settle d1 m) [] (out @ g1) = (d', gs)" using Suc.prems(2) 2 fr by simp
      ultimately have "m' = m + gd_tf_ns d \<or> m' \<le> h" using Suc.IH Suc.prems(1) by blast
      then show ?thesis using 2(1) by auto
    next
      case 3
      have "gd_k_lo (settle d m) = Some (m + gd_tf_ns d)" by (simp add: settle_def)
      moreover have "sweep_loop n ck h (m + gd_tf_ns d) (settle d m) (run @ [m]) out = (d', gs)" using Suc.prems(2) 3 by simp
      ultimately have "m' = m + gd_tf_ns d \<or> m' \<le> h" using Suc.IH Suc.prems(1) by blast
      then show ?thesis using 3(1) by auto
    qed
  qed
  from this [OF s assms(3)] sweep_loop_exhausts [OF assms(1,3) order_refl s] show ?thesis by blast
qed

lemma advance_step:
  assumes "at_events d0 d ids first C lat"
  shows "at_events d0 (advance d ts) ids first C (later lat ts)" and "gd_gaps (advance d ts) = gd_gaps d"
proof -
  have a: "advance d ts = d\<lparr>gd_latest := later (gd_latest d) ts\<rparr>" by (cases d; cases "gd_latest d") (auto simp: advance_def later_def)
  let ?d' = "d\<lparr>gd_latest := later (gd_latest d) ts\<rparr>"
  have o: "owned ?d' = owned d" by (simp add: owned_def fun_eq_iff)
  have e: "same_setup d0 d" "gd_latest d = lat" "books_ok d" "trades_at d ids" "sweeps_at d first C" "timed d first" using assms by (simp_all add: at_events_def)
  have "books_ok ?d'" by (rule books_cong [OF e(3)]) simp_all
  moreover have "trades_at ?d' ids" by (rule trades_at_cong [OF e(4)]) (simp_all add: o)
  moreover have "sweeps_at ?d' first C" by (rule sweeps_at_cong [OF e(5)]) (simp_all add: o same_minutes_def)
  moreover have "timed ?d' first" using e(6) by (auto simp: timed_def later_def)
  moreover have "same_setup d0 ?d'" using e(1) by (simp add: same_setup_def)
  ultimately show "at_events d0 (advance d ts) ids first C (later lat ts)" unfolding a at_events_def using e(2) by simp
  show "gd_gaps (advance d ts) = gd_gaps d" unfolding a by simp
qed

lemma confirm_step:
  assumes "at_events d0 d ids first C lat" and "confirm_holes ck d force = (d', gs)"
  shows "at_events d0 d' ids first C lat" and "adds d d'" and "exhausted d \<Longrightarrow> exhausted d'"
proof -
  have e: "same_setup d0 d" "gd_latest d = lat" "books_ok d" "trades_at d ids" "sweeps_at d first C" "timed d first" using assms(1) by (simp_all add: at_events_def)
  note c = confirm_holes_ok [OF e(3,4) assms(2)]
  have fl: "gd_tf_ns d' = gd_tf_ns d" "gd_k_lo d' = gd_k_lo d" "gd_latest d' = gd_latest d" "gd_grace_ns d' = gd_grace_ns d" "same_setup d d'"
    using c(4) by (simp_all add: same_flow_def same_setup_def)
  show "at_events d0 d' ids first C lat" unfolding at_events_def
    using c(1,2) same_trans(1) [OF e(1) fl(5)] sweeps_at_cong [OF e(5) c(3) fl(1)] e(2,6) by (simp add: fl timed_def)
  show "adds d d'" by (rule c)
  show "exhausted d \<Longrightarrow> exhausted d'" by (simp add: exhausted_def fl)
qed

lemma sweep_step:
  assumes "at_events d0 d ids first C lat" and "sweep_klines ck d = (d', gs)"
  shows "at_events d0 d' ids first C lat" and "adds d d'" and "exhausted d'"
proof -
  have e: "same_setup d0 d" "gd_latest d = lat" "books_ok d" "trades_at d ids" "sweeps_at d first C" "timed d first" using assms(1) by (simp_all add: at_events_def)
  note k = sweep_klines_ok [OF e(3,5) assms(2)]
  have tf: "0 < gd_tf_ns d" using e(3) by (simp add: books_ok_def)
  have su: "gd_tf_ns d' = gd_tf_ns d" "gd_grace_ns d' = gd_grace_ns d" using k(4) by (simp_all add: same_setup_def)
  have ex: "exhausted d' \<and> timed d' first"
  proof (cases "gd_k_lo d = None \<or> gd_latest d = None")
    case True
    then have "d' = d" using assms(2) by (auto simp: sweep_klines_def split: option.splits)
    with True e(6) show ?thesis by (auto simp: exhausted_def)
  next
    case False
    then obtain m l where ml: "gd_k_lo d = Some m" "gd_latest d = Some l" by auto
    from sweep_klines_to [OF tf assms(2) ml] obtain m' where m': "gd_k_lo d' = Some m'" "l - gd_grace_ns d < m' + gd_tf_ns d" "m' = m \<or> m' \<le> l - gd_grace_ns d" by blast
    then show ?thesis using e(6) ml k(6) su by (auto simp: exhausted_def timed_def)
  qed
  have "trades_at d' ids" using trades_at_cong [OF e(4)] k(3) by (simp add: same_trades_def)
  then show "at_events d0 d' ids first C lat" unfolding at_events_def using k(1,2,6) ex same_trans(1) [OF e(1) k(4)] e(2) by simp
  show "adds d d'" "exhausted d'" using k(5) ex by blast+
qed

lemma trade_step:
  assumes "at_events d0 d ids first C lat"
  shows "\<exists>d' gs. take_trade ck d t = Inr (d', gs) \<and> at_events d0 d' (ids @ [td_agg_id t]) first C lat \<and> lifecycle d d'"
proof -
  have e: "same_setup d0 d" "gd_latest d = lat" "books_ok d" "trades_at d ids" "sweeps_at d first C" "timed d first" using assms by (simp_all add: at_events_def)
  from take_trade_ok [OF e(3,4), of ck t] obtain d' gs where t: "take_trade ck d t = Inr (d', gs)" "books_ok d'" "trades_at d' (ids @ [td_agg_id t])"
    "same_minutes d d'" "same_setup d d'" "gd_latest d' = gd_latest d" "lifecycle d d'" by (elim exE conjE)
  have "gd_tf_ns d' = gd_tf_ns d" "timed d' first" using t(4-6) e(6) by (simp_all add: same_setup_def same_minutes_def timed_def)
  then have "at_events d0 d' (ids @ [td_agg_id t]) first C lat"
    using t(2,3,6) same_trans(1) [OF e(1) t(5)] sweeps_at_cong [OF e(5) t(4)] e(2) by (simp add: at_events_def)
  then show ?thesis using t(1,7) by blast
qed

lemma kline_step:
  assumes "at_events d0 d ids first C lat"
  shows "\<exists>d' gs. take_kline ck d c = Inr (d', gs) \<and> at_events d0 d' ids (Some (case first of None \<Rightarrow> cd_open_time_ns c | Some f \<Rightarrow> f))
    (if cd_is_closed c then insert (cd_open_time_ns c) C else C) lat \<and> lifecycle d d'"
proof -
  have e: "same_setup d0 d" "gd_latest d = lat" "books_ok d" "trades_at d ids" "sweeps_at d first C" "timed d first" using assms by (simp_all add: at_events_def)
  let ?f = "Some (case first of None \<Rightarrow> cd_open_time_ns c | Some f \<Rightarrow> f)"
  from take_kline_ok [OF e(3,5), of ck c] obtain d' gs where t: "take_kline ck d c = Inr (d', gs)" "books_ok d'"
    "sweeps_at d' ?f (if cd_is_closed c then insert (cd_open_time_ns c) C else C)"
    "same_trades d d'" "same_setup d d'" "gd_latest d' = gd_latest d" "lifecycle d d'"
    "gd_k_lo d' = Some (case gd_k_lo d of None \<Rightarrow> cd_open_time_ns c | Some k \<Rightarrow> k)" by (elim exE conjE)
  have "trades_at d' ids" using trades_at_cong [OF e(4)] t(4) by (simp add: same_trades_def)
  moreover note t(8)
  then have "timed d' ?f" using e(5,6) t(5,6) by (auto simp: timed_def sweeps_at_def minutes_at_def same_setup_def split: option.splits)
  ultimately have "at_events d0 d' ids ?f (if cd_is_closed c then insert (cd_open_time_ns c) C else C) lat"
    using t(2,3,6) same_trans(1) [OF e(1) t(5)] e(2) by (simp add: at_events_def)
  then show ?thesis using t(1,7) by blast
qed


section \<open>Runs\<close>

fun cmd_ids :: "string \<Rightarrow> gd_cmd \<Rightarrow> int list" where
  "cmd_ids inst (D_trade t) = (if td_instrument t = inst then [td_agg_id t] else [])"
| "cmd_ids inst _ = []"

fun cmd_klines :: "string \<Rightarrow> string \<Rightarrow> gd_cmd \<Rightarrow> candle list" where
  "cmd_klines inst tf (D_kline c) = (if cd_tf c = tf \<and> cd_instrument c = inst then [c] else [])"
| "cmd_klines inst tf _ = []"

fun cmd_times :: "string \<Rightarrow> string \<Rightarrow> gd_cmd \<Rightarrow> int list" where
  "cmd_times inst tf (D_time ts) = [ts]"
| "cmd_times inst tf (D_kline c) = (if cd_tf c = tf \<and> cd_instrument c = inst then [cd_ts_event_ns c] else [])"
| "cmd_times inst tf (D_trade t) = (if td_instrument t = inst then [td_ts_event_ns t] else [])"
| "cmd_times inst tf _ = []"

definition seen_ids :: "string \<Rightarrow> gd_cmd list \<Rightarrow> int list" where
  "seen_ids inst cs = concat (map (cmd_ids inst) cs)"

definition seen_klines :: "string \<Rightarrow> string \<Rightarrow> gd_cmd list \<Rightarrow> candle list" where
  "seen_klines inst tf cs = concat (map (cmd_klines inst tf) cs)"

definition seen_times :: "string \<Rightarrow> string \<Rightarrow> gd_cmd list \<Rightarrow> int list" where
  "seen_times inst tf cs = concat (map (cmd_times inst tf) cs)"

text \<open>A command that raises leaves the detector as it was; every command may read another clock.\<close>

fun gd_run :: "gap_detector \<Rightarrow> ((nat \<Rightarrow> int) \<times> gd_cmd) list \<Rightarrow> gap_detector" where
  "gd_run d [] = d"
| "gd_run d (x # xs) = gd_run (case gd_step (fst x) d (snd x) of Inl _ \<Rightarrow> d | Inr d' \<Rightarrow> d') xs"

lemma gd_run_snoc: "gd_run d (xs @ [x]) = (case gd_step (fst x) (gd_run d xs) (snd x) of Inl _ \<Rightarrow> gd_run d xs | Inr d' \<Rightarrow> d')"
  by (induction xs arbitrary: d) (auto split: sum.splits)

definition first_open :: "candle list \<Rightarrow> int option" where
  "first_open ks = (if ks = [] then None else Some (cd_open_time_ns (hd ks)))"

definition closed_opens :: "candle list \<Rightarrow> int set" where
  "closed_opens ks = cd_open_time_ns ` {c \<in> set ks. cd_is_closed c}"

definition latest_of :: "int list \<Rightarrow> int option" where
  "latest_of ts = (if ts = [] then None else Some (Max (set ts)))"

lemma latest_snoc: "latest_of (ts @ [t]) = later (latest_of ts) t"
  by (cases "ts = []") (simp_all add: latest_of_def later_def Max.union max.commute)

lemma first_snoc: "first_open (ks @ [c]) = Some (case first_open ks of None \<Rightarrow> cd_open_time_ns c | Some f \<Rightarrow> f)"
  by (cases "ks = []") (simp_all add: first_open_def)

lemma closed_snoc: "closed_opens (ks @ [c]) = (if cd_is_closed c then insert (cd_open_time_ns c) (closed_opens ks) else closed_opens ks)"
  by (auto simp: closed_opens_def)

definition gd_at :: "gap_detector \<Rightarrow> gap_detector \<Rightarrow> int list \<Rightarrow> candle list \<Rightarrow> int list \<Rightarrow> bool" where
  "gd_at d0 d ids ks ts \<longleftrightarrow> at_events d0 d ids (first_open ks) (closed_opens ks) (latest_of ts) \<and> exhausted d"

lemma lifecycle_gaps: "gd_gaps d1 = gd_gaps d \<Longrightarrow> lifecycle d1 d' \<Longrightarrow> lifecycle d d'"
  by (simp add: lifecycle_def)

lemma on_time_step:
  assumes "gd_at d0 d ids ks ts" and "gd_on_time ck d t = (d', gs)"
  shows "gd_at d0 d' ids ks (ts @ [t]) \<and> lifecycle d d'"
proof -
  from assms(1) have e: "at_events d0 d ids (first_open ks) (closed_opens ks) (latest_of ts)" by (simp add: gd_at_def)
  note a = advance_step [OF e, of t]
  obtain d1 g1 where s: "sweep_klines ck (advance d t) = (d1, g1)" by fastforce
  obtain d2 g2 where c: "confirm_holes ck d1 False = (d2, g2)" by fastforce
  note s' = sweep_step [OF a(1) s] and c' = confirm_step [OF sweep_step(1) [OF a(1) s] c]
  have "d' = d2" using assms(2) s c by (simp add: gd_on_time_def)
  moreover have "lifecycle d d2" using lifecycle_gaps [OF a(2) adds_lifecycle [OF adds_trans [OF s'(2) c'(2)]]] .
  ultimately show ?thesis using s' c' by (simp add: gd_at_def latest_snoc)
qed

lemma on_kline_step:
  assumes "gd_at d0 d ids ks ts" and "cd_tf c = gd_tf d" "cd_instrument c = gd_instrument d"
  shows "\<exists>d' gs. gd_on_kline ck d c = Inr (d', gs) \<and> gd_at d0 d' ids (ks @ [c]) (ts @ [cd_ts_event_ns c]) \<and> lifecycle d d'"
proof -
  from assms(1) have e: "at_events d0 d ids (first_open ks) (closed_opens ks) (latest_of ts)" by (simp add: gd_at_def)
  note a = advance_step [OF e, of "cd_ts_event_ns c"]
  from kline_step [OF a(1), of ck c] obtain d1 g1 where k: "take_kline ck (advance d (cd_ts_event_ns c)) c = Inr (d1, g1)"
    "at_events d0 d1 ids (first_open (ks @ [c])) (closed_opens (ks @ [c])) (latest_of (ts @ [cd_ts_event_ns c]))" "lifecycle (advance d (cd_ts_event_ns c)) d1"
    unfolding first_snoc closed_snoc latest_snoc by (elim exE conjE)
  obtain d2 g2 where s: "sweep_klines ck d1 = (d2, g2)" by fastforce
  obtain d3 g3 where h: "confirm_holes ck d2 False = (d3, g3)" by fastforce
  note s' = sweep_step [OF k(2) s] and h' = confirm_step [OF sweep_step(1) [OF k(2) s] h]
  have "gd_on_kline ck d c = Inr (d3, g1 @ g2 @ g3)" using assms(2,3) k(1) s h by (simp add: gd_on_kline_def)
  moreover have "lifecycle d d3" by (rule lifecycle_gaps [OF a(2) lifecycle_adds [OF k(3) adds_trans [OF s'(2) h'(2)]]])
  ultimately show ?thesis using s' h' by (simp add: gd_at_def)
qed

lemma on_trade_step:
  assumes "gd_at d0 d ids ks ts" and "td_instrument t = gd_instrument d"
  shows "\<exists>d' gs. gd_on_trade ck d t = Inr (d', gs) \<and> gd_at d0 d' (ids @ [td_agg_id t]) ks (ts @ [td_ts_event_ns t]) \<and> lifecycle d d'"
proof -
  from assms(1) have e: "at_events d0 d ids (first_open ks) (closed_opens ks) (latest_of ts)" by (simp add: gd_at_def)
  note a = advance_step [OF e, of "td_ts_event_ns t"]
  from trade_step [OF a(1), of ck t] obtain d1 g1 where k: "take_trade ck (advance d (td_ts_event_ns t)) t = Inr (d1, g1)"
    "at_events d0 d1 (ids @ [td_agg_id t]) (first_open ks) (closed_opens ks) (latest_of (ts @ [td_ts_event_ns t]))" "lifecycle (advance d (td_ts_event_ns t)) d1"
    unfolding latest_snoc by (elim exE conjE)
  obtain d2 g2 where h: "confirm_holes ck d1 False = (d2, g2)" by fastforce
  obtain d3 g3 where s: "sweep_klines ck d2 = (d3, g3)" by fastforce
  note h' = confirm_step [OF k(2) h] and s' = sweep_step [OF confirm_step(1) [OF k(2) h] s]
  have "gd_on_trade ck d t = Inr (d3, g1 @ g2 @ g3)" using assms(2) k(1) s h by (simp add: gd_on_trade_def)
  moreover have "lifecycle d d3" by (rule lifecycle_gaps [OF a(2) lifecycle_adds [OF k(3) adds_trans [OF h'(2) s'(2)]]])
  ultimately show ?thesis using s' h' by (simp add: gd_at_def)
qed

text \<open>\<^verbatim>\<open>begin_fill\<close> and \<^verbatim>\<open>resolve\<close> change one record.\<close>

lemma record_step:
  assumes at: "gd_at d0 d ids ks ts" and g: "dget (gd_gaps d) gid = Some g" "dget (gd_missing d) gid = Some ms"
    and m: "gap_move g st now filled attempt = Inr g'" and st: "st = GS_FILLED \<longrightarrow> ms = []" "ms = [] \<longrightarrow> st \<in> {GS_FILLED, GS_FILLING}"
    and d': "d' = d\<lparr>gd_gaps := dset (gd_gaps d) gid g', gd_reads := r\<rparr>"
  shows "gd_at d0 d' ids ks ts \<and> lifecycle d d'"
proof -
  from at have e: "same_setup d0 d" "gd_latest d = latest_of ts" "books_ok d" "trades_at d ids" "sweeps_at d (first_open ks) (closed_opens ks)" "timed d (first_open ks)" "exhausted d"
    by (simp_all add: gd_at_def at_events_def)
  note ev = gap_move_facts [OF m]
  have o: "owned d' = owned d" by (simp add: d' owned_def fun_eq_iff)
  have "books_ok d'"
  proof (rule books_update [OF e(3) g])
    show "gr_id g' = gr_id g" "gr_stream g' = gr_stream g" "gr_expected g' = gr_expected g" using ev(1) by (simp_all add: evolves_def)
    show "distinct ms" using e(3) g by (auto simp: books_ok_def)
  qed (use st ev(2) g in \<open>auto simp: d'\<close>)
  moreover have "trades_at d' ids" by (rule trades_at_cong [OF e(4)]) (simp_all add: d' owned_def)
  moreover have "sweeps_at d' (first_open ks) (closed_opens ks)" by (rule sweeps_at_cong [OF e(5)]) (simp_all add: d' owned_def same_minutes_def)
  moreover have "timed d' (first_open ks)" "exhausted d'" "same_setup d0 d'" "gd_latest d' = latest_of ts" using e(1,2,6,7)
    by (auto simp: d' timed_def exhausted_def same_setup_def)
  moreover have "lifecycle d d'" using ev(1) g by (auto simp: d' lifecycle_def)
  ultimately show ?thesis by (simp add: gd_at_def at_events_def)
qed


lemma gd_step_ok:
  assumes "gd_at d0 d ids ks ts" and "gd_instrument d0 = inst" "gd_tf d0 = tf"
  shows "case gd_step ck d c of Inl e \<Rightarrow> \<exists>gid. c = D_begin gid \<or> c = D_resolve gid
    | Inr d' \<Rightarrow> gd_at d0 d' (ids @ cmd_ids inst c) (ks @ cmd_klines inst tf c) (ts @ cmd_times inst tf c) \<and> lifecycle d d'"
proof -
  have su: "gd_instrument d = inst" "gd_tf d = tf" using assms by (auto simp: gd_at_def at_events_def same_setup_def)
  have bk: "books_ok d" using assms(1) by (simp add: gd_at_def at_events_def)
  have keep: "gd_at d0 d ids ks ts \<and> lifecycle d d" using assms(1) by (auto simp: lifecycle_def)
  show ?thesis
  proof (cases c)
    case (D_time t)
    then show ?thesis using on_time_step [OF assms(1), of ck t] by (cases "gd_on_time ck d t") simp
  next
    case (D_kline k)
    show ?thesis
    proof (cases "cd_tf k = tf \<and> cd_instrument k = inst")
      case True
      then show ?thesis using on_kline_step [OF assms(1), of k ck] su D_kline by auto
    qed (use D_kline su keep in \<open>auto simp: gd_on_kline_def\<close>)
  next
    case (D_trade t)
    show ?thesis
    proof (cases "td_instrument t = inst")
      case True
      then show ?thesis using on_trade_step [OF assms(1), of t ck] su D_trade by auto
    qed (use D_trade su keep in \<open>auto simp: gd_on_trade_def\<close>)
  next
    case D_flush
    obtain d' gs where c: "confirm_holes ck d True = (d', gs)" by fastforce
    from assms(1) have e: "at_events d0 d ids (first_open ks) (closed_opens ks) (latest_of ts)" "exhausted d" by (simp_all add: gd_at_def)
    note k = confirm_step [OF e(1) c]
    show ?thesis using D_flush c k(1) k(3) [OF e(2)] adds_lifecycle [OF k(2)] by (simp add: gd_flush_def gd_at_def)
  next
    case (D_begin gid)
    show ?thesis
    proof (cases "begin_fill ck d gid")
      case (Inl e)
      then show ?thesis using D_begin by simp
    next
      case (Inr r)
      then obtain g g' where g: "dget (gd_gaps d) gid = Some g" "gap_move g GS_FILLING (ck (gd_reads d)) None True = Inr g'"
        and r: "fst r = d\<lparr>gd_gaps := dset (gd_gaps d) gid g', gd_reads := gd_reads d + 1\<rparr>"
        by (auto simp: begin_fill_def rbind_Inr_iff split: option.splits)
      have "dget (gd_missing d) gid \<noteq> None" using books_okD(2) [OF bk, of gid] g(1) by simp
      then obtain ms where ms: "dget (gd_missing d) gid = Some ms" by blast
      have "gd_at d0 (fst r) ids ks ts \<and> lifecycle d (fst r)" by (rule record_step [OF assms(1) g(1) ms g(2) _ _ r]) simp_all
      then show ?thesis using D_begin Inr by simp
    qed
  next
    case (D_resolve gid)
    show ?thesis
    proof (cases "gd_resolve ck d gid")
      case (Inl e)
      then show ?thesis using D_resolve by simp
    next
      case (Inr r)
      then obtain g ms g' where g: "dget (gd_gaps d) gid = Some g" "dget (gd_missing d) gid = Some ms"
        "gap_move g (resolve_status (length ms) (gr_expected g - length ms)) (ck (gd_reads d)) (Some (gr_expected g - length ms)) False = Inr g'"
        and r: "fst r = d\<lparr>gd_gaps := dset (gd_gaps d) gid g', gd_reads := gd_reads d + 1\<rparr>"
        by (auto simp: gd_resolve_def rbind_Inr_iff Let_def split: option.splits)
      have "gd_at d0 (fst r) ids ks ts \<and> lifecycle d (fst r)" by (rule record_step [OF assms(1) g _ _ r]) (auto simp: resolve_status_def split: if_splits)
      then show ?thesis using D_resolve Inr by simp
    qed
  qed
qed

lemma detector_init_at:
  assumes "detector_init inst tf grace_ms reorder = Inr d0"
  shows "gd_at d0 d0 [] [] []" and "gd_instrument d0 = inst" "gd_tf d0 = tf" "tf_ms tf = Inr (gd_tf_ns d0 div NS_PER_MS)" "gd_grace_ns d0 = grace_ms * NS_PER_MS"
proof -
  from assms obtain ms where ms: "tf_ms tf = Inr ms" by (auto simp: detector_init_def rbind_Inr_iff)
  have "0 < ms" using ms by (auto simp: tf_ms_def TF_MS_def split: if_splits option.splits)
  then show "gd_at d0 d0 [] [] []" "gd_instrument d0 = inst" "gd_tf d0 = tf" "tf_ms tf = Inr (gd_tf_ns d0 div NS_PER_MS)" "gd_grace_ns d0 = grace_ms * NS_PER_MS"
    using assms ms by (auto simp: detector_init_def gd_at_def at_events_def same_setup_def books_ok_def trades_at_def sweeps_at_def timed_def exhausted_def
        holes_ok_def owned_def held_ids_def in_holes_def first_open_def closed_opens_def latest_of_def NS_PER_MS_def)
qed

lemma gd_run_ok:
  assumes "detector_init inst tf grace_ms reorder = Inr d0"
  shows "gd_at d0 (gd_run d0 xs) (seen_ids inst (map snd xs)) (seen_klines inst tf (map snd xs)) (seen_times inst tf (map snd xs))"
proof (induction xs rule: rev_induct)
  case Nil
  show ?case using detector_init_at(1) [OF assms] by (simp add: seen_ids_def seen_klines_def seen_times_def)
next
  case (snoc x xs)
  note st = gd_step_ok [where ck = "fst x" and c = "snd x", OF snoc detector_init_at(2,3) [OF assms]]
  show ?case
  proof (cases "gd_step (fst x) (gd_run d0 xs) (snd x)")
    case (Inl e)
    with st obtain gid where "snd x = D_begin gid \<or> snd x = D_resolve gid" by auto
    then show ?thesis using Inl snoc by (auto simp: gd_run_snoc seen_ids_def seen_klines_def seen_times_def)
  next
    case (Inr d')
    then show ?thesis using st by (simp add: gd_run_snoc seen_ids_def seen_klines_def seen_times_def)
  qed
qed

section \<open>What is reported\<close>

definition reported :: "gap_detector \<Rightarrow> stream \<Rightarrow> int set" where
  "reported d st = {k. \<exists>gid g ms. dget (gd_gaps d) gid = Some g \<and> dget (gd_missing d) gid = Some ms \<and> gr_stream g = st \<and> k \<in> set ms}"

lemma reported_owned: "books_ok d \<Longrightarrow> reported d st = owned d st"
  unfolding reported_def owned_def books_ok_def by (auto simp del: not_None_eq) blast+

lemma minutes_exact:
  assumes "minutes_at d f C [] m" and "timed d (Some f)" "exhausted d" "0 < gd_tf_ns d" "gd_latest d = Some l"
  shows "owned d KLINES = {x. f \<le> x \<and> gd_tf_ns d dvd x - f \<and> x + gd_tf_ns d + gd_grace_ns d \<le> l \<and> x \<notin> C}"
proof -
  have m: "gd_k_lo d = Some m" "gd_tf_ns d dvd m - f" "owned d KLINES = lost_minutes (gd_tf_ns d) f C m" using assms(1) by (simp_all add: minutes_at_def)
  have hi: "l - gd_grace_ns d < m + gd_tf_ns d" "m = f \<or> m \<le> l - gd_grace_ns d" using assms(2,3,5) m(1) by (auto simp: exhausted_def timed_def)
  have "x + gd_tf_ns d \<le> m" if "x < m" "gd_tf_ns d dvd x - f" for x
  proof -
    have "gd_tf_ns d dvd m - x" using dvd_diff [OF m(2) that(2)] by simp
    from zdvd_imp_le [OF this] that(1) show ?thesis by simp
  qed
  then have "x < m \<longleftrightarrow> x + gd_tf_ns d + gd_grace_ns d \<le> l" if "f \<le> x" "gd_tf_ns d dvd x - f" for x
    using hi that assms(4) by force
  then show ?thesis unfolding m(3) lost_minutes_def by blast
qed


text \<open>C28: What the detector reports as lost is exactly what was lost. After every sequence of events, fills and failures: the minutes
  missing in its records are those of the grid from the first candle on that ended at least the grace period before the latest
  exchange time and never closed; a trade identifier between the first and the largest one that never came is either in a record
  or still in a candidate hole, never in both, and no identifier that came is in either.\<close>

theorem gaps_are_exact:
  assumes "detector_init inst tf grace_ms reorder = Inr d0" and "cs = map snd xs"
  shows "reported (gd_run d0 xs) KLINES = {m. \<exists>f l. first_open (seen_klines inst tf cs) = Some f \<and> latest_of (seen_times inst tf cs) = Some l
        \<and> f \<le> m \<and> gd_tf_ns d0 dvd m - f \<and> m + gd_tf_ns d0 + grace_ms * NS_PER_MS \<le> l \<and> m \<notin> closed_opens (seen_klines inst tf cs)}
    \<and> reported (gd_run d0 xs) TRADES \<union> held_ids (gd_run d0 xs)
        = {i. seen_ids inst cs \<noteq> [] \<and> hd (seen_ids inst cs) \<le> i \<and> i \<le> Max (set (seen_ids inst cs)) \<and> i \<notin> set (seen_ids inst cs)}
    \<and> reported (gd_run d0 xs) TRADES \<inter> held_ids (gd_run d0 xs) = {}"
proof -
  let ?d = "gd_run d0 xs" and ?ks = "seen_klines inst tf cs" and ?ts = "seen_times inst tf cs" and ?ids = "seen_ids inst cs"
  have at: "gd_at d0 ?d ?ids ?ks ?ts" using gd_run_ok [OF assms(1)] assms(2) by simp
  then have e: "same_setup d0 ?d" "gd_latest ?d = latest_of ?ts" "books_ok ?d" "trades_at ?d ?ids" "sweeps_at ?d (first_open ?ks) (closed_opens ?ks)"
    "timed ?d (first_open ?ks)" "exhausted ?d" by (simp_all add: gd_at_def at_events_def)
  note r = reported_owned [OF e(3)]
  have su: "gd_tf_ns ?d = gd_tf_ns d0" "gd_grace_ns ?d = grace_ms * NS_PER_MS" using e(1) detector_init_at(5) [OF assms(1)] by (simp_all add: same_setup_def)
  have tf: "0 < gd_tf_ns ?d" using e(3) by (simp add: books_ok_def)
  have "reported ?d KLINES = {m. \<exists>f l. first_open ?ks = Some f \<and> latest_of ?ts = Some l
        \<and> f \<le> m \<and> gd_tf_ns d0 dvd m - f \<and> m + gd_tf_ns d0 + grace_ms * NS_PER_MS \<le> l \<and> m \<notin> closed_opens ?ks}"
  proof (cases "first_open ?ks")
    case None
    then show ?thesis using e(5) unfolding r by (simp add: sweeps_at_def)
  next
    case (Some f)
    then obtain m where m: "minutes_at ?d f (closed_opens ?ks) [] m" using e(5) by (auto simp: sweeps_at_def)
    show ?thesis
    proof (cases "gd_latest ?d")
      case None
      have "gd_k_lo ?d = Some f" using e(6) None Some by (auto simp: timed_def)
      then have "owned ?d KLINES = {}" using m by (auto simp: minutes_at_def lost_minutes_def)
      then show ?thesis using None e(2) unfolding r by simp
    next
      case l: (Some l)
      from minutes_exact [OF m _ e(7) tf l] e(6) Some show ?thesis using l unfolding r e(2) su by simp
    qed
  qed
  moreover have "reported ?d TRADES \<union> held_ids ?d = {i. ?ids \<noteq> [] \<and> hd ?ids \<le> i \<and> i \<le> Max (set ?ids) \<and> i \<notin> set ?ids}"
    using e(4) unfolding r by (auto simp: trades_at_def)
  moreover have "reported ?d TRADES \<inter> held_ids ?d = {}" using e(4) unfolding r by (auto simp: trades_at_def holes_ok_iff)
  ultimately show ?thesis by blast
qed

definition ex_trade :: "int \<Rightarrow> int \<Rightarrow> trade" where
  "ex_trade i ts = \<lparr>td_instrument = ''X'', td_venue = BINANCE_USDM, td_agg_id = i, td_first_trade_id = None, td_last_trade_id = None,
     td_price = 1, td_qty = 1, td_is_buyer_maker = False, td_ts_event_ns = ts, td_ts_ingest_ns = ts, td_event_uid = ''''\<rparr>"

definition ex_gap_run :: "((nat \<Rightarrow> int) \<times> gd_cmd) list" where
  "ex_gap_run = map (\<lambda>c. ((\<lambda>n. int n), c)) [D_trade (ex_trade 1 0), D_trade (ex_trade 5 10), D_trade (ex_trade 3 20), D_flush, D_begin 1, D_resolve 1]"

lemma gaps_are_exact_witness:
  "\<exists>d0. detector_init ''X'' ''1m'' 2000 50 = Inr d0 \<and> reported (gd_run d0 ex_gap_run) TRADES \<union> held_ids (gd_run d0 ex_gap_run) = {2, 4}
     \<and> reported (gd_run d0 ex_gap_run) KLINES = {}"
proof -
  obtain d0 where d0: "detector_init ''X'' ''1m'' 2000 50 = Inr d0" by (auto simp: detector_init_def tf_ms_def TF_MS_def)
  have "seen_ids ''X'' (map snd ex_gap_run) = [1, 5, 3]" "seen_klines ''X'' ''1m'' (map snd ex_gap_run) = []"
    by (simp_all add: seen_ids_def seen_klines_def ex_gap_run_def ex_trade_def)
  with gaps_are_exact [OF d0 refl, of ex_gap_run] d0 show ?thesis by (auto simp: first_open_def)
qed

text \<open>C29: The life of a gap record. In every reachable state each command moves a record only along an allowed transition and never
  drops one or changes what it is about; a record marked FILLED misses nothing and one that misses nothing is FILLED or being filled;
  no key is missing in two records; and no event of the market raises, only starting or closing a fill can be refused.\<close>

theorem gap_lifecycle:
  assumes "detector_init inst tf grace_ms reorder = Inr d0"
  shows "(case gd_step ck (gd_run d0 xs) c of
        Inl e \<Rightarrow> \<exists>gid. c = D_begin gid \<or> c = D_resolve gid
      | Inr d' \<Rightarrow> \<forall>(gid, g) \<in> set (gd_gaps (gd_run d0 xs)). dget (gd_gaps (gd_run d0 xs)) gid = Some g \<longrightarrow>
          (\<exists>g'. dget (gd_gaps d') gid = Some g' \<and> (gr_status g' = gr_status g \<or> gr_status g' \<in> set (gap_transitions (gr_status g)))
             \<and> gr_stream g' = gr_stream g \<and> gr_ts_lo g' = gr_ts_lo g \<and> gr_ts_hi g' = gr_ts_hi g \<and> gr_expected g' = gr_expected g))
    \<and> (\<forall>gid g ms. dget (gd_gaps (gd_run d0 xs)) gid = Some g \<longrightarrow> dget (gd_missing (gd_run d0 xs)) gid = Some ms \<longrightarrow>
          (gr_status g = GS_FILLED \<longrightarrow> ms = []) \<and> (ms = [] \<longrightarrow> gr_status g \<in> {GS_FILLED, GS_FILLING})
          \<and> (\<forall>gid' g' ms' k. dget (gd_gaps (gd_run d0 xs)) gid' = Some g' \<longrightarrow> dget (gd_missing (gd_run d0 xs)) gid' = Some ms' \<longrightarrow>
               gr_stream g' = gr_stream g \<longrightarrow> k \<in> set ms \<longrightarrow> k \<in> set ms' \<longrightarrow> gid' = gid))"
proof -
  let ?d = "gd_run d0 xs"
  note at = gd_run_ok [OF assms, of xs]
  then have b: "books_ok ?d" by (simp add: gd_at_def at_events_def)
  have "case gd_step ck ?d c of Inl e \<Rightarrow> \<exists>gid. c = D_begin gid \<or> c = D_resolve gid | Inr d' \<Rightarrow> lifecycle ?d d'"
    using gd_step_ok [where ck = ck and c = c, OF at detector_init_at(2,3) [OF assms]] by (auto split: sum.splits)
  moreover have "gid' = gid" if "dget (gd_gaps ?d) gid = Some g" "dget (gd_missing ?d) gid = Some ms" "dget (gd_gaps ?d) gid' = Some g'"
    "dget (gd_missing ?d) gid' = Some ms'" "gr_stream g' = gr_stream g" "k \<in> set ms" "k \<in> set ms'" for gid g ms gid' g' ms' k
    using books_okD(4) [OF b, of "gr_stream g" k gid] books_okD(4) [OF b, of "gr_stream g" k gid'] that by auto
  moreover have "(gr_status g = GS_FILLED \<longrightarrow> ms = []) \<and> (ms = [] \<longrightarrow> gr_status g \<in> {GS_FILLED, GS_FILLING})"
    if "dget (gd_gaps ?d) gid = Some g" "dget (gd_missing ?d) gid = Some ms" for gid g ms
    using b that unfolding books_ok_def by blast
  ultimately show ?thesis unfolding lifecycle_def evolves_def by (cases "gd_step ck ?d c") (simp_all, blast+)
qed

lemma gap_lifecycle_witness:
  "\<exists>d0. detector_init ''X'' ''1m'' 2000 50 = Inr d0
     \<and> (\<exists>d'. gd_step (\<lambda>n. int n) (gd_run d0 ex_gap_run) (D_trade (ex_trade 4 30)) = Inr d')"
proof -
  obtain d0 where d0: "detector_init ''X'' ''1m'' 2000 50 = Inr d0" by (auto simp: detector_init_def tf_ms_def TF_MS_def)
  from gap_lifecycle [where ck = "\<lambda>n. int n" and xs = ex_gap_run and c = "D_trade (ex_trade 4 30)", OF d0] d0 show ?thesis by (auto split: sum.splits)
qed

end
