(* ===== verification/Sizing.thy ===== *)
theory Sizing
  imports Domain
begin

text \<open>
  \<^verbatim>\<open>sizing/\<close>: the hysteresis gate between intent and position, volatility targeting, the risk of the stop and the position sizer.
  Floats are the rationals they stand for, rounded with \<open>f64\<close>; the logarithm and the power function are parameters.
\<close>

section \<open>Hysteresis\<close>

definition BARS_PER_DAY_1M :: int where "BARS_PER_DAY_1M = 1440"

definition churn_cost_per_day :: "rat \<Rightarrow> rat \<Rightarrow> int \<Rightarrow> rat" where
  "churn_cost_per_day fee_rate fills bars = f64 (f64 (of_int bars * fills) * fee_rate)"

record hysteresis_gate =
  hg_enter :: rat
  hg_exit :: rat
  hg_side :: side
  hg_flips :: nat

definition mk_gate :: "pyfloat \<Rightarrow> pyfloat \<Rightarrow> side \<Rightarrow> hysteresis_gate result" where
  "mk_gate enter ex initial =
     (if \<not> (f_le (Fin 0) ex \<and> f_le ex enter \<and> f_le enter (Fin 1)) then Inl ValueError
      else Inr \<lparr>hg_enter = f_val enter, hg_exit = f_val ex, hg_side = initial, hg_flips = 0\<rparr>)"

definition gate_reset :: "hysteresis_gate \<Rightarrow> side \<Rightarrow> hysteresis_gate" where
  "gate_reset g s = g\<lparr>hg_side := s\<rparr>"

definition gate_next :: "hysteresis_gate \<Rightarrow> rat \<Rightarrow> side" where
  "gate_next g u =
     (case hg_side g of
        FLAT \<Rightarrow> if hg_enter g \<le> u then LONG else if u \<le> - hg_enter g then SHORT else FLAT
      | LONG \<Rightarrow> if u \<le> - hg_enter g then SHORT else if u < hg_exit g then FLAT else LONG
      | SHORT \<Rightarrow> if hg_enter g \<le> u then LONG else if - hg_exit g < u then FLAT else SHORT)"

fun gate_update :: "hysteresis_gate \<Rightarrow> pyfloat \<Rightarrow> (hysteresis_gate \<times> side) result" where
  "gate_update g (Fin u) =
     (let s = gate_next g u in
      Inr (if s \<noteq> hg_side g then g\<lparr>hg_flips := hg_flips g + 1, hg_side := s\<rparr> else g, s))"
| "gate_update g _ = Inl ValueError"

section \<open>Volatility targeting\<close>

definition filter_step_response :: "rat \<Rightarrow> nat \<Rightarrow> (rat \<Rightarrow> nat \<Rightarrow> rat) \<Rightarrow> rat" where
  "filter_step_response gamma n pw = f64 (1 - pw (f64 (1 - gamma)) n)"

definition filter_time_constant_bars :: "(rat \<Rightarrow> rat) \<Rightarrow> rat \<Rightarrow> rat result" where
  "filter_time_constant_bars lg gamma =
     (if \<not> (0 < gamma \<and> gamma < 1) then Inl ValueError
      else if lg (f64 (1 - gamma)) = 0 then Inl ZeroDivisionError else Inr (f64 (- 1 / lg (f64 (1 - gamma)))))"

definition backward_euler_time_constant_bars :: "rat \<Rightarrow> rat result" where
  "backward_euler_time_constant_bars gamma = (if gamma = 0 then Inl ZeroDivisionError else Inr (f64 (f64 (1 - gamma) / gamma)))"

record vol_target =
  vt_lam :: rat
  vt_A :: int
  vt_sigma_target :: rat
  vt_s_min :: rat
  vt_s_max :: rat
  vt_gamma :: rat
  vt_sqrt_a :: rat
  vt_sigma2 :: "rat option"
  vt_s :: rat
  vt_s_star :: rat
  vt_n :: nat

record vol_params =
  vp_lam :: rat
  vp_A :: int
  vp_sigma_target :: rat
  vp_s_min :: rat
  vp_s_max :: rat
  vp_gamma :: rat
  vp_s0 :: "rat option"
  vp_sigma2_0 :: "pyfloat option"

definition mk_vol_target :: "vol_params \<Rightarrow> vol_target result" where
  "mk_vol_target p =
     (if \<not> (0 < vp_lam p \<and> vp_lam p < 1) then Inl ValueError
      else if vp_A p \<le> 0 \<or> vp_sigma_target p \<le> 0 then Inl ValueError
      else if \<not> (0 < vp_s_min p \<and> vp_s_min p \<le> vp_s_max p) then Inl ValueError
      else if \<not> (0 < vp_gamma p \<and> vp_gamma p \<le> 1) then Inl ValueError
      else if (case vp_sigma2_0 p of None \<Rightarrow> False | Some x \<Rightarrow> \<not> (f_isfinite x \<and> f_le (Fin 0) x)) then Inl ValueError
      else if (case vp_s0 p of None \<Rightarrow> False | Some x \<Rightarrow> \<not> (vp_s_min p \<le> x \<and> x \<le> vp_s_max p)) then Inl ValueError
      else let s = (case vp_s0 p of None \<Rightarrow> vp_s_min p | Some x \<Rightarrow> x) in
        Inr \<lparr>vt_lam = vp_lam p, vt_A = vp_A p, vt_sigma_target = vp_sigma_target p, vt_s_min = vp_s_min p, vt_s_max = vp_s_max p,
             vt_gamma = vp_gamma p, vt_sqrt_a = f64_sqrt (of_int (vp_A p)), vt_sigma2 = map_option f_val (vp_sigma2_0 p), vt_s = s, vt_s_star = s, vt_n = 0\<rparr>)"

definition sigma_ann :: "vol_target \<Rightarrow> pyfloat" where
  "sigma_ann v = (case vt_sigma2 v of None \<Rightarrow> NaN | Some s2 \<Rightarrow> Fin (f64 (f64_sqrt s2 * vt_sqrt_a v)))"

definition target_scale :: "vol_target \<Rightarrow> rat \<Rightarrow> rat" where
  "target_scale v sig = (if sig \<le> 0 then vt_s_max v else min (vt_s_max v) (max (vt_s_min v) (f64 (vt_sigma_target v / sig))))"

fun vol_update :: "vol_target \<Rightarrow> pyfloat \<Rightarrow> (vol_target \<times> rat \<times> rat \<times> rat) result" where
  "vol_update v (Fin r) =
     (let r2 = f64 (r * r);
          s2 = (case vt_sigma2 v of None \<Rightarrow> r2 | Some x \<Rightarrow> f64 (f64 (vt_lam v * x) + f64 (f64 (1 - vt_lam v) * r2)));
          sig = f64 (f64_sqrt s2 * vt_sqrt_a v); star = target_scale v sig;
          s = f64 (vt_s v + f64 (vt_gamma v * f64 (star - vt_s v)))
      in Inr (v\<lparr>vt_sigma2 := Some s2, vt_s := s, vt_s_star := star, vt_n := vt_n v + 1\<rparr>, sig, star, s))"
| "vol_update v _ = Inl ValueError"

section \<open>The risk of the stop\<close>

fun stop_distance :: "pyfloat \<Rightarrow> rat \<Rightarrow> pyfloat" where
  "stop_distance (Fin a) chi = Fin (f64 (chi * a))"
| "stop_distance NaN chi = NaN"
| "stop_distance PInf chi = (if 0 < chi then PInf else if chi < 0 then NInf else NaN)"
| "stop_distance NInf chi = (if 0 < chi then NInf else if chi < 0 then PInf else NaN)"

definition q_atr :: "rat \<Rightarrow> rat \<Rightarrow> pyfloat \<Rightarrow> rat \<Rightarrow> rat \<Rightarrow> rat result" where
  "q_atr u equity atr rho chi =
     (if \<not> (f_isfinite atr \<and> f_less (Fin 0) atr) \<or> equity \<le> 0 then Inr 0
      else if rho \<le> 0 \<or> chi \<le> 0 then Inl ValueError
      else if f64 (chi * f_val atr) = 0 then Inl ZeroDivisionError
      else Inr (f64 (f64 (f64 (rho * \<bar>u\<bar>) * equity) / f64 (chi * f_val atr))))"

definition risk_money :: "rat \<Rightarrow> rat \<Rightarrow> rat \<Rightarrow> rat" where
  "risk_money qty atr chi = f64 (f64 (qty * chi) * atr)"

section \<open>From floats to decimals\<close>

fun to_decimal :: "dctx \<Rightarrow> pyfloat \<Rightarrow> quantum \<Rightarrow> rounding_mode \<Rightarrow> dec result" where
  "to_decimal cx (Fin x) step mode = quantize_step cx (float_repr x) step mode"
| "to_decimal cx _ step mode = Inl ValueError"

definition price_to_decimal :: "dctx \<Rightarrow> pyfloat \<Rightarrow> quantum \<Rightarrow> dec result" where
  "price_to_decimal cx x tick = to_decimal cx x tick ROUND_HALF_EVEN"

fun float_to_decimal_exact :: "pyfloat \<Rightarrow> dec result" where
  "float_to_decimal_exact (Fin x) = Inr (float_repr x)"
| "float_to_decimal_exact _ = Inl ValueError"

section \<open>The sizer\<close>

datatype binding_constraint = BC_ATR_RISK | BC_VOL_TARGET | BC_LEVERAGE

record sizing_params =
  sp_rho_base :: rat
  sp_chi :: rat
  sp_max_leverage :: rat

definition mk_sizing_params :: "rat \<Rightarrow> rat \<Rightarrow> rat \<Rightarrow> sizing_params result" where
  "mk_sizing_params rho chi lev = (if rho \<le> 0 \<or> chi \<le> 0 \<or> lev \<le> 0 then Inl ValueError else Inr \<lparr>sp_rho_base = rho, sp_chi = chi, sp_max_leverage = lev\<rparr>)"

record sizing_input =
  si_u_final :: pyfloat
  si_equity :: dec
  si_price :: dec
  si_atr :: pyfloat
  si_s_t :: rat
  si_kappa_mode :: pyfloat
  si_step_size :: quantum
  si_min_notional :: dec
  si_gross_notional :: dec
  si_sigma_ann :: pyfloat

record sizing_result =
  sr_qty :: dec
  sr_side :: side
  sr_binding :: binding_constraint
  sr_q_atr :: rat
  sr_q_vt :: rat
  sr_q_lev :: rat
  sr_s_t :: rat
  sr_sigma_ann :: pyfloat
  sr_kappa_mode :: rat
  sr_reject_code :: "reject_code option"
  sr_q_raw :: rat
  sr_notional :: dec
  sr_stop_distance :: pyfloat

definition sr_signed_qty :: "dctx \<Rightarrow> sizing_result \<Rightarrow> dec" where
  "sr_signed_qty cx r = dmul cx (sr_qty r) (of_int (side_int (sr_side r)))"

definition side_of_intent :: "rat \<Rightarrow> side" where
  "side_of_intent u = (if 0 < u then LONG else if u < 0 then SHORT else FLAT)"

text \<open>The least of the three limits and its name; on a tie the first.\<close>

definition binding_limit :: "rat \<Rightarrow> rat \<Rightarrow> rat \<Rightarrow> rat \<times> binding_constraint" where
  "binding_limit qa qv ql =
     (let m = (qa, BC_ATR_RISK); m = (if qv < fst m then (qv, BC_VOL_TARGET) else m) in (if ql < fst m then (ql, BC_LEVERAGE) else m))"

text \<open>The quantity that is left after quantisation and the least notional, with the reason if it is none.\<close>

definition sized_qty :: "dctx \<Rightarrow> sizing_input \<Rightarrow> rat \<Rightarrow> side \<Rightarrow> rat \<Rightarrow> (dec \<times> reject_code option) result" where
  "sized_qty cx inp kappa sd q_raw =
     (if kappa = 0 then Inr (0, Some RC_HALTED)
      else if sd \<noteq> FLAT then
        rbind (to_decimal cx (Fin q_raw) (si_step_size inp) ROUND_DOWN) (\<lambda>qty.
          if qty \<le> 0 \<or> dmul cx qty (si_price inp) < si_min_notional inp
          then Inr (0, Some (if 0 < si_min_notional inp then RC_BELOW_MIN_NOTIONAL else RC_ZERO_QTY))
          else Inr (qty, None))
      else Inr (0, None))"

definition position_size :: "dctx \<Rightarrow> sizing_params \<Rightarrow> sizing_input \<Rightarrow> sizing_result result" where
  "position_size cx prm inp =
     (if \<not> (f_isfinite (si_u_final inp) \<and> f_le (Fin (- 1)) (si_u_final inp) \<and> f_le (si_u_final inp) (Fin 1)) then Inl ValueError
      else if \<not> (f_le (Fin 0) (si_kappa_mode inp) \<and> f_le (si_kappa_mode inp) (Fin 1)) then Inl ValueError
      else if si_price inp \<le> 0 then Inl ValueError
      else let u = f_val (si_u_final inp); kappa = f_val (si_kappa_mode inp); eq = f64 (si_equity inp); p = f64 (si_price inp); n_gross = f64 (si_gross_notional inp) in
        rbind (q_atr u eq (si_atr inp) (sp_rho_base prm) (sp_chi prm)) (\<lambda>qa.
          if p = 0 then Inl ZeroDivisionError
          else let qv = (if 0 < eq then max 0 (f64 (f64 (si_s_t inp * eq) / p)) else 0);
                   ql = max 0 (f64 (f64 (f64 (eq * sp_max_leverage prm) - n_gross) / p));
                   (q_min, bc) = binding_limit qa qv ql; q_raw = f64 (kappa * q_min); sd = side_of_intent u in
            rbind (sized_qty cx inp kappa sd q_raw) (\<lambda>(qty, reject).
              Inr \<lparr>sr_qty = qty, sr_side = sd, sr_binding = bc, sr_q_atr = qa, sr_q_vt = qv, sr_q_lev = ql, sr_s_t = si_s_t inp,
                   sr_sigma_ann = si_sigma_ann inp, sr_kappa_mode = kappa, sr_reject_code = reject, sr_q_raw = q_raw,
                   sr_notional = dmul cx qty (si_price inp), sr_stop_distance = stop_distance (si_atr inp) (sp_chi prm)\<rparr>)))"


section \<open>The gate is a Schmitt trigger\<close>

fun gate_run :: "hysteresis_gate \<Rightarrow> rat list \<Rightarrow> hysteresis_gate" where
  "gate_run g [] = g"
| "gate_run g (u # us) = gate_run (case gate_update g (Fin u) of Inl e \<Rightarrow> g | Inr (g', s) \<Rightarrow> g') us"

lemma gate_run_snoc: "gate_run g (us @ [u]) = (case gate_update (gate_run g us) (Fin u) of Inl e \<Rightarrow> gate_run g us | Inr (g', s) \<Rightarrow> g')"
  by (induction us arbitrary: g) (simp_all add: Let_def)

lemma gate_run_bands [simp]: "hg_enter (gate_run g us) = hg_enter g" "hg_exit (gate_run g us) = hg_exit g"
  by (induction us arbitrary: g) (simp_all add: Let_def)

lemma gate_run_side: "hg_side (gate_run g (us @ [u])) = gate_next (gate_run g us) u"
  by (simp add: gate_run_snoc Let_def)

text \<open>\<open>armed P Q us\<close>: some value satisfies \<open>P\<close> and all later ones satisfy \<open>Q\<close>.\<close>

definition held_since :: "(rat \<Rightarrow> bool) \<Rightarrow> (rat \<Rightarrow> bool) \<Rightarrow> rat list \<Rightarrow> bool" where
  "held_since P Q us \<longleftrightarrow> (\<exists>k < length us. P (us ! k) \<and> (\<forall>j. k < j \<longrightarrow> j < length us \<longrightarrow> Q (us ! j)))"

lemma held_since_snoc: "held_since P Q (us @ [u]) \<longleftrightarrow> P u \<or> (held_since P Q us \<and> Q u)"
proof
  assume "held_since P Q (us @ [u])"
  then obtain k where k: "k < Suc (length us)" "P ((us @ [u]) ! k)" "\<forall>j. k < j \<longrightarrow> j < Suc (length us) \<longrightarrow> Q ((us @ [u]) ! j)" by (auto simp: held_since_def)
  show "P u \<or> (held_since P Q us \<and> Q u)"
  proof (cases "k = length us")
    case False
    with k(1) have "k < length us" by simp
    moreover have "P (us ! k)" using k(2) \<open>k < length us\<close> by (simp add: nth_append)
    moreover have "Q (us ! j)" if "k < j" "j < length us" for j using k(3) that by (metis less_SucI nth_append)
    moreover have "Q u" using k(3) \<open>k < length us\<close> by (metis lessI nth_append_length)
    ultimately show ?thesis by (auto simp: held_since_def)
  qed (use k in simp)
next
  assume "P u \<or> (held_since P Q us \<and> Q u)"
  then show "held_since P Q (us @ [u])"
  proof
    assume "P u"
    then show ?thesis by (auto simp: held_since_def intro: exI [of _ "length us"])
  next
    assume "held_since P Q us \<and> Q u"
    then obtain k where k: "k < length us" "P (us ! k)" "\<forall>j. k < j \<longrightarrow> j < length us \<longrightarrow> Q (us ! j)" "Q u" by (auto simp: held_since_def)
    have "Q ((us @ [u]) ! j)" if "k < j" "j < length (us @ [u])" for j
      using k(3,4) that by (cases "j = length us") (auto simp: nth_append)
    moreover have "P ((us @ [u]) ! k)" "k < length (us @ [u])" using k by (simp_all add: nth_append)
    ultimately show ?thesis unfolding held_since_def by blast
  qed
qed

lemma gate_side_spec:
  assumes "0 < hg_enter g" "0 \<le> hg_exit g" "hg_exit g \<le> hg_enter g" "hg_side g = FLAT"
  shows "(hg_side (gate_run g us) = LONG \<longleftrightarrow> held_since (\<lambda>u. hg_enter g \<le> u) (\<lambda>u. hg_exit g \<le> u) us)
    \<and> (hg_side (gate_run g us) = SHORT \<longleftrightarrow> held_since (\<lambda>u. u \<le> - hg_enter g) (\<lambda>u. u \<le> - hg_exit g) us)"
proof (induction us rule: rev_induct)
  case Nil
  then show ?case using assms(4) by (simp add: held_since_def)
next
  case (snoc u us)
  show ?case unfolding held_since_snoc gate_run_side
    using snoc assms(1-3) by (cases "hg_side (gate_run g us)") (auto simp: gate_next_def)
qed

lemma gate_flips:
  "hg_flips (gate_run g us) = hg_flips g + card {i. i < length us \<and> hg_side (gate_run g (take i us)) \<noteq> hg_side (gate_run g (take (Suc i) us))}"
proof (induction us rule: rev_induct)
  case (snoc u us)
  let ?P = "\<lambda>xs i. hg_side (gate_run g (take i xs)) \<noteq> hg_side (gate_run g (take (Suc i) xs))"
  have *: "{i. i < length (us @ [u]) \<and> ?P (us @ [u]) i}
    = {i. i < length us \<and> ?P us i} \<union> (if gate_next (gate_run g us) u \<noteq> hg_side (gate_run g us) then {length us} else {})"
    by (auto simp: less_Suc_eq gate_run_side split: if_splits)
  have fin: "finite {i. i < length us \<and> ?P us i}" by simp
  have "card {i. i < length (us @ [u]) \<and> ?P (us @ [u]) i}
    = card {i. i < length us \<and> ?P us i} + (if gate_next (gate_run g us) u \<noteq> hg_side (gate_run g us) then 1 else 0)"
    unfolding * using fin by simp
  then show ?case using snoc by (simp add: gate_run_snoc Let_def)
qed simp

lemma mk_gate_InrD:
  assumes "mk_gate enter ex s = Inr g"
  shows "0 \<le> hg_exit g" "hg_exit g \<le> hg_enter g" "hg_enter g \<le> 1" "hg_side g = s" "hg_flips g = 0"
  using assms by (cases enter; cases ex; auto simp: mk_gate_def split: if_splits)+

text \<open>C20: The hysteresis gate is a Schmitt trigger on the intent. Started flat, after any sequence of finite intents it is long exactly when
  some intent reached the entry threshold and none since fell below the exit threshold, short exactly when the mirror image holds; it
  never goes from one side to the other or opens between the thresholds, and it counts its changes of side.\<close>

theorem gate_is_schmitt_trigger:
  assumes "mk_gate enter ex FLAT = Inr g" and "0 < hg_enter g"
  shows "(hg_side (gate_run g us) = LONG \<longleftrightarrow> (\<exists>k < length us. hg_enter g \<le> us ! k \<and> (\<forall>j. k < j \<longrightarrow> j < length us \<longrightarrow> hg_exit g \<le> us ! j)))
    \<and> (hg_side (gate_run g us) = SHORT \<longleftrightarrow> (\<exists>k < length us. us ! k \<le> - hg_enter g \<and> (\<forall>j. k < j \<longrightarrow> j < length us \<longrightarrow> us ! j \<le> - hg_exit g)))
    \<and> hg_flips (gate_run g us) = card {i. i < length us \<and> hg_side (gate_run g (take i us)) \<noteq> hg_side (gate_run g (take (Suc i) us))}"
  using gate_side_spec [OF assms(2) mk_gate_InrD(1,2,4) [OF assms(1)], of us] gate_flips [of g us] mk_gate_InrD(5) [OF assms(1)]
  by (simp add: held_since_def)

theorem gate_is_schmitt_trigger_witness:
  "hg_side (gate_run \<lparr>hg_enter = 1 / 4, hg_exit = 3 / 25, hg_side = FLAT, hg_flips = 0\<rparr> [1 / 5, 3 / 10, 3 / 20]) = LONG"
proof -
  have "mk_gate (Fin (1 / 4)) (Fin (3 / 25)) FLAT = Inr \<lparr>hg_enter = 1 / 4, hg_exit = 3 / 25, hg_side = FLAT, hg_flips = 0\<rparr>"
    by (simp add: mk_gate_def)
  note spec = gate_is_schmitt_trigger [OF this, of "[1 / 5, 3 / 10, 3 / 20]", simplified hysteresis_gate.select_convs]
  have "\<exists>k < length [1 / 5, 3 / 10, 3 / 20 :: rat]. 1 / 4 \<le> [1 / 5, 3 / 10, 3 / 20 :: rat] ! k
    \<and> (\<forall>j. k < j \<longrightarrow> j < length [1 / 5, 3 / 10, 3 / 20 :: rat] \<longrightarrow> 3 / 25 \<le> [1 / 5, 3 / 10, 3 / 20 :: rat] ! j)"
    by (rule exI [of _ 1]) (auto simp: less_Suc_eq nth_Cons')
  with spec show ?thesis by (simp only: simp_thms zero_less_divide_1_iff zero_less_numeral)
qed

section \<open>The sizer stays within its limits\<close>

lemma q_atr_InrD:
  assumes "q_atr u eq atr rho chi = Inr q"
  shows "0 \<le> q" "f64 q = q"
proof -
  show "0 \<le> q" using assms unfolding q_atr_def
    by (cases atr) (auto split: if_splits intro!: f64.rnd_nonneg divide_nonneg_nonneg mult_nonneg_nonneg)
  show "f64 q = q" using assms unfolding q_atr_def by (auto simp: f64.rnd_idem split: if_splits)
qed

lemma binding_limit_min:
  assumes "binding_limit qa qv ql = (q, bc)"
  shows "q = min qa (min qv ql)"
    and "bc = (if qa \<le> qv \<and> qa \<le> ql then BC_ATR_RISK else if qv < qa \<and> qv \<le> ql then BC_VOL_TARGET else BC_LEVERAGE)"
  using assms by (auto simp: binding_limit_def Let_def split: if_splits)

lemma sized_qty_InrD:
  assumes "sized_qty cx inp kappa sd q = Inr (qty, rc)" and "0 \<le> q" and "f64 q = q"
  shows "0 \<le> qty" "rc \<noteq> None \<or> sd = FLAT \<Longrightarrow> qty = 0" "kappa = 0 \<Longrightarrow> rc = Some RC_HALTED"
    "qty \<noteq> 0 \<Longrightarrow> on_grid cx (si_step_size inp) qty \<and> si_min_notional inp \<le> dmul cx qty (si_price inp)"
    "repr cx (float_repr q / qval (si_step_size inp)) \<Longrightarrow> f64 qty \<le> q"
proof -
  have zero: "f64 0 \<le> q" using assms(2) by simp
  have main: "0 \<le> r \<and> on_grid cx (si_step_size inp) r \<and> (repr cx (float_repr q / qval (si_step_size inp)) \<longrightarrow> f64 r \<le> q)"
    if r: "to_decimal cx (Fin q) (si_step_size inp) ROUND_DOWN = Inr r" for r
  proof -
    have r': "quantize_step cx (float_repr q) (si_step_size inp) ROUND_DOWN = Inr r" using r by simp
    note qs = quantize_step_InrD [OF r']
    have nn: "0 \<le> float_repr q"
      by (rule ccontr) (use float_repr_reads_back [OF assms(3)] f64.rnd_nonpos [of "float_repr q"] assms(2) in \<open>auto simp: float_repr_def\<close>)
    have "f64 r \<le> q" if e: "repr cx (float_repr q / qval (si_step_size inp))"
    proof -
      let ?x = "float_repr q / qval (si_step_size inp)"
      have "ddiv cx (float_repr q) (qval (si_step_size inp)) = ?x" using e by (simp add: ddiv_def repr_def)
      moreover have "of_int (to_integral_value ROUND_DOWN ?x) \<le> ?x" using nn qs(1) by (intro trunc_bounds) simp
      ultimately have "r \<le> float_repr q" unfolding qs(2) using qs(1) by (simp add: pos_le_divide_eq)
      then have "f64 r \<le> f64 (float_repr q)" by (rule f64.rnd_mono)
      then show ?thesis by (simp add: float_repr_reads_back [OF assms(3)])
    qed
    moreover have "0 \<le> r" using floor_qty_nonneg [of cx "float_repr q" "si_step_size inp" r] r' nn by (simp add: floor_qty_def)
    ultimately show ?thesis using qs(3) by simp
  qed
  show "0 \<le> qty" "rc \<noteq> None \<or> sd = FLAT \<Longrightarrow> qty = 0" "kappa = 0 \<Longrightarrow> rc = Some RC_HALTED"
    "qty \<noteq> 0 \<Longrightarrow> on_grid cx (si_step_size inp) qty \<and> si_min_notional inp \<le> dmul cx qty (si_price inp)"
    "repr cx (float_repr q / qval (si_step_size inp)) \<Longrightarrow> f64 qty \<le> q"
    using assms(1) main zero unfolding sized_qty_def
    by (auto elim!: rbind_InrE split: if_splits simp del: to_decimal.simps)
qed

text \<open>What a successful call computes.\<close>

lemma position_size_InrD:
  assumes "position_size cx prm inp = Inr r"
  obtains qa qv ql u kappa where "si_u_final inp = Fin u" "- 1 \<le> u" "u \<le> 1" "si_kappa_mode inp = Fin kappa" "0 \<le> kappa" "kappa \<le> 1" "0 < si_price inp"
    "0 \<le> qa" "f64 qa = qa" "0 \<le> qv" "f64 qv = qv" "0 \<le> ql" "f64 ql = ql"
    "q_atr u (f64 (si_equity inp)) (si_atr inp) (sp_rho_base prm) (sp_chi prm) = Inr qa"
    "sr_q_atr r = qa" "sr_q_vt r = qv" "sr_q_lev r = ql" "sr_q_raw r = f64 (kappa * min qa (min qv ql))"
    "sr_side r = side_of_intent u" "sr_kappa_mode r = kappa"
    "sized_qty cx inp kappa (side_of_intent u) (sr_q_raw r) = Inr (sr_qty r, sr_reject_code r)"
    "binding_limit qa qv ql = (min qa (min qv ql), sr_binding r)"
    "sr_notional r = dmul cx (sr_qty r) (si_price inp)"
proof -
  obtain u where u: "si_u_final inp = Fin u" "- 1 \<le> u" "u \<le> 1"
    using assms by (cases "si_u_final inp") (auto simp: position_size_def split: if_splits)
  obtain kappa where k: "si_kappa_mode inp = Fin kappa" "0 \<le> kappa" "kappa \<le> 1"
    using assms by (cases "si_kappa_mode inp") (auto simp: position_size_def split: if_splits)
  have p: "0 < si_price inp" using assms by (auto simp: position_size_def not_le split: if_splits)
  let ?e = "f64 (si_equity inp)" and ?p = "f64 (si_price inp)"
  define qv where "qv = (if 0 < ?e then max 0 (f64 (f64 (si_s_t inp * ?e) / ?p)) else 0)"
  define ql where "ql = max 0 (f64 (f64 (f64 (?e * sp_max_leverage prm) - f64 (si_gross_notional inp)) / ?p))"
  have qv: "0 \<le> qv" "f64 qv = qv" by (auto simp: qv_def max_def f64.rnd_idem)
  have ql: "0 \<le> ql" "f64 ql = ql" by (auto simp: ql_def max_def f64.rnd_idem)
  obtain qa where qa: "q_atr u ?e (si_atr inp) (sp_rho_base prm) (sp_chi prm) = Inr qa"
    using assms u k by (auto simp: position_size_def Let_def split: if_splits elim!: rbind_InrE)
  obtain q bc where q: "binding_limit qa qv ql = (q, bc)" by fastforce
  obtain qty rc where s: "sized_qty cx inp kappa (side_of_intent u) (f64 (kappa * q)) = Inr (qty, rc)"
    and r: "r = \<lparr>sr_qty = qty, sr_side = side_of_intent u, sr_binding = bc, sr_q_atr = qa, sr_q_vt = qv, sr_q_lev = ql, sr_s_t = si_s_t inp,
                   sr_sigma_ann = si_sigma_ann inp, sr_kappa_mode = kappa, sr_reject_code = rc, sr_q_raw = f64 (kappa * q),
                   sr_notional = dmul cx qty (si_price inp), sr_stop_distance = stop_distance (si_atr inp) (sp_chi prm)\<rparr>"
    using assms u k p qa q by (auto simp: position_size_def Let_def qv_def [symmetric] ql_def [symmetric] split: if_splits elim!: rbind_InrE)
  have m: "q = min qa (min qv ql)" using binding_limit_min(1) [OF q] .
  show ?thesis
    by (rule that [OF u k p q_atr_InrD [OF qa] qv ql qa]) (use r s q m in simp_all)
qed

text \<open>C19: The sizer never sizes above its limits. Whenever it returns, the quantity is not negative and is a multiple of the step; it is 0 if a
  reject code is given, if the intent is 0 and in a halted mode (which has the code HALTED whatever the intent); a quantity above 0 reaches the least notional.
  The unrounded size is the mode factor times the least of the three limits, hence at most each of them, and the named constraint
  is the first limit that attains this least; and the quantity, read back as a float, is at most that size whenever the quotient of the size by
  the step has no more digits than the decimal context (without that, rounding down may round up, see \<^verbatim>\<open>floor_qty_rounds_up\<close>).\<close>

theorem sizing_within_limits:
  assumes r: "position_size cx prm inp = Inr r"
  shows "0 \<le> sr_qty r \<and> (sr_qty r \<noteq> 0 \<longrightarrow> on_grid cx (si_step_size inp) (sr_qty r) \<and> si_min_notional inp \<le> sr_notional r)
    \<and> (sr_reject_code r \<noteq> None \<or> sr_side r = FLAT \<longrightarrow> sr_qty r = 0)
    \<and> (sr_kappa_mode r = 0 \<longrightarrow> sr_reject_code r = Some RC_HALTED)
    \<and> sr_q_raw r = f64 (sr_kappa_mode r * min (sr_q_atr r) (min (sr_q_vt r) (sr_q_lev r)))
    \<and> sr_q_raw r \<le> sr_q_atr r \<and> sr_q_raw r \<le> sr_q_vt r \<and> sr_q_raw r \<le> sr_q_lev r
    \<and> sr_binding r = (if sr_q_atr r \<le> sr_q_vt r \<and> sr_q_atr r \<le> sr_q_lev r then BC_ATR_RISK
                     else if sr_q_vt r < sr_q_atr r \<and> sr_q_vt r \<le> sr_q_lev r then BC_VOL_TARGET else BC_LEVERAGE)
    \<and> (repr cx (float_repr (sr_q_raw r) / qval (si_step_size inp)) \<longrightarrow> f64 (sr_qty r) \<le> sr_q_raw r)"
proof (rule position_size_InrD [OF r], goal_cases)
  case (1 qa qv ql u kappa)
  let ?m = "min qa (min qv ql)"
  have m: "0 \<le> ?m" "f64 ?m = ?m" using 1 by (auto simp: min_def)
  have "0 \<le> kappa * ?m" using 1(5) m(1) by (rule mult_nonneg_nonneg)
  then have raw: "0 \<le> sr_q_raw r" "f64 (sr_q_raw r) = sr_q_raw r" unfolding 1(18) by (rule f64.rnd_nonneg) (rule f64.rnd_idem)
  have "kappa * ?m \<le> 1 * ?m" using 1(6) m(1) by (rule mult_right_mono)
  then have le: "sr_q_raw r \<le> ?m" unfolding 1(18) using f64.rnd_le [OF m(2)] by simp
  note s = sized_qty_InrD [OF 1(21) raw]
  show ?case using s le binding_limit_min(2) [OF 1(22)] 1 by auto
qed

definition ex_sizing :: sizing_input where
  "ex_sizing = \<lparr>si_u_final = Fin (1 / 2), si_equity = 1024, si_price = 2, si_atr = Fin 1, si_s_t = 1, si_kappa_mode = Fin 1,
     si_step_size = \<lparr>q_coef = 1, q_exp = 0\<rparr>, si_min_notional = 1, si_gross_notional = 0, si_sigma_ann = NaN\<rparr>"

lemma ex_float_repr: "float_repr 2 = 2"
proof -
  have l: "ilog 10 (2 :: rat) = 0" by (rule ilog_eqI) (simp_all add: bpow_def)
  have c: "repr_candidates 2 1 = [2]" using f64_int [of 2] f64_int [of 3] by (simp add: repr_candidates_def l bpow_def)
  have u: "[1..<18] = 1 # [Suc 1..<18]" by (rule upt_conv_Cons) simp
  have f: "filter (\<lambda>c. c \<noteq> []) (map (repr_candidates 2) [1..<18]) = [2] # filter (\<lambda>c. c \<noteq> []) (map (repr_candidates 2) [Suc 1..<18])"
    unfolding u list.map filter.simps c by (simp del: upt_rec_numeral)
  have "float_repr_pos 2 = 2" unfolding float_repr_pos_def f by (simp del: upt_rec_numeral)
  then show ?thesis by (simp add: float_repr_def)
qed

theorem sizing_within_limits_witness:
  "\<exists>r. position_size Default_ctx \<lparr>sp_rho_base = 1 / 128, sp_chi = 2, sp_max_leverage = 3\<rparr> ex_sizing = Inr r
     \<and> sr_qty r = 2 \<and> f64 (sr_qty r) \<le> sr_q_raw r \<and> sr_binding r = BC_ATR_RISK"
proof -
  note f = f64_int [of 0, simplified] f64_int [of 1, simplified] f64_int [of 2, simplified] f64_int [of 4, simplified] f64_int [of 512, simplified]
    f64_int [of 1024, simplified] f64_int [of 1536, simplified] f64_int [of 3072, simplified]
  have f8: "f64 (1 / 256) = 1 / 256" using f64_dyadic [of 1 8] by simp
  have sel: "si_u_final ex_sizing = Fin (1 / 2)" "si_equity ex_sizing = 1024" "si_price ex_sizing = 2" "si_atr ex_sizing = Fin 1" "si_s_t ex_sizing = 1"
    "si_kappa_mode ex_sizing = Fin 1" "si_gross_notional ex_sizing = 0" "si_step_size ex_sizing = \<lparr>q_coef = 1, q_exp = 0\<rparr>" "si_min_notional ex_sizing = 1"
    by (simp_all add: ex_sizing_def)
  have 1: "q_atr (1 / 2) 1024 (Fin 1) (1 / 128) 2 = Inr 2" by (simp add: q_atr_def f f8)
  have 2: "sized_qty Default_ctx ex_sizing 1 LONG 2 = Inr (2, None)"
    by (simp add: sized_qty_def sel ex_float_repr evals)
  have 3: "binding_limit 2 512 1536 = (2, BC_ATR_RISK)" by (simp add: binding_limit_def)
  obtain r where r: "position_size Default_ctx \<lparr>sp_rho_base = 1 / 128, sp_chi = 2, sp_max_leverage = 3\<rparr> ex_sizing = Inr r"
    and q: "sr_qty r = 2" "sr_q_raw r = 2" "sr_q_atr r = 2" "sr_q_vt r = 512" "sr_q_lev r = 1536"
    using f by (simp add: position_size_def sel 1 2 3 side_of_intent_def Let_def)
  have e: "repr Default_ctx (float_repr (sr_q_raw r) / qval (si_step_size ex_sizing))"
    by (simp add: q ex_float_repr sel evals)
  show ?thesis using sizing_within_limits [OF r] e r q by auto
qed

end
