(* ===== verification/Router.thy ===== *)
theory Router
  imports BrokerProps
begin

text \<open>
  \<^verbatim>\<open>execution/router.py\<close>: the router in front of a venue makes the submission of an order idempotent by its
  client identifier. The venue is a parameter: how it takes a request and, if it offers it, how it reports the
  state of one. The paper broker is the venue of the program.
\<close>

section \<open>The router\<close>

record 'v venue_port =
  ve_submit :: "'v \<Rightarrow> order_request \<Rightarrow> 'v \<times> order_ack result"
  ve_query :: "('v \<Rightarrow> uuid \<Rightarrow> string \<Rightarrow> order_ack option result) option"

record router =
  ro_requests :: "(uuid, order_request) dict"
  ro_acks :: "(uuid, order_ack) dict"
  ro_venue_calls :: nat

definition router_init :: router where
  "router_init = \<lparr>ro_requests = [], ro_acks = [], ro_venue_calls = 0\<rparr>"

definition ro_now :: "int option \<Rightarrow> order_request \<Rightarrow> int" where
  "ro_now clock req = (case clock of Some t \<Rightarrow> t | None \<Rightarrow> or_ts_created_ns req)"

definition reconcile :: "'v venue_port \<Rightarrow> 'v \<Rightarrow> order_request \<Rightarrow> order_ack option" where
  "reconcile V v req = (case ve_query V of None \<Rightarrow> None
     | Some query \<Rightarrow> (case query v (or_client_order_id req) (or_instrument req) of Inl e \<Rightarrow> None | Inr a \<Rightarrow> a))"

definition ro_remember :: "router \<Rightarrow> order_request \<Rightarrow> order_ack \<Rightarrow> router" where
  "ro_remember r req ack = r\<lparr>ro_requests := dset (ro_requests r) (or_client_order_id req) req,
     ro_acks := dset (ro_acks r) (or_client_order_id req) ack\<rparr>"

definition route :: "'v venue_port \<Rightarrow> int option \<Rightarrow> router \<times> 'v \<Rightarrow> order_request \<Rightarrow> ((router \<times> 'v) \<times> order_ack) result" where
  "route V clock s req =
     (let (r, v) = s; c = or_client_order_id req in
      case dget (ro_requests r) c of
        Some prev \<Rightarrow>
          if prev = req then (case dget (ro_acks r) c of None \<Rightarrow> Inl KeyError | Some a \<Rightarrow> Inr ((r, v), a))
          else Inr ((r, v), ack_rejected c RC_DUPLICATE_CLIENT_ID (ro_now clock req))
      | None \<Rightarrow>
          let r1 = r\<lparr>ro_venue_calls := ro_venue_calls r + 1\<rparr>; (v1, res) = ve_submit V v req in
          case res of
            Inr ack \<Rightarrow> Inr ((ro_remember r1 req ack, v1), ack)
          | Inl e \<Rightarrow> (case reconcile V v1 req of
              None \<Rightarrow> Inr ((r1, v1), ack_rejected c RC_VENUE_ERROR (ro_now clock req))
            | Some ack \<Rightarrow> Inr ((ro_remember r1 req ack, v1), ack)))"

definition ack_of :: "router \<Rightarrow> uuid \<Rightarrow> order_ack option" where
  "ack_of r c = dget (ro_acks r) c"

text \<open>The paper broker as a venue; it offers no query. After an exception of \<^verbatim>\<open>submit\<close> the broker is as before.\<close>

definition paper_venue :: "dctx \<Rightarrow> int \<Rightarrow> broker venue_port" where
  "paper_venue cx now = \<lparr>ve_submit = (\<lambda>b req. case submit cx b now req of Inl e \<Rightarrow> (b, Inl e) | Inr (b', ack) \<Rightarrow> (b', Inr ack)),
     ve_query = None\<rparr>"

section \<open>Idempotence\<close>

definition router_ok :: "router \<Rightarrow> bool" where
  "router_ok r \<longleftrightarrow> (\<forall>c. dget (ro_requests r) c = None \<longleftrightarrow> dget (ro_acks r) c = None)
     \<and> (\<forall>c q. dget (ro_requests r) c = Some q \<longrightarrow> or_client_order_id q = c)"

definition routed :: "'v venue_port \<Rightarrow> router \<times> 'v \<Rightarrow> int option \<times> order_request \<Rightarrow> (router \<times> 'v) result" where
  "routed V s x = rbind (route V (fst x) s (snd x)) (\<lambda>(s', ack). Inr s')"

text \<open>A route either answers from memory or calls the venue once; what is remembered stays.\<close>

lemma route_cases:
  assumes "router_ok r"
  obtains
    (again) a where "dget (ro_requests r) (or_client_order_id req) = Some req" "dget (ro_acks r) (or_client_order_id req) = Some a"
      "route V clock (r, v) req = Inr ((r, v), a)"
  | (other) prev where "dget (ro_requests r) (or_client_order_id req) = Some prev" "prev \<noteq> req"
      "route V clock (r, v) req = Inr ((r, v), ack_rejected (or_client_order_id req) RC_DUPLICATE_CLIENT_ID (ro_now clock req))"
  | (called) r' v' a where "dget (ro_requests r) (or_client_order_id req) = None" "route V clock (r, v) req = Inr ((r', v'), a)"
      "v' = fst (ve_submit V v req)"
      "(\<exists>k. r' = ro_remember (r\<lparr>ro_venue_calls := k\<rparr>) req a) \<or> (ro_requests r' = ro_requests r \<and> ro_acks r' = ro_acks r \<and> oa_reject_code a = Some RC_VENUE_ERROR)"
proof (cases "dget (ro_requests r) (or_client_order_id req)")
  case None
  obtain v1 res where v1: "ve_submit V v req = (v1, res)" by (cases "ve_submit V v req")
  show thesis
  proof (cases res)
    case (Inl e)
    show thesis by (cases "reconcile V v1 req", rule called) (use None v1 Inl in \<open>auto simp: route_def Let_def ack_rejected_def intro: called\<close>)
  next
    case (Inr ack)
    show thesis by (rule called [of "ro_remember (r\<lparr>ro_venue_calls := ro_venue_calls r + 1\<rparr>) req ack" v1 ack])
      (use None v1 Inr in \<open>auto simp: route_def\<close>)
  qed
next
  case (Some prev)
  then have "dget (ro_acks r) (or_client_order_id req) \<noteq> None" using assms unfolding router_ok_def by (metis option.distinct(1))
  then obtain a where a: "dget (ro_acks r) (or_client_order_id req) = Some a" by blast
  show thesis by (cases "prev = req") (use Some a again other in \<open>auto simp: route_def\<close>)
qed

lemma router_ok_init: "router_ok router_init"
  by (simp add: router_ok_def router_init_def)

lemma router_ok_remember: "router_ok r \<Longrightarrow> router_ok (ro_remember (r\<lparr>ro_venue_calls := k\<rparr>) req a)"
  by (auto simp: router_ok_def ro_remember_def split: if_splits)

definition keeps :: "router \<Rightarrow> router \<Rightarrow> bool" where
  "keeps r r' \<longleftrightarrow> (\<forall>c q. dget (ro_requests r) c = Some q \<longrightarrow> dget (ro_requests r') c = Some q \<and> dget (ro_acks r') c = dget (ro_acks r) c)"

lemma keeps_remember: "dget (ro_requests r) (or_client_order_id req) = None \<Longrightarrow> keeps r (ro_remember (r\<lparr>ro_venue_calls := k\<rparr>) req a)"
  by (auto simp: keeps_def ro_remember_def)

lemma routed_ok:
  assumes "router_ok (fst s)" "routed V s x = Inr s'"
  shows "router_ok (fst s') \<and> keeps (fst s) (fst s')"
proof (rule route_cases [OF assms(1), of "snd x" V "fst x" "snd s"], goal_cases)
  case called: (3 r' v' a)
  then have s': "fst s' = r'" using assms(2) by (auto simp: routed_def)
  from called(4) show ?thesis
  proof
    assume "\<exists>k. r' = ro_remember (fst s\<lparr>ro_venue_calls := k\<rparr>) (snd x) a"
    then show ?thesis using s' router_ok_remember [OF assms(1)] keeps_remember [OF called(1)] by auto
  next
    assume "ro_requests r' = ro_requests (fst s) \<and> ro_acks r' = ro_acks (fst s) \<and> oa_reject_code a = Some RC_VENUE_ERROR"
    then show ?thesis using s' assms(1) by (simp add: router_ok_def keeps_def)
  qed
qed (use assms in \<open>auto simp: routed_def keeps_def\<close>)

interpretation rt: step_invariant "routed V" "\<lambda>s. router_ok (fst s)" for V
  by unfold_locales (use routed_ok in blast)

lemma routed_keeps: "router_ok (fst s) \<Longrightarrow> run_steps (routed V) s xs = Inr s' \<Longrightarrow> keeps (fst s) (fst s')"
proof (induction xs arbitrary: s)
  case (Cons x xs)
  from Cons.prems(2) obtain t where t: "routed V s x = Inr t" "run_steps (routed V) t xs = Inr s'" by (auto elim: rbind_InrE)
  from routed_ok [OF Cons.prems(1) t(1)] Cons.IH [OF _ t(2)] show ?case unfolding keeps_def by metis
qed (simp add: keeps_def)

text \<open>C3: Submission through the router is idempotent for every venue: the router never raises, and once a request was taken (the venue answered, or its
  state could be queried), repeating it after any other submissions returns the same receipt and leaves the venue untouched, and another request under
  its identifier is rejected as a duplicate without reaching the venue. A request whose venue failed is not remembered, so it can be repeated.\<close>

theorem router_idempotent:
  assumes "run_steps (routed V) (router_init, v0) xs = Inr s" and "route V clock s req = Inr ((r1, v1), ack)"
    and "run_steps (routed V) (r1, v1) ys = Inr (r2, v2)"
  shows "(dget (ro_requests r1) (or_client_order_id req) = Some req \<longrightarrow> route V clock' (r2, v2) req = Inr ((r2, v2), ack))
    \<and> (dget (ro_requests r1) (or_client_order_id req) = None \<longrightarrow> oa_reject_code ack = Some RC_VENUE_ERROR)
    \<and> (\<forall>q. or_client_order_id q = or_client_order_id req \<longrightarrow> q \<noteq> req \<longrightarrow> dget (ro_requests r1) (or_client_order_id req) = Some req \<longrightarrow>
         route V clock' (r2, v2) q = Inr ((r2, v2), ack_rejected (or_client_order_id req) RC_DUPLICATE_CLIENT_ID (ro_now clock' q)))
    \<and> (\<exists>z. route V clock' (r2, v2) q' = Inr z)"
proof -
  obtain r v where s: "s = (r, v)" by (cases s)
  have ok: "router_ok r" using rt.run_inv [OF _ assms(1)] router_ok_init by (simp add: s)
  have step: "routed V (r, v) (clock, req) = Inr (r1, v1)" using assms(2) by (simp add: routed_def s)
  have ok1: "router_ok r1" using routed_ok [OF _ step] ok by simp
  have keep: "keeps r1 r2" using routed_keeps [OF _ assms(3)] ok1 by simp
  have ok2: "router_ok r2" using rt.run_inv [OF _ assms(3)] ok1 by simp
  have a: "dget (ro_requests r1) (or_client_order_id req) = Some req \<Longrightarrow> dget (ro_acks r1) (or_client_order_id req) = Some ack"
    and b: "dget (ro_requests r1) (or_client_order_id req) = None \<Longrightarrow> oa_reject_code ack = Some RC_VENUE_ERROR"
    using assms(2) by (rule_tac route_cases [OF ok, of req V clock v], auto simp: s ro_remember_def)+
  have "\<exists>z. route V clock' (r2, v2) q' = Inr z" by (rule route_cases [OF ok2, of q' V clock' v2]) auto
  with a b keep show ?thesis by (auto simp: route_def keeps_def)
qed

text \<open>A venue that takes its first order and fails on every later one.\<close>

definition ex_venue :: "nat venue_port" where
  "ex_venue = \<lparr>ve_submit = (\<lambda>n req. (n + 1, if n = 0 then Inr \<lparr>oa_client_order_id = or_client_order_id req, oa_venue_order_id = Some n, oa_status = OS_NEW,
     oa_reject_code = None, oa_ts_ns = 0\<rparr> else Inl ValueError)), ve_query = None\<rparr>"

theorem router_idempotent_witness:
  "\<exists>r1 r2 ack. route ex_venue None (router_init, 0) ex_entry = Inr ((r1, 1), ack) \<and> run_steps (routed ex_venue) (r1, 1) [(None, ex_stop)] = Inr (r2, 2)
     \<and> route ex_venue None (r2, 2) ex_entry = Inr ((r2, 2), ack)"
proof -
  obtain r1 ack where a: "route ex_venue None (router_init, 0) ex_entry = Inr ((r1, 1), ack)" "dget (ro_requests r1) (or_client_order_id ex_entry) = Some ex_entry"
    by (simp add: route_def ex_venue_def router_init_def ro_remember_def)
  have "dget (ro_requests r1) (or_client_order_id ex_stop) = None"
    using a(1) by (auto simp: route_def ex_venue_def router_init_def ro_remember_def ex_entry_def ex_stop_def)
  then obtain r2 where b: "run_steps (routed ex_venue) (r1, 1) [(None, ex_stop)] = Inr (r2, 2)"
    by (simp add: routed_def route_def ex_venue_def reconcile_def)
  have r: "run_steps (routed ex_venue) (router_init, 0) [] = Inr (router_init, 0)" by simp
  from router_idempotent [OF r a(1) b, of None ex_entry] a b show ?thesis by blast
qed

end
