(* ===== verification/Fuzzy.thy ===== *)
theory Fuzzy
  imports Strings "HOL-Library.List_Lexorder" "HOL-Library.Char_ord"
begin

text \<open>
  \<^verbatim>\<open>fuzzy/membership.py\<close> and \<^verbatim>\<open>fuzzy/defuzz.py\<close>: membership functions, linguistic variables with the validation of their configuration,
  quadrature and the centroid. A finite float is the rational it stands for and every operation rounds with \<open>f64\<close>. The exponential of
  the language (\<^verbatim>\<open>math.exp\<close> in the scalar path, \<^verbatim>\<open>np.exp\<close> in the vectorised one) is the parameter \<open>ex\<close>; the scalar product \<^verbatim>\<open>@\<close> of
  numpy, which leaves the order of the additions open, is the parameter \<open>dot\<close>.
\<close>

section \<open>Membership functions\<close>

datatype mf = Trap rat rat rat rat | Tri rat rat rat rat | Gauss rat rat

definition trap_points_ok :: "rat \<Rightarrow> rat \<Rightarrow> rat \<Rightarrow> rat \<Rightarrow> bool" where
  "trap_points_ok a b c d \<longleftrightarrow> a \<le> b \<and> b \<le> c \<and> c \<le> d \<and> a \<noteq> d"

fun mk_trap :: "pyfloat \<Rightarrow> pyfloat \<Rightarrow> pyfloat \<Rightarrow> pyfloat \<Rightarrow> mf result" where
  "mk_trap (Fin a) (Fin b) (Fin c) (Fin d) = (if trap_points_ok a b c d then Inr (Trap a b c d) else Inl ValueError)"
| "mk_trap _ _ _ _ = Inl ValueError"

fun mk_triangular :: "pyfloat \<Rightarrow> pyfloat \<Rightarrow> pyfloat \<Rightarrow> pyfloat \<Rightarrow> mf result" where
  "mk_triangular (Fin a) (Fin b) (Fin c) (Fin d) = (if \<not> trap_points_ok a b c d then Inl ValueError else if b \<noteq> c then Inl ValueError else Inr (Tri a b c d))"
| "mk_triangular _ _ _ _ = Inl ValueError"

definition mk_tri :: "pyfloat \<Rightarrow> pyfloat \<Rightarrow> pyfloat \<Rightarrow> mf result" where
  "mk_tri a b c = mk_triangular a b b c"

fun mk_gauss :: "pyfloat \<Rightarrow> pyfloat \<Rightarrow> mf result" where
  "mk_gauss (Fin m) (Fin s) = (if s \<le> 0 then Inl ValueError else Inr (Gauss m s))"
| "mk_gauss _ _ = Inl ValueError"

definition trap_scalar :: "rat \<Rightarrow> rat \<Rightarrow> rat \<Rightarrow> rat \<Rightarrow> rat \<Rightarrow> rat" where
  "trap_scalar a b c d x =
     (if x < a \<or> d < x then 0
      else if x < b then f64 (f64 (x - a) / f64 (b - a))
      else if x \<le> c then 1
      else f64 (f64 (d - x) / f64 (d - c)))"

definition gauss_at :: "(rat \<Rightarrow> rat) \<Rightarrow> rat \<Rightarrow> rat \<Rightarrow> rat \<Rightarrow> rat" where
  "gauss_at ex m s x = (let z = f64 (f64 (x - m) / s) in ex (f64 (f64 (- 1/2 * z) * z)))"

fun mf_scalar :: "(rat \<Rightarrow> rat) \<Rightarrow> mf \<Rightarrow> rat \<Rightarrow> rat" where
  "mf_scalar ex (Trap a b c d) x = trap_scalar a b c d x"
| "mf_scalar ex (Tri a b c d) x = trap_scalar a b c d x"
| "mf_scalar ex (Gauss m s) x = gauss_at ex m s x"

text \<open>The vectorised form writes the three pieces one over the other, each under its mask.\<close>

definition trap_array :: "rat \<Rightarrow> rat \<Rightarrow> rat \<Rightarrow> rat \<Rightarrow> rat list \<Rightarrow> rat list" where
  "trap_array a b c d xs =
     (let mu = map (\<lambda>x. 0) xs;
          mu = (if a < b then map2 (\<lambda>x v. if a \<le> x \<and> x < b then f64 (f64 (x - a) / f64 (b - a)) else v) xs mu else mu);
          mu = map2 (\<lambda>x v. if b \<le> x \<and> x \<le> c then 1 else v) xs mu;
          mu = (if c < d then map2 (\<lambda>x v. if c < x \<and> x \<le> d then f64 (f64 (d - x) / f64 (d - c)) else v) xs mu else mu)
      in mu)"

fun mf_array :: "(rat \<Rightarrow> rat) \<Rightarrow> mf \<Rightarrow> rat list \<Rightarrow> rat list" where
  "mf_array ex (Trap a b c d) xs = trap_array a b c d xs"
| "mf_array ex (Tri a b c d) xs = trap_array a b c d xs"
| "mf_array ex (Gauss m s) xs = map (gauss_at ex m s) xs"

fun mf_core :: "mf \<Rightarrow> rat \<times> rat" where
  "mf_core (Trap a b c d) = (b, c)"
| "mf_core (Tri a b c d) = (b, c)"
| "mf_core (Gauss m s) = (m, m)"

fun mf_support :: "mf \<Rightarrow> pyfloat \<times> pyfloat" where
  "mf_support (Trap a b c d) = (Fin a, Fin d)"
| "mf_support (Tri a b c d) = (Fin a, Fin d)"
| "mf_support (Gauss m s) = (NInf, PInf)"

fun mf_knots :: "mf \<Rightarrow> (rat \<times> rat \<times> rat \<times> rat) option" where
  "mf_knots (Trap a b c d) = Some (a, b, c, d)"
| "mf_knots (Tri a b c d) = Some (a, b, c, d)"
| "mf_knots (Gauss m s) = None"

section \<open>Linguistic variables\<close>

record ling_var =
  lv_name :: string
  lv_lo :: rat
  lv_hi :: rat
  lv_terms :: "(string, mf) dict"

fun mk_ling_var :: "string \<Rightarrow> pyfloat \<Rightarrow> pyfloat \<Rightarrow> (string, mf) dict \<Rightarrow> ling_var result" where
  "mk_ling_var name (Fin lo) (Fin hi) terms =
     (if \<not> lo < hi then Inl ValueError else if terms = [] then Inl ValueError
      else Inr \<lparr>lv_name = name, lv_lo = lo, lv_hi = hi, lv_terms = terms\<rparr>)"
| "mk_ling_var _ _ _ _ = Inl ValueError"

definition term_names :: "ling_var \<Rightarrow> string list" where
  "term_names v = map fst (lv_terms v)"

definition clip_to :: "rat \<Rightarrow> rat \<Rightarrow> rat \<Rightarrow> rat" where
  "clip_to lo hi x = (if x < lo then lo else if hi < x then hi else x)"

fun fuzzify :: "(rat \<Rightarrow> rat) \<Rightarrow> ling_var \<Rightarrow> pyfloat \<Rightarrow> (string \<times> rat) list result" where
  "fuzzify ex v (Fin x) = Inr (map (\<lambda>(n, m). (n, mf_scalar ex m (clip_to (lv_lo v) (lv_hi v) x))) (lv_terms v))"
| "fuzzify ex v _ = Inl ValueError"

definition lv_evaluate :: "(rat \<Rightarrow> rat) \<Rightarrow> ling_var \<Rightarrow> rat list \<Rightarrow> rat list list" where
  "lv_evaluate ex v xs = map (\<lambda>(n, m). mf_array ex m xs) (lv_terms v)"

datatype defuzz_scheme = DZ_rect | DZ_trapezoid | DZ_simpson

text \<open>The required variables are fields; variables under other names are never read.\<close>

record membership =
  mc_T :: ling_var
  mc_R :: ling_var
  mc_V :: ling_var
  mc_U :: ling_var
  mc_scheme :: defuzz_scheme
  mc_nodes :: int

definition mk_membership :: "(string, ling_var) dict \<Rightarrow> defuzz_scheme \<Rightarrow> int \<Rightarrow> membership result" where
  "mk_membership vars scheme nodes = (case (dget vars ''T'', dget vars ''R'', dget vars ''V'', dget vars ''U'') of
     (Some t, Some r, Some v, Some u) \<Rightarrow> Inr \<lparr>mc_T = t, mc_R = r, mc_V = v, mc_U = u, mc_scheme = scheme, mc_nodes = nodes\<rparr>
   | _ \<Rightarrow> Inl ConfigValidationError)"

text \<open>\<^verbatim>\<open>INPUT_VARIABLES\<close> with their entries in the configuration.\<close>

definition input_vars :: "membership \<Rightarrow> (string \<times> ling_var) list" where
  "input_vars m = [(''T'', mc_T m), (''R'', mc_R m), (''V'', mc_V m)]"

definition ANY_TERM :: string where "ANY_TERM = ''any''"

section \<open>The configuration\<close>

text \<open>A failed validation is the path to the field.\<close>

type_synonym 'a checked = "string + 'a"

fun loc_path :: "(string + nat) list \<Rightarrow> string \<Rightarrow> string" where
  "loc_path [] out = out"
| "loc_path (Inr i # ps) out = loc_path ps (out @ ''['' @ nat_str i @ '']'')"
| "loc_path (Inl s # ps) out = loc_path ps (if out = [] then s else out @ ''.'' @ s)"

definition pydantic_path :: "(string + nat) list \<Rightarrow> string \<Rightarrow> string" where
  "pydantic_path loc prefix = (let out = loc_path loc prefix in if out = [] then ''$'' else out)"

datatype term_kind = K_tri | K_trap | K_gauss

record term_spec =
  tsp_type :: term_kind
  tsp_points :: "pyfloat list option"
  tsp_m :: "pyfloat option"
  tsp_sigma :: "pyfloat option"

definition points_ok :: "term_spec \<Rightarrow> bool" where
  "points_ok t = (case tsp_type t of
     K_gauss \<Rightarrow> tsp_points t = None
   | k \<Rightarrow> (case tsp_points t of
       None \<Rightarrow> False
     | Some v \<Rightarrow> length v = (if k = K_tri then 3 else 4) \<and> list_all f_isfinite v \<and>
         (let p = map f_val (if k = K_tri then [v ! 0, v ! 1, v ! 1, v ! 2] else v) in trap_points_ok (p ! 0) (p ! 1) (p ! 2) (p ! 3))))"

definition gauss_param_ok :: "term_spec \<Rightarrow> pyfloat option \<Rightarrow> bool" where
  "gauss_param_ok t v = (if tsp_type t \<noteq> K_gauss then v = None else (case v of Some (Fin x) \<Rightarrow> True | _ \<Rightarrow> False))"

definition sigma_ok :: "term_spec \<Rightarrow> bool" where
  "sigma_ok t \<longleftrightarrow> gauss_param_ok t (tsp_sigma t) \<and> (tsp_type t = K_gauss \<longrightarrow> (case tsp_sigma t of Some (Fin x) \<Rightarrow> 0 < x | _ \<Rightarrow> False))"

definition term_spec_error :: "term_spec \<Rightarrow> string option" where
  "term_spec_error t = (if \<not> points_ok t then Some ''points'' else if \<not> gauss_param_ok t (tsp_m t) then Some ''m'' else if \<not> sigma_ok t then Some ''sigma'' else None)"

definition term_build :: "term_spec \<Rightarrow> mf result" where
  "term_build t = (case tsp_type t of
     K_gauss \<Rightarrow> (case (tsp_m t, tsp_sigma t) of (Some m, Some s) \<Rightarrow> mk_gauss m s | _ \<Rightarrow> Inl AssertionError)
   | K_tri \<Rightarrow> (case tsp_points t of Some [a, b, c] \<Rightarrow> mk_tri a b c | Some _ \<Rightarrow> Inl TypeError | None \<Rightarrow> Inl AssertionError)
   | K_trap \<Rightarrow> (case tsp_points t of Some [a, b, c, d] \<Rightarrow> mk_trap a b c d | Some _ \<Rightarrow> Inl TypeError | None \<Rightarrow> Inl AssertionError))"

record variable_spec =
  vsp_range :: "pyfloat list"
  vsp_terms :: "(string, term_spec) dict"

text \<open>The first error in the order of the fields: the range, the terms one by one, then their number and names.\<close>

fun first_term_error :: "(string, term_spec) dict \<Rightarrow> (string + nat) list option" where
  "first_term_error [] = None"
| "first_term_error ((n, t) # ts) = (case term_spec_error t of Some f \<Rightarrow> Some [Inl n, Inl f] | None \<Rightarrow> first_term_error ts)"

definition range_ok :: "pyfloat list \<Rightarrow> bool" where
  "range_ok v \<longleftrightarrow> length v = 2 \<and> f_isfinite (v ! 0) \<and> f_isfinite (v ! 1) \<and> f_less (v ! 0) (v ! 1)"

definition variable_spec_error :: "variable_spec \<Rightarrow> (string + nat) list option" where
  "variable_spec_error v =
     (if \<not> range_ok (vsp_range v) then Some [Inl ''range'']
      else case first_term_error (vsp_terms v) of
        Some loc \<Rightarrow> Some (Inl ''terms'' # loc)
      | None \<Rightarrow> if vsp_terms v = [] \<or> (\<exists>n \<in> set (map fst (vsp_terms v)). n = [] \<or> n = ANY_TERM) then Some [Inl ''terms''] else None)"

record membership_spec =
  msp_variables :: "(string, variable_spec) dict"
  msp_scheme :: defuzz_scheme
  msp_nodes :: int

fun first_variable_error :: "(string, variable_spec) dict \<Rightarrow> (string + nat) list option" where
  "first_variable_error [] = None"
| "first_variable_error ((n, v) # vs) = (case variable_spec_error v of Some loc \<Rightarrow> Some (Inl n # loc) | None \<Rightarrow> first_variable_error vs)"

definition grid_nodes_ok :: "defuzz_scheme \<Rightarrow> int \<Rightarrow> bool" where
  "grid_nodes_ok scheme n \<longleftrightarrow> 3 \<le> n \<and> \<not> (scheme = DZ_simpson \<and> (n - 1) mod 2 \<noteq> 0)"

definition REQUIRED_VARIABLES :: "string list" where
  "REQUIRED_VARIABLES = [''T'', ''R'', ''V'', ''U'']"

definition membership_spec_error :: "membership_spec \<Rightarrow> (string + nat) list option" where
  "membership_spec_error s = (case first_variable_error (msp_variables s) of
     Some loc \<Rightarrow> Some (Inl ''variables'' # loc)
   | None \<Rightarrow>
       if \<exists>n \<in> set REQUIRED_VARIABLES. dget (msp_variables s) n = None then Some [Inl ''variables'']
       else if \<not> grid_nodes_ok (msp_scheme s) (msp_nodes s) then Some [Inl ''defuzz'', Inl ''grid_nodes''] else None)"

fun build_terms :: "(string, term_spec) dict \<Rightarrow> (string, mf) dict result" where
  "build_terms [] = Inr []"
| "build_terms ((n, t) # ts) = rbind (term_build t) (\<lambda>m. rbind (build_terms ts) (\<lambda>ms. Inr ((n, m) # ms)))"

fun build_variables :: "(string, variable_spec) dict \<Rightarrow> (string, ling_var) dict result" where
  "build_variables [] = Inr []"
| "build_variables ((n, v) # vs) =
     rbind (build_terms (vsp_terms v)) (\<lambda>ts. rbind (mk_ling_var n (vsp_range v ! 0) (vsp_range v ! 1) ts) (\<lambda>lv.
       rbind (build_variables vs) (\<lambda>lvs. Inr ((n, lv) # lvs))))"

text \<open>The outer sum is the validation of the configuration, the inner one what the constructors raise afterwards.\<close>

definition membership_from_spec :: "membership_spec \<Rightarrow> membership result checked" where
  "membership_from_spec s = (case membership_spec_error s of
     Some loc \<Rightarrow> Inl (pydantic_path loc '''')
   | None \<Rightarrow> Inr (rbind (build_variables (msp_variables s)) (\<lambda>vs. mk_membership vs (msp_scheme s) (msp_nodes s))))"

section \<open>Quadrature and the centroid\<close>

definition quadrature_weights :: "int \<Rightarrow> defuzz_scheme \<Rightarrow> rat \<Rightarrow> rat \<Rightarrow> rat list result" where
  "quadrature_weights nodes scheme lo hi =
     (if nodes < 3 then Inl ValueError
      else let delta = f64 (f64 (hi - lo) / of_int (nodes - 1)); n = nat nodes in
        case scheme of
          DZ_rect \<Rightarrow> Inr (replicate n delta)
        | DZ_trapezoid \<Rightarrow> Inr (map (\<lambda>j. if j = 0 \<or> j = n - 1 then f64 (1/2 * delta) else delta) [0..<n])
        | DZ_simpson \<Rightarrow> if (nodes - 1) mod 2 \<noteq> 0 then Inl ValueError
            else Inr (map (\<lambda>j. if j = 0 \<or> j = n - 1 then f64 (delta / 3) else if odd j then f64 (f64 (4 * delta) / 3) else f64 (f64 (2 * delta) / 3)) [0..<n]))"

definition make_grid :: "int \<Rightarrow> rat \<Rightarrow> rat \<Rightarrow> rat list result" where
  "make_grid nodes lo hi =
     (if nodes < 2 then Inl ValueError
      else let n = nodes - 1 in
        Inr (map (\<lambda>j. f64 (f64 (f64 (lo + hi) / 2) + f64 (f64 (f64 (hi - lo) / 2) * f64 (of_int (2 * int j - n) / of_int n)))) [0..<nat nodes]))"

definition nodes_for_delta :: "rat \<Rightarrow> rat \<Rightarrow> rat \<Rightarrow> int result" where
  "nodes_for_delta delta lo hi =
     (if delta = 0 then Inl ZeroDivisionError
      else let n = round_half_even (f64 (f64 (hi - lo) / delta)) in
      if n < 2 \<or> f64 (f64 (1 / 10 ^ 9) * f64 (hi - lo)) < \<bar>f64 (f64 (of_int n * delta) - f64 (hi - lo))\<bar> then Inl ValueError else Inr (n + 1))"

fun col_max :: "rat list list \<Rightarrow> rat list" where
  "col_max [] = []"
| "col_max [r] = r"
| "col_max (r # s # rs) = map2 max r (col_max (s # rs))"

definition fz_aggregate :: "rat list \<Rightarrow> rat list list \<Rightarrow> rat list" where
  "fz_aggregate betas mus = col_max (map2 (\<lambda>b row. map (min b) row) betas mus)"

type_synonym dot_product = "rat list \<Rightarrow> rat list \<Rightarrow> rat"

definition centroid_weighted :: "dot_product \<Rightarrow> rat list \<Rightarrow> rat list \<Rightarrow> rat list \<Rightarrow> rat \<Rightarrow> rat \<Rightarrow> rat" where
  "centroid_weighted dot w wu mu lo hi =
     (let den = dot w mu in if \<not> 0 < den then 0 else clip_to lo hi (f64 (dot wu mu / den)))"

definition centroid :: "dot_product \<Rightarrow> rat list \<Rightarrow> rat list \<Rightarrow> defuzz_scheme \<Rightarrow> rat result" where
  "centroid dot g m scheme =
     (if length g \<noteq> length m then Inl ValueError
      else if g = [] then Inl IndexError
      else rbind (quadrature_weights (int (length g)) scheme (hd g) (last g)) (\<lambda>w.
        Inr (centroid_weighted dot w (map2 (\<lambda>x y. f64 (x * y)) w g) m (hd g) (last g))))"


section \<open>The exact centroid of piecewise linear terms\<close>

type_synonym knots = "rat \<times> rat \<times> rat \<times> rat"

definition pl_eval :: "knots \<Rightarrow> rat \<Rightarrow> rat" where
  "pl_eval kn x = (case kn of (a, b, c, d) \<Rightarrow>
     if x < a \<or> d < x then 0
     else if x < b then f64 (f64 (x - a) / f64 (b - a))
     else if x \<le> c then 1
     else f64 (f64 (d - x) / f64 (d - c)))"

definition g_all :: "(knots \<times> rat) list \<Rightarrow> rat \<Rightarrow> rat list" where
  "g_all active x = map (\<lambda>(kn, b). min b (pl_eval kn x)) active"

definition break_points :: "rat \<Rightarrow> rat \<Rightarrow> (knots \<times> rat) list \<Rightarrow> rat list" where
  "break_points lo hi active = [lo, hi] @ concat (map (\<lambda>((a, b, c, d), beta).
     [a, b, c, d] @ (if a < b then [f64 (a + f64 (beta * f64 (b - a)))] else []) @ (if c < d then [f64 (d - f64 (beta * f64 (d - c)))] else [])) active)"

definition third_points :: "rat \<Rightarrow> rat \<Rightarrow> rat \<times> rat" where
  "third_points x0 h = (f64 (x0 + f64 (h / 3)), f64 (x0 + f64 (f64 (2 * h) / 3)))"

text \<open>The linear continuation of two inner values to the ends of the interval.\<close>

definition end_values :: "rat \<Rightarrow> rat \<Rightarrow> rat \<times> rat" where
  "end_values p q = (f64 (f64 (2 * p) - q), f64 (f64 (2 * q) - p))"

definition crossings :: "(knots \<times> rat) list \<Rightarrow> rat \<Rightarrow> rat \<Rightarrow> rat list" where
  "crossings active x0 x1 =
     (let h = f64 (x1 - x0) in
      if h \<le> 0 then []
      else let (p, q) = third_points x0 h; gp = g_all active p; gq = g_all active q in
        concat (map (\<lambda>i. concat (map (\<lambda>j.
          let (d0, d1) = end_values (f64 (gp ! i - gp ! j)) (f64 (gq ! i - gq ! j)) in
          if (d0 < 0 \<and> 0 < d1) \<or> (d1 < 0 \<and> 0 < d0) then [f64 (x0 + f64 (f64 (h * d0) / f64 (d0 - d1)))] else [])
          [i + 1..<length active])) [0..<length active]))"

definition piece_sums :: "(knots \<times> rat) list \<Rightarrow> rat \<times> rat \<Rightarrow> rat \<times> rat \<Rightarrow> rat \<times> rat" where
  "piece_sums active xx acc =
     (let (x0, x1) = xx; (area, moment) = acc; h = f64 (x1 - x0) in
      if h \<le> 0 then acc
      else let (p, q) = third_points x0 h;
               (y0, y1) = end_values (Max (set (g_all active p))) (Max (set (g_all active q)))
           in (f64 (area + f64 (f64 (h * f64 (y0 + y1)) / 2)),
               f64 (moment + f64 (f64 (h * f64 (f64 (x0 * f64 (f64 (2 * y0) + y1)) + f64 (x1 * f64 (y0 + f64 (2 * y1))))) / 6))))"

definition exact_centroid :: "mf list \<Rightarrow> rat list \<Rightarrow> rat \<Rightarrow> rat \<Rightarrow> rat result" where
  "exact_centroid mfs betas lo hi =
     (if \<exists>m \<in> set mfs. mf_knots m = None then Inl ValueError
      else if length mfs \<noteq> length betas then Inl ValueError
      else let active = filter (\<lambda>(kn, b). 0 < b) (zip (map (\<lambda>m. the (mf_knots m)) mfs) betas) in
        if active = [] then Inr 0
        else let xs = sort (remdups (filter (\<lambda>p. lo \<le> p \<and> p \<le> hi) (break_points lo hi active)));
                 extra = concat (map (\<lambda>(x0, x1). crossings active x0 x1) (zip xs (tl xs)));
                 ys = sort (remdups (xs @ filter (\<lambda>e. lo < e \<and> e < hi) extra));
                 (area, moment) = foldl (\<lambda>acc xx. piece_sums active xx acc) (0, 0) (zip ys (tl ys))
             in if \<not> 0 < area then Inr 0 else Inr (f64 (moment / area)))"

section \<open>Degrees of membership\<close>

text \<open>What the code relies on of the exponential: at most 1 and not negative left of 0.\<close>

definition exp_ok :: "(rat \<Rightarrow> rat) \<Rightarrow> bool" where
  "exp_ok ex \<longleftrightarrow> (\<forall>z \<le> 0. 0 \<le> ex z \<and> ex z \<le> 1)"

fun mf_ok :: "mf \<Rightarrow> bool" where
  "mf_ok (Trap a b c d) = trap_points_ok a b c d"
| "mf_ok (Tri a b c d) = (trap_points_ok a b c d \<and> b = c)"
| "mf_ok (Gauss m s) = (0 < s)"

lemma ratio_bounds:
  assumes "0 \<le> (x::rat)" and "x \<le> y"
  shows "0 \<le> f64 (f64 x / f64 y)" and "f64 (f64 x / f64 y) \<le> 1"
proof -
  have n: "0 \<le> f64 x" "f64 x \<le> f64 y" using assms by (simp_all add: f64.rnd_nonneg f64.rnd_mono)
  then have "f64 x / f64 y \<le> 1" by (auto simp: divide_le_eq_1)
  then show "f64 (f64 x / f64 y) \<le> 1" by (rule f64.rnd_le_1)
  show "0 \<le> f64 (f64 x / f64 y)" using n by (intro f64.rnd_nonneg) simp
qed

lemma trap_scalar_bounds: "0 \<le> trap_scalar a b c d x \<and> trap_scalar a b c d x \<le> 1"
  using ratio_bounds [of "x - a" "b - a"] ratio_bounds [of "d - x" "d - c"] by (auto simp: trap_scalar_def)

lemma gauss_bounds: "exp_ok ex \<Longrightarrow> 0 \<le> gauss_at ex m s x \<and> gauss_at ex m s x \<le> 1"
proof -
  assume ex: "exp_ok ex"
  obtain z where z: "z = f64 (f64 (x - m) / s)" by simp
  have "f64 (- 1/2 * z) * z \<le> 0"
  proof (cases "0 \<le> z")
    case True
    then have "f64 (- 1/2 * z) \<le> 0" by (intro f64.rnd_nonpos) simp
    with True show ?thesis by (simp add: mult_nonpos_nonneg)
  next
    case False
    then have "0 \<le> f64 (- 1/2 * z)" by (intro f64.rnd_nonneg) simp
    with False show ?thesis by (intro mult_nonneg_nonpos) simp_all
  qed
  then have "f64 (f64 (- 1/2 * z) * z) \<le> 0" by (rule f64.rnd_nonpos)
  with ex show ?thesis by (simp add: exp_ok_def gauss_at_def Let_def z [symmetric])
qed

lemma mf_scalar_bounds: "exp_ok ex \<Longrightarrow> 0 \<le> mf_scalar ex m x \<and> mf_scalar ex m x \<le> 1"
  using trap_scalar_bounds gauss_bounds by (cases m) auto

text \<open>The masked form computes the same values.\<close>

lemma map2_map_self: "map2 f xs (map g xs) = map (\<lambda>x. f x (g x)) xs"
  by (induction xs) auto

lemma trap_array_scalar:
  assumes "trap_points_ok a b c d"
  shows "trap_array a b c d xs = map (trap_scalar a b c d) xs"
  using assms unfolding trap_array_def Let_def trap_points_ok_def
  by (simp add: map2_map_self trap_scalar_def)

lemma mf_array_scalar: "mf_ok m \<Longrightarrow> mf_array ex m xs = map (mf_scalar ex m) xs"
  by (cases m) (auto simp: trap_array_scalar)

section \<open>A configuration that validates builds\<close>

definition ling_ok :: "ling_var \<Rightarrow> bool" where
  "ling_ok v \<longleftrightarrow> lv_lo v < lv_hi v \<and> lv_terms v \<noteq> [] \<and> (\<forall>(n, m) \<in> set (lv_terms v). mf_ok m \<and> n \<noteq> [] \<and> n \<noteq> ANY_TERM) \<and> dict_ok (lv_terms v)"

definition membership_ok :: "membership \<Rightarrow> bool" where
  "membership_ok m \<longleftrightarrow> ling_ok (mc_T m) \<and> ling_ok (mc_R m) \<and> ling_ok (mc_V m) \<and> ling_ok (mc_U m) \<and> grid_nodes_ok (mc_scheme m) (mc_nodes m)"

lemma f_isfinite_Fin: "f_isfinite x \<longleftrightarrow> (\<exists>v. x = Fin v)"
  by (cases x) auto

lemma length_3_4:
  "length v = 3 \<longleftrightarrow> (\<exists>a b c. v = [a, b, c])" "length v = 4 \<longleftrightarrow> (\<exists>a b c d. v = [a, b, c, d])"
  by (auto simp: eval_nat_numeral length_Suc_conv)

lemma term_build_ok:
  assumes "term_spec_error t = None"
  shows "\<exists>m. term_build t = Inr m \<and> mf_ok m"
  using assms
  by (cases "tsp_type t")
    (auto simp: term_spec_error_def points_ok_def gauss_param_ok_def sigma_ok_def term_build_def mk_tri_def length_3_4 f_isfinite_Fin
      split: if_splits option.splits pyfloat.splits)


lemma build_terms_ok:
  assumes "first_term_error ts = None"
  shows "\<exists>ms. build_terms ts = Inr ms \<and> map fst ms = map fst ts \<and> (\<forall>(n, m) \<in> set ms. mf_ok m)"
  using assms
proof (induction ts)
  case (Cons x ts)
  obtain n t where x: "x = (n, t)" by fastforce
  from Cons.prems x have e: "term_spec_error t = None" "first_term_error ts = None" by (auto split: option.splits)
  from term_build_ok [OF e(1)] Cons.IH [OF e(2)] show ?case by (auto simp: x)
qed simp

lemma range_okD:
  assumes "range_ok v"
  obtains lo hi where "v ! 0 = Fin lo" "v ! 1 = Fin hi" "lo < hi"
  using assms by (auto simp: range_ok_def f_isfinite_Fin)

lemma build_variables_ok:
  assumes "first_variable_error vs = None" and "\<forall>(n, v) \<in> set vs. dict_ok (vsp_terms v)"
  shows "\<exists>lvs. build_variables vs = Inr lvs \<and> map fst lvs = map fst vs \<and> (\<forall>(n, v) \<in> set lvs. ling_ok v)"
  using assms
proof (induction vs)
  case (Cons x vs)
  obtain n v where x: "x = (n, v)" by fastforce
  from Cons.prems x have e: "variable_spec_error v = None" "first_variable_error vs = None" "dict_ok (vsp_terms v)" by (auto split: option.splits)
  from e(1) have t: "range_ok (vsp_range v)" "first_term_error (vsp_terms v) = None" "vsp_terms v \<noteq> []"
    "\<forall>n \<in> set (map fst (vsp_terms v)). n \<noteq> [] \<and> n \<noteq> ANY_TERM"
    unfolding variable_spec_error_def by (auto split: if_splits option.splits)
  obtain lo hi where r: "vsp_range v ! 0 = Fin lo" "vsp_range v ! 1 = Fin hi" "lo < hi" by (rule range_okD [OF t(1)])
  from build_terms_ok [OF t(2)] obtain ms where ms: "build_terms (vsp_terms v) = Inr ms" "map fst ms = map fst (vsp_terms v)" "\<forall>(n, m) \<in> set ms. mf_ok m" by blast
  have ne: "ms \<noteq> []" using ms(2) t(3) by (metis map_is_Nil_conv)
  have names: "\<forall>(n, m) \<in> set ms. n \<noteq> [] \<and> n \<noteq> ANY_TERM"
  proof (clarify)
    fix n m assume "(n, m) \<in> set ms"
    then have "n \<in> set (map fst (vsp_terms v))" unfolding ms(2) [symmetric] by force
    then show "n \<noteq> [] \<and> n \<noteq> ANY_TERM" using t(4) by blast
  qed
  have "ling_ok \<lparr>lv_name = n, lv_lo = lo, lv_hi = hi, lv_terms = ms\<rparr>"
    using r(3) ne ms(2,3) names e(3) by (auto simp: ling_ok_def dict_ok_def)
  with Cons.IH [OF e(2)] Cons.prems(2) x r ms(1) ne show ?case by auto
qed simp

lemma membership_from_spec_ok:
  assumes "membership_from_spec s = Inr r" and "\<forall>(n, v) \<in> set (msp_variables s). dict_ok (vsp_terms v)"
  shows "\<exists>m. r = Inr m \<and> membership_ok m"
proof -
  from assms(1) have e: "membership_spec_error s = None" by (auto simp: membership_from_spec_def split: option.splits)
  then have v: "first_variable_error (msp_variables s) = None" "\<forall>n \<in> set REQUIRED_VARIABLES. dget (msp_variables s) n \<noteq> None" "grid_nodes_ok (msp_scheme s) (msp_nodes s)"
    by (auto simp: membership_spec_error_def split: option.splits if_splits)
  from build_variables_ok [OF v(1) assms(2)] obtain lvs where l: "build_variables (msp_variables s) = Inr lvs" "map fst lvs = map fst (msp_variables s)"
    "\<forall>(n, v) \<in> set lvs. ling_ok v" by blast
  have "dget lvs n \<noteq> None" if "n \<in> set REQUIRED_VARIABLES" for n
    using v(2) that l(2) by (metis map_of_eq_None_iff list.set_map)
  then obtain t rr vv u where g: "dget lvs ''T'' = Some t" "dget lvs ''R'' = Some rr" "dget lvs ''V'' = Some vv" "dget lvs ''U'' = Some u"
    by (fastforce simp: REQUIRED_VARIABLES_def)
  have "ling_ok w" if "dget lvs n = Some w" for n w using l(3) dget_in_set [OF that] by blast
  with g v(3) have "\<exists>m. mk_membership lvs (msp_scheme s) (msp_nodes s) = Inr m \<and> membership_ok m"
    by (auto simp: mk_membership_def membership_ok_def)
  with assms(1) e l(1) show ?thesis by (auto simp: membership_from_spec_def)
qed

end
