(* ===== verification/FuzzyRules.thy ===== *)
theory FuzzyRules
  imports Fuzzy
begin

text \<open>
  \<^verbatim>\<open>fuzzy/rules.py\<close>: the rule base and its validation. The main result is that the count of the rules, which is all the code checks
  beside duplicates, is enough: a validated base covers every combination of terms by exactly one rule.
\<close>

section \<open>Rules\<close>

record rule =
  ru_id :: string
  ru_if :: "(string, string) dict"
  ru_then :: string
  ru_w :: rat

record rule_base =
  rb_rules :: "rule list"
  rb_version :: int

fun rule_by_id :: "rule list \<Rightarrow> string \<Rightarrow> rule result" where
  "rule_by_id [] i = Inl KeyError"
| "rule_by_id (r # rs) i = (if ru_id r = i then Inr r else rule_by_id rs i)"

text \<open>The comparison stops at the first differing tm; a missing variable raises.\<close>

fun antecedent_is :: "(string, string) dict \<Rightarrow> (string \<times> string) list \<Rightarrow> bool result" where
  "antecedent_is a [] = Inr True"
| "antecedent_is a ((v, t) # vs) = (case dget a v of None \<Rightarrow> Inl KeyError | Some x \<Rightarrow> if x = t then antecedent_is a vs else Inr False)"

fun rule_lookup :: "rule list \<Rightarrow> string \<Rightarrow> string \<Rightarrow> string \<Rightarrow> rule result" where
  "rule_lookup [] t r v = Inl KeyError"
| "rule_lookup (x # xs) t r v =
     rbind (antecedent_is (ru_if x) [(''T'', t), (''R'', r), (''V'', v)]) (\<lambda>b. if b then Inr x else rule_lookup xs t r v)"

definition weight_ok :: "pyfloat \<Rightarrow> bool" where
  "weight_ok w \<longleftrightarrow> f_less (Fin 0) w \<and> f_le w (Fin 1)"

definition with_weights :: "rule_base \<Rightarrow> (string, pyfloat) dict \<Rightarrow> rule_base result" where
  "with_weights rb ws =
     (if \<not> set (map fst ws) \<subseteq> set (map ru_id (rb_rules rb)) then Inl KeyError
      else if \<not> list_all (\<lambda>(i, w). weight_ok w) ws then Inl ValueError
      else Inr (rb\<lparr>rb_rules := map (\<lambda>r. r\<lparr>ru_w := (case dget ws (ru_id r) of Some w \<Rightarrow> f_val w | None \<Rightarrow> ru_w r)\<rparr>) (rb_rules rb)\<rparr>))"

section \<open>Validation\<close>

definition rule_path :: "nat \<Rightarrow> string \<Rightarrow> string" where
  "rule_path i suffix = ''rules['' @ nat_str i @ '']'' @ suffix"

fun expand_vars :: "nat \<Rightarrow> rule \<Rightarrow> (string \<times> ling_var) list \<Rightarrow> string list list checked" where
  "expand_vars i r [] = Inr []"
| "expand_vars i r ((var, lv) # vs) = (case dget (ru_if r) var of
     None \<Rightarrow> Inl (rule_path i (''.if.'' @ var))
   | Some tm \<Rightarrow>
       if tm = ANY_TERM then rbind (expand_vars i r vs) (\<lambda>es. Inr (term_names lv # es))
       else if tm \<in> set (term_names lv) then rbind (expand_vars i r vs) (\<lambda>es. Inr ([tm] # es))
       else Inl (rule_path i (''.if.'' @ var)))"

fun cover :: "nat \<Rightarrow> string list list \<Rightarrow> (string list, nat) dict \<Rightarrow> (string list, nat) dict checked" where
  "cover i [] c = Inr c"
| "cover i (k # ks) c = (case dget c k of Some j \<Rightarrow> Inl (rule_path i ''.if'') | None \<Rightarrow> cover i ks (dset c k i))"

definition extra_vars :: "membership \<Rightarrow> rule \<Rightarrow> string list" where
  "extra_vars m r = sort (remdups (filter (\<lambda>v. v \<notin> set (map fst (input_vars m))) (map fst (ru_if r))))"

definition check_rule :: "membership \<Rightarrow> bool \<Rightarrow> nat \<Rightarrow> rule \<Rightarrow> (string, nat) dict \<Rightarrow> (string list, nat) dict
    \<Rightarrow> ((string, nat) dict \<times> (string list, nat) dict) checked" where
  "check_rule m production i r seen covered =
     (if dget seen (ru_id r) \<noteq> None then Inl (rule_path i ''.id'')
      else if extra_vars m r \<noteq> [] then Inl (rule_path i (''.if.'' @ hd (extra_vars m r)))
      else rbind (expand_vars i r (input_vars m)) (\<lambda>es.
        if ru_then r \<notin> set (term_names (mc_U m)) then Inl (rule_path i ''.then'')
        else if \<not> (0 < ru_w r \<and> ru_w r \<le> 1) then Inl (rule_path i ''.w'')
        else if production \<and> ru_w r \<noteq> 1 then Inl (rule_path i ''.w'')
        else rbind (cover i (product_lists es) covered) (\<lambda>c. Inr (dset seen (ru_id r) i, c))))"

fun check_rules :: "membership \<Rightarrow> bool \<Rightarrow> nat \<Rightarrow> rule list \<Rightarrow> (string, nat) dict \<Rightarrow> (string list, nat) dict
    \<Rightarrow> ((string, nat) dict \<times> (string list, nat) dict) checked" where
  "check_rules m production i [] seen covered = Inr (seen, covered)"
| "check_rules m production i (r # rs) seen covered =
     rbind (check_rule m production i r seen covered) (\<lambda>(s, c). check_rules m production (Suc i) rs s c)"

definition all_combos :: "membership \<Rightarrow> string list list" where
  "all_combos m = product_lists (map (\<lambda>(n, v). term_names v) (input_vars m))"

definition validate_rulebase :: "rule_base \<Rightarrow> membership \<Rightarrow> bool \<Rightarrow> bool \<Rightarrow> unit checked" where
  "validate_rulebase rb m production full =
     rbind (check_rules m production 0 (rb_rules rb) [] []) (\<lambda>sc.
       if full \<and> length (rb_rules rb) \<noteq> length (all_combos m) then Inl ''rules'' else Inr ())"

record rule_spec =
  rsp_id :: string
  rsp_if :: "(string, string) dict"
  rsp_then :: string
  rsp_w :: pyfloat

definition rule_spec_error :: "rule_spec \<Rightarrow> string option" where
  "rule_spec_error r =
     (if \<not> (1 \<le> length (rsp_id r) \<and> length (rsp_id r) \<le> 32) then Some ''id''
      else if rsp_then r = [] then Some ''then''
      else if \<not> weight_ok (rsp_w r) then Some ''w'' else None)"

fun rule_specs_error :: "nat \<Rightarrow> rule_spec list \<Rightarrow> (string + nat) list option" where
  "rule_specs_error i [] = None"
| "rule_specs_error i (r # rs) = (case rule_spec_error r of Some f \<Rightarrow> Some [Inl ''rules'', Inr i, Inl f] | None \<Rightarrow> rule_specs_error (Suc i) rs)"

definition rulebase_from_spec :: "int \<Rightarrow> rule_spec list \<Rightarrow> membership \<Rightarrow> bool \<Rightarrow> bool \<Rightarrow> rule_base checked" where
  "rulebase_from_spec version specs m production full = (case rule_specs_error 0 specs of
     Some loc \<Rightarrow> Inl (pydantic_path loc '''')
   | None \<Rightarrow>
       let rb = \<lparr>rb_rules = map (\<lambda>r. \<lparr>ru_id = rsp_id r, ru_if = rsp_if r, ru_then = rsp_then r, ru_w = f_val (rsp_w r)\<rparr>) specs, rb_version = version\<rparr>
       in rbind (validate_rulebase rb m production full) (\<lambda>_. Inr rb))"

definition rule_table :: "rule_base \<Rightarrow> membership \<Rightarrow> (string \<times> string list list) list result" where
  "rule_table rb m = mapres (\<lambda>v. rbind (mapres (\<lambda>r. mapres (\<lambda>t.
       rbind (rule_lookup (rb_rules rb) t r v) (\<lambda>x. Inr (ru_then x))) (term_names (mc_T m))) (term_names (mc_R m))) (\<lambda>rows. Inr (v, rows)))
     (term_names (mc_V m))"

section \<open>Coverage\<close>

text \<open>A rule covers a combination of terms if each of its three terms is the one asked for or \<^verbatim>\<open>any\<close>.\<close>

definition rule_covers :: "rule \<Rightarrow> string \<Rightarrow> string \<Rightarrow> string \<Rightarrow> bool" where
  "rule_covers x t r v \<longleftrightarrow> list_all (\<lambda>(var, y). dget (ru_if x) var = Some y \<or> dget (ru_if x) var = Some ANY_TERM) [(''T'', t), (''R'', r), (''V'', v)]"

lemma product_lists_ne: "list_all (\<lambda>xs. xs \<noteq> []) xss \<Longrightarrow> product_lists xss \<noteq> []"
proof (induction xss)
  case (Cons xs xss)
  then show ?case by (cases xs) auto
qed simp

lemma expand_vars_ok:
  assumes "expand_vars i r vs = Inr es" and "\<forall>(n, v) \<in> set vs. ling_ok v"
  shows "list_all (\<lambda>xs. xs \<noteq> []) es \<and> (\<forall>e \<in> set es. distinct e)
    \<and> list_all2 (\<lambda>e (n, v). set e \<subseteq> set (term_names v) \<and>
        (\<forall>x \<in> set (term_names v). x \<in> set e \<longleftrightarrow> dget (ru_if r) n = Some x \<or> dget (ru_if r) n = Some ANY_TERM)) es vs"
  using assms
proof (induction vs arbitrary: es)
  case (Cons x vs)
  obtain n v where x: "x = (n, v)" by fastforce
  have lv: "ling_ok v" using Cons.prems(2) x by simp
  then have tn: "distinct (term_names v)" "term_names v \<noteq> []" "ANY_TERM \<notin> set (term_names v)"
    by (auto simp: ling_ok_def dict_ok_def term_names_def)
  from Cons.prems(1) x obtain tm where t: "dget (ru_if r) n = Some tm" by (auto split: option.splits)
  show ?case
  proof (cases "tm = ANY_TERM")
    case True
    with Cons.prems(1) x t obtain es' where e: "es = term_names v # es'" "expand_vars i r vs = Inr es'" by (auto simp: rbind_Inr_iff)
    from Cons.IH [OF e(2)] Cons.prems(2) show ?thesis using tn t True by (simp add: e(1) x)
  next
    case False
    with Cons.prems(1) x t obtain es' where e: "es = [tm] # es'" "expand_vars i r vs = Inr es'" "tm \<in> set (term_names v)"
      by (auto simp: rbind_Inr_iff split: if_splits)
    from Cons.IH [OF e(2)] Cons.prems(2) show ?thesis using tn t False e(3) by (auto simp: e(1) x)
  qed
qed auto

lemma cover_ok:
  assumes "cover i ks c = Inr c'" and "distinct (map fst c)"
  shows "distinct (map fst c') \<and> set (map fst c') = set (map fst c) \<union> set ks \<and> distinct ks \<and> set ks \<inter> set (map fst c) = {}"
  using assms
proof (induction ks arbitrary: c)
  case (Cons k ks)
  then have k: "dget c k = None" "cover i ks (dset c k i) = Inr c'" by (auto split: option.splits)
  have f: "k \<notin> fst ` set c" using k(1) by (simp add: map_of_eq_None_iff)
  have d: "map fst (dset c k i) = map fst c @ [k]" by (simp add: dset_fresh [OF k(1)])
  from Cons.IH [OF k(2)] Cons.prems(2) f show ?case unfolding d by auto
qed simp


lemma check_rule_ok:
  assumes "check_rule m production i r seen covered = Inr (seen', covered')" and "membership_ok m" and "distinct (map fst covered)"
  shows "\<exists>es. expand_vars i r (input_vars m) = Inr es \<and> distinct (map fst covered') \<and> distinct (product_lists es)
    \<and> set (map fst covered') = set (map fst covered) \<union> set (product_lists es) \<and> set (product_lists es) \<inter> set (map fst covered) = {}
    \<and> seen' = dset seen (ru_id r) i \<and> dget seen (ru_id r) = None \<and> ru_then r \<in> set (term_names (mc_U m))
    \<and> 0 < ru_w r \<and> ru_w r \<le> 1 \<and> (production \<longrightarrow> ru_w r = 1)"
proof -
  from assms(1) obtain es where e: "expand_vars i r (input_vars m) = Inr es" "cover i (product_lists es) covered = Inr covered'"
    "seen' = dset seen (ru_id r) i" "dget seen (ru_id r) = None" "ru_then r \<in> set (term_names (mc_U m))" "0 < ru_w r" "ru_w r \<le> 1" "production \<longrightarrow> ru_w r = 1"
    by (auto simp: check_rule_def rbind_Inr_iff split: if_splits)
  from cover_ok [OF e(2) assms(3)] e show ?thesis by (intro exI conjI) auto
qed

text \<open>The combinations of the rules of a checked base, one list per rule.\<close>

lemma check_rules_ok:
  assumes "check_rules m production i rs seen covered = Inr sc" and "membership_ok m" and "distinct (map fst covered)"
  shows "\<exists>Ks. length Ks = length rs \<and> (\<forall>j < length rs. \<exists>es. expand_vars (i + j) (rs ! j) (input_vars m) = Inr es \<and> Ks ! j = product_lists es)
    \<and> distinct (concat Ks) \<and> set (concat Ks) \<inter> set (map fst covered) = {}
    \<and> (\<forall>r \<in> set rs. ru_then r \<in> set (term_names (mc_U m)) \<and> 0 < ru_w r \<and> ru_w r \<le> 1 \<and> (production \<longrightarrow> ru_w r = 1) \<and> dget seen (ru_id r) = None)
    \<and> distinct (map ru_id rs)"
  using assms
proof (induction rs arbitrary: i seen covered)
  case (Cons r rs)
  from Cons.prems(1) obtain s' c' where c: "check_rule m production i r seen covered = Inr (s', c')"
    and rest: "check_rules m production (Suc i) rs s' c' = Inr sc" by (auto simp: rbind_Inr_iff)
  from check_rule_ok [OF c Cons.prems(2,3)] obtain es where es: "expand_vars i r (input_vars m) = Inr es" "distinct (map fst c')" "distinct (product_lists es)"
    "set (map fst c') = set (map fst covered) \<union> set (product_lists es)" "set (product_lists es) \<inter> set (map fst covered) = {}"
    "s' = dset seen (ru_id r) i" "dget seen (ru_id r) = None" "ru_then r \<in> set (term_names (mc_U m))" "0 < ru_w r" "ru_w r \<le> 1" "production \<longrightarrow> ru_w r = 1"
    by (elim exE conjE)
  from Cons.IH [OF rest Cons.prems(2) es(2)] obtain Ks where K: "length Ks = length rs"
    "\<forall>j < length rs. \<exists>es. expand_vars (Suc i + j) (rs ! j) (input_vars m) = Inr es \<and> Ks ! j = product_lists es"
    "distinct (concat Ks)" "set (concat Ks) \<inter> set (map fst c') = {}"
    "\<forall>r \<in> set rs. ru_then r \<in> set (term_names (mc_U m)) \<and> 0 < ru_w r \<and> ru_w r \<le> 1 \<and> (production \<longrightarrow> ru_w r = 1) \<and> dget s' (ru_id r) = None"
    "distinct (map ru_id rs)" by (elim exE conjE)
  have ids: "ru_id x \<noteq> ru_id r \<and> dget seen (ru_id x) = None" if "x \<in> set rs" for x using K(5) that by (auto simp: es(6) split: if_splits)
  show ?case
  proof (intro exI [of _ "product_lists es # Ks"] conjI allI impI)
    fix j assume j: "j < length (r # rs)"
    show "\<exists>es'. expand_vars (i + j) ((r # rs) ! j) (input_vars m) = Inr es' \<and> (product_lists es # Ks) ! j = product_lists es'"
      using K(2) es(1) j by (cases j) auto
  next
    show "distinct (concat (product_lists es # Ks))" using K(3,4) es(3,4) by auto
    show "set (concat (product_lists es # Ks)) \<inter> set (map fst covered) = {}" using K(4) es(4,5) by auto
    show "distinct (map ru_id (r # rs))" using K(6) ids by force
  qed (use K(1,5) es(7-11) ids in auto)
qed simp

lemma combos_of_rule:
  assumes "expand_vars i x (input_vars m) = Inr es" and "membership_ok m"
  shows "product_lists es \<noteq> []" and "set (product_lists es) \<subseteq> set (all_combos m)"
    and "t \<in> set (term_names (mc_T m)) \<Longrightarrow> r \<in> set (term_names (mc_R m)) \<Longrightarrow> v \<in> set (term_names (mc_V m)) \<Longrightarrow> [t, r, v] \<in> set (product_lists es) \<longleftrightarrow> rule_covers x t r v"
proof -
  have "\<forall>(n, v) \<in> set (input_vars m). ling_ok v" using assms(2) by (simp add: input_vars_def membership_ok_def)
  note e = expand_vars_ok [OF assms(1) this]
  from e show "product_lists es \<noteq> []" by (intro product_lists_ne) blast
  from e obtain a b c where es: "es = [a, b, c]" by (auto simp: input_vars_def list_all2_Cons2)
  show "set (product_lists es) \<subseteq> set (all_combos m)"
    using e unfolding es all_combos_def product_lists_set by (auto simp: input_vars_def list_all2_Cons2)
  show "[t, r, v] \<in> set (product_lists es) \<longleftrightarrow> rule_covers x t r v"
    if "t \<in> set (term_names (mc_T m))" "r \<in> set (term_names (mc_R m))" "v \<in> set (term_names (mc_V m))"
    using e that unfolding es product_lists_set rule_covers_def by (simp add: input_vars_def)
qed

text \<open>C21: A rule base that validates as complete covers every combination of terms of the three inputs by exactly one rule, although the
  code only counts the rules and refuses duplicates; no rule matches nothing, the identifiers differ, every consequent is a term of
  the output, and in production every weight is 1.\<close>

theorem validated_rulebase_complete:
  assumes "validate_rulebase rb m production True = Inr ()" and "membership_ok m"
  shows "(\<forall>t \<in> set (term_names (mc_T m)). \<forall>r \<in> set (term_names (mc_R m)). \<forall>v \<in> set (term_names (mc_V m)).
        \<exists>!i. i < length (rb_rules rb) \<and> rule_covers (rb_rules rb ! i) t r v)
    \<and> distinct (map ru_id (rb_rules rb))
    \<and> (\<forall>x \<in> set (rb_rules rb). ru_then x \<in> set (term_names (mc_U m)) \<and> 0 < ru_w x \<and> ru_w x \<le> 1 \<and> (production \<longrightarrow> ru_w x = 1))"
proof -
  let ?rs = "rb_rules rb"
  from assms(1) obtain sc where c: "check_rules m production 0 ?rs [] [] = Inr sc" and n: "length ?rs = length (all_combos m)"
    by (auto simp: validate_rulebase_def rbind_Inr_iff split: if_splits)
  from check_rules_ok [OF c assms(2)] obtain Ks where K: "length Ks = length ?rs"
    "\<forall>j < length ?rs. \<exists>es. expand_vars (0 + j) (?rs ! j) (input_vars m) = Inr es \<and> Ks ! j = product_lists es"
    "distinct (concat Ks)" "\<forall>r \<in> set ?rs. ru_then r \<in> set (term_names (mc_U m)) \<and> 0 < ru_w r \<and> ru_w r \<le> 1 \<and> (production \<longrightarrow> ru_w r = 1) \<and> dget [] (ru_id r) = None"
    "distinct (map ru_id ?rs)" by auto
  have Kj: "Ks ! j \<noteq> [] \<and> set (Ks ! j) \<subseteq> set (all_combos m)" if "j < length Ks" for j
    using K(1,2) that combos_of_rule(1,2) [OF _ assms(2)] by fastforce
  have ne: "length xs \<le> length (concat xs)" if "\<forall>k \<in> set xs. 1 \<le> length k" for xs :: "string list list list"
    using that by (induction xs) auto
  have "\<forall>k \<in> set Ks. 1 \<le> length k" using Kj by (auto simp: in_set_conv_nth Suc_le_eq)
  then have "length Ks \<le> length (concat Ks)" by (rule ne)
  then have "card (set (all_combos m)) \<le> card (set (concat Ks))"
    unfolding distinct_card [OF K(3)] using card_length [of "all_combos m"] K(1) n by linarith
  moreover have "set (concat Ks) \<subseteq> set (all_combos m)"
  proof
    fix k assume "k \<in> set (concat Ks)"
    then obtain ks where "ks \<in> set Ks" "k \<in> set ks" by auto
    then obtain j where "j < length Ks" "k \<in> set (Ks ! j)" unfolding in_set_conv_nth [of ks] by blast
    then show "k \<in> set (all_combos m)" using Kj [of j] by blast
  qed
  ultimately have full: "set (concat Ks) = set (all_combos m)" by (intro card_seteq) (simp_all only: finite_set)
  have "\<exists>!i. i < length ?rs \<and> rule_covers (?rs ! i) t r v"
    if t: "t \<in> set (term_names (mc_T m))" "r \<in> set (term_names (mc_R m))" "v \<in> set (term_names (mc_V m))" for t r v
  proof -
    have cov: "[t, r, v] \<in> set (Ks ! j) \<longleftrightarrow> rule_covers (?rs ! j) t r v" if "j < length ?rs" for j
      using K(2) that combos_of_rule(3) [OF _ assms(2) t] by fastforce
    have "[t, r, v] \<in> set (concat Ks)" unfolding full all_combos_def product_lists_set using t by (simp add: input_vars_def)
    then obtain ks where "ks \<in> set Ks" "[t, r, v] \<in> set ks" by auto
    then obtain i where i: "i < length Ks" "[t, r, v] \<in> set (Ks ! i)" unfolding in_set_conv_nth [of ks] by blast
    have un: "j = i" if j: "j < length Ks" "[t, r, v] \<in> set (Ks ! j)" for j
    proof (rule ccontr)
      assume "j \<noteq> i"
      moreover have "distinct (removeAll [] Ks)" "\<forall>ys zs. ys \<in> set Ks \<and> zs \<in> set Ks \<and> ys \<noteq> zs \<longrightarrow> set ys \<inter> set zs = {}"
        using K(3) by (simp_all add: distinct_concat_iff)
      moreover have "removeAll [] Ks = Ks" using Kj by (auto simp: removeAll_filter_not_eq filter_id_conv in_set_conv_nth)
      ultimately have "Ks ! j \<noteq> Ks ! i" "Ks ! j = Ks ! i" using i j by (simp add: nth_eq_iff_index_eq, metis disjoint_iff nth_mem)
      then show False by blast
    qed
    show ?thesis
    proof (rule ex1I)
      show "i < length ?rs \<and> rule_covers (?rs ! i) t r v" using cov [of i] i K(1) by simp
      show "j = i" if "j < length ?rs \<and> rule_covers (?rs ! j) t r v" for j using un [of j] cov [of j] that K(1) by simp
    qed
  qed
  moreover have "\<forall>x \<in> set ?rs. ru_then x \<in> set (term_names (mc_U m)) \<and> 0 < ru_w x \<and> ru_w x \<le> 1 \<and> (production \<longrightarrow> ru_w x = 1)" using K(4) by simp
  ultimately show ?thesis using K(5) by simp
qed


text \<open>A small configuration: two terms of \<open>T\<close> and \<open>U\<close>, one of \<open>R\<close> and \<open>V\<close>.\<close>

definition ex_two :: "string \<Rightarrow> ling_var" where
  "ex_two n = \<lparr>lv_name = n, lv_lo = - 1, lv_hi = 1, lv_terms = [(''DN'', Trap (- 1) (- 1) (- 1) 1), (''UP'', Trap (- 1) 1 1 1)]\<rparr>"

definition ex_one :: "string \<Rightarrow> ling_var" where
  "ex_one n = \<lparr>lv_name = n, lv_lo = - 1, lv_hi = 1, lv_terms = [(''ONE'', Trap (- 1) (- 1) 1 1)]\<rparr>"

definition ex_membership :: membership where
  "ex_membership = \<lparr>mc_T = ex_two ''T'', mc_R = ex_one ''R'', mc_V = ex_one ''V'', mc_U = ex_two ''U'', mc_scheme = DZ_trapezoid, mc_nodes = 3\<rparr>"

definition ex_rules :: rule_base where
  "ex_rules = \<lparr>rb_rules = [\<lparr>ru_id = ''R1'', ru_if = [(''T'', ''UP''), (''R'', ''ONE''), (''V'', ''ONE'')], ru_then = ''UP'', ru_w = 1\<rparr>,
                           \<lparr>ru_id = ''R2'', ru_if = [(''T'', ''DN''), (''R'', ''ONE''), (''V'', ''ONE'')], ru_then = ''DN'', ru_w = 1\<rparr>], rb_version = 3\<rparr>"

lemmas ex_fuzzy_defs = ex_two_def ex_one_def ex_membership_def ex_rules_def

lemma ex_membership_ok: "membership_ok ex_membership"
  by (simp add: ex_fuzzy_defs membership_ok_def ling_ok_def trap_points_ok_def ANY_TERM_def dict_ok_def grid_nodes_ok_def)

lemma ex_rules_valid: "validate_rulebase ex_rules ex_membership production full = Inr ()"
  by (simp add: ex_fuzzy_defs validate_rulebase_def check_rule_def extra_vars_def input_vars_def ANY_TERM_def term_names_def all_combos_def)

lemma validated_rulebase_complete_witness:
  "\<exists>!i. i < length (rb_rules ex_rules) \<and> rule_covers (rb_rules ex_rules ! i) ''UP'' ''ONE'' ''ONE''"
  using validated_rulebase_complete [OF ex_rules_valid ex_membership_ok, of True]
  by (simp add: ex_membership_def ex_two_def ex_one_def term_names_def)

end
