(* ===== verification/MamdaniProps.thy ===== *)
theory MamdaniProps
  imports Mamdani
begin

text \<open>
  The three paths of the engine compute the same number; the degrees, the activations and the output stay in their ranges.
\<close>

section \<open>Running maxima\<close>

definition raises :: "(nat \<times> rat) list \<Rightarrow> rat list \<Rightarrow> rat list" where
  "raises ps b = foldl (\<lambda>b (u, a). raise_to u a b) b ps"

lemma raises_Cons: "raises ((u, a) # ps) b = raises ps (raise_to u a b)"
  by (simp add: raises_def)

lemma raises_append: "raises (ps @ qs) b = raises qs (raises ps b)"
  by (simp add: raises_def)

lemma length_raises [simp]: "length (raises ps b) = length b"
  by (induction ps arbitrary: b) (auto simp: raises_def raise_to_def)

lemma nth_raises:
  assumes "k < length b"
  shows "raises ps b ! k = Max (insert (b ! k) {a. (k, a) \<in> set ps})"
  using assms
proof (induction ps arbitrary: b)
  case (Cons p ps)
  obtain u a where p: "p = (u, a)" by fastforce
  have fin: "finite {a. (k, a) \<in> set qs}" for qs :: "(nat \<times> rat) list"
    by (rule finite_subset [of _ "snd ` set qs"]) force+
  have "raises (p # ps) b ! k = Max (insert (raise_to u a b ! k) {a. (k, a) \<in> set ps})"
    using Cons.IH [of "raise_to u a b"] Cons.prems by (simp add: p raises_Cons raise_to_def)
  also have "\<dots> = Max (insert (b ! k) {a. (k, a) \<in> set (p # ps)})"
  proof (cases "u = k")
    case True
    have "{x. (k, x) \<in> set (p # ps)} = insert a {x. (k, x) \<in> set ps}" using p True by auto
    moreover have "raise_to u a b ! k = max (b ! k) a" using True Cons.prems by (simp add: raise_to_def)
    moreover have "Max (insert (max x y) S) = Max (insert x (insert y S))" if "finite S" for x y :: rat and S
      using that by (cases "S = {}") (simp_all add: max.assoc)
    ultimately show ?thesis using fin by simp
  next
    case False
    then show ?thesis using p by (simp add: raise_to_def)
  qed
  finally show ?case .
qed (simp add: raises_def)

text \<open>Updates that are not positive do not change a list that starts at 0.\<close>

lemma raises_eqI:
  assumes "set ps \<subseteq> set qs" and "\<And>u a. (u, a) \<in> set qs \<Longrightarrow> (u, a) \<notin> set ps \<Longrightarrow> a \<le> 0"
  shows "raises ps (replicate n 0) = raises qs (replicate n 0)"
proof (rule nth_equalityI)
  fix k assume k: "k < length (raises ps (replicate n (0::rat)))"
  let ?A = "{a. (k, a) \<in> set ps}" and ?B = "{a. (k, a) \<in> set qs}"
  have fin: "finite ?A" "finite ?B" by (rule finite_subset [of _ "snd ` set ps"], force, simp, rule finite_subset [of _ "snd ` set qs"], force, simp)
  have "Max (insert 0 ?A) = Max (insert 0 ?B)"
  proof (rule antisym)
    show "Max (insert 0 ?A) \<le> Max (insert 0 ?B)" using fin assms(1) by (intro Max_mono) auto
    show "Max (insert 0 ?B) \<le> Max (insert 0 ?A)"
    proof (rule Max.boundedI)
      fix b assume "b \<in> insert 0 ?B"
      then consider "b \<le> 0" | "b \<in> ?A" using assms(2) by blast
      moreover have "0 \<le> Max (insert 0 ?A)" "b \<in> ?A \<Longrightarrow> b \<le> Max (insert 0 ?A)" using fin by (auto intro: Max_ge)
      ultimately show "b \<le> Max (insert 0 ?A)" by (metis order_trans)
    qed (use fin in auto)
  qed
  then show "raises ps (replicate n 0) ! k = raises qs (replicate n 0) ! k" using k by (simp add: nth_raises)
qed simp

section \<open>Both loops as running maxima\<close>

abbreviation cons_of :: "compiled_rule \<Rightarrow> nat" where
  "cons_of c \<equiv> fst (snd (snd (snd c)))"

lemma fire_rules_beta: "fst (fire_rules mt mr mv xs beta fired) = raises (map (\<lambda>(x, c). (cons_of c, alpha mt mr mv c)) xs) beta"
proof (induction xs arbitrary: beta fired)
  case (Cons x xs)
  then show ?case by (cases x) (simp add: Let_def raises_Cons)
qed (simp add: raises_def)

lemma strengths_group_raises:
  "strengths_group mu_t mr mv g beta = raises (map (\<lambda>(r, v, u, w). (u, f64 (min (min mu_t (mr ! r)) (mv ! v) * w))) g) beta"
  by (induction g arbitrary: beta) (auto simp: raises_Cons raises_def [of "[]"])

definition group_pairs :: "engine \<Rightarrow> rat list \<Rightarrow> rat list \<Rightarrow> nat \<Rightarrow> rat \<Rightarrow> (nat \<times> rat) list" where
  "group_pairs e mr mv ti mu_t = map (\<lambda>(r, v, u, w). (u, f64 (min (min mu_t (mr ! r)) (mv ! v) * w))) (en_by_t e ! ti)"

lemma strengths_loop_raises:
  "\<exists>ps. strengths_loop e lst ti mts mr mv beta = raises ps beta
     \<and> set ps = (\<Union>i \<in> {i. i < length mts \<and> \<not> (mts ! i \<le> 0 \<and> ti + i \<noteq> lst)}. set (group_pairs e mr mv (ti + i) (mts ! i)))"
proof (induction mts arbitrary: ti beta)
  case Nil
  show ?case by (auto simp: raises_def intro: exI [of _ "[]"])
next
  case (Cons mu mts)
  let ?skip = "mu \<le> 0 \<and> ti \<noteq> lst"
  let ?b = "if ?skip then beta else strengths_group mu mr mv (en_by_t e ! ti) beta"
  let ?p0 = "if ?skip then [] else group_pairs e mr mv ti mu"
  have b: "?b = raises ?p0 beta" by (simp add: strengths_group_raises group_pairs_def raises_def [of "[]"])
  from Cons.IH [of "Suc ti" ?b] obtain ps where ps: "strengths_loop e lst (Suc ti) mts mr mv ?b = raises ps ?b"
    "set ps = (\<Union>i \<in> {i. i < length mts \<and> \<not> (mts ! i \<le> 0 \<and> Suc ti + i \<noteq> lst)}. set (group_pairs e mr mv (Suc ti + i) (mts ! i)))" by (elim exE conjE)
  have I: "{i. i < length (mu # mts) \<and> \<not> ((mu # mts) ! i \<le> 0 \<and> ti + i \<noteq> lst)}
      = (if ?skip then {} else {0}) \<union> Suc ` {i. i < length mts \<and> \<not> (mts ! i \<le> 0 \<and> Suc ti + i \<noteq> lst)}"
    (is "?L = ?R")
  proof (intro set_eqI)
    fix i show "i \<in> ?L \<longleftrightarrow> i \<in> ?R" by (cases i) auto
  qed
  have "set (?p0 @ ps) = (\<Union>i \<in> ?L. set (group_pairs e mr mv (ti + i) ((mu # mts) ! i)))"
    unfolding I ps(2) set_append by auto
  moreover have "strengths_loop e lst ti (mu # mts) mr mv beta = raises (?p0 @ ps) beta" using ps(1) b by (simp add: raises_append)
  ultimately show ?case by blast
qed

section \<open>A compiled engine\<close>

lemma index_of_less: "index_of x ys = Inr i \<Longrightarrow> i < length ys \<and> ys ! i = x"
  by (induction ys arbitrary: i) (auto simp: rbind_Inr_iff split: if_splits)

definition engine_ok :: "engine \<Rightarrow> bool" where
  "engine_ok e \<longleftrightarrow> membership_ok (en_membership e) \<and> length (en_compiled e) = length (rb_rules (en_rules e))
     \<and> en_by_t e = group_by_t (length (lv_terms (mc_T (en_membership e)))) (en_compiled e)
     \<and> (\<forall>(t, r, v, u, w) \<in> set (en_compiled e). t \<le> length (lv_terms (mc_T (en_membership e))) \<and> r \<le> length (lv_terms (mc_R (en_membership e)))
          \<and> v \<le> length (lv_terms (mc_V (en_membership e))) \<and> u < u_count e \<and> 0 < w \<and> w \<le> 1)"

lemma term_slot_le: "term_slot r var lv = Inr i \<Longrightarrow> i \<le> length (lv_terms lv)"
  by (auto simp: term_slot_def term_names_def dest!: index_of_less split: option.splits if_splits)

lemma mk_engine_ok:
  assumes "mk_engine aex m rb sch n = Inr e" and "membership_ok m"
  shows "engine_ok e \<and> en_membership e = m \<and> en_rules e = rb \<and> (\<exists>g. en_mu_terms e = lv_evaluate aex (mc_U m) g \<and> g = en_grid e)"
proof -
  from assms(1) obtain g w cs u where v: "validate_rulebase rb m False False = Inr u" and c: "mapres (compile_rule m) (rb_rules rb) = Inr cs"
    and e: "en_membership e = m" "en_rules e = rb" "en_grid e = g" "en_mu_terms e = lv_evaluate aex (mc_U m) g" "en_compiled e = cs"
      "en_by_t e = group_by_t (length (lv_terms (mc_T m))) cs"
    by (auto simp: mk_engine_def Let_def rbind_Inr_iff split: sum.splits)
  from v obtain sc where "check_rules m False 0 (rb_rules rb) [] [] = Inr sc" by (auto simp: validate_rulebase_def rbind_Inr_iff)
  from check_rules_ok [OF this assms(2)] have w: "\<forall>r \<in> set (rb_rules rb). 0 < ru_w r \<and> ru_w r \<le> 1" by auto
  note mr = mapres_ok [OF c]
  have "t \<le> length (lv_terms (mc_T m)) \<and> r \<le> length (lv_terms (mc_R m)) \<and> v \<le> length (lv_terms (mc_V m)) \<and> u < length (lv_terms (mc_U m)) \<and> 0 < w' \<and> w' \<le> 1"
    if "(t, r, v, u, w') \<in> set cs" for t r v u w'
  proof -
    from that mr obtain i where i: "i < length (rb_rules rb)" "compile_rule m (rb_rules rb ! i) = Inr (t, r, v, u, w')" by (metis in_set_conv_nth)
    from i(2) have "term_slot (rb_rules rb ! i) ''T'' (mc_T m) = Inr t" "term_slot (rb_rules rb ! i) ''R'' (mc_R m) = Inr r"
      "term_slot (rb_rules rb ! i) ''V'' (mc_V m) = Inr v" "index_of (ru_then (rb_rules rb ! i)) (term_names (mc_U m)) = Inr u" "w' = ru_w (rb_rules rb ! i)"
      by (auto simp: compile_rule_def rbind_Inr_iff split: sum.splits)
    then show ?thesis using term_slot_le index_of_less w i(1) by (fastforce simp: term_names_def)
  qed
  with mr e assms(2) show ?thesis by (auto simp: engine_ok_def u_count_def)
qed

text \<open>The pairs of the groups that are not skipped are the pairs of the rules, but for some that are not positive.\<close>

lemma alpha_le_0: "mt ! t \<le> 0 \<Longrightarrow> 0 < w \<Longrightarrow> f64 (min (min (mt ! t) (mr ! r)) (mv ! v) * w) \<le> 0"
proof -
  assume "mt ! t \<le> 0" "0 < w"
  then have "min (min (mt ! t) (mr ! r)) (mv ! v) * w \<le> 0" by (intro mult_nonpos_nonneg) auto
  then show ?thesis by (rule f64.rnd_nonpos)
qed

lemma strengths_are_rule_maxima:
  assumes ok: "engine_ok e" and len: "length mt = length (lv_terms (mc_T (en_membership e))) + 1"
  shows "strengths e mt mr mv = raises (map (\<lambda>c. (cons_of c, alpha mt mr mv c)) (en_compiled e)) (replicate (u_count e) 0)"
proof -
  let ?cs = "en_compiled e" and ?n = "length (lv_terms (mc_T (en_membership e)))"
  let ?qs = "map (\<lambda>c. (cons_of c, alpha mt mr mv c)) ?cs"
  from strengths_loop_raises [of e "length mt - 1" 0 mt mr mv "replicate (u_count e) 0"] obtain ps where
    ps: "strengths e mt mr mv = raises ps (replicate (u_count e) 0)"
      "set ps = (\<Union>i \<in> {i. i < length mt \<and> \<not> (mt ! i \<le> 0 \<and> i \<noteq> ?n)}. set (group_pairs e mr mv i (mt ! i)))"
    by (auto simp: strengths_def len)
  have grp: "(u, a) \<in> set (group_pairs e mr mv i (mt ! i)) \<longleftrightarrow> (\<exists>r v w. (i, r, v, u, w) \<in> set ?cs \<and> a = f64 (min (min (mt ! i) (mr ! r)) (mv ! v) * w))"
    if "i < length mt" for u a i
  proof -
    have "en_by_t e ! i = map snd (filter (\<lambda>r. fst r = i) ?cs)" using ok that len by (simp add: engine_ok_def group_by_t_def del: upt_Suc)
    then show ?thesis by (force simp: group_pairs_def)
  qed
  have qs: "(u, a) \<in> set ?qs \<longleftrightarrow> (\<exists>i r v w. (i, r, v, u, w) \<in> set ?cs \<and> a = f64 (min (min (mt ! i) (mr ! r)) (mv ! v) * w))" for u a
    by (force simp: alpha_def)
  have sub: "set ps \<subseteq> set ?qs"
  proof
    fix p assume p: "p \<in> set ps"
    obtain u a where ua: "p = (u, a)" by fastforce
    from p obtain i where "i < length mt" "(u, a) \<in> set (group_pairs e mr mv i (mt ! i))" unfolding ps(2) ua by blast
    then show "p \<in> set ?qs" unfolding ua qs using grp by blast
  qed
  have "raises ps (replicate (u_count e) 0) = raises ?qs (replicate (u_count e) 0)"
  proof (rule raises_eqI [OF sub])
    fix u a assume q: "(u, a) \<in> set ?qs" and np: "(u, a) \<notin> set ps"
    from q obtain i r v w where c: "(i, r, v, u, w) \<in> set ?cs" "a = f64 (min (min (mt ! i) (mr ! r)) (mv ! v) * w)" unfolding qs by blast
    from ok c(1) have i: "i < length mt" "0 < w" unfolding engine_ok_def len by auto
    with c grp have "(u, a) \<in> set (group_pairs e mr mv i (mt ! i))" by blast
    with np i(1) have "mt ! i \<le> 0" unfolding ps(2) by blast
    with c(2) i(2) show "a \<le> 0" using alpha_le_0 by blast
  qed
  with ps(1) show ?thesis by simp
qed


section \<open>The three paths agree\<close>

lemma fuzzify_var_length: "fuzzify_var ex v x = Inr mu \<Longrightarrow> length mu = length (lv_terms v) + 1"
  by (cases x) auto

lemma fuzzify_var_bounds: "fuzzify_var ex v x = Inr mu \<Longrightarrow> exp_ok ex \<Longrightarrow> \<forall>y \<in> set mu. 0 \<le> y \<and> y \<le> 1"
  using mf_scalar_bounds by (cases x) (auto simp: split_beta)

lemma batch_var_fuzzify: "ling_ok v \<Longrightarrow> batch_var ex v x = fuzzify_var ex v x"
proof (cases x)
  case (Fin y)
  assume v: "ling_ok v"
  have "hd (mf_array ex m [z]) = mf_scalar ex m z" if "(n, m) \<in> set (lv_terms v)" for n m z
    using mf_array_scalar [of m ex "[z]"] v that by (auto simp: ling_ok_def)
  then show ?thesis by (auto simp: Fin)
qed auto

lemma zip_snd: "length xs = length ys \<Longrightarrow> map (\<lambda>(x, c). g c) (zip xs ys) = map g ys"
  by (induction xs ys rule: list_induct2) auto

lemma alpha_bounds:
  assumes "engine_ok e" and "c \<in> set (en_compiled e)" and "length mt = length (lv_terms (mc_T (en_membership e))) + 1"
    "length mr = length (lv_terms (mc_R (en_membership e))) + 1" "length mv = length (lv_terms (mc_V (en_membership e))) + 1"
    and "\<forall>y \<in> set mt. 0 \<le> y \<and> y \<le> 1" "\<forall>y \<in> set mr. 0 \<le> y \<and> y \<le> 1" "\<forall>y \<in> set mv. 0 \<le> y \<and> y \<le> 1"
  shows "0 \<le> alpha mt mr mv c \<and> alpha mt mr mv c \<le> 1"
proof -
  obtain t r v u w where c: "c = (t, r, v, u, w)" by (cases c)
  have i: "t < length mt" "r < length mr" "v < length mv" "0 < w" "w \<le> 1" using assms(1-5) c unfolding engine_ok_def by auto
  have m: "0 \<le> min (min (mt ! t) (mr ! r)) (mv ! v)" "min (min (mt ! t) (mr ! r)) (mv ! v) \<le> 1"
    using assms(6-8) i(1-3) by (auto simp: min_le_iff_disj)
  from m i(4,5) have "0 \<le> min (min (mt ! t) (mr ! r)) (mv ! v) * w" "min (min (mt ! t) (mr ! r)) (mv ! v) * w \<le> 1"
    using mult_le_one [of "min (min (mt ! t) (mr ! r)) (mv ! v)" w] by simp_all
  then show ?thesis by (simp add: c alpha_def f64.rnd_nonneg f64.rnd_le_1)
qed

lemma batch_beta_raises:
  assumes "engine_ok e" and "\<forall>c \<in> set (en_compiled e). 0 \<le> alpha mt mr mv c"
  shows "batch_beta e mt mr mv = raises (map (\<lambda>c. (cons_of c, alpha mt mr mv c)) (en_compiled e)) (replicate (u_count e) 0)"
proof (rule nth_equalityI)
  fix k assume "k < length (batch_beta e mt mr mv)"
  then have k: "k < u_count e" by (simp add: batch_beta_def)
  let ?sel = "filter (\<lambda>c. cons_of c = k) (en_compiled e)"
  let ?A = "set (map (alpha mt mr mv) ?sel)"
  have A: "{a. (k, a) \<in> set (map (\<lambda>c. (cons_of c, alpha mt mr mv c)) (en_compiled e))} = ?A" by auto
  have "batch_beta e mt mr mv ! k = (if ?sel = [] then 0 else Max ?A)" using k by (simp add: batch_beta_def Let_def del: set_map)
  also have "\<dots> = Max (insert 0 ?A)"
  proof (cases "?sel = []")
    case False
    then have ne: "?A \<noteq> {}" by (simp only: set_map image_is_empty set_empty not_False_eq_True)
    obtain c where c: "c \<in> set ?sel" using False by (metis list.set_sel(1))
    then have "0 \<le> alpha mt mr mv c" using assms(2) by simp
    also have "\<dots> \<le> Max ?A" using c by (intro Max_ge) auto
    finally have "0 \<le> Max ?A" .
    then show ?thesis using False ne by (simp add: Max_insert max.absorb2 del: set_map)
  qed (simp only: if_True list.map list.set, simp)
  also have "\<dots> = raises (map (\<lambda>c. (cons_of c, alpha mt mr mv c)) (en_compiled e)) (replicate (u_count e) 0) ! k"
    using nth_raises [of k "replicate (u_count e) 0" "map (\<lambda>c. (cons_of c, alpha mt mr mv c)) (en_compiled e)"] k unfolding A by simp
  finally show "batch_beta e mt mr mv ! k = raises (map (\<lambda>c. (cons_of c, alpha mt mr mv c)) (en_compiled e)) (replicate (u_count e) 0) ! k" .
qed (simp add: batch_beta_def)

lemma fuzzify_all_ok:
  assumes "fuzzify_all ex e T R V = Inr (mt, mr, mv)"
  shows "fuzzify_var ex (mc_T (en_membership e)) T = Inr mt" and "fuzzify_var ex (mc_R (en_membership e)) R = Inr mr"
    and "fuzzify_var ex (mc_V (en_membership e)) V = Inr mv"
  using assms by (auto simp: fuzzify_all_def rbind_Inr_iff)

lemma infer_unfold:
  assumes "engine_ok e" and "fuzzify_all ex e T R V = Inr (mt, mr, mv)"
  shows "\<exists>r. infer ex dot e T R V = Inr r \<and> infer_u ex dot e T R V = Inr (fz_u_raw r)
    \<and> fz_u_raw r = defuzzify dot e (strengths e mt mr mv) (fz_mu_agg r) \<and> fz_mu_agg r = fz_aggregate (strengths e mt mr mv) (en_mu_terms e)
    \<and> fz_fired r = sort_key fired_key (snd (fire_rules mt mr mv (zip (rb_rules (en_rules e)) (en_compiled e)) (replicate (u_count e) 0) []))
    \<and> fz_memberships r = [(''T'', degrees (mc_T (en_membership e)) mt), (''R'', degrees (mc_R (en_membership e)) mr), (''V'', degrees (mc_V (en_membership e)) mv)]"
proof -
  have len: "length mt = length (lv_terms (mc_T (en_membership e))) + 1" using fuzzify_var_length [OF fuzzify_all_ok(1) [OF assms(2)]] .
  have cl: "length (rb_rules (en_rules e)) = length (en_compiled e)" using assms(1) by (simp add: engine_ok_def)
  have "fst (fire_rules mt mr mv (zip (rb_rules (en_rules e)) (en_compiled e)) (replicate (u_count e) 0) []) = strengths e mt mr mv"
    by (simp add: fire_rules_beta zip_snd [OF cl] strengths_are_rule_maxima [OF assms(1) len])
  then show ?thesis using assms(2) by (auto simp: infer_def infer_u_def Let_def split: prod.splits)
qed

lemma col_max_in: "x \<in> set (col_max rows) \<Longrightarrow> \<exists>r \<in> set rows. x \<in> set r"
proof (induction rows arbitrary: x rule: col_max.induct)
  case (3 r s rs)
  from 3(2) obtain a b where ab: "(a, b) \<in> set (zip r (col_max (s # rs)))" "x = max a b" by auto
  then have "a \<in> set r" "b \<in> set (col_max (s # rs))" by (auto dest: set_zip_leftD set_zip_rightD)
  with 3(1) [of b] ab(2) show ?case by (cases "a \<le> b") (auto simp: max_def)
qed auto

lemma aggregate_in: "x \<in> set (fz_aggregate betas mus) \<Longrightarrow> \<exists>b \<in> set betas. \<exists>row \<in> set mus. \<exists>y \<in> set row. x = min b y"
  unfolding fz_aggregate_def using col_max_in [of x] by (fastforce dest: set_zip_leftD set_zip_rightD)

lemma mu_terms_bounds:
  assumes "exp_ok aex" and "ling_ok v" and "row \<in> set (lv_evaluate aex v xs)" "y \<in> set row"
  shows "0 \<le> y \<and> y \<le> 1"
proof -
  from assms(3) obtain n mm where "(n, mm) \<in> set (lv_terms v)" "row = mf_array aex mm xs" by (auto simp: lv_evaluate_def)
  with assms(2,4) have "y \<in> set (map (mf_scalar aex mm) xs)" using mf_array_scalar [of mm aex xs] by (auto simp: ling_ok_def)
  then show ?thesis using mf_scalar_bounds [OF assms(1)] by auto
qed

text \<open>The activations of the consequents lie in the unit interval; if no rule fires they are all 0.\<close>

lemma strengths_bounds:
  assumes "engine_ok e" and "exp_ok ex" and f: "fuzzify_all ex e T R V = Inr (mt, mr, mv)"
  shows "length (strengths e mt mr mv) = u_count e" and "\<forall>b \<in> set (strengths e mt mr mv). 0 \<le> b \<and> b \<le> 1"
    and "\<forall>c \<in> set (en_compiled e). 0 \<le> alpha mt mr mv c \<and> alpha mt mr mv c \<le> 1"
    and "(\<forall>c \<in> set (en_compiled e). alpha mt mr mv c \<le> 0) \<Longrightarrow> \<forall>b \<in> set (strengths e mt mr mv). b = 0"
proof -
  note fv = fuzzify_all_ok [OF f]
  note len = fv [THEN fuzzify_var_length] and bd = fv [THEN fuzzify_var_bounds, OF assms(2)]
  show al: "\<forall>c \<in> set (en_compiled e). 0 \<le> alpha mt mr mv c \<and> alpha mt mr mv c \<le> 1"
    using alpha_bounds [OF assms(1) _ len bd] by blast
  let ?ps = "map (\<lambda>c. (cons_of c, alpha mt mr mv c)) (en_compiled e)"
  note st = strengths_are_rule_maxima [OF assms(1) len(1), of mr mv]
  show l: "length (strengths e mt mr mv) = u_count e" by (simp add: st)
  have in0: "b = 0 \<or> (\<exists>c \<in> set (en_compiled e). b = alpha mt mr mv c)" if "b \<in> set (strengths e mt mr mv)" for b
  proof -
    from that l obtain k where k: "k < u_count e" "b = strengths e mt mr mv ! k" by (auto simp: in_set_conv_nth)
    have fin: "finite {a. (k, a) \<in> set ?ps}" by (rule finite_subset [of _ "snd ` set ?ps"]) force+
    have "b \<in> insert 0 {a. (k, a) \<in> set ?ps}"
      using Max_in [of "insert 0 {a. (k, a) \<in> set ?ps}"] fin k by (simp add: st nth_raises)
    then show ?thesis by auto
  qed
  then show "\<forall>b \<in> set (strengths e mt mr mv). 0 \<le> b \<and> b \<le> 1" using al by (metis order_refl zero_le_one)
  show "\<forall>b \<in> set (strengths e mt mr mv). b = 0" if "\<forall>c \<in> set (en_compiled e). alpha mt mr mv c \<le> 0"
    using in0 al that by (metis antisym)
qed

lemma u_count_pos: "engine_ok e \<Longrightarrow> 0 < u_count e"
  by (simp add: engine_ok_def membership_ok_def ling_ok_def u_count_def)

lemma infer_batch_agrees:
  assumes ok: "engine_ok e" and ex: "exp_ok ex" and mu: "\<forall>row \<in> set (en_mu_terms e). \<forall>y \<in> set row. 0 \<le> y"
    and dot: "\<And>w mu. \<forall>x \<in> set mu. x = 0 \<Longrightarrow> dot w mu = 0"
    and u0: "lv_lo (mc_U (en_membership e)) \<le> 0" "0 \<le> lv_hi (mc_U (en_membership e))"
  shows "infer_batch ex dot e T R V = infer_u ex dot e T R V"
proof (cases "fuzzify_all ex e T R V")
  case (Inl x)
  have lv: "ling_ok (mc_T (en_membership e))" "ling_ok (mc_R (en_membership e))" "ling_ok (mc_V (en_membership e))" using ok by (simp_all add: engine_ok_def membership_ok_def)
  from Inl show ?thesis by (auto simp: infer_batch_def infer_u_def fuzzify_all_def batch_var_fuzzify lv rbind_def split: sum.splits)
next
  case (Inr ms)
  obtain mt mr mv where ms: "ms = (mt, mr, mv)" by (cases ms)
  with Inr have f: "fuzzify_all ex e T R V = Inr (mt, mr, mv)" by simp
  have lv: "ling_ok (mc_T (en_membership e))" "ling_ok (mc_R (en_membership e))" "ling_ok (mc_V (en_membership e))" using ok by (simp_all add: engine_ok_def membership_ok_def)
  let ?b = "strengths e mt mr mv" and ?lo = "lv_lo (mc_U (en_membership e))" and ?hi = "lv_hi (mc_U (en_membership e))"
  let ?mu = "fz_aggregate ?b (en_mu_terms e)"
  note sb = strengths_bounds [OF ok ex f]
  have bb: "batch_beta e mt mr mv = ?b"
    using batch_beta_raises [OF ok, of mt mr mv] sb(3) strengths_are_rule_maxima [OF ok fuzzify_var_length [OF fuzzify_all_ok(1) [OF f]]] by simp
  have c0: "clip_to ?lo ?hi 0 = 0" using u0 by (simp add: clip_to_def)
  have "infer_batch ex dot e T R V = Inr (clip_to ?lo ?hi (if 0 < dot (en_wts e) ?mu then f64 (dot (en_wu e) ?mu / dot (en_wts e) ?mu) else 0))"
    using fuzzify_all_ok [OF f] by (simp add: infer_batch_def batch_var_fuzzify lv bb Let_def)
  also have "\<dots> = Inr (defuzzify dot e ?b ?mu)"
  proof (cases "Max (set ?b) \<le> 0")
    case True
    have "x = 0" if x: "x \<in> set ?mu" for x
    proof -
      from aggregate_in [OF x] obtain b row y where b: "b \<in> set ?b" "row \<in> set (en_mu_terms e)" "y \<in> set row" "x = min b y" by blast
      have "b \<le> 0" using True b(1) by (meson List.finite_set Max_ge order_trans)
      moreover have "0 \<le> b" "0 \<le> y" using sb(2) mu b by blast+
      ultimately show ?thesis using b(4) by simp
    qed
    then have "dot (en_wts e) ?mu = 0" using dot by blast
    then show ?thesis using True c0 by (simp add: defuzzify_def)
  next
    case False
    then show ?thesis using c0 by (simp add: defuzzify_def centroid_weighted_def Let_def)
  qed
  also have "\<dots> = infer_u ex dot e T R V" using f by (simp add: infer_u_def Let_def)
  finally show ?thesis .
qed

lemma infer_u_is_infer:
  assumes "engine_ok e"
  shows "infer_u ex dot e T R V = rbind (infer ex dot e T R V) (\<lambda>r. Inr (fz_u_raw r))"
proof (cases "fuzzify_all ex e T R V")
  case (Inl x)
  then show ?thesis by (simp add: infer_u_def infer_def)
next
  case (Inr ms)
  then obtain mt mr mv where "fuzzify_all ex e T R V = Inr (mt, mr, mv)" by (cases ms) auto
  from infer_unfold [OF assms this, of dot] show ?thesis by auto
qed



lemma fire_rules_fired:
  "snd (fire_rules mt mr mv xs beta fired) = fired @ map (\<lambda>(x, c). \<lparr>fd_rule_id = ru_id x, fd_alpha = alpha mt mr mv c, fd_consequent = ru_then x, fd_antecedent = ru_if x\<rparr>)
     (filter (\<lambda>(x, c). 0 < alpha mt mr mv c) xs)"
proof (induction xs arbitrary: beta fired)
  case (Cons p xs)
  then show ?case by (cases p) (simp add: Let_def)
qed simp

lemma fired_sorted: "sorted_wrt (\<lambda>x y. fd_alpha y \<le> fd_alpha x) (sort_key fired_key fs)"
proof -
  have "sorted_wrt (\<lambda>x y. fired_key x \<le> fired_key y) (sort_key fired_key fs)" using sorted_sort_key [of fired_key fs] by (simp add: sorted_map)
  then show ?thesis by (rule sorted_wrt_mono_rel [rotated]) (auto simp: fired_key_def)
qed

lemma degrees_in: "(t, d) \<in> set (degrees v mu) \<Longrightarrow> d \<in> set mu"
  by (auto simp: degrees_def dest: set_zip_rightD in_set_butlastD)

lemma defuzzify_range:
  assumes "lv_lo (mc_U (en_membership e)) \<le> lv_hi (mc_U (en_membership e))"
  shows "defuzzify dot e beta mu = 0 \<or> lv_lo (mc_U (en_membership e)) \<le> defuzzify dot e beta mu \<and> defuzzify dot e beta mu \<le> lv_hi (mc_U (en_membership e))"
  using assms by (auto simp: defuzzify_def centroid_weighted_def Let_def clip_to_def)

text \<open>Everything the engine reports stays in its range: the degrees and the aggregated membership in the unit interval, the output
  between the ends of the output variable or exactly 0, and 0 when no rule fires; the rules listed as fired are those of the base with a
  positive activation, strongest first.\<close>

theorem inference_in_range:
  assumes "mk_engine aex m rb sch n = Inr e" and "membership_ok m" and "exp_ok ex" "exp_ok aex" and "infer ex dot e T R V = Inr r"
  shows "(\<forall>(var, ds) \<in> set (fz_memberships r). \<forall>(t, d) \<in> set ds. 0 \<le> d \<and> d \<le> 1)
    \<and> (\<forall>y \<in> set (fz_mu_agg r). 0 \<le> y \<and> y \<le> 1)
    \<and> (fz_u_raw r = 0 \<or> lv_lo (mc_U m) \<le> fz_u_raw r \<and> fz_u_raw r \<le> lv_hi (mc_U m))
    \<and> (fz_fired r = [] \<longrightarrow> fz_u_raw r = 0)
    \<and> sorted_wrt (\<lambda>x y. fd_alpha y \<le> fd_alpha x) (fz_fired r)
    \<and> (\<forall>x \<in> set (fz_fired r). 0 < fd_alpha x \<and> fd_alpha x \<le> 1
         \<and> (\<exists>q \<in> set (rb_rules rb). ru_id q = fd_rule_id x \<and> ru_then q = fd_consequent x \<and> ru_if q = fd_antecedent x))"
proof -
  from mk_engine_ok [OF assms(1,2)] obtain g where e: "engine_ok e" "en_membership e = m" "en_rules e = rb" "en_mu_terms e = lv_evaluate aex (mc_U m) g" by blast
  from assms(5) obtain mt mr mv where f: "fuzzify_all ex e T R V = Inr (mt, mr, mv)" by (auto simp: infer_def rbind_Inr_iff)
  from infer_unfold [OF e(1) f, of dot] assms(5) have r: "fz_u_raw r = defuzzify dot e (strengths e mt mr mv) (fz_mu_agg r)"
    "fz_mu_agg r = fz_aggregate (strengths e mt mr mv) (en_mu_terms e)"
    "fz_fired r = sort_key fired_key (snd (fire_rules mt mr mv (zip (rb_rules (en_rules e)) (en_compiled e)) (replicate (u_count e) 0) []))"
    "fz_memberships r = [(''T'', degrees (mc_T m) mt), (''R'', degrees (mc_R m) mr), (''V'', degrees (mc_V m) mv)]" using e(2) by auto
  note sb = strengths_bounds [OF e(1) assms(3) f]
  note bd = fuzzify_all_ok [OF f, THEN fuzzify_var_bounds, OF assms(3)]
  have U: "ling_ok (mc_U m)" using assms(2) by (simp add: membership_ok_def)
  have cl: "length (rb_rules (en_rules e)) = length (en_compiled e)" using e(1) by (simp add: engine_ok_def)
  have "\<forall>(var, ds) \<in> set (fz_memberships r). \<forall>(t, d) \<in> set ds. 0 \<le> d \<and> d \<le> 1"
    using bd degrees_in unfolding r(4) by fastforce
  moreover have "\<forall>y \<in> set (fz_mu_agg r). 0 \<le> y \<and> y \<le> 1"
  proof
    fix y assume "y \<in> set (fz_mu_agg r)"
    from aggregate_in [OF this [unfolded r(2)]] obtain b row z where b: "b \<in> set (strengths e mt mr mv)" "row \<in> set (en_mu_terms e)" "z \<in> set row" "y = min b z" by blast
    have "0 \<le> z \<and> z \<le> 1" using mu_terms_bounds [OF assms(4) U _ b(3)] b(2) unfolding e(4) by blast
    moreover have "0 \<le> b \<and> b \<le> 1" using sb(2) b(1) by blast
    ultimately show "0 \<le> y \<and> y \<le> 1" using b(4) by (simp add: min_le_iff_disj)
  qed
  moreover have "fz_u_raw r = 0 \<or> lv_lo (mc_U m) \<le> fz_u_raw r \<and> fz_u_raw r \<le> lv_hi (mc_U m)"
    using defuzzify_range [of e] U unfolding r(1) e(2) by (simp add: ling_ok_def)
  moreover have "fz_u_raw r = 0" if "fz_fired r = []"
  proof -
    have nf: "filter (\<lambda>(x, c). 0 < alpha mt mr mv c) (zip (rb_rules (en_rules e)) (en_compiled e)) = []"
    proof -
      have "length (fz_fired r) = length (filter (\<lambda>(x, c). 0 < alpha mt mr mv c) (zip (rb_rules (en_rules e)) (en_compiled e)))"
        unfolding r(3) fire_rules_fired by (simp only: append_Nil length_sort length_map)
      with that show ?thesis by (simp only: list.size(3) length_0_conv [symmetric])
    qed
    have "\<not> 0 < alpha mt mr mv c" if c: "c \<in> set (en_compiled e)" for c
    proof -
      obtain i where "i < length (en_compiled e)" "c = en_compiled e ! i" using c by (metis in_set_conv_nth)
      then have "(rb_rules (en_rules e) ! i, c) \<in> set (zip (rb_rules (en_rules e)) (en_compiled e))" using cl by (auto simp: in_set_zip)
      with nf show ?thesis by (auto simp: filter_empty_conv)
    qed
    then have "\<forall>b \<in> set (strengths e mt mr mv). b = 0" using sb(4) by force
    moreover have "strengths e mt mr mv \<noteq> []" using sb(1) u_count_pos [OF e(1)] by auto
    ultimately have "Max (set (strengths e mt mr mv)) = 0" by (metis Max_in List.finite_set set_empty)
    then show ?thesis by (simp add: r(1) defuzzify_def)
  qed
  moreover have "0 < fd_alpha x \<and> fd_alpha x \<le> 1 \<and> (\<exists>q \<in> set (rb_rules rb). ru_id q = fd_rule_id x \<and> ru_then q = fd_consequent x \<and> ru_if q = fd_antecedent x)"
    if "x \<in> set (fz_fired r)" for x
  proof -
    from that obtain q c where q: "(q, c) \<in> set (zip (rb_rules rb) (en_compiled e))" "0 < alpha mt mr mv c"
      "x = \<lparr>fd_rule_id = ru_id q, fd_alpha = alpha mt mr mv c, fd_consequent = ru_then q, fd_antecedent = ru_if q\<rparr>"
      unfolding r(3) fire_rules_fired e(3) by auto
    then have "q \<in> set (rb_rules rb)" "c \<in> set (en_compiled e)" by (auto dest: set_zip_leftD set_zip_rightD)
    with q sb(3) show ?thesis by auto
  qed
  ultimately show ?thesis using fired_sorted unfolding r(3) by blast
qed


definition ex_dot :: dot_product where
  "ex_dot xs ys = foldl (\<lambda>s (x, y). f64 (s + f64 (x * y))) 0 (zip xs ys)"

lemma ex_dot_zero: "\<forall>y \<in> set ys. y = 0 \<Longrightarrow> ex_dot xs ys = 0"
proof -
  have "foldl (\<lambda>s (x, y). f64 (s + f64 (x * y))) 0 zs = 0" if "\<forall>(x, y) \<in> set zs. y = 0" for zs :: "(rat \<times> rat) list"
    using that by (induction zs) auto
  then show "\<forall>y \<in> set ys. y = 0 \<Longrightarrow> ex_dot xs ys = 0" unfolding ex_dot_def by (blast dest: set_zip_rightD)
qed

lemma ex_engine: "\<exists>e. mk_engine (\<lambda>z. 1) ex_membership ex_rules None None = Inr e"
  by (simp add: mk_engine_def ex_rules_valid Let_def make_grid_def quadrature_weights_def)
    (simp add: ex_fuzzy_defs compile_rule_def term_slot_def ANY_TERM_def term_names_def)


lemma inference_in_range_witness:
  "\<exists>e r. mk_engine (\<lambda>z. 1) ex_membership ex_rules None None = Inr e \<and> infer (\<lambda>z. 1) ex_dot e (Fin (1/2)) (Fin 0) (Fin 0) = Inr r
     \<and> (\<forall>x \<in> set (fz_fired r). 0 < fd_alpha x \<and> fd_alpha x \<le> 1)"
proof -
  obtain e where e: "mk_engine (\<lambda>z. 1) ex_membership ex_rules None None = Inr e" using ex_engine by blast
  have ex: "exp_ok (\<lambda>z. 1)" by (simp add: exp_ok_def)
  have "\<exists>mt mr mv. fuzzify_all (\<lambda>z. 1) e (Fin (1/2)) (Fin 0) (Fin 0) = Inr (mt, mr, mv)" by (simp add: fuzzify_all_def)
  with infer_unfold mk_engine_ok [OF e ex_membership_ok] obtain r where r: "infer (\<lambda>z. 1) ex_dot e (Fin (1/2)) (Fin 0) (Fin 0) = Inr r" by blast
  from inference_in_range [OF e ex_membership_ok ex ex r] e r show ?thesis by blast
qed

end
