(* ===== verification/Decision.thy ===== *)
theory Decision
  imports MamdaniProps
begin

text \<open>
  \<^verbatim>\<open>detectors/base.py\<close>, \<^verbatim>\<open>decision/aggregator.py\<close>, \<^verbatim>\<open>decision/agreement.py\<close> and \<^verbatim>\<open>decision/core.py\<close>: the outputs of the detectors become
  the inputs of the fuzzy engine and the coefficient of agreement, and these the intent. The detectors, the logarithm and the power
  function are parameters. Sums are kept in the order of the code, every operation rounds with \<open>f64\<close>.
\<close>

section \<open>Outputs of the detectors\<close>

datatype detector_group = DG_trend | DG_reversion | DG_context

record detector_output =
  do_name :: string
  do_s :: rat
  do_c :: rat
  do_features :: "(string, pyfloat option) dict"
  do_group :: detector_group
  do_weight :: rat

definition mk_output :: "string \<Rightarrow> pyfloat \<Rightarrow> pyfloat \<Rightarrow> (string, pyfloat option) dict \<Rightarrow> detector_group \<Rightarrow> pyfloat \<Rightarrow> detector_output result" where
  "mk_output name s c fs g w =
     (if \<not> (f_le (Fin (- 1)) s \<and> f_le s (Fin 1)) then Inl ValueError
      else if \<not> (f_le (Fin 0) c \<and> f_le c (Fin 1)) then Inl ValueError
      else if \<not> (f_le (Fin 0) w \<and> f_less w PInf) then Inl ValueError
      else Inr \<lparr>do_name = name, do_s = f_val s, do_c = f_val c, do_features = fs, do_group = g, do_weight = f_val w\<rparr>)"

section \<open>Consensus\<close>

definition EPS :: rat where "EPS = f64 (1 / 10 ^ 9)"
definition V_DEFAULT :: rat where "V_DEFAULT = 1 / 2"
definition V_SOURCE_DEFAULT :: string where "V_SOURCE_DEFAULT = ''default''"

definition clip_unit :: "rat \<Rightarrow> rat" where
  "clip_unit x = (if x < - 1 then - 1 else if 1 < x then 1 else x)"

definition check_weight :: "detector_output \<Rightarrow> rat result" where
  "check_weight o' = (if 0 \<le> do_weight o' then Inr (do_weight o') else Inl ValueError)"

text \<open>One detector adds its trusted weight to the mass and its weighted strength to the sum.\<close>

definition add_evidence :: "detector_output \<Rightarrow> rat \<Rightarrow> rat \<times> rat \<Rightarrow> rat \<times> rat" where
  "add_evidence o' w acc = (let e = f64 (w * do_c o') in (f64 (fst acc + f64 (e * do_s o')), f64 (snd acc + e)))"

definition group_value :: "rat \<Rightarrow> rat \<times> rat \<Rightarrow> rat" where
  "group_value eps acc = clip_unit (f64 (fst acc / max eps (snd acc)))"

record group_consensus =
  gc_group :: detector_group
  gc_value :: rat
  gc_mass :: rat
  gc_names :: "string list"
  gc_omegas :: "rat list"
  gc_effective :: "rat list"
  gc_strengths :: "rat list"
  gc_eps :: rat

fun weights_of :: "detector_output list \<Rightarrow> rat list result" where
  "weights_of [] = Inr []"
| "weights_of (x # xs) = rbind (check_weight x) (\<lambda>w. rbind (weights_of xs) (\<lambda>ws. Inr (w # ws)))"

definition group_consensus_of :: "detector_output list \<Rightarrow> detector_group \<Rightarrow> rat \<Rightarrow> group_consensus result" where
  "group_consensus_of outs g eps =
     (let ms = filter (\<lambda>x. do_group x = g) outs in
      rbind (weights_of ms) (\<lambda>omegas.
        let eff = map2 (\<lambda>w x. f64 (w * do_c x)) omegas ms; ss = map do_s ms;
            acc = foldl (\<lambda>(num, mass) (e, s). (f64 (num + f64 (e * s)), f64 (mass + e))) (0, 0) (zip eff ss)
        in Inr \<lparr>gc_group = g, gc_value = clip_unit (f64 (fst acc / max eps (snd acc))), gc_mass = snd acc, gc_names = map do_name ms,
                gc_omegas = omegas, gc_effective = eff, gc_strengths = ss, gc_eps = eps\<rparr>))"

definition gc_shares :: "group_consensus \<Rightarrow> rat list" where
  "gc_shares g = map (\<lambda>e. f64 (e / max (gc_eps g) (gc_mass g))) (gc_effective g)"

record consensus =
  cs_T :: rat
  cs_R :: rat
  cs_V :: rat
  cs_v_source :: string
  cs_outputs :: "detector_output list"
  cs_eps :: rat

definition cs_trend :: "consensus \<Rightarrow> group_consensus result" where
  "cs_trend c = group_consensus_of (cs_outputs c) DG_trend (cs_eps c)"

definition cs_reversion :: "consensus \<Rightarrow> group_consensus result" where
  "cs_reversion c = group_consensus_of (cs_outputs c) DG_reversion (cs_eps c)"

fun volatility_loop :: "detector_output list \<Rightarrow> string option \<Rightarrow> rat option \<Rightarrow> (string option \<times> rat option) result" where
  "volatility_loop [] provider found = Inr (provider, found)"
| "volatility_loop (x # xs) provider found =
     (case dget (do_features x) ''V'' of
        None \<Rightarrow> volatility_loop xs provider found
      | Some raw \<Rightarrow>
          if do_group x \<noteq> DG_context then volatility_loop xs provider found
          else if provider \<noteq> None then Inl ValueError
          else (case raw of
              Some (Fin v) \<Rightarrow>
                if \<not> 0 < do_c x then volatility_loop xs (Some (do_name x)) found
                else if \<not> (0 \<le> v \<and> v \<le> 1) then Inl ValueError
                else volatility_loop xs (Some (do_name x)) (Some v)
            | _ \<Rightarrow> volatility_loop xs (Some (do_name x)) found))"

definition volatility :: "detector_output list \<Rightarrow> rat \<Rightarrow> (rat \<times> string) result" where
  "volatility outs v_default = rbind (volatility_loop outs None None) (\<lambda>(provider, found).
     case (found, provider) of (Some v, Some p) \<Rightarrow> Inr (v, p) | _ \<Rightarrow> Inr (v_default, V_SOURCE_DEFAULT))"

text \<open>The loop over the detectors: sums of the trend, sums of the reversion, whether a context was seen.\<close>

fun consensus_loop :: "detector_output list \<Rightarrow> rat \<times> rat \<Rightarrow> rat \<times> rat \<Rightarrow> bool \<Rightarrow> ((rat \<times> rat) \<times> (rat \<times> rat) \<times> bool) result" where
  "consensus_loop [] t r ctx = Inr (t, r, ctx)"
| "consensus_loop (x # xs) t r ctx =
     (case do_group x of
        DG_context \<Rightarrow> consensus_loop xs t r True
      | DG_trend \<Rightarrow> rbind (check_weight x) (\<lambda>w. consensus_loop xs (add_evidence x w t) r ctx)
      | DG_reversion \<Rightarrow> rbind (check_weight x) (\<lambda>w. consensus_loop xs t (add_evidence x w r) ctx))"

definition consensus_of :: "detector_output list \<Rightarrow> rat \<Rightarrow> rat \<Rightarrow> consensus result" where
  "consensus_of outs eps v_default =
     (if \<not> 0 < eps then Inl ValueError
      else rbind (consensus_loop outs (0, 0) (0, 0) False) (\<lambda>(t, r, ctx).
        rbind (if ctx then volatility outs v_default else Inr (v_default, V_SOURCE_DEFAULT)) (\<lambda>(v, src).
          Inr \<lparr>cs_T = group_value eps t, cs_R = group_value eps r, cs_V = v, cs_v_source = src, cs_outputs = outs, cs_eps = eps\<rparr>)))"

section \<open>Agreement\<close>

definition KAPPA_MIN :: rat where "KAPPA_MIN = f64 (35 / 100)"
definition NU :: rat where "NU = 1"

record agreement =
  ag_p_plus :: rat
  ag_p_minus :: rat
  ag_p_zero :: rat
  ag_H :: rat
  ag_A_g :: rat
  ag_kappa :: rat
  ag_mass :: rat
  ag_kappa_min :: rat
  ag_nu :: rat
  ag_eps :: rat

definition has_evidence :: "agreement \<Rightarrow> bool" where
  "has_evidence a \<longleftrightarrow> ag_eps a \<le> ag_mass a"

definition validate_params :: "pyfloat \<Rightarrow> pyfloat \<Rightarrow> unit result" where
  "validate_params kappa_min nu =
     (if \<not> (f_le (Fin 0) kappa_min \<and> f_le kappa_min (Fin 1)) then Inl ValueError
      else if \<not> (f_less (Fin 0) nu \<and> f_less nu PInf) then Inl ValueError else Inr ())"

definition normalized_entropy :: "(rat \<Rightarrow> rat) \<Rightarrow> rat \<Rightarrow> rat \<Rightarrow> rat \<Rightarrow> rat" where
  "normalized_entropy lg p_plus p_minus p_zero =
     (let h = foldl (\<lambda>h p. if 0 < p then f64 (h - f64 (p * lg p)) else h) 0 [p_plus, p_minus, p_zero]
      in min 1 (max 0 (f64 (h / lg 3))))"

definition kappa_from_agreement :: "(rat \<Rightarrow> rat \<Rightarrow> rat) \<Rightarrow> rat \<Rightarrow> rat \<Rightarrow> rat \<Rightarrow> rat" where
  "kappa_from_agreement pw a_g kappa_min nu = (let a = min 1 (max 0 a_g) in f64 (kappa_min + f64 (f64 (1 - kappa_min) * pw a nu)))"

text \<open>The mass, and its parts that speak for up, for down and for neither.\<close>

record evidence =
  ev_z :: rat
  ev_plus :: rat
  ev_minus :: rat
  ev_zero :: rat

definition vote :: "detector_output \<Rightarrow> rat \<Rightarrow> evidence \<Rightarrow> evidence" where
  "vote x w ev =
     (let e = f64 (w * do_c x); s = do_s x; ev1 = ev\<lparr>ev_z := f64 (ev_z ev + e)\<rparr> in
      if 0 < s then ev1\<lparr>ev_plus := f64 (ev_plus ev + f64 (e * s)), ev_zero := f64 (ev_zero ev + f64 (e * f64 (1 - s)))\<rparr>
      else if s < 0 then ev1\<lparr>ev_minus := f64 (ev_minus ev + f64 (e * - s)), ev_zero := f64 (ev_zero ev + f64 (e * f64 (1 + s)))\<rparr>
      else ev1\<lparr>ev_zero := f64 (ev_zero ev + e)\<rparr>)"

fun vote_loop :: "detector_output list \<Rightarrow> evidence \<Rightarrow> evidence result" where
  "vote_loop [] ev = Inr ev"
| "vote_loop (x # xs) ev =
     (if do_group x = DG_context then vote_loop xs ev else rbind (check_weight x) (\<lambda>w. vote_loop xs (vote x w ev)))"

definition add_prior :: "rat \<Rightarrow> evidence \<Rightarrow> evidence" where
  "add_prior eps ev =
     (if ev_z ev < eps then
        let prior = f64 (f64 (eps - ev_z ev) / 3) in
        ev\<lparr>ev_plus := f64 (ev_plus ev + prior), ev_minus := f64 (ev_minus ev + prior), ev_zero := f64 (ev_zero ev + prior)\<rparr>
      else ev)"

definition agreement_of :: "(rat \<Rightarrow> rat) \<Rightarrow> (rat \<Rightarrow> rat \<Rightarrow> rat) \<Rightarrow> detector_output list \<Rightarrow> pyfloat \<Rightarrow> pyfloat \<Rightarrow> rat \<Rightarrow> agreement result" where
  "agreement_of lg pw outs kappa_min nu eps =
     rbind (validate_params kappa_min nu) (\<lambda>_.
       if \<not> 0 < eps then Inl ValueError
       else rbind (vote_loop outs \<lparr>ev_z = 0, ev_plus = 0, ev_minus = 0, ev_zero = 0\<rparr>) (\<lambda>ev0.
         let ev = add_prior eps ev0; den = max eps (ev_z ev);
             p = f64 (ev_plus ev / den); m = f64 (ev_minus ev / den); z = f64 (ev_zero ev / den);
             h = normalized_entropy lg p m z; a_g = f64 (1 - h)
         in Inr \<lparr>ag_p_plus = p, ag_p_minus = m, ag_p_zero = z, ag_H = h, ag_A_g = a_g,
                 ag_kappa = kappa_from_agreement pw a_g (f_val kappa_min) (f_val nu), ag_mass = ev_z ev,
                 ag_kappa_min = f_val kappa_min, ag_nu = f_val nu, ag_eps = eps\<rparr>))"


section \<open>The core\<close>

text \<open>A detector is its name and what it computes on a window; \<^verbatim>\<open>window.bar(0).t_ns\<close> is the parameter \<open>bar_time\<close>.\<close>

record 'w decision_core =
  dc_detectors :: "(string \<times> ('w \<Rightarrow> detector_output result)) list"
  dc_engine :: engine
  dc_kappa_min :: pyfloat
  dc_nu :: pyfloat
  dc_eps :: rat
  dc_v_default :: rat

definition mk_core :: "(string \<times> ('w \<Rightarrow> detector_output result)) list \<Rightarrow> engine \<Rightarrow> pyfloat \<Rightarrow> pyfloat \<Rightarrow> rat \<Rightarrow> rat \<Rightarrow> 'w decision_core result" where
  "mk_core ds e kappa_min nu eps v_default =
     rbind (validate_params kappa_min nu) (\<lambda>_.
       if \<not> 0 < eps then Inl ValueError
       else if \<not> (0 \<le> v_default \<and> v_default \<le> 1) then Inl ValueError
       else if \<not> distinct (map fst ds) then Inl ValueError
       else Inr \<lparr>dc_detectors = ds, dc_engine = e, dc_kappa_min = kappa_min, dc_nu = nu, dc_eps = eps, dc_v_default = v_default\<rparr>)"

text \<open>The section \<^verbatim>\<open>agreement\<close> of the configuration; an absent value is its default.\<close>

definition agreement_params :: "pyfloat option \<Rightarrow> pyfloat option \<Rightarrow> (pyfloat \<times> pyfloat) result" where
  "agreement_params kappa_min nu =
     (let k = (case kappa_min of None \<Rightarrow> Fin KAPPA_MIN | Some x \<Rightarrow> x); n = (case nu of None \<Rightarrow> Fin NU | Some x \<Rightarrow> x) in
      if \<not> (f_le (Fin 0) k \<and> f_le k (Fin 1)) \<or> \<not> f_less (Fin 0) n then Inl ConfigValidationError else Inr (k, n))"

definition core_from_config :: "(string \<times> ('w \<Rightarrow> detector_output result)) list \<Rightarrow> engine \<Rightarrow> pyfloat option \<Rightarrow> pyfloat option \<Rightarrow> 'w decision_core result" where
  "core_from_config ds e kappa_min nu = rbind (agreement_params kappa_min nu) (\<lambda>(k, n). mk_core ds e k n EPS V_DEFAULT)"

record math_env =
  me_exp :: "rat \<Rightarrow> rat"
  me_log :: "rat \<Rightarrow> rat"
  me_pow :: "rat \<Rightarrow> rat \<Rightarrow> rat"
  me_dot :: dot_product

definition detector_outputs :: "'w decision_core \<Rightarrow> 'w \<Rightarrow> detector_output list result" where
  "detector_outputs core w = mapres (\<lambda>(n, compute). compute w) (dc_detectors core)"

definition core_intent :: "math_env \<Rightarrow> 'w decision_core \<Rightarrow> 'w \<Rightarrow> (rat \<times> rat \<times> rat) result" where
  "core_intent me core w =
     rbind (detector_outputs core w) (\<lambda>outs. rbind (consensus_of outs (dc_eps core) (dc_v_default core)) (\<lambda>cons.
       rbind (infer_u (me_exp me) (me_dot me) (dc_engine core) (Fin (cs_T cons)) (Fin (cs_R cons)) (Fin (cs_V cons))) (\<lambda>u_raw.
         rbind (agreement_of (me_log me) (me_pow me) outs (dc_kappa_min core) (dc_nu core) (dc_eps core)) (\<lambda>agr.
           Inr (u_raw, ag_kappa agr, clip_unit (f64 (ag_kappa agr * u_raw)))))))"

record decision_trace =
  dt_open_time_ns :: int
  dt_outputs :: "detector_output list"
  dt_consensus :: consensus
  dt_fuzzy :: fuzzy_result
  dt_agreement :: agreement
  dt_u_raw :: rat
  dt_kappa :: rat
  dt_u_final :: rat

definition core_decide :: "math_env \<Rightarrow> ('w \<Rightarrow> int result) \<Rightarrow> 'w decision_core \<Rightarrow> 'w \<Rightarrow> int option \<Rightarrow> decision_trace result" where
  "core_decide me bar_time core w open_time =
     rbind (detector_outputs core w) (\<lambda>outs. rbind (consensus_of outs (dc_eps core) (dc_v_default core)) (\<lambda>cons.
       rbind (infer (me_exp me) (me_dot me) (dc_engine core) (Fin (cs_T cons)) (Fin (cs_R cons)) (Fin (cs_V cons))) (\<lambda>fuzzy.
         rbind (agreement_of (me_log me) (me_pow me) outs (dc_kappa_min core) (dc_nu core) (dc_eps core)) (\<lambda>agr.
           rbind (case open_time of None \<Rightarrow> bar_time w | Some t \<Rightarrow> Inr t) (\<lambda>t.
             Inr \<lparr>dt_open_time_ns = t, dt_outputs = outs, dt_consensus = cons, dt_fuzzy = fuzzy, dt_agreement = agr, dt_u_raw = fz_u_raw fuzzy,
                  dt_kappa = ag_kappa agr, dt_u_final = clip_unit (f64 (ag_kappa agr * fz_u_raw fuzzy))\<rparr>)))))"

text \<open>Projections of the trace for the explanation of a decision.\<close>

definition fired_rules :: "decision_trace \<Rightarrow> fired_rule list" where
  "fired_rules t = sort_key fired_key (fz_fired (dt_fuzzy t))"

fun min_rule :: "fired_rule \<Rightarrow> fired_rule list \<Rightarrow> fired_rule" where
  "min_rule m [] = m"
| "min_rule m (f # fs) = min_rule (if fired_key f < fired_key m then f else m) fs"

definition top_rule :: "decision_trace \<Rightarrow> fired_rule option" where
  "top_rule t = (case fz_fired (dt_fuzzy t) of [] \<Rightarrow> None | f # fs \<Rightarrow> Some (min_rule f fs))"

section \<open>What the intent can be\<close>

definition pow_ok :: "(rat \<Rightarrow> rat \<Rightarrow> rat) \<Rightarrow> bool" where
  "pow_ok pw \<longleftrightarrow> (\<forall>a nu. 0 \<le> a \<longrightarrow> a \<le> 1 \<longrightarrow> 0 < nu \<longrightarrow> 0 \<le> pw a nu \<and> pw a nu \<le> 1)"

text \<open>Rounding a number of the unit interval moves it by at most \<open>2\<^sup>-\<^sup>5\<^sup>4\<close>, and everything up to \<open>1 + 2\<^sup>-\<^sup>5\<^sup>3\<close> rounds to at most 1.\<close>

lemma f64_unit_error:
  assumes "0 \<le> y" "y \<le> 1"
  shows "f64 y \<le> y + 1 / 2 ^ 54"
proof (cases "y = 0 \<or> y = 1")
  case True
  then show ?thesis using f64.rnd_1 by auto
next
  case False
  then have y: "0 < y" "y < 1" using assms by auto
  obtain e where e: "e = sig_exp 2 53 (- 1074) y" by simp
  have "bpow 2 (ilog 2 y) < bpow 2 0" using ilog_bounds(1) [of 2 y] y by (simp add: bpow_def)
  then have "ilog 2 y < 0" by (rule bpow_less_imp [rotated]) simp
  then have "e \<le> - 53" using y by (simp add: e sig_exp_def)
  then have be: "bpow 2 e \<le> 1 / 2 ^ 53" using bpow_mono [of 2 e "- 53"] by (simp add: bpow_def power_int_def field_simps)
  have pos: "0 < bpow 2 e" by (simp add: bpow_pos)
  have "f64 y = of_int (round_half_even (y / bpow 2 e)) * bpow 2 e" using y by (simp add: f64_def sig_round_def e Let_def)
  also have "\<dots> \<le> (y / bpow 2 e + 1/2) * bpow 2 e" using rhe_bounds(1) pos by (intro mult_right_mono) auto
  also have "\<dots> = y + bpow 2 e / 2" using pos by (simp add: field_simps)
  finally show ?thesis using be by simp
qed

lemma f64_tie_1: "f64 (1 + 1 / 2 ^ 53) = 1"
proof -
  have "ilog 2 (1 + 1 / 2 ^ 53) = 0" by (rule ilog_eqI) (simp_all add: bpow_def)
  then have e: "sig_exp 2 53 (- 1074) (1 + 1 / 2 ^ 53) = - 52" by (simp add: sig_exp_def)
  have b: "bpow 2 (- 52) = 1 / 4503599627370496" by (simp add: bpow_def power_int_def field_simps)
  have f: "\<lfloor>9007199254740993 / 2 :: rat\<rfloor> = 4503599627370496" by (rule floor_unique) simp_all
  have "(1 + 1 / 2 ^ 53) / (1 / 4503599627370496) = (9007199254740993 / 2 :: rat)" by simp
  moreover have "round_half_even (9007199254740993 / 2) = 4503599627370496" by (simp add: round_half_even_def Let_def f)
  moreover have "f64 (1 + 1 / 2 ^ 53) = of_int (round_half_even ((1 + 1 / 2 ^ 53) / bpow 2 (- 52))) * bpow 2 (- 52)"
    unfolding f64_def sig_round_def Let_def e by simp
  ultimately show ?thesis unfolding b by simp
qed

lemma f64_le_1: "x \<le> 1 + 1 / 2 ^ 53 \<Longrightarrow> f64 x \<le> 1"
  using f64.rnd_mono [of x "1 + 1 / 2 ^ 53"] f64_tie_1 by simp

lemma kappa_bounds:
  assumes "pow_ok pw" and "0 \<le> k" "k \<le> 1" "0 < nu"
  shows "0 \<le> kappa_from_agreement pw a k nu \<and> kappa_from_agreement pw a k nu \<le> 1
    \<and> (f64 k = k \<longrightarrow> k \<le> kappa_from_agreement pw a k nu)"
proof -
  obtain q where q: "q = pw (min 1 (max 0 a)) nu" by simp
  have "0 \<le> q" "q \<le> 1" using assms(1,4) unfolding q pow_ok_def by auto
  have n: "0 \<le> f64 (1 - k)" using assms(3) by (intro f64.rnd_nonneg) simp
  have r: "0 \<le> f64 (f64 (1 - k) * q)" using n \<open>0 \<le> q\<close> by (intro f64.rnd_nonneg) simp
  have "f64 (1 - k) * q \<le> f64 (1 - k)" using n \<open>q \<le> 1\<close> by (simp add: mult_left_le)
  then have "f64 (f64 (1 - k) * q) \<le> f64 (1 - k)" using f64.rnd_le [of "f64 (1 - k)"] f64.rnd_idem by blast
  also have "f64 (1 - k) \<le> 1 - k + 1 / 2 ^ 54" by (rule f64_unit_error) (use assms in auto)
  finally have "k + f64 (f64 (1 - k) * q) \<le> 1 + 1 / 2 ^ 53" by simp
  then have "f64 (k + f64 (f64 (1 - k) * q)) \<le> 1" by (rule f64_le_1)
  moreover have "0 \<le> f64 (k + f64 (f64 (1 - k) * q))" using assms(2) r by (intro f64.rnd_nonneg) simp
  moreover have "f64 k = k \<Longrightarrow> k \<le> f64 (k + f64 (f64 (1 - k) * q))" using f64.rnd_ge [of k] r by simp
  ultimately show ?thesis by (simp add: kappa_from_agreement_def Let_def q)
qed

lemma agreement_kappa:
  assumes "agreement_of lg pw outs kappa_min nu eps = Inr a" and "pow_ok pw"
  shows "0 \<le> ag_kappa a \<and> ag_kappa a \<le> 1 \<and> 0 \<le> ag_H a \<and> ag_H a \<le> 1"
proof -
  from assms(1) have v: "validate_params kappa_min nu = Inr ()" by (auto simp: agreement_of_def rbind_Inr_iff)
  then obtain k n where kn: "kappa_min = Fin k" "0 \<le> k" "k \<le> 1" "nu = Fin n" "0 < n"
    by (cases kappa_min; cases nu) (auto simp: validate_params_def split: if_splits)
  from assms(1) obtain x y p m z where "ag_kappa a = kappa_from_agreement pw x k n" "ag_H a = normalized_entropy lg p m z"
    by (auto simp: agreement_of_def rbind_Inr_iff Let_def kn split: if_splits)
  then show ?thesis using kappa_bounds [OF assms(2) kn(2,3,5)] by (auto simp: normalized_entropy_def Let_def)
qed

lemma clip_unit_bounds: "- 1 \<le> clip_unit x \<and> clip_unit x \<le> 1"
  by (auto simp: clip_unit_def)

text \<open>A detector without confidence changes no sum.\<close>

lemma add_evidence_cold: "do_c x = 0 \<Longrightarrow> f64 (fst acc) = fst acc \<Longrightarrow> f64 (snd acc) = snd acc \<Longrightarrow> add_evidence x w acc = acc"
  by (simp add: add_evidence_def prod_eq_iff)

lemma consensus_loop_cold:
  assumes "consensus_loop outs t r ctx = Inr (t', r', ctx')" and "g = DG_trend \<or> g = DG_reversion"
    and "\<forall>x \<in> set outs. do_group x = g \<longrightarrow> do_c x = 0"
  shows "g = DG_trend \<Longrightarrow> t = (0, 0) \<Longrightarrow> t' = (0, 0)" and "g = DG_reversion \<Longrightarrow> r = (0, 0) \<Longrightarrow> r' = (0, 0)"
  using assms
  by (induction outs t r ctx rule: consensus_loop.induct) (auto simp: rbind_Inr_iff add_evidence_cold split: detector_group.splits)

lemma volatility_range:
  assumes "volatility outs d = Inr (v, src)" and "0 \<le> d" "d \<le> 1"
  shows "0 \<le> v \<and> v \<le> 1"
proof -
  have "found' = Some v \<Longrightarrow> 0 \<le> v \<and> v \<le> 1" if "volatility_loop outs p found = Inr (p', found')" "\<forall>v. found = Some v \<longrightarrow> 0 \<le> v \<and> v \<le> 1" for outs p found p' found' v
    using that by (induction outs p found rule: volatility_loop.induct) (auto split: option.splits if_splits pyfloat.splits)
  then show ?thesis using assms by (fastforce simp: volatility_def rbind_Inr_iff split: option.splits prod.splits)
qed


text \<open>C17: The fast path of the decision core, which the backtest runs on every bar, returns exactly the numbers of the traced decision
  that is stored and explained, and fails exactly when that fails: output of the engine, coefficient of agreement and intent.\<close>

theorem intent_is_the_decision:
  assumes "mk_engine aex m rb sch n = Inr (dc_engine core)" and "membership_ok m"
  shows "core_intent me core w = rbind (core_decide me bar_time core w (Some t)) (\<lambda>d. Inr (dt_u_raw d, dt_kappa d, dt_u_final d))"
  using mk_engine_ok [OF assms] infer_u_is_infer [of "dc_engine core" "me_exp me" "me_dot me"]
  by (auto simp: core_intent_def core_decide_def rbind_def split: sum.splits)

lemma mk_core_params:
  assumes "mk_core ds e kappa_min nu eps vd = Inr core"
  shows "dc_v_default core = vd" "dc_kappa_min core = kappa_min" "dc_nu core = nu" "dc_eps core = eps" "0 \<le> vd" "vd \<le> 1" "0 < eps"
  using assms by (auto simp: mk_core_def rbind_Inr_iff split: if_splits)

lemma consensus_range:
  assumes "consensus_of outs eps vd = Inr c" and "0 \<le> vd" "vd \<le> 1"
  shows "- 1 \<le> cs_T c \<and> cs_T c \<le> 1 \<and> - 1 \<le> cs_R c \<and> cs_R c \<le> 1 \<and> 0 \<le> cs_V c \<and> cs_V c \<le> 1"
    and "\<forall>x \<in> set outs. do_group x = DG_trend \<longrightarrow> do_c x = 0 \<Longrightarrow> cs_T c = 0"
    and "\<forall>x \<in> set outs. do_group x = DG_reversion \<longrightarrow> do_c x = 0 \<Longrightarrow> cs_R c = 0"
proof -
  from assms(1) obtain t r ctx v src where l: "consensus_loop outs (0, 0) (0, 0) False = Inr (t, r, ctx)"
    and v: "(if ctx then volatility outs vd else Inr (vd, V_SOURCE_DEFAULT)) = Inr (v, src)"
    and c: "cs_T c = group_value eps t" "cs_R c = group_value eps r" "cs_V c = v" "0 < eps"
    by (auto simp: consensus_of_def rbind_Inr_iff split: if_splits prod.splits)
  have "0 \<le> v \<and> v \<le> 1" using v volatility_range [OF _ assms(2,3)] assms(2,3) by (auto split: if_splits)
  then show "- 1 \<le> cs_T c \<and> cs_T c \<le> 1 \<and> - 1 \<le> cs_R c \<and> cs_R c \<le> 1 \<and> 0 \<le> cs_V c \<and> cs_V c \<le> 1"
    unfolding c group_value_def using clip_unit_bounds by simp
  have z: "group_value eps (0, 0) = 0" by (simp add: group_value_def clip_unit_def)
  show "cs_T c = 0" if "\<forall>x \<in> set outs. do_group x = DG_trend \<longrightarrow> do_c x = 0"
    using consensus_loop_cold(1) [OF l _ that] z by (simp add: c)
  show "cs_R c = 0" if "\<forall>x \<in> set outs. do_group x = DG_reversion \<longrightarrow> do_c x = 0"
    using consensus_loop_cold(2) [OF l _ that] z by (simp add: c)
qed

lemma damped_intent:
  assumes "0 \<le> k" "k \<le> 1"
  shows "0 \<le> u * clip_unit (f64 (k * u)) \<and> (f64 u = u \<longrightarrow> \<bar>clip_unit (f64 (k * u))\<bar> \<le> \<bar>u\<bar>)"
proof -
  have s: "0 \<le> u \<Longrightarrow> 0 \<le> f64 (k * u)" "u \<le> 0 \<Longrightarrow> f64 (k * u) \<le> 0"
    using assms(1) by (simp_all add: f64.rnd_nonneg f64.rnd_nonpos mult_nonneg_nonpos)
  then have "0 \<le> u * clip_unit (f64 (k * u))"
    by (cases "0 \<le> u") (auto simp: clip_unit_def mult_nonneg_nonneg mult_nonpos_nonpos)
  moreover have "\<bar>clip_unit (f64 (k * u))\<bar> \<le> \<bar>u\<bar>" if u: "f64 u = u"
  proof -
    have "\<bar>k * u\<bar> \<le> \<bar>u\<bar>" using assms by (simp add: abs_mult mult_left_le_one_le)
    then have "\<bar>f64 (k * u)\<bar> \<le> f64 \<bar>u\<bar>" by (simp add: f64.rnd_abs f64.rnd_mono)
    moreover have "f64 \<bar>u\<bar> = \<bar>u\<bar>" using u by (simp add: f64.rnd_abs [symmetric])
    moreover have "\<bar>clip_unit y\<bar> \<le> \<bar>y\<bar>" for y by (auto simp: clip_unit_def)
    ultimately show ?thesis by (metis order_trans)
  qed
  ultimately show ?thesis by blast
qed


text \<open>An example: one trend detector that points up, one reversion detector that is still cold.\<close>

definition ex_math :: math_env where
  "ex_math = \<lparr>me_exp = (\<lambda>z. 1), me_log = (\<lambda>x. x - 1), me_pow = (\<lambda>a nu. a), me_dot = ex_dot\<rparr>"

definition ex_detectors :: "(string \<times> (unit \<Rightarrow> detector_output result)) list" where
  "ex_detectors = [(''ema'', \<lambda>_. mk_output ''ema'' (Fin 1) (Fin 1) [] DG_trend (Fin 1)), (''rsi'', \<lambda>_. mk_output ''rsi'' (Fin 0) (Fin 0) [] DG_reversion (Fin 1))]"

lemma ex_core: "\<exists>core. mk_core ex_detectors e (Fin KAPPA_MIN) (Fin NU) EPS V_DEFAULT = Inr core \<and> dc_engine core = e"
proof -
  have "0 \<le> KAPPA_MIN" "KAPPA_MIN \<le> 1" unfolding KAPPA_MIN_def by (rule f64.rnd_nonneg, simp, rule f64.rnd_le_1, simp)
  moreover have "0 < EPS"
  proof -
    have "f64 (1 / 2 ^ 1000) = 1 / 2 ^ 1000" using sig_round_exact [of 2 1 53 "- 1074" "- 1000"] by (simp add: f64_def bpow_def power_int_def field_simps)
    moreover have "f64 (1 / 2 ^ 1000) \<le> EPS" unfolding EPS_def by (rule f64.rnd_mono) simp
    ultimately show ?thesis by (metis less_le_trans zero_less_divide_1_iff zero_less_numeral zero_less_power)
  qed
  ultimately show ?thesis by (simp add: mk_core_def validate_params_def NU_def V_DEFAULT_def ex_detectors_def)
qed


lemma ex_decide:
  assumes "engine_ok e" and "mk_core ex_detectors e (Fin KAPPA_MIN) (Fin NU) EPS V_DEFAULT = Inr core" "dc_engine core = e"
  shows "\<exists>d. core_decide ex_math (\<lambda>_. Inr 0) core () (Some 0) = Inr d"
proof -
  note p = mk_core_params [OF assms(2)]
  have ds: "dc_detectors core = ex_detectors" using assms(2) by (auto simp: mk_core_def rbind_Inr_iff split: if_splits)
  have v: "validate_params (Fin KAPPA_MIN) (Fin NU) = Inr ()" using assms(2) by (cases "validate_params (Fin KAPPA_MIN) (Fin NU)") (auto simp: mk_core_def)
  obtain outs where o: "detector_outputs core () = Inr outs" "\<forall>x \<in> set outs. 0 \<le> do_weight x \<and> do_group x \<noteq> DG_context"
    by (simp add: detector_outputs_def ds ex_detectors_def mk_output_def)
  have "\<exists>t r ctx. consensus_loop xs a b c = Inr (t, r, ctx) \<and> ctx = c" if "\<forall>x \<in> set xs. 0 \<le> do_weight x \<and> do_group x \<noteq> DG_context" for xs a b c
    using that by (induction xs a b c rule: consensus_loop.induct) (auto simp: check_weight_def split: detector_group.split)
  from this [OF o(2), of "(0, 0)" "(0, 0)" False] obtain t r where "consensus_loop outs (0, 0) (0, 0) False = Inr (t, r, False)" by blast
  then obtain cons where c: "consensus_of outs (dc_eps core) (dc_v_default core) = Inr cons"
    using p(4,7) by (simp add: consensus_of_def)
  have "\<exists>ev'. vote_loop xs ev = Inr ev'" if "\<forall>x \<in> set xs. 0 \<le> do_weight x \<and> do_group x \<noteq> DG_context" for xs ev
    using that by (induction xs ev rule: vote_loop.induct) (auto simp: check_weight_def)
  from this [OF o(2), of "\<lparr>ev_z = 0, ev_plus = 0, ev_minus = 0, ev_zero = 0\<rparr>"] obtain ev'
    where "vote_loop outs \<lparr>ev_z = 0, ev_plus = 0, ev_minus = 0, ev_zero = 0\<rparr> = Inr ev'" by blast
  then obtain agr where a: "agreement_of (me_log ex_math) (me_pow ex_math) outs (dc_kappa_min core) (dc_nu core) (dc_eps core) = Inr agr"
    using p(2,3,4,7) v by (simp add: agreement_of_def Let_def)
  have "\<exists>mt mr mv. fuzzify_all (me_exp ex_math) e (Fin (cs_T cons)) (Fin (cs_R cons)) (Fin (cs_V cons)) = Inr (mt, mr, mv)" by (simp add: fuzzify_all_def)
  with infer_unfold assms(1) obtain fz where f: "infer (me_exp ex_math) (me_dot ex_math) e (Fin (cs_T cons)) (Fin (cs_R cons)) (Fin (cs_V cons)) = Inr fz" by blast
  show ?thesis by (simp add: core_decide_def o(1) c a f assms(3))
qed


lemma intent_is_the_decision_witness:
  "\<exists>core :: unit decision_core. mk_engine (\<lambda>z. 1) ex_membership ex_rules None None = Inr (dc_engine core)
     \<and> core_intent ex_math core () = rbind (core_decide ex_math (\<lambda>_. Inr 0) core () (Some 0)) (\<lambda>d. Inr (dt_u_raw d, dt_kappa d, dt_u_final d))"
proof -
  obtain e where e: "mk_engine (\<lambda>z. 1) ex_membership ex_rules None None = Inr e" using ex_engine by blast
  obtain core where c: "mk_core ex_detectors e (Fin KAPPA_MIN) (Fin NU) EPS V_DEFAULT = Inr core" "dc_engine core = e" using ex_core by blast
  from e c(2) have "mk_engine (\<lambda>z. 1) ex_membership ex_rules None None = Inr (dc_engine core)" by simp
  from intent_is_the_decision [OF this ex_membership_ok] this show ?thesis by blast
qed

end
