(* ===== verification/Window.thy ===== *)
theory Window
  imports Domain
begin

text \<open>
  \<^verbatim>\<open>features/convert.py\<close> and \<^verbatim>\<open>features/window.py\<close>: the float copy of a closed candle, the ring buffer from which the detectors read
  bars and features, and the guarded array of a backtest, which hides everything after its cursor.
\<close>

section \<open>Bars\<close>

record fbar =
  fb_t_ns :: int
  fb_o :: rat
  fb_h :: rat
  fb_l :: rat
  fb_c :: rat
  fb_v :: rat
  fb_qv :: rat
  fb_n :: int

definition to_float :: "dctx \<Rightarrow> dec \<Rightarrow> dec option \<Rightarrow> rat result" where
  "to_float cx value scale =
     (case scale of None \<Rightarrow> Inr (f64 value)
      | Some s \<Rightarrow> if s = 0 then Inl (if value = 0 then InvalidOperation else DivisionByZero) else Inr (f64 (ddiv cx value s)))"

definition to_float_opt :: "dec option \<Rightarrow> rat option" where
  "to_float_opt value = map_option f64 value"

definition bar_from_candle :: "candle \<Rightarrow> fbar" where
  "bar_from_candle c = \<lparr>fb_t_ns = cd_open_time_ns c, fb_o = f64 (cd_o c), fb_h = f64 (cd_h c), fb_l = f64 (cd_l c), fb_c = f64 (cd_c c),
     fb_v = f64 (cd_volume c), fb_qv = f64 (cd_quote_volume c), fb_n = cd_trades_count c\<rparr>"

section \<open>The ring buffer\<close>

text \<open>A slot holds a bar with its features; the two lists of the code are written at the same positions.\<close>

record 'a bar_window =
  bw_capacity :: int
  bw_slots :: "'a option list"
  bw_head :: int
  bw_count :: int
  bw_t :: int

definition window_init :: "int \<Rightarrow> 'a bar_window result" where
  "window_init capacity =
     (if capacity < 1 then Inl ValueError
      else Inr \<lparr>bw_capacity = capacity, bw_slots = replicate (nat capacity) None, bw_head = - 1, bw_count = 0, bw_t = - 1\<rparr>)"

definition window_append :: "'a bar_window \<Rightarrow> 'a \<Rightarrow> 'a bar_window" where
  "window_append w x =
     (let h = (if bw_head w + 1 = bw_capacity w then 0 else bw_head w + 1) in
      w\<lparr>bw_head := h, bw_slots := (bw_slots w)[nat h := Some x], bw_count := (if bw_count w < bw_capacity w then bw_count w + 1 else bw_count w),
        bw_t := bw_t w + 1\<rparr>)"

definition window_pos :: "'a bar_window \<Rightarrow> int \<Rightarrow> int result" where
  "window_pos w lag =
     (if lag < 0 then Inl LookaheadError
      else if bw_count w \<le> lag then Inl IndexError
      else let p = bw_head w - lag in Inr (if p < 0 then p + bw_capacity w else p))"

definition window_at :: "'a bar_window \<Rightarrow> int \<Rightarrow> 'a result" where
  "window_at w lag = rbind (window_pos w lag) (\<lambda>p. case bw_slots w ! nat p of None \<Rightarrow> Inl AssertionError | Some x \<Rightarrow> Inr x)"

text \<open>The last \<open>n\<close> values of a field, oldest first; the field is its selector.\<close>

definition window_series :: "('a \<Rightarrow> 'v) \<Rightarrow> 'a bar_window \<Rightarrow> int \<Rightarrow> 'v list result" where
  "window_series field w n =
     (if n < 0 then Inl LookaheadError
      else if bw_count w < n then Inl IndexError
      else mapres (\<lambda>k. rbind (window_at w (n - 1 - k)) (\<lambda>x. Inr (field x))) [0..n - 1])"

section \<open>The guarded array\<close>

record 'a guarded =
  ga_arr :: "'a list"
  ga_cursor :: int

definition set_cursor :: "'a guarded \<Rightarrow> int \<Rightarrow> 'a guarded result" where
  "set_cursor g value = (if \<not> (- 1 \<le> value \<and> value < int (length (ga_arr g))) then Inl IndexError else Inr (g\<lparr>ga_cursor := value\<rparr>))"

definition mk_guarded :: "'a list \<Rightarrow> int \<Rightarrow> 'a guarded result" where
  "mk_guarded arr cursor = set_cursor \<lparr>ga_arr = arr, ga_cursor = - 1\<rparr> cursor"

definition ga_advance :: "'a guarded \<Rightarrow> int \<Rightarrow> 'a guarded result" where
  "ga_advance g steps = set_cursor g (ga_cursor g + steps)"

definition ga_len :: "'a guarded \<Rightarrow> int" where
  "ga_len g = ga_cursor g + 1"

text \<open>An index counts from the end of the whole array when it is negative, as in numpy.\<close>

definition ga_index :: "'a guarded \<Rightarrow> int \<Rightarrow> 'a result" where
  "ga_index g i =
     (let n = int (length (ga_arr g)); j = (if i < 0 then i + n else i) in
      if ga_cursor g < j then Inl LookaheadError
      else if j < 0 then Inl IndexError else Inr (ga_arr g ! nat j))"

text \<open>\<^verbatim>\<open>slice.indices(n)\<close> and the \<^verbatim>\<open>range\<close> it gives; \<open>None\<close> is an omitted bound.\<close>

record pyslice =
  sl_start :: "int option"
  sl_stop :: "int option"
  sl_step :: "int option"

definition slice_bound :: "int \<Rightarrow> int \<Rightarrow> int \<Rightarrow> int \<Rightarrow> int \<Rightarrow> int" where
  "slice_bound n lower upper x step = (let y = (if x < 0 then x + n else x) in if y < lower then lower else if upper < y then upper else y)"

definition slice_indices :: "int \<Rightarrow> pyslice \<Rightarrow> (int \<times> int \<times> int) result" where
  "slice_indices n s =
     (let step = (case sl_step s of None \<Rightarrow> 1 | Some k \<Rightarrow> k); lower = (if step < 0 then - 1 else 0); upper = (if step < 0 then n - 1 else n) in
      if step = 0 then Inl ValueError
      else Inr (case sl_start s of None \<Rightarrow> if step < 0 then upper else lower | Some x \<Rightarrow> slice_bound n lower upper x step,
                case sl_stop s of None \<Rightarrow> if step < 0 then lower else upper | Some x \<Rightarrow> slice_bound n lower upper x step, step))"

definition range_list :: "int \<Rightarrow> int \<Rightarrow> int \<Rightarrow> int list" where
  "range_list start stop step =
     (let k = (if 0 < step then (if start < stop then (stop - start - 1) div step + 1 else 0)
               else if step < 0 then (if stop < start then (start - stop - 1) div (- step) + 1 else 0) else 0)
      in map (\<lambda>i. start + i * step) [0..k - 1])"

definition ga_slice :: "'a guarded \<Rightarrow> pyslice \<Rightarrow> 'a list result" where
  "ga_slice g s =
     rbind (slice_indices (int (length (ga_arr g))) s) (\<lambda>(start, stop, step).
       let rng = range_list start stop step; highest = (if rng = [] then - 1 else max (hd rng) (last rng)) in
       if ga_cursor g < highest then Inl LookaheadError else Inr (map (\<lambda>i. ga_arr g ! nat i) rng))"

definition ga_visible :: "'a guarded \<Rightarrow> 'a list" where
  "ga_visible g = take (nat (ga_cursor g + 1)) (ga_arr g)"

section \<open>The window is the end of the history\<close>

text \<open>\<open>window_of w xs\<close>: the buffer holds the last bars of the history \<open>xs\<close>.\<close>

definition window_of :: "'a bar_window \<Rightarrow> 'a list \<Rightarrow> bool" where
  "window_of w xs \<longleftrightarrow> 1 \<le> bw_capacity w \<and> length (bw_slots w) = nat (bw_capacity w) \<and> bw_t w = int (length xs) - 1
     \<and> bw_count w = min (int (length xs)) (bw_capacity w) \<and> bw_head w = (if xs = [] then - 1 else (int (length xs) - 1) mod bw_capacity w)
     \<and> (\<forall>lag. 0 \<le> lag \<longrightarrow> lag < bw_count w \<longrightarrow> bw_slots w ! nat ((int (length xs) - 1 - lag) mod bw_capacity w) = Some (xs ! nat (int (length xs) - 1 - lag)))"

lemma window_of_init: "window_init capacity = Inr w \<Longrightarrow> window_of w [] \<and> bw_capacity w = capacity"
  by (auto simp: window_init_def window_of_def split: if_splits)

lemma mod_step: "0 < c \<Longrightarrow> (a + 1) mod c = (if a mod c + 1 = c then 0 else a mod c + (1::int))"
  by (smt (verit) Euclidean_Rings.pos_mod_bound Euclidean_Rings.pos_mod_sign mod_add_left_eq mod_pos_pos_trivial mod_self)

lemma window_of_append:
  assumes "window_of w xs"
  shows "window_of (window_append w x) (xs @ [x])"
proof -
  let ?c = "bw_capacity w" and ?n = "int (length xs)"
  have c: "0 < ?c" and len: "length (bw_slots w) = nat ?c" and hd: "bw_head w = (if xs = [] then - 1 else (?n - 1) mod ?c)"
    and cnt: "bw_count w = min ?n ?c" and t: "bw_t w = ?n - 1"
    and slots: "\<And>lag. 0 \<le> lag \<Longrightarrow> lag < bw_count w \<Longrightarrow> bw_slots w ! nat ((?n - 1 - lag) mod ?c) = Some (xs ! nat (?n - 1 - lag))"
    using assms by (auto simp: window_of_def)
  have h: "(if bw_head w + 1 = ?c then 0 else bw_head w + 1) = ?n mod ?c"
    using mod_step [OF c, of "?n - 1"] c hd by auto
  have r: "0 \<le> ?n mod ?c" "?n mod ?c < ?c" using c by simp_all
  have new: "(bw_slots w)[nat (?n mod ?c) := Some x] ! nat ((?n - lag) mod ?c) = Some ((xs @ [x]) ! nat (?n - lag))"
    if l: "0 \<le> lag" "lag < min (?n + 1) ?c" for lag
  proof (cases "lag = 0")
    case True
    then show ?thesis using r len by (simp add: nth_append)
  next
    case False
    have ne: "(?n - lag) mod ?c \<noteq> ?n mod ?c"
    proof
      assume "(?n - lag) mod ?c = ?n mod ?c"
      then have "?c dvd (?n - lag) - ?n" by (simp only: mod_eq_dvd_iff)
      then have "?c dvd lag" by simp
      then have "?c \<le> lag" using l False by (intro zdvd_imp_le) auto
      then show False using l False by simp
    qed
    have "nat ((?n - lag) mod ?c) \<noteq> nat (?n mod ?c)" using ne c by (simp add: nat_eq_iff2)
    then have "(bw_slots w)[nat (?n mod ?c) := Some x] ! nat ((?n - lag) mod ?c) = bw_slots w ! nat ((?n - 1 - (lag - 1)) mod ?c)"
      by simp
    also have "\<dots> = Some (xs ! nat (?n - 1 - (lag - 1)))" using l False cnt by (intro slots) auto
    also have "nat (?n - 1 - (lag - 1)) < length xs" using l False by auto
    then have "xs ! nat (?n - 1 - (lag - 1)) = (xs @ [x]) ! nat (?n - lag)" by (simp add: nth_append)
    finally show ?thesis .
  qed
  let ?w = "window_append w x"
  have f: "bw_capacity ?w = ?c" "bw_slots ?w = (bw_slots w)[nat (?n mod ?c) := Some x]" "bw_head ?w = ?n mod ?c"
    "bw_count ?w = (if bw_count w < ?c then bw_count w + 1 else bw_count w)" "bw_t ?w = bw_t w + 1"
    unfolding window_append_def Let_def h by simp_all
  have n1: "int (length (xs @ [x])) - 1 = ?n" "xs @ [x] \<noteq> []" by simp_all
  have k: "(if bw_count w < ?c then bw_count w + 1 else bw_count w) = min (?n + 1) ?c" using cnt by (auto simp: min_def)
  show ?thesis unfolding window_of_def f n1 k
  proof (intro conjI allI impI)
    fix lag
    assume "0 \<le> lag" "lag < min (?n + 1) ?c"
    then show "(bw_slots w)[nat (?n mod ?c) := Some x] ! nat ((?n - lag) mod ?c) = Some ((xs @ [x]) ! nat (?n - lag))" by (rule new)
  qed (use c len t in auto)
qed

lemma window_append_capacity [simp]: "bw_capacity (window_append w x) = bw_capacity w"
  by (simp add: window_append_def Let_def)

lemma window_of_at:
  assumes "window_of w xs"
  shows "window_at w lag = (if lag < 0 then Inl LookaheadError else if min (int (length xs)) (bw_capacity w) \<le> lag then Inl IndexError
    else Inr (xs ! nat (int (length xs) - 1 - lag)))"
proof -
  let ?c = "bw_capacity w" and ?n = "int (length xs)"
  have c: "0 < ?c" and cnt: "bw_count w = min ?n ?c" using assms by (auto simp: window_of_def)
  have "window_pos w lag = Inr ((?n - 1 - lag) mod ?c)" if l: "0 \<le> lag" "lag < bw_count w"
  proof -
    have ne: "xs \<noteq> []" using l cnt by auto
    have hd: "bw_head w = (?n - 1) mod ?c" using assms ne by (simp add: window_of_def)
    have m: "0 \<le> (?n - 1) mod ?c" "(?n - 1) mod ?c < ?c" using c by simp_all
    have "(?n - 1 - lag) mod ?c = ((?n - 1) mod ?c - lag) mod ?c" by (simp add: mod_diff_left_eq)
    also have "\<dots> = (if (?n - 1) mod ?c - lag < 0 then (?n - 1) mod ?c - lag + ?c else (?n - 1) mod ?c - lag)"
      using l cnt m c by (smt (verit) mod_add_self2 mod_pos_pos_trivial)
    finally show ?thesis using l by (simp add: window_pos_def hd Let_def)
  qed
  note pos = this
  show ?thesis
  proof (cases "0 \<le> lag \<and> lag < bw_count w")
    case True
    then have "bw_slots w ! nat ((?n - 1 - lag) mod ?c) = Some (xs ! nat (?n - 1 - lag))" using assms by (auto simp: window_of_def)
    with True pos cnt show ?thesis by (auto simp: window_at_def)
  next
    case False
    with cnt show ?thesis by (auto simp: window_at_def window_pos_def)
  qed
qed

lemma window_of_run: "window_init capacity = Inr w \<Longrightarrow> window_of (foldl window_append w xs) xs \<and> bw_capacity (foldl window_append w xs) = capacity"
proof (induction xs rule: rev_induct)
  case (snoc x xs)
  then show ?case using window_of_append [of "foldl window_append w xs" xs x] by simp
qed (use window_of_init in auto)

lemma mapres_Inr: "(\<And>x. x \<in> set xs \<Longrightarrow> f x = Inr (g x)) \<Longrightarrow> mapres f xs = Inr (map g xs)"
  by (induction xs) auto

lemma last_n: "nat n \<le> length xs \<Longrightarrow> map (\<lambda>k. xs ! nat (int (length xs) - n + k)) [0..n - 1] = drop (length xs - nat n) xs"
  by (rule nth_equalityI) (auto simp: nth_drop algebra_simps intro!: arg_cong [where f = "(!) xs"])

lemma window_of_series:
  assumes "window_of w xs"
  shows "window_series field w n = (if n < 0 then Inl LookaheadError else if min (int (length xs)) (bw_capacity w) < n then Inl IndexError
    else Inr (map field (drop (length xs - nat n) xs)))"
proof (cases "0 \<le> n \<and> n \<le> min (int (length xs)) (bw_capacity w)")
  case False
  then show ?thesis using assms by (auto simp: window_series_def window_of_def)
next
  case True
  have "mapres (\<lambda>k. rbind (window_at w (n - 1 - k)) (\<lambda>x. Inr (field x))) [0..n - 1]
    = Inr (map (\<lambda>k. field (xs ! nat (int (length xs) - n + k))) [0..n - 1])"
  proof (rule mapres_Inr)
    fix k
    assume "k \<in> set [0..n - 1]"
    with True have "0 \<le> n - 1 - k" "\<not> min (int (length xs)) (bw_capacity w) \<le> n - 1 - k" by auto
    then show "rbind (window_at w (n - 1 - k)) (\<lambda>x. Inr (field x)) = Inr (field (xs ! nat (int (length xs) - n + k)))"
      by (simp add: window_of_at [OF assms] algebra_simps)
  qed
  also have "\<dots> = Inr (map field (drop (length xs - nat n) xs))"
    using True by (subst last_n [symmetric]) (auto simp: comp_def)
  finally show ?thesis using True assms by (auto simp: window_series_def window_of_def)
qed

text \<open>C15: The ring buffer is the end of the history: after any bars, a lag reads the bar that many positions before the current one, a
  negative lag is refused as a look into the future, a lag beyond the bars kept as an \<^verbatim>\<open>IndexError\<close>, and a series is the last values, oldest first.\<close>

theorem window_is_last_bars:
  assumes "window_init capacity = Inr w"
  shows "window_at (foldl window_append w xs) lag
        = (if lag < 0 then Inl LookaheadError else if min (int (length xs)) capacity \<le> lag then Inl IndexError else Inr (rev xs ! nat lag))
    \<and> window_series field (foldl window_append w xs) n
        = (if n < 0 then Inl LookaheadError else if min (int (length xs)) capacity < n then Inl IndexError
           else Inr (map field (drop (length xs - nat n) xs)))"
proof -
  note r = window_of_run [OF assms, of xs]
  have "0 \<le> lag \<Longrightarrow> lag < int (length xs) \<Longrightarrow> xs ! nat (int (length xs) - 1 - lag) = rev xs ! nat lag"
    by (auto simp: rev_nth intro!: arg_cong [where f = "(!) xs"])
  then show ?thesis using window_of_at [OF conjunct1 [OF r], of lag] window_of_series [OF conjunct1 [OF r], of field n] r by auto
qed

theorem window_is_last_bars_witness:
  "\<exists>w. window_init 2 = Inr w \<and> window_at (foldl window_append w [5, 6, 7 :: int]) 1 = Inr 6 \<and> window_at (foldl window_append w [5, 6, 7 :: int]) 2 = Inl IndexError"
proof -
  obtain w :: "int bar_window" where w: "window_init 2 = Inr w" by (simp add: window_init_def)
  note t = window_is_last_bars [OF w, of "[5, 6, 7]", where field = id]
  show ?thesis using w conjunct1 [OF t, of 1] conjunct1 [OF t, of 2] by auto
qed

section \<open>The cursor hides the future\<close>

definition same_past :: "'a guarded \<Rightarrow> 'a guarded \<Rightarrow> bool" where
  "same_past g h \<longleftrightarrow> ga_cursor g = ga_cursor h \<and> length (ga_arr g) = length (ga_arr h) \<and> - 1 \<le> ga_cursor g \<and> ga_cursor g < int (length (ga_arr g))
     \<and> (\<forall>j \<le> ga_cursor g. 0 \<le> j \<longrightarrow> ga_arr g ! nat j = ga_arr h ! nat j)"

lemma slice_bound_range: "lower \<le> upper \<Longrightarrow> lower \<le> slice_bound n lower upper x step \<and> slice_bound n lower upper x step \<le> upper"
  by (auto simp: slice_bound_def Let_def)

lemma slice_indices_range:
  assumes "slice_indices n s = Inr (start, stop, step)" and "0 \<le> n"
  shows "step \<noteq> 0" "0 < step \<Longrightarrow> 0 \<le> start \<and> start \<le> n \<and> 0 \<le> stop \<and> stop \<le> n" "step < 0 \<Longrightarrow> - 1 \<le> start \<and> start < n \<and> - 1 \<le> stop \<and> stop < n"
  using assms slice_bound_range [of 0 n] slice_bound_range [of "- 1" "n - 1"]
  by (auto simp: slice_indices_def Let_def split: if_splits option.splits)

lemma range_list_up: "0 < step \<Longrightarrow> start < stop \<Longrightarrow> i \<in> set (range_list start stop step) \<Longrightarrow> start \<le> i \<and> i < stop"
proof -
  assume s: "0 < step" "start < stop" and "i \<in> set (range_list start stop step)"
  then obtain k where k: "0 \<le> k" "k \<le> (stop - start - 1) div step" "i = start + k * step" by (auto simp: range_list_def Let_def)
  have "k * step \<le> (stop - start - 1) div step * step" using k s by (intro mult_right_mono) auto
  also have "\<dots> \<le> stop - start - 1" using pos_mod_sign [OF s(1), of "stop - start - 1"] minus_mod_eq_div_mult [of "stop - start - 1" step] by linarith
  finally show "start \<le> i \<and> i < stop" using k s by simp
qed

lemma range_list_down: "step < 0 \<Longrightarrow> stop < start \<Longrightarrow> i \<in> set (range_list start stop step) \<Longrightarrow> stop < i \<and> i \<le> start"
proof -
  assume s: "step < 0" "stop < start" and "i \<in> set (range_list start stop step)"
  then obtain k where k: "0 \<le> k" "k \<le> (start - stop - 1) div (- step)" "i = start + k * step" by (auto simp: range_list_def Let_def)
  have "k * (- step) \<le> (start - stop - 1) div (- step) * (- step)" using k s by (intro mult_right_mono) auto
  also have "\<dots> \<le> start - stop - 1" using pos_mod_sign [of "- step" "start - stop - 1"] minus_mod_eq_div_mult [of "start - stop - 1" "- step"] s by linarith
  finally show "stop < i \<and> i \<le> start" using k s by (simp add: mult_nonneg_nonpos)
qed

text \<open>Every index of a slice lies in the array, and at or below the greater of its first and last one.\<close>

lemma range_list_ends:
  assumes "i \<in> set (range_list start stop step)"
  shows "i \<le> max (hd (range_list start stop step)) (last (range_list start stop step))"
proof -
  obtain k where r: "range_list start stop step = map (\<lambda>i. start + i * step) [0..k - 1]" by (auto simp: range_list_def Let_def)
  with assms obtain j where j: "0 \<le> j" "j \<le> k - 1" "i = start + j * step" by auto
  have "[0..k - 1] \<noteq> []" "hd [0..k - 1] = 0" using j by (simp_all add: upto_rec1)
  moreover have "last [0..k - 1] = k - 1" using j upto_rec2 [of 0 "k - 1"] by simp
  ultimately have "hd (range_list start stop step) = start" "last (range_list start stop step) = start + (k - 1) * step"
    unfolding r by (simp_all add: hd_map last_map)
  moreover have "0 \<le> step \<Longrightarrow> j * step \<le> (k - 1) * step" using j by (intro mult_right_mono) auto
  moreover have "step \<le> 0 \<Longrightarrow> j * step \<le> 0" using j by (simp add: mult_nonneg_nonpos)
  ultimately show ?thesis using j by (cases "0 \<le> step") auto
qed

lemma slice_nonneg:
  assumes "slice_indices n s = Inr (start, stop, step)" and "0 \<le> n" and "i \<in> set (range_list start stop step)"
  shows "0 \<le> i \<and> i < n"
proof (cases "0 < step")
  case True
  have "start < stop" using assms(3) True by (auto simp: range_list_def Let_def split: if_splits)
  from range_list_up [OF True this assms(3)] slice_indices_range(2) [OF assms(1,2) True] show ?thesis by simp
next
  case False
  with slice_indices_range(1) [OF assms(1,2)] have s: "step < 0" by simp
  have "stop < start" using assms(3) s by (auto simp: range_list_def Let_def split: if_splits)
  from range_list_down [OF s this assms(3)] slice_indices_range(3) [OF assms(1,2) s] show ?thesis by simp
qed

text \<open>A backtest cannot look ahead through the guarded array: whatever stands after the cursor, every read by index, by slice (any bounds and
  any step, negative ones too) and of the visible part gives the same value or the same exception, and an index or slice that reaches past the cursor is refused.\<close>

theorem guard_hides_future:
  assumes "mk_guarded xs c = Inr g" and "mk_guarded ys c = Inr h" and "length xs = length ys"
    and "\<forall>j \<le> c. 0 \<le> j \<longrightarrow> xs ! nat j = ys ! nat j"
  shows "ga_index g i = ga_index h i \<and> ga_slice g s = ga_slice h s \<and> ga_visible g = ga_visible h
    \<and> (\<forall>x. ga_index g i = Inr x \<longrightarrow> (if i < 0 then i + int (length xs) else i) \<le> c)"
proof -
  have gh: "ga_arr g = xs" "ga_arr h = ys" "ga_cursor g = c" "ga_cursor h = c" "- 1 \<le> c" "c < int (length xs)"
    using assms(1,2) by (auto simp: mk_guarded_def set_cursor_def split: if_splits)
  have "ga_index g i = ga_index h i" using assms(3,4) gh by (auto simp: ga_index_def Let_def)
  moreover have "ga_slice g s = ga_slice h s"
  proof (cases "slice_indices (int (length ys)) s")
    case (Inr t)
    obtain start stop step where t: "t = (start, stop, step)" by (cases t)
    have "xs ! nat i = ys ! nat i"
      if i: "i \<in> set (range_list start stop step)" and le: "max (hd (range_list start stop step)) (last (range_list start stop step)) \<le> c" for i
      using range_list_ends [OF i] slice_nonneg [OF Inr [unfolded t] _ i] le assms(4) by auto
    then show ?thesis using Inr t gh assms(3) by (auto simp: ga_slice_def Let_def not_less)
  qed (simp add: ga_slice_def gh assms(3))
  moreover have "ga_visible g = ga_visible h"
  proof (rule nth_equalityI)
    fix i
    assume "i < length (ga_visible g)"
    then have "i < nat (c + 1)" by (simp add: ga_visible_def gh)
    then show "ga_visible g ! i = ga_visible h ! i" using assms(4) [rule_format, of "int i"] by (simp add: ga_visible_def gh)
  qed (simp add: ga_visible_def gh assms(3))
  moreover have "\<forall>x. ga_index g i = Inr x \<longrightarrow> (if i < 0 then i + int (length xs) else i) \<le> c"
    using gh by (auto simp: ga_index_def Let_def split: if_splits)
  ultimately show ?thesis by blast
qed

theorem guard_hides_future_witness:
  "\<exists>g h. mk_guarded [1, 2, 3 :: int] 1 = Inr g \<and> mk_guarded [1, 2, 9] 1 = Inr h
     \<and> ga_slice g \<lparr>sl_start = None, sl_stop = Some 2, sl_step = None\<rparr> = ga_slice h \<lparr>sl_start = None, sl_stop = Some 2, sl_step = None\<rparr>"
proof -
  obtain g h :: "int guarded" where g: "mk_guarded [1, 2, 3] 1 = Inr g" and h: "mk_guarded [1, 2, 9] 1 = Inr h"
    by (simp add: mk_guarded_def set_cursor_def)
  have "\<forall>j \<le> 1. 0 \<le> j \<longrightarrow> [1, 2, 3 :: int] ! nat j = [1, 2, 9] ! nat j"
  proof (intro allI impI)
    fix j :: int
    assume "j \<le> 1" "0 \<le> j"
    then have "j = 0 \<or> j = 1" by linarith
    then show "[1, 2, 3 :: int] ! nat j = [1, 2, 9] ! nat j" by auto
  qed
  with guard_hides_future [OF g h] g h show ?thesis by simp
qed

end
