(* ===== verification/Indicators.thy ===== *)
theory Indicators
  imports Domain
begin

text \<open>
  \<^verbatim>\<open>features/indicators.py\<close>: the incremental indicators. Every float operation rounds with \<open>f64\<close> in the order of the code,
  \<^verbatim>\<open>math.fsum\<close> is the correctly rounded sum, \<^verbatim>\<open>math.log\<close> a parameter. An update returns the new state and the value, \<open>None\<close> before the
  window is full; a circular buffer with its write position is kept as in the code. Values are finite floats.
\<close>

definition DEFAULT_RESYNC :: nat where "DEFAULT_RESYNC = 1024"

definition fsum :: "rat list \<Rightarrow> rat" where
  "fsum xs = f64 (sum_list xs)"

section \<open>Exponential averages\<close>

record ema =
  em_n :: nat
  em_alpha :: rat
  em_count :: nat
  em_sum :: rat
  em_value :: "rat option"

definition mk_ema :: "int \<Rightarrow> ema result" where
  "mk_ema n = (if n < 1 then Inl ValueError
     else Inr \<lparr>em_n = nat n, em_alpha = f64 (2 / of_int (n + 1)), em_count = 0, em_sum = 0, em_value = None\<rparr>)"

definition ema_update :: "ema \<Rightarrow> rat \<Rightarrow> ema \<times> rat option" where
  "ema_update s x =
     (case em_value s of
        Some v \<Rightarrow> let v' = f64 (v + f64 (em_alpha s * f64 (x - v))) in (s\<lparr>em_value := Some v'\<rparr>, Some v')
      | None \<Rightarrow>
          let c = em_count s + 1; t = f64 (em_sum s + x); v = (if c = em_n s then Some (f64 (t / of_nat (em_n s))) else None)
          in (s\<lparr>em_count := c, em_sum := t, em_value := v\<rparr>, v))"

record wilder_atr =
  wa_n :: nat
  wa_alpha :: rat
  wa_prev_close :: "rat option"
  wa_count :: nat
  wa_sum :: rat
  wa_value :: "rat option"

definition mk_atr :: "int \<Rightarrow> wilder_atr result" where
  "mk_atr n = (if n < 1 then Inl ValueError
     else Inr \<lparr>wa_n = nat n, wa_alpha = f64 (1 / of_int n), wa_prev_close = None, wa_count = 0, wa_sum = 0, wa_value = None\<rparr>)"

definition true_range :: "rat \<Rightarrow> rat \<Rightarrow> rat \<Rightarrow> rat" where
  "true_range h l pc = max (max (f64 (h - l)) \<bar>f64 (h - pc)\<bar>) \<bar>f64 (l - pc)\<bar>"

definition atr_update :: "wilder_atr \<Rightarrow> rat \<times> rat \<times> rat \<Rightarrow> wilder_atr \<times> rat option" where
  "atr_update s = (\<lambda>(h, l, c).
     case wa_prev_close s of
       None \<Rightarrow> (s\<lparr>wa_prev_close := Some c\<rparr>, None)
     | Some pc \<Rightarrow>
         let tr = true_range h l pc; s1 = s\<lparr>wa_prev_close := Some c\<rparr> in
         (case wa_value s of
            Some v \<Rightarrow> let v' = f64 (v + f64 (f64 (tr - v) / of_nat (wa_n s))) in (s1\<lparr>wa_value := Some v'\<rparr>, Some v')
          | None \<Rightarrow>
              let k = wa_count s + 1; t = f64 (wa_sum s + tr); v = (if k = wa_n s then Some (f64 (t / of_nat (wa_n s))) else None)
              in (s1\<lparr>wa_count := k, wa_sum := t, wa_value := v\<rparr>, v)))"

record wilder_rsi =
  wr_n :: nat
  wr_alpha :: rat
  wr_prev :: "rat option"
  wr_count :: nat
  wr_sum_g :: rat
  wr_sum_l :: rat
  wr_avg_g :: rat
  wr_avg_l :: rat
  wr_value :: "rat option"

definition mk_rsi :: "int \<Rightarrow> wilder_rsi result" where
  "mk_rsi n = (if n < 1 then Inl ValueError
     else Inr \<lparr>wr_n = nat n, wr_alpha = f64 (1 / of_int n), wr_prev = None, wr_count = 0, wr_sum_g = 0, wr_sum_l = 0, wr_avg_g = 0, wr_avg_l = 0, wr_value = None\<rparr>)"

definition rsi_of :: "rat \<Rightarrow> rat \<Rightarrow> rat" where
  "rsi_of g l = (let tot = f64 (g + l) in if 0 < tot then f64 (f64 (100 * g) / tot) else 50)"

definition rsi_update :: "wilder_rsi \<Rightarrow> rat \<Rightarrow> wilder_rsi \<times> rat option" where
  "rsi_update s c =
     (case wr_prev s of
        None \<Rightarrow> (s\<lparr>wr_prev := Some c\<rparr>, None)
      | Some prev \<Rightarrow>
          let d = f64 (c - prev); g = (if 0 < d then d else 0); l = (if d < 0 then - d else 0); s1 = s\<lparr>wr_prev := Some c\<rparr>; n = of_nat (wr_n s) in
          (case wr_value s of
             None \<Rightarrow>
               let k = wr_count s + 1; sg = f64 (wr_sum_g s + g); sl = f64 (wr_sum_l s + l); s2 = s1\<lparr>wr_count := k, wr_sum_g := sg, wr_sum_l := sl\<rparr> in
               if k < wr_n s then (s2, None)
               else let ag = f64 (sg / n); al = f64 (sl / n); v = rsi_of ag al in (s2\<lparr>wr_avg_g := ag, wr_avg_l := al, wr_value := Some v\<rparr>, Some v)
           | Some _ \<Rightarrow>
               let ag = f64 (wr_avg_g s + f64 (f64 (g - wr_avg_g s) / n)); al = f64 (wr_avg_l s + f64 (f64 (l - wr_avg_l s) / n)); v = rsi_of ag al
               in (s1\<lparr>wr_avg_g := ag, wr_avg_l := al, wr_value := Some v\<rparr>, Some v)))"

section \<open>Sums over a window\<close>

definition next_idx :: "nat \<Rightarrow> nat \<Rightarrow> nat" where
  "next_idx n i = (if i + 1 < n then i + 1 else 0)"

record sma =
  sa_n :: nat
  sa_resync_every :: nat
  sa_buf :: "rat list"
  sa_idx :: nat
  sa_count :: nat
  sa_sum :: rat
  sa_since :: nat
  sa_value :: "rat option"

definition mk_sma :: "int \<Rightarrow> nat \<Rightarrow> sma result" where
  "mk_sma n resync = (if n < 1 then Inl ValueError
     else Inr \<lparr>sa_n = nat n, sa_resync_every = resync, sa_buf = replicate (nat n) 0, sa_idx = 0, sa_count = 0, sa_sum = 0, sa_since = 0, sa_value = None\<rparr>)"

definition sma_update :: "sma \<Rightarrow> rat \<Rightarrow> sma \<times> rat option" where
  "sma_update s x =
     (let i = sa_idx s; n = sa_n s;
          c = (if sa_count s < n then sa_count s + 1 else sa_count s);
          t = (if sa_count s < n then f64 (sa_sum s + x) else f64 (sa_sum s + f64 (x - sa_buf s ! i)));
          s1 = s\<lparr>sa_count := c, sa_sum := t, sa_buf := (sa_buf s)[i := x], sa_idx := next_idx n i\<rparr>
      in if c < n then (s1, None)
         else let k = sa_since s + 1; again = sa_resync_every s \<le> k; t2 = (if again then fsum (sa_buf s1) else t); v = f64 (t2 / of_nat n)
              in (s1\<lparr>sa_since := (if again then 0 else k), sa_sum := t2, sa_value := Some v\<rparr>, Some v))"

record welford =
  wf_n :: nat
  wf_resync_every :: nat
  wf_buf :: "rat list"
  wf_idx :: nat
  wf_count :: nat
  wf_mean :: rat
  wf_m2 :: rat
  wf_since :: nat

definition mk_welford :: "int \<Rightarrow> nat \<Rightarrow> welford result" where
  "mk_welford n resync = (if n < 1 then Inl ValueError
     else Inr \<lparr>wf_n = nat n, wf_resync_every = resync, wf_buf = replicate (nat n) 0, wf_idx = 0, wf_count = 0, wf_mean = 0, wf_m2 = 0, wf_since = 0\<rparr>)"

definition wf_value :: "welford \<Rightarrow> rat option" where
  "wf_value s = (if wf_count s = wf_n s then Some (wf_mean s) else None)"

definition wf_var :: "welford \<Rightarrow> rat option" where
  "wf_var s = (if wf_count s = wf_n s then Some (f64 (wf_m2 s / of_nat (wf_n s))) else None)"

definition wf_sample_var :: "welford \<Rightarrow> rat option" where
  "wf_sample_var s = (if wf_count s \<noteq> wf_n s \<or> wf_n s < 2 then None else Some (f64 (wf_m2 s / of_nat (wf_n s - 1))))"

definition wf_std :: "welford \<Rightarrow> rat option" where
  "wf_std s = (if wf_count s = wf_n s then Some (f64_sqrt (f64 (wf_m2 s / of_nat (wf_n s)))) else None)"

definition squares :: "rat \<Rightarrow> rat list \<Rightarrow> rat list" where
  "squares m xs = map (\<lambda>x. f64 (f64 (x - m) * f64 (x - m))) xs"

definition wf_resync :: "welford \<Rightarrow> welford" where
  "wf_resync s = (let m = f64 (fsum (wf_buf s) / of_nat (wf_n s)) in s\<lparr>wf_mean := m, wf_m2 := fsum (squares m (wf_buf s))\<rparr>)"

definition wf_push :: "welford \<Rightarrow> rat \<Rightarrow> welford" where
  "wf_push s x =
     (if wf_count s < wf_n s then
        let k = wf_count s + 1; d = f64 (x - wf_mean s); m = f64 (wf_mean s + f64 (d / of_nat k))
        in s\<lparr>wf_count := k, wf_mean := m, wf_m2 := f64 (wf_m2 s + f64 (d * f64 (x - m)))\<rparr>
      else
        let y = wf_buf s ! wf_idx s; m_old = wf_mean s; m_new = f64 (m_old + f64 (f64 (x - y) / of_nat (wf_n s)));
            m2 = f64 (wf_m2 s + f64 (f64 (x - y) * f64 (f64 (f64 (x - m_new) + y) - m_old)))
        in s\<lparr>wf_mean := m_new, wf_m2 := (if 0 < m2 then m2 else 0)\<rparr>)"

definition wf_update :: "welford \<Rightarrow> rat \<Rightarrow> welford \<times> rat option" where
  "wf_update s x =
     (let s1 = (wf_push s x)\<lparr>wf_buf := (wf_buf s)[wf_idx s := x], wf_idx := next_idx (wf_n s) (wf_idx s)\<rparr> in
      if wf_count s1 < wf_n s then (s1, None)
      else let k = wf_since s + 1; s2 = (if wf_resync_every s \<le> k then wf_resync (s1\<lparr>wf_since := 0\<rparr>) else s1\<lparr>wf_since := k\<rparr>)
           in (s2, Some (wf_mean s2)))"

section \<open>Order statistics\<close>

text \<open>The two parallel deques as one list of pairs, front first.\<close>

record mono_deque =
  md_n :: nat
  md_max :: bool
  md_items :: "(nat \<times> rat) list"
  md_i :: nat

definition mk_mono :: "bool \<Rightarrow> int \<Rightarrow> mono_deque result" where
  "mk_mono mx n = (if n < 1 then Inl ValueError else Inr \<lparr>md_n = nat n, md_max = mx, md_items = [], md_i = 0\<rparr>)"

text \<open>\<open>yields mx v x\<close>: the last value \<open>v\<close> is popped when \<open>x\<close> arrives.\<close>

definition yields :: "bool \<Rightarrow> rat \<Rightarrow> rat \<Rightarrow> bool" where
  "yields mx v x = (if mx then v \<le> x else x \<le> v)"

definition pop_back :: "bool \<Rightarrow> rat \<Rightarrow> (nat \<times> rat) list \<Rightarrow> (nat \<times> rat) list" where
  "pop_back mx x items = rev (dropWhile (\<lambda>p. yields mx (snd p) x) (rev items))"

definition pop_front :: "int \<Rightarrow> (nat \<times> rat) list \<Rightarrow> (nat \<times> rat) list" where
  "pop_front cutoff items = dropWhile (\<lambda>p. int (fst p) < cutoff) items"

definition md_value :: "mono_deque \<Rightarrow> rat option" where
  "md_value s = (if md_n s \<le> md_i s then Some (snd (hd (md_items s))) else None)"

definition md_update :: "mono_deque \<Rightarrow> rat \<Rightarrow> mono_deque \<times> rat option" where
  "md_update s x =
     (let items = pop_back (md_max s) x (md_items s) @ [(md_i s, x)]; i = md_i s + 1;
          s1 = s\<lparr>md_items := pop_front (int i - int (md_n s)) items, md_i := i\<rparr>
      in (s1, md_value s1))"

record rank =
  rk_n :: nat
  rk_fifo :: "rat list"
  rk_sorted :: "rat list"
  rk_value :: "rat option"

definition mk_rank :: "int \<Rightarrow> rank result" where
  "mk_rank n = (if n < 1 then Inl ValueError else Inr \<lparr>rk_n = nat n, rk_fifo = [], rk_sorted = [], rk_value = None\<rparr>)"

text \<open>The functions of \<^verbatim>\<open>bisect\<close> on a sorted list.\<close>

definition bisect_left :: "rat list \<Rightarrow> rat \<Rightarrow> nat" where
  "bisect_left xs x = length (takeWhile (\<lambda>y. y < x) xs)"

definition bisect_right :: "rat list \<Rightarrow> rat \<Rightarrow> nat" where
  "bisect_right xs x = length (takeWhile (\<lambda>y. y \<le> x) xs)"

definition insort_right :: "rat \<Rightarrow> rat list \<Rightarrow> rat list" where
  "insort_right x xs = take (bisect_right xs x) xs @ x # drop (bisect_right xs x) xs"

definition del_at :: "nat \<Rightarrow> 'a list \<Rightarrow> 'a list" where
  "del_at i xs = take i xs @ drop (Suc i) xs"

definition rank_update :: "rank \<Rightarrow> rat \<Rightarrow> rank \<times> rat option" where
  "rank_update s x =
     (let is_full = length (rk_fifo s) = rk_n s;
          srt = (if is_full then del_at (bisect_left (rk_sorted s) (hd (rk_fifo s))) (rk_sorted s) else rk_sorted s);
          fifo = (if is_full then tl (rk_fifo s) else rk_fifo s) @ [x]; srt2 = insort_right x srt;
          s1 = s\<lparr>rk_fifo := fifo, rk_sorted := srt2\<rparr>
      in if length fifo < rk_n s then (s1, None)
         else let v = f64 (of_nat (bisect_right srt2 x) / of_nat (rk_n s)) in (s1\<lparr>rk_value := Some v\<rparr>, Some v))"

section \<open>Parkinson volatility\<close>

definition four_ln2 :: "(rat \<Rightarrow> rat) \<Rightarrow> rat" where
  "four_ln2 lg = f64 (4 * lg 2)"

definition log_range_sq :: "(rat \<Rightarrow> rat) \<Rightarrow> rat \<Rightarrow> rat \<Rightarrow> rat" where
  "log_range_sq lg h l = (if 0 < h \<and> 0 < l then let r = lg (f64 (h / l)) in f64 (r * r) else 0)"

record parkinson =
  pk_w :: nat
  pk_resync_every :: nat
  pk_buf :: "rat list"
  pk_idx :: nat
  pk_count :: nat
  pk_sum :: rat
  pk_since :: nat
  pk_value :: "rat option"

definition mk_parkinson :: "int \<Rightarrow> nat \<Rightarrow> parkinson result" where
  "mk_parkinson w resync = (if w < 1 then Inl ValueError
     else Inr \<lparr>pk_w = nat w, pk_resync_every = resync, pk_buf = replicate (nat w) 0, pk_idx = 0, pk_count = 0, pk_sum = 0, pk_since = 0, pk_value = None\<rparr>)"

definition pk_update :: "(rat \<Rightarrow> rat) \<Rightarrow> parkinson \<Rightarrow> rat \<times> rat \<Rightarrow> parkinson \<times> rat option" where
  "pk_update lg s = (\<lambda>(h, l).
     let q = log_range_sq lg h l; i = pk_idx s; w = pk_w s;
         c = (if pk_count s < w then pk_count s + 1 else pk_count s);
         t = (if pk_count s < w then f64 (pk_sum s + q) else f64 (pk_sum s + f64 (q - pk_buf s ! i)));
         s1 = s\<lparr>pk_count := c, pk_sum := t, pk_buf := (pk_buf s)[i := q], pk_idx := next_idx w i\<rparr>
     in if c < w then (s1, None)
        else let k = pk_since s + 1; again = pk_resync_every s \<le> k; t2 = (if again then fsum (pk_buf s1) else t);
                 v = (if 0 < t2 then f64_sqrt (f64 (t2 / f64 (four_ln2 lg * of_nat w))) else 0)
             in (s1\<lparr>pk_since := (if again then 0 else k), pk_sum := t2, pk_value := Some v\<rparr>, Some v))"

section \<open>Regression over a window\<close>

record rolling_ols =
  ro_n :: nat
  ro_resync_every :: nat
  ro_buf :: "rat list"
  ro_idx :: nat
  ro_count :: nat
  ro_mean :: rat
  ro_syy :: rat
  ro_sxy :: rat
  ro_sxx :: rat
  ro_since :: nat

definition mk_ols :: "int \<Rightarrow> nat \<Rightarrow> rolling_ols result" where
  "mk_ols n resync = (if n < 2 then Inl ValueError
     else Inr \<lparr>ro_n = nat n, ro_resync_every = resync, ro_buf = replicate (nat n) 0, ro_idx = 0, ro_count = 0, ro_mean = 0, ro_syy = 0, ro_sxy = 0,
               ro_sxx = f64 (f64 (of_int (n * (n * n - 1))) / 12), ro_since = 0\<rparr>)"

definition ro_ordered :: "rolling_ols \<Rightarrow> rat list" where
  "ro_ordered s = drop (ro_idx s) (ro_buf s) @ take (ro_idx s) (ro_buf s)"

definition ro_resync :: "rolling_ols \<Rightarrow> rolling_ols" where
  "ro_resync s =
     (let ys = ro_ordered s; n = ro_n s; m = f64 (fsum ys / of_nat n); xbar = f64 (of_nat (n - 1) / 2) in
      s\<lparr>ro_mean := m, ro_syy := fsum (squares m ys),
        ro_sxy := fsum (map2 (\<lambda>k y. f64 (f64 (of_nat k - xbar) * f64 (y - m))) [0..<length ys] ys)\<rparr>)"

definition ro_slope :: "rolling_ols \<Rightarrow> rat option" where
  "ro_slope s = (if ro_count s = ro_n s then Some (f64 (ro_sxy s / ro_sxx s)) else None)"

definition REL_TOL :: rat where "REL_TOL = f64 (1 / 10 ^ 9)"

definition ro_r2 :: "rolling_ols \<Rightarrow> rat option" where
  "ro_r2 s =
     (if ro_count s \<noteq> ro_n s then None
      else let syy = ro_syy s; tol = f64 (REL_TOL * \<bar>ro_mean s\<bar>) in
        if syy \<le> f64 (f64 (of_nat (ro_n s) * tol) * tol) \<or> syy \<le> 0 then Some 0
        else let r2 = f64 (f64 (ro_sxy s * ro_sxy s) / f64 (ro_sxx s * syy)) in Some (if 1 < r2 then 1 else r2))"

definition ro_shift :: "rolling_ols \<Rightarrow> rat \<Rightarrow> rolling_ols" where
  "ro_shift s y =
     (let n = of_nat (ro_n s); y0 = ro_buf s ! ro_idx s; m_old = ro_mean s;
          sxy = f64 (ro_sxy s + f64 (f64 (f64 (1 / 2 * (n + 1)) * f64 (y0 - m_old)) + f64 (f64 (1 / 2 * (n - 1)) * f64 (y - m_old))));
          m_new = f64 (m_old + f64 (f64 (y - y0) / n));
          syy = f64 (ro_syy s + f64 (f64 (y - y0) * f64 (f64 (f64 (y - m_new) + y0) - m_old)))
      in s\<lparr>ro_sxy := sxy, ro_mean := m_new, ro_syy := (if 0 < syy then syy else 0)\<rparr>)"

definition ols_update :: "rolling_ols \<Rightarrow> rat \<Rightarrow> rolling_ols \<times> rat option" where
  "ols_update s y =
     (let put = (\<lambda>t. t\<lparr>ro_buf := (ro_buf s)[ro_idx s := y], ro_idx := next_idx (ro_n s) (ro_idx s)\<rparr>) in
      if ro_count s < ro_n s then
        let s1 = (put s)\<lparr>ro_count := ro_count s + 1\<rparr> in
        if ro_count s1 = ro_n s then let s2 = ro_resync (s1\<lparr>ro_since := 0\<rparr>) in (s2, ro_slope s2) else (s1, None)
      else
        let s1 = put (ro_shift s y); k = ro_since s + 1;
            s2 = (if ro_resync_every s \<le> k then ro_resync (s1\<lparr>ro_since := 0\<rparr>) else s1\<lparr>ro_since := k\<rparr>)
        in (s2, Some (f64 (ro_sxy s2 / ro_sxx s2))))"

end
