(* ===== verification/IndicatorProps.thy ===== *)
theory IndicatorProps
  imports Indicators "HOL-Library.Multiset"
begin

text \<open>
  What the incremental indicators compute. An indicator is ready after a fixed number of updates (one locale, interpreted on every
  indicator), and the windowed extremum and the percentile rank are those of the last values of the history.
\<close>

section \<open>Readiness\<close>

text \<open>The values an indicator returns along a history, and its state after it.\<close>

definition feed :: "('s \<Rightarrow> 'a \<Rightarrow> 's \<times> 'b) \<Rightarrow> 's \<Rightarrow> 'a list \<Rightarrow> 's" where
  "feed upd s xs = foldl (\<lambda>s x. fst (upd s x)) s xs"

lemma feed_simps [simp]: "feed upd s [] = s" "feed upd s (xs @ [x]) = fst (upd (feed upd s xs) x)"
  by (simp_all add: feed_def)

locale indicator =
  fixes upd :: "'s \<Rightarrow> 'a \<Rightarrow> 's \<times> 'b option" and inv :: "nat \<Rightarrow> 's \<Rightarrow> bool" and n :: nat
  assumes inv_upd: "inv k s \<Longrightarrow> inv (Suc k) (fst (upd s x))"
    and ready: "inv k s \<Longrightarrow> (\<exists>v. snd (upd s x) = Some v) \<longleftrightarrow> n \<le> Suc k"
begin

lemma upd_step: "inv k s \<Longrightarrow> upd s x = (s', v) \<Longrightarrow> inv (Suc k) s' \<and> (v = None \<longleftrightarrow> Suc k < n)"
  using inv_upd [of k s x] ready [of k s x] by (auto simp: not_le)

lemma inv_feed: "inv k s \<Longrightarrow> inv (k + length xs) (feed upd s xs)"
  by (induction xs rule: rev_induct) (auto intro: inv_upd)

lemma ready_feed: "inv 0 s \<Longrightarrow> (\<exists>v. snd (upd (feed upd s xs) x) = Some v) \<longleftrightarrow> n \<le> Suc (length xs)"
  using ready [OF inv_feed, of 0 s xs x] by simp

end

definition ema_inv :: "nat \<Rightarrow> nat \<Rightarrow> ema \<Rightarrow> bool" where
  "ema_inv n k s \<longleftrightarrow> 1 \<le> n \<and> em_n s = n \<and> em_count s = min k n \<and> (em_value s = None \<longleftrightarrow> k < n)"

interpretation ema: indicator ema_update "ema_inv n" n for n
  by unfold_locales (auto simp: ema_inv_def ema_update_def Let_def split: option.splits)

definition atr_inv :: "nat \<Rightarrow> nat \<Rightarrow> wilder_atr \<Rightarrow> bool" where
  "atr_inv n k s \<longleftrightarrow> 1 \<le> n \<and> wa_n s = n \<and> (wa_prev_close s = None \<longleftrightarrow> k = 0) \<and> wa_count s = min (k - 1) n \<and> (wa_value s = None \<longleftrightarrow> k \<le> n)"

interpretation atr: indicator atr_update "atr_inv n" "Suc n" for n
  by unfold_locales (auto simp: atr_inv_def atr_update_def Let_def split: option.splits if_splits)

definition rsi_inv :: "nat \<Rightarrow> nat \<Rightarrow> wilder_rsi \<Rightarrow> bool" where
  "rsi_inv n k s \<longleftrightarrow> 1 \<le> n \<and> wr_n s = n \<and> (wr_prev s = None \<longleftrightarrow> k = 0) \<and> wr_count s = min (k - 1) n \<and> (wr_value s = None \<longleftrightarrow> k \<le> n)"

interpretation rsi: indicator rsi_update "rsi_inv n" "Suc n" for n
  by unfold_locales (auto simp: rsi_inv_def rsi_update_def Let_def split: option.splits if_splits)

definition sma_inv :: "nat \<Rightarrow> nat \<Rightarrow> sma \<Rightarrow> bool" where
  "sma_inv n k s \<longleftrightarrow> 1 \<le> n \<and> sa_n s = n \<and> sa_count s = min k n"

lemma sma_update_fields [simp]:
  "sa_n (fst (sma_update s x)) = sa_n s" "sa_count (fst (sma_update s x)) = (if sa_count s < sa_n s then sa_count s + 1 else sa_count s)"
  "(\<exists>v. snd (sma_update s x) = Some v) \<longleftrightarrow> sa_n s \<le> sa_count (fst (sma_update s x))"
  by (simp_all add: sma_update_def Let_def)

interpretation sma: indicator sma_update "sma_inv n" n for n
  by unfold_locales (auto simp: sma_inv_def)

definition wf_inv :: "nat \<Rightarrow> nat \<Rightarrow> welford \<Rightarrow> bool" where
  "wf_inv n k s \<longleftrightarrow> 1 \<le> n \<and> wf_n s = n \<and> wf_count s = min k n"

lemma wf_push_fields [simp]: "wf_n (wf_push s x) = wf_n s" "wf_count (wf_push s x) = min (wf_count s + 1) (max (wf_n s) (wf_count s))"
  by (auto simp: wf_push_def Let_def)

lemma wf_resync_fields [simp]: "wf_n (wf_resync s) = wf_n s" "wf_count (wf_resync s) = wf_count s"
  by (simp_all add: wf_resync_def Let_def)

interpretation welford: indicator wf_update "wf_inv n" n for n
  by unfold_locales (auto simp: wf_inv_def wf_update_def Let_def min_def max_def)

lemma wf_std_ready: "wf_inv n k s \<Longrightarrow> (\<exists>v. wf_std s = Some v) \<longleftrightarrow> n \<le> k"
  by (auto simp: wf_inv_def wf_std_def)

definition pk_inv :: "nat \<Rightarrow> nat \<Rightarrow> parkinson \<Rightarrow> bool" where
  "pk_inv n k s \<longleftrightarrow> 1 \<le> n \<and> pk_w s = n \<and> pk_count s = min k n"

lemma pk_update_fields [simp]:
  "pk_w (fst (pk_update lg s x)) = pk_w s" "pk_count (fst (pk_update lg s x)) = (if pk_count s < pk_w s then pk_count s + 1 else pk_count s)"
  "(\<exists>v. snd (pk_update lg s x) = Some v) \<longleftrightarrow> pk_w s \<le> pk_count (fst (pk_update lg s x))"
  by (cases x; simp add: pk_update_def Let_def)+

interpretation parkinson: indicator "pk_update lg" "pk_inv n" n for lg n
  by unfold_locales (auto simp: pk_inv_def)

definition ols_inv :: "nat \<Rightarrow> nat \<Rightarrow> rolling_ols \<Rightarrow> bool" where
  "ols_inv n k s \<longleftrightarrow> 2 \<le> n \<and> ro_n s = n \<and> ro_count s = min k n"

lemma ro_fields [simp]: "ro_n (ro_resync s) = ro_n s" "ro_count (ro_resync s) = ro_count s" "ro_n (ro_shift s y) = ro_n s" "ro_count (ro_shift s y) = ro_count s"
  by (simp_all add: ro_resync_def ro_shift_def Let_def)

interpretation ols: indicator ols_update "ols_inv n" n for n
  by unfold_locales (auto simp: ols_inv_def ols_update_def ro_slope_def Let_def)

lemma ols_r2_ready: "ols_inv n k s \<Longrightarrow> (\<exists>v. ro_r2 s = Some v) \<longleftrightarrow> n \<le> k"
  by (auto simp: ols_inv_def ro_r2_def Let_def)

definition rank_inv :: "nat \<Rightarrow> nat \<Rightarrow> rank \<Rightarrow> bool" where
  "rank_inv n k s \<longleftrightarrow> 1 \<le> n \<and> rk_n s = n \<and> length (rk_fifo s) = min k n"

interpretation rank: indicator rank_update "rank_inv n" n for n
  by unfold_locales (auto simp: rank_inv_def rank_update_def Let_def)

definition mono_inv :: "nat \<Rightarrow> nat \<Rightarrow> mono_deque \<Rightarrow> bool" where
  "mono_inv n k s \<longleftrightarrow> 1 \<le> n \<and> md_n s = n \<and> md_i s = k"

interpretation mono: indicator md_update "mono_inv n" n for n
  by unfold_locales (auto simp: mono_inv_def md_update_def md_value_def Let_def)

text \<open>New indicators have seen nothing.\<close>

lemma mk_indicators_inv:
  "mk_ema n = Inr e \<Longrightarrow> ema_inv (nat n) 0 e" "mk_atr n = Inr a \<Longrightarrow> atr_inv (nat n) 0 a" "mk_rsi n = Inr r \<Longrightarrow> rsi_inv (nat n) 0 r"
  "mk_sma n q = Inr s \<Longrightarrow> sma_inv (nat n) 0 s" "mk_welford n q = Inr w \<Longrightarrow> wf_inv (nat n) 0 w" "mk_parkinson n q = Inr p \<Longrightarrow> pk_inv (nat n) 0 p"
  "mk_ols n q = Inr ol \<Longrightarrow> ols_inv (nat n) 0 ol" "mk_rank n = Inr rk \<Longrightarrow> rank_inv (nat n) 0 rk" "mk_mono mx n = Inr md \<Longrightarrow> mono_inv (nat n) 0 md"
  by (auto simp: mk_ema_def ema_inv_def mk_atr_def atr_inv_def mk_rsi_def rsi_inv_def mk_sma_def sma_inv_def mk_welford_def wf_inv_def
      mk_parkinson_def pk_inv_def mk_ols_def ols_inv_def mk_rank_def rank_inv_def mk_mono_def mono_inv_def split: if_splits)

section \<open>The windowed extremum\<close>

definition last_n :: "nat \<Rightarrow> 'a list \<Rightarrow> 'a list" where
  "last_n n xs = drop (length xs - n) xs"

lemma last_n_snoc: "1 \<le> n \<Longrightarrow> last_n n (xs @ [x]) = (if length xs < n then xs @ [x] else tl (last_n n xs) @ [x])"
  by (auto simp: last_n_def drop_Suc [symmetric] Suc_diff_le tl_drop)

lemma last_n_short: "length xs \<le> n \<Longrightarrow> last_n n xs = xs"
  by (simp add: last_n_def)

lemma length_last_n [simp]: "length (last_n n xs) = min n (length xs)"
  by (auto simp: last_n_def)

text \<open>The leaders of a window: the entries that no later entry makes yield.\<close>

fun leaders :: "bool \<Rightarrow> (nat \<times> rat) list \<Rightarrow> (nat \<times> rat) list" where
  "leaders mx [] = []"
| "leaders mx (p # ps) = (if \<forall>q \<in> set ps. \<not> yields mx (snd p) (snd q) then p # leaders mx ps else leaders mx ps)"

lemma leaders_snoc: "leaders mx (ps @ [q]) = filter (\<lambda>p. \<not> yields mx (snd p) (snd q)) (leaders mx ps) @ [q]"
  by (induction ps) auto

lemma leaders_subset: "set (leaders mx ps) \<subseteq> set ps"
  by (induction ps) auto

text \<open>From front to back the leaders yield to ever fewer values: the popped ones are at the back.\<close>

lemma leaders_sorted: "sorted_wrt (\<lambda>p q. \<not> yields mx (snd p) (snd q)) (leaders mx ps)"
  using leaders_subset by (induction ps) auto

lemma pop_back_filter:
  assumes "sorted_wrt (\<lambda>p q. \<not> yields mx (snd p) (snd q)) items"
  shows "pop_back mx x items = filter (\<lambda>p. \<not> yields mx (snd p) x) items"
  using assms
proof (induction items rule: rev_induct)
  case (snoc p ps)
  from snoc.prems have s: "sorted_wrt (\<lambda>p q. \<not> yields mx (snd p) (snd q)) ps" and r: "\<forall>q \<in> set ps. \<not> yields mx (snd q) (snd p)"
    by (auto simp: sorted_wrt_append)
  show ?case
  proof (cases "yields mx (snd p) x")
    case True
    then show ?thesis using snoc.IH [OF s] by (simp add: pop_back_def)
  next
    case False
    then have "\<forall>q \<in> set ps. \<not> yields mx (snd q) x" using r by (auto simp: yields_def split: if_splits)
    then show ?thesis using False by (simp add: pop_back_def)
  qed
qed (simp add: pop_back_def)

lemma pop_front_filter:
  assumes "sorted_wrt (\<lambda>p q. fst p < fst q) items"
  shows "pop_front c items = filter (\<lambda>p. c \<le> int (fst p)) items"
  using assms
proof (induction items)
  case (Cons p ps)
  then show ?case
    by (cases "int (fst p) < c") (auto simp: pop_front_def intro!: filter_True [symmetric] dest: less_imp_le)
qed (simp add: pop_front_def)

lemma leaders_filter_front:
  assumes "sorted_wrt (\<lambda>p q. fst p < fst q) ps"
  shows "filter (\<lambda>p. c \<le> int (fst p)) (leaders mx ps) = leaders mx (filter (\<lambda>p. c \<le> int (fst p)) ps)"
  using assms
proof (induction ps)
  case (Cons p ps)
  show ?case
  proof (cases "c \<le> int (fst p)")
    case True
    then have "filter (\<lambda>p. c \<le> int (fst p)) ps = ps" using Cons.prems by (auto intro!: filter_True dest: less_imp_le)
    with True Cons show ?thesis by simp
  next
    case False
    with Cons show ?thesis by simp
  qed
qed simp

lemma leaders_fst_sorted: "sorted_wrt (\<lambda>p q. fst p < fst q) ps \<Longrightarrow> sorted_wrt (\<lambda>p q. fst p < fst q) (leaders mx ps)"
  using leaders_subset by (induction ps) fastforce+

lemma leaders_nonempty: "ps \<noteq> [] \<Longrightarrow> leaders mx ps \<noteq> []"
  by (induction ps rule: rev_induct) (simp_all add: leaders_snoc)

text \<open>All values yield to the first leader.\<close>

lemma leaders_hd: "p \<in> set ps \<Longrightarrow> yields mx (snd p) (snd (hd (leaders mx ps)))"
proof (induction ps arbitrary: p)
  case (Cons a ps)
  show ?case
  proof (cases "\<forall>q \<in> set ps. \<not> yields mx (snd a) (snd q)")
    case True
    with Cons.prems show ?thesis by (auto simp: yields_def split: if_splits)
  next
    case False
    then obtain q where q: "q \<in> set ps" "yields mx (snd a) (snd q)" by blast
    with Cons.IH [OF q(1)] have "yields mx (snd a) (snd (hd (leaders mx ps)))" by (auto simp: yields_def split: if_splits)
    with Cons.IH Cons.prems False show ?thesis by (cases "p = a") auto
  qed
qed simp

definition extremum :: "bool \<Rightarrow> rat list \<Rightarrow> rat" where
  "extremum mx xs = (if mx then Max (set xs) else Min (set xs))"

lemma leaders_extremum: "ps \<noteq> [] \<Longrightarrow> snd (hd (leaders mx ps)) = extremum mx (map snd ps)"
proof -
  assume ne: "ps \<noteq> []"
  have "hd (leaders mx ps) \<in> set ps" using leaders_subset leaders_nonempty [OF ne] hd_in_set by blast
  then show ?thesis using leaders_hd [of _ ps mx] ne
    by (auto simp: extremum_def yields_def image_iff split: if_splits intro!: Max_eqI [symmetric] Min_eqI [symmetric])
qed

text \<open>The deque is the leaders of the last values with their positions.\<close>

definition numbered :: "'a list \<Rightarrow> (nat \<times> 'a) list" where
  "numbered xs = zip [0..<length xs] xs"

definition md_of :: "mono_deque \<Rightarrow> rat list \<Rightarrow> bool" where
  "md_of s xs \<longleftrightarrow> 1 \<le> md_n s \<and> md_i s = length xs \<and> md_items s = leaders (md_max s) (last_n (md_n s) (numbered xs))"

lemma numbered_snoc: "numbered (xs @ [x]) = numbered xs @ [(length xs, x)]"
  by (simp add: numbered_def)

lemma numbered_sorted: "sorted_wrt (\<lambda>p q. fst p < fst q) (last_n n (numbered xs))"
  by (auto simp: sorted_wrt_iff_nth_less last_n_def numbered_def)

lemma length_numbered [simp]: "length (numbered xs) = length xs"
  by (simp add: numbered_def)

lemma last_n_filter: "last_n n (numbered xs) = filter (\<lambda>p. int (length xs) - int n \<le> int (fst p)) (numbered xs)"
proof (induction xs rule: rev_induct)
  case Nil
  then show ?case by (simp add: last_n_def numbered_def)
next
  case (snoc x xs)
  have "filter (\<lambda>p. int (length (xs @ [x])) - int n \<le> int (fst p)) (numbered xs) = drop (Suc (length xs) - n) (numbered xs)"
  proof -
    have "numbered xs = take (Suc (length xs) - n) (numbered xs) @ drop (Suc (length xs) - n) (numbered xs)" by simp
    moreover have "filter (\<lambda>p. int (length (xs @ [x])) - int n \<le> int (fst p)) (take (Suc (length xs) - n) (numbered xs)) = []"
      by (auto simp: filter_empty_conv in_set_conv_nth numbered_def)
    moreover have "filter (\<lambda>p. int (length (xs @ [x])) - int n \<le> int (fst p)) (drop (Suc (length xs) - n) (numbered xs)) = drop (Suc (length xs) - n) (numbered xs)"
      by (auto simp: filter_id_conv in_set_conv_nth numbered_def)
    ultimately show ?thesis by (metis filter_append append_Nil)
  qed
  then show ?case by (auto simp: numbered_snoc last_n_def)
qed

lemma md_of_value:
  assumes "md_of s xs"
  shows "md_value s = (if md_n s \<le> length xs then Some (extremum (md_max s) (last_n (md_n s) xs)) else None)"
proof -
  let ?n = "md_n s"
  have n: "1 \<le> ?n" and i: "md_i s = length xs" and it: "md_items s = leaders (md_max s) (last_n ?n (numbered xs))" using assms by (auto simp: md_of_def)
  have m: "map snd (last_n ?n (numbered xs)) = last_n ?n xs" by (simp add: last_n_def numbered_def drop_map [symmetric])
  have "?n \<le> length xs \<Longrightarrow> last_n ?n (numbered xs) \<noteq> []" using n by (auto simp: last_n_def)
  then show ?thesis using leaders_extremum [of "last_n ?n (numbered xs)" "md_max s"] m by (simp add: md_value_def i it)
qed

lemma md_of_update:
  assumes "md_of s xs"
  shows "md_of (fst (md_update s x)) (xs @ [x]) \<and> md_n (fst (md_update s x)) = md_n s \<and> md_max (fst (md_update s x)) = md_max s
    \<and> snd (md_update s x) = (if md_n s \<le> Suc (length xs) then Some (extremum (md_max s) (last_n (md_n s) (xs @ [x]))) else None)"
proof -
  let ?n = "md_n s" and ?mx = "md_max s" and ?ps = "last_n (md_n s) (numbered xs)"
  have n: "1 \<le> ?n" and i: "md_i s = length xs" and it: "md_items s = leaders ?mx ?ps" using assms by (auto simp: md_of_def)
  have items: "pop_back ?mx x (md_items s) @ [(length xs, x)] = leaders ?mx (?ps @ [(length xs, x)])"
    unfolding it leaders_snoc by (simp add: pop_back_filter [OF leaders_sorted])
  have srt: "sorted_wrt (\<lambda>p q. fst p < fst q) (?ps @ [(length xs, x)])"
    using numbered_sorted [of ?n xs] by (auto simp: sorted_wrt_append last_n_def numbered_def dest!: in_set_dropD set_zip_leftD)
  let ?c = "int (Suc (length xs)) - int ?n"
  have "pop_front ?c (leaders ?mx (?ps @ [(length xs, x)])) = leaders ?mx (filter (\<lambda>p. ?c \<le> int (fst p)) (?ps @ [(length xs, x)]))"
    by (simp add: pop_front_filter [OF leaders_fst_sorted [OF srt]] leaders_filter_front [OF srt])
  also have "filter (\<lambda>p. ?c \<le> int (fst p)) (?ps @ [(length xs, x)]) = last_n ?n (numbered (xs @ [x]))"
    unfolding last_n_filter [of ?n "xs @ [x]"] unfolding last_n_filter numbered_snoc using n by (auto simp: filter_filter intro!: filter_cong)
  finally have front: "pop_front ?c (leaders ?mx (?ps @ [(length xs, x)])) = leaders ?mx (last_n ?n (numbered (xs @ [x])))" .
  let ?s = "s\<lparr>md_items := leaders ?mx (last_n ?n (numbered (xs @ [x]))), md_i := Suc (length xs)\<rparr>"
  have u: "md_update s x = (?s, md_value ?s)" unfolding md_update_def Let_def i items Suc_eq_plus1 [symmetric] front by simp
  have "md_of ?s (xs @ [x])" using n by (simp add: md_of_def)
  from this md_of_value [OF this] show ?thesis using u by simp
qed

lemma md_of_feed: "mk_mono mx n = Inr s \<Longrightarrow> md_of (feed md_update s xs) xs \<and> md_n (feed md_update s xs) = nat n \<and> md_max (feed md_update s xs) = mx"
proof (induction xs rule: rev_induct)
  case Nil
  then show ?case by (auto simp: mk_mono_def md_of_def last_n_def numbered_def split: if_splits)
qed (use md_of_update in auto)

section \<open>The percentile rank\<close>

definition rank_of :: "rank \<Rightarrow> rat list \<Rightarrow> bool" where
  "rank_of s xs \<longleftrightarrow> 1 \<le> rk_n s \<and> rk_fifo s = last_n (rk_n s) xs \<and> rk_sorted s = sort (last_n (rk_n s) xs)"

lemma sorted_takeWhile_filter: "sorted xs \<Longrightarrow> takeWhile (\<lambda>y. y \<le> x) xs = filter (\<lambda>y. y \<le> (x :: rat)) xs"
  by (induction xs) (auto simp: empty_filter_conv)

lemma bisect_right_count: "sorted xs \<Longrightarrow> bisect_right xs x = length (filter (\<lambda>y. y \<le> x) xs)"
  by (simp add: bisect_right_def sorted_takeWhile_filter)

lemma insort_right_sort: "sorted xs \<Longrightarrow> insort_right x xs = sort (x # xs)"
proof (rule sym, rule properties_for_sort)
  assume s: "sorted xs"
  have tk: "take (bisect_right xs x) xs = takeWhile (\<lambda>y. y \<le> x) xs" "drop (bisect_right xs x) xs = dropWhile (\<lambda>y. y \<le> x) xs"
    by (simp_all add: bisect_right_def takeWhile_eq_take [symmetric] dropWhile_eq_drop [symmetric])
  show "mset (insort_right x xs) = mset (x # xs)"
    unfolding insort_right_def tk by (metis (no_types, lifting) add_mset_add_single mset.simps(2) mset_append takeWhile_dropWhile_id union_mset_add_mset_right)
  have "\<forall>y \<in> set (dropWhile (\<lambda>y. y \<le> x) xs). x \<le> y"
    using s by (induction xs) (auto intro: less_imp_le less_le_trans)
  moreover have "\<forall>y \<in> set (takeWhile (\<lambda>y. y \<le> x) xs). y \<le> x" by (auto dest: set_takeWhileD)
  ultimately show "sorted (insort_right x xs)"
    unfolding insort_right_def tk using s
    by (fastforce simp: sorted_append sorted_takeWhile intro: sorted_dropWhile order.trans)
qed

lemma sort_snoc: "sort (x # sort ys) = sort (ys @ [x])"
  by (rule properties_for_sort) simp_all

lemma del_at_bisect: "sorted xs \<Longrightarrow> a \<in> set xs \<Longrightarrow> del_at (bisect_left xs a) xs = remove1 a xs"
proof (induction xs)
  case (Cons x xs)
  show ?case
  proof (cases "x < a")
    case True
    with Cons show ?thesis by (auto simp: bisect_left_def del_at_def)
  next
    case False
    with Cons.prems have "x = a" by auto
    then show ?thesis by (simp add: bisect_left_def del_at_def)
  qed
qed simp

lemma rank_of_update:
  assumes "rank_of s xs"
  shows "rank_of (fst (rank_update s x)) (xs @ [x]) \<and> rk_n (fst (rank_update s x)) = rk_n s
    \<and> snd (rank_update s x) = (if rk_n s \<le> Suc (length xs)
         then Some (f64 (of_nat (length (filter (\<lambda>y. y \<le> x) (last_n (rk_n s) (xs @ [x])))) / of_nat (rk_n s))) else None)"
proof -
  let ?n = "rk_n s" and ?w = "last_n (rk_n s) xs"
  have n: "1 \<le> ?n" and f: "rk_fifo s = ?w" and st: "rk_sorted s = sort ?w" using assms by (auto simp: rank_of_def)
  let ?full = "length ?w = ?n"
  have full: "?full \<longleftrightarrow> ?n \<le> length xs" by auto
  have srt: "(if ?full then del_at (bisect_left (sort ?w) (hd ?w)) (sort ?w) else sort ?w) = sort (if ?full then tl ?w else ?w)"
  proof (cases ?full)
    case True
    then obtain a ws where w: "?w = a # ws" using n by (cases ?w) auto
    have "del_at (bisect_left (sort ?w) (hd ?w)) (sort ?w) = remove1 a (sort (a # ws))" unfolding w by (subst del_at_bisect) (simp_all add: sorted_insort set_insort_key)
    also have "\<dots> = sort ws" by (simp add: remove1_insort_key)
    finally show ?thesis using True w by simp
  next
    case False
    then show ?thesis by (simp only: if_False)
  qed
  have fifo: "(if ?full then tl ?w else ?w) @ [x] = last_n ?n (xs @ [x])"
    using n full by (auto simp: last_n_snoc last_n_short)
  have srt2: "insort_right x (sort (if ?full then tl ?w else ?w)) = sort (last_n ?n (xs @ [x]))"
    unfolding fifo [symmetric] by (simp only: insort_right_sort [OF sorted_sort] sort_snoc)
  have cnt: "bisect_right (sort ys) x = length (filter (\<lambda>y. y \<le> x) ys)" for ys
    by (simp add: bisect_right_count) (metis mset_filter mset_sort size_mset)
  show ?thesis
    using n unfolding rank_update_def Let_def f st srt fifo srt2 cnt
    by (auto simp: rank_of_def)
qed

lemma rank_of_feed: "mk_rank n = Inr s \<Longrightarrow> rank_of (feed rank_update s xs) xs \<and> rk_n (feed rank_update s xs) = nat n"
proof (induction xs rule: rev_induct)
  case Nil
  then show ?case by (auto simp: mk_rank_def rank_of_def last_n_def split: if_splits)
qed (use rank_of_update in auto)

text \<open>C14: The windowed statistics, which the code updates by popping from two ends of a deque and by bisection in a sorted list, are the ones of the
  last values: after any history the deques return the greatest and the least of the last \<open>n\<close> values and the percentile rank the share of
  the last \<open>n\<close> values that do not exceed the newest one, and all three return nothing before \<open>n\<close> values.\<close>

theorem order_statistics_exact:
  assumes "mk_mono True n = Inr up" and "mk_mono False n = Inr lo" and "mk_rank n = Inr rk"
  shows "snd (md_update (feed md_update up xs) x) = (if nat n \<le> Suc (length xs) then Some (Max (set (last_n (nat n) (xs @ [x])))) else None)
    \<and> snd (md_update (feed md_update lo xs) x) = (if nat n \<le> Suc (length xs) then Some (Min (set (last_n (nat n) (xs @ [x])))) else None)
    \<and> snd (rank_update (feed rank_update rk xs) x)
        = (if nat n \<le> Suc (length xs) then Some (f64 (of_nat (length (filter (\<lambda>y. y \<le> x) (last_n (nat n) (xs @ [x])))) / of_nat (nat n))) else None)"
  using md_of_feed [OF assms(1), of xs] md_of_feed [OF assms(2), of xs] rank_of_feed [OF assms(3), of xs]
    md_of_update [of "feed md_update up xs" xs x] md_of_update [of "feed md_update lo xs" xs x] rank_of_update [of "feed rank_update rk xs" xs x]
  by (simp add: extremum_def)

theorem order_statistics_exact_witness:
  "\<exists>up. mk_mono True 2 = Inr up \<and> snd (md_update (feed md_update up [7, 5]) 6) = Some 6"
proof -
  obtain up lo rk where m: "mk_mono True 2 = Inr up" "mk_mono False 2 = Inr lo" "mk_rank 2 = Inr rk" by (simp add: mk_mono_def mk_rank_def)
  from order_statistics_exact [OF m, of "[7, 5]" 6] m(1) show ?thesis by (simp add: last_n_def)
qed

end
