(* ===== verification/Features.thy ===== *)
theory Features
  imports Window IndicatorProps
begin

text \<open>
  \<^verbatim>\<open>features/pipeline.py\<close>: the pipeline that turns a closed bar into its features. Its state is the indicators and the short histories
  of three of them; a step updates them in the order of the code. The three fields of the last breakout, which are set together, are one option.
\<close>

section \<open>Parameters\<close>

definition REL_FLOOR :: rat where "REL_FLOOR = f64 (1 / 10 ^ 9)"

record feature_params =
  fp_n_ema :: int
  fp_ema_horizon :: nat
  fp_ema_r2_points :: int
  fp_n_atr :: int
  fp_n_rsi :: int
  fp_rsi_div_lookback :: nat
  fp_bb_n :: int
  fp_bb_k :: rat
  fp_bb_rank_window :: int
  fp_donchian_n :: int
  fp_park_window :: int
  fp_vol_rank_window :: int
  fp_volume_window :: int
  fp_resync_every :: nat

definition default_params :: feature_params where
  "default_params = \<lparr>fp_n_ema = 21, fp_ema_horizon = 5, fp_ema_r2_points = 5, fp_n_atr = 14, fp_n_rsi = 14, fp_rsi_div_lookback = 14, fp_bb_n = 20,
     fp_bb_k = 2, fp_bb_rank_window = 200, fp_donchian_n = 20, fp_park_window = 24, fp_vol_rank_window = 500, fp_volume_window = 60,
     fp_resync_every = DEFAULT_RESYNC\<rparr>"

text \<open>How many bars, counted from the first, a feature needs.\<close>

definition warmup :: "feature_params \<Rightarrow> (string \<times> int) list" where
  "warmup p = (let k = int (fp_rsi_div_lookback p) in
     [(''ema'', fp_n_ema p), (''ema_lag'', fp_n_ema p + int (fp_ema_horizon p)), (''ema_r2'', fp_n_ema p + fp_ema_r2_points p - 1),
      (''atr'', fp_n_atr p + 1), (''rsi'', fp_n_rsi p + 1), (''rsi_delta'', fp_n_rsi p + 1 + k), (''close_delta'', k + 1),
      (''sma'', fp_bb_n p), (''sigma'', fp_bb_n p), (''bb_upper'', fp_bb_n p), (''bb_lower'', fp_bb_n p), (''bb_bw'', fp_bb_n p),
      (''bb_bw_rank'', fp_bb_n p + fp_bb_rank_window p - 1), (''donch_hi'', fp_donchian_n p + 1), (''donch_lo'', fp_donchian_n p + 1),
      (''park_sigma'', fp_park_window p), (''vol_rank'', fp_park_window p + fp_vol_rank_window p - 1), (''vol_mean'', fp_volume_window p),
      (''vol_z'', fp_volume_window p)])"

definition max_lookback :: "feature_params \<Rightarrow> int" where
  "max_lookback p = Max (snd ` set (warmup p))"

section \<open>Features\<close>

record features =
  ft_ema :: "rat option"
  ft_ema_lag :: "rat option"
  ft_ema_r2 :: "rat option"
  ft_atr :: "rat option"
  ft_rsi :: "rat option"
  ft_rsi_delta :: "rat option"
  ft_close_delta :: "rat option"
  ft_sma :: "rat option"
  ft_sigma :: "rat option"
  ft_bb_upper :: "rat option"
  ft_bb_lower :: "rat option"
  ft_bb_bw :: "rat option"
  ft_bb_bw_rank :: "rat option"
  ft_donch_hi :: "rat option"
  ft_donch_lo :: "rat option"
  ft_donch_ref :: "rat option"
  ft_donch_dir :: "rat option"
  ft_bars_since :: "rat option"
  ft_park_sigma :: "rat option"
  ft_vol_rank :: "rat option"
  ft_vol_mean :: "rat option"
  ft_vol_z :: "rat option"

definition as_dict :: "features \<Rightarrow> (string, rat option) dict" where
  "as_dict f =
     [(''ema'', ft_ema f), (''ema_lag'', ft_ema_lag f), (''ema_r2'', ft_ema_r2 f), (''atr'', ft_atr f), (''rsi'', ft_rsi f), (''rsi_delta'', ft_rsi_delta f),
      (''close_delta'', ft_close_delta f), (''sma'', ft_sma f), (''sigma'', ft_sigma f), (''bb_upper'', ft_bb_upper f), (''bb_lower'', ft_bb_lower f),
      (''bb_bw'', ft_bb_bw f), (''bb_bw_rank'', ft_bb_bw_rank f), (''donch_hi'', ft_donch_hi f), (''donch_lo'', ft_donch_lo f), (''donch_ref'', ft_donch_ref f),
      (''donch_dir'', ft_donch_dir f), (''bars_since_breakout'', ft_bars_since f), (''park_sigma'', ft_park_sigma f), (''vol_rank'', ft_vol_rank f),
      (''vol_mean'', ft_vol_mean f), (''vol_z'', ft_vol_z f)]"

section \<open>The pipeline\<close>

record pipeline =
  pl_params :: feature_params
  pl_ema :: ema
  pl_ema_hist :: "rat list"
  pl_ema_ols :: rolling_ols
  pl_atr :: wilder_atr
  pl_rsi :: wilder_rsi
  pl_rsi_hist :: "rat list"
  pl_close_hist :: "rat list"
  pl_bb :: welford
  pl_bw_rank :: rank
  pl_dmax :: mono_deque
  pl_dmin :: mono_deque
  pl_brk :: "(rat \<times> rat \<times> rat) option"
  pl_park :: parkinson
  pl_vol_rank :: rank
  pl_volume :: welford
  pl_n :: nat

definition mk_pipeline :: "feature_params \<Rightarrow> pipeline result" where
  "mk_pipeline p = (let r = fp_resync_every p in
     rbind (mk_ema (fp_n_ema p)) (\<lambda>e. rbind (mk_ols (fp_ema_r2_points p) r) (\<lambda>ols. rbind (mk_atr (fp_n_atr p)) (\<lambda>a. rbind (mk_rsi (fp_n_rsi p)) (\<lambda>rs.
     rbind (mk_welford (fp_bb_n p) r) (\<lambda>bb. rbind (mk_rank (fp_bb_rank_window p)) (\<lambda>bw. rbind (mk_mono True (fp_donchian_n p)) (\<lambda>dx.
     rbind (mk_mono False (fp_donchian_n p)) (\<lambda>dn. rbind (mk_parkinson (fp_park_window p) r) (\<lambda>pk. rbind (mk_rank (fp_vol_rank_window p)) (\<lambda>vr.
     rbind (mk_welford (fp_volume_window p) r) (\<lambda>vol.
       Inr \<lparr>pl_params = p, pl_ema = e, pl_ema_hist = [], pl_ema_ols = ols, pl_atr = a, pl_rsi = rs, pl_rsi_hist = [], pl_close_hist = [], pl_bb = bb,
            pl_bw_rank = bw, pl_dmax = dx, pl_dmin = dn, pl_brk = None, pl_park = pk, pl_vol_rank = vr, pl_volume = vol, pl_n = 0\<rparr>))))))))))))"

text \<open>A \<^verbatim>\<open>deque(maxlen=m)\<close> drops its oldest value; its oldest value counts once it is full.\<close>

definition push_max :: "nat \<Rightarrow> rat list \<Rightarrow> rat \<Rightarrow> rat list" where
  "push_max m xs x = (if length xs < m then xs @ [x] else tl (xs @ [x]))"

definition oldest :: "nat \<Rightarrow> rat list \<Rightarrow> rat option" where
  "oldest m xs = (if length xs = m then Some (hd xs) else None)"

definition trend_step :: "pipeline \<Rightarrow> rat \<Rightarrow> pipeline \<times> rat option \<times> rat option \<times> rat option" where
  "trend_step s c =
     (let (e, v) = ema_update (pl_ema s) c; s1 = s\<lparr>pl_ema := e\<rparr>; m = fp_ema_horizon (pl_params s) + 1 in
      case v of None \<Rightarrow> (s1, None, None, None)
      | Some x \<Rightarrow> let h = push_max m (pl_ema_hist s) x; (o', sl) = ols_update (pl_ema_ols s) x
                  in (s1\<lparr>pl_ema_hist := h, pl_ema_ols := o'\<rparr>, Some x, oldest m h, case sl of None \<Rightarrow> None | Some _ \<Rightarrow> ro_r2 o'))"

definition wilder_step :: "pipeline \<Rightarrow> fbar \<Rightarrow> pipeline \<times> rat option \<times> rat option \<times> rat option \<times> rat option" where
  "wilder_step s b =
     (let c = fb_c b; m = fp_rsi_div_lookback (pl_params s) + 1; (a, atr) = atr_update (pl_atr s) (fb_h b, fb_l b, c); (r, rsi) = rsi_update (pl_rsi s) c;
          ch = push_max m (pl_close_hist s) c; rh = (case rsi of None \<Rightarrow> pl_rsi_hist s | Some x \<Rightarrow> push_max m (pl_rsi_hist s) x)
      in (s\<lparr>pl_atr := a, pl_rsi := r, pl_close_hist := ch, pl_rsi_hist := rh\<rparr>, atr, rsi,
          case rsi of None \<Rightarrow> None | Some x \<Rightarrow> map_option (\<lambda>y. f64 (x - y)) (oldest m rh), map_option (\<lambda>y. f64 (c - y)) (oldest m ch)))"

definition bollinger_step :: "pipeline \<Rightarrow> rat \<Rightarrow> pipeline \<times> rat option \<times> rat option \<times> rat option \<times> rat option \<times> rat option \<times> rat option" where
  "bollinger_step s c =
     (let (w, m) = wf_update (pl_bb s) c; s1 = s\<lparr>pl_bb := w\<rparr> in
      case (m, wf_std w) of
        (Some mu, Some sd) \<Rightarrow>
          let d = f64 (fp_bb_k (pl_params s) * sd); den = \<bar>mu\<bar>; bw = (if 0 < den then f64 (f64 (2 * sd) / den) else 0); (r, v) = rank_update (pl_bw_rank s) bw
          in (s1\<lparr>pl_bw_rank := r\<rparr>, Some mu, Some sd, Some (f64 (mu + d)), Some (f64 (mu - d)), Some bw, v)
      | _ \<Rightarrow> (s1, None, None, None, None, None, None))"

text \<open>The channel of the previous bars is read before the current bar enters it.\<close>

definition donchian_step :: "pipeline \<Rightarrow> fbar \<Rightarrow> pipeline \<times> rat option \<times> rat option" where
  "donchian_step s b =
     (let u = md_value (pl_dmax s); d = md_value (pl_dmin s); c = fb_c b;
          brk = (case (u, d) of
                   (Some hi, Some lo) \<Rightarrow>
                     if hi < c then Some (hi, 1, 0) else if c < lo then Some (lo, - 1, 0) else map_option (\<lambda>(r, q, k). (r, q, f64 (k + 1))) (pl_brk s)
                 | _ \<Rightarrow> pl_brk s)
      in (s\<lparr>pl_dmax := fst (md_update (pl_dmax s) (fb_h b)), pl_dmin := fst (md_update (pl_dmin s) (fb_l b)), pl_brk := brk\<rparr>, u, d))"

definition parkinson_step :: "(rat \<Rightarrow> rat) \<Rightarrow> pipeline \<Rightarrow> fbar \<Rightarrow> pipeline \<times> rat option \<times> rat option" where
  "parkinson_step lg s b =
     (let (k, v) = pk_update lg (pl_park s) (fb_h b, fb_l b); s1 = s\<lparr>pl_park := k\<rparr> in
      case v of None \<Rightarrow> (s1, None, None) | Some x \<Rightarrow> let (r, q) = rank_update (pl_vol_rank s) x in (s1\<lparr>pl_vol_rank := r\<rparr>, Some x, q))"

definition volume_step :: "pipeline \<Rightarrow> rat \<Rightarrow> pipeline \<times> rat option \<times> rat option" where
  "volume_step s v =
     (let (w, m) = wf_update (pl_volume s) v; s1 = s\<lparr>pl_volume := w\<rparr> in
      case (m, wf_std w) of
        (Some vm, Some vs) \<Rightarrow> (s1, Some vm, Some (if f64 (REL_FLOOR * \<bar>vm\<bar>) < vs \<and> 0 < vs then f64 (f64 (v - vm) / vs) else 0))
      | _ \<Rightarrow> (s1, None, None))"

definition pipe_update :: "(rat \<Rightarrow> rat) \<Rightarrow> pipeline \<Rightarrow> fbar \<Rightarrow> pipeline \<times> features" where
  "pipe_update lg s b =
     (let (s1, ema, ema_lag, ema_r2) = trend_step (s\<lparr>pl_n := pl_n s + 1\<rparr>) (fb_c b);
          (s2, atr, rsi, rsi_delta, close_delta) = wilder_step s1 b;
          (s3, sma, sigma, bb_up, bb_dn, bw, bw_rank) = bollinger_step s2 (fb_c b);
          (s4, u, d) = donchian_step s3 b;
          (s5, park, vol_rank) = parkinson_step lg s4 b;
          (s6, vm, vz) = volume_step s5 (fb_v b)
      in (s6, \<lparr>ft_ema = ema, ft_ema_lag = ema_lag, ft_ema_r2 = ema_r2, ft_atr = atr, ft_rsi = rsi, ft_rsi_delta = rsi_delta, ft_close_delta = close_delta,
               ft_sma = sma, ft_sigma = sigma, ft_bb_upper = bb_up, ft_bb_lower = bb_dn, ft_bb_bw = bw, ft_bb_bw_rank = bw_rank,
               ft_donch_hi = u, ft_donch_lo = d, ft_donch_ref = map_option fst (pl_brk s4), ft_donch_dir = map_option (\<lambda>x. fst (snd x)) (pl_brk s4),
               ft_bars_since = map_option (\<lambda>x. snd (snd x)) (pl_brk s4), ft_park_sigma = park, ft_vol_rank = vol_rank, ft_vol_mean = vm, ft_vol_z = vz\<rparr>))"

fun pipe_run :: "(rat \<Rightarrow> rat) \<Rightarrow> pipeline \<Rightarrow> fbar list \<Rightarrow> pipeline \<times> features list" where
  "pipe_run lg s [] = (s, [])"
| "pipe_run lg s (b # bs) = (let (s1, f) = pipe_update lg s b; (s2, fs) = pipe_run lg s1 bs in (s2, f # fs))"

end
