(* ===== verification/FeatureProps.thy ===== *)
theory FeatureProps
  imports Features
begin

text \<open>
  The pipeline warms up exactly as its table says, and its channel is that of the previous bars.
\<close>

section \<open>Counting\<close>

definition trend_inv :: "nat \<Rightarrow> pipeline \<Rightarrow> bool" where
  "trend_inv k s \<longleftrightarrow> (let p = pl_params s; n = nat (fp_n_ema p) in
     ema_inv n k (pl_ema s) \<and> length (pl_ema_hist s) = min (k + 1 - n) (fp_ema_horizon p + 1) \<and> ols_inv (nat (fp_ema_r2_points p)) (k + 1 - n) (pl_ema_ols s))"

definition wilder_inv :: "nat \<Rightarrow> pipeline \<Rightarrow> bool" where
  "wilder_inv k s \<longleftrightarrow> (let p = pl_params s; n = nat (fp_n_rsi p) in
     atr_inv (nat (fp_n_atr p)) k (pl_atr s) \<and> rsi_inv n k (pl_rsi s) \<and> length (pl_rsi_hist s) = min (k - n) (fp_rsi_div_lookback p + 1)
     \<and> length (pl_close_hist s) = min k (fp_rsi_div_lookback p + 1))"

definition bollinger_inv :: "nat \<Rightarrow> pipeline \<Rightarrow> bool" where
  "bollinger_inv k s \<longleftrightarrow> (let p = pl_params s; n = nat (fp_bb_n p) in
     wf_inv n k (pl_bb s) \<and> rank_inv (nat (fp_bb_rank_window p)) (k + 1 - n) (pl_bw_rank s))"

definition donchian_inv :: "nat \<Rightarrow> pipeline \<Rightarrow> bool" where
  "donchian_inv k s \<longleftrightarrow> (let n = nat (fp_donchian_n (pl_params s)) in mono_inv n k (pl_dmax s) \<and> mono_inv n k (pl_dmin s))"

definition parkinson_inv :: "nat \<Rightarrow> pipeline \<Rightarrow> bool" where
  "parkinson_inv k s \<longleftrightarrow> (let p = pl_params s; n = nat (fp_park_window p) in
     pk_inv n k (pl_park s) \<and> rank_inv (nat (fp_vol_rank_window p)) (k + 1 - n) (pl_vol_rank s))"

definition volume_inv :: "nat \<Rightarrow> pipeline \<Rightarrow> bool" where
  "volume_inv k s \<longleftrightarrow> wf_inv (nat (fp_volume_window (pl_params s))) k (pl_volume s)"

definition pipe_inv :: "nat \<Rightarrow> pipeline \<Rightarrow> bool" where
  "pipe_inv k s \<longleftrightarrow> trend_inv k s \<and> wilder_inv k s \<and> bollinger_inv k s \<and> donchian_inv k s \<and> parkinson_inv k s \<and> volume_inv k s"

lemmas part_inv_defs = trend_inv_def wilder_inv_def bollinger_inv_def donchian_inv_def parkinson_inv_def volume_inv_def

lemma inv_pos:
  "ema_inv n k e \<Longrightarrow> 1 \<le> n" "ols_inv m k ol \<Longrightarrow> 2 \<le> m" "rsi_inv n k r \<Longrightarrow> 1 \<le> n" "wf_inv n k w \<Longrightarrow> 1 \<le> n" "pk_inv n k q \<Longrightarrow> 1 \<le> n"
  "rank_inv n k rk \<Longrightarrow> 1 \<le> n" "mono_inv n k md \<Longrightarrow> 1 \<le> n" "atr_inv n k a \<Longrightarrow> 1 \<le> n"
  by (auto simp: ema_inv_def ols_inv_def rsi_inv_def wf_inv_def pk_inv_def rank_inv_def mono_inv_def atr_inv_def)

lemma mk_pipeline_InrE:
  assumes "mk_pipeline p = Inr s"
  obtains e ol a rs bb bw dx dn pk vr vol where "mk_ema (fp_n_ema p) = Inr e" "mk_ols (fp_ema_r2_points p) (fp_resync_every p) = Inr ol" "mk_atr (fp_n_atr p) = Inr a"
    "mk_rsi (fp_n_rsi p) = Inr rs" "mk_welford (fp_bb_n p) (fp_resync_every p) = Inr bb" "mk_rank (fp_bb_rank_window p) = Inr bw" "mk_mono True (fp_donchian_n p) = Inr dx"
    "mk_mono False (fp_donchian_n p) = Inr dn" "mk_parkinson (fp_park_window p) (fp_resync_every p) = Inr pk" "mk_rank (fp_vol_rank_window p) = Inr vr"
    "mk_welford (fp_volume_window p) (fp_resync_every p) = Inr vol"
    "s = \<lparr>pl_params = p, pl_ema = e, pl_ema_hist = [], pl_ema_ols = ol, pl_atr = a, pl_rsi = rs, pl_rsi_hist = [], pl_close_hist = [], pl_bb = bb,
            pl_bw_rank = bw, pl_dmax = dx, pl_dmin = dn, pl_brk = None, pl_park = pk, pl_vol_rank = vr, pl_volume = vol, pl_n = 0\<rparr>"
  using assms unfolding mk_pipeline_def Let_def by (elim rbind_InrE) simp

lemma mk_pipeline_inv: "mk_pipeline p = Inr s \<Longrightarrow> pipe_inv 0 s \<and> pl_params s = p"
proof (elim mk_pipeline_InrE, goal_cases)
  case (1 e ol a rs bb bw dx dn pk vr vol)
  have i: "ema_inv (nat (fp_n_ema p)) 0 e" "ols_inv (nat (fp_ema_r2_points p)) 0 ol" "atr_inv (nat (fp_n_atr p)) 0 a" "rsi_inv (nat (fp_n_rsi p)) 0 rs"
    "wf_inv (nat (fp_bb_n p)) 0 bb" "rank_inv (nat (fp_bb_rank_window p)) 0 bw" "mono_inv (nat (fp_donchian_n p)) 0 dx" "mono_inv (nat (fp_donchian_n p)) 0 dn"
    "pk_inv (nat (fp_park_window p)) 0 pk" "rank_inv (nat (fp_vol_rank_window p)) 0 vr" "wf_inv (nat (fp_volume_window p)) 0 vol"
    using 1 by (blast intro: mk_indicators_inv)+
  note pos = inv_pos(1) [OF i(1)] inv_pos(4) [OF i(5)] inv_pos(5) [OF i(9)] inv_pos(3) [OF i(4)]
  then have z: "0 + 1 - nat (fp_n_ema p) = 0" "0 + 1 - nat (fp_bb_n p) = 0" "0 + 1 - nat (fp_park_window p) = 0" by linarith+
  show ?case unfolding 1(12) pipe_inv_def part_inv_defs Let_def pipeline.select_convs z using i by simp
qed

lemma push_max_length [simp]: "length (push_max m xs x) = (if length xs < m then length xs + 1 else length xs)"
  by (simp add: push_max_def)

lemma count_step:
  fixes k n m :: nat
  shows "n \<le> k \<Longrightarrow> (if min (k - n) m < m then min (k - n) m + 1 else min (k - n) m) = min (Suc k - n) m"
    and "n \<le> Suc k \<Longrightarrow> (if min (k + 1 - n) m < m then min (k + 1 - n) m + 1 else min (k + 1 - n) m) = min (Suc k + 1 - n) m"
  by (auto simp: min_def)

lemma less_shift: "(n :: nat) \<le> Suc k \<Longrightarrow> (Suc k + 1 - n < q) = (Suc k + 1 < n + q)"
  by arith

lemma oldest_None [simp]: "oldest m xs = None \<longleftrightarrow> length xs \<noteq> m"
  by (simp add: oldest_def)

lemma trend_ready:
  assumes "trend_inv k s" and "trend_step s c = (s', a, b, r)"
  shows "a = None \<longleftrightarrow> Suc k < nat (fp_n_ema (pl_params s))" "b = None \<longleftrightarrow> Suc k < nat (fp_n_ema (pl_params s)) + fp_ema_horizon (pl_params s)"
    "r = None \<longleftrightarrow> Suc k + 1 < nat (fp_n_ema (pl_params s)) + nat (fp_ema_r2_points (pl_params s))"
    "ema_inv (nat (fp_n_ema (pl_params s))) (Suc k) (pl_ema s')" "length (pl_ema_hist s') = min (Suc k + 1 - nat (fp_n_ema (pl_params s))) (fp_ema_horizon (pl_params s) + 1)"
    "ols_inv (nat (fp_ema_r2_points (pl_params s))) (Suc k + 1 - nat (fp_n_ema (pl_params s))) (pl_ema_ols s')"
    "\<exists>e h ol. s' = s\<lparr>pl_ema := e, pl_ema_hist := h, pl_ema_ols := ol\<rparr>"
proof -
  let ?n = "nat (fp_n_ema (pl_params s))" and ?m = "fp_ema_horizon (pl_params s) + 1" and ?q = "nat (fp_ema_r2_points (pl_params s))"
  have i: "ema_inv ?n k (pl_ema s)" "length (pl_ema_hist s) = min (k + 1 - ?n) ?m" "ols_inv ?q (k + 1 - ?n) (pl_ema_ols s)"
    using assms(1) by (simp_all add: trend_inv_def Let_def)
  note n = inv_pos(1) [OF i(1)]
  obtain e v where e: "ema_update (pl_ema s) c = (e, v)" by fastforce
  note es = ema.upd_step [OF i(1) e]
  have "(a = None \<longleftrightarrow> Suc k < ?n) \<and> (b = None \<longleftrightarrow> Suc k < ?n + fp_ema_horizon (pl_params s)) \<and> (r = None \<longleftrightarrow> Suc k + 1 < ?n + ?q)
    \<and> ema_inv ?n (Suc k) (pl_ema s') \<and> length (pl_ema_hist s') = min (Suc k + 1 - ?n) ?m \<and> ols_inv ?q (Suc k + 1 - ?n) (pl_ema_ols s')
    \<and> (\<exists>e h ol. s' = s\<lparr>pl_ema := e, pl_ema_hist := h, pl_ema_ols := ol\<rparr>)"
  proof (cases v)
    case None
    then have k: "Suc k < ?n" using es by simp
    have s': "s' = s\<lparr>pl_ema := e\<rparr>" "a = None" "b = None" "r = None" using assms(2) e None by (simp_all add: trend_step_def)
    have "2 \<le> ?q" using inv_pos(2) [OF i(3)] .
    with s' k es i show ?thesis by (auto intro!: exI [of _ e] exI [of _ "pl_ema_hist s"] exI [of _ "pl_ema_ols s"])
  next
    case (Some x)
    then have k: "?n \<le> Suc k" using es by simp
    obtain ol sl where ol: "ols_update (pl_ema_ols s) x = (ol, sl)" by fastforce
    note os = ols.upd_step [OF i(3) ol]
    have c: "Suc (k + 1 - ?n) = Suc k + 1 - ?n" using k by simp
    define h where "h = push_max ?m (pl_ema_hist s) x"
    have h: "length h = min (Suc k + 1 - ?n) ?m" unfolding h_def push_max_length i(2) using k by (rule count_step(2))
    have s': "s' = s\<lparr>pl_ema := e, pl_ema_hist := h, pl_ema_ols := ol\<rparr>" "a = Some x" "b = oldest ?m h" "r = (case sl of None \<Rightarrow> None | Some _ \<Rightarrow> ro_r2 ol)"
      using assms(2) e Some ol by (simp_all add: trend_step_def h_def Let_def)
    have "ro_r2 ol = None \<longleftrightarrow> Suc k + 1 - ?n < ?q" using ols_r2_ready [of ?q "Suc k + 1 - ?n" ol] os c by (auto simp: not_le)
    then have "r = None \<longleftrightarrow> Suc k + 1 - ?n < ?q" using s'(4) os c by (auto split: option.splits)
    then have "r = None \<longleftrightarrow> Suc k + 1 < ?n + ?q" unfolding less_shift [OF k] .
    moreover have "b = None \<longleftrightarrow> Suc k < ?n + fp_ema_horizon (pl_params s)" using s'(3) h k by auto
    ultimately show ?thesis using s' es os c h k by auto
  qed
  then show "a = None \<longleftrightarrow> Suc k < ?n" "b = None \<longleftrightarrow> Suc k < ?n + fp_ema_horizon (pl_params s)" "r = None \<longleftrightarrow> Suc k + 1 < ?n + ?q"
    "ema_inv ?n (Suc k) (pl_ema s')" "length (pl_ema_hist s') = min (Suc k + 1 - ?n) ?m" "ols_inv ?q (Suc k + 1 - ?n) (pl_ema_ols s')"
    "\<exists>e h ol. s' = s\<lparr>pl_ema := e, pl_ema_hist := h, pl_ema_ols := ol\<rparr>" by blast+
qed

lemma wilder_ready:
  assumes "wilder_inv k s" and "wilder_step s bar = (s', a, r, rd, cd)"
  shows "a = None \<longleftrightarrow> k < nat (fp_n_atr (pl_params s))" "r = None \<longleftrightarrow> k < nat (fp_n_rsi (pl_params s))"
    "rd = None \<longleftrightarrow> k < nat (fp_n_rsi (pl_params s)) + fp_rsi_div_lookback (pl_params s)" "cd = None \<longleftrightarrow> k < fp_rsi_div_lookback (pl_params s)"
    "atr_inv (nat (fp_n_atr (pl_params s))) (Suc k) (pl_atr s')" "rsi_inv (nat (fp_n_rsi (pl_params s))) (Suc k) (pl_rsi s')"
    "length (pl_rsi_hist s') = min (Suc k - nat (fp_n_rsi (pl_params s))) (fp_rsi_div_lookback (pl_params s) + 1)"
    "length (pl_close_hist s') = min (Suc k) (fp_rsi_div_lookback (pl_params s) + 1)"
    "\<exists>a r h c. s' = s\<lparr>pl_atr := a, pl_rsi := r, pl_close_hist := c, pl_rsi_hist := h\<rparr>"
proof -
  let ?n = "nat (fp_n_rsi (pl_params s))" and ?m = "fp_rsi_div_lookback (pl_params s) + 1" and ?na = "nat (fp_n_atr (pl_params s))"
  have i: "atr_inv ?na k (pl_atr s)" "rsi_inv ?n k (pl_rsi s)" "length (pl_rsi_hist s) = min (k - ?n) ?m" "length (pl_close_hist s) = min k ?m"
    using assms(1) by (simp_all add: wilder_inv_def Let_def)
  obtain a' av where a: "atr_update (pl_atr s) (fb_h bar, fb_l bar, fb_c bar) = (a', av)" by fastforce
  obtain r' rv where r: "rsi_update (pl_rsi s) (fb_c bar) = (r', rv)" by fastforce
  note as = atr.upd_step [OF i(1) a] and rs = rsi.upd_step [OF i(2) r]
  define ch where "ch = push_max ?m (pl_close_hist s) (fb_c bar)"
  define rh where "rh = (case rv of None \<Rightarrow> pl_rsi_hist s | Some x \<Rightarrow> push_max ?m (pl_rsi_hist s) x)"
  have s': "s' = s\<lparr>pl_atr := a', pl_rsi := r', pl_close_hist := ch, pl_rsi_hist := rh\<rparr>" "a = av" "r = rv"
    "rd = (case rv of None \<Rightarrow> None | Some x \<Rightarrow> map_option (\<lambda>y. f64 (x - y)) (oldest ?m rh))" "cd = map_option (\<lambda>y. f64 (fb_c bar - y)) (oldest ?m ch)"
    using assms(2) unfolding wilder_step_def Let_def a r ch_def rh_def by auto
  have h: "length ch = min (Suc k) ?m" "length rh = min (Suc k - ?n) ?m" proof -
    show "length ch = min (Suc k) ?m" unfolding ch_def push_max_length i(4) using count_step(1) [of 0 k ?m] by simp
    show "length rh = min (Suc k - ?n) ?m"
    proof (cases rv)
      case None
      then have "Suc k < Suc ?n" using rs by simp
      then show ?thesis using None i(3) by (simp add: rh_def)
    next
      case (Some x)
      then have n: "?n \<le> k" using rs by simp
      have "rh = push_max ?m (pl_rsi_hist s) x" using Some by (simp add: rh_def)
      then show ?thesis unfolding push_max_length i(3) by (simp only: push_max_length i(3) count_step(1) [OF n])
    qed
  qed
  show "a = None \<longleftrightarrow> k < ?na" "r = None \<longleftrightarrow> k < ?n" "atr_inv ?na (Suc k) (pl_atr s')" "rsi_inv ?n (Suc k) (pl_rsi s')" using s' as rs by simp_all
  show "rd = None \<longleftrightarrow> k < ?n + fp_rsi_div_lookback (pl_params s)" using s'(4) h(2) rs by (auto split: option.splits)
  show "cd = None \<longleftrightarrow> k < fp_rsi_div_lookback (pl_params s)" using s'(5) h(1) by auto
  show "length (pl_rsi_hist s') = min (Suc k - ?n) ?m" "length (pl_close_hist s') = min (Suc k) ?m" using s' h by simp_all
  show "\<exists>a r h c. s' = s\<lparr>pl_atr := a, pl_rsi := r, pl_close_hist := c, pl_rsi_hist := h\<rparr>" using s'(1) by blast
qed

lemma bollinger_ready:
  assumes "bollinger_inv k s" and "bollinger_step s c = (s', m, sd, u, d, bw, q)"
  shows "m = None \<longleftrightarrow> Suc k < nat (fp_bb_n (pl_params s))" "sd = None \<longleftrightarrow> Suc k < nat (fp_bb_n (pl_params s))" "u = None \<longleftrightarrow> Suc k < nat (fp_bb_n (pl_params s))"
    "d = None \<longleftrightarrow> Suc k < nat (fp_bb_n (pl_params s))" "bw = None \<longleftrightarrow> Suc k < nat (fp_bb_n (pl_params s))"
    "q = None \<longleftrightarrow> Suc k + 1 < nat (fp_bb_n (pl_params s)) + nat (fp_bb_rank_window (pl_params s))"
    "wf_inv (nat (fp_bb_n (pl_params s))) (Suc k) (pl_bb s')" "rank_inv (nat (fp_bb_rank_window (pl_params s))) (Suc k + 1 - nat (fp_bb_n (pl_params s))) (pl_bw_rank s')"
    "\<exists>w r. s' = s\<lparr>pl_bb := w, pl_bw_rank := r\<rparr>"
proof -
  let ?n = "nat (fp_bb_n (pl_params s))" and ?r = "nat (fp_bb_rank_window (pl_params s))"
  have i: "wf_inv ?n k (pl_bb s)" "rank_inv ?r (k + 1 - ?n) (pl_bw_rank s)" using assms(1) by (simp_all add: bollinger_inv_def Let_def)
  obtain w v where w: "wf_update (pl_bb s) c = (w, v)" by fastforce
  note ws = welford.upd_step [OF i(1) w]
  have sd': "wf_std w = None \<longleftrightarrow> Suc k < ?n" using wf_std_ready [of ?n "Suc k" w] ws by (auto simp: not_le)
  have "(m = None \<longleftrightarrow> Suc k < ?n) \<and> (sd = None \<longleftrightarrow> Suc k < ?n) \<and> (u = None \<longleftrightarrow> Suc k < ?n) \<and> (d = None \<longleftrightarrow> Suc k < ?n) \<and> (bw = None \<longleftrightarrow> Suc k < ?n)
    \<and> (q = None \<longleftrightarrow> Suc k + 1 < ?n + ?r) \<and> wf_inv ?n (Suc k) (pl_bb s') \<and> rank_inv ?r (Suc k + 1 - ?n) (pl_bw_rank s') \<and> (\<exists>w r. s' = s\<lparr>pl_bb := w, pl_bw_rank := r\<rparr>)"
  proof (cases "Suc k < ?n")
    case True
    then have "v = None" using ws by simp
    then have s': "s' = s\<lparr>pl_bb := w\<rparr>" "m = None" "sd = None" "u = None" "d = None" "bw = None" "q = None" using assms(2) w by (simp_all add: bollinger_step_def)
    have "1 \<le> ?r" using inv_pos(6) [OF i(2)] .
    with s' True ws i show ?thesis by (auto intro!: exI [of _ w] exI [of _ "pl_bw_rank s"])
  next
    case False
    then obtain mu sg where mu: "v = Some mu" "wf_std w = Some sg" using ws sd' by auto
    obtain bw' where bw': "bw' = (if 0 < \<bar>mu\<bar> then f64 (f64 (2 * sg) / \<bar>mu\<bar>) else 0)" by simp
    obtain r rv where r: "rank_update (pl_bw_rank s) bw' = (r, rv)" by fastforce
    note rs = rank.upd_step [OF i(2) r]
    have s': "s' = s\<lparr>pl_bb := w, pl_bw_rank := r\<rparr>" "m = Some mu" "sd = Some sg" "bw = Some bw'" "q = rv" "u \<noteq> None" "d \<noteq> None"
      using assms(2) w mu r bw' unfolding bollinger_step_def Let_def by auto
    have c: "Suc (k + 1 - ?n) = Suc k + 1 - ?n" using False by simp
    have "rv = None \<longleftrightarrow> Suc k + 1 < ?n + ?r" using rs c False by arith
    then show ?thesis using s' ws rs c False by auto
  qed
  then show "m = None \<longleftrightarrow> Suc k < ?n" "sd = None \<longleftrightarrow> Suc k < ?n" "u = None \<longleftrightarrow> Suc k < ?n" "d = None \<longleftrightarrow> Suc k < ?n" "bw = None \<longleftrightarrow> Suc k < ?n"
    "q = None \<longleftrightarrow> Suc k + 1 < ?n + ?r" "wf_inv ?n (Suc k) (pl_bb s')" "rank_inv ?r (Suc k + 1 - ?n) (pl_bw_rank s')" "\<exists>w r. s' = s\<lparr>pl_bb := w, pl_bw_rank := r\<rparr>" by blast+
qed

lemma donchian_ready:
  assumes "donchian_inv k s" and "donchian_step s bar = (s', u, d)"
  shows "u = None \<longleftrightarrow> k < nat (fp_donchian_n (pl_params s))" "d = None \<longleftrightarrow> k < nat (fp_donchian_n (pl_params s))"
    "mono_inv (nat (fp_donchian_n (pl_params s))) (Suc k) (pl_dmax s')" "mono_inv (nat (fp_donchian_n (pl_params s))) (Suc k) (pl_dmin s')"
    "\<exists>x y z. s' = s\<lparr>pl_dmax := x, pl_dmin := y, pl_brk := z\<rparr>"
proof -
  let ?n = "nat (fp_donchian_n (pl_params s))"
  have i: "mono_inv ?n k (pl_dmax s)" "mono_inv ?n k (pl_dmin s)" using assms(1) by (simp_all add: donchian_inv_def Let_def)
  have s': "pl_dmax s' = fst (md_update (pl_dmax s) (fb_h bar))" "pl_dmin s' = fst (md_update (pl_dmin s) (fb_l bar))"
    "u = md_value (pl_dmax s)" "d = md_value (pl_dmin s)" "\<exists>x y z. s' = s\<lparr>pl_dmax := x, pl_dmin := y, pl_brk := z\<rparr>"
    using assms(2) unfolding donchian_step_def Let_def by auto
  show "u = None \<longleftrightarrow> k < ?n" "d = None \<longleftrightarrow> k < ?n" using i by (auto simp: s' mono_inv_def md_value_def)
  show "mono_inv ?n (Suc k) (pl_dmax s')" "mono_inv ?n (Suc k) (pl_dmin s')" using i mono.inv_upd by (simp_all add: s')
  show "\<exists>x y z. s' = s\<lparr>pl_dmax := x, pl_dmin := y, pl_brk := z\<rparr>" by (rule s')
qed

lemma parkinson_ready:
  assumes "parkinson_inv k s" and "parkinson_step lg s bar = (s', a, q)"
  shows "a = None \<longleftrightarrow> Suc k < nat (fp_park_window (pl_params s))"
    "q = None \<longleftrightarrow> Suc k + 1 < nat (fp_park_window (pl_params s)) + nat (fp_vol_rank_window (pl_params s))"
    "pk_inv (nat (fp_park_window (pl_params s))) (Suc k) (pl_park s')"
    "rank_inv (nat (fp_vol_rank_window (pl_params s))) (Suc k + 1 - nat (fp_park_window (pl_params s))) (pl_vol_rank s')"
    "\<exists>x y. s' = s\<lparr>pl_park := x, pl_vol_rank := y\<rparr>"
proof -
  let ?n = "nat (fp_park_window (pl_params s))" and ?r = "nat (fp_vol_rank_window (pl_params s))"
  have i: "pk_inv ?n k (pl_park s)" "rank_inv ?r (k + 1 - ?n) (pl_vol_rank s)" using assms(1) by (simp_all add: parkinson_inv_def Let_def)
  obtain p v where p: "pk_update lg (pl_park s) (fb_h bar, fb_l bar) = (p, v)" by fastforce
  note ps = parkinson.upd_step [OF i(1) p]
  have "(a = None \<longleftrightarrow> Suc k < ?n) \<and> (q = None \<longleftrightarrow> Suc k + 1 < ?n + ?r) \<and> pk_inv ?n (Suc k) (pl_park s') \<and> rank_inv ?r (Suc k + 1 - ?n) (pl_vol_rank s')
    \<and> (\<exists>x y. s' = s\<lparr>pl_park := x, pl_vol_rank := y\<rparr>)"
  proof (cases v)
    case None
    then have k: "Suc k < ?n" using ps by simp
    have s': "s' = s\<lparr>pl_park := p\<rparr>" "a = None" "q = None" using assms(2) p None by (simp_all add: parkinson_step_def)
    have "1 \<le> ?r" using inv_pos(6) [OF i(2)] .
    with s' k ps i show ?thesis by (auto intro!: exI [of _ p] exI [of _ "pl_vol_rank s"])
  next
    case (Some x)
    then have k: "?n \<le> Suc k" using ps by simp
    obtain r rv where r: "rank_update (pl_vol_rank s) x = (r, rv)" by fastforce
    note rs = rank.upd_step [OF i(2) r]
    have c: "Suc (k + 1 - ?n) = Suc k + 1 - ?n" using k by simp
    have s': "s' = s\<lparr>pl_park := p, pl_vol_rank := r\<rparr>" "a = Some x" "q = rv" using assms(2) p Some r by (simp_all add: parkinson_step_def)
    have "rv = None \<longleftrightarrow> Suc k + 1 - ?n < ?r" using rs c by simp
    then have "rv = None \<longleftrightarrow> Suc k + 1 < ?n + ?r" unfolding less_shift [OF k] .
    then show ?thesis using s' ps rs c k by auto
  qed
  then show "a = None \<longleftrightarrow> Suc k < ?n" "q = None \<longleftrightarrow> Suc k + 1 < ?n + ?r" "pk_inv ?n (Suc k) (pl_park s')" "rank_inv ?r (Suc k + 1 - ?n) (pl_vol_rank s')"
    "\<exists>x y. s' = s\<lparr>pl_park := x, pl_vol_rank := y\<rparr>" by blast+
qed

lemma volume_ready:
  assumes "volume_inv k s" and "volume_step s v = (s', m, z)"
  shows "m = None \<longleftrightarrow> Suc k < nat (fp_volume_window (pl_params s))" "z = None \<longleftrightarrow> Suc k < nat (fp_volume_window (pl_params s))"
    "wf_inv (nat (fp_volume_window (pl_params s))) (Suc k) (pl_volume s')" "\<exists>x. s' = s\<lparr>pl_volume := x\<rparr>"
proof -
  let ?n = "nat (fp_volume_window (pl_params s))"
  have i: "wf_inv ?n k (pl_volume s)" using assms(1) by (simp add: volume_inv_def Let_def)
  obtain w u where w: "wf_update (pl_volume s) v = (w, u)" by fastforce
  note ws = welford.upd_step [OF i w]
  have sd: "wf_std w = None \<longleftrightarrow> Suc k < ?n" using wf_std_ready [of ?n "Suc k" w] ws by (auto simp: not_le)
  have s': "s' = s\<lparr>pl_volume := w\<rparr>" "m = None \<longleftrightarrow> u = None \<or> wf_std w = None" "z = None \<longleftrightarrow> u = None \<or> wf_std w = None"
    using assms(2) w by (auto simp: volume_step_def Let_def split: option.splits)
  show "m = None \<longleftrightarrow> Suc k < ?n" "z = None \<longleftrightarrow> Suc k < ?n" using s' ws sd by auto
  show "wf_inv ?n (Suc k) (pl_volume s')" "\<exists>x. s' = s\<lparr>pl_volume := x\<rparr>" using s'(1) ws by auto
qed

text \<open>The steps touch different indicators, so the invariant passes from one to the next.\<close>

definition ready_at :: "nat \<Rightarrow> feature_params \<Rightarrow> features \<Rightarrow> bool" where
  "ready_at k p f \<longleftrightarrow> (\<forall>(name, need) \<in> set (warmup p). (\<exists>v. dget (as_dict f) name = Some (Some v)) \<longleftrightarrow> need \<le> int k)"

lemma pipe_update_ready:
  assumes inv: "pipe_inv k s"
  shows "pipe_inv (Suc k) (fst (pipe_update lg s b)) \<and> pl_params (fst (pipe_update lg s b)) = pl_params s
    \<and> ready_at (Suc k) (pl_params s) (snd (pipe_update lg s b))"
proof -
  obtain s1 ema ema_lag ema_r2 where 1: "trend_step (s\<lparr>pl_n := pl_n s + 1\<rparr>) (fb_c b) = (s1, ema, ema_lag, ema_r2)" by (metis prod_cases4)
  obtain s2 atr rsi rsi_delta close_delta where 2: "wilder_step s1 b = (s2, atr, rsi, rsi_delta, close_delta)" by (metis prod_cases5)
  obtain s3 sma sigma bb_up bb_dn bw bw_rank where 3: "bollinger_step s2 (fb_c b) = (s3, sma, sigma, bb_up, bb_dn, bw, bw_rank)" by (metis prod_cases7)
  obtain s4 u d where 4: "donchian_step s3 b = (s4, u, d)" by (metis prod_cases3)
  obtain s5 park vol_rank where 5: "parkinson_step lg s4 b = (s5, park, vol_rank)" by (metis prod_cases3)
  obtain s6 vm vz where 6: "volume_step s5 (fb_v b) = (s6, vm, vz)" by (metis prod_cases3)
  let ?s0 = "s\<lparr>pl_n := pl_n s + 1\<rparr>" and ?k = "Suc k" and ?p = "pl_params s"
  have i: "trend_inv k ?s0" "wilder_inv k s" "bollinger_inv k s" "donchian_inv k s" "parkinson_inv k s" "volume_inv k s"
    using inv by (simp_all add: pipe_inv_def part_inv_defs)
  have p0: "pl_params ?s0 = ?p" by simp
  note r1 = trend_ready [OF i(1) 1, unfolded p0]
  obtain e h ol where s1: "s1 = s\<lparr>pl_n := pl_n s + 1, pl_ema := e, pl_ema_hist := h, pl_ema_ols := ol\<rparr>" using r1(7) by auto
  have "wilder_inv k s1" using i(2) by (simp add: s1 wilder_inv_def)
  note this2 = this
  have p1: "pl_params s1 = ?p" by (simp add: s1)
  note r2 = wilder_ready [OF this2 2, unfolded p1]
  obtain x21 x22 x23 x24 where s2: "s2 = s1\<lparr>pl_atr := x21, pl_rsi := x22, pl_close_hist := x24, pl_rsi_hist := x23\<rparr>" using r2(9) s1 by auto
  have "bollinger_inv k s2" using i(3) by (simp add: s2 s1 bollinger_inv_def)
  note this3 = this
  have p2: "pl_params s2 = ?p" by (simp add: s2 s1)
  note r3 = bollinger_ready [OF this3 3, unfolded p2]
  obtain x31 x32 where s3: "s3 = s2\<lparr>pl_bb := x31, pl_bw_rank := x32\<rparr>" using r3(9) s2 s1 by auto
  have "donchian_inv k s3" using i(4) by (simp add: s3 s2 s1 donchian_inv_def)
  note this4 = this
  have p3: "pl_params s3 = ?p" by (simp add: s3 s2 s1)
  note r4 = donchian_ready [OF this4 4, unfolded p3]
  obtain x41 x42 x43 where s4: "s4 = s3\<lparr>pl_dmax := x41, pl_dmin := x42, pl_brk := x43\<rparr>" using r4(5) s3 s2 s1 by auto
  have "parkinson_inv k s4" using i(5) by (simp add: s4 s3 s2 s1 parkinson_inv_def)
  note this5 = this
  have p4: "pl_params s4 = ?p" by (simp add: s4 s3 s2 s1)
  note r5 = parkinson_ready [OF this5 5, unfolded p4]
  obtain x51 x52 where s5: "s5 = s4\<lparr>pl_park := x51, pl_vol_rank := x52\<rparr>" using r5(5) s4 s3 s2 s1 by auto
  have "volume_inv k s5" using i(6) by (simp add: s5 s4 s3 s2 s1 volume_inv_def)
  note this6 = this
  have p5: "pl_params s5 = ?p" by (simp add: s5 s4 s3 s2 s1)
  note r6 = volume_ready [OF this6 6, unfolded p5]
  obtain x6 where s6: "s6 = s5\<lparr>pl_volume := x6\<rparr>" using r6(4) s5 s4 s3 s2 s1 by auto
  obtain f where u: "pipe_update lg s b = (s6, f)" "ft_ema f = ema" "ft_ema_lag f = ema_lag" "ft_ema_r2 f = ema_r2" "ft_atr f = atr" "ft_rsi f = rsi"
    "ft_rsi_delta f = rsi_delta" "ft_close_delta f = close_delta" "ft_sma f = sma" "ft_sigma f = sigma" "ft_bb_upper f = bb_up" "ft_bb_lower f = bb_dn"
    "ft_bb_bw f = bw" "ft_bb_bw_rank f = bw_rank" "ft_donch_hi f = u" "ft_donch_lo f = d" "ft_park_sigma f = park" "ft_vol_rank f = vol_rank"
    "ft_vol_mean f = vm" "ft_vol_z f = vz"
    unfolding pipe_update_def Let_def 1 2 3 4 5 6 prod.case by simp
  have "pipe_inv ?k s6"
    using r1(4-6) r2(5-8) r3(7,8) r4(3,4) r5(3,4) r6(3)
    unfolding pipe_inv_def part_inv_defs Let_def s6 s5 s4 s3 s2 s1 pipeline.simps by simp
  moreover have "pl_params s6 = ?p" by (simp add: s6 s5 s4 s3 s2 s1)
  moreover have "ready_at ?k ?p f"
  proof -
    have "1 \<le> nat (fp_n_ema ?p)" "2 \<le> nat (fp_ema_r2_points ?p)" "1 \<le> nat (fp_n_rsi ?p)" "1 \<le> nat (fp_bb_n ?p)" "1 \<le> nat (fp_bb_rank_window ?p)"
      "1 \<le> nat (fp_park_window ?p)" "1 \<le> nat (fp_vol_rank_window ?p)"
      using inv inv_pos(1) [of _ k "pl_ema s"] inv_pos(2) [of _ "k + 1 - nat (fp_n_ema ?p)" "pl_ema_ols s"] inv_pos(3) [of _ k "pl_rsi s"] inv_pos(4) [of _ k "pl_bb s"]
        inv_pos(6) [of _ "k + 1 - nat (fp_bb_n ?p)" "pl_bw_rank s"] inv_pos(5) [of _ k "pl_park s"] inv_pos(6) [of _ "k + 1 - nat (fp_park_window ?p)" "pl_vol_rank s"]
      unfolding pipe_inv_def part_inv_defs Let_def by blast+
    then have pos: "1 \<le> fp_n_ema ?p" "1 \<le> fp_ema_r2_points ?p" "1 \<le> fp_n_rsi ?p" "1 \<le> fp_bb_n ?p" "1 \<le> fp_bb_rank_window ?p" "1 \<le> fp_park_window ?p" "1 \<le> fp_vol_rank_window ?p"
      by linarith+
    have g: "dget (as_dict f) ''ema'' = Some ema" "dget (as_dict f) ''ema_lag'' = Some ema_lag" "dget (as_dict f) ''ema_r2'' = Some ema_r2"
      "dget (as_dict f) ''atr'' = Some atr" "dget (as_dict f) ''rsi'' = Some rsi" "dget (as_dict f) ''rsi_delta'' = Some rsi_delta"
      "dget (as_dict f) ''close_delta'' = Some close_delta" "dget (as_dict f) ''sma'' = Some sma" "dget (as_dict f) ''sigma'' = Some sigma"
      "dget (as_dict f) ''bb_upper'' = Some bb_up" "dget (as_dict f) ''bb_lower'' = Some bb_dn" "dget (as_dict f) ''bb_bw'' = Some bw"
      "dget (as_dict f) ''bb_bw_rank'' = Some bw_rank" "dget (as_dict f) ''donch_hi'' = Some u" "dget (as_dict f) ''donch_lo'' = Some d"
      "dget (as_dict f) ''park_sigma'' = Some park" "dget (as_dict f) ''vol_rank'' = Some vol_rank" "dget (as_dict f) ''vol_mean'' = Some vm"
      "dget (as_dict f) ''vol_z'' = Some vz"
      by (simp_all add: as_dict_def u)
    have some: "(\<exists>v. Some x = Some (Some v)) \<longleftrightarrow> x \<noteq> None" for x :: "rat option" by auto
    show ?thesis unfolding ready_at_def warmup_def Let_def list.set ball_simps prod.case g some r1(1-3) r2(1-4) r3(1-6) r4(1,2) r5(1,2) r6(1,2)
      using pos by (intro conjI TrueI) arith+
  qed
  ultimately show ?thesis using u(1) by simp
qed

lemma pipe_feed:
  assumes "mk_pipeline p = Inr s"
  shows "pipe_inv (length bs) (foldl (\<lambda>s b. fst (pipe_update lg s b)) s bs) \<and> pl_params (foldl (\<lambda>s b. fst (pipe_update lg s b)) s bs) = p"
  using mk_pipeline_inv [OF assms] pipe_update_ready by (induction bs rule: rev_induct) auto

text \<open>The other steps leave the channel alone.\<close>

lemma step_channel [simp]:
  "pl_dmax (fst (trend_step s c)) = pl_dmax s" "pl_dmin (fst (trend_step s c)) = pl_dmin s" "pl_brk (fst (trend_step s c)) = pl_brk s"
  "pl_dmax (fst (wilder_step s b)) = pl_dmax s" "pl_dmin (fst (wilder_step s b)) = pl_dmin s" "pl_brk (fst (wilder_step s b)) = pl_brk s"
  "pl_dmax (fst (bollinger_step s c)) = pl_dmax s" "pl_dmin (fst (bollinger_step s c)) = pl_dmin s" "pl_brk (fst (bollinger_step s c)) = pl_brk s"
  "pl_dmax (fst (parkinson_step lg s b)) = pl_dmax s" "pl_dmin (fst (parkinson_step lg s b)) = pl_dmin s" "pl_brk (fst (parkinson_step lg s b)) = pl_brk s"
  "pl_dmax (fst (volume_step s c)) = pl_dmax s" "pl_dmin (fst (volume_step s c)) = pl_dmin s" "pl_brk (fst (volume_step s c)) = pl_brk s"
  by (auto simp: trend_step_def wilder_step_def bollinger_step_def parkinson_step_def volume_step_def Let_def split: prod.splits option.splits)

text \<open>The breakout after a bar, from the channel of the bars before it.\<close>

definition breakout :: "(rat \<times> rat \<times> rat) option \<Rightarrow> rat option \<Rightarrow> rat option \<Rightarrow> rat \<Rightarrow> (rat \<times> rat \<times> rat) option" where
  "breakout old u d c = (case (u, d) of
     (Some hi, Some lo) \<Rightarrow> if hi < c then Some (hi, 1, 0) else if c < lo then Some (lo, - 1, 0) else map_option (\<lambda>(r, q, k). (r, q, f64 (k + 1))) old
   | _ \<Rightarrow> old)"

lemma donchian_step_simps [simp]:
  "pl_dmax (fst (donchian_step s b)) = fst (md_update (pl_dmax s) (fb_h b))" "pl_dmin (fst (donchian_step s b)) = fst (md_update (pl_dmin s) (fb_l b))"
  "pl_brk (fst (donchian_step s b)) = breakout (pl_brk s) (md_value (pl_dmax s)) (md_value (pl_dmin s)) (fb_c b)"
  "snd (donchian_step s b) = (md_value (pl_dmax s), md_value (pl_dmin s))"
  by (simp_all add: donchian_step_def Let_def breakout_def)

lemma pipe_update_channel:
  "pl_dmax (fst (pipe_update lg s b)) = fst (md_update (pl_dmax s) (fb_h b))" "pl_dmin (fst (pipe_update lg s b)) = fst (md_update (pl_dmin s) (fb_l b))"
  "pl_brk (fst (pipe_update lg s b)) = breakout (pl_brk s) (md_value (pl_dmax s)) (md_value (pl_dmin s)) (fb_c b)"
  "ft_donch_hi (snd (pipe_update lg s b)) = md_value (pl_dmax s)" "ft_donch_lo (snd (pipe_update lg s b)) = md_value (pl_dmin s)"
  "ft_donch_ref (snd (pipe_update lg s b)) = map_option fst (pl_brk (fst (pipe_update lg s b)))"
  "ft_donch_dir (snd (pipe_update lg s b)) = map_option (\<lambda>x. fst (snd x)) (pl_brk (fst (pipe_update lg s b)))"
  "ft_bars_since (snd (pipe_update lg s b)) = map_option (\<lambda>x. snd (snd x)) (pl_brk (fst (pipe_update lg s b)))"
proof -
  obtain s1 a1 where 1: "trend_step (s\<lparr>pl_n := pl_n s + 1\<rparr>) (fb_c b) = (s1, a1)" by (metis surj_pair)
  obtain s2 a2 where 2: "wilder_step s1 b = (s2, a2)" by (metis surj_pair)
  obtain s3 a3 where 3: "bollinger_step s2 (fb_c b) = (s3, a3)" by (metis surj_pair)
  obtain s4 a4 where 4: "donchian_step s3 b = (s4, a4)" by (metis surj_pair)
  obtain s5 a5 where 5: "parkinson_step lg s4 b = (s5, a5)" by (metis surj_pair)
  obtain s6 a6 where 6: "volume_step s5 (fb_v b) = (s6, a6)" by (metis surj_pair)
  have c1: "pl_dmax s1 = pl_dmax s \<and> pl_dmin s1 = pl_dmin s \<and> pl_brk s1 = pl_brk s"
    using arg_cong [OF 1, of fst] step_channel(1-3) [of "s\<lparr>pl_n := pl_n s + 1\<rparr>" "fb_c b"] by simp
  have c2: "pl_dmax s2 = pl_dmax s1 \<and> pl_dmin s2 = pl_dmin s1 \<and> pl_brk s2 = pl_brk s1" using arg_cong [OF 2, of fst] step_channel(4-6) [of s1 b] by simp
  have c3: "pl_dmax s3 = pl_dmax s2 \<and> pl_dmin s3 = pl_dmin s2 \<and> pl_brk s3 = pl_brk s2" using arg_cong [OF 3, of fst] step_channel(7-9) [of s2 "fb_c b"] by simp
  have c4: "pl_dmax s4 = fst (md_update (pl_dmax s3) (fb_h b)) \<and> pl_dmin s4 = fst (md_update (pl_dmin s3) (fb_l b))
      \<and> pl_brk s4 = breakout (pl_brk s3) (md_value (pl_dmax s3)) (md_value (pl_dmin s3)) (fb_c b) \<and> a4 = (md_value (pl_dmax s3), md_value (pl_dmin s3))"
    using arg_cong [OF 4, of fst] arg_cong [OF 4, of snd] donchian_step_simps [of s3 b] by simp
  have c5: "pl_dmax s5 = pl_dmax s4 \<and> pl_dmin s5 = pl_dmin s4 \<and> pl_brk s5 = pl_brk s4" using arg_cong [OF 5, of fst] step_channel(10-12) [of lg s4 b] by simp
  have c6: "pl_dmax s6 = pl_dmax s5 \<and> pl_dmin s6 = pl_dmin s5 \<and> pl_brk s6 = pl_brk s5" using arg_cong [OF 6, of fst] step_channel(13-15) [of s5 "fb_v b"] by simp
  obtain f where u: "pipe_update lg s b = (s6, f)" and f: "ft_donch_hi f = fst a4" "ft_donch_lo f = snd a4" "ft_donch_ref f = map_option fst (pl_brk s4)"
    "ft_donch_dir f = map_option (\<lambda>x. fst (snd x)) (pl_brk s4)" "ft_bars_since f = map_option (\<lambda>x. snd (snd x)) (pl_brk s4)"
    by (cases a1; cases a2; cases a3; cases a4; cases a5; cases a6) (simp add: pipe_update_def 1 [simplified] 2 3 4 5 6)
  show "pl_dmax (fst (pipe_update lg s b)) = fst (md_update (pl_dmax s) (fb_h b))" "pl_dmin (fst (pipe_update lg s b)) = fst (md_update (pl_dmin s) (fb_l b))"
    "pl_brk (fst (pipe_update lg s b)) = breakout (pl_brk s) (md_value (pl_dmax s)) (md_value (pl_dmin s)) (fb_c b)"
    "ft_donch_hi (snd (pipe_update lg s b)) = md_value (pl_dmax s)" "ft_donch_lo (snd (pipe_update lg s b)) = md_value (pl_dmin s)"
    "ft_donch_ref (snd (pipe_update lg s b)) = map_option fst (pl_brk (fst (pipe_update lg s b)))"
    "ft_donch_dir (snd (pipe_update lg s b)) = map_option (\<lambda>x. fst (snd x)) (pl_brk (fst (pipe_update lg s b)))"
    "ft_bars_since (snd (pipe_update lg s b)) = map_option (\<lambda>x. snd (snd x)) (pl_brk (fst (pipe_update lg s b)))"
    using c1 c2 c3 c4 c5 c6 f by (simp_all add: u)
qed

definition after :: "(rat \<Rightarrow> rat) \<Rightarrow> pipeline \<Rightarrow> fbar list \<Rightarrow> pipeline" where
  "after lg s bs = foldl (\<lambda>s b. fst (pipe_update lg s b)) s bs"

lemma after_simps [simp]: "after lg s [] = s" "after lg s (bs @ [b]) = fst (pipe_update lg (after lg s bs) b)"
  by (simp_all add: after_def)

lemma after_inv: "mk_pipeline p = Inr s \<Longrightarrow> pipe_inv (length bs) (after lg s bs) \<and> pl_params (after lg s bs) = p"
  using mk_pipeline_inv pipe_update_ready by (induction bs rule: rev_induct) auto

lemma pipe_run_after: "pipe_run lg s bs = (after lg s bs, map (\<lambda>i. snd (pipe_update lg (after lg s (take i bs)) (bs ! i))) [0..<length bs])"
proof (induction bs arbitrary: s)
  case (Cons b bs)
  have "after lg (fst (pipe_update lg s b)) xs = after lg s (b # xs)" for xs by (simp add: after_def)
  then show ?case using Cons.IH [of "fst (pipe_update lg s b)"]
    by (simp add: prod.case_eq_if upt_conv_Cons map_Suc_upt [symmetric] comp_def del: upt_Suc)
qed simp

lemma after_channel:
  assumes "mk_pipeline p = Inr s"
  shows "md_of (pl_dmax (after lg s bs)) (map fb_h bs) \<and> md_n (pl_dmax (after lg s bs)) = nat (fp_donchian_n p) \<and> md_max (pl_dmax (after lg s bs))"
    and "md_of (pl_dmin (after lg s bs)) (map fb_l bs) \<and> md_n (pl_dmin (after lg s bs)) = nat (fp_donchian_n p) \<and> \<not> md_max (pl_dmin (after lg s bs))"
proof -
  obtain hi lo where m: "mk_mono True (fp_donchian_n p) = Inr hi" "mk_mono False (fp_donchian_n p) = Inr lo" "pl_dmax s = hi" "pl_dmin s = lo"
    using assms by (rule mk_pipeline_InrE) auto
  have "pl_dmax (after lg s bs) = feed md_update hi (map fb_h bs)" "pl_dmin (after lg s bs) = feed md_update lo (map fb_l bs)"
    by (induction bs rule: rev_induct) (simp_all add: m pipe_update_channel)
  then show "md_of (pl_dmax (after lg s bs)) (map fb_h bs) \<and> md_n (pl_dmax (after lg s bs)) = nat (fp_donchian_n p) \<and> md_max (pl_dmax (after lg s bs))"
    "md_of (pl_dmin (after lg s bs)) (map fb_l bs) \<and> md_n (pl_dmin (after lg s bs)) = nat (fp_donchian_n p) \<and> \<not> md_max (pl_dmin (after lg s bs))"
    using md_of_feed [OF m(1)] md_of_feed [OF m(2)] by simp_all
qed


definition ex_fbar :: "rat \<Rightarrow> rat \<Rightarrow> rat \<Rightarrow> fbar" where
  "ex_fbar h l c = \<lparr>fb_t_ns = 0, fb_o = c, fb_h = h, fb_l = l, fb_c = c, fb_v = 1, fb_qv = 0, fb_n = 0\<rparr>"


end
