(* ===== verification/Detectors.thy ===== *)
theory Detectors
  imports Decision FeatureProps
begin

text \<open>
  \<^verbatim>\<open>detectors/\<close>: the six detectors of patterns, each a function of the window of bars and features, and the registry that builds them
  from the configuration. \<^verbatim>\<open>tanh\<close>, \<^verbatim>\<open>exp\<close> and the power of floats are parameters. The values are finite floats, so the guards of the code
  against a NaN or an infinity in a score are never taken; the weight alone may be infinite, as the schema allows it.
\<close>

type_synonym window = "(fbar \<times> features) bar_window"

record fmath =
  fm_tanh :: "rat \<Rightarrow> rat"
  fm_exp :: "rat \<Rightarrow> rat"
  fm_pow :: "rat \<Rightarrow> rat \<Rightarrow> rat"

definition fdiv :: "rat \<Rightarrow> rat \<Rightarrow> rat result" where
  "fdiv x y = (if y = 0 then Inl ZeroDivisionError else Inr (f64 (x / y)))"

definition win_feats :: "window \<Rightarrow> features result" where
  "win_feats w = rbind (window_at w 0) (\<lambda>x. Inr (snd x))"

definition win_bar :: "window \<Rightarrow> int \<Rightarrow> fbar result" where
  "win_bar w lag = rbind (window_at w lag) (\<lambda>x. Inr (fst x))"

text \<open>A detector that is not warm: no strength, no confidence.\<close>

definition cold :: "string \<Rightarrow> detector_group \<Rightarrow> pyfloat \<Rightarrow> detector_output result" where
  "cold name g wt = mk_output name (Fin 0) (Fin 0) [] g wt"

definition clamp01 :: "rat \<Rightarrow> rat" where
  "clamp01 x = min 1 (max 0 x)"

definition need :: "feature_params \<Rightarrow> string \<Rightarrow> int" where
  "need p name = the (dget (warmup p) name)"

section \<open>Trend\<close>

record ema_slope =
  es_weight :: pyfloat
  es_horizon :: nat
  es_scale :: rat
  es_warmup :: int

definition mk_ema_slope :: "pyfloat \<Rightarrow> nat \<Rightarrow> rat \<Rightarrow> feature_params \<Rightarrow> ema_slope result" where
  "mk_ema_slope wt horizon scale p =
     (if fp_ema_horizon p \<noteq> horizon then Inl ValueError
      else Inr \<lparr>es_weight = wt, es_horizon = horizon, es_scale = scale, es_warmup = max (max (need p ''ema_lag'') (need p ''ema_r2'')) (need p ''atr'')\<rparr>)"

definition ema_slope_compute :: "fmath \<Rightarrow> ema_slope \<Rightarrow> window \<Rightarrow> detector_output result" where
  "ema_slope_compute fm d w = rbind (win_feats w) (\<lambda>f.
     case (ft_ema f, ft_ema_lag f, ft_atr f, ft_ema_r2 f) of
       (Some e, Some e_lag, Some atr, Some r2) \<Rightarrow>
         let den = f64 (of_nat (es_horizon d) * max atr (f64 (REL_FLOOR * \<bar>e\<bar>))); g = (if 0 < den then f64 (f64 (e - e_lag) / den) else 0) in
         rbind (fdiv g (es_scale d)) (\<lambda>x.
           mk_output ''ema_slope'' (Fin (fm_tanh fm x)) (Fin (if 0 \<le> r2 \<and> r2 \<le> 1 then r2 else 0))
             [(''g'', Some (Fin g)), (''r2'', Some (Fin r2))] DG_trend (es_weight d))
     | _ \<Rightarrow> cold ''ema_slope'' DG_trend (es_weight d))"

record donchian =
  dn_weight :: pyfloat
  dn_decay :: rat
  dn_d_scale :: rat
  dn_width_atr :: rat
  dn_warmup :: int

definition mk_donchian :: "pyfloat \<Rightarrow> rat \<Rightarrow> feature_params \<Rightarrow> donchian" where
  "mk_donchian wt decay p = \<lparr>dn_weight = wt, dn_decay = decay, dn_d_scale = 1 / 2, dn_width_atr = 6, dn_warmup = max (need p ''donch_hi'') (need p ''atr'')\<rparr>"

definition donchian_compute :: "fmath \<Rightarrow> donchian \<Rightarrow> window \<Rightarrow> detector_output result" where
  "donchian_compute fm d w = rbind (win_feats w) (\<lambda>f.
     case (ft_donch_hi f, ft_donch_lo f, ft_atr f, ft_donch_ref f, ft_bars_since f) of
       (Some u, Some lo, Some atr, Some ref, Some age) \<Rightarrow>
         rbind (win_bar w 0) (\<lambda>b.
           let p = fb_c b; a = max atr (f64 (REL_FLOOR * \<bar>p\<bar>)) in
           if \<not> 0 < a then cold ''donchian'' DG_trend (dn_weight d)
           else let dd = f64 (f64 (p - ref) / a); width = f64 (f64 (u - lo) / a) in
             rbind (fdiv dd (dn_d_scale d)) (\<lambda>x. rbind (fdiv width (dn_width_atr d)) (\<lambda>y.
               mk_output ''donchian'' (Fin (fm_tanh fm x)) (Fin (f64 (clamp01 y * fm_exp fm (f64 (- dn_decay d * age)))))
                 [(''d'', Some (Fin dd)), (''width_atr'', Some (Fin width)), (''bars_since_breakout'', Some (Fin age)),
                  (''direction'', Some (Fin (case ft_donch_dir f of None \<Rightarrow> 0 | Some q \<Rightarrow> q)))] DG_trend (dn_weight d))))
     | _ \<Rightarrow> cold ''donchian'' DG_trend (dn_weight d))"

section \<open>Reversion\<close>

definition copysign :: "rat \<Rightarrow> rat \<Rightarrow> rat" where
  "copysign x y = (if y < 0 then - \<bar>x\<bar> else \<bar>x\<bar>)"

definition rsi_z :: "rat \<Rightarrow> rat" where
  "rsi_z r = min 1 (max (- 1) (f64 (f64 (50 - r) / 50)))"

definition rsi_strength :: "fmath \<Rightarrow> rat \<Rightarrow> rat \<Rightarrow> rat" where
  "rsi_strength fm r pw = (let z = rsi_z r in if z \<noteq> 0 then copysign (fm_pow fm \<bar>z\<bar> pw) z else 0)"

record rsi_exhaustion =
  rx_weight :: pyfloat
  rx_power :: rat
  rx_conf_power :: rat
  rx_base_w :: rat
  rx_div_w :: rat
  rx_rsi_scale :: rat
  rx_z0 :: rat
  rx_div_lookback :: nat
  rx_warmup :: int

definition mk_rsi_exhaustion :: "pyfloat \<Rightarrow> rat \<Rightarrow> feature_params \<Rightarrow> rsi_exhaustion" where
  "mk_rsi_exhaustion wt pw p = \<lparr>rx_weight = wt, rx_power = pw, rx_conf_power = f64 (4 / 5), rx_base_w = f64 (3 / 5), rx_div_w = f64 (2 / 5), rx_rsi_scale = 10,
     rx_z0 = f64 (1 / 10), rx_div_lookback = fp_rsi_div_lookback p, rx_warmup = max (max (need p ''rsi_delta'') (need p ''close_delta'')) (need p ''atr'')\<rparr>"

definition rsi_compute :: "fmath \<Rightarrow> rsi_exhaustion \<Rightarrow> window \<Rightarrow> detector_output result" where
  "rsi_compute fm d w = rbind (win_feats w) (\<lambda>f.
     case (ft_rsi f, ft_rsi_delta f, ft_close_delta f, ft_atr f) of
       (Some rsi, Some d_rsi, Some d_px, Some atr) \<Rightarrow>
         let z = rsi_z rsi; az = \<bar>z\<bar>; s = (if 0 < az then copysign (fm_pow fm az (rx_power d)) z else 0) in
         rbind (win_bar w 0) (\<lambda>b.
           let a_den = f64 (max atr (f64 (REL_FLOOR * \<bar>fb_c b\<bar>)) * f64_sqrt (of_nat (rx_div_lookback d)));
               a = (if 0 < a_den then fm_tanh fm (f64 (d_px / a_den)) else 0) in
           rbind (fdiv d_rsi (rx_rsi_scale d)) (\<lambda>x. rbind (fdiv z (rx_z0 d)) (\<lambda>y.
             let bb = fm_tanh fm x; zeta = fm_tanh fm y; dv = f64 (max 0 (f64 (- zeta * a)) * max 0 (f64 (zeta * bb)));
                 c = min 1 (f64 (f64 (rx_base_w d * fm_pow fm az (rx_conf_power d)) + f64 (rx_div_w d * dv)))
             in mk_output ''rsi_exhaustion'' (Fin s) (Fin c) [(''rsi'', Some (Fin rsi)), (''z'', Some (Fin z)), (''div_score'', Some (Fin dv))]
                  DG_reversion (rx_weight d))))
     | _ \<Rightarrow> cold ''rsi_exhaustion'' DG_reversion (rx_weight d))"

record bollinger_z =
  bz_weight :: pyfloat
  bz_z_scale :: rat
  bz_warmup :: int

definition mk_bollinger_z :: "pyfloat \<Rightarrow> rat \<Rightarrow> feature_params \<Rightarrow> bollinger_z" where
  "mk_bollinger_z wt z_scale p = \<lparr>bz_weight = wt, bz_z_scale = z_scale, bz_warmup = need p ''bb_bw_rank''\<rparr>"

definition bollinger_compute :: "fmath \<Rightarrow> bollinger_z \<Rightarrow> window \<Rightarrow> detector_output result" where
  "bollinger_compute fm d w = rbind (win_feats w) (\<lambda>f.
     case (ft_sma f, ft_sigma f, ft_bb_bw_rank f) of
       (Some mu, Some sigma, Some rho) \<Rightarrow>
         rbind (win_bar w 0) (\<lambda>b.
           let sd = max sigma (f64 (REL_FLOOR * \<bar>mu\<bar>)); z = (if 0 < sd then f64 (f64 (fb_c b - mu) / sd) else 0) in
           rbind (fdiv z (bz_z_scale d)) (\<lambda>x.
             mk_output ''bollinger_z'' (Fin (- fm_tanh fm x)) (Fin (f64 (1 - clamp01 rho))) [(''z'', Some (Fin z)), (''bw_rank'', Some (Fin rho))]
               DG_reversion (bz_weight d)))
     | _ \<Rightarrow> cold ''bollinger_z'' DG_reversion (bz_weight d))"

section \<open>Geometry of candles\<close>

definition TINY :: rat where "TINY = f64 (1 / 10 ^ 300)"

definition sigma_s :: "fmath \<Rightarrow> rat \<Rightarrow> rat" where
  "sigma_s fm x =
     (if 0 \<le> x then f64 (1 / f64 (1 + fm_exp fm (f64 (- 3 * x)))) else let e = fm_exp fm (f64 (3 * x)) in f64 (e / f64 (1 + e)))"

record geometry =
  ge_hi :: rat
  ge_lo :: rat
  ge_body :: rat
  ge_wu :: rat
  ge_wl :: rat
  ge_range :: rat

definition geometry_of :: "fbar \<Rightarrow> geometry" where
  "geometry_of b =
     (let tp = (if fb_c b < fb_o b then fb_o b else fb_c b); bt = (if fb_c b < fb_o b then fb_c b else fb_o b);
          hi = (if tp < fb_h b then fb_h b else tp); lo = (if fb_l b < bt then fb_l b else bt)
      in \<lparr>ge_hi = hi, ge_lo = lo, ge_body = f64 (tp - bt), ge_wu = f64 (hi - tp), ge_wl = f64 (bt - lo), ge_range = f64 (hi - lo)\<rparr>)"

definition bar_eps :: "fbar \<Rightarrow> rat" where
  "bar_eps b = f64 (f64 (REL_FLOOR * \<bar>fb_c b\<bar>) + TINY)"

definition pin_bar_scores :: "fmath \<Rightarrow> fbar \<Rightarrow> rat \<Rightarrow> rat \<times> rat" where
  "pin_bar_scores fm b atr =
     (let g = geometry_of b; eps = bar_eps b; bd = (if eps < ge_body g then ge_body g else eps); a = (if eps < atr then atr else eps);
          m = min 1 (f64 (ge_range g / a)); sg = sigma_s fm
      in (f64 (f64 (sg (f64 (f64 (ge_wl g / bd) - 2)) * sg (f64 (1 - f64 (ge_wu g / bd)))) * m),
          f64 (f64 (sg (f64 (f64 (ge_wu g / bd) - 2)) * sg (f64 (1 - f64 (ge_wl g / bd)))) * m)))"

definition engulfing_scores :: "fmath \<Rightarrow> fbar \<Rightarrow> fbar \<Rightarrow> rat \<Rightarrow> rat \<times> rat" where
  "engulfing_scores fm b prev atr =
     (let g = geometry_of b; gp = geometry_of prev; eps = bar_eps b; a = (if eps < atr then atr else eps); m = min 1 (f64 (ge_range g / a));
          floored = (\<lambda>x. if eps < x then x else eps); sg = sigma_s fm;
          dt = f64 (f64 (fb_c b - fb_o b) / floored (ge_range g)); dp = f64 (f64 (fb_c prev - fb_o prev) / floored (ge_range gp));
          sz = sg (f64 (f64 (ge_body g / floored (ge_body gp)) - 1));
          col_bull = f64 (sg (f64 (f64 (4 * dt) - 1)) * sg (f64 (f64 (- 4 * dp) - 1)));
          col_bear = f64 (sg (f64 (f64 (- 4 * dt) - 1)) * sg (f64 (f64 (4 * dp) - 1)))
      in (f64 (f64 (sz * col_bull) * m), f64 (f64 (sz * col_bear) * m)))"

record candle_geometry =
  cg_weight :: pyfloat
  cg_w_pin :: rat
  cg_w_engulf :: rat
  cg_warmup :: int

definition mk_candle_geometry :: "pyfloat \<Rightarrow> rat \<Rightarrow> rat \<Rightarrow> feature_params \<Rightarrow> candle_geometry" where
  "mk_candle_geometry wt w_pin w_engulf p = \<lparr>cg_weight = wt, cg_w_pin = w_pin, cg_w_engulf = w_engulf, cg_warmup = max (max (need p ''atr'') (need p ''donch_hi'')) 2\<rparr>"

definition geometry_score :: "rat \<Rightarrow> rat \<Rightarrow> rat \<times> rat \<Rightarrow> rat \<times> rat \<Rightarrow> rat" where
  "geometry_score wp we pin eng =
     (let (pb, ps) = pin; (eb, es) = eng;
          num = f64 (f64 (wp * f64 (f64 (pb * pb) - f64 (ps * ps))) + f64 (we * f64 (f64 (eb * eb) - f64 (es * es))));
          den = f64 (f64 (wp * f64 (pb + ps)) + f64 (we * f64 (eb + es)))
      in min 1 (max (- 1) (if f64 (1 / 10 ^ 12) < den then f64 (num / den) else 0)))"

definition candle_compute :: "fmath \<Rightarrow> candle_geometry \<Rightarrow> window \<Rightarrow> detector_output result" where
  "candle_compute fm d w = rbind (win_feats w) (\<lambda>f.
     case (ft_atr f, ft_donch_hi f, ft_donch_lo f) of
       (Some atr, Some u, Some lvl) \<Rightarrow>
         if bw_count w < 2 then cold ''candle_geometry'' DG_reversion (cg_weight d)
         else rbind (win_bar w 0) (\<lambda>b. rbind (win_bar w 1) (\<lambda>prev.
           let g = geometry_of b; a = f64 (max atr (f64 (REL_FLOOR * \<bar>fb_c b\<bar>)) + TINY); pin = pin_bar_scores fm b atr; eng = engulfing_scores fm b prev atr;
               s = geometry_score (cg_w_pin d) (cg_w_engulf d) pin eng;
               prox_bull = fm_exp fm (f64 (- \<bar>f64 (ge_lo g - lvl)\<bar> / f64 (2 * a))); prox_bear = fm_exp fm (f64 (- \<bar>f64 (ge_hi g - u)\<bar> / f64 (2 * a)));
               c = clamp01 (max (max (max (f64 (fst pin * prox_bull)) (f64 (fst eng * prox_bull))) (f64 (snd pin * prox_bear))) (f64 (snd eng * prox_bear)))
           in mk_output ''candle_geometry'' (Fin s) (Fin c)
                [(''pin_bull'', Some (Fin (fst pin))), (''pin_bear'', Some (Fin (snd pin))), (''engulf_bull'', Some (Fin (fst eng))), (''engulf_bear'', Some (Fin (snd eng))),
                 (''prox_support'', Some (Fin prox_bull)), (''prox_resistance'', Some (Fin prox_bear))] DG_reversion (cg_weight d)))
     | _ \<Rightarrow> cold ''candle_geometry'' DG_reversion (cg_weight d))"

section \<open>Context\<close>

definition V_UNKNOWN :: rat where "V_UNKNOWN = 1 / 2"

record vol_regime =
  vr_weight :: pyfloat
  vr_warmup :: int

definition mk_vol_regime :: "pyfloat \<Rightarrow> feature_params \<Rightarrow> vol_regime" where
  "mk_vol_regime wt p = \<lparr>vr_weight = wt, vr_warmup = need p ''vol_rank''\<rparr>"

definition vol_compute :: "vol_regime \<Rightarrow> window \<Rightarrow> detector_output result" where
  "vol_compute d w = rbind (win_feats w) (\<lambda>f.
     case ft_vol_rank f of
       None \<Rightarrow> mk_output ''vol_regime'' (Fin 0) (Fin 0) [(''V'', Some (Fin V_UNKNOWN)), (''warm'', Some (Fin 0))] DG_context (vr_weight d)
     | Some v \<Rightarrow> mk_output ''vol_regime'' (Fin 0) (Fin 1)
         [(''V'', Some (Fin (clamp01 v))), (''park_sigma'', Some (Fin (case ft_park_sigma f of None \<Rightarrow> 0 | Some x \<Rightarrow> x))), (''warm'', Some (Fin 1))] DG_context (vr_weight d))"

section \<open>The registry\<close>

definition DETECTOR_NAMES :: "string list" where
  "DETECTOR_NAMES = [''ema_slope'', ''donchian'', ''rsi_exhaustion'', ''bollinger_z'', ''candle_geometry'', ''vol_regime'']"

definition MIN_WINDOW_CAPACITY :: int where "MIN_WINDOW_CAPACITY = 2"

text \<open>The typed content of \<^verbatim>\<open>config/detectors.yaml\<close>; defaults are filled in.\<close>

record det_cfg =
  xc_es_weight :: pyfloat
  xc_n_ema :: int
  xc_horizon :: int
  xc_es_scale :: rat
  xc_r2_points :: int
  xc_dn_weight :: pyfloat
  xc_dn_n :: int
  xc_dn_decay :: rat
  xc_rx_weight :: pyfloat
  xc_rx_n :: int
  xc_rx_power :: rat
  xc_rx_div_lookback :: int
  xc_bz_weight :: pyfloat
  xc_bz_n :: int
  xc_bz_k :: rat
  xc_bz_z_scale :: rat
  xc_bz_rank_window :: int
  xc_cg_weight :: pyfloat
  xc_cg_w_pin :: rat
  xc_cg_w_engulf :: rat
  xc_vr_weight :: pyfloat
  xc_vr_window :: int
  xc_vr_rank_window :: int
  xc_n_atr :: int
  xc_volume_window :: int

definition det_cfg_ok :: "det_cfg \<Rightarrow> bool" where
  "det_cfg_ok c \<longleftrightarrow>
     f_le (Fin 0) (xc_es_weight c) \<and> 1 \<le> xc_n_ema c \<and> 1 \<le> xc_horizon c \<and> 0 < xc_es_scale c \<and> 2 \<le> xc_r2_points c
     \<and> f_le (Fin 0) (xc_dn_weight c) \<and> 1 \<le> xc_dn_n c \<and> 0 \<le> xc_dn_decay c
     \<and> f_le (Fin 0) (xc_rx_weight c) \<and> 1 \<le> xc_rx_n c \<and> 0 < xc_rx_power c \<and> 1 \<le> xc_rx_div_lookback c
     \<and> f_le (Fin 0) (xc_bz_weight c) \<and> 2 \<le> xc_bz_n c \<and> 0 < xc_bz_k c \<and> 0 < xc_bz_z_scale c \<and> 1 \<le> xc_bz_rank_window c
     \<and> f_le (Fin 0) (xc_cg_weight c) \<and> 0 \<le> xc_cg_w_pin c \<and> 0 \<le> xc_cg_w_engulf c
     \<and> f_le (Fin 0) (xc_vr_weight c) \<and> 1 \<le> xc_vr_window c \<and> 1 \<le> xc_vr_rank_window c
     \<and> 1 \<le> xc_n_atr c \<and> 2 \<le> xc_volume_window c"

definition params_of_cfg :: "det_cfg \<Rightarrow> feature_params" where
  "params_of_cfg c = default_params\<lparr>fp_n_ema := xc_n_ema c, fp_ema_horizon := nat (xc_horizon c), fp_ema_r2_points := xc_r2_points c, fp_n_atr := xc_n_atr c,
     fp_n_rsi := xc_rx_n c, fp_rsi_div_lookback := nat (xc_rx_div_lookback c), fp_bb_n := xc_bz_n c, fp_bb_k := xc_bz_k c, fp_bb_rank_window := xc_bz_rank_window c,
     fp_donchian_n := xc_dn_n c, fp_park_window := xc_vr_window c, fp_vol_rank_window := xc_vr_rank_window c, fp_volume_window := xc_volume_window c\<rparr>"

text \<open>A built detector: its name, its warm-up and what it computes.\<close>

record detector =
  de_name :: string
  de_warmup :: int
  de_compute :: "window \<Rightarrow> detector_output result"

definition build_detectors :: "fmath \<Rightarrow> det_cfg \<Rightarrow> detector list result" where
  "build_detectors fm c =
     (if \<not> det_cfg_ok c then Inl ConfigValidationError
      else let fp = params_of_cfg c in
        rbind (mk_ema_slope (xc_es_weight c) (nat (xc_horizon c)) (xc_es_scale c) fp) (\<lambda>es.
          let dn = mk_donchian (xc_dn_weight c) (xc_dn_decay c) fp; rx = mk_rsi_exhaustion (xc_rx_weight c) (xc_rx_power c) fp;
              bz = mk_bollinger_z (xc_bz_weight c) (xc_bz_z_scale c) fp; cg = mk_candle_geometry (xc_cg_weight c) (xc_cg_w_pin c) (xc_cg_w_engulf c) fp;
              vr = mk_vol_regime (xc_vr_weight c) fp
          in Inr [\<lparr>de_name = ''ema_slope'', de_warmup = es_warmup es, de_compute = ema_slope_compute fm es\<rparr>,
                  \<lparr>de_name = ''donchian'', de_warmup = dn_warmup dn, de_compute = donchian_compute fm dn\<rparr>,
                  \<lparr>de_name = ''rsi_exhaustion'', de_warmup = rx_warmup rx, de_compute = rsi_compute fm rx\<rparr>,
                  \<lparr>de_name = ''bollinger_z'', de_warmup = bz_warmup bz, de_compute = bollinger_compute fm bz\<rparr>,
                  \<lparr>de_name = ''candle_geometry'', de_warmup = cg_warmup cg, de_compute = candle_compute fm cg\<rparr>,
                  \<lparr>de_name = ''vol_regime'', de_warmup = vr_warmup vr, de_compute = vol_compute vr\<rparr>]))"

definition max_warmup :: "detector list \<Rightarrow> int result" where
  "max_warmup ds = (if ds = [] then Inl ValueError else Inr (Max (set (map de_warmup ds))))"

end
