(* ===== verification/DetectorProps.thy ===== *)
theory DetectorProps
  imports Detectors Sizing
begin

text \<open>
  Every built detector returns a valid output on every window the pipeline can produce, and is silent before its warm-up.
\<close>

section \<open>Outputs in range\<close>

definition math_ok :: "fmath \<Rightarrow> bool" where
  "math_ok fm \<longleftrightarrow> (\<forall>x. - 1 \<le> fm_tanh fm x \<and> fm_tanh fm x \<le> 1) \<and> (\<forall>x \<le> 0. 0 \<le> fm_exp fm x \<and> fm_exp fm x \<le> 1)
     \<and> (\<forall>a q. 0 \<le> a \<longrightarrow> a \<le> 1 \<longrightarrow> 0 < q \<longrightarrow> 0 \<le> fm_pow fm a q \<and> fm_pow fm a q \<le> 1)"

definition valid_output :: "string \<Rightarrow> detector_output result \<Rightarrow> bool \<Rightarrow> bool" where
  "valid_output name r silent \<longleftrightarrow> (\<exists>x. r = Inr x \<and> do_name x = name \<and> - 1 \<le> do_s x \<and> do_s x \<le> 1 \<and> 0 \<le> do_c x \<and> do_c x \<le> 1
     \<and> (silent \<longrightarrow> do_s x = 0 \<and> do_c x = 0))"

lemma valid_mk_output:
  "- 1 \<le> s \<Longrightarrow> s \<le> 1 \<Longrightarrow> 0 \<le> c \<Longrightarrow> c \<le> 1 \<Longrightarrow> 0 \<le> w \<Longrightarrow> (q \<longrightarrow> s = 0 \<and> c = 0) \<Longrightarrow> valid_output name (mk_output name (Fin s) (Fin c) fs g (Fin w)) q"
  by (simp add: valid_output_def mk_output_def)

lemma valid_output_mono: "valid_output n r q \<Longrightarrow> (q' \<Longrightarrow> q) \<Longrightarrow> valid_output n r q'"
  by (auto simp: valid_output_def)

lemma valid_cold: "0 \<le> w \<Longrightarrow> valid_output name (cold name g (Fin w)) q"
  unfolding cold_def by (rule valid_mk_output) simp_all

lemma clamp01_range: "0 \<le> clamp01 x" "clamp01 x \<le> 1"
  by (simp_all add: clamp01_def)

lemma f64_prod_unit: "0 \<le> x \<Longrightarrow> x \<le> 1 \<Longrightarrow> 0 \<le> y \<Longrightarrow> y \<le> 1 \<Longrightarrow> 0 \<le> f64 (x * y) \<and> f64 (x * y) \<le> 1"
  using mult_le_one [of x y] by (auto intro: f64.rnd_nonneg f64.rnd_le_1)

lemma ema_slope_valid:
  assumes "math_ok fm" "es_weight d = Fin x" "0 \<le> x" "es_scale d \<noteq> 0" "win_feats w = Inr f"
  shows "valid_output ''ema_slope'' (ema_slope_compute fm d w) (ft_ema_lag f = None \<or> ft_ema_r2 f = None \<or> ft_atr f = None)"
  using assms unfolding ema_slope_compute_def
  by (auto simp: fdiv_def math_ok_def Let_def split: option.splits intro!: valid_cold valid_mk_output)

lemma donchian_valid:
  assumes "math_ok fm" "dn_weight d = Fin x" "0 \<le> x" "dn_d_scale d \<noteq> 0" "dn_width_atr d \<noteq> 0" "0 \<le> dn_decay d" "win_feats w = Inr f" "win_bar w 0 = Inr b"
    and age: "\<forall>k. ft_bars_since f = Some k \<longrightarrow> 0 \<le> k"
  shows "valid_output ''donchian'' (donchian_compute fm d w) (ft_donch_hi f = None \<or> ft_atr f = None)"
proof -
  have "0 \<le> f64 (clamp01 y * fm_exp fm (f64 (- dn_decay d * k))) \<and> f64 (clamp01 y * fm_exp fm (f64 (- dn_decay d * k))) \<le> 1" if "0 \<le> k" for y k
  proof -
    have "f64 (- dn_decay d * k) \<le> 0" using assms(6) that by (intro f64.rnd_nonpos) (simp add: mult_nonneg_nonneg)
    then show ?thesis using assms(1) clamp01_range [of y] by (intro f64_prod_unit) (auto simp: math_ok_def)
  qed
  then show ?thesis
    using assms unfolding donchian_compute_def
    by (auto simp: fdiv_def Let_def math_ok_def split: option.splits intro!: valid_cold valid_mk_output)
qed

lemma rsi_z_range: "- 1 \<le> rsi_z r \<and> rsi_z r \<le> 1"
  by (auto simp: rsi_z_def)

lemma rsi_valid:
  assumes "math_ok fm" "rx_weight d = Fin x" "0 \<le> x" "rx_rsi_scale d \<noteq> 0" "rx_z0 d \<noteq> 0" "0 < rx_power d" "0 < rx_conf_power d" "0 \<le> rx_base_w d" "0 \<le> rx_div_w d"
    and "win_feats w = Inr f" "win_bar w 0 = Inr b"
  shows "valid_output ''rsi_exhaustion'' (rsi_compute fm d w) (ft_rsi_delta f = None \<or> ft_close_delta f = None \<or> ft_atr f = None)"
proof -
  have p: "0 \<le> fm_pow fm \<bar>rsi_z r\<bar> q \<and> fm_pow fm \<bar>rsi_z r\<bar> q \<le> 1" if "0 < q" for r q
    using assms(1) rsi_z_range [of r] that by (auto simp: math_ok_def abs_le_iff)
  have s: "- 1 \<le> copysign (fm_pow fm \<bar>rsi_z r\<bar> (rx_power d)) z \<and> copysign (fm_pow fm \<bar>rsi_z r\<bar> (rx_power d)) z \<le> 1" for r z
    using p [OF assms(6), of r] by (auto simp: copysign_def)
  have c: "0 \<le> f64 (f64 (rx_base_w d * fm_pow fm z (rx_conf_power d)) + f64 (rx_div_w d * f64 (max 0 u * max 0 v)))" if "0 \<le> z" "z \<le> 1" for z u v
    using that assms(1,7,8,9) by (intro f64.rnd_nonneg add_nonneg_nonneg mult_nonneg_nonneg) (auto simp: math_ok_def)
  have c0: "0 \<le> f64 (f64 (rx_base_w d * fm_pow fm z (rx_conf_power d)))" if "0 \<le> z" "z \<le> 1" for z
    using c [OF that, of 0 0] by simp
  have z: "\<bar>rsi_z r\<bar> \<le> 1" for r using rsi_z_range [of r] by (simp add: abs_le_iff minus_le_iff)
  show ?thesis
    using assms(2-5,10,11) s c c0 z unfolding rsi_compute_def
    by (auto simp: fdiv_def Let_def split: option.splits intro!: valid_cold valid_mk_output)
qed

lemma bollinger_valid:
  assumes "math_ok fm" "bz_weight d = Fin x" "0 \<le> x" "bz_z_scale d \<noteq> 0" "win_feats w = Inr f" "win_bar w 0 = Inr b"
  shows "valid_output ''bollinger_z'' (bollinger_compute fm d w) (ft_bb_bw_rank f = None)"
proof -
  have "0 \<le> f64 (1 - clamp01 y) \<and> f64 (1 - clamp01 y) \<le> 1" for y
    using clamp01_range [of y] by (auto intro: f64.rnd_nonneg f64.rnd_le_1)
  then show ?thesis
    using assms unfolding bollinger_compute_def
    by (auto simp: fdiv_def Let_def math_ok_def minus_le_iff split: option.splits intro!: valid_cold valid_mk_output)
qed

lemma geometry_score_range: "- 1 \<le> geometry_score a b c e" "geometry_score a b c e \<le> 1"
  by (simp_all add: geometry_score_def Let_def split: prod.split)

lemma candle_valid:
  assumes "cg_weight d = Fin x" "0 \<le> x" "win_feats w = Inr f" "win_bar w 0 = Inr b" and prev: "2 \<le> bw_count w \<Longrightarrow> \<exists>p. win_bar w 1 = Inr p"
  shows "valid_output ''candle_geometry'' (candle_compute fm d w) (ft_atr f = None \<or> ft_donch_hi f = None \<or> bw_count w < 2)"
proof (cases "2 \<le> bw_count w")
  case True
  then obtain p where "win_bar w 1 = Inr p" using prev by blast
  then show ?thesis
    using assms(1-4) True unfolding candle_compute_def
    by (auto simp: Let_def geometry_score_range clamp01_range split: option.splits intro!: valid_cold valid_mk_output)
next
  case False
  then show ?thesis using assms(1-3) by (auto simp: candle_compute_def split: option.splits intro!: valid_cold)
qed

lemma vol_valid:
  assumes "vr_weight d = Fin x" "0 \<le> x" "win_feats w = Inr f"
  shows "valid_output ''vol_regime'' (vol_compute d w) (ft_vol_rank f = None)"
  using assms by (auto simp: vol_compute_def split: option.splits intro!: valid_mk_output)

section \<open>The window of a run\<close>

definition history :: "(rat \<Rightarrow> rat) \<Rightarrow> pipeline \<Rightarrow> fbar list \<Rightarrow> (fbar \<times> features) list" where
  "history lg s bs = zip bs (snd (pipe_run lg s bs))"

lemma history_snoc: "history lg s (bs @ [b]) = history lg s bs @ [(b, snd (pipe_update lg (after lg s bs) b))]"
proof -
  have "map (\<lambda>i. snd (pipe_update lg (after lg s (take i (bs @ [b]))) ((bs @ [b]) ! i))) [0..<length bs]
    = map (\<lambda>i. snd (pipe_update lg (after lg s (take i bs)) (bs ! i))) [0..<length bs]"
    by (rule map_cong) (auto simp: nth_append)
  then show ?thesis unfolding history_def pipe_run_after by (simp del: map_eq_conv)
qed

lemma history_length [simp]: "length (history lg s bs) = length bs"
  by (simp add: history_def pipe_run_after)

lemma window_run_reads:
  assumes "window_init cap = Inr w0" and "w = foldl window_append w0 (history lg s (bs @ [b]))"
  shows "win_feats w = Inr (snd (pipe_update lg (after lg s bs) b))" "win_bar w 0 = Inr b" "2 \<le> bw_count w \<Longrightarrow> \<exists>p. win_bar w 1 = Inr p"
    "bw_count w \<le> int (length bs) + 1"
proof -
  have r: "window_of w (history lg s (bs @ [b]))" "bw_capacity w = cap" using window_of_run [OF assms(1)] assms(2) by simp_all
  have cap: "1 \<le> cap" using assms(1) by (auto simp: window_init_def split: if_splits)
  have 0: "window_at w 0 = Inr (b, snd (pipe_update lg (after lg s bs) b))"
    using window_of_at [OF r(1), of 0] cap r(2) by (simp add: history_snoc nth_append nat_eq_iff)
  show "win_feats w = Inr (snd (pipe_update lg (after lg s bs) b))" "win_bar w 0 = Inr b" by (simp_all add: win_feats_def win_bar_def 0)
  have c: "bw_count w = min (int (length bs) + 1) cap" using r by (simp add: window_of_def add.commute)
  then show "bw_count w \<le> int (length bs) + 1" by simp
  show "\<exists>p. win_bar w 1 = Inr p" if "2 \<le> bw_count w"
    using window_of_at [OF r(1), of 1] that c r(2) by (auto simp: win_bar_def)
qed

lemma ready_atD:
  assumes "ready_at k p f" and "dget (warmup p) name = Some m" and "dget (as_dict f) name = Some v"
  shows "int k < m \<Longrightarrow> v = None"
proof -
  have "(name, m) \<in> set (warmup p)" using assms(2) by (rule map_of_SomeD)
  with assms(1) have "(\<exists>v'. dget (as_dict f) name = Some (Some v')) \<longleftrightarrow> m \<le> int k" unfolding ready_at_def by fast
  then show "int k < m \<Longrightarrow> v = None" using assms(3) by (cases v) auto
qed

lemma after_age: "mk_pipeline p = Inr s \<Longrightarrow> pl_brk (after lg s bs) = Some (r, q, k) \<Longrightarrow> 0 \<le> k"
proof (induction bs arbitrary: r q k rule: rev_induct)
  case Nil
  then show ?case by (auto elim!: mk_pipeline_InrE)
next
  case (snoc b bs)
  from snoc.prems(2) have "breakout (pl_brk (after lg s bs)) (md_value (pl_dmax (after lg s bs))) (md_value (pl_dmin (after lg s bs))) (fb_c b) = Some (r, q, k)"
    by (simp add: pipe_update_channel)
  then show ?case using snoc.IH [OF snoc.prems(1)]
    by (auto simp: breakout_def split: option.splits if_splits intro!: f64.rnd_nonneg add_nonneg_nonneg)
qed

definition weights_finite :: "det_cfg \<Rightarrow> bool" where
  "weights_finite c \<longleftrightarrow> (\<forall>w \<in> {xc_es_weight c, xc_dn_weight c, xc_rx_weight c, xc_bz_weight c, xc_cg_weight c, xc_vr_weight c}. f_isfinite w)"

lemma weight_cases: "f_le (Fin 0) w \<Longrightarrow> f_isfinite w \<Longrightarrow> \<exists>x. w = Fin x \<and> 0 \<le> x"
  by (cases w) auto

lemma weight_choice:
  assumes "\<exists>x. a = Fin x \<and> 0 \<le> x" "\<exists>x. b = Fin x \<and> 0 \<le> x" "\<exists>x. c = Fin x \<and> 0 \<le> x" "\<exists>x. d = Fin x \<and> 0 \<le> x" "\<exists>x. e = Fin x \<and> 0 \<le> x" "\<exists>x. f = Fin x \<and> 0 \<le> x"
  obtains xs :: "nat \<Rightarrow> rat" where "a = Fin (xs 1)" "b = Fin (xs 2)" "c = Fin (xs 3)" "d = Fin (xs 4)" "e = Fin (xs 5)" "f = Fin (xs 6)" "\<forall>i. 0 \<le> xs i"
proof -
  obtain p q r s t u where v: "a = Fin p" "b = Fin q" "c = Fin r" "d = Fin s" "e = Fin t" "f = Fin u" "0 \<le> p" "0 \<le> q" "0 \<le> r" "0 \<le> s" "0 \<le> t" "0 \<le> u"
    using assms by blast
  show thesis
    by (rule that [of "\<lambda>i. if i = 1 then p else if i = 2 then q else if i = 3 then r else if i = 4 then s else if i = 5 then t else u"]) (use v in simp_all)
qed

lemma f64_pos_const: "f64 (4 / 5) \<noteq> 0" "0 < f64 (4 / 5)" "0 \<le> f64 (3 / 5)" "0 \<le> f64 (2 / 5)" "f64 (1 / 10) \<noteq> 0"
proof -
  have h: "f64 (1 / 2 ^ 1) = 1 / 2 ^ 1" "f64 (1 / 2 ^ 4) = 1 / 2 ^ 4" using f64_dyadic [of 1 1] f64_dyadic [of 1 4] by simp_all
  have "f64 (1 / 2 ^ 1) \<le> f64 (4 / 5)" "f64 (1 / 2 ^ 4) \<le> f64 (1 / 10)" by (rule f64.rnd_mono, simp)+
  with h show "f64 (4 / 5) \<noteq> 0" "0 < f64 (4 / 5)" "f64 (1 / 10) \<noteq> 0" by auto
qed (simp_all add: f64.rnd_nonneg)

text \<open>C12: The ensemble built from a configuration with finite weights has the six detectors in their fixed order, and after any run of the pipeline and the window every one of
  them returns (it raises nothing): strength in [-1, 1], confidence in [0, 1], under its own name; and before the number of bars it
  announces as its warm-up it contributes nothing (strength 0 and confidence 0).\<close>

theorem detectors_sound:
  assumes "build_detectors fm cfg = Inr ds" and "math_ok fm" and "weights_finite cfg"
    and "mk_pipeline (params_of_cfg cfg) = Inr s" and "window_init cap = Inr w0"
  shows "map de_name ds = DETECTOR_NAMES
    \<and> (\<forall>d \<in> set ds. \<exists>x. de_compute d (foldl window_append w0 (history lg s (bs @ [b]))) = Inr x \<and> do_name x = de_name d
         \<and> - 1 \<le> do_s x \<and> do_s x \<le> 1 \<and> 0 \<le> do_c x \<and> do_c x \<le> 1
         \<and> (int (length bs) + 1 < de_warmup d \<longrightarrow> do_s x = 0 \<and> do_c x = 0))"
proof -
  let ?p = "params_of_cfg cfg" and ?w = "foldl window_append w0 (history lg s (bs @ [b]))" and ?f = "snd (pipe_update lg (after lg s bs) b)" and ?k = "Suc (length bs)"
  let ?dn = "mk_donchian (xc_dn_weight cfg) (xc_dn_decay cfg) ?p" and ?rx = "mk_rsi_exhaustion (xc_rx_weight cfg) (xc_rx_power cfg) ?p"
    and ?bz = "mk_bollinger_z (xc_bz_weight cfg) (xc_bz_z_scale cfg) ?p" and ?cg = "mk_candle_geometry (xc_cg_weight cfg) (xc_cg_w_pin cfg) (xc_cg_w_engulf cfg) ?p"
    and ?vr = "mk_vol_regime (xc_vr_weight cfg) ?p"
  have ok: "det_cfg_ok cfg" using assms(1) by (auto simp: build_detectors_def split: if_splits)
  obtain es where es: "mk_ema_slope (xc_es_weight cfg) (nat (xc_horizon cfg)) (xc_es_scale cfg) ?p = Inr es"
    using assms(1) ok by (auto simp: build_detectors_def Let_def rbind_Inr_iff)
  have esf: "es_weight es = xc_es_weight cfg" "es_scale es = xc_es_scale cfg" "es_warmup es = max (max (need ?p ''ema_lag'') (need ?p ''ema_r2'')) (need ?p ''atr'')"
    using es by (auto simp: mk_ema_slope_def split: if_splits)
  note r = window_run_reads [OF assms(5) refl, of lg s bs b]
  have inv: "pipe_inv (length bs) (after lg s bs)" "pl_params (after lg s bs) = ?p" using after_inv [OF assms(4)] by simp_all
  have ready: "ready_at ?k ?p ?f" using pipe_update_ready [OF inv(1), of lg b] inv(2) by simp
  have age: "\<forall>k. ft_bars_since ?f = Some k \<longrightarrow> 0 \<le> k"
    using after_age [OF assms(4), of lg "bs @ [b]"] by (auto simp: pipe_update_channel)
  have wt: "\<exists>x. xc_es_weight cfg = Fin x \<and> 0 \<le> x" "\<exists>x. xc_dn_weight cfg = Fin x \<and> 0 \<le> x" "\<exists>x. xc_rx_weight cfg = Fin x \<and> 0 \<le> x"
    "\<exists>x. xc_bz_weight cfg = Fin x \<and> 0 \<le> x" "\<exists>x. xc_cg_weight cfg = Fin x \<and> 0 \<le> x" "\<exists>x. xc_vr_weight cfg = Fin x \<and> 0 \<le> x"
    using ok assms(3) by (simp_all add: det_cfg_ok_def weights_finite_def weight_cases)
  have q: "0 < xc_es_scale cfg" "0 \<le> xc_dn_decay cfg" "0 < xc_rx_power cfg" "0 < xc_bz_z_scale cfg" using ok by (simp_all add: det_cfg_ok_def)
  have cold: "int ?k < need ?p nm \<Longrightarrow> v = None" if "dget (warmup ?p) nm = Some (need ?p nm)" "dget (as_dict ?f) nm = Some v" for nm v
    using ready_atD [OF ready that] .
  have names: "dget (warmup ?p) ''ema_lag'' = Some (need ?p ''ema_lag'')" "dget (warmup ?p) ''ema_r2'' = Some (need ?p ''ema_r2'')" "dget (warmup ?p) ''atr'' = Some (need ?p ''atr'')"
    "dget (warmup ?p) ''rsi_delta'' = Some (need ?p ''rsi_delta'')" "dget (warmup ?p) ''close_delta'' = Some (need ?p ''close_delta'')"
    "dget (warmup ?p) ''donch_hi'' = Some (need ?p ''donch_hi'')" "dget (warmup ?p) ''bb_bw_rank'' = Some (need ?p ''bb_bw_rank'')" "dget (warmup ?p) ''vol_rank'' = Some (need ?p ''vol_rank'')"
    by (simp_all add: need_def warmup_def Let_def)
  have vals: "dget (as_dict ?f) ''ema_lag'' = Some (ft_ema_lag ?f)" "dget (as_dict ?f) ''ema_r2'' = Some (ft_ema_r2 ?f)" "dget (as_dict ?f) ''atr'' = Some (ft_atr ?f)"
    "dget (as_dict ?f) ''rsi_delta'' = Some (ft_rsi_delta ?f)" "dget (as_dict ?f) ''close_delta'' = Some (ft_close_delta ?f)"
    "dget (as_dict ?f) ''donch_hi'' = Some (ft_donch_hi ?f)" "dget (as_dict ?f) ''bb_bw_rank'' = Some (ft_bb_bw_rank ?f)" "dget (as_dict ?f) ''vol_rank'' = Some (ft_vol_rank ?f)"
    by (simp_all add: as_dict_def)
  note c = cold [OF names(1) vals(1)] cold [OF names(2) vals(2)] cold [OF names(3) vals(3)] cold [OF names(4) vals(4)] cold [OF names(5) vals(5)] cold [OF names(6) vals(6)]
    cold [OF names(7) vals(7)] cold [OF names(8) vals(8)]
  obtain xs :: "nat \<Rightarrow> rat" where x: "xc_es_weight cfg = Fin (xs 1)" "xc_dn_weight cfg = Fin (xs 2)" "xc_rx_weight cfg = Fin (xs 3)" "xc_bz_weight cfg = Fin (xs 4)" "xc_cg_weight cfg = Fin (xs 5)"
    "xc_vr_weight cfg = Fin (xs 6)" "\<forall>i. 0 \<le> xs i"
    by (rule weight_choice [OF wt])
  have v1: "valid_output ''ema_slope'' (ema_slope_compute fm es ?w) (int ?k < es_warmup es)"
    by (rule valid_output_mono, rule ema_slope_valid [OF assms(2) _ x(7) [rule_format, of 1] _ r(1)]) (use c q x in \<open>auto simp: esf less_max_iff_disj\<close>)
  have v2: "valid_output ''donchian'' (donchian_compute fm ?dn ?w) (int ?k < dn_warmup ?dn)"
    by (rule valid_output_mono, rule donchian_valid [OF assms(2) _ x(7) [rule_format, of 2] _ _ _ r(1,2) age]) (use c q x in \<open>auto simp: mk_donchian_def less_max_iff_disj\<close>)
  have v3: "valid_output ''rsi_exhaustion'' (rsi_compute fm ?rx ?w) (int ?k < rx_warmup ?rx)"
    by (rule valid_output_mono, rule rsi_valid [OF assms(2) _ x(7) [rule_format, of 3] _ _ _ _ _ _ r(1,2)]) (use c q x f64_pos_const in \<open>auto simp: mk_rsi_exhaustion_def less_max_iff_disj\<close>)
  have v4: "valid_output ''bollinger_z'' (bollinger_compute fm ?bz ?w) (int ?k < bz_warmup ?bz)"
    by (rule valid_output_mono, rule bollinger_valid [OF assms(2) _ x(7) [rule_format, of 4] _ r(1,2)]) (use c q x in \<open>auto simp: mk_bollinger_z_def less_max_iff_disj\<close>)
  have v5: "valid_output ''candle_geometry'' (candle_compute fm ?cg ?w) (int ?k < cg_warmup ?cg)"
    by (rule valid_output_mono, rule candle_valid [OF _ x(7) [rule_format, of 5] r(1-3)]) (use c q x r(4) in \<open>auto simp: mk_candle_geometry_def less_max_iff_disj\<close>)
  have v6: "valid_output ''vol_regime'' (vol_compute ?vr ?w) (int ?k < vr_warmup ?vr)"
    by (rule valid_output_mono, rule vol_valid [OF _ x(7) [rule_format, of 6] r(1)]) (use c q x in \<open>auto simp: mk_vol_regime_def less_max_iff_disj\<close>)
  have ds: "ds = [\<lparr>de_name = ''ema_slope'', de_warmup = es_warmup es, de_compute = ema_slope_compute fm es\<rparr>,
     \<lparr>de_name = ''donchian'', de_warmup = dn_warmup ?dn, de_compute = donchian_compute fm ?dn\<rparr>, \<lparr>de_name = ''rsi_exhaustion'', de_warmup = rx_warmup ?rx, de_compute = rsi_compute fm ?rx\<rparr>,
     \<lparr>de_name = ''bollinger_z'', de_warmup = bz_warmup ?bz, de_compute = bollinger_compute fm ?bz\<rparr>, \<lparr>de_name = ''candle_geometry'', de_warmup = cg_warmup ?cg, de_compute = candle_compute fm ?cg\<rparr>,
     \<lparr>de_name = ''vol_regime'', de_warmup = vr_warmup ?vr, de_compute = vol_compute ?vr\<rparr>]"
    using assms(1) ok es by (simp add: build_detectors_def Let_def)
  have "\<forall>d \<in> set ds. valid_output (de_name d) (de_compute d ?w) (int ?k < de_warmup d)"
    unfolding ds using v1 v2 v3 v4 v5 v6 by simp
  moreover have "map de_name ds = DETECTOR_NAMES" using assms(1) ok es by (auto simp: build_detectors_def Let_def DETECTOR_NAMES_def)
  ultimately show ?thesis by (auto simp: valid_output_def add.commute)
qed

definition ex_math :: fmath where
  "ex_math = \<lparr>fm_tanh = \<lambda>x. max (- 1) (min 1 x), fm_exp = \<lambda>x. if x \<le> 0 then 1 / (1 - x) else 1 + x, fm_pow = \<lambda>a q. a\<rparr>"

definition ex_cfg :: det_cfg where
  "ex_cfg = \<lparr>xc_es_weight = Fin 1, xc_n_ema = 21, xc_horizon = 5, xc_es_scale = 1, xc_r2_points = 5, xc_dn_weight = Fin 1, xc_dn_n = 20, xc_dn_decay = 0,
     xc_rx_weight = Fin 1, xc_rx_n = 14, xc_rx_power = 1, xc_rx_div_lookback = 14, xc_bz_weight = Fin 1, xc_bz_n = 20, xc_bz_k = 2, xc_bz_z_scale = 2,
     xc_bz_rank_window = 200, xc_cg_weight = Fin 1, xc_cg_w_pin = 1, xc_cg_w_engulf = 1, xc_vr_weight = Fin 0, xc_vr_window = 24, xc_vr_rank_window = 500,
     xc_n_atr = 14, xc_volume_window = 60\<rparr>"

theorem detectors_sound_witness:
  "\<exists>ds s w0. build_detectors ex_math ex_cfg = Inr ds \<and> mk_pipeline (params_of_cfg ex_cfg) = Inr s \<and> window_init 2 = Inr w0 \<and> map de_name ds = DETECTOR_NAMES
     \<and> (\<forall>d \<in> set ds. \<exists>x. de_compute d (foldl window_append w0 (history (\<lambda>x. 0) s [ex_fbar 8 6 7, ex_fbar 9 5 7])) = Inr x \<and> - 1 \<le> do_s x \<and> do_c x \<le> 1)"
proof -
  obtain ds where ds: "build_detectors ex_math ex_cfg = Inr ds"
    by (simp add: build_detectors_def det_cfg_ok_def ex_cfg_def mk_ema_slope_def params_of_cfg_def Let_def)
  obtain s where s: "mk_pipeline (params_of_cfg ex_cfg) = Inr s"
    by (simp add: ex_cfg_def params_of_cfg_def mk_pipeline_def default_params_def mk_ema_def mk_ols_def mk_atr_def mk_rsi_def mk_welford_def mk_rank_def mk_mono_def mk_parkinson_def)
  obtain w0 where w0: "window_init 2 = (Inr w0 :: window result)" by (simp add: window_init_def)
  have m: "math_ok ex_math" by (auto simp: math_ok_def ex_math_def)
  have f: "weights_finite ex_cfg" by (simp add: weights_finite_def ex_cfg_def)
  show ?thesis
    using detectors_sound [OF ds m f s w0, of "\<lambda>x. 0" "[ex_fbar 8 6 7]" "ex_fbar 9 5 7"] ds s w0 by force
qed

end
