(* ===== verification/Engine.thy ===== *)
theory Engine
  imports Router RiskGuard Sizing DetectorProps
begin

text \<open>
  \<^verbatim>\<open>backtest/engine.py\<close>, class \<^verbatim>\<open>TradingLoop\<close>: the step of one closed bar through every component: the broker executes what
  was submitted at the previous close, the account books it, the features, the volatility target and the risk machine see
  the bar, and the decision at its close becomes orders. The configuration is the parsed one. The mutable records of orders
  and positions, which several collections of the code share, live in one table each and are named by identifier and by
  index. \<^verbatim>\<open>EngineInvariantError\<close> is the \<^verbatim>\<open>AssertionError\<close> it extends. After an exception of a step the loop is not used again.
\<close>

section \<open>Records\<close>

datatype record_mode = RM_ALL | RM_TRADES | RM_NONE

record order_record =
  oc_request :: order_request
  oc_decision_ns :: "int option"
  oc_role :: string
  oc_status :: order_status
  oc_reject_code :: "reject_code option"
  oc_venue_order_id :: "nat option"
  oc_ts_created_ns :: int
  oc_filled_qty :: dec
  oc_avg_fill_price :: "dec option"
  oc_fee :: dec
  oc_slippage_bps :: "dec option"
  oc_liquidity :: "liquidity option"
  oc_ts_filled_ns :: "int option"
  oc_intent_reason :: "exit_reason option"

record position_record =
  pr_instrument :: string
  pr_side :: int
  pr_opened_at_ns :: int
  pr_opening_decision_ns :: "int option"
  pr_avg_entry :: dec
  pr_qty :: dec
  pr_leverage :: "dec option"
  pr_allocated_margin :: dec
  pr_stop_price :: "dec option"
  pr_tp_price :: "dec option"
  pr_liq_price :: "dec option"
  pr_closed_at_ns :: "int option"
  pr_exit_reason :: "exit_reason option"
  pr_realized_pnl :: "dec option"
  pr_funding_paid :: "dec option"
  pr_fees :: "dec option"
  pr_max_adverse_excursion :: "dec option"
  pr_exit_price :: "dec option"

record entry_meta =
  em_decision_ns :: int
  em_stop :: "dec option"
  em_tp :: "dec option"

record decision_entry =
  di_open_time_ns :: int
  di_decided_at_ns :: int
  di_u_raw :: rat
  di_kappa :: rat
  di_u_final :: rat
  di_gate_side :: int
  di_current_qty :: dec
  di_requested_qty :: "dec option"
  di_target_side :: int
  di_target_qty :: dec
  di_binding :: "binding_constraint option"
  di_stop_price :: "dec option"
  di_tp_price :: "dec option"
  di_liq_price :: "dec option"
  di_action :: string
  di_verdict :: "verdict_kind option"
  di_order_ids :: "uuid list"
  di_trace :: "decision_trace option"

record equity_point =
  ep_ts_ns :: int
  ep_equity :: dec
  ep_cash :: dec
  ep_unrealized :: dec
  ep_gross_exposure :: dec
  ep_leverage :: "dec option"
  ep_drawdown :: dec
  ep_risk_state :: risk_state
  ep_kappa :: dec
  ep_position_qty :: dec

record step_result =
  sx_index :: int
  sx_open_time_ns :: int
  sx_close_time_ns :: int
  sx_equity :: dec
  sx_position_qty :: dec
  sx_risk_state :: risk_state
  sx_kappa_mode :: dec
  sx_decided :: bool
  sx_fills :: "fill list"
  sx_funding :: "funding_charge list"
  sx_decision :: "decision_entry option"
  sx_orders :: "uuid list"
  sx_opened :: "nat list"
  sx_closed :: "nat list"
  sx_risk_events :: "risk_event_record list"
  sx_transition :: "transition option"
  sx_equity_point :: "equity_point option"
  sx_order_updates :: "uuid list"

text \<open>What is handed to the event journal of the run, when one is attached.\<close>

datatype engine_event =
    EvOrder order_request order_status "reject_code option" string
  | EvFill fill "exit_reason option"
  | EvDecision int dec string dec dec dec verdict_kind "uuid list"

section \<open>The loop\<close>

record loop_cfg =
  lp_instrument :: instrument
  lp_tp_multiple :: rat
  lp_record :: record_mode
  lp_keep :: bool
  lp_check :: bool
  lp_tol :: dec
  lp_funding_fallback :: dec
  lp_funding_match_ns :: int
  lp_decide_from :: int
  lp_core :: "window decision_core"
  lp_sizing :: sizing_params

record loop_env =
  le_broker :: broker_env
  le_math :: math_env
  le_log :: "rat \<Rightarrow> rat"
  le_median :: "rat list \<Rightarrow> rat"

text \<open>The lists kept over a run.\<close>

record kept =
  kp_equity :: "dec list"
  kp_equity_ts :: "int list"
  kp_position_series :: "dec list"
  kp_equity_points :: "equity_point list"
  kp_decisions :: "decision_entry list"
  kp_orders :: "uuid list"
  kp_fills :: "fill list"
  kp_funding :: "funding_charge list"
  kp_positions :: "nat list"
  kp_risk_events :: "risk_event_record list"
  kp_transitions :: "transition list"

record trading_loop =
  tl_index :: int
  tl_clock :: int
  tl_prev_close :: "rat option"
  tl_sigma_ann :: pyfloat
  tl_sigma_hist :: "rat list"
  tl_sigma_base :: "rat option"
  tl_funding :: "(int \<times> dec) list"
  tl_funding_ptr :: nat
  tl_last_open :: "int option"
  tl_orders :: "(uuid, order_record) dict"
  tl_open_orders :: "uuid list"
  tl_touched :: "uuid list"
  tl_reason :: "(uuid, exit_reason) dict"
  tl_entries :: "(uuid, entry_meta) dict"
  tl_positions :: "position_record list"
  tl_open_pos :: "nat option"
  tl_halt_index :: "int option"
  tl_pipe :: pipeline
  tl_window :: window
  tl_vt :: vol_target
  tl_gate :: hysteresis_gate
  tl_fsm :: fsm
  tl_guard :: risk_guard
  tl_broker :: broker
  tl_router :: router
  tl_portfolio :: portfolio
  tl_step_transition :: "transition option"
  tl_events :: "engine_event list option"
  tl_kept :: kept

abbreviation lp_sym :: "loop_cfg \<Rightarrow> string" where "lp_sym C \<equiv> in_symbol_canon (lp_instrument C)"
abbreviation lp_tick :: "loop_cfg \<Rightarrow> quantum" where "lp_tick C \<equiv> in_tick_size (lp_instrument C)"
abbreviation lp_step :: "loop_cfg \<Rightarrow> quantum" where "lp_step C \<equiv> in_step_size (lp_instrument C)"
abbreviation lp_lev :: "loop_cfg \<Rightarrow> dec" where "lp_lev C \<equiv> of_int (in_max_leverage (lp_instrument C))"
abbreviation le_cx :: "loop_env \<Rightarrow> dctx" where "le_cx E \<equiv> en_cx (le_broker E)"

definition final_status :: "order_status \<Rightarrow> bool" where
  "final_status s \<longleftrightarrow> s \<in> {OS_FILLED, OS_REJECTED, OS_CANCELED}"

definition kept_init :: kept where
  "kept_init = \<lparr>kp_equity = [], kp_equity_ts = [], kp_position_series = [], kp_equity_points = [], kp_decisions = [], kp_orders = [], kp_fills = [],
     kp_funding = [], kp_positions = [], kp_risk_events = [], kp_transitions = []\<rparr>"

text \<open>The construction, from the components the configuration yields.\<close>

definition loop_init :: "loop_env \<Rightarrow> loop_cfg \<Rightarrow> feature_params \<Rightarrow> vol_params \<Rightarrow> pyfloat \<Rightarrow> pyfloat \<Rightarrow> sm_cfg \<Rightarrow> limits_cfg \<Rightarrow> cost_model
    \<Rightarrow> dec \<Rightarrow> nat option \<Rightarrow> bool \<Rightarrow> trading_loop result" where
  "loop_init E C fp vp enter ex sm limits cost cash run_id journalled =
     rbind (mk_pipeline fp) (\<lambda>pl. rbind (window_init (max MIN_WINDOW_CAPACITY 8)) (\<lambda>w. rbind (mk_vol_target vp) (\<lambda>vt. rbind (mk_gate enter ex FLAT) (\<lambda>g.
     rbind (default_rules (le_cx E) limits) (\<lambda>rules.
     rbind (mk_risk_guard rules \<lparr>rj_run_id = run_id, rj_sink = Some [], rj_events = (if journalled then Some [] else None), rj_keep = False, rj_count = 0,
              rj_records = []\<rparr> (Some killswitch_init) True (sm_cooldown_policy sm)) (\<lambda>rg.
     rbind (broker_init (le_cx E) cost [lp_instrument C] DEFAULT_VOL_LAMBDA DEFAULT_FUNDING_RATE) (\<lambda>b0.
     rbind (set_funding_rate b0 (lp_sym C) (lp_funding_fallback C)) (\<lambda>b. rbind (portfolio_init cash) (\<lambda>pf.
       Inr \<lparr>tl_index = - 1, tl_clock = 0, tl_prev_close = None, tl_sigma_ann = NaN, tl_sigma_hist = [], tl_sigma_base = None, tl_funding = [],
            tl_funding_ptr = 0, tl_last_open = None, tl_orders = [], tl_open_orders = [], tl_touched = [], tl_reason = [], tl_entries = [],
            tl_positions = [], tl_open_pos = None, tl_halt_index = None, tl_pipe = pl, tl_window = w, tl_vt = vt, tl_gate = g, tl_fsm = fsm_init sm,
            tl_guard = rg, tl_broker = b, tl_router = router_init, tl_portfolio = pf, tl_step_transition = None,
            tl_events = (if journalled then Some [] else None), tl_kept = kept_init\<rparr>)))))))))"

definition clock_set :: "trading_loop \<Rightarrow> int \<Rightarrow> trading_loop result" where
  "clock_set L t = (if t < tl_clock L then Inl ValueError else Inr (L\<lparr>tl_clock := t\<rparr>))"

definition next_uuid :: "loop_env \<Rightarrow> trading_loop \<Rightarrow> uuid \<times> trading_loop" where
  "next_uuid E L = (en_ids (le_broker E) (br_drawn_ids (tl_broker L)), L\<lparr>tl_broker := (tl_broker L)\<lparr>br_drawn_ids := br_drawn_ids (tl_broker L) + 1\<rparr>\<rparr>)"

definition log_event :: "trading_loop \<Rightarrow> engine_event \<Rightarrow> trading_loop" where
  "log_event L e = L\<lparr>tl_events := map_option (\<lambda>es. es @ [e]) (tl_events L)\<rparr>"

text \<open>The records of the risk chain not yet handed over are those its journal put into the sink.\<close>

definition step_risk :: "trading_loop \<Rightarrow> risk_event_record list" where
  "step_risk L = (case rj_sink (rg_journal (tl_guard L)) of None \<Rightarrow> [] | Some rs \<Rightarrow> rs)"

definition clear_step_risk :: "trading_loop \<Rightarrow> trading_loop" where
  "clear_step_risk L = L\<lparr>tl_guard := (tl_guard L)\<lparr>rg_journal := (rg_journal (tl_guard L))\<lparr>rj_sink := map_option (\<lambda>_. []) (rj_sink (rg_journal (tl_guard L)))\<rparr>\<rparr>\<rparr>"

definition on_transition :: "loop_cfg \<Rightarrow> trading_loop \<Rightarrow> transition option \<Rightarrow> trading_loop" where
  "on_transition C L tr = (case tr of None \<Rightarrow> L
     | Some t \<Rightarrow> L\<lparr>tl_guard := (tl_guard L)\<lparr>rg_journal := record_transition (rg_journal (tl_guard L)) t (Some (lp_sym C))\<rparr>, tl_step_transition := Some t\<rparr>)"

section \<open>Commands between bars\<close>

definition set_funding_series :: "trading_loop \<Rightarrow> (int list \<times> pyfloat list) option \<Rightarrow> trading_loop result" where
  "set_funding_series L series =
     (case series of None \<Rightarrow> Inr (L\<lparr>tl_funding := []\<rparr>)
      | Some (ts, xs) \<Rightarrow> rbind (mapres float_to_decimal_exact xs) (\<lambda>rs.
          if length ts \<noteq> length rs then Inl ValueError else Inr (L\<lparr>tl_funding := zip ts rs, tl_funding_ptr := 0\<rparr>)))"

definition release_halt :: "loop_env \<Rightarrow> loop_cfg \<Rightarrow> trading_loop \<Rightarrow> role \<Rightarrow> string option \<Rightarrow> (trading_loop \<times> transition option) result" where
  "release_halt E C L actor_role actor =
     rbind (fsm_release (le_cx E) (Some (tl_clock L)) (tl_fsm L) actor_role actor) (\<lambda>(m, tr).
       let L1 = on_transition C (L\<lparr>tl_fsm := m, tl_guard := (tl_guard L)\<lparr>rg_killswitch := Some (fs_killswitch m)\<rparr>\<rparr>) tr in
       Inr (case tr of None \<Rightarrow> L1
            | Some t \<Rightarrow> if lp_keep C then L1\<lparr>tl_kept := (tl_kept L1)\<lparr>kp_transitions := kp_transitions (tl_kept L1) @ [t]\<rparr>\<rparr> else L1, tr))"

definition take_pending_risk_events :: "loop_cfg \<Rightarrow> trading_loop \<Rightarrow> trading_loop \<times> risk_event_record list" where
  "take_pending_risk_events C L =
     (let out = step_risk L; L1 = clear_step_risk L in
      (if lp_keep C then L1\<lparr>tl_kept := (tl_kept L1)\<lparr>kp_risk_events := kp_risk_events (tl_kept L1) @ out\<rparr>\<rparr> else L1, out))"

text \<open>New limits and thresholds; without a policy of its own the section keeps the policy of the run.\<close>

definition apply_risk_limits :: "loop_env \<Rightarrow> trading_loop \<Rightarrow> limits_cfg \<Rightarrow> cooldown_policy option \<Rightarrow> sm_cfg \<Rightarrow> trading_loop result" where
  "apply_risk_limits E L limits policy sm =
     (let sm' = sm\<lparr>sm_cooldown_policy := (case policy of None \<Rightarrow> sm_cooldown_policy (fs_cfg (tl_fsm L)) | Some p \<Rightarrow> p)\<rparr> in
      if \<not> sm_cfg_ok sm' \<or> mk_limits_cfg limits \<noteq> Inr limits then Inl ConfigValidationError
      else rbind (default_rules (le_cx E) limits) (\<lambda>rules.
        rbind (mk_risk_guard rules (rg_journal (tl_guard L)) (Some (fs_killswitch (tl_fsm L))) True (sm_cooldown_policy sm')) (\<lambda>rg.
          Inr (L\<lparr>tl_guard := rg, tl_fsm := (tl_fsm L)\<lparr>fs_cfg := sm'\<rparr>\<rparr>))))"

section \<open>Executions and the account\<close>

definition match_window :: "loop_cfg \<Rightarrow> int" where
  "match_window C = (if lp_funding_match_ns C = 0 then NS_PER_MIN else lp_funding_match_ns C)"

definition apply_funding_rate :: "loop_cfg \<Rightarrow> trading_loop \<Rightarrow> int \<Rightarrow> int \<Rightarrow> trading_loop result" where
  "apply_funding_rate C L t_open close_ns =
     (case tl_last_open L of None \<Rightarrow> Inl AssertionError
      | Some lo \<Rightarrow>
          let moments = funding_times (br_cost (tl_broker L)) lo t_open in
          if moments = [] then Inr L
          else let m = last moments; horizon = min (m + match_window C) close_ns; series = tl_funding L;
                   p = tl_funding_ptr L + length (takeWhile (\<lambda>x. fst x \<le> horizon) (drop (tl_funding_ptr L) series));
                   rate = (if 0 < p \<and> m - match_window C < fst (series ! (p - 1)) then snd (series ! (p - 1)) else lp_funding_fallback C)
               in rbind (set_funding_rate (tl_broker L) (lp_sym C) rate) (\<lambda>b. Inr (L\<lparr>tl_funding_ptr := p, tl_broker := b\<rparr>)))"

definition lower_char :: "char \<Rightarrow> char" where
  "lower_char c = (let n = (of_char c :: nat) in if 65 \<le> n \<and> n \<le> 90 then char_of (n + 32) else c)"

text \<open>The record of the order of a fill; an order the broker made itself gets its record here.\<close>

definition record_for_fill :: "trading_loop \<Rightarrow> fill \<Rightarrow> order_record result" where
  "record_for_fill L f =
     (case dget (tl_orders L) (fl_client_order_id f) of
        Some r \<Rightarrow> Inr r
      | None \<Rightarrow> (case order_request_of (tl_broker L) (fl_client_order_id f) of
          None \<Rightarrow> Inl AssertionError
        | Some req \<Rightarrow> Inr \<lparr>oc_request = req, oc_decision_ns = (case tl_open_pos L of None \<Rightarrow> None | Some k \<Rightarrow> pr_opening_decision_ns (tl_positions L ! k)),
            oc_role = map lower_char (case or_decision_ref req of None \<Rightarrow> ''tp'' | Some x \<Rightarrow> if x = '''' then ''tp'' else x), oc_status = OS_NEW, oc_reject_code = None,
            oc_venue_order_id = fl_venue_order_id f, oc_ts_created_ns = or_ts_created_ns req, oc_filled_qty = 0, oc_avg_fill_price = None, oc_fee = 0,
            oc_slippage_bps = None, oc_liquidity = None, oc_ts_filled_ns = None, oc_intent_reason = None\<rparr>))"

definition fill_record :: "dctx \<Rightarrow> order_record \<Rightarrow> fill \<Rightarrow> order_record result" where
  "fill_record cx r f =
     (let q = dadd cx (oc_filled_qty r) (fl_qty f) in
      rbind (case oc_avg_fill_price r of None \<Rightarrow> Inr (fl_price f)
             | Some a \<Rightarrow> ddiv_trap cx (dadd cx (dmul cx a (oc_filled_qty r)) (dmul cx (fl_price f) (fl_qty f))) q) (\<lambda>avg.
        Inr (r\<lparr>oc_avg_fill_price := Some avg, oc_filled_qty := q, oc_fee := dadd cx (oc_fee r) (fl_fee f), oc_slippage_bps := Some (fl_slippage_bps f),
               oc_liquidity := Some (fl_liquidity f), oc_ts_filled_ns := Some (fl_ts_fill_ns f),
               oc_status := (if or_qty (oc_request r) \<le> q then OS_FILLED else OS_PARTIAL)\<rparr>)))"

definition open_position :: "loop_env \<Rightarrow> loop_cfg \<Rightarrow> trading_loop \<Rightarrow> fill \<Rightarrow> dec \<Rightarrow> trading_loop result" where
  "open_position E C L f qty =
     (let cx = le_cx E; pf = tl_portfolio L; meta = dget (tl_entries L) (fl_client_order_id f) in
      case dget (pf_positions pf) (lp_sym C) of None \<Rightarrow> Inl KeyError
      | Some pos \<Rightarrow>
          let avg = (case avg_entry cx pos of None \<Rightarrow> fl_price f | Some a \<Rightarrow> a); notional = dmul cx (dabs cx qty) avg in
          rbind (equity cx pf) (\<lambda>eq. rbind (ddiv_trap cx notional (lp_lev C)) (\<lambda>margin.
            let r = \<lparr>pr_instrument = lp_sym C, pr_side = sign_of qty, pr_opened_at_ns = fl_ts_fill_ns f, pr_opening_decision_ns = map_option em_decision_ns meta,
                     pr_avg_entry = avg, pr_qty = dabs cx qty, pr_leverage = (if eq \<le> 0 then None else Some (ddiv cx notional eq)),
                     pr_allocated_margin = margin, pr_stop_price = (case meta of None \<Rightarrow> None | Some m \<Rightarrow> em_stop m),
                     pr_tp_price = (case meta of None \<Rightarrow> None | Some m \<Rightarrow> em_tp m), pr_liq_price = None, pr_closed_at_ns = None, pr_exit_reason = None,
                     pr_realized_pnl = None, pr_funding_paid = None, pr_fees = None, pr_max_adverse_excursion = None, pr_exit_price = None\<rparr>
            in Inr (L\<lparr>tl_entries := ddel (tl_entries L) (fl_client_order_id f), tl_positions := tl_positions L @ [r],
                      tl_open_pos := Some (length (tl_positions L))\<rparr>))))"

definition close_position :: "dctx \<Rightarrow> trading_loop \<Rightarrow> closed_trade \<Rightarrow> (trading_loop \<times> nat) result" where
  "close_position cx L ct =
     (case tl_open_pos L of None \<Rightarrow> Inl AssertionError
      | Some k \<Rightarrow> Inr (L\<lparr>tl_open_pos := None, tl_positions := (tl_positions L)[k := (tl_positions L ! k)\<lparr>pr_qty := ct_qty ct, pr_avg_entry := ct_entry_price ct,
          pr_closed_at_ns := Some (ct_closed_at_ns ct), pr_exit_reason := ct_exit_reason ct, pr_realized_pnl := Some (dsub cx (ct_gross_pnl ct) (ct_fees ct)),
          pr_funding_paid := Some (ct_funding ct), pr_fees := Some (ct_fees ct), pr_max_adverse_excursion := Some (ct_max_adverse_excursion ct),
          pr_exit_price := Some (ct_exit_price ct)\<rparr>]\<rparr>, k))"

fun close_positions :: "dctx \<Rightarrow> trading_loop \<Rightarrow> closed_trade list \<Rightarrow> (trading_loop \<times> nat list) result" where
  "close_positions cx L [] = Inr (L, [])"
| "close_positions cx L (ct # cts) = rbind (close_position cx L ct) (\<lambda>(L1, k). rbind (close_positions cx L1 cts) (\<lambda>(L2, ks). Inr (L2, k # ks)))"

text \<open>What the executions of a bar leave: the loop and the positions opened, the positions closed and the new order records.\<close>

definition loop_apply_fill :: "loop_env \<Rightarrow> loop_cfg \<Rightarrow> trading_loop \<Rightarrow> fill \<Rightarrow> (trading_loop \<times> nat list \<times> nat list \<times> uuid list) result" where
  "loop_apply_fill E C L f =
     (let cx = le_cx E; c = fl_client_order_id f in
      rbind (record_for_fill L f) (\<lambda>r0. rbind (fill_record cx r0 f) (\<lambda>r.
        let fresh = (if dget (tl_orders L) c = None then [c] else []);
            L1 = L\<lparr>tl_orders := dset (tl_orders L) c r, tl_touched := c # tl_touched L\<rparr>;
            reason = (case exit_reason_of (tl_broker L) c of Some x \<Rightarrow> Some x | None \<Rightarrow> dget (tl_reason L) c);
            before = position_qty (tl_portfolio L) (lp_sym C)
        in rbind (apply_fill cx (tl_portfolio L) f reason) (\<lambda>(pf, trades).
             let L2 = L1\<lparr>tl_portfolio := pf\<rparr>; after = position_qty pf (lp_sym C) in
             rbind (close_positions cx L2 trades) (\<lambda>(L3, shut).
               rbind (if after \<noteq> 0 \<and> (before = 0 \<or> sign_of after \<noteq> sign_of before)
                      then rbind (open_position E C L3 f after) (\<lambda>L4. Inr (L4, [length (tl_positions L3)])) else Inr (L3, [])) (\<lambda>(L4, opened).
                 Inr (log_event L4 (EvFill f reason), opened, shut, fresh)))))))"

fun loop_apply_fills :: "loop_env \<Rightarrow> loop_cfg \<Rightarrow> trading_loop \<Rightarrow> fill list \<Rightarrow> (trading_loop \<times> nat list \<times> nat list \<times> uuid list) result" where
  "loop_apply_fills E C L [] = Inr (L, [], [], [])"
| "loop_apply_fills E C L (f # fs) = rbind (loop_apply_fill E C L f) (\<lambda>(L1, o1, c1, n1). rbind (loop_apply_fills E C L1 fs) (\<lambda>(L2, o2, c2, n2).
     Inr (L2, o1 @ o2, c1 @ c2, n1 @ n2)))"

text \<open>\<^verbatim>\<open>_sync_open_orders\<close>: the status of one watched order, then of all: the table, the orders still watched and the changed ones.\<close>

definition sync_record :: "broker \<Rightarrow> uuid list \<Rightarrow> uuid \<Rightarrow> order_record \<Rightarrow> order_record \<times> bool" where
  "sync_record b touched c r =
     (if final_status (oc_status r) then (r, c \<in> set touched)
      else case order_ack_of b c of
        Some ack \<Rightarrow> if oa_status ack \<noteq> oc_status r then (r\<lparr>oc_status := oa_status ack, oc_reject_code := oa_reject_code ack\<rparr>, True) else (r, c \<in> set touched)
      | None \<Rightarrow> (r, c \<in> set touched))"

fun sync_loop :: "broker \<Rightarrow> uuid list \<Rightarrow> (uuid, order_record) dict \<Rightarrow> uuid list \<Rightarrow> ((uuid, order_record) dict \<times> uuid list \<times> uuid list) result" where
  "sync_loop b touched os [] = Inr (os, [], [])"
| "sync_loop b touched os (c # cs) = (case dget os c of None \<Rightarrow> Inl KeyError
     | Some r \<Rightarrow> let (r', changed) = sync_record b touched c r in
         rbind (sync_loop b touched (dset os c r') cs) (\<lambda>(os', keep, out).
           Inr (os', if final_status (oc_status r') then keep else c # keep, if changed then c # out else out)))"

definition sync_open_orders :: "trading_loop \<Rightarrow> (trading_loop \<times> uuid list) result" where
  "sync_open_orders L = rbind (sync_loop (tl_broker L) (tl_touched L) (tl_orders L) (tl_open_orders L)) (\<lambda>(os, keep, out).
     Inr (L\<lparr>tl_orders := os, tl_open_orders := keep\<rparr>, out))"

definition refresh_liquidation :: "loop_env \<Rightarrow> loop_cfg \<Rightarrow> trading_loop \<Rightarrow> trading_loop result" where
  "refresh_liquidation E C L =
     (let cx = le_cx E; pf = tl_portfolio L in
      case dget (pf_positions pf) (lp_sym C) of None \<Rightarrow> Inl KeyError
      | Some pos \<Rightarrow> (case avg_entry cx pos of None \<Rightarrow> Inr L
          | Some entry \<Rightarrow>
              rbind (liq_price cx (ps_qty pos) entry (wallet_balance cx pf) (in_mmr (lp_instrument C)) (in_maint_amount (lp_instrument C))) (\<lambda>raw.
              rbind (if 0 < raw then rbind (quantize_price cx raw (lp_tick C)) (\<lambda>x. Inr (Some x)) else Inr None) (\<lambda>lp.
              rbind (set_liquidation_price (tl_broker L) (lp_sym C) lp) (\<lambda>b.
                let L1 = L\<lparr>tl_broker := b\<rparr> in
                Inr (case tl_open_pos L of None \<Rightarrow> L1
                     | Some k \<Rightarrow> if pr_liq_price (tl_positions L ! k) = None
                         then L1\<lparr>tl_positions := (tl_positions L)[k := (tl_positions L ! k)\<lparr>pr_liq_price := lp\<rparr>]\<rparr> else L1))))))"

definition check_accounting :: "loop_env \<Rightarrow> loop_cfg \<Rightarrow> trading_loop \<Rightarrow> bool \<Rightarrow> dec \<Rightarrow> unit result" where
  "check_accounting E C L latched exposure_before =
     (let cx = le_cx E; pf = tl_portfolio L; q = position_qty pf (lp_sym C) in
      rbind (identity_residual cx pf) (\<lambda>res.
        if lp_tol C < dabs cx res then Inl AssertionError
        else rbind (br_position (tl_broker L) (lp_sym C)) (\<lambda>p.
          if p \<noteq> q then Inl AssertionError
          else if latched \<and> exposure_before < dabs cx q then Inl AssertionError else Inr ())))"

text \<open>\<^verbatim>\<open>_cancel_pending_increases\<close>: the entries and reversals first, then the stops submitted with them.\<close>

fun cancel_increases :: "(uuid, order_record) dict \<Rightarrow> broker \<Rightarrow> (uuid, entry_meta) dict \<Rightarrow> uuid list
    \<Rightarrow> (broker \<times> (uuid, entry_meta) dict \<times> int option list) result" where
  "cancel_increases os b es [] = Inr (b, es, [])"
| "cancel_increases os b es (c # cs) = (case dget os c of None \<Rightarrow> Inl KeyError
     | Some r \<Rightarrow>
         if or_otype (oc_request r) = MARKET \<and> \<not> or_reduce_only (oc_request r)
         then rbind (cancel b c) (\<lambda>(b1, ok).
           if ok then rbind (cancel_increases os b1 (ddel es c) cs) (\<lambda>(b2, es2, ds). Inr (b2, es2, oc_decision_ns r # ds))
           else cancel_increases os b1 es cs)
         else cancel_increases os b es cs)"

fun cancel_stops :: "(uuid, order_record) dict \<Rightarrow> int option list \<Rightarrow> broker \<Rightarrow> uuid list \<Rightarrow> broker result" where
  "cancel_stops os ds b [] = Inr b"
| "cancel_stops os ds b (c # cs) = (case dget os c of None \<Rightarrow> Inl KeyError
     | Some r \<Rightarrow> if oc_role r = ''stop'' \<and> oc_decision_ns r \<in> set ds then rbind (cancel b c) (\<lambda>(b1, ok). cancel_stops os ds b1 cs)
         else cancel_stops os ds b cs)"

definition cancel_pending_increases :: "loop_env \<Rightarrow> loop_cfg \<Rightarrow> trading_loop \<Rightarrow> trading_loop result" where
  "cancel_pending_increases E C L =
     rbind (cancel_increases (tl_orders L) (tl_broker L) (tl_entries L) (tl_open_orders L)) (\<lambda>(b, es, ds).
       if ds = [] then Inr (L\<lparr>tl_broker := b, tl_entries := es\<rparr>)
       else rbind (cancel_stops (tl_orders L) ds b (tl_open_orders L)) (\<lambda>b2.
         rbind (set_take_profit (le_cx E) b2 (lp_sym C) None None) (\<lambda>b3. Inr (L\<lparr>tl_broker := b3, tl_entries := es\<rparr>))))"

section \<open>Orders\<close>

definition send_order :: "loop_env \<Rightarrow> trading_loop \<Rightarrow> order_request \<Rightarrow> int \<Rightarrow> string \<Rightarrow> exit_reason option \<Rightarrow> trading_loop result" where
  "send_order E L req decision_ns role reason =
     rbind (route (paper_venue (le_cx E) (tl_clock L)) (Some (tl_clock L)) (tl_router L, tl_broker L) req) (\<lambda>((r, b), ack).
       let c = or_client_order_id req;
           rec = \<lparr>oc_request = req, oc_decision_ns = Some decision_ns, oc_role = role, oc_status = oa_status ack, oc_reject_code = oa_reject_code ack,
                  oc_venue_order_id = oa_venue_order_id ack, oc_ts_created_ns = or_ts_created_ns req, oc_filled_qty = 0, oc_avg_fill_price = None,
                  oc_fee = 0, oc_slippage_bps = None, oc_liquidity = None, oc_ts_filled_ns = None, oc_intent_reason = reason\<rparr>;
           L1 = L\<lparr>tl_router := r, tl_broker := b, tl_orders := dset (tl_orders L) c rec,
                  tl_open_orders := (if \<not> final_status (oa_status ack) \<and> c \<notin> set (tl_open_orders L) then tl_open_orders L @ [c] else tl_open_orders L),
                  tl_reason := (case reason of Some x \<Rightarrow> if or_otype req = MARKET then dset (tl_reason L) c x else tl_reason L | None \<Rightarrow> tl_reason L)\<rparr>
       in Inr (log_event L1 (EvOrder req (oa_status ack) (oa_reject_code ack) role)))"

text \<open>\<^verbatim>\<open>_submit\<close>: the market order of the difference and, for a new side, the stop and the level of the take profit.\<close>

definition pure_reduction :: "dctx \<Rightarrow> dec \<Rightarrow> dec \<Rightarrow> bool" where
  "pure_reduction cx cur approved \<longleftrightarrow> sign_of approved = 0 \<or> (sign_of approved = sign_of cur \<and> dabs cx approved < dabs cx cur)"

definition opens_new :: "dec \<Rightarrow> dec \<Rightarrow> bool" where
  "opens_new cur approved \<longleftrightarrow> sign_of approved \<noteq> 0 \<and> sign_of approved \<noteq> sign_of cur"

definition send_entry :: "loop_env \<Rightarrow> loop_cfg \<Rightarrow> trading_loop \<Rightarrow> uuid \<Rightarrow> int \<Rightarrow> int \<Rightarrow> dec \<Rightarrow> dec option \<Rightarrow> dec option \<Rightarrow> (trading_loop \<times> uuid list) result" where
  "send_entry E C L c decision_ns close_ns approved stop tp =
     (let s = sign_of approved; L1 = L\<lparr>tl_entries := dset (tl_entries L) c \<lparr>em_decision_ns = decision_ns, em_stop = stop, em_tp = tp\<rparr>\<rparr> in
      rbind (case stop of None \<Rightarrow> Inr (L1, [])
             | Some p \<Rightarrow> (let (c2, L2) = next_uuid E L1 in
                 rbind (send_order E L2 \<lparr>or_client_order_id = c2, or_instrument = lp_sym C, or_side = side_of_sign (- s), or_otype = STOP_MARKET,
                    or_qty = dabs (le_cx E) approved, or_stop_price = Some p, or_reduce_only = True, or_decision_ref = Some (int_str decision_ns),
                    or_ts_created_ns = close_ns\<rparr> decision_ns ''stop'' (Some ER_STOP)) (\<lambda>L3. Inr (L3, [c2])))) (\<lambda>(L4, ids).
        rbind (set_take_profit (le_cx E) (tl_broker L4) (lp_sym C) tp (if tp = None then None else Some (side_of_sign s))) (\<lambda>b.
          Inr (L4\<lparr>tl_broker := b\<rparr>, ids))))"

definition submit_target :: "loop_env \<Rightarrow> loop_cfg \<Rightarrow> trading_loop \<Rightarrow> int \<Rightarrow> int \<Rightarrow> dec \<Rightarrow> dec \<Rightarrow> exit_reason \<Rightarrow> string \<Rightarrow> dec option \<Rightarrow> dec option
    \<Rightarrow> (trading_loop \<times> uuid list) result" where
  "submit_target E C L decision_ns close_ns cur approved reason action stop tp =
     (let cx = le_cx E; delta = dsub cx approved cur in
      if delta = 0 then Inr (L, [])
      else let (c, L1) = next_uuid E L; role = (if action \<in> {''enter'', ''exit'', ''flip'', ''flatten''} then action else ''entry'') in
        rbind (floor_qty cx (dabs cx delta) (lp_step C)) (\<lambda>qty.
        rbind (send_order E L1 \<lparr>or_client_order_id = c, or_instrument = lp_sym C, or_side = (if 0 < delta then LONG else SHORT), or_otype = MARKET, or_qty = qty,
            or_stop_price = None, or_reduce_only = pure_reduction cx cur approved, or_decision_ref = Some (int_str decision_ns),
            or_ts_created_ns = close_ns\<rparr> decision_ns role (if cur \<noteq> 0 then Some reason else None)) (\<lambda>L2.
          if opens_new cur approved then rbind (send_entry E C L2 c decision_ns close_ns approved stop tp) (\<lambda>(L3, ids). Inr (L3, c # ids))
          else Inr (L2, [c]))))"

section \<open>The decision at the close\<close>

definition latched :: "trading_loop \<Rightarrow> bool" where
  "latched L \<longleftrightarrow> fs_state (tl_fsm L) = HALTED \<or> ks_tripped (fs_killswitch (tl_fsm L))"

text \<open>The action, the reason and the approved target after the chain of the risk rules.\<close>

definition action_of :: "bool \<Rightarrow> dec \<Rightarrow> dec \<Rightarrow> dec \<Rightarrow> string \<times> exit_reason" where
  "action_of flatten cur requested approved =
     (if flatten then (''flatten'', ER_HALT)
      else if sign_of cur \<noteq> 0 \<and> requested \<noteq> 0 \<and> sign_of requested \<noteq> sign_of cur \<and> approved = 0 then (''exit'', ER_RISK_VETO)
      else if sign_of cur \<noteq> 0 \<and> sign_of cur \<noteq> sign_of approved then (if opens_new cur approved then ''flip'' else ''exit'', ER_SIGNAL)
      else (if opens_new cur approved then ''enter'' else ''none'', ER_SIGNAL))"

definition finite_decimal :: "dctx \<Rightarrow> pyfloat \<Rightarrow> quantum \<Rightarrow> dec result" where
  "finite_decimal cx x tick = (if f_isfinite x then to_decimal cx x tick ROUND_DOWN else Inr 0)"

fun scaled :: "rat \<Rightarrow> pyfloat \<Rightarrow> pyfloat" where
  "scaled m (Fin x) = Fin (f64 (m * x))"
| "scaled m y = y"

definition protective_levels :: "loop_env \<Rightarrow> loop_cfg \<Rightarrow> dec \<Rightarrow> dec \<Rightarrow> pyfloat \<Rightarrow> (dec option \<times> dec option) result" where
  "protective_levels E C price approved stop_dist =
     (let cx = le_cx E; s = of_int (sign_of approved) in
      rbind (finite_decimal cx stop_dist (lp_tick C)) (\<lambda>d.
        if \<not> 0 < d then Inr (None, None)
        else rbind (quantize_price cx (dsub cx price (dmul cx s d)) (lp_tick C)) (\<lambda>sp.
             rbind (to_decimal cx (scaled (lp_tp_multiple C) stop_dist) (lp_tick C) ROUND_DOWN) (\<lambda>td.
             rbind (quantize_price cx (dadd cx price (dmul cx s td)) (lp_tick C)) (\<lambda>tp.
               Inr (if 0 < sp then Some sp else None, if 0 < tp \<and> 0 < td then Some tp else None))))))"

definition estimated_liquidation :: "loop_env \<Rightarrow> loop_cfg \<Rightarrow> dec \<Rightarrow> dec \<Rightarrow> dec \<Rightarrow> dec option result" where
  "estimated_liquidation E C price approved wallet =
     (if \<not> 0 < wallet then Inr None
      else rbind (side_liq_price (le_cx E) (side_of_sign (sign_of approved)) (dabs (le_cx E) approved) price wallet (in_mmr (lp_instrument C))
                    (in_maint_amount (lp_instrument C))) (\<lambda>raw.
        if 0 < raw then rbind (quantize_price (le_cx E) raw (lp_tick C)) (\<lambda>x. Inr (Some x)) else Inr None))"

definition evaluate_risk :: "loop_env \<Rightarrow> loop_cfg \<Rightarrow> trading_loop \<Rightarrow> dec \<Rightarrow> dec \<Rightarrow> dec \<Rightarrow> pyfloat \<Rightarrow> int option \<Rightarrow> dec \<Rightarrow> (trading_loop \<times> guard_result) result" where
  "evaluate_risk E C L price cur requested stop_dist last_data dq =
     (let cx = le_cx E in
      case et_snap (fs_tracker (tl_fsm L)) of None \<Rightarrow> Inl AssertionError
      | Some snap \<Rightarrow>
          rbind (win_feats (tl_window L)) (\<lambda>f.
          rbind (case ft_atr f of None \<Rightarrow> Inr 0 | Some a \<Rightarrow> to_decimal cx (Fin a) (lp_tick C) ROUND_DOWN) (\<lambda>atr.
          rbind (finite_decimal cx stop_dist (lp_tick C)) (\<lambda>sd.
          rbind (ctx_from_snapshot cx snap \<lparr>rc_ts_ns = 0, rc_instrument = lp_sym C, rc_price = price, rc_equity = 0, rc_current_qty = cur, rc_target_qty = requested,
              rc_atr = atr, rc_stop_distance = sd, rc_drawdown = 0, rc_pnl_day = 0, rc_equity_day_open = None, rc_day_start_ns = None,
              rc_gross_notional_other = 0, rc_mmr = in_mmr (lp_instrument C), rc_maint_amount = in_maint_amount (lp_instrument C),
              rc_leverage_setting = lp_lev C, rc_last_data_ns = last_data, rc_dq_score = dq, rc_risk_state = fs_state (tl_fsm L),
              rc_step_size = Some (lp_step C), rc_base_qty = 0, rc_increase_qty = 0, rc_post_qty = 0\<rparr>) (\<lambda>c.
            let (g, res) = evaluate cx (tl_guard L) c in
            rbind res (\<lambda>r. Inr (L\<lparr>tl_guard := g, tl_fsm := (tl_fsm L)\<lparr>fs_killswitch := (case rg_killswitch g of None \<Rightarrow> fs_killswitch (tl_fsm L) | Some k \<Rightarrow> k)\<rparr>\<rparr>, r)))))))"

definition size_intent :: "loop_env \<Rightarrow> loop_cfg \<Rightarrow> trading_loop \<Rightarrow> rat \<Rightarrow> dec \<Rightarrow> dec \<Rightarrow> sizing_result result" where
  "size_intent E C L u_final eq price =
     rbind (win_feats (tl_window L)) (\<lambda>f.
       position_size (le_cx E) (lp_sizing C) \<lparr>si_u_final = Fin u_final, si_equity = eq, si_price = price,
         si_atr = (case ft_atr f of None \<Rightarrow> NaN | Some a \<Rightarrow> Fin a), si_s_t = vt_s (tl_vt L),
         si_kappa_mode = Fin (f64 (kappa_of (fs_cfg (tl_fsm L)) (fs_state (tl_fsm L)))), si_step_size = lp_step C,
         si_min_notional = in_min_notional (lp_instrument C), si_gross_notional = 0, si_sigma_ann = tl_sigma_ann L\<rparr>)"

text \<open>The numbers of the core, with the trace where every decision is recorded.\<close>

definition core_numbers :: "loop_env \<Rightarrow> loop_cfg \<Rightarrow> trading_loop \<Rightarrow> int \<Rightarrow> (decision_trace option \<times> rat \<times> rat \<times> rat) result" where
  "core_numbers E C L t =
     (if lp_record C = RM_ALL
      then rbind (core_decide (le_math E) (\<lambda>w. rbind (win_bar w 0) (\<lambda>b. Inr (fb_t_ns b))) (lp_core C) (tl_window L) (Some t)) (\<lambda>tr.
             Inr (Some tr, dt_u_raw tr, dt_kappa tr, dt_u_final tr))
      else rbind (core_intent (le_math E) (lp_core C) (tl_window L)) (\<lambda>(u, k, v). Inr (None, u, k, v)))"

definition hold_entry :: "fbar \<Rightarrow> int \<Rightarrow> dec \<Rightarrow> rat \<times> rat \<times> rat \<Rightarrow> side \<Rightarrow> sizing_result option \<Rightarrow> decision_trace option \<Rightarrow> dctx \<Rightarrow> decision_entry" where
  "hold_entry b close_ns cur nums gate_side sz tr cx =
     \<lparr>di_open_time_ns = fb_t_ns b, di_decided_at_ns = close_ns, di_u_raw = fst nums, di_kappa = fst (snd nums), di_u_final = snd (snd nums),
      di_gate_side = side_int gate_side, di_current_qty = cur, di_requested_qty = None, di_target_side = sign_of cur, di_target_qty = dabs cx cur,
      di_binding = map_option sr_binding sz, di_stop_price = None, di_tp_price = None, di_liq_price = None,
      di_action = (if cur \<noteq> 0 then ''hold'' else ''none''), di_verdict = None, di_order_ids = [], di_trace = tr\<rparr>"

text \<open>From the approved target to the orders and the entry of the decision.\<close>

definition act_on_target :: "loop_env \<Rightarrow> loop_cfg \<Rightarrow> trading_loop \<Rightarrow> fbar \<Rightarrow> dec \<Rightarrow> int \<Rightarrow> dec \<Rightarrow> dec \<Rightarrow> dec \<Rightarrow> guard_result \<Rightarrow> rat \<times> rat \<times> rat \<Rightarrow> side
    \<Rightarrow> sizing_result \<Rightarrow> decision_trace option \<Rightarrow> (trading_loop \<times> decision_entry) result" where
  "act_on_target E C L b price close_ns eq cur requested res nums gate_side sz tr =
     (let cx = le_cx E; a0 = gr_approved_qty res;
          approved = (if a0 \<noteq> 0 \<and> dmul cx (dabs cx a0) price < in_min_notional (lp_instrument C) then 0 else a0);
          (action, reason) = action_of (gr_flatten_all res) cur requested approved
      in rbind (if opens_new cur approved then protective_levels E C price approved (sr_stop_distance sz) else Inr (None, None)) (\<lambda>(stop, tp).
         rbind (if opens_new cur approved then estimated_liquidation E C price approved eq else Inr None) (\<lambda>liq.
         rbind (submit_target E C L (fb_t_ns b) close_ns cur approved reason action stop tp) (\<lambda>(L1, ids).
         rbind (if tr = None \<and> lp_record C = RM_TRADES \<and> ids \<noteq> []
                then rbind (core_decide (le_math E) (\<lambda>w. rbind (win_bar w 0) (\<lambda>x. Inr (fb_t_ns x))) (lp_core C) (tl_window L1) (Some (fb_t_ns b))) (\<lambda>t.
                       if lp_check C \<and> dt_u_final t \<noteq> snd (snd nums) then Inl AssertionError else Inr (Some t))
                else Inr tr) (\<lambda>tr'.
           let L2 = (if ids = [] then L1 else log_event L1 (EvDecision (fb_t_ns b) (float_repr (snd (snd nums))) action cur requested approved (v_kind (gr_verdict res)) ids))
           in Inr (L2, \<lparr>di_open_time_ns = fb_t_ns b, di_decided_at_ns = close_ns, di_u_raw = fst nums, di_kappa = fst (snd nums), di_u_final = snd (snd nums),
                di_gate_side = side_int gate_side, di_current_qty = cur, di_requested_qty = Some requested, di_target_side = sign_of approved,
                di_target_qty = dabs cx approved, di_binding = Some (sr_binding sz), di_stop_price = stop, di_tp_price = tp, di_liq_price = liq,
                di_action = action, di_verdict = Some (v_kind (gr_verdict res)), di_order_ids = ids, di_trace = tr'\<rparr>))))))"

definition decide :: "loop_env \<Rightarrow> loop_cfg \<Rightarrow> trading_loop \<Rightarrow> fbar \<Rightarrow> bar \<Rightarrow> int \<Rightarrow> dec \<Rightarrow> dec \<Rightarrow> int option \<Rightarrow> (trading_loop \<times> decision_entry) result" where
  "decide E C L b dbar close_ns eq dq last_data =
     (let cx = le_cx E; cur = position_qty (tl_portfolio L) (lp_sym C);
          g0 = (if side_int (hg_side (tl_gate L)) \<noteq> sign_of cur then gate_reset (tl_gate L) (side_of_sign (sign_of cur)) else tl_gate L)
      in rbind (core_numbers E C L (fb_t_ns b)) (\<lambda>(tr, nums). rbind (gate_update g0 (Fin (snd (snd nums)))) (\<lambda>(g, gate_side).
           let L1 = L\<lparr>tl_gate := g\<rparr>; desired = (if latched L then 0 else side_int gate_side); intent = (desired \<noteq> sign_of cur); price = ba_c dbar in
           rbind (if intent \<or> lp_record C = RM_ALL then rbind (size_intent E C L1 (snd (snd nums)) eq price) (\<lambda>x. Inr (Some x)) else Inr None) (\<lambda>sz.
             let requested = (case sz of None \<Rightarrow> 0 | Some x \<Rightarrow> if desired = 0 then 0 else dmul cx (sr_qty x) (of_int desired)) in
             case sz of
               Some x \<Rightarrow>
                 if \<not> intent \<or> requested = cur then Inr (L1, hold_entry b close_ns cur nums gate_side sz tr cx)
                 else rbind (evaluate_risk E C L1 price cur requested (sr_stop_distance x) last_data dq) (\<lambda>(L2, res).
                   act_on_target E C L2 b price close_ns eq cur requested res nums gate_side x tr)
             | None \<Rightarrow> Inr (L1, hold_entry b close_ns cur nums gate_side None tr cx)))))"

section \<open>The step of a bar\<close>

definition dec_bar_of :: "dctx \<Rightarrow> fbar \<Rightarrow> instrument \<Rightarrow> bar result" where
  "dec_bar_of cx b i = (let p = (\<lambda>x. price_to_decimal cx (Fin x) (in_tick_size i)) in
     rbind (p (fb_o b)) (\<lambda>o1. rbind (p (fb_h b)) (\<lambda>h1. rbind (p (fb_l b)) (\<lambda>l1. rbind (p (fb_c b)) (\<lambda>c1. rbind (float_to_decimal_exact (Fin (fb_v b))) (\<lambda>v.
       Inr \<lparr>ba_instrument = in_symbol_canon i, ba_open_time_ns = fb_t_ns b, ba_o = o1, ba_h = h1, ba_l = l1, ba_c = c1, ba_volume = v\<rparr>))))))"

record executed =
  ex_fills :: "fill list"
  ex_charges :: "funding_charge list"
  ex_opened :: "nat list"
  ex_closed :: "nat list"
  ex_fresh :: "uuid list"
  ex_updates :: "uuid list"

text \<open>What happens before the bar: the clock, the funding rate, the latch.\<close>

definition prepare_phase :: "loop_env \<Rightarrow> loop_cfg \<Rightarrow> trading_loop \<Rightarrow> int \<Rightarrow> int \<Rightarrow> trading_loop result" where
  "prepare_phase E C L t_open close_ns =
     rbind (clock_set L t_open) (\<lambda>L1.
     rbind (if tl_funding L1 \<noteq> [] \<and> tl_last_open L1 \<noteq> None then apply_funding_rate C L1 t_open close_ns else Inr L1) (\<lambda>L2.
       let L3 = L2\<lparr>tl_step_transition := None\<rparr> in
       if latched L3 \<and> tl_open_orders L3 \<noteq> [] then cancel_pending_increases E C L3 else Inr L3))"

definition execution_phase :: "loop_env \<Rightarrow> loop_cfg \<Rightarrow> trading_loop \<Rightarrow> bar \<Rightarrow> (trading_loop \<times> executed) result" where
  "execution_phase E C L dbar =
     rbind (on_bar (le_broker E) (tl_broker L) dbar) (\<lambda>(b, fs).
       let (b1, charges) = drain_funding b;
           L1 = L\<lparr>tl_broker := b1, tl_portfolio := foldl (apply_funding (le_cx E)) (tl_portfolio L) charges, tl_touched := []\<rparr>
       in rbind (loop_apply_fills E C L1 fs) (\<lambda>(L2, opened, shut, fresh).
          rbind (if tl_open_orders L2 = [] then Inr (L2, []) else sync_open_orders L2) (\<lambda>(L3, updates).
          rbind (if (fs \<noteq> [] \<or> charges \<noteq> []) \<and> position_qty (tl_portfolio L3) (lp_sym C) \<noteq> 0 then refresh_liquidation E C L3 else Inr L3) (\<lambda>L4.
            Inr (L4, \<lparr>ex_fills = fs, ex_charges = charges, ex_opened = opened, ex_closed = shut, ex_fresh = fresh, ex_updates = updates\<rparr>)))))"

definition mark_phase :: "loop_env \<Rightarrow> loop_cfg \<Rightarrow> trading_loop \<Rightarrow> bar \<Rightarrow> int \<Rightarrow> (trading_loop \<times> dec) result" where
  "mark_phase E C L dbar close_ns =
     rbind (clock_set L close_ns) (\<lambda>L1. let (pf, res) = pf_mark (le_cx E) (tl_portfolio L1) [(lp_sym C, ba_c dbar)] in
       rbind res (\<lambda>eq. Inr (L1\<lparr>tl_portfolio := pf\<rparr>, eq)))"

definition volatility_step :: "loop_env \<Rightarrow> loop_cfg \<Rightarrow> trading_loop \<Rightarrow> fbar \<Rightarrow> int \<Rightarrow> trading_loop result" where
  "volatility_step E C L b i =
     rbind (case tl_prev_close L of None \<Rightarrow> Inr L
            | Some pc \<Rightarrow> rbind (fdiv (fb_c b) pc) (\<lambda>x. rbind (vol_update (tl_vt L) (Fin (f64 (x - 1)))) (\<lambda>(v, sig, _).
                Inr (L\<lparr>tl_vt := v, tl_sigma_ann := Fin sig\<rparr>)))) (\<lambda>L1.
       let L2 = L1\<lparr>tl_prev_close := Some (fb_c b)\<rparr> in
       Inr (if tl_sigma_base L2 \<noteq> None then L2
            else if i < lp_decide_from C then (if f_isfinite (tl_sigma_ann L2) then L2\<lparr>tl_sigma_hist := tl_sigma_hist L2 @ [f_val (tl_sigma_ann L2)]\<rparr> else L2)
            else L2\<lparr>tl_sigma_base := (if tl_sigma_hist L2 = [] then None else Some (le_median E (tl_sigma_hist L2))), tl_sigma_hist := []\<rparr>))"

definition vol_ratio :: "trading_loop \<Rightarrow> pyfloat option" where
  "vol_ratio L = (case tl_sigma_base L of None \<Rightarrow> None
     | Some sb \<Rightarrow> if 0 < sb \<and> f_isfinite (tl_sigma_ann L) then Some (Fin (f64 (f_val (tl_sigma_ann L) / sb))) else None)"

definition observe_phase :: "loop_env \<Rightarrow> loop_cfg \<Rightarrow> trading_loop \<Rightarrow> fbar \<Rightarrow> int \<Rightarrow> dec \<Rightarrow> int \<Rightarrow> trading_loop result" where
  "observe_phase E C L b close_ns eq i =
     (let (pl, f) = pipe_update (le_log E) (tl_pipe L) b; L1 = L\<lparr>tl_pipe := pl, tl_window := window_append (tl_window L) (b, f)\<rparr> in
      rbind (volatility_step E C L1 b i) (\<lambda>L2. rbind (mk_risk_observation \<lparr>ob_ts_ns = close_ns, ob_equity = eq, ob_vol_ratio = vol_ratio L2\<rparr>) (\<lambda>ob.
        rbind (fsm_update (le_cx E) (tl_fsm L2) ob) (\<lambda>(m, tr).
          let L3 = on_transition C (L2\<lparr>tl_fsm := m, tl_guard := (tl_guard L2)\<lparr>rg_killswitch := Some (fs_killswitch m)\<rparr>\<rparr>) tr in
          Inr (if tl_halt_index L3 = None \<and> fs_state m = HALTED then L3\<lparr>tl_halt_index := Some i\<rparr> else L3)))))"

definition equity_point_of :: "loop_env \<Rightarrow> loop_cfg \<Rightarrow> trading_loop \<Rightarrow> int \<Rightarrow> dec \<Rightarrow> equity_point result" where
  "equity_point_of E C L close_ns eq =
     (let cx = le_cx E; pf = tl_portfolio L in
      rbind (unrealized_pnl cx pf) (\<lambda>u. rbind (gross_exposure cx pf) (\<lambda>g. rbind (pf_leverage cx pf) (\<lambda>lev.
        Inr \<lparr>ep_ts_ns = close_ns, ep_equity = eq, ep_cash = pf_cash pf, ep_unrealized = u, ep_gross_exposure = g, ep_leverage = lev,
             ep_drawdown = (case et_snap (fs_tracker (tl_fsm L)) of None \<Rightarrow> 0 | Some s \<Rightarrow> es_drawdown s), ep_risk_state = fs_state (tl_fsm L),
             ep_kappa = kappa_of (fs_cfg (tl_fsm L)) (fs_state (tl_fsm L)), ep_position_qty = position_qty pf (lp_sym C)\<rparr>))))"

definition keep_step :: "loop_cfg \<Rightarrow> trading_loop \<Rightarrow> step_result \<Rightarrow> kept" where
  "keep_step C L r = (let k = tl_kept L in
     \<lparr>kp_equity = kp_equity k @ [sx_equity r], kp_equity_ts = kp_equity_ts k @ [sx_close_time_ns r],
      kp_position_series = kp_position_series k @ [sx_position_qty r],
      kp_equity_points = kp_equity_points k @ (case sx_equity_point r of None \<Rightarrow> [] | Some p \<Rightarrow> [p]),
      kp_decisions = kp_decisions k @ (case sx_decision r of None \<Rightarrow> [] | Some d \<Rightarrow> if lp_record C = RM_ALL \<or> di_order_ids d \<noteq> [] then [d] else []),
      kp_orders = kp_orders k @ sx_orders r, kp_fills = kp_fills k @ sx_fills r, kp_funding = kp_funding k @ sx_funding r,
      kp_positions = kp_positions k @ sx_closed r, kp_risk_events = kp_risk_events k @ sx_risk_events r,
      kp_transitions = kp_transitions k @ (case sx_transition r of None \<Rightarrow> [] | Some t \<Rightarrow> [t])\<rparr>)"

definition record_phase :: "loop_env \<Rightarrow> loop_cfg \<Rightarrow> trading_loop \<Rightarrow> int \<Rightarrow> int \<Rightarrow> int \<Rightarrow> dec \<Rightarrow> executed \<Rightarrow> decision_entry option \<Rightarrow> (trading_loop \<times> step_result) result" where
  "record_phase E C L i t_open close_ns eq ex d =
     rbind (if lp_record C = RM_NONE then Inr None else rbind (equity_point_of E C L close_ns eq) (\<lambda>p. Inr (Some p))) (\<lambda>point.
       let r = \<lparr>sx_index = i, sx_open_time_ns = t_open, sx_close_time_ns = close_ns, sx_equity = eq, sx_position_qty = position_qty (tl_portfolio L) (lp_sym C),
                sx_risk_state = fs_state (tl_fsm L), sx_kappa_mode = kappa_of (fs_cfg (tl_fsm L)) (fs_state (tl_fsm L)), sx_decided = (d \<noteq> None),
                sx_fills = ex_fills ex, sx_funding = ex_charges ex, sx_decision = d,
                sx_orders = ex_fresh ex @ (case d of None \<Rightarrow> [] | Some x \<Rightarrow> di_order_ids x), sx_opened = ex_opened ex, sx_closed = ex_closed ex,
                sx_risk_events = step_risk L, sx_transition = tl_step_transition L, sx_equity_point = point, sx_order_updates = ex_updates ex\<rparr>;
           L1 = (clear_step_risk L)\<lparr>tl_index := i, tl_last_open := Some t_open\<rparr>
       in Inr (if lp_keep C then L1\<lparr>tl_kept := keep_step C L r\<rparr> else L1, r))"

definition loop_step :: "loop_env \<Rightarrow> loop_cfg \<Rightarrow> trading_loop \<Rightarrow> fbar \<Rightarrow> int \<Rightarrow> bar option \<Rightarrow> dec \<Rightarrow> int option \<Rightarrow> (trading_loop \<times> step_result) result" where
  "loop_step E C L b close_ns db dq last_data =
     (let i = tl_index L + 1; t_open = fb_t_ns b in
      rbind (case db of Some x \<Rightarrow> Inr x | None \<Rightarrow> dec_bar_of (le_cx E) b (lp_instrument C)) (\<lambda>dbar.
      rbind (prepare_phase E C L t_open close_ns) (\<lambda>L1.
      rbind (execution_phase E C L1 dbar) (\<lambda>(L2, ex).
      rbind (mark_phase E C L2 dbar close_ns) (\<lambda>(L3, eq).
      rbind (if lp_check C then check_accounting E C L3 (latched L1) (dabs (le_cx E) (position_qty (tl_portfolio L1) (lp_sym C))) else Inr ()) (\<lambda>_.
      rbind (observe_phase E C L3 b close_ns eq i) (\<lambda>L4.
      rbind (if lp_decide_from C \<le> i then rbind (decide E C L4 b dbar close_ns eq dq last_data) (\<lambda>(L5, d). Inr (L5, Some d)) else Inr (L4, None)) (\<lambda>(L5, d).
        record_phase E C L5 i t_open close_ns eq ex d))))))))"

definition on_candle :: "loop_env \<Rightarrow> loop_cfg \<Rightarrow> trading_loop \<Rightarrow> candle \<Rightarrow> dec \<Rightarrow> int option \<Rightarrow> (trading_loop \<times> step_result) result" where
  "on_candle E C L c dq last_data =
     (if \<not> cd_is_closed c then Inl ValueError
      else if cd_instrument c \<noteq> lp_sym C then Inl ValueError
      else loop_step E C L (bar_from_candle c) (cd_close_time_ns c) (Some (dec_bar_from_candle c)) dq last_data)"

text \<open>\<^verbatim>\<open>refresh_order_statuses\<close> at the end of a run.\<close>

definition refreshed :: "broker \<Rightarrow> uuid \<times> order_record \<Rightarrow> uuid \<times> order_record" where
  "refreshed b x = (case order_ack_of b (fst x) of None \<Rightarrow> x
     | Some ack \<Rightarrow> if oc_status (snd x) = OS_FILLED then x else (fst x, (snd x)\<lparr>oc_status := oa_status ack, oc_reject_code := oa_reject_code ack\<rparr>))"

definition refresh_order_statuses :: "trading_loop \<Rightarrow> trading_loop" where
  "refresh_order_statuses L = L\<lparr>tl_orders := map (refreshed (tl_broker L)) (tl_orders L)\<rparr>"

text \<open>The commands a loop receives; the latch can be tripped from outside at any time.\<close>

datatype loop_cmd =
    Step fbar int "bar option" dec "int option"
  | Candle candle dec "int option"
  | Release_halt role "string option"
  | Trip_latch string "int option"
  | Limits limits_cfg "cooldown_policy option" sm_cfg
  | Funding_series "(int list \<times> pyfloat list) option"
  | Take_pending
  | Refresh_statuses

definition trip_latch :: "trading_loop \<Rightarrow> string \<Rightarrow> int option \<Rightarrow> trading_loop" where
  "trip_latch L reason ts =
     (let k = fst (ks_trip (Some (tl_clock L)) (fs_killswitch (tl_fsm L)) reason ts)
      in L\<lparr>tl_fsm := (tl_fsm L)\<lparr>fs_killswitch := k\<rparr>, tl_guard := (tl_guard L)\<lparr>rg_killswitch := Some k\<rparr>\<rparr>)"

fun loop_command :: "loop_env \<Rightarrow> loop_cfg \<Rightarrow> trading_loop \<Rightarrow> loop_cmd \<Rightarrow> trading_loop result" where
  "loop_command E C L (Step b t db dq ld) = rbind (loop_step E C L b t db dq ld) (\<lambda>(L', r). Inr L')"
| "loop_command E C L (Candle c dq ld) = rbind (on_candle E C L c dq ld) (\<lambda>(L', r). Inr L')"
| "loop_command E C L (Release_halt ro a) = rbind (release_halt E C L ro a) (\<lambda>(L', t). Inr L')"
| "loop_command E C L (Trip_latch reason ts) = Inr (trip_latch L reason ts)"
| "loop_command E C L (Limits l p sm) = apply_risk_limits E L l p sm"
| "loop_command E C L (Funding_series s) = set_funding_series L s"
| "loop_command E C L Take_pending = Inr (fst (take_pending_risk_events C L))"
| "loop_command E C L Refresh_statuses = Inr (refresh_order_statuses L)"

end
