(* ===== verification/EngineBar.thy ===== *)
theory EngineBar
  imports Engine
begin

text \<open>
  What the phases of a bar keep: the orders the broker makes itself are reducing, the invariant of the loop (the account is
  the broker's position, every pending order the loop does not watch is reducing), and what happens before and after
  the executions.
\<close>

section \<open>Orders the broker makes itself\<close>

text \<open>Every order after a bar has the request it had before, or it is a reducing order of the bar's instrument.\<close>

definition born_reducing :: "string \<Rightarrow> (uuid, paper_order) dict \<Rightarrow> (uuid, paper_order) dict \<Rightarrow> bool" where
  "born_reducing i os os' \<longleftrightarrow> (\<forall>c po. dget os' c = Some po \<longrightarrow>
     (\<exists>po0. dget os c = Some po0 \<and> po_req po0 = po_req po) \<or> (or_reduce_only (po_req po) \<and> or_instrument (po_req po) = i))"

lemma born_refl [simp]: "born_reducing i os os"
  by (simp add: born_reducing_def)

lemma born_trans: "born_reducing i os os' \<Longrightarrow> born_reducing i os' os'' \<Longrightarrow> born_reducing i os os''"
  unfolding born_reducing_def by metis

lemma born_set: "dget os c = Some po \<Longrightarrow> po_req po' = po_req po \<Longrightarrow> born_reducing i os (dset os c po')"
  by (auto simp: born_reducing_def)

lemma born_new: "or_reduce_only (po_req po) \<Longrightarrow> or_instrument (po_req po) = i \<Longrightarrow> born_reducing i os (dset os c po)"
  by (auto simp: born_reducing_def)

lemma close_stops_born: "close_stops prot os cs = Inr (os', keep) \<Longrightarrow> born_reducing i os os'"
proof (induction cs arbitrary: prot os os' keep)
  case (Cons c cs)
  then obtain po where po: "dget os c = Some po" by (auto split: option.splits)
  have s: "born_reducing i os (dset os c (po\<lparr>po_status := OS_CANCELED\<rparr>))" by (rule born_set [OF po]) simp
  from Cons.prems po show ?case
    by (auto elim!: rbind_InrE split: if_splits dest!: Cons.IH intro: born_trans [OF s])
qed simp

lemma drop_orphans_born: "drop_orphans sg en os cs = Inr (os', keep) \<Longrightarrow> born_reducing i os os'"
proof (induction cs arbitrary: os os' keep)
  case (Cons c cs)
  then obtain po where po: "dget os c = Some po" by (auto split: option.splits)
  have s: "born_reducing i os (dset os c (po\<lparr>po_status := OS_CANCELED, po_reject_code := Some RC_REDUCE_ONLY\<rparr>))" by (rule born_set [OF po]) simp
  from Cons.prems po show ?case
    by (auto simp: Let_def elim!: rbind_InrE split: if_splits dest!: Cons.IH intro: born_trans [OF s])
qed simp

definition bar_born :: "broker_env \<Rightarrow> int \<Rightarrow> work \<Rightarrow> work \<Rightarrow> bool" where
  "bar_born E t w w' \<longleftrightarrow> wk_inst w' = wk_inst w \<and> br_drawn_ids (wk_broker w) \<le> br_drawn_ids (wk_broker w') \<and> born_reducing (wk_inst w) (wk_orders w) (wk_orders w')"

lemma closed_born: "on_position_closed w old = Inr w' \<Longrightarrow> bar_born E t w w'"
  by (auto simp: on_position_closed_def bar_born_def Let_def elim!: rbind_InrE dest!: close_stops_born)

lemma execute_cases:
  assumes "execute E w c p ts reason = Inr w'"
  obtains po b po' st fs where "dget (wk_orders w) c = Some po" "br_orders b = dset (wk_orders w) c po'" "po_req po' = po_req po"
    "st_spec st = st_spec (wk_st w)" "br_drawn_ids b = br_drawn_ids (wk_broker w)"
    "w' = \<lparr>wk_broker = b, wk_st = st, wk_fills = fs\<rparr> \<or> on_position_closed \<lparr>wk_broker = b, wk_st = st, wk_fills = fs\<rparr> (st_position (wk_st w)) = Inr w'"
proof -
  from assms obtain po where po: "get_order (wk_broker w) c = Inr po" by (auto simp: execute_def Let_def elim!: rbind_InrE)
  then have d: "dget (wk_orders w) c = Some po" by (simp add: get_order_def split: option.splits)
  show thesis
  proof (cases "executable_qty (en_cx E) (wk_st w) (po_req po) \<le> 0")
    case True
    let ?po = "po\<lparr>po_status := OS_CANCELED, po_reject_code := Some RC_REDUCE_ONLY\<rparr>"
    show thesis
      by (rule that [OF d, of "set_order (wk_broker w) c ?po" ?po "wk_st w" "wk_fills w"]) (insert assms po True, cases w, auto simp: execute_def set_order_def Let_def)
  next
    case False
    define P where "P x = po\<lparr>po_status := OS_FILLED, po_filled_qty := executable_qty (en_cx E) (wk_st w) (po_req po), po_avg_price := Some (fq_price (fst x)),
        po_exit_reason := stop_reason (wk_st w) (po_req po) reason\<rparr>" for x :: "fill_quote \<times> cost_model"
    define W where "W x f = \<lparr>wk_broker = set_order ((wk_broker w)\<lparr>br_cost := snd x\<rparr>) c (P x),
      wk_st = (wk_st w)\<lparr>st_position := dadd (en_cx E) (st_position (wk_st w)) (signed_qty (en_cx E) (or_side (po_req po)) (executable_qty (en_cx E) (wk_st w) (po_req po)))\<rparr>,
      wk_fills = wk_fills w @ [f]\<rparr>" for x :: "fill_quote \<times> cost_model" and f
    obtain x f where out: "w' = W x f \<or> on_position_closed (W x f) (st_position (wk_st w)) = Inr w'"
    proof -
      from assms po False obtain x where x: "quote (en_cx E) (en_zs E) (br_cost (wk_broker w)) (or_side (po_req po)) p (executable_qty (en_cx E) (wk_st w) (po_req po))
          (st_sigma (en_cx E) (wk_st w)) (st_vbar (wk_st w)) (in_tick_size (st_spec (wk_st w))) = Inr x"
        by (auto simp: execute_def Let_def elim!: rbind_InrE)
      obtain q k where q: "x = (q, k)" by (cases x)
      have "\<exists>f. w' = W x f \<or> on_position_closed (W x f) (st_position (wk_st w)) = Inr w'"
        using assms po False by (auto simp: execute_def Let_def x q W_def P_def elim!: rbind_InrE split: if_splits)
      then show thesis using that by blast
    qed
    show thesis by (rule that [OF d, of "wk_broker (W x f)" "P x" "wk_st (W x f)" "wk_fills (W x f)"]) (use out in \<open>simp_all add: W_def P_def set_order_def\<close>)
  qed
qed

lemma bar_born_trans: "bar_born E t w w' \<Longrightarrow> bar_born E t w' w'' \<Longrightarrow> bar_born E t w w''"
  unfolding bar_born_def by (auto intro: born_trans)

lemma execute_born:
  assumes "execute E w c p ts reason = Inr w'"
  shows "bar_born E t w w'"
  using assms
proof (rule execute_cases)
  fix po b po' st fs
  assume po: "dget (wk_orders w) c = Some po" "br_orders b = dset (wk_orders w) c po'" "po_req po' = po_req po" "st_spec st = st_spec (wk_st w)"
      "br_drawn_ids b = br_drawn_ids (wk_broker w)"
    and out: "w' = \<lparr>wk_broker = b, wk_st = st, wk_fills = fs\<rparr> \<or> on_position_closed \<lparr>wk_broker = b, wk_st = st, wk_fills = fs\<rparr> (st_position (wk_st w)) = Inr w'"
  have b: "bar_born E t w \<lparr>wk_broker = b, wk_st = st, wk_fills = fs\<rparr>" using born_set [OF po(1,3)] po(2,4,5) by (simp add: bar_born_def)
  from out show ?thesis using b closed_born bar_born_trans by blast
qed

lemma fire_born:
  assumes "fire E w tr p t = Inr w'"
  shows "bar_born E t w w'"
proof (cases "tr_kind tr = Stop_trigger")
  case True
  then obtain c where "execute E (w\<lparr>wk_st := (wk_st w)\<lparr>st_stop_orders := remove1 c (st_stop_orders (wk_st w))\<rparr>\<rparr>) c p t None = Inr w'"
    using assms by (auto simp: fire_def Let_def split: option.splits if_splits)
  from execute_born [OF this, of t] show ?thesis by (simp add: bar_born_def)
next
  case False
  let ?st = "if tr_kind tr = Tp_trigger then (wk_st w)\<lparr>st_tp_price := None, st_tp_side := 0\<rparr> else (wk_st w)\<lparr>st_liq_price := None\<rparr>"
  obtain b po c where ex: "execute E (w\<lparr>wk_broker := b, wk_st := ?st\<rparr>) c p t (Some (synthetic_reason (tr_kind tr))) = Inr w'"
    and b: "br_orders b = dset (wk_orders w) c po" "br_drawn_ids (wk_broker w) \<le> br_drawn_ids b" "or_reduce_only (po_req po)" "or_instrument (po_req po) = wk_inst w"
    using assms False
    by (cases "tr_kind tr") (auto simp: fire_def Let_def set_order_def new_order_def mk_order_request_def elim!: rbind_InrE split: if_splits option.splits)
  have "bar_born E t w (w\<lparr>wk_broker := b, wk_st := ?st\<rparr>)" using born_new [OF b(3,4)] b(2) by (simp add: bar_born_def b(1))
  then show ?thesis using execute_born [OF ex] bar_born_trans by blast
qed

interpretation bb: bar_relation bar_born
  by unfold_locales (use bar_born_trans fire_born execute_born in \<open>auto simp: bar_born_def\<close>)

lemma bar_work_born:
  assumes "bar_work E ba w0 = Inr w3"
  shows "bar_born E (ba_open_time_ns ba) w0 w3"
proof -
  from assms obtain w1 w2 where w1: "market_phase E ba w0 = Inr w1" and w2: "trigger_phase E ba w1 = Inr w2"
    and w3: "orphan_phase w2 = Inr w3" by (auto simp: bar_work_def elim!: rbind_InrE)
  have "bar_born E (ba_open_time_ns ba) w0 w1"
    using w1 bb.R_refl by (auto simp: market_phase_def fill_market_orders_def bar_born_def elim!: rbind_InrE split: if_splits dest!: bb.R_fill_market)
  moreover have "bar_born E (ba_open_time_ns ba) w1 w2"
    using w2 bb.R_refl bb.R_walk_triggers by (auto simp: trigger_phase_def split: if_splits)
  moreover have "bar_born E (ba_open_time_ns ba) w2 w3"
    using w3 bb.R_refl by (auto simp: orphan_phase_def expire_orphan_stops_def bar_born_def Let_def elim!: rbind_InrE split: if_splits dest!: drop_orphans_born)
  ultimately show ?thesis by (blast intro: bar_born_trans)
qed

lemma on_bar_born:
  assumes "on_bar E b ba = Inr (b', fs)" and "broker_inv E b"
  shows "born_reducing (ba_instrument ba) (br_orders b) (br_orders b')" "br_drawn_ids b \<le> br_drawn_ids b'"
proof -
  from assms(1) obtain st where st: "dget (br_state b) (ba_instrument ba) = Some st" by (auto simp: on_bar_def Let_def split: option.splits if_splits)
  then have i: "in_symbol_canon (st_spec st) = ba_instrument ba" using assms(2) by (simp add: broker_inv_def)
  from assms(1) st obtain w where w: "bar_work E ba \<lparr>wk_broker = funding_due b st (ba_open_time_ns ba) E ba, wk_st = st, wk_fills = []\<rparr> = Inr w"
    and b': "br_orders b' = wk_orders w" "br_drawn_ids b' = br_drawn_ids (wk_broker w)"
    by (auto simp: on_bar_def Let_def elim!: rbind_InrE split: if_splits)
  from bar_work_born [OF w] show "born_reducing (ba_instrument ba) (br_orders b) (br_orders b')" "br_drawn_ids b \<le> br_drawn_ids b'"
    by (simp_all add: bar_born_def b' i)
qed

section \<open>Under the latch every execution is a retreat\<close>

definition only_reducing :: "(uuid, paper_order) dict \<Rightarrow> bool" where
  "only_reducing os \<longleftrightarrow> (\<forall>c po. dget os c = Some po \<longrightarrow> po_status po = OS_NEW \<longrightarrow> or_reduce_only (po_req po))"

text \<open>Towards zero, not across it; or no move at all.\<close>

definition shrinks :: "dec \<Rightarrow> dec \<Rightarrow> bool" where
  "shrinks p p' \<longleftrightarrow> p' = p \<or> (0 \<le> p' \<and> p' \<le> p) \<or> (p' \<le> 0 \<and> p \<le> p')"

lemma shrinks_trans: "shrinks p p' \<Longrightarrow> shrinks p' p'' \<Longrightarrow> shrinks p p''"
  by (auto simp: shrinks_def)

lemma legal_fills_shrink:
  "legal_fills cx os i t p fs \<Longrightarrow> \<forall>f \<in> set fs. \<forall>po. dget os (fl_client_order_id f) = Some po \<longrightarrow> or_reduce_only (po_req po)
    \<Longrightarrow> shrinks p (foldl (pos_step cx) p fs)"
proof (induction fs arbitrary: p)
  case (Cons f fs)
  from Cons.prems have "retreat p (pos_step cx p f)" by (auto simp: legal_fill_def)
  then have "shrinks p (pos_step cx p f)" by (auto simp: retreat_def shrinks_def)
  with Cons show ?case by (auto intro: shrinks_trans)
qed (simp add: shrinks_def)

lemma on_bar_shrinks:
  assumes inv: "broker_inv E b" and only: "only_reducing (br_orders b)" and run: "on_bar E b ba = Inr (b', fs)"
    and st: "dget (br_state b) (ba_instrument ba) = Some st" "dget (br_state b') (ba_instrument ba) = Some st'"
  shows "shrinks (st_position st) (st_position st')"
proof -
  from on_bar_facts [OF inv run] st obtain
    legal: "legal_fills (en_cx E) (br_orders b') (ba_instrument ba) (ba_open_time_ns ba) (st_position st) fs"
    and pos: "st_position st' = foldl (pos_step (en_cx E)) (st_position st) fs"
    and fresh: "fresh_fills (br_orders b) fs (br_orders b')" by auto
  have "or_reduce_only (po_req po)" if f: "f \<in> set fs" and po: "dget (br_orders b') (fl_client_order_id f) = Some po" for f po
  proof -
    from on_bar_born(1) [OF run inv] po consider po0 where "dget (br_orders b) (fl_client_order_id f) = Some po0" "po_req po0 = po_req po"
      | "or_reduce_only (po_req po)" unfolding born_reducing_def by blast
    then show ?thesis
    proof cases
      case 1
      have "\<not> settled (br_orders b) (fl_client_order_id f)" using fresh f by (auto simp: fresh_fills_def)
      with 1(1) have "po_status po0 = OS_NEW" by (auto simp: settled_def)
      with 1 only show ?thesis unfolding only_reducing_def by metis
    qed
  qed
  then show ?thesis unfolding pos by (intro legal_fills_shrink [OF legal]) blast
qed

section \<open>The invariant of the loop\<close>

definition orders_watched :: "string \<Rightarrow> (uuid, paper_order) dict \<Rightarrow> (uuid, order_record) dict \<Rightarrow> uuid list \<Rightarrow> bool" where
  "orders_watched i os recs watched \<longleftrightarrow>
     (\<forall>c po. dget os c = Some po \<longrightarrow> po_status po = OS_NEW \<longrightarrow> or_instrument (po_req po) = i
        \<and> (or_reduce_only (po_req po) \<or> (c \<in> set watched \<and> (\<exists>r. dget recs c = Some r \<and> or_otype (oc_request r) = MARKET \<and> \<not> or_reduce_only (oc_request r)))))
   \<and> (\<forall>c \<in> set watched. \<exists>po. dget os c = Some po \<and> (\<forall>r. dget recs c = Some r \<longrightarrow> final_status (oc_status r) \<longrightarrow> po_status po \<noteq> OS_NEW))"

definition in_step :: "dctx \<Rightarrow> string \<Rightarrow> broker \<Rightarrow> portfolio \<Rightarrow> bool" where
  "in_step cx i b p \<longleftrightarrow> qty_repr cx p \<and> (\<exists>st. dget (br_state b) i = Some st \<and> position_qty p i = st_position st)"

definition loop_inv :: "loop_env \<Rightarrow> loop_cfg \<Rightarrow> trading_loop \<Rightarrow> bool" where
  "loop_inv E C L \<longleftrightarrow> broker_inv (le_broker E) (tl_broker L)
     \<and> orders_watched (lp_sym C) (br_orders (tl_broker L)) (tl_orders L) (tl_open_orders L)
     \<and> in_step (le_cx E) (lp_sym C) (tl_broker L) (tl_portfolio L)
     \<and> (\<forall>n \<ge> br_drawn_ids (tl_broker L). dget (ro_requests (tl_router L)) (en_ids (le_broker E) n) = None)
     \<and> rg_killswitch (tl_guard L) = Some (fs_killswitch (tl_fsm L))"

text \<open>Changes of the broker that neither add orders nor move positions.\<close>

definition calm :: "broker_env \<Rightarrow> broker \<Rightarrow> broker \<Rightarrow> bool" where
  "calm E b b' \<longleftrightarrow> quiet E b b' \<and> br_drawn_ids b' = br_drawn_ids b \<and> (\<forall>c. dget (br_orders b) c = None \<longrightarrow> dget (br_orders b') c = None)"

lemma calm_new:
  assumes "calm E b b'" "dget (br_orders b') c = Some po'" "po_status po' = OS_NEW"
  obtains po where "dget (br_orders b) c = Some po" "po_status po = OS_NEW" "po_req po' = po_req po"
proof -
  from assms(1,2) have "dget (br_orders b) c \<noteq> None" by (auto simp: calm_def)
  then obtain po where po: "dget (br_orders b) c = Some po" by blast
  with assms have "po_req po' = po_req po" "po_status po \<noteq> OS_NEW \<longrightarrow> po' = po"
    unfolding calm_def quiet_def orders_grow_def by fastforce+
  with po assms(3) show thesis by (intro that) auto
qed

lemma watched_grow:
  assumes w: "orders_watched i os recs ws" and grow: "orders_grow os os'" and born: "born_reducing i os os'"
  shows "orders_watched i os' recs ws"
  unfolding orders_watched_def
proof (intro conjI allI ballI impI)
  fix c po' assume c: "dget os' c = Some po'" "po_status po' = OS_NEW"
  consider po where "dget os c = Some po" "po_req po = po_req po'" "po_status po = OS_NEW" | "or_reduce_only (po_req po')" "or_instrument (po_req po') = i"
    using born grow c unfolding born_reducing_def orders_grow_def by (metis option.inject)
  then show "or_instrument (po_req po') = i"
    and "or_reduce_only (po_req po') \<or> (c \<in> set ws \<and> (\<exists>r. dget recs c = Some r \<and> or_otype (oc_request r) = MARKET \<and> \<not> or_reduce_only (oc_request r)))"
    using w unfolding orders_watched_def by (metis)+
next
  fix c assume "c \<in> set ws"
  then obtain po where po: "dget os c = Some po" "\<forall>r. dget recs c = Some r \<longrightarrow> final_status (oc_status r) \<longrightarrow> po_status po \<noteq> OS_NEW"
    using w unfolding orders_watched_def by blast
  with grow obtain po' where "dget os' c = Some po'" "po_status po \<noteq> OS_NEW \<longrightarrow> po' = po" unfolding orders_grow_def by blast
  with po(2) show "\<exists>po'. dget os' c = Some po' \<and> (\<forall>r. dget recs c = Some r \<longrightarrow> final_status (oc_status r) \<longrightarrow> po_status po' \<noteq> OS_NEW)" by auto
qed

lemma calm_born: "calm E b b' \<Longrightarrow> born_reducing i (br_orders b) (br_orders b')"
  unfolding born_reducing_def calm_def quiet_def orders_grow_def by (metis option.exhaust option.inject)

lemma calm_watched: "calm E b b' \<Longrightarrow> orders_watched i (br_orders b) recs ws \<Longrightarrow> orders_watched i (br_orders b') recs ws"
  by (rule watched_grow) (auto simp: calm_def quiet_def intro: calm_born)

lemma calm_in_step: "calm E b b' \<Longrightarrow> in_step cx i b p \<Longrightarrow> in_step cx i b' p"
proof -
  assume "calm E b b'" "in_step cx i b p"
  then obtain st where st: "dget (br_state b) i = Some st" "position_qty p i = st_position st" "qty_repr cx p" by (auto simp: in_step_def)
  with \<open>calm E b b'\<close> have "map_option st_position (dget (br_state b') i) = Some (st_position st)" unfolding calm_def quiet_def by simp
  with st show "in_step cx i b' p" by (auto simp: in_step_def)
qed

lemma calm_trans:
  assumes "calm E b b'" "calm E b' b''"
  shows "calm E b b''"
proof -
  have "quiet E b b''" using assms unfolding calm_def quiet_def by (metis orders_grow_trans)
  then show ?thesis using assms by (simp add: calm_def)
qed

lemma calm_refl: "broker_inv E b \<Longrightarrow> calm E b b"
  by (simp add: calm_def quiet_refl)

lemma calm_inv: "calm E b b' \<Longrightarrow> broker_inv E b'"
  by (simp add: calm_def quiet_def)

lemma calm_cancel: "broker_inv E b \<Longrightarrow> cancel b c = Inr (b', r) \<Longrightarrow> calm E b b'"
  using cancel_quiet [of E b c b' r]
  by (auto simp: calm_def cancel_def br_require_def elim!: rbind_InrE split: option.splits if_splits)

lemma calm_set:
  assumes "broker_inv E b"
  shows "set_take_profit cx b i p s = Inr b' \<Longrightarrow> calm E b b'" and "set_liquidation_price b i p = Inr b' \<Longrightarrow> calm E b b'"
    and "set_funding_rate b i r = Inr b' \<Longrightarrow> calm E b b'"
  using set_quiet [OF assms] unfolding calm_def
  by (auto simp: set_take_profit_def set_liquidation_price_def set_funding_rate_def elim!: rbind_InrE split: if_splits)

lemma calm_drain: "broker_inv E b \<Longrightarrow> calm E b (fst (drain_funding b))"
  using drain_quiet [of E b] by (simp add: calm_def) (simp add: drain_funding_def)

lemma loop_inv_calm:
  assumes "loop_inv E C L" "calm (le_broker E) (tl_broker L) (tl_broker L')"
    and "tl_orders L' = tl_orders L" "tl_open_orders L' = tl_open_orders L" "tl_portfolio L' = tl_portfolio L" "tl_router L' = tl_router L"
      "rg_killswitch (tl_guard L') = Some (fs_killswitch (tl_fsm L'))"
  shows "loop_inv E C L'"
  using assms calm_inv [OF assms(2)] calm_watched [OF assms(2)] calm_in_step [OF assms(2)] unfolding loop_inv_def
  by (metis calm_def)

lemma loop_inv_same:
  assumes "loop_inv E C L" and "tl_broker L' = tl_broker L" "tl_orders L' = tl_orders L" "tl_open_orders L' = tl_open_orders L"
    "tl_portfolio L' = tl_portfolio L" "tl_router L' = tl_router L" "rg_killswitch (tl_guard L') = Some (fs_killswitch (tl_fsm L'))"
  shows "loop_inv E C L'"
  using assms by (simp add: loop_inv_def)

section \<open>Before the bar\<close>

lemma cancel_effect:
  assumes "broker_inv E b" "cancel b c = Inr (b', r)"
  shows "\<forall>po. dget (br_orders b') c = Some po \<longrightarrow> po_status po \<noteq> OS_NEW"
  using assms by (auto simp: cancel_def br_require_def elim!: rbind_InrE split: option.splits if_splits)

lemma cancel_increases_facts:
  assumes "broker_inv E b" "cancel_increases recs b es cs = Inr (b', es', ds)"
  shows "calm E b b' \<and> (\<forall>c \<in> set cs. \<forall>r. dget recs c = Some r \<longrightarrow> or_otype (oc_request r) = MARKET \<longrightarrow> \<not> or_reduce_only (oc_request r)
    \<longrightarrow> (\<forall>po. dget (br_orders b') c = Some po \<longrightarrow> po_status po \<noteq> OS_NEW))"
  using assms
proof (induction cs arbitrary: b es ds)
  case Nil
  then show ?case by (simp add: calm_refl)
next
  case (Cons c cs)
  obtain r where r: "dget recs c = Some r" using Cons.prems(2) by (auto split: option.splits)
  show ?case
  proof (cases "or_otype (oc_request r) = MARKET \<and> \<not> or_reduce_only (oc_request r)")
    case False
    with Cons r show ?thesis by auto
  next
    case True
    with Cons.prems(2) r obtain b1 ok es1 ds1 where c: "cancel b c = Inr (b1, ok)" and rest: "cancel_increases recs b1 es1 cs = Inr (b', es', ds1)"
      by (auto elim!: rbind_InrE split: if_splits)
    note k = calm_cancel [OF Cons.prems(1) c]
    note ih = Cons.IH [OF calm_inv [OF k] rest]
    have "po_status po \<noteq> OS_NEW" if "dget (br_orders b') c = Some po" for po
      using ih that cancel_effect [OF Cons.prems(1) c] calm_new [of E b1 b' c po] by blast
    with ih k r show ?thesis by (auto intro: calm_trans)
  qed
qed

lemma cancel_stops_calm: "broker_inv E b \<Longrightarrow> cancel_stops recs ds b cs = Inr b' \<Longrightarrow> calm E b b'"
proof (induction cs arbitrary: b)
  case Nil
  then show ?case by (simp add: calm_refl)
next
  case (Cons c cs)
  then obtain r where r: "dget recs c = Some r" by (auto split: option.splits)
  show ?case
  proof (cases "oc_role r = ''stop'' \<and> oc_decision_ns r \<in> set ds")
    case False
    with Cons r show ?thesis by auto
  next
    case True
    with Cons.prems(2) r obtain b1 q where c: "cancel b c = Inr (b1, q)" and rest: "cancel_stops recs ds b1 cs = Inr b'" by (auto elim!: rbind_InrE)
    note k = calm_cancel [OF Cons.prems(1) c]
    from Cons.IH [OF calm_inv [OF k] rest] show ?thesis by (rule calm_trans [OF k])
  qed
qed

lemma cancel_pending_facts:
  assumes inv: "loop_inv E C L" and run: "cancel_pending_increases E C L = Inr L'"
  shows "loop_inv E C L' \<and> only_reducing (br_orders (tl_broker L'))"
proof -
  have bi: "broker_inv (le_broker E) (tl_broker L)" using inv by (simp add: loop_inv_def)
  obtain b es ds where ci: "cancel_increases (tl_orders L) (tl_broker L) (tl_entries L) (tl_open_orders L) = Inr (b, es, ds)"
    using run by (auto simp: cancel_pending_increases_def elim!: rbind_InrE)
  note f = cancel_increases_facts [OF bi ci]
  have L': "calm (le_broker E) b (tl_broker L')" "tl_orders L' = tl_orders L" "tl_open_orders L' = tl_open_orders L" "tl_portfolio L' = tl_portfolio L"
    "tl_router L' = tl_router L" "tl_guard L' = tl_guard L" "tl_fsm L' = tl_fsm L"
    using run ci calm_inv [OF conjunct1 [OF f]]
    by (auto simp: cancel_pending_increases_def elim!: rbind_InrE split: if_splits
        intro: calm_refl calm_trans [OF cancel_stops_calm calm_set(1)] calm_inv [OF cancel_stops_calm])
  have k: "calm (le_broker E) (tl_broker L) (tl_broker L')" using f L'(1) calm_trans by blast
  have "loop_inv E C L'" by (rule loop_inv_calm [OF inv k]) (use L' inv in \<open>simp_all add: loop_inv_def\<close>)
  moreover have "or_reduce_only (po_req po)" if po: "dget (br_orders (tl_broker L')) c = Some po" "po_status po = OS_NEW" for c po
  proof (rule ccontr)
    assume n: "\<not> or_reduce_only (po_req po)"
    from calm_new [OF k po] obtain p0 where p0: "dget (br_orders (tl_broker L)) c = Some p0" "po_status p0 = OS_NEW" "po_req po = po_req p0" .
    with inv n obtain r where r: "c \<in> set (tl_open_orders L)" "dget (tl_orders L) c = Some r" "or_otype (oc_request r) = MARKET" "\<not> or_reduce_only (oc_request r)"
      unfolding loop_inv_def orders_watched_def by metis
    from calm_new [OF L'(1) po] obtain p1 where "dget (br_orders b) c = Some p1" "po_status p1 = OS_NEW" .
    with f r show False by blast
  qed
  ultimately show ?thesis by (simp add: only_reducing_def)
qed


section \<open>The executions of a bar\<close>

lemma position_qty_funding [simp]: "position_qty (apply_funding cx p ch) i = position_qty p i"
  by (auto simp: position_qty_def apply_funding_def Let_def position_of_def new_position_def split: option.splits)

lemma position_qty_fundings [simp]: "position_qty (foldl (apply_funding cx) p chs) i = position_qty p i"
  by (induction chs arbitrary: p) simp_all

lemma qty_repr_fundings [simp]: "qty_repr cx (foldl (apply_funding cx) p chs) = qty_repr cx p"
  by (simp add: qty_repr_def)

lemma mark_loop_qty: "position_qty (fst (mark_loop cx p xs)) i = position_qty p i"
proof (induction xs arbitrary: p)
  case (Cons x xs)
  obtain j v where x: "x = (j, v)" by (cases x)
  have "position_qty (mark_one cx p j v) i = position_qty p i"
    by (auto simp: mark_one_def position_qty_def Let_def split: option.splits)
  then show ?case using Cons.IH [of "mark_one cx p j v"] by (simp add: x)
qed simp

lemma pf_mark_qty: "pf_mark cx p xs = (p', r) \<Longrightarrow> position_qty p' i = position_qty p i"
  using mark_loop_qty [of cx p xs i] by (auto simp: pf_mark_def split: prod.splits sum.splits)

lemma close_positions_same:
  "close_positions cx L cts = Inr (L', ks) \<Longrightarrow> tl_broker L' = tl_broker L \<and> tl_orders L' = tl_orders L \<and> tl_open_orders L' = tl_open_orders L
     \<and> tl_portfolio L' = tl_portfolio L \<and> tl_router L' = tl_router L \<and> tl_guard L' = tl_guard L \<and> tl_fsm L' = tl_fsm L"
proof (induction cts arbitrary: L ks)
  case (Cons ct cts)
  then show ?case by (fastforce simp: close_position_def elim!: rbind_InrE split: option.splits)
qed simp

text \<open>Booking one fill: the broker stays, the account moves by the fill, the record of the order keeps its request.\<close>

lemma loop_apply_fill_facts:
  assumes run: "loop_apply_fill E C L f = Inr (L', ops, cls, new)"
  shows "tl_broker L' = tl_broker L \<and> tl_open_orders L' = tl_open_orders L \<and> tl_router L' = tl_router L \<and> tl_guard L' = tl_guard L \<and> tl_fsm L' = tl_fsm L
    \<and> (\<exists>reason trades. apply_fill (le_cx E) (tl_portfolio L) f reason = Inr (tl_portfolio L', trades))
    \<and> (\<exists>r. tl_orders L' = dset (tl_orders L) (fl_client_order_id f) r
         \<and> (\<forall>r0. dget (tl_orders L) (fl_client_order_id f) = Some r0 \<longrightarrow> oc_request r = oc_request r0))"
proof -
  let ?c = "fl_client_order_id f"
  from run obtain r0 r where r0: "record_for_fill L f = Inr r0" and r: "fill_record (le_cx E) r0 f = Inr r"
    by (auto simp: loop_apply_fill_def Let_def elim!: rbind_InrE)
  have req: "oc_request r = oc_request r0" using r by (auto simp: fill_record_def Let_def elim!: rbind_InrE)
  have same: "dget (tl_orders L) ?c = Some q \<Longrightarrow> r0 = q" for q using r0 by (simp add: record_for_fill_def)
  from run r0 r obtain pf trades reason L3 shut L4 opened where ap: "apply_fill (le_cx E) (tl_portfolio L) f reason = Inr (pf, trades)"
    and cl: "close_positions (le_cx E) (L\<lparr>tl_orders := dset (tl_orders L) ?c r, tl_touched := ?c # tl_touched L, tl_portfolio := pf\<rparr>) trades = Inr (L3, shut)"
    and op: "(if position_qty pf (lp_sym C) \<noteq> 0 \<and> (position_qty (tl_portfolio L) (lp_sym C) = 0 \<or> sign_of (position_qty pf (lp_sym C)) \<noteq> sign_of (position_qty (tl_portfolio L) (lp_sym C)))
                    then rbind (open_position E C L3 f (position_qty pf (lp_sym C))) (\<lambda>L4. Inr (L4, [length (tl_positions L3)])) else Inr (L3, [])) = Inr (L4, opened)"
    and L': "L' = log_event L4 (EvFill f reason)"
    by (auto simp: loop_apply_fill_def Let_def elim!: rbind_InrE)
  have L4: "tl_broker L4 = tl_broker L3 \<and> tl_orders L4 = tl_orders L3 \<and> tl_open_orders L4 = tl_open_orders L3 \<and> tl_portfolio L4 = tl_portfolio L3
      \<and> tl_router L4 = tl_router L3 \<and> tl_guard L4 = tl_guard L3 \<and> tl_fsm L4 = tl_fsm L3"
    using op by (auto simp: open_position_def Let_def elim!: rbind_InrE split: if_splits option.splits)
  from close_positions_same [OF cl] L4 have all: "tl_broker L' = tl_broker L" "tl_open_orders L' = tl_open_orders L" "tl_router L' = tl_router L"
    "tl_guard L' = tl_guard L" "tl_fsm L' = tl_fsm L" "tl_portfolio L' = pf" "tl_orders L' = dset (tl_orders L) ?c r"
    by (simp_all add: L' log_event_def)
  with ap req same show ?thesis by auto
qed

lemma watched_set:
  assumes w: "orders_watched i os recs ws" and same: "\<forall>r0. dget recs c = Some r0 \<longrightarrow> oc_request r = oc_request r0"
    and fin: "\<forall>po. final_status (oc_status r) \<longrightarrow> dget os c = Some po \<longrightarrow> po_status po \<noteq> OS_NEW"
  shows "orders_watched i os (dset recs c r) ws"
  unfolding orders_watched_def
proof (intro conjI allI ballI impI)
  fix c' po assume c: "dget os c' = Some po" "po_status po = OS_NEW"
  show "or_instrument (po_req po) = i" using w c unfolding orders_watched_def by metis
  show "or_reduce_only (po_req po) \<or> (c' \<in> set ws \<and> (\<exists>r'. dget (dset recs c r) c' = Some r' \<and> or_otype (oc_request r') = MARKET \<and> \<not> or_reduce_only (oc_request r')))"
  proof (cases "or_reduce_only (po_req po)")
    case False
    with w c obtain r0 where "c' \<in> set ws" "dget recs c' = Some r0" "or_otype (oc_request r0) = MARKET" "\<not> or_reduce_only (oc_request r0)"
      unfolding orders_watched_def by metis
    with same show ?thesis by auto
  qed simp
next
  fix c' assume "c' \<in> set ws"
  with w obtain po where "dget os c' = Some po" "\<forall>r. dget recs c' = Some r \<longrightarrow> final_status (oc_status r) \<longrightarrow> po_status po \<noteq> OS_NEW"
    unfolding orders_watched_def by blast
  with fin show "\<exists>po. dget os c' = Some po \<and> (\<forall>r'. dget (dset recs c r) c' = Some r' \<longrightarrow> final_status (oc_status r') \<longrightarrow> po_status po \<noteq> OS_NEW)"
    by (intro exI [of _ po]) (auto split: if_splits)
qed

lemma loop_apply_fills_facts:
  assumes "loop_apply_fills E C L fs = Inr (L', ops, cls, new)"
    and "orders_watched i (br_orders (tl_broker L)) (tl_orders L) (tl_open_orders L)" and "qty_repr (le_cx E) (tl_portfolio L)"
    and "\<forall>f \<in> set fs. settled (br_orders (tl_broker L)) (fl_client_order_id f) \<and> 0 < fl_qty f \<and> repr (le_cx E) (fl_qty f) \<and> fl_instrument f = i"
  shows "tl_broker L' = tl_broker L \<and> tl_open_orders L' = tl_open_orders L \<and> tl_router L' = tl_router L \<and> tl_guard L' = tl_guard L \<and> tl_fsm L' = tl_fsm L
    \<and> orders_watched i (br_orders (tl_broker L')) (tl_orders L') (tl_open_orders L') \<and> qty_repr (le_cx E) (tl_portfolio L')
    \<and> position_qty (tl_portfolio L') i = foldl (pos_step (le_cx E)) (position_qty (tl_portfolio L) i) fs"
  using assms
proof (induction fs arbitrary: L ops cls new)
  case (Cons f fs)
  then obtain L1 o1 c1 n1 o2 c2 n2 where one: "loop_apply_fill E C L f = Inr (L1, o1, c1, n1)" and rest: "loop_apply_fills E C L1 fs = Inr (L', o2, c2, n2)"
    by (auto elim!: rbind_InrE)
  from loop_apply_fill_facts [OF one] obtain reason trades r where
    s: "tl_broker L1 = tl_broker L" "tl_open_orders L1 = tl_open_orders L" "tl_router L1 = tl_router L" "tl_guard L1 = tl_guard L" "tl_fsm L1 = tl_fsm L"
    and ap: "apply_fill (le_cx E) (tl_portfolio L) f reason = Inr (tl_portfolio L1, trades)"
    and r: "tl_orders L1 = dset (tl_orders L) (fl_client_order_id f) r" "\<forall>r0. dget (tl_orders L) (fl_client_order_id f) = Some r0 \<longrightarrow> oc_request r = oc_request r0"
    by blast
  have w: "orders_watched i (br_orders (tl_broker L1)) (tl_orders L1) (tl_open_orders L1)"
    unfolding s r(1) by (rule watched_set [OF Cons.prems(2) r(2)]) (use Cons.prems(4) in \<open>auto simp: settled_def\<close>)
  have q: "0 < fl_qty f" "repr (le_cx E) (fl_qty f)" "fl_instrument f = i" using Cons.prems(4) by simp_all
  note a = apply_fill_qty [OF Cons.prems(3) q(1,2) ap]
  have "\<forall>g \<in> set fs. settled (br_orders (tl_broker L1)) (fl_client_order_id g) \<and> 0 < fl_qty g \<and> repr (le_cx E) (fl_qty g) \<and> fl_instrument g = i"
    using Cons.prems(4) by (simp add: s)
  from Cons.IH [OF rest w a(2) this] show ?case by (auto simp: s a(1) q(3))
qed simp

lemma watched_drop:
  assumes w: "orders_watched i os recs (pre @ c # ws)" and c: "\<forall>po. dget os c = Some po \<longrightarrow> po_status po \<noteq> OS_NEW"
  shows "orders_watched i os recs (pre @ ws)"
  unfolding orders_watched_def
proof (intro conjI allI ballI impI)
  fix c' po assume "dget os c' = Some po" "po_status po = OS_NEW"
  with w c show "or_instrument (po_req po) = i"
    "or_reduce_only (po_req po) \<or> (c' \<in> set (pre @ ws) \<and> (\<exists>r. dget recs c' = Some r \<and> or_otype (oc_request r) = MARKET \<and> \<not> or_reduce_only (oc_request r)))"
    unfolding orders_watched_def by fastforce+
qed (use w in \<open>auto simp: orders_watched_def\<close>)

lemma sync_loop_watched:
  assumes "sync_loop b touched recs ws = Inr (recs', keep, out)"
    and "orders_watched i (br_orders b) recs (pre @ ws)"
  shows "orders_watched i (br_orders b) recs' (pre @ keep)"
  using assms
proof (induction ws arbitrary: recs keep out pre)
  case (Cons c ws)
  then obtain r where r: "dget recs c = Some r" by (auto split: option.splits)
  obtain r' ch where r': "sync_record b touched c r = (r', ch)" by (cases "sync_record b touched c r")
  from Cons.prems(1) r r' obtain keep1 out1 where rest: "sync_loop b touched (dset recs c r') ws = Inr (recs', keep1, out1)"
    and keep: "keep = (if final_status (oc_status r') then keep1 else c # keep1)"
    by (auto simp: Let_def elim!: rbind_InrE)
  have req: "oc_request r' = oc_request r" and fin: "final_status (oc_status r') \<Longrightarrow> dget (br_orders b) c = Some po \<Longrightarrow> po_status po \<noteq> OS_NEW" for po
    using r' Cons.prems(2) r unfolding orders_watched_def
    by (auto simp: sync_record_def order_ack_of_def final_status_def split: if_splits option.splits)
  have w: "orders_watched i (br_orders b) (dset recs c r') (pre @ c # ws)"
    by (rule watched_set [OF Cons.prems(2)]) (use r req fin in auto)
  show ?case
  proof (cases "final_status (oc_status r')")
    case True
    then have "orders_watched i (br_orders b) (dset recs c r') (pre @ ws)" using watched_drop [OF w] fin by blast
    from Cons.IH [OF rest this] True keep show ?thesis by simp
  next
    case False
    from Cons.IH [OF rest, of "pre @ [c]"] w False keep show ?thesis by simp
  qed
qed simp

lemma legal_fill_books: "legal_fill cx os i t p f \<Longrightarrow> settled os (fl_client_order_id f) \<and> 0 < fl_qty f \<and> repr cx (fl_qty f) \<and> fl_instrument f = i"
  by (auto simp: legal_fill_def settled_def)

lemma execution_phase_facts:
  assumes inv: "loop_inv E C L" and run: "execution_phase E C L ba = Inr (L', ex)" and i: "ba_instrument ba = lp_sym C"
  shows "loop_inv E C L' \<and> tl_fsm L' = tl_fsm L
    \<and> (only_reducing (br_orders (tl_broker L)) \<longrightarrow> shrinks (position_qty (tl_portfolio L) (lp_sym C)) (position_qty (tl_portfolio L') (lp_sym C)))"
proof -
  let ?i = "lp_sym C" and ?B = "le_broker E" and ?cx = "le_cx E"
  from inv have bi: "broker_inv ?B (tl_broker L)" and w0: "orders_watched ?i (br_orders (tl_broker L)) (tl_orders L) (tl_open_orders L)"
    and ins: "in_step ?cx ?i (tl_broker L) (tl_portfolio L)"
    and ro: "\<forall>n \<ge> br_drawn_ids (tl_broker L). dget (ro_requests (tl_router L)) (en_ids ?B n) = None"
    and ks: "rg_killswitch (tl_guard L) = Some (fs_killswitch (tl_fsm L))" by (simp_all add: loop_inv_def)
  from run obtain b fs where ob: "on_bar ?B (tl_broker L) ba = Inr (b, fs)" by (auto simp: execution_phase_def elim!: rbind_InrE)
  define b1 where "b1 = fst (drain_funding b)"
  define L1 where "L1 = L\<lparr>tl_broker := b1, tl_portfolio := foldl (apply_funding ?cx) (tl_portfolio L) (snd (drain_funding b)), tl_touched := []\<rparr>"
  from run ob obtain L2 ops cls new L3 upd where fl: "loop_apply_fills E C L1 fs = Inr (L2, ops, cls, new)"
    and sy: "(if tl_open_orders L2 = [] then Inr (L2, []) else sync_open_orders L2) = Inr (L3, upd)"
    and rf: "(if (fs \<noteq> [] \<or> snd (drain_funding b) \<noteq> []) \<and> position_qty (tl_portfolio L3) ?i \<noteq> 0 then refresh_liquidation E C L3 else Inr L3) = Inr L'"
    by (auto simp: execution_phase_def L1_def b1_def Let_def split_beta elim!: rbind_InrE)
  from on_bar_facts [OF bi ob] i obtain st st' where bi': "broker_inv ?B b" and grow: "orders_grow (br_orders (tl_broker L)) (br_orders b)"
    and st: "dget (br_state (tl_broker L)) ?i = Some st" "dget (br_state b) ?i = Some st'"
    and legal: "legal_fills ?cx (br_orders b) ?i (ba_open_time_ns ba) (st_position st) fs"
    and pos: "st_position st' = foldl (pos_step ?cx) (st_position st) fs" by fastforce
  have b1: "br_orders b1 = br_orders b" "br_state b1 = br_state b" "broker_inv ?B b1" "br_drawn_ids b1 = br_drawn_ids b"
    using calm_inv [OF calm_drain [OF bi']] by (simp_all add: b1_def) (simp_all add: drain_funding_def)
  have drawn: "br_drawn_ids (tl_broker L) \<le> br_drawn_ids b" by (rule on_bar_born(2) [OF ob bi])
  have w1: "orders_watched ?i (br_orders b) (tl_orders L) (tl_open_orders L)"
    by (rule watched_grow [OF w0 grow on_bar_born(1) [OF ob bi, unfolded i]])
  have fills: "\<forall>f \<in> set fs. settled (br_orders (tl_broker L1)) (fl_client_order_id f) \<and> 0 < fl_qty f \<and> repr ?cx (fl_qty f) \<and> fl_instrument f = ?i"
  proof
    fix f assume "f \<in> set fs"
    then obtain q where "legal_fill ?cx (br_orders b) ?i (ba_open_time_ns ba) q f" using legal_fills_each [OF legal] by blast
    from legal_fill_books [OF this] show "settled (br_orders (tl_broker L1)) (fl_client_order_id f) \<and> 0 < fl_qty f \<and> repr ?cx (fl_qty f) \<and> fl_instrument f = ?i"
      by (simp add: L1_def b1)
  qed
  have q1: "qty_repr ?cx (tl_portfolio L1)" "position_qty (tl_portfolio L1) ?i = st_position st" using ins st by (auto simp: L1_def in_step_def)
  from loop_apply_fills_facts [OF fl _ q1(1) fills] w1
  have f2: "tl_broker L2 = b1" "tl_open_orders L2 = tl_open_orders L" "tl_router L2 = tl_router L" "tl_guard L2 = tl_guard L" "tl_fsm L2 = tl_fsm L"
    "orders_watched ?i (br_orders b) (tl_orders L2) (tl_open_orders L2)" "qty_repr ?cx (tl_portfolio L2)"
    "position_qty (tl_portfolio L2) ?i = st_position st'"
    using q1(2) pos b1 by (auto simp: L1_def)
  have f3: "tl_broker L3 = b1" "tl_router L3 = tl_router L" "tl_guard L3 = tl_guard L" "tl_fsm L3 = tl_fsm L" "tl_portfolio L3 = tl_portfolio L2"
    "orders_watched ?i (br_orders b) (tl_orders L3) (tl_open_orders L3)"
    using sy f2 sync_loop_watched [of b1 _ _ _ _ _ _ ?i "[]"] b1
    by (auto simp: sync_open_orders_def elim!: rbind_InrE split: if_splits)
  have L3: "loop_inv E C L3" using f3 f2 b1 ro ks drawn st by (auto simp: loop_inv_def in_step_def)
  have L': "loop_inv E C L' \<and> tl_fsm L' = tl_fsm L3 \<and> tl_portfolio L' = tl_portfolio L3"
  proof (cases "tl_broker L' = tl_broker L3 \<and> L' = L3")
    case True
    with L3 show ?thesis by simp
  next
    case False
    with rf have r: "refresh_liquidation E C L3 = Inr L'" by (auto split: if_splits)
    then obtain L'': "calm ?B (tl_broker L3) (tl_broker L')" "tl_orders L' = tl_orders L3" "tl_open_orders L' = tl_open_orders L3" "tl_portfolio L' = tl_portfolio L3"
      "tl_router L' = tl_router L3" "tl_guard L' = tl_guard L3" "tl_fsm L' = tl_fsm L3"
      using calm_set(2) [of ?B "tl_broker L3"] calm_refl [of ?B "tl_broker L3"] L3
      by (auto simp: refresh_liquidation_def Let_def loop_inv_def elim!: rbind_InrE split: option.splits if_splits)
    have "loop_inv E C L'" by (rule loop_inv_calm [OF L3 L''(1)]) (use L'' L3 in \<open>simp_all add: loop_inv_def\<close>)
    with L'' show ?thesis by simp
  qed
  have "shrinks (st_position st) (st_position st')" if "only_reducing (br_orders (tl_broker L))"
    by (rule on_bar_shrinks [OF bi that ob]) (use st i in simp_all)
  moreover have "position_qty (tl_portfolio L) ?i = st_position st" using ins st by (auto simp: in_step_def)
  ultimately show ?thesis using L' f3 f2 by simp
qed

section \<open>Around the bar\<close>

lemma clock_set_inv: "loop_inv E C L \<Longrightarrow> clock_set L t = Inr L' \<Longrightarrow> loop_inv E C L' \<and> tl_portfolio L' = tl_portfolio L \<and> tl_fsm L' = tl_fsm L \<and> tl_broker L' = tl_broker L"
  by (auto simp: clock_set_def loop_inv_def split: if_splits)

lemma no_increase_unwatched: "loop_inv E C L \<Longrightarrow> tl_open_orders L = [] \<Longrightarrow> only_reducing (br_orders (tl_broker L))"
  by (auto simp: loop_inv_def orders_watched_def only_reducing_def)

lemma funding_rate_inv:
  assumes inv: "loop_inv E C L" and run: "apply_funding_rate C L t u = Inr L'"
  shows "loop_inv E C L' \<and> tl_portfolio L' = tl_portfolio L \<and> tl_fsm L' = tl_fsm L"
proof (cases "L' = L")
  case True
  with inv show ?thesis by simp
next
  case False
  have bi: "broker_inv (le_broker E) (tl_broker L)" using inv by (simp add: loop_inv_def)
  from run False obtain r b p where b: "set_funding_rate (tl_broker L) (lp_sym C) r = Inr b" and L': "L' = L\<lparr>tl_funding_ptr := p, tl_broker := b\<rparr>"
    by (auto simp: apply_funding_rate_def Let_def elim!: rbind_InrE split: option.splits if_splits)
  have "loop_inv E C L'" by (rule loop_inv_calm [OF inv]) (use calm_set(3) [OF bi b] inv in \<open>simp_all add: L' loop_inv_def\<close>)
  then show ?thesis by (simp add: L')
qed

lemma prepare_phase_facts:
  assumes inv: "loop_inv E C L" and run: "prepare_phase E C L t u = Inr L'"
  shows "loop_inv E C L' \<and> tl_portfolio L' = tl_portfolio L \<and> tl_fsm L' = tl_fsm L \<and> (latched L \<longrightarrow> only_reducing (br_orders (tl_broker L')))"
proof -
  from run obtain L1 L2 where L1: "clock_set L t = Inr L1"
    and L2: "(if tl_funding L1 \<noteq> [] \<and> tl_last_open L1 \<noteq> None then apply_funding_rate C L1 t u else Inr L1) = Inr L2"
    and L': "(let L3 = L2\<lparr>tl_step_transition := None\<rparr> in if latched L3 \<and> tl_open_orders L3 \<noteq> [] then cancel_pending_increases E C L3 else Inr L3) = Inr L'"
    by (auto simp: prepare_phase_def elim!: rbind_InrE)
  note i1 = clock_set_inv [OF inv L1]
  have i2: "loop_inv E C L2 \<and> tl_portfolio L2 = tl_portfolio L1 \<and> tl_fsm L2 = tl_fsm L1"
    using L2 funding_rate_inv [OF conjunct1 [OF i1]] i1 by (auto split: if_splits)
  let ?L3 = "L2\<lparr>tl_step_transition := None\<rparr>"
  have i3: "loop_inv E C ?L3" by (rule loop_inv_same [OF conjunct1 [OF i2]]) (use i2 in \<open>simp_all add: loop_inv_def\<close>)
  have l: "latched ?L3 = latched L" using i1 i2 by (simp add: latched_def)
  show ?thesis
  proof (cases "latched L \<and> tl_open_orders L2 \<noteq> []")
    case True
    with L' l have c: "cancel_pending_increases E C ?L3 = Inr L'" by simp
    then have "tl_portfolio L' = tl_portfolio L2 \<and> tl_fsm L' = tl_fsm L2"
      by (auto simp: cancel_pending_increases_def elim!: rbind_InrE split: if_splits)
    with cancel_pending_facts [OF i3 c] i1 i2 show ?thesis by simp
  next
    case False
    then have "L' = ?L3" using L' l by auto
    with False i1 i2 i3 no_increase_unwatched [OF i3] show ?thesis by auto
  qed
qed

lemma mark_phase_facts:
  assumes inv: "loop_inv E C L" and run: "mark_phase E C L ba t = Inr (L', eq)"
  shows "loop_inv E C L' \<and> tl_fsm L' = tl_fsm L \<and> position_qty (tl_portfolio L') i = position_qty (tl_portfolio L) i"
proof -
  from run obtain L1 pf where L1: "clock_set L t = Inr L1" and pf: "pf_mark (le_cx E) (tl_portfolio L1) [(lp_sym C, ba_c ba)] = (pf, Inr eq)"
    and L': "L' = L1\<lparr>tl_portfolio := pf\<rparr>"
    by (auto simp: mark_phase_def elim!: rbind_InrE split: prod.splits)
  from pf_mark_qty [OF pf] clock_set_inv [OF inv L1] show ?thesis by (auto simp: L' loop_inv_def in_step_def qty_repr_def)
qed

lemma on_transition_same [simp]:
  "tl_broker (on_transition C L tr) = tl_broker L" "tl_orders (on_transition C L tr) = tl_orders L" "tl_open_orders (on_transition C L tr) = tl_open_orders L"
  "tl_portfolio (on_transition C L tr) = tl_portfolio L" "tl_router (on_transition C L tr) = tl_router L" "tl_fsm (on_transition C L tr) = tl_fsm L"
  "rg_killswitch (tl_guard (on_transition C L tr)) = rg_killswitch (tl_guard L)"
  by (simp_all add: on_transition_def split: option.split)

lemma volatility_same:
  "volatility_step E C L b i = Inr L' \<Longrightarrow> tl_broker L' = tl_broker L \<and> tl_orders L' = tl_orders L \<and> tl_open_orders L' = tl_open_orders L
     \<and> tl_portfolio L' = tl_portfolio L \<and> tl_router L' = tl_router L"
  by (auto simp: volatility_step_def Let_def elim!: rbind_InrE split: option.splits if_splits)

lemma observe_phase_facts:
  assumes inv: "loop_inv E C L" and run: "observe_phase E C L b t eq i = Inr L'"
  shows "loop_inv E C L' \<and> tl_portfolio L' = tl_portfolio L"
proof -
  from run obtain pl f L2 m tr where v: "volatility_step E C (L\<lparr>tl_pipe := pl, tl_window := window_append (tl_window L) (b, f)\<rparr>) b i = Inr L2"
    and L': "L' = (let L3 = on_transition C (L2\<lparr>tl_fsm := m, tl_guard := (tl_guard L2)\<lparr>rg_killswitch := Some (fs_killswitch m)\<rparr>\<rparr>) tr in
        if tl_halt_index L3 = None \<and> fs_state m = HALTED then L3\<lparr>tl_halt_index := Some i\<rparr> else L3)"
    by (auto simp: observe_phase_def Let_def elim!: rbind_InrE split: prod.splits)
  from volatility_same [OF v] inv show ?thesis by (simp add: L' Let_def loop_inv_def)
qed

end
