(* ===== verification/EngineProps.thy ===== *)
theory EngineProps
  imports EngineBar
begin

text \<open>
  The trading loop keeps the broker and the account in agreement over every run of its commands, and under the latch (HALTED,
  or the kill switch tripped) takes no new exposure.
\<close>

section \<open>Submitting orders\<close>

lemma submit_effect:
  assumes run: "submit cx b now req = Inr (b', ack)" and new: "dget (br_orders b) (or_client_order_id req) = None"
  shows "br_drawn_ids b' = br_drawn_ids b \<and> oa_status ack \<in> {OS_NEW, OS_REJECTED}
    \<and> (\<exists>po. br_orders b' = dset (br_orders b) (or_client_order_id req) po \<and> po_status po = oa_status ack
         \<and> or_instrument (po_req po) = or_instrument req \<and> or_reduce_only (po_req po) = or_reduce_only req)"
proof -
  consider code where "br_reject b req code now = (b', ack)"
    | st r where "enqueue b st r now = (b', ack)" "or_client_order_id r = or_client_order_id req" "or_instrument r = or_instrument req" "or_reduce_only r = or_reduce_only req"
    using run new by (auto simp: submit_def elim!: rbind_InrE split: option.splits if_splits)
  then show ?thesis by cases (auto simp: br_reject_def ack_rejected_def new_order_def enqueue_def Let_def)
qed

text \<open>A loop whose next order is \<open>req\<close>: the identifier was drawn and is unused.\<close>

definition ready_for :: "loop_env \<Rightarrow> loop_cfg \<Rightarrow> trading_loop \<Rightarrow> uuid \<Rightarrow> bool" where
  "ready_for E C L c \<longleftrightarrow> loop_inv E C L \<and> (\<exists>n < br_drawn_ids (tl_broker L). c = en_ids (le_broker E) n)
     \<and> dget (br_orders (tl_broker L)) c = None \<and> dget (ro_requests (tl_router L)) c = None"

lemma next_uuid_ready:
  assumes inv: "loop_inv E C L" and run: "next_uuid E L = (c, L')"
  shows "ready_for E C L' c" and "tl_portfolio L' = tl_portfolio L" and "tl_fsm L' = tl_fsm L" and "tl_orders L' = tl_orders L"
proof -
  have bi: "broker_inv (le_broker E) (tl_broker L)" and ro: "\<forall>n \<ge> br_drawn_ids (tl_broker L). dget (ro_requests (tl_router L)) (en_ids (le_broker E) n) = None"
    using inv by (simp_all add: loop_inv_def)
  have c: "c = en_ids (le_broker E) (br_drawn_ids (tl_broker L))" and L': "L' = L\<lparr>tl_broker := (tl_broker L)\<lparr>br_drawn_ids := br_drawn_ids (tl_broker L) + 1\<rparr>\<rparr>"
    using run by (simp_all add: next_uuid_def)
  have f: "dget (br_orders (tl_broker L)) c = None" using bi by (simp add: broker_inv_def ids_fresh_def c)
  have bi': "broker_inv (le_broker E) (tl_broker L')" using bi unfolding broker_inv_def ids_fresh_def L' by simp
  have "loop_inv E C L'" using inv bi' unfolding loop_inv_def in_step_def by (simp add: L')
  moreover have "\<exists>n < br_drawn_ids (tl_broker L'). c = en_ids (le_broker E) n" unfolding c L' by (intro exI [of _ "br_drawn_ids (tl_broker L)"]) simp
  moreover have "dget (br_orders (tl_broker L')) c = None" "dget (ro_requests (tl_router L')) c = None" using f ro by (simp_all add: L') (simp add: c)
  ultimately show "ready_for E C L' c" by (simp add: ready_for_def)
  show "tl_portfolio L' = tl_portfolio L" "tl_fsm L' = tl_fsm L" "tl_orders L' = tl_orders L" by (simp_all add: L')
qed

lemma ready_for_mono:
  assumes "ready_for E C L c" "tl_broker L' = tl_broker L" "tl_orders L' = tl_orders L" "tl_open_orders L' = tl_open_orders L" "tl_portfolio L' = tl_portfolio L"
    "tl_router L' = tl_router L" "tl_guard L' = tl_guard L" "tl_fsm L' = tl_fsm L"
  shows "ready_for E C L' c"
  using assms by (simp add: ready_for_def loop_inv_def)

lemma send_order_facts:
  assumes ready: "ready_for E C L (or_client_order_id req)" and run: "send_order E L req t role reason = Inr L'"
    and i: "or_instrument req = lp_sym C" and m: "\<not> or_reduce_only req \<Longrightarrow> or_otype req = MARKET"
  shows "loop_inv E C L' \<and> tl_portfolio L' = tl_portfolio L \<and> tl_fsm L' = tl_fsm L
    \<and> (or_reduce_only req \<longrightarrow> only_reducing (br_orders (tl_broker L)) \<longrightarrow> only_reducing (br_orders (tl_broker L')))"
proof -
  let ?c = "or_client_order_id req" and ?B = "le_broker E" and ?b = "tl_broker L"
  from ready have inv: "loop_inv E C L" and none: "dget (br_orders ?b) ?c = None" "dget (ro_requests (tl_router L)) ?c = None"
    and n: "\<exists>n < br_drawn_ids ?b. ?c = en_ids ?B n" by (simp_all add: ready_for_def)
  have bi: "broker_inv ?B ?b" and w: "orders_watched (lp_sym C) (br_orders ?b) (tl_orders L) (tl_open_orders L)"
    and ins: "in_step (le_cx E) (lp_sym C) ?b (tl_portfolio L)" and ro: "\<forall>n \<ge> br_drawn_ids ?b. dget (ro_requests (tl_router L)) (en_ids ?B n) = None"
    and ks: "rg_killswitch (tl_guard L) = Some (fs_killswitch (tl_fsm L))" using inv by (simp_all add: loop_inv_def)
  have inj: "inj (en_ids ?B)" using bi by (simp add: broker_inv_def ids_fresh_def)
  have fresh: "en_ids ?B k \<noteq> ?c" if "br_drawn_ids ?b \<le> k" for k
  proof
    assume k: "en_ids ?B k = ?c"
    from n obtain m where "m < br_drawn_ids ?b" "?c = en_ids ?B m" by blast
    with k inj have "k = m" by (metis injD)
    with that \<open>m < br_drawn_ids ?b\<close> show False by simp
  qed
  have fr: "?c \<notin> en_ids ?B ` {br_drawn_ids ?b..}" by (metis atLeast_iff fresh imageE)
  have cw: "?c \<notin> set (tl_open_orders L)" using w none(1) unfolding orders_watched_def by fastforce
  obtain r b ack where rt: "route (paper_venue (le_cx E) (tl_clock L)) (Some (tl_clock L)) (tl_router L, ?b) req = Inr ((r, b), ack)"
    using run by (auto simp: send_order_def elim!: rbind_InrE)
  define rec where "rec = \<lparr>oc_request = req, oc_decision_ns = Some t, oc_role = role, oc_status = oa_status ack, oc_reject_code = oa_reject_code ack,
      oc_venue_order_id = oa_venue_order_id ack, oc_ts_created_ns = or_ts_created_ns req, oc_filled_qty = 0, oc_avg_fill_price = None,
      oc_fee = 0, oc_slippage_bps = None, oc_liquidity = None, oc_ts_filled_ns = None, oc_intent_reason = reason\<rparr>"
  have L': "tl_broker L' = b" "tl_router L' = r" "tl_orders L' = dset (tl_orders L) ?c rec" "tl_portfolio L' = tl_portfolio L" "tl_fsm L' = tl_fsm L"
    "tl_guard L' = tl_guard L" "tl_open_orders L' = (if final_status (oa_status ack) then tl_open_orders L else tl_open_orders L @ [?c])"
    using run rt cw by (auto simp: send_order_def Let_def log_event_def rec_def)
  have ro': "\<forall>k \<ge> br_drawn_ids ?b. dget (ro_requests r) (en_ids ?B k) = None"
    using rt none(2) ro fresh by (auto simp: route_def Let_def ro_remember_def reconcile_def paper_venue_def split: sum.splits prod.splits)
  have recs: "orders_watched (lp_sym C) (br_orders ?b) (dset (tl_orders L) ?c rec) (tl_open_orders L)"
    unfolding orders_watched_def
  proof (intro conjI allI ballI impI)
    fix c' po assume "dget (br_orders ?b) c' = Some po" "po_status po = OS_NEW"
    moreover then have "c' \<noteq> ?c" using none(1) by auto
    ultimately show "or_instrument (po_req po) = lp_sym C"
      "or_reduce_only (po_req po) \<or> (c' \<in> set (tl_open_orders L) \<and> (\<exists>r. dget (dset (tl_orders L) ?c rec) c' = Some r \<and> or_otype (oc_request r) = MARKET \<and> \<not> or_reduce_only (oc_request r)))"
      using w unfolding orders_watched_def by auto
  next
    fix c' assume c': "c' \<in> set (tl_open_orders L)"
    then have "c' \<noteq> ?c" using cw by auto
    with c' w show "\<exists>po. dget (br_orders ?b) c' = Some po \<and> (\<forall>r. dget (dset (tl_orders L) ?c rec) c' = Some r \<longrightarrow> final_status (oc_status r) \<longrightarrow> po_status po \<noteq> OS_NEW)"
      unfolding orders_watched_def by auto
  qed
  have "loop_inv E C L' \<and> (or_reduce_only req \<longrightarrow> only_reducing (br_orders ?b) \<longrightarrow> only_reducing (br_orders b))"
  proof (cases "submit (le_cx E) ?b (tl_clock L) req")
    case (Inl e)
    then have "b = ?b" "oa_status ack = OS_REJECTED" using rt none(2) by (auto simp: route_def Let_def paper_venue_def reconcile_def ack_rejected_def)
    then show ?thesis using recs bi ins ro' ks by (simp add: loop_inv_def L' final_status_def)
  next
    case (Inr x)
    then have sb: "submit (le_cx E) ?b (tl_clock L) req = Inr (b, ack)" using rt none(2) by (cases x) (auto simp: route_def Let_def paper_venue_def)
    from submit_effect [OF sb none(1)] obtain po where e: "br_drawn_ids b = br_drawn_ids ?b" "oa_status ack \<in> {OS_NEW, OS_REJECTED}"
      "br_orders b = dset (br_orders ?b) ?c po" "po_status po = oa_status ack" "or_instrument (po_req po) = lp_sym C" "or_reduce_only (po_req po) = or_reduce_only req"
      using i by auto
    have q: "quiet ?B ?b b" by (rule submit_quiet [OF bi fr sb])
    have "orders_watched (lp_sym C) (br_orders b) (dset (tl_orders L) ?c rec) (tl_open_orders L')"
      unfolding orders_watched_def
    proof (intro conjI allI ballI impI)
      fix c' p assume c': "dget (br_orders b) c' = Some p" "po_status p = OS_NEW"
      show "or_instrument (po_req p) = lp_sym C" using c' e recs unfolding orders_watched_def by (auto split: if_splits)
      show "or_reduce_only (po_req p) \<or> (c' \<in> set (tl_open_orders L') \<and> (\<exists>r. dget (dset (tl_orders L) ?c rec) c' = Some r \<and> or_otype (oc_request r) = MARKET \<and> \<not> or_reduce_only (oc_request r)))"
      proof (cases "c' = ?c")
        case True
        then show ?thesis using c' e m by (auto simp: L' rec_def final_status_def)
      next
        case False
        then show ?thesis using c' e(3) w unfolding orders_watched_def by (auto simp: L')
      qed
    next
      fix c' assume "c' \<in> set (tl_open_orders L')"
      then consider "c' = ?c" "\<not> final_status (oa_status ack)" | "c' \<in> set (tl_open_orders L)" by (auto simp: L' split: if_splits)
      then show "\<exists>po. dget (br_orders b) c' = Some po \<and> (\<forall>r. dget (dset (tl_orders L) ?c rec) c' = Some r \<longrightarrow> final_status (oc_status r) \<longrightarrow> po_status po \<noteq> OS_NEW)"
      proof cases
        case 1
        then show ?thesis by (simp add: e(3) rec_def)
      next
        case 2
        then have "c' \<noteq> ?c" using cw by auto
        with 2 w show ?thesis unfolding orders_watched_def by (auto simp: e(3))
      qed
    qed
    moreover have "in_step (le_cx E) (lp_sym C) b (tl_portfolio L)"
    proof -
      obtain st where st: "dget (br_state ?b) (lp_sym C) = Some st" "position_qty (tl_portfolio L) (lp_sym C) = st_position st" "qty_repr (le_cx E) (tl_portfolio L)"
        using ins by (auto simp: in_step_def)
      have "map_option st_position (dget (br_state b) (lp_sym C)) = Some (st_position st)" using q st(1) unfolding quiet_def by simp
      with st show ?thesis by (auto simp: in_step_def)
    qed
    ultimately have "loop_inv E C L'" using q ro' ks e(1) by (simp add: loop_inv_def L' quiet_def)
    moreover have "only_reducing (br_orders b)" if "or_reduce_only req" "only_reducing (br_orders ?b)"
      using that e(6) unfolding only_reducing_def by (auto simp: e(3) split: if_splits)
    ultimately show ?thesis by blast
  qed
  then show ?thesis using L' by simp
qed


text \<open>What a submission keeps.\<close>

definition retains :: "loop_env \<Rightarrow> loop_cfg \<Rightarrow> trading_loop \<Rightarrow> trading_loop \<Rightarrow> bool" where
  "retains E C L L' \<longleftrightarrow> loop_inv E C L' \<and> tl_portfolio L' = tl_portfolio L \<and> tl_fsm L' = tl_fsm L"

lemma retains_trans: "retains E C L L' \<Longrightarrow> retains E C L' L'' \<Longrightarrow> retains E C L L''"
  by (simp add: retains_def)

lemma take_profit_retained:
  assumes inv: "loop_inv E C L" and b: "set_take_profit cx (tl_broker L) i tp s = Inr b"
  shows "retains E C L (L\<lparr>tl_broker := b\<rparr>)"
proof -
  have bi: "broker_inv (le_broker E) (tl_broker L)" using inv by (simp add: loop_inv_def)
  have "loop_inv E C (L\<lparr>tl_broker := b\<rparr>)" by (rule loop_inv_calm [OF inv]) (use calm_set(1) [OF bi b] inv in \<open>simp_all add: loop_inv_def\<close>)
  then show ?thesis by (simp add: retains_def)
qed

lemma send_entry_retained:
  assumes inv: "loop_inv E C L" and run: "send_entry E C L c dn close_ns approved stop tp = Inr (L', ids)"
  shows "retains E C L L'"
proof -
  define L1 where "L1 = L\<lparr>tl_entries := dset (tl_entries L) c \<lparr>em_decision_ns = dn, em_stop = stop, em_tp = tp\<rparr>\<rparr>"
  have i1: "loop_inv E C L1" using inv by (simp add: L1_def loop_inv_def)
  have k1: "retains E C L L1" using i1 by (simp add: retains_def L1_def)
  obtain L4 ids' b where L4: "(case stop of None \<Rightarrow> Inr (L1, [])
             | Some p \<Rightarrow> (let (c2, L2) = next_uuid E L1 in
                 rbind (send_order E L2 \<lparr>or_client_order_id = c2, or_instrument = lp_sym C, or_side = side_of_sign (- sign_of approved), or_otype = STOP_MARKET,
                    or_qty = dabs (le_cx E) approved, or_stop_price = Some p, or_reduce_only = True, or_decision_ref = Some (int_str dn),
                    or_ts_created_ns = close_ns\<rparr> dn ''stop'' (Some ER_STOP)) (\<lambda>L3. Inr (L3, [c2])))) = Inr (L4, ids')"
    and b: "set_take_profit (le_cx E) (tl_broker L4) (lp_sym C) tp (if tp = None then None else Some (side_of_sign (sign_of approved))) = Inr b"
    and L': "L' = L4\<lparr>tl_broker := b\<rparr>"
    using run unfolding send_entry_def Let_def L1_def [symmetric] by (auto elim!: rbind_InrE)
  have k4: "retains E C L1 L4"
  proof (cases stop)
    case None
    with L4 i1 show ?thesis by (simp add: retains_def)
  next
    case (Some p)
    obtain c2 L2 where n: "next_uuid E L1 = (c2, L2)" by (cases "next_uuid E L1")
    note r = next_uuid_ready [OF i1 n]
    define req where "req = \<lparr>or_client_order_id = c2, or_instrument = lp_sym C, or_side = side_of_sign (- sign_of approved), or_otype = STOP_MARKET,
       or_qty = dabs (le_cx E) approved, or_stop_price = Some p, or_reduce_only = True, or_decision_ref = Some (int_str dn), or_ts_created_ns = close_ns\<rparr>"
    from L4 Some n have sd: "send_order E L2 req dn ''stop'' (Some ER_STOP) = Inr L4"
      unfolding req_def by (auto elim!: rbind_InrE)
    have "ready_for E C L2 (or_client_order_id req)" using r(1) by (simp add: req_def)
    from send_order_facts [OF this sd] r(2,3) show ?thesis by (simp add: retains_def req_def)
  qed
  have i4: "loop_inv E C L4" using k4 by (simp add: retains_def)
  show ?thesis unfolding L' by (rule retains_trans [OF retains_trans [OF k1 k4] take_profit_retained [OF i4 b]])
qed

lemma submit_target_retained:
  assumes inv: "loop_inv E C L" and run: "submit_target E C L dn close_ns cur approved reason action stop tp = Inr (L', ids)"
  shows "retains E C L L' \<and> (approved = 0 \<longrightarrow> only_reducing (br_orders (tl_broker L)) \<longrightarrow> only_reducing (br_orders (tl_broker L')))"
proof (cases "dsub (le_cx E) approved cur = 0")
  case True
  with run inv show ?thesis by (simp add: submit_target_def Let_def retains_def)
next
  case False
  obtain c L1 where n: "next_uuid E L = (c, L1)" by (cases "next_uuid E L")
  note r = next_uuid_ready [OF inv n]
  define rq where "rq q = \<lparr>or_client_order_id = c, or_instrument = lp_sym C, or_side = (if 0 < dsub (le_cx E) approved cur then LONG else SHORT), or_otype = MARKET,
      or_qty = q, or_stop_price = None, or_reduce_only = pure_reduction (le_cx E) cur approved, or_decision_ref = Some (int_str dn), or_ts_created_ns = close_ns\<rparr>" for q
  define role where "role = (if action \<in> {''enter'', ''exit'', ''flip'', ''flatten''} then action else ''entry'')"
  define rsn where "rsn = (if cur \<noteq> 0 then Some reason else None)"
  obtain q L2 where sd: "send_order E L1 (rq q) dn role rsn = Inr L2"
    and L': "(if opens_new cur approved then rbind (send_entry E C L2 c dn close_ns approved stop tp) (\<lambda>(L3, ids). Inr (L3, c # ids)) else Inr (L2, [c])) = Inr (L', ids)"
    using run False n unfolding submit_target_def Let_def rq_def role_def rsn_def by (auto elim!: rbind_InrE)
  have "ready_for E C L1 (or_client_order_id (rq q))" using r(1) by (simp add: rq_def)
  note f = send_order_facts [OF this sd]
  have k2: "retains E C L L2" using f r(2,3) by (simp add: retains_def rq_def)
  have i2: "loop_inv E C L2" using k2 by (simp add: retains_def)
  have b1: "br_orders (tl_broker L1) = br_orders (tl_broker L)" using n by (auto simp: next_uuid_def)
  show ?thesis
  proof (cases "opens_new cur approved")
    case True
    then have a: "approved \<noteq> 0" by (simp add: opens_new_def)
    from True L' obtain ids' where "send_entry E C L2 c dn close_ns approved stop tp = Inr (L', ids')" by (auto elim!: rbind_InrE)
    from retains_trans [OF k2 send_entry_retained [OF i2 this]] a show ?thesis by simp
  next
    case False
    then have "L' = L2" using L' by simp
    moreover have "approved = 0 \<Longrightarrow> or_reduce_only (rq q)" by (simp add: rq_def pure_reduction_def)
    ultimately show ?thesis using k2 f b1 by (simp add: rq_def)
  qed
qed


section \<open>The latch through a step\<close>

definition halt_holds :: "fsm \<Rightarrow> bool" where
  "halt_holds m \<longleftrightarrow> (fs_state m = HALTED \<longrightarrow> ks_tripped (fs_killswitch m))"

definition loop_ok :: "loop_env \<Rightarrow> loop_cfg \<Rightarrow> trading_loop \<Rightarrow> bool" where
  "loop_ok E C L \<longleftrightarrow> loop_inv E C L \<and> halt_holds (tl_fsm L)"

lemma latched_tripped: "halt_holds (tl_fsm L) \<Longrightarrow> latched L \<longleftrightarrow> ks_tripped (fs_killswitch (tl_fsm L))"
  by (auto simp: latched_def halt_holds_def)

lemma ks_trip_mono: "ks_tripped k \<Longrightarrow> ks_tripped (fst (ks_trip cl k r ts))"
  by simp

lemma release_transition_open: "release_transition cx m a = (m', t) \<Longrightarrow> halt_holds m'"
  using release_transition_simps(1) [of cx m a m' t] by (cases "fs_state m") (auto simp: halt_holds_def release_transition_def fsm_apply_def Let_def split: prod.splits option.splits)

lemma fsm_update_latch:
  assumes run: "fsm_update cx m ob = Inr (m', t)"
  shows "(halt_holds m \<longrightarrow> halt_holds m') \<and> (ks_tripped (fs_killswitch m) \<longrightarrow> ks_tripped (fs_killswitch m'))"
  using run
proof (cases rule: fsm_update_cases)
  case released
  then show ?thesis by (simp add: halt_holds_def)
next
  case (classified tk snap m1 ev)
  have m1: "fs_state m1 = fs_state m" "fs_killswitch m1 = fs_killswitch m" using classified(3) by simp_all
  note f = fsm_apply_simps [OF classified(5)]
  have "ks_tripped (fs_killswitch m) \<longrightarrow> ks_tripped (fs_killswitch m')"
    using classified(5) m1 by (auto simp: fsm_apply_def Let_def split: if_splits)
  moreover have "halt_holds m'" if h: "halt_holds m" unfolding halt_holds_def
  proof
    assume s: "fs_state m' = HALTED"
    show "ks_tripped (fs_killswitch m')"
    proof (cases "fs_state m = HALTED")
      case True
      with f(5) s m1 have "m' = m1" by simp
      with h True m1 show ?thesis by (simp add: halt_holds_def)
    next
      case False
      with f(7) s m1 show ?thesis by simp
    qed
  qed
  ultimately show ?thesis by blast
qed

lemma fsm_release_latch:
  assumes h: "halt_holds m" and run: "fsm_release cx cl m ro a = Inr (m', t)"
  shows "halt_holds m'"
  using run
proof (cases rule: fsm_release_cases)
  case (halted ks au m2 ac v)
  from release_transition_open [OF halted(5)] halted(6) show ?thesis by (simp add: halt_holds_def)
qed (use h in \<open>auto simp: halt_holds_def\<close>)

lemma evaluate_latch:
  assumes "evaluate cx g c = (g', Inr r)"
  shows "(ks_is_tripped (rg_killswitch g) \<longrightarrow> ks_is_tripped (rg_killswitch g')) \<and> (rg_killswitch g' = None \<longleftrightarrow> rg_killswitch g = None)
    \<and> (rc_target_qty c = 0 \<longrightarrow> gr_approved_qty r = 0)"
proof -
  obtain j rvs q where "guard_finish cx (g\<lparr>rg_journal := j\<rparr>) c rvs (compose (map rv_verdict rvs)) q = (g', r)"
    by (rule evaluate_cases [OF assms])
  note fs = guard_finish_simps [OF this]
  have "gr_approved_qty r = 0" if "rc_target_qty c = 0"
  proof (cases "gr_flatten_all r")
    case True
    with fs(8) show ?thesis by simp
  next
    case False
    with fs(9) that show ?thesis by (simp add: target_side_def sign_of_def dmul_def dr.rnd_0)
  qed
  then show ?thesis using fs(12) by (auto simp: ks_is_tripped_def split: option.splits)
qed

section \<open>The decision\<close>

text \<open>What the decision keeps: the invariant, the account, the latch.\<close>

definition holds_latch :: "trading_loop \<Rightarrow> trading_loop \<Rightarrow> bool" where
  "holds_latch L L' \<longleftrightarrow> (halt_holds (tl_fsm L) \<longrightarrow> halt_holds (tl_fsm L')) \<and> (ks_tripped (fs_killswitch (tl_fsm L)) \<longrightarrow> ks_tripped (fs_killswitch (tl_fsm L')))"

lemma holds_latch_trans: "holds_latch L L' \<Longrightarrow> holds_latch L' L'' \<Longrightarrow> holds_latch L L''"
  by (simp add: holds_latch_def)

lemma holds_latch_same: "tl_fsm L' = tl_fsm L \<Longrightarrow> holds_latch L L'"
  by (simp add: holds_latch_def)

lemma ctx_from_snapshot_target: "ctx_from_snapshot cx s a = Inr c \<Longrightarrow> rc_target_qty c = rc_target_qty a"
  by (auto simp: ctx_from_snapshot_def mk_risk_context_def split: if_splits)

lemma evaluate_risk_facts:
  assumes inv: "loop_inv E C L" and run: "evaluate_risk E C L price cur requested sd ld dq = Inr (L', res)"
  shows "loop_inv E C L' \<and> tl_broker L' = tl_broker L \<and> tl_portfolio L' = tl_portfolio L \<and> holds_latch L L'
    \<and> (requested = 0 \<longrightarrow> gr_approved_qty res = 0)"
proof -
  obtain snap args c g where c: "ctx_from_snapshot (le_cx E) snap args = Inr c" and req: "rc_target_qty args = requested"
    and ev: "evaluate (le_cx E) (tl_guard L) c = (g, Inr res)"
    and L': "L' = L\<lparr>tl_guard := g, tl_fsm := (tl_fsm L)\<lparr>fs_killswitch := (case rg_killswitch g of None \<Rightarrow> fs_killswitch (tl_fsm L) | Some k \<Rightarrow> k)\<rparr>\<rparr>"
    using run unfolding evaluate_risk_def Let_def by (auto elim!: rbind_InrE split: option.splits prod.splits)
  note e = evaluate_latch [OF ev]
  have ks: "rg_killswitch (tl_guard L) = Some (fs_killswitch (tl_fsm L))" using inv by (simp add: loop_inv_def)
  with e obtain k where k: "rg_killswitch g = Some k" "ks_tripped (fs_killswitch (tl_fsm L)) \<longrightarrow> ks_tripped k"
    by (cases "rg_killswitch g") (auto simp: ks_is_tripped_def)
  have L2: "L' = L\<lparr>tl_guard := g, tl_fsm := (tl_fsm L)\<lparr>fs_killswitch := k\<rparr>\<rparr>" by (simp add: L' k)
  have "loop_inv E C L'" by (rule loop_inv_same [OF inv]) (simp_all add: L2 k)
  moreover have "holds_latch L L'" using k by (auto simp: holds_latch_def halt_holds_def L2)
  ultimately show ?thesis using e ctx_from_snapshot_target [OF c] req by (simp add: L2)
qed

lemma act_on_target_facts:
  assumes inv: "loop_inv E C L" and run: "act_on_target E C L b price close_ns eq cur requested res nums gate_side sz tr = Inr (L', d)"
  shows "loop_inv E C L' \<and> tl_portfolio L' = tl_portfolio L \<and> tl_fsm L' = tl_fsm L
    \<and> (gr_approved_qty res = 0 \<longrightarrow> only_reducing (br_orders (tl_broker L)) \<longrightarrow> only_reducing (br_orders (tl_broker L')))"
proof -
  define approved where "approved = (if gr_approved_qty res \<noteq> 0 \<and> dmul (le_cx E) (dabs (le_cx E) (gr_approved_qty res)) price < in_min_notional (lp_instrument C)
    then 0 else gr_approved_qty res)"
  have "\<exists>reason action stop tp L1 ids. submit_target E C L (fb_t_ns b) close_ns cur approved reason action stop tp = Inr (L1, ids)
      \<and> (L' = L1 \<or> (\<exists>ev. L' = log_event L1 ev))"
    using run unfolding act_on_target_def Let_def approved_def [symmetric]
    by (auto elim!: rbind_InrE split: prod.splits if_splits; blast)
  then obtain reason action stop tp L1 ids ev where st: "submit_target E C L (fb_t_ns b) close_ns cur approved reason action stop tp = Inr (L1, ids)"
    and L': "L' = L1 \<or> L' = log_event L1 ev" by blast
  note f = submit_target_retained [OF inv st]
  have same: "tl_broker L' = tl_broker L1" "tl_orders L' = tl_orders L1" "tl_open_orders L' = tl_open_orders L1" "tl_portfolio L' = tl_portfolio L1"
    "tl_router L' = tl_router L1" "tl_guard L' = tl_guard L1" "tl_fsm L' = tl_fsm L1" using L' by (auto simp: log_event_def)
  have i1: "loop_inv E C L1" using f by (simp add: retains_def)
  have "loop_inv E C L'" by (rule loop_inv_same [OF i1]) (use same i1 in \<open>simp_all add: loop_inv_def\<close>)
  then show ?thesis using f same by (auto simp: retains_def approved_def)
qed

lemma decide_facts:
  assumes inv: "loop_inv E C L" and run: "decide E C L b dbar close_ns eq dq ld = Inr (L', d)"
  shows "loop_inv E C L' \<and> tl_portfolio L' = tl_portfolio L \<and> holds_latch L L'
    \<and> (latched L \<longrightarrow> only_reducing (br_orders (tl_broker L)) \<longrightarrow> only_reducing (br_orders (tl_broker L')))"
proof -
  let ?cx = "le_cx E" and ?cur = "position_qty (tl_portfolio L) (lp_sym C)"
  obtain tr nums g gate_side sz where
    sz: "(if (if latched L then 0 else side_int gate_side) \<noteq> sign_of ?cur \<or> lp_record C = RM_ALL
        then rbind (size_intent E C (L\<lparr>tl_gate := g\<rparr>) (snd (snd nums)) eq (ba_c dbar)) (\<lambda>x. Inr (Some x)) else Inr None) = Inr sz"
    and rest: "(let desired = (if latched L then 0 else side_int gate_side); requested = (case sz of None \<Rightarrow> 0 | Some x \<Rightarrow> if desired = 0 then 0 else dmul ?cx (sr_qty x) (of_int desired)) in
             case sz of
               Some x \<Rightarrow>
                 if \<not> (desired \<noteq> sign_of ?cur) \<or> requested = ?cur then Inr (L\<lparr>tl_gate := g\<rparr>, hold_entry b close_ns ?cur nums gate_side sz tr ?cx)
                 else rbind (evaluate_risk E C (L\<lparr>tl_gate := g\<rparr>) (ba_c dbar) ?cur requested (sr_stop_distance x) ld dq) (\<lambda>(L2, res).
                   act_on_target E C L2 b (ba_c dbar) close_ns eq ?cur requested res nums gate_side x tr)
             | None \<Rightarrow> Inr (L\<lparr>tl_gate := g\<rparr>, hold_entry b close_ns ?cur nums gate_side None tr ?cx)) = Inr (L', d)"
    using run unfolding decide_def Let_def by (elim rbind_InrE) (auto elim!: rbind_InrE)
  define L1 where "L1 = L\<lparr>tl_gate := g\<rparr>"
  have i1: "loop_inv E C L1" using inv by (simp add: L1_def loop_inv_def)
  define desired where "desired = (if latched L then 0 else side_int gate_side)"
  define requested where "requested = (case sz of None \<Rightarrow> 0 | Some x \<Rightarrow> if desired = 0 then 0 else dmul ?cx (sr_qty x) (of_int desired))"
  consider (stay) "L' = L1" | (act) L2 res x where "evaluate_risk E C L1 (ba_c dbar) ?cur requested (sr_stop_distance x) ld dq = Inr (L2, res)"
      "act_on_target E C L2 b (ba_c dbar) close_ns eq ?cur requested res nums gate_side x tr = Inr (L', d)"
    using rest unfolding L1_def [symmetric] Let_def desired_def [symmetric] requested_def [symmetric]
    by (cases sz) (auto elim!: rbind_InrE split: if_splits)
  then show ?thesis
  proof cases
    case stay
    then show ?thesis using i1 by (simp add: L1_def holds_latch_def)
  next
    case act
    note e = evaluate_risk_facts [OF i1 act(1)]
    note a = act_on_target_facts [OF conjunct1 [OF e] act(2)]
    have "requested = 0" if "latched L" using that by (auto simp: requested_def desired_def split: option.split)
    moreover have "holds_latch L L'" using e a by (simp add: holds_latch_def L1_def)
    ultimately show ?thesis using e a by (simp add: L1_def)
  qed
qed

section \<open>The step and the commands\<close>

lemma observe_phase_latch:
  assumes run: "observe_phase E C L b t eq i = Inr L'"
  shows "holds_latch L L' \<and> br_orders (tl_broker L') = br_orders (tl_broker L)"
proof -
  obtain pl f L2 ob m tr where v: "volatility_step E C (L\<lparr>tl_pipe := pl, tl_window := window_append (tl_window L) (b, f)\<rparr>) b i = Inr L2"
    and u: "fsm_update (le_cx E) (tl_fsm L2) ob = Inr (m, tr)"
    and L': "tl_fsm L' = m" "tl_broker L' = tl_broker L2"
    using run by (auto simp: observe_phase_def Let_def elim!: rbind_InrE split: prod.splits)
  have "tl_fsm L2 = tl_fsm L" using v by (auto simp: volatility_step_def Let_def elim!: rbind_InrE split: option.splits if_splits)
  with fsm_update_latch [OF u] L' volatility_same [OF v] show ?thesis by (auto simp: holds_latch_def)
qed

lemma loop_apply_fills_broker: "loop_apply_fills E C L fs = Inr (L', x) \<Longrightarrow> tl_broker L' = tl_broker L"
proof (induction fs arbitrary: L x)
  case (Cons f fs)
  then show ?case by (cases x) (auto elim!: rbind_InrE dest!: loop_apply_fill_facts)
qed simp

lemma execution_phase_only_reducing:
  assumes inv: "loop_inv E C L" and run: "execution_phase E C L ba = Inr (L', ex)" and only: "only_reducing (br_orders (tl_broker L))"
  shows "only_reducing (br_orders (tl_broker L'))"
proof -
  have bi: "broker_inv (le_broker E) (tl_broker L)" using inv by (simp add: loop_inv_def)
  from run obtain b fs where ob: "on_bar (le_broker E) (tl_broker L) ba = Inr (b, fs)" and L': "br_orders (tl_broker L') = br_orders b"
    by (auto simp: execution_phase_def Let_def split_beta sync_open_orders_def refresh_liquidation_def set_liquidation_price_def drain_funding_def
        elim!: rbind_InrE split: if_splits option.splits dest!: loop_apply_fills_broker)
  show ?thesis unfolding only_reducing_def L'
  proof (intro allI impI)
    fix c po assume po: "dget (br_orders b) c = Some po" "po_status po = OS_NEW"
    from on_bar_facts [OF bi ob] have grow: "orders_grow (br_orders (tl_broker L)) (br_orders b)" by blast
    from on_bar_born(1) [OF ob bi] po(1) consider po0 where "dget (br_orders (tl_broker L)) c = Some po0" "po_req po0 = po_req po" | "or_reduce_only (po_req po)"
      unfolding born_reducing_def by blast
    then show "or_reduce_only (po_req po)"
    proof cases
      case 1
      with grow po have "po_status po0 = OS_NEW" unfolding orders_grow_def by (metis option.inject)
      with 1 only show ?thesis unfolding only_reducing_def by metis
    qed
  qed
qed

lemma record_phase_same:
  "record_phase E C L i t u eq ex d = Inr (L', r) \<Longrightarrow> tl_broker L' = tl_broker L \<and> tl_orders L' = tl_orders L \<and> tl_open_orders L' = tl_open_orders L
     \<and> tl_portfolio L' = tl_portfolio L \<and> tl_router L' = tl_router L \<and> tl_fsm L' = tl_fsm L \<and> rg_killswitch (tl_guard L') = rg_killswitch (tl_guard L)"
  by (auto simp: record_phase_def clear_step_risk_def Let_def elim!: rbind_InrE split: if_splits)

lemma loop_step_facts:
  assumes ok: "loop_ok E C L" and run: "loop_step E C L b t db dq ld = Inr (L', r)" and i: "\<forall>x. db = Some x \<longrightarrow> ba_instrument x = lp_sym C"
  shows "loop_ok E C L' \<and> (latched L \<longrightarrow> latched L' \<and> only_reducing (br_orders (tl_broker L'))
    \<and> shrinks (position_qty (tl_portfolio L) (lp_sym C)) (position_qty (tl_portfolio L') (lp_sym C)))"
proof -
  let ?n = "tl_index L + 1" and ?q = "\<lambda>L. position_qty (tl_portfolio L) (lp_sym C)"
  obtain ba L1 L2 ex L3 eq L4 L5 d where
    ba: "(case db of Some x \<Rightarrow> Inr x | None \<Rightarrow> dec_bar_of (le_cx E) b (lp_instrument C)) = Inr ba"
    and p1: "prepare_phase E C L (fb_t_ns b) t = Inr L1" and p2: "execution_phase E C L1 ba = Inr (L2, ex)"
    and p3: "mark_phase E C L2 ba t = Inr (L3, eq)" and p4: "observe_phase E C L3 b t eq ?n = Inr L4"
    and p5: "(if lp_decide_from C \<le> ?n then rbind (decide E C L4 b ba t eq dq ld) (\<lambda>(L5, d). Inr (L5, Some d)) else Inr (L4, None)) = Inr (L5, d)"
    and p6: "record_phase E C L5 ?n (fb_t_ns b) t eq ex d = Inr (L', r)"
    using run unfolding loop_step_def Let_def by (elim rbind_InrE) (auto elim!: rbind_InrE)
  have inst: "ba_instrument ba = lp_sym C" using ba i by (auto simp: dec_bar_of_def Let_def elim!: rbind_InrE split: option.splits)
  have inv: "loop_inv E C L" and h: "halt_holds (tl_fsm L)" using ok by (simp_all add: loop_ok_def)
  note f1 = prepare_phase_facts [OF inv p1]
  note f2 = execution_phase_facts [OF conjunct1 [OF f1] p2 inst]
  note o2 = execution_phase_only_reducing [OF conjunct1 [OF f1] p2]
  note f3 = mark_phase_facts [OF conjunct1 [OF f2] p3]
  have o3: "br_orders (tl_broker L3) = br_orders (tl_broker L2)"
    using p3 by (auto simp: mark_phase_def clock_set_def elim!: rbind_InrE split: prod.splits if_splits)
  note f4 = observe_phase_facts [OF conjunct1 [OF f3] p4]
  note l4 = observe_phase_latch [OF p4]
  have f5: "loop_inv E C L5 \<and> tl_portfolio L5 = tl_portfolio L4 \<and> holds_latch L4 L5
    \<and> (latched L4 \<longrightarrow> only_reducing (br_orders (tl_broker L4)) \<longrightarrow> only_reducing (br_orders (tl_broker L5)))"
    using p5 decide_facts [OF conjunct1 [OF f4]] f4 by (auto simp: holds_latch_def elim!: rbind_InrE split: if_splits)
  note f6 = record_phase_same [OF p6]
  have fsm3: "tl_fsm L3 = tl_fsm L" using f1 f2 f3 by simp
  have hold: "holds_latch L L4" "holds_latch L L'" using l4 f5 f6 fsm3 by (simp_all add: holds_latch_def)
  have inv': "loop_inv E C L'" by (rule loop_inv_same [OF conjunct1 [OF f5]]) (use f6 f5 in \<open>simp_all add: loop_inv_def\<close>)
  have h4: "halt_holds (tl_fsm L4)" "halt_holds (tl_fsm L')" using h hold by (simp_all add: holds_latch_def)
  show ?thesis
  proof (intro conjI impI)
    show "loop_ok E C L'" using inv' h4 by (simp add: loop_ok_def)
    assume l: "latched L"
    then have k: "ks_tripped (fs_killswitch (tl_fsm L))" using h by (simp add: latched_tripped)
    then have lt: "latched L4" "latched L'" using hold by (simp_all add: holds_latch_def latched_def)
    show "latched L'" by (rule lt(2))
    have o: "only_reducing (br_orders (tl_broker L1))" using f1 l by simp
    show "only_reducing (br_orders (tl_broker L'))" using o2 [OF o] o3 l4 f5 lt(1) f6 by simp
    show "shrinks (?q L) (?q L')" using f1 f2 o f3 f4 f5 f6 by simp
  qed
qed

text \<open>The commands between bars.\<close>

lemma on_candle_facts:
  assumes "loop_ok E C L" "on_candle E C L c dq ld = Inr (L', r)"
  shows "loop_ok E C L'"
proof -
  from assms(2) have "loop_step E C L (bar_from_candle c) (cd_close_time_ns c) (Some (dec_bar_from_candle c)) dq ld = Inr (L', r)"
    and "cd_instrument c = lp_sym C" by (auto simp: on_candle_def split: if_splits)
  with loop_step_facts [OF assms(1)] show ?thesis by (simp add: dec_bar_from_candle_def)
qed

lemma dget_refreshed: "dget (map (refreshed b) os) c = map_option (\<lambda>r. snd (refreshed b (c, r))) (dget os c)"
  by (induction os) (auto simp: refreshed_def split: option.splits)

lemma refreshed_request: "oc_request (snd (refreshed b x)) = oc_request (snd x)"
  by (simp add: refreshed_def split: option.split)

lemma refreshed_watched:
  assumes "orders_watched i (br_orders b) os ws"
  shows "orders_watched i (br_orders b) (map (refreshed b) os) ws"
  unfolding orders_watched_def
proof (intro conjI allI ballI impI)
  fix c po assume c: "dget (br_orders b) c = Some po" "po_status po = OS_NEW"
  show "or_instrument (po_req po) = i" using assms c unfolding orders_watched_def by metis
  have "or_reduce_only (po_req po) \<or> (c \<in> set ws \<and> (\<exists>r. dget os c = Some r \<and> or_otype (oc_request r) = MARKET \<and> \<not> or_reduce_only (oc_request r)))"
    using assms c unfolding orders_watched_def by metis
  then show "or_reduce_only (po_req po) \<or> (c \<in> set ws \<and> (\<exists>r. dget (map (refreshed b) os) c = Some r \<and> or_otype (oc_request r) = MARKET \<and> \<not> or_reduce_only (oc_request r)))"
    unfolding dget_refreshed using refreshed_request by fastforce
next
  fix c assume "c \<in> set ws"
  with assms obtain po where po: "dget (br_orders b) c = Some po" "\<forall>r. dget os c = Some r \<longrightarrow> final_status (oc_status r) \<longrightarrow> po_status po \<noteq> OS_NEW"
    unfolding orders_watched_def by blast
  then show "\<exists>po. dget (br_orders b) c = Some po \<and> (\<forall>r. dget (map (refreshed b) os) c = Some r \<longrightarrow> final_status (oc_status r) \<longrightarrow> po_status po \<noteq> OS_NEW)"
    by (intro exI [of _ po]) (auto simp: dget_refreshed refreshed_def order_ack_of_def final_status_def)
qed

lemma release_halt_facts:
  assumes ok: "loop_ok E C L" and run: "release_halt E C L ro a = Inr (L', t)"
  shows "loop_ok E C L'"
proof -
  obtain m where m: "fsm_release (le_cx E) (Some (tl_clock L)) (tl_fsm L) ro a = Inr (m, t)"
    and L': "tl_fsm L' = m" "tl_broker L' = tl_broker L" "tl_orders L' = tl_orders L" "tl_open_orders L' = tl_open_orders L" "tl_portfolio L' = tl_portfolio L"
      "tl_router L' = tl_router L" "rg_killswitch (tl_guard L') = Some (fs_killswitch m)"
    using run by (auto simp: release_halt_def Let_def elim!: rbind_InrE split: option.splits if_splits)
  have "loop_inv E C L'" by (rule loop_inv_same) (use ok L' in \<open>simp_all add: loop_ok_def\<close>)
  with fsm_release_latch [OF _ m] ok L' show ?thesis by (simp add: loop_ok_def)
qed

lemma limits_facts:
  assumes ok: "loop_ok E C L" and run: "apply_risk_limits E L lm p sm = Inr L'"
  shows "loop_ok E C L'"
proof -
  obtain g k where L': "L' = L\<lparr>tl_guard := g, tl_fsm := (tl_fsm L)\<lparr>fs_cfg := k\<rparr>\<rparr>" and g: "rg_killswitch g = Some (fs_killswitch (tl_fsm L))"
    using run by (auto simp: apply_risk_limits_def mk_risk_guard_def Let_def elim!: rbind_InrE split: if_splits)
  have "loop_inv E C L'" by (rule loop_inv_same) (use ok in \<open>simp_all add: loop_ok_def L' g\<close>)
  then show ?thesis using ok by (simp add: loop_ok_def halt_holds_def L')
qed

definition loop_cmd_ok :: "loop_cfg \<Rightarrow> loop_cmd \<Rightarrow> bool" where
  "loop_cmd_ok C c = (case c of Step b t (Some x) dq ld \<Rightarrow> ba_instrument x = lp_sym C | _ \<Rightarrow> True)"

lemma loop_command_ok:
  assumes ok: "loop_ok E C L" and c: "loop_cmd_ok C c" and run: "loop_command E C L c = Inr L'"
  shows "loop_ok E C L'"
proof (cases c)
  case (Step b t db dq ld)
  with run obtain r where "loop_step E C L b t db dq ld = Inr (L', r)" by (auto elim!: rbind_InrE)
  with loop_step_facts [OF ok this] c Step show ?thesis by (auto simp: loop_cmd_ok_def split: option.splits)
next
  case (Candle x dq ld)
  with run on_candle_facts [OF ok] show ?thesis by (auto elim!: rbind_InrE)
next
  case (Release_halt ro a)
  with run release_halt_facts [OF ok] show ?thesis by (auto elim!: rbind_InrE)
next
  case (Limits l p sm)
  with run limits_facts [OF ok] show ?thesis by simp
next
  case (Trip_latch reason ts)
  then have L': "L' = trip_latch L reason ts" using run by simp
  have "loop_inv E C L'" by (rule loop_inv_same) (use ok in \<open>simp_all add: loop_ok_def L' trip_latch_def Let_def\<close>)
  then show ?thesis by (simp add: loop_ok_def halt_holds_def L' trip_latch_def Let_def)
next
  case (Funding_series s)
  with run ok show ?thesis by (auto simp: set_funding_series_def loop_ok_def loop_inv_def elim!: rbind_InrE split: option.splits if_splits)
next
  case Take_pending
  then have L': "L' = fst (take_pending_risk_events C L)" using run by simp
  have same: "tl_broker L' = tl_broker L" "tl_orders L' = tl_orders L" "tl_open_orders L' = tl_open_orders L" "tl_portfolio L' = tl_portfolio L"
    "tl_router L' = tl_router L" "tl_fsm L' = tl_fsm L" "rg_killswitch (tl_guard L') = rg_killswitch (tl_guard L)"
    by (cases "lp_keep C"; simp add: L' take_pending_risk_events_def clear_step_risk_def Let_def)+
  have "loop_inv E C L'" by (rule loop_inv_same) (use ok same in \<open>simp_all add: loop_ok_def loop_inv_def\<close>)
  with ok same show ?thesis by (simp add: loop_ok_def)
next
  case Refresh_statuses
  with run ok refreshed_watched show ?thesis by (auto simp: refresh_order_statuses_def loop_ok_def loop_inv_def)
qed

section \<open>Runs of the loop\<close>

definition checked_loop :: "loop_env \<Rightarrow> loop_cfg \<Rightarrow> trading_loop \<Rightarrow> loop_cmd \<Rightarrow> trading_loop result" where
  "checked_loop E C L c = (if loop_cmd_ok C c then loop_command E C L c else Inl ValueError)"

interpretation lo: step_invariant "checked_loop E C" "loop_ok E C" for E C
  by unfold_locales (auto simp: checked_loop_def intro: loop_command_ok split: if_splits)

lemma checked_loop_run:
  "run_steps (loop_command E C) s cs = Inr s' \<Longrightarrow> \<forall>c \<in> set cs. loop_cmd_ok C c \<Longrightarrow> run_steps (checked_loop E C) s cs = Inr s'"
  by (induction cs arbitrary: s) (auto simp: checked_loop_def rbind_Inr_iff)

lemma loop_init_ok:
  assumes inj: "inj (en_ids (le_broker E))" and run: "loop_init E C fp vp enter ex sm limits cost cash run_id journalled = Inr L"
  shows "loop_ok E C L"
proof -
  let ?B = "le_broker E"
  obtain b0 b pf where b0: "broker_init (le_cx E) cost [lp_instrument C] DEFAULT_VOL_LAMBDA DEFAULT_FUNDING_RATE = Inr b0"
    and b: "set_funding_rate b0 (lp_sym C) (lp_funding_fallback C) = Inr b" and pf: "portfolio_init cash = Inr pf"
    and L: "tl_broker L = b" "tl_portfolio L = pf" "tl_orders L = []" "tl_open_orders L = []" "tl_router L = router_init" "tl_fsm L = fsm_init sm"
      "rg_killswitch (tl_guard L) = Some killswitch_init"
    using run unfolding loop_init_def mk_risk_guard_def by (elim rbind_InrE) (auto split: if_splits)
  have i0: "broker_inv ?B b0" using broker_init_inv [OF b0 inj] by (simp add: run_inv_def)
  have o0: "br_orders b0 = []" "dget (br_state b0) (lp_sym C) = Some (new_inst_state (lp_instrument C) DEFAULT_FUNDING_RATE)"
    using b0 by (auto simp: broker_init_def split: if_splits)
  note k = calm_set(3) [OF i0 b]
  have "in_step (le_cx E) (lp_sym C) b0 pf"
    using pf o0 by (auto simp: in_step_def qty_repr_def portfolio_init_def position_qty_def position_of_def new_position_def new_inst_state_def repr_def dr.rnd_0 split: if_splits)
  then have s: "in_step (le_cx E) (lp_sym C) b pf" by (rule calm_in_step [OF k])
  have o: "dget (br_orders b) c = None" for c using k o0 by (simp add: calm_def)
  show ?thesis using calm_inv [OF k] s o by (simp add: loop_ok_def loop_inv_def L orders_watched_def router_init_def fsm_init_def halt_holds_def)
qed

lemma loop_run_ok:
  assumes "inj (en_ids (le_broker E))" "loop_init E C fp vp enter ex sm limits cost cash run_id journalled = Inr L0"
    and "\<forall>c \<in> set cs. loop_cmd_ok C c" "run_steps (loop_command E C) L0 cs = Inr L"
  shows "loop_ok E C L"
  by (rule lo.run_inv [OF loop_init_ok [OF assms(1,2)] checked_loop_run [OF assms(4,3)]])

section \<open>Properties of the loop\<close>

text \<open>C2: However the loop is driven (bars, candles, releases, trips of the latch, new limits, funding series), the position of the
  account and the position of the broker are the same after every command.\<close>
theorem account_follows_broker:
  assumes "inj (en_ids (le_broker E))" "loop_init E C fp vp enter ex sm limits cost cash run_id journalled = Inr L0"
    and "\<forall>c \<in> set cs. loop_cmd_ok C c" "run_steps (loop_command E C) L0 cs = Inr L"
  shows "br_position (tl_broker L) (lp_sym C) = Inr (position_qty (tl_portfolio L) (lp_sym C))"
  using loop_run_ok [OF assms] by (auto simp: loop_ok_def loop_inv_def in_step_def br_position_def br_require_def)

text \<open>C1: Under the latch (HALTED, or the kill switch tripped) no step takes exposure: the latch stays, the position moves only
  towards zero and never across it, and every order still pending after the step is reduce-only.\<close>
theorem latched_loop_retreats:
  assumes "inj (en_ids (le_broker E))" "loop_init E C fp vp enter ex sm limits cost cash run_id journalled = Inr L0"
    and "\<forall>c \<in> set cs. loop_cmd_ok C c" "run_steps (loop_command E C) L0 cs = Inr L"
    and "latched L" "loop_step E C L b t db dq ld = Inr (L', r)" "\<forall>x. db = Some x \<longrightarrow> ba_instrument x = lp_sym C"
  shows "latched L' \<and> \<bar>position_qty (tl_portfolio L') (lp_sym C)\<bar> \<le> \<bar>position_qty (tl_portfolio L) (lp_sym C)\<bar>
    \<and> 0 \<le> position_qty (tl_portfolio L) (lp_sym C) * position_qty (tl_portfolio L') (lp_sym C)
    \<and> (\<forall>c po. dget (br_orders (tl_broker L')) c = Some po \<longrightarrow> po_status po = OS_NEW \<longrightarrow> or_reduce_only (po_req po))"
proof -
  have f: "latched L'" "only_reducing (br_orders (tl_broker L'))"
    "shrinks (position_qty (tl_portfolio L) (lp_sym C)) (position_qty (tl_portfolio L') (lp_sym C))"
    using loop_step_facts [OF loop_run_ok [OF assms(1-4)] assms(6,7)] assms(5) by simp_all
  have "\<bar>q'\<bar> \<le> \<bar>q\<bar> \<and> 0 \<le> q * q'" if "shrinks q q'" for q q' :: dec
    using that by (auto simp: shrinks_def mult_nonneg_nonneg mult_nonpos_nonpos)
  from f this [OF f(3)] show ?thesis by (simp add: only_reducing_def)
qed

section \<open>A loop to run\<close>

definition ex_loop_env :: loop_env where
  "ex_loop_env = \<lparr>le_broker = ex_env, le_math = Decision.ex_math, le_log = (\<lambda>x. 0), le_median = (\<lambda>xs. case xs of [] \<Rightarrow> 0 | x # _ \<Rightarrow> x)\<rparr>"

definition ex_loop_cfg :: "window decision_core \<Rightarrow> loop_cfg" where
  "ex_loop_cfg core = \<lparr>lp_instrument = ex_inst, lp_tp_multiple = 2, lp_record = RM_NONE, lp_keep = False, lp_check = False, lp_tol = 0,
     lp_funding_fallback = 0, lp_funding_match_ns = 0, lp_decide_from = 100, lp_core = core, lp_sizing = \<lparr>sp_rho_base = 1, sp_chi = 1, sp_max_leverage = 3\<rparr>\<rparr>"

definition ex_vol :: vol_params where
  "ex_vol = \<lparr>vp_lam = 1/2, vp_A = 365, vp_sigma_target = 1/2, vp_s_min = 1/4, vp_s_max = 2, vp_gamma = 1/2, vp_s0 = None, vp_sigma2_0 = None\<rparr>"

definition ex_loop_bar :: fbar where
  "ex_loop_bar = \<lparr>fb_t_ns = 10, fb_o = 100, fb_h = 105, fb_l = 95, fb_c = 100, fb_v = 1, fb_qv = 0, fb_n = 0\<rparr>"

lemmas ex_loop_defs = ex_loop_env_def ex_loop_cfg_def ex_vol_def ex_loop_bar_def


definition ex_run_journal :: risk_journal where
  "ex_run_journal = \<lparr>rj_run_id = None, rj_sink = Some [], rj_events = None, rj_keep = False, rj_count = 0, rj_records = []\<rparr>"

lemma ex_loop_init:
  "\<exists>L0. loop_init ex_loop_env (ex_loop_cfg core) default_params ex_vol (Fin 1) (Fin (1/2)) default_sm_cfg ex_limits ex_free 1000 None False = Inr L0
     \<and> tl_clock L0 = 0 \<and> tl_funding L0 = [] \<and> tl_open_orders L0 = [] \<and> tl_prev_close L0 = None \<and> tl_sigma_base L0 = None \<and> tl_index L0 = - 1 \<and> tl_portfolio L0 = \<lparr>pf_initial = 1000, pf_cash = 1000, pf_fees_paid = 0, pf_funding_paid = 0, pf_realized_pnl = 0,
       pf_traded_notional = 0, pf_n_fills = 0, pf_positions = [], pf_marks = [], pf_closed_trades = []\<rparr>
     \<and> tl_broker L0 = \<lparr>br_cost = ex_free, br_lam = 94/100, br_one_minus_lam = 6/100, br_state = [(''BTC'', (new_inst_state ex_inst (1/10000))\<lparr>st_funding_rate := 0\<rparr>)],
             br_orders = [], br_funding = [], br_seq = 0, br_drawn_ids = 0\<rparr>
     \<and> tl_fsm L0 = fsm_init default_sm_cfg"
proof -
  obtain pl where pl: "mk_pipeline default_params = Inr pl"
    by (simp add: mk_pipeline_def default_params_def mk_ema_def mk_ols_def mk_atr_def mk_rsi_def mk_welford_def mk_rank_def mk_mono_def mk_parkinson_def)
  obtain w :: window where w: "window_init (max MIN_WINDOW_CAPACITY 8) = Inr w" by (simp add: window_init_def MIN_WINDOW_CAPACITY_def)
  obtain vt where vt: "mk_vol_target ex_vol = Inr vt" by (simp add: mk_vol_target_def ex_vol_def Let_def)
  obtain g where g: "mk_gate (Fin 1) (Fin (1/2)) FLAT = Inr g" by (simp add: mk_gate_def)
  have lc: "mk_limits_cfg ex_limits = Inr ex_limits" by (simp add: mk_limits_cfg_def ex_limits_def evals)
  obtain rules rg where rules: "default_rules Default_ctx ex_limits = Inr rules" and rg: "mk_risk_guard rules ex_run_journal (Some killswitch_init) True (sm_cooldown_policy default_sm_cfg) = Inr rg"
    by (simp add: default_rules_total [OF lc] mk_risk_guard_def)
  have E: "le_cx ex_loop_env = Default_ctx" by (simp add: ex_loop_env_def ex_env_def)
  show ?thesis unfolding loop_init_def E
    by (simp only: pl w vt g rules rg [unfolded ex_run_journal_def] rbind_simps if_False)
      (simp add: broker_init_def ex_loop_cfg_def ex_inst_def DEFAULT_VOL_LAMBDA_def DEFAULT_FUNDING_RATE_def
        set_funding_rate_def br_require_def portfolio_init_def dsub_def evals)
qed


lemma ex_loop_step:
  "\<exists>L0 L L' r. loop_init ex_loop_env (ex_loop_cfg core) default_params ex_vol (Fin 1) (Fin (1/2)) default_sm_cfg ex_limits ex_free 1000 None False = Inr L0
     \<and> run_steps (loop_command ex_loop_env (ex_loop_cfg core)) L0 [Trip_latch ''operator'' (Some 5)] = Inr L \<and> latched L
     \<and> loop_step ex_loop_env (ex_loop_cfg core) L ex_loop_bar 11 (Some ex_bar) 1 None = Inr (L', r)"
proof -
  let ?E = ex_loop_env and ?C = "ex_loop_cfg core"
  obtain L0 where i: "loop_init ?E ?C default_params ex_vol (Fin 1) (Fin (1/2)) default_sm_cfg ex_limits ex_free 1000 None False = Inr L0"
    and f: "tl_clock L0 = 0" "tl_funding L0 = []" "tl_open_orders L0 = []" "tl_prev_close L0 = None" "tl_sigma_base L0 = None" "tl_index L0 = - 1"
     "tl_portfolio L0 = \<lparr>pf_initial = 1000, pf_cash = 1000, pf_fees_paid = 0, pf_funding_paid = 0, pf_realized_pnl = 0,
       pf_traded_notional = 0, pf_n_fills = 0, pf_positions = [], pf_marks = [], pf_closed_trades = []\<rparr>"
     "tl_broker L0 = \<lparr>br_cost = ex_free, br_lam = 94/100, br_one_minus_lam = 6/100, br_state = [(''BTC'', (new_inst_state ex_inst (1/10000))\<lparr>st_funding_rate := 0\<rparr>)],
             br_orders = [], br_funding = [], br_seq = 0, br_drawn_ids = 0\<rparr>"
     "tl_fsm L0 = fsm_init default_sm_cfg" using ex_loop_init [of core] by metis
  define L where "L = trip_latch L0 ''operator'' (Some 5)"
  have L: "tl_clock L = 0" "tl_funding L = []" "tl_open_orders L = []" "tl_prev_close L = None" "tl_sigma_base L = None" "tl_index L = - 1" "tl_portfolio L = tl_portfolio L0" "tl_broker L = tl_broker L0"
    "fs_state (tl_fsm L) = NORMAL" "ks_tripped (fs_killswitch (tl_fsm L))" "fs_tracker (tl_fsm L) = fs_tracker (fsm_init default_sm_cfg)" "fs_cfg (tl_fsm L) = default_sm_cfg"
    by (simp_all add: L_def trip_latch_def f Let_def fsm_init_def)
  have l: "latched L" by (simp add: latched_def L)
  define L1 where "L1 = L\<lparr>tl_clock := 10, tl_step_transition := None\<rparr>"
  have p1: "prepare_phase ?E ?C L 10 11 = Inr L1" by (simp add: prepare_phase_def clock_set_def L L1_def)
  have ob: "\<exists>b. on_bar ex_env (tl_broker L0) ex_bar = Inr (b, []) \<and> br_funding b = []" unfolding f
    by (simp add: ex_broker evals cong: rbind_weak_cong)
  then obtain b where b: "on_bar ex_env (tl_broker L0) ex_bar = Inr (b, [])" "br_funding b = []" by blast
  define L2 where "L2 = L1\<lparr>tl_broker := b, tl_touched := []\<rparr>"
  have "\<exists>ex. execution_phase ?E ?C L1 ex_bar = Inr (L2, ex)"
    by (simp add: execution_phase_def L1_def L2_def L b ex_loop_env_def drain_funding_def)
  then obtain ex where p2: "execution_phase ?E ?C L1 ex_bar = Inr (L2, ex)" by blast
  define L3 where "L3 = L2\<lparr>tl_clock := 11, tl_portfolio := fst (pf_mark Default_ctx (tl_portfolio L0) [(''BTC'', 100)])\<rparr>"
  have p3: "mark_phase ?E ?C L2 ex_bar 11 = Inr (L3, 1000)"
    by (simp add: mark_phase_def clock_set_def L3_def L2_def L1_def L f ex_loop_env_def ex_loop_cfg_def ex_broker evals)
  have "\<exists>L4. observe_phase ?E ?C L3 ex_loop_bar 11 1000 0 = Inr L4"
    by (auto simp: observe_phase_def volatility_step_def mk_risk_observation_def fsm_update_def tracker_init_def tracker_update_def fsm_init_def
       ex_loop_cfg_def L3_def L2_def L1_def L Let_def vol_ratio_def split: prod.splits option.splits)
  then obtain L4 where p4: "observe_phase ?E ?C L3 ex_loop_bar 11 1000 0 = Inr L4" by blast
  have "\<exists>y. loop_step ?E ?C L ex_loop_bar 11 (Some ex_bar) 1 None = Inr y"
    using p1 p2 p3 p4 by (simp add: loop_step_def L ex_loop_cfg_def ex_loop_bar_def record_phase_def Let_def)
  then obtain y where "loop_step ?E ?C L ex_loop_bar 11 (Some ex_bar) 1 None = Inr y" by blast
  with i l show ?thesis by (cases y) (simp add: L_def)
qed


theorem account_follows_broker_witness:
  "\<exists>core L0 L. loop_init ex_loop_env (ex_loop_cfg core) default_params ex_vol (Fin 1) (Fin (1/2)) default_sm_cfg ex_limits ex_free 1000 None False = Inr L0
     \<and> run_steps (loop_command ex_loop_env (ex_loop_cfg core)) L0 [Trip_latch ''operator'' (Some 5), Step ex_loop_bar 11 (Some ex_bar) 1 None] = Inr L
     \<and> br_position (tl_broker L) ''BTC'' = Inr (position_qty (tl_portfolio L) ''BTC'')"
proof -
  fix core :: "window decision_core"
  obtain L0 L1 L r where a: "loop_init ex_loop_env (ex_loop_cfg core) default_params ex_vol (Fin 1) (Fin (1/2)) default_sm_cfg ex_limits ex_free 1000 None False = Inr L0"
    "run_steps (loop_command ex_loop_env (ex_loop_cfg core)) L0 [Trip_latch ''operator'' (Some 5)] = Inr L1"
    "loop_step ex_loop_env (ex_loop_cfg core) L1 ex_loop_bar 11 (Some ex_bar) 1 None = Inr (L, r)" using ex_loop_step by metis
  let ?cs = "[Trip_latch ''operator'' (Some 5), Step ex_loop_bar 11 (Some ex_bar) 1 None]"
  have s: "lp_sym (ex_loop_cfg core) = ''BTC''" "ba_instrument ex_bar = ''BTC''" by (simp_all add: ex_loop_cfg_def ex_inst_def ex_bar_def)
  have c: "\<forall>c \<in> set ?cs. loop_cmd_ok (ex_loop_cfg core) c" by (simp add: loop_cmd_ok_def s)
  have i: "inj (en_ids (le_broker ex_loop_env))" using ex_ids(1) by (simp add: ex_loop_env_def)
  have "run_steps (loop_command ex_loop_env (ex_loop_cfg core)) L0 ?cs = Inr L" using a(2,3) by simp
  with account_follows_broker [OF i a(1) c this] a(1) s(1) show ?thesis by metis
qed

theorem latched_loop_retreats_witness:
  "\<exists>core L0 L L' r. loop_init ex_loop_env (ex_loop_cfg core) default_params ex_vol (Fin 1) (Fin (1/2)) default_sm_cfg ex_limits ex_free 1000 None False = Inr L0
     \<and> run_steps (loop_command ex_loop_env (ex_loop_cfg core)) L0 [Trip_latch ''operator'' (Some 5)] = Inr L
     \<and> loop_step ex_loop_env (ex_loop_cfg core) L ex_loop_bar 11 (Some ex_bar) 1 None = Inr (L', r) \<and> latched L'"
proof -
  fix core :: "window decision_core"
  obtain L0 L L' r where a: "loop_init ex_loop_env (ex_loop_cfg core) default_params ex_vol (Fin 1) (Fin (1/2)) default_sm_cfg ex_limits ex_free 1000 None False = Inr L0"
    "run_steps (loop_command ex_loop_env (ex_loop_cfg core)) L0 [Trip_latch ''operator'' (Some 5)] = Inr L" "latched L"
    "loop_step ex_loop_env (ex_loop_cfg core) L ex_loop_bar 11 (Some ex_bar) 1 None = Inr (L', r)" using ex_loop_step by metis
  have c: "\<forall>c \<in> set [Trip_latch ''operator'' (Some 5)]. loop_cmd_ok (ex_loop_cfg core) c" by (simp add: loop_cmd_ok_def)
  have i: "inj (en_ids (le_broker ex_loop_env))" using ex_ids(1) by (simp add: ex_loop_env_def)
  have "\<forall>x. Some ex_bar = Some x \<longrightarrow> ba_instrument x = lp_sym (ex_loop_cfg core)" by (simp add: ex_loop_cfg_def ex_inst_def ex_bar_def)
  from latched_loop_retreats [OF i a(1) c a(2,3,4) this] a show ?thesis by blast
qed

end
