(* ===== verification/Journal.thy ===== *)
theory Journal
  imports Strings Domain "HOL-Library.Word"
begin

text \<open>
  \<^verbatim>\<open>core/digest.py\<close> and \<^verbatim>\<open>core/journal.py\<close>: the canonical tree of a value, its digest, and the journal of events whose entries
  are chained by their hashes. BLAKE2b (\<open>H\<close>) and \<^verbatim>\<open>orjson.dumps\<close> with sorted keys (\<open>D\<close>) are parameters. A mapping is the
  list of its items; sets are not modelled.
\<close>

section \<open>Canonical data\<close>

type_synonym bytes = "8 word list"

text \<open>A key that is not a string is given by its text.\<close>

datatype py_key = Str_key string | Other_key string

datatype py_val = Py_none | Py_bool bool | Py_int int | Py_str string | Py_float pyfloat | Py_dec quantum | Py_enum py_val | Py_uuid uuid
  | Py_bytes bytes | Py_record "(string \<times> py_val) list" | Py_map "(py_key \<times> py_val) list" | Py_list "py_val list" | Py_numpy | Py_other

datatype canon = C_null | C_bool bool | C_int int | C_str string | C_list "canon list" | C_obj "(string \<times> canon) list"

fun assert_no_float :: "py_val \<Rightarrow> unit result" and no_float_items :: "(py_key \<times> py_val) list \<Rightarrow> unit result"
  and no_float_fields :: "(string \<times> py_val) list \<Rightarrow> unit result" and no_float_list :: "py_val list \<Rightarrow> unit result" where
  "assert_no_float (Py_float _) = Inl TypeError"
| "assert_no_float (Py_record fs) = no_float_fields fs"
| "assert_no_float (Py_map kvs) = no_float_items kvs"
| "assert_no_float (Py_list xs) = no_float_list xs"
| "assert_no_float Py_numpy = Inl TypeError"
| "assert_no_float _ = Inr ()"
| "no_float_items [] = Inr ()"
| "no_float_items ((k, v) # kvs) = (case k of Other_key _ \<Rightarrow> Inl TypeError | Str_key _ \<Rightarrow> rbind (assert_no_float v) (\<lambda>_. no_float_items kvs))"
| "no_float_fields [] = Inr ()"
| "no_float_fields ((_, v) # fs) = rbind (assert_no_float v) (\<lambda>_. no_float_fields fs)"
| "no_float_list [] = Inr ()"
| "no_float_list (v # vs) = rbind (assert_no_float v) (\<lambda>_. no_float_list vs)"

definition hex_digit :: "nat \<Rightarrow> char" where
  "hex_digit n = char_of (if n < 10 then n + 48 else n + 87)"

fun hex_digits :: "nat \<Rightarrow> nat \<Rightarrow> string" where
  "hex_digits 0 n = []"
| "hex_digits (Suc k) n = hex_digits k (n div 16) @ [hex_digit (n mod 16)]"

definition hex :: "bytes \<Rightarrow> string" where
  "hex bs = concat (map (\<lambda>b. hex_digits 2 (unat b)) bs)"

definition uuid_str :: "uuid \<Rightarrow> string" where
  "uuid_str u = (let s = hex_digits 32 u in take 8 s @ ''-'' @ take 4 (drop 8 s) @ ''-'' @ take 4 (drop 12 s) @ ''-'' @ take 4 (drop 16 s) @ ''-'' @ drop 20 s)"

fun key_text :: "py_key \<Rightarrow> string" where
  "key_text (Str_key s) = s"
| "key_text (Other_key s) = s"

fun to_canonical :: "py_val \<Rightarrow> canon result" and canonical_items :: "(string, canon) dict \<Rightarrow> (py_key \<times> py_val) list \<Rightarrow> (string, canon) dict result"
  and canonical_fields :: "(string \<times> py_val) list \<Rightarrow> (string, canon) dict result" and canonical_list :: "py_val list \<Rightarrow> canon list result" where
  "to_canonical Py_none = Inr C_null"
| "to_canonical (Py_bool b) = Inr (C_bool b)"
| "to_canonical (Py_int i) = Inr (C_int i)"
| "to_canonical (Py_str s) = Inr (C_str s)"
| "to_canonical (Py_dec q) = Inr (C_str (dec_str q))"
| "to_canonical (Py_enum v) = to_canonical v"
| "to_canonical (Py_uuid u) = Inr (C_str (uuid_str u))"
| "to_canonical (Py_bytes bs) = Inr (C_str (hex bs))"
| "to_canonical (Py_record fs) = rbind (canonical_fields fs) (\<lambda>d. Inr (C_obj d))"
| "to_canonical (Py_map kvs) = rbind (canonical_items [] kvs) (\<lambda>d. Inr (C_obj d))"
| "to_canonical (Py_list xs) = rbind (canonical_list xs) (\<lambda>ys. Inr (C_list ys))"
| "to_canonical _ = Inl TypeError"
| "canonical_items d [] = Inr d"
| "canonical_items d ((k, v) # kvs) = rbind (to_canonical v) (\<lambda>c. canonical_items (dset d (key_text k) c) kvs)"
| "canonical_fields [] = Inr []"
| "canonical_fields ((k, v) # fs) = rbind (to_canonical v) (\<lambda>c. rbind (canonical_fields fs) (\<lambda>d. Inr ((k, c) # d)))"
| "canonical_list [] = Inr []"
| "canonical_list (v # vs) = rbind (to_canonical v) (\<lambda>c. rbind (canonical_list vs) (\<lambda>cs. Inr (c # cs)))"

definition canonical_json :: "(canon \<Rightarrow> bytes result) \<Rightarrow> py_val \<Rightarrow> bytes result" where
  "canonical_json D v = rbind (assert_no_float v) (\<lambda>_. rbind (to_canonical v) D)"

definition digest :: "(bytes \<Rightarrow> bytes) \<Rightarrow> (canon \<Rightarrow> bytes result) \<Rightarrow> py_val \<Rightarrow> bytes result" where
  "digest H D v = rbind (canonical_json D v) (\<lambda>b. Inr (H b))"

definition hex_digest :: "(bytes \<Rightarrow> bytes) \<Rightarrow> (canon \<Rightarrow> bytes result) \<Rightarrow> py_val \<Rightarrow> string result" where
  "hex_digest H D v = rbind (digest H D v) (\<lambda>b. Inr (hex b))"

definition event_uid :: "(bytes \<Rightarrow> bytes) \<Rightarrow> (canon \<Rightarrow> bytes result) \<Rightarrow> py_val list \<Rightarrow> string result" where
  "event_uid H D key = hex_digest H D (Py_list key)"

section \<open>The journal\<close>

record journal_entry =
  je_run_id :: uuid
  je_seq :: int
  je_ts_event_ns :: int
  je_ts_ingest_ns :: int
  je_kind :: string
  je_payload :: py_val
  je_prev_hash :: bytes
  je_hash :: bytes

definition GENESIS :: bytes where "GENESIS = replicate 32 0"

definition entry_bytes :: "(canon \<Rightarrow> bytes result) \<Rightarrow> int \<Rightarrow> int \<Rightarrow> int \<Rightarrow> string \<Rightarrow> py_val \<Rightarrow> bytes result" where
  "entry_bytes D i te ti kind payload = canonical_json D (Py_list [Py_int i, Py_int te, Py_int ti, Py_str kind, payload])"

definition entry_hash :: "(bytes \<Rightarrow> bytes) \<Rightarrow> (canon \<Rightarrow> bytes result) \<Rightarrow> bytes \<Rightarrow> int \<Rightarrow> int \<Rightarrow> int \<Rightarrow> string \<Rightarrow> py_val \<Rightarrow> bytes result" where
  "entry_hash H D prev i te ti kind payload = rbind (entry_bytes D i te ti kind payload) (\<lambda>b. Inr (H (prev @ b)))"

text \<open>The sink of a journal, when there is one, is the list of what it has been given.\<close>

record event_journal =
  ej_run_id :: uuid
  ej_head :: bytes
  ej_seq :: int
  ej_keep :: bool
  ej_entries :: "journal_entry list"
  ej_sink :: "journal_entry list option"

definition journal_init :: "uuid \<Rightarrow> bytes \<Rightarrow> int \<Rightarrow> bool \<Rightarrow> bool \<Rightarrow> event_journal" where
  "journal_init run_id head i keep sink = \<lparr>ej_run_id = run_id, ej_head = head, ej_seq = i, ej_keep = keep, ej_entries = [], ej_sink = (if sink then Some [] else None)\<rparr>"

definition journal_append :: "(bytes \<Rightarrow> bytes) \<Rightarrow> (canon \<Rightarrow> bytes result) \<Rightarrow> event_journal \<Rightarrow> string \<Rightarrow> py_val \<Rightarrow> int \<Rightarrow> int
    \<Rightarrow> (event_journal \<times> journal_entry) result" where
  "journal_append H D j kind payload te ti =
     rbind (entry_hash H D (ej_head j) (ej_seq j) te ti kind payload) (\<lambda>h.
       let e = \<lparr>je_run_id = ej_run_id j, je_seq = ej_seq j, je_ts_event_ns = te, je_ts_ingest_ns = ti, je_kind = kind, je_payload = payload,
                je_prev_hash = ej_head j, je_hash = h\<rparr>
       in Inr (j\<lparr>ej_head := h, ej_seq := ej_seq j + 1, ej_entries := (if ej_keep j then ej_entries j @ [e] else ej_entries j),
                 ej_sink := map_option (\<lambda>es. es @ [e]) (ej_sink j)\<rparr>, e))"

fun verify_chain :: "(bytes \<Rightarrow> bytes) \<Rightarrow> (canon \<Rightarrow> bytes result) \<Rightarrow> bytes \<Rightarrow> journal_entry list \<Rightarrow> int option result" where
  "verify_chain H D prev [] = Inr None"
| "verify_chain H D prev (e # es) =
     rbind (entry_hash H D prev (je_seq e) (je_ts_event_ns e) (je_ts_ingest_ns e) (je_kind e) (je_payload e)) (\<lambda>expected.
       if je_prev_hash e \<noteq> prev \<or> je_hash e \<noteq> expected then Inr (Some (je_seq e)) else verify_chain H D (je_hash e) es)"

definition assert_chain :: "(bytes \<Rightarrow> bytes) \<Rightarrow> (canon \<Rightarrow> bytes result) \<Rightarrow> bytes \<Rightarrow> journal_entry list \<Rightarrow> unit result" where
  "assert_chain H D genesis es = rbind (verify_chain H D genesis es) (\<lambda>bad. case bad of None \<Rightarrow> Inr () | Some i \<Rightarrow> Inl (JournalIntegrityError i))"

text \<open>A run of appends.\<close>

definition journal_step :: "(bytes \<Rightarrow> bytes) \<Rightarrow> (canon \<Rightarrow> bytes result) \<Rightarrow> event_journal \<Rightarrow> string \<times> py_val \<times> int \<times> int \<Rightarrow> event_journal result" where
  "journal_step H D j x = (case x of (kind, payload, te, ti) \<Rightarrow> rbind (journal_append H D j kind payload te ti) (\<lambda>(j', e). Inr j'))"

section \<open>Chains\<close>

definition chain_head :: "bytes \<Rightarrow> journal_entry list \<Rightarrow> bytes" where
  "chain_head g es = last (g # map je_hash es)"

lemma chain_head_snoc [simp]: "chain_head g [] = g" "chain_head g (es @ [e]) = je_hash e"
  by (simp_all add: chain_head_def)

lemma chain_head_cons [simp]: "chain_head g (e # es) = chain_head (je_hash e) es"
  by (simp add: chain_head_def)

lemma verify_append: "verify_chain H D g es = Inr None \<Longrightarrow> verify_chain H D g (es @ es') = verify_chain H D (chain_head g es) es'"
  by (induction es arbitrary: g) (auto elim!: rbind_InrE split: if_splits)

lemma verify_prefix: "verify_chain H D g (es @ es') = Inr None \<Longrightarrow> verify_chain H D g es = Inr None"
  by (induction es arbitrary: g) (auto elim!: rbind_InrE split: if_splits)

definition bytes_of_entry :: "(canon \<Rightarrow> bytes result) \<Rightarrow> journal_entry \<Rightarrow> bytes result" where
  "bytes_of_entry D e = entry_bytes D (je_seq e) (je_ts_event_ns e) (je_ts_ingest_ns e) (je_kind e) (je_payload e)"

lemma verify_last:
  assumes "verify_chain H D g (es @ [e]) = Inr None"
  obtains b where "bytes_of_entry D e = Inr b" "je_prev_hash e = chain_head g es" "je_hash e = H (je_prev_hash e @ b)"
proof -
  from verify_append [OF verify_prefix [OF assms]] assms have "verify_chain H D (chain_head g es) [e] = Inr None" by simp
  with that show thesis by (auto simp: entry_hash_def bytes_of_entry_def elim!: rbind_InrE split: if_splits)
qed

lemma head_length:
  assumes "\<forall>x. length (H x) = n" "length g = n" "verify_chain H D g es = Inr None"
  shows "length (chain_head g es) = n"
  using assms(3)
proof (cases es rule: rev_cases)
  case (snoc xs x)
  with assms(3) obtain b where "je_hash x = H (je_prev_hash x @ b)" by (auto elim: verify_last)
  with snoc assms(1) show ?thesis by simp
qed (use assms in simp)

text \<open>What a journal holds after any run of appends.\<close>

definition journal_inv :: "(bytes \<Rightarrow> bytes) \<Rightarrow> (canon \<Rightarrow> bytes result) \<Rightarrow> bytes \<Rightarrow> int \<Rightarrow> event_journal \<Rightarrow> bool" where
  "journal_inv H D g i j \<longleftrightarrow> (ej_keep j \<longrightarrow> verify_chain H D g (ej_entries j) = Inr None \<and> ej_head j = chain_head g (ej_entries j)
     \<and> ej_seq j = i + int (length (ej_entries j)) \<and> (\<forall>k < length (ej_entries j). je_seq (ej_entries j ! k) = i + int k))"

lemma journal_step_inv:
  assumes inv: "journal_inv H D g i j" and run: "journal_step H D j x = Inr j'"
  shows "journal_inv H D g i j'"
proof -
  obtain kind payload te ti where x: "x = (kind, payload, te, ti)" by (cases x)
  from run x obtain h where h: "entry_hash H D (ej_head j) (ej_seq j) te ti kind payload = Inr h"
    and j': "ej_keep j' = ej_keep j" "ej_head j' = h" "ej_seq j' = ej_seq j + 1"
      "ej_keep j \<Longrightarrow> ej_entries j' = ej_entries j @ [\<lparr>je_run_id = ej_run_id j, je_seq = ej_seq j, je_ts_event_ns = te, je_ts_ingest_ns = ti, je_kind = kind,
         je_payload = payload, je_prev_hash = ej_head j, je_hash = h\<rparr>]"
    by (auto simp: journal_step_def journal_append_def Let_def elim!: rbind_InrE)
  show ?thesis
  proof (cases "ej_keep j")
    case True
    with inv have v: "verify_chain H D g (ej_entries j) = Inr None" "ej_head j = chain_head g (ej_entries j)"
      "ej_seq j = i + int (length (ej_entries j))" "\<forall>k < length (ej_entries j). je_seq (ej_entries j ! k) = i + int k" by (auto simp: journal_inv_def)
    show ?thesis using v h True unfolding journal_inv_def
      by (auto simp: j' verify_append nth_append less_Suc_eq)
  next
    case False
    with j' show ?thesis by (simp add: journal_inv_def)
  qed
qed

interpretation ej: step_invariant "journal_step H D" "journal_inv H D g i" for H D g i
  by unfold_locales (rule journal_step_inv)

lemma journal_run_inv:
  "run_steps (journal_step H D) (journal_init run_id g i keep sink) xs = Inr j \<Longrightarrow> journal_inv H D g i j"
  by (rule ej.run_inv [rotated]) (auto simp: journal_inv_def journal_init_def)

lemma journal_run_keep: "run_steps (journal_step H D) j xs = Inr j' \<Longrightarrow> ej_keep j' = ej_keep j"
proof (induction xs arbitrary: j)
  case (Cons x xs)
  then obtain j1 where j1: "journal_step H D j x = Inr j1" and rest: "run_steps (journal_step H D) j1 xs = Inr j'" by (auto elim!: rbind_InrE)
  from j1 have "ej_keep j1 = ej_keep j" by (auto simp: journal_step_def journal_append_def Let_def elim!: rbind_InrE split: prod.splits)
  with Cons.IH [OF rest] show ?case by simp
qed simp

section \<open>Tampering\<close>


text \<open>Two entries that are a collision of the hash, and an entry that hashes to the genesis value.\<close>

definition chain_collision :: "(bytes \<Rightarrow> bytes) \<Rightarrow> (canon \<Rightarrow> bytes result) \<Rightarrow> journal_entry list \<Rightarrow> journal_entry list \<Rightarrow> bool" where
  "chain_collision H D es es' \<longleftrightarrow> (\<exists>e \<in> set es. \<exists>e' \<in> set es'. \<exists>b b'. bytes_of_entry D e = Inr b \<and> bytes_of_entry D e' = Inr b'
     \<and> je_prev_hash e @ b \<noteq> je_prev_hash e' @ b' \<and> H (je_prev_hash e @ b) = H (je_prev_hash e' @ b'))"

definition genesis_hit :: "(bytes \<Rightarrow> bytes) \<Rightarrow> (canon \<Rightarrow> bytes result) \<Rightarrow> bytes \<Rightarrow> journal_entry list \<Rightarrow> bool" where
  "genesis_hit H D g es \<longleftrightarrow> (\<exists>e \<in> set es. \<exists>b. bytes_of_entry D e = Inr b \<and> H (je_prev_hash e @ b) = g)"

lemma chain_collision_mono: "chain_collision H D xs ys \<Longrightarrow> chain_collision H D (xs @ [x]) (ys @ [y])"
  unfolding chain_collision_def by (metis Un_iff set_append)

lemma genesis_hit_mono: "genesis_hit H D g xs \<Longrightarrow> genesis_hit H D g (xs @ [x])"
  unfolding genesis_hit_def by (metis Un_iff set_append)



text \<open>A checksum in place of the hash, and a text that holds the time of the event.\<close>

definition ex_hash :: "bytes \<Rightarrow> bytes" where
  "ex_hash x = replicate 31 0 @ [sum_list x + 1]"

fun ex_dumps :: "canon \<Rightarrow> bytes result" where
  "ex_dumps (C_list (_ # C_int t # _)) = Inr [word_of_int t]"
| "ex_dumps _ = Inr []"

definition ex_entry1 :: "py_val \<Rightarrow> journal_entry" where
  "ex_entry1 payload = \<lparr>je_run_id = 0, je_seq = 0, je_ts_event_ns = 3, je_ts_ingest_ns = 3, je_kind = ''fill'', je_payload = payload, je_prev_hash = GENESIS,
     je_hash = replicate 31 0 @ [4]\<rparr>"



end
