(* ===== verification/Quality.thy ===== *)
theory Quality
  imports Features "HOL-Library.Product_Lexorder"
begin

text \<open>
  \<^verbatim>\<open>quality/dq_score.py\<close> and \<^verbatim>\<open>quality/health.py\<close>: the score of the data of an hour with the accumulator it is formed from, and the counters
  of the pipeline. \<open>ex\<close> is \<^verbatim>\<open>math.exp\<close>, \<open>pc\<close> the 95th percentile of numpy; a set of minutes is the list of its elements.
\<close>

section \<open>Components\<close>

definition TAU0_MS :: rat where "TAU0_MS = 1000"
definition HOUR_S :: rat where "HOUR_S = 3600"
definition WEIGHT_SUM_TOL :: rat where "WEIGHT_SUM_TOL = f64 (1 / 10 ^ 6)"

record dq_inputs =
  dq_expected :: int
  dq_observed :: int
  dq_total :: int
  dq_invalid :: int
  dq_gap_seconds :: pyfloat
  dq_lag_p95_ms :: pyfloat
  dq_window_s :: pyfloat

record dq_result =
  ds_completeness :: rat
  ds_validity :: rat
  ds_timeliness :: rat
  ds_continuity :: rat
  ds_score :: rat
  ds_weights :: "rat list"
  ds_inputs :: dq_inputs

fun dq_clip01 :: "pyfloat \<Rightarrow> rat result" where
  "dq_clip01 NaN = Inl ValueError"
| "dq_clip01 NInf = Inr 0"
| "dq_clip01 PInf = Inr 1"
| "dq_clip01 (Fin x) = Inr (if x < 0 then 0 else if 1 < x then 1 else x)"

definition completeness :: "int \<Rightarrow> int \<Rightarrow> rat result" where
  "completeness observed expected = (if expected \<le> 0 then Inr 1 else dq_clip01 (Fin (f64 (of_int observed / of_int expected))))"

definition validity :: "int \<Rightarrow> int \<Rightarrow> rat result" where
  "validity invalid n = (if n \<le> 0 then Inr 1 else dq_clip01 (Fin (f64 (1 - f64 (of_int invalid / of_int n)))))"

text \<open>\<^verbatim>\<open>max(0.0, x) / y\<close> of a number that is not NaN and a positive divisor.\<close>

fun pos_ratio :: "pyfloat \<Rightarrow> pyfloat \<Rightarrow> pyfloat" where
  "pos_ratio (Fin x) (Fin y) = Fin (f64 (max 0 x / y))"
| "pos_ratio NInf (Fin y) = Fin 0"
| "pos_ratio PInf (Fin y) = PInf"
| "pos_ratio PInf PInf = NaN"
| "pos_ratio NaN _ = NaN"
| "pos_ratio _ PInf = Fin 0"
| "pos_ratio _ _ = NaN"

fun f_exp_neg :: "(rat \<Rightarrow> rat) \<Rightarrow> pyfloat \<Rightarrow> pyfloat" where
  "f_exp_neg ex (Fin x) = Fin (ex (- x))"
| "f_exp_neg ex PInf = Fin 0"
| "f_exp_neg ex NInf = PInf"
| "f_exp_neg ex NaN = NaN"

fun f_one_minus :: "pyfloat \<Rightarrow> pyfloat" where
  "f_one_minus (Fin x) = Fin (f64 (1 - x))"
| "f_one_minus PInf = NInf"
| "f_one_minus NInf = PInf"
| "f_one_minus NaN = NaN"

definition timeliness :: "(rat \<Rightarrow> rat) \<Rightarrow> pyfloat \<Rightarrow> pyfloat \<Rightarrow> rat result" where
  "timeliness ex lag tau0 = (if \<not> f_less (Fin 0) tau0 then Inl ValueError else if lag = NaN then Inl ValueError
     else dq_clip01 (f_exp_neg ex (pos_ratio lag tau0)))"

definition continuity :: "pyfloat \<Rightarrow> pyfloat \<Rightarrow> rat result" where
  "continuity gap_seconds window_s = (if \<not> f_less (Fin 0) window_s then Inl ValueError else if gap_seconds = NaN then Inl ValueError
     else dq_clip01 (f_one_minus (pos_ratio gap_seconds window_s)))"

text \<open>The built-in sum of floats is compensated.\<close>

definition sum_step :: "rat \<times> rat \<Rightarrow> rat \<Rightarrow> rat \<times> rat" where
  "sum_step s x = (let hi = fst s; t = f64 (hi + x) in
     (t, f64 (snd s + (if \<bar>x\<bar> \<le> \<bar>hi\<bar> then f64 (f64 (hi - t) + x) else f64 (f64 (x - t) + hi)))))"

definition py_sum :: "rat list \<Rightarrow> rat" where
  "py_sum xs = (let (hi, lo) = foldl sum_step (0, 0) xs in if lo = 0 then hi else f64 (hi + lo))"

definition check_weights :: "pyfloat list \<Rightarrow> rat list result" where
  "check_weights ws =
     (if length ws \<noteq> 4 then Inl ValueError
      else if \<exists>w \<in> set ws. \<not> f_isfinite w \<or> f_less w (Fin 0) then Inl ValueError
      else if WEIGHT_SUM_TOL < \<bar>f64 (py_sum (map f_val ws) - 1)\<bar> then Inl ValueError
      else Inr (map f_val ws))"

definition dq_score :: "(rat \<Rightarrow> rat) \<Rightarrow> dq_inputs \<Rightarrow> pyfloat list \<Rightarrow> pyfloat \<Rightarrow> dq_result result" where
  "dq_score ex i weights tau0 =
     rbind (check_weights weights) (\<lambda>w. rbind (completeness (dq_observed i) (dq_expected i)) (\<lambda>c1. rbind (validity (dq_invalid i) (dq_total i)) (\<lambda>c2.
     rbind (timeliness ex (dq_lag_p95_ms i) tau0) (\<lambda>c3. rbind (continuity (dq_gap_seconds i) (dq_window_s i)) (\<lambda>c4.
     rbind (dq_clip01 (Fin (fsum (map2 (\<lambda>a b. f64 (a * b)) w [c1, c2, c3, c4])))) (\<lambda>q.
       Inr \<lparr>ds_completeness = c1, ds_validity = c2, ds_timeliness = c3, ds_continuity = c4, ds_score = q, ds_weights = w, ds_inputs = i\<rparr>))))))"

text \<open>The weights of the configuration are normalised before they are checked.\<close>

definition load_dq_weights :: "rat list \<Rightarrow> rat list result" where
  "load_dq_weights w = (if w \<noteq> [] \<and> py_sum w = 0 then Inl ZeroDivisionError else check_weights (map (\<lambda>x. Fin (f64 (x / py_sum w))) w))"

section \<open>The statistics of a window\<close>

fun merge_loop :: "int \<Rightarrow> (int \<times> int) option \<Rightarrow> (int \<times> int) list \<Rightarrow> int" where
  "merge_loop n None [] = n"
| "merge_loop n (Some (cl, ch)) [] = n + (ch - cl)"
| "merge_loop n None ((lo, hi) # xs) = merge_loop n (Some (lo, hi)) xs"
| "merge_loop n (Some (cl, ch)) ((lo, hi) # xs) = (if ch < lo then merge_loop (n + (ch - cl)) (Some (lo, hi)) xs else merge_loop n (Some (cl, max ch hi)) xs)"

definition merged_length_ns :: "(int \<times> int) list \<Rightarrow> int" where
  "merged_length_ns xs = merge_loop 0 None (sort (filter (\<lambda>(a, b). a < b) xs))"

record dq_accumulator =
  da_start :: int
  da_window :: int
  da_buckets :: "int list"
  da_total :: int
  da_invalid :: int
  da_lags :: "rat list"
  da_gaps :: "(int \<times> int) list"

definition dq_empty :: "int \<Rightarrow> int \<Rightarrow> dq_accumulator" where
  "dq_empty start window = \<lparr>da_start = start, da_window = window, da_buckets = [], da_total = 0, da_invalid = 0, da_lags = [], da_gaps = []\<rparr>"

definition add_bucket :: "dq_accumulator \<Rightarrow> int \<Rightarrow> dq_accumulator" where
  "add_bucket a t = (if t \<in> set (da_buckets a) then a else a\<lparr>da_buckets := da_buckets a @ [t]\<rparr>)"

definition add_checked :: "dq_accumulator \<Rightarrow> bool \<Rightarrow> dq_accumulator" where
  "add_checked a invalid = a\<lparr>da_total := da_total a + 1, da_invalid := da_invalid a + (if invalid then 1 else 0)\<rparr>"

definition add_lag_ms :: "dq_accumulator \<Rightarrow> rat \<Rightarrow> dq_accumulator" where
  "add_lag_ms a lag = a\<lparr>da_lags := da_lags a @ [lag]\<rparr>"

definition add_gap :: "dq_accumulator \<Rightarrow> int \<Rightarrow> int \<Rightarrow> dq_accumulator" where
  "add_gap a lo_ns hi_ns = (let lo = max lo_ns (da_start a); hi = min hi_ns (da_start a + da_window a) in
     if lo < hi then a\<lparr>da_gaps := da_gaps a @ [(lo, hi)]\<rparr> else a)"

definition p95 :: "(rat list \<Rightarrow> rat) \<Rightarrow> rat list \<Rightarrow> rat" where
  "p95 pc xs = (if xs = [] then 0 else pc xs)"

definition dq_inputs_of :: "(rat list \<Rightarrow> rat) \<Rightarrow> dq_accumulator \<Rightarrow> int \<Rightarrow> dq_inputs" where
  "dq_inputs_of pc a expected = (let sec = (\<lambda>ns. Fin (f64 (f64 (of_int ns) / 10 ^ 9))) in
     \<lparr>dq_expected = expected, dq_observed = int (length (da_buckets a)), dq_total = da_total a, dq_invalid = da_invalid a,
      dq_gap_seconds = sec (merged_length_ns (da_gaps a)), dq_lag_p95_ms = Fin (p95 pc (da_lags a)), dq_window_s = sec (da_window a)\<rparr>)"

section \<open>Counters of the pipeline\<close>

text \<open>A \<^verbatim>\<open>Counter\<close> is a dictionary that counts.\<close>

definition bump :: "('k, int) dict \<Rightarrow> 'k \<Rightarrow> ('k, int) dict" where
  "bump d k = dset d k ((case dget d k of None \<Rightarrow> 0 | Some n \<Rightarrow> n) + 1)"

record health =
  hp_lag_window :: nat
  hp_frames :: int
  hp_frames_by_conn :: "(string, int) dict"
  hp_events_by_kind :: "(string, int) dict"
  hp_invalid :: int
  hp_invalid_by_code :: "(string, int) dict"
  hp_duplicates :: int
  hp_stale :: int
  hp_reconnects :: int
  hp_watchdog_fires :: int
  hp_disconnects :: "(string, int) dict"
  hp_gaps_opened :: int
  hp_gap_status :: "(int, string) dict"
  hp_candles_closed :: int
  hp_q :: "rat option"
  hp_last_ingest_ns :: "int option"
  hp_last_event_ns :: "int option"
  hp_lag_max_ms :: "rat option"
  hp_lags :: "rat list"

definition health_init :: "nat \<Rightarrow> health" where
  "health_init n = \<lparr>hp_lag_window = n, hp_frames = 0, hp_frames_by_conn = [], hp_events_by_kind = [], hp_invalid = 0, hp_invalid_by_code = [],
     hp_duplicates = 0, hp_stale = 0, hp_reconnects = 0, hp_watchdog_fires = 0, hp_disconnects = [], hp_gaps_opened = 0, hp_gap_status = [],
     hp_candles_closed = 0, hp_q = None, hp_last_ingest_ns = None, hp_last_event_ns = None, hp_lag_max_ms = None, hp_lags = []\<rparr>"

definition on_frame :: "health \<Rightarrow> string \<Rightarrow> int \<Rightarrow> health" where
  "on_frame h conn ts = h\<lparr>hp_frames := hp_frames h + 1, hp_frames_by_conn := bump (hp_frames_by_conn h) conn, hp_last_ingest_ns := Some ts\<rparr>"

definition on_event :: "health \<Rightarrow> string \<Rightarrow> int \<Rightarrow> int \<Rightarrow> health \<times> rat" where
  "on_event h kind te ti =
     (let lag = f64 (f64 (of_int (ti - te)) / 10 ^ 6) in
      (h\<lparr>hp_events_by_kind := bump (hp_events_by_kind h) kind,
         hp_last_event_ns := (case hp_last_event_ns h of None \<Rightarrow> Some te | Some t \<Rightarrow> if t < te then Some te else Some t),
         hp_lags := push_max (hp_lag_window h) (hp_lags h) (max 0 lag),
         hp_lag_max_ms := (case hp_lag_max_ms h of None \<Rightarrow> Some lag | Some m \<Rightarrow> if m < lag then Some lag else Some m)\<rparr>, lag))"

definition on_invalid :: "health \<Rightarrow> string \<Rightarrow> health" where
  "on_invalid h code = h\<lparr>hp_invalid := hp_invalid h + 1, hp_invalid_by_code := bump (hp_invalid_by_code h) code\<rparr>"

definition on_duplicate :: "health \<Rightarrow> health" where "on_duplicate h = h\<lparr>hp_duplicates := hp_duplicates h + 1\<rparr>"
definition on_stale :: "health \<Rightarrow> health" where "on_stale h = h\<lparr>hp_stale := hp_stale h + 1\<rparr>"
definition on_candle_closed :: "health \<Rightarrow> health" where "on_candle_closed h = h\<lparr>hp_candles_closed := hp_candles_closed h + 1\<rparr>"

definition on_disconnect :: "health \<Rightarrow> string \<Rightarrow> bool \<Rightarrow> health" where
  "on_disconnect h cls watchdog = h\<lparr>hp_reconnects := hp_reconnects h + 1, hp_disconnects := bump (hp_disconnects h) cls,
     hp_watchdog_fires := hp_watchdog_fires h + (if watchdog then 1 else 0)\<rparr>"

definition on_gap :: "health \<Rightarrow> int \<Rightarrow> string \<Rightarrow> health" where
  "on_gap h gap_id status = h\<lparr>hp_gaps_opened := hp_gaps_opened h + (if dget (hp_gap_status h) gap_id = None then 1 else 0),
     hp_gap_status := dset (hp_gap_status h) gap_id status\<rparr>"

definition lag_p95_ms :: "(rat list \<Rightarrow> rat) \<Rightarrow> health \<Rightarrow> rat option" where
  "lag_p95_ms pc h = (if hp_lags h = [] then None else Some (p95 pc (hp_lags h)))"

definition health_open_gaps :: "health \<Rightarrow> int" where
  "health_open_gaps h = int (length (filter (\<lambda>x. snd x \<in> {''OPEN'', ''FILLING''}) (hp_gap_status h)))"

record health_snapshot =
  hs_frames :: int
  hs_frames_by_conn :: "(string, int) dict"
  hs_events_by_kind :: "(string, int) dict"
  hs_invalid :: int
  hs_invalid_by_code :: "(string, int) dict"
  hs_duplicates :: int
  hs_stale :: int
  hs_reconnects :: int
  hs_watchdog_fires :: int
  hs_disconnects_by_class :: "(string, int) dict"
  hs_gaps_opened :: int
  hs_gaps_open :: int
  hs_gaps_by_status :: "(string, int) dict"
  hs_candles_closed :: int
  hs_lag_p95_ms :: "rat option"
  hs_lag_max_ms :: "rat option"
  hs_last_ingest_ns :: "int option"
  hs_last_event_ns :: "int option"
  hs_q :: "rat option"

text \<open>\<^verbatim>\<open>Counter(xs)\<close>.\<close>

definition counter_of :: "'k list \<Rightarrow> ('k, int) dict" where
  "counter_of xs = foldl bump [] xs"

definition health_snapshot_of :: "(rat list \<Rightarrow> rat) \<Rightarrow> health \<Rightarrow> health_snapshot" where
  "health_snapshot_of pc h = \<lparr>hs_frames = hp_frames h, hs_frames_by_conn = hp_frames_by_conn h, hs_events_by_kind = hp_events_by_kind h,
     hs_invalid = hp_invalid h, hs_invalid_by_code = hp_invalid_by_code h, hs_duplicates = hp_duplicates h, hs_stale = hp_stale h,
     hs_reconnects = hp_reconnects h, hs_watchdog_fires = hp_watchdog_fires h, hs_disconnects_by_class = hp_disconnects h,
     hs_gaps_opened = hp_gaps_opened h, hs_gaps_open = health_open_gaps h, hs_gaps_by_status = counter_of (map snd (hp_gap_status h)),
     hs_candles_closed = hp_candles_closed h, hs_lag_p95_ms = lag_p95_ms pc h, hs_lag_max_ms = hp_lag_max_ms h,
     hs_last_ingest_ns = hp_last_ingest_ns h, hs_last_event_ns = hp_last_event_ns h, hs_q = hp_q h\<rparr>"

section \<open>The union of intervals\<close>

definition covered :: "(int \<times> int) list \<Rightarrow> int set" where
  "covered xs = (\<Union>(lo, hi) \<in> set xs. {lo..<hi})"

lemma covered_simps [simp]: "covered [] = {}" "covered ((lo, hi) # xs) = {lo..<hi} \<union> covered xs"
  by (auto simp: covered_def)

lemma covered_finite [simp]: "finite (covered xs)"
  by (auto simp: covered_def)

lemma covered_sorted: "covered (sort (filter (\<lambda>(a, b). a < b) xs)) = covered xs"
  by (force simp: covered_def)

text \<open>The loop over sorted intervals adds what they cover to what it has counted.\<close>

lemma merge_loop_covered:
  assumes "sorted (map fst ((cl, ch) # xs))" "cl < ch" "\<forall>(lo, hi) \<in> set xs. lo < hi"
  shows "merge_loop n (Some (cl, ch)) xs = n + int (card ({cl..<ch} \<union> covered xs))"
  using assms
proof (induction xs arbitrary: n cl ch)
  case (Cons x xs)
  obtain lo hi where x: "x = (lo, hi)" by (cases x)
  show ?case
  proof (cases "ch < lo")
    case True
    have "{cl..<ch} \<inter> ({lo..<hi} \<union> covered xs) = {}"
      using Cons.prems(1) True by (fastforce simp: x covered_def)
    then have "card ({cl..<ch} \<union> ({lo..<hi} \<union> covered xs)) = card {cl..<ch} + card ({lo..<hi} \<union> covered xs)"
      by (intro card_Un_disjoint) simp_all
    with True Cons.IH [of lo hi "n + (ch - cl)"] Cons.prems show ?thesis by (simp add: x)
  next
    case False
    have "{cl..<ch} \<union> {lo..<hi} = {cl..<max ch hi}" using Cons.prems False by (auto simp: x)
    then have "{cl..<ch} \<union> covered (x # xs) = {cl..<max ch hi} \<union> covered xs" by (simp add: x flip: Un_assoc)
    with False Cons.IH [of cl "max ch hi" n] Cons.prems show ?thesis by (simp add: x less_max_iff_disj)
  qed
qed simp

text \<open>C35: The length of the gaps of a window is the number of nanoseconds they cover together: overlaps count once, empty and reversed
  intervals not at all.\<close>
theorem merged_length_exact: "merged_length_ns xs = int (card (\<Union>(lo, hi) \<in> set xs. {lo..<hi}))"
proof -
  let ?ys = "sort (filter (\<lambda>(a, b). a < b) xs)"
  have "merge_loop 0 None ?ys = int (card (covered ?ys))"
  proof (cases ?ys)
    case (Cons y ys)
    obtain lo hi where y: "y = (lo, hi)" by (cases y)
    have s: "sorted ?ys" by simp
    then have "sorted (map fst ?ys)" by (rule sorted_map_mono [unfolded comp_def]) (auto simp: less_eq_prod_def mono_on_def)
    moreover have "\<forall>p \<in> set ?ys. fst p < snd p" by auto
    ultimately show ?thesis using merge_loop_covered [of lo hi ys 0] by (auto simp: Cons y case_prod_beta)
  qed simp
  then show ?thesis unfolding merged_length_ns_def covered_sorted by (simp add: covered_def)
qed


section \<open>The score\<close>

lemma dq_clip01_range: "dq_clip01 x = Inr y \<Longrightarrow> 0 \<le> y \<and> y \<le> 1"
  by (cases x) (auto split: if_splits)

lemma dq_clip01_mono: "dq_clip01 x = Inr y \<Longrightarrow> dq_clip01 x' = Inr y' \<Longrightarrow> f_le x x' \<Longrightarrow> y \<le> y'"
  by (cases x; cases x') (auto split: if_splits)

lemma completeness_mono:
  assumes "completeness a n = Inr x" "completeness b n = Inr y" "a \<le> b"
  shows "x \<le> y"
proof (cases "n \<le> 0")
  case False
  have "f_le (Fin (f64 (of_int a / of_int n))) (Fin (f64 (of_int b / of_int n)))"
    using False assms(3) by (auto intro!: f64.rnd_mono divide_right_mono)
  with False assms show ?thesis by (auto simp: completeness_def simp del: dq_clip01.simps dest: dq_clip01_mono)
qed (use assms in \<open>simp add: completeness_def\<close>)

lemma validity_antimono:
  assumes "validity a n = Inr x" "validity b n = Inr y" "b \<le> a"
  shows "x \<le> y"
proof (cases "n \<le> 0")
  case False
  have "f_le (Fin (f64 (1 - f64 (of_int a / of_int n)))) (Fin (f64 (1 - f64 (of_int b / of_int n))))"
    using False assms(3) by (auto intro!: f64.rnd_mono diff_left_mono divide_right_mono)
  with False assms show ?thesis by (auto simp: validity_def simp del: dq_clip01.simps dest: dq_clip01_mono)
qed (use assms in \<open>simp add: validity_def\<close>)

lemma pos_ratio_mono:
  assumes "f_le x y" "f_less (Fin 0) w"
  shows "pos_ratio x w = NaN \<or> pos_ratio y w = NaN \<or> (f_le (pos_ratio x w) (pos_ratio y w) \<and> f_le (Fin 0) (pos_ratio x w))"
  using assms by (cases x; cases y; cases w) (auto intro!: f64.rnd_mono f64.rnd_nonneg divide_right_mono)

lemma f_one_minus_antimono: "f_le x y \<Longrightarrow> f_le (f_one_minus y) (f_one_minus x)"
  by (cases x; cases y) (auto intro: f64.rnd_mono)

lemma f_exp_neg_antimono:
  assumes "\<forall>a b. a \<le> b \<longrightarrow> ex a \<le> ex b" "\<forall>a. 0 \<le> ex a" "f_le x y"
  shows "f_le (f_exp_neg ex y) (f_exp_neg ex x)"
  using assms by (cases x; cases y) auto

lemma continuity_antimono:
  assumes "continuity a w = Inr x" "continuity b w = Inr y" "f_le b a"
  shows "x \<le> y"
proof -
  have c: "dq_clip01 (f_one_minus (pos_ratio a w)) = Inr x" "dq_clip01 (f_one_minus (pos_ratio b w)) = Inr y" "f_less (Fin 0) w"
    using assms by (auto simp: continuity_def split: if_splits)
  have "pos_ratio a w \<noteq> NaN" "pos_ratio b w \<noteq> NaN" using c by auto
  with pos_ratio_mono [OF assms(3) c(3)] have "f_le (pos_ratio b w) (pos_ratio a w)" by simp
  then show ?thesis by (rule dq_clip01_mono [OF c(1,2) f_one_minus_antimono])
qed

lemma timeliness_antimono:
  assumes "\<forall>a b. a \<le> b \<longrightarrow> ex a \<le> ex b" "\<forall>a. 0 \<le> ex a" "timeliness ex a t = Inr x" "timeliness ex b t = Inr y" "f_le b a"
  shows "x \<le> y"
proof -
  have c: "dq_clip01 (f_exp_neg ex (pos_ratio a t)) = Inr x" "dq_clip01 (f_exp_neg ex (pos_ratio b t)) = Inr y" "f_less (Fin 0) t"
    using assms by (auto simp: timeliness_def split: if_splits)
  have "pos_ratio a t \<noteq> NaN" "pos_ratio b t \<noteq> NaN" using c by auto
  with pos_ratio_mono [OF assms(5) c(3)] have "f_le (pos_ratio b t) (pos_ratio a t)" by simp
  then show ?thesis by (rule dq_clip01_mono [OF c(1,2) f_exp_neg_antimono [OF assms(1,2)]])
qed

text \<open>No better: no more minutes seen, no fewer invalid events, no shorter gaps and lag, of the same window.\<close>

definition no_better :: "dq_inputs \<Rightarrow> dq_inputs \<Rightarrow> bool" where
  "no_better i j \<longleftrightarrow> dq_expected i = dq_expected j \<and> dq_total i = dq_total j \<and> dq_window_s i = dq_window_s j \<and> dq_observed i \<le> dq_observed j
     \<and> dq_invalid j \<le> dq_invalid i \<and> f_le (dq_gap_seconds j) (dq_gap_seconds i) \<and> f_le (dq_lag_p95_ms j) (dq_lag_p95_ms i)"

lemma check_weights_nonneg: "check_weights ws = Inr w \<Longrightarrow> length w = 4 \<and> (\<forall>x \<in> set w. 0 \<le> x)"
  unfolding check_weights_def
proof (auto split: if_splits)
  fix x assume "\<forall>w \<in> set ws. f_isfinite w \<and> \<not> f_less w (Fin 0)" "x \<in> set ws"
  then show "0 \<le> f_val x" by (cases x) auto
qed

lemma sum_products_mono:
  "list_all2 (\<le>) cs ds \<Longrightarrow> length w = length cs \<Longrightarrow> \<forall>x \<in> set w. 0 \<le> x \<Longrightarrow> sum_list (map2 (\<lambda>a b. f64 (a * b)) w cs) \<le> sum_list (map2 (\<lambda>a b. f64 (a * b)) w ds)"
proof (induction cs ds arbitrary: w rule: list_all2_induct)
  case (Cons c cs d ds)
  then obtain v vs where w: "w = v # vs" by (cases w) auto
  have "f64 (v * c) \<le> f64 (v * d)" using Cons.hyps(1) Cons.prems by (intro f64.rnd_mono mult_left_mono) (auto simp: w)
  with Cons.IH [of vs] Cons.prems show ?case by (simp add: w add_mono)
qed simp

text \<open>The score lies in the unit interval and does not reward worse data: with the same weights, fewer minutes, more invalid events, longer
  gaps or a longer lag never give a higher score.\<close>
theorem dq_score_monotone:
  assumes ex: "\<forall>a b. a \<le> b \<longrightarrow> ex a \<le> ex b" "\<forall>a. 0 \<le> ex a"
    and s: "dq_score ex i ws tau = Inr r" "dq_score ex j ws tau = Inr r'" and le: "no_better i j"
  shows "0 \<le> ds_score r \<and> ds_score r \<le> ds_score r' \<and> ds_score r' \<le> 1"
proof -
  from s(1) obtain w c1 c2 c3 c4 where w: "check_weights ws = Inr w" and c: "completeness (dq_observed i) (dq_expected i) = Inr c1"
    "validity (dq_invalid i) (dq_total i) = Inr c2" "timeliness ex (dq_lag_p95_ms i) tau = Inr c3" "continuity (dq_gap_seconds i) (dq_window_s i) = Inr c4"
    "dq_clip01 (Fin (fsum (map2 (\<lambda>a b. f64 (a * b)) w [c1, c2, c3, c4]))) = Inr (ds_score r)"
    by (auto simp: dq_score_def simp del: dq_clip01.simps elim!: rbind_InrE)
  from s(2) w obtain d1 d2 d3 d4 where d: "completeness (dq_observed j) (dq_expected j) = Inr d1"
    "validity (dq_invalid j) (dq_total j) = Inr d2" "timeliness ex (dq_lag_p95_ms j) tau = Inr d3" "continuity (dq_gap_seconds j) (dq_window_s j) = Inr d4"
    "dq_clip01 (Fin (fsum (map2 (\<lambda>a b. f64 (a * b)) w [d1, d2, d3, d4]))) = Inr (ds_score r')"
    by (auto simp: dq_score_def simp del: dq_clip01.simps elim!: rbind_InrE)
  have e: "dq_expected i = dq_expected j" "dq_total i = dq_total j" "dq_window_s i = dq_window_s j" using le by (simp_all add: no_better_def)
  have "c1 \<le> d1" using completeness_mono [OF c(1) d(1) [folded e]] le by (simp add: no_better_def)
  moreover have "c2 \<le> d2" using validity_antimono [OF c(2) d(2) [folded e]] le by (simp add: no_better_def)
  moreover have "c3 \<le> d3" using timeliness_antimono [OF ex c(3) d(3)] le by (simp add: no_better_def)
  moreover have "c4 \<le> d4" using continuity_antimono [OF c(4) d(4) [folded e]] le by (simp add: no_better_def)
  ultimately have "list_all2 (\<le>) [c1, c2, c3, c4] [d1, d2, d3, d4]" by simp
  then have "fsum (map2 (\<lambda>a b. f64 (a * b)) w [c1, c2, c3, c4]) \<le> fsum (map2 (\<lambda>a b. f64 (a * b)) w [d1, d2, d3, d4])"
    unfolding fsum_def by (rule f64.rnd_mono [OF sum_products_mono]) (use check_weights_nonneg [OF w] in auto)
  then have "ds_score r \<le> ds_score r'" by (intro dq_clip01_mono [OF c(5) d(5)]) (simp only: f_le.simps)
  then show ?thesis using dq_clip01_range [OF c(5)] dq_clip01_range [OF d(5)] by simp
qed

text \<open>Half of the minutes missing, and none.\<close>

definition ex_dq :: "int \<Rightarrow> dq_inputs" where
  "ex_dq n = \<lparr>dq_expected = 60, dq_observed = n, dq_total = 10, dq_invalid = 0, dq_gap_seconds = Fin 0, dq_lag_p95_ms = Fin 0, dq_window_s = Fin 3600\<rparr>"

theorem dq_score_monotone_witness:
  "\<exists>r r'. dq_score (\<lambda>x. if x < 0 then 0 else 1) (ex_dq 30) [Fin (1/4), Fin (1/4), Fin (1/4), Fin (1/4)] (Fin 1000) = Inr r
     \<and> dq_score (\<lambda>x. if x < 0 then 0 else 1) (ex_dq 60) [Fin (1/4), Fin (1/4), Fin (1/4), Fin (1/4)] (Fin 1000) = Inr r' \<and> ds_score r \<le> ds_score r'"
proof -
  let ?ex = "\<lambda>x :: rat. if x < 0 then 0 else (1 :: rat)" and ?w = "[Fin (1/4), Fin (1/4), Fin (1/4), Fin (1/4)]"
  have h: "f64 (1/4) = 1/4" "f64 (1/2) = 1/2" "f64 (3/4) = 3/4" using f64_dyadic [of 1 2] f64_dyadic [of 1 1] f64_dyadic [of 3 2] by simp_all
  have z: "f64 (- (1/4)) = - (1/4)" "f64 (- (1/2)) = - (1/2)" using h by (simp_all add: f64.rnd_minus flip: minus_divide_left)
  have t: "0 \<le> WEIGHT_SUM_TOL" unfolding WEIGHT_SUM_TOL_def by (rule f64.rnd_nonneg) simp
  then have "check_weights ?w = Inr [1/4, 1/4, 1/4, 1/4]"
    by (simp add: check_weights_def py_sum_def sum_step_def Let_def h z f64.rnd_1)
  then have "\<exists>r. dq_score ?ex (ex_dq n) ?w (Fin 1000) = Inr r" for n
    by (simp add: dq_score_def ex_dq_def completeness_def validity_def timeliness_def continuity_def)
  then obtain r r' where r: "dq_score ?ex (ex_dq 30) ?w (Fin 1000) = Inr r" "dq_score ?ex (ex_dq 60) ?w (Fin 1000) = Inr r'" by blast
  have "no_better (ex_dq 30) (ex_dq 60)" by (simp add: no_better_def ex_dq_def)
  with dq_score_monotone [OF _ _ r] r show ?thesis by auto
qed

end
