(* ===== verification/DataChecks.thy ===== *)
theory DataChecks
  imports Normalize
begin

text \<open>
  \<^verbatim>\<open>quality/invariants.py\<close> and \<^verbatim>\<open>ingest/quantize.py\<close>: the second line of checks on candles, trades and books, which answers with the codes
  of what is violated, and the filters of an instrument.
\<close>

section \<open>Codes of violations\<close>

definition HIGH_BELOW_LOW :: string where "HIGH_BELOW_LOW = ''HIGH_BELOW_LOW''"
definition HIGH_BELOW_MAX_OC :: string where "HIGH_BELOW_MAX_OC = ''HIGH_BELOW_MAX_OC''"
definition LOW_ABOVE_MIN_OC :: string where "LOW_ABOVE_MIN_OC = ''LOW_ABOVE_MIN_OC''"
definition NONPOSITIVE_PRICE :: string where "NONPOSITIVE_PRICE = ''NONPOSITIVE_PRICE''"
definition PRICE_OFF_TICK :: string where "PRICE_OFF_TICK = ''PRICE_OFF_TICK''"
definition QTY_OFF_STEP :: string where "QTY_OFF_STEP = ''QTY_OFF_STEP''"
definition NEGATIVE_VOLUME :: string where "NEGATIVE_VOLUME = ''NEGATIVE_VOLUME''"
definition NEGATIVE_QUOTE_VOLUME :: string where "NEGATIVE_QUOTE_VOLUME = ''NEGATIVE_QUOTE_VOLUME''"
definition QUOTE_VOLUME_OUT_OF_RANGE :: string where "QUOTE_VOLUME_OUT_OF_RANGE = ''QUOTE_VOLUME_OUT_OF_RANGE''"
definition NEGATIVE_TRADES_COUNT :: string where "NEGATIVE_TRADES_COUNT = ''NEGATIVE_TRADES_COUNT''"
definition VWAP_OUT_OF_RANGE :: string where "VWAP_OUT_OF_RANGE = ''VWAP_OUT_OF_RANGE''"
definition CLOSE_TIME_MISMATCH :: string where "CLOSE_TIME_MISMATCH = ''CLOSE_TIME_MISMATCH''"
definition OPEN_TIME_UNALIGNED :: string where "OPEN_TIME_UNALIGNED = ''OPEN_TIME_UNALIGNED''"
definition NONPOSITIVE_QTY :: string where "NONPOSITIVE_QTY = ''NONPOSITIVE_QTY''"
definition BOOK_CROSSED :: string where "BOOK_CROSSED = ''BOOK_CROSSED''"
definition BOOK_UNSORTED :: string where "BOOK_UNSORTED = ''BOOK_UNSORTED''"

lemmas violation_codes = HIGH_BELOW_LOW_def HIGH_BELOW_MAX_OC_def LOW_ABOVE_MIN_OC_def NONPOSITIVE_PRICE_def PRICE_OFF_TICK_def QTY_OFF_STEP_def
  NEGATIVE_VOLUME_def NEGATIVE_QUOTE_VOLUME_def QUOTE_VOLUME_OUT_OF_RANGE_def NEGATIVE_TRADES_COUNT_def VWAP_OUT_OF_RANGE_def CLOSE_TIME_MISMATCH_def
  OPEN_TIME_UNALIGNED_def NONPOSITIVE_QTY_def BOOK_CROSSED_def BOOK_UNSORTED_def

text \<open>\<^verbatim>\<open>x % step == 0\<close>: the remainder of decimals is exact, and traps when the divisor is zero or the quotient has more digits than the context.\<close>

definition step_divides :: "dctx \<Rightarrow> dec \<Rightarrow> quantum \<Rightarrow> bool result" where
  "step_divides cx x step =
     (if qval step = 0 \<or> 10 ^ ctx_prec cx \<le> \<lfloor>\<bar>x / qval step\<bar>\<rfloor> then Inl InvalidOperation else Inr (of_int \<lfloor>x / qval step\<rfloor> = x / qval step))"

record inst_spec =
  is_tick_size :: quantum
  is_step_size :: "quantum option"

definition spec_of :: "instrument \<Rightarrow> inst_spec" where
  "spec_of i = \<lparr>is_tick_size = in_tick_size i, is_step_size = Some (in_step_size i)\<rparr>"

text \<open>A code when the price is positive and off the grid.\<close>

definition off_grid_code :: "dctx \<Rightarrow> bool \<Rightarrow> dec \<Rightarrow> quantum \<Rightarrow> string \<Rightarrow> string list result" where
  "off_grid_code cx applies x step code = (if applies then rbind (step_divides cx x step) (\<lambda>ok. Inr (if ok then [] else [code])) else Inr [])"

definition ohlc_codes :: "dctx \<Rightarrow> candle \<Rightarrow> string list" where
  "ohlc_codes cx c =
     (if min (min (cd_o c) (cd_h c)) (min (cd_l c) (cd_c c)) \<le> 0 then [NONPOSITIVE_PRICE] else [])
     @ (if cd_h c < cd_l c then [HIGH_BELOW_LOW] else [])
     @ (if cd_h c < max (cd_o c) (cd_c c) then [HIGH_BELOW_MAX_OC] else [])
     @ (if min (cd_o c) (cd_c c) < cd_l c then [LOW_ABOVE_MIN_OC] else [])
     @ (if cd_volume c < 0 then [NEGATIVE_VOLUME] else [])
     @ (if cd_quote_volume c < 0 then [NEGATIVE_QUOTE_VOLUME]
        else if 0 < cd_quote_volume c \<and> 0 \<le> cd_volume c
          \<and> \<not> (dmul cx (cd_volume c) (cd_l c) \<le> cd_quote_volume c \<and> cd_quote_volume c \<le> dmul cx (cd_volume c) (cd_h c)) then [QUOTE_VOLUME_OUT_OF_RANGE]
        else [])
     @ (if cd_trades_count c < 0 then [NEGATIVE_TRADES_COUNT] else [])
     @ (case cd_vwap c of None \<Rightarrow> [] | Some v \<Rightarrow> if cd_l c \<le> v \<and> v \<le> cd_h c then [] else [VWAP_OUT_OF_RANGE])"

definition time_codes :: "candle \<Rightarrow> string list" where
  "time_codes c = (case dget TF_MS (cd_tf c) of None \<Rightarrow> []
     | Some ms \<Rightarrow> let step_ns = ms * NS_PER_MS in
         (if cd_open_time_ns c mod step_ns \<noteq> 0 then [OPEN_TIME_UNALIGNED] else [])
         @ (if cd_close_time_ns c \<noteq> cd_open_time_ns c + step_ns - NS_PER_MS then [CLOSE_TIME_MISMATCH] else []))"

definition check_candle :: "dctx \<Rightarrow> candle \<Rightarrow> inst_spec option \<Rightarrow> bool \<Rightarrow> string list result" where
  "check_candle cx c spec check_volume_step =
     (case spec of None \<Rightarrow> Inr (ohlc_codes cx c @ time_codes c)
      | Some s \<Rightarrow>
          rbind (mapres (\<lambda>(n, px). off_grid_code cx (0 < px) px (is_tick_size s) (PRICE_OFF_TICK @ '':'' @ n))
                   [(''o'', cd_o c), (''h'', cd_h c), (''l'', cd_l c), (''c'', cd_c c)]) (\<lambda>ps.
          rbind (case is_step_size s of None \<Rightarrow> Inr []
                 | Some st \<Rightarrow> off_grid_code cx (check_volume_step \<and> 0 \<le> cd_volume c) (cd_volume c) st (QTY_OFF_STEP @ '':volume'')) (\<lambda>v.
            Inr (ohlc_codes cx c @ time_codes c @ concat ps @ v))))"

definition check_trade :: "dctx \<Rightarrow> trade \<Rightarrow> inst_spec option \<Rightarrow> string list result" where
  "check_trade cx t spec =
     (let out = (if td_price t \<le> 0 then [NONPOSITIVE_PRICE] else []) @ (if td_qty t \<le> 0 then [NONPOSITIVE_QTY] else []) in
      case spec of None \<Rightarrow> Inr out
      | Some s \<Rightarrow> rbind (off_grid_code cx (0 < td_price t) (td_price t) (is_tick_size s) (PRICE_OFF_TICK @ '':price'')) (\<lambda>p.
          rbind (case is_step_size s of None \<Rightarrow> Inr [] | Some st \<Rightarrow> off_grid_code cx (0 < td_qty t) (td_qty t) st (QTY_OFF_STEP @ '':qty'')) (\<lambda>q.
            Inr (out @ p @ q))))"

text \<open>The loop over the levels stops at the first price off the grid.\<close>

fun any_off_grid :: "dctx \<Rightarrow> quantum \<Rightarrow> dec list \<Rightarrow> bool result" where
  "any_off_grid cx tick [] = Inr False"
| "any_off_grid cx tick (p # ps) = rbind (step_divides cx p tick) (\<lambda>ok. if ok then any_off_grid cx tick ps else Inr True)"

definition check_book :: "dctx \<Rightarrow> book_snapshot \<Rightarrow> inst_spec option \<Rightarrow> string list result" where
  "check_book cx b spec =
     (let bids = map bl_price (bk_bids b); asks = map bl_price (bk_asks b);
          out = (if list_ex (\<lambda>(x, y). x \<le> y) (zip bids (tl bids)) \<or> list_ex (\<lambda>(x, y). y \<le> x) (zip asks (tl asks)) then [BOOK_UNSORTED] else [])
            @ (if bids \<noteq> [] \<and> asks \<noteq> [] \<and> hd asks \<le> hd bids then [BOOK_CROSSED] else [])
      in case spec of None \<Rightarrow> Inr out
         | Some s \<Rightarrow> rbind (any_off_grid cx (is_tick_size s) (bids @ asks)) (\<lambda>off. Inr (out @ (if off then [PRICE_OFF_TICK @ '':book''] else []))))"

definition is_valid_candle :: "dctx \<Rightarrow> candle \<Rightarrow> inst_spec option \<Rightarrow> bool result" where
  "is_valid_candle cx c spec = rbind (check_candle cx c spec True) (\<lambda>out. Inr (out = []))"

definition violation_code :: "string \<Rightarrow> string" where
  "violation_code v = takeWhile (\<lambda>ch. ch \<noteq> CHR '':'') v"

section \<open>The filters of an instrument\<close>

definition is_multiple :: "dctx \<Rightarrow> dec \<Rightarrow> quantum \<Rightarrow> bool result" where
  "is_multiple cx x step = (if qval step \<le> 0 then Inl ValueError else let q = ddiv cx x (qval step) in Inr (q = of_int (to_integral_value ROUND_HALF_EVEN q)))"

definition check_tick :: "dctx \<Rightarrow> dec \<Rightarrow> quantum \<Rightarrow> bool result" where
  "check_tick cx price tick = is_multiple cx price tick"

definition check_step :: "dctx \<Rightarrow> dec \<Rightarrow> quantum \<Rightarrow> bool result" where
  "check_step cx qty step = is_multiple cx qty step"

definition quantize_to_tick :: "dctx \<Rightarrow> dec \<Rightarrow> quantum \<Rightarrow> dec result" where
  "quantize_to_tick cx price tick = quantize_price cx price tick"

definition floor_to_step :: "dctx \<Rightarrow> dec \<Rightarrow> quantum \<Rightarrow> dec result" where
  "floor_to_step cx qty step = floor_qty cx qty step"

definition order_notional :: "dctx \<Rightarrow> dec \<Rightarrow> dec \<Rightarrow> dec" where
  "order_notional cx qty price = dmul cx qty price"

definition reject_below_min_notional :: "dctx \<Rightarrow> dec \<Rightarrow> dec \<Rightarrow> instrument \<Rightarrow> reject_code option" where
  "reject_below_min_notional cx qty price i = (if dmul cx (dabs cx qty) price < in_min_notional i then Some RC_BELOW_MIN_NOTIONAL else None)"

definition prepare_order_qty :: "dctx \<Rightarrow> dec \<Rightarrow> dec \<Rightarrow> instrument \<Rightarrow> (dec \<times> reject_code option) result" where
  "prepare_order_qty cx qty_raw price i =
     (if qty_raw < 0 then Inl ValueError
      else rbind (floor_to_step cx qty_raw (in_step_size i)) (\<lambda>qty.
        Inr (qty, if qty \<le> 0 then Some RC_ZERO_QTY else reject_below_min_notional cx qty price i)))"

section \<open>The checks and the constructors\<close>

text \<open>What the checks call structurally sound is what the constructor of the candle accepts; the constructor knows neither the grid of the
  timeframe nor the bounds of the quote volume.\<close>

definition structural :: "string set" where
  "structural = {NONPOSITIVE_PRICE, HIGH_BELOW_LOW, HIGH_BELOW_MAX_OC, LOW_ABOVE_MIN_OC, NEGATIVE_VOLUME, NEGATIVE_QUOTE_VOLUME, NEGATIVE_TRADES_COUNT, VWAP_OUT_OF_RANGE}"

lemma ohlc_codes_structural:
  "set (ohlc_codes cx c) \<inter> structural = {} \<longleftrightarrow> 0 < cd_o c \<and> 0 < cd_h c \<and> 0 < cd_l c \<and> 0 < cd_c c \<and> 0 \<le> cd_volume c \<and> 0 \<le> cd_quote_volume c
     \<and> 0 \<le> cd_trades_count c \<and> cd_l c \<le> cd_h c \<and> max (cd_o c) (cd_c c) \<le> cd_h c \<and> cd_l c \<le> min (cd_o c) (cd_c c)
     \<and> (case cd_vwap c of None \<Rightarrow> True | Some v \<Rightarrow> cd_l c \<le> v \<and> v \<le> cd_h c)"
  by (auto simp: ohlc_codes_def structural_def violation_codes split: option.split if_splits)


lemma grid_codes_not_structural:
  "off_grid_code cx ap x st (PRICE_OFF_TICK @ '':'' @ n) = Inr out \<Longrightarrow> set out \<inter> structural = {}"
  "off_grid_code cx ap x st (QTY_OFF_STEP @ '':volume'') = Inr out \<Longrightarrow> set out \<inter> structural = {}"
  by (auto simp: off_grid_code_def structural_def violation_codes elim!: rbind_InrE split: if_splits)

lemma time_codes_not_structural: "set (time_codes c) \<inter> structural = {}"
  by (auto simp: time_codes_def structural_def violation_codes Let_def split: option.splits)

lemma mapres_each: "mapres f xs = Inr ys \<Longrightarrow> (\<And>x y. f x = Inr y \<Longrightarrow> P y) \<Longrightarrow> \<forall>y \<in> set ys. P y"
  by (induction xs arbitrary: ys) (auto elim!: rbind_InrE)

text \<open>The second line of checks agrees with the first: a candle with proper times passes the constructor exactly when the checks report none of
  the structural codes, with or without the specification of an instrument.\<close>
theorem checks_match_constructor:
  assumes times: "0 \<le> cd_open_time_ns c" "cd_open_time_ns c \<le> cd_close_time_ns c" "0 \<le> cd_ts_event_ns c" "0 \<le> cd_ts_ingest_ns c"
    and run: "check_candle cx c spec volume = Inr codes"
  shows "mk_candle c = Inr c \<longleftrightarrow> set codes \<inter> structural = {}"
proof -
  have "set codes \<inter> structural = {} \<longleftrightarrow> set (ohlc_codes cx c) \<inter> structural = {}"
  proof (cases spec)
    case None
    with run time_codes_not_structural [of c] show ?thesis by (auto simp: check_candle_def)
  next
    case (Some s)
    from run [unfolded Some] obtain ps v where ps: "mapres (\<lambda>(n, px). off_grid_code cx (0 < px) px (is_tick_size s) (PRICE_OFF_TICK @ '':'' @ n))
        [(''o'', cd_o c), (''h'', cd_h c), (''l'', cd_l c), (''c'', cd_c c)] = Inr ps"
      and v: "(case is_step_size s of None \<Rightarrow> Inr []
        | Some st \<Rightarrow> off_grid_code cx (volume \<and> 0 \<le> cd_volume c) (cd_volume c) st (QTY_OFF_STEP @ '':volume'')) = Inr v"
      and codes: "codes = ohlc_codes cx c @ time_codes c @ concat ps @ v"
      unfolding check_candle_def option.case by (elim rbind_InrE) auto
    have "\<forall>out \<in> set ps. set out \<inter> structural = {}"
      by (rule mapres_each [OF ps]) (auto dest: grid_codes_not_structural(1) simp del: append.simps append_assoc)
    moreover have "set v \<inter> structural = {}" using v grid_codes_not_structural(2) by (auto split: option.splits)
    ultimately show ?thesis using time_codes_not_structural [of c] codes by auto
  qed
  then show ?thesis using times by (auto simp: ohlc_codes_structural mk_candle_def candle_fields_ok_def ohlc_consistent_def split: option.splits)
qed

definition ex_raw_candle :: "dec \<Rightarrow> candle" where
  "ex_raw_candle h = \<lparr>cd_instrument = ''BTC'', cd_venue = PAPER, cd_tf = ''1m'', cd_open_time_ns = 0, cd_close_time_ns = 60000000000, cd_o = 100, cd_h = h, cd_l = 95,
     cd_c = 101, cd_volume = 2, cd_quote_volume = 200, cd_trades_count = 3, cd_vwap = None, cd_is_closed = True, cd_is_synthetic = False, cd_src = WS,
     cd_ts_event_ns = 0, cd_ts_ingest_ns = 0, cd_event_uid = ''u''\<rparr>"

theorem checks_match_constructor_witness:
  "mk_candle (ex_raw_candle 105) = Inr (ex_raw_candle 105) \<and> mk_candle (ex_raw_candle 100) \<noteq> Inr (ex_raw_candle 100)"
proof -
  have "check_candle Default_ctx (ex_raw_candle 105) None True = Inr [CLOSE_TIME_MISMATCH]"
    "check_candle Default_ctx (ex_raw_candle 100) None True = Inr [HIGH_BELOW_MAX_OC, CLOSE_TIME_MISMATCH]"
    by (simp_all add: check_candle_def ohlc_codes_def time_codes_def ex_raw_candle_def TF_MS_def NS_PER_MS_def evals)
  moreover have "HIGH_BELOW_MAX_OC \<in> structural" "CLOSE_TIME_MISMATCH \<notin> structural" by (simp_all add: structural_def violation_codes)
  ultimately show ?thesis
    using checks_match_constructor [of "ex_raw_candle 105" Default_ctx None True "[CLOSE_TIME_MISMATCH]"]
      checks_match_constructor [of "ex_raw_candle 100" Default_ctx None True "[HIGH_BELOW_MAX_OC, CLOSE_TIME_MISMATCH]"]
    by (simp add: ex_raw_candle_def)
qed

end
