(* ===== verification/Reconnect.thy ===== *)
theory Reconnect
  imports Indicators
begin

text \<open>
  \<^verbatim>\<open>ingest/reconnect.py\<close>: the pauses between connections, the watchdog on the frames of a connection, the classes of a closed
  connection. \<open>pw\<close> is the power of floats and \<open>uni n lo hi\<close> the \<open>n\<close>-th draw of the generator.
\<close>

section \<open>Backoff\<close>

datatype jitter = J_equal | J_full | J_none

record reconnect_backoff =
  bo_base_s :: rat
  bo_cap_s :: rat
  bo_factor :: rat
  bo_jitter :: jitter
  bo_draws :: nat
  bo_attempt :: nat
  bo_history :: "rat list"

definition mk_backoff :: "rat \<Rightarrow> rat \<Rightarrow> rat \<Rightarrow> jitter option \<Rightarrow> reconnect_backoff result" where
  "mk_backoff base cap factor jit =
     (if \<not> (0 < base \<and> base \<le> cap \<and> 1 \<le> factor) then Inl ValueError
      else case jit of None \<Rightarrow> Inl ValueError
      | Some j \<Rightarrow> Inr \<lparr>bo_base_s = base, bo_cap_s = cap, bo_factor = factor, bo_jitter = j, bo_draws = 0, bo_attempt = 0, bo_history = []\<rparr>)"

text \<open>The power of two floats traps when it exceeds the largest float.\<close>

definition float_pow :: "(rat \<Rightarrow> nat \<Rightarrow> rat) \<Rightarrow> rat \<Rightarrow> nat \<Rightarrow> rat result" where
  "float_pow pw x k = (if 2 ^ 1024 \<le> f64 (x ^ k) then Inl OverflowError else Inr (pw x k))"

definition bo_ceiling :: "(rat \<Rightarrow> nat \<Rightarrow> rat) \<Rightarrow> reconnect_backoff \<Rightarrow> nat \<Rightarrow> rat result" where
  "bo_ceiling pw b k = (if 1000 < k then Inr (bo_cap_s b) else rbind (float_pow pw (bo_factor b) k) (\<lambda>y. Inr (min (bo_cap_s b) (f64 (bo_base_s b * y)))))"

definition next_delay :: "(rat \<Rightarrow> nat \<Rightarrow> rat) \<Rightarrow> (nat \<Rightarrow> rat \<Rightarrow> rat \<Rightarrow> rat) \<Rightarrow> reconnect_backoff \<Rightarrow> (reconnect_backoff \<times> rat) result" where
  "next_delay pw uni b =
     rbind (bo_ceiling pw b (bo_attempt b)) (\<lambda>c.
       let half = f64 (c / 2);
           (d, n) = (case bo_jitter b of J_none \<Rightarrow> (c, bo_draws b) | J_full \<Rightarrow> (uni (bo_draws b) 0 c, bo_draws b + 1)
                     | J_equal \<Rightarrow> (f64 (half + uni (bo_draws b) 0 half), bo_draws b + 1))
       in Inr (b\<lparr>bo_attempt := bo_attempt b + 1, bo_draws := n, bo_history := bo_history b @ [d]\<rparr>, d))"

definition bo_reset :: "reconnect_backoff \<Rightarrow> reconnect_backoff" where
  "bo_reset b = b\<lparr>bo_attempt := 0\<rparr>"

text \<open>With a factor of at most 2 the power never traps; the comment in the source says so of any factor.\<close>

lemma f64_power_2: "k \<le> 1000 \<Longrightarrow> x \<le> 2 \<Longrightarrow> 1 \<le> x \<Longrightarrow> f64 (x ^ k) < 2 ^ 1024"
proof -
  assume k: "k \<le> 1000" "x \<le> 2" "1 \<le> x"
  have "x ^ k \<le> 2 ^ 1000" using power_mono [of x 2 k] power_increasing [of k 1000 "2 :: rat"] k by simp
  moreover have "f64 (2 ^ 1000) = 2 ^ 1000"
    using sig_round_exact [of 2 1 53 "- 1074" 1000] by (simp add: f64_def bpow_def)
  ultimately have "f64 (x ^ k) \<le> 2 ^ 1000" by (intro f64.rnd_le) simp_all
  also have "\<dots> < (2 :: rat) ^ 1024" by (rule power_strict_increasing) simp_all
  finally show ?thesis .
qed

lemma ceiling_total: "1 \<le> bo_factor b \<Longrightarrow> bo_factor b \<le> 2 \<Longrightarrow> \<exists>c. bo_ceiling pw b k = Inr c \<and> c \<le> bo_cap_s b"
  using f64_power_2 [of k "bo_factor b"] by (cases "1000 < k") (auto simp: bo_ceiling_def float_pow_def simp del: power_numeral)

lemma ceiling_traps: "bo_factor b = 3 \<Longrightarrow> bo_ceiling pw b 1000 = Inl OverflowError"
proof -
  have "f64 (2 ^ 1024) = 2 ^ 1024" using sig_round_exact [of 2 1 53 "- 1074" 1024] by (simp add: f64_def bpow_def)
  moreover have "(2 :: rat) ^ 1024 \<le> 3 ^ 1000" by simp
  ultimately have "2 ^ 1024 \<le> f64 (3 ^ 1000)" by (intro f64.rnd_ge)
  then show "bo_factor b = 3 \<Longrightarrow> bo_ceiling pw b 1000 = Inl OverflowError" by (simp add: bo_ceiling_def float_pow_def del: power_numeral)
qed

section \<open>The watchdog\<close>

record watchdog =
  wd_timeout_ns :: int
  wd_last_ns :: "int option"
  wd_fires :: nat
  wd_armed :: bool

definition mk_watchdog :: "rat \<Rightarrow> int option \<Rightarrow> watchdog result" where
  "mk_watchdog timeout_s start = (if \<not> 0 < timeout_s then Inl ValueError
     else Inr \<lparr>wd_timeout_ns = round_half_even (f64 (timeout_s * 10 ^ 9)), wd_last_ns = start, wd_fires = 0, wd_armed = True\<rparr>)"

definition wd_timeout_s :: "watchdog \<Rightarrow> rat" where
  "wd_timeout_s w = f64 (of_int (wd_timeout_ns w) / 10 ^ 9)"

definition wd_beat :: "watchdog \<Rightarrow> int \<Rightarrow> watchdog" where
  "wd_beat w t = w\<lparr>wd_last_ns := Some t, wd_armed := True\<rparr>"

definition wd_deadline_ns :: "watchdog \<Rightarrow> int option" where
  "wd_deadline_ns w = map_option (\<lambda>t. t + wd_timeout_ns w) (wd_last_ns w)"

definition wd_poll :: "watchdog \<Rightarrow> int \<Rightarrow> watchdog \<times> int option" where
  "wd_poll w now = (case wd_deadline_ns w of None \<Rightarrow> (w, None)
     | Some d \<Rightarrow> if \<not> wd_armed w \<or> now < d then (w, None) else (w\<lparr>wd_armed := False, wd_fires := wd_fires w + 1\<rparr>, Some d))"

definition wd_disarm :: "watchdog \<Rightarrow> watchdog" where
  "wd_disarm w = w\<lparr>wd_armed := False\<rparr>"

definition wd_remaining_s :: "watchdog \<Rightarrow> int \<Rightarrow> rat" where
  "wd_remaining_s w now = (case wd_deadline_ns w of None \<Rightarrow> wd_timeout_s w | Some d \<Rightarrow> max 0 (f64 (of_int (d - now) / 10 ^ 9)))"

definition wd_expired :: "watchdog \<Rightarrow> int \<Rightarrow> bool" where
  "wd_expired w now = (case wd_deadline_ns w of None \<Rightarrow> False | Some d \<Rightarrow> d \<le> now)"

definition wd_check_gap :: "watchdog \<Rightarrow> int \<Rightarrow> watchdog \<times> int option" where
  "wd_check_gap w t =
     (case wd_last_ns w of
        Some l \<Rightarrow> if wd_timeout_ns w < t - l then (wd_beat (w\<lparr>wd_fires := wd_fires w + 1\<rparr>) t, Some (l + wd_timeout_ns w)) else (wd_beat w t, None)
      | None \<Rightarrow> (wd_beat w t, None))"

section \<open>Classes of a closed connection\<close>

datatype close_class = CC_NORMAL | CC_GOING_AWAY | CC_TRANSIENT | CC_SERVER_ERROR | CC_RATE_LIMITED | CC_HEARTBEAT_TIMEOUT | CC_PROTOCOL_ERROR | CC_HANDSHAKE_REJECTED

definition fatal_class :: "close_class \<Rightarrow> bool" where
  "fatal_class c \<longleftrightarrow> c \<in> {CC_PROTOCOL_ERROR, CC_HANDSHAKE_REJECTED}"

definition immediate_class :: "close_class \<Rightarrow> bool" where
  "immediate_class c \<longleftrightarrow> c \<in> {CC_NORMAL, CC_GOING_AWAY}"

definition class_by_code :: "(int, close_class) dict" where
  "class_by_code = [(1000, CC_NORMAL), (1001, CC_GOING_AWAY), (1012, CC_GOING_AWAY), (1005, CC_TRANSIENT), (1006, CC_TRANSIENT),
     (1011, CC_SERVER_ERROR), (1013, CC_SERVER_ERROR), (1014, CC_SERVER_ERROR), (1008, CC_RATE_LIMITED), (1002, CC_PROTOCOL_ERROR),
     (1003, CC_PROTOCOL_ERROR), (1007, CC_PROTOCOL_ERROR), (1009, CC_PROTOCOL_ERROR), (1010, CC_PROTOCOL_ERROR)]"

definition classify_close_code :: "int option \<Rightarrow> close_class" where
  "classify_close_code code =
     (case code of None \<Rightarrow> CC_TRANSIENT
      | Some n \<Rightarrow> (case dget class_by_code n of Some c \<Rightarrow> c | None \<Rightarrow> if 4000 \<le> n \<and> n < 5000 then CC_SERVER_ERROR else CC_TRANSIENT))"

definition classify_http_status :: "int \<Rightarrow> close_class" where
  "classify_http_status s =
     (if s \<in> {418, 429} then CC_RATE_LIMITED else if 500 \<le> s \<and> s < 600 then CC_SERVER_ERROR
      else if 400 \<le> s \<and> s < 500 then CC_HANDSHAKE_REJECTED else CC_TRANSIENT)"

record disconnect =
  dc_conn :: string
  dc_ts_ns :: int
  dc_cls :: close_class
  dc_code :: "int option"
  dc_reason :: string

text \<open>Only an error of our own side is fatal.\<close>

lemma fatal_codes: "fatal_class (classify_close_code code) \<longleftrightarrow> code \<in> {Some 1002, Some 1003, Some 1007, Some 1009, Some 1010}"
  by (auto simp: classify_close_code_def class_by_code_def fatal_class_def split: option.splits if_splits)

section \<open>One silence, one alarm\<close>

datatype wd_cmd = Beat int | Poll int | Disarm

fun wd_step :: "watchdog \<Rightarrow> wd_cmd \<Rightarrow> watchdog \<times> int option" where
  "wd_step w (Beat t) = (wd_beat w t, None)"
| "wd_step w (Poll now) = wd_poll w now"
| "wd_step w Disarm = (wd_disarm w, None)"

fun wd_run :: "watchdog \<Rightarrow> wd_cmd list \<Rightarrow> watchdog \<times> int list" where
  "wd_run w [] = (w, [])"
| "wd_run w (c # cs) = (let (w1, x) = wd_step w c; (w2, ys) = wd_run w1 cs in (w2, case x of None \<Rightarrow> ys | Some y \<Rightarrow> y # ys))"

text \<open>The specification: an alarm is due at the end of a silence when a poll sees it first and no disconnection was handled before.\<close>

fun alarms :: "int \<Rightarrow> int option \<Rightarrow> wd_cmd list \<Rightarrow> int list" where
  "alarms t silence [] = []"
| "alarms t silence (Beat b # cs) = alarms t (Some (b + t)) cs"
| "alarms t silence (Poll now # cs) = (case silence of None \<Rightarrow> alarms t None cs | Some d \<Rightarrow> if d \<le> now then d # alarms t None cs else alarms t silence cs)"
| "alarms t silence (Disarm # cs) = alarms t None cs"

text \<open>The watchdog raises exactly the alarms of the specification: one per silence, at the moment the timeout ran out, none after a disconnection
  that was handled already; and it counts them.\<close>
theorem watchdog_alarms:
  "snd (wd_run w cs) = alarms (wd_timeout_ns w) (if wd_armed w then wd_deadline_ns w else None) cs \<and> wd_fires (fst (wd_run w cs)) = wd_fires w + length (snd (wd_run w cs))"
proof (induction cs arbitrary: w)
  case (Cons c cs)
  obtain w1 x where s: "wd_step w c = (w1, x)" by (cases "wd_step w c")
  obtain w2 ys where r: "wd_run w1 cs = (w2, ys)" by (cases "wd_run w1 cs")
  have t: "wd_timeout_ns w1 = wd_timeout_ns w"
    using s by (cases c) (auto simp: wd_beat_def wd_poll_def wd_disarm_def split: option.splits if_splits)
  note ih = Cons.IH [of w1, unfolded r t fst_conv snd_conv]
  show ?case
  proof (cases c)
    case (Beat b)
    then have "w1 = wd_beat w b" "x = None" using s by auto
    with ih r s Beat show ?thesis by (simp add: wd_beat_def wd_deadline_ns_def add.commute)
  next
    case Disarm
    then have "w1 = wd_disarm w" "x = None" using s by auto
    with ih r s Disarm show ?thesis by (simp add: wd_disarm_def)
  next
    case (Poll now)
    show ?thesis
    proof (cases "wd_armed w \<and> (\<exists>d. wd_deadline_ns w = Some d \<and> d \<le> now)")
      case True
      then obtain d where d: "wd_armed w" "wd_deadline_ns w = Some d" "d \<le> now" by blast
      then have "w1 = w\<lparr>wd_armed := False, wd_fires := wd_fires w + 1\<rparr>" "x = Some d" using s Poll by (auto simp: wd_poll_def)
      with ih r s Poll d show ?thesis by simp
    next
      case False
      then have "w1 = w" "x = None" using s Poll by (auto simp: wd_poll_def split: option.splits if_splits)
      with ih r s Poll False show ?thesis by (cases "wd_deadline_ns w") auto
    qed
  qed
qed simp

end
