(* ===== verification/Retry.thy ===== *)
theory Retry
  imports Strings Rounding
begin

text \<open>
  \<^verbatim>\<open>ingest/retry.py\<close>: which answers of the venue are repeated, after what pause, and how often. The request is a parameter that gives the outcome
  of its \<open>n\<close>-th call, \<open>uni\<close> the draws of the generator, \<open>when\<close> the library's reading of an HTTP date.
\<close>

section \<open>Errors\<close>

text \<open>What a call may raise: an error worth repeating, an error of the transport, anything else. Texts of errors are not modelled.\<close>

datatype call_error = Retryable_error "rat option" "int option" | Transport_error | Other_error

datatype retry_error = Rate_limit_banned rat "int option" | Retry_exhausted nat call_error | Propagated call_error

definition RETRY_AFTER_STATUS :: "int set" where "RETRY_AFTER_STATUS = {418, 429}"
definition RETRYABLE_5XX :: "int set" where "RETRYABLE_5XX = {500, 502, 503, 504}"

text \<open>Reading an integer refuses more digits than \<^verbatim>\<open>sys.get_int_max_str_digits()\<close>, and a float beyond the largest one.\<close>

definition INT_MAX_STR_DIGITS :: nat where "INT_MAX_STR_DIGITS = 4300"

definition ascii_uint :: "string \<Rightarrow> nat option result" where
  "ascii_uint v = (if v \<noteq> [] \<and> list_all is_digit v then if INT_MAX_STR_DIGITS < length v then Inl ValueError else Inr (Some (digits_val v)) else Inr None)"

definition float_of_nat :: "nat \<Rightarrow> rat result" where
  "float_of_nat n = (if 2 ^ 1024 \<le> f64 (of_nat n) then Inl OverflowError else Inr (f64 (of_nat n)))"

definition is_space :: "char \<Rightarrow> bool" where
  "is_space c = (let n = (of_char c :: nat) in (9 \<le> n \<and> n \<le> 13) \<or> (28 \<le> n \<and> n \<le> 32) \<or> n = 133 \<or> n = 160)"

definition strip :: "string \<Rightarrow> string" where
  "strip s = rev (dropWhile is_space (rev (dropWhile is_space s)))"

definition parse_retry_after :: "(string \<Rightarrow> rat option) \<Rightarrow> string option \<Rightarrow> int option \<Rightarrow> rat option result" where
  "parse_retry_after when value now_ns =
     (case value of None \<Rightarrow> Inr None
      | Some s \<Rightarrow> let v = strip s in rbind (ascii_uint v) (\<lambda>secs.
          (case secs of Some n \<Rightarrow> rbind (float_of_nat n) (\<lambda>x. Inr (Some x))
           | None \<Rightarrow> (case now_ns of None \<Rightarrow> Inr None
               | Some now \<Rightarrow> (case when v of None \<Rightarrow> Inr None | Some t \<Rightarrow> Inr (Some (max 0 (f64 (t - f64 (f64 (of_int now) / 10 ^ 9)))))))))) "

definition error_for_response :: "(string \<Rightarrow> rat option) \<Rightarrow> int \<Rightarrow> string option \<Rightarrow> int option \<Rightarrow> call_error option result" where
  "error_for_response when status retry_after now_ns =
     (if status \<in> RETRY_AFTER_STATUS then rbind (parse_retry_after when retry_after now_ns) (\<lambda>ra. Inr (Some (Retryable_error ra (Some status))))
      else if status \<in> RETRYABLE_5XX then rbind (parse_retry_after when retry_after now_ns) (\<lambda>ra. Inr (Some (Retryable_error ra (Some status))))
      else Inr None)"

definition header_int :: "string option \<Rightarrow> nat option result" where
  "header_int v = (case v of None \<Rightarrow> Inr None | Some s \<Rightarrow> ascii_uint (strip s))"

text \<open>A header of digits that is too long for a float is an error of its own, whatever the source promises of headers.\<close>

lemma long_header_traps:
  assumes "list_all is_digit v" "v \<noteq> []" "length v \<le> INT_MAX_STR_DIGITS" "2 ^ 1024 \<le> digits_val v" "strip v = v"
  shows "error_for_response when 429 (Some v) now = Inl OverflowError"
proof -
  have "f64 (2 ^ 1024) = 2 ^ 1024" using sig_round_exact [of 2 1 53 "- 1074" 1024] by (simp add: f64_def bpow_def)
  moreover have "(2 :: rat) ^ 1024 \<le> of_nat (digits_val v)" using of_nat_mono [OF assms(4), where 'a = rat] by simp
  ultimately have "2 ^ 1024 \<le> f64 (of_nat (digits_val v))" by (intro f64.rnd_ge)
  with assms show ?thesis by (simp add: error_for_response_def RETRY_AFTER_STATUS_def parse_retry_after_def ascii_uint_def float_of_nat_def del: power_numeral)
qed

section \<open>The policy\<close>

record retry_policy =
  rp_base :: rat
  rp_cap :: rat
  rp_max_attempts :: nat
  rp_max_retry_after_s :: rat
  rp_draws :: nat
  rp_sleeps :: "rat list"

definition mk_retry_policy :: "pyfloat \<Rightarrow> pyfloat \<Rightarrow> int \<Rightarrow> rat \<Rightarrow> retry_policy result" where
  "mk_retry_policy base cap max_attempts max_retry_after_s =
     (if \<not> (f_isfinite base \<and> f_isfinite cap \<and> 0 < f_val base \<and> 0 < f_val cap) then Inl ValueError
      else if max_attempts < 1 then Inl ValueError
      else Inr \<lparr>rp_base = f_val base, rp_cap = f_val cap, rp_max_attempts = nat max_attempts, rp_max_retry_after_s = max_retry_after_s, rp_draws = 0, rp_sleeps = []\<rparr>)"

text \<open>\<^verbatim>\<open>ldexp\<close> is exact and traps beyond the largest float.\<close>

definition rp_ceiling :: "retry_policy \<Rightarrow> int \<Rightarrow> rat result" where
  "rp_ceiling p attempt = (if attempt < 0 then Inl ValueError
     else let x = rp_base p * 2 ^ nat attempt in Inr (if 2 ^ 1024 \<le> x then rp_cap p else min (rp_cap p) x))"

definition rp_backoff :: "(nat \<Rightarrow> rat \<Rightarrow> rat \<Rightarrow> rat) \<Rightarrow> retry_policy \<Rightarrow> int \<Rightarrow> (retry_policy \<times> rat) result" where
  "rp_backoff uni p attempt = rbind (rp_ceiling p attempt) (\<lambda>c. Inr (p\<lparr>rp_draws := rp_draws p + 1\<rparr>, uni (rp_draws p) 0 c))"

text \<open>The pause after a failed attempt, or the refusal to wait that long.\<close>

definition delay_for :: "(nat \<Rightarrow> rat \<Rightarrow> rat \<Rightarrow> rat) \<Rightarrow> retry_policy \<Rightarrow> call_error \<Rightarrow> nat \<Rightarrow> retry_policy \<times> (retry_error + rat)" where
  "delay_for uni p e attempt =
     (case e of
        Retryable_error (Some r) status \<Rightarrow> if rp_max_retry_after_s p < r then (p, Inl (Rate_limit_banned r status)) else (p, Inr r)
      | _ \<Rightarrow> (case rp_backoff uni p (int attempt) of Inr (p', d) \<Rightarrow> (p', Inr d) | Inl _ \<Rightarrow> (p, Inl (Propagated Other_error))))"

definition retried :: "call_error \<Rightarrow> bool" where
  "retried e \<longleftrightarrow> e \<noteq> Other_error"

text \<open>\<^verbatim>\<open>execute\<close> from an attempt on, with the number of attempts that are left; the calls made are counted.\<close>

fun retry_loop :: "(nat \<Rightarrow> rat \<Rightarrow> rat \<Rightarrow> rat) \<Rightarrow> (nat \<Rightarrow> call_error + 'a) \<Rightarrow> retry_policy \<Rightarrow> nat \<Rightarrow> nat \<Rightarrow> retry_policy \<times> nat \<times> (retry_error + 'a)" where
  "retry_loop uni fn p attempt 0 = (p, attempt, Inl (Propagated Other_error))"
| "retry_loop uni fn p attempt (Suc k) =
     (case fn attempt of
        Inr x \<Rightarrow> (p, attempt + 1, Inr x)
      | Inl e \<Rightarrow>
          if \<not> retried e then (p, attempt + 1, Inl (Propagated e))
          else if k = 0 then (p, attempt + 1, Inl (Retry_exhausted (rp_max_attempts p) e))
          else (case delay_for uni p e attempt of
                  (p', Inl err) \<Rightarrow> (p', attempt + 1, Inl err)
                | (p', Inr d) \<Rightarrow> retry_loop uni fn (p'\<lparr>rp_sleeps := rp_sleeps p' @ [d]\<rparr>) (attempt + 1) k))"

definition retry_execute :: "(nat \<Rightarrow> rat \<Rightarrow> rat \<Rightarrow> rat) \<Rightarrow> (nat \<Rightarrow> call_error + 'a) \<Rightarrow> retry_policy \<Rightarrow> retry_policy \<times> nat \<times> (retry_error + 'a)" where
  "retry_execute uni fn p = retry_loop uni fn p 0 (rp_max_attempts p)"

section \<open>Bounds of a request\<close>

text \<open>A draw of a generator lies between its bounds.\<close>

definition draws_ok :: "(nat \<Rightarrow> rat \<Rightarrow> rat \<Rightarrow> rat) \<Rightarrow> bool" where
  "draws_ok uni \<longleftrightarrow> (\<forall>n lo hi. lo \<le> hi \<longrightarrow> lo \<le> uni n lo hi \<and> uni n lo hi \<le> hi)"

definition policy_ok :: "retry_policy \<Rightarrow> bool" where
  "policy_ok p \<longleftrightarrow> 0 < rp_base p \<and> 0 < rp_cap p \<and> 0 < rp_max_attempts p"

lemma ceiling_bounds: "policy_ok p \<Longrightarrow> 0 \<le> k \<Longrightarrow> \<exists>c. rp_ceiling p k = Inr c \<and> 0 < c \<and> c \<le> rp_cap p"
  by (auto simp: rp_ceiling_def Let_def policy_ok_def)

text \<open>The setting of a policy: everything but the draws and the pauses.\<close>

definition same_policy :: "retry_policy \<Rightarrow> retry_policy \<Rightarrow> bool" where
  "same_policy p q \<longleftrightarrow> rp_base q = rp_base p \<and> rp_cap q = rp_cap p \<and> rp_max_attempts q = rp_max_attempts p \<and> rp_max_retry_after_s q = rp_max_retry_after_s p"

lemma same_policy_ok: "same_policy p q \<Longrightarrow> policy_ok q = policy_ok p"
  by (simp add: same_policy_def policy_ok_def)

lemma delay_for_bounds:
  assumes "draws_ok uni" "policy_ok p" "retried e" "delay_for uni p e k = (p', Inr d)"
  shows "same_policy p p' \<and> rp_sleeps p' = rp_sleeps p \<and> d \<le> max (rp_cap p) (rp_max_retry_after_s p)"
proof -
  obtain c where c: "rp_ceiling p (int k) = Inr c" "0 < c" "c \<le> rp_cap p" using ceiling_bounds [OF assms(2), of "int k"] by auto
  have u: "uni (rp_draws p) 0 c \<le> rp_cap p" using assms(1) c(2,3) unfolding draws_ok_def by (meson less_imp_le order_trans)
  from assms(4) show ?thesis
    using c u by (auto simp: delay_for_def rp_backoff_def same_policy_def split: call_error.splits option.splits if_splits)
qed

lemma delay_for_fails:
  assumes "policy_ok p" "delay_for uni p e k = (p', Inl err)"
  shows "\<exists>r st. e = Retryable_error (Some r) st \<and> rp_max_retry_after_s p < r \<and> err = Rate_limit_banned r st \<and> p' = p"
proof -
  obtain c where c: "rp_ceiling p (int k) = Inr c" using ceiling_bounds [OF assms(1), of "int k"] by auto
  from assms(2) c show ?thesis
    by (auto simp: delay_for_def rp_backoff_def split: call_error.splits option.splits if_splits)
qed

text \<open>How a request ends after its calls from the attempt \<open>a\<close> on.\<close>

definition retry_end :: "(nat \<Rightarrow> call_error + 'a) \<Rightarrow> retry_policy \<Rightarrow> nat \<Rightarrow> (retry_error + 'a) \<Rightarrow> bool" where
  "retry_end fn p n out \<longleftrightarrow> (case out of
     Inr x \<Rightarrow> fn (n - 1) = Inr x
   | Inl (Propagated e) \<Rightarrow> fn (n - 1) = Inl e \<and> \<not> retried e
   | Inl (Retry_exhausted m e) \<Rightarrow> m = rp_max_attempts p \<and> fn (n - 1) = Inl e \<and> retried e
   | Inl (Rate_limit_banned r st) \<Rightarrow> fn (n - 1) = Inl (Retryable_error (Some r) st) \<and> rp_max_retry_after_s p < r)"

lemma retry_loop_facts:
  assumes "draws_ok uni" "policy_ok p" "0 < k" "retry_loop uni fn p a k = (p', n, out)"
  shows "a < n \<and> n \<le> a + k \<and> (\<forall>i. a \<le> i \<longrightarrow> i < n - 1 \<longrightarrow> (\<exists>e. fn i = Inl e \<and> retried e)) \<and> retry_end fn p n out
    \<and> (\<exists>ds. rp_sleeps p' = rp_sleeps p @ ds \<and> length ds = n - 1 - a \<and> (\<forall>d \<in> set ds. d \<le> max (rp_cap p) (rp_max_retry_after_s p)))
    \<and> ((\<exists>m e. out = Inl (Retry_exhausted m e)) \<longrightarrow> n = a + k)"
  using assms(2-)
proof (induction k arbitrary: p a)
  case (Suc k)
  show ?case
  proof (cases "fn a")
    case (Inr x)
    with Suc.prems show ?thesis by (auto simp: retry_end_def)
  next
    case (Inl e)
    show ?thesis
    proof (cases "retried e \<and> 0 < k")
      case False
      with Inl Suc.prems show ?thesis by (auto simp: retry_end_def split: if_splits)
    next
      case True
      obtain p1 r where d: "delay_for uni p e a = (p1, r)" by (cases "delay_for uni p e a")
      show ?thesis
      proof (cases r)
        case Inl2: (Inl err)
        from delay_for_fails [OF Suc.prems(1) d [unfolded Inl2]] Inl Inl2 d True Suc.prems show ?thesis by (auto simp: retry_end_def)
      next
        case Inr2: (Inr dl)
        note b = delay_for_bounds [OF assms(1) Suc.prems(1) conjunct1 [OF True] d [unfolded Inr2]]
        define q where "q = p1\<lparr>rp_sleeps := rp_sleeps p1 @ [dl]\<rparr>"
        have q: "same_policy p q" "rp_sleeps q = rp_sleeps p @ [dl]" using b by (auto simp: q_def same_policy_def)
        have run: "retry_loop uni fn q (a + 1) k = (p', n, out)" using Suc.prems(3) Inl True d Inr2 by (simp add: q_def)
        have pq: "policy_ok q" using same_policy_ok [OF q(1)] Suc.prems(1) by simp
        note ih = Suc.IH [OF pq conjunct2 [OF True] run]
        from ih obtain ds where ds: "rp_sleeps p' = rp_sleeps q @ ds" "length ds = n - 1 - (a + 1)" "\<forall>x \<in> set ds. x \<le> max (rp_cap q) (rp_max_retry_after_s q)" by blast
        have e: "retry_end fn p n out = retry_end fn q n out" using q(1) by (auto simp: retry_end_def same_policy_def split: sum.splits retry_error.splits)
        have s: "rp_sleeps p' = rp_sleeps p @ (dl # ds) \<and> length (dl # ds) = n - 1 - a \<and> (\<forall>x \<in> set (dl # ds). x \<le> max (rp_cap p) (rp_max_retry_after_s p))"
          using ds q b ih by (auto simp: same_policy_def)
        have f: "\<exists>e. fn i = Inl e \<and> retried e" if "a \<le> i" "i < n - 1" for i
          using ih Inl True that by (cases "i = a") auto
        show ?thesis using ih s f e by (metis (no_types, lifting) Suc_eq_plus1 Suc_leD add_Suc_right add_Suc_shift less_eq_Suc_le)
      qed
    qed
  qed
qed simp

text \<open>C37: A request is called at least once and at most \<open>max_attempts\<close> times, a call follows only a failure worth repeating, and each pause is at most
  the cap of the backoff or the longest wait accepted from the venue. What comes back is the outcome of the last call, the named error
  after the last attempt, or the refusal to wait longer than accepted.\<close>
theorem retries_are_bounded:
  assumes uni: "draws_ok uni" and p: "mk_retry_policy base cap m longest = Inr p" and run: "retry_execute uni fn p = (p', n, out)"
  shows "0 < n \<and> n \<le> nat m \<and> (\<forall>i < n - 1. \<exists>e. fn i = Inl e \<and> retried e)
    \<and> length (rp_sleeps p') = n - 1 \<and> (\<forall>d \<in> set (rp_sleeps p'). d \<le> max (f_val cap) longest)
    \<and> (case out of Inr x \<Rightarrow> fn (n - 1) = Inr x
       | Inl (Propagated e) \<Rightarrow> fn (n - 1) = Inl e \<and> \<not> retried e
       | Inl (Retry_exhausted k e) \<Rightarrow> k = nat m \<and> n = nat m \<and> fn (n - 1) = Inl e
       | Inl (Rate_limit_banned r st) \<Rightarrow> fn (n - 1) = Inl (Retryable_error (Some r) st) \<and> longest < r)"
proof -
  have ok: "policy_ok p" and f: "rp_cap p = f_val cap" "rp_max_retry_after_s p = longest" "rp_max_attempts p = nat m" "rp_sleeps p = []" and m: "0 < nat m"
    using p by (auto simp: mk_retry_policy_def policy_ok_def split: if_splits)
  from retry_loop_facts [OF uni ok _ run [unfolded retry_execute_def]] m f
  have a: "0 < n" "n \<le> nat m" "\<forall>i. i < n - 1 \<longrightarrow> (\<exists>e. fn i = Inl e \<and> retried e)" "retry_end fn p n out"
    "length (rp_sleeps p') = n - 1" "\<forall>d \<in> set (rp_sleeps p'). d \<le> max (f_val cap) longest" "(\<exists>k e. out = Inl (Retry_exhausted k e)) \<longrightarrow> n = nat m" by auto
  from a(4,7) have "case out of Inr x \<Rightarrow> fn (n - 1) = Inr x
       | Inl (Propagated e) \<Rightarrow> fn (n - 1) = Inl e \<and> \<not> retried e
       | Inl (Retry_exhausted k e) \<Rightarrow> k = nat m \<and> n = nat m \<and> fn (n - 1) = Inl e
       | Inl (Rate_limit_banned r st) \<Rightarrow> fn (n - 1) = Inl (Retryable_error (Some r) st) \<and> longest < r"
    unfolding retry_end_def f by (auto split: sum.splits retry_error.splits)
  with a show ?thesis by blast
qed

theorem retries_are_bounded_witness:
  "\<exists>p p'. mk_retry_policy (Fin (1/2)) (Fin 30) 5 300 = Inr p
     \<and> retry_execute (\<lambda>n lo hi. lo) (\<lambda>i. if i = 0 then Inl (Retryable_error (Some 7) (Some 429)) else if i = 1 then Inl Transport_error else Inr True) p = (p', 3, Inr True)
     \<and> length (rp_sleeps p') = 2"
proof -
  let ?fn = "\<lambda>i :: nat. if i = 0 then Inl (Retryable_error (Some 7) (Some 429)) else if i = 1 then Inl Transport_error else Inr True"
  obtain p where p: "mk_retry_policy (Fin (1/2)) (Fin 30) 5 300 = Inr p" by (simp add: mk_retry_policy_def)
  have "\<exists>p'. retry_execute (\<lambda>n lo hi. lo) ?fn p = (p', 3, Inr True)"
    using p by (auto simp: mk_retry_policy_def retry_execute_def eval_nat_numeral retried_def delay_for_def rp_backoff_def rp_ceiling_def Let_def)
  then obtain p' where r: "retry_execute (\<lambda>n lo hi. lo) ?fn p = (p', 3, Inr True)" by blast
  have "draws_ok (\<lambda>n lo hi. lo)" by (simp add: draws_ok_def)
  from retries_are_bounded [OF this p r] p r show ?thesis by auto
qed

end
