(* ===== verification/RateLimit.thy ===== *)
theory RateLimit
  imports Strings Rounding
begin

text \<open>
  \<^verbatim>\<open>ingest/ratelimit.py\<close>: the weights of requests and the bucket of tokens. The clock is the time each operation reads. \<^verbatim>\<open>acquire\<close>
  runs over a clock that moves: \<open>later\<close> is its next reading, \<open>wake\<close> the reading after a pause of so many seconds, \<open>others\<close> what other
  coroutines do to the bucket during a pause; its lock keeps them out of \<^verbatim>\<open>acquire\<close> itself.
\<close>

section \<open>Weights\<close>

definition BINANCE_WEIGHT_LIMIT_1M :: int where "BINANCE_WEIGHT_LIMIT_1M = 2400"
definition BUCKET_EPS :: rat where "BUCKET_EPS = f64 (1 / 10 ^ 9)"

definition klines_weight :: "int \<Rightarrow> int result" where
  "klines_weight limit =
     (if \<not> (1 \<le> limit \<and> limit \<le> 1500) then Inl ValueError
      else Inr (if limit \<le> 100 then 1 else if limit \<le> 500 then 2 else if limit \<le> 1000 then 5 else 10))"

definition ENDPOINT_WEIGHTS :: "(string, int) dict" where
  "ENDPOINT_WEIGHTS = [(''/fapi/v1/time'', 1), (''/fapi/v1/ping'', 1), (''/fapi/v1/exchangeInfo'', 1), (''/fapi/v1/premiumIndex'', 1),
     (''/fapi/v1/aggTrades'', 20), (''/fapi/v1/fundingRate'', 1)]"

text \<open>The parameters of a request the weight looks at: the limit, when it is given, and whether a symbol is.\<close>

datatype limit_param = No_limit | Int_limit int | Bad_limit

definition request_weight :: "string \<Rightarrow> limit_param \<Rightarrow> bool \<Rightarrow> int result" where
  "request_weight path limit symbol =
     (if path \<in> {''/fapi/v1/klines'', ''/fapi/v1/indexPriceKlines''}
      then (case limit of No_limit \<Rightarrow> klines_weight 500 | Int_limit n \<Rightarrow> klines_weight n | Bad_limit \<Rightarrow> Inl ValueError)
      else if path = ''/fapi/v1/premiumIndex'' \<and> \<not> symbol then Inr 10
      else (case dget ENDPOINT_WEIGHTS path of None \<Rightarrow> Inl ValueError | Some w \<Rightarrow> Inr w))"

section \<open>The bucket\<close>

record token_bucket =
  tb_capacity :: rat
  tb_refill_per_s :: rat
  tb_tokens :: rat
  tb_t_ns :: int
  tb_acquired :: int
  tb_total_wait_s :: rat

definition mk_bucket :: "pyfloat \<Rightarrow> pyfloat \<Rightarrow> rat option \<Rightarrow> int \<Rightarrow> token_bucket result" where
  "mk_bucket capacity refill initial now =
     (if \<not> (f_isfinite capacity \<and> f_isfinite refill \<and> 0 < f_val capacity \<and> 0 < f_val refill) then Inl ValueError
      else Inr \<lparr>tb_capacity = f_val capacity, tb_refill_per_s = f_val refill,
             tb_tokens = (case initial of None \<Rightarrow> f_val capacity | Some x \<Rightarrow> min x (f_val capacity)), tb_t_ns = now, tb_acquired = 0, tb_total_wait_s = 0\<rparr>)"

definition tb_gained :: "token_bucket \<Rightarrow> int \<Rightarrow> rat" where
  "tb_gained b now = f64 (f64 (f64 (of_int (now - tb_t_ns b)) * tb_refill_per_s b) / 10 ^ 9)"

definition tb_refill :: "token_bucket \<Rightarrow> int \<Rightarrow> token_bucket" where
  "tb_refill b now = (if tb_t_ns b < now then b\<lparr>tb_tokens := min (tb_capacity b) (f64 (tb_tokens b + tb_gained b now)), tb_t_ns := now\<rparr> else b)"

definition max_admitted :: "token_bucket \<Rightarrow> rat \<Rightarrow> rat" where
  "max_admitted b window_s = f64 (tb_capacity b + f64 (tb_refill_per_s b * window_s))"

definition tb_check_weight :: "token_bucket \<Rightarrow> int \<Rightarrow> unit result" where
  "tb_check_weight b w = (if w \<le> 0 then Inl ValueError else if tb_capacity b < of_int w then Inl ValueError else Inr ())"

definition wait_time :: "token_bucket \<Rightarrow> int \<Rightarrow> int \<Rightarrow> (token_bucket \<times> rat) result" where
  "wait_time b now w = rbind (tb_check_weight b w) (\<lambda>_. let b1 = tb_refill b now; deficit = f64 (of_int w - tb_tokens b1) in
     Inr (b1, if deficit \<le> BUCKET_EPS then 0 else f64 (deficit / tb_refill_per_s b)))"

definition try_acquire :: "token_bucket \<Rightarrow> int \<Rightarrow> int \<Rightarrow> (token_bucket \<times> bool) result" where
  "try_acquire b now w = rbind (tb_check_weight b w) (\<lambda>_. let b1 = tb_refill b now in
     Inr (if of_int w \<le> f64 (tb_tokens b1 + BUCKET_EPS)
          then (b1\<lparr>tb_tokens := max 0 (f64 (tb_tokens b1 - of_int w)), tb_acquired := tb_acquired b1 + w\<rparr>, True) else (b1, False)))"

text \<open>The pause is rounded up to a nanosecond.\<close>

definition acquire_delay :: "rat \<Rightarrow> rat" where
  "acquire_delay t = f64 (of_int \<lceil>f64 (t * 10 ^ 9)\<rceil> / 10 ^ 9)"

partial_function (option) acquire_loop :: "(nat \<Rightarrow> int \<Rightarrow> int) \<Rightarrow> (nat \<Rightarrow> int \<Rightarrow> rat \<Rightarrow> int) \<Rightarrow> (nat \<Rightarrow> token_bucket \<Rightarrow> token_bucket) \<Rightarrow> int
  \<Rightarrow> nat \<Rightarrow> token_bucket \<Rightarrow> int \<Rightarrow> rat \<Rightarrow> (token_bucket \<times> nat \<times> rat) result option" where
  "acquire_loop later wake others w k b now waited =
     (case try_acquire b now w of
        Inl e \<Rightarrow> Some (Inl e)
      | Inr r \<Rightarrow>
          if snd r then Some (Inr (fst r, k, waited))
          else (case wait_time (fst r) (later k now) w of
             Inl e \<Rightarrow> Some (Inl e)
           | Inr s \<Rightarrow> acquire_loop later wake others w (k + 1) (others k (fst s)) (wake k (later k now) (acquire_delay (snd s))) (f64 (waited + acquire_delay (snd s)))))"

definition tb_acquire :: "(nat \<Rightarrow> int \<Rightarrow> int) \<Rightarrow> (nat \<Rightarrow> int \<Rightarrow> rat \<Rightarrow> int) \<Rightarrow> (nat \<Rightarrow> token_bucket \<Rightarrow> token_bucket) \<Rightarrow> token_bucket \<Rightarrow> int \<Rightarrow> int
  \<Rightarrow> (token_bucket \<times> nat \<times> rat) result option" where
  "tb_acquire later wake others b now w =
     (case tb_check_weight b w of
        Inl e \<Rightarrow> Some (Inl e)
      | Inr _ \<Rightarrow> (case acquire_loop later wake others w 0 b now 0 of
            None \<Rightarrow> None
          | Some (Inl e) \<Rightarrow> Some (Inl e)
          | Some (Inr (b', k, waited)) \<Rightarrow> Some (Inr (b'\<lparr>tb_total_wait_s := f64 (tb_total_wait_s b' + waited)\<rparr>, k, waited))))"

definition observe_used_weight :: "token_bucket \<Rightarrow> int \<Rightarrow> int \<Rightarrow> int \<Rightarrow> token_bucket" where
  "observe_used_weight b now used limit = (let b1 = tb_refill b now in b1\<lparr>tb_tokens := max 0 (min (tb_tokens b1) (f64 (of_int (limit - used))))\<rparr>)"

definition tb_drain :: "token_bucket \<Rightarrow> int \<Rightarrow> token_bucket" where
  "tb_drain b now = (tb_refill b now)\<lparr>tb_tokens := 0\<rparr>"

definition binance_request_bucket :: "int \<Rightarrow> int \<Rightarrow> token_bucket result" where
  "binance_request_bucket limit_per_min now = (let c = f64 (of_int limit_per_min / 2) in mk_bucket (Fin c) (Fin (f64 (c / 60))) None now)"

section \<open>Operations\<close>

datatype tb_cmd = Try int int | Wait int int | Observe int int int | Drain int

fun tb_step :: "token_bucket \<Rightarrow> tb_cmd \<Rightarrow> token_bucket result" where
  "tb_step b (Try now w) = rbind (try_acquire b now w) (\<lambda>(b', ok). Inr b')"
| "tb_step b (Wait now w) = rbind (wait_time b now w) (\<lambda>(b', t). Inr b')"
| "tb_step b (Observe now used limit) = Inr (observe_used_weight b now used limit)"
| "tb_step b (Drain now) = Inr (tb_drain b now)"

definition bucket_inv :: "rat \<Rightarrow> rat \<Rightarrow> token_bucket \<Rightarrow> bool" where
  "bucket_inv c r b \<longleftrightarrow> tb_capacity b = c \<and> tb_refill_per_s b = r \<and> 0 < r \<and> 0 \<le> tb_tokens b \<and> tb_tokens b \<le> c \<and> f64 (tb_tokens b) = tb_tokens b"

lemma refill_inv: "bucket_inv c r b \<Longrightarrow> f64 c = c \<Longrightarrow> bucket_inv c r (tb_refill b now)"
  by (auto simp: bucket_inv_def tb_refill_def tb_gained_def min_def f64.rnd_idem intro!: f64.rnd_nonneg add_nonneg_nonneg divide_nonneg_nonneg mult_nonneg_nonneg)

lemma tb_step_inv:
  assumes inv: "bucket_inv c r b" "f64 c = c" and run: "tb_step b cmd = Inr b'"
  shows "bucket_inv c r b'"
proof (cases cmd)
  case (Try now w)
  note i = refill_inv [OF inv, of now]
  have "f64 (tb_tokens (tb_refill b now) - of_int w) \<le> c" if "0 < w"
    using i inv(2) that by (intro f64.rnd_le) (auto simp: bucket_inv_def)
  with Try run i show ?thesis
    by (auto simp: try_acquire_def tb_check_weight_def bucket_inv_def Let_def f64.rnd_idem max_def elim!: rbind_InrE split: if_splits)
next
  case (Observe now used limit)
  with run refill_inv [OF inv, of now] show ?thesis
    by (auto simp: observe_used_weight_def bucket_inv_def Let_def max_def min_def f64.rnd_idem)
next
  case (Drain now)
  have "0 \<le> c" using inv(1) by (simp add: bucket_inv_def)
  with Drain run refill_inv [OF inv, of now] show ?thesis by (auto simp: tb_drain_def bucket_inv_def)
qed (use run refill_inv [OF inv] in \<open>auto simp: wait_time_def bucket_inv_def Let_def elim!: rbind_InrE split: if_splits\<close>)

text \<open>The header of the venue only ever lowers the tokens.\<close>

lemma observe_only_lowers: "bucket_inv c r b \<Longrightarrow> f64 c = c \<Longrightarrow> tb_tokens (observe_used_weight b now used limit) \<le> tb_tokens (tb_refill b now)"
  using refill_inv [of c r b now] by (auto simp: observe_used_weight_def bucket_inv_def Let_def)

text \<open>A request passes only against as many tokens, up to the tolerance.\<close>

lemma acquired_had_tokens:
  assumes "try_acquire b now w = Inr (b', True)"
  shows "of_int w \<le> f64 (tb_tokens (tb_refill b now) + BUCKET_EPS)" and "tb_acquired b' = tb_acquired b + w"
  using assms by (auto simp: try_acquire_def tb_refill_def Let_def elim!: rbind_InrE split: if_splits)

text \<open>Over every run from a new bucket of a capacity that is a float the tokens stay between zero and the capacity.\<close>

definition bucket_ok :: "rat \<Rightarrow> rat \<Rightarrow> token_bucket \<Rightarrow> bool" where
  "bucket_ok c r b \<longleftrightarrow> bucket_inv c r b \<and> f64 c = c"

interpretation tb: step_invariant tb_step "bucket_ok c r" for c r
  by unfold_locales (auto simp: bucket_ok_def intro: tb_step_inv)

lemma bucket_within_capacity:
  assumes "mk_bucket (Fin c) (Fin r) None now = Inr b0" "f64 c = c" "run_steps tb_step b0 cmds = Inr b"
  shows "0 \<le> tb_tokens b \<and> tb_tokens b \<le> c"
proof -
  have "bucket_ok c r b0" using assms(1,2) by (auto simp: mk_bucket_def bucket_ok_def bucket_inv_def split: if_splits)
  from tb.run_inv [OF this assms(3)] show ?thesis by (simp add: bucket_ok_def bucket_inv_def)
qed

section \<open>One pause is enough\<close>

text \<open>A rounding of a normal number loses at most one part in \<open>2 ^ 53\<close>.\<close>

lemma bpow_neg: "bpow 2 (- int n) = 1 / 2 ^ n"
  by (simp add: bpow_def power_int_minus divide_inverse)

lemma f64_lower:
  assumes "1 / 10 ^ 21 \<le> x"
  shows "x * (1 - 1 / 2 ^ 53) \<le> f64 x"
proof -
  have pos: "0 < x" using assms by (rule less_le_trans [rotated]) simp
  have "bpow 2 (- 70) = 1 / 2 ^ 70" using bpow_neg [of 70] by (simp only: of_nat_numeral)
  also have "\<dots> \<le> x" by (rule order_trans [OF _ assms]) simp
  also have "x < bpow 2 (ilog 2 x + 1)" using ilog_bounds(2) [of 2 x] pos by simp
  finally have "- 70 < ilog 2 x + 1" by (rule bpow_less_imp [rotated]) simp
  then have e: "sig_exp 2 53 (- 1074) x = ilog 2 x - 52" using pos by (simp add: sig_exp_def)
  define g where "g = bpow 2 (ilog 2 x - 52)"
  have g: "0 < g" by (simp add: g_def bpow_pos)
  have "(x / g - 1 / 2) * g \<le> of_int (round_half_even (x / g)) * g" using rhe_bounds(2) g by (intro mult_right_mono) auto
  moreover have "(x / g - 1 / 2) * g = x - g / 2" using g by (simp add: left_diff_distrib)
  moreover have "f64 x = of_int (round_half_even (x / g)) * g" using pos by (simp add: f64_def sig_round_def e g_def Let_def)
  ultimately have "x - g / 2 \<le> f64 x" by simp
  moreover have "g * 2 ^ 52 \<le> x" using ilog_bounds(1) [of 2 x] pos by (simp add: g_def bpow_diff) (simp add: bpow_def)
  ultimately show ?thesis by (simp add: algebra_simps)
qed

lemma float_form:
  assumes "f64 x = x" "x \<noteq> 0"
  shows "\<exists>m e. x = of_int m * bpow 2 e \<and> \<bar>m\<bar> \<le> 2 ^ 53 \<and> - 1074 \<le> e"
proof -
  let ?e = "sig_exp 2 53 (- 1074) x"
  have "x = of_int (round_half_even (x / bpow 2 ?e)) * bpow 2 ?e" using assms by (simp add: f64_def sig_round_def Let_def)
  moreover have "\<bar>round_half_even (x / bpow 2 ?e)\<bar> \<le> 2 ^ 53" using rhe_scaled_bound [of 2 x 53 "- 1074"] assms(2) by simp
  moreover have "- 1074 \<le> ?e" by (simp add: sig_exp_def)
  ultimately show ?thesis by blast
qed

text \<open>A float just below a whole number is at an exact distance from it.\<close>

lemma near_difference_exact:
  assumes "f64 x = x" "x \<le> of_int w" "of_int w - x < x" "0 < x" "w < 2 ^ 53"
  shows "f64 (of_int w - x) = of_int w - x"
proof -
  obtain m e where x: "x = of_int m * bpow 2 e" and m: "\<bar>m\<bar> \<le> 2 ^ 53" and e: "- 1074 \<le> e" using float_form [OF assms(1)] assms(4) by auto
  show ?thesis
  proof (cases "0 \<le> e")
    case True
    then have "x = of_int (m * 2 ^ nat e)" using bpow_nonneg_int [of e 2] x by simp
    then obtain z where z: "x = of_int z" by blast
    with assms have "\<bar>w - z\<bar> < 2 ^ 53" by linarith
    with f64_dyadic [of "w - z" 0] show ?thesis by (simp add: z)
  next
    case False
    define n where "n = nat (- e)"
    with False have n: "e = - int n" by simp
    have p: "0 < bpow 2 e" by (simp add: bpow_pos)
    have w: "of_int (w * 2 ^ n) * bpow 2 e = of_int w" unfolding n bpow_neg by simp
    have d: "of_int w - x = of_int (w * 2 ^ n - m) * bpow 2 e" using w by (simp only: x of_int_diff left_diff_distrib)
    have "0 \<le> of_int w - x" using assms(2) by simp
    then have "0 \<le> of_int (w * 2 ^ n - m) * bpow 2 e" by (simp only: d)
    then have "0 \<le> (of_int (w * 2 ^ n - m) :: rat)" using p by (simp only: zero_le_mult_iff) (meson less_le_not_le)
    then have l: "0 \<le> w * 2 ^ n - m" by (simp only: of_int_0_le_iff)
    have "of_int (w * 2 ^ n - m) * bpow 2 e < x" using assms(3) unfolding d .
    also note x
    finally have "w * 2 ^ n - m < m" using p by (simp only: mult_less_cancel_right_pos of_int_less_iff)
    with l m have "\<bar>w * 2 ^ n - m\<bar> < int 2 ^ 53" by simp
    then show ?thesis unfolding d f64_def using e by (intro sig_round_exact) simp_all
  qed
qed

text \<open>When the bucket refuses, the missing tokens exceed the tolerance, so the pause is not empty.\<close>

lemma refused_deficit:
  assumes "f64 x = x" "0 \<le> x" "1 \<le> w" "w < 2 ^ 53" "f64 (x + BUCKET_EPS) < of_int w"
  shows "BUCKET_EPS < f64 (of_int w - x)"
proof (rule ccontr)
  assume n: "\<not> BUCKET_EPS < f64 (of_int w - x)"
  have w: "f64 (of_int w) = of_int w" using assms(3,4) by (intro f64_int) simp
  have e: "BUCKET_EPS \<le> 1 / 4" "0 \<le> BUCKET_EPS" unfolding BUCKET_EPS_def
    using f64.rnd_le [of "1 / 4" "1 / 10 ^ 9"] f64_dyadic [of 1 2] f64.rnd_nonneg by simp_all
  have xw: "x < of_int w" using f64.rnd_ge [OF w, of "x + BUCKET_EPS"] assms(5) e by (meson add_increasing2 leI not_less)
  have "of_int w - x < x"
  proof (rule ccontr)
    assume "\<not> of_int w - x < x"
    then have "of_int w / 2 \<le> of_int w - x" by simp
    then have "f64 (1 / 2) \<le> f64 (of_int w - x)" using assms(3) by (intro f64.rnd_mono) linarith
    with f64_dyadic [of 1 1] n e(1) show False by simp
  qed
  with near_difference_exact [OF assms(1), of w] xw assms(4) have "f64 (of_int w - x) = of_int w - x" by force
  with n have "of_int w \<le> x + BUCKET_EPS" by simp
  with f64.rnd_ge [OF w] assms(5) show False by (meson not_le)
qed

text \<open>One rounding in a chain: a lower bound of the exact value times a scale is kept up to one part in \<open>2 ^ 53\<close>.\<close>

definition ulp_loss :: rat where "ulp_loss = 1 - 1 / 2 ^ 53"

lemma chain_step:
  assumes "p \<le> y * z" "0 < z" "z \<le> 10 ^ 9" "1 / 10 ^ 12 \<le> p"
  shows "p * ulp_loss \<le> f64 y * z"
proof -
  have l: "1 / 10 ^ 12 \<le> y * z" using assms(1,4) by (rule order_trans [rotated])
  have "0 < y * z" by (rule less_le_trans [OF _ l]) simp
  then have "0 < y" using assms(2) by (rule zero_less_mult_pos2)
  then have "y * z \<le> y * 10 ^ 9" using assms(3) by (intro mult_left_mono) simp_all
  with l have "1 / 10 ^ 21 \<le> y" by (simp add: field_simps)
  then have "y * ulp_loss \<le> f64 y" unfolding ulp_loss_def by (rule f64_lower)
  then have "y * ulp_loss * z \<le> f64 y * z" using assms(2) by simp
  moreover have "p * ulp_loss \<le> y * z * ulp_loss" using assms(1) by (intro mult_right_mono) (simp_all add: ulp_loss_def)
  ultimately show ?thesis by (simp add: mult_ac)
qed

text \<open>The tokens that come in during the pause computed for a deficit make up for it, up to seven roundings.\<close>

lemma pause_gains:
  assumes dl: "1 / 10 ^ 9 \<le> dl" and r: "1 / 10 ^ 9 \<le> r" "r \<le> 10 ^ 9"
    and time: "acquire_delay (f64 (f64 dl / r)) * 10 ^ 9 \<le> of_int delta"
  shows "dl * ulp_loss ^ 7 \<le> f64 (f64 (f64 (of_int delta) * r) / 10 ^ 9)"
proof -
  have rp: "0 < r" using r(1) by (rule less_le_trans [rotated]) simp
  have q: "1 / 2 \<le> ulp_loss" "ulp_loss \<le> 1" by (simp_all add: ulp_loss_def)
  have l: "1 / 10 ^ 12 \<le> dl * ulp_loss ^ k" if "k \<le> 7" for k
  proof -
    have "(1 / 2) ^ 7 \<le> ulp_loss ^ 7" using q by (intro power_mono) simp_all
    also have "\<dots> \<le> ulp_loss ^ k" using q that by (intro power_decreasing) simp_all
    finally have "1 / 10 ^ 9 * (1 / 2) ^ 7 \<le> dl * ulp_loss ^ k" using dl by (intro mult_mono) simp_all
    moreover have "1 / 10 ^ 12 \<le> 1 / 10 ^ 9 * (1 / 2 :: rat) ^ 7" by (simp add: power_divide)
    ultimately show ?thesis by (rule order_trans [rotated])
  qed
  note step = chain_step [OF _ _ _ l]
  define x1 where "x1 = f64 dl"
  define x2 where "x2 = f64 (x1 / r)"
  define n where "n = \<lceil>f64 (x2 * 10 ^ 9)\<rceil>"
  have "dl * ulp_loss ^ 0 * ulp_loss \<le> x1 * 1" unfolding x1_def by (rule step) simp_all
  then have "dl * ulp_loss ^ 1 * ulp_loss \<le> x2 * r" unfolding x2_def using rp r by (intro step) simp_all
  then have "dl * ulp_loss ^ 2 \<le> (x2 * 10 ^ 9) * (r / 10 ^ 9)" by (simp add: power2_eq_square mult.assoc)
  then have "dl * ulp_loss ^ 2 * ulp_loss \<le> f64 (x2 * 10 ^ 9) * (r / 10 ^ 9)" using rp r by (intro step) simp_all
  also have "\<dots> \<le> of_int n * (r / 10 ^ 9)" unfolding n_def using rp by (intro mult_right_mono) simp_all
  finally have "dl * ulp_loss ^ 3 \<le> of_int n / 10 ^ 9 * r" by (simp add: eval_nat_numeral mult_ac)
  then have "dl * ulp_loss ^ 3 * ulp_loss \<le> f64 (of_int n / 10 ^ 9) * r" using rp r by (intro step) simp_all
  also have "\<dots> = (acquire_delay x2 * 10 ^ 9) * (r / 10 ^ 9)" by (simp add: acquire_delay_def n_def)
  also have "\<dots> \<le> of_int delta * (r / 10 ^ 9)" using time rp by (intro mult_right_mono) (simp_all add: x2_def x1_def)
  finally have "dl * ulp_loss ^ 4 \<le> of_int delta * (r / 10 ^ 9)" by (simp add: eval_nat_numeral mult_ac)
  then have "dl * ulp_loss ^ 4 * ulp_loss \<le> f64 (of_int delta) * (r / 10 ^ 9)" using rp r by (intro step) simp_all
  then have "dl * ulp_loss ^ 5 \<le> (f64 (of_int delta) * r) * (1 / 10 ^ 9)" by (simp add: eval_nat_numeral mult_ac)
  then have "dl * ulp_loss ^ 5 * ulp_loss \<le> f64 (f64 (of_int delta) * r) * (1 / 10 ^ 9)" by (rule step) simp_all
  then have "dl * ulp_loss ^ 6 \<le> f64 (f64 (of_int delta) * r) / 10 ^ 9 * 1" by (simp add: eval_nat_numeral mult_ac)
  then have "dl * ulp_loss ^ 6 * ulp_loss \<le> f64 (f64 (f64 (of_int delta) * r) / 10 ^ 9) * 1" by (rule step) simp_all
  then show ?thesis by (simp add: eval_nat_numeral mult_ac)
qed

lemma eps_lower: "1 / 10 ^ 9 * ulp_loss \<le> BUCKET_EPS"
  unfolding BUCKET_EPS_def ulp_loss_def by (rule f64_lower) simp

lemma pause_suffices:
  assumes w: "1 \<le> w" "w \<le> 10 ^ 6" and x: "0 \<le> x" "1 / 10 ^ 9 \<le> of_int w - x" and g: "(of_int w - x) * ulp_loss ^ 7 \<le> g"
  shows "of_int w \<le> f64 (x + g) + BUCKET_EPS"
proof -
  have "1 + of_nat 7 * (- (1 / 2 ^ 53 :: rat)) \<le> (1 + - (1 / 2 ^ 53)) ^ 7" by (rule Bernoulli_inequality) simp
  then have p: "1 - 7 / 2 ^ 53 \<le> ulp_loss ^ 7" by (simp add: ulp_loss_def)
  have "(of_int w - x) * (1 - 7 / 2 ^ 53) \<le> (of_int w - x) * ulp_loss ^ 7" by (rule mult_left_mono [OF p]) (rule order_trans [OF _ x(2)], simp)
  also note g
  finally have s: "of_int w * (1 - 7 / 2 ^ 53) \<le> x + g" using x(1) by (simp add: field_simps)
  have wr: "1 \<le> (of_int w :: rat)" "(of_int w :: rat) \<le> 10 ^ 6" using w by (simp_all add: of_int_le_iff [where 'a = rat, of _ "10 ^ 6", simplified])
  have "1 / 10 ^ 21 \<le> x + g" by (rule order_trans [OF _ s]) (use wr in simp)
  then have "(x + g) * ulp_loss \<le> f64 (x + g)" unfolding ulp_loss_def by (rule f64_lower)
  moreover have "of_int w * (1 - 7 / 2 ^ 53) * ulp_loss \<le> (x + g) * ulp_loss" using s by (intro mult_right_mono) (simp_all add: ulp_loss_def)
  moreover have "of_int w - 1 / 10 ^ 9 * ulp_loss \<le> of_int w * (1 - 7 / 2 ^ 53) * ulp_loss" using wr(2) by (simp add: ulp_loss_def field_simps)
  ultimately show ?thesis using eps_lower by linarith
qed

text \<open>The second attempt, after a pause that the clock honours, finds its tokens.\<close>

lemma refill_parts:
  "tb_capacity (tb_refill b t) = tb_capacity b" "tb_refill_per_s (tb_refill b t) = tb_refill_per_s b" "tb_acquired (tb_refill b t) = tb_acquired b"
  "tb_total_wait_s (tb_refill b t) = tb_total_wait_s b" "tb_t_ns (tb_refill b t) = max (tb_t_ns b) t"
  by (simp_all add: tb_refill_def max_def)

lemma refill_grows: "bucket_inv c r b \<Longrightarrow> tb_tokens b \<le> tb_tokens (tb_refill b t)"
  by (auto simp: bucket_inv_def tb_refill_def tb_gained_def intro!: f64.rnd_ge f64.rnd_nonneg divide_nonneg_nonneg mult_nonneg_nonneg)

lemma eps_nonneg: "0 \<le> BUCKET_EPS"
  by (simp add: BUCKET_EPS_def f64.rnd_nonneg)

lemma acquire_delay_nonneg: "0 \<le> t \<Longrightarrow> 0 \<le> acquire_delay t"
proof -
  assume "0 \<le> t"
  then have "0 \<le> f64 (t * 10 ^ 9)" by (intro f64.rnd_nonneg) simp
  then have "0 \<le> \<lceil>f64 (t * 10 ^ 9)\<rceil>" by linarith
  then show ?thesis unfolding acquire_delay_def by (intro f64.rnd_nonneg divide_nonneg_nonneg) (simp_all del: zero_le_ceiling)
qed

lemma second_attempt:
  assumes inv: "bucket_inv c r b" "f64 c = c" and rate: "1 / 10 ^ 9 \<le> r" "r \<le> 10 ^ 9" and w: "0 < w" "of_int w \<le> c" "w \<le> 10 ^ 6"
    and wait: "wait_time b t w = Inr (b2, d)" and time: "tb_t_ns b2 \<le> t" "of_int t + acquire_delay d * 10 ^ 9 \<le> of_int t2"
  shows "of_int w \<le> f64 (tb_tokens (tb_refill b2 t2) + BUCKET_EPS)"
proof -
  have b2: "b2 = tb_refill b t" and d: "d = (let y = f64 (of_int w - tb_tokens b2) in if y \<le> BUCKET_EPS then 0 else f64 (y / r))"
    using wait inv by (auto simp: wait_time_def bucket_inv_def Let_def refill_parts elim!: rbind_InrE)
  have i2: "bucket_inv c r b2" unfolding b2 by (rule refill_inv [OF inv])
  note i2' = i2 [unfolded bucket_inv_def]
  have w53: "w < 2 ^ 53" using w(3) by simp
  have fw: "f64 (of_int w) = of_int w" using w(1) w53 by (intro f64_int) simp
  show ?thesis
  proof (cases "of_int w \<le> f64 (tb_tokens b2 + BUCKET_EPS)")
    case True
    note True
    also have "f64 (tb_tokens b2 + BUCKET_EPS) \<le> f64 (tb_tokens (tb_refill b2 t2) + BUCKET_EPS)" using refill_grows [OF i2, of t2] by (intro f64.rnd_mono) simp
    finally show ?thesis .
  next
    case False
    define dl where "dl = of_int w - tb_tokens b2"
    have "BUCKET_EPS < f64 dl" unfolding dl_def using i2' False w(1) w53 by (intro refused_deficit) simp_all
    then have d: "d = f64 (f64 dl / r)" and "f64 (1 / 10 ^ 9) < f64 dl" using d by (simp_all add: dl_def Let_def BUCKET_EPS_def)
    then have "1 / 10 ^ 9 < dl" by (blast intro: f64.rnd_less_imp)
    then have dl: "1 / 10 ^ 9 \<le> dl" by (rule less_imp_le)
    have pos: "0 < dl" "0 < r" by (rule less_le_trans [OF _ dl], simp, rule less_le_trans [OF _ rate(1)], simp)
    define delta where "delta = t2 - tb_t_ns b2"
    have td: "acquire_delay (f64 (f64 dl / r)) * 10 ^ 9 \<le> of_int delta" 
    proof -
      have "of_int t + acquire_delay (f64 (f64 dl / r)) * 10 ^ 9 \<le> of_int t2" using time(2) d by simp
      moreover have "(of_int (tb_t_ns b2) :: rat) \<le> of_int t" using time(1) by simp
      ultimately show ?thesis unfolding delta_def of_int_diff by linarith
    qed
    note g = pause_gains [OF dl rate td]
    have "0 < dl * ulp_loss ^ 7" using dl by (intro mult_pos_pos) (simp_all add: ulp_loss_def less_le_trans [OF _ dl])
    with g have "delta \<noteq> 0" by auto
    moreover have "0 \<le> acquire_delay (f64 (f64 dl / r))"
      using pos by (intro acquire_delay_nonneg f64.rnd_nonneg divide_nonneg_nonneg) simp_all
    ultimately have dp: "0 < delta" using td by (auto simp: less_le intro: order_trans)
    define gn where "gn = f64 (f64 (f64 (of_int delta) * r) / 10 ^ 9)"
    have t: "tb_tokens (tb_refill b2 t2) = min c (f64 (tb_tokens b2 + gn))" using dp i2' by (simp add: tb_refill_def tb_gained_def delta_def gn_def)
    have "of_int w \<le> f64 (tb_tokens b2 + gn) + BUCKET_EPS" using w i2' dl g by (intro pause_suffices) (simp_all add: dl_def gn_def)
    with eps_nonneg have "of_int w \<le> tb_tokens (tb_refill b2 t2) + BUCKET_EPS" using w(2) unfolding t by (simp add: min_def)
    then show ?thesis by (rule f64.rnd_ge [OF fw])
  qed
qed

lemma try_outcome:
  assumes "0 < w" "of_int w \<le> tb_capacity b"
  shows "try_acquire b t w = Inr (if of_int w \<le> f64 (tb_tokens (tb_refill b t) + BUCKET_EPS)
    then ((tb_refill b t)\<lparr>tb_tokens := max 0 (f64 (tb_tokens (tb_refill b t) - of_int w)), tb_acquired := tb_acquired b + w\<rparr>, True) else (tb_refill b t, False))"
  using assms by (simp add: try_acquire_def tb_check_weight_def Let_def refill_parts)

text \<open>C36: A request of a weight within the capacity passes the bucket after at most one pause when nothing else uses the bucket meanwhile: the pause it computes,
  rounded up to a nanosecond, brings in the missing tokens in spite of the rounding of floats, whatever the clock reads as long as it
  honours the pause. The weight is counted, the wait is added to the total, and the bucket keeps its invariant.\<close>
theorem acquire_pauses_once:
  assumes inv: "bucket_ok c r b" and rate: "1 / 10 ^ 9 \<le> r" "r \<le> 10 ^ 9" and w: "0 < w" "of_int w \<le> c" "w \<le> 10 ^ 6" and now: "tb_t_ns b \<le> now"
    and clock: "\<And>k t. t \<le> later k t" "\<And>k t d. of_int t + d * 10 ^ 9 \<le> of_int (wake k t d)" and alone: "\<And>b. others 0 b = b"
  shows "\<exists>b' k t. tb_acquire later wake others b now w = Some (Inr (b', k, t)) \<and> k \<le> 1 \<and> bucket_ok c r b'
    \<and> tb_acquired b' = tb_acquired b + w \<and> tb_total_wait_s b' = f64 (tb_total_wait_s b + t)"
proof -
  have i: "bucket_inv c r b" "f64 c = c" using inv by (simp_all add: bucket_ok_def)
  have cap: "tb_capacity b = c" using i by (simp add: bucket_inv_def)
  have w': "of_int w \<le> tb_capacity b" using w cap by simp
  have ok: "tb_check_weight b w = Inr ()" using w cap by (simp add: tb_check_weight_def)
  have done1: ?thesis if "tb_acquire later wake others b now w = Some (Inr (b1\<lparr>tb_total_wait_s := f64 (tb_total_wait_s b + t)\<rparr>, k, t))" "k \<le> 1"
    "bucket_inv c r b0" "try_acquire b0 t0 w = Inr (b1, True)" "tb_acquired b0 = tb_acquired b" for b0 b1 t k t0
  proof -
    have "tb_step b0 (Try t0 w) = Inr b1" using that by simp
    from tb_step_inv [OF that(3) i(2) this] have "bucket_ok c r (b1\<lparr>tb_total_wait_s := f64 (tb_total_wait_s b + t)\<rparr>)" using i by (simp add: bucket_ok_def bucket_inv_def)
    moreover have "tb_acquired b1 = tb_acquired b + w" using acquired_had_tokens(2) [OF that(4)] that(5) by simp
    ultimately show ?thesis using that(1,2) by auto
  qed
  obtain b1 ok1 where t1: "try_acquire b now w = Inr (b1, ok1)" using try_outcome [OF w(1) w', of now] by (metis surj_pair)
  have p1: "tb_total_wait_s b1 = tb_total_wait_s b" "tb_acquired b1 = tb_acquired b + (if ok1 then w else 0)" using try_outcome [OF w(1) w', of now] t1 by (auto simp: refill_parts split: if_splits)
  show ?thesis
  proof (cases ok1)
    case True
    have "tb_acquire later wake others b now w = Some (Inr (b1\<lparr>tb_total_wait_s := f64 (tb_total_wait_s b + 0)\<rparr>, 0, 0))"
      unfolding tb_acquire_def ok by (subst acquire_loop.simps) (simp add: t1 True p1)
    then show ?thesis by (rule done1 [where ?b0.0 = b and ?b1.0 = b1 and ?t0.0 = now]) (use i t1 True in simp_all)
  next
    case False
    have b1: "b1 = tb_refill b now" using try_outcome [OF w(1) w', of now] t1 False by (auto split: if_splits)
    have i1: "bucket_inv c r b1" unfolding b1 by (rule refill_inv [OF i])
    have c1: "tb_check_weight b1 w = Inr ()" using w i1 by (simp add: tb_check_weight_def bucket_inv_def)
    obtain b2 d where wt: "wait_time b1 (later 0 now) w = Inr (b2, d)" by (simp add: wait_time_def c1 Let_def)
    have b2: "b2 = tb_refill b1 (later 0 now)" using wt by (simp add: wait_time_def c1 Let_def)
    have i2: "bucket_inv c r b2" unfolding b2 by (rule refill_inv [OF i1 i(2)])
    define t2 where "t2 = wake 0 (later 0 now) (acquire_delay d)"
    have "tb_t_ns b2 \<le> later 0 now" using now clock(1) [of now 0] by (simp add: b2 b1 refill_parts)
    then have s: "of_int w \<le> f64 (tb_tokens (tb_refill b2 t2) + BUCKET_EPS)"
      by (rule second_attempt [OF i1 i(2) rate w wt]) (unfold t2_def, rule clock(2))
    have w2: "of_int w \<le> tb_capacity b2" using i2 w by (simp add: bucket_inv_def)
    obtain b3 where t3: "try_acquire b2 t2 w = Inr (b3, True)" using try_outcome [OF w(1) w2, of t2] s by auto
    have p3: "tb_total_wait_s b3 = tb_total_wait_s b" "tb_acquired b2 = tb_acquired b" using try_outcome [OF w(1) w2, of t2] s t3 by (auto simp: b2 b1 refill_parts)
    have second: "acquire_loop later wake others w (Suc 0) (others 0 b2) t2 x = Some (Inr (b3, Suc 0, x))" for x
      by (subst acquire_loop.simps) (simp add: alone t3)
    have "tb_acquire later wake others b now w = Some (Inr (b3\<lparr>tb_total_wait_s := f64 (tb_total_wait_s b + f64 (0 + acquire_delay d))\<rparr>, 1, f64 (0 + acquire_delay d)))"
      unfolding tb_acquire_def ok by (subst acquire_loop.simps) (simp add: t1 False wt second p3 flip: t2_def)
    then show ?thesis by (rule done1 [where ?b0.0 = b2 and ?b1.0 = b3 and ?t0.0 = t2]) (use i2 t3 p3 in simp_all)
  qed
qed

definition ex_bucket :: token_bucket where
  "ex_bucket = \<lparr>tb_capacity = 1200, tb_refill_per_s = 20, tb_tokens = 3, tb_t_ns = 0, tb_acquired = 0, tb_total_wait_s = 0\<rparr>"

theorem acquire_pauses_once_witness:
  "\<exists>b' k t. tb_acquire (\<lambda>k t. t) (\<lambda>k t d. t + \<lceil>d * 10 ^ 9\<rceil>) (\<lambda>k b. b) ex_bucket 1000 10 = Some (Inr (b', k, t)) \<and> k \<le> 1 \<and> bucket_ok 1200 20 b'
    \<and> tb_acquired b' = tb_acquired ex_bucket + 10 \<and> tb_total_wait_s b' = f64 (tb_total_wait_s ex_bucket + t)"
  by (rule acquire_pauses_once)
    (use f64_int [of 1200] f64_int [of 3] in \<open>simp_all add: ex_bucket_def bucket_ok_def bucket_inv_def\<close>)

end
