(* ===== verification/Pipeline.thy ===== *)
theory Pipeline
  imports CandlesProps GapRuns NormalizeProps BackfillProps DataChecks Quality Reconnect
begin

text \<open>
  \<^verbatim>\<open>ingest/pipeline.py\<close>: the composition of the data path. A frame is normalised, checked, deduplicated and journalled; a candle then feeds the
  gap detector and the aggregator, a trade the gap detector; new gaps are filled through a hook and what cannot be had is skipped.
  The sinks do not fail and their calls are kept in order. A pipeline without a clock of its own reads the time of the record it processes.
\<close>

section \<open>Data\<close>

definition HOUR_NS :: int where "HOUR_NS = 3600 * 1000000000"

datatype session_item = Frame string int string json | Control string int string string

record invalid_event =
  iv_ts_ingest_ns :: int
  iv_stream :: string
  iv_code :: string
  iv_detail :: string

record fill_result =
  fr_events :: "market_event list"
  fr_requests :: int
  fr_error :: "string option"

datatype sink_call = On_event market_event | On_candle candle | On_trade trade | On_gap gap_record | On_invalid invalid_event | On_disconnect disconnect

text \<open>What a pipeline is built with. The hook answers its \<open>n\<close>-th call with a result or the text of an exception; \<open>pe_text\<close> is the text of a normalisation
  error, \<open>pe_fmt_g\<close> the format of a timeout.\<close>

record pipe_env =
  pe_ref :: symbol_ref
  pe_spec :: "inst_spec option"
  pe_backfill :: "(nat \<Rightarrow> gap_record \<Rightarrow> string + fill_result) option"
  pe_clock :: "(nat \<Rightarrow> int) option"
  pe_src :: src
  pe_tf :: string
  pe_heartbeat :: "rat option"
  pe_weights :: "pyfloat list"
  pe_tau0 :: pyfloat
  pe_uid :: "key_part list \<Rightarrow> string"
  pe_digest :: "market_event \<Rightarrow> nat"
  pe_cx :: dctx
  pe_text :: "norm_error \<Rightarrow> string"
  pe_fmt_g :: "rat \<Rightarrow> string"
  pe_exp :: "rat \<Rightarrow> rat"
  pe_percentile :: "rat list \<Rightarrow> rat"

definition tf_ns_of :: "pipe_env \<Rightarrow> int" where
  "tf_ns_of E = (case tf_ms (pe_tf E) of Inr ms \<Rightarrow> ms * NS_PER_MS | Inl _ \<Rightarrow> 0)"

record ingest_pipeline =
  ip_now :: int
  ip_regressions :: nat
  ip_dedup :: deduplicator
  ip_detector :: gap_detector
  ip_aggregator :: aggregator
  ip_health :: health
  ip_watchdogs :: "(string, watchdog) dict"
  ip_dq :: "(int, dq_accumulator) dict"
  ip_to_fill :: "nat list"
  ip_last_book_u :: "int option"
  ip_last_mark_ns :: "int option"
  ip_first_open_ns :: "int option"
  ip_trades_emitted :: nat
  ip_disconnects :: "disconnect list"
  ip_backfill_requests :: int
  ip_backfill_errors :: "string list"
  ip_hook_calls :: nat
  ip_sink :: "sink_call list"

definition DEFAULT_LAG_WINDOW :: nat where "DEFAULT_LAG_WINDOW = 4096"

definition as_result :: "'a norm \<Rightarrow> 'a result" where
  "as_result r = (case r of Inl NKeyError \<Rightarrow> Inl KeyError | Inl (NormError f v) \<Rightarrow> Inl NormalizationError | Inr x \<Rightarrow> Inr x)"

text \<open>The constructor, with the choices of its caller in the environment and the parameters of the parts.\<close>

definition pipeline_init :: "pipe_env \<Rightarrow> int \<Rightarrow> int option \<Rightarrow> int \<Rightarrow> int \<Rightarrow> ingest_pipeline result" where
  "pipeline_init E t0 dedup_window grace_ms max_reorder =
     rbind (as_result (tf_ms (pe_tf E))) (\<lambda>_. rbind (deduplicator_init dedup_window) (\<lambda>dd.
     rbind (as_result (detector_init (sr_symbol_canon (pe_ref E)) (pe_tf E) grace_ms max_reorder)) (\<lambda>det.
     rbind (as_result (aggregator_init (pe_tf E) (Some (sr_symbol_canon (pe_ref E))) True None 100000)) (\<lambda>ag.
       Inr \<lparr>ip_now = t0, ip_regressions = 0, ip_dedup = dd, ip_detector = det, ip_aggregator = ag, ip_health = health_init DEFAULT_LAG_WINDOW,
            ip_watchdogs = [], ip_dq = [], ip_to_fill = [], ip_last_book_u = None, ip_last_mark_ns = None, ip_first_open_ns = None,
            ip_trades_emitted = 0, ip_disconnects = [], ip_backfill_requests = 0, ip_backfill_errors = [], ip_hook_calls = 0, ip_sink = []\<rparr>))))"

definition pipe_clock :: "pipe_env \<Rightarrow> ingest_pipeline \<Rightarrow> nat \<Rightarrow> int" where
  "pipe_clock E p = (case pe_clock E of Some f \<Rightarrow> f | None \<Rightarrow> (\<lambda>_. ip_now p))"

definition frame_clock_observe :: "pipe_env \<Rightarrow> ingest_pipeline \<Rightarrow> int \<Rightarrow> ingest_pipeline" where
  "frame_clock_observe E p t = (case pe_clock E of Some _ \<Rightarrow> p
     | None \<Rightarrow> p\<lparr>ip_now := t, ip_regressions := ip_regressions p + (if t < ip_now p then 1 else 0)\<rparr>)"

fun conn_of :: "market_event \<Rightarrow> string" where
  "conn_of (EvBook b) = ''public''"
| "conn_of _ = ''market''"

fun event_kind :: "market_event \<Rightarrow> string" where
  "event_kind (EvCandle c) = ''candle''"
| "event_kind (EvTrade t) = ''trade''"
| "event_kind (EvBook b) = ''book''"
| "event_kind (EvMark m) = ''mark''"

fun gap_status_value :: "gap_status \<Rightarrow> string" where
  "gap_status_value GS_OPEN = ''OPEN''"
| "gap_status_value GS_FILLING = ''FILLING''"
| "gap_status_value GS_FILLED = ''FILLED''"
| "gap_status_value GS_PARTIAL = ''PARTIAL''"
| "gap_status_value GS_UNFILLABLE = ''UNFILLABLE''"

fun close_class_value :: "close_class \<Rightarrow> string" where
  "close_class_value CC_NORMAL = ''NORMAL''"
| "close_class_value CC_GOING_AWAY = ''GOING_AWAY''"
| "close_class_value CC_TRANSIENT = ''TRANSIENT''"
| "close_class_value CC_SERVER_ERROR = ''SERVER_ERROR''"
| "close_class_value CC_RATE_LIMITED = ''RATE_LIMITED''"
| "close_class_value CC_HEARTBEAT_TIMEOUT = ''HEARTBEAT_TIMEOUT''"
| "close_class_value CC_PROTOCOL_ERROR = ''PROTOCOL_ERROR''"
| "close_class_value CC_HANDSHAKE_REJECTED = ''HANDSHAKE_REJECTED''"

definition parse_class :: "string \<Rightarrow> close_class" where
  "parse_class detail = (let h = takeWhile (\<lambda>ch. ch \<noteq> CHR '':'') detail in
     case find (\<lambda>c. close_class_value c = h) [CC_NORMAL, CC_GOING_AWAY, CC_TRANSIENT, CC_SERVER_ERROR, CC_RATE_LIMITED, CC_HEARTBEAT_TIMEOUT,
       CC_PROTOCOL_ERROR, CC_HANDSHAKE_REJECTED] of Some c \<Rightarrow> c | None \<Rightarrow> CC_TRANSIENT)"

section \<open>Sinks and accounts\<close>

definition sink :: "sink_call \<Rightarrow> ingest_pipeline \<Rightarrow> ingest_pipeline" where
  "sink s p = p\<lparr>ip_sink := ip_sink p @ [s]\<rparr>"

definition with_health :: "(health \<Rightarrow> health) \<Rightarrow> ingest_pipeline \<Rightarrow> ingest_pipeline" where
  "with_health f p = p\<lparr>ip_health := f (ip_health p)\<rparr>"

definition hour_of :: "int \<Rightarrow> int" where
  "hour_of t = t - t mod HOUR_NS"

definition dq_acc :: "int \<Rightarrow> (dq_accumulator \<Rightarrow> dq_accumulator) \<Rightarrow> ingest_pipeline \<Rightarrow> ingest_pipeline" where
  "dq_acc t f p = (let h = hour_of t; a = (case dget (ip_dq p) h of None \<Rightarrow> dq_empty h HOUR_NS | Some a \<Rightarrow> a) in p\<lparr>ip_dq := dset (ip_dq p) h (f a)\<rparr>)"

definition pipe_invalid :: "int \<Rightarrow> string \<Rightarrow> string \<Rightarrow> string \<Rightarrow> int option \<Rightarrow> ingest_pipeline \<Rightarrow> ingest_pipeline" where
  "pipe_invalid ts stream code detail bucket p =
     sink (On_invalid \<lparr>iv_ts_ingest_ns = ts, iv_stream = stream, iv_code = code, iv_detail = detail\<rparr>)
       (dq_acc (case bucket of None \<Rightarrow> ts | Some t \<Rightarrow> t) (\<lambda>a. add_checked a True) (with_health (\<lambda>h. on_invalid h code) p))"

definition violations :: "pipe_env \<Rightarrow> market_event \<Rightarrow> string list result" where
  "violations E ev = (case ev of
     EvCandle c \<Rightarrow> check_candle (pe_cx E) c (pe_spec E) True
   | EvTrade t \<Rightarrow> check_trade (pe_cx E) t (pe_spec E)
   | EvBook b \<Rightarrow> check_book (pe_cx E) b (pe_spec E)
   | EvMark m \<Rightarrow> Inr [])"

text \<open>Whether an event is older than the last one of its kind, which otherwise it becomes.\<close>

definition stale_step :: "market_event \<Rightarrow> ingest_pipeline \<Rightarrow> bool \<times> ingest_pipeline" where
  "stale_step ev p = (case ev of
     EvBook b \<Rightarrow> if (case ip_last_book_u p of None \<Rightarrow> False | Some u \<Rightarrow> bk_last_update_id b < u) then (True, p)
       else (False, p\<lparr>ip_last_book_u := Some (bk_last_update_id b)\<rparr>)
   | EvMark m \<Rightarrow> if (case ip_last_mark_ns p of None \<Rightarrow> False | Some t \<Rightarrow> mp_ts_event_ns m < t) then (True, p)
       else (False, p\<lparr>ip_last_mark_ns := Some (mp_ts_event_ns m)\<rparr>)
   | _ \<Rightarrow> (False, p))"

definition join_codes :: "string list \<Rightarrow> string" where
  "join_codes cs = (case cs of [] \<Rightarrow> [] | x # xs \<Rightarrow> foldl (\<lambda>s c. s @ '','' @ c) x xs)"

section \<open>Released candles\<close>

text \<open>An operation may fail to return, raise, or answer.\<close>

definition pbind :: "'a result option \<Rightarrow> ('a \<Rightarrow> 'b result option) \<Rightarrow> 'b result option" where
  "pbind m f = (case m of None \<Rightarrow> None | Some (Inl e) \<Rightarrow> Some (Inl e) | Some (Inr x) \<Rightarrow> f x)"

fun each :: "('x \<Rightarrow> 's \<Rightarrow> 's result option) \<Rightarrow> 'x list \<Rightarrow> 's \<Rightarrow> 's result option" where
  "each f [] s = Some (Inr s)"
| "each f (x # xs) s = pbind (f x s) (each f xs)"

definition release :: "candle \<Rightarrow> ingest_pipeline \<Rightarrow> ingest_pipeline" where
  "release c p = sink (On_candle c) (dq_acc (cd_open_time_ns c) (\<lambda>a. add_bucket a (cd_open_time_ns c)) (with_health on_candle_closed p))"

definition released_from :: "aggregator \<times> candle list \<Rightarrow> ingest_pipeline \<Rightarrow> ingest_pipeline" where
  "released_from r p = fold release (snd r) (p\<lparr>ip_aggregator := fst r\<rparr>)"

section \<open>Gaps\<close>

definition gap_changed :: "gap_record \<Rightarrow> ingest_pipeline \<Rightarrow> ingest_pipeline" where
  "gap_changed g p = sink (On_gap g) (with_health (\<lambda>h. on_gap h (int (gr_id g)) (gap_status_value (gr_status g))) p)"

definition gap_noted :: "pipe_env \<Rightarrow> gap_record \<Rightarrow> ingest_pipeline \<Rightarrow> ingest_pipeline" where
  "gap_noted E g p =
     (let p1 = gap_changed g p in
      if gr_status g \<noteq> GS_OPEN then p1
      else let lo = gr_ts_lo g; hi = gr_ts_hi g + (if gr_stream g = KLINES then tf_ns_of E else 0);
               p2 = fold (\<lambda>h. dq_acc h (\<lambda>a. add_gap a lo hi)) (range_step (hour_of lo) (max lo (hi - 1)) HOUR_NS) p1
           in p2\<lparr>ip_to_fill := ip_to_fill p2 @ [gr_id g]\<rparr>)"

definition skip_minute :: "int \<Rightarrow> ingest_pipeline \<Rightarrow> ingest_pipeline result option" where
  "skip_minute m p = pbind (ag_skip (ip_aggregator p) m m) (\<lambda>r. Some (Inr (released_from r p)))"

definition skip_missing :: "nat \<Rightarrow> ingest_pipeline \<Rightarrow> ingest_pipeline result option" where
  "skip_missing gid p =
     (case dget (gd_gaps (ip_detector p)) gid of
        None \<Rightarrow> Some (Inl KeyError)
      | Some g \<Rightarrow> if gr_stream g \<noteq> KLINES then Some (Inr p)
          else (case gd_missing_keys (ip_detector p) gid of Inl e \<Rightarrow> Some (Inl e) | Inr ms \<Rightarrow> each skip_minute ms p))"

section \<open>Accepting an event\<close>

text \<open>The answer carries the gap records that changed; an event that is invalid, a duplicate or stale stops before.\<close>

definition take_candle :: "pipe_env \<Rightarrow> candle \<Rightarrow> ingest_pipeline \<Rightarrow> (ingest_pipeline \<times> gap_record list) result option" where
  "take_candle E c p0 =
     (let p = (if ip_first_open_ns p0 = None \<and> cd_tf c = pe_tf E then p0\<lparr>ip_first_open_ns := Some (cd_open_time_ns c)\<rparr> else p0);
          d = ip_detector p in
      pbind (Some (if cd_is_closed c \<and> cd_tf c = pe_tf E \<and> is_skipped (ip_aggregator p) (cd_open_time_ns c)
                   then Inr (gd_on_time (pipe_clock E p) d (cd_ts_event_ns c)) else gd_on_kline (pipe_clock E p) d c)) (\<lambda>(d', changed).
      pbind (ag_offer (ip_aggregator p) c) (\<lambda>r. Some (Inr (released_from r (p\<lparr>ip_detector := d'\<rparr>), changed)))))"

definition take_new_trade :: "pipe_env \<Rightarrow> dedup_outcome \<Rightarrow> trade \<Rightarrow> ingest_pipeline \<Rightarrow> (ingest_pipeline \<times> gap_record list) result option" where
  "take_new_trade E outcome t p0 =
     (let p = (if outcome = Dd_new then sink (On_trade t) (p0\<lparr>ip_trades_emitted := ip_trades_emitted p0 + 1\<rparr>) else p0) in
      pbind (Some (gd_on_trade (pipe_clock E p) (ip_detector p) t)) (\<lambda>(d', changed). Some (Inr (p\<lparr>ip_detector := d'\<rparr>, changed))))"

definition tick :: "pipe_env \<Rightarrow> int \<Rightarrow> ingest_pipeline \<Rightarrow> ingest_pipeline \<times> gap_record list" where
  "tick E t p = (let (d', changed) = gd_on_time (pipe_clock E p) (ip_detector p) t in (p\<lparr>ip_detector := d'\<rparr>, changed))"

definition count_event :: "bool \<Rightarrow> market_event \<Rightarrow> ingest_pipeline \<Rightarrow> ingest_pipeline" where
  "count_event from_stream ev p0 =
     (let p = dq_acc (ev_ts_event ev) (\<lambda>a. add_checked a False) p0 in
      if from_stream then
        (let (h, lag) = on_event (ip_health p) (event_kind ev) (ev_ts_event ev) (ev_ts_ingest ev)
         in dq_acc (ev_ts_event ev) (\<lambda>a. add_lag_ms a lag) (p\<lparr>ip_health := h\<rparr>))
      else with_health (\<lambda>h. h\<lparr>hp_events_by_kind := bump (hp_events_by_kind h) (event_kind ev @ ''_backfill'')\<rparr>) p)"

definition dispatch :: "pipe_env \<Rightarrow> dedup_outcome \<Rightarrow> market_event \<Rightarrow> ingest_pipeline \<Rightarrow> (ingest_pipeline \<times> gap_record list) result option" where
  "dispatch E outcome ev p = (case ev of
     EvCandle c \<Rightarrow> take_candle E c p
   | EvTrade t \<Rightarrow> take_new_trade E outcome t p
   | _ \<Rightarrow> Some (Inr (tick E (ev_ts_event ev) p)))"

definition accept_event :: "pipe_env \<Rightarrow> bool \<Rightarrow> market_event \<Rightarrow> ingest_pipeline \<Rightarrow> (ingest_pipeline \<times> gap_record list option) result option" where
  "accept_event E from_stream ev p =
     pbind (Some (violations E ev)) (\<lambda>bad.
     if bad \<noteq> [] then Some (Inr (pipe_invalid (ev_ts_ingest ev) (event_kind ev) (hd bad) (join_codes bad) (Some (ev_ts_event ev)) p, None))
     else let (dd, outcome) = offer (pe_digest E) (ip_dedup p) ev; p1 = p\<lparr>ip_dedup := dd\<rparr> in
       if outcome = Dd_duplicate then Some (Inr (with_health on_duplicate p1, None))
       else let (st, p2) = stale_step ev p1 in
         if st then Some (Inr (with_health on_stale p2, None))
         else pbind (dispatch E outcome ev (sink (On_event ev) (count_event from_stream ev p2))) (\<lambda>(p3, changed). Some (Inr (p3, Some changed))))"

text \<open>While the queue of gaps is worked off, an event only adds to it (\<^verbatim>\<open>_filling\<close>).\<close>

definition accept_filling :: "pipe_env \<Rightarrow> market_event \<Rightarrow> ingest_pipeline \<Rightarrow> ingest_pipeline result option" where
  "accept_filling E ev p = pbind (accept_event E False ev p) (\<lambda>(p', changed). Some (Inr (case changed of None \<Rightarrow> p' | Some gs \<Rightarrow> fold (gap_noted E) gs p')))"

section \<open>Filling\<close>

definition hook_result :: "string + fill_result \<Rightarrow> fill_result" where
  "hook_result r = (case r of Inr x \<Rightarrow> x | Inl text \<Rightarrow> \<lparr>fr_events = [], fr_requests = 0, fr_error = Some text\<rparr>)"

definition count_hook :: "fill_result \<Rightarrow> ingest_pipeline \<Rightarrow> ingest_pipeline" where
  "count_hook res p = p\<lparr>ip_hook_calls := ip_hook_calls p + 1, ip_backfill_requests := ip_backfill_requests p + fr_requests res,
     ip_backfill_errors := ip_backfill_errors p @ (case fr_error res of None \<Rightarrow> [] | Some e \<Rightarrow> if e = [] then [] else [e])\<rparr>"

definition begin_gap :: "pipe_env \<Rightarrow> nat \<Rightarrow> ingest_pipeline \<Rightarrow> (ingest_pipeline \<times> gap_record) result option" where
  "begin_gap E gid p = pbind (Some (begin_fill (pipe_clock E p) (ip_detector p) gid)) (\<lambda>(d', g). Some (Inr (gap_changed g (p\<lparr>ip_detector := d'\<rparr>), g)))"

definition resolve_gap :: "pipe_env \<Rightarrow> nat \<Rightarrow> ingest_pipeline \<Rightarrow> (ingest_pipeline \<times> gap_record) result option" where
  "resolve_gap E gid p = pbind (Some (gd_resolve (pipe_clock E p) (ip_detector p) gid)) (\<lambda>(d', g). Some (Inr (gap_changed g (p\<lparr>ip_detector := d'\<rparr>), g)))"

definition fill_one :: "pipe_env \<Rightarrow> nat \<Rightarrow> ingest_pipeline \<Rightarrow> ingest_pipeline result option" where
  "fill_one E gid p =
     (case dget (gd_gaps (ip_detector p)) gid of
        None \<Rightarrow> Some (Inl KeyError)
      | Some g0 \<Rightarrow>
          if gr_status g0 = GS_FILLED then Some (Inr p)
          else (case pe_backfill E of
              None \<Rightarrow> skip_missing gid p
            | Some hook \<Rightarrow>
                pbind (begin_gap E gid p) (\<lambda>(p1, g).
                let res = hook_result (hook (ip_hook_calls p1) g) in
                pbind (each (accept_filling E) (fr_events res) (count_hook res p1)) (\<lambda>p2.
                pbind (resolve_gap E gid p2) (\<lambda>(p3, g').
                if gr_status g' \<noteq> GS_FILLED then skip_missing gid p3 else Some (Inr p3))))))"

partial_function (option) pipe_fill_loop :: "pipe_env \<Rightarrow> ingest_pipeline \<Rightarrow> ingest_pipeline result option" where
  "pipe_fill_loop E p =
     (case ip_to_fill p of
        [] \<Rightarrow> Some (Inr p)
      | gid # rest \<Rightarrow> (case fill_one E gid (p\<lparr>ip_to_fill := rest\<rparr>) of
            None \<Rightarrow> None
          | Some r \<Rightarrow> (case r of Inl e \<Rightarrow> Some (Inl e) | Inr p' \<Rightarrow> pipe_fill_loop E p')))"

definition on_gaps :: "pipe_env \<Rightarrow> gap_record list \<Rightarrow> ingest_pipeline \<Rightarrow> ingest_pipeline result option" where
  "on_gaps E gs p = pipe_fill_loop E (fold (gap_noted E) gs p)"

definition accept :: "pipe_env \<Rightarrow> market_event \<Rightarrow> ingest_pipeline \<Rightarrow> ingest_pipeline result option" where
  "accept E ev p = pbind (accept_event E True ev p) (\<lambda>(p', changed). case changed of None \<Rightarrow> Some (Inr p') | Some gs \<Rightarrow> on_gaps E gs p')"

section \<open>Input\<close>

definition flush_gaps :: "pipe_env \<Rightarrow> ingest_pipeline \<Rightarrow> ingest_pipeline result option" where
  "flush_gaps E p = (let (d', gs) = gd_flush (pipe_clock E p) (ip_detector p) in on_gaps E gs (p\<lparr>ip_detector := d'\<rparr>))"

definition pipe_disconnect :: "pipe_env \<Rightarrow> disconnect \<Rightarrow> bool \<Rightarrow> ingest_pipeline \<Rightarrow> ingest_pipeline result option" where
  "pipe_disconnect E dc watchdog p =
     (let p1 = sink (On_disconnect dc) (with_health (\<lambda>h. on_disconnect h (close_class_value (dc_cls dc)) watchdog)
                 (p\<lparr>ip_disconnects := ip_disconnects p @ [dc]\<rparr>)) in
      if dc_conn dc \<noteq> ''public'' then flush_gaps E p1 else Some (Inr p1))"

definition poll_watchdog :: "pipe_env \<Rightarrow> int \<Rightarrow> string \<times> watchdog \<Rightarrow> ingest_pipeline \<Rightarrow> ingest_pipeline result option" where
  "poll_watchdog E now cw p =
     (let (w', fired) = wd_poll (snd cw) now; p1 = p\<lparr>ip_watchdogs := dset (ip_watchdogs p) (fst cw) w'\<rparr> in
      case fired of None \<Rightarrow> Some (Inr p1)
      | Some t \<Rightarrow> pipe_disconnect E \<lparr>dc_conn = fst cw, dc_ts_ns = t, dc_cls = CC_HEARTBEAT_TIMEOUT, dc_code = None,
            dc_reason = ''no frames for '' @ pe_fmt_g E (wd_timeout_s w') @ ''s''\<rparr> True p1)"

definition poll_watchdogs :: "pipe_env \<Rightarrow> int \<Rightarrow> ingest_pipeline \<Rightarrow> ingest_pipeline result option" where
  "poll_watchdogs E now p = each (poll_watchdog E now) (ip_watchdogs p) p"

definition beat_conn :: "pipe_env \<Rightarrow> string \<Rightarrow> int \<Rightarrow> ingest_pipeline \<Rightarrow> ingest_pipeline result" where
  "beat_conn E conn t p =
     (case pe_heartbeat E of None \<Rightarrow> Inr p
      | Some s \<Rightarrow> rbind (case dget (ip_watchdogs p) conn of Some w \<Rightarrow> Inr w | None \<Rightarrow> mk_watchdog s None) (\<lambda>w.
          Inr (p\<lparr>ip_watchdogs := dset (ip_watchdogs p) conn (wd_beat w t)\<rparr>)))"

definition norm_code :: "norm_error \<Rightarrow> string" where
  "norm_code e = ''NORMALIZATION:'' @ (case e of NormError (Some f) _ \<Rightarrow> f | _ \<Rightarrow> ''None'')"

definition on_raw_frame :: "pipe_env \<Rightarrow> string \<Rightarrow> int \<Rightarrow> string \<Rightarrow> json \<Rightarrow> ingest_pipeline \<Rightarrow> ingest_pipeline result option" where
  "on_raw_frame E conn t stream data p =
     pbind (Some (beat_conn E conn t (with_health (\<lambda>h. on_frame h conn t) p))) (\<lambda>p1.
     case normalize_binance (pe_uid E) stream data t (pe_ref E) (pe_src E) of
       Inl NKeyError \<Rightarrow> Some (Inl KeyError)
     | Inl e \<Rightarrow> Some (Inr (pipe_invalid t stream (norm_code e) (pe_text E e) None p1))
     | Inr ev \<Rightarrow> accept E ev p1)"

definition with_watchdog :: "string \<Rightarrow> (watchdog \<Rightarrow> watchdog) \<Rightarrow> ingest_pipeline \<Rightarrow> ingest_pipeline" where
  "with_watchdog conn f p = (case dget (ip_watchdogs p) conn of None \<Rightarrow> p | Some w \<Rightarrow> p\<lparr>ip_watchdogs := dset (ip_watchdogs p) conn (f w)\<rparr>)"

definition on_control :: "pipe_env \<Rightarrow> string \<Rightarrow> int \<Rightarrow> string \<Rightarrow> string \<Rightarrow> ingest_pipeline \<Rightarrow> ingest_pipeline result option" where
  "on_control E conn t event detail p =
     (if event = ''disconnected'' then
        let cls = parse_class detail in
        pipe_disconnect E \<lparr>dc_conn = conn, dc_ts_ns = t, dc_cls = cls, dc_code = None, dc_reason = detail\<rparr> (cls = CC_HEARTBEAT_TIMEOUT) (with_watchdog conn wd_disarm p)
      else if event = ''connected'' then Some (Inr (with_watchdog conn (\<lambda>w. wd_beat w t) p))
      else Some (Inr p))"

fun item_ts :: "session_item \<Rightarrow> int" where
  "item_ts (Frame conn t stream data) = t"
| "item_ts (Control conn t event detail) = t"

fun on_item :: "pipe_env \<Rightarrow> session_item \<Rightarrow> ingest_pipeline \<Rightarrow> ingest_pipeline result option" where
  "on_item E (Frame conn t stream data) p = on_raw_frame E conn t stream data p"
| "on_item E (Control conn t event detail) p = on_control E conn t event detail p"

definition process_item :: "pipe_env \<Rightarrow> session_item \<Rightarrow> ingest_pipeline \<Rightarrow> ingest_pipeline result option" where
  "process_item E it p0 =
     (let p = frame_clock_observe E p0 (item_ts it) in
      pbind (if pe_heartbeat E \<noteq> None then poll_watchdogs E (item_ts it) p else Some (Inr p)) (on_item E it))"

definition process_event :: "pipe_env \<Rightarrow> market_event \<Rightarrow> ingest_pipeline \<Rightarrow> ingest_pipeline result option" where
  "process_event E ev p = accept E ev (with_health (\<lambda>h. on_frame h (conn_of ev) (ev_ts_ingest ev)) (frame_clock_observe E p (ev_ts_ingest ev)))"

datatype pipe_cmd = P_item session_item | P_event market_event

fun pipe_step :: "pipe_env \<Rightarrow> pipe_cmd \<Rightarrow> ingest_pipeline \<Rightarrow> ingest_pipeline result option" where
  "pipe_step E (P_item it) p = process_item E it p"
| "pipe_step E (P_event ev) p = process_event E ev p"

section \<open>The end of a session\<close>

record hour_dq =
  hd_hour_start_ns :: int
  hd_score :: dq_result

definition expected_buckets :: "pipe_env \<Rightarrow> ingest_pipeline \<Rightarrow> int \<Rightarrow> int" where
  "expected_buckets E p h = (case (ip_first_open_ns p, gd_latest (ip_detector p)) of
     (Some f, Some l) \<Rightarrow> let lo = max h f; hi = min (h + HOUR_NS) (l - tf_ns_of E + 1) in if lo < hi then (hi - lo + tf_ns_of E - 1) div tf_ns_of E else 0
   | _ \<Rightarrow> 0)"

definition hour_score :: "pipe_env \<Rightarrow> ingest_pipeline \<Rightarrow> int \<Rightarrow> hour_dq result" where
  "hour_score E p h = (case dget (ip_dq p) h of None \<Rightarrow> Inl KeyError
     | Some a \<Rightarrow> rbind (dq_score (pe_exp E) (dq_inputs_of (pe_percentile E) a (expected_buckets E p h)) (pe_weights E) (pe_tau0 E)) (\<lambda>s.
         Inr \<lparr>hd_hour_start_ns = h, hd_score = s\<rparr>))"

definition dq_scores :: "pipe_env \<Rightarrow> ingest_pipeline \<Rightarrow> (ingest_pipeline \<times> hour_dq list) result" where
  "dq_scores E p = rbind (mapres (hour_score E p) (sort (map fst (ip_dq p)))) (\<lambda>out.
     Inr (if out = [] then p else with_health (\<lambda>h. h\<lparr>hp_q := Some (ds_score (hd_score (last out)))\<rparr>) p, out))"

record pipeline_report =
  pr_health :: health_snapshot
  pr_gaps :: "gap_record list"
  pr_candles_released :: nat
  pr_trades_emitted :: nat
  pr_dedup :: "nat \<times> nat \<times> nat"
  pr_aggregator :: aggregator_stats
  pr_gap_stats :: gap_stats
  pr_dq :: "hour_dq list"
  pr_disconnects :: "disconnect list"
  pr_backfill_requests :: int
  pr_backfill_errors :: "string list"

definition report_of :: "pipe_env \<Rightarrow> ingest_pipeline \<Rightarrow> hour_dq list \<Rightarrow> pipeline_report" where
  "report_of E p dq =
     \<lparr>pr_health = health_snapshot_of (pe_percentile E) (ip_health p), pr_gaps = map snd (gd_gaps (ip_detector p)),
      pr_candles_released = as_released (ag_stats (ip_aggregator p)), pr_trades_emitted = ip_trades_emitted p,
      pr_dedup = (dd_new (ip_dedup p), dd_duplicate (ip_dedup p), dd_replaced (ip_dedup p)), pr_aggregator = ag_stats (ip_aggregator p),
      pr_gap_stats = gd_stats (ip_detector p), pr_dq = dq, pr_disconnects = ip_disconnects p, pr_backfill_requests = ip_backfill_requests p,
      pr_backfill_errors = ip_backfill_errors p\<rparr>"

definition flush_candles :: "ingest_pipeline \<Rightarrow> ingest_pipeline" where
  "flush_candles p = released_from (ag_flush (ip_aggregator p)) p"

definition finish_pipeline :: "pipe_env \<Rightarrow> ingest_pipeline \<Rightarrow> (ingest_pipeline \<times> pipeline_report) result option" where
  "finish_pipeline E p = pbind (flush_gaps E p) (\<lambda>p1. pbind (Some (dq_scores E (flush_candles p1))) (\<lambda>(p2, dq). Some (Inr (p2, report_of E p2 dq))))"

definition run_pipeline :: "pipe_env \<Rightarrow> session_item list \<Rightarrow> ingest_pipeline \<Rightarrow> (ingest_pipeline \<times> pipeline_report) result option" where
  "run_pipeline E items p = pbind (each (process_item E) items p) (finish_pipeline E)"

end
