(* ===== verification/PipelineProps.thy ===== *)
theory PipelineProps
  imports Pipeline
begin

text \<open>
  The pipeline as a whole: from the first released candle on, every minute whose time is up is either delivered to the sink, once and in
  order, or stands in a gap record as missing, never both and never neither; and the filling of gaps ends for every hook that has
  finitely many answers.
\<close>

section \<open>The aggregator and the minutes it owes\<close>

text \<open>The aggregator after a first candle at \<open>first\<close>, with what it released: every minute from there to the next one is released or skipped.\<close>

definition ag_core :: "aggregator \<Rightarrow> candle list \<Rightarrow> int option \<Rightarrow> bool" where
  "ag_core a out first \<longleftrightarrow> ag_ok a out \<and> (\<forall>m. dget (ag_released a) m \<noteq> None \<longrightarrow> m \<in> set (opens out))
     \<and> (case first of
          None \<Rightarrow> ag_next a = None \<and> ag_skipped a = []
        | Some f \<Rightarrow> \<exists>n. ag_next a = Some n \<and> f \<le> n \<and> ag_tf_ns a dvd f \<and> (\<forall>m \<in> set (opens out). f \<le> m)
            \<and> (\<forall>m. f \<le> m \<and> m < n \<and> ag_tf_ns a dvd m \<longrightarrow> m \<in> set (opens out) \<or> m \<in> set (ag_skipped a)))"

definition ag_at :: "aggregator \<Rightarrow> candle list \<Rightarrow> int option \<Rightarrow> bool" where
  "ag_at a out first \<longleftrightarrow> ag_core a out first \<and> tight a"

text \<open>What a step does to the held minutes and to the identity of the aggregator.\<close>

definition kept_minutes :: "aggregator \<Rightarrow> aggregator \<Rightarrow> candle list \<Rightarrow> bool" where
  "kept_minutes a b rel \<longleftrightarrow> ag_tf b = ag_tf a \<and> ag_instrument b = ag_instrument a \<and> ag_tf_ns b = ag_tf_ns a
     \<and> (\<forall>m. dget (ag_held a) m \<noteq> None \<longleftrightarrow> m \<in> set (opens rel) \<or> dget (ag_held b) m \<noteq> None)"

lemma remember_keys: "dget (remember d cs) m \<noteq> None \<Longrightarrow> dget d m \<noteq> None \<or> m \<in> set (opens cs)"
proof (induction cs arbitrary: d)
  case (Cons c cs)
  then have "dget (remember (dset d (cd_open_time_ns c) c) cs) m \<noteq> None" by (simp add: remember_def)
  from Cons.IH [OF this] show ?case by (auto split: if_splits)
qed (simp add: remember_def)

lemma forget_keys: "dget (forget n d) m \<noteq> None \<Longrightarrow> dget d m \<noteq> None"
  unfolding forget_def by (metis dget_in_set in_set_dropD not_Some_eq weak_map_of_SomeI)

lemma emit_released: "dget (ag_released (fst (emit a cs))) m \<noteq> None \<Longrightarrow> dget (ag_released a) m \<noteq> None \<or> m \<in> set (opens cs)"
  by (simp add: emit_def) (metis forget_keys not_None_eq remember_keys set_map)

lemma emit_identity [simp]: "ag_tf (fst (emit a cs)) = ag_tf a" "ag_instrument (fst (emit a cs)) = ag_instrument a"
  by (simp_all add: emit_def)

lemma drain_at:
  assumes at: "ag_core a out (Some f)"
  shows "\<exists>b rel. drain a = Some (Inr (b, rel)) \<and> ag_at b (out @ rel) (Some f) \<and> kept_minutes a b rel"
proof -
  from at obtain n where n: "ag_next a = Some n" "f \<le> n" and f: "ag_tf_ns a dvd f" "\<forall>m \<in> set (opens out). f \<le> m"
    and c: "\<forall>m. f \<le> m \<and> m < n \<and> ag_tf_ns a dvd m \<longrightarrow> m \<in> set (opens out) \<or> m \<in> set (ag_skipped a)"
    and ok: "ag_ok a out" and r: "\<forall>m. dget (ag_released a) m \<noteq> None \<longrightarrow> m \<in> set (opens out)" by (auto simp: ag_core_def)
  from ok n have step: "0 < ag_tf_ns a" and held: "keyed (ag_held a)" and al: "ag_tf_ns a dvd n" by (auto simp: ag_ok_def)
  from drain_loop_returns [OF step held, of "ag_skipped a" n "[]"] obtain n' held' rel
    where loop: "drain_loop (ag_tf_ns a) (ag_skipped a) n (ag_held a) [] = Some (n', held', rel)"
      and d: "drained (ag_tf_ns a) (ag_skipped a) n (ag_held a) n' held' rel" by auto
  let ?b = "fst (emit (a\<lparr>ag_next := Some n', ag_held := held'\<rparr>) rel)"
  have eq: "drain a = Some (Inr (?b, rel))" using n loop by (simp add: drain_def emit_def)
  with drain_ok [OF ok n(1)] have b: "ag_ok ?b (out @ rel)" "tight ?b" by auto
  have m: "m \<in> set (opens (out @ rel)) \<or> m \<in> set (ag_skipped ?b)" if "f \<le> m" "m < n'" "ag_tf_ns a dvd m" for m
  proof (cases "n \<le> m")
    case True
    moreover have "ag_tf_ns a dvd m - n" using that(3) al by (rule dvd_diff)
    ultimately show ?thesis using that(2) d by (auto simp: drained_def)
  next
    case False
    with c that show ?thesis by auto
  qed
  have "\<forall>m \<in> set (opens rel). n \<le> m" and le: "n \<le> n'" using d by (auto simp: drained_def)
  then have lo: "\<forall>m \<in> set (opens (out @ rel)). f \<le> m" using f(2) n(2) by fastforce
  have rl: "dget (ag_released ?b) m \<noteq> None \<longrightarrow> m \<in> set (opens (out @ rel))" for m
    using emit_released [of "a\<lparr>ag_next := Some n', ag_held := held'\<rparr>" rel m] r by auto
  have "ag_core ?b (out @ rel) (Some f)"
    unfolding ag_core_def option.case
  proof (intro conjI allI exI [of _ n'])
    show "ag_next ?b = Some n'" "f \<le> n'" "ag_tf_ns ?b dvd f" using n(2) le f(1) by simp_all
    show "f \<le> m \<and> m < n' \<and> ag_tf_ns ?b dvd m \<longrightarrow> m \<in> set (opens (out @ rel)) \<or> m \<in> set (ag_skipped ?b)" for m using m [of m] by simp
  qed (use b(1) lo rl in blast)+
  then have "ag_at ?b (out @ rel) (Some f)" using b(2) by (simp add: ag_at_def)
  moreover have "kept_minutes a ?b rel" using d by (auto simp: kept_minutes_def drained_def split: if_splits)
  ultimately show ?thesis using eq by blast
qed

lemma quiet_core:
  assumes "same_queue a b" "ag_core a out first" "ag_released b = ag_released a" "first = None \<longrightarrow> ag_skipped b = ag_skipped a"
  shows "ag_core b out first"
proof -
  from assms(1) have e: "ag_next b = ag_next a" "ag_tf_ns b = ag_tf_ns a" "set (ag_skipped a) \<subseteq> set (ag_skipped b)" by (simp_all add: same_queue_def)
  have "ag_ok b out" using same_queueD(1) [OF assms(1)] assms(2) by (simp add: ag_core_def)
  then show ?thesis
  proof (cases first)
    case (Some f)
    then obtain n where "ag_next a = Some n" "f \<le> n" "ag_tf_ns a dvd f" "\<forall>m \<in> set (opens out). f \<le> m"
      "\<forall>m. f \<le> m \<and> m < n \<and> ag_tf_ns a dvd m \<longrightarrow> m \<in> set (opens out) \<or> m \<in> set (ag_skipped a)" using assms(2) by (auto simp: ag_core_def)
    with \<open>ag_ok b out\<close> assms(2,3) e Some show ?thesis by (auto simp: ag_core_def; blast)
  qed (use assms e in \<open>simp add: ag_core_def\<close>)
qed

lemma quiet_kept: "same_queue a b \<Longrightarrow> ag_tf b = ag_tf a \<Longrightarrow> ag_instrument b = ag_instrument a \<Longrightarrow> kept_minutes a b []"
  by (simp add: kept_minutes_def same_queue_def)

lemma kept_trans: "kept_minutes a b [] \<Longrightarrow> kept_minutes b c rel \<Longrightarrow> kept_minutes a c rel"
  by (auto simp: kept_minutes_def)

lemma bookkeeping [simp]:
  "ag_released (track_current a c) = ag_released a" "ag_skipped (track_current a c) = ag_skipped a" "ag_tf (track_current a c) = ag_tf a"
  "ag_instrument (track_current a c) = ag_instrument a"
  "ag_released (count_duplicate a c) = ag_released a" "ag_skipped (count_duplicate a c) = ag_skipped a" "ag_tf (count_duplicate a c) = ag_tf a"
  "ag_instrument (count_duplicate a c) = ag_instrument a"
  "ag_released (offer_open a c) = ag_released a" "ag_skipped (offer_open a c) = ag_skipped a" "ag_tf (offer_open a c) = ag_tf a"
  "ag_instrument (offer_open a c) = ag_instrument a"
  by (simp_all add: track_current_def count_duplicate_def offer_open_def Let_def)

lemma marked [simp]:
  "ag_released (foldl mark_skipped a ms) = ag_released a" "ag_tf (foldl mark_skipped a ms) = ag_tf a" "ag_instrument (foldl mark_skipped a ms) = ag_instrument a"
  by (induction ms arbitrary: a) (simp_all add: mark_skipped_def)

lemma skip_at:
  assumes "ag_at a out (Some f)"
  shows "\<exists>b rel. ag_skip a lo hi = Some (Inr (b, rel)) \<and> ag_at b (out @ rel) (Some f) \<and> kept_minutes a b rel"
proof -
  let ?b = "foldl mark_skipped a (range_step lo hi (ag_tf_ns a))"
  have q: "same_queue a ?b" by (rule same_queue_ops)
  have c: "ag_core ?b out (Some f)" by (rule quiet_core [OF q]) (use assms in \<open>simp_all add: ag_at_def\<close>)
  have k: "kept_minutes a ?b []" by (rule quiet_kept [OF q]) simp_all
  have "ag_ordered ?b \<and> ag_next ?b \<noteq> None" using c by (auto simp: ag_core_def ag_ok_def)
  with drain_at [OF c] kept_trans [OF k] show ?thesis by (auto simp: ag_skip_def Let_def)
qed

text \<open>A candle offered to the aggregator: when it is closed and its minute was not given up, its minute is released or held from then on.\<close>

lemma start_at:
  assumes "ag_at a out first" "ag_tf_ns a dvd cd_open_time_ns c"
  shows "ag_at (ag_start a c) out (Some (case first of None \<Rightarrow> cd_open_time_ns c | Some f \<Rightarrow> f)) \<and> kept_minutes a (ag_start a c) []
    \<and> ag_skipped (ag_start a c) = ag_skipped a \<and> ag_released (ag_start a c) = ag_released a"
  using assms start_ok(1,2) [of a out c]
  by (cases first) (auto simp: ag_at_def ag_core_def ag_start_def kept_minutes_def ag_ok_def)

definition offered :: "aggregator \<Rightarrow> candle \<Rightarrow> candle list \<Rightarrow> int option \<Rightarrow> aggregator \<Rightarrow> candle list \<Rightarrow> bool" where
  "offered a c out first b rel \<longleftrightarrow> ag_at b (out @ rel) first
    \<and> (\<forall>m. dget (ag_held a) m \<noteq> None \<longrightarrow> m \<in> set (opens rel) \<or> dget (ag_held b) m \<noteq> None)
    \<and> (\<forall>m. m \<in> set (opens rel) \<or> dget (ag_held b) m \<noteq> None \<longrightarrow> dget (ag_held a) m \<noteq> None
        \<or> (m = cd_open_time_ns c \<and> \<not> is_skipped a m \<and> cd_is_closed c \<and> ag_accepts a c))
    \<and> (\<not> is_skipped a (cd_open_time_ns c) \<and> cd_is_closed c \<and> ag_accepts a c \<and> (\<exists>f \<le> cd_open_time_ns c. first = Some f)
        \<longrightarrow> cd_open_time_ns c \<in> set (opens (out @ rel)) \<or> dget (ag_held b) (cd_open_time_ns c) \<noteq> None)
    \<and> ag_tf b = ag_tf a \<and> ag_instrument b = ag_instrument a \<and> ag_tf_ns b = ag_tf_ns a"

lemma offer_closed_at:
  assumes at: "ag_at a out (Some f)" and al: "ag_tf_ns a dvd cd_open_time_ns c" and cl: "cd_is_closed c" "ag_accepts a c"
  shows "\<exists>b rel. offer_closed a c = Some (Inr (b, rel)) \<and> offered a c out (Some f) b rel"
proof -
  let ?t = "track_current a c" and ?m = "cd_open_time_ns c"
  have t: "same_queue a ?t" by (rule same_queue_ops)
  have tc: "ag_core ?t out (Some f)" by (rule quiet_core [OF t]) (use at in \<open>simp_all add: ag_at_def\<close>)
  obtain n where n: "ag_next a = Some n" and c: "\<forall>m. f \<le> m \<and> m < n \<and> ag_tf_ns a dvd m \<longrightarrow> m \<in> set (opens out) \<or> m \<in> set (ag_skipped a)"
    using at by (auto simp: ag_at_def ag_core_def)
  have r: "\<forall>m. dget (ag_released a) m \<noteq> None \<longrightarrow> m \<in> set (opens out)" using at by (simp add: ag_at_def ag_core_def)
  have te: "ag_next ?t = Some n" "ag_ordered ?t" "ag_held ?t = ag_held a" "ag_tf_ns ?t = ag_tf_ns a" using t n at by (auto simp: same_queue_def ag_at_def ag_core_def ag_ok_def)
  have old: ?thesis if b: "offer_closed a c = Some (Inr (b, []))" "same_queue ?t b" "ag_released b = ag_released a" "ag_tf b = ag_tf a" "ag_instrument b = ag_instrument a"
    and m: "settled_minute ?t ?m \<or> dget (ag_held ?t) ?m \<noteq> None \<or> ?m < n" for b
  proof -
    have "ag_core b out (Some f)" by (rule quiet_core [OF b(2) tc]) (use b(3) in simp_all)
    moreover have "tight b" using same_queueD(2) [OF b(2)] same_queueD(2) [OF t] at by (simp add: ag_at_def)
    moreover have h: "ag_held b = ag_held a" "ag_tf_ns b = ag_tf_ns a" using b(2) te by (simp_all add: same_queue_def)
    moreover have "?m \<in> set (opens out) \<or> dget (ag_held b) ?m \<noteq> None" if "\<not> is_skipped a ?m" "f \<le> ?m"
      using m that c r al unfolding h te by (auto simp: settled_minute_def is_skipped_def)
    ultimately have "offered a c out (Some f) b []" using b unfolding offered_def by (auto simp: ag_at_def)
    with b(1) show ?thesis by blast
  qed
  show ?thesis
  proof (cases "settled_minute ?t ?m \<or> dget (ag_held ?t) ?m \<noteq> None \<or> ?m < n")
    case True
    show ?thesis
    proof (cases "settled_minute ?t ?m \<or> dget (ag_held ?t) ?m \<noteq> None")
      case dup: True
      then show ?thesis using True by (intro old [of "count_duplicate ?t c"]) (simp_all add: offer_closed_def Let_def same_queue_ops)
    next
      case False
      then show ?thesis using True te
        by (intro old [of "?t\<lparr>ag_stats := (ag_stats ?t)\<lparr>as_duplicates := as_duplicates (ag_stats ?t) + 1\<rparr>\<rparr>"]) (simp_all add: offer_closed_def Let_def same_queue_ops)
    qed
  next
    case False
    let ?h = "hold ?t c"
    have ns: "\<not> is_skipped a ?m" using False by (auto simp: settled_minute_def is_skipped_def)
    have hk: "dget (ag_held ?h) m \<noteq> None \<longleftrightarrow> dget (ag_held a) m \<noteq> None \<or> m = ?m" for m by (auto simp: hold_def Let_def te)
    have "ag_ok ?h out" using tc False te(1) al te(4) by (auto simp: ag_core_def ag_ok_def hold_def Let_def keyed_dset split: if_splits)
    moreover have hq: "ag_next ?h = Some n" "ag_tf_ns ?h = ag_tf_ns a" "ag_released ?h = ag_released a" "ag_skipped ?h = ag_skipped a" "ag_tf ?h = ag_tf a" "ag_instrument ?h = ag_instrument a"
      using te by (simp_all add: hold_def Let_def)
    ultimately have "ag_core ?h out (Some f)" using at unfolding ag_at_def ag_core_def by (auto simp: n)
    from drain_at [OF this] obtain b rel where b: "drain ?h = Some (Inr (b, rel))" "ag_at b (out @ rel) (Some f)" "kept_minutes ?h b rel" by blast
    moreover have "offer_closed a c = drain ?h" using False te by (simp add: offer_closed_def Let_def)
    ultimately have "offer_closed a c = Some (Inr (b, rel))" by simp
    moreover have "offered a c out (Some f) b rel" using b(2,3) ns hk hq cl unfolding offered_def kept_minutes_def by auto
    ultimately show ?thesis by blast
  qed
qed

lemma offered_from:
  assumes k: "kept_minutes a a' []" "ag_skipped a' = ag_skipped a" "ag_released a' = ag_released a" and o: "offered a' c out first b rel"
  shows "offered a c out first b rel"
proof -
  have "is_skipped a' m = is_skipped a m" "ag_accepts a' c = ag_accepts a c" for m using k by (simp_all add: is_skipped_def ag_accepts_def kept_minutes_def)
  with k(1) o show ?thesis unfolding offered_def kept_minutes_def by simp
qed

definition first_seen :: "aggregator \<Rightarrow> candle \<Rightarrow> int option \<Rightarrow> int option" where
  "first_seen a c first = (if ag_accepts a c then Some (case first of None \<Rightarrow> cd_open_time_ns c | Some f \<Rightarrow> f) else first)"

lemma offer_at:
  assumes at: "ag_at a out first" and al: "ag_accepts a c \<Longrightarrow> ag_tf_ns a dvd cd_open_time_ns c"
  shows "\<exists>b rel. ag_offer a c = Some (Inr (b, rel)) \<and> offered a c out (first_seen a c first) b rel"
proof (cases "ag_accepts a c")
  case False
  with at show ?thesis by (auto simp: ag_offer_def offered_def first_seen_def)
next
  case acc: True
  let ?s = "ag_start a c"
  from start_at [OF at al [OF acc]] have s: "ag_at ?s out (first_seen a c first)" "kept_minutes a ?s []" "ag_skipped ?s = ag_skipped a" "ag_released ?s = ag_released a"
    using acc by (simp_all add: first_seen_def)
  obtain f where f: "first_seen a c first = Some f" using acc by (simp add: first_seen_def)
  have al': "ag_tf_ns ?s dvd cd_open_time_ns c" "ag_accepts ?s c" using al [OF acc] s(2) acc by (simp_all add: kept_minutes_def ag_accepts_def)
  show ?thesis
  proof (cases "cd_is_closed c")
    case True
    from offer_closed_at [OF s(1) [unfolded f] al'(1) True al'(2)] obtain b rel
      where "offer_closed ?s c = Some (Inr (b, rel))" "offered ?s c out (Some f) b rel" by blast
    with offered_from [OF s(2-4)] acc True f show ?thesis by (auto simp: ag_offer_def)
  next
    case False
    have q: "same_queue ?s (offer_open ?s c)" by (rule same_queue_ops)
    have "ag_at (offer_open ?s c) out (Some f)"
      using quiet_core [OF q, of out "Some f"] same_queueD(2) [OF q] s(1) f by (simp add: ag_at_def)
    then have "offered ?s c out (Some f) (offer_open ?s c) []" using q False by (auto simp: offered_def same_queue_def)
    with offered_from [OF s(2-4)] acc False f show ?thesis by (auto simp: ag_offer_def)
  qed
qed

text \<open>The final flush delivers whatever is held.\<close>

lemma flush_at:
  assumes "ag_at a out first"
  shows "sorted_wrt (<) (opens (out @ snd (ag_flush a))) \<and> (\<forall>m. m \<in> set (opens (snd (ag_flush a))) \<longleftrightarrow> dget (ag_held a) m \<noteq> None)"
proof -
  have ok: "ag_ok a out" "tight a" using assms by (simp_all add: ag_at_def ag_core_def)
  have "sorted_wrt (<) (opens (out @ snd (ag_flush a)))" using flush_ok [OF ok] by (simp add: ag_ok_def)
  moreover have "m \<in> set (opens (snd (ag_flush a))) \<longleftrightarrow> dget (ag_held a) m \<noteq> None" for m
  proof (cases "ag_held a = []")
    case False
    have k: "cd_open_time_ns (the (dget (ag_held a) k)) = k" if "k \<in> fst ` set (ag_held a)" for k
    proof -
      from that obtain c where "dget (ag_held a) k = Some c" by (metis map_of_eq_None_iff not_None_eq)
      with ok show ?thesis by (auto simp: ag_ok_def keyed_def)
    qed
    have "set (opens (snd (ag_flush a))) = (\<lambda>k. cd_open_time_ns (the (dget (ag_held a) k))) ` fst ` set (ag_held a)"
      using False by (simp add: ag_flush_def Let_def image_image)
    also have "\<dots> = fst ` set (ag_held a)" using k by (auto simp: image_iff)
    finally show ?thesis by (metis map_of_eq_None_iff)
  qed (simp add: ag_flush_def)
  ultimately show ?thesis by blast
qed

section \<open>Results of operations\<close>

text \<open>An operation returns when \<open>must\<close> asks for it, and what it answers satisfies \<open>Q\<close>.\<close>

definition holds :: "bool \<Rightarrow> ('a \<Rightarrow> bool) \<Rightarrow> 'a result option \<Rightarrow> bool" where
  "holds must Q m \<longleftrightarrow> (must \<longrightarrow> m \<noteq> None) \<and> (\<forall>x. m = Some (Inr x) \<longrightarrow> Q x)"

lemma holds_simps [simp]: "holds must Q (Some (Inr x)) \<longleftrightarrow> Q x" "holds must Q (Some (Inl e))"
  by (auto simp: holds_def)

lemma holds_pbind: "holds must Q m \<Longrightarrow> (\<And>x. Q x \<Longrightarrow> holds must R (f x)) \<Longrightarrow> holds must R (pbind m f)"
  by (auto simp: holds_def pbind_def split: option.splits sum.splits)

lemma holds_each: "Q s \<Longrightarrow> (\<And>x s. x \<in> set xs \<Longrightarrow> Q s \<Longrightarrow> holds must Q (f x s)) \<Longrightarrow> holds must Q (each f xs s)"
proof (induction xs arbitrary: s)
  case (Cons x xs)
  then show ?case by (auto intro!: holds_pbind [of must Q])
qed simp

lemma holds_weaken: "holds must Q m \<Longrightarrow> (\<And>x. Q x \<Longrightarrow> R x) \<Longrightarrow> holds must R m"
  by (simp add: holds_def)

section \<open>What a pipeline keeps\<close>

definition delivered :: "ingest_pipeline \<Rightarrow> candle list" where
  "delivered p = List.map_filter (\<lambda>s. case s of On_candle c \<Rightarrow> Some c | _ \<Rightarrow> None) (ip_sink p)"

text \<open>The detector has seen the klines \<open>ks\<close>, on the grid; a minute they closed is delivered or held, and nothing else is.\<close>

definition core_ok :: "pipe_env \<Rightarrow> gap_detector \<Rightarrow> gap_detector \<Rightarrow> aggregator \<Rightarrow> candle list \<Rightarrow> bool" where
  "core_ok E d0 d a out \<longleftrightarrow> (\<exists>ids ks ts. gd_at d0 d ids ks ts \<and> ag_at a out (first_open ks)
     \<and> (\<forall>c \<in> set ks. tf_ns_of E dvd cd_open_time_ns c)
     \<and> (\<forall>m. m \<in> set (opens out) \<or> dget (ag_held a) m \<noteq> None \<longrightarrow> m \<in> closed_opens ks)
     \<and> (\<forall>f m. first_open ks = Some f \<longrightarrow> m \<in> closed_opens ks \<longrightarrow> f \<le> m \<longrightarrow> m \<in> set (opens out) \<or> dget (ag_held a) m \<noteq> None))
   \<and> ag_tf a = pe_tf E \<and> ag_instrument a = Some (sr_symbol_canon (pe_ref E)) \<and> ag_tf_ns a = tf_ns_of E"

lemma core_okI:
  assumes "gd_at d0 d ids ks ts" "ag_at a out (first_open ks)" "\<forall>c \<in> set ks. tf_ns_of E dvd cd_open_time_ns c"
    "\<And>m. m \<in> set (opens out) \<or> dget (ag_held a) m \<noteq> None \<Longrightarrow> m \<in> closed_opens ks"
    "\<And>f m. first_open ks = Some f \<Longrightarrow> m \<in> closed_opens ks \<Longrightarrow> f \<le> m \<Longrightarrow> m \<in> set (opens out) \<or> dget (ag_held a) m \<noteq> None"
    "ag_tf a = pe_tf E" "ag_instrument a = Some (sr_symbol_canon (pe_ref E))" "ag_tf_ns a = tf_ns_of E"
  shows "core_ok E d0 d a out"
  using assms unfolding core_ok_def by blast

lemma core_okE:
  assumes "core_ok E d0 d a out"
  obtains ids ks ts where "gd_at d0 d ids ks ts" "ag_at a out (first_open ks)" "\<forall>c \<in> set ks. tf_ns_of E dvd cd_open_time_ns c"
    "\<And>m. m \<in> set (opens out) \<or> dget (ag_held a) m \<noteq> None \<Longrightarrow> m \<in> closed_opens ks"
    "\<And>f m. first_open ks = Some f \<Longrightarrow> m \<in> closed_opens ks \<Longrightarrow> f \<le> m \<Longrightarrow> m \<in> set (opens out) \<or> dget (ag_held a) m \<noteq> None"
    "ag_tf a = pe_tf E" "ag_instrument a = Some (sr_symbol_canon (pe_ref E))" "ag_tf_ns a = tf_ns_of E"
  using assms unfolding core_ok_def by blast

definition setup_ok :: "pipe_env \<Rightarrow> gap_detector \<Rightarrow> bool" where
  "setup_ok E d0 \<longleftrightarrow> gd_instrument d0 = sr_symbol_canon (pe_ref E) \<and> gd_tf d0 = pe_tf E \<and> gd_tf_ns d0 = tf_ns_of E \<and> (\<exists>ms. tf_ms (pe_tf E) = Inr ms)"

definition pipe_ok :: "pipe_env \<Rightarrow> gap_detector \<Rightarrow> nat \<Rightarrow> nat list \<Rightarrow> ingest_pipeline \<Rightarrow> bool" where
  "pipe_ok E d0 k q p \<longleftrightarrow> core_ok E d0 (ip_detector p) (ip_aggregator p) (delivered p) \<and> ip_hook_calls p = k \<and> ip_to_fill p = q"

lemma delivered_sink [simp]: "delivered (sink s p) = delivered p @ (case s of On_candle c \<Rightarrow> [c] | _ \<Rightarrow> [])"
  by (simp add: delivered_def sink_def map_filter_def split: sink_call.split)

lemma sink_parts [simp]:
  "ip_detector (sink s p) = ip_detector p" "ip_aggregator (sink s p) = ip_aggregator p" "ip_hook_calls (sink s p) = ip_hook_calls p"
  "ip_to_fill (sink s p) = ip_to_fill p"
  by (simp_all add: sink_def)

lemma health_parts [simp]:
  "ip_detector (with_health f p) = ip_detector p" "ip_aggregator (with_health f p) = ip_aggregator p" "ip_hook_calls (with_health f p) = ip_hook_calls p"
  "ip_to_fill (with_health f p) = ip_to_fill p" "delivered (with_health f p) = delivered p"
  by (simp_all add: with_health_def delivered_def)

lemma acc_parts [simp]:
  "ip_detector (dq_acc t f p) = ip_detector p" "ip_aggregator (dq_acc t f p) = ip_aggregator p" "ip_hook_calls (dq_acc t f p) = ip_hook_calls p"
  "ip_to_fill (dq_acc t f p) = ip_to_fill p" "delivered (dq_acc t f p) = delivered p"
  by (simp_all add: dq_acc_def Let_def delivered_def)

text \<open>The other updates of a pipeline leave all of this alone.\<close>

lemma update_parts [simp]:
  "delivered (p\<lparr>ip_detector := d\<rparr>) = delivered p" "delivered (p\<lparr>ip_aggregator := a\<rparr>) = delivered p" "delivered (p\<lparr>ip_dedup := dd\<rparr>) = delivered p"
  "delivered (p\<lparr>ip_health := h\<rparr>) = delivered p" "delivered (p\<lparr>ip_watchdogs := w\<rparr>) = delivered p" "delivered (p\<lparr>ip_to_fill := q\<rparr>) = delivered p"
  "delivered (p\<lparr>ip_last_book_u := u\<rparr>) = delivered p" "delivered (p\<lparr>ip_last_mark_ns := u\<rparr>) = delivered p" "delivered (p\<lparr>ip_first_open_ns := u\<rparr>) = delivered p"
  "delivered (p\<lparr>ip_trades_emitted := n\<rparr>) = delivered p" "delivered (p\<lparr>ip_disconnects := ds\<rparr>) = delivered p"
  "delivered (p\<lparr>ip_now := t, ip_regressions := n\<rparr>) = delivered p"
  "delivered (p\<lparr>ip_hook_calls := n, ip_backfill_requests := r, ip_backfill_errors := es\<rparr>) = delivered p"
  by (simp_all add: delivered_def)

lemma release_parts [simp]:
  "ip_detector (release c p) = ip_detector p" "ip_aggregator (release c p) = ip_aggregator p" "ip_hook_calls (release c p) = ip_hook_calls p"
  "ip_to_fill (release c p) = ip_to_fill p" "delivered (release c p) = delivered p @ [c]"
  by (simp_all add: release_def)

lemma fold_release [simp]:
  "ip_detector (fold release cs p) = ip_detector p" "ip_aggregator (fold release cs p) = ip_aggregator p" "ip_hook_calls (fold release cs p) = ip_hook_calls p"
  "ip_to_fill (fold release cs p) = ip_to_fill p" "delivered (fold release cs p) = delivered p @ cs"
  by (induction cs arbitrary: p) simp_all

lemma released_parts [simp]:
  "ip_detector (released_from r p) = ip_detector p" "ip_aggregator (released_from r p) = fst r" "ip_hook_calls (released_from r p) = ip_hook_calls p"
  "ip_to_fill (released_from r p) = ip_to_fill p" "delivered (released_from r p) = delivered p @ snd r"
  by (simp_all add: released_from_def)

lemma gap_changed_parts [simp]:
  "ip_detector (gap_changed g p) = ip_detector p" "ip_aggregator (gap_changed g p) = ip_aggregator p" "ip_hook_calls (gap_changed g p) = ip_hook_calls p"
  "ip_to_fill (gap_changed g p) = ip_to_fill p" "delivered (gap_changed g p) = delivered p"
  by (simp_all add: gap_changed_def)

lemma fold_acc_parts [simp]:
  "ip_detector (fold (\<lambda>h. dq_acc h f) hs p) = ip_detector p" "ip_aggregator (fold (\<lambda>h. dq_acc h f) hs p) = ip_aggregator p"
  "ip_hook_calls (fold (\<lambda>h. dq_acc h f) hs p) = ip_hook_calls p" "ip_to_fill (fold (\<lambda>h. dq_acc h f) hs p) = ip_to_fill p"
  "delivered (fold (\<lambda>h. dq_acc h f) hs p) = delivered p"
  by (induction hs arbitrary: p) simp_all

lemma noted_parts [simp]:
  "ip_detector (gap_noted E g p) = ip_detector p" "ip_aggregator (gap_noted E g p) = ip_aggregator p" "ip_hook_calls (gap_noted E g p) = ip_hook_calls p"
  "delivered (gap_noted E g p) = delivered p"
  by (simp_all add: gap_noted_def Let_def)

lemma fold_noted_parts [simp]:
  "ip_detector (fold (gap_noted E) gs p) = ip_detector p" "ip_aggregator (fold (gap_noted E) gs p) = ip_aggregator p"
  "ip_hook_calls (fold (gap_noted E) gs p) = ip_hook_calls p" "delivered (fold (gap_noted E) gs p) = delivered p"
  by (induction gs arbitrary: p) simp_all

section \<open>Steps of the detector and of the aggregator\<close>

lemma detector_core:
  assumes "core_ok E d0 d a out" "gd_step ck d cmd = Inr d'" "\<And>c. cmd \<noteq> D_kline c"
  shows "core_ok E d0 d' a out"
  using assms(1)
proof (rule core_okE)
  fix ids ks ts assume at: "gd_at d0 d ids ks ts"
  have "cmd_klines i tf cmd = []" for i tf using assms(3) by (cases cmd) auto
  with gd_step_ok [OF at refl refl, where ck = ck and c = cmd] assms(2)
  have at': "gd_at d0 d' (ids @ cmd_ids (gd_instrument d0) cmd) ks (ts @ cmd_times (gd_instrument d0) (gd_tf d0) cmd)" by simp
  show "core_ok E d0 d' a out" if "ag_at a out (first_open ks)" "\<forall>c \<in> set ks. tf_ns_of E dvd cd_open_time_ns c"
    "\<And>m. m \<in> set (opens out) \<or> dget (ag_held a) m \<noteq> None \<Longrightarrow> m \<in> closed_opens ks"
    "\<And>f m. first_open ks = Some f \<Longrightarrow> m \<in> closed_opens ks \<Longrightarrow> f \<le> m \<Longrightarrow> m \<in> set (opens out) \<or> dget (ag_held a) m \<noteq> None"
    "ag_tf a = pe_tf E" "ag_instrument a = Some (sr_symbol_canon (pe_ref E))" "ag_tf_ns a = tf_ns_of E"
    by (rule core_okI [OF at' that])
qed

lemma kline_core:
  assumes su: "setup_ok E d0" and core: "core_ok E d0 d a out" and al: "cd_tf c = pe_tf E \<Longrightarrow> tf_ns_of E dvd cd_open_time_ns c"
    and st: "(if cd_is_closed c \<and> cd_tf c = pe_tf E \<and> is_skipped a (cd_open_time_ns c) then Inr (gd_on_time ck d ts) else gd_on_kline ck d c) = Inr (d', gs)"
  shows "\<exists>b rel. ag_offer a c = Some (Inr (b, rel)) \<and> core_ok E d0 d' b (out @ rel)"
proof -
  from core obtain ids ks tms where at: "gd_at d0 d ids ks tms" and ag: "ag_at a out (first_open ks)" and grid: "\<forall>c \<in> set ks. tf_ns_of E dvd cd_open_time_ns c"
    and old: "\<And>m. m \<in> set (opens out) \<or> dget (ag_held a) m \<noteq> None \<Longrightarrow> m \<in> closed_opens ks"
    and got: "\<And>f m. first_open ks = Some f \<Longrightarrow> m \<in> closed_opens ks \<Longrightarrow> f \<le> m \<Longrightarrow> m \<in> set (opens out) \<or> dget (ag_held a) m \<noteq> None"
    and id: "ag_tf a = pe_tf E" "ag_instrument a = Some (sr_symbol_canon (pe_ref E))" "ag_tf_ns a = tf_ns_of E" by (rule core_okE) blast
  let ?m = "cd_open_time_ns c"
  let ?skip = "cd_is_closed c \<and> cd_tf c = pe_tf E \<and> is_skipped a ?m"
  have acc: "ag_accepts a c \<longleftrightarrow> cd_tf c = pe_tf E \<and> cd_instrument c = sr_symbol_canon (pe_ref E)" using id by (auto simp: ag_accepts_def)
  obtain b rel where b: "ag_offer a c = Some (Inr (b, rel))" and o: "offered a c out (first_seen a c (first_open ks)) b rel"
    using offer_at [OF ag, of c] al acc id by auto
  let ?ks = "ks @ (if ag_accepts a c \<and> \<not> ?skip then [c] else [])"
  have "\<exists>ids' tms'. gd_at d0 d' ids' ?ks tms'"
  proof (cases ?skip)
    case True
    then have "gd_step ck d (D_time ts) = Inr d'" using st by simp
    with gd_step_ok [OF at refl refl, where ck = ck and c = "D_time ts"] True show ?thesis by auto
  next
    case False
    then have "gd_step ck d (D_kline c) = Inr d'" using st by auto
    moreover have "cmd_klines (gd_instrument d0) (gd_tf d0) (D_kline c) = (if ag_accepts a c \<and> \<not> ?skip then [c] else [])"
      using su False acc by (auto simp: setup_ok_def)
    ultimately show ?thesis
      using gd_step_ok [OF at refl refl, where ck = ck and c = "D_kline c"] by (simp only: sum.case) blast
  qed
  then obtain ids' tms' where at': "gd_at d0 d' ids' ?ks tms'" by blast
  have skipped_first: "first_open ks \<noteq> None" if "is_skipped a ?m" using ag that by (auto simp: ag_at_def ag_core_def is_skipped_def split: option.splits)
  have first: "first_seen a c (first_open ks) = first_open ?ks"
    using skipped_first first_snoc [of ks c] by (auto simp: first_seen_def split: option.splits)
  have cl: "closed_opens ?ks = closed_opens ks \<union> (if ag_accepts a c \<and> \<not> ?skip \<and> cd_is_closed c then {?m} else {})"
    by (auto simp: closed_opens_def)
  have o1: "ag_at b (out @ rel) (first_open ?ks)"
    and fwd: "dget (ag_held a) m \<noteq> None \<Longrightarrow> m \<in> set (opens rel) \<or> dget (ag_held b) m \<noteq> None"
    and bwd: "m \<in> set (opens rel) \<or> dget (ag_held b) m \<noteq> None \<Longrightarrow> dget (ag_held a) m \<noteq> None \<or> (m = ?m \<and> \<not> is_skipped a m \<and> cd_is_closed c \<and> ag_accepts a c)"
    and got_new: "\<not> is_skipped a ?m \<Longrightarrow> cd_is_closed c \<Longrightarrow> ag_accepts a c \<Longrightarrow> first_open ?ks = Some f \<Longrightarrow> f \<le> ?m
      \<Longrightarrow> ?m \<in> set (opens (out @ rel)) \<or> dget (ag_held b) ?m \<noteq> None"
    and o5: "ag_tf b = ag_tf a" "ag_instrument b = ag_instrument a" "ag_tf_ns b = ag_tf_ns a" for m f
    using o [unfolded first offered_def] by blast+
  have sub: "m \<in> closed_opens ?ks" if "m \<in> set (opens (out @ rel)) \<or> dget (ag_held b) m \<noteq> None" for m
  proof (cases "m \<in> set (opens out)")
    case True
    then show ?thesis unfolding cl using old by blast
  next
    case False
    with that have "m \<in> set (opens rel) \<or> dget (ag_held b) m \<noteq> None" by simp
    from bwd [OF this] show ?thesis unfolding cl using old by auto
  qed
  have all: "m \<in> set (opens (out @ rel)) \<or> dget (ag_held b) m \<noteq> None" if f: "first_open ?ks = Some f" "m \<in> closed_opens ?ks" "f \<le> m" for f m
  proof (cases "m \<in> closed_opens ks")
    case True
    then have "first_open ks = Some f" using f(1) by (auto simp: first_open_def closed_opens_def hd_append split: if_splits)
    from got [OF this True f(3)] fwd [of m] show ?thesis by auto
  next
    case False
    with f(2) have m: "m = ?m" "ag_accepts a c" "\<not> ?skip" "cd_is_closed c" unfolding cl by (auto split: if_splits)
    then have "\<not> is_skipped a ?m" using acc by blast
    from got_new [OF this m(4,2) f(1)] f(3) m(1) show ?thesis by simp
  qed
  have "core_ok E d0 d' b (out @ rel)"
    by (rule core_okI [OF at' _ _ sub all]) (use o1 o5 id grid al acc in auto)
  with b show ?thesis by blast
qed

lemma skip_core:
  assumes core: "core_ok E d0 d a out" and ow: "owned d KLINES \<noteq> {}"
  shows "\<exists>b rel. ag_skip a lo hi = Some (Inr (b, rel)) \<and> core_ok E d0 d b (out @ rel)"
proof -
  from core obtain ids ks ts where at: "gd_at d0 d ids ks ts" and ag: "ag_at a out (first_open ks)" and grid: "\<forall>c \<in> set ks. tf_ns_of E dvd cd_open_time_ns c"
    and old: "\<And>m. m \<in> set (opens out) \<or> dget (ag_held a) m \<noteq> None \<Longrightarrow> m \<in> closed_opens ks"
    and got: "\<And>f m. first_open ks = Some f \<Longrightarrow> m \<in> closed_opens ks \<Longrightarrow> f \<le> m \<Longrightarrow> m \<in> set (opens out) \<or> dget (ag_held a) m \<noteq> None"
    and id: "ag_tf a = pe_tf E" "ag_instrument a = Some (sr_symbol_canon (pe_ref E))" "ag_tf_ns a = tf_ns_of E" by (rule core_okE) blast
  obtain f where f: "first_open ks = Some f" using at ow by (auto simp: gd_at_def at_events_def sweeps_at_def split: option.splits)
  from skip_at [OF ag [unfolded f], of lo hi] obtain b rel where b: "ag_skip a lo hi = Some (Inr (b, rel))" "ag_at b (out @ rel) (Some f)" "kept_minutes a b rel" by blast
  have k: "m \<in> set (opens (out @ rel)) \<or> dget (ag_held b) m \<noteq> None \<longleftrightarrow> m \<in> set (opens out) \<or> dget (ag_held a) m \<noteq> None" for m
    using b(3) by (auto simp: kept_minutes_def)
  have "core_ok E d0 d b (out @ rel)"
    by (rule core_okI [OF at _ grid]) (use b(2) f id b(3) old got in \<open>simp_all only: k, simp_all add: kept_minutes_def\<close>)
  with b(1) show ?thesis by blast
qed

section \<open>Operations of the pipeline\<close>

lemma valid_aligned:
  assumes "setup_ok E d0" "violations E (EvCandle c) = Inr []" "cd_tf c = pe_tf E"
  shows "tf_ns_of E dvd cd_open_time_ns c"
proof -
  have "time_codes c = []" using assms(2) by (auto simp: violations_def check_candle_def elim!: rbind_InrE split: option.splits)
  with assms(1,3) show ?thesis
    by (auto simp: setup_ok_def time_codes_def tf_ns_of_def tf_ms_def Let_def split: option.splits if_splits)
qed

lemma pipe_detector:
  assumes "pipe_ok E d0 k q p" "gd_step ck (ip_detector p) cmd = Inr d'" "\<And>c. cmd \<noteq> D_kline c"
  shows "pipe_ok E d0 k q (p\<lparr>ip_detector := d'\<rparr>)"
  using assms(1) detector_core [OF _ assms(2,3), of E d0] by (simp add: pipe_ok_def)

lemma tick_holds:
  assumes "pipe_ok E d0 k q p"
  shows "pipe_ok E d0 k q (fst (tick E t p))"
  using pipe_detector [OF assms, of "pipe_clock E p" "D_time t"] by (simp add: tick_def split_beta)

lemma trade_holds:
  assumes "pipe_ok E d0 k q p"
  shows "holds True (\<lambda>r. pipe_ok E d0 k q (fst r)) (take_new_trade E outcome t p)"
proof -
  define p' where "p' = (if outcome = Dd_new then sink (On_trade t) (p\<lparr>ip_trades_emitted := ip_trades_emitted p + 1\<rparr>) else p)"
  have p': "pipe_ok E d0 k q p'" using assms by (simp add: pipe_ok_def p'_def)
  have e: "take_new_trade E outcome t p = pbind (Some (gd_on_trade (pipe_clock E p') (ip_detector p') t)) (\<lambda>(d', changed). Some (Inr (p'\<lparr>ip_detector := d'\<rparr>, changed)))"
    by (simp only: take_new_trade_def Let_def p'_def)
  show ?thesis
  proof (cases "gd_on_trade (pipe_clock E p') (ip_detector p') t")
    case (Inl err)
    then show ?thesis unfolding e by (simp add: pbind_def)
  next
    case (Inr r)
    with pipe_detector [OF p', of "pipe_clock E p'" "D_trade t"] show ?thesis unfolding e by (simp add: pbind_def split_beta)
  qed
qed

lemma candle_holds:
  assumes su: "setup_ok E d0" and ok: "pipe_ok E d0 k q p0" and v: "violations E (EvCandle c) = Inr []"
  shows "holds True (\<lambda>r. pipe_ok E d0 k q (fst r)) (take_candle E c p0)"
proof -
  define p where "p = (if ip_first_open_ns p0 = None \<and> cd_tf c = pe_tf E then p0\<lparr>ip_first_open_ns := Some (cd_open_time_ns c)\<rparr> else p0)"
  define d where "d = (if cd_is_closed c \<and> cd_tf c = pe_tf E \<and> is_skipped (ip_aggregator p) (cd_open_time_ns c)
    then Inr (gd_on_time (pipe_clock E p) (ip_detector p) (cd_ts_event_ns c)) else gd_on_kline (pipe_clock E p) (ip_detector p) c)"
  have p: "core_ok E d0 (ip_detector p) (ip_aggregator p) (delivered p)" "ip_hook_calls p = k" "ip_to_fill p = q" using ok by (simp_all add: pipe_ok_def p_def)
  have e: "take_candle E c p0 = pbind (Some d) (\<lambda>(d', changed). pbind (ag_offer (ip_aggregator p) c) (\<lambda>r. Some (Inr (released_from r (p\<lparr>ip_detector := d'\<rparr>), changed))))"
    by (simp only: take_candle_def Let_def p_def d_def)
  show ?thesis
  proof (cases d)
    case (Inl err)
    then show ?thesis unfolding e by (simp add: pbind_def)
  next
    case (Inr r)
    then have "d = Inr (fst r, snd r)" by simp
    from kline_core [OF su p(1) valid_aligned [OF su v] this [unfolded d_def]] obtain b rel
      where b: "ag_offer (ip_aggregator p) c = Some (Inr (b, rel))" "core_ok E d0 (fst r) b (delivered p @ rel)" by blast
    show ?thesis unfolding e Inr using b p(2,3) by (simp add: pbind_def split_beta pipe_ok_def)
  qed
qed

lemma event_parts [simp]:
  "ip_detector (count_event b ev p) = ip_detector p" "ip_aggregator (count_event b ev p) = ip_aggregator p" "ip_hook_calls (count_event b ev p) = ip_hook_calls p"
  "ip_to_fill (count_event b ev p) = ip_to_fill p" "delivered (count_event b ev p) = delivered p"
  by (simp_all add: count_event_def Let_def split_beta)

lemma stale_parts [simp]:
  "ip_detector (snd (stale_step ev p)) = ip_detector p" "ip_aggregator (snd (stale_step ev p)) = ip_aggregator p"
  "ip_hook_calls (snd (stale_step ev p)) = ip_hook_calls p" "ip_to_fill (snd (stale_step ev p)) = ip_to_fill p" "delivered (snd (stale_step ev p)) = delivered p"
  by (auto simp: stale_step_def split: market_event.splits)

lemma invalid_parts [simp]:
  "ip_detector (pipe_invalid ts st code dt b p) = ip_detector p" "ip_aggregator (pipe_invalid ts st code dt b p) = ip_aggregator p"
  "ip_hook_calls (pipe_invalid ts st code dt b p) = ip_hook_calls p" "ip_to_fill (pipe_invalid ts st code dt b p) = ip_to_fill p"
  "delivered (pipe_invalid ts st code dt b p) = delivered p"
  by (simp_all add: pipe_invalid_def)

lemma dispatch_holds:
  assumes su: "setup_ok E d0" and ok: "pipe_ok E d0 k q p" and v: "violations E ev = Inr []"
  shows "holds True (\<lambda>r. pipe_ok E d0 k q (fst r)) (dispatch E outcome ev p)"
  using candle_holds [OF su ok] trade_holds [OF ok] tick_holds [OF ok] v by (cases ev) (simp_all add: dispatch_def)

lemma accept_event_holds:
  assumes su: "setup_ok E d0" and ok: "pipe_ok E d0 k q p"
  shows "holds True (\<lambda>r. pipe_ok E d0 k q (fst r)) (accept_event E b ev p)"
proof (cases "violations E ev")
  case (Inl e)
  then show ?thesis by (simp add: accept_event_def pbind_def)
next
  case (Inr bad)
  obtain dd oc where o: "offer (pe_digest E) (ip_dedup p) ev = (dd, oc)" by fastforce
  obtain st p2 where s: "stale_step ev (p\<lparr>ip_dedup := dd\<rparr>) = (st, p2)" by fastforce
  have "p2 = snd (stale_step ev (p\<lparr>ip_dedup := dd\<rparr>))" using s by simp
  then have p2: "pipe_ok E d0 k q p2" using ok by (simp add: pipe_ok_def)
  then have p3: "pipe_ok E d0 k q (sink (On_event ev) (count_event b ev p2))" by (simp add: pipe_ok_def)
  show ?thesis
  proof (cases "bad = [] \<and> oc \<noteq> Dd_duplicate \<and> \<not> st")
    case False
    then show ?thesis using Inr o s ok p2 by (auto simp: accept_event_def pbind_def pipe_ok_def Let_def)
  next
    case True
    have "accept_event E b ev p = pbind (dispatch E oc ev (sink (On_event ev) (count_event b ev p2))) (\<lambda>(p3, changed). Some (Inr (p3, Some changed)))"
      using True Inr o s by (simp add: accept_event_def pbind_def Let_def)
    moreover have "violations E ev = Inr []" using Inr True by simp
    ultimately show ?thesis by (simp only:) (rule holds_pbind [OF dispatch_holds [OF su p3]], assumption, simp add: split_beta)
  qed
qed

lemma accept_filling_holds:
  assumes "setup_ok E d0" "pipe_ok E d0 k q p"
  shows "holds True (\<lambda>p'. \<exists>q'. pipe_ok E d0 k q' p') (accept_filling E ev p)"
  unfolding accept_filling_def
  by (rule holds_pbind [OF accept_event_holds [OF assms]]) (auto simp: pipe_ok_def split_beta split: option.splits)

lemma missing_owned:
  assumes "books_ok d" "dget (gd_gaps d) gid = Some g" "gr_stream g = KLINES" "gd_missing_keys d gid = Inr ms" "m \<in> set ms"
  shows "owned d KLINES \<noteq> {}"
proof -
  from assms(4,5) obtain ms0 where "dget (gd_missing d) gid = Some ms0" "m \<in> set ms0" by (auto simp: gd_missing_keys_def split: option.splits)
  with assms(2,3) have "m \<in> reported d KLINES" by (auto simp: reported_def)
  with reported_owned [OF assms(1)] show ?thesis by blast
qed

lemma core_books: "core_ok E d0 d a out \<Longrightarrow> books_ok d"
  by (erule core_okE) (simp add: gd_at_def at_events_def)

lemma skip_missing_holds:
  assumes ok: "pipe_ok E d0 k q p"
  shows "holds True (pipe_ok E d0 k q) (skip_missing gid p)"
proof (cases "dget (gd_gaps (ip_detector p)) gid")
  case None
  then show ?thesis by (simp add: skip_missing_def)
next
  case (Some g)
  show ?thesis
  proof (cases "gr_stream g = KLINES")
    case False
    then show ?thesis using Some ok by (simp add: skip_missing_def)
  next
    case True
    show ?thesis
    proof (cases "gd_missing_keys (ip_detector p) gid")
      case (Inl e)
      then show ?thesis using Some True by (simp add: skip_missing_def)
    next
      case (Inr ms)
      have "holds True (\<lambda>s. pipe_ok E d0 k q s \<and> ip_detector s = ip_detector p) (each skip_minute ms p)"
      proof (rule holds_each)
        fix m s assume m: "m \<in> set ms" and s: "pipe_ok E d0 k q s \<and> ip_detector s = ip_detector p"
        have "owned (ip_detector s) KLINES \<noteq> {}" using missing_owned [OF _ Some True Inr m] core_books ok s by (auto simp: pipe_ok_def)
        from skip_core [OF _ this, of E d0 "ip_aggregator s" "delivered s" m m] s obtain b rel
          where "ag_skip (ip_aggregator s) m m = Some (Inr (b, rel))" "core_ok E d0 (ip_detector s) b (delivered s @ rel)" by (auto simp: pipe_ok_def)
        then show "holds True (\<lambda>s. pipe_ok E d0 k q s \<and> ip_detector s = ip_detector p) (skip_minute m s)"
          using s by (simp add: skip_minute_def pbind_def pipe_ok_def)
      qed (use ok in simp)
      then show ?thesis using Some True Inr by (auto simp: skip_missing_def intro: holds_weaken)
    qed
  qed
qed

section \<open>Filling ends\<close>

lemma begin_holds:
  assumes "pipe_ok E d0 k q p"
  shows "holds True (\<lambda>r. pipe_ok E d0 k q (fst r)) (begin_gap E gid p)"
proof (cases "begin_fill (pipe_clock E p) (ip_detector p) gid")
  case (Inl e)
  then show ?thesis by (simp add: begin_gap_def pbind_def)
next
  case (Inr r)
  with pipe_detector [OF assms, of "pipe_clock E p" "D_begin gid"] have "pipe_ok E d0 k q (p\<lparr>ip_detector := fst r\<rparr>)" by simp
  then show ?thesis using Inr by (simp add: begin_gap_def pbind_def split_beta pipe_ok_def)
qed

lemma resolve_holds:
  assumes "pipe_ok E d0 k q p"
  shows "holds True (\<lambda>r. pipe_ok E d0 k q (fst r)) (resolve_gap E gid p)"
proof (cases "gd_resolve (pipe_clock E p) (ip_detector p) gid")
  case (Inl e)
  then show ?thesis by (simp add: resolve_gap_def pbind_def)
next
  case (Inr r)
  with pipe_detector [OF assms, of "pipe_clock E p" "D_resolve gid"] have "pipe_ok E d0 k q (p\<lparr>ip_detector := fst r\<rparr>)" by simp
  then show ?thesis using Inr by (simp add: resolve_gap_def pbind_def split_beta pipe_ok_def)
qed

text \<open>A gap costs at most one call of the hook; a hook that answers with no events adds no gaps.\<close>

definition filled_from :: "pipe_env \<Rightarrow> gap_detector \<Rightarrow> nat \<Rightarrow> nat list \<Rightarrow> ingest_pipeline \<Rightarrow> bool" where
  "filled_from E d0 k q p \<longleftrightarrow> pipe_ok E d0 k q p
     \<or> ((\<exists>q'. pipe_ok E d0 (Suc k) q' p) \<and> (\<exists>hook. pe_backfill E = Some hook \<and> ((\<forall>g. fr_events (hook_result (hook k g)) = []) \<longrightarrow> ip_to_fill p = q)))"

lemma fill_one_holds:
  assumes su: "setup_ok E d0" and ok: "pipe_ok E d0 k q p"
  shows "holds True (filled_from E d0 k q) (fill_one E gid p)"
proof (cases "dget (gd_gaps (ip_detector p)) gid")
  case None
  then show ?thesis by (simp add: fill_one_def)
next
  case (Some g0)
  show ?thesis
  proof (cases "gr_status g0 = GS_FILLED \<or> pe_backfill E = None")
    case True
    then show ?thesis using Some ok holds_weaken [OF skip_missing_holds [OF ok, of gid]] by (auto simp: fill_one_def filled_from_def)
  next
    case False
    then obtain hook where h: "pe_backfill E = Some hook" by blast
    have rest: "holds True (filled_from E d0 k q) (pbind (resolve_gap E gid p2) (\<lambda>(p3, g'). if gr_status g' \<noteq> GS_FILLED then skip_missing gid p3 else Some (Inr p3)))"
      if "pipe_ok E d0 (Suc k) q' p2" "(\<forall>g. fr_events (hook_result (hook k g)) = []) \<longrightarrow> q' = q" for p2 q'
    proof (rule holds_pbind [OF resolve_holds [OF that(1), of gid]])
      fix r :: "ingest_pipeline \<times> gap_record" assume r: "pipe_ok E d0 (Suc k) q' (fst r)"
      have f: "filled_from E d0 k q s" if "pipe_ok E d0 (Suc k) q' s" for s
        using that h \<open>_ \<longrightarrow> q' = q\<close> unfolding filled_from_def by (auto simp: pipe_ok_def)
      show "holds True (filled_from E d0 k q) (case r of (p3, g') \<Rightarrow> if gr_status g' \<noteq> GS_FILLED then skip_missing gid p3 else Some (Inr p3))"
        using holds_weaken [OF skip_missing_holds [OF r, of gid] f] f r by (simp add: split_beta)
    qed
    have "holds True (filled_from E d0 k q) (pbind (begin_gap E gid p) (\<lambda>(p1, g). let res = hook_result (hook (ip_hook_calls p1) g) in
        pbind (each (accept_filling E) (fr_events res) (count_hook res p1)) (\<lambda>p2. pbind (resolve_gap E gid p2)
          (\<lambda>(p3, g'). if gr_status g' \<noteq> GS_FILLED then skip_missing gid p3 else Some (Inr p3)))))"
    proof (rule holds_pbind [OF begin_holds [OF ok, of gid]])
      fix r :: "ingest_pipeline \<times> gap_record" assume r: "pipe_ok E d0 k q (fst r)"
      let ?res = "hook_result (hook (ip_hook_calls (fst r)) (snd r))"
      have c: "pipe_ok E d0 (Suc k) q (count_hook ?res (fst r))" using r by (simp add: pipe_ok_def count_hook_def)
      have "holds True (\<lambda>p2. \<exists>q'. pipe_ok E d0 (Suc k) q' p2 \<and> (fr_events ?res = [] \<longrightarrow> q' = q)) (each (accept_filling E) (fr_events ?res) (count_hook ?res (fst r)))"
      proof (cases "fr_events ?res = []")
        case True
        then show ?thesis using c by auto
      next
        case False
        have "holds True (\<lambda>p2. \<exists>q'. pipe_ok E d0 (Suc k) q' p2) (each (accept_filling E) (fr_events ?res) (count_hook ?res (fst r)))"
          by (rule holds_each) (use c accept_filling_holds [OF su] in blast)+
        then show ?thesis using False by simp
      qed
      then show "holds True (filled_from E d0 k q) (case r of (p1, g) \<Rightarrow> let res = hook_result (hook (ip_hook_calls p1) g) in
        pbind (each (accept_filling E) (fr_events res) (count_hook res p1)) (\<lambda>p2. pbind (resolve_gap E gid p2)
          (\<lambda>(p3, g'). if gr_status g' \<noteq> GS_FILLED then skip_missing gid p3 else Some (Inr p3))))"
        unfolding split_beta Let_def
      proof (rule holds_pbind)
        fix p2 assume "\<exists>q'. pipe_ok E d0 (Suc k) q' p2 \<and> (fr_events ?res = [] \<longrightarrow> q' = q)"
        moreover have "ip_hook_calls (fst r) = k" using r by (simp add: pipe_ok_def)
        ultimately show "holds True (filled_from E d0 k q) (pbind (resolve_gap E gid p2) (\<lambda>p. if gr_status (snd p) \<noteq> GS_FILLED then skip_missing gid (fst p) else Some (Inr (fst p))))"
          using rest [unfolded split_beta] by auto
      qed
    qed
    then show ?thesis using Some False h by (simp add: fill_one_def)
  qed
qed

end
