(* ===== verification/PipelineRuns.thy ===== *)
theory PipelineRuns
  imports PipelineProps
begin

text \<open>
  Runs of the pipeline: the queue of gaps is worked off, every command of a session keeps the state of \<open>PipelineProps\<close>, and what a
  finished session has delivered and reported.
\<close>

section \<open>The queue of gaps\<close>

text \<open>A hook is exhausted from its \<open>n\<close>-th call on when it answers without events from there; without a hook there is nothing to ask.\<close>

definition hook_exhausted :: "pipe_env \<Rightarrow> nat \<Rightarrow> bool" where
  "hook_exhausted E n \<longleftrightarrow> (\<forall>hook. pe_backfill E = Some hook \<longrightarrow> (\<forall>k g. n \<le> k \<longrightarrow> fr_events (hook_result (hook k g)) = []))"

definition settled :: "pipe_env \<Rightarrow> gap_detector \<Rightarrow> ingest_pipeline \<Rightarrow> bool" where
  "settled E d0 p \<longleftrightarrow> (\<exists>k q. pipe_ok E d0 k q p)"

lemma settledI: "core_ok E d0 (ip_detector p) (ip_aggregator p) (delivered p) \<Longrightarrow> settled E d0 p"
  by (simp add: settled_def pipe_ok_def)

lemma settledD: "settled E d0 p \<Longrightarrow> core_ok E d0 (ip_detector p) (ip_aggregator p) (delivered p)"
  by (auto simp: settled_def pipe_ok_def)

lemma fill_one_settled:
  assumes "setup_ok E d0" "settled E d0 p"
  shows "holds True (settled E d0) (fill_one E gid p)"
proof -
  from assms(2) obtain k q where "pipe_ok E d0 k q p" by (auto simp: settled_def)
  from fill_one_holds [OF assms(1) this] show ?thesis by (rule holds_weaken) (auto simp: filled_from_def settled_def)
qed

lemma settled_parts [simp]:
  "settled E d0 (p\<lparr>ip_to_fill := q\<rparr>) = settled E d0 p" "settled E d0 (sink (On_gap g) p) = settled E d0 p"
  "settled E d0 (sink (On_disconnect dc) p) = settled E d0 p" "settled E d0 (with_health f p) = settled E d0 p"
  "settled E d0 (p\<lparr>ip_watchdogs := w\<rparr>) = settled E d0 p" "settled E d0 (p\<lparr>ip_disconnects := ds\<rparr>) = settled E d0 p"
  "settled E d0 (pipe_invalid ts st code dt b p) = settled E d0 p" "settled E d0 (fold (gap_noted E) gs p) = settled E d0 p"
  "settled E d0 (p\<lparr>ip_now := t, ip_regressions := n\<rparr>) = settled E d0 p"
  by (simp_all add: settled_def pipe_ok_def)

lemma fill_loop_keeps:
  assumes "pipe_fill_loop E p = Some r"
  shows "setup_ok E d0 \<longrightarrow> settled E d0 p \<longrightarrow> (\<forall>p'. r = Inr p' \<longrightarrow> settled E d0 p')"
proof (rule pipe_fill_loop.raw_induct [OF _ assms], intro impI allI)
  fix loop and E :: pipe_env and p r p'
  assume ih: "\<And>E p r. loop E p = Some r \<Longrightarrow> setup_ok E d0 \<longrightarrow> settled E d0 p \<longrightarrow> (\<forall>p'. r = Inr p' \<longrightarrow> settled E d0 p')"
    and step: "(case ip_to_fill p of [] \<Rightarrow> Some (Inr p) | gid # rest \<Rightarrow> (case fill_one E gid (p\<lparr>ip_to_fill := rest\<rparr>) of None \<Rightarrow> None
      | Some r \<Rightarrow> (case r of Inl e \<Rightarrow> Some (Inl e) | Inr p' \<Rightarrow> loop E p'))) = Some r"
    and su: "setup_ok E d0" and ok: "settled E d0 p" and r: "r = Inr p'"
  show "settled E d0 p'"
  proof (cases "ip_to_fill p")
    case Nil
    then show ?thesis using step ok r by simp
  next
    case (Cons gid rest)
    then obtain p1 where p1: "fill_one E gid (p\<lparr>ip_to_fill := rest\<rparr>) = Some (Inr p1)" "loop E p1 = Some r"
      using step r by (auto split: option.splits sum.splits)
    have "settled E d0 p1" using fill_one_settled [OF su, of "p\<lparr>ip_to_fill := rest\<rparr>" gid] ok p1(1) by (simp add: holds_def)
    with ih [OF p1(2)] su r show ?thesis by simp
  qed
qed

text \<open>Every gap taken from the queue either costs no call, or costs one; once the hook is exhausted no gap joins the queue.\<close>

lemma filled_cases:
  assumes "filled_from E d0 k q p" "hook_exhausted E n"
  obtains "pipe_ok E d0 k q p" | q' where "pipe_ok E d0 (Suc k) q' p" "k < n" | "pipe_ok E d0 (Suc k) q p" "n \<le> k"
proof (cases "pipe_ok E d0 k q p")
  case False
  with assms(1) obtain q' hook where q': "pipe_ok E d0 (Suc k) q' p" and h: "pe_backfill E = Some hook"
    "(\<forall>g. fr_events (hook_result (hook k g)) = []) \<longrightarrow> ip_to_fill p = q" unfolding filled_from_def by blast
  show ?thesis
  proof (cases "n \<le> k")
    case True
    then have "ip_to_fill p = q" using h assms(2) by (simp add: hook_exhausted_def)
    with q' have "pipe_ok E d0 (Suc k) q p" by (simp add: pipe_ok_def)
    with True that(3) show ?thesis by blast
  qed (use q' that(2) in simp)
qed (use that(1) in blast)

lemma fill_loop_returns:
  assumes su: "setup_ok E d0" and hk: "hook_exhausted E n"
  shows "pipe_ok E d0 k q p \<Longrightarrow> pipe_fill_loop E p \<noteq> None"
proof (induction "(n - k, length q)" arbitrary: k q p rule: wf_induct_rule [OF wf_lex_prod [OF wf_less wf_less]])
  case (1 k q p)
  have ih: "pipe_fill_loop E p' \<noteq> None" if "n - k' < n - k \<or> n - k' = n - k \<and> length q' < length q" "pipe_ok E d0 k' q' p'" for k' q' p'
    using "1.hyps" [of k' q' p'] that by auto
  show ?case
  proof (cases q)
    case Nil
    then show ?thesis using 1(2) by (simp add: pipe_ok_def pipe_fill_loop.simps)
  next
    case (Cons gid rest)
    have "pipe_ok E d0 k rest (p\<lparr>ip_to_fill := rest\<rparr>)" using 1(2) by (simp add: pipe_ok_def)
    from fill_one_holds [OF su this, of gid] have r: "fill_one E gid (p\<lparr>ip_to_fill := rest\<rparr>) \<noteq> None"
      and f: "\<And>p'. fill_one E gid (p\<lparr>ip_to_fill := rest\<rparr>) = Some (Inr p') \<Longrightarrow> filled_from E d0 k rest p'" by (simp_all add: holds_def)
    have "pipe_fill_loop E p' \<noteq> None" if "fill_one E gid (p\<lparr>ip_to_fill := rest\<rparr>) = Some (Inr p')" for p'
    proof (rule filled_cases [OF f [OF that] hk])
      show "pipe_ok E d0 k rest p' \<Longrightarrow> ?thesis" by (rule ih [of k rest]) (use Cons in simp)
      show "pipe_ok E d0 (Suc k) q' p' \<Longrightarrow> k < n \<Longrightarrow> ?thesis" for q' by (rule ih [of "Suc k" q']) linarith
      show "pipe_ok E d0 (Suc k) rest p' \<Longrightarrow> n \<le> k \<Longrightarrow> ?thesis" by (rule ih [of "Suc k" rest]) (use Cons in simp)
    qed
    moreover have "ip_to_fill p = gid # rest" using 1(2) Cons by (simp add: pipe_ok_def)
    ultimately show ?thesis using r by (auto simp: pipe_fill_loop.simps [of E p] split: option.splits sum.splits)
  qed
qed

text \<open>What is asked of a run: it keeps the state, and it returns when the hook is exhausted at some call.\<close>

definition tired :: "pipe_env \<Rightarrow> bool" where
  "tired E \<longleftrightarrow> (\<exists>n. hook_exhausted E n)"

abbreviation keeps :: "pipe_env \<Rightarrow> gap_detector \<Rightarrow> ingest_pipeline result option \<Rightarrow> bool" where
  "keeps E d0 \<equiv> holds (tired E) (settled E d0)"

lemma on_gaps_keeps:
  assumes "setup_ok E d0" "settled E d0 p"
  shows "keeps E d0 (on_gaps E gs p)"
proof -
  have p: "settled E d0 (fold (gap_noted E) gs p)" using assms(2) by simp
  then obtain k q where "pipe_ok E d0 k q (fold (gap_noted E) gs p)" by (auto simp: settled_def)
  with fill_loop_returns [OF assms(1)] have "tired E \<longrightarrow> on_gaps E gs p \<noteq> None" unfolding tired_def on_gaps_def by metis
  moreover have "settled E d0 p'" if "on_gaps E gs p = Some (Inr p')" for p'
    using fill_loop_keeps [of E "fold (gap_noted E) gs p" "Inr p'" d0] that assms(1) p by (simp add: on_gaps_def)
  ultimately show ?thesis by (simp add: holds_def)
qed

section \<open>Every command\<close>

lemma must_weaken: "holds True Q m \<Longrightarrow> holds must Q m"
  by (simp add: holds_def)

lemma accept_keeps:
  assumes su: "setup_ok E d0" and ok: "settled E d0 p"
  shows "keeps E d0 (accept E ev p)"
proof -
  from ok obtain k q where "pipe_ok E d0 k q p" by (auto simp: settled_def)
  from must_weaken [OF accept_event_holds [OF su this, of True ev]] show ?thesis unfolding accept_def
  proof (rule holds_pbind)
    fix r :: "ingest_pipeline \<times> gap_record list option" assume "pipe_ok E d0 k q (fst r)"
    then have s: "settled E d0 (fst r)" by (auto simp: settled_def)
    show "keeps E d0 (case r of (p', None) \<Rightarrow> Some (Inr p') | (p', Some gs) \<Rightarrow> on_gaps E gs p')"
      using on_gaps_keeps [OF su s] s by (auto split: prod.splits option.splits)
  qed
qed

lemma flush_gaps_keeps:
  assumes su: "setup_ok E d0" and ok: "settled E d0 p"
  shows "keeps E d0 (flush_gaps E p)"
proof -
  obtain d' gs where f: "gd_flush (pipe_clock E p) (ip_detector p) = (d', gs)" by fastforce
  from ok obtain k q where "pipe_ok E d0 k q p" by (auto simp: settled_def)
  from pipe_detector [OF this, of "pipe_clock E p" D_flush d'] f have "settled E d0 (p\<lparr>ip_detector := d'\<rparr>)" by (auto simp: settled_def)
  from on_gaps_keeps [OF su this] f show ?thesis by (simp add: flush_gaps_def)
qed

lemma disconnect_keeps:
  assumes su: "setup_ok E d0" and ok: "settled E d0 p"
  shows "keeps E d0 (pipe_disconnect E dc watchdog p)"
  using flush_gaps_keeps [OF su] ok by (simp add: pipe_disconnect_def Let_def)

lemma poll_keeps:
  assumes su: "setup_ok E d0" and ok: "settled E d0 p"
  shows "keeps E d0 (poll_watchdogs E now p)"
  unfolding poll_watchdogs_def
proof (rule holds_each [where Q = "settled E d0", OF ok])
  fix cw s assume "settled E d0 s"
  then show "keeps E d0 (poll_watchdog E now cw s)"
    using disconnect_keeps [OF su] by (auto simp: poll_watchdog_def Let_def split: prod.splits option.splits)
qed

lemma beat_keeps: "beat_conn E conn t p = Inr p' \<Longrightarrow> settled E d0 p \<Longrightarrow> settled E d0 p'"
  by (auto simp: beat_conn_def elim!: rbind_InrE split: option.splits)

lemma frame_keeps:
  assumes su: "setup_ok E d0" and ok: "settled E d0 p"
  shows "keeps E d0 (on_raw_frame E conn t stream data p)"
  unfolding on_raw_frame_def
proof (rule holds_pbind [where Q = "settled E d0"])
  show "keeps E d0 (Some (beat_conn E conn t (with_health (\<lambda>h. on_frame h conn t) p)))"
    using beat_keeps ok by (auto simp: holds_def)
  fix p1 assume "settled E d0 p1"
  then show "keeps E d0 (case normalize_binance (pe_uid E) stream data t (pe_ref E) (pe_src E) of Inl NKeyError \<Rightarrow> Some (Inl KeyError)
     | Inl e \<Rightarrow> Some (Inr (pipe_invalid t stream (norm_code e) (pe_text E e) None p1)) | Inr ev \<Rightarrow> accept E ev p1)"
    using accept_keeps [OF su] by (auto split: sum.splits norm_error.splits)
qed

lemma control_keeps:
  assumes su: "setup_ok E d0" and ok: "settled E d0 p"
  shows "keeps E d0 (on_control E conn t event detail p)"
proof -
  have "settled E d0 (with_watchdog conn f p)" for f using ok by (simp add: with_watchdog_def split: option.split)
  with disconnect_keeps [OF su this] ok show ?thesis by (simp add: on_control_def Let_def)
qed

lemma observe_keeps [simp]: "settled E d0 (frame_clock_observe E p t) = settled E d0 p"
  by (cases "pe_clock E") (simp_all only: frame_clock_observe_def option.case settled_parts)

lemma step_keeps:
  assumes su: "setup_ok E d0" and ok: "settled E d0 p"
  shows "keeps E d0 (pipe_step E c p)"
proof (cases c)
  case (P_item it)
  have "keeps E d0 (on_item E it p')" if "settled E d0 p'" for p'
    using frame_keeps [OF su that] control_keeps [OF su that] by (cases it) simp_all
  moreover have "keeps E d0 (if pe_heartbeat E \<noteq> None then poll_watchdogs E (item_ts it) (frame_clock_observe E p (item_ts it))
      else Some (Inr (frame_clock_observe E p (item_ts it))))" using poll_keeps [OF su] ok by simp
  ultimately show ?thesis unfolding P_item by (simp only: pipe_step.simps process_item_def Let_def) (rule holds_pbind)
next
  case (P_event ev)
  then show ?thesis using accept_keeps [OF su] ok by (simp add: process_event_def)
qed

lemma run_keeps:
  assumes su: "setup_ok E d0" and ok: "settled E d0 p"
  shows "keeps E d0 (each (pipe_step E) cs p)"
  by (rule holds_each [where Q = "settled E d0", OF ok]) (rule step_keeps [OF su])

lemma pipeline_init_ok:
  assumes "pipeline_init E t0 window grace_ms reorder = Inr p"
  shows "setup_ok E (ip_detector p) \<and> settled E (ip_detector p) p \<and> gd_grace_ns (ip_detector p) = grace_ms * NS_PER_MS"
proof -
  from assms obtain ms dd det ag where tf: "tf_ms (pe_tf E) = Inr ms" and det: "detector_init (sr_symbol_canon (pe_ref E)) (pe_tf E) grace_ms reorder = Inr det"
    and ag: "aggregator_init (pe_tf E) (Some (sr_symbol_canon (pe_ref E))) True None 100000 = Inr ag"
    and p: "ip_detector p = det" "ip_aggregator p = ag" "ip_sink p = []"
    by (auto simp: pipeline_init_def as_result_def elim!: rbind_InrE split: sum.splits norm_error.splits)
  note d = detector_init_at [OF det]
  have tf_ns: "tf_ns_of E = ms * NS_PER_MS" using tf by (simp add: tf_ns_of_def)
  moreover have "gd_tf_ns det = ms * NS_PER_MS" using det tf by (auto simp: detector_init_def elim!: rbind_InrE)
  ultimately have su: "setup_ok E det" using d tf by (simp add: setup_ok_def)
  have a: "ag_at ag [] None" "ag_tf ag = pe_tf E" "ag_instrument ag = Some (sr_symbol_canon (pe_ref E))" "ag_tf_ns ag = tf_ns_of E" "ag_held ag = []"
    using init_ok [OF ag] ag tf tf_ns by (auto simp: ag_at_def ag_core_def aggregator_init_def elim!: rbind_InrE)
  have "core_ok E det det ag []"
    by (rule core_okI [OF d(1)]) (use a in \<open>simp_all add: first_open_def\<close>)
  then have "settled E det p" using p by (intro settledI) (simp add: delivered_def map_filter_def)
  with su d(5) p show ?thesis by simp
qed

section \<open>A finished session\<close>

lemma settled_minutes:
  assumes su: "setup_ok E d0" and ok: "settled E d0 p"
    and flat: "out = delivered p @ snd (ag_flush (ip_aggregator p))" and lost: "lost = reported (ip_detector p) KLINES"
    and got: "m0 \<in> set (opens out) \<union> lost" "m0 \<le> m" and m: "tf_ns_of E dvd m" "gd_latest (ip_detector p) = Some l" "m + tf_ns_of E + gd_grace_ns d0 \<le> l"
  shows "m \<in> set (opens out) \<longleftrightarrow> m \<notin> lost"
  using settledD [OF ok]
proof (rule core_okE)
  fix ids ks ts
  assume at: "gd_at d0 (ip_detector p) ids ks ts" and ag: "ag_at (ip_aggregator p) (delivered p) (first_open ks)"
    and grid: "\<forall>c \<in> set ks. tf_ns_of E dvd cd_open_time_ns c" and tf: "ag_tf_ns (ip_aggregator p) = tf_ns_of E"
    and old: "\<And>m. m \<in> set (opens (delivered p)) \<or> dget (ag_held (ip_aggregator p)) m \<noteq> None \<Longrightarrow> m \<in> closed_opens ks"
    and all: "\<And>f m. first_open ks = Some f \<Longrightarrow> m \<in> closed_opens ks \<Longrightarrow> f \<le> m \<Longrightarrow> m \<in> set (opens (delivered p)) \<or> dget (ag_held (ip_aggregator p)) m \<noteq> None"
  let ?d = "ip_detector p" and ?a = "ip_aggregator p"
  have out: "x \<in> set (opens out) \<longleftrightarrow> x \<in> set (opens (delivered p)) \<or> dget (ag_held ?a) x \<noteq> None" for x
    using flush_at [OF ag] unfolding flat by auto
  have e: "same_setup d0 ?d" "books_ok ?d" "sweeps_at ?d (first_open ks) (closed_opens ks)" "timed ?d (first_open ks)" "exhausted ?d"
    using at by (simp_all add: gd_at_def at_events_def)
  have s: "gd_tf_ns ?d = tf_ns_of E" "gd_grace_ns ?d = gd_grace_ns d0" using e(1) su by (simp_all add: same_setup_def setup_ok_def)
  have step: "0 < gd_tf_ns ?d" using e(2) by (simp add: books_ok_def)
  have own: "lost = owned ?d KLINES" using reported_owned [OF e(2)] lost by simp
  show ?thesis
  proof (cases "first_open ks")
    case None
    then have "closed_opens ks = {}" by (simp add: first_open_def closed_opens_def split: if_splits)
    then have "x \<notin> set (opens out)" for x using old [of x] unfolding out by blast
    moreover have "lost = {}" using e(3) None own by (simp add: sweeps_at_def)
    ultimately show ?thesis using got(1) by simp
  next
    case (Some f)
    obtain k where k: "minutes_at ?d f (closed_opens ks) [] k" using e(3) Some by (auto simp: sweeps_at_def)
    have lost_eq: "lost = {x. f \<le> x \<and> tf_ns_of E dvd x - f \<and> x + tf_ns_of E + gd_grace_ns d0 \<le> l \<and> x \<notin> closed_opens ks}"
      using minutes_exact [OF k _ e(5) step m(2)] e(4) Some own s by simp
    have "f \<le> m0"
    proof (cases "m0 \<in> lost")
      case True
      then show ?thesis using lost_eq by simp
    next
      case False
      with got(1) have "m0 \<in> set (opens (delivered p)) \<or> dget (ag_held ?a) m0 \<noteq> None" using out by blast
      moreover obtain n where n: "ag_next ?a = Some n" "f \<le> n" "\<forall>x \<in> set (opens (delivered p)). f \<le> x" and a: "ag_ok ?a (delivered p)"
        using ag Some by (auto simp: ag_at_def ag_core_def)
      moreover have "n \<le> m0" if "dget (ag_held ?a) m0 \<noteq> None" using a n(1) that by (auto simp: ag_ok_def)
      ultimately show ?thesis by (meson order_trans)
    qed
    then have f: "f \<le> m" using got(2) by simp
    have "tf_ns_of E dvd f" using grid Some by (auto simp: first_open_def split: if_splits)
    then have "m \<in> lost \<longleftrightarrow> m \<notin> closed_opens ks" using lost_eq f m by (auto intro: dvd_diff)
    moreover have "m \<in> set (opens out) \<longleftrightarrow> m \<in> closed_opens ks" unfolding out using old all [OF Some _ f] by blast
    ultimately show ?thesis by blast
  qed
qed

lemma finish_splits:
  assumes "finish_pipeline E p1 = Some (Inr (p, rep))"
  obtains p2 where "flush_gaps E p1 = Some (Inr p2)" "ip_detector p = ip_detector p2" "delivered p = delivered p2 @ snd (ag_flush (ip_aggregator p2))"
proof -
  from assms obtain p2 dq where f: "flush_gaps E p1 = Some (Inr p2)" and q: "dq_scores E (flush_candles p2) = Inr (p, dq)"
    by (auto simp: finish_pipeline_def pbind_def split: option.splits sum.splits)
  from q have "ip_detector p = ip_detector (flush_candles p2) \<and> delivered p = delivered (flush_candles p2)"
    by (auto simp: dq_scores_def elim!: rbind_InrE split: if_splits)
  with f that show ?thesis by (simp add: flush_candles_def)
qed

text \<open>CX: After a finished session the delivered candles are in order, each minute once; and from the first minute that was delivered or
  reported lost on, every minute whose time is up at the exchange is delivered or stands in a gap record as missing, never both and
  never neither, whatever frames, reconnections, watchdogs and answers of the backfill the session had.\<close>

theorem every_minute_accounted:
  assumes "pipeline_init E t0 window grace_ms reorder = Inr p0" and "each (pipe_step E) cmds p0 = Some (Inr p1)"
    and "finish_pipeline E p1 = Some (Inr (p, rep))"
  shows "sorted_wrt (<) (opens (delivered p))
    \<and> (\<forall>m0 m l. m0 \<in> set (opens (delivered p)) \<union> reported (ip_detector p) KLINES \<longrightarrow> m0 \<le> m \<longrightarrow> tf_ns_of E dvd m
        \<longrightarrow> gd_latest (ip_detector p) = Some l \<longrightarrow> m + tf_ns_of E + grace_ms * NS_PER_MS \<le> l
        \<longrightarrow> (m \<in> set (opens (delivered p)) \<longleftrightarrow> m \<notin> reported (ip_detector p) KLINES))"
proof -
  let ?d0 = "ip_detector p0"
  have i: "setup_ok E ?d0" "settled E ?d0 p0" "gd_grace_ns ?d0 = grace_ms * NS_PER_MS" using pipeline_init_ok [OF assms(1)] by simp_all
  have p1: "settled E ?d0 p1" using run_keeps [OF i(1,2), of cmds] assms(2) by (simp add: holds_def)
  from finish_splits [OF assms(3)] obtain p2 where f: "flush_gaps E p1 = Some (Inr p2)" "ip_detector p = ip_detector p2"
    and out: "delivered p = delivered p2 @ snd (ag_flush (ip_aggregator p2))" .
  have p2: "settled E ?d0 p2" using flush_gaps_keeps [OF i(1) p1] f(1) by (simp add: holds_def)
  have "sorted_wrt (<) (opens (delivered p))" using settledD [OF p2] flush_at unfolding out by (auto elim: core_okE)
  with settled_minutes [OF i(1) p2 out refl] i(3) f(2) show ?thesis by auto
qed

text \<open>CX: A session always returns: whatever is fed to the pipeline, when the backfill has no more events to give from some call on (or
  there is none), every command and the end of the session answer, with a state or an error.\<close>

theorem session_returns:
  assumes "pipeline_init E t0 window grace_ms reorder = Inr p0"
    and "\<forall>hook. pe_backfill E = Some hook \<longrightarrow> (\<exists>n. \<forall>k \<ge> n. \<forall>g. fr_events (hook_result (hook k g)) = [])"
  shows "(\<exists>r. each (pipe_step E) cmds p0 = Some r) \<and> (\<exists>r. run_pipeline E items p0 = Some r)"
proof -
  let ?d0 = "ip_detector p0"
  have i: "setup_ok E ?d0" "settled E ?d0 p0" using pipeline_init_ok [OF assms(1)] by simp_all
  have t: "tired E" using assms(2) by (cases "pe_backfill E") (auto simp: tired_def hook_exhausted_def)
  have "holds True (\<lambda>r. True) (finish_pipeline E p)" if "settled E ?d0 p" for p
  proof -
    have "holds True (settled E ?d0) (flush_gaps E p)" using flush_gaps_keeps [OF i(1) that] t by simp
    then show ?thesis unfolding finish_pipeline_def
      by (rule holds_pbind) (auto simp: holds_def pbind_def split: sum.splits)
  qed
  moreover have "holds True (settled E ?d0) (each (process_item E) items p0)"
    by (rule holds_each [where Q = "settled E ?d0", OF i(2)]) (use step_keeps [OF i(1), where c = "P_item _"] t in simp)
  ultimately have "holds True (\<lambda>r. True) (run_pipeline E items p0)" unfolding run_pipeline_def by (rule holds_pbind [rotated])
  moreover have "holds True (settled E ?d0) (each (pipe_step E) cmds p0)" using run_keeps [OF i] t by simp
  ultimately show ?thesis by (auto simp: holds_def)
qed

end
