(* ===== verification/Spec2Isabelle.thy ===== *)
theory Spec2Isabelle
  imports RiskGuard BrokerProps NormalizeProps CandlesProps BackfillProps GapRuns Sizing EngineProps Journal Quality DataChecks Reconnect Retry RateLimit PipelineRuns
begin

text \<open>
  FuzzHelm, a service that collects market data of a derivatives venue, decides with fuzzy rules and trades on paper under
  automatic limits of risk. Paths are relative to \<^verbatim>\<open>src/src/fuzzhelm/\<close> of the repository.

  \<^bold>\<open>The program.\<close> Frames and REST rows are normalised into canonical objects (\<^verbatim>\<open>ingest/normalize.py\<close>), checked, deduplicated, assembled into closed
  candles; gaps are detected and filled. A closed candle enters the trading loop (\<^verbatim>\<open>backtest/engine.py\<close>, used by the backtest and by the
  worker): the broker executes what was ordered before, the account books the executions, the equity and the state machine of risk are
  updated, the indicators and six detectors are computed, the fuzzy engine turns their consensus into an intent, the sizer into a quantity,
  and the chain of risk rules allows, shrinks or vetoes it before the router sends an order to the venue.

  \<^bold>\<open>Theories and sources.\<close>
  \<^item> \<open>Prelude\<close> (exceptions of \<^verbatim>\<open>core/errors.py\<close>, results, ordered dictionaries, runs of steps and the locale \<open>step_invariant\<close>), \<open>Rounding\<close>
    (binary64 and the decimal contexts, with the locale \<open>rounding\<close>), \<open>Strings\<close>, \<open>Money\<close> (\<^verbatim>\<open>core/money.py\<close>, \<^verbatim>\<open>core/clock.py\<close>), \<open>Domain\<close> (\<^verbatim>\<open>core/enums.py\<close>, \<^verbatim>\<open>core/dto.py\<close>),
    \<open>Journal\<close> (\<^verbatim>\<open>core/digest.py\<close>, \<^verbatim>\<open>core/journal.py\<close>).
  \<^item> Risk: \<open>Verdict\<close>, \<open>RiskContext\<close>, \<open>Margin\<close>, \<open>KillSwitch\<close>, \<open>RiskState\<close>, \<open>RiskRules\<close>, \<open>RiskGuard\<close> for the files of \<^verbatim>\<open>risk/\<close>.
  \<^item> Execution: \<open>CostModel\<close>, \<open>Portfolio\<close>, \<open>PaperBroker\<close>, \<open>Router\<close> for \<^verbatim>\<open>execution/\<close>; \<open>BrokerRuns\<close>, \<open>BrokerProps\<close> are their properties over runs.
  \<^item> Data: \<open>Symbols\<close>, \<open>Normalize\<close>, \<open>NormalizeRest\<close>, \<open>Dedup\<close>, \<open>Candles\<close>, \<open>Backfill\<close>, \<open>GapDetector\<close>, \<open>Reconnect\<close>, \<open>Retry\<close>, \<open>RateLimit\<close> for \<^verbatim>\<open>ingest/\<close>;
    \<open>DataChecks\<close> for \<^verbatim>\<open>quality/invariants.py\<close> and \<^verbatim>\<open>ingest/quantize.py\<close>; \<open>Quality\<close> for \<^verbatim>\<open>quality/dq_score.py\<close> and \<^verbatim>\<open>quality/health.py\<close>; \<open>NormalizeProps\<close>,
    \<open>CandlesProps\<close>, \<open>BackfillProps\<close>, \<open>GapDetectorProps\<close>, \<open>GapRuns\<close> hold their properties.
  \<^item> Decision: \<open>Window\<close>, \<open>Indicators\<close>, \<open>Features\<close> for \<^verbatim>\<open>features/\<close>; \<open>Detectors\<close> for \<^verbatim>\<open>detectors/\<close>; \<open>Fuzzy\<close>, \<open>FuzzyRules\<close>, \<open>Mamdani\<close> for \<^verbatim>\<open>fuzzy/\<close>; \<open>Decision\<close> for
    \<^verbatim>\<open>decision/\<close>; \<open>Sizing\<close> for \<^verbatim>\<open>sizing/\<close>; \<open>IndicatorProps\<close>, \<open>FeatureProps\<close>, \<open>DetectorProps\<close>, \<open>MamdaniProps\<close> hold their properties.
  \<^item> The loop: \<open>Engine\<close> is \<^verbatim>\<open>TradingLoop\<close> of \<^verbatim>\<open>backtest/engine.py\<close>, phase by phase; \<open>EngineBar\<close> and \<open>EngineProps\<close> are what its steps and its runs keep.

  \<^bold>\<open>How the model corresponds to the code.\<close> A class is a record of its attributes, a method a function from the record to the updated record and
  its result, an enumeration a datatype, a dictionary the list of its items in insertion order. An exception is the left side of a result;
  a state after an exception is not described where the caller drops the object. An object with several entry points has a datatype of
  commands and a step function, and its properties hold over every sequence of commands.

  \<^bold>\<open>Numbers.\<close> Integers are unbounded in Python and \<open>int\<close> here. A \<^verbatim>\<open>Decimal\<close> is its rational value; every operation of the code rounds to the digits
  of the context, either the 28 of the default or the 38 of \<^verbatim>\<open>setup_decimal_context\<close>, and theorems hold for both. A quantum keeps coefficient
  and exponent where the text matters. A finite \<^verbatim>\<open>float\<close> is its rational value and every operation rounds with \<open>f64\<close>, in the order of the code;
  NaN and infinities are values of \<open>pyfloat\<close> where the code accepts or tests them. Overflow of an intermediate float is modelled only where
  a theory says so (\<open>Reconnect\<close>, \<open>Retry\<close>); elsewhere the ranges of the inputs exclude it.

  \<^bold>\<open>Parameters.\<close> Code that is not in the repository is an argument: the clock and the identifiers of orders (functions of the number of the
  reading), the venue and its answers, \<^verbatim>\<open>exp\<close>, \<^verbatim>\<open>log\<close>, \<^verbatim>\<open>pow\<close>, \<^verbatim>\<open>tanh\<close>, the dot product, median and percentile of numpy, the draws of generators, BLAKE2b,
  \<^verbatim>\<open>orjson.dumps\<close> and the date parser. A property that relies on one of them names what it needs (a monotone exponential, draws between
  their bounds, a clock that honours a pause).

  \<^bold>\<open>What the properties show.\<close> Risk: the chain of rules only shrinks, whatever its order; a breach halts, latches and flattens, and only an
  administrator releases; closing orders pass. Accounting: the identity of cash, the agreement of broker, account and loop, legality of
  fills, the liquidation price. The loop: under the latch it only reduces. Decision: the three inference paths agree, a validated rule base
  covers every input once, detectors and intents stay in range, the features are those of the last bars. Data: what the normaliser lets
  through is valid, what the aggregator releases is ordered and gapless, gaps are exactly what never came, the order of copies does not
  matter, the journal commits to its entries. Transport: retries are bounded and the rate limiter lets a request pass.

  \<^bold>\<open>Termination.\<close> Recursions are structural or have a measure. The drain of the aggregator and the waiting loop of the rate limiter are
  \<^verbatim>\<open>partial_function (option)\<close>; that they return is proved (\<open>aggregator_returns\<close>, \<open>acquire_pauses_once\<close>). The sweep of the gap detector has
  the fuel \<open>sweep_fuel\<close>, the number of minutes between its bounds, which every sweep needs at most.

  \<^bold>\<open>Not modelled.\<close> Input and output: HTTP interface, storage, workers, command line, websockets, REST transport, recording and replay of sessions,
  logging. Texts: narratives, error messages, paths of schema errors. Reading of configuration files (their bounds are modelled). Asyncio
  scheduling: the model runs one operation at a time, and what other coroutines do is a parameter where it matters. Statistics and the
  manifest of a finished backtest, plots, scripts. \<^verbatim>\<open>ingest/pipeline.py\<close> composes the modelled parts of the data path around callbacks; the
  parts are modelled, their composition is not.
\<close>

end
